(* ===== verification/Prelude.thy ===== *)
theory Prelude
  imports Complex_Main "HOL-Library.Multiset" "HOL-Library.AList" "HOL-Library.Char_ord"
    "HOL-Library.List_Lexorder" "HOL-Library.Product_Lexorder"
begin

text \<open>
  Shared ground of the development: the collections of simplification rules, Go's
  64-bit integers and clock values, and generic lemmas on lists and folds.

  Go's \<^verbatim>\<open>int\<close>, \<^verbatim>\<open>int64\<close> and
  \<^verbatim>\<open>time.Duration\<close> are two's complement 64-bit values. They are modelled by
  \<open>int\<close> with the wrap-around written out (\<open>wrap64\<close>) at every operation of the source
  that can leave the range. A \<^verbatim>\<open>time.Time\<close> is its count of nanoseconds since the
  epoch; its range is wider than 64 bits in Go, \<^verbatim>\<open>Add\<close> is exact, and
  \<^verbatim>\<open>Sub\<close> saturates at the ends of \<^verbatim>\<open>time.Duration\<close>.
\<close>

named_theorems gonum \<open>wrap-around and clock arithmetic inside the 64-bit range\<close>
named_theorems f64_bounds \<open>range rules of float64 expressions\<close>
named_theorems f64_mono \<open>monotonicity rules of float64 expressions\<close>

type_synonym i64 = int
type_synonym duration = int
type_synonym time = int

section \<open>64-bit integers\<close>

definition wrap64 :: "int \<Rightarrow> i64" where
  "wrap64 x = (x + 2 ^ 63) mod 2 ^ 64 - 2 ^ 63"

definition in_i64 :: "int \<Rightarrow> bool" where
  "in_i64 x \<longleftrightarrow> - (2 ^ 63) \<le> x \<and> x < 2 ^ 63"

lemma wrap64_in_range [simp]: "in_i64 (wrap64 x)"
  by (simp add: in_i64_def wrap64_def)

lemma wrap64_id [gonum]: "in_i64 x \<Longrightarrow> wrap64 x = x"
  by (simp add: in_i64_def wrap64_def)

lemma in_i64_0 [simp]: "in_i64 0"
  by (simp add: in_i64_def)

lemma wrap64_0 [simp]: "wrap64 0 = 0"
  by (simp add: wrap64_id)

lemma wrap64_wrap [simp]: "wrap64 (wrap64 x) = wrap64 x"
  by (simp add: wrap64_id)

lemma wrap64_add_left [simp]: "wrap64 (wrap64 a + b) = wrap64 (a + b)"
  unfolding wrap64_def by (simp add: algebra_simps mod_simps)

lemma wrap64_add_right [simp]: "wrap64 (a + wrap64 b) = wrap64 (a + b)"
  using wrap64_add_left [of b a] by (simp add: add.commute)

lemma in_i64_small: "- 9000000000000000000 \<le> x \<Longrightarrow> x \<le> 9000000000000000000 \<Longrightarrow> in_i64 x"
  by (simp add: in_i64_def)

text \<open>Go's integer division truncates towards zero.\<close>

definition tdiv :: "int \<Rightarrow> int \<Rightarrow> int" where
  "tdiv a b = sgn a * sgn b * (\<bar>a\<bar> div \<bar>b\<bar>)"

lemma tdiv_nonneg [gonum]: "0 \<le> a \<Longrightarrow> 0 < b \<Longrightarrow> tdiv a b = a div b"
  by (cases "a = 0") (auto simp: tdiv_def)

lemma tdiv_mono:
  assumes "a \<le> b" and "0 < c"
  shows "tdiv a c \<le> tdiv b c"
proof (cases "0 \<le> a")
  case True
  with assms show ?thesis by (simp add: tdiv_nonneg zdiv_mono1)
next
  case False
  then have a: "tdiv a c = - ((- a) div c)"
    using assms(2) by (simp add: tdiv_def)
  show ?thesis
  proof (cases "0 \<le> b")
    case True
    with assms(2) have "0 \<le> tdiv b c"
      by (simp add: tdiv_nonneg pos_imp_zdiv_nonneg_iff)
    moreover have "0 \<le> (- a) div c"
      using False assms(2) by (simp add: pos_imp_zdiv_nonneg_iff)
    ultimately show ?thesis using a by linarith
  next
    case nb: False
    then have "tdiv b c = - ((- b) div c)"
      using assms(2) by (simp add: tdiv_def)
    moreover have "(- b) div c \<le> (- a) div c"
      using assms by (intro zdiv_mono1) auto
    ultimately show ?thesis using a by linarith
  qed
qed

section \<open>Clock values\<close>

definition time_add :: "time \<Rightarrow> duration \<Rightarrow> time" where
  "time_add t d = t + d"

definition time_sub :: "time \<Rightarrow> time \<Rightarrow> duration" where
  "time_sub t u = max (- (2 ^ 63)) (min (2 ^ 63 - 1) (t - u))"

definition before :: "time \<Rightarrow> time \<Rightarrow> bool" where
  "before t u \<longleftrightarrow> t < u"

lemma time_sub_exact [gonum]: "in_i64 (t - u) \<Longrightarrow> time_sub t u = t - u"
  by (simp add: time_sub_def in_i64_def)

lemma time_sub_in_range [simp]: "in_i64 (time_sub t u)"
  by (auto simp: time_sub_def in_i64_def)

lemma time_sub_mono: "t \<le> t' \<Longrightarrow> u' \<le> u \<Longrightarrow> time_sub t u \<le> time_sub t' u'"
  by (auto simp: time_sub_def)

lemma time_sub_le: "0 \<le> t - u \<Longrightarrow> time_sub t u \<le> t - u"
  by (auto simp: time_sub_def)

lemma time_sub_pos_iff [simp]: "0 < time_sub t u \<longleftrightarrow> u < t"
  by (auto simp: time_sub_def)

lemma time_sub_nonpos_iff [simp]: "time_sub t u \<le> 0 \<longleftrightarrow> t \<le> u"
  by (auto simp: time_sub_def)

definition second :: duration where "second = 1000000000"
definition millisecond :: duration where "millisecond = 1000000"
definition minute :: duration where "minute = 60 * second"
definition hour :: duration where "hour = 60 * minute"

lemmas duration_units = second_def millisecond_def minute_def hour_def

section \<open>Lists, folds and runs\<close>

lemma fold_invariant_set:
  "P s \<Longrightarrow> (\<And>x s. x \<in> set xs \<Longrightarrow> P s \<Longrightarrow> P (f x s)) \<Longrightarrow> P (fold f xs s)"
  by (induction xs arbitrary: s) auto

lemma sum_list_nonneg_int: "(\<And>x. x \<in> set xs \<Longrightarrow> 0 \<le> (x::int)) \<Longrightarrow> 0 \<le> sum_list xs"
  by (induction xs) auto

lemma map_of_rev_distinct: "distinct (map fst xs) \<Longrightarrow> map_of (rev xs) = map_of xs"
  by (subst map_of_inject_set) (auto simp: rev_map [symmetric])

lemma set_update_cases: "x \<in> set (AList.update k v xs) \<Longrightarrow> x = (k, v) \<or> x \<in> set xs"
  by (induction xs) (auto split: if_splits)

lemma distinct_map_refine:
  assumes "distinct (map h xs)" and "\<And>x y. k x = k y \<Longrightarrow> h x = h y"
  shows "distinct (map k xs)"
  using assms(1) unfolding distinct_map inj_on_def using assms(2) by blast

lemma sort_key_perm:
  assumes "mset xs = mset ys" and "distinct (map key xs)"
  shows "sort_key key xs = sort_key key ys"
  using sort_key_inj_key_eq [of xs "sort_key key ys" key] assms by (simp add: distinct_map)

text \<open>
  Every stateful component of the program is a transition function driven by a sequence
  of events. The contract is stated once: an invariant that holds at the start and is
  kept by each step holds after every run.
\<close>

locale transition_system =
  fixes step :: "'e \<Rightarrow> 's \<Rightarrow> 's"
    and inv :: "'s \<Rightarrow> bool"
    and ok :: "'e \<Rightarrow> bool"
  assumes step_inv: "inv s \<Longrightarrow> ok e \<Longrightarrow> inv (step e s)"
begin

lemma run_inv: "inv s \<Longrightarrow> list_all ok es \<Longrightarrow> inv (fold step es s)"
  by (induction es arbitrary: s) (auto intro: step_inv)

lemma run_every_state:
  assumes "inv s" and "list_all ok es"
  shows "inv (fold step (take n es) s)"
proof (rule run_inv)
  show "inv s" by fact
  have "set (take n es) \<subseteq> set es" by (rule set_take_subset)
  with assms(2) show "list_all ok (take n es)" by (auto simp: list_all_iff)
qed

end

end
