(* ===== verification/Go_Float.thy ===== *)
theory Go_Float
  imports Prelude "HOL-Library.Log_Nat"
begin

text \<open>
  Go's \<^verbatim>\<open>float64\<close>: IEEE 754 binary64 with round-to-nearest-even, written over the
  rational numbers so that it stays executable. A value is a NaN, an infinity or a finite
  number; every arithmetic operation rounds its exact result once. The two zeros are
  identified: the modelled code compares floats, adds and multiplies them, and divides
  only by literals and by values it has checked not to be zero, so the sign of a zero is
  never observed. No operation is fused.
\<close>

section \<open>Rounding to 53 significant bits\<close>

definition pow2 :: "int \<Rightarrow> rat" where
  "pow2 e = (if 0 \<le> e then 2 ^ nat e else 1 / 2 ^ nat (- e))"

lemma pow2_powi: "pow2 e = 2 powi e"
  by (simp add: pow2_def power_int_def power_one_over inverse_eq_divide)

lemma pow2_pos [simp]: "0 < pow2 e"
  by (simp add: pow2_def)

lemma pow2_nonneg [simp]: "0 \<le> pow2 e"
  by (simp add: less_imp_le)

lemma pow2_neq0 [simp]: "pow2 e \<noteq> 0"
  using pow2_pos [of e] by linarith

lemma pow2_add: "pow2 (a + b) = pow2 a * pow2 b"
  by (simp add: pow2_powi power_int_add)

lemma pow2_minus: "pow2 (a - b) = pow2 a / pow2 b"
  by (simp add: pow2_powi power_int_diff)

lemma pow2_mono: "a \<le> b \<Longrightarrow> pow2 a \<le> pow2 b"
  by (simp add: pow2_powi power_int_increasing)

lemma pow2_less_iff [simp]: "pow2 a < pow2 b \<longleftrightarrow> a < b"
  by (metis pow2_mono linorder_not_less nless_le pow2_powi power_int_strict_increasing one_less_numeral_iff semiring_norm(76))

lemma pow2_le_iff [simp]: "pow2 a \<le> pow2 b \<longleftrightarrow> a \<le> b"
  by (meson linorder_not_less pow2_less_iff)

lemma pow2_nat: "pow2 (int n) = 2 ^ n"
  by (simp add: pow2_def)

lemma pow2_int: "0 \<le> e \<Longrightarrow> \<exists>k::int. pow2 e = of_int k"
  by (rule exI [of _ "2 ^ nat e"]) (simp add: pow2_def)

definition floor_log2 :: "rat \<Rightarrow> int" where
  "floor_log2 x =
     (let (n, d) = quotient_of x; e = bitlen n - bitlen d
      in if pow2 e \<le> x then e else e - 1)"

definition round_half_even :: "rat \<Rightarrow> int" where
  "round_half_even x =
     (let f = \<lfloor>x\<rfloor>; d = x - of_int f
      in if d < 1 / 2 then f else if 1 / 2 < d then f + 1
         else if even f then f else f + 1)"

definition quantum_exp :: "rat \<Rightarrow> int" where
  "quantum_exp x = max (floor_log2 \<bar>x\<bar> - 52) (- 1074)"

definition rnd :: "rat \<Rightarrow> rat" where
  "rnd x =
     (if x = 0 then 0
      else of_int (round_half_even (x / pow2 (quantum_exp x))) * pow2 (quantum_exp x))"

lemma bitlen_pow2:
  assumes "0 < (n::int)"
  shows "pow2 (bitlen n - 1) \<le> of_int n" and "of_int n < pow2 (bitlen n)"
proof -
  have b: "2 ^ nat (bitlen n - 1) \<le> n \<and> n < 2 ^ nat (bitlen n)"
    using bitlen_bounds [OF assms] .
  have l: "0 < bitlen n"
  proof (rule ccontr)
    assume "\<not> 0 < bitlen n"
    then have "nat (bitlen n) = 0" by simp
    with b assms show False by simp
  qed
  have "(of_int (2 ^ nat (bitlen n - 1)) :: rat) \<le> of_int n" using b by (simp only: of_int_le_iff)
  then show "pow2 (bitlen n - 1) \<le> of_int n" using l by (simp add: pow2_def)
  have "(of_int n :: rat) < of_int (2 ^ nat (bitlen n))" using b by (simp only: of_int_less_iff)
  then show "of_int n < pow2 (bitlen n)" using l by (simp add: pow2_def)
qed

lemma floor_log2_bounds:
  assumes "0 < x"
  shows "pow2 (floor_log2 x) \<le> x" and "x < pow2 (floor_log2 x + 1)"
proof -
  obtain n d where q: "quotient_of x = (n, d)" by force
  have d: "0 < d" and x: "x = of_int n / of_int d"
    using quotient_of_denom_pos [OF q] quotient_of_div [OF q] by auto
  have n: "0 < n"
    using assms d x by (simp add: zero_less_divide_iff)
  let ?e = "bitlen n - bitlen d"
  have lo: "pow2 (?e - 1) \<le> x"
  proof -
    have "pow2 (bitlen n - 1) / pow2 (bitlen d) \<le> of_int n / of_int d"
      using bitlen_pow2 [OF n] bitlen_pow2 [OF d] n d by (intro frac_le) auto
    then show ?thesis by (simp add: x flip: pow2_minus) (simp add: algebra_simps)
  qed
  have hi: "x < pow2 (?e + 1)"
  proof -
    have "of_int n / of_int d < pow2 (bitlen n) / pow2 (bitlen d - 1)"
      using bitlen_pow2 [OF n] bitlen_pow2 [OF d] n by (intro frac_less) auto
    then show ?thesis by (simp add: x flip: pow2_minus) (simp add: algebra_simps)
  qed
  show "pow2 (floor_log2 x) \<le> x" and "x < pow2 (floor_log2 x + 1)"
    using lo hi by (auto simp: floor_log2_def q Let_def)
qed

lemma floor_log2_unique:
  assumes "pow2 e \<le> x" and "x < pow2 (e + 1)"
  shows "floor_log2 x = e"
proof -
  have x: "0 < x" using assms(1) pow2_pos [of e] by linarith
  note b = floor_log2_bounds [OF x]
  have "pow2 (floor_log2 x) < pow2 (e + 1)" using b(1) assms(2) by linarith
  moreover have "pow2 e < pow2 (floor_log2 x + 1)" using b(2) assms(1) by linarith
  ultimately show ?thesis by simp
qed

lemma floor_log2_mono:
  assumes "0 < x" and "x \<le> y"
  shows "floor_log2 x \<le> floor_log2 y"
proof -
  have "pow2 (floor_log2 x) < pow2 (floor_log2 y + 1)"
    using floor_log2_bounds(1) [of x] floor_log2_bounds(2) [of y] assms by linarith
  then show ?thesis by simp
qed

lemma round_half_even_of_int [simp]: "round_half_even (of_int n) = n"
  by (simp add: round_half_even_def)

lemma round_half_even_bounds:
  "\<lfloor>x\<rfloor> \<le> round_half_even x \<and> round_half_even x \<le> \<lfloor>x\<rfloor> + 1"
  by (simp add: round_half_even_def Let_def)

lemma round_half_even_mono:
  assumes "x \<le> y"
  shows "round_half_even x \<le> round_half_even y"
proof (cases "\<lfloor>x\<rfloor> = \<lfloor>y\<rfloor>")
  case True
  with assms show ?thesis by (auto simp: round_half_even_def Let_def)
next
  case False
  with assms have "\<lfloor>x\<rfloor> + 1 \<le> \<lfloor>y\<rfloor>"
    using floor_mono [OF assms] by linarith
  then show ?thesis
    using round_half_even_bounds [of x] round_half_even_bounds [of y] by linarith
qed

lemma round_half_even_minus: "round_half_even (- x) = - round_half_even x"
proof (cases "x = of_int \<lfloor>x\<rfloor>")
  case True
  then obtain n where "x = of_int n" by blast
  then show ?thesis by (metis of_int_minus round_half_even_of_int)
next
  case False
  then have f: "\<lfloor>- x\<rfloor> = - \<lfloor>x\<rfloor> - 1"
    by (simp add: floor_minus ceiling_altdef)
  show ?thesis by (auto simp: round_half_even_def Let_def f)
qed

lemma quantum_exp_minus [simp]: "quantum_exp (- x) = quantum_exp x"
  by (simp add: quantum_exp_def)

lemma rnd_0 [simp]: "rnd 0 = 0"
  by (simp add: rnd_def)

lemma rnd_minus: "rnd (- x) = - rnd x"
  by (simp add: rnd_def round_half_even_minus)

text \<open>A multiple of the quantum of its own binade is rounded to itself.\<close>

lemma rnd_multiple:
  assumes "x = of_int k * pow2 j" and "quantum_exp x \<le> j"
  shows "rnd x = x"
proof (cases "x = 0")
  case False
  obtain m :: int where m: "pow2 (j - quantum_exp x) = of_int m"
    using pow2_int assms(2) by (metis diff_ge_0_iff_ge)
  have "x / pow2 (quantum_exp x) = of_int (k * m)"
    by (simp add: assms(1) flip: m) (simp add: pow2_minus)
  with False show ?thesis by (simp add: rnd_def flip: of_int_mult) (simp add: field_simps)
qed simp

text \<open>Every value with at most 53 significant bits in range is exact.\<close>

lemma quantum_exp_le:
  assumes "x = of_int k * pow2 j" and "\<bar>k\<bar> \<le> 2 ^ 53" and "- 1074 \<le> j" and "x \<noteq> 0"
    and "\<bar>k\<bar> < 2 ^ 53"
  shows "quantum_exp x \<le> j"
proof -
  have ax: "\<bar>x\<bar> = of_int \<bar>k\<bar> * pow2 j" by (simp add: assms(1) abs_mult)
  have "(of_int \<bar>k\<bar> :: rat) < of_int (2 ^ 53)" using assms(5) by (simp only: of_int_less_iff)
  then have "\<bar>x\<bar> < pow2 53 * pow2 j" unfolding ax
    by (intro mult_strict_right_mono) (simp_all add: pow2_def)
  then have "\<bar>x\<bar> < pow2 (53 + j)" by (simp add: pow2_add)
  moreover have "pow2 (floor_log2 \<bar>x\<bar>) \<le> \<bar>x\<bar>" using assms(4) by (intro floor_log2_bounds) auto
  ultimately have "pow2 (floor_log2 \<bar>x\<bar>) < pow2 (53 + j)" by linarith
  then show ?thesis using assms(3) by (simp add: quantum_exp_def)
qed

lemma rnd_exact:
  assumes "\<bar>k\<bar> \<le> 2 ^ 53" and "- 1074 \<le> j"
  shows "rnd (of_int k * pow2 j) = of_int k * pow2 j"
proof -
  have lt: "rnd (of_int k * pow2 j) = of_int k * pow2 j" if "\<bar>k\<bar> < 2 ^ 53" and "- 1074 \<le> j" for k j
  proof (cases "k = 0")
    case False
    with that show ?thesis by (intro rnd_multiple [OF refl] quantum_exp_le [OF refl]) auto
  qed simp
  show ?thesis
  proof (cases "\<bar>k\<bar> = 2 ^ 53")
    case True
    have "k = sgn k * 2 ^ 53" using sgn_mult_abs [of k] True by simp
    then have "(of_int k :: rat) = of_int (sgn k) * of_int (2 ^ 53)" by (metis of_int_mult)
    then have k: "of_int k * pow2 j = of_int (sgn k) * pow2 (j + 53)"
      by (simp add: pow2_add) (simp add: pow2_def)
    have "\<bar>sgn k\<bar> < (2 :: int) ^ 53" by (simp add: abs_sgn_eq)
    with assms(2) show ?thesis unfolding k by (intro lt) auto
  next
    case False
    with assms show ?thesis by (intro lt) auto
  qed
qed

lemma rnd_int: "\<bar>k\<bar> \<le> 2 ^ 53 \<Longrightarrow> rnd (of_int k) = of_int k"
  using rnd_exact [of k 0] by (simp add: pow2_def)

lemma rnd_pow2: "- 1074 \<le> j \<Longrightarrow> rnd (pow2 j) = pow2 j"
  using rnd_exact [of 1 j] by simp

lemma scaled_less:
  assumes "0 < x"
  shows "x / pow2 (quantum_exp x) < pow2 53"
proof -
  have "x < pow2 (floor_log2 x + 1)" using floor_log2_bounds(2) assms .
  also have "\<dots> \<le> pow2 (53 + quantum_exp x)" using assms by (simp add: quantum_exp_def)
  finally show ?thesis by (simp add: pow2_add field_simps)
qed

lemma round_half_even_le: "x \<le> of_int n \<Longrightarrow> round_half_even x \<le> n"
  using round_half_even_mono [of x "of_int n"] by simp

lemma round_half_even_ge: "of_int n \<le> x \<Longrightarrow> n \<le> round_half_even x"
  using round_half_even_mono [of "of_int n" x] by simp

lemma rnd_pos_upper:
  assumes "0 < x"
  shows "rnd x \<le> pow2 (53 + quantum_exp x)"
proof -
  have "round_half_even (x / pow2 (quantum_exp x)) \<le> 2 ^ 53"
    using scaled_less [OF assms] by (intro round_half_even_le) (simp add: pow2_def)
  then have "(of_int (round_half_even (x / pow2 (quantum_exp x))) :: rat) \<le> of_int (2 ^ 53)"
    by (simp only: of_int_le_iff)
  then show ?thesis using assms by (simp add: rnd_def pow2_add) (simp add: pow2_def)
qed

lemma rnd_pos_lower:
  assumes "0 < x" and "- 1074 < quantum_exp x"
  shows "pow2 (52 + quantum_exp x) \<le> rnd x"
proof -
  have e: "floor_log2 x = 52 + quantum_exp x"
    using assms by (simp add: quantum_exp_def max_def split: if_splits)
  have "pow2 (52 + quantum_exp x) \<le> x" using floor_log2_bounds(1) [OF assms(1)] e by simp
  then have "pow2 52 \<le> x / pow2 (quantum_exp x)" by (simp add: pow2_add field_simps)
  then have "2 ^ 52 \<le> round_half_even (x / pow2 (quantum_exp x))"
    by (intro round_half_even_ge) (simp add: pow2_def)
  then have "(of_int (2 ^ 52) :: rat) \<le> of_int (round_half_even (x / pow2 (quantum_exp x)))"
    by (simp only: of_int_le_iff)
  then show ?thesis using assms(1) by (simp add: rnd_def pow2_add) (simp add: pow2_def)
qed

lemma rnd_nonneg: "0 \<le> x \<Longrightarrow> 0 \<le> rnd x"
proof -
  assume "0 \<le> x"
  then have "0 \<le> round_half_even (x / pow2 (quantum_exp x))"
    by (intro round_half_even_ge) simp
  then show ?thesis by (simp add: rnd_def)
qed

lemma rnd_mono_pos:
  assumes "0 < x" and "x \<le> y"
  shows "rnd x \<le> rnd y"
proof -
  have q: "quantum_exp x \<le> quantum_exp y"
    using floor_log2_mono [OF assms] assms by (auto simp: quantum_exp_def)
  show ?thesis
  proof (cases "quantum_exp x = quantum_exp y")
    case True
    have "round_half_even (x / pow2 (quantum_exp y)) \<le> round_half_even (y / pow2 (quantum_exp y))"
      using assms by (intro round_half_even_mono divide_right_mono) auto
    with True assms show ?thesis by (simp add: rnd_def)
  next
    case False
    with q have lt: "quantum_exp x < quantum_exp y" by simp
    have "rnd x \<le> pow2 (53 + quantum_exp x)" using rnd_pos_upper assms(1) .
    also have "\<dots> \<le> pow2 (52 + quantum_exp y)" using lt by simp
    also have "\<dots> \<le> rnd y"
      using assms lt by (intro rnd_pos_lower) (auto simp: quantum_exp_def)
    finally show ?thesis .
  qed
qed

theorem rnd_mono:
  assumes "x \<le> y"
  shows "rnd x \<le> rnd y"
proof (cases "0 < x")
  case True
  with assms show ?thesis by (intro rnd_mono_pos)
next
  case xn: False
  show ?thesis
  proof (cases "0 \<le> y")
    case True
    have "rnd x \<le> 0" using rnd_nonneg [of "- x"] xn by (simp add: rnd_minus)
    with rnd_nonneg [OF True] show ?thesis by linarith
  next
    case False
    with assms have "rnd (- y) \<le> rnd (- x)" by (intro rnd_mono_pos) auto
    then show ?thesis by (simp add: rnd_minus)
  qed
qed

theorem rnd_idem: "rnd (rnd x) = rnd x"
proof -
  have pos: "rnd (rnd x) = rnd x" if "0 < x" for x
  proof -
    let ?k = "round_half_even (x / pow2 (quantum_exp x))"
    have "?k \<le> 2 ^ 53" using scaled_less [OF that] by (intro round_half_even_le) (simp add: pow2_def)
    moreover have "0 \<le> ?k" using that by (intro round_half_even_ge) simp
    ultimately have "rnd (of_int ?k * pow2 (quantum_exp x)) = of_int ?k * pow2 (quantum_exp x)"
      by (intro rnd_exact) (auto simp: quantum_exp_def)
    then show ?thesis using that by (simp add: rnd_def [of x])
  qed
  show ?thesis
  proof (cases "0 \<le> x")
    case False
    then have "rnd (rnd (- x)) = rnd (- x)" by (intro pos) simp
    then show ?thesis by (simp add: rnd_minus)
  qed (cases "x = 0", auto intro: pos)
qed

section \<open>The type and its operations\<close>

datatype f64 = NaN | PInf | NInf | Fin rat

definition fin_of :: "rat \<Rightarrow> f64" where
  "fin_of q =
     (let r = rnd q
      in if 1024 \<le> floor_log2 \<bar>r\<bar> then (if 0 < r then PInf else NInf) else Fin r)"

text \<open>An untyped constant of the source, converted to the nearest float64.\<close>

abbreviation lit :: "rat \<Rightarrow> f64" where
  "lit \<equiv> fin_of"

definition of_i64 :: "int \<Rightarrow> f64" where
  "of_i64 n = fin_of (of_int n)"

instantiation f64 :: "{ord, plus, uminus, minus, times, inverse}"
begin

fun less_eq_f64 :: "f64 \<Rightarrow> f64 \<Rightarrow> bool" where
  "less_eq_f64 NaN _ = False"
| "less_eq_f64 _ NaN = False"
| "less_eq_f64 NInf _ = True"
| "less_eq_f64 _ PInf = True"
| "less_eq_f64 PInf _ = False"
| "less_eq_f64 _ NInf = False"
| "less_eq_f64 (Fin a) (Fin b) = (a \<le> b)"

definition less_f64 :: "f64 \<Rightarrow> f64 \<Rightarrow> bool" where
  "less_f64 x y \<longleftrightarrow> x \<le> y \<and> \<not> y \<le> x"

fun plus_f64 :: "f64 \<Rightarrow> f64 \<Rightarrow> f64" where
  "plus_f64 NaN _ = NaN"
| "plus_f64 _ NaN = NaN"
| "plus_f64 PInf NInf = NaN"
| "plus_f64 NInf PInf = NaN"
| "plus_f64 PInf _ = PInf"
| "plus_f64 _ PInf = PInf"
| "plus_f64 NInf _ = NInf"
| "plus_f64 _ NInf = NInf"
| "plus_f64 (Fin a) (Fin b) = fin_of (a + b)"

fun uminus_f64 :: "f64 \<Rightarrow> f64" where
  "uminus_f64 NaN = NaN"
| "uminus_f64 PInf = NInf"
| "uminus_f64 NInf = PInf"
| "uminus_f64 (Fin a) = Fin (- a)"

definition minus_f64 :: "f64 \<Rightarrow> f64 \<Rightarrow> f64" where
  "minus_f64 x y = x + (- y)"

definition inf_of_sign :: "rat \<Rightarrow> f64" where
  "inf_of_sign s = (if 0 < s then PInf else if s < 0 then NInf else NaN)"

fun times_f64 :: "f64 \<Rightarrow> f64 \<Rightarrow> f64" where
  "times_f64 NaN _ = NaN"
| "times_f64 _ NaN = NaN"
| "times_f64 (Fin a) (Fin b) = fin_of (a * b)"
| "times_f64 (Fin a) PInf = inf_of_sign a"
| "times_f64 (Fin a) NInf = inf_of_sign (- a)"
| "times_f64 PInf (Fin b) = inf_of_sign b"
| "times_f64 NInf (Fin b) = inf_of_sign (- b)"
| "times_f64 PInf PInf = PInf"
| "times_f64 NInf NInf = PInf"
| "times_f64 PInf NInf = NInf"
| "times_f64 NInf PInf = NInf"

fun divide_f64 :: "f64 \<Rightarrow> f64 \<Rightarrow> f64" where
  "divide_f64 NaN _ = NaN"
| "divide_f64 _ NaN = NaN"
| "divide_f64 (Fin a) (Fin b) = (if b = 0 then inf_of_sign a else fin_of (a / b))"
| "divide_f64 (Fin a) _ = Fin 0"
| "divide_f64 PInf (Fin b) = (if b < 0 then NInf else PInf)"
| "divide_f64 NInf (Fin b) = (if b < 0 then PInf else NInf)"
| "divide_f64 _ _ = NaN"

definition inverse_f64 :: "f64 \<Rightarrow> f64" where
  "inverse_f64 x = divide (Fin 1) x"

instance ..

end

text \<open>The functions of package math that the program uses.\<close>

definition IsNaN :: "f64 \<Rightarrow> bool" where
  "IsNaN x \<longleftrightarrow> x = NaN"

definition IsInf :: "f64 \<Rightarrow> bool" where
  "IsInf x \<longleftrightarrow> x = PInf \<or> x = NInf"

fun math_Min :: "f64 \<Rightarrow> f64 \<Rightarrow> f64" where
  "math_Min NInf _ = NInf"
| "math_Min _ NInf = NInf"
| "math_Min NaN _ = NaN"
| "math_Min _ NaN = NaN"
| "math_Min x y = (if x \<le> y then x else y)"

fun math_Max :: "f64 \<Rightarrow> f64 \<Rightarrow> f64" where
  "math_Max PInf _ = PInf"
| "math_Max _ PInf = PInf"
| "math_Max NaN _ = NaN"
| "math_Max _ NaN = NaN"
| "math_Max x y = (if x \<le> y then y else x)"

fun math_Abs :: "f64 \<Rightarrow> f64" where
  "math_Abs NaN = NaN"
| "math_Abs PInf = PInf"
| "math_Abs NInf = PInf"
| "math_Abs (Fin a) = Fin \<bar>a\<bar>"

text \<open>\<^verbatim>\<open>math.Round\<close> rounds half away from zero.\<close>

definition round_away :: "rat \<Rightarrow> int" where
  "round_away q = (if 0 \<le> q then \<lfloor>q + 1 / 2\<rfloor> else - \<lfloor>- q + 1 / 2\<rfloor>)"

fun math_Round :: "f64 \<Rightarrow> f64" where
  "math_Round (Fin a) = Fin (of_int (round_away a))"
| "math_Round x = x"

section \<open>Conversion of exact results\<close>

lemma floor_log2_abs_ge:
  assumes "r \<noteq> 0"
  shows "e \<le> floor_log2 \<bar>r\<bar> \<longleftrightarrow> pow2 e \<le> \<bar>r\<bar>"
proof
  note b = floor_log2_bounds [of "\<bar>r\<bar>"]
  show "pow2 e \<le> \<bar>r\<bar>" if "e \<le> floor_log2 \<bar>r\<bar>"
    using pow2_mono [OF that] b assms by linarith
  show "e \<le> floor_log2 \<bar>r\<bar>" if "pow2 e \<le> \<bar>r\<bar>"
  proof -
    have "pow2 e < pow2 (floor_log2 \<bar>r\<bar> + 1)" using that b assms by linarith
    then show ?thesis by simp
  qed
qed

lemma floor_log2_0: "floor_log2 0 < 1024"
proof -
  have "0 \<le> bitlen 1" by (rule bitlen_nonneg)
  moreover have "\<not> pow2 e \<le> 0" for e using pow2_pos [of e] by linarith
  ultimately show ?thesis by (simp add: floor_log2_def Let_def)
qed

lemma saturation_test:
  "0 < P \<Longrightarrow> (b \<longleftrightarrow> P \<le> \<bar>r :: rat\<bar>) \<Longrightarrow>
   (if b then (if 0 < r then PInf else NInf) else Fin r) =
   (if P \<le> r then PInf else if r \<le> - P then NInf else Fin r)"
  by (auto simp: abs_if split: if_splits)

lemma fin_of_cases:
  "fin_of q = (if pow2 1024 \<le> rnd q then PInf else if rnd q \<le> - pow2 1024 then NInf else Fin (rnd q))"
proof (cases "rnd q = 0")
  case False
  have "1024 \<le> floor_log2 \<bar>rnd q\<bar> \<longleftrightarrow> pow2 1024 \<le> \<bar>rnd q\<bar>"
    using False by (rule floor_log2_abs_ge)
  then show ?thesis
    unfolding fin_of_def Let_def by (intro saturation_test pow2_pos)
next
  case True
  moreover have "\<not> pow2 1024 \<le> 0" and "\<not> 0 \<le> - pow2 1024"
    using pow2_pos [of 1024] by linarith+
  ultimately show ?thesis using floor_log2_0 by (simp add: fin_of_def)
qed

lemma fin_of_not_NaN [simp]: "fin_of q \<noteq> NaN"
  by (simp add: fin_of_cases)

lemma fin_of_mono: "a \<le> b \<Longrightarrow> fin_of a \<le> fin_of b"
  using rnd_mono [of a b] pow2_pos [of 1024] by (auto simp: fin_of_cases)

lemma fin_of_Fin:
  assumes "\<bar>q\<bar> \<le> pow2 1023"
  shows "fin_of q = Fin (rnd q)"
proof -
  have r: "rnd (pow2 1023) = pow2 1023" by (simp add: rnd_pow2)
  have "rnd q \<le> pow2 1023" using rnd_mono [of q "pow2 1023"] r assms by simp
  moreover have "- pow2 1023 \<le> rnd q"
    using rnd_mono [of "- q" "pow2 1023"] r assms by (simp add: rnd_minus abs_le_iff)
  moreover have "pow2 1023 < pow2 1024" by simp
  ultimately have "\<not> pow2 1024 \<le> rnd q" and "\<not> rnd q \<le> - pow2 1024" by linarith+
  then show ?thesis by (simp add: fin_of_cases)
qed

lemma pow2_1023_ge: "q \<le> 2 ^ 60 \<Longrightarrow> q \<le> pow2 1023"
  using pow2_mono [of 60 1023] by (simp add: pow2_def)

lemma lit_Fin: "\<bar>q\<bar> \<le> 2 ^ 60 \<Longrightarrow> fin_of q = Fin (rnd q)"
  by (rule fin_of_Fin) (rule pow2_1023_ge)

lemma lit_int: "\<bar>k\<bar> \<le> 2 ^ 53 \<Longrightarrow> fin_of (of_int k) = Fin (of_int k)"
proof -
  assume k: "\<bar>k\<bar> \<le> 2 ^ 53"
  have "(of_int \<bar>k\<bar> :: rat) \<le> of_int (2 ^ 53)" using k by (simp only: of_int_le_iff)
  then have "\<bar>of_int k :: rat\<bar> \<le> 2 ^ 60" by simp
  then show ?thesis by (simp add: lit_Fin rnd_int [OF k])
qed

lemma lit_0 [simp]: "fin_of 0 = Fin 0"
  using lit_int [of 0] by simp

lemma lit_1 [simp]: "fin_of 1 = Fin 1"
  using lit_int [of 1] by simp

lemma lit_numeral [simp]: "numeral n \<le> (2::int) ^ 53 \<Longrightarrow> fin_of (numeral n) = Fin (numeral n)"
  using lit_int [of "numeral n"] by simp

lemma lit_neg_numeral [simp]: "numeral n \<le> (2::int) ^ 53 \<Longrightarrow> fin_of (- numeral n) = Fin (- numeral n)"
  using lit_int [of "- numeral n"] by simp

lemma rnd_between:
  assumes "rnd l = l" and "rnd u = u" and "l \<le> q" and "q \<le> u"
  shows "l \<le> rnd q" and "rnd q \<le> u"
  using rnd_mono [of l q] rnd_mono [of q u] assms by auto

lemma rnd_ge_1024th: "1 / 1024 \<le> q \<Longrightarrow> 1 / 1024 \<le> rnd q"
  using rnd_mono [of "1 / 1024" q] rnd_pow2 [of "- 10"] by (simp add: pow2_def)

lemma of_i64_nonneg: "0 \<le> n \<Longrightarrow> Fin 0 \<le> of_i64 n"
  using fin_of_mono [of 0 "of_int n"] by (simp add: of_i64_def)

lemma of_i64_mono: "a \<le> b \<Longrightarrow> of_i64 a \<le> of_i64 b"
  by (simp add: of_i64_def fin_of_mono)

lemma of_i64_exact: "\<bar>n\<bar> \<le> 2 ^ 53 \<Longrightarrow> of_i64 n = Fin (of_int n)"
  by (simp add: of_i64_def lit_int)

section \<open>Order\<close>

lemma f64_le_refl [simp]: "x \<noteq> NaN \<Longrightarrow> x \<le> (x :: f64)"
  by (cases x) auto

lemma f64_le_trans [trans]: "x \<le> y \<Longrightarrow> y \<le> z \<Longrightarrow> x \<le> (z :: f64)"
  by (cases x; cases y; cases z) auto

lemma f64_le_not_NaN: "x \<le> y \<Longrightarrow> x \<noteq> NaN \<and> y \<noteq> (NaN :: f64)"
  by (cases x; cases y) auto

lemma f64_antisym: "x \<le> y \<Longrightarrow> y \<le> x \<Longrightarrow> x = (y :: f64)"
  by (cases x; cases y) auto

lemma f64_linear: "x \<noteq> NaN \<Longrightarrow> y \<noteq> NaN \<Longrightarrow> x \<le> y \<or> y \<le> (x :: f64)"
  by (cases x; cases y) auto

lemma f64_less_Fin [simp]: "Fin a < Fin b \<longleftrightarrow> a < b"
  by (auto simp: less_f64_def)

lemma f64_less_NaN [simp]: "\<not> NaN < (y :: f64)" "\<not> (x :: f64) < NaN"
  by (cases x; cases y; simp add: less_f64_def)+

lemma f64_not_less: "x \<noteq> NaN \<Longrightarrow> y \<noteq> NaN \<Longrightarrow> \<not> x < y \<longleftrightarrow> y \<le> (x :: f64)"
  by (cases x; cases y) (auto simp: less_f64_def)

lemma f64_less_imp_le: "x < y \<Longrightarrow> x \<le> (y :: f64)"
  by (simp add: less_f64_def)

lemma f64_le_less_trans: "x \<le> y \<Longrightarrow> y < z \<Longrightarrow> x < (z :: f64)"
  by (cases x; cases y; cases z) (auto simp: less_f64_def)

lemma f64_less_le_trans: "x < y \<Longrightarrow> y \<le> z \<Longrightarrow> x < (z :: f64)"
  by (cases x; cases y; cases z) (auto simp: less_f64_def)

lemma f64_Fin_range:
  assumes "Fin l \<le> x" and "x \<le> Fin u"
  obtains q where "x = Fin q" "l \<le> q" "q \<le> u"
  using assms by (cases x) auto

section \<open>Ranges and monotonicity\<close>

lemma fin_of_nonneg: "0 \<le> q \<Longrightarrow> Fin 0 \<le> fin_of q"
  using fin_of_mono [of 0 q] by simp

lemma fin_of_nonpos: "q \<le> 0 \<Longrightarrow> fin_of q \<le> Fin 0"
  using fin_of_mono [of q 0] by simp

lemma f64_le_PInf: "x \<noteq> NaN \<Longrightarrow> x \<le> PInf"
  by (cases x) auto

lemma f64_NInf_le: "x \<noteq> NaN \<Longrightarrow> NInf \<le> x"
  by (cases x) auto

lemma f64_PInf_le [simp]: "PInf \<le> x \<longleftrightarrow> x = PInf"
  by (cases x) auto

lemma f64_le_NInf [simp]: "x \<le> NInf \<longleftrightarrow> x = NInf"
  by (cases x) auto

lemma f64_add_nonneg [f64_bounds]: "Fin 0 \<le> x \<Longrightarrow> Fin 0 \<le> y \<Longrightarrow> Fin 0 \<le> x + y"
  by (cases x; cases y) (auto simp: fin_of_nonneg)

lemma f64_add_mono [f64_mono]:
  "x \<le> x' \<Longrightarrow> y \<le> y' \<Longrightarrow> Fin 0 \<le> x \<Longrightarrow> Fin 0 \<le> y \<Longrightarrow> x + y \<le> x' + y'"
  by (cases x; cases x'; cases y; cases y') (auto simp: f64_le_PInf intro!: fin_of_mono)

lemma f64_mult_nonneg: "Fin 0 \<le> x \<Longrightarrow> 0 < c \<Longrightarrow> Fin 0 \<le> x * Fin c"
  by (cases x) (auto simp: fin_of_nonneg inf_of_sign_def)

lemma f64_mult_mono: "x \<le> x' \<Longrightarrow> 0 < c \<Longrightarrow> x * Fin c \<le> x' * Fin c"
  by (cases x; cases x')
    (auto simp: f64_le_PInf f64_NInf_le inf_of_sign_def intro!: fin_of_mono mult_right_mono)

lemma f64_divide_nonneg: "Fin 0 \<le> x \<Longrightarrow> 0 < c \<Longrightarrow> Fin 0 \<le> x / Fin c"
  by (cases x) (auto simp: fin_of_nonneg)

lemma f64_divide_mono: "x \<le> x' \<Longrightarrow> 0 < c \<Longrightarrow> x / Fin c \<le> x' / Fin c"
  by (cases x; cases x')
    (auto simp: f64_le_PInf f64_NInf_le intro!: fin_of_mono divide_right_mono)

lemma f64_minus_mono: "x \<le> x' \<Longrightarrow> x - Fin c \<le> x' - Fin c"
  by (cases x; cases x') (auto simp: minus_f64_def f64_le_PInf f64_NInf_le intro!: fin_of_mono)

lemma f64_minus_nonneg: "Fin c \<le> x \<Longrightarrow> Fin 0 \<le> x - Fin c"
  by (cases x) (auto simp: minus_f64_def intro!: fin_of_nonneg)

lemma f64_minus_antimono: "x \<le> x' \<Longrightarrow> Fin c - x' \<le> Fin c - x"
  by (cases x; cases x') (auto simp: minus_f64_def f64_le_PInf f64_NInf_le intro!: fin_of_mono)

lemma f64_minus_left_nonneg: "x \<le> Fin c \<Longrightarrow> Fin 0 \<le> Fin c - x"
  by (cases x) (auto simp: minus_f64_def intro!: fin_of_nonneg)

lemma math_Min_le_right [f64_bounds]: "x \<noteq> NaN \<Longrightarrow> math_Min x (Fin c) \<le> Fin c"
  by (cases x) auto

lemma math_Min_le_left: "x \<noteq> NaN \<Longrightarrow> y \<noteq> NaN \<Longrightarrow> math_Min x y \<le> x"
  by (cases x; cases y) auto

lemma math_Min_ge [f64_bounds]: "z \<le> x \<Longrightarrow> z \<le> y \<Longrightarrow> z \<le> math_Min x y"
  by (cases x; cases y; cases z) auto

lemma math_Min_mono [f64_mono]: "x \<le> x' \<Longrightarrow> y \<le> y' \<Longrightarrow> math_Min x y \<le> math_Min x' y'"
  by (cases x; cases x'; cases y; cases y') auto

lemma math_Max_ge_left [f64_bounds]: "x \<noteq> NaN \<Longrightarrow> y \<noteq> NaN \<Longrightarrow> x \<le> math_Max x y"
  by (cases x; cases y) auto

lemma math_Max_le [f64_bounds]: "x \<le> z \<Longrightarrow> y \<le> z \<Longrightarrow> math_Max x y \<le> z"
  by (cases x; cases y; cases z) auto

lemma math_Max_mono [f64_mono]: "x \<le> x' \<Longrightarrow> y \<le> y' \<Longrightarrow> math_Max x y \<le> math_Max x' y'"
  by (cases x; cases x'; cases y; cases y') auto

lemma round_away_of_int [simp]: "round_away (of_int n) = n"
  by (simp add: round_away_def floor_eq_iff)

lemma round_away_mono:
  assumes "a \<le> b"
  shows "round_away a \<le> round_away b"
proof (cases "0 \<le> a")
  case True
  with assms show ?thesis by (simp add: round_away_def floor_mono)
next
  case a: False
  show ?thesis
  proof (cases "0 \<le> b")
    case True
    have "round_away a \<le> 0" using a by (simp add: round_away_def)
    moreover have "0 \<le> round_away b" using True by (simp add: round_away_def)
    ultimately show ?thesis by linarith
  next
    case False
    have "\<lfloor>- b + 1 / 2\<rfloor> \<le> \<lfloor>- a + 1 / 2\<rfloor>" using assms by (intro floor_mono) simp
    with a False show ?thesis by (simp add: round_away_def)
  qed
qed

lemma math_Round_mono [f64_mono]: "x \<le> x' \<Longrightarrow> math_Round x \<le> math_Round x'"
  by (cases x; cases x') (auto intro: round_away_mono)

text \<open>The idiom \<^verbatim>\<open>math.Round(x*k)/k\<close>: keep as many decimals as k has zeros.\<close>

definition round_to :: "rat \<Rightarrow> f64 \<Rightarrow> f64" where
  "round_to k x = math_Round (x * lit k) / lit k"

lemma round_to_mono [f64_mono]:
  "x \<le> x' \<Longrightarrow> fin_of k = Fin k \<Longrightarrow> 0 < k \<Longrightarrow> round_to k x \<le> round_to k x'"
  by (simp add: round_to_def f64_divide_mono math_Round_mono f64_mult_mono)

lemma round_to_10_Fin_int:
  assumes "\<bar>n\<bar> \<le> 2 ^ 48"
  shows "round_to 10 (Fin (of_int n)) = Fin (of_int n)"
proof -
  have "fin_of (of_int (n * 10)) = Fin (of_int (n * 10))"
    using assms by (intro lit_int) simp
  moreover have "fin_of (of_int n) = Fin (of_int n)"
    using assms by (intro lit_int) simp
  moreover have "round_away (of_int n * 10) = n * 10"
    using round_away_of_int [of "n * 10"] by simp
  ultimately show ?thesis by (simp add: round_to_def)
qed

lemma round_to_10_0 [simp]: "round_to 10 (Fin 0) = Fin 0"
  using round_to_10_Fin_int [of 0] by simp

lemma round_to_10_numeral [simp]:
  "numeral n \<le> (2::int) ^ 48 \<Longrightarrow> round_to 10 (Fin (numeral n)) = Fin (numeral n)"
  using round_to_10_Fin_int [of "numeral n"] by simp

lemma round_to_10_range [f64_bounds]:
  assumes "Fin 0 \<le> x" and "x \<le> Fin 100"
  shows "Fin 0 \<le> round_to 10 x" and "round_to 10 x \<le> Fin 100"
  using round_to_mono [OF assms(1), of 10] round_to_mono [OF assms(2), of 10] by simp_all

section \<open>Representable values\<close>

text \<open>A field of the source's type holds a float64, so a finite value is a rounded one.\<close>

definition is_f64 :: "f64 \<Rightarrow> bool" where
  "is_f64 x \<longleftrightarrow> (case x of Fin q \<Rightarrow> fin_of q = Fin q | _ \<Rightarrow> True)"

lemma is_f64_fin_of [simp]: "is_f64 (fin_of q)"
  by (auto simp: is_f64_def fin_of_cases rnd_idem)

lemma is_f64_add [simp]: "is_f64 (x + y)"
  by (cases x; cases y) (simp_all, simp_all add: is_f64_def)

lemma is_f64_divide [simp]: "is_f64 (x / y)"
  by (cases x; cases y) (simp_all, simp_all add: is_f64_def inf_of_sign_def)

lemma f64_add_increasing:
  assumes "Fin 0 \<le> y" and "x \<noteq> NaN" and "x \<noteq> NInf" and "is_f64 x"
  shows "x \<le> x + y"
proof (cases x; cases y)
  fix a b assume x: "x = Fin a" and y: "y = Fin b"
  have "fin_of a = Fin a" using assms(4) x by (simp add: is_f64_def)
  moreover have "fin_of a \<le> fin_of (a + b)" using assms(1) y by (intro fin_of_mono) simp
  ultimately show ?thesis using x y by simp
qed (use assms in auto)

lemma f64_add_increasing_right:
  assumes "Fin 0 \<le> y" and "Fin 0 \<le> x" and "is_f64 x"
  shows "x \<le> y + x"
proof -
  have "y + x = x + y" by (cases x; cases y) (auto simp: add.commute)
  with f64_add_increasing [OF assms(1) _ _ assms(3)] assms(2) show ?thesis by (cases x) auto
qed

section \<open>Positive constants\<close>

text \<open>
  The curves of the program scale and shift by positive literals; \<open>is_pos\<close> is what the
  range and monotonicity rules need of them.
\<close>

definition is_pos :: "f64 \<Rightarrow> bool" where
  "is_pos x \<longleftrightarrow> (case x of Fin c \<Rightarrow> 0 < c | _ \<Rightarrow> False)"

lemma is_pos_Fin [simp]: "is_pos (Fin c) \<longleftrightarrow> 0 < c"
  by (simp add: is_pos_def)

lemma is_pos_simps [simp]: "\<not> is_pos NaN" "\<not> is_pos PInf" "\<not> is_pos NInf"
  by (simp_all add: is_pos_def)

lemma is_pos_not_le_0: "is_pos x \<Longrightarrow> x \<le> y \<Longrightarrow> \<not> y \<le> Fin 0"
  by (cases x; cases y) (auto simp: is_pos_def)

lemma is_posE: "is_pos x \<Longrightarrow> (\<And>c. x = Fin c \<Longrightarrow> 0 < c \<Longrightarrow> P) \<Longrightarrow> P"
  by (cases x) (auto simp: is_pos_def)

lemma is_pos_lit [simp]: "1 / 1024 \<le> q \<Longrightarrow> q \<le> 2 ^ 60 \<Longrightarrow> is_pos (fin_of q)"
  using rnd_ge_1024th [of q] by (simp add: lit_Fin)

lemma is_pos_not_NaN: "is_pos x \<Longrightarrow> x \<noteq> NaN"
  by (auto simp: is_pos_def)

lemma is_pos_nonneg [simp]: "is_pos x \<Longrightarrow> Fin 0 \<le> x"
  by (cases x) (auto simp: is_pos_def)

lemma pos_mult_nonneg [f64_bounds]: "Fin 0 \<le> x \<Longrightarrow> is_pos c \<Longrightarrow> Fin 0 \<le> x * c"
  by (erule is_posE) (simp add: f64_mult_nonneg)

lemma pos_divide_nonneg [f64_bounds]: "Fin 0 \<le> x \<Longrightarrow> is_pos c \<Longrightarrow> Fin 0 \<le> x / c"
  by (erule is_posE) (simp add: f64_divide_nonneg)

lemma pos_minus_nonneg [f64_bounds]: "c < x \<or> c \<le> x \<Longrightarrow> is_pos c \<Longrightarrow> Fin 0 \<le> x - c"
  by (erule is_posE) (auto simp: f64_minus_nonneg dest: f64_less_imp_le)

lemma pos_minus_left_nonneg:
  "\<not> c \<le> x \<Longrightarrow> x \<noteq> NaN \<Longrightarrow> is_pos c \<Longrightarrow> Fin 0 \<le> c - x"
  using f64_linear [of c x]
  by (elim is_posE) (auto simp: f64_minus_left_nonneg)

lemma pos_mult_mono [f64_mono]: "x \<le> x' \<Longrightarrow> is_pos c \<Longrightarrow> x * c \<le> x' * c"
  by (erule is_posE) (simp add: f64_mult_mono)

lemma pos_divide_mono [f64_mono]: "x \<le> x' \<Longrightarrow> is_pos c \<Longrightarrow> x / c \<le> x' / c"
  by (erule is_posE) (simp add: f64_divide_mono)

lemma pos_minus_mono [f64_mono]: "x \<le> x' \<Longrightarrow> is_pos c \<Longrightarrow> x - c \<le> x' - c"
  by (erule is_posE) (simp add: f64_minus_mono)

lemma pos_minus_antimono [f64_mono]: "x \<le> x' \<Longrightarrow> is_pos c \<Longrightarrow> c - x' \<le> c - x"
  by (erule is_posE) (simp add: f64_minus_antimono)

lemma math_Min_range [f64_bounds]: "Fin 0 \<le> x \<Longrightarrow> is_pos c \<Longrightarrow> Fin 0 \<le> math_Min x c"
  by (intro math_Min_ge) auto

lemma f64_add_le:
  assumes "Fin 0 \<le> x" and "x \<le> Fin a" and "Fin 0 \<le> y" and "y \<le> Fin b"
    and "fin_of (a + b) = Fin (a + b)"
  shows "x + y \<le> Fin (a + b)"
  using f64_add_mono [OF assms(2,4,1,3)] assms(5) by simp

lemma is_pos_of_i64: "0 < n \<Longrightarrow> n < 2 ^ 63 \<Longrightarrow> is_pos (of_i64 n)"
proof -
  assume n: "0 < n" "n < 2 ^ 63"
  then have "(of_int n :: rat) \<le> of_int (2 ^ 63)" by (simp only: of_int_le_iff)
  then have "\<bar>of_int n :: rat\<bar> \<le> pow2 63" using n by (simp add: pow2_def)
  moreover have "pow2 63 \<le> pow2 1023" by simp
  ultimately have "fin_of (of_int n) = Fin (rnd (of_int n))" by (intro fin_of_Fin) linarith
  moreover have "(1 :: rat) \<le> of_int n" using n by simp
  then have "rnd 1 \<le> rnd (of_int n)" by (rule rnd_mono)
  then have "0 < rnd (of_int n)" using rnd_int [of 1] by simp
  ultimately show ?thesis by (simp add: of_i64_def)
qed

section \<open>Descending order\<close>

text \<open>\<^verbatim>\<open>cmp.Compare(b, a)\<close> of floats as a key: a NaN is below every number.\<close>

definition desc :: "f64 \<Rightarrow> int \<times> rat" where
  "desc x = (case x of NaN \<Rightarrow> (3, 0) | NInf \<Rightarrow> (2, 0) | Fin r \<Rightarrow> (1, - r) | PInf \<Rightarrow> (0, 0))"

end
