(* ===== verification/Schema_Lint.thy ===== *)
theory Schema_Lint
  imports Go_Float
begin

text \<open>
  Package \<^verbatim>\<open>backend/internal/schemalint\<close>, the part that classifies sequences and
  that the health score shares: severity levels, the \<^verbatim>\<open>schema_lint\<close> configuration
  section and the sequence thresholds (\<^verbatim>\<open>config.go\<close>, \<^verbatim>\<open>schemalint.go\<close>).
\<close>

datatype Level = LevelError | LevelWarning | LevelNotice

definition level_string :: "Level \<Rightarrow> string" where
  "level_string l =
     (case l of LevelError \<Rightarrow> ''error'' | LevelWarning \<Rightarrow> ''warning'' | LevelNotice \<Rightarrow> ''notice'')"

definition DefaultSequenceErrorPct :: f64 where "DefaultSequenceErrorPct = lit 5"
definition DefaultSequenceWarningPct :: f64 where "DefaultSequenceWarningPct = lit 10"
definition DefaultSequenceNoticePct :: f64 where "DefaultSequenceNoticePct = lit 20"
definition DefaultSequenceCacheTTL :: duration where "DefaultSequenceCacheTTL = 15 * minute"

record SchemaConfig =
  DisabledChecks :: "string list"
  EnabledChecks :: "string list"
  IgnoreSchemas :: "string list"
  SequenceThresholds :: "string \<rightharpoonup> f64"
  SequenceCacheTTL :: duration

definition zero_SchemaConfig :: SchemaConfig where
  "zero_SchemaConfig =
     \<lparr>DisabledChecks = [], EnabledChecks = [], IgnoreSchemas = [],
      SequenceThresholds = Map.empty, SequenceCacheTTL = 0\<rparr>"

definition sequenceThreshold :: "SchemaConfig \<Rightarrow> Level \<Rightarrow> f64" where
  "sequenceThreshold c l =
     (case SequenceThresholds c (level_string l) of
        Some v \<Rightarrow> v
      | None \<Rightarrow>
          (case l of
             LevelError \<Rightarrow> DefaultSequenceErrorPct
           | LevelWarning \<Rightarrow> DefaultSequenceWarningPct
           | LevelNotice \<Rightarrow> DefaultSequenceNoticePct))"

definition sequenceLevel :: "SchemaConfig \<Rightarrow> f64 \<Rightarrow> Level option" where
  "sequenceLevel c freePct =
     (if freePct < sequenceThreshold c LevelError then Some LevelError
      else if freePct < sequenceThreshold c LevelWarning then Some LevelWarning
      else if freePct < sequenceThreshold c LevelNotice then Some LevelNotice
      else None)"

definition LevelForFreePct :: "f64 \<Rightarrow> (string \<rightharpoonup> f64) \<Rightarrow> Level option" where
  "LevelForFreePct freePct thresholds =
     sequenceLevel (zero_SchemaConfig\<lparr>SequenceThresholds := thresholds\<rparr>) freePct"

definition SequenceCacheTTLOrDefault :: "SchemaConfig \<Rightarrow> duration" where
  "SequenceCacheTTLOrDefault c =
     (if SequenceCacheTTL c \<le> 0 then DefaultSequenceCacheTTL else SequenceCacheTTL c)"

definition levelRank :: "Level \<Rightarrow> int" where
  "levelRank l = (case l of LevelError \<Rightarrow> 0 | LevelWarning \<Rightarrow> 1 | LevelNotice \<Rightarrow> 2)"

definition raise_level :: "Level \<Rightarrow> Level" where
  "raise_level l =
     (case l of LevelNotice \<Rightarrow> LevelWarning | LevelWarning \<Rightarrow> LevelError | LevelError \<Rightarrow> LevelError)"

section \<open>Classification of headroom\<close>

lemma level_string_inj: "level_string a = level_string b \<longleftrightarrow> a = b"
  by (cases a; cases b) (auto simp: level_string_def)

lemma sequenceLevel_error_iff:
  "sequenceLevel c p = Some LevelError \<longleftrightarrow> p < sequenceThreshold c LevelError"
  by (simp add: sequenceLevel_def)

text \<open>Less headroom is never classified as milder.\<close>

lemma sequenceLevel_antimono:
  assumes "p \<le> p'" and "sequenceLevel c p' = Some l'"
  shows "\<exists>l. sequenceLevel c p = Some l \<and> levelRank l \<le> levelRank l'"
  using assms
  by (auto simp: sequenceLevel_def levelRank_def dest: f64_le_less_trans split: if_splits)

end
