(* ===== verification/Health_Metrics.thy ===== *)
theory Health_Metrics
  imports Schema_Lint
begin

text \<open>
  The data model of package \<^verbatim>\<open>backend/internal/health\<close>: the raw metrics of one
  instance, the fixed categories and severities, the per-category results and the final
  result (\<^verbatim>\<open>score.go\<close>, \<^verbatim>\<open>rules.go\<close>, \<^verbatim>\<open>cold.go\<close>).
\<close>

datatype Severity = SeverityHigh | SeverityMedium | SeverityLow | SeverityNone

datatype Category =
    CategoryConnections | CategoryPerformance | CategoryStorage | CategoryReplication
  | CategoryMaintenance | CategoryHorizon | CategoryWalCheckpoint | CategoryLocks

text \<open>The values of a \<^verbatim>\<open>map[string]any\<close> that the rules attach to a hit.\<close>

datatype anyval =
    AInt int | AFloat f64 | ABool bool | AStr string
  | AObjects "(string \<times> anyval) list list"

record ColdMaintenanceTable =
  cold_Schema :: string
  cold_Table :: string
  cold_SizeBytes :: i64
  cold_DeadRatio :: f64
  cold_NeverVacuumed :: bool
  cold_RelfrozenxidAge :: i64
  cold_NoWritesDays :: i64

record ColdFacts =
  WindowDays :: i64
  Tables :: "ColdMaintenanceTable list"
  More :: i64

record RawMetrics =
  InRecovery :: bool
  Database :: string
  MetricsInstanceWide :: bool
  SnapshotBackedRules :: "string \<Rightarrow> bool"
  TotalConnections :: i64
  ActiveConnections :: i64
  IdleInTransaction :: i64
  IdleInTransactionDatabase :: string
  LongestTransactionSeconds :: f64
  LongestTransactionDatabase :: string
  MaxConnections :: i64
  CacheHitRatio :: f64
  CacheSampleBlocks :: i64
  TrackIoTimingEnabled :: bool
  MaxDeadRatio :: f64
  AvgDeadRatio :: f64
  TablesHighBloat :: i64
  ReplicaCount :: i64
  MaxReplayLagSeconds :: f64
  MaxLagBytes :: i64
  DisconnectedReplicas :: i64
  MaxXidAge :: i64
  VacuumBacklogTables :: i64
  MaxOverdueVacuumAgeHours :: f64
  TablesNeverVacuumed :: i64
  AutovacuumEnabled :: bool
  TrackCountsEnabled :: bool
  TablesWithAutovacuumOff :: i64
  MaxRelfrozenxidAge :: i64
  ColdMaxRelfrozenxidAge :: i64
  ColdFreezeRatio :: f64
  Cold :: "ColdFacts option"
  HorizonLagXids :: i64
  HorizonDatabase :: string
  TimedCheckpoints :: i64
  RequestedCheckpoints :: i64
  ActiveLockWaiters :: i64
  LongestLockWaitSeconds :: f64
  UngrantedLocks :: i64
  DeadlocksTotal :: i64
  HeavyweightLocksTotal :: i64
  MaxLocksPerTransaction :: i64
  HotUpdateRatio :: f64
  NewpageUpdateRatio :: f64
  StalePlannerStatsTables :: i64
  WalLevel :: string
  LogicalSlotsActive :: i64
  WalLevelManaged :: bool
  SequenceThresholdsOf :: "string \<rightharpoonup> f64"
  LoadAvg15 :: f64
  NumVCPU :: f64
  PoolerServerConns :: f64
  PoolerPoolSize :: f64
  ChecksumFailuresRate :: f64
  SequenceExhaustionMax :: f64
  LatencyRegressionRatio :: f64
  SeqScanRegressionRatio :: f64
  DiskUsedRatio :: f64

text \<open>The zero value of the struct, from which partial literals start.\<close>

definition zero_RawMetrics :: RawMetrics where
  "zero_RawMetrics =
     \<lparr>InRecovery = False, Database = '''', MetricsInstanceWide = False,
      SnapshotBackedRules = (\<lambda>_. False), TotalConnections = 0, ActiveConnections = 0,
      IdleInTransaction = 0, IdleInTransactionDatabase = '''',
      LongestTransactionSeconds = Fin 0, LongestTransactionDatabase = '''',
      MaxConnections = 0, CacheHitRatio = Fin 0, CacheSampleBlocks = 0,
      TrackIoTimingEnabled = False, MaxDeadRatio = Fin 0, AvgDeadRatio = Fin 0,
      TablesHighBloat = 0, ReplicaCount = 0, MaxReplayLagSeconds = Fin 0, MaxLagBytes = 0,
      DisconnectedReplicas = 0, MaxXidAge = 0, VacuumBacklogTables = 0,
      MaxOverdueVacuumAgeHours = Fin 0, TablesNeverVacuumed = 0, AutovacuumEnabled = False,
      TrackCountsEnabled = False, TablesWithAutovacuumOff = 0, MaxRelfrozenxidAge = 0,
      ColdMaxRelfrozenxidAge = 0, ColdFreezeRatio = Fin 0, Cold = None, HorizonLagXids = 0,
      HorizonDatabase = '''', TimedCheckpoints = 0, RequestedCheckpoints = 0,
      ActiveLockWaiters = 0, LongestLockWaitSeconds = Fin 0, UngrantedLocks = 0,
      DeadlocksTotal = 0, HeavyweightLocksTotal = 0, MaxLocksPerTransaction = 0,
      HotUpdateRatio = Fin 0, NewpageUpdateRatio = Fin 0, StalePlannerStatsTables = 0,
      WalLevel = '''', LogicalSlotsActive = 0, WalLevelManaged = False,
      SequenceThresholdsOf = Map.empty, LoadAvg15 = Fin 0, NumVCPU = Fin 0,
      PoolerServerConns = Fin 0, PoolerPoolSize = Fin 0, ChecksumFailuresRate = Fin 0,
      SequenceExhaustionMax = Fin 0, LatencyRegressionRatio = Fin 0,
      SeqScanRegressionRatio = Fin 0, DiskUsedRatio = Fin 0\<rparr>"

record CategoryResult =
  Name :: Category
  Score :: f64
  Weight :: f64
  Penalty :: f64
  Details :: "string \<rightharpoonup> f64"

record Result =
  result_Score :: f64
  Categories :: "CategoryResult list"
  HasReplication :: bool
  result_InRecovery :: bool

end
