(* ===== verification/Health_Weights.thy ===== *)
theory Health_Weights
  imports Health_Metrics
begin

text \<open>
  \<^verbatim>\<open>backend/internal/health/weights.go\<close>: the per-category weights, their validation
  and their normalisation to a unit sum.
\<close>

record Weights =
  Connections :: f64
  Performance :: f64
  Storage :: f64
  Replication :: f64
  Maintenance :: f64
  Horizon :: f64
  WalCheckpoint :: f64
  Locks :: f64

datatype weights_error = ErrInvalidWeights

definition weightConnections :: f64 where "weightConnections = lit 0.15"
definition weightPerformance :: f64 where "weightPerformance = lit 0.15"
definition weightStorage :: f64 where "weightStorage = lit 0.10"
definition weightReplication :: f64 where "weightReplication = lit 0.15"
definition weightMaintenance :: f64 where "weightMaintenance = lit 0.15"
definition weightHorizon :: f64 where "weightHorizon = lit 0.10"
definition weightWalCheckpoint :: f64 where "weightWalCheckpoint = lit 0.10"
definition weightLocks :: f64 where "weightLocks = lit 0.10"

lemmas weight_consts =
  weightConnections_def weightPerformance_def weightStorage_def weightReplication_def
  weightMaintenance_def weightHorizon_def weightWalCheckpoint_def weightLocks_def

definition DefaultWeights :: Weights where
  "DefaultWeights =
     \<lparr>Connections = weightConnections, Performance = weightPerformance,
      Storage = weightStorage, Replication = weightReplication,
      Maintenance = weightMaintenance, Horizon = weightHorizon,
      WalCheckpoint = weightWalCheckpoint, Locks = weightLocks\<rparr>"

definition Sum :: "Weights \<Rightarrow> f64" where
  "Sum w =
     Connections w + Performance w + Storage w + Replication w + Maintenance w +
     Horizon w + WalCheckpoint w + Locks w"

definition weight_values :: "Weights \<Rightarrow> f64 list" where
  "weight_values w =
     [Connections w, Performance w, Storage w, Replication w, Maintenance w,
      Horizon w, WalCheckpoint w, Locks w]"

definition Validate :: "Weights \<Rightarrow> weights_error option" where
  "Validate w =
     (if list_ex (\<lambda>v. v < lit 0 \<or> IsNaN v \<or> IsInf v) (weight_values w) then Some ErrInvalidWeights
      else if Sum w \<le> lit 0 then Some ErrInvalidWeights
      else None)"

definition Normalize :: "Weights \<Rightarrow> Weights" where
  "Normalize w =
     (let sum = Sum w
      in if sum \<le> lit 0 then w
         else if math_Abs (sum - lit 1) < lit (1 / 10 ^ 9) then w
         else
           \<lparr>Connections = Connections w / sum, Performance = Performance w / sum,
            Storage = Storage w / sum, Replication = Replication w / sum,
            Maintenance = Maintenance w / sum, Horizon = Horizon w / sum,
            WalCheckpoint = WalCheckpoint w / sum, Locks = Locks w / sum\<rparr>)"

definition byCategory :: "Weights \<Rightarrow> Category \<Rightarrow> f64" where
  "byCategory w name =
     (case name of
        CategoryConnections \<Rightarrow> Connections w
      | CategoryPerformance \<Rightarrow> Performance w
      | CategoryStorage \<Rightarrow> Storage w
      | CategoryReplication \<Rightarrow> Replication w
      | CategoryMaintenance \<Rightarrow> Maintenance w
      | CategoryHorizon \<Rightarrow> Horizon w
      | CategoryWalCheckpoint \<Rightarrow> WalCheckpoint w
      | CategoryLocks \<Rightarrow> Locks w)"

end
