(* ===== verification/Health_Score.thy ===== *)
theory Health_Score
  imports Health_Weights
begin

text \<open>
  \<^verbatim>\<open>backend/internal/health/score.go\<close>: the eight penalty functions, the instance
  adjustments, the redistribution of dropped weights, the critical ceiling and the
  aggregate score.
\<close>

definition xidFreezeTableAge :: i64 where "xidFreezeTableAge = 150000000"
definition xidFreezeMaxAge :: i64 where "xidFreezeMaxAge = 200000000"
definition xidFailsafeAge :: i64 where "xidFailsafeAge = 1600000000"
definition xidShutdownAge :: i64 where "xidShutdownAge = 2100000000"
definition criticalScoreCeiling :: f64 where "criticalScoreCeiling = lit 30"
definition diskUsedCritical :: f64 where "diskUsedCritical = lit 0.90"
definition minCacheSampleBlocks :: i64 where "minCacheSampleBlocks = 50000"

definition MarkSnapshotBacked :: "RawMetrics \<Rightarrow> string list \<Rightarrow> RawMetrics" where
  "MarkSnapshotBacked m ruleIDs =
     m\<lparr>SnapshotBackedRules := (\<lambda>r. r \<in> set ruleIDs \<or> SnapshotBackedRules m r)\<rparr>"

definition category_result :: "Category \<Rightarrow> f64 \<Rightarrow> f64 \<Rightarrow> (string \<rightharpoonup> f64) \<Rightarrow> CategoryResult" where
  "category_result n w p ds = \<lparr>Name = n, Score = Fin 0, Weight = w, Penalty = p, Details = ds\<rparr>"

subsection \<open>Connections\<close>

definition connection_curve :: "f64 \<Rightarrow> f64" where
  "connection_curve ratio =
     (if lit 0.95 < ratio then lit 70 + (ratio - lit 0.95) / lit 0.05 * lit 30
      else if lit 0.80 < ratio then lit 30 + (ratio - lit 0.80) / lit 0.15 * lit 40
      else if lit 0.60 < ratio then (ratio - lit 0.60) / lit 0.20 * lit 30
      else Fin 0)"

definition connections_value :: "RawMetrics \<Rightarrow> f64" where
  "connections_value m =
     (let ratio = of_i64 (TotalConnections m) / of_i64 (MaxConnections m);
          penalty = connection_curve ratio;
          penalty = penalty + math_Min (of_i64 (IdleInTransaction m) * lit 5) (lit 30);
          penalty =
            (if lit 300 < LongestTransactionSeconds m
             then penalty +
               math_Min ((LongestTransactionSeconds m - lit 300) / lit 60 * lit 5) (lit 20)
             else penalty)
      in math_Min penalty (lit 100))"

definition penaltyConnections :: "RawMetrics \<Rightarrow> CategoryResult" where
  "penaltyConnections m =
     (if MaxConnections m = 0
      then category_result CategoryConnections weightConnections (Fin 0) Map.empty
      else
        category_result CategoryConnections weightConnections
          (round_to 10 (connections_value m))
          [''connection_ratio'' \<mapsto>
             round_to 1000 (of_i64 (TotalConnections m) / of_i64 (MaxConnections m)),
           ''idle_in_transaction'' \<mapsto> of_i64 (IdleInTransaction m),
           ''longest_transaction_seconds'' \<mapsto> LongestTransactionSeconds m])"

subsection \<open>Performance\<close>

definition cacheHitRatioMeaningful :: "RawMetrics \<Rightarrow> bool" where
  "cacheHitRatioMeaningful m \<longleftrightarrow>
     CacheSampleBlocks m = 0 \<or> minCacheSampleBlocks \<le> CacheSampleBlocks m"

definition cache_curve :: "f64 \<Rightarrow> f64" where
  "cache_curve r =
     (if lit 95 \<le> r then Fin 0
      else if lit 90 \<le> r then (lit 95 - r) / lit 5 * lit 20
      else if lit 85 \<le> r then lit 20 + (lit 90 - r) / lit 5 * lit 30
      else lit 50 + (lit 85 - r) / lit 10 * lit 50)"

definition penaltyPerformance :: "RawMetrics \<Rightarrow> CategoryResult" where
  "penaltyPerformance m =
     (let penalty = (if \<not> cacheHitRatioMeaningful m then Fin 0 else cache_curve (CacheHitRatio m));
          penalty = math_Min penalty (lit 100);
          details = [''cache_hit_ratio'' \<mapsto> CacheHitRatio m];
          details =
            (if \<not> cacheHitRatioMeaningful m
             then details(''cache_sample_blocks'' \<mapsto> of_i64 (CacheSampleBlocks m))
             else details)
      in category_result CategoryPerformance weightPerformance (round_to 10 penalty) details)"

subsection \<open>Storage\<close>

definition dead_ratio_curve :: "f64 \<Rightarrow> f64" where
  "dead_ratio_curve r =
     (if lit 30 < r then lit 40
      else if lit 20 < r then lit 20 + (r - lit 20) / lit 10 * lit 20
      else r / lit 20 * lit 20)"

definition add_newpage :: "f64 \<Rightarrow> f64 \<Rightarrow> f64" where
  "add_newpage r penalty =
     (if lit 0.20 < r then penalty + lit 20 else if lit 0.10 < r then penalty + lit 10
      else if lit 0.05 < r then penalty + lit 5 else penalty)"

definition storage_value :: "RawMetrics \<Rightarrow> f64" where
  "storage_value m =
     (let penalty = dead_ratio_curve (MaxDeadRatio m);
          penalty =
            (if lit 15 < AvgDeadRatio m
             then penalty + math_Min ((AvgDeadRatio m - lit 15) * lit 2) (lit 30) else penalty);
          penalty =
            (if 5 < TablesHighBloat m
             then penalty + math_Min (of_i64 (TablesHighBloat m) * lit 3) (lit 30) else penalty);
          penalty = add_newpage (NewpageUpdateRatio m) penalty
      in math_Min penalty (lit 100))"

definition penaltyStorage :: "RawMetrics \<Rightarrow> CategoryResult" where
  "penaltyStorage m =
     category_result CategoryStorage weightStorage (round_to 10 (storage_value m))
       [''max_dead_ratio'' \<mapsto> MaxDeadRatio m,
        ''avg_dead_ratio'' \<mapsto> AvgDeadRatio m,
        ''tables_high_bloat'' \<mapsto> of_i64 (TablesHighBloat m),
        ''newpage_update_ratio'' \<mapsto> NewpageUpdateRatio m]"

subsection \<open>Replication\<close>

definition lag_curve :: "f64 \<Rightarrow> f64" where
  "lag_curve s =
     (if lit 30 < s then lit 50
      else if lit 5 < s then lit 10 + (s - lit 5) / lit 25 * lit 40
      else if lit 1 < s then (s - lit 1) / lit 4 * lit 10
      else Fin 0)"

definition replication_value :: "RawMetrics \<Rightarrow> f64" where
  "replication_value m =
     (let penalty = lag_curve (MaxReplayLagSeconds m);
          lagMB = of_i64 (MaxLagBytes m) / lit (1024 * 1024);
          penalty =
            (if lit 100 < lagMB then penalty + math_Min (lagMB / lit 10) (lit 30) else penalty);
          penalty =
            (if 0 < DisconnectedReplicas m
             then penalty + math_Min (of_i64 (DisconnectedReplicas m) * lit 30) (lit 60)
             else penalty)
      in math_Min penalty (lit 100))"

definition penaltyReplication :: "RawMetrics \<Rightarrow> CategoryResult" where
  "penaltyReplication m =
     (if ReplicaCount m = 0
      then category_result CategoryReplication weightReplication (Fin 0)
             [''replica_count'' \<mapsto> Fin 0]
      else
        category_result CategoryReplication weightReplication (round_to 10 (replication_value m))
          [''replica_count'' \<mapsto> of_i64 (ReplicaCount m),
           ''max_replay_lag_seconds'' \<mapsto> MaxReplayLagSeconds m,
           ''max_lag_bytes'' \<mapsto> of_i64 (MaxLagBytes m),
           ''disconnected_replicas'' \<mapsto> of_i64 (DisconnectedReplicas m)])"

subsection \<open>Maintenance\<close>

definition xid_curve :: "i64 \<Rightarrow> f64" where
  "xid_curve xidAge =
     (if xidFailsafeAge < xidAge
      then lit 80 +
        math_Min (of_i64 (wrap64 (xidAge - xidFailsafeAge)) /
                  of_i64 (xidShutdownAge - xidFailsafeAge) * lit 20) (lit 20)
      else if xidFreezeMaxAge < xidAge
      then of_i64 (wrap64 (xidAge - xidFreezeMaxAge)) /
           of_i64 (xidFailsafeAge - xidFreezeMaxAge) * lit 80
      else Fin 0)"

definition add_overdue :: "f64 \<Rightarrow> f64 \<Rightarrow> f64" where
  "add_overdue hours penalty =
     (if lit 1440 < hours then penalty + lit 30
      else if lit 504 < hours
      then penalty + math_Min (lit 15 + (hours - lit 504) / lit 24 * lit 0.5) (lit 30)
      else if lit 168 < hours then penalty + (hours - lit 168) / lit 24 * lit 1
      else penalty)"

definition maintenance_value :: "RawMetrics \<Rightarrow> f64" where
  "maintenance_value m =
     (let xidAge = max (MaxRelfrozenxidAge m) (MaxXidAge m);
          penalty = xid_curve xidAge;
          penalty = add_overdue (MaxOverdueVacuumAgeHours m) penalty;
          penalty =
            (if 5 < VacuumBacklogTables m
             then penalty +
               math_Min (of_i64 (wrap64 (VacuumBacklogTables m - 5)) * lit 1.5) (lit 15)
             else penalty);
          penalty =
            (if 0 < TablesNeverVacuumed m
             then penalty + math_Min (of_i64 (TablesNeverVacuumed m) * lit 5) (lit 20)
             else penalty);
          penalty =
            (if 0 < TablesWithAutovacuumOff m
             then penalty + math_Min (of_i64 (TablesWithAutovacuumOff m) * lit 3) (lit 15)
             else penalty);
          penalty =
            (if 0 < StalePlannerStatsTables m
             then penalty + math_Min (of_i64 (StalePlannerStatsTables m) * lit 2) (lit 15)
             else penalty)
      in math_Min penalty (lit 100))"

definition penaltyMaintenance :: "RawMetrics \<Rightarrow> CategoryResult" where
  "penaltyMaintenance m =
     category_result CategoryMaintenance weightMaintenance (round_to 10 (maintenance_value m))
       [''max_xid_age'' \<mapsto> of_i64 (MaxXidAge m),
        ''max_relfrozenxid_age'' \<mapsto> of_i64 (MaxRelfrozenxidAge m),
        ''vacuum_backlog_tables'' \<mapsto> of_i64 (VacuumBacklogTables m),
        ''max_overdue_vacuum_age_hours'' \<mapsto> MaxOverdueVacuumAgeHours m,
        ''tables_never_vacuumed'' \<mapsto> of_i64 (TablesNeverVacuumed m),
        ''tables_with_autovacuum_off'' \<mapsto> of_i64 (TablesWithAutovacuumOff m),
        ''stale_planner_stats_tables'' \<mapsto> of_i64 (StalePlannerStatsTables m)]"

subsection \<open>Horizon, WAL and checkpoints\<close>

definition horizon_curve :: "f64 \<Rightarrow> f64" where
  "horizon_curve lag =
     (if lit 100000000 < lag
      then lit 70 + math_Min ((lag - lit 100000000) / lit 100000000 * lit 30) (lit 30)
      else if lit 10000000 < lag then lit 30 + (lag - lit 10000000) / lit 90000000 * lit 40
      else if lit 1000000 < lag then (lag - lit 1000000) / lit 9000000 * lit 30
      else Fin 0)"

definition penaltyHorizon :: "RawMetrics \<Rightarrow> CategoryResult" where
  "penaltyHorizon m =
     (let lag = of_i64 (HorizonLagXids m)
      in category_result CategoryHorizon weightHorizon
           (round_to 10 (math_Min (horizon_curve lag) (lit 100)))
           [''horizon_lag_xids'' \<mapsto> lag])"

definition checkpoint_curve :: "f64 \<Rightarrow> f64" where
  "checkpoint_curve ratio =
     (if lit 0.20 < ratio then lit 70 + math_Min ((ratio - lit 0.20) / lit 0.30 * lit 30) (lit 30)
      else if lit 0.10 < ratio then lit 30 + (ratio - lit 0.10) / lit 0.10 * lit 40
      else if lit 0.05 < ratio then (ratio - lit 0.05) / lit 0.05 * lit 30
      else Fin 0)"

definition checkpoint_ratio :: "RawMetrics \<Rightarrow> f64" where
  "checkpoint_ratio m =
     (let total = wrap64 (TimedCheckpoints m + RequestedCheckpoints m)
      in if 10 \<le> total then of_i64 (RequestedCheckpoints m) / of_i64 total else Fin 0)"

definition penaltyWalCheckpoint :: "RawMetrics \<Rightarrow> CategoryResult" where
  "penaltyWalCheckpoint m =
     (let total = wrap64 (TimedCheckpoints m + RequestedCheckpoints m);
          ratio = checkpoint_ratio m;
          penalty = (if 10 \<le> total then checkpoint_curve ratio else Fin 0)
      in category_result CategoryWalCheckpoint weightWalCheckpoint
           (round_to 10 (math_Min penalty (lit 100)))
           [''requested_checkpoint_ratio'' \<mapsto> round_to 10000 ratio,
            ''timed_checkpoints'' \<mapsto> of_i64 (TimedCheckpoints m),
            ''requested_checkpoints'' \<mapsto> of_i64 (RequestedCheckpoints m)])"

subsection \<open>Locks\<close>

text \<open>The ladder every locks signal is graded on: three thresholds, three additions.\<close>

definition add_steps ::
  "bool \<Rightarrow> bool \<Rightarrow> bool \<Rightarrow> rat \<Rightarrow> rat \<Rightarrow> rat \<Rightarrow> f64 \<Rightarrow> f64" where
  "add_steps hi mid lo a b c penalty =
     (if hi then penalty + lit a else if mid then penalty + lit b
      else if lo then penalty + lit c else penalty)"

definition lock_saturation :: "RawMetrics \<Rightarrow> f64" where
  "lock_saturation m =
     (if 0 < MaxLocksPerTransaction m \<and> 0 < MaxConnections m
      then
        (let capacity = of_i64 (MaxLocksPerTransaction m) * of_i64 (MaxConnections m)
         in if lit 0 < capacity then of_i64 (HeavyweightLocksTotal m) / capacity else Fin 0)
      else Fin 0)"

definition locks_value :: "RawMetrics \<Rightarrow> f64" where
  "locks_value m =
     (let penalty = Fin 0;
          w = ActiveLockWaiters m;
          penalty = add_steps (10 \<le> w) (3 \<le> w) (1 \<le> w) 60 30 10 penalty;
          s = LongestLockWaitSeconds m;
          penalty = add_steps (lit 60 < s) (lit 30 < s) (lit 10 < s) 40 20 5 penalty;
          u = UngrantedLocks m;
          penalty = add_steps (15 \<le> u) (5 \<le> u) (2 \<le> u) 30 15 5 penalty;
          saturation = lock_saturation m;
          penalty =
            (if 0 < MaxLocksPerTransaction m \<and> 0 < MaxConnections m
             then add_steps (lit 0.8 < saturation) (lit 0.6 < saturation) (lit 0.5 < saturation)
                    30 15 5 penalty
             else penalty);
          d = DeadlocksTotal m;
          penalty = add_steps (100 \<le> d) (10 \<le> d) (1 \<le> d) 20 10 3 penalty
      in math_Min penalty (lit 100))"

definition penaltyLocks :: "RawMetrics \<Rightarrow> CategoryResult" where
  "penaltyLocks m =
     category_result CategoryLocks weightLocks (round_to 10 (locks_value m))
       [''active_lock_waiters'' \<mapsto> of_i64 (ActiveLockWaiters m),
        ''longest_lock_wait_seconds'' \<mapsto> LongestLockWaitSeconds m,
        ''ungranted_locks'' \<mapsto> of_i64 (UngrantedLocks m),
        ''deadlocks_total'' \<mapsto> of_i64 (DeadlocksTotal m),
        ''heavyweight_locks'' \<mapsto> of_i64 (HeavyweightLocksTotal m),
        ''lock_pool_saturation'' \<mapsto> round_to 10000 (lock_saturation m)]"

subsection \<open>The list of categories\<close>

fun update_first :: "Category \<Rightarrow> (CategoryResult \<Rightarrow> CategoryResult) \<Rightarrow>
    CategoryResult list \<Rightarrow> CategoryResult list" where
  "update_first name f [] = []"
| "update_first name f (c # cs) =
     (if Name c = name then f c # cs else c # update_first name f cs)"

definition addPenalty :: "Category \<Rightarrow> f64 \<Rightarrow> CategoryResult list \<Rightarrow> CategoryResult list" where
  "addPenalty name delta =
     update_first name (\<lambda>c. c\<lparr>Penalty := math_Min (Penalty c + delta) (lit 100)\<rparr>)"

definition b2f :: "bool \<Rightarrow> f64" where
  "b2f b = (if b then lit 1 else lit 0)"

definition setDetail ::
  "Category \<Rightarrow> string \<Rightarrow> f64 \<Rightarrow> CategoryResult list \<Rightarrow> CategoryResult list" where
  "setDetail name key value = update_first name (\<lambda>c. c\<lparr>Details := (Details c)(key \<mapsto> value)\<rparr>)"

definition hotUpdatePenalty :: "f64 \<Rightarrow> f64" where
  "hotUpdatePenalty ratio =
     (if ratio < lit 0.50 then lit 30 else if ratio < lit 0.65 then lit 15
      else if ratio < lit 0.80 then lit 5 else lit 0)"

text \<open>The three-step switch over a saturation or regression signal.\<close>

definition add_ladder ::
  "Category \<Rightarrow> f64 \<Rightarrow> rat \<Rightarrow> rat \<Rightarrow> rat \<Rightarrow> rat \<Rightarrow> rat \<Rightarrow> rat \<Rightarrow>
   CategoryResult list \<Rightarrow> CategoryResult list" where
  "add_ladder name v hi a mid b lo c cats =
     (if lit hi \<le> v then addPenalty name (lit a) cats
      else if lit mid \<le> v then addPenalty name (lit b) cats
      else if lit lo \<le> v then addPenalty name (lit c) cats
      else cats)"

definition adjust_maintenance :: "RawMetrics \<Rightarrow> CategoryResult list \<Rightarrow> CategoryResult list" where
  "adjust_maintenance m cats =
     (let cats = (if \<not> AutovacuumEnabled m then addPenalty CategoryMaintenance (lit 100) cats else cats);
          cats = (if \<not> TrackCountsEnabled m then addPenalty CategoryMaintenance (lit 100) cats else cats);
          cats = setDetail CategoryMaintenance ''autovacuum_enabled'' (b2f (AutovacuumEnabled m)) cats
      in setDetail CategoryMaintenance ''track_counts_enabled'' (b2f (TrackCountsEnabled m)) cats)"

definition adjust_performance :: "RawMetrics \<Rightarrow> CategoryResult list \<Rightarrow> CategoryResult list" where
  "adjust_performance m cats =
     (let cats = (if \<not> TrackIoTimingEnabled m then addPenalty CategoryPerformance (lit 5) cats else cats);
          cats = setDetail CategoryPerformance ''track_io_timing_enabled'' (b2f (TrackIoTimingEnabled m)) cats;
          cats = add_ladder CategoryPerformance (LatencyRegressionRatio m) 6 50 3 30 1.5 10 cats;
          cats =
            (if lit 0 < LatencyRegressionRatio m
             then setDetail CategoryPerformance ''latency_regression''
                    (round_to 100 (LatencyRegressionRatio m)) cats
             else cats);
          cats = add_ladder CategoryPerformance (SeqScanRegressionRatio m) 6 40 3 25 1.5 10 cats
      in (if lit 0 < SeqScanRegressionRatio m
          then setDetail CategoryPerformance ''seq_scan_regression''
                 (round_to 100 (SeqScanRegressionRatio m)) cats
          else cats))"

definition adjust_storage :: "RawMetrics \<Rightarrow> CategoryResult list \<Rightarrow> CategoryResult list" where
  "adjust_storage m cats =
     (let cats = addPenalty CategoryStorage (hotUpdatePenalty (HotUpdateRatio m)) cats;
          cats = setDetail CategoryStorage ''hot_update_ratio'' (HotUpdateRatio m) cats;
          cats = add_ladder CategoryStorage (DiskUsedRatio m) 0.90 80 0.80 30 0.70 10 cats
      in (if lit 0 < DiskUsedRatio m
          then setDetail CategoryStorage ''disk_used_ratio'' (round_to 1000 (DiskUsedRatio m)) cats
          else cats))"

definition adjust_wal :: "RawMetrics \<Rightarrow> CategoryResult list \<Rightarrow> CategoryResult list" where
  "adjust_wal m cats =
     (let cats =
            (if WalLevel m = ''minimal'' \<and> 0 < ReplicaCount m
             then setDetail CategoryWalCheckpoint ''wal_level_minimal_with_replicas'' (lit 1)
                    (addPenalty CategoryWalCheckpoint (lit 80) cats)
             else cats)
      in (if WalLevel m = ''logical'' \<and> LogicalSlotsActive m = 0 \<and> \<not> WalLevelManaged m
          then setDetail CategoryWalCheckpoint ''wal_level_logical_without_slots'' (lit 1)
                 (addPenalty CategoryWalCheckpoint (lit 5) cats)
          else cats))"

definition adjust_connections :: "RawMetrics \<Rightarrow> CategoryResult list \<Rightarrow> CategoryResult list" where
  "adjust_connections m cats =
     (let cats =
            (if lit 0 < NumVCPU m
             then
               (let sat = LoadAvg15 m / NumVCPU m
                in setDetail CategoryConnections ''host_load_per_vcpu'' (round_to 100 sat)
                     (add_ladder CategoryConnections sat 4 60 2 30 1 10 cats))
             else cats)
      in (if lit 0 < PoolerPoolSize m
          then
            (let sat = PoolerServerConns m / PoolerPoolSize m
             in setDetail CategoryConnections ''pooler_saturation'' (round_to 1000 sat)
                  (add_ladder CategoryConnections sat 0.8 30 0.6 15 0.5 5 cats))
          else cats))"

definition round_penalties :: "CategoryResult list \<Rightarrow> CategoryResult list" where
  "round_penalties = map (\<lambda>c. c\<lparr>Penalty := round_to 10 (Penalty c)\<rparr>)"

definition applyInstanceAdjustments :: "RawMetrics \<Rightarrow> CategoryResult list \<Rightarrow> CategoryResult list" where
  "applyInstanceAdjustments m cats =
     round_penalties (adjust_connections m (adjust_wal m (adjust_storage m
       (adjust_performance m (adjust_maintenance m cats)))))"

subsection \<open>Dropped categories\<close>

definition float_sum :: "f64 list \<Rightarrow> f64" where
  "float_sum = foldl (+) (Fin 0)"

definition redistributeWeights :: "Category list \<Rightarrow> CategoryResult list \<Rightarrow> CategoryResult list" where
  "redistributeWeights dropping cats =
     (let dropped = (\<lambda>c. Name c \<in> set dropping);
          droppedSum = float_sum (map Weight (filter dropped cats));
          otherSum = float_sum (map Weight (filter (\<lambda>c. \<not> dropped c) cats))
      in if droppedSum = Fin 0 then cats
         else
           (let cats = map (\<lambda>c. if dropped c then c\<lparr>Weight := lit 0, Penalty := lit 0\<rparr> else c) cats
            in if otherSum = Fin 0 then cats
               else map (\<lambda>c. if \<not> dropped c
                              then c\<lparr>Weight := Weight c + droppedSum * (Weight c / otherSum)\<rparr>
                              else c) cats))"

subsection \<open>The critical ceiling and the aggregate\<close>

definition freePctOf :: "f64 \<Rightarrow> f64" where
  "freePctOf usedRatio = lit 100 * (lit 1 - usedRatio)"

definition criticalXidCeiling :: "i64 \<Rightarrow> f64" where
  "criticalXidCeiling xidAge = (if xidFailsafeAge \<le> xidAge then criticalScoreCeiling else lit 100)"

definition criticalCeiling :: "RawMetrics \<Rightarrow> f64" where
  "criticalCeiling m =
     (if lit 0 < ChecksumFailuresRate m then criticalScoreCeiling
      else if diskUsedCritical \<le> DiskUsedRatio m then criticalScoreCeiling
      else if InRecovery m then lit 100
      else
        (let xidAge = max (MaxRelfrozenxidAge m) (MaxXidAge m);
             c = criticalXidCeiling xidAge
         in if c < lit 100 then c
            else if \<not> AutovacuumEnabled m \<or> \<not> TrackCountsEnabled m then criticalScoreCeiling
            else if LevelForFreePct (freePctOf (SequenceExhaustionMax m)) (SequenceThresholdsOf m)
                      = Some LevelError
            then criticalScoreCeiling
            else lit 100))"

definition Floored :: "RawMetrics \<Rightarrow> bool" where
  "Floored m \<longleftrightarrow> criticalCeiling m < lit 100"

definition base_categories :: "RawMetrics \<Rightarrow> CategoryResult list" where
  "base_categories m =
     [penaltyConnections m, penaltyPerformance m, penaltyStorage m, penaltyReplication m,
      penaltyMaintenance m, penaltyHorizon m, penaltyWalCheckpoint m, penaltyLocks m]"

definition dropped_categories :: "RawMetrics \<Rightarrow> Category list" where
  "dropped_categories m =
     (if \<not> 0 < ReplicaCount m then [CategoryReplication] else []) @
     (if InRecovery m then [CategoryMaintenance] else [])"

definition weighted_categories :: "RawMetrics \<Rightarrow> Weights \<Rightarrow> CategoryResult list" where
  "weighted_categories m w =
     (let cats = applyInstanceAdjustments m (base_categories m);
          cats = map (\<lambda>c. c\<lparr>Weight := byCategory w (Name c)\<rparr>) cats;
          dropped = dropped_categories m
      in if dropped \<noteq> [] then redistributeWeights dropped cats else cats)"

definition totalPenalty :: "CategoryResult list \<Rightarrow> f64" where
  "totalPenalty cats = float_sum (map (\<lambda>c. Penalty c * Weight c) cats)"

definition effective_weights :: "Weights \<Rightarrow> Weights" where
  "effective_weights w =
     Normalize (case Validate w of Some e \<Rightarrow> DefaultWeights | None \<Rightarrow> w)"

definition CalculateWithWeights :: "RawMetrics \<Rightarrow> Weights \<Rightarrow> Result" where
  "CalculateWithWeights m w =
     (let cats = weighted_categories m (effective_weights w);
          total = totalPenalty cats;
          cats = map (\<lambda>c. c\<lparr>Score := lit 100 - Penalty c\<rparr>) cats;
          score = math_Max (lit 0) (math_Min (lit 100) (lit 100 - total));
          ceiling = criticalCeiling m;
          score = (if ceiling < score then ceiling else score)
      in \<lparr>result_Score = round_to 10 score, Categories = cats,
          HasReplication = 0 < ReplicaCount m, result_InRecovery = InRecovery m\<rparr>)"

definition Calculate :: "RawMetrics \<Rightarrow> Result" where
  "Calculate m = CalculateWithWeights m DefaultWeights"

section \<open>Ranges of the penalties\<close>

text \<open>
  What the collectors deliver: counts and ages are non-negative integers, ratios and
  durations are non-negative floats (possibly infinite, never NaN).
\<close>

definition metric_counts :: "RawMetrics \<Rightarrow> int list" where
  "metric_counts m =
     [TotalConnections m, IdleInTransaction m, MaxConnections m, CacheSampleBlocks m,
      TablesHighBloat m, ReplicaCount m, MaxLagBytes m, DisconnectedReplicas m, MaxXidAge m,
      VacuumBacklogTables m, TablesNeverVacuumed m, TablesWithAutovacuumOff m,
      MaxRelfrozenxidAge m, HorizonLagXids m, TimedCheckpoints m, RequestedCheckpoints m,
      ActiveLockWaiters m, UngrantedLocks m, DeadlocksTotal m, HeavyweightLocksTotal m,
      MaxLocksPerTransaction m, StalePlannerStatsTables m]"

definition metric_levels :: "RawMetrics \<Rightarrow> f64 list" where
  "metric_levels m =
     [LongestTransactionSeconds m, CacheHitRatio m, MaxDeadRatio m, AvgDeadRatio m,
      MaxReplayLagSeconds m, MaxOverdueVacuumAgeHours m, LongestLockWaitSeconds m,
      HotUpdateRatio m, NewpageUpdateRatio m]"

definition wf_metrics :: "RawMetrics \<Rightarrow> bool" where
  "wf_metrics m \<longleftrightarrow>
     list_all (\<lambda>n. 0 \<le> n \<and> n < 2 ^ 63) (metric_counts m) \<and>
     list_all (\<lambda>x. Fin 0 \<le> x) (metric_levels m)"

lemmas wf_metrics_defs = wf_metrics_def metric_counts_def metric_levels_def

definition in_range :: "f64 \<Rightarrow> bool" where
  "in_range x \<longleftrightarrow> Fin 0 \<le> x \<and> x \<le> Fin 100"

lemma capped_in_range: "Fin 0 \<le> x \<Longrightarrow> in_range (math_Min x (lit 100))"
  by (cases x) (auto simp: in_range_def)

lemma round_in_range: "in_range x \<Longrightarrow> in_range (round_to 10 x)"
  by (simp add: in_range_def round_to_10_range)

lemma capped_round_in_range: "Fin 0 \<le> x \<Longrightarrow> in_range (round_to 10 (math_Min x (lit 100)))"
  by (intro round_in_range capped_in_range)

lemma nonneg_not_NaN: "Fin 0 \<le> x \<Longrightarrow> x \<noteq> NaN"
  by auto

lemma connection_curve_nonneg: "Fin 0 \<le> connection_curve r"
  unfolding connection_curve_def by (auto intro!: f64_bounds)

lemma cache_curve_nonneg: "r \<noteq> NaN \<Longrightarrow> Fin 0 \<le> cache_curve r"
  unfolding cache_curve_def
  by (auto intro!: pos_mult_nonneg pos_divide_nonneg pos_minus_left_nonneg f64_add_nonneg)

lemma dead_ratio_curve_nonneg: "Fin 0 \<le> r \<Longrightarrow> Fin 0 \<le> dead_ratio_curve r"
  unfolding dead_ratio_curve_def by (auto intro!: f64_bounds)

lemma lag_curve_nonneg: "Fin 0 \<le> lag_curve s"
  unfolding lag_curve_def by (auto intro!: f64_bounds)

lemma horizon_curve_nonneg: "Fin 0 \<le> horizon_curve l"
  unfolding horizon_curve_def by (auto intro!: f64_bounds)

lemma checkpoint_curve_nonneg: "Fin 0 \<le> checkpoint_curve r"
  unfolding checkpoint_curve_def by (auto intro!: f64_bounds)

lemma add_newpage_nonneg: "Fin 0 \<le> p \<Longrightarrow> Fin 0 \<le> add_newpage r p"
  unfolding add_newpage_def by (auto intro!: f64_bounds)

lemma add_overdue_nonneg: "Fin 0 \<le> p \<Longrightarrow> Fin 0 \<le> add_overdue h p"
  unfolding add_overdue_def by (auto intro!: f64_bounds)

lemma xid_curve_nonneg: "0 \<le> a \<Longrightarrow> a < 2 ^ 63 \<Longrightarrow> Fin 0 \<le> xid_curve a"
  unfolding xid_curve_def xidFailsafeAge_def xidFreezeMaxAge_def xidShutdownAge_def
  by (auto simp: wrap64_id in_i64_def intro!: f64_bounds of_i64_nonneg is_pos_of_i64)

lemma add_steps_nonneg:
  "Fin 0 \<le> p \<Longrightarrow> 0 \<le> a \<Longrightarrow> 0 \<le> b \<Longrightarrow> 0 \<le> c \<Longrightarrow> Fin 0 \<le> add_steps h m l a b c p"
  unfolding add_steps_def by (auto intro!: f64_bounds fin_of_nonneg)

text \<open>The shape of a conditional addition, and of a capped multiple of a count.\<close>

lemma cond_add_nonneg:
  "Fin 0 \<le> p \<Longrightarrow> (b \<Longrightarrow> Fin 0 \<le> d) \<Longrightarrow> Fin 0 \<le> (if b then p + d else p)"
  by (simp add: f64_add_nonneg)

lemma capped_count_nonneg:
  "0 \<le> n \<Longrightarrow> is_pos a \<Longrightarrow> is_pos c \<Longrightarrow> Fin 0 \<le> math_Min (of_i64 n * a) c"
  by (intro math_Min_range pos_mult_nonneg of_i64_nonneg)

lemma if_nonneg: "(b \<Longrightarrow> Fin 0 \<le> x) \<Longrightarrow> (\<not> b \<Longrightarrow> Fin 0 \<le> y) \<Longrightarrow> Fin 0 \<le> (if b then x else y)"
  by simp

lemma connections_value_range:
  "wf_metrics m \<Longrightarrow> in_range (connections_value m)"
  unfolding connections_value_def Let_def
  by (rule capped_in_range)
    (auto simp: wf_metrics_defs intro!: f64_bounds of_i64_nonneg connection_curve_nonneg)

lemma storage_value_range: "wf_metrics m \<Longrightarrow> in_range (storage_value m)"
  unfolding storage_value_def Let_def
  by (rule capped_in_range)
    (auto simp: wf_metrics_defs
      intro!: f64_bounds of_i64_nonneg dead_ratio_curve_nonneg add_newpage_nonneg)

lemma replication_value_range: "wf_metrics m \<Longrightarrow> in_range (replication_value m)"
  unfolding replication_value_def Let_def
  by (rule capped_in_range)
    (auto simp: wf_metrics_defs intro!: f64_bounds of_i64_nonneg lag_curve_nonneg)

lemma maintenance_value_range: "wf_metrics m \<Longrightarrow> in_range (maintenance_value m)"
  unfolding maintenance_value_def Let_def
  by (intro capped_in_range cond_add_nonneg capped_count_nonneg add_overdue_nonneg xid_curve_nonneg)
    (simp_all add: wf_metrics_defs wrap64_id in_i64_def max_def)

lemma locks_value_range: "in_range (locks_value m)"
  unfolding locks_value_def Let_def
  by (intro capped_in_range add_steps_nonneg if_nonneg) simp_all

section \<open>The contract of a penalty function\<close>

text \<open>
  The aggregate uses a penalty function through three facts only: the category it reports,
  a penalty between 0 and 100 on well-formed metrics, and no score of its own.
\<close>

locale penalty_function =
  fixes pen :: "RawMetrics \<Rightarrow> CategoryResult" and cat :: Category
  assumes name: "Name (pen m) = cat"
    and range: "wf_metrics m \<Longrightarrow> in_range (Penalty (pen m))"

lemmas category_result_simps [simp] =
  category_result_def [THEN arg_cong [where f = Name], simplified]
  category_result_def [THEN arg_cong [where f = Penalty], simplified]
  category_result_def [THEN arg_cong [where f = Weight], simplified]

lemma zero_in_range [simp]: "in_range (Fin 0)"
  by (simp add: in_range_def)

interpretation pen_connections: penalty_function penaltyConnections CategoryConnections
  by unfold_locales
    (auto simp: penaltyConnections_def intro!: round_in_range connections_value_range)

interpretation pen_performance: penalty_function penaltyPerformance CategoryPerformance
  by unfold_locales
    (auto simp: penaltyPerformance_def Let_def wf_metrics_defs
      intro!: round_in_range capped_in_range [simplified] cache_curve_nonneg)

interpretation pen_storage: penalty_function penaltyStorage CategoryStorage
  by unfold_locales
    (auto simp: penaltyStorage_def intro!: round_in_range storage_value_range)

interpretation pen_replication: penalty_function penaltyReplication CategoryReplication
  by unfold_locales
    (auto simp: penaltyReplication_def intro!: round_in_range replication_value_range)

interpretation pen_maintenance: penalty_function penaltyMaintenance CategoryMaintenance
  by unfold_locales
    (auto simp: penaltyMaintenance_def intro!: round_in_range maintenance_value_range)

interpretation pen_horizon: penalty_function penaltyHorizon CategoryHorizon
  by unfold_locales
    (auto simp: penaltyHorizon_def Let_def
      intro!: round_in_range capped_in_range [simplified] horizon_curve_nonneg)

interpretation pen_wal: penalty_function penaltyWalCheckpoint CategoryWalCheckpoint
  by unfold_locales
    (auto simp: penaltyWalCheckpoint_def Let_def
      intro!: round_in_range capped_in_range [simplified] checkpoint_curve_nonneg)

interpretation pen_locks: penalty_function penaltyLocks CategoryLocks
  by unfold_locales (auto simp: penaltyLocks_def intro!: round_in_range locks_value_range)

end
