(* ===== verification/Health_Aggregate.thy ===== *)
theory Health_Aggregate
  imports Health_Score
begin

text \<open>
  Facts about the aggregation in \<^verbatim>\<open>CalculateWithWeights\<close>: the list of categories
  keeps its shape and its range through every adjustment, the effective weights are finite
  and non-negative, dropped categories stop counting, and the score is a number between
  0 and 100 that a critical condition forces to at most 30.
\<close>

definition all_categories :: "Category list" where
  "all_categories =
     [CategoryConnections, CategoryPerformance, CategoryStorage, CategoryReplication,
      CategoryMaintenance, CategoryHorizon, CategoryWalCheckpoint, CategoryLocks]"

definition cats_ok :: "CategoryResult list \<Rightarrow> bool" where
  "cats_ok cs \<longleftrightarrow> map Name cs = all_categories \<and> list_all (\<lambda>c. in_range (Penalty c)) cs"

section \<open>Adjustments keep shape and range\<close>

lemma update_first_names: "(\<And>c. Name (f c) = Name c) \<Longrightarrow> map Name (update_first n f cs) = map Name cs"
  by (induction cs) auto

lemma update_first_all:
  "list_all P cs \<Longrightarrow> (\<And>c. P c \<Longrightarrow> P (f c)) \<Longrightarrow> list_all P (update_first n f cs)"
  by (induction cs) auto

lemma update_first_ok:
  "cats_ok cs \<Longrightarrow> (\<And>c. Name (f c) = Name c) \<Longrightarrow>
   (\<And>c. in_range (Penalty c) \<Longrightarrow> in_range (Penalty (f c))) \<Longrightarrow> cats_ok (update_first n f cs)"
  by (simp add: cats_ok_def update_first_names update_first_all)

lemma addPenalty_ok: "cats_ok cs \<Longrightarrow> Fin 0 \<le> d \<Longrightarrow> cats_ok (addPenalty n d cs)"
  unfolding addPenalty_def
  by (rule update_first_ok)
    (auto intro!: capped_in_range [simplified] f64_add_nonneg simp: in_range_def [of "Penalty _"])

lemma setDetail_ok: "cats_ok cs \<Longrightarrow> cats_ok (setDetail n k v cs)"
  unfolding setDetail_def by (rule update_first_ok) auto

lemma if_ok: "(b \<Longrightarrow> cats_ok x) \<Longrightarrow> (\<not> b \<Longrightarrow> cats_ok y) \<Longrightarrow> cats_ok (if b then x else y)"
  by simp

lemma add_ladder_ok:
  "cats_ok cs \<Longrightarrow> 0 \<le> a \<Longrightarrow> 0 \<le> b \<Longrightarrow> 0 \<le> c \<Longrightarrow> cats_ok (add_ladder n v hi a mid b lo c cs)"
  unfolding add_ladder_def by (simp add: addPenalty_ok fin_of_nonneg)

lemma hotUpdatePenalty_nonneg: "Fin 0 \<le> hotUpdatePenalty r"
  by (simp add: hotUpdatePenalty_def)

lemmas adjust_intros = if_ok setDetail_ok addPenalty_ok add_ladder_ok hotUpdatePenalty_nonneg

lemma adjust_maintenance_ok: "cats_ok cs \<Longrightarrow> cats_ok (adjust_maintenance m cs)"
  unfolding adjust_maintenance_def Let_def by (intro adjust_intros) simp_all

lemma adjust_performance_ok: "cats_ok cs \<Longrightarrow> cats_ok (adjust_performance m cs)"
  unfolding adjust_performance_def Let_def by (intro adjust_intros) simp_all

lemma adjust_storage_ok: "cats_ok cs \<Longrightarrow> cats_ok (adjust_storage m cs)"
  unfolding adjust_storage_def Let_def by (intro adjust_intros) simp_all

lemma adjust_wal_ok: "cats_ok cs \<Longrightarrow> cats_ok (adjust_wal m cs)"
  unfolding adjust_wal_def Let_def by (intro adjust_intros) simp_all

lemma adjust_connections_ok: "cats_ok cs \<Longrightarrow> cats_ok (adjust_connections m cs)"
  unfolding adjust_connections_def Let_def by (intro adjust_intros) simp_all

lemma round_penalties_ok: "cats_ok cs \<Longrightarrow> cats_ok (round_penalties cs)"
  by (auto simp: cats_ok_def round_penalties_def comp_def list_all_iff intro: round_in_range)

lemma applyInstanceAdjustments_ok: "cats_ok cs \<Longrightarrow> cats_ok (applyInstanceAdjustments m cs)"
  unfolding applyInstanceAdjustments_def
  by (intro round_penalties_ok adjust_connections_ok adjust_wal_ok adjust_storage_ok
      adjust_performance_ok adjust_maintenance_ok)

lemma base_categories_ok: "wf_metrics m \<Longrightarrow> cats_ok (base_categories m)"
  by (simp add: cats_ok_def base_categories_def all_categories_def
      pen_connections.name pen_performance.name pen_storage.name pen_replication.name
      pen_maintenance.name pen_horizon.name pen_wal.name pen_locks.name
      pen_connections.range pen_performance.range pen_storage.range pen_replication.range
      pen_maintenance.range pen_horizon.range pen_wal.range pen_locks.range)

section \<open>Effective weights\<close>

definition weight_in :: "rat \<Rightarrow> f64 \<Rightarrow> bool" where
  "weight_in b x \<longleftrightarrow> Fin 0 \<le> x \<and> x \<le> Fin b \<and> is_f64 x"

definition weights_ok :: "Weights \<Rightarrow> bool" where
  "weights_ok w \<longleftrightarrow> list_all (weight_in 2) (weight_values w)"

text \<open>A left-to-right float sum of non-negative values is at least each of them.\<close>

lemma foldl_add_ge:
  assumes "Fin 0 \<le> a" and "list_all (\<lambda>x. Fin 0 \<le> x) xs" and "is_f64 a"
  shows "a \<le> foldl (+) a xs"
  using assms
proof (induction xs arbitrary: a)
  case (Cons x xs)
  have "a \<le> a + x"
    using Cons.prems by (intro f64_add_increasing) auto
  also have "\<dots> \<le> foldl (+) (a + x) xs"
    using Cons.prems by (intro Cons.IH) (auto intro: f64_add_nonneg)
  finally show ?case by simp
qed (auto intro!: f64_le_refl)

lemma foldl_add_ge_elem:
  assumes "Fin 0 \<le> a" and "list_all (\<lambda>x. Fin 0 \<le> x \<and> is_f64 x) xs" and "y \<in> set xs"
  shows "y \<le> foldl (+) a xs"
  using assms
proof (induction xs arbitrary: a)
  case (Cons x xs)
  show ?case
  proof (cases "y = x")
    case True
    have "x \<le> a + x" using Cons.prems by (intro f64_add_increasing_right) auto
    also have "\<dots> \<le> foldl (+) (a + x) xs"
      using Cons.prems by (intro foldl_add_ge) (auto simp: list_all_iff intro: f64_add_nonneg)
    finally show ?thesis using True by simp
  next
    case False
    with Cons show ?thesis by (auto intro: f64_add_nonneg)
  qed
qed simp

lemma Sum_eq: "Sum w = foldl (+) (Connections w) (tl (weight_values w))"
  by (simp add: Sum_def weight_values_def)

lemma Sum_ge:
  assumes "list_all (\<lambda>x. Fin 0 \<le> x \<and> is_f64 x) (weight_values w)" and "y \<in> set (weight_values w)"
  shows "y \<le> Sum w"
proof (cases "y = Connections w")
  case True
  have "Connections w \<le> foldl (+) (Connections w) (tl (weight_values w))"
    using assms(1) by (intro foldl_add_ge) (auto simp: weight_values_def)
  then show ?thesis using True by (simp add: Sum_eq)
next
  case False
  then have "y \<in> set (tl (weight_values w))" using assms(2) by (auto simp: weight_values_def)
  then show ?thesis unfolding Sum_eq
    using assms(1) by (intro foldl_add_ge_elem) (auto simp: weight_values_def)
qed

lemma quotient_unit:
  assumes "Fin 0 \<le> x" and "x \<le> Fin b \<or> x \<noteq> PInf" and "x \<le> s" and "\<not> s \<le> Fin 0"
  shows "weight_in 1 (x / s)"
proof (cases s)
  case (Fin c)
  with assms obtain a where a: "x = Fin a" "0 \<le> a" "a \<le> c" by (cases x) auto
  with Fin assms(4) have c: "0 < c" by simp
  have "fin_of (a / c) \<le> fin_of 1" using a c by (intro fin_of_mono) simp
  with a c Fin show ?thesis by (simp add: weight_in_def fin_of_nonneg)
next
  case PInf
  with assms show ?thesis by (cases x) (auto simp: weight_in_def is_f64_def)
qed (use assms in \<open>cases x; auto\<close>)+

lemma weight_in_mono: "weight_in a x \<Longrightarrow> a \<le> b \<Longrightarrow> weight_in b x"
  by (cases x) (auto simp: weight_in_def)

lemma weights_ok_divide:
  assumes "\<And>x. x \<in> set (weight_values w) \<Longrightarrow> weight_in 1 (x / s)"
  shows "weights_ok \<lparr>Connections = Connections w / s, Performance = Performance w / s,
            Storage = Storage w / s, Replication = Replication w / s,
            Maintenance = Maintenance w / s, Horizon = Horizon w / s,
            WalCheckpoint = WalCheckpoint w / s, Locks = Locks w / s\<rparr>"
proof -
  have "weight_in 2 (x / s)" if "x \<in> set (weight_values w)" for x
    using weight_in_mono [OF assms [OF that], of 2] by simp
  then show ?thesis by (simp add: weights_ok_def weight_values_def)
qed

lemma Validate_None:
  "Validate w = None \<longleftrightarrow>
     list_all (\<lambda>x. Fin 0 \<le> x \<and> x \<noteq> PInf) (weight_values w) \<and> \<not> Sum w \<le> Fin 0"
proof -
  have "\<not> (v < Fin 0 \<or> IsNaN v \<or> IsInf v) \<longleftrightarrow> Fin 0 \<le> v \<and> v \<noteq> PInf" for v
    by (cases v) (auto simp: IsNaN_def IsInf_def less_f64_def)
  then show ?thesis by (auto simp: Validate_def list_all_iff list_ex_iff)
qed

lemma near_one_le_two:
  assumes "math_Abs (s - lit 1) < lit (1 / 10 ^ 9)" and "Fin 0 \<le> s"
  shows "s \<le> Fin 2"
proof (rule ccontr)
  assume "\<not> s \<le> Fin 2"
  with assms(2) have two: "Fin 2 \<le> s" by (cases s) auto
  then have "Fin 2 - Fin 1 \<le> s - Fin 1" by (rule f64_minus_mono)
  then have "Fin 1 \<le> s - Fin 1" by (simp add: minus_f64_def)
  then have "Fin 1 \<le> math_Abs (s - Fin 1)" by (cases "s - Fin 1") auto
  moreover have "lit (1 / 10 ^ 9) \<le> fin_of 1" by (rule fin_of_mono) simp
  ultimately have "lit (1 / 10 ^ 9) \<le> math_Abs (s - lit 1)"
    using f64_le_trans [of "lit (1 / 10 ^ 9)" "Fin 1"] by simp
  with assms(1) show False by (auto simp: less_f64_def)
qed

lemma Normalize_ok:
  assumes v: "Validate w = None" and f: "list_all is_f64 (weight_values w)"
  shows "weights_ok (Normalize w)"
proof -
  have nn: "list_all (\<lambda>x. Fin 0 \<le> x \<and> is_f64 x) (weight_values w)"
    using v f by (auto simp: Validate_None list_all_iff)
  have s: "\<not> Sum w \<le> Fin 0" using v by (simp add: Validate_None)
  note ge = Sum_ge [OF nn]
  show ?thesis
  proof (cases "math_Abs (Sum w - lit 1) < lit (1 / 10 ^ 9)")
    case True
    have "Fin 0 \<le> Sum w"
      using ge [of "Connections w"] nn f64_le_trans [of "Fin 0" "Connections w"]
      by (auto simp: weight_values_def)
    then have "Sum w \<le> Fin 2" using near_one_le_two True by blast
    then have "weight_in 2 x" if "x \<in> set (weight_values w)" for x
      using ge [OF that] nn that by (auto simp: weight_in_def list_all_iff intro: f64_le_trans)
    then show ?thesis using True s by (auto simp: Normalize_def weights_ok_def list_all_iff)
  next
    case False
    have "weight_in 1 (x / Sum w)" if "x \<in> set (weight_values w)" for x
      using ge [OF that] nn that s v
      by (intro quotient_unit [of _ 0]) (auto simp: list_all_iff Validate_None)
    then show ?thesis using False s by (simp add: Normalize_def Let_def weights_ok_divide)
  qed
qed

lemma DefaultWeights_valid: "Validate DefaultWeights = None"
proof -
  have nn: "list_all (\<lambda>x. Fin 0 \<le> x \<and> is_f64 x) (weight_values DefaultWeights)"
    by (simp add: weight_values_def DefaultWeights_def weight_consts)
  have p: "is_pos weightConnections" by (simp add: weightConnections_def)
  have "weightConnections \<le> Sum DefaultWeights"
    using Sum_ge [OF nn, of weightConnections] by (simp add: weight_values_def DefaultWeights_def)
  then have "\<not> Sum DefaultWeights \<le> Fin 0" by (rule is_pos_not_le_0 [OF p])
  moreover have "list_all (\<lambda>x. Fin 0 \<le> x \<and> x \<noteq> PInf) (weight_values DefaultWeights)"
    by (simp add: weight_values_def DefaultWeights_def weight_consts lit_Fin rnd_nonneg)
  ultimately show ?thesis by (simp add: Validate_None)
qed

lemma effective_weights_ok:
  assumes "list_all is_f64 (weight_values w)"
  shows "weights_ok (effective_weights w)"
proof (cases "Validate w")
  case None
  with assms show ?thesis by (simp add: effective_weights_def Normalize_ok)
next
  case (Some e)
  have "list_all is_f64 (weight_values DefaultWeights)"
    by (simp add: weight_values_def DefaultWeights_def weight_consts)
  with Some show ?thesis
    by (simp add: effective_weights_def Normalize_ok DefaultWeights_valid)
qed

section \<open>Redistribution of dropped weights\<close>

definition contrib_ok :: "CategoryResult \<Rightarrow> bool" where
  "contrib_ok c \<longleftrightarrow> in_range (Penalty c) \<and> Fin 0 \<le> Weight c \<and> Weight c \<le> Fin 18"

lemma byCategory_ok: "weights_ok w \<Longrightarrow> weight_in 2 (byCategory w n)"
  by (cases n) (auto simp: weights_ok_def weight_values_def byCategory_def)

lemma foldl_add_le:
  assumes "list_all (weight_in 2) xs" and "Fin 0 \<le> a" and "a \<le> Fin (of_int k)"
    and "0 \<le> k" and "k + 2 * int (length xs) \<le> 2 ^ 53"
  shows "Fin 0 \<le> foldl (+) a xs \<and> foldl (+) a xs \<le> Fin (of_int (k + 2 * int (length xs)))"
  using assms
proof (induction xs arbitrary: a k)
  case (Cons x xs)
  have "a + x \<le> Fin (of_int k + 2)"
    using Cons.prems lit_int [of "k + 2"]
    by (intro f64_add_le) (auto simp: weight_in_def)
  then have "a + x \<le> Fin (of_int (k + 2))" by simp
  moreover have "Fin 0 \<le> a + x"
    using Cons.prems by (intro f64_add_nonneg) (auto simp: weight_in_def)
  ultimately have "Fin 0 \<le> foldl (+) (a + x) xs \<and>
      foldl (+) (a + x) xs \<le> Fin (of_int ((k + 2) + 2 * int (length xs)))"
    using Cons.prems by (intro Cons.IH) auto
  then show ?case by (simp add: algebra_simps)
qed simp

lemma float_sum_bounds:
  assumes "list_all (weight_in 2) xs" and "length xs \<le> 8"
  shows "Fin 0 \<le> float_sum xs" and "float_sum xs \<le> Fin 16"
proof -
  have b: "Fin 0 \<le> float_sum xs \<and> float_sum xs \<le> Fin (of_int (0 + 2 * int (length xs)))"
    unfolding float_sum_def using assms by (intro foldl_add_le) auto
  then show "Fin 0 \<le> float_sum xs" by simp
  have "(of_int (2 * int (length xs)) :: rat) \<le> of_int 16"
    using assms(2) by (simp only: of_int_le_iff)
  then have "Fin (of_int (0 + 2 * int (length xs))) \<le> Fin 16" by simp
  with b show "float_sum xs \<le> Fin 16" using f64_le_trans by blast
qed

lemma float_sum_ge:
  "list_all (weight_in 2) xs \<Longrightarrow> x \<in> set xs \<Longrightarrow> x \<le> float_sum xs"
  unfolding float_sum_def
  by (rule foldl_add_ge_elem) (auto simp: list_all_iff weight_in_def)

lemma boosted_weight:
  assumes w: "weight_in 2 w" and ws: "w \<le> os" and os: "os \<noteq> Fin 0"
    and d: "Fin 0 \<le> ds" "ds \<le> Fin 16"
  shows "Fin 0 \<le> w + ds * (w / os) \<and> w + ds * (w / os) \<le> Fin 18"
proof -
  have "\<not> os \<le> Fin 0"
    using ws os w f64_antisym [of os "Fin 0"] f64_le_trans [of "Fin 0" w os]
    by (auto simp: weight_in_def)
  then have r: "weight_in 1 (w / os)"
    using w ws by (intro quotient_unit [of _ 2]) (auto simp: weight_in_def)
  from r obtain b where b: "w / os = Fin b" "0 \<le> b" "b \<le> 1"
    by (cases "w / os") (auto simp: weight_in_def)
  from d obtain a where a: "ds = Fin a" "0 \<le> a" "a \<le> 16" by (cases ds) auto
  have "a * b \<le> 16" using a b mult_mono [of a 16 b 1] by simp
  then have "fin_of (a * b) \<le> Fin 16" and "Fin 0 \<le> fin_of (a * b)"
    using fin_of_mono [of "a * b" 16] a b by (simp_all add: fin_of_nonneg)
  then have p: "ds * (w / os) \<le> Fin 16" "Fin 0 \<le> ds * (w / os)" using a b by simp_all
  have "w + ds * (w / os) \<le> Fin (2 + 16)"
    using w p by (intro f64_add_le) (auto simp: weight_in_def)
  then show ?thesis using w p by (auto simp: weight_in_def intro: f64_add_nonneg)
qed

lemma redistribute_names: "map Name (redistributeWeights dr cs) = map Name cs"
  by (simp add: redistributeWeights_def Let_def comp_def cong: if_cong)

lemma redistribute_contrib:
  assumes ok: "list_all (\<lambda>c. in_range (Penalty c) \<and> weight_in 2 (Weight c)) cs"
    and len: "length cs \<le> 8"
  shows "list_all contrib_ok (redistributeWeights dr cs)"
proof -
  let ?D = "\<lambda>c. Name c \<in> set dr"
  let ?ds = "float_sum (map Weight (filter ?D cs))"
  let ?os = "float_sum (map Weight (filter (\<lambda>c. \<not> ?D c) cs))"
  have l: "length (filter P cs) \<le> 8" for P :: "CategoryResult \<Rightarrow> bool"
    using len length_filter_le [of P cs] by linarith
  have wd: "list_all (weight_in 2) (map Weight (filter P cs))" for P
    using ok by (auto simp: list_all_iff)
  have ds: "Fin 0 \<le> ?ds" "?ds \<le> Fin 16"
    using float_sum_bounds [OF wd [of ?D]] l [of ?D] by simp_all
  have plain: "contrib_ok c" if "c \<in> set cs" for c
    using ok that weight_in_mono [of 2 "Weight c" 18]
    by (auto simp: list_all_iff contrib_ok_def weight_in_def)
  have boost: "contrib_ok (c\<lparr>Weight := Weight c + ?ds * (Weight c / ?os)\<rparr>)"
    if "c \<in> set cs" "\<not> ?D c" "?os \<noteq> Fin 0" for c
    using ok that ds float_sum_ge [OF wd [of "\<lambda>c. \<not> ?D c"], of "Weight c"]
      boosted_weight [of "Weight c" ?os ?ds]
    by (auto simp: list_all_iff contrib_ok_def)
  have zero: "contrib_ok (c\<lparr>Weight := Fin 0, Penalty := Fin 0\<rparr>)" for c
    by (simp add: contrib_ok_def)
  show ?thesis
    using plain boost zero by (auto simp: redistributeWeights_def Let_def list_all_iff)
qed

section \<open>The score\<close>

lemma weighted_categories_ok:
  assumes "wf_metrics m" and "weights_ok w"
  shows "map Name (weighted_categories m w) = all_categories"
    and "list_all contrib_ok (weighted_categories m w)"
proof -
  let ?cs = "map (\<lambda>c. c\<lparr>Weight := byCategory w (Name c)\<rparr>)
              (applyInstanceAdjustments m (base_categories m))"
  have ok: "cats_ok (applyInstanceAdjustments m (base_categories m))"
    using assms(1) by (intro applyInstanceAdjustments_ok base_categories_ok)
  then have names: "map Name ?cs = all_categories" by (simp add: cats_ok_def comp_def)
  have "length (map Name ?cs) = 8" by (simp only: names) (simp add: all_categories_def)
  then have len: "length ?cs \<le> 8" by simp
  have in2: "list_all (\<lambda>c. in_range (Penalty c) \<and> weight_in 2 (Weight c)) ?cs"
    using ok assms(2) by (auto simp: cats_ok_def list_all_iff byCategory_ok)
  then have plain: "list_all contrib_ok ?cs"
    using weight_in_mono [of 2 _ 18] by (auto simp: list_all_iff contrib_ok_def weight_in_def)
  show "map Name (weighted_categories m w) = all_categories"
    using names by (simp add: weighted_categories_def Let_def redistribute_names)
  show "list_all contrib_ok (weighted_categories m w)"
    using plain redistribute_contrib [OF in2 len]
    by (simp add: weighted_categories_def Let_def)
qed

lemma product_nonneg: "contrib_ok c \<Longrightarrow> Fin 0 \<le> Penalty c * Weight c"
  by (cases "Penalty c"; cases "Weight c")
    (auto simp: contrib_ok_def in_range_def intro: fin_of_nonneg)

lemma foldl_add_nonneg: "Fin 0 \<le> a \<Longrightarrow> list_all (\<lambda>x. Fin 0 \<le> x) xs \<Longrightarrow> Fin 0 \<le> foldl (+) a xs"
  by (induction xs arbitrary: a) (auto intro: f64_add_nonneg)

lemma totalPenalty_nonneg: "list_all contrib_ok cs \<Longrightarrow> Fin 0 \<le> totalPenalty cs"
  unfolding totalPenalty_def float_sum_def
  by (rule foldl_add_nonneg) (auto simp: list_all_iff product_nonneg)

lemma clamp_range: "x \<noteq> NaN \<Longrightarrow> in_range (math_Max (Fin 0) (math_Min (Fin 100) x))"
  by (cases x) (auto simp: in_range_def)

lemma criticalCeiling_cases: "criticalCeiling m = Fin 30 \<or> criticalCeiling m = Fin 100"
  by (auto simp: criticalCeiling_def criticalScoreCeiling_def criticalXidCeiling_def Let_def)

lemma Floored_iff: "Floored m \<longleftrightarrow> criticalCeiling m = Fin 30"
  using criticalCeiling_cases [of m] by (auto simp: Floored_def)

definition clamped_score :: "f64 \<Rightarrow> f64 \<Rightarrow> f64" where
  "clamped_score cap tot =
     (let score = math_Max (lit 0) (math_Min (lit 100) (lit 100 - tot))
      in if cap < score then cap else score)"

lemma result_Score_eq:
  "result_Score (CalculateWithWeights m w) =
     round_to 10 (clamped_score (criticalCeiling m)
       (totalPenalty (weighted_categories m (effective_weights w))))"
  by (simp add: CalculateWithWeights_def clamped_score_def Let_def)

lemma minus_nonneg_not_NaN: "Fin 0 \<le> t \<Longrightarrow> Fin 100 - t \<noteq> NaN"
  by (cases t) (auto simp: minus_f64_def)

lemma clamped_score_range:
  assumes "Fin 0 \<le> t" and "c = Fin 30 \<or> c = Fin 100"
  shows "in_range (clamped_score c t)"
  using clamp_range [OF minus_nonneg_not_NaN [OF assms(1)]] assms(2)
  by (auto simp: clamped_score_def Let_def in_range_def)

lemma cap_30: "in_range x \<Longrightarrow> (if Fin 30 < x then Fin 30 else x) \<le> Fin 30"
  by (cases x) (auto simp: in_range_def)

lemma clamped_score_floored: "Fin 0 \<le> t \<Longrightarrow> clamped_score (Fin 30) t \<le> Fin 30"
  using cap_30 [OF clamp_range [OF minus_nonneg_not_NaN], of t]
  by (simp add: clamped_score_def Let_def)

lemma total_nonneg:
  assumes "wf_metrics m" and "list_all is_f64 (weight_values w)"
  shows "Fin 0 \<le> totalPenalty (weighted_categories m (effective_weights w))"
  using assms by (intro totalPenalty_nonneg weighted_categories_ok effective_weights_ok)

lemma score_range:
  assumes "wf_metrics m" and "list_all is_f64 (weight_values w)"
  shows "in_range (result_Score (CalculateWithWeights m w))"
  unfolding result_Score_eq
  by (intro round_in_range clamped_score_range total_nonneg assms criticalCeiling_cases)

lemma score_floored:
  assumes "wf_metrics m" and "list_all is_f64 (weight_values w)" and "Floored m"
  shows "result_Score (CalculateWithWeights m w) \<le> Fin 30"
proof -
  have "clamped_score (Fin 30) (totalPenalty (weighted_categories m (effective_weights w))) \<le> Fin 30"
    by (intro clamped_score_floored total_nonneg assms)
  from round_to_mono [OF this, of 10] show ?thesis
    using assms(3) by (simp add: result_Score_eq Floored_iff)
qed

end
