(* ===== verification/Health_Rules.thy ===== *)
theory Health_Rules
  imports Health_Aggregate
begin

text \<open>
  \<^verbatim>\<open>backend/internal/health/rules.go\<close> and \<^verbatim>\<open>cold.go\<close>: the catalogue of
  diagnosis rules, their evaluation over one snapshot of metrics, the attribution of a
  finding to a database and the order of the report. The quoting of a qualified table name
  (\<^verbatim>\<open>pgx.Identifier.Sanitize\<close>, a third-party function) is the parameter
  \<open>sanitize\<close>; it only fills one text field of one advisory rule.
\<close>

type_synonym ctxmap = "(string \<times> anyval) list"

record Hit =
  hit_Severity :: Severity
  hit_MetricValue :: f64
  hit_Database :: string
  hit_Context :: ctxmap

record Rule =
  ID :: string
  rule_Category :: Category
  RelatedRoute :: string
  Advisory :: bool
  rule_Evaluate :: "RawMetrics \<Rightarrow> Hit option"

record Recommendation =
  RuleID :: string
  rec_Category :: Category
  rec_Severity :: Severity
  rec_MetricValue :: f64
  rec_Database :: string
  rec_Context :: ctxmap
  rec_RelatedRoute :: string
  rec_Advisory :: bool

section \<open>Severities\<close>

definition severityForLevel :: "Level \<Rightarrow> Severity" where
  "severityForLevel l =
     (case l of LevelError \<Rightarrow> SeverityHigh | LevelWarning \<Rightarrow> SeverityMedium | LevelNotice \<Rightarrow> SeverityLow)"

definition category_string :: "Category \<Rightarrow> string" where
  "category_string c =
     (case c of
        CategoryConnections \<Rightarrow> ''connections''
      | CategoryPerformance \<Rightarrow> ''performance''
      | CategoryStorage \<Rightarrow> ''storage''
      | CategoryReplication \<Rightarrow> ''replication''
      | CategoryMaintenance \<Rightarrow> ''maintenance''
      | CategoryHorizon \<Rightarrow> ''horizon''
      | CategoryWalCheckpoint \<Rightarrow> ''wal_checkpoint''
      | CategoryLocks \<Rightarrow> ''locks'')"

definition CategoryStrings :: "Category list \<Rightarrow> string list" where
  "CategoryStrings cs = map category_string cs"

definition severityRank :: "Severity \<Rightarrow> int" where
  "severityRank s =
     (case s of SeverityHigh \<Rightarrow> 0 | SeverityMedium \<Rightarrow> 1 | SeverityLow \<Rightarrow> 2 | SeverityNone \<Rightarrow> 3)"

definition severityFor :: "'a::ord \<Rightarrow> 'a \<Rightarrow> 'a \<Rightarrow> 'a \<Rightarrow> Severity" where
  "severityFor v high med low =
     (if high \<le> v then SeverityHigh else if med \<le> v then SeverityMedium
      else if low \<le> v then SeverityLow else SeverityNone)"

definition severityForBelow :: "'a::ord \<Rightarrow> 'a \<Rightarrow> 'a \<Rightarrow> 'a \<Rightarrow> Severity" where
  "severityForBelow v high med low =
     (if v < high then SeverityHigh else if v < med then SeverityMedium
      else if v < low then SeverityLow else SeverityNone)"

text \<open>The tail every graded rule shares: no hit when the severity is empty.\<close>

definition graded_hit :: "Severity \<Rightarrow> f64 \<Rightarrow> string \<Rightarrow> ctxmap \<Rightarrow> Hit option" where
  "graded_hit sev v db ctx =
     (if sev = SeverityNone then None
      else Some \<lparr>hit_Severity = sev, hit_MetricValue = v, hit_Database = db, hit_Context = ctx\<rparr>)"

section \<open>Cold tables\<close>

definition coldFreezeRatioLow :: f64 where "coldFreezeRatioLow = lit 0.9"
definition coldFreezeRatioMedium :: f64 where "coldFreezeRatioMedium = lit 1"

definition coldFreezeSeverity :: "RawMetrics \<Rightarrow> Severity" where
  "coldFreezeSeverity m =
     (if xidFailsafeAge \<le> ColdMaxRelfrozenxidAge m then SeverityHigh
      else severityFor (ColdFreezeRatio m) PInf coldFreezeRatioMedium coldFreezeRatioLow)"

definition cold_object :: "ColdMaintenanceTable \<Rightarrow> ctxmap" where
  "cold_object t =
     [(''schema'', AStr (cold_Schema t)), (''table'', AStr (cold_Table t)),
      (''size_bytes'', AInt (cold_SizeBytes t)),
      (''dead_ratio'', AFloat (round_to 10 (cold_DeadRatio t))),
      (''never_vacuumed'', ABool (cold_NeverVacuumed t)),
      (''relfrozenxid_age'', AInt (cold_RelfrozenxidAge t)),
      (''no_writes_days'', AInt (cold_NoWritesDays t))]"

text \<open>Called on a non-empty table list only: the source indexes element 0.\<close>

definition cold_context :: "(string list \<Rightarrow> string) \<Rightarrow> ColdFacts \<Rightarrow> ctxmap" where
  "cold_context sanitize c =
     [(''window_days'', AInt (WindowDays c)),
      (''worst'', AStr (sanitize [cold_Schema (hd (Tables c)), cold_Table (hd (Tables c))])),
      (''objects'', AObjects (map cold_object (Tables c))),
      (''more'', AInt (More c))]"

text \<open>
  Conversion of a float to \<^verbatim>\<open>int64\<close>: truncation; out of range (and NaN) the value
  is implementation-defined in Go, here the one of amd64.
\<close>

definition int64_of_f64 :: "f64 \<Rightarrow> i64" where
  "int64_of_f64 x =
     (case x of
        Fin q \<Rightarrow> (let n = (if 0 \<le> q then \<lfloor>q\<rfloor> else - \<lfloor>- q\<rfloor>)
                  in if in_i64 n then n else - (2 ^ 63))
      | _ \<Rightarrow> - (2 ^ 63))"

section \<open>The catalogue\<close>

definition rule_high_connection_ratio :: "Rule" where
  "rule_high_connection_ratio =
     \<lparr>ID = ''high_connection_ratio'', rule_Category = CategoryConnections, RelatedRoute = ''/queries'', Advisory = False,
      rule_Evaluate = (\<lambda>m.
        if MaxConnections m = 0 then None
        else
          (let ratio = of_i64 (TotalConnections m) / of_i64 (MaxConnections m)
           in graded_hit (severityFor ratio (lit 0.95) (lit 0.80) (lit 0.60)) ratio ''''
                [(''total'', AInt (TotalConnections m)),
                 (''max_connections'', AInt (MaxConnections m))]))\<rparr>"

definition rule_idle_in_transaction :: "Rule" where
  "rule_idle_in_transaction =
     \<lparr>ID = ''idle_in_transaction'', rule_Category = CategoryConnections, RelatedRoute = ''/queries'', Advisory = False,
      rule_Evaluate = (\<lambda>m.
        graded_hit (severityFor (IdleInTransaction m) 10 5 2) (of_i64 (IdleInTransaction m))
          (IdleInTransactionDatabase m) [])\<rparr>"

definition rule_long_running_transaction :: "Rule" where
  "rule_long_running_transaction =
     \<lparr>ID = ''long_running_transaction'', rule_Category = CategoryConnections, RelatedRoute = ''/queries'', Advisory = False,
      rule_Evaluate = (\<lambda>m.
        let sec = LongestTransactionSeconds m
        in graded_hit (severityFor sec (lit 1800) (lit 600) (lit 300)) sec
             (LongestTransactionDatabase m) [])\<rparr>"

definition rule_low_cache_hit_ratio :: "Rule" where
  "rule_low_cache_hit_ratio =
     \<lparr>ID = ''low_cache_hit_ratio'', rule_Category = CategoryPerformance, RelatedRoute = ''/tables'', Advisory = False,
      rule_Evaluate = (\<lambda>m.
        if \<not> cacheHitRatioMeaningful m then None
        else
          (let r = CacheHitRatio m
           in graded_hit (severityForBelow r (lit 85) (lit 90) (lit 95)) r '''' []))\<rparr>"

definition rule_high_max_dead_ratio :: "Rule" where
  "rule_high_max_dead_ratio =
     \<lparr>ID = ''high_max_dead_ratio'', rule_Category = CategoryStorage, RelatedRoute = ''/tables'', Advisory = False,
      rule_Evaluate = (\<lambda>m.
        graded_hit (severityFor (MaxDeadRatio m) (lit 30) (lit 20) (lit 10)) (MaxDeadRatio m) '''' [])\<rparr>"

definition rule_high_avg_dead_ratio :: "Rule" where
  "rule_high_avg_dead_ratio =
     \<lparr>ID = ''high_avg_dead_ratio'', rule_Category = CategoryStorage, RelatedRoute = ''/tables'', Advisory = False,
      rule_Evaluate = (\<lambda>m.
        graded_hit (severityFor (AvgDeadRatio m) (lit 25) (lit 15) (lit 5)) (AvgDeadRatio m) '''' [])\<rparr>"

definition rule_many_bloated_tables :: "Rule" where
  "rule_many_bloated_tables =
     \<lparr>ID = ''many_bloated_tables'', rule_Category = CategoryStorage, RelatedRoute = ''/tables'', Advisory = False,
      rule_Evaluate = (\<lambda>m.
        graded_hit (severityFor (TablesHighBloat m) 20 10 5) (of_i64 (TablesHighBloat m)) '''' [])\<rparr>"

definition rule_replication_lag_time :: "Rule" where
  "rule_replication_lag_time =
     \<lparr>ID = ''replication_lag_time'', rule_Category = CategoryReplication, RelatedRoute = ''/replication'', Advisory = False,
      rule_Evaluate = (\<lambda>m.
        if ReplicaCount m = 0 then None
        else graded_hit (severityFor (MaxReplayLagSeconds m) (lit 30) (lit 5) (lit 1))
               (MaxReplayLagSeconds m) '''' [])\<rparr>"

definition rule_replication_lag_bytes :: "Rule" where
  "rule_replication_lag_bytes =
     \<lparr>ID = ''replication_lag_bytes'', rule_Category = CategoryReplication, RelatedRoute = ''/replication'', Advisory = False,
      rule_Evaluate = (\<lambda>m.
        if ReplicaCount m = 0 then None
        else
          (let mb = of_i64 (MaxLagBytes m) / lit (1024 * 1024)
           in graded_hit (severityFor mb (lit 1024) (lit 100) (lit 10)) (of_i64 (MaxLagBytes m)) '''' []))\<rparr>"

definition rule_disconnected_replicas :: "Rule" where
  "rule_disconnected_replicas =
     \<lparr>ID = ''disconnected_replicas'', rule_Category = CategoryReplication, RelatedRoute = ''/replication'', Advisory = False,
      rule_Evaluate = (\<lambda>m.
        if DisconnectedReplicas m = 0 then None
        else
          (let sev = SeverityMedium;
               sev = (if 2 \<le> DisconnectedReplicas m then SeverityHigh else sev)
           in graded_hit sev (of_i64 (DisconnectedReplicas m)) '''' []))\<rparr>"

definition rule_xid_wraparound_risk :: "Rule" where
  "rule_xid_wraparound_risk =
     \<lparr>ID = ''xid_wraparound_risk'', rule_Category = CategoryMaintenance, RelatedRoute = ''/maintenance'', Advisory = False,
      rule_Evaluate = (\<lambda>m.
        graded_hit (severityFor (MaxXidAge m) xidFailsafeAge xidFreezeMaxAge xidFreezeTableAge)
          (of_i64 (MaxXidAge m)) '''' [])\<rparr>"

definition rule_stale_vacuum :: "Rule" where
  "rule_stale_vacuum =
     \<lparr>ID = ''stale_vacuum'', rule_Category = CategoryMaintenance, RelatedRoute = ''/maintenance'', Advisory = False,
      rule_Evaluate = (\<lambda>m.
        let days = MaxOverdueVacuumAgeHours m / lit 24
        in graded_hit (severityFor days (lit 60) (lit 21) (lit 7)) (MaxOverdueVacuumAgeHours m) '''' [])\<rparr>"

definition rule_vacuum_backlog :: "Rule" where
  "rule_vacuum_backlog =
     \<lparr>ID = ''vacuum_backlog'', rule_Category = CategoryMaintenance, RelatedRoute = ''/maintenance'', Advisory = False,
      rule_Evaluate = (\<lambda>m.
        graded_hit (severityFor (VacuumBacklogTables m) 30 15 6) (of_i64 (VacuumBacklogTables m)) '''' [])\<rparr>"

definition rule_tables_never_vacuumed :: "Rule" where
  "rule_tables_never_vacuumed =
     \<lparr>ID = ''tables_never_vacuumed'', rule_Category = CategoryMaintenance, RelatedRoute = ''/maintenance'', Advisory = False,
      rule_Evaluate = (\<lambda>m.
        graded_hit (severityFor (TablesNeverVacuumed m) 5 2 1) (of_i64 (TablesNeverVacuumed m)) '''' [])\<rparr>"

definition rule_autovacuum_disabled :: "Rule" where
  "rule_autovacuum_disabled =
     \<lparr>ID = ''autovacuum_disabled'', rule_Category = CategoryMaintenance, RelatedRoute = ''/maintenance'', Advisory = False,
      rule_Evaluate = (\<lambda>m.
        if AutovacuumEnabled m then None else graded_hit SeverityHigh (lit 0) '''' [])\<rparr>"

definition rule_track_counts_disabled :: "Rule" where
  "rule_track_counts_disabled =
     \<lparr>ID = ''track_counts_disabled'', rule_Category = CategoryMaintenance, RelatedRoute = ''/maintenance'', Advisory = False,
      rule_Evaluate = (\<lambda>m.
        if TrackCountsEnabled m then None else graded_hit SeverityHigh (lit 0) '''' [])\<rparr>"

definition rule_tables_with_autovacuum_off :: "Rule" where
  "rule_tables_with_autovacuum_off =
     \<lparr>ID = ''tables_with_autovacuum_off'', rule_Category = CategoryMaintenance, RelatedRoute = ''/maintenance'', Advisory = False,
      rule_Evaluate = (\<lambda>m.
        if TablesWithAutovacuumOff m \<le> 0 then None
        else graded_hit SeverityLow (of_i64 (TablesWithAutovacuumOff m)) '''' [])\<rparr>"

definition rule_relfrozenxid_age_outlier :: "Rule" where
  "rule_relfrozenxid_age_outlier =
     \<lparr>ID = ''relfrozenxid_age_outlier'', rule_Category = CategoryMaintenance, RelatedRoute = ''/maintenance'', Advisory = False,
      rule_Evaluate = (\<lambda>m.
        let sev = severityFor (MaxRelfrozenxidAge m) xidFailsafeAge xidFreezeMaxAge xidFreezeTableAge;
            cold = coldFreezeSeverity m
        in if cold \<noteq> SeverityNone \<and> severityRank cold < severityRank sev
           then graded_hit cold (of_i64 (ColdMaxRelfrozenxidAge m)) ''''
                  [(''cold'', ABool True), (''freeze_ratio'', AFloat (round_to 100 (ColdFreezeRatio m)))]
           else graded_hit sev (of_i64 (MaxRelfrozenxidAge m)) '''' [])\<rparr>"

definition rule_cold_tables_maintenance :: "(string list \<Rightarrow> string) \<Rightarrow> Rule" where
  "rule_cold_tables_maintenance sanitize =
     \<lparr>ID = ''cold_tables_maintenance'', rule_Category = CategoryMaintenance, RelatedRoute = ''/maintenance'', Advisory = True,
      rule_Evaluate = (\<lambda>m.
        case Cold m of
          None \<Rightarrow> None
        | Some c \<Rightarrow>
            if Tables c = [] then None
            else graded_hit SeverityLow (of_i64 (wrap64 (int (length (Tables c)) + More c))) ''''
                   (cold_context sanitize c))\<rparr>"

definition rule_horizon_lag_xids :: "Rule" where
  "rule_horizon_lag_xids =
     \<lparr>ID = ''horizon_lag_xids'', rule_Category = CategoryHorizon, RelatedRoute = ''/queries'', Advisory = False,
      rule_Evaluate = (\<lambda>m.
        let lag = of_i64 (HorizonLagXids m)
        in graded_hit (severityFor lag (lit 100000000) (lit 10000000) (lit 1000000)) lag
             (HorizonDatabase m) [])\<rparr>"

definition rule_requested_checkpoint_ratio :: "Rule" where
  "rule_requested_checkpoint_ratio =
     \<lparr>ID = ''requested_checkpoint_ratio'', rule_Category = CategoryWalCheckpoint, RelatedRoute = ''/maintenance'', Advisory = False,
      rule_Evaluate = (\<lambda>m.
        let tot = wrap64 (TimedCheckpoints m + RequestedCheckpoints m)
        in if tot < 10 then None
           else
             (let ratio = of_i64 (RequestedCheckpoints m) / of_i64 tot
              in graded_hit (severityFor ratio (lit 0.20) (lit 0.10) (lit 0.05)) ratio ''''
                   [(''timed'', AInt (TimedCheckpoints m)),
                    (''requested'', AInt (RequestedCheckpoints m))]))\<rparr>"

definition rule_track_io_timing_disabled :: "Rule" where
  "rule_track_io_timing_disabled =
     \<lparr>ID = ''track_io_timing_disabled'', rule_Category = CategoryPerformance, RelatedRoute = ''/settings'', Advisory = False,
      rule_Evaluate = (\<lambda>m.
        if TrackIoTimingEnabled m then None else graded_hit SeverityLow (lit 0) '''' [])\<rparr>"

definition rule_active_lock_waiters :: "Rule" where
  "rule_active_lock_waiters =
     \<lparr>ID = ''active_lock_waiters'', rule_Category = CategoryLocks, RelatedRoute = ''/locks'', Advisory = False,
      rule_Evaluate = (\<lambda>m.
        graded_hit (severityFor (ActiveLockWaiters m) 10 3 1) (of_i64 (ActiveLockWaiters m)) '''' [])\<rparr>"

definition rule_longest_lock_wait_seconds :: "Rule" where
  "rule_longest_lock_wait_seconds =
     \<lparr>ID = ''longest_lock_wait_seconds'', rule_Category = CategoryLocks, RelatedRoute = ''/locks'', Advisory = False,
      rule_Evaluate = (\<lambda>m.
        let sec = LongestLockWaitSeconds m
        in graded_hit (severityFor sec (lit 60) (lit 30) (lit 10)) sec '''' [])\<rparr>"

definition rule_ungranted_locks :: "Rule" where
  "rule_ungranted_locks =
     \<lparr>ID = ''ungranted_locks'', rule_Category = CategoryLocks, RelatedRoute = ''/locks'', Advisory = False,
      rule_Evaluate = (\<lambda>m.
        graded_hit (severityFor (UngrantedLocks m) 15 5 2) (of_i64 (UngrantedLocks m)) '''' [])\<rparr>"

definition rule_deadlocks_rate :: "Rule" where
  "rule_deadlocks_rate =
     \<lparr>ID = ''deadlocks_rate'', rule_Category = CategoryLocks, RelatedRoute = ''/locks'', Advisory = False,
      rule_Evaluate = (\<lambda>m.
        if DeadlocksTotal m \<le> 0 then None
        else graded_hit SeverityLow (of_i64 (DeadlocksTotal m)) '''' [])\<rparr>"

definition rule_lock_pool_saturation :: "Rule" where
  "rule_lock_pool_saturation =
     \<lparr>ID = ''lock_pool_saturation'', rule_Category = CategoryLocks, RelatedRoute = ''/locks'', Advisory = False,
      rule_Evaluate = (\<lambda>m.
        if MaxLocksPerTransaction m \<le> 0 \<or> MaxConnections m \<le> 0 then None
        else
          (let capacity = of_i64 (MaxLocksPerTransaction m) * of_i64 (MaxConnections m)
           in if capacity \<le> lit 0 then None
              else
                (let ratio = of_i64 (HeavyweightLocksTotal m) / capacity
                 in graded_hit (severityFor ratio (lit 0.8) (lit 0.6) (lit 0.5)) ratio ''''
                      [(''total'', AInt (HeavyweightLocksTotal m)),
                       (''capacity'', AInt (int64_of_f64 capacity))])))\<rparr>"

definition rule_low_hot_update_ratio :: "Rule" where
  "rule_low_hot_update_ratio =
     \<lparr>ID = ''low_hot_update_ratio'', rule_Category = CategoryStorage, RelatedRoute = ''/tables'', Advisory = False,
      rule_Evaluate = (\<lambda>m.
        let r = HotUpdateRatio m
        in graded_hit (severityForBelow r (lit 0.50) (lit 0.65) (lit 0.80)) r '''' [])\<rparr>"

definition rule_high_newpage_update_ratio :: "Rule" where
  "rule_high_newpage_update_ratio =
     \<lparr>ID = ''high_newpage_update_ratio'', rule_Category = CategoryStorage, RelatedRoute = ''/tables'', Advisory = False,
      rule_Evaluate = (\<lambda>m.
        let r = NewpageUpdateRatio m
        in graded_hit (severityFor r (lit 0.20) (lit 0.10) (lit 0.05)) r '''' [])\<rparr>"

definition rule_stale_planner_stats :: "Rule" where
  "rule_stale_planner_stats =
     \<lparr>ID = ''stale_planner_stats'', rule_Category = CategoryMaintenance, RelatedRoute = ''/maintenance'', Advisory = False,
      rule_Evaluate = (\<lambda>m.
        graded_hit (severityFor (StalePlannerStatsTables m) 10 5 3)
          (of_i64 (StalePlannerStatsTables m)) '''' [])\<rparr>"

definition rule_wal_level_minimal_with_replicas :: "Rule" where
  "rule_wal_level_minimal_with_replicas =
     \<lparr>ID = ''wal_level_minimal_with_replicas'', rule_Category = CategoryWalCheckpoint, RelatedRoute = ''/replication'', Advisory = False,
      rule_Evaluate = (\<lambda>m.
        if WalLevel m \<noteq> ''minimal'' \<or> ReplicaCount m = 0 then None
        else graded_hit SeverityHigh (of_i64 (ReplicaCount m)) ''''
               [(''replicas'', AInt (ReplicaCount m))])\<rparr>"

definition rule_wal_level_logical_without_publications :: "Rule" where
  "rule_wal_level_logical_without_publications =
     \<lparr>ID = ''wal_level_logical_without_publications'', rule_Category = CategoryWalCheckpoint, RelatedRoute = ''/replication'', Advisory = False,
      rule_Evaluate = (\<lambda>m.
        if WalLevel m \<noteq> ''logical'' \<or> 0 < LogicalSlotsActive m \<or> WalLevelManaged m then None
        else graded_hit SeverityLow (lit 0) '''' [])\<rparr>"

definition rule_checksum_failures :: "Rule" where
  "rule_checksum_failures =
     \<lparr>ID = ''checksum_failures'', rule_Category = CategoryStorage, RelatedRoute = ''/home'', Advisory = False,
      rule_Evaluate = (\<lambda>m.
        if ChecksumFailuresRate m \<le> lit 0 then None
        else graded_hit SeverityHigh (ChecksumFailuresRate m) '''' [])\<rparr>"

definition rule_host_cpu_saturation :: "Rule" where
  "rule_host_cpu_saturation =
     \<lparr>ID = ''host_cpu_saturation'', rule_Category = CategoryConnections, RelatedRoute = ''/queries'', Advisory = False,
      rule_Evaluate = (\<lambda>m.
        if NumVCPU m \<le> lit 0 then None
        else
          (let sat = LoadAvg15 m / NumVCPU m
           in graded_hit (severityFor sat (lit 4) (lit 2) (lit 1)) sat '''' []))\<rparr>"

definition rule_pooler_saturation :: "Rule" where
  "rule_pooler_saturation =
     \<lparr>ID = ''pooler_saturation'', rule_Category = CategoryConnections, RelatedRoute = ''/connections'', Advisory = False,
      rule_Evaluate = (\<lambda>m.
        if PoolerPoolSize m \<le> lit 0 then None
        else
          (let sat = PoolerServerConns m / PoolerPoolSize m
           in graded_hit (severityFor sat (lit 0.8) (lit 0.6) (lit 0.5)) sat '''' []))\<rparr>"

definition rule_sequence_exhaustion :: "Rule" where
  "rule_sequence_exhaustion =
     \<lparr>ID = ''sequence_exhaustion'', rule_Category = CategoryStorage, RelatedRoute = ''/schema-lint'', Advisory = False,
      rule_Evaluate = (\<lambda>m.
        case LevelForFreePct (freePctOf (SequenceExhaustionMax m)) (SequenceThresholdsOf m) of
          None \<Rightarrow> None
        | Some level \<Rightarrow> graded_hit (severityForLevel level) (SequenceExhaustionMax m) '''' [])\<rparr>"

definition rule_latency_regression :: "Rule" where
  "rule_latency_regression =
     \<lparr>ID = ''latency_regression'', rule_Category = CategoryPerformance, RelatedRoute = ''/queries'', Advisory = False,
      rule_Evaluate = (\<lambda>m.
        graded_hit (severityFor (LatencyRegressionRatio m) (lit 6) (lit 3) (lit 1.5))
          (LatencyRegressionRatio m) '''' [])\<rparr>"

definition rule_seq_scan_regression :: "Rule" where
  "rule_seq_scan_regression =
     \<lparr>ID = ''seq_scan_regression'', rule_Category = CategoryPerformance, RelatedRoute = ''/indexes-usage'', Advisory = False,
      rule_Evaluate = (\<lambda>m.
        graded_hit (severityFor (SeqScanRegressionRatio m) (lit 6) (lit 3) (lit 1.5))
          (SeqScanRegressionRatio m) '''' [])\<rparr>"

definition rule_host_disk_space :: "Rule" where
  "rule_host_disk_space =
     \<lparr>ID = ''host_disk_space'', rule_Category = CategoryStorage, RelatedRoute = ''/tables'', Advisory = False,
      rule_Evaluate = (\<lambda>m.
        graded_hit (severityFor (DiskUsedRatio m) diskUsedCritical (lit 0.80) (lit 0.70))
          (DiskUsedRatio m) '''' [])\<rparr>"

definition Registry :: "(string list \<Rightarrow> string) \<Rightarrow> Rule list" where
  "Registry sanitize =
     [rule_high_connection_ratio,
      rule_idle_in_transaction,
      rule_long_running_transaction,
      rule_low_cache_hit_ratio,
      rule_high_max_dead_ratio,
      rule_high_avg_dead_ratio,
      rule_many_bloated_tables,
      rule_replication_lag_time,
      rule_replication_lag_bytes,
      rule_disconnected_replicas,
      rule_xid_wraparound_risk,
      rule_stale_vacuum,
      rule_vacuum_backlog,
      rule_tables_never_vacuumed,
      rule_autovacuum_disabled,
      rule_track_counts_disabled,
      rule_tables_with_autovacuum_off,
      rule_relfrozenxid_age_outlier,
      rule_cold_tables_maintenance sanitize,
      rule_horizon_lag_xids,
      rule_requested_checkpoint_ratio,
      rule_track_io_timing_disabled,
      rule_active_lock_waiters,
      rule_longest_lock_wait_seconds,
      rule_ungranted_locks,
      rule_deadlocks_rate,
      rule_lock_pool_saturation,
      rule_low_hot_update_ratio,
      rule_high_newpage_update_ratio,
      rule_stale_planner_stats,
      rule_wal_level_minimal_with_replicas,
      rule_wal_level_logical_without_publications,
      rule_checksum_failures,
      rule_host_cpu_saturation,
      rule_pooler_saturation,
      rule_sequence_exhaustion,
      rule_latency_regression,
      rule_seq_scan_regression,
      rule_host_disk_space]"

section \<open>Evaluation\<close>

definition instanceOnlyCategories :: "Category \<Rightarrow> bool" where
  "instanceOnlyCategories c \<longleftrightarrow>
     c \<in> {CategoryConnections, CategoryReplication, CategoryHorizon, CategoryWalCheckpoint,
           CategoryLocks}"

definition metricsInstanceWideRules :: "string \<Rightarrow> bool" where
  "metricsInstanceWideRules i \<longleftrightarrow>
     i \<in> {''low_cache_hit_ratio'', ''high_max_dead_ratio'', ''high_avg_dead_ratio'',
           ''low_hot_update_ratio'', ''xid_wraparound_risk'', ''checksum_failures'',
           ''host_disk_space'', ''latency_regression'', ''seq_scan_regression''}"

definition instanceScopeAggregateRules :: "string \<Rightarrow> bool" where
  "instanceScopeAggregateRules i \<longleftrightarrow> i = ''sequence_exhaustion''"

definition databaseOf :: "RawMetrics \<Rightarrow> Rule \<Rightarrow> Hit \<Rightarrow> bool \<Rightarrow> string" where
  "databaseOf m r hit databaseScoped =
     (if hit_Database hit \<noteq> '''' then hit_Database hit
      else if instanceOnlyCategories (rule_Category r) then ''''
      else if \<not> databaseScoped \<and> instanceScopeAggregateRules (ID r) then ''''
      else if MetricsInstanceWide m \<and> metricsInstanceWideRules (ID r) \<and>
              \<not> SnapshotBackedRules m (ID r) then ''''
      else Database m)"

definition recommendation :: "RawMetrics \<Rightarrow> bool \<Rightarrow> Rule \<Rightarrow> Hit \<Rightarrow> Recommendation" where
  "recommendation m databaseScoped r hit =
     \<lparr>RuleID = ID r, rec_Category = rule_Category r, rec_Severity = hit_Severity hit,
      rec_MetricValue = hit_MetricValue hit, rec_Database = databaseOf m r hit databaseScoped,
      rec_Context = hit_Context hit, rec_RelatedRoute = RelatedRoute r,
      rec_Advisory = Advisory r\<rparr>"

text \<open>One iteration of the loop over the registry: what it appends.\<close>

definition evaluate_rule :: "RawMetrics \<Rightarrow> bool \<Rightarrow> Rule \<Rightarrow> Recommendation list" where
  "evaluate_rule m databaseScoped r =
     (if databaseScoped \<and> instanceOnlyCategories (rule_Category r) then []
      else if InRecovery m \<and> rule_Category r = CategoryMaintenance then []
      else (case rule_Evaluate r m of
              None \<Rightarrow> []
            | Some hit \<Rightarrow> [recommendation m databaseScoped r hit]))"

text \<open>
  The comparison of \<^verbatim>\<open>sort.SliceStable\<close> is the lexicographic order of the key;
  the stable sort of a list by a key is unique, \<open>sort_key\<close> is it.
\<close>

definition report_key :: "Recommendation \<Rightarrow> int \<times> string" where
  "report_key r = (severityRank (rec_Severity r), RuleID r)"

definition Evaluate ::
  "(string list \<Rightarrow> string) \<Rightarrow> RawMetrics \<Rightarrow> bool \<Rightarrow> Recommendation list" where
  "Evaluate sanitize m databaseScoped =
     sort_key report_key (concat (map (evaluate_rule m databaseScoped) (Registry sanitize)))"
section \<open>The contract of a rule catalogue\<close>

lemmas rule_defs =
  rule_high_connection_ratio_def
  rule_idle_in_transaction_def
  rule_long_running_transaction_def
  rule_low_cache_hit_ratio_def
  rule_high_max_dead_ratio_def
  rule_high_avg_dead_ratio_def
  rule_many_bloated_tables_def
  rule_replication_lag_time_def
  rule_replication_lag_bytes_def
  rule_disconnected_replicas_def
  rule_xid_wraparound_risk_def
  rule_stale_vacuum_def
  rule_vacuum_backlog_def
  rule_tables_never_vacuumed_def
  rule_autovacuum_disabled_def
  rule_track_counts_disabled_def
  rule_tables_with_autovacuum_off_def
  rule_relfrozenxid_age_outlier_def
  rule_cold_tables_maintenance_def
  rule_horizon_lag_xids_def
  rule_requested_checkpoint_ratio_def
  rule_track_io_timing_disabled_def
  rule_active_lock_waiters_def
  rule_longest_lock_wait_seconds_def
  rule_ungranted_locks_def
  rule_deadlocks_rate_def
  rule_lock_pool_saturation_def
  rule_low_hot_update_ratio_def
  rule_high_newpage_update_ratio_def
  rule_stale_planner_stats_def
  rule_wal_level_minimal_with_replicas_def
  rule_wal_level_logical_without_publications_def
  rule_checksum_failures_def
  rule_host_cpu_saturation_def
  rule_pooler_saturation_def
  rule_sequence_exhaustion_def
  rule_latency_regression_def
  rule_seq_scan_regression_def
  rule_host_disk_space_def

text \<open>
  The report relies on two facts about the catalogue: rule identifiers are unique, and a rule
  that reports always carries a severity.
\<close>

definition graded_rule :: "Rule \<Rightarrow> bool" where
  "graded_rule r \<longleftrightarrow> (\<forall>m h. rule_Evaluate r m = Some h \<longrightarrow> hit_Severity h \<noteq> SeverityNone)"

lemma evaluate_rule_id: "map RuleID (evaluate_rule m d r) = [] \<or> map RuleID (evaluate_rule m d r) = [ID r]"
  by (simp add: evaluate_rule_def recommendation_def split: option.split)

lemma evaluate_rule_mem:
  "x \<in> set (evaluate_rule m d r) \<longleftrightarrow>
     \<not> (d \<and> instanceOnlyCategories (rule_Category r)) \<and>
     \<not> (InRecovery m \<and> rule_Category r = CategoryMaintenance) \<and>
     (\<exists>h. rule_Evaluate r m = Some h \<and> x = recommendation m d r h)"
  by (cases "rule_Evaluate r m") (auto simp: evaluate_rule_def)

lemma evaluate_rule_ids: "x \<in> set (evaluate_rule m d r) \<Longrightarrow> RuleID x = ID r"
  by (auto simp: evaluate_rule_mem recommendation_def)

lemma concat_ids_distinct:
  "distinct (map ID rs) \<Longrightarrow> distinct (map RuleID (concat (map (evaluate_rule m d) rs)))"
proof (induction rs)
  case (Cons r rs)
  have "ID r \<notin> RuleID ` set (concat (map (evaluate_rule m d) rs))"
    using Cons.prems by (auto dest!: evaluate_rule_ids)
  moreover have "distinct (map RuleID (concat (map (evaluate_rule m d) rs)))"
    using Cons by simp
  ultimately show ?case
    using evaluate_rule_id [of m d r] by auto
qed simp

locale rule_catalogue =
  fixes rules :: "Rule list"
  assumes distinct_ids: "distinct (map ID rules)"
    and graded: "list_all graded_rule rules"
begin

lemma report_distinct:
  "distinct (map RuleID (sort_key report_key (concat (map (evaluate_rule m d) rules))))"
proof -
  let ?xs = "concat (map (evaluate_rule m d) rules)"
  have "mset (map RuleID (sort_key report_key ?xs)) = mset (map RuleID ?xs)" by simp
  with concat_ids_distinct [OF distinct_ids, of m d] show ?thesis
    by (metis mset_eq_imp_distinct_iff)
qed

lemma report_mem:
  "x \<in> set (sort_key report_key (concat (map (evaluate_rule m d) rules))) \<longleftrightarrow>
     (\<exists>r \<in> set rules. x \<in> set (evaluate_rule m d r))"
  by simp

lemma report_graded:
  assumes "x \<in> set (sort_key report_key (concat (map (evaluate_rule m d) rules)))"
  shows "rec_Severity x \<noteq> SeverityNone"
  using assms graded
  by (auto simp: evaluate_rule_mem recommendation_def list_all_iff graded_rule_def)

lemma strictly_sorted_report:
  "sorted_wrt (\<lambda>a b. report_key a < report_key b)
     (sort_key report_key (concat (map (evaluate_rule m d) rules)))"
proof -
  let ?r = "sort_key report_key (concat (map (evaluate_rule m d) rules))"
  have "sorted (map report_key ?r)" by simp
  moreover have "distinct (map report_key ?r)"
    using report_distinct [of m d]
    by (simp add: distinct_map report_key_def inj_on_def del: set_sort)
  ultimately have "sorted_wrt (<) (map report_key ?r)"
    by (simp add: strict_sorted_iff)
  then show ?thesis by (simp add: sorted_wrt_map)
qed

end

lemma graded_hit_severity: "graded_hit s v db c = Some h \<Longrightarrow> hit_Severity h = s \<and> s \<noteq> SeverityNone"
  by (auto simp: graded_hit_def split: if_splits)

lemma graded_ruleI:
  "(\<And>m h. ev m = Some h \<Longrightarrow> hit_Severity h \<noteq> SeverityNone) \<Longrightarrow>
   graded_rule \<lparr>ID = i, rule_Category = c, RelatedRoute = rr, Advisory = a, rule_Evaluate = ev\<rparr>"
  by (simp add: graded_rule_def)

lemma Registry_graded: "list_all graded_rule (Registry sanitize)"
  by (simp add: Registry_def, intro conjI; unfold rule_defs, rule graded_ruleI)
    (auto simp: Let_def dest: graded_hit_severity split: if_splits option.splits)

interpretation registry: rule_catalogue "Registry sanitize" for sanitize
proof unfold_locales
  show "distinct (map ID (Registry sanitize))"
    by (simp add: Registry_def rule_defs)
  show "list_all graded_rule (Registry sanitize)"
    by (rule Registry_graded)
qed

section \<open>Critical conditions are explained by the report\<close>

definition critical_rules :: "string list" where
  "critical_rules =
     [''checksum_failures'', ''host_disk_space'', ''xid_wraparound_risk'',
      ''relfrozenxid_age_outlier'', ''autovacuum_disabled'', ''track_counts_disabled'',
      ''sequence_exhaustion'']"

lemma Evaluate_mem:
  "x \<in> set (Evaluate sanitize m d) \<longleftrightarrow> (\<exists>r \<in> set (Registry sanitize). x \<in> set (evaluate_rule m d r))"
  unfolding Evaluate_def by (rule registry.report_mem)

lemma reported:
  assumes "r \<in> set (Registry sanitize)" and "rule_Evaluate r m = Some h"
    and "InRecovery m \<Longrightarrow> rule_Category r \<noteq> CategoryMaintenance"
  shows "\<exists>x \<in> set (Evaluate sanitize m False). RuleID x = ID r \<and> rec_Severity x = hit_Severity h"
proof
  show "recommendation m False r h \<in> set (Evaluate sanitize m False)"
    using assms by (auto simp: Evaluate_mem evaluate_rule_mem)
qed (simp add: recommendation_def)

definition high_rule :: "RawMetrics \<Rightarrow> Rule \<Rightarrow> bool" where
  "high_rule m r \<longleftrightarrow>
     (\<exists>h. rule_Evaluate r m = Some h \<and> hit_Severity h = SeverityHigh) \<and>
     (InRecovery m \<longrightarrow> rule_Category r \<noteq> CategoryMaintenance) \<and> ID r \<in> set critical_rules"

lemma high_rule_reported:
  assumes "r \<in> set (Registry sanitize)" and "high_rule m r"
  shows "\<exists>x \<in> set (Evaluate sanitize m False).
           RuleID x \<in> set critical_rules \<and> rec_Severity x = SeverityHigh"
proof -
  obtain h where h: "rule_Evaluate r m = Some h" "hit_Severity h = SeverityHigh"
    using assms(2) by (auto simp: high_rule_def)
  have "\<exists>x \<in> set (Evaluate sanitize m False). RuleID x = ID r \<and> rec_Severity x = hit_Severity h"
    using assms by (intro reported h) (auto simp: high_rule_def)
  then obtain x where x: "x \<in> set (Evaluate sanitize m False)" "RuleID x = ID r"
    "rec_Severity x = SeverityHigh"
    using h(2) by auto
  have "ID r \<in> set critical_rules" using assms(2) by (simp add: high_rule_def)
  with x show ?thesis by (intro bexI [of _ x]) simp_all
qed

lemma severityRank_nonneg: "\<not> severityRank s < 0"
  by (cases s) (simp_all add: severityRank_def)

lemma severityRank_High [simp]: "severityRank SeverityHigh = 0"
  by (simp add: severityRank_def)

lemma high_rules:
  shows "lit 0 < ChecksumFailuresRate m \<Longrightarrow> high_rule m rule_checksum_failures"
    and "diskUsedCritical \<le> DiskUsedRatio m \<Longrightarrow> high_rule m rule_host_disk_space"
    and "\<not> InRecovery m \<Longrightarrow> xidFailsafeAge \<le> MaxXidAge m \<Longrightarrow> high_rule m rule_xid_wraparound_risk"
    and "\<not> InRecovery m \<Longrightarrow> xidFailsafeAge \<le> MaxRelfrozenxidAge m \<Longrightarrow>
           high_rule m rule_relfrozenxid_age_outlier"
    and "\<not> InRecovery m \<Longrightarrow> \<not> AutovacuumEnabled m \<Longrightarrow> high_rule m rule_autovacuum_disabled"
    and "\<not> InRecovery m \<Longrightarrow> \<not> TrackCountsEnabled m \<Longrightarrow> high_rule m rule_track_counts_disabled"
    and "LevelForFreePct (freePctOf (SequenceExhaustionMax m)) (SequenceThresholdsOf m) = Some LevelError \<Longrightarrow>
           high_rule m rule_sequence_exhaustion"
  by (auto simp: high_rule_def critical_rules_def rule_defs graded_hit_def severityFor_def
      severityRank_nonneg severityForLevel_def Let_def less_f64_def)

lemma critical_registry:
  "{rule_checksum_failures, rule_host_disk_space, rule_xid_wraparound_risk,
    rule_relfrozenxid_age_outlier, rule_autovacuum_disabled, rule_track_counts_disabled,
    rule_sequence_exhaustion} \<subseteq> set (Registry sanitize)"
  by (simp add: Registry_def)

lemma Floored_causes:
  assumes "Floored m"
  obtains "lit 0 < ChecksumFailuresRate m" | "diskUsedCritical \<le> DiskUsedRatio m"
  | "\<not> InRecovery m" "xidFailsafeAge \<le> MaxXidAge m"
  | "\<not> InRecovery m" "xidFailsafeAge \<le> MaxRelfrozenxidAge m"
  | "\<not> InRecovery m" "\<not> AutovacuumEnabled m" | "\<not> InRecovery m" "\<not> TrackCountsEnabled m"
  | "LevelForFreePct (freePctOf (SequenceExhaustionMax m)) (SequenceThresholdsOf m) = Some LevelError"
  using assms
  by (auto simp: Floored_def criticalCeiling_def criticalXidCeiling_def Let_def max_def
      split: if_splits)

lemma floored_high_rule:
  assumes "Floored m"
  shows "\<exists>r \<in> set (Registry sanitize). high_rule m r"
  using assms critical_registry [of sanitize] high_rules [of m] by (cases rule: Floored_causes) auto

text \<open>A report that contains a HIGH entry starts with one.\<close>

lemma head_high:
  assumes "x \<in> set (Evaluate sanitize m d)" and "rec_Severity x = SeverityHigh"
  shows "rec_Severity (hd (Evaluate sanitize m d)) = SeverityHigh"
proof -
  have "sorted (map report_key (Evaluate sanitize m d))" by (simp add: Evaluate_def)
  then obtain y ys where e: "Evaluate sanitize m d = y # ys" "report_key y \<le> report_key x"
    using assms(1) by (cases "Evaluate sanitize m d") auto
  then have "severityRank (rec_Severity y) \<le> 0"
    using assms(2) by (auto simp: report_key_def severityRank_def)
  then show ?thesis using e by (simp add: severityRank_def split: Severity.splits)
qed

section \<open>Properties\<close>

text \<open>
  C2: whenever a critical condition floors the score, the instance report explains it: one of
  the seven critical rules is reported with severity HIGH, and the first entry of the report
  is HIGH.
\<close>

theorem floored_is_explained:
  assumes "Floored m"
  shows "(\<exists>x \<in> set (Evaluate sanitize m False).
            RuleID x \<in> set critical_rules \<and> rec_Severity x = SeverityHigh) \<and>
         rec_Severity (hd (Evaluate sanitize m False)) = SeverityHigh"
proof -
  obtain r where "r \<in> set (Registry sanitize)" "high_rule m r"
    using floored_high_rule [OF assms] by blast
  from high_rule_reported [OF this] show ?thesis using head_high by blast
qed

theorem floored_is_explained_witness:
  "(\<exists>x \<in> set (Evaluate concat zero_RawMetrics False).
      RuleID x \<in> set critical_rules \<and> rec_Severity x = SeverityHigh) \<and>
   rec_Severity (hd (Evaluate concat zero_RawMetrics False)) = SeverityHigh"
  by (rule floored_is_explained)
    (simp add: zero_RawMetrics_def Floored_def criticalCeiling_def diskUsedCritical_def
      criticalScoreCeiling_def criticalXidCeiling_def xidFailsafeAge_def)

text \<open>
  C3: the report contains exactly the recommendations of the rules that apply and trigger: a
  database-scoped report leaves out the instance-only categories, a standby's report leaves
  out maintenance, and no other triggered rule is lost. It is strictly sorted by severity (HIGH
  first) and then by rule identifier, has at most one entry per rule, and every entry carries a
  severity.
\<close>

theorem report_exact:
  "(x \<in> set (Evaluate sanitize m d) \<longleftrightarrow>
     (\<exists>r h. r \<in> set (Registry sanitize) \<and> rule_Evaluate r m = Some h \<and>
        \<not> (d \<and> instanceOnlyCategories (rule_Category r)) \<and>
        \<not> (InRecovery m \<and> rule_Category r = CategoryMaintenance) \<and>
        x = recommendation m d r h))
   \<and> sorted_wrt (\<lambda>a b. report_key a < report_key b) (Evaluate sanitize m d)
   \<and> distinct (map RuleID (Evaluate sanitize m d))
   \<and> list_all (\<lambda>x. rec_Severity x \<noteq> SeverityNone) (Evaluate sanitize m d)"
proof (intro conjI)
  show "sorted_wrt (\<lambda>a b. report_key a < report_key b) (Evaluate sanitize m d)"
    unfolding Evaluate_def by (rule registry.strictly_sorted_report)
  show "distinct (map RuleID (Evaluate sanitize m d))"
    unfolding Evaluate_def by (rule registry.report_distinct)
  show "list_all (\<lambda>x. rec_Severity x \<noteq> SeverityNone) (Evaluate sanitize m d)"
    unfolding Evaluate_def list_all_iff using registry.report_graded by blast
qed (auto simp: Evaluate_mem evaluate_rule_mem)

lemma unpinned_rules:
  assumes "r \<in> set (Registry sanitize)" and "metricsInstanceWideRules (ID r)"
    and "rule_Evaluate r m = Some h"
  shows "hit_Database h = [] \<and> \<not> instanceOnlyCategories (rule_Category r) \<and>
         \<not> instanceScopeAggregateRules (ID r)"
proof -
  have hit: "graded_hit s v [] c = Some h \<Longrightarrow> hit_Database h = []" for s v c
    by (auto simp: graded_hit_def split: if_splits)
  have "r \<in> {rule_low_cache_hit_ratio, rule_high_max_dead_ratio, rule_high_avg_dead_ratio,
      rule_low_hot_update_ratio, rule_xid_wraparound_risk, rule_checksum_failures,
      rule_host_disk_space, rule_latency_regression, rule_seq_scan_regression}"
    using assms(1,2) by (auto simp: Registry_def) (simp_all add: rule_defs metricsInstanceWideRules_def)
  then show ?thesis
    using assms(3) hit
    by (auto simp: rule_defs instanceOnlyCategories_def instanceScopeAggregateRules_def Let_def
        split: if_splits)
qed

text \<open>
  In a metrics-backed snapshot, a finding whose metric the datasource aggregates over all
  databases names no database, unless its value came from the SQL snapshot, and then it
  names the database of that snapshot.
\<close>

theorem metrics_backed_attribution:
  assumes "MetricsInstanceWide m" and "x \<in> set (Evaluate sanitize m d)"
    and "metricsInstanceWideRules (RuleID x)"
  shows "rec_Database x = (if SnapshotBackedRules m (RuleID x) then Database m else '''')"
proof -
  obtain r h where r: "r \<in> set (Registry sanitize)" "rule_Evaluate r m = Some h"
    "x = recommendation m d r h"
    using assms(2) by (auto simp: Evaluate_mem evaluate_rule_mem)
  moreover have "metricsInstanceWideRules (ID r)"
    using assms(3) r(3) by (simp add: recommendation_def)
  ultimately show ?thesis
    using unpinned_rules [of r sanitize m h] assms(1)
    by (simp add: recommendation_def databaseOf_def)
qed

theorem metrics_backed_attribution_witness:
  "\<exists>x \<in> set (Evaluate concat (zero_RawMetrics\<lparr>MetricsInstanceWide := True, Database := ''app'',
                                ChecksumFailuresRate := Fin 2\<rparr>) False).
     RuleID x = ''checksum_failures'' \<and> rec_Database x = ''''"
proof -
  let ?m = "zero_RawMetrics\<lparr>MetricsInstanceWide := True, Database := ''app'',
              ChecksumFailuresRate := Fin 2\<rparr>"
  have "\<exists>x \<in> set (Evaluate concat ?m False). RuleID x = ID rule_checksum_failures \<and>
          rec_Severity x = hit_Severity \<lparr>hit_Severity = SeverityHigh, hit_MetricValue = Fin 2,
            hit_Database = [], hit_Context = []\<rparr>"
    by (rule reported)
      (simp_all add: Registry_def rule_checksum_failures_def graded_hit_def zero_RawMetrics_def)
  then obtain x where x: "x \<in> set (Evaluate concat ?m False)" "RuleID x = ''checksum_failures''"
    by (auto simp: rule_checksum_failures_def)
  have "rec_Database x = (if SnapshotBackedRules ?m (RuleID x) then Database ?m else '''')"
    by (rule metrics_backed_attribution [OF _ x(1)]) (simp_all add: x(2) metricsInstanceWideRules_def)
  with x show ?thesis by (auto simp: zero_RawMetrics_def)
qed

end
