(* ===== verification/Health_PerDB.thy ===== *)
theory Health_PerDB
  imports Health_Aggregate
begin

text \<open>
  \<^verbatim>\<open>backend/internal/health/per_db.go\<close>: the score of each database of an instance,
  restricted to the categories that have a per-database meaning, and the worst database.
\<close>

record PerDBMetrics =
  db_Database :: string
  db_SizeBytes :: i64
  db_CacheHitRatio :: f64
  db_CacheSampleBlocks :: i64
  db_MaxDeadRatio :: f64
  db_AvgDeadRatio :: f64
  db_TablesHighBloat :: i64
  db_HotUpdateRatio :: f64
  db_NewpageUpdateRatio :: f64
  db_MaxXidAge :: i64
  db_VacuumBacklogTables :: i64
  db_MaxOverdueVacuumAgeHours :: f64
  db_TablesNeverVacuumed :: i64

record DatabaseScore =
  score_Database :: string
  score_SizeBytes :: i64
  score_Score :: f64
  score_Categories :: "CategoryResult list"

definition PerDBApplicableCategories :: "Category list" where
  "PerDBApplicableCategories = [CategoryPerformance, CategoryStorage, CategoryMaintenance]"

definition perDBWeights :: "Weights \<Rightarrow> bool \<Rightarrow> Weights" where
  "perDBWeights w inRecovery =
     (let out = \<lparr>Connections = Fin 0, Performance = Performance w, Storage = Storage w,
                 Replication = Fin 0, Maintenance = Maintenance w, Horizon = Fin 0,
                 WalCheckpoint = Fin 0, Locks = Fin 0\<rparr>;
          out = (if inRecovery then out\<lparr>Maintenance := lit 0\<rparr> else out);
          out =
            (if Sum out \<le> lit 0
             then
               (let out = out\<lparr>Performance := Performance DefaultWeights,
                              Storage := Storage DefaultWeights\<rparr>
                in if \<not> inRecovery then out\<lparr>Maintenance := Maintenance DefaultWeights\<rparr> else out)
             else out)
      in Normalize out)"

definition raw_of :: "PerDBMetrics \<Rightarrow> RawMetrics" where
  "raw_of m =
     zero_RawMetrics
       \<lparr>Database := db_Database m, CacheHitRatio := db_CacheHitRatio m,
        CacheSampleBlocks := db_CacheSampleBlocks m, MaxDeadRatio := db_MaxDeadRatio m,
        AvgDeadRatio := db_AvgDeadRatio m, TablesHighBloat := db_TablesHighBloat m,
        HotUpdateRatio := db_HotUpdateRatio m, NewpageUpdateRatio := db_NewpageUpdateRatio m,
        MaxXidAge := db_MaxXidAge m, VacuumBacklogTables := db_VacuumBacklogTables m,
        MaxOverdueVacuumAgeHours := db_MaxOverdueVacuumAgeHours m,
        TablesNeverVacuumed := db_TablesNeverVacuumed m\<rparr>"

definition db_categories :: "bool \<Rightarrow> PerDBMetrics \<Rightarrow> CategoryResult list" where
  "db_categories inRecovery m =
     (let raw = raw_of m;
          cats = [penaltyPerformance raw, penaltyStorage raw, penaltyMaintenance raw];
          cats = addPenalty CategoryStorage (hotUpdatePenalty (db_HotUpdateRatio m)) cats;
          cats = setDetail CategoryStorage ''hot_update_ratio'' (db_HotUpdateRatio m) cats
      in if inRecovery
         then map (\<lambda>c. if Name c = CategoryMaintenance then c\<lparr>Penalty := Fin 0\<rparr> else c) cats
         else cats)"

text \<open>The body of the loop of \<^verbatim>\<open>ComputePerDB\<close>, for one database.\<close>

definition compute_db :: "Weights \<Rightarrow> bool \<Rightarrow> PerDBMetrics \<Rightarrow> DatabaseScore" where
  "compute_db w inRecovery m =
     (let cats = map (\<lambda>c. c\<lparr>Weight := byCategory w (Name c)\<rparr>) (db_categories inRecovery m);
          tot = totalPenalty cats;
          cats = map (\<lambda>c. c\<lparr>Score := lit 100 - Penalty c\<rparr>) cats;
          score = math_Max (lit 0) (math_Min (lit 100) (lit 100 - tot));
          score =
            (if \<not> inRecovery
             then (let c = criticalXidCeiling (db_MaxXidAge m) in if c < score then c else score)
             else score)
      in \<lparr>score_Database = db_Database m, score_SizeBytes = db_SizeBytes m,
          score_Score = round_to 10 score, score_Categories = cats\<rparr>)"

definition ComputePerDB :: "PerDBMetrics list \<Rightarrow> Weights \<Rightarrow> bool \<Rightarrow> DatabaseScore list" where
  "ComputePerDB metrics w inRecovery =
     (let w = perDBWeights w inRecovery in map (compute_db w inRecovery) metrics)"

definition WorstDatabase :: "DatabaseScore list \<Rightarrow> DatabaseScore option" where
  "WorstDatabase scores =
     (case scores of
        [] \<Rightarrow> None
      | s # ss \<Rightarrow>
          Some (foldl (\<lambda>worst s. if score_Score s < score_Score worst then s else worst) s ss))"

section \<open>Weights\<close>

definition proper :: "f64 \<Rightarrow> bool" where
  "proper x \<longleftrightarrow> Fin 0 \<le> x \<and> x \<noteq> PInf \<and> is_f64 x"

definition proper_weights :: "Weights \<Rightarrow> bool" where
  "proper_weights w \<longleftrightarrow> list_all proper (weight_values w)"

lemma proper_lit: "0 \<le> q \<Longrightarrow> q \<le> 1 \<Longrightarrow> proper (lit q)"
  using is_f64_fin_of [of q] fin_of_mono [of q 1] fin_of_nonneg [of q]
  by (cases "lit q") (auto simp: proper_def)

lemma proper_0 [simp]: "proper (Fin 0)"
  using proper_lit [of 0] by simp

lemma Normalize_proper:
  assumes "proper_weights w" and "\<not> Sum w \<le> Fin 0"
  shows "weights_ok (Normalize w)"
  using assms
  by (intro Normalize_ok) (auto simp: proper_weights_def proper_def Validate_None list_all_iff)

lemma default_projection:
  assumes "proper_weights w" and "Storage w = Storage DefaultWeights"
  shows "\<not> Sum w \<le> Fin 0"
proof -
  have "Storage w \<le> Sum w"
    using assms(1)
    by (intro Sum_ge) (auto simp: proper_weights_def proper_def list_all_iff weight_values_def)
  moreover have "is_pos (Storage w)"
    by (simp add: assms(2) DefaultWeights_def weightStorage_def)
  ultimately show ?thesis by (rule is_pos_not_le_0 [rotated])
qed

lemma default_proper:
  "proper (Performance DefaultWeights)" "proper (Storage DefaultWeights)"
  "proper (Maintenance DefaultWeights)"
  by (simp_all add: DefaultWeights_def weight_consts proper_lit)

lemma perDBWeights_ok:
  assumes "proper_weights w"
  shows "weights_ok (perDBWeights w inRecovery)"
proof -
  let ?out = "\<lparr>Connections = Fin 0, Performance = Performance w, Storage = Storage w,
     Replication = Fin 0, Maintenance = if inRecovery then Fin 0 else Maintenance w,
     Horizon = Fin 0, WalCheckpoint = Fin 0, Locks = Fin 0\<rparr>"
  let ?def = "\<lparr>Connections = Fin 0, Performance = Performance DefaultWeights,
     Storage = Storage DefaultWeights, Replication = Fin 0,
     Maintenance = if inRecovery then Fin 0 else Maintenance DefaultWeights,
     Horizon = Fin 0, WalCheckpoint = Fin 0, Locks = Fin 0\<rparr>"
  have eq: "perDBWeights w inRecovery = Normalize (if Sum ?out \<le> Fin 0 then ?def else ?out)"
    by (simp add: perDBWeights_def)
  have out: "proper_weights ?out" using assms by (simp add: proper_weights_def weight_values_def)
  have d: "proper_weights ?def" by (simp add: proper_weights_def weight_values_def default_proper)
  have "weights_ok (Normalize ?def)"
    by (intro Normalize_proper default_projection d) simp
  with Normalize_proper [OF out] show ?thesis by (simp add: eq)
qed

section \<open>Scores\<close>

definition wf_db :: "PerDBMetrics \<Rightarrow> bool" where
  "wf_db m \<longleftrightarrow> wf_metrics (raw_of m)"

lemma db_categories_ok:
  assumes "wf_db m"
  shows "map Name (db_categories b m) = PerDBApplicableCategories"
    and "list_all (\<lambda>c. in_range (Penalty c)) (db_categories b m)"
proof -
  let ?cs = "[penaltyPerformance (raw_of m), penaltyStorage (raw_of m), penaltyMaintenance (raw_of m)]"
  let ?h = "hotUpdatePenalty (db_HotUpdateRatio m)"
  let ?adj = "setDetail CategoryStorage ''hot_update_ratio'' (db_HotUpdateRatio m)
                (addPenalty CategoryStorage ?h ?cs)"
  have wf: "wf_metrics (raw_of m)" using assms by (simp add: wf_db_def)
  have n: "map Name ?adj = PerDBApplicableCategories"
    by (simp add: setDetail_def addPenalty_def update_first_names PerDBApplicableCategories_def
        pen_performance.name pen_storage.name pen_maintenance.name)
  have "list_all (\<lambda>c. in_range (Penalty c)) ?cs"
    by (simp add: pen_performance.range [OF wf] pen_storage.range [OF wf] pen_maintenance.range [OF wf])
  then have r: "list_all (\<lambda>c. in_range (Penalty c)) ?adj"
    unfolding setDetail_def addPenalty_def
    by (intro update_first_all)
      (auto intro!: capped_in_range [simplified] f64_add_nonneg hotUpdatePenalty_nonneg
        simp: in_range_def [of "Penalty _"])
  have nm: "map Name (map (\<lambda>c. if Name c = CategoryMaintenance then c\<lparr>Penalty := Fin 0\<rparr> else c) xs)
              = map Name xs" for xs :: "CategoryResult list"
    by (induction xs) auto
  show "map Name (db_categories b m) = PerDBApplicableCategories"
    using n nm by (simp add: db_categories_def Let_def del: map_map)
  show "list_all (\<lambda>c. in_range (Penalty c)) (db_categories b m)"
    using r by (auto simp: db_categories_def Let_def list_all_iff)
qed

lemma db_total_nonneg:
  assumes "wf_db m" and "weights_ok w"
  shows "Fin 0 \<le> totalPenalty (map (\<lambda>c. c\<lparr>Weight := byCategory w (Name c)\<rparr>) (db_categories b m))"
proof (rule totalPenalty_nonneg)
  have "weight_in 18 (byCategory w n)" for n
    using weight_in_mono [OF byCategory_ok [OF assms(2)], of 18 n] by simp
  then show "list_all contrib_ok (map (\<lambda>c. c\<lparr>Weight := byCategory w (Name c)\<rparr>) (db_categories b m))"
    using db_categories_ok(2) [OF assms(1), of b]
    by (auto simp: list_all_iff contrib_ok_def weight_in_def)
qed

lemma compute_db_score:
  "score_Score (compute_db w b m) =
     round_to 10 (clamped_score (if b then Fin 100 else criticalXidCeiling (db_MaxXidAge m))
       (totalPenalty (map (\<lambda>c. c\<lparr>Weight := byCategory w (Name c)\<rparr>) (db_categories b m))))"
proof -
  have "\<not> Fin 100 < math_Max (Fin 0) (math_Min (Fin 100) x)" for x by (cases x) auto
  then show ?thesis by (simp add: compute_db_def clamped_score_def Let_def)
qed

lemma criticalXidCeiling_cases: "criticalXidCeiling a = Fin 30 \<or> criticalXidCeiling a = Fin 100"
  by (simp add: criticalXidCeiling_def criticalScoreCeiling_def)

lemma compute_db_range:
  assumes "wf_db m" and "weights_ok w"
  shows "in_range (score_Score (compute_db w b m))"
  unfolding compute_db_score
  using criticalXidCeiling_cases [of "db_MaxXidAge m"]
  by (intro round_in_range clamped_score_range db_total_nonneg assms) auto

lemma compute_db_floored:
  assumes "wf_db m" and "weights_ok w" and "xidFailsafeAge \<le> db_MaxXidAge m"
  shows "score_Score (compute_db w False m) \<le> Fin 30"
proof -
  let ?t = "totalPenalty (map (\<lambda>c. c\<lparr>Weight := byCategory w (Name c)\<rparr>) (db_categories False m))"
  have "clamped_score (Fin 30) ?t \<le> Fin 30"
    by (intro clamped_score_floored db_total_nonneg assms)
  from round_to_mono [OF this, of 10] show ?thesis
    using assms(3) by (simp add: compute_db_score criticalXidCeiling_def criticalScoreCeiling_def)
qed

section \<open>The worst database\<close>

lemma foldl_worst:
  assumes "list_all (\<lambda>s. score_Score s \<noteq> NaN) (w # ss)"
  shows "let r = foldl (\<lambda>worst s. if score_Score s < score_Score worst then s else worst) w ss
         in r \<in> set (w # ss) \<and> (\<forall>s \<in> set (w # ss). score_Score r \<le> score_Score s)"
  using assms
proof (induction ss arbitrary: w)
  case (Cons s ss)
  let ?w = "if score_Score s < score_Score w then s else w"
  let ?r = "foldl (\<lambda>worst s. if score_Score s < score_Score worst then s else worst) ?w ss"
  have ih: "?r \<in> set (?w # ss)" "\<forall>x \<in> set (?w # ss). score_Score ?r \<le> score_Score x"
    using Cons.IH [of ?w] Cons.prems by (auto simp: Let_def)
  have "score_Score ?w \<le> score_Score s" "score_Score ?w \<le> score_Score w"
    using Cons.prems f64_not_less [of "score_Score s" "score_Score w"]
    by (auto simp: f64_less_imp_le)
  then have "score_Score ?r \<le> score_Score s" "score_Score ?r \<le> score_Score w"
    using ih(2) by (auto intro: f64_le_trans)
  with ih show ?case by (auto simp: Let_def split: if_splits)
qed simp

lemma WorstDatabase_min:
  assumes "scores \<noteq> []" and "list_all (\<lambda>s. score_Score s \<noteq> NaN) scores"
  shows "\<exists>r. WorstDatabase scores = Some r \<and> r \<in> set scores \<and>
             (\<forall>s \<in> set scores. score_Score r \<le> score_Score s)"
  using assms foldl_worst [of "hd scores" "tl scores"]
  by (cases scores) (auto simp: WorstDatabase_def Let_def)

section \<open>Properties\<close>

text \<open>A database close to wraparound with nothing else to report, for the witnesses.\<close>

definition aged_db :: PerDBMetrics where
  "aged_db =
     \<lparr>db_Database = ''app'', db_SizeBytes = 1000, db_CacheHitRatio = Fin 99,
      db_CacheSampleBlocks = 60000, db_MaxDeadRatio = Fin 1, db_AvgDeadRatio = Fin 1,
      db_TablesHighBloat = 0, db_HotUpdateRatio = Fin 1, db_NewpageUpdateRatio = Fin 0,
      db_MaxXidAge = 1600000000, db_VacuumBacklogTables = 0, db_MaxOverdueVacuumAgeHours = Fin 0,
      db_TablesNeverVacuumed = 0\<rparr>"

lemma aged_db_wf: "wf_db aged_db"
  by (simp add: wf_db_def wf_metrics_defs raw_of_def zero_RawMetrics_def aged_db_def)

lemma DefaultWeights_proper: "proper_weights DefaultWeights"
  by (simp add: proper_weights_def weight_values_def DefaultWeights_def weight_consts proper_lit)

text \<open>
  C6: \<^verbatim>\<open>ComputePerDB\<close> returns one score per database, in the order of its input,
  and every score lies between 0 and 100, on a primary and on a standby.
\<close>

theorem per_db_scores:
  assumes "list_all wf_db ms" and "proper_weights w"
  shows "map score_Database (ComputePerDB ms w inRecovery) = map db_Database ms \<and>
         list_all (\<lambda>s. Fin 0 \<le> score_Score s \<and> score_Score s \<le> Fin 100)
           (ComputePerDB ms w inRecovery)"
  using assms compute_db_range [OF _ perDBWeights_ok [OF assms(2), of inRecovery], of _ inRecovery]
  by (auto simp: ComputePerDB_def compute_db_def Let_def list_all_iff in_range_def)

theorem per_db_scores_witness:
  "map score_Database (ComputePerDB [aged_db] DefaultWeights True) = map db_Database [aged_db] \<and>
   list_all (\<lambda>s. Fin 0 \<le> score_Score s \<and> score_Score s \<le> Fin 100)
     (ComputePerDB [aged_db] DefaultWeights True)"
  by (rule per_db_scores) (simp_all add: aged_db_wf DefaultWeights_proper)

text \<open>
  On a primary, a database whose transaction-id age reached the failsafe age scores at
  most 30, whatever the weights.
\<close>

theorem per_db_wraparound_floor:
  assumes "wf_db m" and "proper_weights w" and "xidFailsafeAge \<le> db_MaxXidAge m"
    and "m \<in> set ms"
  shows "\<exists>s \<in> set (ComputePerDB ms w False). score_Database s = db_Database m \<and> score_Score s \<le> Fin 30"
proof
  show "compute_db (perDBWeights w False) False m \<in> set (ComputePerDB ms w False)"
    using assms(4) by (simp add: ComputePerDB_def)
  show "score_Database (compute_db (perDBWeights w False) False m) = db_Database m \<and>
        score_Score (compute_db (perDBWeights w False) False m) \<le> Fin 30"
    using compute_db_floored [OF assms(1) perDBWeights_ok [OF assms(2)] assms(3)]
    by (simp add: compute_db_def Let_def)
qed

theorem per_db_wraparound_floor_witness:
  "\<exists>s \<in> set (ComputePerDB [aged_db] DefaultWeights False).
     score_Database s = db_Database aged_db \<and> score_Score s \<le> Fin 30"
  by (rule per_db_wraparound_floor [OF aged_db_wf DefaultWeights_proper])
    (simp_all add: aged_db_def xidFailsafeAge_def)

text \<open>
  The worst database is one of the scored databases and no database scores lower.
\<close>

theorem worst_database_is_minimal:
  assumes "list_all wf_db ms" and "proper_weights w" and "ms \<noteq> []"
  shows "\<exists>r. WorstDatabase (ComputePerDB ms w b) = Some r \<and> r \<in> set (ComputePerDB ms w b) \<and>
             (\<forall>s \<in> set (ComputePerDB ms w b). score_Score r \<le> score_Score s)"
proof (rule WorstDatabase_min)
  show "ComputePerDB ms w b \<noteq> []" using assms(3) by (simp add: ComputePerDB_def)
  show "list_all (\<lambda>s. score_Score s \<noteq> NaN) (ComputePerDB ms w b)"
    using assms(1) compute_db_range [OF _ perDBWeights_ok [OF assms(2), of b], of _ b]
    by (fastforce simp: ComputePerDB_def list_all_iff in_range_def dest: f64_le_not_NaN)
qed

theorem worst_database_witness:
  "\<exists>r. WorstDatabase (ComputePerDB [aged_db, aged_db] DefaultWeights False) = Some r \<and>
       r \<in> set (ComputePerDB [aged_db, aged_db] DefaultWeights False) \<and>
       (\<forall>s \<in> set (ComputePerDB [aged_db, aged_db] DefaultWeights False). score_Score r \<le> score_Score s)"
  by (rule worst_database_is_minimal) (simp_all add: aged_db_wf DefaultWeights_proper)

end
