(* ===== verification/Health_Standby.thy ===== *)
theory Health_Standby
  imports Health_Aggregate
begin

text \<open>
  On a standby the maintenance signals describe the primary. The score of a standby is shown
  not to depend on any of them: two snapshots that differ only in maintenance metrics get
  the same score, whatever the weights.
\<close>

text \<open>The same snapshot with other values in every field the maintenance category reads.\<close>

definition with_maintenance ::
  "RawMetrics \<Rightarrow> RawMetrics \<Rightarrow> RawMetrics" where
  "with_maintenance m d =
     m\<lparr>MaxXidAge := MaxXidAge d, VacuumBacklogTables := VacuumBacklogTables d,
       MaxOverdueVacuumAgeHours := MaxOverdueVacuumAgeHours d,
       TablesNeverVacuumed := TablesNeverVacuumed d, AutovacuumEnabled := AutovacuumEnabled d,
       TrackCountsEnabled := TrackCountsEnabled d,
       TablesWithAutovacuumOff := TablesWithAutovacuumOff d,
       MaxRelfrozenxidAge := MaxRelfrozenxidAge d,
       ColdMaxRelfrozenxidAge := ColdMaxRelfrozenxidAge d,
       ColdFreezeRatio := ColdFreezeRatio d, Cold := Cold d,
       StalePlannerStatsTables := StalePlannerStatsTables d\<rparr>"

definition agree :: "CategoryResult \<Rightarrow> CategoryResult \<Rightarrow> bool" where
  "agree c c' \<longleftrightarrow>
     Name c = Name c' \<and> Weight c = Weight c' \<and>
     (Name c \<noteq> CategoryMaintenance \<longrightarrow> Penalty c = Penalty c')"

abbreviation agree_all :: "CategoryResult list \<Rightarrow> CategoryResult list \<Rightarrow> bool" where
  "agree_all \<equiv> list_all2 agree"

lemma update_first_agree:
  assumes "agree_all cs cs'" and "\<And>c c'. agree c c' \<Longrightarrow> agree (f c) (g c')"
  shows "agree_all (update_first n f cs) (update_first n g cs')"
  using assms(1) by induction (auto simp: assms(2), auto simp: agree_def)

lemma addPenalty_agree: "agree_all cs cs' \<Longrightarrow> agree_all (addPenalty n d cs) (addPenalty n d cs')"
  unfolding addPenalty_def by (rule update_first_agree) (auto simp: agree_def)

lemma setDetail_agree: "agree_all cs cs' \<Longrightarrow> agree_all (setDetail n k v cs) (setDetail n k v cs')"
  unfolding setDetail_def by (rule update_first_agree) (auto simp: agree_def)

text \<open>Changes of the maintenance entry on one side only are invisible.\<close>

lemma addPenalty_maint_left:
  "agree_all cs cs' \<Longrightarrow> agree_all (addPenalty CategoryMaintenance d cs) cs'"
  unfolding addPenalty_def by (induction rule: list_all2_induct) (auto simp: agree_def)

lemma addPenalty_maint_right:
  "agree_all cs cs' \<Longrightarrow> agree_all cs (addPenalty CategoryMaintenance d cs')"
  unfolding addPenalty_def by (induction rule: list_all2_induct) (auto simp: agree_def)

lemma setDetail_left: "agree_all cs cs' \<Longrightarrow> agree_all (setDetail n k v cs) cs'"
  unfolding setDetail_def by (induction rule: list_all2_induct) (auto simp: agree_def)

lemma setDetail_right: "agree_all cs cs' \<Longrightarrow> agree_all cs (setDetail n k v cs')"
  unfolding setDetail_def by (induction rule: list_all2_induct) (auto simp: agree_def)

lemma if_agree:
  "(b \<Longrightarrow> agree_all x x') \<Longrightarrow> (\<not> b \<Longrightarrow> agree_all y y') \<Longrightarrow>
   agree_all (if b then x else y) (if b then x' else y')"
  by simp

lemma add_ladder_agree:
  "agree_all cs cs' \<Longrightarrow>
   agree_all (add_ladder n v hi a mid b lo c cs) (add_ladder n v hi a mid b lo c cs')"
  unfolding add_ladder_def by (simp add: addPenalty_agree)

lemma adjust_maintenance_agree:
  "agree_all cs cs' \<Longrightarrow> agree_all (adjust_maintenance m cs) (adjust_maintenance m' cs')"
  unfolding adjust_maintenance_def Let_def
  by (intro setDetail_left setDetail_right)
    (simp add: addPenalty_maint_left addPenalty_maint_right)

lemmas agree_intros = if_agree setDetail_agree addPenalty_agree add_ladder_agree

lemma with_maintenance_sel [simp]:
  "InRecovery (with_maintenance m d) = InRecovery m"
  "TrackIoTimingEnabled (with_maintenance m d) = TrackIoTimingEnabled m"
  "LatencyRegressionRatio (with_maintenance m d) = LatencyRegressionRatio m"
  "SeqScanRegressionRatio (with_maintenance m d) = SeqScanRegressionRatio m"
  "HotUpdateRatio (with_maintenance m d) = HotUpdateRatio m"
  "DiskUsedRatio (with_maintenance m d) = DiskUsedRatio m"
  "WalLevel (with_maintenance m d) = WalLevel m"
  "ReplicaCount (with_maintenance m d) = ReplicaCount m"
  "LogicalSlotsActive (with_maintenance m d) = LogicalSlotsActive m"
  "WalLevelManaged (with_maintenance m d) = WalLevelManaged m"
  "NumVCPU (with_maintenance m d) = NumVCPU m"
  "LoadAvg15 (with_maintenance m d) = LoadAvg15 m"
  "PoolerPoolSize (with_maintenance m d) = PoolerPoolSize m"
  "PoolerServerConns (with_maintenance m d) = PoolerServerConns m"
  "ChecksumFailuresRate (with_maintenance m d) = ChecksumFailuresRate m"
  by (simp_all add: with_maintenance_def)

lemma adjust_with_maintenance:
  "adjust_performance (with_maintenance m d) = adjust_performance m"
  "adjust_storage (with_maintenance m d) = adjust_storage m"
  "adjust_wal (with_maintenance m d) = adjust_wal m"
  "adjust_connections (with_maintenance m d) = adjust_connections m"
  unfolding adjust_performance_def adjust_storage_def adjust_wal_def adjust_connections_def
    with_maintenance_sel
  by (rule refl)+

lemma adjust_performance_agree:
  "agree_all cs cs' \<Longrightarrow> agree_all (adjust_performance m cs) (adjust_performance m cs')"
  unfolding adjust_performance_def Let_def by (intro agree_intros)

lemma adjust_storage_agree:
  "agree_all cs cs' \<Longrightarrow> agree_all (adjust_storage m cs) (adjust_storage m cs')"
  unfolding adjust_storage_def Let_def by (intro agree_intros)

lemma adjust_wal_agree:
  "agree_all cs cs' \<Longrightarrow> agree_all (adjust_wal m cs) (adjust_wal m cs')"
  unfolding adjust_wal_def Let_def by (intro agree_intros)

lemma adjust_connections_agree:
  "agree_all cs cs' \<Longrightarrow> agree_all (adjust_connections m cs) (adjust_connections m cs')"
  unfolding adjust_connections_def Let_def by (intro agree_intros)

lemma round_penalties_agree: "agree_all cs cs' \<Longrightarrow> agree_all (round_penalties cs) (round_penalties cs')"
  by (auto simp: round_penalties_def list_all2_map1 list_all2_map2 agree_def elim!: list_all2_mono)

lemma base_agree: "agree_all (base_categories m) (base_categories (with_maintenance m d))"
  by (simp add: base_categories_def agree_def with_maintenance_def
      penaltyConnections_def penaltyPerformance_def penaltyStorage_def penaltyReplication_def
      penaltyMaintenance_def penaltyHorizon_def penaltyWalCheckpoint_def penaltyLocks_def
      connections_value_def cacheHitRatioMeaningful_def storage_value_def replication_value_def
      checkpoint_ratio_def locks_value_def lock_saturation_def Let_def)

lemma adjusted_agree:
  "agree_all (applyInstanceAdjustments m (base_categories m))
     (applyInstanceAdjustments (with_maintenance m d) (base_categories (with_maintenance m d)))"
  unfolding applyInstanceAdjustments_def adjust_with_maintenance
  by (intro round_penalties_agree adjust_performance_agree adjust_storage_agree adjust_wal_agree
      adjust_connections_agree adjust_maintenance_agree base_agree)

section \<open>Contributions after redistribution\<close>

definition contribution :: "CategoryResult \<Rightarrow> f64" where
  "contribution c = Penalty c * Weight c"

lemma agree_weights:
  "agree_all cs cs' \<Longrightarrow>
     map Weight (filter (\<lambda>c. P (Name c)) cs) = map Weight (filter (\<lambda>c. P (Name c)) cs')"
  by (induction rule: list_all2_induct) (auto simp: agree_def)

lemma zero_contribution: "in_range p \<Longrightarrow> p * Fin 0 = Fin 0"
  by (cases p) (auto simp: in_range_def)

lemma foldl_zero:
  assumes "list_all (\<lambda>x. Fin 0 \<le> x \<and> is_f64 x) xs" and "float_sum xs = Fin 0" and "x \<in> set xs"
  shows "x = Fin 0"
proof -
  have "x \<le> float_sum xs"
    unfolding float_sum_def using assms by (intro foldl_add_ge_elem) auto
  moreover have "Fin 0 \<le> x" using assms by (auto simp: list_all_iff)
  ultimately show ?thesis using assms(2) f64_antisym by simp
qed

lemma agree_map:
  assumes "agree_all cs cs'" and "\<And>c c'. agree c c' \<Longrightarrow> contribution (f c) = contribution (g c')"
  shows "map contribution (map f cs) = map contribution (map g cs')"
  using assms(1) by (induction rule: list_all2_induct) (simp_all add: assms(2))

lemma redistribute_agree:
  assumes a: "agree_all cs cs'" and dr: "CategoryMaintenance \<in> set dr"
    and ok: "list_all (\<lambda>c. in_range (Penalty c) \<and> weight_in 2 (Weight c)) cs"
    and ok': "list_all (\<lambda>c. in_range (Penalty c) \<and> weight_in 2 (Weight c)) cs'"
  shows "map contribution (redistributeWeights dr cs) = map contribution (redistributeWeights dr cs')"
proof -
  let ?D = "\<lambda>c. Name c \<in> set dr"
  have ds: "map Weight (filter ?D cs) = map Weight (filter ?D cs')"
    using agree_weights [OF a, of "\<lambda>n. n \<in> set dr"] .
  have os: "map Weight (filter (\<lambda>c. \<not> ?D c) cs) = map Weight (filter (\<lambda>c. \<not> ?D c) cs')"
    using agree_weights [OF a, of "\<lambda>n. n \<notin> set dr"] .
  show ?thesis
  proof (cases "float_sum (map Weight (filter ?D cs)) = Fin 0")
    case True
    have z: "Weight c = Fin 0" if "c \<in> set cs" "?D c" for c
      using foldl_zero [OF _ True, of "Weight c"] ok that
      by (auto simp: list_all_iff weight_in_def)
    have "contribution c = contribution c'" if "c \<in> set cs" "c' \<in> set cs'" "agree c c'" for c c'
    proof (cases "?D c")
      case True
      with z [OF that(1)] that(3) have "Weight c = Fin 0" "Weight c' = Fin 0"
        by (auto simp: agree_def)
      moreover have "in_range (Penalty c)" "in_range (Penalty c')"
        using ok ok' that by (auto simp: list_all_iff)
      ultimately show ?thesis by (simp add: contribution_def zero_contribution)
    next
      case False
      with dr that(3) show ?thesis by (auto simp: contribution_def agree_def)
    qed
    then have "map contribution cs = map contribution cs'"
      using a by (simp add: list_all2_conv_all_nth list_eq_iff_nth_eq)
    then show ?thesis
      using True ds by (simp add: redistributeWeights_def Let_def)
  next
    case False
    then show ?thesis
      unfolding redistributeWeights_def Let_def ds os map_map
      using dr by (auto simp: contribution_def agree_def intro!: agree_map [OF a] simp del: map_map)
  qed
qed

section \<open>The score of a standby\<close>

lemma weighted_contribution:
  assumes "InRecovery m" and "wf_metrics m" and "wf_metrics (with_maintenance m d)" and "weights_ok w"
  shows "map contribution (weighted_categories m w) =
         map contribution (weighted_categories (with_maintenance m d) w)"
proof -
  let ?W = "map (\<lambda>c. c\<lparr>Weight := byCategory w (Name c)\<rparr>)"
  let ?cs = "\<lambda>m. applyInstanceAdjustments m (base_categories m)"
  have a: "agree_all (?W (?cs m)) (?W (?cs (with_maintenance m d)))"
    using adjusted_agree [of m d]
    by (auto simp: list_all2_map1 list_all2_map2 agree_def elim!: list_all2_mono)
  have ok: "list_all (\<lambda>c. in_range (Penalty c) \<and> weight_in 2 (Weight c)) (?W (?cs m))"
    if "wf_metrics m" for m
    using applyInstanceAdjustments_ok [OF base_categories_ok [OF that], of m] assms(4)
    by (auto simp: cats_ok_def list_all_iff byCategory_ok)
  have dr: "dropped_categories (with_maintenance m d) = dropped_categories m"
    by (simp add: dropped_categories_def)
  have "CategoryMaintenance \<in> set (dropped_categories m)"
    using assms(1) by (simp add: dropped_categories_def)
  with redistribute_agree [OF a this ok ok] assms(2,3) show ?thesis
    by (auto simp: weighted_categories_def Let_def dr simp del: map_map)
qed

lemma totalPenalty_contribution: "totalPenalty cs = float_sum (map contribution cs)"
  by (simp add: totalPenalty_def contribution_def [abs_def])

lemma criticalCeiling_standby:
  "InRecovery m \<Longrightarrow> criticalCeiling (with_maintenance m d) = criticalCeiling m"
  by (simp add: criticalCeiling_def)

lemma standby_score:
  assumes "InRecovery m" and "wf_metrics m" and "wf_metrics (with_maintenance m d)"
    and "list_all is_f64 (weight_values w)"
  shows "result_Score (CalculateWithWeights (with_maintenance m d) w) =
         result_Score (CalculateWithWeights m w)"
  unfolding result_Score_eq totalPenalty_contribution
  using weighted_contribution [OF assms(1-3) effective_weights_ok [OF assms(4)]] assms(1)
  by (simp add: criticalCeiling_standby)

section \<open>Properties\<close>

text \<open>
  C1: the health score of an instance is a number between 0 and 100, for every well-formed
  snapshot of metrics and every vector of float64 weights, valid or not (an invalid vector
  falls back to the defaults).
\<close>

theorem score_bounds:
  assumes "wf_metrics m" and "list_all is_f64 (weight_values w)"
  shows "Fin 0 \<le> result_Score (CalculateWithWeights m w) \<and>
         result_Score (CalculateWithWeights m w) \<le> Fin 100"
  using score_range [OF assms] by (simp add: in_range_def)

theorem score_bounds_witness:
  "Fin 0 \<le> result_Score (CalculateWithWeights zero_RawMetrics DefaultWeights) \<and>
   result_Score (CalculateWithWeights zero_RawMetrics DefaultWeights) \<le> Fin 100"
  by (rule score_bounds)
    (simp_all add: wf_metrics_defs zero_RawMetrics_def weight_values_def DefaultWeights_def weight_consts)

text \<open>
  A critical condition (checksum failures, a full disk, imminent wraparound, disabled
  autovacuum or track_counts, an exhausted sequence) forces the score to at most 30, whatever
  the weights.
\<close>

theorem floored_score_at_most_30:
  assumes "wf_metrics m" and "list_all is_f64 (weight_values w)" and "Floored m"
  shows "result_Score (CalculateWithWeights m w) \<le> Fin 30"
  using assms by (rule score_floored)

theorem floored_score_witness:
  "result_Score (CalculateWithWeights zero_RawMetrics DefaultWeights) \<le> Fin 30"
  by (rule floored_score_at_most_30)
    (simp_all add: wf_metrics_defs zero_RawMetrics_def weight_values_def DefaultWeights_def
      weight_consts Floored_def criticalCeiling_def diskUsedCritical_def criticalScoreCeiling_def
      criticalXidCeiling_def xidFailsafeAge_def)

text \<open>
  The score of a standby does not depend on the maintenance metrics it inherits from the
  primary: replacing all of them by those of another snapshot leaves the score unchanged.
\<close>

theorem standby_ignores_maintenance:
  assumes "InRecovery m" and "wf_metrics m" and "wf_metrics (with_maintenance m d)"
    and "list_all is_f64 (weight_values w)"
  shows "result_Score (CalculateWithWeights (with_maintenance m d) w) =
         result_Score (CalculateWithWeights m w)"
  using assms by (rule standby_score)

theorem standby_ignores_maintenance_witness:
  "result_Score (CalculateWithWeights (with_maintenance (zero_RawMetrics\<lparr>InRecovery := True\<rparr>)
      (zero_RawMetrics\<lparr>MaxXidAge := 1700000000, TablesNeverVacuumed := 7\<rparr>)) DefaultWeights) =
   result_Score (CalculateWithWeights (zero_RawMetrics\<lparr>InRecovery := True\<rparr>) DefaultWeights)"
  by (rule standby_ignores_maintenance)
    (simp_all add: wf_metrics_defs zero_RawMetrics_def with_maintenance_def weight_values_def
      DefaultWeights_def weight_consts)

section \<open>Weights whose sum overflows\<close>

text \<open>
  A vector of finite weights can pass \<^verbatim>\<open>Validate\<close> although its sum overflows to
  infinity; \<^verbatim>\<open>Normalize\<close> then turns every weight into zero.
\<close>

lemma overflow_normalize:
  assumes "Sum w = PInf" and "Validate w = None"
  shows "byCategory (Normalize w) n = Fin 0"
proof -
  have "x / PInf = Fin 0" if "x \<in> set (weight_values w)" for x
    using assms(2) that by (cases x) (auto simp: Validate_None list_all_iff)
  then show ?thesis
    using assms(1)
    by (cases n) (simp_all add: Normalize_def Let_def byCategory_def weight_values_def minus_f64_def
        less_f64_def lit_Fin)
qed

lemma zero_weights_total:
  assumes "wf_metrics m" and "\<And>n. byCategory w n = Fin 0"
  shows "totalPenalty (weighted_categories m w) = Fin 0"
proof -
  let ?cs = "map (\<lambda>c. c\<lparr>Weight := byCategory w (Name c)\<rparr>)
              (applyInstanceAdjustments m (base_categories m))"
  have fs: "float_sum xs = Fin 0" if "set xs \<subseteq> {Fin 0}" for xs
    using that by (induction xs) (auto simp: float_sum_def)
  have "float_sum (map Weight (filter P ?cs)) = Fin 0" for P
    using assms(2) by (intro fs) auto
  then have "weighted_categories m w = ?cs"
    unfolding weighted_categories_def redistributeWeights_def Let_def by simp
  moreover have "set (map (\<lambda>c. Penalty c * Weight c) ?cs) \<subseteq> {Fin 0}"
    using applyInstanceAdjustments_ok [OF base_categories_ok [OF assms(1)], of m] assms(2)
    by (auto simp: cats_ok_def list_all_iff zero_contribution)
  ultimately show ?thesis unfolding totalPenalty_def by (simp only: fs)
qed

text \<open>
  Finite weights that pass \<^verbatim>\<open>Validate\<close> but whose float sum overflows give every
  instance without a critical condition the score 100, however bad its metrics are.
\<close>

theorem overflowing_weights_score_100:
  assumes "wf_metrics m" and "Validate w = None" and "Sum w = PInf" and "\<not> Floored m"
  shows "result_Score (CalculateWithWeights m w) = Fin 100"
proof -
  have "totalPenalty (weighted_categories m (effective_weights w)) = Fin 0"
    using assms(2,3) by (intro zero_weights_total assms(1)) (simp add: effective_weights_def overflow_normalize)
  moreover have "criticalCeiling m = Fin 100"
    using assms(4) criticalCeiling_cases [of m] by (auto simp: Floored_iff)
  ultimately show ?thesis
    by (simp add: result_Score_eq clamped_score_def minus_f64_def)
qed

theorem overflowing_weights_witness:
  "result_Score (CalculateWithWeights
      (zero_RawMetrics\<lparr>AutovacuumEnabled := True, TrackCountsEnabled := True,
                       TotalConnections := 100, MaxConnections := 100\<rparr>)
      (DefaultWeights\<lparr>Connections := Fin (2 ^ 1023), Performance := Fin (2 ^ 1023)\<rparr>)) = Fin 100"
  (is "result_Score (CalculateWithWeights ?m ?w) = _")
proof (rule overflowing_weights_score_100)
  show "wf_metrics ?m" by (simp add: wf_metrics_defs zero_RawMetrics_def)
  have disk: "\<not> lit (9 / 10) \<le> Fin 0"
    by (rule is_pos_not_le_0 [of "lit (9 / 10)"]) simp_all
  show "\<not> Floored ?m"
    using disk
    by (simp add: Floored_def criticalCeiling_def diskUsedCritical_def criticalXidCeiling_def
        xidFailsafeAge_def zero_RawMetrics_def LevelForFreePct_def sequenceLevel_def freePctOf_def
        zero_SchemaConfig_def sequenceThreshold_def DefaultSequenceErrorPct_def
        DefaultSequenceWarningPct_def DefaultSequenceNoticePct_def minus_f64_def)
  have big: "Fin (2 ^ 1023) + Fin (2 ^ 1023) = PInf"
  proof -
    have p: "pow2 1024 = 2 ^ 1024" by (simp only: pow2_def) simp
    have "floor_log2 (2 ^ 1024) = 1024"
      by (rule floor_log2_unique) (simp_all add: pow2_def)
    with rnd_pow2 [of 1024] show ?thesis by (simp add: fin_of_def p)
  qed
  show sum: "Sum ?w = PInf"
    unfolding Sum_def DefaultWeights_def Weights.simps big by (simp add: weight_consts lit_Fin)
  show "Validate ?w = None"
    unfolding Validate_None sum
    by (simp add: weight_values_def DefaultWeights_def weight_consts lit_Fin rnd_nonneg)
qed

end
