(* ===== verification/Autosnapshot_Config.thy ===== *)
theory Autosnapshot_Config
  imports Prelude
begin

text \<open>
  \<^verbatim>\<open>backend/internal/autosnapshot/config.go\<close> and \<^verbatim>\<open>validation.go\<close>: the
  configuration of the auto-snapshot daemon, per-cluster overrides, their merge onto the
  defaults and their validation.

  A stored override is a JSON object. Its decoding into the typed \<^verbatim>\<open>OverrideInput\<close>
  by \<^verbatim>\<open>encoding/json\<close> is a parameter, lenient (\<open>unmarshal\<close>) or strict about unknown
  fields (\<open>decode_strict\<close>). The field bounds are the \<^verbatim>\<open>validate\<close> tags of the structs.
\<close>

section \<open>Configuration\<close>

datatype Direction = DirectionMasterToReplica | DirectionReplicaToMaster | DirectionBoth
  | DirectionOther string

record ActivitySpikeTrigger =
  spike_Enabled :: bool
  WindowSize :: duration
  ActiveThresholdPct :: i64
  SpikeDuration :: duration
  RecoveryDuration :: duration
  DeferredInterval :: duration

record RoleChangeTrigger =
  role_Enabled :: bool
  role_Direction :: Direction

record TriggerDefaults =
  ActivitySpike :: ActivitySpikeTrigger
  RoleChange :: RoleChangeTrigger

record AutoConfig =
  auto_Enabled :: bool
  PollInterval :: duration
  MaxSnapshotFrequency :: duration
  RetentionBytes :: i64
  RetentionMinDays :: i64
  MinBaselineActive :: i64
  CaptureLocksEnabled :: bool
  LockProbeCount :: i64
  LockProbeInterval :: duration
  ResetQueryStatsEnabled :: bool
  HotEnabled :: bool
  HotSchedule :: string
  HotTopN :: i64
  HotRetentionDays :: i64
  HotColdWindowDays :: i64
  IOEnabled :: bool
  IOSchedule :: string
  IORetentionDays :: i64
  Defaults :: TriggerDefaults

text \<open>Partial overrides: a nil pointer field inherits the default.\<close>

record ActivitySpikeOverride =
  ov_Enabled :: "bool option"
  ov_WindowSize :: "duration option"
  ov_ActiveThresholdPct :: "i64 option"
  ov_SpikeDuration :: "duration option"
  ov_RecoveryDuration :: "duration option"
  ov_DeferredInterval :: "duration option"

record RoleChangeOverride =
  ov_role_Enabled :: "bool option"
  ov_Direction :: "Direction option"

record OverrideInput =
  in_ActivitySpike :: "ActivitySpikeOverride option"
  in_RoleChange :: "RoleChangeOverride option"

definition set_if :: "'a option \<Rightarrow> 'a \<Rightarrow> 'a" where
  "set_if ov d = (case ov of None \<Rightarrow> d | Some v \<Rightarrow> v)"

definition apply_spike :: "ActivitySpikeOverride \<Rightarrow> ActivitySpikeTrigger \<Rightarrow> ActivitySpikeTrigger" where
  "apply_spike s d =
     d\<lparr>spike_Enabled := set_if (ov_Enabled s) (spike_Enabled d),
       WindowSize := set_if (ov_WindowSize s) (WindowSize d),
       ActiveThresholdPct := set_if (ov_ActiveThresholdPct s) (ActiveThresholdPct d),
       SpikeDuration := set_if (ov_SpikeDuration s) (SpikeDuration d),
       RecoveryDuration := set_if (ov_RecoveryDuration s) (RecoveryDuration d),
       DeferredInterval := set_if (ov_DeferredInterval s) (DeferredInterval d)\<rparr>"

definition apply_role :: "RoleChangeOverride \<Rightarrow> RoleChangeTrigger \<Rightarrow> RoleChangeTrigger" where
  "apply_role r d =
     d\<lparr>role_Enabled := set_if (ov_role_Enabled r) (role_Enabled d),
       role_Direction := set_if (ov_Direction r) (role_Direction d)\<rparr>"

definition applyTo :: "OverrideInput \<Rightarrow> TriggerDefaults \<Rightarrow> TriggerDefaults" where
  "applyTo inp d =
     (let d = (case in_ActivitySpike inp of
                 None \<Rightarrow> d
               | Some s \<Rightarrow> d\<lparr>ActivitySpike := apply_spike s (ActivitySpike d)\<rparr>)
      in case in_RoleChange inp of
           None \<Rightarrow> d
         | Some r \<Rightarrow> d\<lparr>RoleChange := apply_role r (RoleChange d)\<rparr>)"

text \<open>
  The values of \<^verbatim>\<open>map[string]any\<close>. The order of the entries of an object is the
  order in which one iteration over the Go map visits them.
\<close>

datatype json =
    JNull | JBool bool | JNum string | JStr string | JArr "json list"
  | JObj "(string \<times> json) list"

type_synonym override = "(string \<times> json) list"

definition EffectiveFor ::
  "(override \<Rightarrow> OverrideInput option) \<Rightarrow> AutoConfig \<Rightarrow> override \<Rightarrow> TriggerDefaults" where
  "EffectiveFor unmarshal c ov =
     (if ov = [] then Defaults c
      else (case unmarshal ov of
              None \<Rightarrow> Defaults c
            | Some inp \<Rightarrow> applyTo inp (Defaults c)))"

section \<open>Validation\<close>

datatype config_error =
    InvalidConfig | InvalidOverride | SpikeTooLong | NullField string | DecodeError string

definition spike_tags :: "ActivitySpikeTrigger \<Rightarrow> bool" where
  "spike_tags t \<longleftrightarrow>
     0 < WindowSize t \<and> 0 < ActiveThresholdPct t \<and> ActiveThresholdPct t \<le> 10000 \<and>
     0 < SpikeDuration t \<and> 0 \<le> RecoveryDuration t \<and> 0 \<le> DeferredInterval t"

definition role_tags :: "RoleChangeTrigger \<Rightarrow> bool" where
  "role_tags t \<longleftrightarrow>
     role_Direction t \<in> {DirectionMasterToReplica, DirectionReplicaToMaster, DirectionBoth}"

definition defaults_tags :: "TriggerDefaults \<Rightarrow> bool" where
  "defaults_tags d \<longleftrightarrow> spike_tags (ActivitySpike d) \<and> role_tags (RoleChange d)"

definition config_tags :: "AutoConfig \<Rightarrow> bool" where
  "config_tags c \<longleftrightarrow>
     5 * second \<le> PollInterval c \<and> PollInterval c \<le> MaxSnapshotFrequency c \<and>
     0 \<le> RetentionBytes c \<and> 0 \<le> RetentionMinDays c \<and> 0 \<le> MinBaselineActive c \<and>
     1 \<le> LockProbeCount c \<and> LockProbeCount c \<le> 20 \<and>
     100 * millisecond \<le> LockProbeInterval c \<and> LockProbeInterval c \<le> 5 * second \<and>
     1 \<le> HotTopN c \<and> HotTopN c \<le> 1000 \<and> 1 \<le> HotRetentionDays c \<and>
     1 \<le> HotColdWindowDays c \<and> HotColdWindowDays c \<le> 90 \<and> 1 \<le> IORetentionDays c \<and>
     defaults_tags (Defaults c)"

definition validateSpikeCross :: "ActivitySpikeTrigger \<Rightarrow> config_error option" where
  "validateSpikeCross s =
     (if WindowSize s < wrap64 (2 * SpikeDuration s) then Some SpikeTooLong else None)"

definition ConfigValidate :: "AutoConfig \<Rightarrow> config_error option" where
  "ConfigValidate c =
     (if \<not> config_tags c then Some InvalidConfig
      else validateSpikeCross (ActivitySpike (Defaults c)))"

definition validateMergedDefaults :: "TriggerDefaults \<Rightarrow> config_error option" where
  "validateMergedDefaults td =
     (if \<not> defaults_tags td then Some InvalidOverride
      else validateSpikeCross (ActivitySpike td))"

fun rejectNullFields :: "json \<Rightarrow> string \<Rightarrow> config_error option"
  and rejectNullEntries :: "(string \<times> json) list \<Rightarrow> string \<Rightarrow> config_error option" where
  "rejectNullFields JNull path =
     Some (NullField (if path = '''' then ''override'' else path))"
| "rejectNullFields (JObj kvs) path = rejectNullEntries kvs path"
| "rejectNullFields _ path = None"
| "rejectNullEntries [] path = None"
| "rejectNullEntries ((k, child) # kvs) path =
     (case rejectNullFields child (if path \<noteq> '''' then path @ ''.'' @ k else k) of
        Some e \<Rightarrow> Some e
      | None \<Rightarrow> rejectNullEntries kvs path)"

definition parseOverrideStrict ::
  "(override \<Rightarrow> string + OverrideInput) \<Rightarrow> override \<Rightarrow> config_error + OverrideInput" where
  "parseOverrideStrict decode_strict raw =
     (case rejectNullFields (JObj raw) '''' of
        Some e \<Rightarrow> Inl e
      | None \<Rightarrow> (case decode_strict raw of
                   Inl e \<Rightarrow> Inl (DecodeError e)
                 | Inr inp \<Rightarrow> Inr inp))"

definition ValidateOverride ::
  "(override \<Rightarrow> string + OverrideInput) \<Rightarrow> AutoConfig \<Rightarrow> override \<Rightarrow> config_error option" where
  "ValidateOverride decode_strict c raw =
     (if raw = [] then None
      else (case parseOverrideStrict decode_strict raw of
              Inl e \<Rightarrow> Some e
            | Inr inp \<Rightarrow> validateMergedDefaults (applyTo inp (Defaults c))))"

definition ValidateEffective ::
  "(override \<Rightarrow> OverrideInput option) \<Rightarrow> AutoConfig \<Rightarrow> override \<Rightarrow> config_error option" where
  "ValidateEffective unmarshal c raw = validateMergedDefaults (EffectiveFor unmarshal c raw)"

section \<open>Lemmas\<close>

lemma ConfigValidate_defaults:
  "ConfigValidate c = None \<Longrightarrow> validateMergedDefaults (Defaults c) = None"
  by (auto simp: ConfigValidate_def validateMergedDefaults_def config_tags_def split: if_splits)

text \<open>The cross-field rule is exact while the doubled duration fits 64 bits.\<close>

lemma validateSpikeCross_exact:
  "0 \<le> SpikeDuration s \<Longrightarrow> SpikeDuration s < 2 ^ 62 \<Longrightarrow>
   validateSpikeCross s = None \<longleftrightarrow> 2 * SpikeDuration s \<le> WindowSize s"
  by (auto simp: validateSpikeCross_def wrap64_id in_i64_def)

text \<open>A JSON null anywhere below nested objects is rejected.\<close>

inductive null_at :: "json \<Rightarrow> bool" where
  null_here: "null_at JNull"
| null_below: "(k, v) \<in> set kvs \<Longrightarrow> null_at v \<Longrightarrow> null_at (JObj kvs)"

inductive_cases null_atE: "null_at (JObj kvs)"

inductive_simps null_at_simps [simp]:
  "null_at (JBool b)" "null_at (JNum s)" "null_at (JStr s)" "null_at (JArr xs)"

lemma null_at_Obj: "null_at (JObj kvs) \<longleftrightarrow> (\<exists>(k, v) \<in> set kvs. null_at v)"
  by (auto elim: null_atE intro: null_below)

lemma rejectNull_iff:
  "rejectNullFields j p \<noteq> None \<longleftrightarrow> null_at j"
  "rejectNullEntries kvs p \<noteq> None \<longleftrightarrow> (\<exists>(k, v) \<in> set kvs. null_at v)"
proof (induction j p and kvs p rule: rejectNullFields_rejectNullEntries.induct)
  case (1 path) then show ?case by (simp add: null_here)
next
  case (2 kvs path) then show ?case by (simp add: null_at_Obj)
next
  case (5 k child kvs path)
  then show ?case by (auto split: option.splits)
qed (auto)

section \<open>Properties\<close>

text \<open>
  C9: an override accepted at write time yields a valid effective trigger configuration at
  read time, provided the configuration itself is valid and the lenient decoder reads every
  object the strict one accepts in the same way.
\<close>

theorem accepted_override_stays_valid:
  assumes "ConfigValidate c = None"
    and "ValidateOverride decode_strict c raw = None"
    and "\<And>r inp. decode_strict r = Inr inp \<Longrightarrow> unmarshal r = Some inp"
  shows "ValidateEffective unmarshal c raw = None"
proof (cases "raw = []")
  case True
  then show ?thesis
    using ConfigValidate_defaults [OF assms(1)] by (simp add: ValidateEffective_def EffectiveFor_def)
next
  case False
  then obtain inp where "decode_strict raw = Inr inp"
    "validateMergedDefaults (applyTo inp (Defaults c)) = None"
    using assms(2)
    by (auto simp: ValidateOverride_def parseOverrideStrict_def split: option.splits sum.splits)
  then show ?thesis
    using False assms(3) by (simp add: ValidateEffective_def EffectiveFor_def)
qed

text \<open>A configuration with common values, used by the witnesses.\<close>

definition shipped_triggers :: TriggerDefaults where
  "shipped_triggers =
     \<lparr>ActivitySpike =
        \<lparr>spike_Enabled = True, WindowSize = 10 * minute, ActiveThresholdPct = 50,
         SpikeDuration = 2 * minute, RecoveryDuration = 5 * minute, DeferredInterval = hour\<rparr>,
      RoleChange = \<lparr>role_Enabled = True, role_Direction = DirectionBoth\<rparr>\<rparr>"

definition shipped_config :: AutoConfig where
  "shipped_config =
     \<lparr>auto_Enabled = True, PollInterval = 30 * second, MaxSnapshotFrequency = 10 * minute,
      RetentionBytes = 1000000, RetentionMinDays = 7, MinBaselineActive = 5,
      CaptureLocksEnabled = True, LockProbeCount = 3, LockProbeInterval = second,
      ResetQueryStatsEnabled = False, HotEnabled = True, HotSchedule = ''0 3 * * *'',
      HotTopN = 50, HotRetentionDays = 30, HotColdWindowDays = 30, IOEnabled = True,
      IOSchedule = ''*/30 * * * *'', IORetentionDays = 30, Defaults = shipped_triggers\<rparr>"

definition role_off :: OverrideInput where
  "role_off =
     \<lparr>in_ActivitySpike = None,
      in_RoleChange = Some \<lparr>ov_role_Enabled = Some False, ov_Direction = None\<rparr>\<rparr>"

lemma shipped_config_valid: "ConfigValidate shipped_config = None"
  by (simp add: ConfigValidate_def config_tags_def defaults_tags_def spike_tags_def role_tags_def
      validateSpikeCross_def shipped_config_def shipped_triggers_def duration_units wrap64_def)

theorem accepted_override_witness:
  "ValidateEffective (\<lambda>_. Some role_off) shipped_config
     [(''role_change'', JObj [(''enabled'', JBool False)])] = None"
  by (rule accepted_override_stays_valid [OF shipped_config_valid, where decode_strict = "\<lambda>_. Inr role_off"])
    (simp_all add: ValidateOverride_def parseOverrideStrict_def
      applyTo_def role_off_def apply_role_def set_if_def validateMergedDefaults_def defaults_tags_def
      spike_tags_def role_tags_def validateSpikeCross_def shipped_config_def shipped_triggers_def
      duration_units wrap64_def)

text \<open>
  The strict parser of an override rejects it exactly when a JSON null occurs at any depth
  of nested objects or the decoder fails; a null is reported before any decoding.
\<close>

theorem strict_parse_rejects_nulls:
  "(\<exists>inp. parseOverrideStrict decode_strict raw = Inr inp) \<longleftrightarrow>
     \<not> null_at (JObj raw) \<and> (\<exists>inp. decode_strict raw = Inr inp)"
  using rejectNull_iff(1) [of "JObj raw" "''''"]
  by (auto simp: parseOverrideStrict_def split: option.splits sum.splits)

text \<open>
  The rule that a spike must fit twice into the baseline window is enforced for every
  spike duration below \<open>2 ^ 62\<close> nanoseconds (146 years); above that the doubled duration
  wraps around and a spike longer than its window passes the whole validation.
\<close>

theorem spike_window_rule:
  "(\<forall>s. 0 < SpikeDuration s \<and> SpikeDuration s < 2 ^ 62 \<longrightarrow>
      (validateSpikeCross s = None \<longleftrightarrow> 2 * SpikeDuration s \<le> WindowSize s)) \<and>
   (let s = (ActivitySpike shipped_triggers)\<lparr>SpikeDuration := 2000000 * hour\<rparr>
    in ConfigValidate (shipped_config\<lparr>Defaults := shipped_triggers\<lparr>ActivitySpike := s\<rparr>\<rparr>) = None \<and>
       WindowSize s < SpikeDuration s)"
proof
  show "\<forall>s. 0 < SpikeDuration s \<and> SpikeDuration s < 2 ^ 62 \<longrightarrow>
      (validateSpikeCross s = None \<longleftrightarrow> 2 * SpikeDuration s \<le> WindowSize s)"
    using validateSpikeCross_exact by simp
  show "let s = (ActivitySpike shipped_triggers)\<lparr>SpikeDuration := 2000000 * hour\<rparr>
    in ConfigValidate (shipped_config\<lparr>Defaults := shipped_triggers\<lparr>ActivitySpike := s\<rparr>\<rparr>) = None \<and>
       WindowSize s < SpikeDuration s"
    by (simp add: Let_def ConfigValidate_def config_tags_def defaults_tags_def spike_tags_def
        role_tags_def validateSpikeCross_def shipped_config_def shipped_triggers_def
        duration_units wrap64_def)
qed

theorem spike_window_rule_witness:
  "validateSpikeCross (ActivitySpike shipped_triggers) = None \<longleftrightarrow>
     2 * SpikeDuration (ActivitySpike shipped_triggers) \<le> WindowSize (ActivitySpike shipped_triggers)"
  using spike_window_rule
  by (simp add: shipped_triggers_def duration_units)

end
