(* ===== verification/Sanitize.thy ===== *)
theory Sanitize
  imports Prelude
begin

text \<open>
  \<^verbatim>\<open>backend/internal/pkg/sanitize/sanitize.go\<close>: masking of credentials in SQL text.
  A string is the list of its bytes. Each of the three regular expressions is written out as
  a deterministic matcher: after the keyword every repetition is followed by a character
  outside its class, so the leftmost-first match needs no backtracking.
\<close>

section \<open>Matchers\<close>

definition is_space :: "char \<Rightarrow> bool" where
  "is_space c \<longleftrightarrow> c \<in> {CHR '' '', CHR 0x09, CHR 0x0A, CHR 0x0C, CHR 0x0D}"

definition is_word :: "char \<Rightarrow> bool" where
  "is_word c \<longleftrightarrow>
     (CHR ''0'' \<le> c \<and> c \<le> CHR ''9'') \<or> (CHR ''A'' \<le> c \<and> c \<le> CHR ''Z'') \<or>
     (CHR ''a'' \<le> c \<and> c \<le> CHR ''z'') \<or> c = CHR ''_''"

text \<open>
  One letter of the keyword under \<^verbatim>\<open>(?i)\<close>. Unicode simple folding adds the long s
  (bytes C5 BF) to the forms of the letter s.
\<close>

fun match_letter :: "char \<times> char \<Rightarrow> string \<Rightarrow> string option" where
  "match_letter l [] = None"
| "match_letter (l, u) (c # cs) =
     (if c = l \<or> c = u then Some cs
      else if l = CHR ''s'' \<and> c = CHR 0xC5 \<and> cs \<noteq> [] \<and> hd cs = CHR 0xBF then Some (tl cs)
      else None)"

fun match_letters :: "(char \<times> char) list \<Rightarrow> string \<Rightarrow> string option" where
  "match_letters [] s = Some s"
| "match_letters (l # ls) s =
     (case match_letter l s of None \<Rightarrow> None | Some s' \<Rightarrow> match_letters ls s')"

definition keyword :: "(char \<times> char) list" where
  "keyword = zip ''password'' ''PASSWORD''"

definition skip_space :: "string \<Rightarrow> string" where
  "skip_space = dropWhile is_space"

text \<open>A matcher gets the text from the candidate position on and returns what follows the match.\<close>

definition match_assignment :: "string \<Rightarrow> string option" where
  "match_assignment s =
     (case match_letters keyword s of
        None \<Rightarrow> None
      | Some r \<Rightarrow>
          (case skip_space r of
             [] \<Rightarrow> None
           | c # r \<Rightarrow>
               if c \<noteq> CHR ''='' then None
               else
                 (let v = skip_space r;
                      value_char = (\<lambda>c. \<not> is_space c \<and> c \<noteq> CHR 0x27)
                  in if v = [] \<or> \<not> value_char (hd v) then None else Some (dropWhile value_char v))))"

definition match_quoted :: "char \<Rightarrow> string \<Rightarrow> string option" where
  "match_quoted q s =
     (case match_letters keyword s of
        None \<Rightarrow> None
      | Some r \<Rightarrow>
          (if r = [] \<or> \<not> is_space (hd r) then None
           else (case skip_space r of
                   [] \<Rightarrow> None
                 | c # r \<Rightarrow>
                     if c \<noteq> q then None
                     else (case dropWhile (\<lambda>c. c \<noteq> q) r of
                             [] \<Rightarrow> None
                           | _ # rest \<Rightarrow> Some rest))))"

section \<open>Replacement\<close>

text \<open>
  \<^verbatim>\<open>ReplaceAllString\<close>: non-overlapping matches from left to right. \<open>prev\<close> says
  whether the byte before the current position is a word character; the word boundary in
  front of the keyword holds when it is not.
\<close>

function replace_all :: "(string \<Rightarrow> string option) \<Rightarrow> string \<Rightarrow> bool \<Rightarrow> string \<Rightarrow> string" where
  "replace_all mt repl prev [] = []"
| "replace_all mt repl prev (c # cs) =
     (case (if prev then None else mt (c # cs)) of
        Some rest \<Rightarrow>
          if length rest < length (c # cs)
          then repl @ replace_all mt repl (is_word (last (take (length (c # cs) - length rest) (c # cs)))) rest
          else c # replace_all mt repl (is_word c) cs
      | None \<Rightarrow> c # replace_all mt repl (is_word c) cs)"
  by pat_completeness auto
termination by (relation "measure (\<lambda>(_, _, _, s). length s)") auto

definition patterns :: "(string \<Rightarrow> string option) list" where
  "patterns = [match_assignment, match_quoted (CHR 0x27), match_quoted (CHR 0x22)]"

definition replacements :: "string list" where
  "replacements =
     [''password=***'', ''PASSWORD '' @ [CHR 0x27] @ ''***'' @ [CHR 0x27],
      ''PASSWORD '' @ [CHR 0x27] @ ''***'' @ [CHR 0x27]]"

definition SQL :: "string \<Rightarrow> string" where
  "SQL s = fold (\<lambda>(re, repl) s. replace_all re repl False s) (zip patterns replacements) s"

section \<open>Text without the keyword\<close>

text \<open>The keyword of a match starts with p or P; text without one of them is left alone.\<close>

lemma match_letters_head:
  "match_letters keyword s = Some r \<Longrightarrow> s \<noteq> [] \<and> hd s \<in> {CHR ''p'', CHR ''P''}"
  by (cases s) (auto simp: keyword_def split: option.splits if_splits)

lemma matcher_head:
  assumes "mt \<in> set patterns" and "mt s = Some r"
  shows "s \<noteq> [] \<and> hd s \<in> {CHR ''p'', CHR ''P''}"
  using assms match_letters_head [of s]
  by (auto simp: patterns_def match_assignment_def match_quoted_def split: option.splits)

lemma replace_all_id:
  assumes "mt \<in> set patterns" and "CHR ''p'' \<notin> set s" and "CHR ''P'' \<notin> set s"
  shows "replace_all mt repl prev s = s"
  using assms(2,3)
proof (induction s arbitrary: prev)
  case (Cons c cs)
  have "mt (c # cs) = None"
    using matcher_head [OF assms(1), of "c # cs"] Cons.prems by (cases "mt (c # cs)") auto
  then show ?case using Cons by simp
qed simp

lemma SQL_id: "CHR ''p'' \<notin> set s \<Longrightarrow> CHR ''P'' \<notin> set s \<Longrightarrow> SQL s = s"
  using replace_all_id [of match_assignment s] replace_all_id [of "match_quoted (CHR 0x27)" s]
    replace_all_id [of "match_quoted (CHR 0x22)" s]
  by (simp add: SQL_def patterns_def replacements_def)

section \<open>Text passed as it is\<close>

text \<open>No match begins in \<open>x\<close> when \<open>y\<close> follows it.\<close>

fun no_match :: "(string \<Rightarrow> string option) \<Rightarrow> string \<Rightarrow> string \<Rightarrow> bool" where
  "no_match mt [] y = True"
| "no_match mt (c # x) y = (mt (c # x @ y) = None \<and> no_match mt x y)"

lemma no_match_append [simp]: "no_match mt (a @ b) y = (no_match mt a (b @ y) \<and> no_match mt b y)"
  by (induction a) auto

lemma replace_all_past:
  "no_match mt x y \<Longrightarrow>
     replace_all mt repl prev (x @ y) = x @ replace_all mt repl (if x = [] then prev else is_word (last x)) y"
  by (induction x arbitrary: prev) auto

lemma no_match_plain:
  assumes "mt \<in> set patterns" and "CHR ''p'' \<notin> set x" and "CHR ''P'' \<notin> set x"
  shows "no_match mt x y"
  using assms(2,3)
proof (induction x)
  case (Cons c x)
  then have "mt (c # x @ y) = None"
    using matcher_head [OF assms(1), of "c # x @ y"] by (cases "mt (c # x @ y)") auto
  then show ?case using Cons by simp
qed simp

text \<open>The keyword in any capitalisation.\<close>

abbreviation spelled :: "string \<Rightarrow> bool" where
  "spelled kw \<equiv> list_all2 (\<lambda>c (l, u). c = l \<or> c = u) kw keyword"

lemma match_letters_spelled:
  "list_all2 (\<lambda>c (l, u). c = l \<or> c = u) kw ls \<Longrightarrow> match_letters ls (kw @ r) = Some r"
  by (induction kw ls rule: list_all2_induct) auto

lemma list_all2_in: "list_all2 P xs ys \<Longrightarrow> x \<in> set xs \<Longrightarrow> \<exists>y\<in>set ys. P x y"
  by (induction xs ys rule: list_all2_induct) auto

lemma spelled_head:
  assumes "spelled kw"
  obtains k ks where "kw = k # ks" "k \<in> {CHR ''p'', CHR ''P''}" "CHR ''p'' \<notin> set ks" "CHR ''P'' \<notin> set ks"
proof -
  define K where "K = tl keyword"
  have K: "keyword = (CHR ''p'', CHR ''P'') # K" by (simp add: K_def keyword_def)
  obtain k ks where k: "kw = k # ks" "k \<in> {CHR ''p'', CHR ''P''}" "list_all2 (\<lambda>c (l, u). c = l \<or> c = u) ks K"
    using assms unfolding K by (auto simp: list_all2_Cons2)
  have t: "\<forall>(l, u)\<in>set K. l \<notin> {CHR ''p'', CHR ''P''} \<and> u \<notin> {CHR ''p'', CHR ''P''}" by (simp add: K_def keyword_def)
  have "c \<notin> {CHR ''p'', CHR ''P''}" if "c \<in> set ks" for c
    using list_all2_in [OF k(3) that] t by fastforce
  then show thesis using that [of k ks] k(1,2) by blast
qed

text \<open>The keyword occurs in the text.\<close>

fun has_keyword :: "string \<Rightarrow> bool" where
  "has_keyword [] = False"
| "has_keyword (c # s) = (match_letters keyword (c # s) \<noteq> None \<or> has_keyword s)"

text \<open>An occurrence does not reach over the first letter of another one.\<close>

lemma match_letters_before:
  assumes "match_letters ls (v @ c # x) \<noteq> None" and "ls \<noteq> []"
    and "c \<notin> fst ` set ls \<union> snd ` set ls \<union> {CHR 0xC5, CHR 0xBF}"
  shows "match_letters ls v \<noteq> None"
  using assms
proof (induction ls arbitrary: v)
  case (Cons l ls)
  obtain a b where l: "l = (a, b)" by (cases l)
  obtain d w where v: "v = d # w" using Cons.prems(1,3) l by (cases v) (auto split: option.splits if_splits)
  obtain r where r: "match_letter l (v @ c # x) = Some r" "match_letters ls r \<noteq> None"
    using Cons.prems(1) by (auto split: option.splits)
  obtain w' where w': "r = w' @ c # x" "match_letter l v = Some w'"
  proof (cases "d = a \<or> d = b")
    case True
    then show ?thesis using that [of w] r(1) by (simp add: v l)
  next
    case False
    then have "d = CHR 0xC5" "a = CHR ''s''" "hd (w @ c # x) = CHR 0xBF" "r = tl (w @ c # x)"
      using r(1) by (auto simp: v l split: if_splits)
    moreover from this have "w \<noteq> []" using Cons.prems(3) by auto
    ultimately show ?thesis using that [of "tl w"] False by (simp add: v l)
  qed
  show ?case
  proof (cases "ls = []")
    case False
    then show ?thesis using Cons.IH [of w'] Cons.prems(3) r(2) w' by auto
  qed (use w' in simp)
qed simp

lemma match_keyword_before:
  assumes "match_letters keyword (d # v @ c # x) \<noteq> None" and "c \<in> {CHR ''p'', CHR ''P''}"
  shows "match_letters keyword (d # v) \<noteq> None"
proof -
  have k: "keyword = (CHR ''p'', CHR ''P'') # tl keyword" by (simp add: keyword_def)
  have d: "d \<in> {CHR ''p'', CHR ''P''}" using assms(1) match_letters_head [of "d # v @ c # x"] by auto
  have "match_letters (tl keyword) (v @ c # x) \<noteq> None" using assms(1) d by (subst (asm) k) auto
  then have "match_letters (tl keyword) v \<noteq> None"
    by (rule match_letters_before) (use assms(2) in \<open>auto simp: keyword_def\<close>)
  then show ?thesis using d by (subst k) auto
qed

lemma no_match_before_keyword:
  assumes "mt \<in> set patterns" and "\<not> has_keyword pre" and "k \<in> {CHR ''p'', CHR ''P''}"
  shows "no_match mt pre (k # y)"
  using assms(2)
proof (induction pre)
  case (Cons c pre)
  have "match_letters keyword (c # pre) = None" using Cons.prems by simp
  then have "match_letters keyword (c # pre @ k # y) = None" using match_keyword_before [OF _ assms(3)] by blast
  then have "mt (c # pre @ k # y) = None"
    using assms(1) by (auto simp: patterns_def match_assignment_def match_quoted_def)
  then show ?case using Cons by simp
qed simp

section \<open>Properties\<close>

lemma assignment_head_passes:
  assumes "mt \<in> set patterns" and "\<not> has_keyword pre" and "spelled kw"
    and "list_all is_space ws" and "list_all is_space vs"
  shows "replace_all mt repl False (pre @ kw @ ws @ CHR ''='' # vs @ CHR 0x27 # t) =
    pre @ kw @ ws @ CHR ''='' # vs @ CHR 0x27 # replace_all mt repl False t"
proof -
  obtain k ks where k: "kw = k # ks" "k \<in> {CHR ''p'', CHR ''P''}" "CHR ''p'' \<notin> set ks" "CHR ''P'' \<notin> set ks"
    using assms(3) by (rule spelled_head)
  let ?tail = "ws @ CHR ''='' # vs @ [CHR 0x27]"
  have sp: "dropWhile is_space (ws @ CHR ''='' # r) = CHR ''='' # r" "dropWhile is_space (vs @ CHR 0x27 # r) = CHR 0x27 # r" for r
    using assms(4,5) by (simp_all add: list_all_iff is_space_def)
  have kw: "match_letters keyword (kw @ r) = Some r" for r by (rule match_letters_spelled [OF assms(3)])
  have "match_assignment (kw @ ?tail @ t) = None"
    by (simp add: match_assignment_def kw skip_space_def sp)
  moreover have "match_quoted q (kw @ ?tail @ t) = None" if "q \<noteq> CHR ''=''" for q
    using that by (simp add: match_quoted_def kw skip_space_def sp)
  ultimately have none: "mt (kw @ ?tail @ t) = None" using assms(1) by (auto simp: patterns_def)
  have plain: "\<not> is_space (CHR ''p'')" "\<not> is_space (CHR ''P'')" by (simp_all add: is_space_def)
  have "CHR ''p'' \<notin> set (ks @ ?tail)" "CHR ''P'' \<notin> set (ks @ ?tail)"
    using k(3,4) assms(4,5) plain by (auto simp: list_all_iff)
  then have "no_match mt (ks @ ?tail) t" by (rule no_match_plain [OF assms(1)])
  then have "no_match mt (k # ks @ ?tail) t" using none unfolding k(1) by simp
  moreover have "no_match mt pre (k # (ks @ ?tail) @ t)" by (rule no_match_before_keyword [OF assms(1,2) k(2)])
  ultimately have "no_match mt (pre @ k # ks @ ?tail) t"
    by (simp only: no_match_append [of mt pre] append_Cons append_assoc append_Nil simp_thms)
  then have "no_match mt (pre @ kw @ ?tail) t" by (simp only: k(1) append_Cons)
  from replace_all_past [OF this, of repl False]
  have "replace_all mt repl False ((pre @ kw @ ?tail) @ t) = (pre @ kw @ ?tail) @ replace_all mt repl (is_word (CHR 0x27)) t"
    by (simp del: replace_all.simps)
  moreover have "\<not> is_word (CHR 0x27)" by code_simp
  ultimately show ?thesis by (simp del: replace_all.simps)
qed

text \<open>
  C11: a password assigned in single quotes after an equals sign, as libpq connection strings and
  SQL write it, is not masked as such. Behind a text that does not hold the keyword, the keyword in any
  capitalisation, the equals sign with white space around it and the opening quote pass as they are,
  and what follows the quote is treated as if it stood alone: the quoted password comes back in
  clear except where it holds another assignment of its own.
\<close>

theorem quoted_assignment_not_masked:
  assumes "\<not> has_keyword pre" and "spelled kw" and "list_all is_space ws" and "list_all is_space vs"
  shows "SQL (pre @ kw @ ws @ CHR ''='' # vs @ CHR 0x27 # t) = pre @ kw @ ws @ CHR ''='' # vs @ CHR 0x27 # SQL t"
proof -
  note r = assignment_head_passes [OF _ assms]
  show ?thesis
    using r [of match_assignment] r [of "match_quoted (CHR 0x27)"] r [of "match_quoted (CHR 0x22)"]
    by (simp add: SQL_def patterns_def replacements_def del: append.simps replace_all.simps)
qed

theorem quoted_assignment_witness:
  "SQL (''ALTER USER MAPPING FOR app OPTIONS (SET '' @ ''Password'' @ '' '' @ CHR ''='' # '' '' @ CHR 0x27 # ''secret'' @ [CHR 0x27]) =
   ''ALTER USER MAPPING FOR app OPTIONS (SET '' @ ''Password'' @ '' '' @ CHR ''='' # '' '' @ CHR 0x27 # ''secret'' @ [CHR 0x27]"
proof -
  have "SQL (''secret'' @ [CHR 0x27]) = ''secret'' @ [CHR 0x27]" by (rule SQL_id) simp_all
  moreover have "\<not> has_keyword ''ALTER USER MAPPING FOR app OPTIONS (SET ''" by code_simp
  moreover have "spelled ''Password''" by (simp add: keyword_def)
  ultimately show ?thesis
    using quoted_assignment_not_masked [of "''ALTER USER MAPPING FOR app OPTIONS (SET ''" "''Password''" "'' ''" "'' ''" "''secret'' @ [CHR 0x27]"]
    by (simp add: is_space_def del: append.simps)
qed

end
