(* ===== verification/Lock_Capture.thy ===== *)
theory Lock_Capture
  imports Go_Float Sanitize
begin

text \<open>
  \<^verbatim>\<open>backend/internal/autosnapshot/locks.go\<close>: repeated probes of blocked sessions, of
  which the harshest one is stored with a snapshot.

  The environment of one capture is what the repository and the clock answer: for the i-th
  probe, whether the sleep before it was cut short by the deadline (\<open>slept\<close>, with the
  context's error) and what the query returned (\<open>probed\<close>). \<^verbatim>\<open>slices.SortFunc\<close> is
  not stable, so its result on rows of equal duration is not determined: it is the parameter
  \<open>sortfn\<close>, used through its documented contract \<open>sorts_desc\<close>. A duration printed
  with \<^verbatim>\<open>String()\<close> is kept as the duration.
\<close>

record BackgroundPeak =
  peak_BlockedCount :: i64
  peak_At :: time

record QueryBlocked =
  LockedItem :: string
  BlockedPid :: int
  BlockedDatabase :: string
  BlockedUser :: string
  BlockedQuery :: string
  BlockedDuration :: string
  BlockedDurationMs :: "f64 option"
  BlockedMode :: string
  BlockingPid :: int
  BlockingUser :: string
  StateOfBlockingProcess :: string
  CurrentOrRecentQueryInBlockingProcess :: string
  BlockingDuration :: string
  BlockingDurationMs :: "f64 option"
  BlockingMode :: string

record LockCapture =
  Captured :: bool
  Probes :: i64
  ProbeInterval :: duration
  HarshestAt :: "time option"
  BlockedCount :: i64
  MaxWaitMs :: f64
  capture_BackgroundPeak :: "BackgroundPeak option"
  Rows :: "QueryBlocked list"
  capture_Error :: string

definition maxLockRows :: nat where "maxLockRows = 100"

record lock_env =
  slept :: "nat \<Rightarrow> string option"
  probed :: "nat \<Rightarrow> string + QueryBlocked list"
  capture_now :: time

definition derefF :: "f64 option \<Rightarrow> f64" where
  "derefF p = (case p of None \<Rightarrow> Fin 0 | Some x \<Rightarrow> x)"

definition max_wait_step :: "QueryBlocked \<Rightarrow> f64 \<Rightarrow> f64" where
  "max_wait_step r maxWait =
     (case BlockedDurationMs r of
        None \<Rightarrow> maxWait
      | Some d \<Rightarrow> if maxWait < d then d else maxWait)"

definition scoreBlocked :: "QueryBlocked list \<Rightarrow> i64 \<times> f64" where
  "scoreBlocked rows =
     (int (length (remdups (map BlockedPid rows))), fold max_wait_step rows (Fin 0))"

definition harsher :: "i64 \<Rightarrow> f64 \<Rightarrow> i64 \<Rightarrow> f64 \<Rightarrow> bool" where
  "harsher cnt wait bCount bWait = (if cnt \<noteq> bCount then bCount < cnt else bWait < wait)"

record probe_state =
  best :: "QueryBlocked list"
  bestCount :: i64
  bestWait :: f64
  haveBest :: bool
  lastErr :: "string option"

definition probe_init :: probe_state where
  "probe_init = \<lparr>best = [], bestCount = 0, bestWait = Fin 0, haveBest = False, lastErr = None\<rparr>"

definition probe_success :: "QueryBlocked list \<Rightarrow> probe_state \<Rightarrow> probe_state" where
  "probe_success rows s =
     (let (cnt, wait) = scoreBlocked rows
      in if \<not> haveBest s \<or> harsher cnt wait (bestCount s) (bestWait s)
         then s\<lparr>best := rows, bestCount := cnt, bestWait := wait, haveBest := True\<rparr>
         else s)"

fun probe_loop :: "lock_env \<Rightarrow> nat list \<Rightarrow> probe_state \<Rightarrow> probe_state" where
  "probe_loop e [] s = s"
| "probe_loop e (i # is) s =
     (case (if 0 < i then slept e i else None) of
        Some err \<Rightarrow> s\<lparr>lastErr := Some err\<rparr>
      | None \<Rightarrow>
          (case probed e i of
             Inl err \<Rightarrow> probe_loop e is (s\<lparr>lastErr := Some err\<rparr>)
           | Inr rows \<Rightarrow> probe_loop e is (probe_success rows s)))"

definition mask_row :: "QueryBlocked \<Rightarrow> QueryBlocked" where
  "mask_row r =
     r\<lparr>BlockedQuery := SQL (BlockedQuery r),
       CurrentOrRecentQueryInBlockingProcess := SQL (CurrentOrRecentQueryInBlockingProcess r)\<rparr>"

definition no_capture :: "i64 \<Rightarrow> duration \<Rightarrow> string option \<Rightarrow> LockCapture" where
  "no_capture probeCount interval err =
     \<lparr>Captured = False, Probes = probeCount, ProbeInterval = interval, HarshestAt = None,
      BlockedCount = 0, MaxWaitMs = Fin 0, capture_BackgroundPeak = None, Rows = [],
      capture_Error = (case err of None \<Rightarrow> '''' | Some e \<Rightarrow> e)\<rparr>"

definition CaptureLocks ::
  "(QueryBlocked list \<Rightarrow> QueryBlocked list) \<Rightarrow> lock_env \<Rightarrow> i64 \<Rightarrow> duration \<Rightarrow> LockCapture" where
  "CaptureLocks sortfn e probeCount interval =
     (let probeCount = (if probeCount < 1 then 1 else probeCount);
          s = probe_loop e [0..<nat probeCount] probe_init
      in if \<not> haveBest s then no_capture probeCount interval (lastErr s)
         else
           \<lparr>Captured = True, Probes = probeCount, ProbeInterval = interval,
            HarshestAt = Some (capture_now e), BlockedCount = bestCount s,
            MaxWaitMs = bestWait s, capture_BackgroundPeak = None,
            Rows = map mask_row (take maxLockRows (sortfn (best s))), capture_Error = ''''\<rparr>)"

section \<open>Contract of the sort\<close>

text \<open>\<^verbatim>\<open>cmp.Compare\<close> on floats: NaN is below every other value.\<close>

definition cmp_less :: "f64 \<Rightarrow> f64 \<Rightarrow> bool" where
  "cmp_less a b \<longleftrightarrow> a < b \<or> (IsNaN a \<and> \<not> IsNaN b)"

abbreviation row_wait :: "QueryBlocked \<Rightarrow> f64" where
  "row_wait r \<equiv> derefF (BlockedDurationMs r)"

abbreviation desc_rows :: "QueryBlocked list \<Rightarrow> bool" where
  "desc_rows \<equiv> sorted_wrt (\<lambda>a b. \<not> cmp_less (row_wait a) (row_wait b))"

definition sorts_desc :: "(QueryBlocked list \<Rightarrow> QueryBlocked list) \<Rightarrow> bool" where
  "sorts_desc f \<longleftrightarrow> (\<forall>xs. mset (f xs) = mset xs \<and> desc_rows (f xs))"

fun insert_desc :: "QueryBlocked \<Rightarrow> QueryBlocked list \<Rightarrow> QueryBlocked list" where
  "insert_desc x [] = [x]"
| "insert_desc x (y # ys) =
     (if cmp_less (row_wait y) (row_wait x) then x # y # ys else y # insert_desc x ys)"

definition insertion_sort :: "QueryBlocked list \<Rightarrow> QueryBlocked list" where
  "insertion_sort xs = foldr insert_desc xs []"

lemma cmp_less_trans: "cmp_less a b \<Longrightarrow> cmp_less b c \<Longrightarrow> cmp_less a c"
  by (cases a; cases b; cases c) (auto simp: cmp_less_def IsNaN_def less_f64_def)

lemma cmp_not_less_trans: "\<not> cmp_less a b \<Longrightarrow> \<not> cmp_less b c \<Longrightarrow> \<not> cmp_less a c"
  by (cases a; cases b; cases c) (auto simp: cmp_less_def IsNaN_def less_f64_def)

lemma cmp_less_asym: "cmp_less a b \<Longrightarrow> \<not> cmp_less b a"
  by (cases a; cases b) (auto simp: cmp_less_def IsNaN_def less_f64_def)

lemma mset_insert_desc: "mset (insert_desc x ys) = add_mset x (mset ys)"
  by (induction ys) auto

lemma insert_desc_sorted: "desc_rows ys \<Longrightarrow> desc_rows (insert_desc x ys)"
proof (induction ys)
  case (Cons y ys)
  have set_eq: "set (insert_desc x ys) = insert x (set ys)"
    using mset_insert_desc [of x ys] by (metis set_mset_add_mset_insert set_mset_mset)
  show ?case
    using Cons cmp_less_asym [of "row_wait y" "row_wait x"] cmp_not_less_trans
    by (auto simp: set_eq)
qed simp

lemma insertion_sort_sorts: "sorts_desc insertion_sort"
proof -
  have "mset (insertion_sort xs) = mset xs \<and> desc_rows (insertion_sort xs)" for xs
    by (induction xs) (auto simp: insertion_sort_def mset_insert_desc insert_desc_sorted)
  then show ?thesis by (simp add: sorts_desc_def)
qed

section \<open>The harshest probe wins\<close>

text \<open>The successful answers the loop gets to see, in order.\<close>

fun seen :: "lock_env \<Rightarrow> nat list \<Rightarrow> QueryBlocked list list" where
  "seen e [] = []"
| "seen e (i # is) =
     (if 0 < i \<and> slept e i \<noteq> None then []
      else (case probed e i of Inl err \<Rightarrow> seen e is | Inr rows \<Rightarrow> rows # seen e is))"

definition harsher_rows :: "QueryBlocked list \<Rightarrow> QueryBlocked list \<Rightarrow> bool" where
  "harsher_rows a b =
     harsher (fst (scoreBlocked a)) (snd (scoreBlocked a)) (fst (scoreBlocked b)) (snd (scoreBlocked b))"

definition probe_inv :: "QueryBlocked list list \<Rightarrow> probe_state \<Rightarrow> bool" where
  "probe_inv S s \<longleftrightarrow>
     (haveBest s \<longleftrightarrow> S \<noteq> []) \<and>
     (haveBest s \<longrightarrow>
        best s \<in> set S \<and> scoreBlocked (best s) = (bestCount s, bestWait s) \<and>
        (\<forall>r \<in> set S. \<not> harsher_rows r (best s)))"

lemma fold_max_wait_not_NaN: "w \<noteq> NaN \<Longrightarrow> fold max_wait_step rows w \<noteq> NaN"
proof (induction rows arbitrary: w)
  case (Cons r rows)
  have "max_wait_step r w \<noteq> NaN"
    using Cons.prems by (auto simp: max_wait_step_def split: option.split)
  with Cons.IH show ?case by simp
qed simp

lemma wait_not_NaN: "snd (scoreBlocked rows) \<noteq> NaN"
  by (simp add: scoreBlocked_def fold_max_wait_not_NaN)

lemma f64_not_less_trans:
  "\<not> w2 < w1 \<Longrightarrow> w2 < w3 \<Longrightarrow> w1 \<noteq> NaN \<Longrightarrow> \<not> w3 < (w1 :: f64)"
  by (metis f64_le_less_trans less_f64_def)

lemma harsher_trans_raw:
  "\<not> harsher c1 w1 c2 w2 \<Longrightarrow> harsher c3 w3 c2 w2 \<Longrightarrow> w1 \<noteq> NaN \<Longrightarrow> \<not> harsher c1 w1 c3 w3"
  by (auto simp: harsher_def dest: f64_not_less_trans split: if_splits)

lemma harsher_trans:
  assumes "\<not> harsher_rows r b" and "harsher_rows x b"
  shows "\<not> harsher_rows r x"
  using assms harsher_trans_raw wait_not_NaN unfolding harsher_rows_def by blast

lemma harsher_irrefl: "\<not> harsher_rows r r"
  by (simp add: harsher_rows_def harsher_def less_f64_def)

lemma probe_success_inv:
  assumes "probe_inv S s"
  shows "probe_inv (S @ [rows]) (probe_success rows s)"
proof (cases "haveBest s \<and> \<not> harsher_rows rows (best s)")
  case True
  with assms show ?thesis
    by (auto simp: probe_inv_def probe_success_def Let_def harsher_rows_def split: prod.split)
next
  case False
  then have "probe_success rows s =
      s\<lparr>best := rows, bestCount := fst (scoreBlocked rows), bestWait := snd (scoreBlocked rows),
        haveBest := True\<rparr>"
    using assms
    by (auto simp: probe_inv_def probe_success_def Let_def harsher_rows_def split: prod.split)
  moreover have "\<not> harsher_rows r rows" if "r \<in> set S" for r
    using that False assms harsher_trans [of r "best s" rows] by (auto simp: probe_inv_def)
  ultimately show ?thesis by (auto simp: probe_inv_def harsher_irrefl)
qed

lemma probe_inv_err [simp]: "probe_inv S (s\<lparr>lastErr := x\<rparr>) = probe_inv S s"
  by (simp add: probe_inv_def)

lemma probe_loop_inv: "probe_inv S s \<Longrightarrow> probe_inv (S @ seen e is) (probe_loop e is s)"
proof (induction "is" arbitrary: S s)
  case (Cons i "is")
  show ?case
  proof (cases "probed e i")
    case (Inr rows)
    with Cons.IH [OF probe_success_inv [OF Cons.prems]] Cons.prems show ?thesis
      by (auto split: option.split)
  next
    case (Inl err)
    with Cons.IH [of S "s\<lparr>lastErr := Some err\<rparr>"] Cons.prems show ?thesis
      by (auto split: option.split)
  qed
qed simp

lemma probe_loop_result: "probe_inv (seen e is) (probe_loop e is probe_init)"
  using probe_loop_inv [of "[]" probe_init e "is"] by (simp add: probe_inv_def probe_init_def)

section \<open>Properties\<close>

text \<open>
  A lock capture stores the harshest of the probes that answered: it is captured exactly
  when some probe answered, its count and wait are the score of one of the answers, and no
  answer seen is harsher (more distinct blocked sessions, then a longer wait).
\<close>

theorem capture_is_harshest:
  fixes e n interval sortfn
  defines "c \<equiv> CaptureLocks sortfn e n interval"
    and "answers \<equiv> seen e [0..<nat (max 1 n)]"
  shows "(Captured c \<longleftrightarrow> answers \<noteq> []) \<and>
         (Captured c \<longrightarrow>
            (\<exists>rows \<in> set answers. scoreBlocked rows = (BlockedCount c, MaxWaitMs c)) \<and>
            (\<forall>rows \<in> set answers.
               \<not> harsher (fst (scoreBlocked rows)) (snd (scoreBlocked rows)) (BlockedCount c) (MaxWaitMs c)))"
proof -
  have m: "(if n < 1 then 1 else n) = max 1 n" by simp
  show ?thesis
    using probe_loop_result [of e "[0..<nat (max 1 n)]"]
    unfolding c_def answers_def CaptureLocks_def Let_def m
    by (auto simp: probe_inv_def harsher_rows_def no_capture_def)
qed

text \<open>
  The stored rows are the rows of one answer, longest wait first, with their SQL text
  masked and at most 100 of them, for every sort that meets its contract.
\<close>

theorem capture_rows:
  assumes "sorts_desc sortfn" and "Captured (CaptureLocks sortfn e n interval)"
  shows "\<exists>rows \<in> set (seen e [0..<nat (max 1 n)]). \<exists>sorted.
           mset sorted = mset rows \<and> desc_rows sorted \<and>
           Rows (CaptureLocks sortfn e n interval) = map mask_row (take 100 sorted)"
proof -
  have m: "(if n < 1 then 1 else n) = max 1 n" by simp
  let ?s = "probe_loop e [0..<nat (max 1 n)] probe_init"
  have h: "haveBest ?s"
    using assms(2) by (auto simp: CaptureLocks_def Let_def no_capture_def m split: if_splits)
  then have "best ?s \<in> set (seen e [0..<nat (max 1 n)])"
    using probe_loop_result [of e "[0..<nat (max 1 n)]"] by (simp add: probe_inv_def)
  moreover have "Rows (CaptureLocks sortfn e n interval) = map mask_row (take 100 (sortfn (best ?s)))"
    using h by (simp add: CaptureLocks_def Let_def m maxLockRows_def)
  ultimately show ?thesis using assms(1) unfolding sorts_desc_def by blast
qed

definition quiet_row :: QueryBlocked where
  "quiet_row =
     \<lparr>LockedItem = ''t'', BlockedPid = 7, BlockedDatabase = ''app'', BlockedUser = ''u'',
      BlockedQuery = ''x'', BlockedDuration = ''1s'', BlockedDurationMs = Some (Fin 1000),
      BlockedMode = ''m'', BlockingPid = 8, BlockingUser = ''v'', StateOfBlockingProcess = ''idle'',
      CurrentOrRecentQueryInBlockingProcess = ''y'', BlockingDuration = ''2s'',
      BlockingDurationMs = Some (Fin 2000), BlockingMode = ''m''\<rparr>"

definition quiet_env :: lock_env where
  "quiet_env = \<lparr>slept = (\<lambda>_. None), probed = (\<lambda>_. Inr [quiet_row]), capture_now = 0\<rparr>"

lemma quiet_captured: "Captured (CaptureLocks insertion_sort quiet_env 1 0)"
  by (simp add: CaptureLocks_def quiet_env_def probe_success_def probe_init_def scoreBlocked_def)

theorem capture_is_harshest_witness:
  "\<exists>rows \<in> set (seen quiet_env [0..<nat (max 1 1)]).
     scoreBlocked rows = (BlockedCount (CaptureLocks insertion_sort quiet_env 1 0),
                          MaxWaitMs (CaptureLocks insertion_sort quiet_env 1 0))"
  using capture_is_harshest [of insertion_sort quiet_env 1 0] quiet_captured by blast

theorem capture_rows_witness:
  "\<exists>rows \<in> set (seen quiet_env [0..<nat (max 1 1)]). \<exists>sorted.
     mset sorted = mset rows \<and> desc_rows sorted \<and>
     Rows (CaptureLocks insertion_sort quiet_env 1 0) = map mask_row (take 100 sorted)"
  by (rule capture_rows [OF insertion_sort_sorts quiet_captured])

end
