(* ===== verification/Autosnapshot_Spike.thy ===== *)
theory Autosnapshot_Spike
  imports Autosnapshot_Config Lock_Capture
begin

text \<open>
  The per-host state of the auto-snapshot daemon and the state machine of a forming
  activity spike (\<^verbatim>\<open>backend/internal/autosnapshot/daemon.go\<close>), with the helpers of
  \<^verbatim>\<open>triggers.go\<close> over sample windows and roles.
\<close>

record activitySample =
  sample_at :: time
  sample_count :: i64

record hostState =
  windowSamples :: "activitySample list"
  lastInRecovery :: "bool option"
  aboveThresholdSince :: "time option"
  lastAboveAt :: "time option"
  spikeAbove :: i64
  spikeTotal :: i64
  spikePeak :: i64
  lastBelowBaselineAt :: "time option"
  lockPeak :: "BackgroundPeak option"
  inSpike :: bool
  recoveryBelowSince :: "time option"
  spikeThreshold :: f64

definition new_hostState :: hostState where
  "new_hostState =
     \<lparr>windowSamples = [], lastInRecovery = None, aboveThresholdSince = None, lastAboveAt = None,
      spikeAbove = 0, spikeTotal = 0, spikePeak = 0, lastBelowBaselineAt = None, lockPeak = None,
      inSpike = False, recoveryBelowSince = None, spikeThreshold = Fin 0\<rparr>"

datatype spikeStep = spikeAborted | spikeStarted | spikeForming

definition minSpikeCoverage :: f64 where "minSpikeCoverage = lit 0.7"
definition dipGraceDivisor :: int where "dipGraceDivisor = 2"
definition staleCandidateFactor :: int where "staleCandidateFactor = 4"

definition resetSpike :: "hostState \<Rightarrow> hostState" where
  "resetSpike s =
     s\<lparr>aboveThresholdSince := None, lastAboveAt := None, spikeAbove := 0, spikeTotal := 0,
       spikePeak := 0, lockPeak := None\<rparr>"

definition age_out :: "time \<Rightarrow> duration \<Rightarrow> hostState \<Rightarrow> hostState" where
  "age_out now spikeDuration s =
     (case aboveThresholdSince s of
        None \<Rightarrow> s
      | Some since \<Rightarrow>
          if wrap64 (staleCandidateFactor * spikeDuration) < time_sub now since then resetSpike s else s)"

definition dip_too_long :: "time \<Rightarrow> duration \<Rightarrow> hostState \<Rightarrow> bool" where
  "dip_too_long now spikeDuration s =
     (case aboveThresholdSince s of
        None \<Rightarrow> True
      | Some _ \<Rightarrow>
          (case lastAboveAt s of
             None \<Rightarrow> True
           | Some l \<Rightarrow> tdiv spikeDuration dipGraceDivisor < time_sub now l))"

definition advanceSpike ::
  "time \<Rightarrow> i64 \<Rightarrow> f64 \<Rightarrow> duration \<Rightarrow> hostState \<Rightarrow> spikeStep \<times> hostState" where
  "advanceSpike now cnt threshold spikeDuration s =
     (let s = age_out now spikeDuration s
      in if of_i64 cnt < threshold
         then
           (if dip_too_long now spikeDuration s then (spikeAborted, resetSpike s)
            else (spikeForming, s\<lparr>spikeTotal := spikeTotal s + 1\<rparr>))
         else
           (let s = s\<lparr>lastAboveAt := Some now, spikeAbove := spikeAbove s + 1,
                      spikeTotal := spikeTotal s + 1\<rparr>;
                s = (if spikePeak s < cnt then s\<lparr>spikePeak := cnt\<rparr> else s)
            in if aboveThresholdSince s = None
               then (spikeStarted, s\<lparr>aboveThresholdSince := Some now\<rparr>)
               else (spikeForming, s)))"

definition spikeCoverage :: "hostState \<Rightarrow> f64" where
  "spikeCoverage s =
     (if spikeTotal s = 0 then Fin 0 else of_i64 (spikeAbove s) / of_i64 (spikeTotal s))"

section \<open>Helpers of the triggers\<close>

definition belowBaselineDue :: "hostState \<Rightarrow> time \<Rightarrow> duration \<Rightarrow> bool" where
  "belowBaselineDue s now every =
     (case lastBelowBaselineAt s of None \<Rightarrow> True | Some l \<Rightarrow> every \<le> time_sub now l)"

definition trimSamples :: "activitySample list \<Rightarrow> time \<Rightarrow> activitySample list" where
  "trimSamples samples cutoff = dropWhile (\<lambda>s. before (sample_at s) cutoff) samples"

definition averageExcludingLast :: "activitySample list \<Rightarrow> f64" where
  "averageExcludingLast samples =
     (if length samples \<le> 1 then Fin 0
      else of_i64 (foldl (\<lambda>a s. wrap64 (a + sample_count s)) 0 (butlast samples)) /
           of_i64 (int (length samples) - 1))"

definition roleLabels :: "bool \<Rightarrow> bool \<Rightarrow> string \<times> string" where
  "roleLabels prevInRecovery curInRecovery =
     (if prevInRecovery then ''replica'' else ''master'',
      if curInRecovery then ''replica'' else ''master'')"

definition directionOf :: "bool \<Rightarrow> bool \<Rightarrow> Direction" where
  "directionOf prevInRecovery curInRecovery =
     (if \<not> prevInRecovery \<and> curInRecovery then DirectionMasterToReplica
      else DirectionReplicaToMaster)"

definition directionAllowed :: "Direction \<Rightarrow> Direction \<Rightarrow> bool" where
  "directionAllowed allowed actual \<longleftrightarrow> allowed = DirectionBoth \<or> allowed = actual"

definition firstDatabase :: "string list \<Rightarrow> string" where
  "firstDatabase dbs = (case dbs of [] \<Rightarrow> ''postgres'' | d # _ \<Rightarrow> d)"

section \<open>Invariant of the state machine\<close>

text \<open>
  No candidate: everything scoped to one is cleared. A candidate: it has a last probe above
  the threshold, at least one such probe, and no more of them than probes. A recovery is
  only timed for an incident.
\<close>

definition spike_inv :: "hostState \<Rightarrow> bool" where
  "spike_inv s \<longleftrightarrow>
     (case aboveThresholdSince s of
        None \<Rightarrow> lastAboveAt s = None \<and> spikeAbove s = 0 \<and> spikeTotal s = 0 \<and> spikePeak s = 0 \<and>
                lockPeak s = None
      | Some since \<Rightarrow> lastAboveAt s \<noteq> None \<and> 1 \<le> spikeAbove s \<and> spikeAbove s \<le> spikeTotal s \<and>
                      0 \<le> spikePeak s) \<and>
     (recoveryBelowSince s \<noteq> None \<longrightarrow> inSpike s)"

lemma new_hostState_inv: "spike_inv new_hostState"
  by (simp add: spike_inv_def new_hostState_def)

lemma resetSpike_since [simp]: "aboveThresholdSince (resetSpike s) = None"
  by (simp add: resetSpike_def)

lemma resetSpike_other [simp]:
  "inSpike (resetSpike s) = inSpike s" "recoveryBelowSince (resetSpike s) = recoveryBelowSince s"
  "spikeThreshold (resetSpike s) = spikeThreshold s" "windowSamples (resetSpike s) = windowSamples s"
  "lastInRecovery (resetSpike s) = lastInRecovery s"
  "lastBelowBaselineAt (resetSpike s) = lastBelowBaselineAt s"
  by (simp_all add: resetSpike_def)

lemma resetSpike_inv: "spike_inv s \<Longrightarrow> spike_inv (resetSpike s)"
  by (simp add: spike_inv_def resetSpike_def)

lemma age_out_inv: "spike_inv s \<Longrightarrow> spike_inv (age_out now d s)"
  by (simp add: age_out_def resetSpike_inv split: option.split)

lemma advanceSpike_inv:
  assumes "spike_inv s" and "advanceSpike now cnt th d s = (st, s')"
  shows "spike_inv s'"
proof -
  let ?s = "age_out now d s"
  have i: "spike_inv ?s" by (rule age_out_inv [OF assms(1)])
  show ?thesis
    using assms(2) i resetSpike_inv [OF i]
    by (cases "aboveThresholdSince ?s")
      (auto simp: advanceSpike_def Let_def spike_inv_def dip_too_long_def split: if_splits)
qed

lemma advanceSpike_forming:
  assumes "spike_inv s" and "advanceSpike now cnt th d s = (spikeForming, s')"
  shows "\<exists>since. aboveThresholdSince s' = Some since \<and> aboveThresholdSince s = Some since \<and>
           time_sub now since \<le> wrap64 (staleCandidateFactor * d)"
proof -
  let ?s = "age_out now d s"
  have "aboveThresholdSince ?s = aboveThresholdSince s'" "aboveThresholdSince ?s \<noteq> None"
    using assms(2) by (auto simp: advanceSpike_def Let_def dip_too_long_def split: if_splits option.splits)
  then show ?thesis
    by (auto simp: age_out_def split: option.splits if_splits)
qed

lemma advanceSpike_started:
  assumes "advanceSpike now cnt th d s = (spikeStarted, s')"
  shows "aboveThresholdSince s' = Some now"
  using assms by (auto simp: advanceSpike_def Let_def split: if_splits)

lemma advanceSpike_aborted:
  assumes "advanceSpike now cnt th d s = (spikeAborted, s')"
  shows "aboveThresholdSince s' = None"
  using assms by (auto simp: advanceSpike_def Let_def split: if_splits)

lemma advanceSpike_frame:
  assumes "advanceSpike now cnt th d s = (st, s')"
  shows "inSpike s' = inSpike s" "recoveryBelowSince s' = recoveryBelowSince s"
    "spikeThreshold s' = spikeThreshold s" "windowSamples s' = windowSamples s"
    "lastInRecovery s' = lastInRecovery s" "lastBelowBaselineAt s' = lastBelowBaselineAt s"
  using assms
  by (auto simp: advanceSpike_def age_out_def Let_def split: if_splits option.splits)

section \<open>The sample window\<close>

lemma trimSamples_keeps: "s \<in> set (trimSamples xs c) \<Longrightarrow> s \<in> set xs"
  by (auto simp: trimSamples_def dest: set_dropWhileD)

lemma trimSamples_recent:
  assumes "sorted (map sample_at xs)" and "s \<in> set (trimSamples xs c)"
  shows "c \<le> sample_at s"
  using assms
  by (induction xs) (auto simp: trimSamples_def before_def split: if_splits)

lemma trimSamples_drops_only_old: "s \<in> set xs \<Longrightarrow> c \<le> sample_at s \<Longrightarrow> s \<in> set (trimSamples xs c)"
  by (induction xs) (auto simp: trimSamples_def before_def)

end
