(* ===== verification/Cluster_Registry.thy ===== *)
theory Cluster_Registry
  imports Prelude "HOL-Library.AList"
begin

text \<open>
  The registry of monitored clusters (\<^verbatim>\<open>ClustersFromConfig\<close> in
  \<^verbatim>\<open>backend/internal/config/config.go\<close>): static clusters from the configuration and,
  per discovery source, the clusters that source published. The Go map of sources is an
  association list with distinct keys; its iteration order is irrelevant because
  \<^verbatim>\<open>Get\<close> sorts the keys and \<^verbatim>\<open>UpdateSource\<close> only collects names.
\<close>

record HostMeta =
  Address :: string
  meta_Port :: string
  Alias :: string

record Cluster =
  cl_Name :: string
  cl_UserName :: string
  cl_Password :: string
  PasswordFromEnv :: string
  cl_Port :: string
  Databases :: "string list"
  Hosts :: "string list"
  HostMetas :: "(string \<times> HostMeta) list"
  Source :: string
  ProviderID :: string
  Labels :: "(string \<times> string) list"
  LogSource :: string

record ClustersFromConfig =
  static :: "Cluster list"
  discovered :: "(string \<times> Cluster list) list"

definition tag_static :: "Cluster \<Rightarrow> Cluster" where
  "tag_static c = (if Source c = '''' then c\<lparr>Source := ''static''\<rparr> else c)"

definition NewClustersFromConfig :: "Cluster list \<Rightarrow> ClustersFromConfig" where
  "NewClustersFromConfig cls = \<lparr>static = map tag_static cls, discovered = []\<rparr>"

definition Get :: "ClustersFromConfig \<Rightarrow> Cluster list" where
  "Get c = static c @ concat (map snd (sort_key fst (discovered c)))"

definition taken_names :: "string \<Rightarrow> ClustersFromConfig \<Rightarrow> string list" where
  "taken_names source c =
     map cl_Name (static c) @
     concat (map (\<lambda>(key, cls). if key = source then [] else map cl_Name cls) (discovered c))"

fun accept :: "string list \<Rightarrow> Cluster list \<Rightarrow> Cluster list \<times> string list" where
  "accept taken [] = ([], [])"
| "accept taken (cl # cls) =
     (if cl_Name cl \<in> set taken
      then (let (acc, rej) = accept taken cls in (acc, cl_Name cl # rej))
      else (let (acc, rej) = accept (cl_Name cl # taken) cls in (cl # acc, rej)))"

definition UpdateSource ::
  "string \<Rightarrow> Cluster list \<Rightarrow> ClustersFromConfig \<Rightarrow> ClustersFromConfig \<times> string list" where
  "UpdateSource source disc c =
     (let (accepted, rejected) = accept (taken_names source c) disc
      in (c\<lparr>discovered := AList.update source accepted (discovered c)\<rparr>, rejected))"

section \<open>Interface\<close>

text \<open>
  What the rest of the program relies on: the published clusters have distinct names, and an
  update changes only the clusters of its own source.
\<close>

locale cluster_source =
  fixes get :: "'s \<Rightarrow> Cluster list"
    and update :: "string \<Rightarrow> Cluster list \<Rightarrow> 's \<Rightarrow> 's"
    and inv :: "'s \<Rightarrow> bool"
  assumes names_distinct: "inv s \<Longrightarrow> distinct (map cl_Name (get s))"
    and update_inv: "inv s \<Longrightarrow> inv (update src cls s)"
begin

text \<open>The index by name that consumers build keeps every cluster, and lookups are exact.\<close>

lemma by_name:
  assumes "inv s"
  shows "map_of (map (\<lambda>c. (cl_Name c, c)) (get s)) n = Some c \<longleftrightarrow> c \<in> set (get s) \<and> cl_Name c = n"
proof -
  have "distinct (map fst (map (\<lambda>c. (cl_Name c, c)) (get s)))"
    using names_distinct [OF assms] by (simp add: comp_def)
  then show ?thesis using map_of_eq_Some_iff by fastforce
qed

text \<open>A map filled in list order, where a later entry would overwrite an earlier one.\<close>

lemma by_name_last_wins:
  assumes "inv s"
  shows "map_of (rev (map (\<lambda>c. (cl_Name c, c)) (get s))) n =
         map_of (map (\<lambda>c. (cl_Name c, c)) (get s)) n"
proof -
  have "distinct (map fst (map (\<lambda>c. (cl_Name c, c)) (get s)))"
    using names_distinct [OF assms] by (simp add: comp_def)
  then have "map_of (rev (map (\<lambda>c. (cl_Name c, c)) (get s))) = map_of (map (\<lambda>c. (cl_Name c, c)) (get s))"
    by (subst map_of_inject_set) (simp_all add: rev_map [symmetric])
  then show ?thesis by simp
qed

end

section \<open>Invariant\<close>

definition registry_inv :: "ClustersFromConfig \<Rightarrow> bool" where
  "registry_inv c \<longleftrightarrow>
     distinct (map fst (discovered c)) \<and>
     distinct (map cl_Name (static c @ concat (map snd (discovered c))))"

lemma accept_fresh: "cl_Name ` set (fst (accept taken cls)) \<inter> set taken = {}"
proof (induction taken cls rule: accept.induct)
  case (2 taken cl cls)
  then show ?case
    by (cases "cl_Name cl \<in> set taken") (auto simp: Let_def case_prod_unfold)
qed simp

lemma accept_distinct: "distinct (map cl_Name (fst (accept taken cls)))"
proof (induction taken cls rule: accept.induct)
  case (2 taken cl cls)
  then show ?case
    using accept_fresh [of "cl_Name cl # taken" cls] by (auto simp: Let_def split: prod.splits)
qed simp

lemma accept_subset: "set (fst (accept taken cls)) \<subseteq> set cls"
  by (induction taken cls rule: accept.induct) (auto simp: Let_def split: prod.splits)

lemma accept_partition:
  "mset (map cl_Name (fst (accept taken cls))) + mset (snd (accept taken cls)) = mset (map cl_Name cls)"
  by (induction taken cls rule: accept.induct) (auto simp: Let_def split: prod.splits)

text \<open>An update replaces the entry of one key: as a multiset, the new value and the rest.\<close>

definition others :: "string \<Rightarrow> (string \<times> Cluster list) list \<Rightarrow> Cluster list" where
  "others k al = concat (map snd (filter (\<lambda>(key, _). key \<noteq> k) al))"

lemma taken_names_others: "taken_names k c = map cl_Name (static c @ others k (discovered c))"
proof -
  have "concat (map (\<lambda>(key, cls). if key = k then [] else map cl_Name cls) al) =
        map cl_Name (others k al)" for al
    by (induction al) (auto simp: others_def)
  then show ?thesis by (simp add: taken_names_def)
qed

lemma update_mset:
  "distinct (map fst al) \<Longrightarrow>
   mset (concat (map snd (AList.update k v al))) = mset (v @ others k al)"
proof (induction al)
  case (Cons a al)
  have "others k al = concat (map snd al)" if "k \<notin> fst ` set al"
    using that by (induction al) (auto simp: others_def)
  with Cons show ?case by (cases a) (auto simp: others_def)
qed (simp add: others_def)

lemma others_distinct:
  "distinct (map cl_Name (st @ concat (map snd al))) \<Longrightarrow> distinct (map cl_Name (st @ others k al))"
proof (induction al arbitrary: st)
  case (Cons a al)
  have d: "distinct (map cl_Name ((st @ snd a) @ others k al))"
    using Cons.prems by (intro Cons.IH) simp
  have "distinct (xs @ zs)" if "distinct ((xs @ ys) @ zs)" for xs ys zs :: "string list"
    using that by auto
  with d have "distinct (map cl_Name (st @ others k al))" by (simp only: map_append)
  moreover have "others k (a # al) = (if fst a = k then [] else snd a) @ others k al"
    by (cases a) (simp add: others_def)
  ultimately show ?case using d by (simp only: append_assoc split: if_split) simp
qed (simp add: others_def)

lemma UpdateSource_inv:
  assumes "registry_inv c"
  shows "registry_inv (fst (UpdateSource src cls c))"
proof -
  let ?acc = "fst (accept (taken_names src c) cls)"
  let ?d = "AList.update src ?acc (discovered c)"
  have keys: "distinct (map fst (discovered c))" using assms by (simp add: registry_inv_def)
  have "mset (map cl_Name (static c @ concat (map snd ?d))) =
        mset (map cl_Name (static c @ others src (discovered c)) @ map cl_Name ?acc)"
    using update_mset [OF keys, of src ?acc] by simp
  moreover have "distinct (map cl_Name (static c @ others src (discovered c)) @ map cl_Name ?acc)"
  proof -
    have "distinct (map cl_Name (static c @ others src (discovered c)))"
      using assms by (intro others_distinct) (simp add: registry_inv_def)
    moreover have "set (map cl_Name (static c @ others src (discovered c))) \<inter> set (map cl_Name ?acc) = {}"
      using accept_fresh [of "taken_names src c" cls]
      unfolding taken_names_others set_map [symmetric] by (simp only: Int_commute)
    moreover have "distinct (map cl_Name ?acc)" by (rule accept_distinct)
    ultimately show ?thesis by (simp only: distinct_append)
  qed
  ultimately have "distinct (map cl_Name (static c @ concat (map snd ?d)))"
    by (metis mset_eq_imp_distinct_iff)
  moreover have "distinct (map fst ?d)" using keys by (simp add: distinct_update)
  ultimately show ?thesis
    unfolding registry_inv_def UpdateSource_def Let_def case_prod_unfold by simp
qed

lemma Get_mset: "mset (Get c) = mset (static c @ concat (map snd (discovered c)))"
proof -
  have "mset (concat (map snd xs)) = (\<Sum>a \<in># mset xs. mset (snd a))" for xs :: "(string \<times> Cluster list) list"
    by (induction xs) auto
  then show ?thesis by (simp add: Get_def)
qed

lemma Get_distinct:
  assumes "registry_inv c"
  shows "distinct (map cl_Name (Get c))"
proof -
  have "mset (map cl_Name (Get c)) = mset (map cl_Name (static c @ concat (map snd (discovered c))))"
    using Get_mset [of c] by (simp only: mset_map)
  then show ?thesis
    using assms by (metis mset_eq_imp_distinct_iff registry_inv_def)
qed

interpretation registry: cluster_source Get "\<lambda>src cls c. fst (UpdateSource src cls c)" registry_inv
  by unfold_locales (simp_all add: Get_distinct UpdateSource_inv)

definition registry_step :: "string \<times> Cluster list \<Rightarrow> ClustersFromConfig \<Rightarrow> ClustersFromConfig" where
  "registry_step = (\<lambda>(src, cls) c. fst (UpdateSource src cls c))"

interpretation registry_runs: transition_system registry_step registry_inv "\<lambda>_. True"
  by unfold_locales (auto simp: registry_step_def UpdateSource_inv)

lemma UpdateSource_static [simp]: "static (fst (UpdateSource src cls c)) = static c"
  by (simp add: UpdateSource_def split: prod.split)

lemma UpdateSource_lookup:
  "map_of (discovered (fst (UpdateSource src cls c))) k =
     (if k = src then Some (fst (accept (taken_names src c) cls)) else map_of (discovered c) k)"
  by (simp add: UpdateSource_def update_conv' split: prod.split)

lemma accept_rejected:
  "n \<in> set (snd (accept taken cls)) \<Longrightarrow> n \<in> set taken \<or> n \<in> cl_Name ` set (fst (accept taken cls))"
  by (induction taken cls rule: accept.induct) (auto simp: Let_def split: prod.splits if_splits)

section \<open>Properties\<close>

text \<open>
  C10: starting from static clusters with distinct names, after any sequence of updates by any
  discovery sources the published list has no two clusters of the same name, and every
  name resolves to exactly one cluster.
\<close>

theorem published_names_distinct:
  assumes "distinct (map cl_Name cls)"
  shows "distinct (map cl_Name (Get (fold registry_step updates (NewClustersFromConfig cls))))"
proof -
  have "map cl_Name (map tag_static cls) = map cl_Name cls" by (simp add: tag_static_def)
  then have "registry_inv (NewClustersFromConfig cls)"
    using assms by (simp add: registry_inv_def NewClustersFromConfig_def del: map_map)
  then have "registry_inv (fold registry_step updates (NewClustersFromConfig cls))"
    by (rule registry_runs.run_inv) (simp add: list_all_iff)
  then show ?thesis by (rule registry.names_distinct)
qed

text \<open>
  An update of one source keeps the static clusters and every other source, publishes for
  its own source only clusters it was given, and each name it was given is either published
  or returned as rejected, where a rejected name is held by another owner or by an earlier
  cluster of the same update.
\<close>

theorem update_touches_own_source_only:
  fixes src cls c
  defines "c' \<equiv> fst (UpdateSource src cls c)" and "rejected \<equiv> snd (UpdateSource src cls c)"
  shows "static c' = static c \<and>
         (\<forall>k. k \<noteq> src \<longrightarrow> map_of (discovered c') k = map_of (discovered c) k) \<and>
         (\<exists>acc. map_of (discovered c') src = Some acc \<and> set acc \<subseteq> set cls \<and>
            mset (map cl_Name acc) + mset rejected = mset (map cl_Name cls) \<and>
            set rejected \<subseteq> set (taken_names src c) \<union> cl_Name ` set acc)"
proof -
  let ?a = "accept (taken_names src c) cls"
  have rej: "rejected = snd ?a" by (simp add: rejected_def UpdateSource_def split: prod.split)
  have "map_of (discovered c') src = Some (fst ?a)" by (simp add: c'_def UpdateSource_lookup)
  then show ?thesis
    using accept_subset [of "taken_names src c" cls] accept_partition [of "taken_names src c" cls]
      accept_rejected [of _ "taken_names src c" cls]
    by (auto simp: c'_def UpdateSource_lookup rej)
qed

definition demo_cluster :: "string \<Rightarrow> Cluster" where
  "demo_cluster n =
     \<lparr>cl_Name = n, cl_UserName = ''u'', cl_Password = '' '', PasswordFromEnv = '' '', cl_Port = ''5432'',
      Databases = [''app''], Hosts = [''h''],
      HostMetas = [], Source = ''yc'', ProviderID = ''1'', Labels = [], LogSource = ''x''\<rparr>"

theorem published_names_witness:
  "distinct (map cl_Name (Get (fold registry_step
      [(''yc'', [demo_cluster ''a'', demo_cluster ''b'']), (''k8s'', [demo_cluster ''b''])]
      (NewClustersFromConfig [demo_cluster ''a'']))))"
  by (rule published_names_distinct) (simp add: demo_cluster_def)

theorem update_touches_witness:
  "map_of (discovered (fst (UpdateSource ''yc'' [demo_cluster ''b'']
      (NewClustersFromConfig [demo_cluster ''a''])))) ''k8s'' =
   map_of (discovered (NewClustersFromConfig [demo_cluster ''a''])) ''k8s''"
  using update_touches_own_source_only [of "''yc''" "[demo_cluster ''b'']"
      "NewClustersFromConfig [demo_cluster ''a'']"] by simp

end
