(* ===== verification/Autosnapshot_Daemon.thy ===== *)
theory Autosnapshot_Daemon
  imports Autosnapshot_Spike Cluster_Registry
begin

text \<open>
  The triggers of the auto-snapshot daemon
  (\<^verbatim>\<open>backend/internal/autosnapshot/triggers.go\<close> and the sweep in
  \<^verbatim>\<open>daemon.go\<close>).

  The daemon is a record of its fields plus \<open>effects\<close>, the calls it made to the store
  and the repository that change something, in order. What the repository, the store and the
  clock answer during one call is an environment record; a failing call answers \<open>Inl\<close>
  with the error text. Rows of a report pass through the daemon unread and are opaque
  numbers; logging is left out. A nil dereference is a \<open>Panic\<close> that carries the state
  reached so far, because the sweep recovers panics and keeps that state.
\<close>

datatype TriggerType = TriggerActivitySpike | TriggerRoleChange | TriggerActivityDrop | TriggerDeferred

datatype Outcome =
    OutcomeSnapshotCreated | OutcomeSkippedDebounce | OutcomeSkippedStorage
  | OutcomeSkippedBelowBaseline | OutcomeSkippedWrongDirection | OutcomeError

datatype ctxval = CStr string | CFloat f64 | CInt i64 | CDur duration

type_synonym trigger_context = "(string \<times> ctxval) list"
type_synonym QueryReport = nat
type_synonym hostKey = "string \<times> string"

record TriggerEvent =
  ev_ClusterName :: string
  ev_Instance :: string
  ev_Database :: "string option"
  ev_TriggerType :: TriggerType
  ev_Outcome :: Outcome
  ev_SnapshotID :: "string option"
  ev_TriggerContext :: trigger_context
  ev_ErrorMessage :: "string option"

record PendingSnapshot =
  pend_ClusterName :: string
  pend_Instance :: string
  pend_Database :: string
  pend_Reason :: string

record SnapshotOpts =
  PgssStatsReset :: "time option"
  StatsSource :: string
  Reason :: string
  opts_TriggerContext :: trigger_context
  LocksData :: "LockCapture option"

datatype effect =
    InsertTriggerEvent TriggerEvent
  | CreateSnapshot string string string "QueryReport list" SnapshotOpts
  | ResetQueryStats string string string
  | EnqueuePendingSnapshot PendingSnapshot time
  | DeletePendingSnapshot string string
  | ClaimDuePendingSnapshots
  | DropDayPartitions time
  | DropHotPartitionsBefore time
  | DropIOPartitionsBefore time
  | TruncateInsightsScans
  | InsertIOSnapshot string string nat

record Daemon =
  hosts :: "hostKey \<rightharpoonup> hostState"
  lastAuto :: "hostKey \<rightharpoonup> time"
  lastHotAttempt :: "string \<rightharpoonup> time"
  lastIOAttempt :: "string \<rightharpoonup> time"
  lastRetry :: "time option"
  lastHotRetention :: "time option"
  lastIORetention :: "time option"
  lastInsightsRetention :: "time option"
  effects :: "effect list"

definition NewDaemon :: Daemon where
  "NewDaemon =
     \<lparr>hosts = Map.empty, lastAuto = Map.empty, lastHotAttempt = Map.empty,
      lastIOAttempt = Map.empty, lastRetry = None, lastHotRetention = None,
      lastIORetention = None, lastInsightsRetention = None, effects = []\<rparr>"

definition emit :: "effect \<Rightarrow> Daemon \<Rightarrow> Daemon" where
  "emit e d = d\<lparr>effects := effects d @ [e]\<rparr>"

definition insertEvent :: "TriggerEvent \<Rightarrow> Daemon \<Rightarrow> Daemon" where
  "insertEvent e d = emit (InsertTriggerEvent e) d"

definition debounced :: "hostKey \<Rightarrow> duration \<Rightarrow> time \<Rightarrow> Daemon \<Rightarrow> bool" where
  "debounced key maxFreq now d =
     (case lastAuto d key of None \<Rightarrow> False | Some prev \<Rightarrow> time_sub now prev < maxFreq)"

section \<open>Taking one snapshot\<close>

record snap_env =
  queries_report :: "string + QueryReport list"
  pgss_database :: "string + string"
  pgss_reset :: "string + time option"
  pgss_source :: "string \<times> string option"
  lock_probes :: lock_env
  create_snapshot :: "string + string \<times> time"

definition trigger_event ::
  "string \<Rightarrow> string \<Rightarrow> string \<Rightarrow> TriggerType \<Rightarrow> Outcome \<Rightarrow> string option \<Rightarrow> trigger_context \<Rightarrow>
   string option \<Rightarrow> TriggerEvent" where
  "trigger_event cl inst db tt oc sid ctx err =
     \<lparr>ev_ClusterName = cl, ev_Instance = inst, ev_Database = Some db, ev_TriggerType = tt,
      ev_Outcome = oc, ev_SnapshotID = sid, ev_TriggerContext = ctx, ev_ErrorMessage = err\<rparr>"

definition errEmptyReport :: string where "errEmptyReport = ''autosnapshot: empty report''"

definition capture_for ::
  "(QueryBlocked list \<Rightarrow> QueryBlocked list) \<Rightarrow> snap_env \<Rightarrow> AutoConfig \<Rightarrow> TriggerType \<Rightarrow>
   BackgroundPeak option \<Rightarrow> LockCapture option" where
  "capture_for sortfn e cfg trigType bgPeak =
     (if CaptureLocksEnabled cfg \<and> trigType = TriggerActivitySpike
      then Some ((CaptureLocks sortfn (lock_probes e) (LockProbeCount cfg) (LockProbeInterval cfg))
                   \<lparr>capture_BackgroundPeak := bgPeak\<rparr>)
      else None)"

definition takeSnapshot ::
  "(QueryBlocked list \<Rightarrow> QueryBlocked list) \<Rightarrow> snap_env \<Rightarrow> AutoConfig \<Rightarrow> string \<Rightarrow> string \<Rightarrow> string \<Rightarrow>
   TriggerType \<Rightarrow> string \<Rightarrow> trigger_context \<Rightarrow> BackgroundPeak option \<Rightarrow> Daemon \<Rightarrow>
   string option \<times> Daemon" where
  "takeSnapshot sortfn e cfg cl inst database trigType reason trigCtx bgPeak d =
     (let fail = (\<lambda>db msg err d.
            (Some err, insertEvent (trigger_event cl inst db trigType OutcomeError None trigCtx (Some msg)) d))
      in case queries_report e of
           Inl err \<Rightarrow> fail database (''get report: '' @ err) err d
         | Inr reports \<Rightarrow>
             if reports = []
             then fail database
                    ''empty report: no query-statistics extension is readable in any database of the host''
                    errEmptyReport d
             else
               (case pgss_database e of
                  Inl err \<Rightarrow> fail database (''pgss database: '' @ err) err d
                | Inr provenance \<Rightarrow>
                    (let pgssReset = (case pgss_reset e of Inl _ \<Rightarrow> None | Inr t \<Rightarrow> t);
                         statsSource = fst (pgss_source e);
                         locks = capture_for sortfn e cfg trigType bgPeak;
                         opts = \<lparr>PgssStatsReset = pgssReset, StatsSource = statsSource,
                                 Reason = reason, opts_TriggerContext = trigCtx, LocksData = locks\<rparr>;
                         d = emit (CreateSnapshot cl inst provenance reports opts) d
                     in case create_snapshot e of
                          Inl err \<Rightarrow> fail provenance (''create snapshot: '' @ err) err d
                        | Inr (sid, createdAt) \<Rightarrow>
                            (let d = d\<lparr>lastAuto := (lastAuto d)((cl, inst) \<mapsto> createdAt)\<rparr>;
                                 d = (if ResetQueryStatsEnabled cfg
                                      then emit (ResetQueryStats cl inst provenance) d else d)
                             in (None, insertEvent (trigger_event cl inst provenance trigType
                                         OutcomeSnapshotCreated (Some sid) trigCtx None) d)))))"

section \<open>Activity spikes\<close>

datatype 'a outcome = Done 'a | Panic 'a

record spike_env =
  active_count :: "string + i64"
  spike_now :: time
  blocked_count :: "string + i64"
  debounce_now :: time
  spike_snap :: snap_env

definition handleRecovery ::
  "(QueryBlocked list \<Rightarrow> QueryBlocked list) \<Rightarrow> snap_env \<Rightarrow> AutoConfig \<Rightarrow> ActivitySpikeTrigger \<Rightarrow>
   string \<Rightarrow> string \<Rightarrow> string \<Rightarrow> time \<Rightarrow> i64 \<Rightarrow> hostState \<times> Daemon \<Rightarrow> hostState \<times> Daemon" where
  "handleRecovery sortfn e cfg t cl inst database now cnt = (\<lambda>(st, d).
     (if RecoveryDuration t \<le> 0 then (st\<lparr>inSpike := False, recoveryBelowSince := None\<rparr>, d)
      else if \<not> inSpike st then (st\<lparr>recoveryBelowSince := None\<rparr>, d)
      else if spikeThreshold st \<le> of_i64 cnt then (st\<lparr>recoveryBelowSince := None\<rparr>, d)
      else (case recoveryBelowSince st of
              None \<Rightarrow> (st\<lparr>recoveryBelowSince := Some now\<rparr>, d)
            | Some since \<Rightarrow>
                if time_sub now since < RecoveryDuration t then (st, d)
                else
                  (let trigCtx = [(''trigger'', CStr ''activity_drop''), (''host'', CStr inst)];
                       (err, d) = takeSnapshot sortfn e cfg cl inst database TriggerActivityDrop
                                    ''auto:activity_drop'' trigCtx None d
                   in case err of
                        Some _ \<Rightarrow> (st\<lparr>recoveryBelowSince := None\<rparr>, d)
                      | None \<Rightarrow> (st\<lparr>inSpike := False, recoveryBelowSince := None\<rparr>,
                                 emit (DeletePendingSnapshot cl inst) d)))))"

definition sample_locks :: "spike_env \<Rightarrow> AutoConfig \<Rightarrow> hostState \<Rightarrow> hostState" where
  "sample_locks e cfg st =
     (if CaptureLocksEnabled cfg
      then (case blocked_count e of
              Inl _ \<Rightarrow> st
            | Inr n \<Rightarrow>
                if 0 < n \<and> (case lockPeak st of None \<Rightarrow> True | Some p \<Rightarrow> peak_BlockedCount p < n)
                then st\<lparr>lockPeak := Some \<lparr>peak_BlockedCount = n, peak_At = spike_now e\<rparr>\<rparr>
                else st)
      else st)"

definition spike_context ::
  "f64 \<Rightarrow> ActivitySpikeTrigger \<Rightarrow> string \<Rightarrow> time \<Rightarrow> time \<Rightarrow> hostState \<Rightarrow> trigger_context" where
  "spike_context baseline t inst now since st =
     [(''trigger'', CStr ''activity_spike''), (''baseline'', CFloat baseline),
      (''peak_value'', CInt (spikePeak st)), (''threshold_pct'', CInt (ActiveThresholdPct t)),
      (''window_size'', CDur (WindowSize t)), (''duration'', CDur (time_sub now since)),
      (''coverage'', CFloat (round_to 100 (spikeCoverage st))), (''host'', CStr inst)]"

text \<open>The fire of a spike: the snapshot, and on success the incident and its follow-up.\<close>

definition fire_spike ::
  "(QueryBlocked list \<Rightarrow> QueryBlocked list) \<Rightarrow> spike_env \<Rightarrow> AutoConfig \<Rightarrow> ActivitySpikeTrigger \<Rightarrow>
   string \<Rightarrow> string \<Rightarrow> string \<Rightarrow> f64 \<Rightarrow> time \<Rightarrow> hostState \<times> Daemon \<Rightarrow> hostState \<times> Daemon" where
  "fire_spike sortfn e cfg t cl inst database baseline since = (\<lambda>(st, d).
     (let now = spike_now e;
          (err, d) = takeSnapshot sortfn (spike_snap e) cfg cl inst database TriggerActivitySpike
                       ''auto:activity_spike'' (spike_context baseline t inst now since st)
                       (lockPeak st) d;
          st = resetSpike st
      in case err of
           Some _ \<Rightarrow> (st, d)
         | None \<Rightarrow>
             (st\<lparr>inSpike := True, recoveryBelowSince := None\<rparr>,
              if 0 < DeferredInterval t
              then emit (EnqueuePendingSnapshot
                     \<lparr>pend_ClusterName = cl, pend_Instance = inst, pend_Database = database,
                      pend_Reason = ''auto:deferred''\<rparr> (time_add now (DeferredInterval t))) d
              else d)))"

definition forming_spike ::
  "(QueryBlocked list \<Rightarrow> QueryBlocked list) \<Rightarrow> spike_env \<Rightarrow> AutoConfig \<Rightarrow> ActivitySpikeTrigger \<Rightarrow>
   string \<Rightarrow> string \<Rightarrow> string \<Rightarrow> f64 \<Rightarrow> hostState \<times> Daemon \<Rightarrow> (hostState \<times> Daemon) outcome" where
  "forming_spike sortfn e cfg t cl inst database baseline = (\<lambda>(st, d).
     (let now = spike_now e;
          st = st\<lparr>recoveryBelowSince := None\<rparr>;
          st = sample_locks e cfg st
      in case aboveThresholdSince st of
           None \<Rightarrow> Panic (st, d)
         | Some since \<Rightarrow>
             if time_sub now since < SpikeDuration t then Done (st, d)
             else if spikeCoverage st < minSpikeCoverage then Done (st, d)
             else if debounced (cl, inst) (MaxSnapshotFrequency cfg) (debounce_now e) d then Done (st, d)
             else Done (fire_spike sortfn e cfg t cl inst database baseline since (st, d))))"

definition spike_threshold :: "f64 \<Rightarrow> ActivitySpikeTrigger \<Rightarrow> f64" where
  "spike_threshold baseline t = baseline * of_i64 (wrap64 (100 + ActiveThresholdPct t)) / lit 100"

definition push_sample :: "spike_env \<Rightarrow> ActivitySpikeTrigger \<Rightarrow> i64 \<Rightarrow> hostState \<Rightarrow> hostState" where
  "push_sample e t cnt st =
     st\<lparr>windowSamples :=
          trimSamples (windowSamples st @ [\<lparr>sample_at = spike_now e, sample_count = cnt\<rparr>])
            (time_add (spike_now e) (wrap64 (- WindowSize t)))\<rparr>"

definition below_floor ::
  "(QueryBlocked list \<Rightarrow> QueryBlocked list) \<Rightarrow> spike_env \<Rightarrow> AutoConfig \<Rightarrow> ActivitySpikeTrigger \<Rightarrow>
   string \<Rightarrow> string \<Rightarrow> string \<Rightarrow> i64 \<Rightarrow> hostState \<times> Daemon \<Rightarrow> hostState \<times> Daemon" where
  "below_floor sortfn e cfg t cl inst database cnt = (\<lambda>(st, d).
     (let now = spike_now e;
          (st, d) = handleRecovery sortfn (spike_snap e) cfg t cl inst database now cnt (resetSpike st, d)
      in if MinBaselineActive cfg \<le> cnt \<and> belowBaselineDue st now (MaxSnapshotFrequency cfg)
         then (st\<lparr>lastBelowBaselineAt := Some now\<rparr>, d)
         else (st, d)))"

definition tickActivitySpike ::
  "(QueryBlocked list \<Rightarrow> QueryBlocked list) \<Rightarrow> spike_env \<Rightarrow> AutoConfig \<Rightarrow> ActivitySpikeTrigger \<Rightarrow>
   string \<Rightarrow> string \<Rightarrow> string \<Rightarrow> hostState \<times> Daemon \<Rightarrow> (hostState \<times> Daemon) outcome" where
  "tickActivitySpike sortfn e cfg t cl inst database = (\<lambda>(st, d).
     (if \<not> spike_Enabled t then Done (st, d)
      else (case active_count e of
              Inl _ \<Rightarrow> Done (st, d)
            | Inr cnt \<Rightarrow>
                (let now = spike_now e; st = push_sample e t cnt st
                 in if length (windowSamples st) < 2 then Done (st, d)
                    else
                      (let baseline = averageExcludingLast (windowSamples st);
                           threshold = spike_threshold baseline t
                       in if baseline < of_i64 (MinBaselineActive cfg)
                          then Done (below_floor sortfn e cfg t cl inst database cnt (st, d))
                          else
                            (case advanceSpike now cnt threshold (SpikeDuration t) st of
                               (spikeAborted, st) \<Rightarrow>
                                 Done (handleRecovery sortfn (spike_snap e) cfg t cl inst database now cnt (st, d))
                             | (spikeStarted, st) \<Rightarrow>
                                 (let st = st\<lparr>recoveryBelowSince := None\<rparr>
                                  in Done (if \<not> inSpike st then st\<lparr>spikeThreshold := threshold\<rparr> else st, d))
                             | (spikeForming, st) \<Rightarrow>
                                 forming_spike sortfn e cfg t cl inst database baseline (st, d)))))))"

section \<open>Role changes\<close>

record role_env =
  instance_info :: "string + bool"
  role_debounce_now :: time
  role_snap :: snap_env

definition tickRoleChange ::
  "(QueryBlocked list \<Rightarrow> QueryBlocked list) \<Rightarrow> role_env \<Rightarrow> AutoConfig \<Rightarrow> RoleChangeTrigger \<Rightarrow>
   string \<Rightarrow> string \<Rightarrow> string \<Rightarrow> hostState \<times> Daemon \<Rightarrow> hostState \<times> Daemon" where
  "tickRoleChange sortfn e cfg t cl inst database = (\<lambda>(st, d).
     (if \<not> role_Enabled t then (st, d)
      else (case instance_info e of
              Inl _ \<Rightarrow> (st, d)
            | Inr current \<Rightarrow>
                (case lastInRecovery st of
                   None \<Rightarrow> (st\<lparr>lastInRecovery := Some current\<rparr>, d)
                 | Some prev \<Rightarrow>
                     if prev = current then (st, d)
                     else
                       (let (from_role, to_role) = roleLabels prev current;
                            direction = directionOf prev current;
                            st = st\<lparr>lastInRecovery := Some current\<rparr>
                        in if \<not> directionAllowed (role_Direction t) direction then (st, d)
                           else if debounced (cl, inst) (MaxSnapshotFrequency cfg) (role_debounce_now e) d
                           then (st, d)
                           else
                             (st, snd (takeSnapshot sortfn (role_snap e) cfg cl inst database
                                TriggerRoleChange ''auto:role_change''
                                [(''trigger'', CStr ''role_change''), (''host'', CStr inst),
                                 (''from_role'', CStr from_role), (''to_role'', CStr to_role)]
                                None d)))))))"

section \<open>The sweep over clusters and hosts\<close>

record host_env =
  he_spike :: spike_env
  he_role :: role_env

definition process_host ::
  "(QueryBlocked list \<Rightarrow> QueryBlocked list) \<Rightarrow> (hostKey \<Rightarrow> host_env) \<Rightarrow> AutoConfig \<Rightarrow> TriggerDefaults \<Rightarrow>
   Cluster \<Rightarrow> string \<Rightarrow> Daemon \<Rightarrow> Daemon outcome" where
  "process_host sortfn env cfg eff cl inst d =
     (let key = (cl_Name cl, inst);
          firstDB = firstDatabase (Databases cl);
          st = (case hosts d key of None \<Rightarrow> new_hostState | Some st \<Rightarrow> st)
      in case tickActivitySpike sortfn (he_spike (env key)) cfg (ActivitySpike eff) (cl_Name cl) inst firstDB (st, d) of
           Panic (st, d) \<Rightarrow> Panic (d\<lparr>hosts := (hosts d)(key \<mapsto> st)\<rparr>)
         | Done (st, d) \<Rightarrow>
             (let (st, d) = tickRoleChange sortfn (he_role (env key)) cfg (RoleChange eff) (cl_Name cl) inst firstDB (st, d)
              in Done (d\<lparr>hosts := (hosts d)(key \<mapsto> st)\<rparr>)))"

fun process_hosts ::
  "(QueryBlocked list \<Rightarrow> QueryBlocked list) \<Rightarrow> (hostKey \<Rightarrow> host_env) \<Rightarrow> AutoConfig \<Rightarrow> TriggerDefaults \<Rightarrow>
   Cluster \<Rightarrow> string list \<Rightarrow> Daemon \<Rightarrow> Daemon outcome" where
  "process_hosts sortfn env cfg eff cl [] d = Done d"
| "process_hosts sortfn env cfg eff cl (h # hs) d =
     (case process_host sortfn env cfg eff cl h d of
        Panic d \<Rightarrow> Panic d
      | Done d \<Rightarrow> process_hosts sortfn env cfg eff cl hs d)"

definition processCluster ::
  "(QueryBlocked list \<Rightarrow> QueryBlocked list) \<Rightarrow> (hostKey \<Rightarrow> host_env) \<Rightarrow> AutoConfig \<Rightarrow> TriggerDefaults \<Rightarrow>
   Cluster \<Rightarrow> Daemon \<Rightarrow> Daemon outcome" where
  "processCluster sortfn env cfg eff cl d = process_hosts sortfn env cfg eff cl (Hosts cl) d"

definition processClusterSafe ::
  "(QueryBlocked list \<Rightarrow> QueryBlocked list) \<Rightarrow> (hostKey \<Rightarrow> host_env) \<Rightarrow> AutoConfig \<Rightarrow> TriggerDefaults \<Rightarrow>
   Cluster \<Rightarrow> Daemon \<Rightarrow> Daemon" where
  "processClusterSafe sortfn env cfg eff cl d =
     (case processCluster sortfn env cfg eff cl d of Done d \<Rightarrow> d | Panic d \<Rightarrow> d)"

record tick_env =
  te_overrides :: "string + (string \<times> override) list"
  te_clusters :: "string + Cluster list"
  te_hosts :: "hostKey \<Rightarrow> host_env"

definition tick ::
  "(QueryBlocked list \<Rightarrow> QueryBlocked list) \<Rightarrow> (override \<Rightarrow> OverrideInput option) \<Rightarrow> tick_env \<Rightarrow>
   AutoConfig \<Rightarrow> Daemon \<Rightarrow> Daemon" where
  "tick sortfn unmarshal e cfg d =
     (let overrides = (case te_overrides e of Inl _ \<Rightarrow> [] | Inr m \<Rightarrow> m)
      in case te_clusters e of
           Inl _ \<Rightarrow> d
         | Inr cls \<Rightarrow>
             fold (\<lambda>cl d.
                let ov = (case map_of overrides (cl_Name cl) of None \<Rightarrow> [] | Some ov \<Rightarrow> ov)
                in processClusterSafe sortfn (te_hosts e) cfg (EffectiveFor unmarshal cfg ov) cl d) cls d)"

definition seedDebounce :: "string + Cluster list \<Rightarrow> (string \<rightharpoonup> time) \<Rightarrow> hostKey \<rightharpoonup> time" where
  "seedDebounce clusters perCluster =
     (case clusters of
        Inl _ \<Rightarrow> Map.empty
      | Inr cls \<Rightarrow>
          fold (\<lambda>cl m.
             case perCluster (cl_Name cl) of
               None \<Rightarrow> m
             | Some t \<Rightarrow> fold (\<lambda>h m. m((cl_Name cl, h) \<mapsto> t)) (Hosts cl) m) cls Map.empty)"

definition clusterTickBudgetPerHost :: duration where "clusterTickBudgetPerHost = 30 * second"

definition clusterTickTimeout :: "AutoConfig \<Rightarrow> i64 \<Rightarrow> duration" where
  "clusterTickTimeout cfg n =
     (let n = (if n < 1 then 1 else n);
          per = clusterTickBudgetPerHost;
          per = (if CaptureLocksEnabled cfg
                 then wrap64 (per + wrap64 (LockProbeCount cfg * LockProbeInterval cfg)) else per)
      in wrap64 (n * per))"

definition defaultPollInterval :: duration where "defaultPollInterval = 30 * second"

definition effectivePollInterval :: "duration \<Rightarrow> duration" where
  "effectivePollInterval c = (if c < 5 * second then 5 * second else c)"

section \<open>Deferred snapshots\<close>

record pending_env =
  pe_clusters :: "string + Cluster list"
  pe_claimed :: "string + PendingSnapshot list"
  pe_snap :: "PendingSnapshot \<Rightarrow> snap_env"

definition takePendingSafe ::
  "(QueryBlocked list \<Rightarrow> QueryBlocked list) \<Rightarrow> snap_env \<Rightarrow> AutoConfig \<Rightarrow> Cluster \<Rightarrow> PendingSnapshot \<Rightarrow>
   Daemon \<Rightarrow> Daemon" where
  "takePendingSafe sortfn e cfg cl p d =
     snd (takeSnapshot sortfn e cfg (cl_Name cl) (pend_Instance p) (pend_Database p) TriggerDeferred
       (pend_Reason p) [(''trigger'', CStr ''deferred''), (''host'', CStr (pend_Instance p))] None d)"

definition processPending ::
  "(QueryBlocked list \<Rightarrow> QueryBlocked list) \<Rightarrow> pending_env \<Rightarrow> AutoConfig \<Rightarrow> Daemon \<Rightarrow> Daemon" where
  "processPending sortfn e cfg d =
     (case pe_clusters e of
        Inl _ \<Rightarrow> d
      | Inr cls \<Rightarrow>
          (let byName = map_of (rev (map (\<lambda>cl. (cl_Name cl, cl)) cls));
               d = emit ClaimDuePendingSnapshots d
           in case pe_claimed e of
                Inl _ \<Rightarrow> d
              | Inr pending \<Rightarrow>
                  fold (\<lambda>p d.
                    case byName (pend_ClusterName p) of
                      None \<Rightarrow> d
                    | Some cl \<Rightarrow> takePendingSafe sortfn (pe_snap e p) cfg cl p d) pending d))"

end
