(* ===== verification/Autosnapshot_Incidents.thy ===== *)
theory Autosnapshot_Incidents
  imports Autosnapshot_Daemon
begin

text \<open>
  Correctness of the triggers: the audit trail of a snapshot, the conditions under which a
  spike, a drop and a role change are recorded, the absence of nil dereferences, and the
  balance between spike and drop snapshots over whole runs of the daemon.
\<close>

section \<open>Counting recorded snapshots\<close>

definition is_created :: "TriggerType \<Rightarrow> hostKey \<Rightarrow> effect \<Rightarrow> bool" where
  "is_created tt key x \<longleftrightarrow>
     (case x of
        InsertTriggerEvent ev \<Rightarrow>
          ev_TriggerType ev = tt \<and> ev_Outcome ev = OutcomeSnapshotCreated \<and>
          (ev_ClusterName ev, ev_Instance ev) = key
      | _ \<Rightarrow> False)"

definition created :: "TriggerType \<Rightarrow> hostKey \<Rightarrow> Daemon \<Rightarrow> nat" where
  "created tt key d = length (filter (is_created tt key) (effects d))"

lemma created_emit [simp]: "created tt key (emit x d) = created tt key d + of_bool (is_created tt key x)"
  by (simp add: created_def emit_def)

lemma created_frame [simp]:
  "created tt key (d\<lparr>lastAuto := x\<rparr>) = created tt key d"
  "created tt key (d\<lparr>hosts := h\<rparr>) = created tt key d"
  by (simp_all add: created_def)

lemma is_created_simps [simp]:
  "is_created tt key (CreateSnapshot a b c r op) = False"
  "is_created tt key (ResetQueryStats a b c) = False"
  "is_created tt key (EnqueuePendingSnapshot p t) = False"
  "is_created tt key (DeletePendingSnapshot a b) = False"
  "is_created tt key ClaimDuePendingSnapshots = False"
  "is_created tt key (DropDayPartitions x) = False"
  "is_created tt key (DropHotPartitionsBefore x) = False"
  "is_created tt key (DropIOPartitionsBefore x) = False"
  "is_created tt key TruncateInsightsScans = False"
  "is_created tt key (InsertIOSnapshot a b n) = False"
  by (simp_all add: is_created_def)

lemma emit_frame [simp]:
  "hosts (emit x d) = hosts d" "lastAuto (emit x d) = lastAuto d"
  "hosts (insertEvent ev d) = hosts d" "lastAuto (insertEvent ev d) = lastAuto d"
  by (simp_all add: emit_def insertEvent_def)

lemma created_insertEvent [simp]:
  "created tt key (insertEvent (trigger_event cl inst db tt' oc sid ctx err) d) =
     created tt key d + of_bool (tt = tt' \<and> oc = OutcomeSnapshotCreated \<and> key = (cl, inst))"
  by (auto simp: insertEvent_def is_created_def trigger_event_def)

lemma created_takeSnapshot:
  "created tt key (snd (takeSnapshot sortfn e cfg cl inst db tt' reason ctx bg d)) =
     created tt key d +
     of_bool (fst (takeSnapshot sortfn e cfg cl inst db tt' reason ctx bg d) = None \<and>
              tt = tt' \<and> key = (cl, inst))"
  by (simp add: takeSnapshot_def Let_def split: sum.split prod.split)

lemma takeSnapshot_hosts [simp]:
  "hosts (snd (takeSnapshot sortfn e cfg cl inst db tt reason ctx bg d)) = hosts d"
  by (simp add: takeSnapshot_def Let_def split: sum.split prod.split)

text \<open>The environment in which a snapshot succeeds.\<close>

definition snap_ok :: "snap_env \<Rightarrow> bool" where
  "snap_ok e \<longleftrightarrow>
     (\<exists>r rs. queries_report e = Inr (r # rs)) \<and> (\<exists>db. pgss_database e = Inr db) \<and>
     (\<exists>x. create_snapshot e = Inr x)"

lemma takeSnapshot_err_iff:
  "fst (takeSnapshot sortfn e cfg cl inst db tt reason ctx bg d) = None \<longleftrightarrow> snap_ok e"
  by (auto simp: takeSnapshot_def snap_ok_def Let_def neq_Nil_conv split: sum.split)

lemma takeSnapshot_lastAuto:
  "lastAuto (snd (takeSnapshot sortfn e cfg cl inst db tt reason ctx bg d)) =
     (if snap_ok e
      then (lastAuto d)((cl, inst) \<mapsto> snd (projr (create_snapshot e))) else lastAuto d)"
  by (auto simp: takeSnapshot_def snap_ok_def Let_def neq_Nil_conv split: sum.split)

section \<open>The audit trail of one snapshot\<close>

definition is_event :: "effect \<Rightarrow> bool" where
  "is_event x = (case x of InsertTriggerEvent _ \<Rightarrow> True | _ \<Rightarrow> False)"

definition stores :: "effect \<Rightarrow> bool" where
  "stores x = (case x of CreateSnapshot _ _ _ _ _ \<Rightarrow> True | _ \<Rightarrow> False)"

text \<open>
  Taking a snapshot always ends with exactly one trigger event for that host and trigger.
  The event says the snapshot was created, with the identifier the store returned, exactly
  when the report was readable and non-empty, its database known and the store accepted it;
  otherwise it says error. The debounce clock of the host moves to the stored creation time
  on success and is untouched on failure.
\<close>

theorem snapshot_audit:
  fixes sortfn e cfg cl inst db tt reason ctx bg d
  defines "r \<equiv> takeSnapshot sortfn e cfg cl inst db tt reason ctx bg d"
  shows "\<exists>pre ev. effects (snd r) = effects d @ pre @ [InsertTriggerEvent ev] \<and>
           \<not> list_ex is_event pre \<and>
           (ev_ClusterName ev, ev_Instance ev) = (cl, inst) \<and> ev_TriggerType ev = tt \<and>
           (if snap_ok e
            then fst r = None \<and> ev_Outcome ev = OutcomeSnapshotCreated \<and> list_ex stores pre \<and>
                 ev_SnapshotID ev = Some (fst (projr (create_snapshot e))) \<and>
                 lastAuto (snd r) = (lastAuto d)((cl, inst) \<mapsto> snd (projr (create_snapshot e)))
            else fst r \<noteq> None \<and> ev_Outcome ev = OutcomeError \<and> ev_SnapshotID ev = None \<and>
                 lastAuto (snd r) = lastAuto d)"
proof -
  note defs = r_def takeSnapshot_def Let_def insertEvent_def emit_def trigger_event_def is_event_def
    stores_def snap_ok_def
  consider (report) err where "queries_report e = Inl err"
    | (empty) "queries_report e = Inr []"
    | (pgss) x xs err where "queries_report e = Inr (x # xs)" "pgss_database e = Inl err"
    | (create) x xs db' err where "queries_report e = Inr (x # xs)" "pgss_database e = Inr db'"
        "create_snapshot e = Inl err"
    | (ok) x xs db' sid tm where "queries_report e = Inr (x # xs)" "pgss_database e = Inr db'"
        "create_snapshot e = Inr (sid, tm)"
    by (metis list.exhaust old.sum.exhaust surj_pair)
  then show ?thesis
  proof cases
    case report then show ?thesis by (intro exI [of _ "[]"]) (simp add: defs)
  next
    case empty then show ?thesis by (intro exI [of _ "[]"]) (simp add: defs)
  next
    case pgss then show ?thesis by (intro exI [of _ "[]"]) (simp add: defs)
  next
    case create then show ?thesis by (simp add: defs)
  next
    case ok
    then show ?thesis by (cases "ResetQueryStatsEnabled cfg") (simp_all add: defs)
  qed
qed

section \<open>Steps of one host\<close>

text \<open>
  The contract of a step on behalf of one host: the invariant of its state is kept, the
  states of other hosts and their recorded snapshots are untouched, and a drop is only
  recorded in exchange for an open incident.
\<close>

definition balance :: "hostKey \<Rightarrow> hostState \<times> Daemon \<Rightarrow> bool" where
  "balance key x \<longleftrightarrow>
     created TriggerActivityDrop key (snd x) + of_bool (inSpike (fst x))
       \<le> created TriggerActivitySpike key (snd x)"

definition host_ok :: "hostKey \<Rightarrow> hostState \<times> Daemon \<Rightarrow> bool" where
  "host_ok key x \<longleftrightarrow> spike_inv (fst x) \<and> balance key x"

definition isolated :: "hostKey \<Rightarrow> hostState \<times> Daemon \<Rightarrow> hostState \<times> Daemon \<Rightarrow> bool" where
  "isolated key x y \<longleftrightarrow>
     hosts (snd y) = hosts (snd x) \<and>
     (\<forall>tt k. k \<noteq> key \<longrightarrow> created tt k (snd y) = created tt k (snd x))"

lemma isolated_refl [simp]: "isolated key (st', d) (st, d)"
  by (simp add: isolated_def)

lemma isolated_trans: "isolated key x y \<Longrightarrow> isolated key y z \<Longrightarrow> isolated key x z"
  by (simp add: isolated_def)

lemma isolated_emit [simp]:
  "(\<And>tt k. \<not> is_created tt k x) \<Longrightarrow> isolated key y (st, emit x d) = isolated key y (st, d)"
  by (simp add: isolated_def)

lemma isolated_start: "isolated key (st', d) r \<Longrightarrow> isolated key (st, d) r"
  by (simp add: isolated_def)

lemma spike_inv_frame [simp]:
  "spike_inv (st\<lparr>windowSamples := w\<rparr>) = spike_inv st"
  "spike_inv (st\<lparr>lastInRecovery := b\<rparr>) = spike_inv st"
  "spike_inv (st\<lparr>lastBelowBaselineAt := x\<rparr>) = spike_inv st"
  "spike_inv (st\<lparr>spikeThreshold := y\<rparr>) = spike_inv st"
  by (simp_all add: spike_inv_def split: option.split)

lemma takeSnapshot_isolated:
  "isolated (cl, inst) (st, d) (st', snd (takeSnapshot sortfn e cfg cl inst db tt reason ctx bg d))"
  by (simp add: isolated_def created_takeSnapshot)

lemma host_ok_state:
  "host_ok key (st, d) \<Longrightarrow> spike_inv st' \<Longrightarrow> (inSpike st' \<Longrightarrow> inSpike st) \<Longrightarrow> host_ok key (st', d)"
  by (auto simp: host_ok_def balance_def of_bool_def split: if_splits)

lemma keep_fields:
  "(st :: hostState)\<lparr>inSpike := inSpike st, recoveryBelowSince := x\<rparr> = st\<lparr>recoveryBelowSince := x\<rparr>"
  "recoveryBelowSince st = y \<Longrightarrow> st\<lparr>recoveryBelowSince := y\<rparr> = (st :: hostState)"
  by (cases st; simp)+

text \<open>
  \<^verbatim>\<open>handleRecovery\<close> as a case distinction: it only touches the two recovery fields,
  and takes at most one snapshot.
\<close>

lemma handleRecovery_cases:
  fixes sortfn e cfg t cl inst db now cnt st d
  defines "r \<equiv> handleRecovery sortfn e cfg t cl inst db now cnt (st, d)"
  obtains
    (cleared) b where "r = (st\<lparr>inSpike := b, recoveryBelowSince := None\<rparr>, d)" "b \<longrightarrow> inSpike st"
  | (waiting) since where "r = (st\<lparr>recoveryBelowSince := Some since\<rparr>, d)" "inSpike st"
  | (failed) d' where "r = (st\<lparr>recoveryBelowSince := None\<rparr>, d')" "\<not> snap_ok e"
      "isolated (cl, inst) (st, d) (st, d')" "\<And>tt k. created tt k d' = created tt k d"
  | (dropped) d' where "r = (st\<lparr>inSpike := False, recoveryBelowSince := None\<rparr>, d')"
      "inSpike st" "snap_ok e" "isolated (cl, inst) (st, d) (st, d')"
      "created TriggerActivityDrop (cl, inst) d' = created TriggerActivityDrop (cl, inst) d + 1"
      "created TriggerActivitySpike (cl, inst) d' = created TriggerActivitySpike (cl, inst) d"
proof -
  let ?ts = "takeSnapshot sortfn e cfg cl inst db TriggerActivityDrop ''auto:activity_drop''
               [(''trigger'', CStr ''activity_drop''), (''host'', CStr inst)] None d"
  let ?r = "case fst ?ts of
                 Some _ \<Rightarrow> (st\<lparr>recoveryBelowSince := None\<rparr>, snd ?ts)
               | None \<Rightarrow> (st\<lparr>inSpike := False, recoveryBelowSince := None\<rparr>,
                          emit (DeletePendingSnapshot cl inst) (snd ?ts))"
  have eq: "r = (if RecoveryDuration t \<le> 0 then (st\<lparr>inSpike := False, recoveryBelowSince := None\<rparr>, d)
     else if \<not> inSpike st \<or> spikeThreshold st \<le> of_i64 cnt then (st\<lparr>recoveryBelowSince := None\<rparr>, d)
     else case recoveryBelowSince st of
            None \<Rightarrow> (st\<lparr>recoveryBelowSince := Some now\<rparr>, d)
          | Some since \<Rightarrow> if time_sub now since < RecoveryDuration t then (st, d) else ?r)"
    by (simp add: r_def handleRecovery_def Let_def case_prod_unfold split: option.split)
  have fire: thesis if "inSpike st" and r: "r = ?r"
  proof (cases "snap_ok e")
    case True
    then have "fst ?ts = None" by (simp add: takeSnapshot_err_iff)
    with r that(1) True show ?thesis
      by (intro dropped [of "emit (DeletePendingSnapshot cl inst) (snd ?ts)"])
        (simp_all add: created_takeSnapshot takeSnapshot_isolated)
  next
    case False
    then obtain x where x: "fst ?ts = Some x"
      using takeSnapshot_err_iff [of sortfn e cfg cl inst db] by blast
    with r False show ?thesis
      by (intro failed [of "snd ?ts"]) (simp_all add: created_takeSnapshot takeSnapshot_isolated)
  qed
  show ?thesis
  proof (cases "RecoveryDuration t \<le> 0 \<or> \<not> inSpike st \<or> spikeThreshold st \<le> of_i64 cnt")
    case True
    then show ?thesis
      by (intro cleared [of "\<not> RecoveryDuration t \<le> 0 \<and> inSpike st"])
        (auto simp: eq keep_fields)
  next
    case live: False
    show ?thesis
    proof (cases "recoveryBelowSince st")
      case None
      with live show ?thesis by (intro waiting [of now]) (simp_all add: eq)
    next
      case (Some since)
      show ?thesis
      proof (cases "time_sub now since < RecoveryDuration t")
        case True
        with live Some show ?thesis by (intro waiting [of since]) (simp_all add: eq keep_fields(2))
      next
        case False
        with live Some show ?thesis by (intro fire) (simp_all add: eq)
      qed
    qed
  qed
qed

lemma spike_inv_parts:
  "spike_inv (st\<lparr>inSpike := b, recoveryBelowSince := None\<rparr>) = spike_inv (st\<lparr>recoveryBelowSince := None\<rparr>)"
  "spike_inv st \<Longrightarrow> spike_inv (st\<lparr>recoveryBelowSince := None\<rparr>)"
  "spike_inv st \<Longrightarrow> inSpike st \<Longrightarrow> spike_inv (st\<lparr>recoveryBelowSince := Some x\<rparr>)"
  by (simp_all add: spike_inv_def split: option.splits)

lemma handleRecovery_ok:
  assumes "host_ok (cl, inst) (st, d)"
  shows "host_ok (cl, inst) (handleRecovery sortfn e cfg t cl inst db now cnt (st, d)) \<and>
         isolated (cl, inst) (st, d) (handleRecovery sortfn e cfg t cl inst db now cnt (st, d))"
proof (cases rule: handleRecovery_cases [of sortfn e cfg t cl inst db now cnt st d])
  case (cleared b)
  with assms show ?thesis
    by (auto simp: host_ok_def balance_def spike_inv_parts of_bool_def split: if_splits)
next
  case (waiting since)
  with assms show ?thesis by (auto simp: host_ok_def balance_def spike_inv_parts)
next
  case (failed d')
  with assms show ?thesis
    by (auto simp: host_ok_def balance_def isolated_def intro: spike_inv_parts)
next
  case (dropped d')
  with assms show ?thesis
    by (auto simp: host_ok_def balance_def isolated_def spike_inv_parts)
qed

lemma fire_spike_eq:
  "fire_spike sortfn e cfg t cl inst db baseline since (st, d) =
     (let ts = takeSnapshot sortfn (spike_snap e) cfg cl inst db TriggerActivitySpike
                 ''auto:activity_spike'' (spike_context baseline t inst (spike_now e) since st)
                 (lockPeak st) d
      in if snap_ok (spike_snap e)
         then ((resetSpike st)\<lparr>inSpike := True, recoveryBelowSince := None\<rparr>,
               if 0 < DeferredInterval t
               then emit (EnqueuePendingSnapshot
                      \<lparr>pend_ClusterName = cl, pend_Instance = inst, pend_Database = db,
                       pend_Reason = ''auto:deferred''\<rparr>
                      (time_add (spike_now e) (DeferredInterval t))) (snd ts)
               else snd ts)
         else (resetSpike st, snd ts))"
  (is "_ = (let ts = ?ts in _)")
proof (cases "fst ?ts")
  case None
  then have "snap_ok (spike_snap e)" by (simp add: takeSnapshot_err_iff)
  with None show ?thesis by (simp add: fire_spike_def Let_def case_prod_unfold)
next
  case (Some x)
  then have "\<not> snap_ok (spike_snap e)"
    using takeSnapshot_err_iff [of sortfn "spike_snap e" cfg cl inst db TriggerActivitySpike]
    by (metis option.distinct(1))
  with Some show ?thesis by (simp add: fire_spike_def Let_def case_prod_unfold)
qed

lemma fire_spike_ok:
  assumes "host_ok (cl, inst) (st, d)"
  shows "host_ok (cl, inst) (fire_spike sortfn e cfg t cl inst db baseline since (st, d)) \<and>
         isolated (cl, inst) (st, d) (fire_spike sortfn e cfg t cl inst db baseline since (st, d))"
proof -
  have "spike_inv (resetSpike st)" "spike_inv ((resetSpike st)\<lparr>inSpike := True, recoveryBelowSince := None\<rparr>)"
    using assms by (simp_all add: host_ok_def resetSpike_inv spike_inv_parts)
  with assms show ?thesis
    by (simp add: fire_spike_eq Let_def host_ok_def balance_def isolated_def created_takeSnapshot
        takeSnapshot_err_iff)
qed

lemma sample_locks_frame [simp]:
  "aboveThresholdSince (sample_locks e cfg st) = aboveThresholdSince st"
  "inSpike (sample_locks e cfg st) = inSpike st"
  "recoveryBelowSince (sample_locks e cfg st) = recoveryBelowSince st"
  "spikeAbove (sample_locks e cfg st) = spikeAbove st"
  "spikeTotal (sample_locks e cfg st) = spikeTotal st"
  by (simp_all add: sample_locks_def split: sum.split option.split)

lemma sample_locks_inv:
  "spike_inv st \<Longrightarrow> aboveThresholdSince st \<noteq> None \<Longrightarrow> spike_inv (sample_locks e cfg st)"
  by (auto simp: sample_locks_def spike_inv_def split: sum.split option.split)

definition good :: "hostKey \<Rightarrow> hostState \<times> Daemon \<Rightarrow> (hostState \<times> Daemon) outcome \<Rightarrow> bool" where
  "good key x out = (case out of Done r \<Rightarrow> host_ok key r \<and> isolated key x r | Panic r \<Rightarrow> False)"

lemma good_Done [simp]: "good key x (Done r) \<longleftrightarrow> host_ok key r \<and> isolated key x r"
  by (simp add: good_def)

lemma good_start: "good key (st', d) r \<Longrightarrow> good key (st, d) r"
  by (auto simp: good_def intro: isolated_start split: outcome.splits)

text \<open>A forming candidate never dereferences nil, and keeps the contract of a step.\<close>

lemma forming_spike_ok:
  assumes "host_ok (cl, inst) (st, d)" and "aboveThresholdSince st = Some since"
  shows "good (cl, inst) (st, d) (forming_spike sortfn e cfg t cl inst db baseline (st, d))"
proof -
  let ?st = "sample_locks e cfg (st\<lparr>recoveryBelowSince := None\<rparr>)"
  have inv: "spike_inv ?st"
    using assms by (intro sample_locks_inv) (simp_all add: host_ok_def spike_inv_parts)
  have ok: "host_ok (cl, inst) (?st, d)"
    using assms(1) inv by (rule host_ok_state) simp
  have "good (cl, inst) (?st, d) (forming_spike sortfn e cfg t cl inst db baseline (st, d))"
    using fire_spike_ok [OF ok, of sortfn e cfg t db baseline since] ok assms(2)
    by (simp add: forming_spike_def Let_def)
  then show ?thesis by (rule good_start)
qed

lemma below_floor_ok:
  assumes "host_ok (cl, inst) (st, d)"
  shows "host_ok (cl, inst) (below_floor sortfn e cfg t cl inst db cnt (st, d)) \<and>
         isolated (cl, inst) (st, d) (below_floor sortfn e cfg t cl inst db cnt (st, d))"
proof -
  have "host_ok (cl, inst) (resetSpike st, d)"
    using assms by (rule host_ok_state) (use assms in \<open>auto simp: host_ok_def resetSpike_inv\<close>)
  from handleRecovery_ok [OF this, of sortfn "spike_snap e" cfg t db "spike_now e" cnt]
  show ?thesis
    by (auto simp: below_floor_def Let_def case_prod_unfold host_ok_def balance_def isolated_def)
qed

lemma push_sample_ok: "host_ok key (st, d) \<Longrightarrow> host_ok key (push_sample e t cnt st, d)"
  by (simp add: push_sample_def host_ok_def balance_def)

lemma tickActivitySpike_ok:
  assumes "host_ok (cl, inst) (st, d)"
  shows "good (cl, inst) (st, d) (tickActivitySpike sortfn e cfg t cl inst db (st, d))"
proof (cases "active_count e")
  case (Inl err)
  with assms show ?thesis by (simp add: tickActivitySpike_def)
next
  case (Inr cnt)
  let ?st = "push_sample e t cnt st"
  let ?base = "averageExcludingLast (windowSamples ?st)"
  have ok: "host_ok (cl, inst) (?st, d)" by (rule push_sample_ok [OF assms])
  obtain step st' where adv:
    "advanceSpike (spike_now e) cnt (spike_threshold ?base t) (SpikeDuration t) ?st = (step, st')"
    by (cases "advanceSpike (spike_now e) cnt (spike_threshold ?base t) (SpikeDuration t) ?st")
  have ok': "host_ok (cl, inst) (st', d)"
    using ok by (rule host_ok_state)
      (use adv ok advanceSpike_inv advanceSpike_frame in \<open>auto simp: host_ok_def\<close>)
  note start = good_start [of "(cl, inst)" ?st d _ st] good_start [of "(cl, inst)" st' d _ st]
  show ?thesis
  proof (cases "\<not> spike_Enabled t \<or> length (windowSamples ?st) < 2 \<or> ?base < of_i64 (MinBaselineActive cfg)")
    case True
    with assms ok Inr below_floor_ok [OF ok, of sortfn e cfg t db cnt] show ?thesis
      by (auto simp: tickActivitySpike_def Let_def intro: start isolated_start)
  next
    case live: False
    show ?thesis
    proof (cases step)
      case spikeAborted
      with live Inr adv handleRecovery_ok [OF ok'] show ?thesis
        by (simp add: tickActivitySpike_def Let_def isolated_start [of _ st'])
    next
      case spikeStarted
      have "spike_inv (st'\<lparr>recoveryBelowSince := None\<rparr>)"
        using ok' by (simp add: host_ok_def spike_inv_parts)
      with live Inr adv spikeStarted ok' show ?thesis
        by (auto simp: tickActivitySpike_def Let_def host_ok_def balance_def isolated_def)
    next
      case spikeForming
      have "spike_inv ?st" using ok by (simp add: host_ok_def)
      from advanceSpike_forming [OF this adv [unfolded spikeForming]] obtain since where
        "aboveThresholdSince st' = Some since" by blast
      from forming_spike_ok [OF ok' this, of sortfn e cfg t db ?base]
      show ?thesis using live Inr adv spikeForming start(2) by (simp add: tickActivitySpike_def Let_def)
    qed
  qed
qed

lemma tickRoleChange_ok:
  assumes "host_ok (cl, inst) (st, d)"
  shows "host_ok (cl, inst) (tickRoleChange sortfn e cfg t cl inst db (st, d)) \<and>
         isolated (cl, inst) (st, d) (tickRoleChange sortfn e cfg t cl inst db (st, d))"
  using assms
  by (auto simp: tickRoleChange_def Let_def case_prod_unfold host_ok_def balance_def isolated_def
      created_takeSnapshot split: sum.split option.splits)

section \<open>Whole runs\<close>

definition state_of :: "Daemon \<Rightarrow> hostKey \<Rightarrow> hostState" where
  "state_of d key = (case hosts d key of None \<Rightarrow> new_hostState | Some st \<Rightarrow> st)"

definition daemon_inv :: "Daemon \<Rightarrow> bool" where
  "daemon_inv d \<longleftrightarrow> (\<forall>key. host_ok key (state_of d key, d))"

lemma daemon_invD: "daemon_inv d \<Longrightarrow> host_ok key (state_of d key, d)"
  unfolding daemon_inv_def by blast

lemma NewDaemon_inv: "daemon_inv NewDaemon"
  by (simp add: daemon_inv_def host_ok_def balance_def state_of_def NewDaemon_def created_def
      new_hostState_inv) (simp add: new_hostState_def)

lemma host_ok_update:
  "host_ok key (st, d\<lparr>hosts := h\<rparr>) = host_ok key (st, d)"
  by (simp add: host_ok_def balance_def)

lemma daemon_inv_update:
  assumes "daemon_inv d" and "host_ok key (st, d')" and "isolated key (x, d) (st, d')"
  shows "daemon_inv (d'\<lparr>hosts := (hosts d')(key \<mapsto> st)\<rparr>)"
  unfolding daemon_inv_def
proof
  fix k
  show "host_ok k (state_of (d'\<lparr>hosts := (hosts d')(key \<mapsto> st)\<rparr>) k, d'\<lparr>hosts := (hosts d')(key \<mapsto> st)\<rparr>)"
  proof (cases "k = key")
    case True
    then show ?thesis using assms(2) by (simp add: state_of_def host_ok_update)
  next
    case False
    with assms(3) have "state_of (d'\<lparr>hosts := (hosts d')(key \<mapsto> st)\<rparr>) k = state_of d k"
      by (simp add: state_of_def isolated_def)
    moreover have "host_ok k (state_of d k, d)" by (rule daemon_invD [OF assms(1)])
    moreover have "created tt k d' = created tt k d" for tt
      using False assms(3) unfolding isolated_def snd_conv by blast
    ultimately show ?thesis by (simp add: host_ok_def balance_def)
  qed
qed

lemma process_host_ok:
  assumes "daemon_inv d"
  shows "\<exists>d'. process_host sortfn env cfg eff cl inst d = Done d' \<and> daemon_inv d'"
proof -
  let ?key = "(cl_Name cl, inst)"
  have ok: "host_ok ?key (state_of d ?key, d)" by (rule daemon_invD [OF assms])
  let ?r = "tickActivitySpike sortfn (he_spike (env ?key)) cfg (ActivitySpike eff) (cl_Name cl) inst
              (firstDatabase (Databases cl)) (state_of d ?key, d)"
  have g: "good ?key (state_of d ?key, d) ?r" using tickActivitySpike_ok [OF ok] .
  then obtain st1 d1 where r1: "?r = Done (st1, d1)"
    by (cases ?r) (auto simp: good_def)
  with g have ok1: "host_ok ?key (st1, d1)" and i1: "isolated ?key (state_of d ?key, d) (st1, d1)"
    by simp_all
  obtain st2 d2 where r2: "tickRoleChange sortfn (he_role (env ?key)) cfg (RoleChange eff) (cl_Name cl)
      inst (firstDatabase (Databases cl)) (st1, d1) = (st2, d2)"
    by (cases "tickRoleChange sortfn (he_role (env ?key)) cfg (RoleChange eff) (cl_Name cl)
      inst (firstDatabase (Databases cl)) (st1, d1)")
  with tickRoleChange_ok [OF ok1, of sortfn "he_role (env ?key)" cfg "RoleChange eff"
      "firstDatabase (Databases cl)"]
  have ok2: "host_ok ?key (st2, d2)" and i2: "isolated ?key (st1, d1) (st2, d2)" by simp_all
  have "daemon_inv (d2\<lparr>hosts := (hosts d2)(?key \<mapsto> st2)\<rparr>)"
    using daemon_inv_update [OF assms ok2] isolated_trans [OF i1 i2] by blast
  then show ?thesis
    using r1 r2 by (simp add: process_host_def Let_def state_of_def)
qed

lemma process_hosts_ok:
  "daemon_inv d \<Longrightarrow> \<exists>d'. process_hosts sortfn env cfg eff cl hs d = Done d' \<and> daemon_inv d'"
proof (induction hs arbitrary: d)
  case (Cons h hs)
  obtain d1 where "process_host sortfn env cfg eff cl h d = Done d1" "daemon_inv d1"
    using process_host_ok [OF Cons.prems] by blast
  with Cons.IH [of d1] show ?case by simp
qed simp

lemma tick_inv: "daemon_inv d \<Longrightarrow> daemon_inv (tick sortfn unmarshal e cfg d)"
  unfolding tick_def Let_def
proof (cases "te_clusters e")
  case (Inr cls)
  assume i: "daemon_inv d"
  have "daemon_inv (processClusterSafe sortfn (te_hosts e) cfg eff cl d)" if "daemon_inv d" for eff cl d
    using process_hosts_ok [OF that, of sortfn "te_hosts e" cfg eff cl "Hosts cl"]
    by (auto simp: processClusterSafe_def processCluster_def)
  then show "daemon_inv (case te_clusters e of Inl _ \<Rightarrow> d | Inr cls \<Rightarrow>
      fold (\<lambda>cl. processClusterSafe sortfn (te_hosts e) cfg
        (EffectiveFor unmarshal cfg (case map_of (case te_overrides e of Inl _ \<Rightarrow> [] | Inr m \<Rightarrow> m) (cl_Name cl) of
           None \<Rightarrow> [] | Some ov \<Rightarrow> ov)) cl) cls d)"
    using Inr i by (simp add: fold_invariant_set)
qed simp

lemma same_counts_inv:
  assumes "daemon_inv d" and "hosts d' = hosts d"
    and "\<And>k. created TriggerActivityDrop k d' = created TriggerActivityDrop k d"
    and "\<And>k. created TriggerActivitySpike k d' = created TriggerActivitySpike k d"
  shows "daemon_inv d'"
  using daemon_invD [OF assms(1)] assms(2-)
  unfolding daemon_inv_def host_ok_def balance_def state_of_def by simp

lemma processPending_inv: "daemon_inv d \<Longrightarrow> daemon_inv (processPending sortfn e cfg d)"
proof -
  have one: "daemon_inv (takePendingSafe sortfn e cfg cl p d)" if "daemon_inv d" for e cl p d
    using that by (rule same_counts_inv) (simp_all add: takePendingSafe_def created_takeSnapshot)
  have claim: "daemon_inv (emit ClaimDuePendingSnapshots d)" if "daemon_inv d" for d
    using that by (rule same_counts_inv) simp_all
  have all: "daemon_inv (fold (\<lambda>p d. case look p of None \<Rightarrow> d
      | Some cl \<Rightarrow> takePendingSafe sortfn (f p) cfg cl p d) ps d)" if "daemon_inv d" for ps look f d
  proof (rule fold_invariant_set [of daemon_inv, OF that])
    show "daemon_inv (case look p of None \<Rightarrow> d | Some cl \<Rightarrow> takePendingSafe sortfn (f p) cfg cl p d)"
      if "daemon_inv d" for p d
      using that one by (cases "look p") simp_all
  qed
  assume d: "daemon_inv d"
  show ?thesis
  proof (cases "pe_clusters e")
    case (Inl x)
    with d show ?thesis by (simp add: processPending_def)
  next
    case (Inr cls)
    with claim [OF d] all [OF claim [OF d]] show ?thesis
      by (cases "pe_claimed e") (simp_all add: processPending_def Let_def)
  qed
qed

datatype daemon_event = Tick tick_env AutoConfig | Pending pending_env AutoConfig

fun daemon_step ::
  "(QueryBlocked list \<Rightarrow> QueryBlocked list) \<Rightarrow> (override \<Rightarrow> OverrideInput option) \<Rightarrow> daemon_event \<Rightarrow>
   Daemon \<Rightarrow> Daemon" where
  "daemon_step sortfn unmarshal (Tick e cfg) d = tick sortfn unmarshal e cfg d"
| "daemon_step sortfn unmarshal (Pending e cfg) d = processPending sortfn e cfg d"

interpretation daemon_runs: transition_system "daemon_step sortfn unmarshal" daemon_inv "\<lambda>_. True"
  for sortfn unmarshal
proof unfold_locales
  fix d e
  assume "daemon_inv d"
  then show "daemon_inv (daemon_step sortfn unmarshal e d)"
    by (cases e) (simp_all add: tick_inv processPending_inv)
qed

lemma run_daemon_inv: "daemon_inv (fold (daemon_step sortfn unmarshal) es NewDaemon)"
  by (rule daemon_runs.run_inv) (simp_all add: NewDaemon_inv list_all_iff)

section \<open>Properties\<close>

text \<open>
  C4: however the environment behaves, after any run of the daemon every host has recorded at
  most as many activity-drop snapshots as activity-spike snapshots, with one to spare while
  an incident is open: a drop always answers a spike of its own.
\<close>

theorem drops_answer_spikes:
  fixes es sortfn unmarshal
  defines "d \<equiv> fold (daemon_step sortfn unmarshal) es NewDaemon"
  shows "created TriggerActivityDrop key d + of_bool (inSpike (state_of d key))
           \<le> created TriggerActivitySpike key d"
  using daemon_invD [OF run_daemon_inv [of sortfn unmarshal es], of key]
  by (simp add: d_def host_ok_def balance_def)

text \<open>
  C5: in every reachable state, sweeping any cluster under any configuration and any answers of
  the environment completes without a nil dereference.
\<close>

theorem sweep_never_panics:
  "\<exists>d'. processCluster sortfn env cfg eff cl
          (fold (daemon_step sortfn unmarshal) es NewDaemon) = Done d'"
  using process_hosts_ok [OF run_daemon_inv, of sortfn env cfg eff cl "Hosts cl"]
  unfolding processCluster_def by blast

section \<open>When a spike, a drop and a role change are recorded\<close>

lemma handleRecovery_no_spike:
  "created TriggerActivitySpike (cl, inst) (snd (handleRecovery sortfn e cfg t cl inst db now cnt (st, d)))
     = created TriggerActivitySpike (cl, inst) d"
  by (cases rule: handleRecovery_cases [of sortfn e cfg t cl inst db now cnt st d]) auto

lemma handleRecovery_threshold:
  "spikeThreshold (fst (handleRecovery sortfn e cfg t cl inst db now cnt (st, d))) = spikeThreshold st"
  by (cases rule: handleRecovery_cases [of sortfn e cfg t cl inst db now cnt st d]) auto

lemma below_floor_no_spike:
  "created TriggerActivitySpike (cl, inst) (snd (below_floor sortfn e cfg t cl inst db cnt (st, d)))
     = created TriggerActivitySpike (cl, inst) d"
  by (simp add: below_floor_def Let_def case_prod_unfold handleRecovery_no_spike)

text \<open>The step of a tick that can fire: everything before the fire check has passed.\<close>

definition fires ::
  "spike_env \<Rightarrow> AutoConfig \<Rightarrow> ActivitySpikeTrigger \<Rightarrow> hostKey \<Rightarrow> hostState \<Rightarrow> Daemon \<Rightarrow> bool" where
  "fires e cfg t key st d \<longleftrightarrow>
     spike_Enabled t \<and>
     (case (active_count e, aboveThresholdSince st) of
        (Inr cnt, Some since) \<Rightarrow>
          (let w = windowSamples (push_sample e t cnt st);
               base = averageExcludingLast w;
               (step, st') = advanceSpike (spike_now e) cnt (spike_threshold base t) (SpikeDuration t)
                               (push_sample e t cnt st)
           in 2 \<le> length w \<and> \<not> base < of_i64 (MinBaselineActive cfg) \<and> step = spikeForming \<and>
              SpikeDuration t \<le> time_sub (spike_now e) since \<and>
              time_sub (spike_now e) since \<le> wrap64 (staleCandidateFactor * SpikeDuration t) \<and>
              \<not> spikeCoverage st' < minSpikeCoverage \<and>
              \<not> debounced key (MaxSnapshotFrequency cfg) (debounce_now e) d)
      | _ \<Rightarrow> False)"

lemma forming_spike_created:
  assumes "aboveThresholdSince st = Some since"
  shows "forming_spike sortfn e cfg t cl inst db baseline (st, d) =
     (if time_sub (spike_now e) since < SpikeDuration t \<or> spikeCoverage st < minSpikeCoverage \<or>
         debounced (cl, inst) (MaxSnapshotFrequency cfg) (debounce_now e) d
      then Done (sample_locks e cfg (st\<lparr>recoveryBelowSince := None\<rparr>), d)
      else Done (fire_spike sortfn e cfg t cl inst db baseline since
                   (sample_locks e cfg (st\<lparr>recoveryBelowSince := None\<rparr>), d)))"
  using assms by (simp add: forming_spike_def Let_def spikeCoverage_def)

lemma fire_spike_created:
  "created TriggerActivitySpike (cl, inst) (snd (fire_spike sortfn e cfg t cl inst db baseline since (st, d)))
     = created TriggerActivitySpike (cl, inst) d + of_bool (snap_ok (spike_snap e))"
  by (simp add: fire_spike_eq Let_def created_takeSnapshot takeSnapshot_err_iff)

lemma push_sample_frame [simp]:
  "aboveThresholdSince (push_sample e t cnt st) = aboveThresholdSince st"
  "inSpike (push_sample e t cnt st) = inSpike st"
  "spikeThreshold (push_sample e t cnt st) = spikeThreshold st"
  "spike_inv (push_sample e t cnt st) = spike_inv st"
  by (simp_all add: push_sample_def)

lemma tick_created:
  assumes "spike_inv st" and "tickActivitySpike sortfn e cfg t cl inst db (st, d) = Done (st', d')"
  shows "created TriggerActivitySpike (cl, inst) d' =
         created TriggerActivitySpike (cl, inst) d +
         of_bool (fires e cfg t (cl, inst) st d \<and> snap_ok (spike_snap e))"
proof (cases "active_count e")
  case (Inl err)
  with assms(2) show ?thesis by (auto simp: tickActivitySpike_def fires_def split: if_splits)
next
  case (Inr cnt)
  let ?st = "push_sample e t cnt st"
  let ?base = "averageExcludingLast (windowSamples ?st)"
  obtain step st1 where adv:
    "advanceSpike (spike_now e) cnt (spike_threshold ?base t) (SpikeDuration t) ?st = (step, st1)"
    by (cases "advanceSpike (spike_now e) cnt (spike_threshold ?base t) (SpikeDuration t) ?st")
  show ?thesis
  proof (cases "\<not> spike_Enabled t \<or> length (windowSamples ?st) < 2 \<or> ?base < of_i64 (MinBaselineActive cfg)")
    case True
    then have "\<not> fires e cfg t (cl, inst) st d"
      using Inr by (auto simp: fires_def Let_def split: option.splits)
    moreover have "created TriggerActivitySpike (cl, inst) d' = created TriggerActivitySpike (cl, inst) d"
      using True assms(2) Inr below_floor_no_spike [of cl inst sortfn e cfg t db cnt ?st d]
      by (auto simp: tickActivitySpike_def Let_def split: if_splits)
    ultimately show ?thesis by simp
  next
    case live: False
    show ?thesis
    proof (cases "step = spikeForming")
      case False
      then have "\<not> fires e cfg t (cl, inst) st d"
        using Inr adv by (auto simp: fires_def Let_def split: option.splits)
      moreover have "created TriggerActivitySpike (cl, inst) d' = created TriggerActivitySpike (cl, inst) d"
        using False live assms(2) Inr adv
          handleRecovery_no_spike [of cl inst sortfn "spike_snap e" cfg t db "spike_now e" cnt st1 d]
        by (cases step) (auto simp: tickActivitySpike_def Let_def)
      ultimately show ?thesis by simp
    next
      case True
      obtain since where s: "aboveThresholdSince st1 = Some since" "aboveThresholdSince st = Some since"
        "time_sub (spike_now e) since \<le> wrap64 (staleCandidateFactor * SpikeDuration t)"
        using advanceSpike_forming [of ?st] adv True assms(1) by fastforce
      let ?stop = "time_sub (spike_now e) since < SpikeDuration t \<or> spikeCoverage st1 < minSpikeCoverage \<or>
         debounced (cl, inst) (MaxSnapshotFrequency cfg) (debounce_now e) d"
      have f: "fires e cfg t (cl, inst) st d \<longleftrightarrow> \<not> ?stop"
        using live Inr adv True s by (auto simp: fires_def Let_def)
      have "forming_spike sortfn e cfg t cl inst db ?base (st1, d) = Done (st', d')"
        using assms(2) live Inr adv True by (simp add: tickActivitySpike_def Let_def)
      then show ?thesis
        using f fire_spike_created [of cl inst sortfn e cfg t db ?base since
            "sample_locks e cfg (st1\<lparr>recoveryBelowSince := None\<rparr>)" d]
        by (auto simp: forming_spike_created [OF s(1)] split: if_splits)
    qed
  qed
qed

lemma tick_fires:
  assumes "fires e cfg t (cl, inst) st d"
  shows "\<exists>since st1 base. tickActivitySpike sortfn e cfg t cl inst db (st, d) =
           Done (fire_spike sortfn e cfg t cl inst db base since (st1, d)) \<and>
           aboveThresholdSince st = Some since"
proof -
  obtain cnt since where c: "active_count e = Inr cnt" "aboveThresholdSince st = Some since"
    using assms by (auto simp: fires_def split: sum.splits option.splits)
  let ?st = "push_sample e t cnt st"
  let ?base = "averageExcludingLast (windowSamples ?st)"
  obtain step st1 where adv:
    "advanceSpike (spike_now e) cnt (spike_threshold ?base t) (SpikeDuration t) ?st = (step, st1)"
    by (cases "advanceSpike (spike_now e) cnt (spike_threshold ?base t) (SpikeDuration t) ?st")
  have f: "spike_Enabled t" "\<not> length (windowSamples ?st) < 2" "\<not> ?base < of_i64 (MinBaselineActive cfg)"
    "step = spikeForming" "\<not> time_sub (spike_now e) since < SpikeDuration t"
    "\<not> spikeCoverage st1 < minSpikeCoverage"
    "\<not> debounced (cl, inst) (MaxSnapshotFrequency cfg) (debounce_now e) d"
    using assms c adv by (auto simp: fires_def Let_def)
  have "aboveThresholdSince st1 = Some since"
    using adv f(4) c(2)
    by (auto simp: advanceSpike_def Let_def age_out_def dip_too_long_def split: if_splits option.splits)
  from forming_spike_created [OF this] f c adv show ?thesis
    by (simp add: tickActivitySpike_def Let_def) blast
qed

text \<open>
  C6: a spike snapshot is recorded by a tick exactly when the host's candidate has been above
  its threshold for at least \<^verbatim>\<open>spike_duration\<close> and at most four times that, at least 70
  percent of its probes were above, the baseline reaches the configured floor, the host is not
  debounced, and the snapshot itself succeeds; otherwise the tick records none.
\<close>

theorem spike_recorded_iff:
  assumes "spike_inv st" and "tickActivitySpike sortfn e cfg t cl inst db (st, d) = Done (st', d')"
  shows "created TriggerActivitySpike (cl, inst) d' =
         created TriggerActivitySpike (cl, inst) d +
         of_bool (fires e cfg t (cl, inst) st d \<and> snap_ok (spike_snap e))"
  using assms by (rule tick_created)

text \<open>
  C7: a candidate that meets the fire conditions with a working store is never missed: the tick
  completes, stores the snapshot, opens the incident, clears the candidate, moves the host's
  debounce clock and, when a deferred interval is set, queues exactly one follow-up due that
  much later.
\<close>

theorem sustained_spike_is_captured:
  assumes "fires e cfg t (cl, inst) st d" and "snap_ok (spike_snap e)"
  shows "\<exists>st' d'. tickActivitySpike sortfn e cfg t cl inst db (st, d) = Done (st', d') \<and>
           inSpike st' \<and> aboveThresholdSince st' = None \<and> recoveryBelowSince st' = None \<and>
           created TriggerActivitySpike (cl, inst) d' = created TriggerActivitySpike (cl, inst) d + 1 \<and>
           lastAuto d' (cl, inst) = Some (snd (projr (create_snapshot (spike_snap e)))) \<and>
           filter (\<lambda>x. \<exists>p due. x = EnqueuePendingSnapshot p due) (effects d') =
             filter (\<lambda>x. \<exists>p due. x = EnqueuePendingSnapshot p due) (effects d) @
             (if 0 < DeferredInterval t
              then [EnqueuePendingSnapshot
                      \<lparr>pend_ClusterName = cl, pend_Instance = inst, pend_Database = db,
                       pend_Reason = ''auto:deferred''\<rparr> (spike_now e + DeferredInterval t)]
              else [])"
proof -
  obtain since st1 base where f: "tickActivitySpike sortfn e cfg t cl inst db (st, d) =
      Done (fire_spike sortfn e cfg t cl inst db base since (st1, d))"
    using tick_fires [OF assms(1)] by blast
  let ?P = "\<lambda>x. \<exists>p due. x = EnqueuePendingSnapshot p due"
  have q: "filter ?P (effects (snd (takeSnapshot sortfn (spike_snap e) cfg cl inst db
      TriggerActivitySpike r ctx bg d))) = filter ?P (effects d)" for r ctx bg
    by (simp add: takeSnapshot_def Let_def insertEvent_def emit_def split: sum.split prod.split)
  show ?thesis
    unfolding f
    using assms(2)
    by (simp add: fire_spike_eq Let_def created_takeSnapshot takeSnapshot_err_iff
        takeSnapshot_lastAuto q time_add_def)
      (simp add: emit_def q)
qed

definition drops :: "snap_env \<Rightarrow> ActivitySpikeTrigger \<Rightarrow> time \<Rightarrow> i64 \<Rightarrow> hostState \<Rightarrow> bool" where
  "drops e t now cnt st \<longleftrightarrow>
     0 < RecoveryDuration t \<and> inSpike st \<and> \<not> spikeThreshold st \<le> of_i64 cnt \<and>
     (case recoveryBelowSince st of
        None \<Rightarrow> False
      | Some since \<Rightarrow> RecoveryDuration t \<le> time_sub now since)"

text \<open>
  Recovery of a host takes an activity-drop snapshot exactly when an incident is open and
  the count has stayed below the threshold frozen at its onset for the whole recovery
  duration. If the snapshot succeeds the incident is closed and the queued follow-up is
  cancelled last; if it fails the incident stays open, to be retried.
\<close>

theorem recovery_takes_one_drop:
  fixes sortfn e cfg t cl inst db now cnt st d
  defines "r \<equiv> handleRecovery sortfn e cfg t cl inst db now cnt (st, d)"
  shows "created TriggerActivityDrop (cl, inst) (snd r) =
           created TriggerActivityDrop (cl, inst) d + of_bool (drops e t now cnt st \<and> snap_ok e) \<and>
         (if drops e t now cnt st
          then (if snap_ok e
                then \<not> inSpike (fst r) \<and> last (effects (snd r)) = DeletePendingSnapshot cl inst
                else inSpike (fst r) \<and> recoveryBelowSince (fst r) = None)
          else effects (snd r) = effects d)"
proof (cases "drops e t now cnt st")
  case False
  then have "snd r = d"
    by (auto simp: r_def drops_def handleRecovery_def Let_def case_prod_unfold split: option.splits)
  with False show ?thesis by simp
next
  case True
  then obtain since where s: "recoveryBelowSince st = Some since" "RecoveryDuration t \<le> time_sub now since"
    "inSpike st" "0 < RecoveryDuration t" "\<not> spikeThreshold st \<le> of_i64 cnt"
    by (auto simp: drops_def split: option.splits)
  let ?ts = "takeSnapshot sortfn e cfg cl inst db TriggerActivityDrop ''auto:activity_drop''
               [(''trigger'', CStr ''activity_drop''), (''host'', CStr inst)] None d"
  have r: "r = (case fst ?ts of
      Some _ \<Rightarrow> (st\<lparr>recoveryBelowSince := None\<rparr>, snd ?ts)
    | None \<Rightarrow> (st\<lparr>inSpike := False, recoveryBelowSince := None\<rparr>,
               emit (DeletePendingSnapshot cl inst) (snd ?ts)))"
    using s by (simp add: r_def handleRecovery_def Let_def case_prod_unfold split: option.split)
  show ?thesis
  proof (cases "snap_ok e")
    case ok: True
    then have "fst ?ts = None" by (simp add: takeSnapshot_err_iff)
    with ok True show ?thesis by (simp add: r created_takeSnapshot) (simp add: emit_def)
  next
    case bad: False
    then obtain x where "fst ?ts = Some x"
      using takeSnapshot_err_iff [of sortfn e cfg cl inst db] by blast
    with bad True s(3) show ?thesis by (simp add: r created_takeSnapshot)
  qed
qed

text \<open>
  While an incident is open no tick changes the threshold against which its recovery is
  judged.
\<close>

theorem incident_threshold_is_frozen:
  assumes "inSpike st" and "tickActivitySpike sortfn e cfg t cl inst db (st, d) = Done (st', d')"
  shows "spikeThreshold st' = spikeThreshold st"
proof (cases "active_count e")
  case (Inl err)
  with assms(2) show ?thesis by (auto simp: tickActivitySpike_def split: if_splits)
next
  case (Inr cnt)
  let ?st = "push_sample e t cnt st"
  let ?base = "averageExcludingLast (windowSamples ?st)"
  obtain step st1 where adv:
    "advanceSpike (spike_now e) cnt (spike_threshold ?base t) (SpikeDuration t) ?st = (step, st1)"
    by (cases "advanceSpike (spike_now e) cnt (spike_threshold ?base t) (SpikeDuration t) ?st")
  have fr: "spikeThreshold st1 = spikeThreshold st" "inSpike st1"
    using advanceSpike_frame [OF adv] assms(1) by simp_all
  have form: "spikeThreshold st' = spikeThreshold st1"
    if "forming_spike sortfn e cfg t cl inst db ?base (st1, d) = Done (st', d')"
    using that
    by (auto simp: forming_spike_def fire_spike_eq Let_def sample_locks_def
        split: option.splits if_splits sum.splits)
  have bf: "spikeThreshold (fst (below_floor sortfn e cfg t cl inst db cnt (?st, d))) = spikeThreshold st"
    by (simp add: below_floor_def Let_def case_prod_unfold handleRecovery_threshold)
  have hr: "spikeThreshold (fst (handleRecovery sortfn (spike_snap e) cfg t cl inst db (spike_now e) cnt (st1, d)))
      = spikeThreshold st"
    by (simp add: handleRecovery_threshold fr)
  show ?thesis
    using assms(2) Inr adv fr form bf hr
    by (cases step) (auto simp: tickActivitySpike_def Let_def split: if_splits)
qed

text \<open>
  A role change is recorded exactly when the role was known before and differs now, its
  direction is one the configuration watches, the host is not debounced and the snapshot
  succeeds; the remembered role always becomes the observed one.
\<close>

theorem role_change_recorded_iff:
  assumes "role_Enabled t" and "instance_info e = Inr current"
  shows "created TriggerRoleChange (cl, inst) (snd (tickRoleChange sortfn e cfg t cl inst db (st, d))) =
           created TriggerRoleChange (cl, inst) d +
           of_bool (lastInRecovery st = Some (\<not> current) \<and>
                    directionAllowed (role_Direction t) (directionOf (\<not> current) current) \<and>
                    \<not> debounced (cl, inst) (MaxSnapshotFrequency cfg) (role_debounce_now e) d \<and>
                    snap_ok (role_snap e)) \<and>
         lastInRecovery (fst (tickRoleChange sortfn e cfg t cl inst db (st, d))) = Some current"
proof (cases "lastInRecovery st")
  case None
  with assms show ?thesis by (simp add: tickRoleChange_def)
next
  case (Some prev)
  with assms show ?thesis
    by (cases "prev = current")
      (auto simp: tickRoleChange_def Let_def case_prod_unfold created_takeSnapshot takeSnapshot_err_iff)
qed

section \<open>Witnesses\<close>

text \<open>
  A host that has been above its threshold for the last two minutes (three probes of 40
  against a baseline of 10 and more), probed once more.
\<close>

definition demo_snap :: snap_env where
  "demo_snap =
     \<lparr>queries_report = Inr [1], pgss_database = Inr ''app'', pgss_reset = Inr None,
      pgss_source = (''pgss'', None), lock_probes = quiet_env,
      create_snapshot = Inr (''id-1'', 500 * second)\<rparr>"

definition demo_spike_env :: spike_env where
  "demo_spike_env =
     \<lparr>active_count = Inr 40, spike_now = 400 * second, blocked_count = Inr 0,
      debounce_now = 400 * second, spike_snap = demo_snap\<rparr>"

definition demo_host :: hostState where
  "demo_host =
     new_hostState\<lparr>windowSamples := [\<lparr>sample_at = 100 * second, sample_count = 10\<rparr>],
       aboveThresholdSince := Some (280 * second), lastAboveAt := Some (370 * second),
       spikeAbove := 3, spikeTotal := 3, spikePeak := 40\<rparr>"

abbreviation demo_trigger :: ActivitySpikeTrigger where
  "demo_trigger \<equiv> ActivitySpike shipped_triggers"

lemma demo_snap_ok: "snap_ok demo_snap"
  by (simp add: snap_ok_def demo_snap_def)

lemma demo_inv: "spike_inv demo_host"
  by (simp add: spike_inv_def demo_host_def new_hostState_def)

lemma demo_fires: "fires demo_spike_env shipped_config demo_trigger (''c'', ''h'') demo_host NewDaemon"
  by code_simp

theorem spike_recorded_witness:
  "\<exists>st' d'. tickActivitySpike insertion_sort demo_spike_env shipped_config demo_trigger ''c'' ''h'' ''app''
              (demo_host, NewDaemon) = Done (st', d') \<and>
     created TriggerActivitySpike (''c'', ''h'') d' =
       created TriggerActivitySpike (''c'', ''h'') NewDaemon +
       of_bool (fires demo_spike_env shipped_config demo_trigger (''c'', ''h'') demo_host NewDaemon \<and>
                snap_ok (spike_snap demo_spike_env))"
proof -
  obtain st' d' where "tickActivitySpike insertion_sort demo_spike_env shipped_config demo_trigger ''c'' ''h'' ''app''
      (demo_host, NewDaemon) = Done (st', d')"
    using tick_fires [OF demo_fires] by (metis surj_pair)
  with spike_recorded_iff [OF demo_inv this] show ?thesis by blast
qed

theorem sustained_spike_witness:
  "\<exists>st' d'. tickActivitySpike insertion_sort demo_spike_env shipped_config demo_trigger ''c'' ''h'' ''app''
              (demo_host, NewDaemon) = Done (st', d') \<and> inSpike st' \<and>
     created TriggerActivitySpike (''c'', ''h'') d' =
       created TriggerActivitySpike (''c'', ''h'') NewDaemon + 1"
proof -
  have "snap_ok (spike_snap demo_spike_env)" by (simp add: demo_spike_env_def demo_snap_ok)
  from sustained_spike_is_captured [OF demo_fires this, of insertion_sort "''app''"]
  show ?thesis by blast
qed

lemma demo_incident_fires:
  "fires demo_spike_env shipped_config demo_trigger (''c'', ''h'')
     (demo_host\<lparr>inSpike := True, spikeThreshold := Fin 15\<rparr>) NewDaemon"
  by code_simp

theorem incident_threshold_witness:
  "\<exists>st' d'. tickActivitySpike insertion_sort demo_spike_env shipped_config demo_trigger ''c'' ''h'' ''app''
              (demo_host\<lparr>inSpike := True, spikeThreshold := Fin 15\<rparr>, NewDaemon) = Done (st', d') \<and>
     spikeThreshold st' = spikeThreshold (demo_host\<lparr>inSpike := True, spikeThreshold := Fin 15\<rparr>)"
proof -
  let ?st = "demo_host\<lparr>inSpike := True, spikeThreshold := Fin 15\<rparr>"
  obtain st' d' where t: "tickActivitySpike insertion_sort demo_spike_env shipped_config demo_trigger ''c'' ''h'' ''app''
      (?st, NewDaemon) = Done (st', d')"
    using tick_fires [OF demo_incident_fires] by (metis surj_pair)
  have "spikeThreshold st' = spikeThreshold ?st"
    by (rule incident_threshold_is_frozen [OF _ t]) simp
  with t show ?thesis by blast
qed

definition demo_role_env :: role_env where
  "demo_role_env = \<lparr>instance_info = Inr True, role_debounce_now = 0, role_snap = demo_snap\<rparr>"

theorem role_change_witness:
  "created TriggerRoleChange (''c'', ''h'') (snd (tickRoleChange insertion_sort demo_role_env shipped_config
      (RoleChange shipped_triggers) ''c'' ''h'' ''app''
      (new_hostState\<lparr>lastInRecovery := Some False\<rparr>, NewDaemon))) = 1"
proof -
  have "role_Enabled (RoleChange shipped_triggers)" "instance_info demo_role_env = Inr True"
    by (simp_all add: shipped_triggers_def demo_role_env_def)
  from role_change_recorded_iff [OF this, of "''c''" "''h''" insertion_sort shipped_config "''app''"
      "new_hostState\<lparr>lastInRecovery := Some False\<rparr>" NewDaemon]
  show ?thesis
    by (simp add: directionAllowed_def shipped_triggers_def debounced_def NewDaemon_def demo_role_env_def
        demo_snap_ok created_def)
qed

end
