(* ===== verification/Autosnapshot_Jobs.thy ===== *)
theory Autosnapshot_Jobs
  imports Autosnapshot_Incidents "HOL-Library.Sublist"
begin

text \<open>
  The scheduled jobs of the daemon
  (\<^verbatim>\<open>backend/internal/autosnapshot/schedule.go\<close>, \<^verbatim>\<open>retention.go\<close>,
  \<^verbatim>\<open>io.go\<close> and the retention of \<^verbatim>\<open>hot.go\<close>): cron-driven captures of
  \<^verbatim>\<open>pg_stat_io\<close> and the retention of stored partitions.

  A parsed cron schedule is its \<^verbatim>\<open>Next\<close> function; the parser is a parameter. A stored
  time that was never set is \<open>None\<close>. A day of \<^verbatim>\<open>AddDate\<close> on a UTC time is 24 hours.
  A sampled snapshot passes through unread and is an opaque number.
\<close>

section \<open>Schedules\<close>

type_synonym schedule = "time \<Rightarrow> time"

definition has_prefix :: "string \<Rightarrow> string \<Rightarrow> bool" where
  "has_prefix p s \<longleftrightarrow> take (length p) s = p"

definition ParseCronSchedule :: "(string \<Rightarrow> schedule option) \<Rightarrow> string \<Rightarrow> schedule option" where
  "ParseCronSchedule parse spec =
     parse (if \<not> has_prefix ''TZ='' spec \<and> \<not> has_prefix ''CRON_TZ='' spec
            then ''CRON_TZ=UTC '' @ spec else spec)"

definition cronDue :: "schedule option \<Rightarrow> time \<Rightarrow> time \<Rightarrow> bool" where
  "cronDue sched prev now =
     (case sched of
        None \<Rightarrow> 24 * hour \<le> time_sub now prev
      | Some next \<Rightarrow> \<not> before now (next prev))"

definition dueForCapture ::
  "(string \<rightharpoonup> time) \<Rightarrow> schedule option \<Rightarrow> (string \<rightharpoonup> time) \<Rightarrow> string \<Rightarrow> time \<Rightarrow>
   bool \<times> (string \<rightharpoonup> time)" where
  "dueForCapture attempts sched stored key now =
     (case (case stored key of None \<Rightarrow> attempts key | Some t \<Rightarrow> Some t) of
        Some t \<Rightarrow> if \<not> cronDue sched t now then (False, attempts) else (True, attempts(key \<mapsto> now))
      | None \<Rightarrow> (True, attempts(key \<mapsto> now)))"

section \<open>Captures of pg\_stat\_io\<close>

datatype io_error = ErrUnsupportedVersion | IOError string

record io_env =
  io_last :: "string + (string \<rightharpoonup> time)"
  io_clusters :: "string + Cluster list"
  io_now :: time
  io_sample :: "string \<Rightarrow> string \<Rightarrow> io_error + nat"

definition takeIOSnapshot :: "io_env \<Rightarrow> string \<Rightarrow> string \<Rightarrow> Daemon \<Rightarrow> Daemon" where
  "takeIOSnapshot e cl host d =
     (case io_sample e cl host of
        Inl ErrUnsupportedVersion \<Rightarrow> d
      | Inl (IOError err) \<Rightarrow> d
      | Inr snap \<Rightarrow> emit (InsertIOSnapshot cl host snap) d)"

definition io_host :: "schedule option \<Rightarrow> (string \<rightharpoonup> time) \<Rightarrow> io_env \<Rightarrow> Cluster \<Rightarrow> string \<Rightarrow> Daemon \<Rightarrow> Daemon" where
  "io_host sched stored e cl host d =
     (let key = cl_Name cl @ ''/'' @ host;
          (due, attempts) = dueForCapture (lastIOAttempt d) sched stored key (io_now e);
          d = d\<lparr>lastIOAttempt := attempts\<rparr>
      in if \<not> due then d else takeIOSnapshot e (cl_Name cl) host d)"

definition processIOSnapshots ::
  "(string \<Rightarrow> schedule option) \<Rightarrow> io_env \<Rightarrow> AutoConfig \<Rightarrow> Daemon \<Rightarrow> Daemon" where
  "processIOSnapshots parse e cfg d =
     (if \<not> IOEnabled cfg then d
      else
        (let sched = ParseCronSchedule parse (IOSchedule cfg)
         in case io_last e of
              Inl _ \<Rightarrow> d
            | Inr stored \<Rightarrow>
                (case io_clusters e of
                   Inl _ \<Rightarrow> d
                 | Inr cls \<Rightarrow> fold (\<lambda>cl d. fold (io_host sched stored e cl) (Hosts cl) d) cls d)))"

section \<open>Retention\<close>

definition retentionInterval :: duration where "retentionInterval = 24 * hour"
definition insightsRetentionRetry :: duration where "insightsRetentionRetry = hour"

record PartitionSize =
  Day :: time
  TotalSize :: i64

record retention_env =
  rt_check :: time
  rt_mark :: time
  rt_now :: time
  partition_sizes :: "string + PartitionSize list"
  drop_day :: "time \<Rightarrow> string option"

definition throttled :: "time option \<Rightarrow> time \<Rightarrow> bool" where
  "throttled prev now =
     (case prev of None \<Rightarrow> False | Some t \<Rightarrow> time_sub now t < retentionInterval)"

definition days_before :: "time \<Rightarrow> i64 \<Rightarrow> time" where
  "days_before now n = now - n * (24 * hour)"

fun retention_loop ::
  "retention_env \<Rightarrow> i64 \<Rightarrow> time \<Rightarrow> PartitionSize list \<Rightarrow> i64 \<Rightarrow> Daemon \<Rightarrow> Daemon" where
  "retention_loop e limit cutoff [] tot d = d"
| "retention_loop e limit cutoff (s # ss) tot d =
     (if tot \<le> limit then d
      else if \<not> before (Day s) cutoff then d
      else
        (let d = emit (DropDayPartitions (Day s)) d
         in case drop_day e (Day s) of
              Some _ \<Rightarrow> retention_loop e limit cutoff ss tot d
            | None \<Rightarrow> retention_loop e limit cutoff ss (wrap64 (tot - TotalSize s)) d))"

definition maybeRunRetention :: "retention_env \<Rightarrow> AutoConfig \<Rightarrow> Daemon \<Rightarrow> Daemon" where
  "maybeRunRetention e cfg d =
     (if RetentionBytes cfg \<le> 0 then d
      else if throttled (lastRetry d) (rt_check e) then d
      else
        (let d = d\<lparr>lastRetry := Some (rt_mark e)\<rparr>
         in case partition_sizes e of
              Inl _ \<Rightarrow> d
            | Inr sizes \<Rightarrow>
                (let tot = foldl (\<lambda>a s. wrap64 (a + TotalSize s)) 0 sizes
                 in if tot \<le> RetentionBytes cfg then d
                    else retention_loop e (RetentionBytes cfg)
                           (days_before (rt_now e) (RetentionMinDays cfg)) sizes tot d)))"

definition maybeRunHotRetention :: "retention_env \<Rightarrow> AutoConfig \<Rightarrow> Daemon \<Rightarrow> Daemon" where
  "maybeRunHotRetention e cfg d =
     (if HotRetentionDays cfg \<le> 0 then d
      else if throttled (lastHotRetention d) (rt_check e) then d
      else emit (DropHotPartitionsBefore (days_before (rt_now e) (HotRetentionDays cfg)))
             (d\<lparr>lastHotRetention := Some (rt_mark e)\<rparr>))"

definition maybeRunIORetention :: "retention_env \<Rightarrow> AutoConfig \<Rightarrow> Daemon \<Rightarrow> Daemon" where
  "maybeRunIORetention e cfg d =
     (if IORetentionDays cfg \<le> 0 then d
      else if throttled (lastIORetention d) (rt_check e) then d
      else emit (DropIOPartitionsBefore (days_before (rt_now e) (IORetentionDays cfg)))
             (d\<lparr>lastIORetention := Some (rt_mark e)\<rparr>))"

text \<open>\<open>failed\<close> is the time at which a failed truncation is noted, if it failed.\<close>

definition maybeRunInsightsRetention :: "retention_env \<Rightarrow> time option \<Rightarrow> Daemon \<Rightarrow> Daemon" where
  "maybeRunInsightsRetention e failed d =
     (if throttled (lastInsightsRetention d) (rt_check e) then d
      else
        (let d = emit TruncateInsightsScans (d\<lparr>lastInsightsRetention := Some (rt_mark e)\<rparr>)
         in case failed of
              None \<Rightarrow> d
            | Some now \<Rightarrow> d\<lparr>lastInsightsRetention :=
                 Some (time_add now (insightsRetentionRetry - retentionInterval))\<rparr>))"

section \<open>What retention drops\<close>

definition sizes_sum :: "PartitionSize list \<Rightarrow> int" where
  "sizes_sum ss = sum_list (map TotalSize ss)"

lemma retention_loop_effects:
  "\<exists>days. effects (retention_loop e limit cutoff ss tot d) = effects d @ map DropDayPartitions days \<and>
          list_all (\<lambda>x. before x cutoff) days \<and> subseq days (map Day ss)"
proof (induction ss arbitrary: tot d)
  case (Cons s ss)
  let ?d = "emit (DropDayPartitions (Day s)) d"
  have step: "\<exists>days. effects (retention_loop e limit cutoff ss t ?d) = effects d @ map DropDayPartitions days \<and>
          list_all (\<lambda>x. before x cutoff) days \<and> subseq days (Day s # map Day ss)"
    if "before (Day s) cutoff" for t
  proof -
    obtain days where "effects (retention_loop e limit cutoff ss t ?d) = effects ?d @ map DropDayPartitions days"
      "list_all (\<lambda>x. before x cutoff) days" "subseq days (map Day ss)"
      using Cons.IH by blast
    with that show ?thesis by (intro exI [of _ "Day s # days"]) (simp add: emit_def)
  qed
  show ?case
  proof (cases "tot \<le> limit \<or> \<not> before (Day s) cutoff")
    case True
    then show ?thesis by (intro exI [of _ "[]"]) auto
  next
    case False
    then show ?thesis using step by (auto simp: Let_def split: option.split)
  qed
qed (auto intro: exI [of _ "[]"])

text \<open>With no failing drop, exactly the shortest sufficient prefix of old days goes.\<close>

lemma retention_loop_prefix:
  assumes "\<And>day. drop_day e day = None" and "list_all (\<lambda>s. 0 \<le> TotalSize s) ss"
    and "tot = sizes_sum ss" and "tot < 2 ^ 63"
  shows "\<exists>k \<le> length ss.
           effects (retention_loop e limit cutoff ss tot d) =
             effects d @ map DropDayPartitions (map Day (take k ss)) \<and>
           (\<forall>j < k. limit < sizes_sum (drop j ss)) \<and>
           (sizes_sum (drop k ss) \<le> limit \<or> k = length ss \<or> \<not> before (Day (ss ! k)) cutoff)"
  using assms(2-4)
proof (induction ss arbitrary: tot d)
  case (Cons s ss)
  show ?case
  proof (cases "tot \<le> limit \<or> \<not> before (Day s) cutoff")
    case True
    then show ?thesis using Cons.prems by (intro exI [of _ 0]) auto
  next
    case False
    let ?d = "emit (DropDayPartitions (Day s)) d"
    have "0 \<le> sizes_sum ss"
      using Cons.prems(1) by (auto simp: sizes_sum_def list_all_iff intro!: sum_list_nonneg)
    moreover have t: "tot - TotalSize s = sizes_sum ss" using Cons.prems(2) by (simp add: sizes_sum_def)
    ultimately have w: "wrap64 (tot - TotalSize s) = sizes_sum ss"
      using Cons.prems(1,3) by (simp add: wrap64_id in_i64_def)
    obtain k where k: "k \<le> length ss"
      "effects (retention_loop e limit cutoff ss (sizes_sum ss) ?d) =
         effects ?d @ map DropDayPartitions (map Day (take k ss))"
      "\<forall>j < k. limit < sizes_sum (drop j ss)"
      "sizes_sum (drop k ss) \<le> limit \<or> k = length ss \<or> \<not> before (Day (ss ! k)) cutoff"
      using Cons.IH [of "sizes_sum ss" ?d] Cons.prems t by auto
    have "\<forall>j < Suc k. limit < sizes_sum (drop j (s # ss))"
      using k(3) False Cons.prems(2) by (auto simp: less_Suc_eq_0_disj)
    with k False show ?thesis
      by (intro exI [of _ "Suc k"]) (auto simp: w assms(1) Let_def emit_def)
  qed
qed simp

lemma foldl_wrap_sum:
  "foldl (\<lambda>a s. wrap64 (a + TotalSize s)) (wrap64 a) ss = wrap64 (a + sizes_sum ss)"
proof (induction ss arbitrary: a)
  case (Cons s ss)
  have "wrap64 (wrap64 a + TotalSize s) = wrap64 (a + TotalSize s)"
    unfolding wrap64_def by (simp add: mod_simps algebra_simps)
  with Cons [of "a + TotalSize s"] show ?case by (simp add: sizes_sum_def add.assoc)
qed (simp add: sizes_sum_def)

lemma total_exact:
  assumes "list_all (\<lambda>s. 0 \<le> TotalSize s) ss" and "sizes_sum ss < 2 ^ 63"
  shows "foldl (\<lambda>a s. wrap64 (a + TotalSize s)) 0 ss = sizes_sum ss"
proof -
  have "0 \<le> sizes_sum ss"
    using assms(1) by (auto simp: sizes_sum_def list_all_iff intro!: sum_list_nonneg)
  moreover have "wrap64 0 = 0" by (simp add: wrap64_def)
  ultimately show ?thesis
    using foldl_wrap_sum [of 0 ss] assms(2) by (simp add: wrap64_id in_i64_def)
qed

section \<open>Properties\<close>

text \<open>
  C8: the size-based retention only ever drops days strictly older than the configured minimum
  age, at most once each and in the order the store lists them, whatever the store answers.
\<close>

theorem retention_keeps_young_days:
  "\<exists>days. effects (maybeRunRetention e cfg d) = effects d @ map DropDayPartitions days \<and>
          list_all (\<lambda>x. x < rt_now e - RetentionMinDays cfg * (24 * hour)) days \<and>
          (\<forall>sizes. partition_sizes e = Inr sizes \<longrightarrow> subseq days (map Day sizes))"
proof (cases "RetentionBytes cfg \<le> 0 \<or> throttled (lastRetry d) (rt_check e)")
  case True
  then show ?thesis by (intro exI [of _ "[]"]) (auto simp: maybeRunRetention_def)
next
  case run: False
  show ?thesis
  proof (cases "partition_sizes e")
    case (Inl x)
    with run show ?thesis by (intro exI [of _ "[]"]) (auto simp: maybeRunRetention_def)
  next
    case (Inr sizes)
    let ?tot = "foldl (\<lambda>a s. wrap64 (a + TotalSize s)) 0 sizes"
    show ?thesis
      using run Inr retention_loop_effects [of e "RetentionBytes cfg"
          "days_before (rt_now e) (RetentionMinDays cfg)" sizes ?tot "d\<lparr>lastRetry := Some (rt_mark e)\<rparr>"]
      by (cases "?tot \<le> RetentionBytes cfg")
        (auto simp: maybeRunRetention_def Let_def days_before_def before_def intro: exI [of _ "[]"])
  qed
qed

text \<open>
  A retention run whose drops succeed frees exactly the shortest prefix of old days: while
  it drops, the remaining size still exceeds the limit, and it stops because the rest fits,
  nothing is left, or the next day is protected by the minimum age.
\<close>

theorem retention_frees_enough:
  assumes "0 < RetentionBytes cfg" and "\<not> throttled (lastRetry d) (rt_check e)"
    and "partition_sizes e = Inr ss" and "\<And>day. drop_day e day = None"
    and "list_all (\<lambda>s. 0 \<le> TotalSize s) ss" and "sizes_sum ss < 2 ^ 63"
  shows "\<exists>k \<le> length ss.
           effects (maybeRunRetention e cfg d) = effects d @ map DropDayPartitions (map Day (take k ss)) \<and>
           (\<forall>j < k. RetentionBytes cfg < sizes_sum (drop j ss)) \<and>
           (sizes_sum (drop k ss) \<le> RetentionBytes cfg \<or> k = length ss \<or>
            rt_now e - RetentionMinDays cfg * (24 * hour) \<le> Day (ss ! k))"
proof (cases "sizes_sum ss \<le> RetentionBytes cfg")
  case True
  with assms show ?thesis
    by (intro exI [of _ 0]) (simp add: maybeRunRetention_def Let_def total_exact)
next
  case False
  with assms retention_loop_prefix [OF assms(4,5) refl assms(6), where d = "d\<lparr>lastRetry := Some (rt_mark e)\<rparr>"
      and limit = "RetentionBytes cfg" and cutoff = "days_before (rt_now e) (RetentionMinDays cfg)"]
  show ?thesis
    by (simp add: maybeRunRetention_def Let_def total_exact days_before_def before_def not_less)
qed

text \<open>
  A target that never yields a snapshot is attempted once per schedule tick: after an
  attempt the next one is due only when the schedule, counted from that attempt, has fired
  (24 hours for the daily fallback), and looking does not move the clock.
\<close>

theorem failed_target_waits_for_schedule:
  assumes "stored key = None" and "dueForCapture attempts sched stored key now = (True, attempts')"
    and "\<not> cronDue sched now later"
  shows "dueForCapture attempts' sched stored key later = (False, attempts')"
  using assms by (auto simp: dueForCapture_def split: option.splits if_splits)

definition demo_retention :: retention_env where
  "demo_retention =
     \<lparr>rt_check = 0, rt_mark = 0, rt_now = 300 * hour,
      partition_sizes = Inr [\<lparr>Day = 0, TotalSize = 900000\<rparr>, \<lparr>Day = 24 * hour, TotalSize = 900000\<rparr>],
      drop_day = (\<lambda>_. None)\<rparr>"

theorem retention_keeps_young_witness:
  "\<exists>days. effects (maybeRunRetention demo_retention shipped_config NewDaemon) =
            effects NewDaemon @ map DropDayPartitions days \<and>
          list_all (\<lambda>x. x < rt_now demo_retention - RetentionMinDays shipped_config * (24 * hour)) days"
  using retention_keeps_young_days [of demo_retention shipped_config NewDaemon] by blast

theorem retention_frees_witness:
  "\<exists>k \<le> length [\<lparr>Day = 0, TotalSize = 900000\<rparr>, \<lparr>Day = 24 * hour, TotalSize = 900000\<rparr>].
     effects (maybeRunRetention demo_retention shipped_config NewDaemon) =
       effects NewDaemon @ map DropDayPartitions
         (map Day (take k [\<lparr>Day = 0, TotalSize = 900000\<rparr>, \<lparr>Day = 24 * hour, TotalSize = 900000\<rparr>]))"
  using retention_frees_enough [of shipped_config NewDaemon demo_retention
      "[\<lparr>Day = 0, TotalSize = 900000\<rparr>, \<lparr>Day = 24 * hour, TotalSize = 900000\<rparr>]"]
  by (auto simp: demo_retention_def shipped_config_def throttled_def NewDaemon_def sizes_sum_def)

theorem failed_target_witness:
  "dueForCapture [''c/h'' \<mapsto> 0] None Map.empty ''c/h'' hour = (False, [''c/h'' \<mapsto> 0])"
  by (rule failed_target_waits_for_schedule [where now = 0 and attempts = Map.empty])
    (simp_all add: dueForCapture_def cronDue_def time_sub_def duration_units)

end
