(* ===== verification/Stat_IO.thy ===== *)
theory Stat_IO
  imports Prelude
begin

text \<open>
  Package \<^verbatim>\<open>backend/internal/statio\<close>: cumulative \<^verbatim>\<open>pg_stat_io\<close> captures
  of one host, the deltas between them, the plan of a bounded series of chart points and its
  assembly (\<^verbatim>\<open>statio.go\<close>).

  A Go map is an association list with distinct keys; the list order stands for one
  iteration order and no result depends on it. Counters are 64-bit and wrap.
\<close>

section \<open>Data\<close>

record Key =
  BackendType :: string
  Object :: string
  Context :: string

type_synonym counters = "(string \<times> i64) list"

record Row =
  row_Key :: Key
  Values :: counters

record Snapshot =
  snap_CapturedAt :: time
  snap_VersionNum :: i64
  OpBytes :: "i64 option"
  snap_TrackIOTiming :: bool
  snap_TrackWALIOTiming :: bool
  snap_StatsReset :: "time option"
  snap_Rows :: "Row list"

record Meta =
  CapturedAt :: time
  VersionNum :: i64
  TrackIOTiming :: bool
  TrackWALIOTiming :: "bool option"
  StatsReset :: "time option"

record Interval =
  iv_From :: time
  iv_To :: time
  iv_Duration :: duration
  Complete :: bool
  iv_Rows :: "Row list"

record Bucket =
  b_From :: time
  b_To :: time
  b_Duration :: duration
  b_Partial :: bool
  b_Rows :: "Row list"

record Span =
  sp_From :: time
  sp_To :: time

record BucketPlan =
  bp_From :: time
  bp_To :: time
  bp_Duration :: duration
  Partial :: bool
  Spans :: "Span list"

record Plan =
  Buckets :: "BucketPlan list"

definition MinVersionNum :: i64 where "MinVersionNum = 160000"

definition meta_of :: "Snapshot \<Rightarrow> Meta" where
  "meta_of s =
     \<lparr>CapturedAt = snap_CapturedAt s, VersionNum = snap_VersionNum s,
      TrackIOTiming = snap_TrackIOTiming s, TrackWALIOTiming = Some (snap_TrackWALIOTiming s),
      StatsReset = snap_StatsReset s\<rparr>"

section \<open>Deltas\<close>

definition byteCounters :: "(string \<times> string) list" where
  "byteCounters =
     [(''reads'', ''read_bytes''), (''writes'', ''write_bytes''), (''extends'', ''extend_bytes'')]"

definition fill_bytes :: "i64 \<Rightarrow> counters \<Rightarrow> counters" where
  "fill_bytes op vals =
     fold (\<lambda>(src, dst) vals.
        if map_of vals dst \<noteq> None then vals
        else (case map_of vals src of
                None \<Rightarrow> vals
              | Some v \<Rightarrow> AList.update dst (wrap64 (v * op)) vals)) byteCounters vals"

definition Normalized :: "Snapshot \<Rightarrow> Snapshot" where
  "Normalized s =
     (case OpBytes s of
        None \<Rightarrow> s
      | Some op \<Rightarrow>
          if op \<le> 0 then s
          else s\<lparr>snap_Rows := map (\<lambda>r. \<lparr>row_Key = row_Key r, Values = fill_bytes op (Values r)\<rparr>) (snap_Rows s)\<rparr>)"

definition sameEpoch :: "Meta \<Rightarrow> Meta \<Rightarrow> bool" where
  "sameEpoch prev cur =
     (if tdiv (VersionNum prev) 10000 \<noteq> tdiv (VersionNum cur) 10000 then False
      else (case (StatsReset prev, StatsReset cur) of
              (None, None) \<Rightarrow> True
            | (Some a, Some b) \<Rightarrow> a = b
            | _ \<Rightarrow> False))"

text \<open>The deltas of one row against its baseline; \<open>None\<close> when a counter fell.\<close>

fun counter_deltas :: "counters \<Rightarrow> counters \<Rightarrow> counters option" where
  "counter_deltas b [] = Some []"
| "counter_deltas b ((name, v) # vs) =
     (case map_of b name of
        None \<Rightarrow> counter_deltas b vs
      | Some p \<Rightarrow>
          if v < p then None
          else (case counter_deltas b vs of
                  None \<Rightarrow> None
                | Some ds \<Rightarrow> Some ((name, wrap64 (v - p)) # ds)))"

fun row_deltas :: "(Key \<rightharpoonup> counters) \<Rightarrow> Row list \<Rightarrow> Row list option" where
  "row_deltas base [] = Some []"
| "row_deltas base (c # cs) =
     (case base (row_Key c) of
        None \<Rightarrow> row_deltas base cs
      | Some b \<Rightarrow>
          (case counter_deltas b (Values c) of
             None \<Rightarrow> None
           | Some ds \<Rightarrow>
               (case row_deltas base cs of
                  None \<Rightarrow> None
                | Some rs \<Rightarrow> Some (\<lparr>row_Key = row_Key c, Values = ds\<rparr> # rs))))"

definition rows_by_key :: "Row list \<Rightarrow> Key \<rightharpoonup> counters" where
  "rows_by_key rows = map_of (rev (map (\<lambda>r. (row_Key r, Values r)) rows))"

definition Delta :: "Snapshot \<Rightarrow> Snapshot \<Rightarrow> Interval \<times> bool" where
  "Delta prev cur =
     (let iv = \<lparr>iv_From = snap_CapturedAt prev, iv_To = snap_CapturedAt cur,
                iv_Duration = time_sub (snap_CapturedAt cur) (snap_CapturedAt prev),
                Complete = False, iv_Rows = []\<rparr>
      in if iv_Duration iv \<le> 0 \<or> \<not> sameEpoch (meta_of prev) (meta_of cur) then (iv, False)
         else (case row_deltas (rows_by_key (snap_Rows (Normalized prev))) (snap_Rows (Normalized cur)) of
                 None \<Rightarrow> (iv, False)
               | Some rows \<Rightarrow> (iv\<lparr>Complete := True, iv_Rows := rows\<rparr>, True)))"

section \<open>Plan of a series\<close>

definition meta_interval :: "Meta \<Rightarrow> Meta \<Rightarrow> Interval" where
  "meta_interval prev cur =
     (let dur = time_sub (CapturedAt cur) (CapturedAt prev)
      in \<lparr>iv_From = CapturedAt prev, iv_To = CapturedAt cur, iv_Duration = dur,
          Complete = 0 < dur \<and> sameEpoch prev cur, iv_Rows = []\<rparr>)"

definition metaIntervals :: "Meta list \<Rightarrow> Interval list" where
  "metaIntervals metas = map (\<lambda>(prev, cur). meta_interval prev cur) (zip metas (tl metas))"

definition group_index :: "time \<Rightarrow> duration \<Rightarrow> nat \<Rightarrow> Interval \<Rightarrow> nat" where
  "group_index start width points iv =
     (let idx = tdiv (time_sub (time_add (iv_From iv) (tdiv (time_sub (iv_To iv) (iv_From iv)) 2)) start) width;
          idx = (if int points \<le> idx then int points - 1 else idx);
          idx = (if idx < 0 then 0 else idx)
      in nat idx)"

definition fill_groups :: "(Interval \<Rightarrow> nat) \<Rightarrow> nat \<Rightarrow> Interval list \<Rightarrow> Interval list list" where
  "fill_groups f n ivs =
     fold (\<lambda>iv gs. gs[f iv := gs ! f iv @ [iv]]) ivs (replicate n [])"

text \<open>\<open>None\<close> is the division by a zero width, a panic in Go.\<close>

definition groupIntervals :: "Interval list \<Rightarrow> i64 \<Rightarrow> Interval list list option" where
  "groupIntervals intervals points =
     (if intervals = [] then Some []
      else
        (let points = nat (if points < 1 then 1 else points)
         in if length intervals \<le> points then Some (map (\<lambda>iv. [iv]) intervals)
            else
              (let start = iv_From (hd intervals);
                   span = time_sub (iv_To (last intervals)) start
               in if span \<le> 0 then Some [intervals]
                  else
                    (let width = tdiv span (int points)
                     in if width = 0 then None
                        else Some (filter (\<lambda>g. g \<noteq> [])
                               (fill_groups (group_index start width points) points intervals))))))"

text \<open>State of the fold of \<^verbatim>\<open>planOf\<close>: the plan and whether its last span is open.\<close>

definition plan_step :: "Interval \<Rightarrow> BucketPlan \<times> bool \<Rightarrow> BucketPlan \<times> bool" where
  "plan_step iv = (\<lambda>(p, open_span).
     if \<not> Complete iv then (p\<lparr>Partial := True\<rparr>, False)
     else
       (let p = p\<lparr>bp_Duration := wrap64 (bp_Duration p + iv_Duration iv)\<rparr>
        in if open_span
           then (p\<lparr>Spans := butlast (Spans p) @ [(last (Spans p))\<lparr>sp_To := iv_To iv\<rparr>]\<rparr>, True)
           else (p\<lparr>Spans := Spans p @ [\<lparr>sp_From = iv_From iv, sp_To = iv_To iv\<rparr>]\<rparr>, True)))"

text \<open>Called on non-empty groups only: the source indexes the first and the last interval.\<close>

definition planOf :: "Interval list \<Rightarrow> BucketPlan" where
  "planOf g =
     fst (fold plan_step g
       (\<lparr>bp_From = iv_From (hd g), bp_To = iv_To (last g), bp_Duration = 0, Partial = False,
         Spans = []\<rparr>, False))"

definition PlanBuckets :: "Meta list \<Rightarrow> i64 \<Rightarrow> Plan option" where
  "PlanBuckets metas points =
     (case groupIntervals (metaIntervals metas) points of
        None \<Rightarrow> None
      | Some groups \<Rightarrow> Some \<lparr>Buckets = map planOf groups\<rparr>)"

text \<open>\<^verbatim>\<open>time.Time.UnixNano\<close>: 64-bit nanoseconds since the epoch.\<close>

definition UnixNano :: "time \<Rightarrow> i64" where
  "UnixNano t = wrap64 t"

definition span_times :: "Plan \<Rightarrow> time list" where
  "span_times p = concat (map (\<lambda>b. concat (map (\<lambda>s. [sp_From s, sp_To s]) (Spans b))) (Buckets p))"

text \<open>The first occurrence of each time, in order; \<open>sn\<close> is the set \<^verbatim>\<open>seen\<close>.\<close>

fun first_seen :: "i64 list \<Rightarrow> time list \<Rightarrow> time list" where
  "first_seen sn [] = []"
| "first_seen sn (t # ts) =
     (if UnixNano t \<in> set sn then first_seen sn ts else t # first_seen (UnixNano t # sn) ts)"

definition At :: "Plan \<Rightarrow> time list" where
  "At p = first_seen [] (span_times p)"

section \<open>Assembly\<close>

definition add_counters :: "counters \<Rightarrow> counters \<Rightarrow> counters" where
  "add_counters vs dst =
     fold (\<lambda>(name, v) dst.
        AList.update name (wrap64 ((case map_of dst name of None \<Rightarrow> 0 | Some x \<Rightarrow> x) + v)) dst) vs dst"

type_synonym acc = "(Key \<times> counters) list"

definition add_row :: "Key \<Rightarrow> counters \<Rightarrow> acc \<Rightarrow> acc" where
  "add_row k vs acc =
     AList.update k (add_counters vs (case map_of acc k of None \<Rightarrow> [] | Some dst \<Rightarrow> dst)) acc"

definition key_order :: "Key \<Rightarrow> string \<times> string \<times> string" where
  "key_order k = (BackendType k, Object k, Context k)"

definition sortedRows :: "acc \<Rightarrow> Row list" where
  "sortedRows acc =
     sort_key (\<lambda>r. key_order (row_Key r)) (map (\<lambda>(k, v). \<lparr>row_Key = k, Values = v\<rparr>) acc)"

definition snaps_by_time :: "Snapshot list \<Rightarrow> i64 \<rightharpoonup> Snapshot" where
  "snaps_by_time snaps = map_of (rev (map (\<lambda>s. (UnixNano (snap_CapturedAt s), s)) snaps))"

definition spanDelta :: "(i64 \<rightharpoonup> Snapshot) \<Rightarrow> Span \<Rightarrow> Interval option" where
  "spanDelta byTime s =
     (case byTime (UnixNano (sp_From s)) of
        None \<Rightarrow> None
      | Some f \<Rightarrow>
          (case byTime (UnixNano (sp_To s)) of
             None \<Rightarrow> None
           | Some t \<Rightarrow> (let (iv, ok) = Delta f t in if ok then Some iv else None)))"

definition assemble_span :: "(i64 \<rightharpoonup> Snapshot) \<Rightarrow> Span \<Rightarrow> Bucket \<times> acc \<Rightarrow> Bucket \<times> acc" where
  "assemble_span byTime s = (\<lambda>(b, acc).
     case spanDelta byTime s of
       None \<Rightarrow> (b\<lparr>b_Partial := True,
                  b_Duration := wrap64 (b_Duration b - time_sub (sp_To s) (sp_From s))\<rparr>, acc)
     | Some iv \<Rightarrow> (b, fold (\<lambda>r. add_row (row_Key r) (Values r)) (iv_Rows iv) acc))"

definition assemble_bucket :: "(i64 \<rightharpoonup> Snapshot) \<Rightarrow> BucketPlan \<Rightarrow> Bucket" where
  "assemble_bucket byTime bp =
     (let (b, acc) = fold (assemble_span byTime) (Spans bp)
                       (\<lparr>b_From = bp_From bp, b_To = bp_To bp, b_Duration = bp_Duration bp,
                         b_Partial = Partial bp, b_Rows = []\<rparr>, [])
      in b\<lparr>b_Rows := sortedRows acc\<rparr>)"

definition Assemble :: "Plan \<Rightarrow> Snapshot list \<Rightarrow> Bucket list" where
  "Assemble p snaps = map (assemble_bucket (snaps_by_time snaps)) (Buckets p)"

section \<open>Reduction\<close>

record Filter =
  f_BackendType :: string
  f_Object :: string
  f_Context :: string

definition filter_match :: "Filter \<Rightarrow> Key \<Rightarrow> bool" where
  "filter_match f k =
     (if f_BackendType f \<noteq> '''' \<and> f_BackendType f \<noteq> BackendType k then False
      else if f_Object f \<noteq> '''' \<and> f_Object f \<noteq> Object k then False
      else f_Context f = '''' \<or> f_Context f = Context k)"

datatype GroupBy = GroupByContext | GroupByBackendType | GroupByFull | GroupByOther string

definition project :: "GroupBy \<Rightarrow> Key \<Rightarrow> Key" where
  "project g k =
     (case g of
        GroupByBackendType \<Rightarrow> \<lparr>BackendType = BackendType k, Object = '''', Context = ''''\<rparr>
      | GroupByFull \<Rightarrow> k
      | GroupByContext \<Rightarrow> \<lparr>BackendType = '''', Object = '''', Context = Context k\<rparr>
      | GroupByOther _ \<Rightarrow> \<lparr>BackendType = '''', Object = '''', Context = Context k\<rparr>)"

definition Reduce :: "Row list \<Rightarrow> Filter \<Rightarrow> GroupBy \<Rightarrow> Row list" where
  "Reduce rows f g =
     sortedRows (fold (\<lambda>r acc. if \<not> filter_match f (row_Key r) then acc
                                else add_row (project g (row_Key r)) (Values r) acc) rows [])"

section \<open>Grouping\<close>

lemma fill_groups_gen:
  assumes "\<forall>iv\<in>set ivs. f iv < length gs"
  shows "fold (\<lambda>iv gs. gs[f iv := gs ! f iv @ [iv]]) ivs gs
       = map (\<lambda>i. gs ! i @ filter (\<lambda>iv. f iv = i) ivs) [0..<length gs]"
  using assms
proof (induction ivs arbitrary: gs)
  case Nil
  then show ?case by (simp add: map_nth)
next
  case (Cons iv ivs)
  let ?gs = "gs[f iv := gs ! f iv @ [iv]]"
  have "fold (\<lambda>iv gs. gs[f iv := gs ! f iv @ [iv]]) ivs ?gs
      = map (\<lambda>i. ?gs ! i @ filter (\<lambda>iv. f iv = i) ivs) [0..<length ?gs]"
    by (rule Cons.IH) (use Cons.prems in simp)
  also have "\<dots> = map (\<lambda>i. gs ! i @ filter (\<lambda>x. f x = i) (iv # ivs)) [0..<length gs]"
    using Cons.prems by (intro nth_equalityI) (auto simp: nth_list_update)
  finally show ?case by simp
qed

lemma fill_groups_filter:
  "\<forall>iv\<in>set ivs. f iv < n \<Longrightarrow> fill_groups f n ivs = map (\<lambda>i. filter (\<lambda>iv. f iv = i) ivs) [0..<n]"
  unfolding fill_groups_def by (subst fill_groups_gen) auto

lemma filter_below_step:
  "sorted (map f ivs) \<Longrightarrow>
   filter (\<lambda>x. f x < n) ivs @ filter (\<lambda>x. f x = n) ivs = filter (\<lambda>x. f x < Suc n) ivs"
proof (induction ivs)
  case (Cons x xs)
  show ?case
  proof (cases "f x < n")
    case True
    with Cons show ?thesis by simp
  next
    case False
    with Cons.prems have "filter (\<lambda>x. f x < n) xs = []"
      by (force simp: filter_empty_conv)
    with False Cons show ?thesis by auto
  qed
qed simp

lemma concat_classes:
  "sorted (map f ivs) \<Longrightarrow>
   concat (map (\<lambda>i. filter (\<lambda>x. f x = i) ivs) [0..<n]) = filter (\<lambda>x. f x < n) ivs"
  by (induction n) (simp_all add: filter_below_step)

lemma concat_filter_nonempty: "concat (filter (\<lambda>g. g \<noteq> []) gs) = concat gs"
  by (induction gs) auto

lemma fill_groups_partition:
  assumes "\<forall>iv\<in>set ivs. f iv < n" and "sorted (map f ivs)"
  defines "gs \<equiv> filter (\<lambda>g. g \<noteq> []) (fill_groups f n ivs)"
  shows "concat gs = ivs" and "[] \<notin> set gs" and "length gs \<le> n"
proof -
  have fg: "fill_groups f n ivs = map (\<lambda>i. filter (\<lambda>iv. f iv = i) ivs) [0..<n]"
    using assms(1) by (rule fill_groups_filter)
  show "concat gs = ivs"
    unfolding gs_def concat_filter_nonempty fg concat_classes [OF assms(2)]
    using assms(1) by (simp add: filter_id_conv)
  show "[] \<notin> set gs" by (simp add: gs_def)
  have "length gs \<le> length (fill_groups f n ivs)"
    unfolding gs_def by (rule length_filter_le)
  then show "length gs \<le> n" by (simp add: fg)
qed

text \<open>Back to back intervals of positive length.\<close>

fun chained :: "Interval list \<Rightarrow> bool" where
  "chained [] = True"
| "chained [a] = (iv_From a < iv_To a)"
| "chained (a # b # ivs) = (iv_From a < iv_To a \<and> iv_To a = iv_From b \<and> chained (b # ivs))"

definition midpoint :: "Interval \<Rightarrow> time" where
  "midpoint iv = time_add (iv_From iv) (tdiv (time_sub (iv_To iv) (iv_From iv)) 2)"

lemma midpoint_inside:
  assumes "iv_From iv < iv_To iv"
  shows "iv_From iv \<le> midpoint iv" and "midpoint iv \<le> iv_To iv"
proof -
  let ?d = "time_sub (iv_To iv) (iv_From iv)"
  have d: "0 < ?d" "?d \<le> iv_To iv - iv_From iv"
    using assms by (simp_all add: time_sub_le)
  have "tdiv ?d 2 = ?d div 2" by (rule tdiv_nonneg) (use d(1) in linarith, simp)
  then show "iv_From iv \<le> midpoint iv" "midpoint iv \<le> iv_To iv"
    unfolding midpoint_def time_add_def using d by linarith+
qed

lemma chained_midpoints:
  "chained ivs \<Longrightarrow> sorted (map midpoint ivs) \<and> (\<forall>iv\<in>set ivs. iv_From (hd ivs) \<le> midpoint iv)"
proof (induction ivs rule: chained.induct)
  case (3 a b ivs)
  then have ih: "sorted (map midpoint (b # ivs))" "\<forall>iv\<in>set (b # ivs). iv_From b \<le> midpoint iv"
    and ab: "iv_From a < iv_To a" "iv_To a = iv_From b" by auto
  have ma: "iv_From a \<le> midpoint a" "midpoint a \<le> iv_From b"
    using midpoint_inside [OF ab(1)] ab(2) by auto
  have "\<forall>iv\<in>set (b # ivs). midpoint a \<le> midpoint iv"
    using ih(2) ma(2) order_trans by blast
  then show ?case using ih ma by auto
qed (auto simp: midpoint_inside)

lemma chained_span:
  "chained ivs \<Longrightarrow> ivs \<noteq> [] \<Longrightarrow> int (length ivs) \<le> iv_To (last ivs) - iv_From (hd ivs)"
  by (induction ivs rule: chained.induct) auto

lemma group_index_bound: "0 < points \<Longrightarrow> group_index start width points iv < points"
  unfolding group_index_def Let_def by (simp; linarith)

lemma group_index_mono:
  assumes "0 < width" and "midpoint a \<le> midpoint b"
  shows "group_index start width points a \<le> group_index start width points b"
proof -
  have "tdiv (time_sub (midpoint a) start) width \<le> tdiv (time_sub (midpoint b) start) width"
    using assms by (intro tdiv_mono time_sub_mono) auto
  then show ?thesis
    unfolding group_index_def Let_def midpoint_def [symmetric] by (simp add: nat_mono; linarith)
qed

lemma sorted_group_index:
  "0 < width \<Longrightarrow> sorted (map midpoint ivs) \<Longrightarrow> sorted (map (group_index start width points) ivs)"
  by (induction ivs) (auto intro: group_index_mono)

lemma groupIntervals_partition:
  assumes ch: "chained ivs" and pt: "in_i64 points"
  obtains gs where "groupIntervals ivs points = Some gs" "concat gs = ivs" "[] \<notin> set gs"
    "length gs \<le> nat (max 1 points)"
proof -
  let ?n = "nat (max 1 points)"
  let ?start = "iv_From (hd ivs)"
  let ?span = "time_sub (iv_To (last ivs)) ?start"
  let ?width = "tdiv ?span (int ?n)"
  let ?gs = "filter (\<lambda>g. g \<noteq> []) (fill_groups (group_index ?start ?width ?n) ?n ivs)"
  consider (nil) "ivs = []" | (single) "ivs \<noteq> []" "length ivs \<le> ?n" | (fold) "ivs \<noteq> []" "?n < length ivs"
    by linarith
  then show thesis
  proof cases
    case nil
    then show thesis using that [of "[]"] by (simp add: groupIntervals_def)
  next
    case single
    have cs: "concat (map (\<lambda>iv. [iv]) xs) = xs" for xs :: "Interval list" by (induction xs) auto
    have "nat (if points < 1 then 1 else points) = ?n" by (simp add: max_def)
    then have "groupIntervals ivs points = Some (map (\<lambda>iv. [iv]) ivs)"
      using single by (simp add: groupIntervals_def Let_def)
    then show thesis using that [of "map (\<lambda>iv. [iv]) ivs"] single(2) cs by (auto simp: max_def)
  next
    case fold
    have len: "int (length ivs) \<le> iv_To (last ivs) - ?start"
      using ch fold(1) by (rule chained_span)
    have "int ?n \<le> ?span"
      using len fold(2) pt by (auto simp: time_sub_def in_i64_def)
    moreover have np: "0 < int ?n" by (simp add: max_def)
    ultimately have span: "0 < ?span" and w: "0 < ?width"
      using tdiv_nonneg [of ?span "int ?n"] pos_imp_zdiv_pos_iff [OF np, of ?span] by linarith+
    have "nat (if points < 1 then 1 else points) = ?n" by (simp add: max_def)
    then have eq: "groupIntervals ivs points = Some ?gs"
      using fold span w by (simp add: groupIntervals_def Let_def)
    have b: "\<forall>iv\<in>set ivs. group_index ?start ?width ?n iv < ?n"
      by (simp add: group_index_bound)
    have s: "sorted (map (group_index ?start ?width ?n) ivs)"
      using w chained_midpoints [OF ch] by (intro sorted_group_index) auto
    show thesis by (rule that [OF eq fill_groups_partition [OF b s]])
  qed
qed

section \<open>Cells of a matrix\<close>

text \<open>A matrix is read by cell: one counter of one row.\<close>

definition row_entries :: "Row list \<Rightarrow> (Key \<times> counters) list" where
  "row_entries rows = map (\<lambda>r. (row_Key r, Values r)) rows"

definition cell :: "Row list \<Rightarrow> Key \<Rightarrow> string \<Rightarrow> i64 option" where
  "cell rows k n = (case rows_by_key rows k of None \<Rightarrow> None | Some vs \<Rightarrow> map_of vs n)"

definition rows_wf :: "Row list \<Rightarrow> bool" where
  "rows_wf rows \<longleftrightarrow> distinct (map row_Key rows) \<and> (\<forall>r\<in>set rows. distinct (map fst (Values r)))"

definition reading :: "Snapshot \<Rightarrow> Key \<Rightarrow> string \<Rightarrow> i64 option" where
  "reading s = cell (snap_Rows (Normalized s))"

definition fell :: "Snapshot \<Rightarrow> Snapshot \<Rightarrow> bool" where
  "fell prev cur \<longleftrightarrow> (\<exists>k n p c. reading prev k n = Some p \<and> reading cur k n = Some c \<and> c < p)"

lemma rows_by_key_eq: "distinct (map row_Key rows) \<Longrightarrow> rows_by_key rows = map_of (row_entries rows)"
  unfolding rows_by_key_def row_entries_def by (rule map_of_rev_distinct) (simp add: o_def)

lemma distinct_update_fst: "distinct (map fst xs) \<Longrightarrow> distinct (map fst (AList.update k v xs))"
  by (rule AList.distinct_update)

lemma fill_bytes_distinct:
  "distinct (map fst vals) \<Longrightarrow> distinct (map fst (fill_bytes op vals))"
  unfolding fill_bytes_def
  by (rule fold_invariant_set) (auto split: option.splits intro: distinct_update_fst)

lemma Normalized_rows_wf: "rows_wf (snap_Rows s) \<Longrightarrow> rows_wf (snap_Rows (Normalized s))"
  by (auto simp: Normalized_def rows_wf_def o_def fill_bytes_distinct split: option.split)

lemma Normalized_CapturedAt [simp]: "snap_CapturedAt (Normalized s) = snap_CapturedAt s"
  by (simp add: Normalized_def split: option.split)

lemma counter_deltas_None_iff:
  "counter_deltas b vs = None \<longleftrightarrow> (\<exists>x\<in>set vs. \<exists>p. map_of b (fst x) = Some p \<and> snd x < p)"
proof (induction vs)
  case (Cons x vs)
  then show ?case
    by (cases x; cases "map_of b (fst x)"; cases "counter_deltas b vs") auto
qed simp

lemma counter_deltas_lookup:
  "counter_deltas b vs = Some ds \<Longrightarrow>
   map_of ds n = (case map_of b n of None \<Rightarrow> None | Some p \<Rightarrow> map_option (\<lambda>c. wrap64 (c - p)) (map_of vs n))"
  by (induction b vs arbitrary: ds rule: counter_deltas.induct)
    (auto split: option.splits if_splits)

lemma counter_deltas_names:
  "counter_deltas b vs = Some ds \<Longrightarrow> n \<in> fst ` set ds \<Longrightarrow> n \<in> fst ` set vs"
proof (induction vs arbitrary: ds)
  case (Cons x vs)
  obtain m v where x: "x = (m, v)" by (cases x)
  show ?case
  proof (cases "map_of b m")
    case None
    with Cons x show ?thesis by simp
  next
    case (Some p)
    then obtain es where "counter_deltas b vs = Some es" "ds = (m, wrap64 (v - p)) # es"
      using Cons.prems x by (auto split: if_splits option.splits)
    with Cons x show ?thesis by auto
  qed
qed simp

lemma counter_deltas_distinct:
  "counter_deltas b vs = Some ds \<Longrightarrow> distinct (map fst vs) \<Longrightarrow> distinct (map fst ds)"
proof (induction vs arbitrary: ds)
  case (Cons x vs)
  obtain m v where x: "x = (m, v)" by (cases x)
  show ?case
  proof (cases "map_of b m")
    case None
    with Cons x show ?thesis by simp
  next
    case (Some p)
    then obtain es where es: "counter_deltas b vs = Some es" "ds = (m, wrap64 (v - p)) # es"
      using Cons.prems x by (auto split: if_splits option.splits)
    then have "m \<notin> fst ` set es"
      using Cons.prems(2) x counter_deltas_names [OF es(1)] by auto
    with es Cons x show ?thesis by simp
  qed
qed simp

lemma row_deltas_None_iff:
  "row_deltas base rows = None \<longleftrightarrow>
   (\<exists>r\<in>set rows. \<exists>b. base (row_Key r) = Some b \<and> counter_deltas b (Values r) = None)"
  by (induction base rows rule: row_deltas.induct) (auto split: option.splits)

lemma row_deltas_lookup:
  "row_deltas base rows = Some rs \<Longrightarrow>
   map_of (row_entries rs) k =
     (case base k of None \<Rightarrow> None
      | Some b \<Rightarrow> (case map_of (row_entries rows) k of None \<Rightarrow> None | Some vs \<Rightarrow> counter_deltas b vs))"
  by (induction base rows arbitrary: rs rule: row_deltas.induct)
    (auto simp: row_entries_def split: option.splits)

lemma row_deltas_entry:
  assumes "row_deltas base rows = Some rs" and "base k = Some b"
    and "map_of (row_entries rows) k = Some vs"
  obtains ds where "counter_deltas b vs = Some ds"
proof -
  have "\<exists>r\<in>set rows. row_Key r = k \<and> Values r = vs"
    using map_of_SomeD [OF assms(3)] by (auto simp: row_entries_def)
  then have "counter_deltas b vs \<noteq> None"
    using assms(1,2) row_deltas_None_iff [of base rows] by auto
  then show thesis using that by auto
qed

lemma row_deltas_Cons_cases:
  assumes "row_deltas base (c # cs) = Some rs"
  obtains (skip) "base (row_Key c) = None" "row_deltas base cs = Some rs"
  | (take) b ds rs' where "base (row_Key c) = Some b" "counter_deltas b (Values c) = Some ds"
      "row_deltas base cs = Some rs'" "rs = \<lparr>row_Key = row_Key c, Values = ds\<rparr> # rs'"
  using assms by (auto split: option.splits)

lemma row_deltas_keys:
  "row_deltas base rows = Some rs \<Longrightarrow> k \<in> row_Key ` set rs \<Longrightarrow> k \<in> row_Key ` set rows"
proof (induction rows arbitrary: rs)
  case (Cons c cs)
  from Cons.prems(1) show ?case
  proof (cases rule: row_deltas_Cons_cases)
    case skip
    then show ?thesis using Cons.IH Cons.prems(2) by simp
  next
    case (take b ds rs')
    then show ?thesis using Cons.IH [OF take(3)] Cons.prems(2) by auto
  qed
qed simp

lemma row_deltas_wf: "row_deltas base rows = Some rs \<Longrightarrow> rows_wf rows \<Longrightarrow> rows_wf rs"
proof (induction rows arbitrary: rs)
  case (Cons c cs)
  have cs: "rows_wf cs" using Cons.prems(2) by (simp add: rows_wf_def)
  from Cons.prems(1) show ?case
  proof (cases rule: row_deltas_Cons_cases)
    case skip
    then show ?thesis using Cons.IH cs by simp
  next
    case (take b ds rs')
    have "row_Key c \<notin> row_Key ` set rs'"
      using row_deltas_keys [OF take(3)] Cons.prems(2) by (auto simp: rows_wf_def)
    moreover have "distinct (map fst ds)"
      using counter_deltas_distinct [OF take(2)] Cons.prems(2) by (simp add: rows_wf_def)
    ultimately show ?thesis
      using Cons.IH [OF take(3) cs] take(4) by (simp add: rows_wf_def)
  qed
qed (simp add: rows_wf_def)

lemma cell_row_entries:
  "rows_wf rows \<Longrightarrow>
   cell rows k n = (case map_of (row_entries rows) k of None \<Rightarrow> None | Some vs \<Rightarrow> map_of vs n)"
  by (simp add: cell_def rows_wf_def rows_by_key_eq)

lemma row_deltas_cell:
  assumes "row_deltas (rows_by_key prev) cur = Some rs" and "rows_wf prev" and "rows_wf cur"
  shows "cell rs k n = (case cell prev k n of None \<Rightarrow> None
           | Some p \<Rightarrow> map_option (\<lambda>c. wrap64 (c - p)) (cell cur k n))"
proof (cases "map_of (row_entries prev) k = None \<or> map_of (row_entries cur) k = None")
  case True
  then show ?thesis
    using assms row_deltas_wf [OF assms(1,3)] row_deltas_lookup [OF assms(1), of k]
    by (auto simp: cell_row_entries rows_wf_def rows_by_key_eq split: option.splits)
next
  case False
  then obtain b vs where bv: "rows_by_key prev k = Some b" "map_of (row_entries cur) k = Some vs"
    using assms(2) by (auto simp: rows_wf_def rows_by_key_eq)
  obtain ds where ds: "counter_deltas b vs = Some ds"
    by (rule row_deltas_entry [OF assms(1) bv])
  have "cell rs k n = map_of ds n"
    using row_deltas_lookup [OF assms(1), of k] bv ds
    by (simp add: cell_row_entries [OF row_deltas_wf [OF assms(1,3)]])
  moreover have "cell prev k n = map_of b n" "cell cur k n = map_of vs n"
    using bv by (simp add: cell_def, simp add: cell_row_entries [OF assms(3)])
  ultimately show ?thesis by (simp add: counter_deltas_lookup [OF ds] split: option.split)
qed

lemma row_deltas_fell:
  assumes "rows_wf prev" and "rows_wf cur"
  shows "row_deltas (rows_by_key prev) cur = None \<longleftrightarrow>
         (\<exists>k n p c. cell prev k n = Some p \<and> cell cur k n = Some c \<and> c < p)"
    (is "_ \<longleftrightarrow> ?R")
proof
  assume "row_deltas (rows_by_key prev) cur = None"
  then obtain r b n v p where r: "r \<in> set cur" and b: "rows_by_key prev (row_Key r) = Some b"
    and v: "(n, v) \<in> set (Values r)" and p: "map_of b n = Some p" "v < p"
    by (auto simp: row_deltas_None_iff counter_deltas_None_iff)
  have "map_of (row_entries cur) (row_Key r) = Some (Values r)"
    using r assms(2) by (intro map_of_is_SomeI) (auto simp: rows_wf_def row_entries_def o_def)
  moreover have "map_of (Values r) n = Some v"
    using r v assms(2) by (intro map_of_is_SomeI) (auto simp: rows_wf_def)
  ultimately have "cell cur (row_Key r) n = Some v"
    using assms(2) by (simp add: cell_row_entries)
  moreover have "cell prev (row_Key r) n = Some p" using b p by (simp add: cell_def)
  ultimately show ?R using p by blast
next
  assume ?R
  then obtain k n p c where c: "cell prev k n = Some p" "cell cur k n = Some c" "c < p" by blast
  obtain vs where vs: "map_of (row_entries cur) k = Some vs" "map_of vs n = Some c"
    using c(2) assms(2) by (auto simp: cell_row_entries split: option.splits)
  obtain b where b: "rows_by_key prev k = Some b" "map_of b n = Some p"
    using c(1) by (auto simp: cell_def split: option.splits)
  obtain r where "r \<in> set cur" "row_Key r = k" "Values r = vs"
    using map_of_SomeD [OF vs(1)] by (auto simp: row_entries_def)
  moreover have "counter_deltas b vs = None"
    unfolding counter_deltas_None_iff
    by (rule bexI [OF _ map_of_SomeD [OF vs(2)]]) (use b c(3) in simp)
  ultimately show "row_deltas (rows_by_key prev) cur = None"
    unfolding row_deltas_None_iff using b by auto
qed

section \<open>Completeness of a delta\<close>

abbreviation comparable :: "Snapshot \<Rightarrow> Snapshot \<Rightarrow> bool" where
  "comparable prev cur \<equiv>
     snap_CapturedAt prev < snap_CapturedAt cur \<and> sameEpoch (meta_of prev) (meta_of cur)"

lemma Delta_cases:
  assumes "rows_wf (snap_Rows prev)" and "rows_wf (snap_Rows cur)"
  obtains
    (gap) "\<not> comparable prev cur \<or> fell prev cur" "Delta prev cur =
        (\<lparr>iv_From = snap_CapturedAt prev, iv_To = snap_CapturedAt cur,
          iv_Duration = time_sub (snap_CapturedAt cur) (snap_CapturedAt prev),
          Complete = False, iv_Rows = []\<rparr>, False)"
  | (measured) rs where "comparable prev cur" "\<not> fell prev cur" "Delta prev cur =
        (\<lparr>iv_From = snap_CapturedAt prev, iv_To = snap_CapturedAt cur,
          iv_Duration = time_sub (snap_CapturedAt cur) (snap_CapturedAt prev),
          Complete = True, iv_Rows = rs\<rparr>, True)"
      "rows_wf rs"
      "\<And>k n. cell rs k n = (case reading prev k n of None \<Rightarrow> None
         | Some p \<Rightarrow> map_option (\<lambda>c. wrap64 (c - p)) (reading cur k n))"
proof (cases "comparable prev cur")
  case False
  then show thesis by (intro gap) (auto simp: Delta_def Let_def)
next
  case True
  let ?p = "snap_Rows (Normalized prev)" and ?c = "snap_Rows (Normalized cur)"
  have wf: "rows_wf ?p" "rows_wf ?c" using assms by (simp_all add: Normalized_rows_wf)
  have f: "fell prev cur \<longleftrightarrow> row_deltas (rows_by_key ?p) ?c = None"
    by (simp add: fell_def reading_def row_deltas_fell [OF wf])
  show thesis
  proof (cases "row_deltas (rows_by_key ?p) ?c")
    case None
    then show thesis using True f by (intro gap) (auto simp: Delta_def Let_def)
  next
    case (Some rs)
    show thesis
    proof (rule measured [of rs])
      show "rows_wf rs" using Some wf(2) by (rule row_deltas_wf)
      show "\<And>k n. cell rs k n = (case reading prev k n of None \<Rightarrow> None
         | Some p \<Rightarrow> map_option (\<lambda>c. wrap64 (c - p)) (reading cur k n))"
        unfolding reading_def by (rule row_deltas_cell [OF Some wf])
    qed (use True f Some in \<open>auto simp: Delta_def Let_def\<close>)
  qed
qed

text \<open>
  A delta is complete exactly when the second capture is later, belongs to the same
  epoch and no counter present in both fell. A complete delta holds, for each counter
  present in both captures, the difference of its values, and no other cell; an incomplete
  one carries its bounds and no row.
\<close>

theorem delta_exact:
  assumes "rows_wf (snap_Rows prev)" and "rows_wf (snap_Rows cur)" and "Delta prev cur = (iv, ok)"
  shows "Complete iv = ok \<and> (ok \<longleftrightarrow> comparable prev cur \<and> \<not> fell prev cur)
    \<and> (if ok then \<forall>k n. cell (iv_Rows iv) k n = (case reading prev k n of None \<Rightarrow> None
             | Some p \<Rightarrow> map_option (\<lambda>c. wrap64 (c - p)) (reading cur k n))
       else iv_Rows iv = [])
    \<and> iv_From iv = snap_CapturedAt prev \<and> iv_To iv = snap_CapturedAt cur"
  using assms(1,2)
proof (cases rule: Delta_cases)
  case gap
  then show ?thesis using assms(3) by auto
next
  case (measured rs)
  then have iv: "ok" "Complete iv" "iv_Rows iv = rs" "iv_From iv = snap_CapturedAt prev"
    "iv_To iv = snap_CapturedAt cur" using assms(3) by auto
  show ?thesis using measured(1,2,5) iv by simp
qed

section \<open>Sums of matrices\<close>

definition amount :: "i64 option \<Rightarrow> i64" where
  "amount v = (case v of None \<Rightarrow> 0 | Some x \<Rightarrow> x)"

lemma amount_simps [simp]: "amount None = 0" "amount (Some x) = x"
  by (simp_all add: amount_def)

definition acc_cell :: "acc \<Rightarrow> Key \<Rightarrow> string \<Rightarrow> i64 option" where
  "acc_cell acc k n = (case map_of acc k of None \<Rightarrow> None | Some vs \<Rightarrow> map_of vs n)"

definition counter_sum :: "counters \<Rightarrow> string \<Rightarrow> int" where
  "counter_sum vs n = (\<Sum>(m, v)\<leftarrow>vs. if m = n then v else 0)"

text \<open>Every amount an accumulator holds was stored after a wrap.\<close>

definition acc_wf :: "acc \<Rightarrow> bool" where
  "acc_wf acc \<longleftrightarrow> distinct (map fst acc)
     \<and> (\<forall>(k, vs)\<in>set acc. distinct (map fst vs) \<and> (\<forall>n. in_i64 (amount (map_of vs n))))"

lemma add_counters_amount:
  "in_i64 (amount (map_of dst n)) \<Longrightarrow>
   amount (map_of (add_counters vs dst) n) = wrap64 (amount (map_of dst n) + counter_sum vs n)"
proof (induction vs arbitrary: dst)
  case Nil
  then show ?case by (simp add: add_counters_def counter_sum_def wrap64_id)
next
  case (Cons x vs)
  obtain m v where x: "x = (m, v)" by (cases x)
  let ?d = "AList.update m (wrap64 (amount (map_of dst m) + v)) dst"
  have step: "add_counters (x # vs) dst = add_counters vs ?d"
    by (simp add: add_counters_def x amount_def)
  have d: "amount (map_of ?d n) = (if m = n then wrap64 (amount (map_of dst n) + v) else amount (map_of dst n))"
    by (simp add: update_conv')
  then have "in_i64 (amount (map_of ?d n))" using Cons.prems by simp
  from Cons.IH [OF this] show ?case
    unfolding step d by (simp add: counter_sum_def x add.assoc)
qed

lemma add_counters_distinct:
  "distinct (map fst dst) \<Longrightarrow> distinct (map fst (add_counters vs dst))"
  unfolding add_counters_def
  by (rule fold_invariant_set) (auto intro: distinct_update_fst split: option.split)

lemma acc_wf_Nil [simp]: "acc_wf []"
  by (simp add: acc_wf_def)

lemma acc_wf_lookup:
  assumes "acc_wf acc"
  shows "distinct (map fst (case map_of acc k of None \<Rightarrow> [] | Some dst \<Rightarrow> dst))"
    and "in_i64 (amount (map_of (case map_of acc k of None \<Rightarrow> [] | Some dst \<Rightarrow> dst) n))"
  using assms by (auto simp: acc_wf_def split: option.split dest!: map_of_SomeD)

lemma add_row_wf:
  assumes "acc_wf acc"
  shows "acc_wf (add_row k vs acc)"
proof -
  let ?dst = "case map_of acc k of None \<Rightarrow> [] | Some dst \<Rightarrow> dst"
  let ?new = "add_counters vs ?dst"
  have "distinct (map fst ?new)"
    using acc_wf_lookup(1) [OF assms] by (rule add_counters_distinct)
  moreover have "in_i64 (amount (map_of ?new n))" for n
    by (simp add: add_counters_amount [OF acc_wf_lookup(2) [OF assms]])
  ultimately show ?thesis
    using assms by (auto simp: acc_wf_def add_row_def distinct_update_fst dest!: set_update_cases)
qed

lemma add_row_amount:
  assumes "acc_wf acc"
  shows "amount (acc_cell (add_row k vs acc) k' n) =
    wrap64 (amount (acc_cell acc k' n) + (if k = k' then counter_sum vs n else 0))"
proof (cases "k = k'")
  case True
  have "amount (acc_cell acc k n) = amount (map_of (case map_of acc k of None \<Rightarrow> [] | Some dst \<Rightarrow> dst) n)"
    by (simp add: acc_cell_def split: option.split)
  then show ?thesis
    using add_counters_amount [OF acc_wf_lookup(2) [OF assms, of k n], of vs] True
    by (simp add: add_row_def acc_cell_def [of "AList.update _ _ _"] update_conv')
next
  case False
  have "in_i64 (amount (acc_cell acc k' n))"
    using acc_wf_lookup(2) [OF assms, of k' n] by (auto simp: acc_cell_def split: option.splits)
  with False show ?thesis
    by (simp add: add_row_def acc_cell_def update_conv' wrap64_id)
qed

text \<open>The sum over the rows of a matrix, unreduced.\<close>

definition tally :: "Row list \<Rightarrow> (Key \<Rightarrow> Key option) \<Rightarrow> Key \<Rightarrow> string \<Rightarrow> int" where
  "tally rows f k n = (\<Sum>r\<leftarrow>rows. if f (row_Key r) = Some k then counter_sum (Values r) n else 0)"

definition add_rows :: "(Key \<Rightarrow> Key option) \<Rightarrow> Row list \<Rightarrow> acc \<Rightarrow> acc" where
  "add_rows f rows acc =
     fold (\<lambda>r acc. case f (row_Key r) of None \<Rightarrow> acc | Some k \<Rightarrow> add_row k (Values r) acc) rows acc"

lemma add_rows_wf: "acc_wf acc \<Longrightarrow> acc_wf (add_rows f rows acc)"
  unfolding add_rows_def by (rule fold_invariant_set) (auto simp: add_row_wf split: option.split)

lemma acc_cell_in_range: "acc_wf acc \<Longrightarrow> in_i64 (amount (acc_cell acc k n))"
  using acc_wf_lookup(2) [of acc k n] by (auto simp: acc_cell_def split: option.splits)

lemma add_rows_amount:
  "acc_wf acc \<Longrightarrow>
   amount (acc_cell (add_rows f rows acc) k n) = wrap64 (amount (acc_cell acc k n) + tally rows f k n)"
proof (induction rows arbitrary: acc)
  case Nil
  then show ?case by (simp add: add_rows_def tally_def acc_cell_in_range wrap64_id)
next
  case (Cons r rows)
  show ?case
  proof (cases "f (row_Key r)")
    case None
    with Cons show ?thesis by (simp add: add_rows_def tally_def)
  next
    case (Some j)
    have "add_rows f (r # rows) acc = add_rows f rows (add_row j (Values r) acc)"
      by (simp add: add_rows_def Some)
    then show ?thesis
      using Cons.IH [OF add_row_wf [OF Cons.prems], of j "Values r"] Some
      by (simp add: add_row_amount [OF Cons.prems] tally_def add.assoc)
  qed
qed

lemma key_order_inj: "key_order a = key_order b \<longleftrightarrow> a = b"
  by (cases a; cases b) (auto simp: key_order_def)

lemma sortedRows_keys:
  assumes "distinct (map fst acc)"
  shows "distinct (map row_Key (sortedRows acc))"
    and "sorted_wrt (\<lambda>a b. key_order (row_Key a) < key_order (row_Key b)) (sortedRows acc)"
proof -
  let ?f = "\<lambda>r. key_order (row_Key r)"
  have "mset (map row_Key (sortedRows acc)) = mset (map fst acc)"
    by (simp add: sortedRows_def image_mset.compositionality o_def case_prod_beta)
  then show d: "distinct (map row_Key (sortedRows acc))"
    using assms mset_eq_imp_distinct_iff by blast
  have "distinct (map ?f (sortedRows acc))"
    using d by (simp add: distinct_map inj_on_def key_order_inj)
  moreover have "sorted (map ?f (sortedRows acc))"
    by (simp add: sortedRows_def)
  ultimately have "sorted_wrt (<) (map ?f (sortedRows acc))"
    by (simp add: strict_sorted_iff)
  then show "sorted_wrt (\<lambda>a b. ?f a < ?f b) (sortedRows acc)"
    by (simp add: sorted_wrt_map)
qed

lemma sortedRows_wf: "acc_wf acc \<Longrightarrow> rows_wf (sortedRows acc)"
  using sortedRows_keys(1) by (force simp: rows_wf_def acc_wf_def sortedRows_def)

lemma sortedRows_cell:
  assumes "acc_wf acc"
  shows "cell (sortedRows acc) k n = acc_cell acc k n"
proof -
  have d: "distinct (map fst acc)" using assms by (simp add: acc_wf_def)
  have ks: "distinct (map row_Key (sortedRows acc))" by (rule sortedRows_keys(1) [OF d])
  have "map_of (row_entries (sortedRows acc)) = map_of acc"
    by (subst map_of_inject_set)
      (use d ks in \<open>auto simp: row_entries_def o_def sortedRows_def image_image case_prod_beta\<close>)
  then show ?thesis by (simp add: cell_def rows_by_key_eq [OF ks] acc_cell_def)
qed

section \<open>Reduction\<close>

definition reduced_key :: "Filter \<Rightarrow> GroupBy \<Rightarrow> Key \<Rightarrow> Key option" where
  "reduced_key f g k = (if filter_match f k then Some (project g k) else None)"

lemma Reduce_eq: "Reduce rows f g = sortedRows (add_rows (reduced_key f g) rows [])"
proof -
  have "(\<lambda>r acc. if \<not> filter_match f (row_Key r) then acc
           else add_row (project g (row_Key r)) (Values r) acc)
      = (\<lambda>r acc. case reduced_key f g (row_Key r) of None \<Rightarrow> acc | Some k \<Rightarrow> add_row k (Values r) acc)"
    by (auto simp: reduced_key_def fun_eq_iff)
  from arg_cong [OF this, of "\<lambda>h. sortedRows (fold h rows [])"] show ?thesis
    unfolding Reduce_def add_rows_def .
qed

text \<open>
  Reducing a matrix conserves its counters: the value of each group is the sum, modulo
  \<open>2^64\<close>, of that counter over exactly the rows that pass the filter and project to the group.
  The groups come out in strictly ascending order of (backend type, object, context), so the
  result does not depend on the iteration order of the map behind it.
\<close>

theorem reduce_conserves:
  "amount (cell (Reduce rows f g) k n) =
     wrap64 (\<Sum>r\<leftarrow>filter (\<lambda>r. filter_match f (row_Key r) \<and> project g (row_Key r) = k) rows.
       \<Sum>(m, v)\<leftarrow>Values r. if m = n then v else 0)
   \<and> sorted_wrt (\<lambda>a b. key_order (row_Key a) < key_order (row_Key b)) (Reduce rows f g)"
proof
  have wf: "acc_wf (add_rows (reduced_key f g) rows [])" by (simp add: add_rows_wf)
  have "tally rows (reduced_key f g) k n = (\<Sum>r\<leftarrow>filter (\<lambda>r. filter_match f (row_Key r) \<and> project g (row_Key r) = k) rows.
      counter_sum (Values r) n)"
    unfolding tally_def sum_list_map_filter'
    by (intro arg_cong [where f = sum_list] map_cong) (auto simp: reduced_key_def)
  then show "amount (cell (Reduce rows f g) k n) =
     wrap64 (\<Sum>r\<leftarrow>filter (\<lambda>r. filter_match f (row_Key r) \<and> project g (row_Key r) = k) rows.
       \<Sum>(m, v)\<leftarrow>Values r. if m = n then v else 0)"
    by (simp add: Reduce_eq sortedRows_cell [OF wf] add_rows_amount acc_cell_def [of "[]"] counter_sum_def)
  show "sorted_wrt (\<lambda>a b. key_order (row_Key a) < key_order (row_Key b)) (Reduce rows f g)"
    using wf by (auto simp: Reduce_eq acc_wf_def intro: sortedRows_keys(2))
qed

section \<open>Spans of a plan\<close>

text \<open>
  Two captures between which the counters flow: one epoch, the same cells, none falling.
  The relation composes, which is what lets a plan read only the ends of a run of captures.
\<close>

definition flows :: "Snapshot \<Rightarrow> Snapshot \<Rightarrow> bool" where
  "flows x y \<longleftrightarrow> comparable x y \<and> \<not> fell x y
     \<and> (\<forall>k n. (reading x k n = None) = (reading y k n = None))"

lemma sameEpoch_trans: "sameEpoch a b \<Longrightarrow> sameEpoch b c \<Longrightarrow> sameEpoch a c"
  by (auto simp: sameEpoch_def split: if_splits option.splits)

lemma flows_trans:
  assumes "flows x y" and "flows y z"
  shows "flows x z"
proof -
  have "comparable x z"
    using assms sameEpoch_trans by (auto simp: flows_def)
  moreover have dom: "(reading x k n = None) = (reading z k n = None)" for k n
    using assms by (simp add: flows_def)
  moreover have "\<not> fell x z"
  proof
    assume "fell x z"
    then obtain k n p c where c: "reading x k n = Some p" "reading z k n = Some c" "c < p"
      by (auto simp: fell_def)
    have "(reading x k n = None) = (reading y k n = None)" using assms(1) by (simp add: flows_def)
    then obtain q where q: "reading y k n = Some q" using c(1) by auto
    have "p \<le> q" using assms(1) c(1) q unfolding flows_def fell_def by (meson not_less)
    moreover have "q \<le> c" using assms(2) c(2) q unfolding flows_def fell_def by (meson not_less)
    ultimately show False using c(3) by simp
  qed
  ultimately show ?thesis by (simp add: flows_def)
qed

abbreviation gain :: "(Snapshot \<Rightarrow> int) \<Rightarrow> (Snapshot \<times> Snapshot) list \<Rightarrow> int" where
  "gain w ps \<equiv> (\<Sum>(x, y)\<leftarrow>ps. w y - w x)"

abbreviation seam :: "Snapshot \<times> Snapshot \<Rightarrow> Interval" where
  "seam \<equiv> (\<lambda>(x, y). meta_interval (meta_of x) (meta_of y))"

abbreviation ends :: "Snapshot \<times> Snapshot \<Rightarrow> Span" where
  "ends \<equiv> (\<lambda>(x, y). \<lparr>sp_From = snap_CapturedAt x, sp_To = snap_CapturedAt y\<rparr>)"

definition pair_step :: "Snapshot \<times> Snapshot \<Rightarrow> (Snapshot \<times> Snapshot) list \<times> bool
    \<Rightarrow> (Snapshot \<times> Snapshot) list \<times> bool" where
  "pair_step = (\<lambda>(x, y) (ss, op).
     if \<not> comparable x y then (ss, False)
     else if op then (butlast ss @ [(fst (last ss), y)], True)
     else (ss @ [(x, y)], True))"

lemma meta_interval_simps [simp]:
  "iv_From (meta_interval (meta_of x) (meta_of y)) = snap_CapturedAt x"
  "iv_To (meta_interval (meta_of x) (meta_of y)) = snap_CapturedAt y"
  "iv_Duration (meta_interval (meta_of x) (meta_of y)) = time_sub (snap_CapturedAt y) (snap_CapturedAt x)"
  "Complete (meta_interval (meta_of x) (meta_of y)) = comparable x y"
  by (simp_all add: meta_interval_def meta_of_def Let_def)

lemma seam_simps [simp]:
  "iv_From (seam q) = snap_CapturedAt (fst q)" "iv_To (seam q) = snap_CapturedAt (snd q)"
  "iv_Duration (seam q) = time_sub (snap_CapturedAt (snd q)) (snap_CapturedAt (fst q))"
  "Complete (seam q) = comparable (fst q) (snd q)"
  by (cases q; simp)+

fun path :: "(Snapshot \<times> Snapshot) list \<Rightarrow> bool" where
  "path (p # q # ps) = (snd p = fst q \<and> path (q # ps))"
| "path [] = True"
| "path [p] = True"

text \<open>
  The spans of a run of pairs and the relation \<open>R\<close> they keep: any transitive one that holds
  between the captures of each comparable pair holds between the ends of each span.
\<close>

definition spans_ok :: "(Snapshot \<Rightarrow> Snapshot \<Rightarrow> bool) \<Rightarrow> (Snapshot \<times> Snapshot) list \<times> bool \<Rightarrow> Snapshot \<Rightarrow> bool" where
  "spans_ok R st z \<longleftrightarrow> (\<forall>(x, y)\<in>set (fst st). R x y)
     \<and> (snd st \<longrightarrow> fst st \<noteq> [] \<and> snd (last (fst st)) = z)"

lemma butlast_snoc_last: "ss \<noteq> [] \<Longrightarrow> ss = butlast ss @ [last ss]"
  by simp

lemma pair_step_ok:
  assumes "transp R" and "spans_ok R st x" and "comparable x y \<longrightarrow> R x y"
  shows "spans_ok R (pair_step (x, y) st) y \<and>
    gain w (fst (pair_step (x, y) st)) = gain w (fst st) + (if comparable x y then w y - w x else 0)"
proof -
  obtain ss op where st: "st = (ss, op)" by (cases st)
  show ?thesis
  proof (cases "comparable x y \<and> op")
    case False
    then show ?thesis using assms st by (auto simp: spans_ok_def pair_step_def)
  next
    case True
    then have ne: "ss \<noteq> []" and l: "snd (last ss) = x"
      using assms(2) st by (auto simp: spans_ok_def)
    obtain a where a: "last ss = (a, x)" using l by (cases "last ss") auto
    have split: "ss = butlast ss @ [(a, x)]" using ne a by (metis append_butlast_last_id)
    have ps: "pair_step (x, y) st = (butlast ss @ [(a, y)], True)"
      using True st a by (simp add: pair_step_def)
    have fl: "\<forall>(x, y)\<in>set ss. R x y" using assms(2) st by (simp add: spans_ok_def)
    then have "R a x" using ne a by (metis case_prodD last_in_set)
    then have "R a y" using True assms(1,3) by (meson transpD)
    moreover have "\<forall>(x, y)\<in>set (butlast ss). R x y" using fl by (auto dest: in_set_butlastD)
    ultimately have "spans_ok R (pair_step (x, y) st) y" by (auto simp: ps spans_ok_def)
    moreover have "gain w ss = gain w (butlast ss) + (w x - w a)"
      by (subst split) simp
    ultimately show ?thesis unfolding ps using True st by simp
  qed
qed

lemma pair_steps_ok:
  assumes "transp R" and "path ps" and "ps \<noteq> []" and "\<forall>(x, y)\<in>set ps. comparable x y \<longrightarrow> R x y"
    and "spans_ok R st (fst (hd ps))"
  shows "spans_ok R (fold pair_step ps st) (snd (last ps))
    \<and> gain w (fst (fold pair_step ps st)) =
        gain w (fst st) + gain w (filter (\<lambda>(x, y). comparable x y) ps)"
  using assms(2-)
proof (induction ps arbitrary: st rule: path.induct)
  case (1 p q ps)
  obtain x y where p: "p = (x, y)" by (cases p)
  have pr: "snd p = fst q" "path (q # ps)" "\<forall>(x, y)\<in>set (q # ps). comparable x y \<longrightarrow> R x y"
    using 1(2,4) by auto
  have step: "spans_ok R (pair_step p st) y \<and> gain w (fst (pair_step p st))
      = gain w (fst st) + (if comparable x y then w y - w x else 0)"
    unfolding p by (rule pair_step_ok [OF assms(1)]) (use 1(4,5) p in auto)
  then have "spans_ok R (fold pair_step (q # ps) (pair_step p st)) (snd (last (q # ps)))
    \<and> gain w (fst (fold pair_step (q # ps) (pair_step p st))) =
        gain w (fst (pair_step p st)) + gain w (filter (\<lambda>(x, y). comparable x y) (q # ps))"
    using pr p by (intro 1(1)) auto
  then show ?case using step p by auto
next
  case (3 p)
  obtain x y where "p = (x, y)" by (cases p)
  then show ?case using pair_step_ok [OF assms(1), of st x y w] 3 by auto
qed simp

lemma flows_transp: "transp flows"
  using flows_trans by (rule transpI)

lemma comparable_transp: "transp (\<lambda>x y. comparable x y)"
  using sameEpoch_trans by (auto intro!: transpI)

text \<open>
  The same spans without the state of the loop: the maximal stretches of comparable pairs, each
  given by its first and its last capture.
\<close>

fun segments :: "(Snapshot \<times> Snapshot) list \<Rightarrow> (Snapshot \<times> Snapshot) list list" where
  "segments [] = []"
| "segments (q # ps) =
     (if \<not> comparable (fst q) (snd q) then segments ps
      else if ps \<noteq> [] \<and> comparable (fst (hd ps)) (snd (hd ps))
      then (q # hd (segments ps)) # tl (segments ps)
      else [q] # segments ps)"

definition spans_of :: "(Snapshot \<times> Snapshot) list \<Rightarrow> (Snapshot \<times> Snapshot) list" where
  "spans_of g = map (\<lambda>seg. (fst (hd seg), snd (last seg))) (segments g)"

lemma segments_ne: "[] \<notin> set (segments ps)" "ps \<noteq> [] \<Longrightarrow> comparable (fst (hd ps)) (snd (hd ps)) \<Longrightarrow> segments ps \<noteq> []"
proof -
  show "[] \<notin> set (segments ps)"
  proof (induction ps)
    case (Cons q ps)
    have "set (tl (segments ps)) \<subseteq> set (segments ps)" by (cases "segments ps") auto
    then show ?case using Cons by auto
  qed simp
qed (cases ps; simp)

lemma pair_steps_segments:
  "fst (fold pair_step ps (ss, False)) = ss @ spans_of ps"
  "fst (fold pair_step ps (ss @ [(a, z)], True)) =
     (if ps \<noteq> [] \<and> comparable (fst (hd ps)) (snd (hd ps))
      then ss @ (a, snd (last (hd (segments ps)))) # tl (spans_of ps) else ss @ (a, z) # spans_of ps)"
proof (induction ps arbitrary: ss a z)
  case (Cons q ps)
  obtain x y where q: "q = (x, y)" by (cases q)
  have seg: "\<exists>t ts. segments ps = t # ts \<and> t \<noteq> []" if "ps \<noteq> [] \<and> comparable (fst (hd ps)) (snd (hd ps))"
    using segments_ne(2) [of ps] segments_ne(1) [of ps] that by (cases "segments ps") auto
  {
    case 1
    show ?case
    proof (cases "comparable x y")
      case True
      then have "fst (fold pair_step (q # ps) (ss, False)) = fst (fold pair_step ps (ss @ [(x, y)], True))"
        by (simp add: q pair_step_def)
      then show ?thesis using True seg Cons.IH(2) [of ss x y] q by (auto simp: spans_of_def)
    next
      case False
      then show ?thesis using Cons.IH(1) [of ss] q by (auto simp: pair_step_def spans_of_def)
    qed
  next
    case 2
    show ?case
    proof (cases "comparable x y")
      case True
      then have "fst (fold pair_step (q # ps) (ss @ [(a, z)], True)) = fst (fold pair_step ps (ss @ [(a, y)], True))"
        by (simp add: q pair_step_def)
      then show ?thesis using True seg Cons.IH(2) [of ss a y] q by (auto simp: spans_of_def)
    next
      case False
      then show ?thesis using Cons.IH(1) [of "ss @ [(a, z)]"] q by (auto simp: pair_step_def spans_of_def)
    qed
  }
qed (simp_all add: spans_of_def)

lemma spans_of_steps: "fst (fold pair_step g ([], False)) = spans_of g"
  using pair_steps_segments(1) [of g "[]"] by simp

lemma pair_steps_within:
  assumes "set ps \<subseteq> A \<times> A"
  shows "set (fst (fold pair_step ps ([], False))) \<subseteq> A \<times> A"
proof -
  let ?P = "\<lambda>st. (snd st \<longrightarrow> fst st \<noteq> []) \<and> set (fst st) \<subseteq> A \<times> A"
  have "?P (fold pair_step ps ([], False))"
  proof (rule fold_invariant_set)
    fix q st assume q: "q \<in> set ps" and st: "?P st"
    obtain x y ss op where e: "q = (x, y)" "st = (ss, op)" by (cases q; cases st)
    have xy: "x \<in> A" "y \<in> A" using q e assms by auto
    have b: "set (butlast ss) \<subseteq> A \<times> A" using st e by (auto dest: in_set_butlastD)
    have l: "ss \<noteq> [] \<Longrightarrow> fst (last ss) \<in> A" using st e last_in_set [of ss] by (cases "last ss") auto
    show "?P (pair_step q st)"
      using st xy b l e by (auto simp: pair_step_def)
  qed simp
  then show ?thesis by simp
qed

lemma plan_steps_spans:
  "Spans p = map ends ss \<Longrightarrow> (op \<longrightarrow> ss \<noteq> []) \<Longrightarrow>
   Spans (fst (fold plan_step (map seam ps) (p, op))) = map ends (fst (fold pair_step ps (ss, op)))"
proof (induction ps arbitrary: p ss op)
  case (Cons q ps)
  obtain x y where q: "q = (x, y)" by (cases q)
  obtain p' op' where pl: "plan_step (seam q) (p, op) = (p', op')"
    by (cases "plan_step (seam q) (p, op)")
  obtain ss' op'' where pr: "pair_step q (ss, op) = (ss', op'')"
    by (cases "pair_step q (ss, op)")
  have "Spans p' = map ends ss' \<and> op'' = op' \<and> (op' \<longrightarrow> ss' \<noteq> [])"
  proof (cases "comparable x y \<and> op")
    case True
    obtain a b where "last ss = (a, b)" by (cases "last ss")
    then show ?thesis
      using True pl pr Cons.prems q
      by (auto simp: plan_step_def pair_step_def Let_def map_butlast last_map)
  next
    case False
    then show ?thesis
      using pl pr Cons.prems q
      by (cases "comparable x y") (auto simp: plan_step_def pair_step_def Let_def)
  qed
  then show ?case using Cons.IH [of p' ss' op'] pl pr by simp
qed simp

lemma plan_steps_rest:
  "in_i64 (bp_Duration p) \<Longrightarrow>
   (let r = fst (fold plan_step (map seam ps) (p, op)) in
      bp_From r = bp_From p \<and> bp_To r = bp_To p
    \<and> Partial r = (Partial p \<or> (\<exists>(x, y)\<in>set ps. \<not> comparable x y))
    \<and> bp_Duration r = wrap64 (bp_Duration p
        + (\<Sum>(x, y)\<leftarrow>filter (\<lambda>(x, y). comparable x y) ps.
             time_sub (snap_CapturedAt y) (snap_CapturedAt x))))"
proof (induction ps arbitrary: p op)
  case Nil
  then show ?case by (simp add: wrap64_id)
next
  case (Cons q ps)
  obtain p' op' where pl: "plan_step (seam q) (p, op) = (p', op')"
    by (cases "plan_step (seam q) (p, op)")
  obtain x y where q: "q = (x, y)" by (cases q)
  have p': "bp_From p' = bp_From p" "bp_To p' = bp_To p"
    "Partial p' = (Partial p \<or> \<not> comparable x y)"
    "bp_Duration p' = (if comparable x y
       then wrap64 (bp_Duration p + time_sub (snap_CapturedAt y) (snap_CapturedAt x)) else bp_Duration p)"
    using pl q by (auto simp: plan_step_def Let_def split: if_splits)
  then have "in_i64 (bp_Duration p')" using Cons.prems by simp
  from Cons.IH [OF this, of op'] show ?case
    using p' pl q by (cases "comparable x y") (auto simp: Let_def add.assoc)
qed

lemma planOf_seams:
  assumes "g \<noteq> []"
  shows "bp_From (planOf (map seam g)) = snap_CapturedAt (fst (hd g))"
    and "bp_To (planOf (map seam g)) = snap_CapturedAt (snd (last g))"
    and "Partial (planOf (map seam g)) = (\<exists>(x, y)\<in>set g. \<not> comparable x y)"
    and "bp_Duration (planOf (map seam g)) =
      wrap64 (\<Sum>(x, y)\<leftarrow>filter (\<lambda>(x, y). comparable x y) g.
         time_sub (snap_CapturedAt y) (snap_CapturedAt x))"
    and "Spans (planOf (map seam g)) = map ends (fst (fold pair_step g ([], False)))"
proof -
  let ?p = "\<lparr>bp_From = iv_From (hd (map seam g)), bp_To = iv_To (last (map seam g)), bp_Duration = 0,
    Partial = False, Spans = []\<rparr>"
  have "iv_From (hd (map seam g)) = snap_CapturedAt (fst (hd g))"
    "iv_To (last (map seam g)) = snap_CapturedAt (snd (last g))"
    using assms by (simp_all add: hd_map last_map)
  then show "bp_From (planOf (map seam g)) = snap_CapturedAt (fst (hd g))"
    "bp_To (planOf (map seam g)) = snap_CapturedAt (snd (last g))"
    "Partial (planOf (map seam g)) = (\<exists>(x, y)\<in>set g. \<not> comparable x y)"
    "bp_Duration (planOf (map seam g)) =
      wrap64 (\<Sum>(x, y)\<leftarrow>filter (\<lambda>(x, y). comparable x y) g.
         time_sub (snap_CapturedAt y) (snap_CapturedAt x))"
    using plan_steps_rest [of ?p g False] by (simp_all add: planOf_def Let_def)
  show "Spans (planOf (map seam g)) = map ends (fst (fold pair_step g ([], False)))"
    unfolding planOf_def by (rule plan_steps_spans) simp_all
qed

section \<open>Assembly of a plan\<close>

lemma counter_sum_distinct: "distinct (map fst vs) \<Longrightarrow> counter_sum vs n = amount (map_of vs n)"
proof (induction vs)
  case (Cons x vs)
  have "n \<notin> fst ` set vs \<Longrightarrow> map_of vs n = None" by (simp add: map_of_eq_None_iff)
  with Cons show ?case by (cases x) (auto simp: counter_sum_def)
qed (simp add: counter_sum_def)

lemma tally_none: "k \<notin> row_Key ` set rows \<Longrightarrow> tally rows Some k n = 0"
  by (induction rows) (auto simp: tally_def)

lemma tally_cell: "rows_wf rows \<Longrightarrow> tally rows Some k n = amount (cell rows k n)"
proof (induction rows)
  case Nil
  then show ?case by (simp add: tally_def cell_def rows_by_key_def)
next
  case (Cons r rows)
  have wf: "rows_wf rows" and nk: "row_Key r \<notin> row_Key ` set rows"
    and vs: "distinct (map fst (Values r))"
    using Cons.prems by (auto simp: rows_wf_def)
  have t: "tally (r # rows) Some k n =
      (if row_Key r = k then counter_sum (Values r) n else 0) + tally rows Some k n"
    by (simp add: tally_def)
  show ?case
    using Cons.IH [OF wf] tally_none [of k rows n] nk
    by (auto simp: t counter_sum_distinct [OF vs] cell_row_entries [OF Cons.prems]
        cell_row_entries [OF wf] row_entries_def)
qed

lemma add_rows_Some: "fold (\<lambda>r. add_row (row_Key r) (Values r)) rows acc = add_rows Some rows acc"
  by (simp add: add_rows_def)

lemma fold_add_rows_wf: "acc_wf acc \<Longrightarrow> acc_wf (fold (\<lambda>s. add_rows Some (R s)) spans acc)"
  by (rule fold_invariant_set) (auto simp: add_rows_wf)

lemma fold_add_rows_amount:
  "acc_wf acc \<Longrightarrow> amount (acc_cell (fold (\<lambda>s. add_rows Some (R s)) spans acc) k n) =
     wrap64 (amount (acc_cell acc k n) + (\<Sum>s\<leftarrow>spans. tally (R s) Some k n))"
proof (induction spans arbitrary: acc)
  case Nil
  then show ?case by (simp add: acc_cell_in_range wrap64_id)
next
  case (Cons s spans)
  show ?case
    using Cons.IH [OF add_rows_wf [OF Cons.prems], of Some "R s"]
    by (simp add: add_rows_amount [OF Cons.prems] add.assoc)
qed

lemma assemble_spans:
  "\<forall>s\<in>set spans. spanDelta byTime s = Some (D s) \<Longrightarrow>
   fold (assemble_span byTime) spans (b, acc) = (b, fold (\<lambda>s. add_rows Some (iv_Rows (D s))) spans acc)"
  by (induction spans arbitrary: acc) (simp_all add: assemble_span_def add_rows_Some)

lemma assemble_bucket_measured:
  assumes "\<forall>s\<in>set (Spans bp). spanDelta byTime s = Some (D s)"
    and "\<forall>s\<in>set (Spans bp). rows_wf (iv_Rows (D s))"
  shows "b_From (assemble_bucket byTime bp) = bp_From bp"
    and "b_To (assemble_bucket byTime bp) = bp_To bp"
    and "b_Partial (assemble_bucket byTime bp) = Partial bp"
    and "b_Duration (assemble_bucket byTime bp) = bp_Duration bp"
    and "amount (cell (b_Rows (assemble_bucket byTime bp)) k n) =
      wrap64 (\<Sum>s\<leftarrow>Spans bp. amount (cell (iv_Rows (D s)) k n))"
proof -
  let ?acc = "fold (\<lambda>s. add_rows Some (iv_Rows (D s))) (Spans bp) []"
  have eq: "assemble_bucket byTime bp =
    \<lparr>b_From = bp_From bp, b_To = bp_To bp, b_Duration = bp_Duration bp, b_Partial = Partial bp,
     b_Rows = sortedRows ?acc\<rparr>"
    by (simp add: assemble_bucket_def assemble_spans [OF assms(1)])
  then show "b_From (assemble_bucket byTime bp) = bp_From bp"
    "b_To (assemble_bucket byTime bp) = bp_To bp"
    "b_Partial (assemble_bucket byTime bp) = Partial bp"
    "b_Duration (assemble_bucket byTime bp) = bp_Duration bp" by simp_all
  have "(\<Sum>s\<leftarrow>Spans bp. tally (iv_Rows (D s)) Some k n) = (\<Sum>s\<leftarrow>Spans bp. amount (cell (iv_Rows (D s)) k n))"
    using assms(2) by (intro arg_cong [where f = sum_list] map_cong) (auto simp: tally_cell)
  then show "amount (cell (b_Rows (assemble_bucket byTime bp)) k n) =
      wrap64 (\<Sum>s\<leftarrow>Spans bp. amount (cell (iv_Rows (D s)) k n))"
    by (simp add: eq sortedRows_cell fold_add_rows_wf fold_add_rows_amount acc_cell_def [of "[]"])
qed

lemma delta_of_flow:
  assumes "flows x y" and "rows_wf (snap_Rows x)" and "rows_wf (snap_Rows y)"
  obtains iv where "Delta x y = (iv, True)" "rows_wf (iv_Rows iv)"
    "\<And>k n. amount (cell (iv_Rows iv) k n) = wrap64 (amount (reading y k n) - amount (reading x k n))"
  using assms(2,3)
proof (cases rule: Delta_cases)
  case gap
  then show thesis using assms(1) by (simp add: flows_def)
next
  case (measured rs)
  show thesis
  proof (rule that [OF measured(3)])
    fix k n
    have "(reading x k n = None) = (reading y k n = None)" using assms(1) by (simp add: flows_def)
    then show "amount (cell (iv_Rows \<lparr>iv_From = snap_CapturedAt x, iv_To = snap_CapturedAt y,
        iv_Duration = time_sub (snap_CapturedAt y) (snap_CapturedAt x), Complete = True, iv_Rows = rs\<rparr>) k n)
      = wrap64 (amount (reading y k n) - amount (reading x k n))"
      by (auto simp: measured(5) wrap64_id split: option.split)
  qed (simp add: measured(4))
qed

lemma wrap64_sum_list: "wrap64 (\<Sum>x\<leftarrow>xs. wrap64 (f x)) = wrap64 (\<Sum>x\<leftarrow>xs. f x)"
proof (induction xs)
  case (Cons x xs)
  have "wrap64 (f x + (\<Sum>x\<leftarrow>xs. wrap64 (f x))) = wrap64 (f x + wrap64 (\<Sum>x\<leftarrow>xs. wrap64 (f x)))"
    by simp
  also have "\<dots> = wrap64 (f x + (\<Sum>x\<leftarrow>xs. f x))" by (simp add: Cons)
  finally show ?case by simp
qed simp

lemma first_seen_set:
  "\<forall>t\<in>set ts. in_i64 t \<Longrightarrow> set (first_seen sn ts) = set ts - set sn"
  by (induction ts arbitrary: sn) (auto simp: UnixNano_def wrap64_id)

lemma snaps_by_time_lookup:
  assumes "distinct (map snap_CapturedAt snaps)" and "\<forall>s\<in>set snaps. in_i64 (snap_CapturedAt s)"
    and "x \<in> set snaps"
  shows "snaps_by_time snaps (UnixNano (snap_CapturedAt x)) = Some x"
proof -
  let ?xs = "map (\<lambda>s. (UnixNano (snap_CapturedAt s), s)) snaps"
  have "map fst ?xs = map snap_CapturedAt snaps"
    using assms(2) by (simp add: UnixNano_def wrap64_id)
  then have d: "distinct (map fst ?xs)" using assms(1) by (simp only:)
  then have "snaps_by_time snaps = map_of ?xs"
    unfolding snaps_by_time_def by (rule map_of_rev_distinct)
  then show ?thesis using d assms(3) by simp
qed

lemma seam_of_zip: "metaIntervals (map meta_of snaps) = map seam (zip snaps (tl snaps))"
  by (simp add: metaIntervals_def map_tl [symmetric] zip_map_map case_prod_beta o_def)

lemma chained_seams:
  "sorted_wrt (<) (map snap_CapturedAt snaps) \<Longrightarrow> chained (map seam (zip snaps (tl snaps)))"
proof (induction snaps)
  case (Cons x xs)
  show ?case
  proof (cases xs)
    case Nil
    then show ?thesis by simp
  next
    case (Cons y ys)
    then show ?thesis using Cons.IH Cons.prems by (cases ys) auto
  qed
qed simp

lemma path_zip: "path (zip snaps (tl snaps))"
proof (induction snaps)
  case (Cons x xs)
  then show ?case by (cases xs; cases "tl xs") auto
qed simp

lemma path_append: "path (ps @ qs) \<Longrightarrow> path ps \<and> path qs"
proof (induction ps rule: path.induct)
  case (3 v)
  then show ?case by (cases qs) auto
qed auto

lemma path_concat: "path (concat gs) \<Longrightarrow> g \<in> set gs \<Longrightarrow> path g"
  by (induction gs) (auto dest: path_append)

lemma concat_map_split:
  "concat gs = map f xs \<Longrightarrow> \<exists>ys. gs = map (map f) ys \<and> concat ys = xs"
proof (induction gs arbitrary: xs)
  case (Cons g gs)
  then obtain us vs where "xs = us @ vs" "map f us = g" "map f vs = concat gs"
    by (auto simp: append_eq_map_conv)
  moreover from this obtain ys where "gs = map (map f) ys" "concat ys = vs"
    using Cons.IH [of vs] by auto
  ultimately show ?case by (intro exI [of _ "us # ys"]) simp
qed simp

section \<open>The series of a history request\<close>

text \<open>A well-formed history of one host: strictly chronological, one row per key.\<close>

definition history :: "Snapshot list \<Rightarrow> bool" where
  "history snaps \<longleftrightarrow> sorted_wrt (<) (map snap_CapturedAt snaps)
     \<and> (\<forall>s\<in>set snaps. in_i64 (snap_CapturedAt s) \<and> rows_wf (snap_Rows s))"

text \<open>No reset hides between two captures of one epoch, and their cells are the same.\<close>

definition steady :: "(Snapshot \<times> Snapshot) list \<Rightarrow> bool" where
  "steady ps \<longleftrightarrow> (\<forall>(x, y)\<in>set ps. comparable x y \<longrightarrow>
     \<not> fell x y \<and> (\<forall>k n. (reading x k n = None) = (reading y k n = None)))"

text \<open>What one point owes to the adjacent pairs of captures it stands for.\<close>

definition bucket_of :: "Bucket \<Rightarrow> (Snapshot \<times> Snapshot) list \<Rightarrow> bool" where
  "bucket_of b g \<longleftrightarrow>
     b_From b = snap_CapturedAt (fst (hd g)) \<and> b_To b = snap_CapturedAt (snd (last g))
   \<and> b_Partial b = (\<exists>(x, y)\<in>set g. \<not> snd (Delta x y))
   \<and> b_Duration b = wrap64 (\<Sum>(x, y)\<leftarrow>g. if snd (Delta x y) then iv_Duration (fst (Delta x y)) else 0)
   \<and> (\<forall>k n. amount (cell (b_Rows b) k n) =
        wrap64 (\<Sum>(x, y)\<leftarrow>g. if snd (Delta x y) then amount (cell (iv_Rows (fst (Delta x y))) k n) else 0))"

lemma Delta_ok_iff:
  assumes "rows_wf (snap_Rows x)" "rows_wf (snap_Rows y)" "comparable x y \<longrightarrow> flows x y"
  shows "snd (Delta x y) = comparable x y"
  using assms(1,2)
proof (cases rule: Delta_cases)
  case gap
  then show ?thesis using assms(3) by (auto simp: flows_def)
next
  case (measured rs)
  then show ?thesis by simp
qed

lemma Delta_duration [simp]:
  "iv_Duration (fst (Delta x y)) = time_sub (snap_CapturedAt y) (snap_CapturedAt x)"
  by (simp add: Delta_def Let_def split: option.split)

lemma gain_proj: "gain w ps = (\<Sum>q\<leftarrow>ps. w (snd q) - w (fst q))"
  by (induction ps) auto

lemma gain_of_deltas:
  assumes "\<forall>(x, y)\<in>set ps. flows x y \<and> rows_wf (snap_Rows x) \<and> rows_wf (snap_Rows y)"
  shows "wrap64 (\<Sum>(x, y)\<leftarrow>ps. amount (cell (iv_Rows (fst (Delta x y))) k n)) =
    wrap64 (gain (\<lambda>s. amount (reading s k n)) ps)"
proof -
  have "amount (cell (iv_Rows (fst (Delta x y))) k n) =
      wrap64 (amount (reading y k n) - amount (reading x k n))" if "(x, y) \<in> set ps" for x y
    using that assms by (auto elim!: delta_of_flow [of x y])
  then have "(\<Sum>(x, y)\<leftarrow>ps. amount (cell (iv_Rows (fst (Delta x y))) k n)) =
      (\<Sum>q\<leftarrow>ps. wrap64 (amount (reading (snd q) k n) - amount (reading (fst q) k n)))"
    by (intro arg_cong [where f = sum_list] map_cong) auto
  then show ?thesis by (simp add: wrap64_sum_list gain_proj)
qed

lemma sum_list_if_filter:
  "(\<Sum>q\<leftarrow>g. if P q then f q else 0) = (\<Sum>q\<leftarrow>filter P g. f q)" for f :: "'a \<Rightarrow> int"
  by (induction g) auto

definition span_delta :: "(i64 \<rightharpoonup> Snapshot) \<Rightarrow> Span \<Rightarrow> Interval" where
  "span_delta byTime s =
     fst (Delta (the (byTime (UnixNano (sp_From s)))) (the (byTime (UnixNano (sp_To s)))))"

lemma loaded_spans:
  assumes "\<forall>(x, y)\<in>set ss. flows x y \<and> rows_wf (snap_Rows x) \<and> rows_wf (snap_Rows y)"
    and "\<forall>(x, y)\<in>set ss. byTime (UnixNano (snap_CapturedAt x)) = Some x
           \<and> byTime (UnixNano (snap_CapturedAt y)) = Some y"
  shows "\<forall>s\<in>set (map ends ss). spanDelta byTime s = Some (span_delta byTime s)"
    and "\<forall>s\<in>set (map ends ss). rows_wf (iv_Rows (span_delta byTime s))"
    and "(\<Sum>s\<leftarrow>map ends ss. f (span_delta byTime s)) = (\<Sum>(x, y)\<leftarrow>ss. f (fst (Delta x y)))"
proof -
  have each: "spanDelta byTime (ends (x, y)) = Some (fst (Delta x y))
      \<and> span_delta byTime (ends (x, y)) = fst (Delta x y) \<and> rows_wf (iv_Rows (fst (Delta x y)))"
    if "(x, y) \<in> set ss" for x y
  proof -
    have xy: "flows x y" "rows_wf (snap_Rows x)" "rows_wf (snap_Rows y)"
      "byTime (UnixNano (snap_CapturedAt x)) = Some x" "byTime (UnixNano (snap_CapturedAt y)) = Some y"
      using that assms by auto
    obtain iv where "Delta x y = (iv, True)" "rows_wf (iv_Rows iv)"
      by (rule delta_of_flow [OF xy(1-3)])
    with xy(4,5) show ?thesis by (simp add: spanDelta_def span_delta_def)
  qed
  show "\<forall>s\<in>set (map ends ss). spanDelta byTime s = Some (span_delta byTime s)"
    using each by auto
  show "\<forall>s\<in>set (map ends ss). rows_wf (iv_Rows (span_delta byTime s))"
    using each by auto
  have "map (\<lambda>s. f (span_delta byTime s)) (map ends ss) = map (\<lambda>(x, y). f (fst (Delta x y))) ss"
    using each by auto
  then show "(\<Sum>s\<leftarrow>map ends ss. f (span_delta byTime s)) = (\<Sum>(x, y)\<leftarrow>ss. f (fst (Delta x y)))"
    by (rule arg_cong)
qed

lemma steady_flows: "steady ps \<Longrightarrow> \<forall>(x, y)\<in>set ps. comparable x y \<longrightarrow> flows x y"
  by (auto simp: steady_def flows_def)

lemma assembled_bucket:
  assumes g: "g \<noteq> []" "path g" "steady g" "set g \<subseteq> A \<times> A"
    and A: "\<forall>s\<in>A. rows_wf (snap_Rows s)"
    and byTime: "\<forall>(x, y)\<in>set (fst (fold pair_step g ([], False))).
      byTime (UnixNano (snap_CapturedAt x)) = Some x \<and> byTime (UnixNano (snap_CapturedAt y)) = Some y"
  shows "bucket_of (assemble_bucket byTime (planOf (map seam g))) g"
proof -
  let ?ss = "fst (fold pair_step g ([], False))" and ?b = "assemble_bucket byTime (planOf (map seam g))"
  let ?cg = "filter (\<lambda>(x, y). comparable x y) g"
  let ?d = "\<lambda>k n (x, y). amount (cell (iv_Rows (fst (Delta x y))) k n)"
  note fl = steady_flows [OF g(3)]
  have wf: "\<forall>(x, y)\<in>set g. rows_wf (snap_Rows x) \<and> rows_wf (snap_Rows y)"
    using g(4) A by auto
  have run: "spans_ok flows (fold pair_step g ([], False)) (snd (last g)) \<and> gain w ?ss = gain w ?cg" for w
    using pair_steps_ok [OF flows_transp g(2,1) fl, of "([], False)" w] by (simp add: spans_ok_def)
  have ss: "\<forall>(x, y)\<in>set ?ss. flows x y \<and> rows_wf (snap_Rows x) \<and> rows_wf (snap_Rows y)"
    using run pair_steps_within [OF g(4)] A by (force simp: spans_ok_def)
  have cg: "\<forall>(x, y)\<in>set ?cg. flows x y \<and> rows_wf (snap_Rows x) \<and> rows_wf (snap_Rows y)"
    using fl wf by auto
  note plan = planOf_seams [OF g(1)]
  note ab = assemble_bucket_measured [of "planOf (map seam g)", unfolded plan(5), OF loaded_spans(1,2) [OF ss byTime]]
  have "amount (cell (b_Rows ?b) k n) = wrap64 (\<Sum>q\<leftarrow>?ss. ?d k n q)" for k n
    unfolding ab(5) by (rule arg_cong [OF loaded_spans(3) [OF ss byTime]])
  then have vals: "amount (cell (b_Rows ?b) k n) = wrap64 (\<Sum>q\<leftarrow>?cg. ?d k n q)" for k n
    using run by (simp add: gain_of_deltas [OF ss] gain_of_deltas [OF cg])
  have ok: "snd (Delta x y) = comparable x y" if "(x, y) \<in> set g" for x y
    using that fl wf by (intro Delta_ok_iff) auto
  have sums: "(\<Sum>(x, y)\<leftarrow>g. if snd (Delta x y) then f x y else 0) = (\<Sum>(x, y)\<leftarrow>?cg. f x y)"
    for f :: "Snapshot \<Rightarrow> Snapshot \<Rightarrow> int"
    unfolding sum_list_if_filter [symmetric]
    by (intro arg_cong [where f = sum_list] map_cong) (auto simp: ok split: if_splits)
  have part: "(\<exists>(x, y)\<in>set g. \<not> comparable x y) = (\<exists>(x, y)\<in>set g. \<not> snd (Delta x y))"
    using ok by (auto split: if_splits)
  show ?thesis
    unfolding bucket_of_def
  proof (intro conjI allI)
    fix k n
    show "amount (cell (b_Rows ?b) k n) = wrap64 (\<Sum>(x, y)\<leftarrow>g. if snd (Delta x y)
        then amount (cell (iv_Rows (fst (Delta x y))) k n) else 0)"
      unfolding vals sums ..
    show "b_Duration ?b = wrap64 (\<Sum>(x, y)\<leftarrow>g. if snd (Delta x y) then iv_Duration (fst (Delta x y)) else 0)"
      unfolding sums ab(4) plan(4) by simp
    show "b_Partial ?b = (\<exists>(x, y)\<in>set g. \<not> snd (Delta x y))"
      unfolding ab(3) plan(3) by (rule part)
  qed (simp_all add: ab(1,2) plan(1,2))
qed

section \<open>A point whatever its captures hold\<close>

text \<open>
  What a point owes to the spans of its run, for any captures. The spans are what is loaded: a
  counter that fell and caught up again inside one of them is not seen, and one that ends below its
  start drops the span with its rows and its time and leaves the point partial. A counter missing at
  either end adds nothing.
\<close>

definition moved :: "Snapshot \<Rightarrow> Snapshot \<Rightarrow> Key \<Rightarrow> string \<Rightarrow> int" where
  "moved x y k n =
     (case reading x k n of None \<Rightarrow> 0 | Some p \<Rightarrow> (case reading y k n of None \<Rightarrow> 0 | Some c \<Rightarrow> c - p))"

definition point_of :: "Bucket \<Rightarrow> (Snapshot \<times> Snapshot) list \<Rightarrow> bool" where
  "point_of b g \<longleftrightarrow>
     b_From b = snap_CapturedAt (fst (hd g)) \<and> b_To b = snap_CapturedAt (snd (last g))
   \<and> b_Partial b = ((\<exists>(x, y)\<in>set g. \<not> comparable x y) \<or> (\<exists>(x, y)\<in>set (spans_of g). fell x y))
   \<and> b_Duration b = wrap64
       ((\<Sum>(x, y)\<leftarrow>filter (\<lambda>(x, y). comparable x y) g. time_sub (snap_CapturedAt y) (snap_CapturedAt x))
        - (\<Sum>(x, y)\<leftarrow>spans_of g. if fell x y then time_sub (snap_CapturedAt y) (snap_CapturedAt x) else 0))
   \<and> (\<forall>k n. amount (cell (b_Rows b) k n) = wrap64 (\<Sum>(x, y)\<leftarrow>spans_of g. if fell x y then 0 else moved x y k n))"

definition span_rows :: "(i64 \<rightharpoonup> Snapshot) \<Rightarrow> Span \<Rightarrow> Row list" where
  "span_rows byTime s = (case spanDelta byTime s of None \<Rightarrow> [] | Some iv \<Rightarrow> iv_Rows iv)"

lemma wrap64_diff_left: "wrap64 (wrap64 a - b) = wrap64 (a - b)"
  using wrap64_add_left [of a "- b"] by simp

lemma assemble_any_spans:
  "in_i64 (b_Duration b) \<Longrightarrow> fold (assemble_span byTime) spans (b, acc) =
     (b\<lparr>b_Partial := b_Partial b \<or> (\<exists>s\<in>set spans. spanDelta byTime s = None),
        b_Duration := wrap64 (b_Duration b - (\<Sum>s\<leftarrow>spans. if spanDelta byTime s = None then time_sub (sp_To s) (sp_From s) else 0))\<rparr>,
      fold (\<lambda>s. add_rows Some (span_rows byTime s)) spans acc)"
proof (induction spans arbitrary: b acc)
  case Nil
  then show ?case by (simp add: wrap64_id)
next
  case (Cons s spans)
  show ?case
  proof (cases "spanDelta byTime s")
    case None
    let ?b = "b\<lparr>b_Partial := True, b_Duration := wrap64 (b_Duration b - time_sub (sp_To s) (sp_From s))\<rparr>"
    have "in_i64 (b_Duration ?b)" by simp
    from Cons.IH [OF this, of acc] show ?thesis
      using None by (simp add: assemble_span_def span_rows_def add_rows_def wrap64_diff_left diff_diff_eq)
  next
    case (Some iv)
    then show ?thesis using Cons by (simp add: assemble_span_def span_rows_def add_rows_Some)
  qed
qed

lemma assemble_bucket_any:
  assumes "\<forall>s\<in>set (Spans bp). rows_wf (span_rows byTime s)" and "in_i64 (bp_Duration bp)"
  defines "b \<equiv> assemble_bucket byTime bp"
  shows "b_From b = bp_From bp" and "b_To b = bp_To bp"
    and "b_Partial b = (Partial bp \<or> (\<exists>s\<in>set (Spans bp). spanDelta byTime s = None))"
    and "b_Duration b = wrap64 (bp_Duration bp - (\<Sum>s\<leftarrow>Spans bp. if spanDelta byTime s = None then time_sub (sp_To s) (sp_From s) else 0))"
    and "amount (cell (b_Rows b) k n) = wrap64 (\<Sum>s\<leftarrow>Spans bp. amount (cell (span_rows byTime s) k n))"
proof -
  let ?acc = "fold (\<lambda>s. add_rows Some (span_rows byTime s)) (Spans bp) []"
  have eq: "b = \<lparr>b_From = bp_From bp, b_To = bp_To bp,
      b_Duration = wrap64 (bp_Duration bp - (\<Sum>s\<leftarrow>Spans bp. if spanDelta byTime s = None then time_sub (sp_To s) (sp_From s) else 0)),
      b_Partial = (Partial bp \<or> (\<exists>s\<in>set (Spans bp). spanDelta byTime s = None)), b_Rows = sortedRows ?acc\<rparr>"
    using assms(2) by (simp add: b_def assemble_bucket_def assemble_any_spans)
  then show "b_From b = bp_From bp" "b_To b = bp_To bp"
    "b_Partial b = (Partial bp \<or> (\<exists>s\<in>set (Spans bp). spanDelta byTime s = None))"
    "b_Duration b = wrap64 (bp_Duration bp - (\<Sum>s\<leftarrow>Spans bp. if spanDelta byTime s = None then time_sub (sp_To s) (sp_From s) else 0))"
    by simp_all
  have "(\<Sum>s\<leftarrow>Spans bp. tally (span_rows byTime s) Some k n) = (\<Sum>s\<leftarrow>Spans bp. amount (cell (span_rows byTime s) k n))"
    using assms(1) by (intro arg_cong [where f = sum_list] map_cong) (auto simp: tally_cell)
  then show "amount (cell (b_Rows b) k n) = wrap64 (\<Sum>s\<leftarrow>Spans bp. amount (cell (span_rows byTime s) k n))"
    by (simp add: eq sortedRows_cell fold_add_rows_wf fold_add_rows_amount acc_cell_def [of "[]"])
qed

lemma loaded_span:
  assumes "comparable x y" "rows_wf (snap_Rows x)" "rows_wf (snap_Rows y)"
    and "byTime (UnixNano (snap_CapturedAt x)) = Some x" "byTime (UnixNano (snap_CapturedAt y)) = Some y"
  shows "(spanDelta byTime (ends (x, y)) = None) = fell x y" and "rows_wf (span_rows byTime (ends (x, y)))"
    and "amount (cell (span_rows byTime (ends (x, y))) k n) = wrap64 (if fell x y then 0 else moved x y k n)"
proof -
  have *: "(spanDelta byTime (ends (x, y)) = None) = fell x y \<and> rows_wf (span_rows byTime (ends (x, y)))
    \<and> amount (cell (span_rows byTime (ends (x, y))) k n) = wrap64 (if fell x y then 0 else moved x y k n)"
    using assms(2,3)
  proof (cases rule: Delta_cases)
    case gap
    then have "spanDelta byTime (ends (x, y)) = None" "fell x y"
      using assms(1,4,5) by (auto simp: spanDelta_def)
    then show ?thesis by (simp add: span_rows_def rows_wf_def cell_def rows_by_key_def wrap64_id in_i64_def)
  next
    case (measured rs)
    then obtain iv where iv: "spanDelta byTime (ends (x, y)) = Some iv" "iv_Rows iv = rs"
      using assms(4,5) by (auto simp: spanDelta_def)
    have "amount (cell rs k n) = wrap64 (moved x y k n)"
      by (auto simp: measured(5) moved_def wrap64_id in_i64_def split: option.split)
    then show ?thesis using iv measured(2,4) by (simp add: span_rows_def)
  qed
  then show "(spanDelta byTime (ends (x, y)) = None) = fell x y" "rows_wf (span_rows byTime (ends (x, y)))"
    "amount (cell (span_rows byTime (ends (x, y))) k n) = wrap64 (if fell x y then 0 else moved x y k n)" by blast+
qed

lemma assembled_point:
  assumes g: "g \<noteq> []" "path g" "set g \<subseteq> A \<times> A"
    and A: "\<forall>s\<in>A. rows_wf (snap_Rows s)"
    and byTime: "\<forall>(x, y)\<in>set (fst (fold pair_step g ([], False))).
      byTime (UnixNano (snap_CapturedAt x)) = Some x \<and> byTime (UnixNano (snap_CapturedAt y)) = Some y"
  shows "point_of (assemble_bucket byTime (planOf (map seam g))) g"
proof -
  let ?b = "assemble_bucket byTime (planOf (map seam g))"
  have "spans_ok (\<lambda>x y. comparable x y) (fold pair_step g ([], False)) (snd (last g))"
    using pair_steps_ok [OF comparable_transp g(2,1), of "([], False)"] by (simp add: spans_ok_def)
  then have c: "comparable x y" if "(x, y) \<in> set (spans_of g)" for x y
    using that by (auto simp: spans_ok_def spans_of_steps)
  have ss: "comparable x y" "rows_wf (snap_Rows x)" "rows_wf (snap_Rows y)"
    "byTime (UnixNano (snap_CapturedAt x)) = Some x" "byTime (UnixNano (snap_CapturedAt y)) = Some y"
    if "(x, y) \<in> set (spans_of g)" for x y
    using c [OF that] that pair_steps_within [OF g(3)] A byTime by (auto simp: spans_of_steps)
  have each: "(spanDelta byTime (ends (x, y)) = None) = fell x y" "rows_wf (span_rows byTime (ends (x, y)))"
    "amount (cell (span_rows byTime (ends (x, y))) k n) = wrap64 (if fell x y then 0 else moved x y k n)"
    if "(x, y) \<in> set (spans_of g)" for x y k n
    using loaded_span [OF ss [OF that]] by blast+
  note plan = planOf_seams [OF g(1), unfolded spans_of_steps]
  have "in_i64 (bp_Duration (planOf (map seam g)))" by (simp add: plan(4))
  moreover have "\<forall>s\<in>set (Spans (planOf (map seam g))). rows_wf (span_rows byTime s)"
    using each(2) by (auto simp: plan(5))
  ultimately have ab: "b_From ?b = bp_From (planOf (map seam g))" "b_To ?b = bp_To (planOf (map seam g))"
    "b_Partial ?b = (Partial (planOf (map seam g)) \<or> (\<exists>s\<in>set (map ends (spans_of g)). spanDelta byTime s = None))"
    "b_Duration ?b = wrap64 (bp_Duration (planOf (map seam g))
       - (\<Sum>s\<leftarrow>map ends (spans_of g). if spanDelta byTime s = None then time_sub (sp_To s) (sp_From s) else 0))"
    "amount (cell (b_Rows ?b) k n) = wrap64 (\<Sum>s\<leftarrow>map ends (spans_of g). amount (cell (span_rows byTime s) k n))" for k n
    using assemble_bucket_any [of "planOf (map seam g)" byTime] by (simp_all only: plan(5))
  have part: "(\<exists>s\<in>set (map ends (spans_of g)). spanDelta byTime s = None) = (\<exists>(x, y)\<in>set (spans_of g). fell x y)"
    using each(1) by (auto split: prod.splits) force+
  have time: "map (\<lambda>s. if spanDelta byTime s = None then time_sub (sp_To s) (sp_From s) else 0) (map ends (spans_of g))
      = map (\<lambda>(x, y). if fell x y then time_sub (snap_CapturedAt y) (snap_CapturedAt x) else 0) (spans_of g)"
    unfolding list.map_comp
  proof (rule map_cong [OF refl])
    fix q assume "q \<in> set (spans_of g)"
    then have "(spanDelta byTime (ends q) = None) = fell (fst q) (snd q)" using each(1) [of "fst q" "snd q"] by simp
    then show "((\<lambda>s. if spanDelta byTime s = None then time_sub (sp_To s) (sp_From s) else 0) \<circ> ends) q
        = (case q of (x, y) \<Rightarrow> if fell x y then time_sub (snap_CapturedAt y) (snap_CapturedAt x) else 0)"
      by (simp add: case_prod_beta)
  qed
  have vals: "map (\<lambda>s. amount (cell (span_rows byTime s) k n)) (map ends (spans_of g))
      = map (\<lambda>q. wrap64 (case q of (x, y) \<Rightarrow> if fell x y then 0 else moved x y k n)) (spans_of g)" for k n
    using each(3) by (auto split: prod.splits)
  show ?thesis
    unfolding point_of_def ab(1-4) part time plan(1-4)
    by (simp del: map_map add: ab(5) vals wrap64_sum_list wrap64_diff_left)
qed

text \<open>A point of a single pair is the delta of the pair, steady or not.\<close>

lemma point_of_single:
  assumes "point_of b [(x, y)]" and "rows_wf (snap_Rows x)" and "rows_wf (snap_Rows y)"
  shows "bucket_of b [(x, y)]"
  using assms(2,3)
proof (cases rule: Delta_cases)
  case gap
  then show ?thesis using assms(1) by (auto simp: point_of_def bucket_of_def spans_of_def wrap64_id in_i64_def)
next
  case (measured rs)
  have "amount (cell rs k n) = wrap64 (moved x y k n)" for k n
    by (auto simp: measured(5) moved_def wrap64_id in_i64_def split: option.split)
  then show ?thesis using assms(1) measured(1-3)
    by (simp add: point_of_def bucket_of_def spans_of_def)
qed

lemma zip_tl_within: "set (zip xs (tl xs)) \<subseteq> set xs \<times> set xs"
  by (cases xs) (auto dest: set_zip_leftD set_zip_rightD)

lemma span_ends_loaded:
  assumes "g \<in> set gs" "g \<noteq> []" "q \<in> set (fst (fold pair_step g ([], False)))"
  shows "snap_CapturedAt (fst q) \<in> set (span_times \<lparr>Buckets = map (\<lambda>g. planOf (map seam g)) gs\<rparr>)
    \<and> snap_CapturedAt (snd q) \<in> set (span_times \<lparr>Buckets = map (\<lambda>g. planOf (map seam g)) gs\<rparr>)"
proof -
  have "ends q \<in> set (Spans (planOf (map seam g)))"
    using assms(3) by (simp add: planOf_seams(5) [OF assms(2)])
  then show ?thesis
    using assms(1) by (cases q) (force simp: span_times_def)
qed

lemma span_times_within:
  assumes "\<forall>g\<in>set gs. g \<noteq> [] \<and> set g \<subseteq> A \<times> A"
  shows "set (span_times \<lparr>Buckets = map (\<lambda>g. planOf (map seam g)) gs\<rparr>) \<subseteq> snap_CapturedAt ` A"
proof -
  have "\<forall>s\<in>set (Spans (planOf (map seam g))). sp_From s \<in> snap_CapturedAt ` A \<and> sp_To s \<in> snap_CapturedAt ` A"
    if "g \<in> set gs" for g
    using that assms pair_steps_within [of g A] by (fastforce simp: planOf_seams(5))
  then show ?thesis by (auto simp: span_times_def)
qed

lemma plan_runs:
  assumes "history snaps" and "in_i64 points"
  obtains runs where
    "PlanBuckets (map meta_of snaps) points = Some \<lparr>Buckets = map (\<lambda>g. planOf (map seam g)) runs\<rparr>"
    "concat runs = zip snaps (tl snaps)" "[] \<notin> set runs" "length runs \<le> nat (max 1 points)"
proof -
  let ?z = "zip snaps (tl snaps)"
  have "chained (map seam ?z)" using assms(1) by (intro chained_seams) (simp add: history_def)
  then obtain gs where gs: "groupIntervals (map seam ?z) points = Some gs" "concat gs = map seam ?z"
    "[] \<notin> set gs" "length gs \<le> nat (max 1 points)"
    using assms(2) by (rule groupIntervals_partition)
  obtain runs where runs: "gs = map (map seam) runs" "concat runs = ?z"
    using concat_map_split [OF gs(2)] by blast
  show thesis
    by (rule that [of runs]) (use gs runs in \<open>auto simp: PlanBuckets_def seam_of_zip\<close>)
qed

text \<open>
  C12: what the points of the optimised series hold. From the headers of any history (captures at
  increasing times, one row per key) the plan splits the adjacent pairs of captures, in order, into at
  most \<open>max 1 points\<close> non-empty runs, one per point, and only the captures the plan lists are
  loaded. Whatever the captures hold, a point carries for each counter the sum, over the maximal
  stretches of one epoch in its run, of the difference between the ends of the stretch; a stretch
  over which some counter ends below its start gives no row, its time is taken out of the point's
  duration, and the point is partial, as it is when a pair of its run crosses an epoch. Where the run
  of a point is steady, which means that between two captures of one epoch no counter falls and no
  cell appears or goes, or where it is a single pair, the point is the reference one: its rows are the
  sums of the deltas of all adjacent pairs, its duration is theirs, and it is partial exactly when
  one of them cannot be measured.
\<close>

theorem series_equals_adjacent_sums:
  assumes h: "history snaps" and pt: "in_i64 points"
  shows "\<exists>p runs. PlanBuckets (map meta_of snaps) points = Some p
    \<and> concat runs = zip snaps (tl snaps) \<and> [] \<notin> set runs \<and> length runs \<le> nat (max 1 points)
    \<and> list_all2 (\<lambda>b g. point_of b g \<and> (steady g \<or> length g = 1 \<longrightarrow> bucket_of b g))
        (Assemble p (filter (\<lambda>s. snap_CapturedAt s \<in> set (At p)) snaps)) runs"
proof -
  obtain runs where plan: "PlanBuckets (map meta_of snaps) points =
      Some \<lparr>Buckets = map (\<lambda>g. planOf (map seam g)) runs\<rparr>"
    and runs: "concat runs = zip snaps (tl snaps)" and ne: "[] \<notin> set runs"
    and len: "length runs \<le> nat (max 1 points)"
    by (rule plan_runs [OF h pt])
  define p where "p = \<lparr>Buckets = map (\<lambda>g. planOf (map seam g)) runs\<rparr>"
  let ?ld = "filter (\<lambda>s. snap_CapturedAt s \<in> set (At p)) snaps"
  have within: "set g \<subseteq> set snaps \<times> set snaps" if "g \<in> set runs" for g
    using that zip_tl_within [of snaps] by (auto simp flip: runs)
  have dist: "distinct (map snap_CapturedAt ?ld)" "\<forall>s\<in>set ?ld. in_i64 (snap_CapturedAt s)"
    using h by (auto simp: history_def strict_sorted_iff distinct_map_filter)
  have "set (span_times p) \<subseteq> snap_CapturedAt ` set snaps"
    unfolding p_def using within ne by (intro span_times_within) auto
  then have loads: "set (At p) = set (span_times p)"
    using h by (subst At_def, subst first_seen_set) (auto simp: history_def)
  have "point_of (assemble_bucket (snaps_by_time ?ld) (planOf (map seam g))) g
      \<and> (steady g \<or> length g = 1 \<longrightarrow> bucket_of (assemble_bucket (snaps_by_time ?ld) (planOf (map seam g))) g)"
    if g: "g \<in> set runs" for g
  proof -
    have gne: "g \<noteq> []" and gp: "path g" using g ne path_concat [of runs g] path_zip [of snaps] by (auto simp: runs)
    have wf: "\<forall>s\<in>set snaps. rows_wf (snap_Rows s)" using h by (simp add: history_def)
    have ld: "\<forall>(x, y)\<in>set (fst (fold pair_step g ([], False))).
        snaps_by_time ?ld (UnixNano (snap_CapturedAt x)) = Some x
      \<and> snaps_by_time ?ld (UnixNano (snap_CapturedAt y)) = Some y"
    proof (clarify, intro conjI)
      fix x y assume xy: "(x, y) \<in> set (fst (fold pair_step g ([], False)))"
      have "x \<in> set ?ld" "y \<in> set ?ld"
        using span_ends_loaded [OF g gne xy] pair_steps_within [OF within [OF g]] xy loads
        by (auto simp: p_def)
      then show "snaps_by_time ?ld (UnixNano (snap_CapturedAt x)) = Some x"
        "snaps_by_time ?ld (UnixNano (snap_CapturedAt y)) = Some y"
        using dist by (simp_all only: snaps_by_time_lookup)
    qed
    note point = assembled_point [OF gne gp within [OF g] wf ld]
    have "bucket_of (assemble_bucket (snaps_by_time ?ld) (planOf (map seam g))) g" if one: "length g = 1"
    proof -
      obtain x y where e: "g = [(x, y)]" using one by (cases g) auto
      then have "x \<in> set snaps" "y \<in> set snaps" using within [OF g] by auto
      then show ?thesis using point_of_single [OF point [unfolded e]] wf e by blast
    qed
    then show ?thesis using point assembled_bucket [OF gne gp _ within [OF g] wf ld] by blast
  qed
  then have "list_all2 (\<lambda>b g. point_of b g \<and> (steady g \<or> length g = 1 \<longrightarrow> bucket_of b g)) (Assemble p ?ld) runs"
    by (simp add: Assemble_def p_def list_all2_map1 list_all2_same)
  then show ?thesis using plan runs ne len unfolding p_def by blast
qed

section \<open>The captures a plan loads\<close>

definition pair_times :: "(Snapshot \<times> Snapshot) list \<Rightarrow> time list" where
  "pair_times ss = concat (map (\<lambda>(x, y). [snap_CapturedAt x, snap_CapturedAt y]) ss)"

lemma pair_times_simps [simp]:
  "pair_times [] = []" "pair_times (ss @ ts) = pair_times ss @ pair_times ts"
  "pair_times [(x, y)] = [snap_CapturedAt x, snap_CapturedAt y]"
  by (simp_all add: pair_times_def)

abbreviation forward :: "(Snapshot \<times> Snapshot) list \<Rightarrow> bool" where
  "forward ps \<equiv> \<forall>(x, y)\<in>set ps. snap_CapturedAt x < snap_CapturedAt y"

definition ordered_upto :: "time \<Rightarrow> (Snapshot \<times> Snapshot) list \<times> bool \<Rightarrow> time \<Rightarrow> bool" where
  "ordered_upto lo st hi \<longleftrightarrow> sorted (pair_times (fst st)) \<and> set (pair_times (fst st)) \<subseteq> {lo..hi}
     \<and> lo \<le> hi \<and> (snd st \<longrightarrow> fst st \<noteq> [])"

lemma pair_step_ordered:
  assumes "ordered_upto lo st (snap_CapturedAt x)" and "snap_CapturedAt x < snap_CapturedAt y"
  shows "ordered_upto lo (pair_step (x, y) st) (snap_CapturedAt y)"
proof -
  obtain ss op where st: "st = (ss, op)" by (cases st)
  have le: "set (pair_times ss) \<subseteq> {lo..snap_CapturedAt y}"
    using assms st by (fastforce simp: ordered_upto_def)
  show ?thesis
  proof (cases "comparable x y \<and> op")
    case True
    then have "ss \<noteq> []" using assms(1) st by (simp add: ordered_upto_def)
    then obtain bs a b where ss: "ss = bs @ [(a, b)]" by (metis append_butlast_last_id prod.exhaust)
    then show ?thesis
      using True assms st le by (fastforce simp: ordered_upto_def pair_step_def sorted_append)
  next
    case False
    then show ?thesis
      using assms st le by (auto simp: ordered_upto_def pair_step_def sorted_append)
  qed
qed

lemma pair_steps_ordered:
  "path ps \<Longrightarrow> ps \<noteq> [] \<Longrightarrow> forward ps \<Longrightarrow> ordered_upto lo st (snap_CapturedAt (fst (hd ps))) \<Longrightarrow>
   ordered_upto lo (fold pair_step ps st) (snap_CapturedAt (snd (last ps)))"
proof (induction ps arbitrary: st rule: path.induct)
  case (1 p q ps)
  obtain x y where p: "p = (x, y)" by (cases p)
  then have "ordered_upto lo (pair_step p st) (snap_CapturedAt (fst q))"
    using 1(2,4,5) pair_step_ordered [of lo st x y] by auto
  then show ?case using 1(1) [of "pair_step p st"] 1(2,4) by simp
next
  case (3 p)
  obtain x y where "p = (x, y)" by (cases p)
  then show ?case using pair_step_ordered [of lo st x y] 3 by auto
qed simp

abbreviation run_times :: "(Snapshot \<times> Snapshot) list \<Rightarrow> time list" where
  "run_times g \<equiv> pair_times (fst (fold pair_step g ([], False)))"

lemma run_times_ordered:
  assumes "path g" and "g \<noteq> []" and "forward g"
  shows "sorted (run_times g)"
    and "set (run_times g) \<subseteq> {snap_CapturedAt (fst (hd g))..snap_CapturedAt (snd (last g))}"
  using pair_steps_ordered [OF assms, of "snap_CapturedAt (fst (hd g))" "([], False)"]
  by (simp_all add: ordered_upto_def)

lemma path_seam: "path (g @ h) \<Longrightarrow> g \<noteq> [] \<Longrightarrow> h \<noteq> [] \<Longrightarrow> snd (last g) = fst (hd h)"
proof (induction g rule: path.induct)
  case (3 v)
  then show ?case by (cases h) auto
qed auto

lemma runs_times_ordered:
  "path (concat gs) \<Longrightarrow> [] \<notin> set gs \<Longrightarrow> forward (concat gs) \<Longrightarrow>
   sorted (concat (map run_times gs))
   \<and> (\<forall>t\<in>set (concat (map run_times gs)). snap_CapturedAt (fst (hd (concat gs))) \<le> t)"
proof (induction gs)
  case (Cons g gs)
  define R where "R = concat (map run_times gs)"
  have pg: "path (g @ concat gs)" using Cons.prems(1) by simp
  have g: "g \<noteq> []" "path g" "path (concat gs)" using path_append [OF pg] Cons.prems(2) by auto
  have fw: "forward g" "forward (concat gs)" "[] \<notin> set gs" using Cons.prems(2,3) by simp_all
  have here: "sorted (run_times g)"
    "\<And>t. t \<in> set (run_times g) \<Longrightarrow>
       snap_CapturedAt (fst (hd g)) \<le> t \<and> t \<le> snap_CapturedAt (snd (last g))"
    using run_times_ordered [OF g(2,1) fw(1)] by auto
  have first: "snap_CapturedAt (fst (hd g)) \<le> snap_CapturedAt (snd (last g))"
    using pair_steps_ordered [OF g(2,1) fw(1), of "snap_CapturedAt (fst (hd g))" "([], False)"]
    by (simp add: ordered_upto_def)
  have ih: "sorted R" "\<And>t. t \<in> set R \<Longrightarrow> snap_CapturedAt (fst (hd (concat gs))) \<le> t"
    using Cons.IH [OF g(3) fw(3,2)] unfolding R_def by blast+
  have join: "snap_CapturedAt (snd (last g)) \<le> t" if "t \<in> set R" for t
  proof (cases "concat gs = []")
    case True
    then have "gs = []" using fw(3) by (cases gs) auto
    then show ?thesis using that by (simp add: R_def)
  next
    case False
    then show ?thesis using ih(2) [OF that] path_seam [OF pg g(1)] by simp
  qed
  have "sorted (run_times g @ R)"
    unfolding sorted_append using here ih(1) join order_trans by blast
  moreover have "snap_CapturedAt (fst (hd g)) \<le> t" if "t \<in> set (run_times g @ R)" for t
    using that here(2) [of t] join [of t] first by auto
  ultimately show ?case using g(1) unfolding R_def by simp
qed simp

lemma first_seen_sorted:
  "sorted ts \<Longrightarrow> \<forall>t\<in>set ts. in_i64 t \<Longrightarrow> sorted_wrt (<) (first_seen sn ts)"
proof (induction ts arbitrary: sn)
  case (Cons t ts)
  have "\<forall>u\<in>set (first_seen (UnixNano t # sn) ts). t < u"
    using Cons.prems first_seen_set [of ts "UnixNano t # sn"]
    by (auto simp: UnixNano_def wrap64_id order_less_le)
  then show ?case using Cons by auto
qed simp

lemma span_times_runs:
  assumes "[] \<notin> set runs"
  shows "span_times \<lparr>Buckets = map (\<lambda>g. planOf (map seam g)) runs\<rparr> = concat (map run_times runs)"
proof -
  have "concat (map (\<lambda>s. [sp_From s, sp_To s]) (Spans (planOf (map seam g)))) = run_times g"
    if "g \<in> set runs" for g
  proof -
    have "g \<noteq> []" using that assms by auto
    then have "Spans (planOf (map seam g)) = map ends (fst (fold pair_step g ([], False)))"
      by (rule planOf_seams(5))
    moreover have "concat (map (\<lambda>s. [sp_From s, sp_To s]) (map ends ss)) = pair_times ss" for ss
      by (induction ss) (auto simp: pair_times_def)
    ultimately show ?thesis by (simp only:)
  qed
  then show ?thesis by (simp add: span_times_def o_def cong: map_cong)
qed

lemma forward_zip: "sorted_wrt (<) (map snap_CapturedAt snaps) \<Longrightarrow> forward (zip snaps (tl snaps))"
proof (induction snaps)
  case (Cons x xs)
  then show ?case by (cases xs) auto
qed simp

text \<open>
  The captures a plan asks for are captures of the history, in chronological order and
  without repeats, as the comment on \<^verbatim>\<open>At\<close> promises; a boundary shared by two
  points is listed once.
\<close>

lemma plan_loads_in_order:
  assumes "history snaps" and "in_i64 points" and "PlanBuckets (map meta_of snaps) points = Some p"
  shows "sorted_wrt (<) (At p) \<and> set (At p) \<subseteq> snap_CapturedAt ` set snaps"
proof -
  obtain runs where plan: "p = \<lparr>Buckets = map (\<lambda>g. planOf (map seam g)) runs\<rparr>"
    and runs: "concat runs = zip snaps (tl snaps)" and ne: "[] \<notin> set runs"
    using plan_runs [OF assms(1,2)] assms(3) by (metis option.inject)
  have sub: "set (span_times p) \<subseteq> snap_CapturedAt ` set snaps"
    unfolding plan by (rule span_times_within) (use ne zip_tl_within [of snaps] in \<open>auto simp flip: runs\<close>)
  have "sorted (span_times p)"
    unfolding plan span_times_runs [OF ne]
    using runs_times_ordered [of runs] ne path_zip [of snaps] forward_zip [of snaps] assms(1)
    by (simp add: runs history_def)
  moreover have "\<forall>t\<in>set (span_times p). in_i64 t" using sub assms(1) by (auto simp: history_def)
  ultimately show ?thesis
    unfolding At_def using sub first_seen_set [of "span_times p" "[]"] by (simp add: first_seen_sorted)
qed

section \<open>A concrete history\<close>

text \<open>
  Four captures a minute apart, the statistics reset between the second and the third;
  PostgreSQL 17 without byte counters, so that \<^verbatim>\<open>Normalized\<close> derives them.
\<close>

definition demo_snap :: "time \<Rightarrow> time \<Rightarrow> i64 \<Rightarrow> Snapshot" where
  "demo_snap t reset reads =
     \<lparr>snap_CapturedAt = t * minute, snap_VersionNum = 170002, OpBytes = Some 8192,
      snap_TrackIOTiming = True, snap_TrackWALIOTiming = False, snap_StatsReset = Some reset,
      snap_Rows = [\<lparr>row_Key = \<lparr>BackendType = ''client backend'', Object = ''relation'', Context = ''normal''\<rparr>,
                    Values = [(''reads'', reads)]\<rparr>]\<rparr>"

definition demo_history :: "Snapshot list" where
  "demo_history = [demo_snap 1 0 100, demo_snap 2 0 130, demo_snap 3 7 5, demo_snap 4 7 9]"

lemmas demo_defs = demo_history_def demo_snap_def duration_units

lemma demo_history_ok: "history demo_history" "rows_wf (snap_Rows (demo_snap t r v))"
  by (simp_all add: demo_defs history_def rows_wf_def in_i64_def)

lemma demo_reading:
  "reading (demo_snap t r v) k n =
     (if k = \<lparr>BackendType = ''client backend'', Object = ''relation'', Context = ''normal''\<rparr>
      then if n = ''reads'' then Some v else if n = ''read_bytes'' then Some (wrap64 (v * 8192)) else None
      else None)"
  by (simp add: reading_def cell_def demo_snap_def Normalized_def rows_by_key_def fill_bytes_def
      byteCounters_def)

lemma demo_fell: "in_i64 (v * 8192) \<Longrightarrow> in_i64 (u * 8192) \<Longrightarrow> v \<le> u \<Longrightarrow>
   \<not> fell (demo_snap t r v) (demo_snap t' r' u)"
  by (auto simp: fell_def demo_reading wrap64_id split: if_splits)

lemma demo_steady: "steady (zip demo_history (tl demo_history))"
proof -
  have "sameEpoch (meta_of (demo_snap 2 0 130)) (meta_of (demo_snap 3 7 5)) = False"
    by (simp add: demo_snap_def meta_of_def sameEpoch_def)
  moreover have "\<not> fell (demo_snap 1 0 100) (demo_snap 2 0 130)" "\<not> fell (demo_snap 3 7 5) (demo_snap 4 7 9)"
    by (simp_all add: demo_fell in_i64_def)
  ultimately show ?thesis
    by (simp add: steady_def demo_history_def demo_reading)
qed

theorem delta_exact_witness:
  "snd (Delta (demo_snap 1 0 100) (demo_snap 2 0 130))
   \<and> cell (iv_Rows (fst (Delta (demo_snap 1 0 100) (demo_snap 2 0 130))))
        \<lparr>BackendType = ''client backend'', Object = ''relation'', Context = ''normal''\<rparr> ''read_bytes'' = Some 245760
   \<and> \<not> snd (Delta (demo_snap 2 0 130) (demo_snap 3 7 5))"
proof -
  obtain iv ok where d: "Delta (demo_snap 1 0 100) (demo_snap 2 0 130) = (iv, ok)"
    by (cases "Delta (demo_snap 1 0 100) (demo_snap 2 0 130)")
  obtain iv' ok' where d': "Delta (demo_snap 2 0 130) (demo_snap 3 7 5) = (iv', ok')"
    by (cases "Delta (demo_snap 2 0 130) (demo_snap 3 7 5)")
  have c: "comparable (demo_snap 1 0 100) (demo_snap 2 0 130)"
    by (simp add: demo_snap_def duration_units meta_of_def sameEpoch_def)
  have e: "\<not> sameEpoch (meta_of (demo_snap 2 0 130)) (meta_of (demo_snap 3 7 5))"
    by (simp add: demo_snap_def meta_of_def sameEpoch_def)
  have f: "\<not> fell (demo_snap 1 0 100) (demo_snap 2 0 130)" by (simp add: demo_fell in_i64_def)
  show ?thesis
    using delta_exact [OF demo_history_ok(2) demo_history_ok(2) d] c f d
      delta_exact [OF demo_history_ok(2) demo_history_ok(2) d'] e d'
    by (simp add: demo_reading wrap64_id in_i64_def)
qed

theorem series_equals_adjacent_sums_witness:
  "history demo_history \<and> steady (zip demo_history (tl demo_history))
   \<and> (\<exists>p runs. PlanBuckets (map meta_of demo_history) 2 = Some p
       \<and> concat runs = zip demo_history (tl demo_history) \<and> [] \<notin> set runs \<and> length runs \<le> 2
       \<and> list_all2 (\<lambda>b g. point_of b g \<and> (steady g \<or> length g = 1 \<longrightarrow> bucket_of b g))
           (Assemble p (filter (\<lambda>s. snap_CapturedAt s \<in> set (At p)) demo_history)) runs)"
  using series_equals_adjacent_sums [OF demo_history_ok(1), of 2] demo_history_ok(1) demo_steady
  by (simp add: in_i64_def)

end
