(* ===== verification/Hot_Objects.thy ===== *)
theory Hot_Objects
  imports Go_Float
begin

text \<open>
  Package \<^verbatim>\<open>backend/internal/hotobjects\<close>: per-host deltas of table and index counters
  against stored anchors, summed over the cluster, ranked per class into an exact top and a
  histogram of the tail (\<^verbatim>\<open>hotobjects.go\<close>, \<^verbatim>\<open>report.go\<close>), and the
  status of cold tables (\<^verbatim>\<open>cold.go\<close>).

  A Go map is an association list with distinct keys whose order stands for one iteration
  order. \<^verbatim>\<open>sort.Slice\<close> is not stable and its input comes out of a map, so the order
  of the objects of a class is the parameter \<open>sortfn\<close>, used through its documented
  contract \<open>sorts_ranked\<close>. Counters are 64-bit and wrap.
\<close>

section \<open>Data\<close>

type_synonym Kind = string
type_synonym Class = string

definition KindTable :: Kind where "KindTable = ''t''"
definition KindIndex :: Kind where "KindIndex = ''i''"

definition ClassReads :: Class where "ClassReads = ''reads''"
definition ClassWrites :: Class where "ClassWrites = ''writes''"
definition ClassIO :: Class where "ClassIO = ''io''"

lemmas kind_defs = KindTable_def KindIndex_def
lemmas class_defs = ClassReads_def ClassWrites_def ClassIO_def

definition TableClasses :: "Class list" where "TableClasses = [ClassReads, ClassWrites, ClassIO]"
definition IndexClasses :: "Class list" where "IndexClasses = [ClassReads, ClassIO]"

type_synonym Counters = "(string \<times> i64) list"

record AnchorRow =
  Instance :: string
  Kind :: Kind
  Schema :: string
  Object :: string
  TableName :: string
  CapturedAt :: time
  StatsReset :: "time option"
  SizeBytes :: i64
  PartSig :: string
  row_Counters :: Counters
  QuietSince :: "time option"

record HostWindow =
  win_From :: time
  win_To :: time
  win_Complete :: bool
  win_StatsReset :: "time option"
  ObservedSince :: "time option"

record Histogram =
  Deciles :: "f64 list"
  Upper :: "f64 list"
  hist_Count :: nat
  hist_Sum :: i64
  hist_Max :: i64

record KindHistogram =
  kh_Tables :: "Histogram option"
  kh_Indexes :: "Histogram option"

record KindRatio =
  kr_Tables :: f64
  kr_Indexes :: f64

record HostDelta =
  hd_Complete :: bool
  hd_InRecovery :: bool
  hd_Delta :: Counters

record TopEntry =
  Rank :: nat
  top_Kind :: Kind
  top_Class :: Class
  top_Schema :: string
  top_Object :: string
  top_TableName :: string
  top_SizeBytes :: i64
  top_Delta :: Counters
  top_PerHost :: "(string \<times> HostDelta) list"

record HotSnapshot =
  ClusterName :: string
  Database :: string
  snap_CapturedAt :: time
  Windows :: "(string \<times> HostWindow) list"
  HostsMissing :: "string list"
  Coverage :: "(Class \<times> KindRatio) list"
  Histograms :: "(Class \<times> KindHistogram) list"
  Top :: "TopEntry list"

record HostSample =
  smp_Instance :: string
  smp_CapturedAt :: time
  smp_StatsReset :: "time option"
  smp_InRecovery :: bool
  smp_Rows :: "AnchorRow list"

record BuildInput =
  Sample :: HostSample
  Anchors :: "(string \<times> AnchorRow) list"
  PrevWindow :: "HostWindow option"

record aggObject =
  agg_kind :: Kind
  agg_schema :: string
  agg_object :: string
  agg_tableName :: string
  agg_sizeBytes :: i64
  agg_delta :: Counters
  agg_perHost :: "(string \<times> HostDelta) list"

section \<open>Ranking keys and deltas\<close>

definition object_Key :: "Kind \<Rightarrow> string \<Rightarrow> string \<Rightarrow> string" where
  "object_Key kind schema object = kind @ '':'' @ schema @ ''.'' @ object"

text \<open>Reading a key a map does not have gives zero.\<close>

definition counter :: "Counters \<Rightarrow> string \<Rightarrow> i64" where
  "counter c k = (case map_of c k of None \<Rightarrow> 0 | Some v \<Rightarrow> v)"

definition RankKey :: "Kind \<Rightarrow> Class \<Rightarrow> Counters \<Rightarrow> i64" where
  "RankKey kind cls c =
     (if kind = KindTable then
        (if cls = ClassReads then wrap64 (counter c ''seq_tup_read'' + counter c ''idx_tup_fetch'')
         else if cls = ClassWrites
         then wrap64 (wrap64 (counter c ''n_tup_ins'' + counter c ''n_tup_upd'') + counter c ''n_tup_del'')
         else if cls = ClassIO
         then wrap64 (wrap64 (counter c ''heap_blks_read'' + counter c ''idx_blks_read'')
                      + counter c ''toast_blks_read'')
         else 0)
      else if kind = KindIndex then
        (if cls = ClassReads then counter c ''idx_tup_read''
         else if cls = ClassIO then counter c ''idx_blks_read''
         else 0)
      else 0)"

definition ClassesFor :: "Kind \<Rightarrow> Class list" where
  "ClassesFor kind = (if kind = KindIndex then IndexClasses else TableClasses)"

fun object_Delta :: "Counters \<Rightarrow> Counters \<Rightarrow> Counters option" where
  "object_Delta prev [] = Some []"
| "object_Delta prev ((k, cv) # cur) =
     (if cv < counter prev k then None
      else (case object_Delta prev cur of
              None \<Rightarrow> None
            | Some out \<Rightarrow> Some ((k, wrap64 (cv - counter prev k)) # out)))"

section \<open>One host against its anchors\<close>

definition epochIntact :: "BuildInput \<Rightarrow> bool" where
  "epochIntact inp =
     (case Anchors inp of
        [] \<Rightarrow> False
      | (_, a) # _ \<Rightarrow>
          (case (StatsReset a, smp_StatsReset (Sample inp)) of
             (None, None) \<Rightarrow> True
           | (Some x, Some y) \<Rightarrow> x = y
           | _ \<Rightarrow> False))"

definition observedSince :: "BuildInput \<Rightarrow> bool \<Rightarrow> time \<Rightarrow> time option" where
  "observedSince inp intact capturedAt =
     (if smp_InRecovery (Sample inp) then None
      else if intact \<and> (case PrevWindow inp of None \<Rightarrow> False | Some w \<Rightarrow> ObservedSince w \<noteq> None)
      then ObservedSince (the (PrevWindow inp))
      else Some capturedAt)"

definition row_key :: "AnchorRow \<Rightarrow> string" where
  "row_key r = object_Key (Kind r) (Schema r) (Object r)"

definition quietSince :: "BuildInput \<Rightarrow> bool \<Rightarrow> AnchorRow \<Rightarrow> time \<Rightarrow> time option" where
  "quietSince inp intact row capturedAt =
     (case map_of (Anchors inp) (row_key row) of
        None \<Rightarrow> Some capturedAt
      | Some anchor \<Rightarrow>
          if QuietSince anchor = None \<or> \<not> intact \<or> PartSig anchor \<noteq> PartSig row
          then Some capturedAt
          else (case object_Delta (row_Counters anchor) (row_Counters row) of
                  None \<Rightarrow> Some capturedAt
                | Some d \<Rightarrow>
                    if RankKey KindTable ClassWrites d \<noteq> 0 then Some capturedAt
                    else QuietSince anchor))"

definition AdvanceQuiet :: "BuildInput \<Rightarrow> time \<Rightarrow> AnchorRow list" where
  "AdvanceQuiet inp capturedAt =
     (let intact = epochIntact inp
      in map (\<lambda>row.
           row\<lparr>QuietSince :=
             if Kind row = KindTable \<and> \<not> smp_InRecovery (Sample inp)
             then quietSince inp intact row capturedAt else None\<rparr>) (smp_Rows (Sample inp)))"

section \<open>Summing over the cluster\<close>

definition host_window :: "time \<Rightarrow> BuildInput \<Rightarrow> HostWindow" where
  "host_window capturedAt inp =
     (let intact = epochIntact inp;
          from_time = (case Anchors inp of [] \<Rightarrow> capturedAt | (_, a) # _ \<Rightarrow> CapturedAt a);
          intact = (if Anchors inp \<noteq> [] then intact else False)
      in \<lparr>win_From = from_time, win_To = smp_CapturedAt (Sample inp), win_Complete = intact,
          win_StatsReset = smp_StatsReset (Sample inp),
          ObservedSince = observedSince inp intact capturedAt\<rparr>)"

definition new_agg :: "AnchorRow \<Rightarrow> aggObject" where
  "new_agg row =
     \<lparr>agg_kind = Kind row, agg_schema = Schema row, agg_object = Object row,
      agg_tableName = TableName row, agg_sizeBytes = 0, agg_delta = [], agg_perHost = []\<rparr>"

definition add_delta :: "Counters \<Rightarrow> Counters \<Rightarrow> Counters" where
  "add_delta d dst = fold (\<lambda>(ck, cv) dst. AList.update ck (wrap64 (counter dst ck + cv)) dst) d dst"

text \<open>The delta of one row, where it is measurable.\<close>

definition row_delta :: "BuildInput \<Rightarrow> bool \<Rightarrow> AnchorRow \<Rightarrow> Counters option" where
  "row_delta inp intact row =
     (if \<not> intact then None
      else (case map_of (Anchors inp) (row_key row) of
              None \<Rightarrow> None
            | Some anchor \<Rightarrow>
                if PartSig anchor \<noteq> PartSig row then None
                else object_Delta (row_Counters anchor) (row_Counters row)))"

definition add_object :: "BuildInput \<Rightarrow> bool \<Rightarrow> AnchorRow \<Rightarrow> (string \<times> aggObject) list \<Rightarrow> (string \<times> aggObject) list" where
  "add_object inp intact row agg =
     (let k = row_key row;
          ob = (case map_of agg k of None \<Rightarrow> new_agg row | Some ob \<Rightarrow> ob);
          ob = ob\<lparr>agg_sizeBytes := max (agg_sizeBytes ob) (SizeBytes row)\<rparr>;
          ob = (case row_delta inp intact row of
                  None \<Rightarrow> ob
                | Some d \<Rightarrow>
                    ob\<lparr>agg_delta := add_delta d (agg_delta ob),
                       agg_perHost := AList.update (smp_Instance (Sample inp))
                         \<lparr>hd_Complete = True, hd_InRecovery = smp_InRecovery (Sample inp), hd_Delta = d\<rparr>
                         (agg_perHost ob)\<rparr>)
      in AList.update k ob agg)"

definition add_host :: "time \<Rightarrow> BuildInput \<Rightarrow> (string \<times> aggObject) list \<Rightarrow> (string \<times> aggObject) list" where
  "add_host capturedAt inp agg =
     fold (add_object inp (win_Complete (host_window capturedAt inp))) (smp_Rows (Sample inp)) agg"

section \<open>Top and tail of one class\<close>

type_synonym ranked = "aggObject \<times> i64"

definition measured_objects :: "Kind \<Rightarrow> Class \<Rightarrow> (string \<times> aggObject) list \<Rightarrow> ranked list" where
  "measured_objects kind cls agg =
     map (\<lambda>ob. (ob, RankKey kind cls (agg_delta ob)))
       (filter (\<lambda>ob. agg_kind ob = kind \<and> agg_perHost ob \<noteq> []) (map snd agg))"

text \<open>The comparison of the source's \<^verbatim>\<open>sort.Slice\<close>.\<close>

definition ranked_before :: "ranked \<Rightarrow> ranked \<Rightarrow> bool" where
  "ranked_before a b =
     (if snd a \<noteq> snd b then snd b < snd a
      else agg_schema (fst a) @ agg_object (fst a) < agg_schema (fst b) @ agg_object (fst b))"

definition sorts_ranked :: "(ranked list \<Rightarrow> ranked list) \<Rightarrow> bool" where
  "sorts_ranked f \<longleftrightarrow>
     (\<forall>xs. mset (f xs) = mset xs \<and> sorted_wrt (\<lambda>a b. \<not> ranked_before b a) (f xs))"

fun trim_idle :: "i64 list \<Rightarrow> nat \<Rightarrow> nat" where
  "trim_idle keys 0 = 0"
| "trim_idle keys (Suc n) = (if keys ! n \<le> 0 then trim_idle keys n else Suc n)"

fun math_Ceil :: "f64 \<Rightarrow> f64" where
  "math_Ceil (Fin a) = Fin (of_int \<lceil>a\<rceil>)"
| "math_Ceil x = x"

fun f64_to_int :: "f64 \<Rightarrow> int" where
  "f64_to_int (Fin a) = (if 0 \<le> a then \<lfloor>a\<rfloor> else \<lceil>a\<rceil>)"
| "f64_to_int _ = - (2 ^ 63)"

definition hotDecileProbs :: "f64 list" where
  "hotDecileProbs = map lit [1/10, 2/10, 3/10, 4/10, 5/10, 6/10, 7/10, 8/10, 9/10]"

definition hotUpperProbs :: "f64 list" where
  "hotUpperProbs = map lit [95/100, 99/100]"

definition float_sort :: "f64 list \<Rightarrow> f64 list" where
  "float_sort xs = foldr (\<lambda>x ys. takeWhile (\<lambda>y. y < x) ys @ x # dropWhile (\<lambda>y. y < x) ys) xs []"

definition quantiles :: "f64 list \<Rightarrow> f64 list \<Rightarrow> f64 list" where
  "quantiles vals probs =
     (if vals = [] then []
      else
        (let sorted_vals = float_sort vals;
             n = int (length sorted_vals)
         in map (\<lambda>p.
              let idx = max (f64_to_int (math_Ceil (p * of_i64 n - lit (1 / 1000000000)))) 1;
                  idx = (if n < idx then n else idx)
              in sorted_vals ! nat (idx - 1)) probs))"

definition deciles :: "f64 list \<Rightarrow> f64 list" where
  "deciles vals = quantiles vals hotDecileProbs"

definition top_entry :: "Kind \<Rightarrow> Class \<Rightarrow> nat \<Rightarrow> aggObject \<Rightarrow> TopEntry" where
  "top_entry kind cls i ob =
     \<lparr>Rank = i + 1, top_Kind = kind, top_Class = cls, top_Schema = agg_schema ob,
      top_Object = agg_object ob, top_TableName = agg_tableName ob, top_SizeBytes = agg_sizeBytes ob,
      top_Delta = agg_delta ob, top_PerHost = agg_perHost ob\<rparr>"

definition sum_keys :: "i64 list \<Rightarrow> i64" where
  "sum_keys keys = fold (\<lambda>k s. wrap64 (s + k)) keys 0"

definition tail_histogram :: "i64 list \<Rightarrow> Histogram" where
  "tail_histogram keys =
     (let tailKeys = map of_i64 keys
      in \<lparr>Deciles = deciles tailKeys, Upper = quantiles tailKeys hotUpperProbs,
          hist_Count = length tailKeys, hist_Sum = sum_keys keys,
          hist_Max = fold (\<lambda>k m. max m k) keys 0\<rparr>)"

definition coverage_ratio :: "i64 \<Rightarrow> i64 \<Rightarrow> f64" where
  "coverage_ratio sumTop sumTail =
     (if 0 < wrap64 (sumTop + sumTail)
      then of_i64 sumTop / of_i64 (wrap64 (sumTop + sumTail)) else lit 1)"

definition put_kind :: "Kind \<Rightarrow> Class \<Rightarrow> Histogram \<Rightarrow> f64 \<Rightarrow> HotSnapshot \<Rightarrow> HotSnapshot" where
  "put_kind kind cls hist cov s =
     (let kh = (case map_of (Histograms s) cls of None \<Rightarrow> \<lparr>kh_Tables = None, kh_Indexes = None\<rparr> | Some x \<Rightarrow> x);
          kr = (case map_of (Coverage s) cls of None \<Rightarrow> \<lparr>kr_Tables = lit 0, kr_Indexes = lit 0\<rparr> | Some x \<Rightarrow> x);
          kh = (if kind = KindTable then kh\<lparr>kh_Tables := Some hist\<rparr> else kh\<lparr>kh_Indexes := Some hist\<rparr>);
          kr = (if kind = KindTable then kr\<lparr>kr_Tables := cov\<rparr> else kr\<lparr>kr_Indexes := cov\<rparr>)
      in s\<lparr>Histograms := AList.update cls kh (Histograms s), Coverage := AList.update cls kr (Coverage s)\<rparr>)"

definition rankClass ::
  "(ranked list \<Rightarrow> ranked list) \<Rightarrow> (string \<times> aggObject) list \<Rightarrow> i64 \<Rightarrow> Kind \<Rightarrow> Class \<Rightarrow> HotSnapshot \<Rightarrow> HotSnapshot" where
  "rankClass sortfn agg topN kind cls s =
     (let ranked = sortfn (measured_objects kind cls agg);
          n = trim_idle (map snd ranked) (nat (min topN (int (length ranked))));
          hot = take n ranked;
          tail = drop n ranked;
          sumTop = sum_keys (map snd hot);
          hist = tail_histogram (map snd tail)
      in put_kind kind cls hist (coverage_ratio sumTop (hist_Sum hist))
           (s\<lparr>Top := Top s @ map (\<lambda>(i, r). top_entry kind cls i (fst r)) (enumerate 0 hot)\<rparr>))"

definition sortTop :: "TopEntry list \<Rightarrow> TopEntry list" where
  "sortTop entries = sort_key (\<lambda>e. (top_Kind e, top_Class e, Rank e)) entries"

definition empty_snapshot ::
  "string \<Rightarrow> string \<Rightarrow> time \<Rightarrow> BuildInput list \<Rightarrow> string list \<Rightarrow> HotSnapshot" where
  "empty_snapshot clusterName database capturedAt inputs hostsMissing =
     \<lparr>ClusterName = clusterName, Database = database, snap_CapturedAt = capturedAt,
      Windows = fold (\<lambda>inp. AList.update (smp_Instance (Sample inp)) (host_window capturedAt inp)) inputs [],
      HostsMissing = hostsMissing, Coverage = [], Histograms = [], Top = []\<rparr>"

definition BuildSnapshot ::
  "(ranked list \<Rightarrow> ranked list) \<Rightarrow> string \<Rightarrow> string \<Rightarrow> time \<Rightarrow> BuildInput list \<Rightarrow> string list \<Rightarrow> i64 \<Rightarrow> HotSnapshot" where
  "BuildSnapshot sortfn clusterName database capturedAt inputs hostsMissing topN =
     (let agg = fold (add_host capturedAt) inputs [];
          snap = fold (\<lambda>kind. fold (rankClass sortfn agg topN kind) (ClassesFor kind)) [KindTable, KindIndex]
                   (empty_snapshot clusterName database capturedAt inputs hostsMissing)
      in snap\<lparr>Top := sortTop (Top snap)\<rparr>)"

section \<open>Percentile of a live value\<close>

fun ladder_find :: "f64 \<Rightarrow> (f64 \<times> f64) list \<Rightarrow> f64" where
  "ladder_find v ((p0, lo) # (p1, hi) # ps) =
     (if hi \<le> v then ladder_find v ((p1, hi) # ps)
      else p0 + (p1 - p0) * (v - lo) / (hi - lo))"
| "ladder_find v [(p, _)] = p"
| "ladder_find v [] = Fin 0"

definition ladder :: "Histogram \<Rightarrow> (f64 \<times> f64) list" where
  "ladder h =
     (let l = (Fin 0, Fin 0) # zip hotDecileProbs (Deciles h);
          l = (if length (Upper h) = length hotUpperProbs then l @ zip hotUpperProbs (Upper h) else l);
          m = of_i64 (hist_Max h)
      in if snd (last l) < m then l @ [(lit 1, m)] else l)"

definition Percentile :: "Histogram option \<Rightarrow> f64 \<Rightarrow> f64" where
  "Percentile h v =
     (case h of
        None \<Rightarrow> Fin 0
      | Some h \<Rightarrow>
          if length (Deciles h) \<noteq> length hotDecileProbs \<or> v \<le> Fin 0 then Fin 0
          else ladder_find v (ladder h))"

section \<open>Cold tables\<close>

datatype ColdStatus =
    ColdUnset | ColdAvailable | ColdNoStorage | ColdDisabled | ColdStale | ColdWarmingUp | ColdStandby | ColdError

definition ColdStatusOf :: "time \<Rightarrow> time option \<Rightarrow> duration \<Rightarrow> ColdStatus" where
  "ColdStatusOf capturedAt observed window =
     (case observed of
        None \<Rightarrow> ColdStandby
      | Some t \<Rightarrow> if time_add capturedAt (wrap64 (- window)) < t then ColdWarmingUp else ColdAvailable)"

record ColdTable =
  cold_Schema :: string
  cold_Table :: string
  cold_QuietSince :: time
  Writes :: i64

record ColdSet =
  cold_Database :: string
  cold_Status :: ColdStatus
  cold_CapturedAt :: "time option"
  cold_ObservedSince :: "time option"
  Tables :: "ColdTable list"

record ColdSets =
  sets_Status :: ColdStatus
  WindowDays :: i64
  ByDatabase :: "(string \<times> ColdSet) list"

definition bare_set :: "string \<Rightarrow> ColdStatus \<Rightarrow> ColdSet" where
  "bare_set database status =
     \<lparr>cold_Database = database, cold_Status = status, cold_CapturedAt = None,
      cold_ObservedSince = None, Tables = []\<rparr>"

definition ColdSets_For :: "ColdSets \<Rightarrow> string \<Rightarrow> ColdSet" where
  "ColdSets_For c database =
     (if sets_Status c \<noteq> ColdUnset then bare_set database (sets_Status c)
      else (case map_of (ByDatabase c) database of
              Some s \<Rightarrow> s
            | None \<Rightarrow> bare_set database ColdStale))"

section \<open>The top of a class\<close>

lemma sorts_rankedD:
  assumes "sorts_ranked f"
  shows "mset (f xs) = mset xs" and "sorted_wrt (\<lambda>a b. snd b \<le> snd a) (f xs)"
proof -
  show "mset (f xs) = mset xs" using assms by (simp add: sorts_ranked_def)
  have "sorted_wrt (\<lambda>a b. \<not> ranked_before b a) (f xs)" using assms by (simp add: sorts_ranked_def)
  then show "sorted_wrt (\<lambda>a b. snd b \<le> snd a) (f xs)"
    by (rule sorted_wrt_mono_rel [rotated]) (auto simp: ranked_before_def split: if_splits)
qed

lemma trim_idle_le: "trim_idle keys n \<le> n"
  by (induction keys n rule: trim_idle.induct) auto

lemma trim_idle_idle: "i < n \<Longrightarrow> trim_idle keys n \<le> i \<Longrightarrow> keys ! i \<le> 0"
  by (induction keys n rule: trim_idle.induct) (auto simp: less_Suc_eq split: if_splits)

lemma trim_idle_last: "0 < trim_idle keys n \<Longrightarrow> 0 < keys ! (trim_idle keys n - 1)"
  by (induction keys n rule: trim_idle.induct) (auto split: if_splits)

definition class_ranked :: "(ranked list \<Rightarrow> ranked list) \<Rightarrow> (string \<times> aggObject) list \<Rightarrow> Kind \<Rightarrow> Class \<Rightarrow> ranked list" where
  "class_ranked sortfn agg kind cls = sortfn (measured_objects kind cls agg)"

definition class_size :: "(ranked list \<Rightarrow> ranked list) \<Rightarrow> (string \<times> aggObject) list \<Rightarrow> i64 \<Rightarrow> Kind \<Rightarrow> Class \<Rightarrow> nat" where
  "class_size sortfn agg topN kind cls =
     trim_idle (map snd (class_ranked sortfn agg kind cls))
       (nat (min topN (int (length (class_ranked sortfn agg kind cls)))))"

abbreviation class_hot where
  "class_hot sortfn agg topN kind cls \<equiv>
     take (class_size sortfn agg topN kind cls) (class_ranked sortfn agg kind cls)"

abbreviation class_tail where
  "class_tail sortfn agg topN kind cls \<equiv>
     drop (class_size sortfn agg topN kind cls) (class_ranked sortfn agg kind cls)"

text \<open>What ranking promises: a partition of the measured objects into a hot top and the rest.\<close>

definition ranks_right :: "ranked list \<Rightarrow> i64 \<Rightarrow> ranked list \<Rightarrow> ranked list \<Rightarrow> bool" where
  "ranks_right objs topN hot rest \<longleftrightarrow>
     mset hot + mset rest = mset objs \<and> int (length hot) \<le> max 0 topN
   \<and> sorted_wrt (\<lambda>a b. snd b \<le> snd a) hot
   \<and> (\<forall>h\<in>set hot. 0 < snd h \<and> (\<forall>r\<in>set rest. snd r \<le> snd h))
   \<and> (int (length hot) < topN \<longrightarrow> (\<forall>r\<in>set rest. snd r \<le> 0))"

lemma class_ranks_right:
  assumes "sorts_ranked sortfn"
  shows "ranks_right (measured_objects kind cls agg) topN
    (class_hot sortfn agg topN kind cls) (class_tail sortfn agg topN kind cls)"
proof -
  define xs where "xs = class_ranked sortfn agg kind cls"
  define n where "n = class_size sortfn agg topN kind cls"
  define m where "m = nat (min topN (int (length xs)))"
  have n: "n = trim_idle (map snd xs) m" by (simp add: n_def class_size_def xs_def m_def)
  have xs: "mset xs = mset (measured_objects kind cls agg)" "sorted_wrt (\<lambda>a b. snd b \<le> snd a) xs"
    unfolding xs_def class_ranked_def using sorts_rankedD [OF assms] by auto
  have m: "m \<le> length xs" and nm: "n \<le> m" unfolding n m_def by (simp_all add: trim_idle_le)
  have desc: "snd (xs ! j) \<le> snd (xs ! i)" if "i < j" "j < length xs" for i j
    using xs(2) that by (simp add: sorted_wrt_iff_nth_less)
  have pos: "0 < snd (xs ! i)" if "i < n" for i
  proof -
    have "0 < snd (xs ! (n - 1))"
      using trim_idle_last [of "map snd xs" m] that nm m by (simp add: n [symmetric])
    moreover have "snd (xs ! (n - 1)) \<le> snd (xs ! i)"
      using desc [of i "n - 1"] that nm m by (cases "i = n - 1") auto
    ultimately show ?thesis by simp
  qed
  have hot: "0 < snd h" "\<And>r. r \<in> set (drop n xs) \<Longrightarrow> snd r \<le> snd h" if h: "h \<in> set (take n xs)" for h
  proof -
    obtain i where i: "i < n" "h = xs ! i" using h by (auto simp: in_set_conv_nth)
    then show "0 < snd h" by (simp add: pos)
    show "snd r \<le> snd h" if r: "r \<in> set (drop n xs)" for r
    proof -
      obtain j where "j < length xs - n" "r = xs ! (n + j)" using r by (auto simp: in_set_conv_nth)
      then show ?thesis using desc [of i "n + j"] i by simp
    qed
  qed
  have idle: "snd r \<le> 0" if nt: "int n < topN" and r: "r \<in> set (drop n xs)" for r
  proof -
    obtain j where j: "j < length xs - n" "r = xs ! (n + j)" using r by (auto simp: in_set_conv_nth)
    then have "n < m" using nt by (simp add: m_def)
    then have "snd (xs ! n) \<le> 0"
      using trim_idle_idle [of n m "map snd xs"] m by (simp add: n [symmetric])
    moreover have "0 < j \<Longrightarrow> snd (xs ! (n + j)) \<le> snd (xs ! n)" using desc [of n "n + j"] j(1) by linarith
    ultimately show ?thesis using j(2) by (cases "j = 0") auto
  qed
  have "mset (take n xs) + mset (drop n xs) = mset (measured_objects kind cls agg)"
    by (simp flip: mset_append xs(1))
  moreover have "int (length (take n xs)) \<le> max 0 topN" using nm m by (simp add: m_def)
  moreover have "length (take n xs) = n" using nm m by simp
  ultimately show ?thesis
    unfolding ranks_right_def xs_def [symmetric] n_def [symmetric]
    using hot idle sorted_wrt_take [OF xs(2)] by simp
qed

definition entries :: "Kind \<Rightarrow> Class \<Rightarrow> ranked list \<Rightarrow> TopEntry list" where
  "entries kind cls hot = map (\<lambda>(i, r). top_entry kind cls i (fst r)) (enumerate 0 hot)"

definition tracked :: "(Kind \<times> Class) list" where
  "tracked = concat (map (\<lambda>kind. map (Pair kind) (ClassesFor kind)) [KindTable, KindIndex])"

lemma tracked_simp:
  "tracked = [(KindTable, ClassReads), (KindTable, ClassWrites), (KindTable, ClassIO),
     (KindIndex, ClassReads), (KindIndex, ClassIO)]"
  by (simp add: tracked_def ClassesFor_def TableClasses_def IndexClasses_def kind_defs)

text \<open>The histogram and the coverage a snapshot stores for one kind of one class.\<close>

definition kind_hist :: "Kind \<Rightarrow> Class \<Rightarrow> HotSnapshot \<Rightarrow> Histogram option" where
  "kind_hist kind cls s =
     (case map_of (Histograms s) cls of None \<Rightarrow> None
      | Some kh \<Rightarrow> if kind = KindTable then kh_Tables kh else kh_Indexes kh)"

definition kind_cover :: "Kind \<Rightarrow> Class \<Rightarrow> HotSnapshot \<Rightarrow> f64 option" where
  "kind_cover kind cls s =
     (case map_of (Coverage s) cls of None \<Rightarrow> None
      | Some kr \<Rightarrow> Some (if kind = KindTable then kr_Tables kr else kr_Indexes kr))"

lemma put_kind_simps:
  "Top (put_kind kind cls h c s) = Top s"
  "kind_hist kind cls (put_kind kind cls h c s) = Some h"
  "kind_cover kind cls (put_kind kind cls h c s) = Some c"
  by (simp_all add: put_kind_def Let_def kind_hist_def kind_cover_def update_conv')

lemma put_kind_other:
  assumes "{kind, kind'} \<subseteq> {KindTable, KindIndex}" "(kind, cls) \<noteq> (kind', cls')"
    and "kind_hist kind' cls' s \<noteq> None"
  shows "kind_hist kind' cls' (put_kind kind cls h c s) = kind_hist kind' cls' s"
  using assms by (auto simp: put_kind_def Let_def kind_hist_def update_conv' kind_defs split: option.splits)

abbreviation class_cover where
  "class_cover sortfn agg topN kind cls \<equiv>
     coverage_ratio (sum_keys (map snd (class_hot sortfn agg topN kind cls)))
       (sum_keys (map snd (class_tail sortfn agg topN kind cls)))"

lemma rankClass_eq:
  "rankClass sortfn agg topN kind cls s =
     put_kind kind cls (tail_histogram (map snd (class_tail sortfn agg topN kind cls)))
       (class_cover sortfn agg topN kind cls)
       (s\<lparr>Top := Top s @ entries kind cls (class_hot sortfn agg topN kind cls)\<rparr>)"
  by (simp add: rankClass_def Let_def class_size_def class_ranked_def entries_def tail_histogram_def)

lemma fold_rankClass:
  "fold (\<lambda>kind. fold (rankClass sortfn agg topN kind) (ClassesFor kind)) [KindTable, KindIndex] s =
   fold (\<lambda>(kind, cls). rankClass sortfn agg topN kind cls) tracked s"
  by (simp add: tracked_def fold_map o_def)

lemma fold_rankClass_top:
  "Top (fold (\<lambda>(kind, cls). rankClass sortfn agg topN kind cls) ps s) =
   Top s @ concat (map (\<lambda>(kind, cls). entries kind cls (class_hot sortfn agg topN kind cls)) ps)"
  by (induction ps arbitrary: s) (auto simp: rankClass_eq put_kind_simps)

lemma filter_entries:
  "filter (\<lambda>e. top_Kind e = kind \<and> top_Class e = cls) (entries kind' cls' hot) =
   (if (kind', cls') = (kind, cls) then entries kind cls hot else [])"
  by (auto simp: entries_def top_entry_def filter_empty_conv filter_id_conv)

lemma filter_tracked:
  assumes "distinct ps" and "(kind, cls) \<in> set ps"
  shows "filter (\<lambda>e. top_Kind e = kind \<and> top_Class e = cls)
      (concat (map (\<lambda>(kind, cls). entries kind cls (H kind cls)) ps)) = entries kind cls (H kind cls)"
  using assms
proof (induction ps)
  case (Cons p ps)
  have none: "filter (\<lambda>e. top_Kind e = kind \<and> top_Class e = cls)
      (concat (map (\<lambda>(kind, cls). entries kind cls (H kind cls)) ps)) = []" if "(kind, cls) \<notin> set ps"
    using that by (induction ps) (auto simp: filter_entries split: if_splits)
  show ?case
    using Cons none by (cases p) (auto simp: filter_entries)
qed simp

lemma entries_sorted: "sorted (map (\<lambda>e. (top_Kind e, top_Class e, Rank e)) (entries kind cls hot))"
proof -
  have "map (\<lambda>e. (top_Kind e, top_Class e, Rank e)) (entries kind cls hot)
      = map (\<lambda>i. (kind, cls, Suc i)) [0..<length hot]"
    by (rule nth_equalityI) (simp_all add: entries_def top_entry_def nth_enumerate_eq)
  moreover have "sorted (map (\<lambda>i. (kind, cls, Suc i)) [0..<length hot])"
    by (simp add: sorted_iff_nth_mono)
  ultimately show ?thesis by (simp only:)
qed

lemma class_entries:
  assumes "(kind, cls) \<in> set tracked"
  shows "filter (\<lambda>e. top_Kind e = kind \<and> top_Class e = cls)
      (Top (BuildSnapshot sortfn cl db t inputs missing topN)) =
    entries kind cls (class_hot sortfn (fold (add_host t) inputs []) topN kind cls)"
proof -
  let ?agg = "fold (add_host t) inputs []"
  let ?c = "concat (map (\<lambda>(kind, cls). entries kind cls (class_hot sortfn ?agg topN kind cls)) tracked)"
  have t: "Top (BuildSnapshot sortfn cl db t inputs missing topN) = sortTop ?c"
    unfolding BuildSnapshot_def Let_def fold_rankClass
    by (simp add: fold_rankClass_top empty_snapshot_def)
  have d: "distinct tracked" by (simp add: tracked_simp kind_defs class_defs)
  show ?thesis
    unfolding t sortTop_def filter_sort
    by (simp add: filter_tracked [OF d assms] sort_key_id_if_sorted entries_sorted)
qed

lemma kind_hist_Top [simp]: "kind_hist kind cls (s\<lparr>Top := x\<rparr>) = kind_hist kind cls s"
  by (simp add: kind_hist_def)

lemma fold_rankClass_hist:
  assumes "distinct ps" and "fst ` set ps \<subseteq> {KindTable, KindIndex}" and "(kind, cls) \<in> set ps"
  shows "kind_hist kind cls (fold (\<lambda>(kind, cls). rankClass sortfn agg topN kind cls) ps s) =
    Some (tail_histogram (map snd (class_tail sortfn agg topN kind cls)))"
  using assms
proof (induction ps rule: rev_induct)
  case (snoc p ps)
  obtain k c where p: "p = (k, c)" by (cases p)
  let ?s = "fold (\<lambda>(kind, cls). rankClass sortfn agg topN kind cls) ps s"
  show ?case
  proof (cases "(k, c) = (kind, cls)")
    case True
    then have "kind_hist kind cls (rankClass sortfn agg topN k c ?s) =
        Some (tail_histogram (map snd (class_tail sortfn agg topN kind cls)))"
      unfolding rankClass_eq [of _ _ _ k c ?s] by (simp add: put_kind_simps)
    then show ?thesis by (simp add: p)
  next
    case False
    then have ih: "kind_hist kind cls ?s = Some (tail_histogram (map snd (class_tail sortfn agg topN kind cls)))"
      using snoc p by auto
    have "{k, kind} \<subseteq> {KindTable, KindIndex}" using snoc.prems p by auto
    then have "kind_hist kind cls (rankClass sortfn agg topN k c ?s) = kind_hist kind cls ?s"
      unfolding rankClass_eq [of _ _ _ k c ?s] using False ih by (subst put_kind_other) auto
    then show ?thesis using ih by (simp add: p)
  qed
qed simp

lemma class_hist:
  assumes "(kind, cls) \<in> set tracked"
  shows "kind_hist kind cls (BuildSnapshot sortfn cl db t inputs missing topN) =
    Some (tail_histogram (map snd (class_tail sortfn (fold (add_host t) inputs []) topN kind cls)))"
proof -
  have d: "distinct tracked" "fst ` set tracked \<subseteq> {KindTable, KindIndex}"
    by (simp_all add: tracked_simp kind_defs class_defs)
  show ?thesis
    unfolding BuildSnapshot_def Let_def fold_rankClass by (simp add: fold_rankClass_hist [OF d assms])
qed

lemma sum_keys_wrap: "sum_keys keys = wrap64 (sum_list keys)"
proof -
  have "fold (\<lambda>k s. wrap64 (s + k)) keys (wrap64 a) = wrap64 (a + sum_list keys)" for a
  proof (induction keys arbitrary: a)
    case (Cons k keys)
    show ?case using Cons [of "a + k"] by (simp add: add.assoc)
  qed simp
  from this [of 0] show ?thesis by (simp add: sum_keys_def)
qed

section \<open>Properties of a snapshot\<close>

text \<open>
  C13: for every tracked kind and class, whatever order the objects of equal rank are sorted
  in, the stored top is the hottest part of the measured objects: the objects split into a
  top, listed with ranks from 1 in descending order of activity, at most \<open>topN\<close> long
  and without idle objects, and a rest none of which is hotter; the top is shorter than
  \<open>topN\<close> only when every other object is idle. The stored histogram counts exactly
  the rest and holds its activity modulo \<open>2^64\<close>.
\<close>

theorem top_is_hottest:
  assumes "sorts_ranked sortfn" and "(kind, cls) \<in> set tracked"
  shows "\<exists>hot rest h. ranks_right (measured_objects kind cls (fold (add_host t) inputs [])) topN hot rest
    \<and> filter (\<lambda>e. top_Kind e = kind \<and> top_Class e = cls)
        (Top (BuildSnapshot sortfn cl db t inputs missing topN)) = entries kind cls hot
    \<and> kind_hist kind cls (BuildSnapshot sortfn cl db t inputs missing topN) = Some h
    \<and> hist_Count h = length rest \<and> hist_Sum h = wrap64 (\<Sum>r\<leftarrow>rest. snd r)"
  using class_ranks_right [OF assms(1), of kind cls "fold (add_host t) inputs []" topN]
    class_entries [OF assms(2)] class_hist [OF assms(2)]
  by (intro exI conjI) (auto simp: tail_histogram_def Let_def sum_keys_wrap)

text \<open>The order \<^verbatim>\<open>sort.Slice\<close> asks for, as one concrete sort.\<close>

definition rank_sort :: "ranked list \<Rightarrow> ranked list" where
  "rank_sort xs = sort_key (\<lambda>r. (- snd r, agg_schema (fst r) @ agg_object (fst r))) xs"

lemma rank_sort_sorts: "sorts_ranked rank_sort"
proof -
  let ?k = "\<lambda>r::ranked. (- snd r, agg_schema (fst r) @ agg_object (fst r))"
  have "sorted_wrt (\<lambda>a b. ?k a \<le> ?k b) (rank_sort xs)" for xs
    using sorted_sort_key [of ?k xs] unfolding rank_sort_def sorted_wrt_map .
  then have "sorted_wrt (\<lambda>a b. \<not> ranked_before b a) (rank_sort xs)" for xs
    by (rule sorted_wrt_mono_rel [rotated]) (auto simp: ranked_before_def split: if_splits)
  then show ?thesis by (simp add: sorts_ranked_def rank_sort_def)
qed

section \<open>Cluster-wide sums\<close>

definition host_sum :: "(string \<times> HostDelta) list \<Rightarrow> string \<Rightarrow> int" where
  "host_sum ph c = (\<Sum>(h, d)\<leftarrow>ph. counter (hd_Delta d) c)"

definition inputs_wf :: "BuildInput list \<Rightarrow> bool" where
  "inputs_wf inputs \<longleftrightarrow> distinct (map (\<lambda>inp. smp_Instance (Sample inp)) inputs)
     \<and> (\<forall>inp\<in>set inputs. distinct (map row_key (smp_Rows (Sample inp)))
          \<and> (\<forall>r\<in>set (smp_Rows (Sample inp)). distinct (map fst (row_Counters r))))"

lemma counter_update: "counter (AList.update k v d) c = (if c = k then v else counter d c)"
  by (simp add: counter_def update_conv')

lemma add_delta_counter:
  "distinct (map fst d) \<Longrightarrow> in_i64 (counter dst c) \<Longrightarrow>
   counter (add_delta d dst) c = wrap64 (counter dst c + counter d c)"
proof (induction d arbitrary: dst)
  case Nil
  then show ?case by (simp add: add_delta_def counter_def wrap64_id)
next
  case (Cons x d)
  obtain k v where x: "x = (k, v)" by (cases x)
  let ?d = "AList.update k (wrap64 (counter dst k + v)) dst"
  have "add_delta (x # d) dst = add_delta d ?d" by (simp add: add_delta_def x)
  moreover have "in_i64 (counter ?d c)" using Cons.prems(2) by (simp add: counter_update)
  ultimately have eq: "counter (add_delta (x # d) dst) c = wrap64 (counter ?d c + counter d c)"
    using Cons.IH Cons.prems(1) by simp
  show ?case
  proof (cases "c = k")
    case True
    then have "counter d c = 0"
      using Cons.prems(1) x by (simp add: counter_def flip: map_of_eq_None_iff)
    moreover have "counter (x # d) c = v" using True x by (simp add: counter_def)
    ultimately show ?thesis using True eq by (simp add: counter_update)
  next
    case False
    then have "counter (x # d) c = counter d c" using x by (simp add: counter_def)
    then show ?thesis using False eq by (simp add: counter_update)
  qed
qed

lemma object_Delta_names: "object_Delta prev cur = Some d \<Longrightarrow> map fst d = map fst cur"
  by (induction prev cur arbitrary: d rule: object_Delta.induct) (auto split: if_splits option.splits)

lemma host_sum_fresh:
  "h \<notin> fst ` set ph \<Longrightarrow> host_sum (AList.update h v ph) c = host_sum ph c + counter (hd_Delta v) c"
  by (induction ph) (auto simp: host_sum_def)

definition agg_ok :: "string set \<Rightarrow> aggObject \<Rightarrow> bool" where
  "agg_ok H ob \<longleftrightarrow> fst ` set (agg_perHost ob) \<subseteq> H
     \<and> (\<forall>c. counter (agg_delta ob) c = wrap64 (host_sum (agg_perHost ob) c))"

lemma agg_ok_mono: "agg_ok H ob \<Longrightarrow> H \<subseteq> H' \<Longrightarrow> agg_ok H' ob"
  by (auto simp: agg_ok_def)

lemma row_delta_names: "row_delta inp c row = Some d \<Longrightarrow> map fst d = map fst (row_Counters row)"
  by (auto simp: row_delta_def split: if_splits option.splits dest: object_Delta_names)

lemma add_object_ok:
  assumes "h = smp_Instance (Sample inp)" and "h \<notin> H" and "distinct (map fst (row_Counters row))"
    and "\<forall>(k, ob)\<in>set agg. agg_ok (if k \<in> K then insert h H else H) ob" and "row_key row \<notin> K"
  shows "\<forall>(k, ob)\<in>set (add_object inp c row agg).
    agg_ok (if k \<in> insert (row_key row) K then insert h H else H) ob"
proof -
  define old where "old = (case map_of agg (row_key row) of None \<Rightarrow> new_agg row | Some ob \<Rightarrow> ob)"
  have old: "agg_ok H old"
  proof (cases "map_of agg (row_key row)")
    case None
    then show ?thesis by (simp add: old_def agg_ok_def new_agg_def counter_def host_sum_def)
  next
    case (Some ob)
    then show ?thesis using assms(4,5) map_of_SomeD [OF Some] by (auto simp: old_def)
  qed
  define sized where "sized = old\<lparr>agg_sizeBytes := max (agg_sizeBytes old) (SizeBytes row)\<rparr>"
  have sized: "agg_ok H sized" using old by (simp add: sized_def agg_ok_def)
  define new where "new = (case row_delta inp c row of None \<Rightarrow> sized
    | Some d \<Rightarrow> sized\<lparr>agg_delta := add_delta d (agg_delta sized),
        agg_perHost := AList.update h \<lparr>hd_Complete = True, hd_InRecovery = smp_InRecovery (Sample inp), hd_Delta = d\<rparr>
          (agg_perHost sized)\<rparr>)"
  have eq: "add_object inp c row agg = AList.update (row_key row) new agg"
    unfolding add_object_def Let_def new_def sized_def old_def assms(1) ..
  have "agg_ok (insert h H) new"
  proof (cases "row_delta inp c row")
    case None
    then show ?thesis using sized by (auto simp: new_def intro: agg_ok_mono)
  next
    case (Some d)
    have d: "distinct (map fst d)" using row_delta_names [OF Some] assms(3) by simp
    have fresh: "h \<notin> fst ` set (agg_perHost sized)" using sized assms(2) by (auto simp: agg_ok_def)
    have "in_i64 (counter (agg_delta sized) x)" for x using sized by (simp add: agg_ok_def)
    then show ?thesis
      using sized add_delta_counter [OF d] host_sum_fresh [OF fresh]
      by (auto simp: new_def Some agg_ok_def dest!: set_update_cases)
  qed
  then show ?thesis
    using assms(4) unfolding eq by (auto dest!: set_update_cases intro: agg_ok_mono split: if_splits)
qed

lemma add_host_ok:
  assumes "\<forall>(k, ob)\<in>set agg. agg_ok H ob" and "smp_Instance (Sample inp) \<notin> H"
    and "distinct (map row_key (smp_Rows (Sample inp)))"
    and "\<forall>r\<in>set (smp_Rows (Sample inp)). distinct (map fst (row_Counters r))"
  shows "\<forall>(k, ob)\<in>set (add_host t inp agg). agg_ok (insert (smp_Instance (Sample inp)) H) ob"
proof -
  let ?h = "smp_Instance (Sample inp)"
  have "\<forall>(k, ob)\<in>set (fold (add_object inp c) rows agg').
      agg_ok (if k \<in> K \<union> row_key ` set rows then insert ?h H else H) ob"
    if "\<forall>(k, ob)\<in>set agg'. agg_ok (if k \<in> K then insert ?h H else H) ob"
      "distinct (map row_key rows)" "K \<inter> row_key ` set rows = {}"
      "\<forall>r\<in>set rows. distinct (map fst (row_Counters r))" for c K rows agg'
    using that
  proof (induction rows arbitrary: agg' K)
    case (Cons r rows)
    have "\<forall>(k, ob)\<in>set (add_object inp c r agg').
        agg_ok (if k \<in> insert (row_key r) K then insert ?h H else H) ob"
      using Cons.prems assms(2) by (intro add_object_ok) auto
    from Cons.IH [OF this] show ?case using Cons.prems by simp
  qed simp
  from this [of agg "{}" "smp_Rows (Sample inp)" "win_Complete (host_window t inp)"]
  show ?thesis
    using assms unfolding add_host_def by (auto intro: agg_ok_mono split: if_splits)
qed

lemma aggregate_ok:
  "inputs_wf inputs \<Longrightarrow> \<forall>(k, ob)\<in>set agg. agg_ok H ob \<Longrightarrow>
   H \<inter> (\<lambda>inp. smp_Instance (Sample inp)) ` set inputs = {} \<Longrightarrow>
   \<forall>(k, ob)\<in>set (fold (add_host t) inputs agg). agg_ok (H \<union> (\<lambda>inp. smp_Instance (Sample inp)) ` set inputs) ob"
proof (induction inputs arbitrary: agg H)
  case (Cons inp inputs)
  have step: "\<forall>(k, ob)\<in>set (add_host t inp agg). agg_ok (insert (smp_Instance (Sample inp)) H) ob"
    using Cons.prems by (intro add_host_ok) (auto simp: inputs_wf_def)
  have wf: "inputs_wf inputs" using Cons.prems(1) by (simp add: inputs_wf_def)
  have dis: "insert (smp_Instance (Sample inp)) H \<inter> (\<lambda>inp. smp_Instance (Sample inp)) ` set inputs = {}"
    using Cons.prems by (auto simp: inputs_wf_def)
  show ?case using Cons.IH [OF wf step dis] by simp
qed simp

lemma enumerate_member: "(i, r) \<in> set (enumerate n xs) \<Longrightarrow> r \<in> set xs"
  by (metis map_snd_enumerate image_eqI set_map snd_conv)

lemma set_Top:
  "set (Top (BuildSnapshot sortfn cl db t inputs missing topN)) =
   (\<Union>(kind, cls)\<in>set tracked. set (entries kind cls (class_hot sortfn (fold (add_host t) inputs []) topN kind cls)))"
  unfolding BuildSnapshot_def Let_def fold_rankClass
  by (simp add: fold_rankClass_top empty_snapshot_def sortTop_def case_prod_beta)

text \<open>
  The delta of every entry of the top is the cluster-wide sum: each of its counters is the
  sum, modulo \<open>2^64\<close>, of that counter over the hosts listed for the entry, and only
  sampled hosts are listed; one host never counts twice.
\<close>

theorem top_delta_is_host_sum:
  assumes "inputs_wf inputs" and "sorts_ranked sortfn"
    and "e \<in> set (Top (BuildSnapshot sortfn cl db t inputs missing topN))"
  shows "counter (top_Delta e) c = wrap64 (\<Sum>(h, d)\<leftarrow>top_PerHost e. counter (hd_Delta d) c)
    \<and> fst ` set (top_PerHost e) \<subseteq> (\<lambda>inp. smp_Instance (Sample inp)) ` set inputs
    \<and> top_PerHost e \<noteq> []"
proof -
  let ?agg = "fold (add_host t) inputs []"
  obtain kind cls where "e \<in> set (entries kind cls (class_hot sortfn ?agg topN kind cls))"
    using assms(3) by (auto simp: set_Top)
  then obtain i r where r: "r \<in> set (class_hot sortfn ?agg topN kind cls)" "e = top_entry kind cls i (fst r)"
    by (auto simp: entries_def dest!: enumerate_member)
  have "mset (class_ranked sortfn ?agg kind cls) = mset (measured_objects kind cls ?agg)"
    unfolding class_ranked_def by (rule sorts_rankedD(1) [OF assms(2)])
  then have "set (class_ranked sortfn ?agg kind cls) = set (measured_objects kind cls ?agg)"
    by (rule mset_eq_setD)
  then have "r \<in> set (measured_objects kind cls ?agg)"
    using in_set_takeD [OF r(1)] by simp
  then obtain k ob where ob: "(k, ob) \<in> set ?agg" "fst r = ob" "agg_perHost ob \<noteq> []"
    by (auto simp: measured_objects_def)
  have "agg_ok ((\<lambda>inp. smp_Instance (Sample inp)) ` set inputs) ob"
    using aggregate_ok [OF assms(1), of "[]" "{}" t] ob(1) by auto
  then show ?thesis using ob r(2) by (simp add: agg_ok_def top_entry_def host_sum_def)
qed

section \<open>A concrete cluster\<close>

definition demo_row :: "string \<Rightarrow> i64 \<Rightarrow> AnchorRow" where
  "demo_row tab ins =
     \<lparr>Instance = ''h'', Kind = KindTable, Schema = ''public'', Object = tab, TableName = '''',
      CapturedAt = 1, StatsReset = Some 0, SizeBytes = 8192, PartSig = '''',
      row_Counters = [(''n_tup_ins'', ins)], QuietSince = Some 1\<rparr>"

definition demo_input :: "string \<Rightarrow> i64 \<Rightarrow> i64 \<Rightarrow> BuildInput" where
  "demo_input host prev now =
     \<lparr>Sample = \<lparr>smp_Instance = host, smp_CapturedAt = 2, smp_StatsReset = Some 0, smp_InRecovery = False,
                smp_Rows = [demo_row ''orders'' now, demo_row ''idle'' 3]\<rparr>,
      Anchors = map (\<lambda>r. (row_key r, r)) [demo_row ''orders'' prev, demo_row ''idle'' 3],
      PrevWindow = None\<rparr>"

abbreviation demo_inputs :: "BuildInput list" where
  "demo_inputs \<equiv> [demo_input ''h1'' 10 15, demo_input ''h2'' 20 27]"

abbreviation demo_snapshot :: HotSnapshot where
  "demo_snapshot \<equiv> BuildSnapshot rank_sort ''c'' ''d'' 2 demo_inputs [] 10"

lemma demo_top:
  "map (\<lambda>e. (Rank e, top_Object e, top_Delta e, map fst (top_PerHost e)))
     (filter (\<lambda>e. top_Kind e = KindTable \<and> top_Class e = ClassWrites) (Top demo_snapshot))
   = [(1, ''orders'', [(''n_tup_ins'', 12)], [''h1'', ''h2''])]"
proof -
  have "(KindTable, ClassWrites) \<in> set tracked" by (simp add: tracked_simp)
  from class_entries [OF this] show ?thesis by (simp only:) code_simp
qed

lemma demo_wf: "inputs_wf demo_inputs"
  by code_simp

theorem top_is_hottest_witness:
  "\<exists>hot rest h. ranks_right (measured_objects KindTable ClassWrites (fold (add_host 2) demo_inputs [])) 10 hot rest
    \<and> filter (\<lambda>e. top_Kind e = KindTable \<and> top_Class e = ClassWrites) (Top demo_snapshot) =
        entries KindTable ClassWrites hot
    \<and> kind_hist KindTable ClassWrites demo_snapshot = Some h
    \<and> hist_Count h = length rest \<and> hist_Sum h = wrap64 (\<Sum>r\<leftarrow>rest. snd r)"
  by (rule top_is_hottest [OF rank_sort_sorts]) (simp add: tracked_simp)

theorem top_delta_is_host_sum_witness:
  "Top demo_snapshot \<noteq> []
   \<and> counter (top_Delta (hd (Top demo_snapshot))) ''n_tup_ins'' =
       wrap64 (\<Sum>(h, d)\<leftarrow>top_PerHost (hd (Top demo_snapshot)). counter (hd_Delta d) ''n_tup_ins'')"
proof
  show ne: "Top demo_snapshot \<noteq> []" using demo_top by auto
  show "counter (top_Delta (hd (Top demo_snapshot))) ''n_tup_ins'' =
       wrap64 (\<Sum>(h, d)\<leftarrow>top_PerHost (hd (Top demo_snapshot)). counter (hd_Delta d) ''n_tup_ins'')"
    using top_delta_is_host_sum [OF demo_wf rank_sort_sorts hd_in_set [OF ne]] by blast
qed

end
