(* ===== verification/Hot_Capture.thy ===== *)
theory Hot_Capture
  imports Hot_Objects Autosnapshot_Jobs
begin

text \<open>
  The capture of hot objects by the daemon (\<^verbatim>\<open>backend/internal/autosnapshot/hot.go\<close>)
  and the part of the storage it works against
  (\<^verbatim>\<open>backend/internal/storage/hotobjects.go\<close>): anchors per host, snapshots, and the
  transaction that stores a snapshot and advances the anchors together.

  What a host answers during one capture is an environment record, \<open>Inl\<close> for a failed
  call. The tables of the storage are a record; the columns that hold JSON are modelled by
  the values they encode. A \<^verbatim>\<open>timestamptz\<close> column keeps less precision than a
  \<^verbatim>\<open>time.Time\<close>: the conversion of the database driver is the parameter
  \<open>ts\<close>. A failed transaction leaves the tables unchanged.
\<close>

section \<open>Storage\<close>

record hot_tables =
  hot_anchor :: "string \<Rightarrow> string \<Rightarrow> string \<Rightarrow> AnchorRow list"
  hot_snapshot :: "HotSnapshot list"

definition same_object :: "AnchorRow \<Rightarrow> AnchorRow \<Rightarrow> bool" where
  "same_object a b \<longleftrightarrow> Kind a = Kind b \<and> Schema a = Schema b \<and> Object a = Object b"

definition upsert_row :: "AnchorRow \<Rightarrow> AnchorRow list \<Rightarrow> AnchorRow list" where
  "upsert_row r rows =
     (if \<exists>a\<in>set rows. same_object a r then map (\<lambda>a. if same_object a r then r else a) rows
      else rows @ [r])"

definition stored_row :: "(time \<Rightarrow> time) \<Rightarrow> time \<Rightarrow> AnchorRow \<Rightarrow> AnchorRow" where
  "stored_row ts capturedAt r =
     r\<lparr>CapturedAt := ts capturedAt, StatsReset := map_option ts (StatsReset r),
       QuietSince := map_option ts (QuietSince r)\<rparr>"

definition upsertHotAnchorsTx ::
  "(time \<Rightarrow> time) \<Rightarrow> time \<Rightarrow> AnchorRow list \<Rightarrow> AnchorRow list \<Rightarrow> AnchorRow list" where
  "upsertHotAnchorsTx ts capturedAt rows old =
     filter (\<lambda>a. \<not> CapturedAt a < ts capturedAt)
       (fold (\<lambda>r. upsert_row (stored_row ts capturedAt r)) rows old)"

definition GetHotAnchors :: "hot_tables \<Rightarrow> string \<Rightarrow> string \<Rightarrow> string \<Rightarrow> (string \<times> AnchorRow) list" where
  "GetHotAnchors s cl inst db =
     fold (\<lambda>a. AList.update (row_key a) (a\<lparr>Instance := inst\<rparr>)) (hot_anchor s cl inst db) []"

text \<open>The newest snapshot of the database that has a window of the host.\<close>

fun newest :: "HotSnapshot list \<Rightarrow> HotSnapshot option" where
  "newest [] = None"
| "newest (x # xs) =
     (case newest xs of
        None \<Rightarrow> Some x
      | Some y \<Rightarrow> Some (if snap_CapturedAt y < snap_CapturedAt x then x else y))"

definition latest_window ::
  "(time \<Rightarrow> time) \<Rightarrow> hot_tables \<Rightarrow> string \<Rightarrow> string \<Rightarrow> time \<Rightarrow> string \<Rightarrow> HostWindow option" where
  "latest_window ts s cl db since inst =
     (case newest (filter (\<lambda>x. ClusterName x = cl \<and> Database x = db \<and> map_of (Windows x) inst \<noteq> None
                             \<and> ts since \<le> snap_CapturedAt x) (hot_snapshot s)) of
        None \<Rightarrow> None
      | Some x \<Rightarrow> map_of (Windows x) inst)"

definition InsertHotSnapshotWithAnchors ::
  "(time \<Rightarrow> time) \<Rightarrow> HotSnapshot \<Rightarrow> (string \<times> AnchorRow list) list \<Rightarrow> hot_tables \<Rightarrow> hot_tables" where
  "InsertHotSnapshotWithAnchors ts snap anchors s =
     (let cl = ClusterName snap; db = Database snap; at_time = snap_CapturedAt snap;
          s = s\<lparr>hot_snapshot := hot_snapshot s @ [snap\<lparr>snap_CapturedAt := ts at_time\<rparr>]\<rparr>
      in fold (\<lambda>(inst, rows) s.
           s\<lparr>hot_anchor := (\<lambda>c i d.
               if c = cl \<and> i = inst \<and> d = db
               then upsertHotAnchorsTx ts at_time rows (hot_anchor s c i d)
               else hot_anchor s c i d)\<rparr>) anchors s)"

section \<open>One capture\<close>

record hot_env =
  hot_now :: time
  hot_tables_of :: "string \<Rightarrow> string + AnchorRow list \<times> time option \<times> bool"
  hot_indexes_of :: "string \<Rightarrow> string + AnchorRow list"
  hot_anchors_fail :: "string \<Rightarrow> bool"
  hot_windows_fail :: bool
  hot_insert_fail :: bool

definition sample_host ::
  "hot_env \<Rightarrow> string \<Rightarrow> string \<Rightarrow> hot_tables \<Rightarrow> string \<Rightarrow> BuildInput list \<times> string list \<Rightarrow> BuildInput list \<times> string list" where
  "sample_host e cl db s host = (\<lambda>(inputs, missing).
     case hot_tables_of e host of
       Inl _ \<Rightarrow> (inputs, missing @ [host])
     | Inr (tables, reset, inRecovery) \<Rightarrow>
         (case hot_indexes_of e host of
            Inl _ \<Rightarrow> (inputs, missing @ [host])
          | Inr indexes \<Rightarrow>
              if hot_anchors_fail e host then (inputs, missing @ [host])
              else (inputs @
                [\<lparr>Sample = \<lparr>smp_Instance = host, smp_CapturedAt = hot_now e, smp_StatsReset = reset,
                           smp_InRecovery = inRecovery, smp_Rows = tables @ indexes\<rparr>,
                  Anchors = GetHotAnchors s cl host db, PrevWindow = None\<rparr>], missing)))"

definition attachPrevWindows ::
  "(time \<Rightarrow> time) \<Rightarrow> hot_env \<Rightarrow> AutoConfig \<Rightarrow> string \<Rightarrow> string \<Rightarrow> hot_tables \<Rightarrow> BuildInput list \<Rightarrow> BuildInput list option" where
  "attachPrevWindows ts e cfg cl db s inputs =
     (if hot_windows_fail e then None
      else Some (map (\<lambda>inp.
             case latest_window ts s cl db (days_before (hot_now e) (HotRetentionDays cfg))
                    (smp_Instance (Sample inp)) of
               None \<Rightarrow> inp
             | Some w \<Rightarrow> inp\<lparr>PrevWindow := Some w\<rparr>) inputs))"

definition takeHotSnapshot ::
  "(ranked list \<Rightarrow> ranked list) \<Rightarrow> (time \<Rightarrow> time) \<Rightarrow> hot_env \<Rightarrow> AutoConfig \<Rightarrow> Cluster \<Rightarrow> string \<Rightarrow> hot_tables \<Rightarrow> hot_tables" where
  "takeHotSnapshot sortfn ts e cfg cl db s =
     (let clusterName = cl_Name cl;
          (inputs, missing) = fold (sample_host e clusterName db s) (Hosts cl) ([], [])
      in if inputs = [] then s
         else (case attachPrevWindows ts e cfg clusterName db s inputs of
                 None \<Rightarrow> s
               | Some inputs \<Rightarrow>
                   (let snap = BuildSnapshot sortfn clusterName db (hot_now e) inputs missing (HotTopN cfg);
                        anchors = fold (\<lambda>inp. AList.update (smp_Instance (Sample inp))
                                           (AdvanceQuiet inp (hot_now e))) inputs []
                    in if hot_insert_fail e then s
                       else InsertHotSnapshotWithAnchors ts snap anchors s)))"

section \<open>The sweep over databases\<close>

record sweep_env =
  hot_last_fail :: bool
  hot_clusters :: "string + Cluster list"
  sweep_now :: time
  capture_env :: "string \<Rightarrow> string \<Rightarrow> hot_env"

definition LastHotSnapshotAt :: "hot_tables \<Rightarrow> string \<rightharpoonup> time" where
  "LastHotSnapshotAt s =
     map_of (rev (map (\<lambda>(cl, db).
         (cl @ ''/'' @ db,
          snap_CapturedAt (the (newest (filter (\<lambda>x. ClusterName x = cl \<and> Database x = db) (hot_snapshot s))))))
       (remdups (map (\<lambda>x. (ClusterName x, Database x)) (hot_snapshot s)))))"

definition hot_database ::
  "(ranked list \<Rightarrow> ranked list) \<Rightarrow> (time \<Rightarrow> time) \<Rightarrow> schedule option \<Rightarrow> (string \<rightharpoonup> time) \<Rightarrow> sweep_env \<Rightarrow>
   AutoConfig \<Rightarrow> Cluster \<Rightarrow> string \<Rightarrow> Daemon \<times> hot_tables \<Rightarrow> Daemon \<times> hot_tables" where
  "hot_database sortfn ts sched stored e cfg cl db = (\<lambda>(d, s).
     (let key = cl_Name cl @ ''/'' @ db;
          (due, attempts) = dueForCapture (lastHotAttempt d) sched stored key (sweep_now e);
          d = d\<lparr>lastHotAttempt := attempts\<rparr>
      in if \<not> due then (d, s)
         else (d, takeHotSnapshot sortfn ts (capture_env e (cl_Name cl) db) cfg cl db s)))"

definition processHotSnapshots ::
  "(ranked list \<Rightarrow> ranked list) \<Rightarrow> (time \<Rightarrow> time) \<Rightarrow> (string \<Rightarrow> schedule option) \<Rightarrow> sweep_env \<Rightarrow> AutoConfig \<Rightarrow>
   Daemon \<times> hot_tables \<Rightarrow> Daemon \<times> hot_tables" where
  "processHotSnapshots sortfn ts parse e cfg = (\<lambda>(d, s).
     (if \<not> HotEnabled cfg then (d, s)
      else
        (let sched = ParseCronSchedule parse (HotSchedule cfg)
         in if hot_last_fail e then (d, s)
            else
              (let stored = LastHotSnapshotAt s
               in case hot_clusters e of
                    Inl _ \<Rightarrow> (d, s)
                  | Inr cls \<Rightarrow>
                      fold (\<lambda>cl. fold (hot_database sortfn ts sched stored e cfg cl) (Databases cl)) cls (d, s)))))"

section \<open>Effect of one capture\<close>

lemma map_of_fold_update:
  "map_of (fold (\<lambda>x. AList.update (f x) (g x)) xs ys) h =
     (if h \<in> f ` set xs then Some (g (last (filter (\<lambda>x. f x = h) xs))) else map_of ys h)"
proof (induction xs rule: rev_induct)
  case (snoc x xs)
  then show ?case by (auto simp: update_conv')
qed simp

lemma distinct_fold_update:
  "distinct (map fst ys) \<Longrightarrow> distinct (map fst (fold (\<lambda>x. AList.update (f x) (g x)) xs ys))"
  by (rule fold_invariant_set) (auto intro: AList.distinct_update)

lemma set_fold_update:
  "x \<in> set (fold (\<lambda>x. AList.update (f x) (g x)) xs ys) \<Longrightarrow> x \<in> set ys \<or> (\<exists>y\<in>set xs. x = (f y, g y))"
proof (induction xs rule: rev_induct)
  case (snoc y xs)
  then show ?case by (auto dest!: set_update_cases)
qed simp

lemma fold_update_Nil_iff: "fold (\<lambda>x. AList.update (f x) (g x)) xs [] = [] \<longleftrightarrow> xs = []"
proof (cases xs rule: rev_cases)
  case (snoc ys y)
  have "map_of (fold (\<lambda>x. AList.update (f x) (g x)) xs []) (f y) \<noteq> None"
    unfolding map_of_fold_update by (simp add: snoc)
  then show ?thesis by (auto simp: snoc)
qed simp

lemma GetHotAnchors_time:
  "(k, a) \<in> set (GetHotAnchors s cl inst db) \<Longrightarrow> \<exists>r\<in>set (hot_anchor s cl inst db). CapturedAt a = CapturedAt r"
  unfolding GetHotAnchors_def by (drule set_fold_update) auto

lemma GetHotAnchors_Nil_iff: "GetHotAnchors s cl inst db = [] \<longleftrightarrow> hot_anchor s cl inst db = []"
  unfolding GetHotAnchors_def by (rule fold_update_Nil_iff)

text \<open>Every sampled input carries the anchors stored for its host and the time of the capture.\<close>

definition input_of :: "hot_env \<Rightarrow> string \<Rightarrow> string \<Rightarrow> hot_tables \<Rightarrow> BuildInput \<Rightarrow> bool" where
  "input_of e cl db s inp \<longleftrightarrow> smp_CapturedAt (Sample inp) = hot_now e
     \<and> Anchors inp = GetHotAnchors s cl (smp_Instance (Sample inp)) db"

lemma sampled_inputs:
  "list_all (input_of e cl db s) (fst st) \<Longrightarrow>
   list_all (input_of e cl db s) (fst (fold (sample_host e cl db s) hs st))"
proof (rule fold_invariant_set [where P = "\<lambda>st. list_all (input_of e cl db s) (fst st)"])
  fix h and st :: "BuildInput list \<times> string list"
  assume "list_all (input_of e cl db s) (fst st)"
  then show "list_all (input_of e cl db s) (fst (sample_host e cl db s h st))"
    by (cases st) (auto simp: sample_host_def input_of_def split: sum.split prod.split)
qed

lemma attached_inputs:
  "attachPrevWindows ts e cfg cl db s inputs = Some inputs' \<Longrightarrow> list_all (input_of e cl db s) inputs \<Longrightarrow>
   list_all (input_of e cl db s) inputs'"
  by (auto simp: attachPrevWindows_def list_all_iff input_of_def split: if_splits option.splits)

lemma insert_anchors:
  assumes "distinct (map fst anchors)"
  shows "hot_anchor (InsertHotSnapshotWithAnchors ts snap anchors s) c i d =
    (if c = ClusterName snap \<and> d = Database snap
     then (case map_of anchors i of
             None \<Rightarrow> hot_anchor s c i d
           | Some rows \<Rightarrow> upsertHotAnchorsTx ts (snap_CapturedAt snap) rows (hot_anchor s c i d))
     else hot_anchor s c i d)"
proof -
  define put where "put = (\<lambda>(inst, rows) (s :: hot_tables). s\<lparr>hot_anchor := (\<lambda>c i d.
       if c = ClusterName snap \<and> i = inst \<and> d = Database snap
       then upsertHotAnchorsTx ts (snap_CapturedAt snap) rows (hot_anchor s c i d)
       else hot_anchor s c i d)\<rparr>)"
  have "hot_anchor (fold put anchors s) c i d =
    (if c = ClusterName snap \<and> d = Database snap
     then (case map_of anchors i of
             None \<Rightarrow> hot_anchor s c i d
           | Some rows \<Rightarrow> upsertHotAnchorsTx ts (snap_CapturedAt snap) rows (hot_anchor s c i d))
     else hot_anchor s c i d)" for s
    using assms
  proof (induction anchors arbitrary: s)
    case (Cons p anchors)
    obtain inst rows where p: "p = (inst, rows)" by (cases p)
    have none: "map_of anchors inst = None" using Cons.prems p by (simp add: map_of_eq_None_iff)
    show ?case
      using Cons.IH [of "put p s"] Cons.prems none p
      by (cases "i = inst") (auto simp: put_def split: option.splits)
  qed simp
  then show ?thesis
    unfolding InsertHotSnapshotWithAnchors_def Let_def put_def [symmetric] by (simp split: option.split)
qed

lemma insert_snapshots:
  "hot_snapshot (InsertHotSnapshotWithAnchors ts snap anchors s) =
   hot_snapshot s @ [snap\<lparr>snap_CapturedAt := ts (snap_CapturedAt snap)\<rparr>]"
proof -
  have "hot_snapshot (fold (\<lambda>(inst, rows) s. s\<lparr>hot_anchor := F inst rows s\<rparr>) anchors s) = hot_snapshot s"
    for F and s :: hot_tables
    by (induction anchors arbitrary: s) auto
  then show ?thesis by (simp add: InsertHotSnapshotWithAnchors_def Let_def)
qed

lemma BuildSnapshot_header:
  "ClusterName (BuildSnapshot sortfn cl db t inputs missing n) = cl
   \<and> Database (BuildSnapshot sortfn cl db t inputs missing n) = db
   \<and> snap_CapturedAt (BuildSnapshot sortfn cl db t inputs missing n) = t
   \<and> Windows (BuildSnapshot sortfn cl db t inputs missing n) =
       fold (\<lambda>inp. AList.update (smp_Instance (Sample inp)) (host_window t inp)) inputs []"
proof -
  let ?h = "\<lambda>s. (ClusterName s, Database s, snap_CapturedAt s, Windows s)"
  have "?h (rankClass sortfn agg n kind cls s) = ?h s" for agg kind cls s
    by (simp add: rankClass_def put_kind_def Let_def)
  then have "?h (fold (\<lambda>(kind, cls). rankClass sortfn agg n kind cls) ps s) = ?h s" for agg ps s
    by (induction ps arbitrary: s) auto
  from this [of "fold (add_host t) inputs []" tracked "empty_snapshot cl db t inputs missing"]
  have "?h (fold (\<lambda>(kind, cls). rankClass sortfn (fold (add_host t) inputs []) n kind cls) tracked
       (empty_snapshot cl db t inputs missing)) = ?h (empty_snapshot cl db t inputs missing)" .
  then have "?h (BuildSnapshot sortfn cl db t inputs missing n) = ?h (empty_snapshot cl db t inputs missing)"
    unfolding BuildSnapshot_def Let_def fold_rankClass by simp
  then show ?thesis by (simp add: empty_snapshot_def)
qed

text \<open>The windows stored for one host of one database, oldest first.\<close>

definition host_windows :: "string \<Rightarrow> string \<Rightarrow> string \<Rightarrow> hot_tables \<Rightarrow> HostWindow list" where
  "host_windows cl db h s =
     List.map_filter (\<lambda>x. if ClusterName x = cl \<and> Database x = db then map_of (Windows x) h else None)
       (hot_snapshot s)"

lemma capture_cases:
  obtains (skipped) "takeHotSnapshot sortfn ts e cfg cl db s = s"
  | (stored) inputs where
      "list_all (input_of e (cl_Name cl) db s) inputs"
      "\<And>h. host_windows (cl_Name cl) db h (takeHotSnapshot sortfn ts e cfg cl db s) =
         host_windows (cl_Name cl) db h s @
           (if h \<in> (\<lambda>inp. smp_Instance (Sample inp)) ` set inputs
            then [host_window (hot_now e) (last (filter (\<lambda>inp. smp_Instance (Sample inp) = h) inputs))] else [])"
      "\<And>h. hot_anchor (takeHotSnapshot sortfn ts e cfg cl db s) (cl_Name cl) h db =
         (if h \<in> (\<lambda>inp. smp_Instance (Sample inp)) ` set inputs
          then upsertHotAnchorsTx ts (hot_now e)
            (AdvanceQuiet (last (filter (\<lambda>inp. smp_Instance (Sample inp) = h) inputs)) (hot_now e))
            (hot_anchor s (cl_Name cl) h db)
          else hot_anchor s (cl_Name cl) h db)"
proof -
  let ?inst = "\<lambda>inp. smp_Instance (Sample inp)"
  obtain ins missing where smp: "fold (sample_host e (cl_Name cl) db s) (Hosts cl) ([], []) = (ins, missing)"
    by (cases "fold (sample_host e (cl_Name cl) db s) (Hosts cl) ([], [])")
  show thesis
  proof (cases "ins = [] \<or> attachPrevWindows ts e cfg (cl_Name cl) db s ins = None \<or> hot_insert_fail e")
    case True
    then show thesis
      by (intro skipped) (auto simp: takeHotSnapshot_def Let_def smp split: option.split)
  next
    case False
    then obtain inputs where inputs: "attachPrevWindows ts e cfg (cl_Name cl) db s ins = Some inputs" by auto
    define snap where "snap = BuildSnapshot sortfn (cl_Name cl) db (hot_now e) inputs missing (HotTopN cfg)"
    define anchors where "anchors = fold (\<lambda>inp. AList.update (?inst inp) (AdvanceQuiet inp (hot_now e))) inputs []"
    have eq: "takeHotSnapshot sortfn ts e cfg cl db s = InsertHotSnapshotWithAnchors ts snap anchors s"
      using False inputs by (simp add: takeHotSnapshot_def Let_def smp snap_def anchors_def)
    have snap: "ClusterName snap = cl_Name cl" "Database snap = db" "snap_CapturedAt snap = hot_now e"
      "Windows snap = fold (\<lambda>inp. AList.update (?inst inp) (host_window (hot_now e) inp)) inputs []"
      using BuildSnapshot_header by (auto simp: snap_def)
    have "list_all (input_of e (cl_Name cl) db s) ins"
      using sampled_inputs [of e "cl_Name cl" db s "([], [])" "Hosts cl"] smp by simp
    then have 1: "list_all (input_of e (cl_Name cl) db s) inputs" by (rule attached_inputs [OF inputs])
    have d: "distinct (map fst anchors)" by (simp add: anchors_def distinct_fold_update)
    show thesis
    proof (rule stored [OF 1])
      fix h
      show "host_windows (cl_Name cl) db h (takeHotSnapshot sortfn ts e cfg cl db s) =
         host_windows (cl_Name cl) db h s @ (if h \<in> ?inst ` set inputs
            then [host_window (hot_now e) (last (filter (\<lambda>inp. ?inst inp = h) inputs))] else [])"
        by (simp add: eq host_windows_def insert_snapshots snap map_of_fold_update List.map_filter_def)
      show "hot_anchor (takeHotSnapshot sortfn ts e cfg cl db s) (cl_Name cl) h db =
         (if h \<in> ?inst ` set inputs then upsertHotAnchorsTx ts (hot_now e)
            (AdvanceQuiet (last (filter (\<lambda>inp. ?inst inp = h) inputs)) (hot_now e)) (hot_anchor s (cl_Name cl) h db)
          else hot_anchor s (cl_Name cl) h db)"
        unfolding eq insert_anchors [OF d] by (simp add: snap anchors_def map_of_fold_update)
    qed
  qed
qed

section \<open>Windows of a host\<close>

lemma set_upsert_row: "a \<in> set (upsert_row r rows) \<Longrightarrow> a = r \<or> a \<in> set rows"
  by (auto simp: upsert_row_def split: if_splits)

lemma set_upsert_rows:
  "a \<in> set (fold (\<lambda>r. upsert_row (f r)) rows old) \<Longrightarrow> a \<in> f ` set rows \<or> a \<in> set old"
proof (induction rows arbitrary: old)
  case (Cons r rows)
  then show ?case using set_upsert_row by (fastforce)
qed simp

lemma upserted_time:
  assumes "\<forall>a\<in>set old. CapturedAt a < ts t" and "a \<in> set (upsertHotAnchorsTx ts t rows old)"
  shows "CapturedAt a = ts t \<and> a \<in> stored_row ts t ` set rows"
proof -
  have "a \<in> set (fold (\<lambda>r. upsert_row (stored_row ts t r)) rows old)" "\<not> CapturedAt a < ts t"
    using assms(2) by (auto simp: upsertHotAnchorsTx_def)
  then have "a \<in> stored_row ts t ` set rows" using set_upsert_rows [of a "stored_row ts t"] assms(1) by blast
  then show ?thesis by (auto simp: stored_row_def)
qed

text \<open>
  Each complete window starts where the previous window of the host ended; the first window
  of a host is never complete.
\<close>

definition tiled :: "(time \<Rightarrow> time) \<Rightarrow> HostWindow list \<Rightarrow> bool" where
  "tiled ts ws \<longleftrightarrow> (\<forall>i<length ws. win_Complete (ws ! i) \<longrightarrow>
     0 < i \<and> win_From (ws ! i) = ts (win_To (ws ! (i - 1))))"

lemma tiled_snoc:
  "tiled ts ws \<Longrightarrow> (win_Complete w \<Longrightarrow> ws \<noteq> [] \<and> win_From w = ts (win_To (last ws))) \<Longrightarrow> tiled ts (ws @ [w])"
  by (auto simp: tiled_def nth_append less_Suc_eq last_conv_nth)

definition hot_inv :: "(time \<Rightarrow> time) \<Rightarrow> string \<Rightarrow> string \<Rightarrow> time \<Rightarrow> hot_tables \<Rightarrow> bool" where
  "hot_inv ts cl db b s \<longleftrightarrow> (\<forall>h.
     (let ws = host_windows cl db h s; as = hot_anchor s cl h db
      in tiled ts ws
       \<and> (if ws = [] then as = []
          else ts (win_To (last ws)) \<le> b \<and> (\<forall>a\<in>set as. CapturedAt a = ts (win_To (last ws))))))"

lemma hot_invD:
  assumes "hot_inv ts cl db b s"
  shows "tiled ts (host_windows cl db h s)"
    and "host_windows cl db h s = [] \<Longrightarrow> hot_anchor s cl h db = []"
    and "host_windows cl db h s \<noteq> [] \<Longrightarrow> ts (win_To (last (host_windows cl db h s))) \<le> b"
    and "a \<in> set (hot_anchor s cl h db) \<Longrightarrow> CapturedAt a = ts (win_To (last (host_windows cl db h s)))"
  using assms unfolding hot_inv_def Let_def by (metis, metis, metis, metis empty_iff list.set(1))

lemma hot_inv_mono: "hot_inv ts cl db b s \<Longrightarrow> b \<le> b' \<Longrightarrow> hot_inv ts cl db b' s"
  unfolding hot_inv_def Let_def by (meson order_trans)

lemma host_window_simps:
  "win_To (host_window t inp) = smp_CapturedAt (Sample inp)"
  "win_Complete (host_window t inp) = epochIntact inp"
  by (auto simp: host_window_def Let_def epochIntact_def)

lemma capture_keeps_inv:
  assumes inv: "hot_inv ts (cl_Name cl) db b s" and later: "b < ts (hot_now e)"
  shows "hot_inv ts (cl_Name cl) db (ts (hot_now e)) (takeHotSnapshot sortfn ts e cfg cl db s)"
proof (cases rule: capture_cases [of sortfn ts e cfg cl db s])
  case skipped
  then show ?thesis using hot_inv_mono [OF inv] later by simp
next
  case (stored inputs)
  let ?s = "takeHotSnapshot sortfn ts e cfg cl db s"
  show ?thesis
    unfolding hot_inv_def Let_def
  proof
    fix h
    let ?ws = "host_windows (cl_Name cl) db h s" and ?as = "hot_anchor s (cl_Name cl) h db"
    note old = hot_invD [OF inv, where h = h]
    show "tiled ts (host_windows (cl_Name cl) db h ?s) \<and>
      (if host_windows (cl_Name cl) db h ?s = [] then hot_anchor ?s (cl_Name cl) h db = []
       else ts (win_To (last (host_windows (cl_Name cl) db h ?s))) \<le> ts (hot_now e) \<and>
         (\<forall>a\<in>set (hot_anchor ?s (cl_Name cl) h db).
            CapturedAt a = ts (win_To (last (host_windows (cl_Name cl) db h ?s)))))"
    proof (cases "h \<in> (\<lambda>inp. smp_Instance (Sample inp)) ` set inputs")
      case False
      then show ?thesis using stored(2,3) [of h] old later by auto
    next
      case True
      define inp where "inp = last (filter (\<lambda>inp. smp_Instance (Sample inp) = h) inputs)"
      have ne: "filter (\<lambda>inp. smp_Instance (Sample inp) = h) inputs \<noteq> []"
        using True by (auto simp: filter_empty_conv)
      have inp: "smp_Instance (Sample inp) = h" "inp \<in> set inputs"
        using last_in_set [OF ne] by (auto simp: inp_def)
      then have io: "smp_CapturedAt (Sample inp) = hot_now e" "Anchors inp = GetHotAnchors s (cl_Name cl) h db"
        using stored(1) by (auto simp: list_all_iff input_of_def)
      let ?w = "host_window (hot_now e) inp"
      have ws: "host_windows (cl_Name cl) db h ?s = ?ws @ [?w]" using stored(2) [of h] True by (simp add: inp_def)
      have as: "hot_anchor ?s (cl_Name cl) h db = upsertHotAnchorsTx ts (hot_now e) (AdvanceQuiet inp (hot_now e)) ?as"
        using stored(3) [of h] True by (simp add: inp_def)
      have "tiled ts (?ws @ [?w])"
      proof (rule tiled_snoc [OF old(1)])
        assume "win_Complete ?w"
        then have an: "Anchors inp \<noteq> []" by (auto simp: host_window_simps epochIntact_def)
        then obtain k a rest where ka: "Anchors inp = (k, a) # rest" by (cases "Anchors inp") auto
        have "?as \<noteq> []" using an io(2) GetHotAnchors_Nil_iff by metis
        moreover have "CapturedAt a = ts (win_To (last ?ws))"
          using GetHotAnchors_time [of k a s "cl_Name cl" h db] ka io(2) old(4) by auto
        ultimately show "?ws \<noteq> [] \<and> win_From ?w = ts (win_To (last ?ws))"
          using old(2) ka by (auto simp: host_window_def Let_def)
      qed
      moreover have "CapturedAt a = ts (hot_now e)"
        if a: "a \<in> set (upsertHotAnchorsTx ts (hot_now e) (AdvanceQuiet inp (hot_now e)) ?as)" for a
      proof -
        have "\<forall>x\<in>set ?as. CapturedAt x < ts (hot_now e)"
        proof
          fix x assume x: "x \<in> set ?as"
          then have "?ws \<noteq> []" using old(2) by auto
          then show "CapturedAt x < ts (hot_now e)" using old(3) old(4) [OF x] later by simp
        qed
        from upserted_time [OF this a] show ?thesis by simp
      qed
      ultimately show ?thesis by (simp add: ws as host_window_simps io(1))
    qed
  qed
qed

definition empty_tables :: hot_tables where
  "empty_tables = \<lparr>hot_anchor = (\<lambda>_ _ _. []), hot_snapshot = []\<rparr>"

definition run_captures ::
  "(ranked list \<Rightarrow> ranked list) \<Rightarrow> (time \<Rightarrow> time) \<Rightarrow> string \<Rightarrow> (hot_env \<times> AutoConfig \<times> Cluster) list \<Rightarrow> hot_tables \<Rightarrow> hot_tables" where
  "run_captures sortfn ts db evs s = fold (\<lambda>(e, cfg, cl). takeHotSnapshot sortfn ts e cfg cl db) evs s"

lemma run_keeps_inv:
  assumes "sorted_wrt (<) (b # map (\<lambda>ev. ts (hot_now (fst ev))) evs)"
    and "\<forall>(e, cfg, cl)\<in>set evs. cl_Name cl = name" and "hot_inv ts name db b s"
  shows "\<exists>b'. hot_inv ts name db b' (run_captures sortfn ts db evs s)"
  using assms
proof (induction evs arbitrary: b s)
  case Nil
  then show ?case by (auto simp: run_captures_def)
next
  case (Cons ev evs)
  obtain e cfg cl where ev: "ev = (e, cfg, cl)" by (cases ev)
  have cl: "cl_Name cl = name" using Cons.prems(2) ev by simp
  have step: "hot_inv ts name db (ts (hot_now e)) (takeHotSnapshot sortfn ts e cfg cl db s)"
    using capture_keeps_inv [of ts cl db b s e sortfn cfg] Cons.prems(1,3) ev cl by simp
  have "sorted_wrt (<) (ts (hot_now e) # map (\<lambda>ev. ts (hot_now (fst ev))) evs)"
    using Cons.prems(1) ev by simp
  from Cons.IH [OF this _ step] show ?case using Cons.prems(2) ev by (simp add: run_captures_def)
qed

text \<open>
  C14: over any run of captures of one database with an advancing clock, failed samples, failed
  reads and failed commits included, no interval of a host is lost or measured twice: each
  complete window of a host starts exactly at the stored time at which its previous window
  ended, and the first window of a host is never complete.
\<close>

theorem windows_tile:
  assumes "sorted_wrt (<) (map (\<lambda>ev. ts (hot_now (fst ev))) evs)"
    and "\<forall>(e, cfg, cl)\<in>set evs. cl_Name cl = name"
    and "ws = host_windows name db h (run_captures sortfn ts db evs empty_tables)"
    and "i < length ws" and "win_Complete (ws ! i)"
  shows "0 < i \<and> win_From (ws ! i) = ts (win_To (ws ! (i - 1)))"
proof -
  define b where "b = (if evs = [] then 0 else Min ((\<lambda>ev. ts (hot_now (fst ev))) ` set evs) - 1)"
  have "sorted_wrt (<) (b # map (\<lambda>ev. ts (hot_now (fst ev))) evs)"
  proof -
    have "b < t" if "t \<in> (\<lambda>ev. ts (hot_now (fst ev))) ` set evs" for t
    proof -
      have "Min ((\<lambda>ev. ts (hot_now (fst ev))) ` set evs) \<le> t" using that by (intro Min_le) auto
      moreover have "b = Min ((\<lambda>ev. ts (hot_now (fst ev))) ` set evs) - 1" using that by (auto simp: b_def)
      ultimately show ?thesis by linarith
    qed
    then show ?thesis using assms(1) by auto
  qed
  moreover have "hot_inv ts name db b empty_tables"
    by (simp add: hot_inv_def empty_tables_def host_windows_def tiled_def List.map_filter_def)
  ultimately obtain b' where "hot_inv ts name db b' (run_captures sortfn ts db evs empty_tables)"
    using run_keeps_inv assms(2) by blast
  then have "tiled ts ws" using hot_invD(1) assms(3) by blast
  then show ?thesis using assms(4,5) by (simp add: tiled_def)
qed

text \<open>
  Two captures of one host whose only table is dropped in between; the stored times are
  truncated to microseconds.
\<close>

definition micro :: "time \<Rightarrow> time" where "micro t = t div 1000 * 1000"

definition demo_hot_env :: "time \<Rightarrow> AnchorRow list \<Rightarrow> hot_env" where
  "demo_hot_env t rows =
     \<lparr>hot_now = t, hot_tables_of = (\<lambda>_. Inr (rows, None, False)),
      hot_indexes_of = (\<lambda>_. Inr []), hot_anchors_fail = (\<lambda>_. False), hot_windows_fail = False,
      hot_insert_fail = False\<rparr>"

definition demo_cluster :: Cluster where
  "demo_cluster =
     \<lparr>cl_Name = ''c'', cl_UserName = '''', cl_Password = '''', PasswordFromEnv = '''', cl_Port = '''',
      Databases = [''d''], Hosts = [''h''], HostMetas = [], Source = ''static'', ProviderID = '''',
      Labels = [], LogSource = ''''\<rparr>"

definition demo_captures :: "(hot_env \<times> AutoConfig \<times> Cluster) list" where
  "demo_captures = [(demo_hot_env 5000123 [(demo_row ''orders'' 10)\<lparr>StatsReset := None\<rparr>], shipped_config, demo_cluster),
     (demo_hot_env 9000456 [], shipped_config, demo_cluster)]"

lemma demo_windows:
  "map (\<lambda>w. (win_From w, win_To w, win_Complete w))
     (host_windows ''c'' ''d'' ''h'' (run_captures rank_sort micro ''d'' demo_captures empty_tables))
   = [(5000123, 5000123, False), (5000000, 9000456, True)]"
  by code_simp

theorem windows_tile_witness:
  "let ws = host_windows ''c'' ''d'' ''h'' (run_captures rank_sort micro ''d'' demo_captures empty_tables)
   in win_Complete (ws ! 1) \<and> win_From (ws ! 1) = micro (win_To (ws ! 0))"
proof -
  define ws where "ws = host_windows ''c'' ''d'' ''h'' (run_captures rank_sort micro ''d'' demo_captures empty_tables)"
  have m: "map (\<lambda>w. (win_From w, win_To w, win_Complete w)) ws = [(5000123, 5000123, False), (5000000, 9000456, True)]"
    unfolding ws_def by (rule demo_windows)
  then have ws: "1 < length ws" "win_Complete (ws ! 1)" by (auto simp: map_eq_Cons_conv)
  have "win_From (ws ! 1) = micro (win_To (ws ! (1 - 1)))"
    using windows_tile [OF _ _ ws_def ws]
    by (simp add: demo_captures_def demo_hot_env_def demo_cluster_def micro_def)
  then show ?thesis using ws by (simp add: ws_def)
qed

end
