(* ===== verification/Go_Strings.thy ===== *)
theory Go_Strings
  imports Go_Float "HOL-Library.Sublist"
begin

text \<open>
  The functions of Go's packages \<^verbatim>\<open>strings\<close> and \<^verbatim>\<open>strconv\<close> that the
  plan analysis uses. A string is its list of bytes. White space is that of the ASCII range,
  the only one the modelled inputs print.
\<close>

definition is_blank :: "char \<Rightarrow> bool" where
  "is_blank c \<longleftrightarrow> c \<in> {CHR '' '', CHR 0x09, CHR 0x0A, CHR 0x0B, CHR 0x0C, CHR 0x0D}"

definition TrimSpace :: "string \<Rightarrow> string" where
  "TrimSpace s = rev (dropWhile is_blank (rev (dropWhile is_blank s)))"

definition HasPrefix :: "string \<Rightarrow> string \<Rightarrow> bool" where
  "HasPrefix s p \<longleftrightarrow> prefix p s"

definition HasSuffix :: "string \<Rightarrow> string \<Rightarrow> bool" where
  "HasSuffix s p \<longleftrightarrow> suffix p s"

definition CutPrefix :: "string \<Rightarrow> string \<Rightarrow> string option" where
  "CutPrefix s p = (if HasPrefix s p then Some (drop (length p) s) else None)"

definition CutSuffix :: "string \<Rightarrow> string \<Rightarrow> string option" where
  "CutSuffix s p = (if HasSuffix s p then Some (take (length s - length p) s) else None)"

definition TrimPrefix :: "string \<Rightarrow> string \<Rightarrow> string" where
  "TrimPrefix s p = (case CutPrefix s p of None \<Rightarrow> s | Some r \<Rightarrow> r)"

definition TrimSuffix :: "string \<Rightarrow> string \<Rightarrow> string" where
  "TrimSuffix s p = (case CutSuffix s p of None \<Rightarrow> s | Some r \<Rightarrow> r)"

text \<open>The first occurrence of \<open>sep\<close> splits the string.\<close>

fun Cut :: "string \<Rightarrow> string \<Rightarrow> (string \<times> string) option" where
  "Cut [] sep = (if sep = [] then Some ([], []) else None)"
| "Cut (c # s) sep =
     (if prefix sep (c # s) then Some ([], drop (length sep) (c # s))
      else map_option (\<lambda>(a, b). (c # a, b)) (Cut s sep))"

definition Contains :: "string \<Rightarrow> string \<Rightarrow> bool" where
  "Contains s sub \<longleftrightarrow> Cut s sub \<noteq> None"

text \<open>\<^verbatim>\<open>strings.ReplaceAll\<close> for a non-empty old string.\<close>

function ReplaceAll :: "string \<Rightarrow> string \<Rightarrow> string \<Rightarrow> string" where
  "ReplaceAll s old new =
     (if old = [] then s
      else (case Cut s old of None \<Rightarrow> s | Some (a, b) \<Rightarrow> a @ new @ ReplaceAll b old new))"
  by pat_completeness auto

lemma Cut_length: "Cut s sep = Some (a, b) \<Longrightarrow> length a + length sep + length b = length s"
proof (induction s sep arbitrary: a b rule: Cut.induct)
  case (2 c s sep)
  then show ?case
    by (auto split: if_splits dest: prefix_length_le)
qed (auto split: if_splits)

termination ReplaceAll
proof (relation "measure (\<lambda>(s, _, _). length s)")
  fix s old new :: string and x a b
  assume "old \<noteq> []" "Cut s old = Some x" "(a, b) = x"
  then show "((b, old, new), (s, old, new)) \<in> measure (\<lambda>(s, _, _). length s)"
    using Cut_length [of s old a b] by (cases old) auto
qed simp

declare ReplaceAll.simps [simp del]

definition TrimLeft :: "string \<Rightarrow> char set \<Rightarrow> string" where
  "TrimLeft s cutset = dropWhile (\<lambda>c. c \<in> cutset) s"

definition TrimRight :: "string \<Rightarrow> char set \<Rightarrow> string" where
  "TrimRight s cutset = rev (dropWhile (\<lambda>c. c \<in> cutset) (rev s))"

fun Join :: "string list \<Rightarrow> string \<Rightarrow> string" where
  "Join [] sep = []"
| "Join [s] sep = s"
| "Join (s # ss) sep = s @ sep @ Join ss sep"

text \<open>\<^verbatim>\<open>strings.Split\<close> at a one-byte separator: never empty.\<close>

fun Split :: "string \<Rightarrow> char \<Rightarrow> string list" where
  "Split [] sep = [[]]"
| "Split (c # s) sep =
     (if c = sep then [] # Split s sep
      else (case Split s sep of [] \<Rightarrow> [[c]] | t # ts \<Rightarrow> (c # t) # ts))"

text \<open>\<^verbatim>\<open>strings.Fields\<close>: the maximal runs of bytes that are no white space.\<close>

function Fields :: "string \<Rightarrow> string list" where
  "Fields s =
     (case dropWhile is_blank s of
        [] \<Rightarrow> []
      | t \<Rightarrow> takeWhile (\<lambda>c. \<not> is_blank c) t # Fields (dropWhile (\<lambda>c. \<not> is_blank c) t))"
  by pat_completeness auto
termination
proof (relation "measure length")
  fix s t :: string and c
  assume t: "dropWhile is_blank s = c # t"
  then have "\<not> is_blank c" by (metis hd_dropWhile list.distinct(1) list.sel(1))
  moreover have "length (c # t) \<le> length s" unfolding t [symmetric] by (rule length_dropWhile_le)
  moreover have "length (dropWhile (\<lambda>c. \<not> is_blank c) t) \<le> length t" by (rule length_dropWhile_le)
  ultimately show "(dropWhile (\<lambda>c. \<not> is_blank c) (c # t), s) \<in> measure length" by simp
qed simp

declare Fields.simps [simp del]

lemma Cut_Some: "Cut s sep = Some (a, b) \<Longrightarrow> s = a @ sep @ b"
proof (induction s sep arbitrary: a b rule: Cut.induct)
  case (2 c s sep)
  then show ?case by (auto split: if_splits simp: prefix_def)
qed (auto split: if_splits)

text \<open>A one-byte separator splits at its first occurrence.\<close>

lemma Cut_byte: "c \<notin> set a \<Longrightarrow> Cut (a @ c # b) [c] = Some (a, b)"
  by (induction a) auto

lemma Cut_byte_None: "c \<notin> set a \<Longrightarrow> Cut a [c] = None"
  by (induction a) auto

section \<open>Decimal numbers\<close>

definition digit :: "nat \<Rightarrow> char" where
  "digit n = char_of (48 + n)"

definition is_digit :: "char \<Rightarrow> bool" where
  "is_digit c \<longleftrightarrow> (48 :: nat) \<le> of_char c \<and> of_char c \<le> (57 :: nat)"

definition digit_val :: "char \<Rightarrow> nat" where
  "digit_val c = of_char c - 48"

text \<open>\<^verbatim>\<open>strconv.Itoa\<close> of a length, and \<^verbatim>\<open>%d\<close> of \<^verbatim>\<open>fmt\<close>.\<close>

fun Itoa :: "nat \<Rightarrow> string" where
  "Itoa n = (if n < 10 then [digit n] else Itoa (n div 10) @ [digit (n mod 10)])"

declare Itoa.simps [simp del]

definition digits_val :: "string \<Rightarrow> nat" where
  "digits_val s = foldl (\<lambda>a c. 10 * a + digit_val c) 0 s"

definition ParseInt :: "string \<Rightarrow> i64 option" where
  "ParseInt s =
     (let (neg, ds) = (case s of
                         c # cs \<Rightarrow> if c = CHR ''-'' then (True, cs) else if c = CHR ''+'' then (False, cs) else (False, s)
                       | [] \<Rightarrow> (False, s));
          v = (if neg then - int (digits_val ds) else int (digits_val ds))
      in if ds = [] \<or> \<not> list_all is_digit ds then None
         else if in_i64 v then Some v else None)"

lemma digit_is_digit: "n < 10 \<Longrightarrow> is_digit (digit n) \<and> digit_val (digit n) = n"
  by (simp add: digit_def is_digit_def digit_val_def)

lemma Itoa_digits: "list_all is_digit (Itoa n)"
  by (induction n rule: Itoa.induct) (subst Itoa.simps, auto simp: digit_is_digit)

lemma Itoa_val: "digits_val (Itoa n) = n"
proof (induction n rule: Itoa.induct)
  case (1 n)
  show ?case
  proof (cases "n < 10")
    case True
    then show ?thesis by (subst Itoa.simps) (simp add: digits_val_def digit_is_digit)
  next
    case False
    then have "digits_val (Itoa n) = 10 * digits_val (Itoa (n div 10)) + n mod 10"
      by (subst Itoa.simps) (simp add: digits_val_def digit_is_digit)
    with 1 False show ?thesis by simp
  qed
qed

lemma Itoa_inj: "Itoa m = Itoa n \<longleftrightarrow> m = n"
  by (metis Itoa_val)

lemma Itoa_not_empty [simp]: "Itoa n \<noteq> []"
  by (subst Itoa.simps) simp

lemma colon_not_in_Itoa: "CHR '':'' \<notin> set (Itoa n)"
  using Itoa_digits [of n] by (auto simp: list_all_iff is_digit_def)

text \<open>Printing and reading a number are inverse.\<close>

lemma ParseInt_Itoa:
  assumes "int n < 2 ^ 63"
  shows "ParseInt (Itoa n) = Some (int n)"
proof -
  obtain c cs where s: "Itoa n = c # cs" by (cases "Itoa n") auto
  have "is_digit c" using Itoa_digits [of n] s by simp
  then have "c \<noteq> CHR ''-''" "c \<noteq> CHR ''+''" by (auto simp: is_digit_def)
  then show ?thesis
    using assms Itoa_digits [of n] Itoa_val [of n] s by (simp add: ParseInt_def in_i64_def)
qed

text \<open>Two blocks that both end in the colon are cut at the same place.\<close>

lemma colon_split:
  assumes "Itoa m @ CHR '':'' # a = Itoa n @ CHR '':'' # b"
  shows "m = n \<and> a = b"
proof -
  have "Cut (Itoa m @ CHR '':'' # a) '':'' = Some (Itoa m, a)"
    by (rule Cut_byte [OF colon_not_in_Itoa])
  moreover have "Cut (Itoa n @ CHR '':'' # b) '':'' = Some (Itoa n, b)"
    by (rule Cut_byte [OF colon_not_in_Itoa])
  ultimately have "Some (Itoa m, a) = Some (Itoa n, b)" unfolding assms by (rule trans [OF sym])
  then have "Itoa m = Itoa n" "a = b" by blast+
  then show ?thesis unfolding Itoa_inj by blast
qed

section \<open>Decimal floating-point numbers\<close>

text \<open>
  \<^verbatim>\<open>strconv.ParseFloat\<close> on the decimal syntax, correctly rounded, with no result for
  a syntax error and for a value out of range. The hexadecimal syntax, which PostgreSQL never
  prints, is not modelled: such a string has no result here.
\<close>

definition cut_sign :: "string \<Rightarrow> bool \<times> string" where
  "cut_sign s =
     (case s of
        [] \<Rightarrow> (False, s)
      | c # t \<Rightarrow> if c = CHR ''-'' then (True, t) else if c = CHR ''+'' then (False, t) else (False, s))"

definition cut_digits :: "string \<Rightarrow> string \<times> string" where
  "cut_digits s = (takeWhile is_digit s, dropWhile is_digit s)"

definition lower :: "char \<Rightarrow> char" where
  "lower c = (if (65 :: nat) \<le> of_char c \<and> of_char c \<le> (90 :: nat) then char_of (of_char c + (32 :: nat)) else c)"

text \<open>The exponent: absent, or a marker, a sign and at least one digit up to the end.\<close>

definition exponent :: "string \<Rightarrow> int option" where
  "exponent s =
     (case s of
        [] \<Rightarrow> Some 0
      | c # t \<Rightarrow>
          (let (neg, ds) = cut_sign t
           in if lower c \<noteq> CHR ''e'' \<or> ds = [] \<or> \<not> list_all is_digit ds then None
              else Some (if neg then - int (digits_val ds) else int (digits_val ds))))"

definition scale10 :: "rat \<Rightarrow> int \<Rightarrow> rat" where
  "scale10 q e = (if 0 \<le> e then q * 10 ^ nat e else q / 10 ^ nat (- e))"

definition decimal :: "string \<Rightarrow> rat option" where
  "decimal s =
     (let (whole, rest) = cut_digits s;
          (frac, rest) = (case rest of [] \<Rightarrow> ([], []) | c # t \<Rightarrow> if c = CHR ''.'' then cut_digits t else ([], rest))
      in if whole = [] \<and> frac = [] then None
         else map_option (\<lambda>e. scale10 (of_nat (digits_val (whole @ frac))) (e - int (length frac))) (exponent rest))"

definition ParseFloat :: "string \<Rightarrow> f64 option" where
  "ParseFloat s =
     (let (neg, t) = cut_sign s; w = map lower t
      in if w = ''inf'' \<or> w = ''infinity'' then Some (if neg then NInf else PInf)
         else if w = ''nan'' \<and> s = t then Some NaN
         else
           (case decimal t of
              None \<Rightarrow> None
            | Some q \<Rightarrow> (case fin_of (if neg then - q else q) of Fin r \<Rightarrow> Some (Fin r) | _ \<Rightarrow> None)))"

text \<open>
  The conversion \<^verbatim>\<open>int(x)\<close> truncates; out of range the language leaves the result to
  the platform, and amd64 gives the least integer.
\<close>

definition int_of_f64 :: "f64 \<Rightarrow> i64" where
  "int_of_f64 x =
     (case x of
        Fin q \<Rightarrow> (let n = (if 0 \<le> q then \<lfloor>q\<rfloor> else \<lceil>q\<rceil>) in if in_i64 n then n else - (2 ^ 63))
      | _ \<Rightarrow> - (2 ^ 63))"

end
