(* ===== verification/Explain_Plan.thy ===== *)
theory Explain_Plan
  imports Health_Metrics Go_Strings
begin

text \<open>
  The plan model of package \<^verbatim>\<open>backend/internal/explain\<close>: the tree
  (\<^verbatim>\<open>plan.go\<close>), the shape fingerprint (\<^verbatim>\<open>hash.go\<close>) and the rule
  catalogue with its evaluation (\<^verbatim>\<open>rule.go\<close>, \<^verbatim>\<open>rules.go\<close>).

  A node is a record of its own fields and the list of its children. Pointers to numbers are
  options. The bits of a \<^verbatim>\<open>Requirement\<close> are a list of flags. SHA-256 is the parameter
  \<open>sha\<close>: the hexadecimal form of the first eight bytes of the digest.
\<close>

section \<open>The tree\<close>

record Actual =
  StartupTime :: f64
  TotalTime :: f64
  act_Rows :: f64
  Loops :: f64

record Buffers =
  SharedHit :: f64
  SharedRead :: f64
  SharedDirtied :: f64
  SharedWritten :: f64
  LocalHit :: f64
  LocalRead :: f64
  LocalDirtied :: f64
  LocalWritten :: f64
  TempRead :: f64
  TempWritten :: f64

record node_fields =
  Type :: string
  Relation :: string
  node_Schema :: string
  Alias :: string
  IndexName :: string
  ParentRel :: string
  SubplanName :: string
  Parallel :: bool
  PartialMode :: string
  Strategy :: string
  JoinType :: string
  ScanDirection :: string
  Operation :: string
  StartupCost :: f64
  TotalCost :: f64
  PlanRows :: f64
  PlanWidth :: i64
  node_Actual :: "Actual option"
  Filter :: string
  IndexCond :: string
  RecheckCond :: string
  HashCond :: string
  MergeCond :: string
  JoinFilter :: string
  SortKey :: "string list"
  RowsRemovedByFilter :: "f64 option"
  RowsRemovedByJoinFilter :: "f64 option"
  HeapFetches :: "f64 option"
  SortMethod :: string
  SortSpaceKB :: "f64 option"
  SortSpaceType :: string
  WorkersPlanned :: "i64 option"
  WorkersLaunched :: "i64 option"
  HeapBlocksExact :: "f64 option"
  HeapBlocksLossy :: "f64 option"
  node_Buffers :: "Buffers option"

datatype Node = Node (own: node_fields) (Children: "Node list")

abbreviation node_Type :: "Node \<Rightarrow> string" where "node_Type n \<equiv> Type (own n)"

record Trigger =
  trig_Name :: string
  trig_Relation :: string
  trig_Time :: f64
  trig_Calls :: f64

record JIT =
  jit_Functions :: i64
  Generation :: "f64 option"
  Inlining :: "f64 option"
  Optimization :: "f64 option"
  Emission :: "f64 option"
  jit_Total :: "f64 option"

record Capabilities =
  caps_Actual :: bool
  caps_Buffers :: bool
  caps_Timing :: bool
  caps_Settings :: bool

datatype Source = SourceExplain | SourceLog

datatype Format = FormatText | FormatJSON

record QueryPlan =
  plan_Source :: Source
  plan_Format :: Format
  Generic :: bool
  QueryText :: string
  QueryParams :: string
  QueryID :: i64
  HasQueryID :: bool
  plan_Duration :: "f64 option"
  PlanningTime :: "f64 option"
  ExecutionTime :: "f64 option"
  Root :: Node
  Triggers :: "Trigger list"
  plan_JIT :: "JIT option"
  Settings :: "(string \<times> string) list"
  Caps :: Capabilities

definition RelOuter :: string where "RelOuter = ''Outer''"
definition RelInner :: string where "RelInner = ''Inner''"

definition TotalRows :: "Actual option \<Rightarrow> f64" where
  "TotalRows a = (case a of None \<Rightarrow> Fin 0 | Some a \<Rightarrow> act_Rows a * Loops a)"

text \<open>\<^verbatim>\<open>eachNode\<close>: every node with its path from the root and its parent, in preorder.\<close>

fun visit :: "Node \<Rightarrow> Node option \<Rightarrow> nat list \<Rightarrow> (nat list \<times> Node \<times> Node option) list"
and visit_children :: "Node list \<Rightarrow> Node \<Rightarrow> nat list \<Rightarrow> nat \<Rightarrow> (nat list \<times> Node \<times> Node option) list" where
  "visit (Node f cs) parent path = (path, Node f cs, parent) # visit_children cs (Node f cs) path 0"
| "visit_children [] parent path i = []"
| "visit_children (c # cs) parent path i =
     visit c (Some parent) (path @ [i]) @ visit_children cs parent path (Suc i)"

definition eachNode :: "QueryPlan \<Rightarrow> (nat list \<times> Node \<times> Node option) list" where
  "eachNode p = visit (Root p) None []"

fun node_at :: "Node \<Rightarrow> int list \<Rightarrow> Node option" where
  "node_at n [] = Some n"
| "node_at n (i # path) =
     (if i < 0 \<or> int (length (Children n)) \<le> i then None else node_at (Children n ! nat i) path)"

definition NodeAt :: "QueryPlan \<Rightarrow> int list \<Rightarrow> Node option" where
  "NodeAt p path = node_at (Root p) path"

text \<open>
  \<^verbatim>\<open>Walk\<close>: the nodes its callback is called on, depth first; where the callback
  returns false the subtree is pruned.
\<close>

fun walk :: "(nat list \<Rightarrow> Node \<Rightarrow> bool) \<Rightarrow> Node \<Rightarrow> nat list \<Rightarrow> (nat list \<times> Node) list"
and walk_children :: "(nat list \<Rightarrow> Node \<Rightarrow> bool) \<Rightarrow> Node list \<Rightarrow> nat list \<Rightarrow> nat \<Rightarrow> (nat list \<times> Node) list" where
  "walk fn (Node f cs) path =
     (path, Node f cs) # (if fn path (Node f cs) then walk_children fn cs path 0 else [])"
| "walk_children fn [] path i = []"
| "walk_children fn (c # cs) path i = walk fn c (path @ [i]) @ walk_children fn cs path (Suc i)"

definition Walk :: "QueryPlan \<Rightarrow> (nat list \<Rightarrow> Node \<Rightarrow> bool) \<Rightarrow> (nat list \<times> Node) list" where
  "Walk p fn = walk fn (Root p) []"

definition NodeCount :: "QueryPlan \<Rightarrow> nat" where
  "NodeCount p = foldl (\<lambda>n _. n + 1) 0 (Walk p (\<lambda>_ _. True))"

definition SelfCost :: "Node \<Rightarrow> f64" where
  "SelfCost n =
     (let self = foldl (\<lambda>s c. s - TotalCost (own c)) (TotalCost (own n)) (Children n)
      in if self < Fin 0 then Fin 0 else self)"

section \<open>The shape fingerprint\<close>

definition hash_write :: "string \<Rightarrow> string" where
  "hash_write s = Itoa (length s) @ '':'' @ s"

definition FormatBool :: "bool \<Rightarrow> string" where
  "FormatBool b = (if b then ''true'' else ''false'')"

definition head_fields :: "Node \<Rightarrow> string list" where
  "head_fields n =
     (let f = own n
      in [Type f, Strategy f, PartialMode f, JoinType f, Operation f, ScanDirection f, node_Schema f,
          Relation f, IndexName f, ParentRel f, FormatBool (Parallel f), Itoa (length (Children n))])"

text \<open>The bytes \<^verbatim>\<open>hashNode\<close> feeds to the hash, and the fingerprint.\<close>

fun hashNode :: "(string \<Rightarrow> string) \<Rightarrow> Node \<Rightarrow> string"
and hash_children :: "(string \<Rightarrow> string) \<Rightarrow> Node list \<Rightarrow> string list" where
  "hashNode sha (Node f cs) =
     concat (map hash_write (head_fields (Node f cs))) @
     (if Type f = ''Append'' \<and> Parallel f
      then concat (map hash_write (sort (map sha (hash_children sha cs))))
      else concat (hash_children sha cs))"
| "hash_children sha [] = []"
| "hash_children sha (c # cs) = hashNode sha c # hash_children sha cs"

definition Hash :: "(string \<Rightarrow> string) \<Rightarrow> Node \<Rightarrow> string" where
  "Hash sha n = sha (hashNode sha n)"

section \<open>Rules\<close>

datatype Requirement = ReqActual | ReqTiming | ReqBuffers | ReqWorkMem

record Context =
  WorkMemKB :: "i64 option"
  TableRows :: "(string \<times> i64) list"

definition tableRows :: "Context \<Rightarrow> Node \<Rightarrow> i64 option" where
  "tableRows c n =
     (let f = own n
      in if TableRows c = [] \<or> Relation f = '''' then None
         else
           (case (if node_Schema f \<noteq> '''' then map_of (TableRows c) (node_Schema f @ ''.'' @ Relation f) else None) of
              Some rows \<Rightarrow> Some rows
            | None \<Rightarrow> map_of (TableRows c) (Relation f)))"

record Finding =
  find_Code :: string
  find_Severity :: Severity
  Path :: "nat list"
  NodeType :: string
  find_Relation :: string
  Params :: "(string \<times> anyval) list"

record Dormant =
  dorm_Code :: string
  Missing :: "string list"

record PlanRule =
  Code :: string
  rule_Severity :: Severity
  Requires :: "Requirement list"
  Eval :: "QueryPlan \<Rightarrow> Context \<Rightarrow> Finding list"

definition finding :: "string \<Rightarrow> Severity \<Rightarrow> nat list \<Rightarrow> Node \<Rightarrow> (string \<times> anyval) list \<Rightarrow> Finding" where
  "finding code severity path n params =
     \<lparr>find_Code = code, find_Severity = severity, Path = path, NodeType = node_Type n,
      find_Relation = Relation (own n), Params = params\<rparr>"

definition rowsRemoved :: "Node \<Rightarrow> f64" where
  "rowsRemoved n =
     foldl (\<lambda>removed v. case v of None \<Rightarrow> removed | Some x \<Rightarrow> removed + x) (Fin 0)
       [RowsRemovedByFilter (own n), RowsRemovedByJoinFilter (own n)]"

definition scannedRows :: "Node \<Rightarrow> f64" where
  "scannedRows n =
     (case node_Actual (own n) of
        None \<Rightarrow> Fin 0
      | Some a \<Rightarrow> TotalRows (Some a) + rowsRemoved n * Loops a)"

definition evalSeqScanLarge :: "QueryPlan \<Rightarrow> Context \<Rightarrow> Finding list" where
  "evalSeqScanLarge p ctx = List.map_filter (\<lambda>(path, n, parent).
     (let f = own n;
          params = [(''plan_rows'', AFloat (PlanRows f)), (''total_cost'', AFloat (TotalCost f))];
          report = (\<lambda>sev more. Some (finding ''seq_scan_large'' sev path n (params @ more)))
      in if Type f \<noteq> ''Seq Scan'' \<or> Filter f = '''' then None
         else
           (case tableRows ctx n of
              Some rows \<Rightarrow>
                if of_i64 rows < lit 100000 then None
                else report SeverityMedium [(''table_rows'', AInt rows)]
            | None \<Rightarrow>
                if Fin 0 < scannedRows n then
                  (if scannedRows n < lit 100000 then None
                   else report SeverityMedium [(''scanned_rows'', AFloat (scannedRows n))])
                else if TotalCost f < lit 1000 then None
                else report SeverityLow [(''estimate_only'', ABool True)]))) (eachNode p)"

definition hotter :: "nat list \<times> Node \<times> Node option \<Rightarrow> (nat list \<times> Node) option \<times> f64 \<Rightarrow> (nat list \<times> Node) option \<times> f64" where
  "hotter = (\<lambda>(path, n, parent) (best, bestCost).
     if bestCost < SelfCost n then (Some (path, n), SelfCost n) else (best, bestCost))"

definition evalCostHotspot :: "QueryPlan \<Rightarrow> Context \<Rightarrow> Finding list" where
  "evalCostHotspot p ctx =
     (let tot = TotalCost (own (Root p))
      in if tot \<le> Fin 0 \<or> caps_Actual (Caps p) then []
         else
           (let (best, bestCost) = fold hotter (eachNode p) (None, Fin 0)
            in case best of
                 None \<Rightarrow> []
               | Some (path, n) \<Rightarrow>
                   if bestCost < lit 100 \<or> bestCost / tot < lit (5 / 10) then []
                   else [finding ''cost_hotspot'' SeverityLow path n
                           [(''self_cost'', AFloat bestCost), (''total_cost'', AFloat tot),
                            (''cost_share'', AFloat (bestCost / tot))]]))"

text \<open>The first child in each role; \<^verbatim>\<open>-1\<close> of the source is \<open>None\<close>.\<close>

definition side_step :: "nat \<times> Node \<Rightarrow> nat option \<times> nat option \<Rightarrow> nat option \<times> nat option" where
  "side_step = (\<lambda>(i, c) (outer, inner).
     if ParentRel (own c) = RelOuter \<and> outer = None then (Some i, inner)
     else if ParentRel (own c) = RelInner \<and> inner = None then (outer, Some i)
     else (outer, inner))"

definition joinSides :: "Node \<Rightarrow> (nat \<times> nat) option" where
  "joinSides n =
     (case fold side_step (enumerate 0 (Children n)) (None, None) of
        (Some outer, Some inner) \<Rightarrow> Some (outer, inner)
      | _ \<Rightarrow> None)"

definition evalNestedLoopBlowup :: "QueryPlan \<Rightarrow> Context \<Rightarrow> Finding list" where
  "evalNestedLoopBlowup p ctx = List.map_filter (\<lambda>(path, n, parent).
     if node_Type n \<noteq> ''Nested Loop'' then None
     else
       (case joinSides n of
          None \<Rightarrow> None
        | Some (outerIdx, innerIdx) \<Rightarrow>
            (let outer = PlanRows (own (Children n ! outerIdx));
                 inner = PlanRows (own (Children n ! innerIdx));
                 pairs = outer * inner
             in if outer < lit 1000 \<or> pairs < lit 1000000 then None
                else Some (finding ''nested_loop_blowup'' SeverityMedium path n
                  [(''outer_rows'', AFloat outer), (''inner_rows'', AFloat inner), (''pairs'', AFloat pairs)]))))
     (eachNode p)"

fun unwrapBuffered :: "Node \<Rightarrow> nat list \<Rightarrow> Node \<times> nat list" where
  "unwrapBuffered (Node f [c]) path =
     (if Type f = ''Materialize'' \<or> Type f = ''Memoize'' then unwrapBuffered c (path @ [0]) else (Node f [c], path))"
| "unwrapBuffered n path = (n, path)"

definition evalIndexCandidateJoin :: "QueryPlan \<Rightarrow> Context \<Rightarrow> Finding list" where
  "evalIndexCandidateJoin p ctx = List.map_filter (\<lambda>(path, n, parent).
     if node_Type n \<noteq> ''Nested Loop'' then None
     else
       (case joinSides n of
          None \<Rightarrow> None
        | Some (outerIdx, innerIdx) \<Rightarrow>
            (let (inner, innerPath) = unwrapBuffered (Children n ! innerIdx) (path @ [innerIdx]);
                 f = own n
             in if node_Type inner \<noteq> ''Seq Scan'' then None
                else if HashCond f = '''' \<and> MergeCond f = '''' \<and> JoinFilter f = '''' \<and> Filter (own inner) = ''''
                then None
                else Some (finding ''index_candidate_join'' SeverityHigh innerPath inner
                  [(''outer_rows'', AFloat (PlanRows (own (Children n ! outerIdx)))),
                   (''inner_rows'', AFloat (PlanRows (own inner)))]))))
     (eachNode p)"

definition evalSortEstimateSpill :: "QueryPlan \<Rightarrow> Context \<Rightarrow> Finding list" where
  "evalSortEstimateSpill p ctx =
     (case WorkMemKB ctx of
        None \<Rightarrow> []
      | Some kb \<Rightarrow> List.map_filter (\<lambda>(path, n, parent).
          (let f = own n;
               estimatedKB = PlanRows f * of_i64 (PlanWidth f) / lit 1024
           in if Type f \<notin> {''Sort'', ''Incremental Sort'', ''Hash''} then None
              else if estimatedKB \<le> of_i64 kb then None
              else Some (finding ''sort_estimate_spill'' SeverityMedium path n
                [(''estimated_kb'', AFloat estimatedKB), (''work_mem_kb'', AInt kb),
                 (''plan_rows'', AFloat (PlanRows f))]))) (eachNode p))"

definition evalCTEMaterialize :: "QueryPlan \<Rightarrow> Context \<Rightarrow> Finding list" where
  "evalCTEMaterialize p ctx = List.map_filter (\<lambda>(path, n, parent).
     (let f = own n
      in if Type f \<noteq> ''CTE Scan'' \<and> Type f \<noteq> ''Materialize'' then None
         else if PlanRows f < lit 100000 then None
         else Some (finding ''cte_materialize'' SeverityLow path n
           [(''plan_rows'', AFloat (PlanRows f)), (''total_cost'', AFloat (TotalCost f))]))) (eachNode p)"

definition evalRowMisestimate :: "QueryPlan \<Rightarrow> Context \<Rightarrow> Finding list" where
  "evalRowMisestimate p ctx = List.map_filter (\<lambda>(path, n, parent).
     case node_Actual (own n) of
       None \<Rightarrow> None
     | Some a \<Rightarrow>
         if Loops a = Fin 0 then None
         else
           (let estimated = math_Max (PlanRows (own n)) (lit 1);
                actual = math_Max (act_Rows a) (lit 1);
                ratio = math_Max (estimated / actual) (actual / estimated)
            in if math_Max estimated actual < lit 100 then None
               else if ratio < lit 10 then None
               else Some (finding ''row_misestimate'' SeverityHigh path n
                 [(''plan_rows'', AFloat (PlanRows (own n))), (''actual_rows'', AFloat (act_Rows a)),
                  (''loops'', AFloat (Loops a)), (''ratio'', AFloat ratio)]))) (eachNode p)"

definition evalSortSpillActual :: "QueryPlan \<Rightarrow> Context \<Rightarrow> Finding list" where
  "evalSortSpillActual p ctx = List.map_filter (\<lambda>(path, n, parent).
     (let f = own n
      in if \<not> Contains (SortMethod f) ''external'' then None
         else Some (finding ''sort_spill_actual'' SeverityMedium path n
           ((''sort_method'', AStr (SortMethod f)) #
            (case SortSpaceKB f of None \<Rightarrow> [] | Some kb \<Rightarrow> [(''sort_space_kb'', AFloat kb)]))))) (eachNode p)"

definition evalFilterDiscardsRows :: "QueryPlan \<Rightarrow> Context \<Rightarrow> Finding list" where
  "evalFilterDiscardsRows p ctx = List.map_filter (\<lambda>(path, n, parent).
     case node_Actual (own n) of
       None \<Rightarrow> None
     | Some a \<Rightarrow>
         if RowsRemovedByFilter (own n) = None \<and> RowsRemovedByJoinFilter (own n) = None then None
         else
           (let removed = rowsRemoved n * Loops a;
                share = removed / (removed + TotalRows (Some a))
            in if removed < lit 10000 then None
               else if share < lit (9 / 10) then None
               else Some (finding ''filter_discards_rows'' SeverityMedium path n
                 [(''rows_removed'', AFloat removed), (''actual_rows'', AFloat (TotalRows (Some a))),
                  (''removed_share'', AFloat share)]))) (eachNode p)"

definition evalHeapFetchesHigh :: "QueryPlan \<Rightarrow> Context \<Rightarrow> Finding list" where
  "evalHeapFetchesHigh p ctx = List.map_filter (\<lambda>(path, n, parent).
     case (HeapFetches (own n), node_Actual (own n)) of
       (Some fetches, Some a) \<Rightarrow>
         (let rows = TotalRows (Some a)
          in if node_Type n \<noteq> ''Index Only Scan'' then None
             else if fetches < lit 1000 \<or> rows \<le> Fin 0 \<or> fetches / rows < lit (2 / 10) then None
             else Some (finding ''heap_fetches_high'' SeverityMedium path n
               [(''heap_fetches'', AFloat fetches), (''actual_rows'', AFloat rows),
                (''ratio'', AFloat (fetches / rows))]))
     | _ \<Rightarrow> None) (eachNode p)"

definition evalLoopsBlowup :: "QueryPlan \<Rightarrow> Context \<Rightarrow> Finding list" where
  "evalLoopsBlowup p ctx = List.map_filter (\<lambda>(path, n, parent).
     case (node_Actual (own n), parent) of
       (Some a, Some par) \<Rightarrow>
         if node_Type par \<noteq> ''Nested Loop'' then None
         else if ParentRel (own n) \<noteq> RelInner then None
         else
           (case joinSides par of
              None \<Rightarrow> None
            | Some (outerIdx, innerIdx) \<Rightarrow>
                (let expected = math_Max (PlanRows (own (Children par ! outerIdx))) (lit 1);
                     expected = (case node_Actual (own par) of
                                   None \<Rightarrow> expected
                                 | Some pa \<Rightarrow> if Fin 0 < Loops pa then expected * Loops pa else expected);
                     loops = Loops a
                 in if loops < lit 1000 \<or> loops < expected * lit 10 then None
                    else Some (finding ''loops_blowup'' SeverityHigh path n
                      [(''loops'', AFloat loops), (''expected_loops'', AFloat expected),
                       (''ratio'', AFloat (loops / expected))])))
     | _ \<Rightarrow> None) (eachNode p)"

definition evalBitmapLossy :: "QueryPlan \<Rightarrow> Context \<Rightarrow> Finding list" where
  "evalBitmapLossy p ctx = List.map_filter (\<lambda>(path, n, parent).
     case HeapBlocksLossy (own n) of
       None \<Rightarrow> None
     | Some lossy \<Rightarrow>
         (let exact = (case HeapBlocksExact (own n) of None \<Rightarrow> Fin 0 | Some x \<Rightarrow> x)
          in if node_Type n \<noteq> ''Bitmap Heap Scan'' then None
             else if lossy \<le> Fin 0 \<or> lossy / (lossy + exact) < lit (1 / 10) then None
             else Some (finding ''bitmap_lossy'' SeverityLow path n
               [(''lossy_blocks'', AFloat lossy), (''exact_blocks'', AFloat exact)]))) (eachNode p)"

definition evalWorkersNotLaunched :: "QueryPlan \<Rightarrow> Context \<Rightarrow> Finding list" where
  "evalWorkersNotLaunched p ctx = List.map_filter (\<lambda>(path, n, parent).
     case (WorkersPlanned (own n), WorkersLaunched (own n)) of
       (Some planned, Some launched) \<Rightarrow>
         if planned \<le> launched then None
         else Some (finding ''workers_not_launched'' SeverityLow path n
           [(''workers_planned'', AInt planned), (''workers_launched'', AInt launched)])
     | _ \<Rightarrow> None) (eachNode p)"

definition totalTimeMs :: "QueryPlan \<Rightarrow> f64" where
  "totalTimeMs p =
     (case ExecutionTime p of
        Some t \<Rightarrow> t
      | None \<Rightarrow>
          (case plan_Duration p of
             Some t \<Rightarrow> t
           | None \<Rightarrow> (case node_Actual (own (Root p)) of Some a \<Rightarrow> TotalTime a | None \<Rightarrow> Fin 0)))"

definition overhead :: "string \<Rightarrow> f64 \<Rightarrow> QueryPlan \<Rightarrow> Finding list" where
  "overhead code spent p =
     (let tot = totalTimeMs p
      in if tot \<le> Fin 0 \<or> spent < lit 10 \<or> spent / tot < lit (25 / 100) then []
         else [finding code SeverityLow [] (Root p)
                 [(''time_ms'', AFloat spent), (''total_time_ms'', AFloat tot),
                  (''time_share'', AFloat (spent / tot))]])"

definition evalJITOverhead :: "QueryPlan \<Rightarrow> Context \<Rightarrow> Finding list" where
  "evalJITOverhead p ctx =
     (case plan_JIT p of
        None \<Rightarrow> []
      | Some j \<Rightarrow> (case jit_Total j of None \<Rightarrow> [] | Some jit \<Rightarrow> overhead ''jit_overhead'' jit p))"

definition evalTriggerTime :: "QueryPlan \<Rightarrow> Context \<Rightarrow> Finding list" where
  "evalTriggerTime p ctx =
     (if Triggers p = [] then []
      else overhead ''trigger_time'' (foldl (\<lambda>s t. s + trig_Time t) (Fin 0) (Triggers p)) p)"

definition explain_rule :: "string \<Rightarrow> Severity \<Rightarrow> Requirement list \<Rightarrow> (QueryPlan \<Rightarrow> Context \<Rightarrow> Finding list) \<Rightarrow> PlanRule" where
  "explain_rule code sev req ev = \<lparr>Code = code, rule_Severity = sev, Requires = req, Eval = ev\<rparr>"

definition explain_registry :: "PlanRule list" where
  "explain_registry =
     [explain_rule ''seq_scan_large'' SeverityMedium [] evalSeqScanLarge,
      explain_rule ''cost_hotspot'' SeverityLow [] evalCostHotspot,
      explain_rule ''nested_loop_blowup'' SeverityMedium [] evalNestedLoopBlowup,
      explain_rule ''index_candidate_join'' SeverityHigh [] evalIndexCandidateJoin,
      explain_rule ''sort_estimate_spill'' SeverityMedium [ReqWorkMem] evalSortEstimateSpill,
      explain_rule ''cte_materialize'' SeverityLow [] evalCTEMaterialize,
      explain_rule ''row_misestimate'' SeverityHigh [ReqActual] evalRowMisestimate,
      explain_rule ''sort_spill_actual'' SeverityMedium [ReqActual] evalSortSpillActual,
      explain_rule ''filter_discards_rows'' SeverityMedium [ReqActual] evalFilterDiscardsRows,
      explain_rule ''heap_fetches_high'' SeverityMedium [ReqActual] evalHeapFetchesHigh,
      explain_rule ''loops_blowup'' SeverityHigh [ReqActual] evalLoopsBlowup,
      explain_rule ''bitmap_lossy'' SeverityLow [ReqActual] evalBitmapLossy,
      explain_rule ''workers_not_launched'' SeverityLow [ReqActual] evalWorkersNotLaunched,
      explain_rule ''jit_overhead'' SeverityLow [ReqTiming] evalJITOverhead,
      explain_rule ''trigger_time'' SeverityLow [ReqTiming] evalTriggerTime]"

section \<open>Evaluation\<close>

definition ParseMemKB :: "string \<Rightarrow> i64 option" where
  "ParseMemKB v =
     (let v = TrimSpace v;
          (v, mult) =
            (if HasSuffix v ''kB'' then (TrimSuffix v ''kB'', 1)
             else if HasSuffix v ''MB'' then (TrimSuffix v ''MB'', 2 ^ 10)
             else if HasSuffix v ''GB'' then (TrimSuffix v ''GB'', 2 ^ 20)
             else if HasSuffix v ''TB'' then (TrimSuffix v ''TB'', 2 ^ 30)
             else (v, 1))
      in case ParseInt (TrimSpace v) of
           None \<Rightarrow> None
         | Some kb \<Rightarrow> if kb < 0 then None else Some (wrap64 (kb * mult)))"

definition planWorkMemKB :: "QueryPlan \<Rightarrow> i64 option" where
  "planWorkMemKB p =
     ParseMemKB (case map_of (Settings p) ''work_mem'' of None \<Rightarrow> '''' | Some v \<Rightarrow> v)"

definition missingFor :: "Requirement list \<Rightarrow> Capabilities \<Rightarrow> Context \<Rightarrow> string list" where
  "missingFor req caps ctx =
     (if ReqActual \<in> set req \<and> \<not> caps_Actual caps then [''actual''] else []) @
     (if ReqTiming \<in> set req \<and> \<not> caps_Timing caps then [''timing''] else []) @
     (if ReqBuffers \<in> set req \<and> \<not> caps_Buffers caps then [''buffers''] else []) @
     (if ReqWorkMem \<in> set req \<and> WorkMemKB ctx = None then [''work_mem''] else [])"

definition finding_rank :: "Severity \<Rightarrow> nat" where
  "finding_rank s = (case s of SeverityHigh \<Rightarrow> 0 | SeverityMedium \<Rightarrow> 1 | _ \<Rightarrow> 2)"

definition run_rule :: "QueryPlan \<Rightarrow> Context \<Rightarrow> PlanRule \<Rightarrow> Finding list \<times> Dormant list \<Rightarrow> Finding list \<times> Dormant list" where
  "run_rule p ctx r = (\<lambda>(findings, dormant).
     (let missing = missingFor (Requires r) (Caps p) ctx
      in if missing \<noteq> [] then (findings, dormant @ [\<lparr>dorm_Code = Code r, Missing = missing\<rparr>])
         else (findings @ Eval r p ctx, dormant)))"

definition plan_context :: "QueryPlan \<Rightarrow> Context \<Rightarrow> Context" where
  "plan_context p ctx =
     (case planWorkMemKB p of None \<Rightarrow> ctx | Some kb \<Rightarrow> ctx\<lparr>WorkMemKB := Some kb\<rparr>)"

definition EvaluatePlan :: "QueryPlan \<Rightarrow> Context \<Rightarrow> Finding list \<times> Dormant list" where
  "EvaluatePlan p ctx =
     (let ctx = plan_context p ctx;
          (findings, dormant) = fold (run_rule p ctx) explain_registry ([], [])
      in (sort_key (\<lambda>f. (finding_rank (find_Severity f), find_Code f)) findings, dormant))"

fun LookupRule :: "PlanRule list \<Rightarrow> string \<Rightarrow> PlanRule option" where
  "LookupRule [] code = None"
| "LookupRule (r # rs) code = (if Code r = code then Some r else LookupRule rs code)"

section \<open>Paths\<close>

lemma visit_paths:
  "(path', m, par') \<in> set (visit n par path) \<Longrightarrow>
     \<exists>q. path' = path @ q \<and> node_at n (map int q) = Some m"
  "(path', m, par') \<in> set (visit_children cs P path i) \<Longrightarrow>
     \<exists>j q. j < length cs \<and> path' = path @ (i + j) # q \<and> node_at (cs ! j) (map int q) = Some m"
proof (induction n par path and cs P path i arbitrary: path' m par' and path' m par'
    rule: visit_visit_children.induct)
  case (1 f cs parent path)
  show ?case
  proof (cases "(path', m, par') = (path, Node f cs, parent)")
    case True
    then show ?thesis by (intro exI [of _ "[]"]) simp
  next
    case False
    then have "(path', m, par') \<in> set (visit_children cs (Node f cs) path 0)" using 1(2) by auto
    from 1(1) [OF this] obtain j q
      where "j < length cs" "path' = path @ j # q" "node_at (cs ! j) (map int q) = Some m" by auto
    then show ?thesis by (intro exI [of _ "j # q"]) simp
  qed
next
  case (3 c cs parent path i)
  show ?case
  proof (cases "(path', m, par') \<in> set (visit c (Some parent) (path @ [i]))")
    case True
    then obtain q where "path' = (path @ [i]) @ q" "node_at c (map int q) = Some m" using 3(1) by blast
    then show ?thesis by (intro exI [of _ 0] exI [of _ q]) simp
  next
    case False
    then have "(path', m, par') \<in> set (visit_children cs parent path (Suc i))" using 3(3) by simp
    then obtain j q where "j < length cs" "path' = path @ (Suc i + j) # q" "node_at (cs ! j) (map int q) = Some m"
      using 3(2) by blast
    then show ?thesis by (intro exI [of _ "Suc j"] exI [of _ q]) simp
  qed
qed simp

lemma eachNode_path: "(path, n, par) \<in> set (eachNode p) \<Longrightarrow> NodeAt p (map int path) = Some n"
  using visit_paths(1) [of path n par "Root p" None "[]"] by (auto simp: eachNode_def NodeAt_def)

lemma walk_all_visits:
  "walk (\<lambda>_ _. True) n path = map (\<lambda>(path, n, parent). (path, n)) (visit n par path)"
  "walk_children (\<lambda>_ _. True) cs path i = map (\<lambda>(path, n, parent). (path, n)) (visit_children cs parent path i)"
  by (induction n par path and cs parent path i rule: visit_visit_children.induct) simp_all

text \<open>An unpruned walk calls back on the nodes of \<^verbatim>\<open>eachNode\<close>, in the same order.\<close>

lemma NodeCount_eachNode: "NodeCount p = length (eachNode p)"
proof -
  have "foldl (\<lambda>n _. n + 1) k xs = k + length xs" for k :: nat and xs :: "(nat list \<times> Node) list"
    by (induction xs arbitrary: k) auto
  then show ?thesis by (simp add: NodeCount_def Walk_def eachNode_def walk_all_visits(1) [where par = None])
qed

lemma node_at_append: "node_at n (p @ q) = (case node_at n p of None \<Rightarrow> None | Some m \<Rightarrow> node_at m q)"
  by (induction n p rule: node_at.induct) auto

lemma node_at_child: "i < length (Children n) \<Longrightarrow> node_at n [int i] = Some (Children n ! i)"
  by simp

lemma unwrapBuffered_path:
  "unwrapBuffered n path = (m, path') \<Longrightarrow> \<exists>q. path' = path @ q \<and> node_at n (map int q) = Some m"
proof (induction n path rule: unwrapBuffered.induct)
  case (1 f c path)
  show ?case
  proof (cases "Type f = ''Materialize'' \<or> Type f = ''Memoize''")
    case True
    then obtain q where "path' = (path @ [0]) @ q" "node_at c (map int q) = Some m"
      using 1 by auto
    then show ?thesis by (intro exI [of _ "0 # q"]) simp
  next
    case False
    then show ?thesis using 1(2) by auto
  qed
qed auto

lemma joinSides_bounds:
  assumes "joinSides n = Some (i, j)"
  shows "i < length (Children n) \<and> j < length (Children n)"
proof -
  let ?ok = "\<lambda>(a, b). (\<forall>i. a = Some i \<longrightarrow> i < length (Children n)) \<and> (\<forall>j. b = Some j \<longrightarrow> j < length (Children n))"
  have "?ok (fold side_step (enumerate 0 (Children n)) (None, None))"
    by (rule fold_invariant_set)
      (auto simp: side_step_def in_set_enumerate_eq split: if_splits)
  then show ?thesis using assms by (auto simp: joinSides_def split: option.splits prod.splits)
qed

section \<open>Every finding is pinned to its node\<close>

definition pinned :: "QueryPlan \<Rightarrow> Finding \<Rightarrow> bool" where
  "pinned p f \<longleftrightarrow> (\<exists>n. NodeAt p (map int (Path f)) = Some n
     \<and> NodeType f = node_Type n \<and> find_Relation f = Relation (own n))"

lemma finding_pinned:
  "NodeAt p (map int path) = Some n \<Longrightarrow> pinned p (finding code sev path n params)"
  by (auto simp: pinned_def finding_def)

lemma finding_Code [simp]: "find_Code (finding code sev path n params) = code"
  by (simp add: finding_def)

text \<open>The contract of a rule: it reports under its own code, at a node of the plan.\<close>

locale plan_rule =
  fixes code :: string and ev :: "QueryPlan \<Rightarrow> Context \<Rightarrow> Finding list"
  assumes pins: "f \<in> set (ev p ctx) \<Longrightarrow> pinned p f \<and> find_Code f = code"
begin

lemma finds_node: "f \<in> set (ev p ctx) \<Longrightarrow> NodeAt p (map int (Path f)) \<noteq> None"
  using pins [of f p ctx] by (auto simp: pinned_def)

end

text \<open>Most rules look at each node alone and report at it.\<close>

definition at_node :: "string \<Rightarrow> (nat list \<times> Node \<times> Node option \<Rightarrow> Finding option) \<Rightarrow> bool" where
  "at_node code g \<longleftrightarrow> (\<forall>path n par f. g (path, n, par) = Some f \<longrightarrow>
     (\<exists>sev params. f = finding code sev path n params))"

lemma map_filter_member: "f \<in> set (List.map_filter g xs) \<longleftrightarrow> (\<exists>x\<in>set xs. g x = Some f)"
  by (force simp: List.map_filter_def)

lemma at_node_pins:
  assumes "at_node code g" and "f \<in> set (List.map_filter g (eachNode p))"
  shows "pinned p f \<and> find_Code f = code"
proof -
  obtain path n par where n: "(path, n, par) \<in> set (eachNode p)" "g (path, n, par) = Some f"
    using assms(2) by (auto simp: map_filter_member)
  then obtain sev params where "f = finding code sev path n params"
    using assms(1) unfolding at_node_def by blast
  then show ?thesis using eachNode_path [OF n(1)] by (simp add: finding_pinned)
qed

lemmas at_node_splits = if_splits option.splits prod.splits

interpretation seq_scan: plan_rule "''seq_scan_large''" evalSeqScanLarge
  unfolding evalSeqScanLarge_def
  by unfold_locales (rule at_node_pins, auto simp: at_node_def Let_def split: at_node_splits)

interpretation nested_loop: plan_rule "''nested_loop_blowup''" evalNestedLoopBlowup
  unfolding evalNestedLoopBlowup_def
  by unfold_locales (rule at_node_pins, auto simp: at_node_def Let_def split: at_node_splits)

interpretation sort_estimate: plan_rule "''sort_estimate_spill''" evalSortEstimateSpill
proof
  fix f p ctx assume f: "f \<in> set (evalSortEstimateSpill p ctx)"
  then obtain kb where kb: "WorkMemKB ctx = Some kb"
    by (cases "WorkMemKB ctx") (simp_all add: evalSortEstimateSpill_def)
  show "pinned p f \<and> find_Code f = ''sort_estimate_spill''"
    using f unfolding evalSortEstimateSpill_def kb option.case
    by (rule at_node_pins [rotated]) (auto simp: at_node_def Let_def split: at_node_splits)
qed

interpretation materialize: plan_rule "''cte_materialize''" evalCTEMaterialize
  unfolding evalCTEMaterialize_def
  by unfold_locales (rule at_node_pins, auto simp: at_node_def Let_def split: at_node_splits)

interpretation misestimate: plan_rule "''row_misestimate''" evalRowMisestimate
  unfolding evalRowMisestimate_def
  by unfold_locales (rule at_node_pins, auto simp: at_node_def Let_def split: at_node_splits)

interpretation sort_spill: plan_rule "''sort_spill_actual''" evalSortSpillActual
  unfolding evalSortSpillActual_def
  by unfold_locales (rule at_node_pins, auto simp: at_node_def Let_def split: at_node_splits)

interpretation discards: plan_rule "''filter_discards_rows''" evalFilterDiscardsRows
  unfolding evalFilterDiscardsRows_def
  by unfold_locales (rule at_node_pins, auto simp: at_node_def Let_def split: at_node_splits)

interpretation heap_fetches: plan_rule "''heap_fetches_high''" evalHeapFetchesHigh
  unfolding evalHeapFetchesHigh_def
  by unfold_locales (rule at_node_pins, auto simp: at_node_def Let_def split: at_node_splits)

interpretation loops: plan_rule "''loops_blowup''" evalLoopsBlowup
  unfolding evalLoopsBlowup_def
  by unfold_locales (rule at_node_pins, auto simp: at_node_def Let_def split: at_node_splits)

interpretation lossy: plan_rule "''bitmap_lossy''" evalBitmapLossy
  unfolding evalBitmapLossy_def
  by unfold_locales (rule at_node_pins, auto simp: at_node_def Let_def split: at_node_splits)

interpretation workers: plan_rule "''workers_not_launched''" evalWorkersNotLaunched
  unfolding evalWorkersNotLaunched_def
  by unfold_locales (rule at_node_pins, auto simp: at_node_def Let_def split: at_node_splits)

interpretation index_join: plan_rule "''index_candidate_join''" evalIndexCandidateJoin
proof
  fix f p ctx assume "f \<in> set (evalIndexCandidateJoin p ctx)"
  then obtain path n par where n1: "(path, n, par) \<in> set (eachNode p)" and "(if node_Type n \<noteq> ''Nested Loop'' then None
     else
       (case joinSides n of
          None \<Rightarrow> None
        | Some (outerIdx, innerIdx) \<Rightarrow>
            (let (inner, innerPath) = unwrapBuffered (Children n ! innerIdx) (path @ [innerIdx]);
                 f = own n
             in if node_Type inner \<noteq> ''Seq Scan'' then None
                else if HashCond f = [] \<and> MergeCond f = [] \<and> JoinFilter f = [] \<and> Filter (own inner) = []
                then None
                else Some (finding ''index_candidate_join'' SeverityHigh innerPath inner
                  [(''outer_rows'', AFloat (PlanRows (own (Children n ! outerIdx)))),
                   (''inner_rows'', AFloat (PlanRows (own inner)))])))) = Some f"
    by (auto simp: evalIndexCandidateJoin_def map_filter_member)
  then obtain i j m path' where n: "(path, n, par) \<in> set (eachNode p)" "joinSides n = Some (i, j)"
    "unwrapBuffered (Children n ! j) (path @ [j]) = (m, path')"
    and f: "\<exists>params. f = finding ''index_candidate_join'' SeverityHigh path' m params"
    by (auto simp: Let_def split: if_splits option.splits prod.splits)
  obtain q where q: "path' = (path @ [j]) @ q" "node_at (Children n ! j) (map int q) = Some m"
    using unwrapBuffered_path [OF n(3)] by blast
  have "NodeAt p (map int path') = Some m"
    using eachNode_path [OF n(1)] joinSides_bounds [OF n(2)] q by (simp add: NodeAt_def node_at_append)
  then show "pinned p f \<and> find_Code f = ''index_candidate_join''" using f by (auto simp: finding_pinned)
qed

interpretation hotspot: plan_rule "''cost_hotspot''" evalCostHotspot
proof
  fix f p ctx assume f: "f \<in> set (evalCostHotspot p ctx)"
  let ?P = "\<lambda>st. \<forall>path n. fst st = Some (path, n) \<longrightarrow> NodeAt p (map int path) = Some n"
  have inv: "?P (fold hotter (eachNode p) (None, Fin 0))"
  proof (rule fold_invariant_set)
    fix v and st :: "(nat list \<times> Node) option \<times> f64"
    assume v: "v \<in> set (eachNode p)" and st: "?P st"
    obtain vp vn vq where e: "v = (vp, vn, vq)" by (cases v)
    obtain best cost where "st = (best, cost)" by (cases st)
    then show "?P (hotter v st)"
      using st eachNode_path [of vp vn vq p] v by (auto simp: hotter_def e)
  qed simp
  obtain best cost where st: "fold hotter (eachNode p) (None, Fin 0) = (best, cost)"
    by (cases "fold hotter (eachNode p) (None, Fin 0)")
  show "pinned p f \<and> find_Code f = ''cost_hotspot''"
  proof (cases best)
    case None
    then show ?thesis using f st by (simp add: evalCostHotspot_def Let_def split: if_splits)
  next
    case (Some b)
    then show ?thesis
      using f st inv by (cases b) (auto simp: evalCostHotspot_def Let_def finding_pinned split: if_splits)
  qed
qed

lemma overhead_pins: "f \<in> set (overhead code spent p) \<Longrightarrow> pinned p f \<and> find_Code f = code"
  by (auto simp: overhead_def Let_def NodeAt_def intro: finding_pinned split: if_splits)

interpretation jit: plan_rule "''jit_overhead''" evalJITOverhead
  by unfold_locales (auto simp: evalJITOverhead_def split: option.splits dest: overhead_pins)

interpretation triggers: plan_rule "''trigger_time''" evalTriggerTime
  by unfold_locales (auto simp: evalTriggerTime_def split: if_splits dest: overhead_pins)

lemmas rules_keep_contract =
  seq_scan.plan_rule_axioms hotspot.plan_rule_axioms nested_loop.plan_rule_axioms
  index_join.plan_rule_axioms sort_estimate.plan_rule_axioms materialize.plan_rule_axioms
  misestimate.plan_rule_axioms sort_spill.plan_rule_axioms discards.plan_rule_axioms
  heap_fetches.plan_rule_axioms loops.plan_rule_axioms lossy.plan_rule_axioms
  workers.plan_rule_axioms jit.plan_rule_axioms triggers.plan_rule_axioms

lemma registry_contract: "list_all (\<lambda>r. plan_rule (Code r) (Eval r)) explain_registry"
  by (simp add: explain_registry_def explain_rule_def rules_keep_contract)

lemma registry_pins:
  "r \<in> set explain_registry \<Longrightarrow> f \<in> set (Eval r p ctx) \<Longrightarrow> pinned p f \<and> find_Code f = Code r"
  using registry_contract by (auto simp: list_all_iff dest: plan_rule.pins)

lemma registry_codes: "distinct (map Code explain_registry)"
  by (simp add: explain_registry_def explain_rule_def)

section \<open>The report on a plan\<close>

lemma run_rules:
  "fold (run_rule p ctx) rs (fs, ds) =
     (fs @ concat (map (\<lambda>r. Eval r p ctx) (filter (\<lambda>r. missingFor (Requires r) (Caps p) ctx = []) rs)),
      ds @ map (\<lambda>r. \<lparr>dorm_Code = Code r, Missing = missingFor (Requires r) (Caps p) ctx\<rparr>)
        (filter (\<lambda>r. missingFor (Requires r) (Caps p) ctx \<noteq> []) rs))"
  by (induction rs arbitrary: fs ds) (auto simp: run_rule_def Let_def)

text \<open>
  C15: the report on a plan accounts for the whole catalogue. Each of the rules, whose codes are
  distinct, either ran or is listed as dormant, in catalogue order, with what the plan lacks;
  the findings are exactly those of the rules that ran, ordered by severity and code; and every
  finding is pinned: following its path from the root reaches the node whose type and relation
  it names.
\<close>

theorem report_accounts_for_catalogue:
  assumes "EvaluatePlan p ctx = (findings, dormant)"
  defines "lacks r \<equiv> missingFor (Requires r) (Caps p) (plan_context p ctx)"
  shows "distinct (map Code explain_registry)
    \<and> dormant = map (\<lambda>r. \<lparr>dorm_Code = Code r, Missing = lacks r\<rparr>) (filter (\<lambda>r. lacks r \<noteq> []) explain_registry)
    \<and> mset findings = (\<Sum>r\<leftarrow>filter (\<lambda>r. lacks r = []) explain_registry. mset (Eval r p (plan_context p ctx)))
    \<and> sorted (map (\<lambda>f. (finding_rank (find_Severity f), find_Code f)) findings)
    \<and> (\<forall>f\<in>set findings. \<exists>n. NodeAt p (map int (Path f)) = Some n
         \<and> NodeType f = node_Type n \<and> find_Relation f = Relation (own n))"
proof -
  let ?ctx = "plan_context p ctx"
  let ?fs = "concat (map (\<lambda>r. Eval r p ?ctx) (filter (\<lambda>r. lacks r = []) explain_registry))"
  have f: "findings = sort_key (\<lambda>f. (finding_rank (find_Severity f), find_Code f)) ?fs"
    and d: "dormant = map (\<lambda>r. \<lparr>dorm_Code = Code r, Missing = lacks r\<rparr>) (filter (\<lambda>r. lacks r \<noteq> []) explain_registry)"
    using assms(1) by (simp_all add: EvaluatePlan_def Let_def run_rules lacks_def)
  have "mset (concat xss) = (\<Sum>xs\<leftarrow>xss. mset xs)" for xss :: "Finding list list"
    by (induction xss) auto
  then have m: "mset findings = (\<Sum>r\<leftarrow>filter (\<lambda>r. lacks r = []) explain_registry. mset (Eval r p ?ctx))"
    by (simp add: f o_def)
  have "pinned p g" if "g \<in> set findings" for g
    using that registry_pins by (auto simp: f)
  then show ?thesis using m d registry_codes by (simp add: f pinned_def)
qed

definition zero_fields :: node_fields where
  "zero_fields =
     \<lparr>Type = [], Relation = [], node_Schema = [], Alias = [], IndexName = [], ParentRel = [], SubplanName = [],
      Parallel = False, PartialMode = [], Strategy = [], JoinType = [], ScanDirection = [], Operation = [],
      StartupCost = Fin 0, TotalCost = Fin 0, PlanRows = Fin 0, PlanWidth = 0, node_Actual = None,
      Filter = [], IndexCond = [], RecheckCond = [], HashCond = [], MergeCond = [], JoinFilter = [],
      SortKey = [], RowsRemovedByFilter = None, RowsRemovedByJoinFilter = None, HeapFetches = None,
      SortMethod = [], SortSpaceKB = None, SortSpaceType = [], WorkersPlanned = None, WorkersLaunched = None,
      HeapBlocksExact = None, HeapBlocksLossy = None, node_Buffers = None\<rparr>"

text \<open>A nested loop whose inner side is a filtered scan under a materialization.\<close>

definition nested_plan :: QueryPlan where
  "nested_plan =
     \<lparr>plan_Source = SourceExplain, plan_Format = FormatText, Generic = False, QueryText = [], QueryParams = [],
      QueryID = 0, HasQueryID = False, plan_Duration = None, PlanningTime = None, ExecutionTime = None,
      Root = Node (zero_fields\<lparr>Type := ''Nested Loop''\<rparr>)
        [Node (zero_fields\<lparr>Type := ''Seq Scan'', Relation := ''a'', ParentRel := ''Outer''\<rparr>) [],
         Node (zero_fields\<lparr>Type := ''Materialize'', ParentRel := ''Inner''\<rparr>)
           [Node (zero_fields\<lparr>Type := ''Seq Scan'', Relation := ''b'', Filter := ''(x = 1)''\<rparr>) []]],
      Triggers = [], plan_JIT = None, Settings = [],
      Caps = \<lparr>caps_Actual = False, caps_Buffers = False, caps_Timing = False, caps_Settings = False\<rparr>\<rparr>"

lemma nested_report:
  "map (\<lambda>f. (find_Code f, Path f, find_Relation f)) (fst (EvaluatePlan nested_plan \<lparr>WorkMemKB = None, TableRows = []\<rparr>))
     = [(''index_candidate_join'', [1, 0], ''b'')]"
  by code_simp

theorem report_accounts_witness:
  "let (findings, dormant) = EvaluatePlan nested_plan \<lparr>WorkMemKB = None, TableRows = []\<rparr>
   in map find_Code findings = [''index_candidate_join'']
      \<and> NodeType (hd findings) = ''Seq Scan''
      \<and> map dorm_Code dormant =
          [''sort_estimate_spill'', ''row_misestimate'', ''sort_spill_actual'', ''filter_discards_rows'',
           ''heap_fetches_high'', ''loops_blowup'', ''bitmap_lossy'', ''workers_not_launched'',
           ''jit_overhead'', ''trigger_time'']"
proof -
  let ?ctx = "\<lparr>WorkMemKB = None, TableRows = []\<rparr>"
  obtain findings dormant where e: "EvaluatePlan nested_plan ?ctx = (findings, dormant)" by fastforce
  note t = report_accounts_for_catalogue [OF e]
  have m: "map (\<lambda>f. (find_Code f, Path f, find_Relation f)) findings = [(''index_candidate_join'', [1, 0], ''b'')]"
    using nested_report by (simp add: e)
  then obtain f where f: "findings = [f]" "Path f = [1, 0]" "find_Code f = ''index_candidate_join''"
    by (auto simp: map_eq_Cons_conv)
  then obtain n where "NodeAt nested_plan (map int [1, 0]) = Some n" "NodeType f = node_Type n"
    using t by auto
  then have "NodeType f = ''Seq Scan''" by (auto simp: NodeAt_def nested_plan_def)
  moreover have "map dorm_Code dormant =
      map Code (filter (\<lambda>r. missingFor (Requires r) (Caps nested_plan) (plan_context nested_plan ?ctx) \<noteq> []) explain_registry)"
    using t by (simp add: o_def)
  moreover have "\<dots> = [''sort_estimate_spill'', ''row_misestimate'', ''sort_spill_actual'', ''filter_discards_rows'',
           ''heap_fetches_high'', ''loops_blowup'', ''bitmap_lossy'', ''workers_not_launched'',
           ''jit_overhead'', ''trigger_time'']" by code_simp
  ultimately show ?thesis by (simp add: e f)
qed

section \<open>The fingerprint determines the shape\<close>

text \<open>
  What the fingerprint is meant to see: the twelve head fields and the shapes of the children;
  under a parallel append only the multiset of the children's fingerprints.
\<close>

datatype shape = Ordered "string list" "shape list" | Unordered "string list" "string multiset"

fun shape_of :: "(string \<Rightarrow> string) \<Rightarrow> Node \<Rightarrow> shape"
and shapes_of :: "(string \<Rightarrow> string) \<Rightarrow> Node list \<Rightarrow> shape list" where
  "shape_of sha (Node f cs) =
     (if Type f = ''Append'' \<and> Parallel f
      then Unordered (head_fields (Node f cs)) (mset (map sha (hash_children sha cs)))
      else Ordered (head_fields (Node f cs)) (shapes_of sha cs))"
| "shapes_of sha [] = []"
| "shapes_of sha (c # cs) = shape_of sha c # shapes_of sha cs"

lemma hash_write_inj: "hash_write s @ r = hash_write s' @ r' \<Longrightarrow> s = s' \<and> r = r'"
proof -
  assume eq: "hash_write s @ r = hash_write s' @ r'"
  then have "Itoa (length s) @ CHR '':'' # (s @ r) = Itoa (length s') @ CHR '':'' # (s' @ r')"
    by (simp add: hash_write_def)
  then have "length s = length s'" "s @ r = s' @ r'" using colon_split by blast+
  then show ?thesis by simp
qed

lemma hash_writes_inj:
  "concat (map hash_write xs) @ r = concat (map hash_write ys) @ r' \<Longrightarrow> length xs = length ys \<Longrightarrow>
   xs = ys \<and> r = r'"
proof (induction xs arbitrary: ys)
  case (Cons x xs)
  obtain y ys' where ys: "ys = y # ys'" using Cons.prems(2) by (cases ys) auto
  have "hash_write x @ (concat (map hash_write xs) @ r) = hash_write y @ (concat (map hash_write ys') @ r')"
    using Cons.prems(1) ys by simp
  then have "x = y" "concat (map hash_write xs) @ r = concat (map hash_write ys') @ r'"
    using hash_write_inj by blast+
  then show ?case using Cons.IH [of ys'] Cons.prems(2) ys by simp
qed simp

lemma hash_children_map: "hash_children sha cs = map (hashNode sha) cs"
  by (induction cs) simp_all

lemma shapes_of_map: "shapes_of sha cs = map (shape_of sha) cs"
  by (induction cs) simp_all

definition bagged :: "node_fields \<Rightarrow> bool" where
  "bagged f \<longleftrightarrow> Type f = ''Append'' \<and> Parallel f"

lemma Hash_fun: "(\<lambda>x. sha (hashNode sha x)) = Hash sha"
  by (simp add: Hash_def fun_eq_iff)

lemma head_fields_eq:
  assumes "head_fields (Node f cs) = head_fields (Node g ds)"
  shows "bagged f = bagged g" "length cs = length ds"
  using assms by (auto simp: head_fields_def Let_def FormatBool_def Itoa_inj bagged_def split: if_splits)

lemma hashNode_Node:
  "hashNode sha (Node f cs) = concat (map hash_write (head_fields (Node f cs))) @
     (if bagged f then concat (map hash_write (sort (map (Hash sha) cs)))
      else concat (map (hashNode sha) cs))"
  by (simp add: hash_children_map bagged_def o_def Hash_fun)

lemma shape_of_Node:
  "shape_of sha (Node f cs) =
     (if bagged f then Unordered (head_fields (Node f cs)) (mset (map (Hash sha) cs))
      else Ordered (head_fields (Node f cs)) (map (shape_of sha) cs))"
  by (simp add: hash_children_map shapes_of_map bagged_def o_def Hash_fun del: mset_map)

declare hashNode.simps [simp del] shape_of.simps [simp del]

lemma head_fields_length: "length (head_fields n) = 12"
  by (simp add: head_fields_def Let_def)

lemma hashNode_prefix_free:
  "hashNode sha n @ r = hashNode sha n' @ r' \<Longrightarrow> shape_of sha n = shape_of sha n' \<and> r = r'"
proof (induction n arbitrary: n' r r')
  case (Node f cs)
  obtain g ds where n': "n' = Node g ds" by (cases n')
  let ?rest = "\<lambda>f cs. if bagged f then concat (map hash_write (sort (map (Hash sha) cs)))
      else concat (map (hashNode sha) cs)"
  have "concat (map hash_write (head_fields (Node f cs))) @ (?rest f cs @ r)
      = concat (map hash_write (head_fields (Node g ds))) @ (?rest g ds @ r')"
    using Node.prems by (simp only: n' hashNode_Node append_assoc)
  from hash_writes_inj [OF this] have h: "head_fields (Node f cs) = head_fields (Node g ds)"
    and t: "?rest f cs @ r = ?rest g ds @ r'" unfolding head_fields_length by blast+
  note eqs = head_fields_eq [OF h]
  show ?case
  proof (cases "bagged f")
    case True
    then have "concat (map hash_write (sort (map (Hash sha) cs))) @ r
        = concat (map hash_write (sort (map (Hash sha) ds))) @ r'" using t eqs(1) by (simp only: if_True)
    then have "sort (map (Hash sha) cs) = sort (map (Hash sha) ds) \<and> r = r'"
      by (rule hash_writes_inj) (simp add: eqs(2))
    moreover from this have "mset (map (Hash sha) cs) = mset (map (Hash sha) ds)"
      by (metis mset_sort)
    ultimately show ?thesis using True eqs h by (simp add: n' shape_of_Node)
  next
    case False
    have "map (shape_of sha) xs = map (shape_of sha) ys \<and> r = r'"
      if "concat (map (hashNode sha) xs) @ r = concat (map (hashNode sha) ys) @ r'"
        "length xs = length ys" "set xs \<subseteq> set cs" for xs ys
      using that
    proof (induction xs arbitrary: ys)
      case (Cons x xs)
      obtain y ys' where ys: "ys = y # ys'" using Cons.prems(2) by (cases ys) auto
      have "hashNode sha x @ (concat (map (hashNode sha) xs) @ r) = hashNode sha y @ (concat (map (hashNode sha) ys') @ r')"
        using Cons.prems(1) ys by simp
      moreover have "x \<in> set cs" using Cons.prems(3) by simp
      ultimately have "shape_of sha x = shape_of sha y"
        "concat (map (hashNode sha) xs) @ r = concat (map (hashNode sha) ys') @ r'"
        using Node.IH [of x] by metis+
      then show ?case using Cons.IH [of ys'] Cons.prems ys by simp
    qed simp
    moreover have "concat (map (hashNode sha) cs) @ r = concat (map (hashNode sha) ds) @ r'"
      using t False eqs(1) by (simp only: if_False)
    ultimately have "map (shape_of sha) cs = map (shape_of sha) ds \<and> r = r'" using eqs(2) by blast
    then show ?thesis using False eqs h by (simp add: n' shape_of_Node)
  qed
qed

lemma shape_gives_stream: "shape_of sha n = shape_of sha n' \<Longrightarrow> hashNode sha n = hashNode sha n'"
proof (induction n arbitrary: n')
  case (Node f cs)
  obtain g ds where n': "n' = Node g ds" by (cases n')
  have h: "head_fields (Node f cs) = head_fields (Node g ds)"
    using Node.prems by (auto simp: n' shape_of_Node split: if_splits)
  note eqs = head_fields_eq [OF h]
  show ?case
  proof (cases "bagged f")
    case True
    then have "mset (map (Hash sha) cs) = mset (map (Hash sha) ds)"
      using Node.prems eqs by (simp add: n' shape_of_Node)
    then have "sort (map (Hash sha) cs) = sort (map (Hash sha) ds)"
      by (metis properties_for_sort mset_sort sorted_sort)
    then show ?thesis using True eqs h by (simp add: n' hashNode_Node)
  next
    case False
    then have "map (shape_of sha) cs = map (shape_of sha) ds"
      using Node.prems eqs by (simp add: n' shape_of_Node)
    then have "map (hashNode sha) cs = map (hashNode sha) ds"
      using Node.IH by (auto simp: list_eq_iff_nth_eq)
    then show ?thesis using False eqs h by (simp add: n' hashNode_Node)
  qed
qed

text \<open>
  C16: the byte stream behind the fingerprint of a plan determines its shape and is determined by
  it: two plans feed the same bytes to the hash exactly when their trees agree in node types,
  strategies, modes, join types, operations, scan directions, schemas, relations, indexes,
  parent roles and structure. No value of a field can shift a boundary, costs, estimates,
  measured numbers and condition texts do not matter, and the children of a parallel append
  may come in any order.
\<close>

theorem fingerprint_is_shape:
  "hashNode sha n = hashNode sha n' \<longleftrightarrow> shape_of sha n = shape_of sha n'"
proof
  assume "hashNode sha n = hashNode sha n'"
  then have "hashNode sha n @ [] = hashNode sha n' @ []" by (rule arg_cong)
  then show "shape_of sha n = shape_of sha n'" by (rule hashNode_prefix_free [THEN conjunct1])
qed (rule shape_gives_stream)

end
