(* ===== verification/Go_Regexp.thy ===== *)
theory Go_Regexp
  imports Go_Strings
begin

text \<open>
  The part of Go's package \<^verbatim>\<open>regexp\<close> the plan parser uses. Of all matches at
  the leftmost position the package returns the one a backtracking search finds first; here a
  pattern denotes the list of its matches in that order, each with the captured groups and the
  rest of the input. Every repetition in the modelled patterns is over one byte class.
\<close>

datatype re =
    Chr "char \<Rightarrow> bool"
  | Lit string
  | Seq re re
  | Alt re re
  | Star bool "char \<Rightarrow> bool"
  | Cap nat re
  | WordEnd

definition Eps :: re where "Eps = Lit []"

definition Opt :: "re \<Rightarrow> re" where "Opt r = Alt r Eps"

definition Plus :: "bool \<Rightarrow> (char \<Rightarrow> bool) \<Rightarrow> re" where "Plus greedy p = Seq (Chr p) (Star greedy p)"

fun Seqs :: "re list \<Rightarrow> re" where
  "Seqs [] = Eps"
| "Seqs [r] = r"
| "Seqs (r # rs) = Seq r (Seqs rs)"

text \<open>The class \<open>\s\<close> has no vertical tab, unlike \<^verbatim>\<open>unicode.IsSpace\<close>.\<close>

definition re_space :: "char \<Rightarrow> bool" where
  "re_space c \<longleftrightarrow> c \<in> {CHR '' '', CHR 0x09, CHR 0x0A, CHR 0x0C, CHR 0x0D}"

definition re_any :: "char \<Rightarrow> bool" where
  "re_any c \<longleftrightarrow> c \<noteq> CHR 0x0A"

definition re_word :: "char \<Rightarrow> bool" where
  "re_word c \<longleftrightarrow> is_digit c \<or> c = CHR ''_''
     \<or> (65 :: nat) \<le> of_char c \<and> of_char c \<le> (90 :: nat) \<or> (97 :: nat) \<le> of_char c \<and> of_char c \<le> (122 :: nat)"

text \<open>What a repetition leaves of the input: a greedy one prefers the shortest rest.\<close>

fun ends :: "bool \<Rightarrow> (char \<Rightarrow> bool) \<Rightarrow> string \<Rightarrow> string list" where
  "ends greedy p [] = [[]]"
| "ends greedy p (c # s) =
     (if \<not> p c then [c # s]
      else if greedy then ends greedy p s @ [c # s]
      else (c # s) # ends greedy p s)"

type_synonym captures = "(nat \<times> string) list"

text \<open>\<open>WordEnd\<close> is \<open>\b\<close> behind a word character.\<close>

primrec runs :: "re \<Rightarrow> string \<Rightarrow> (captures \<times> string) list" where
  "runs (Chr p) s = (case s of [] \<Rightarrow> [] | c # t \<Rightarrow> if p c then [([], t)] else [])"
| "runs (Lit w) s = (if prefix w s then [([], drop (length w) s)] else [])"
| "runs (Seq a b) s =
     concat (map (\<lambda>(m, t). map (\<lambda>(m', u). (m @ m', u)) (runs b t)) (runs a s))"
| "runs (Alt a b) s = runs a s @ runs b s"
| "runs (Star greedy p) s = map (Pair []) (ends greedy p s)"
| "runs (Cap k a) s = map (\<lambda>(m, t). ((k, take (length s - length t) s) # m, t)) (runs a s)"
| "runs WordEnd s = (case s of [] \<Rightarrow> [([], s)] | c # _ \<Rightarrow> if re_word c then [] else [([], s)])"

text \<open>Group \<open>k\<close> of a match; a group that took no part is empty. Group 0 is the whole match.\<close>

definition group :: "captures \<Rightarrow> nat \<Rightarrow> string" where
  "group m k = (case map_of m k of None \<Rightarrow> [] | Some w \<Rightarrow> w)"

text \<open>A match of a pattern that starts with the anchor.\<close>

definition FindAnchored :: "re \<Rightarrow> string \<Rightarrow> captures option" where
  "FindAnchored r s = (case runs (Cap 0 r) s of [] \<Rightarrow> None | (m, _) # _ \<Rightarrow> Some m)"

text \<open>The leftmost match with the input behind it.\<close>

fun find_from :: "re \<Rightarrow> string \<Rightarrow> (captures \<times> string) option" where
  "find_from r [] = (case runs (Cap 0 r) [] of [] \<Rightarrow> None | x # _ \<Rightarrow> Some x)"
| "find_from r (c # s) = (case runs (Cap 0 r) (c # s) of [] \<Rightarrow> find_from r s | x # _ \<Rightarrow> Some x)"

definition FindStringSubmatch :: "re \<Rightarrow> string \<Rightarrow> captures option" where
  "FindStringSubmatch r s = map_option fst (find_from r s)"

text \<open>All matches from left to right; the patterns it is used with match no empty string.\<close>

function FindAllStringSubmatch :: "re \<Rightarrow> string \<Rightarrow> captures list" where
  "FindAllStringSubmatch r s =
     (case find_from r s of
        None \<Rightarrow> []
      | Some (m, t) \<Rightarrow> m # (if length t < length s then FindAllStringSubmatch r t else []))"
  by pat_completeness auto
termination
  by (relation "measure (\<lambda>(_, s). length s)") auto

declare FindAllStringSubmatch.simps [simp del]

section \<open>Matches of the combinators\<close>

lemma runs_Eps [simp]: "runs Eps s = [([], s)]"
  by (simp add: Eps_def)

lemma runs_Opt [simp]: "runs (Opt r) s = runs r s @ [([], s)]"
  by (simp add: Opt_def)

lemma ends_stop: "\<not> p c \<Longrightarrow> ends greedy p (c # s) = [c # s]"
  by simp

text \<open>The rests of a greedy run are the input behind the class first, then rests inside it.\<close>

lemma ends_greedy:
  assumes "list_all p w" and "s = [] \<or> \<not> p (hd s)"
  shows "\<exists>us. ends True p (w @ s) = s # us \<and> (\<forall>u\<in>set us. u \<noteq> [] \<and> p (hd u))"
  using assms(1)
proof (induction w)
  case Nil
  then show ?case using assms(2) by (cases s) auto
qed auto

text \<open>A pattern whose matches all begin with \<open>c\<close> skips a prefix without \<open>c\<close>.\<close>

lemma find_from_skip:
  assumes "\<And>d t. d \<noteq> c \<Longrightarrow> runs r (d # t) = []" and "c \<notin> set w"
  shows "find_from r (w @ s) = find_from r s"
  using assms(2) by (induction w) (auto simp: assms(1))

end
