(* ===== verification/Explain_Text.thy ===== *)
theory Explain_Text
  imports Explain_Plan Go_Regexp
begin

text \<open>
  The parser of the indented tree format (\<^verbatim>\<open>parse_text.go\<close>): labels and
  identifiers, attribute lines, the lines behind the tree and the loop that rebuilds the tree
  from the indentation.

  The stack of the loop holds pointers to nodes of the tree under construction. A frame is
  pushed for the child just appended to the node of the frame below it, and a child is appended
  to a node only when all frames above it have been popped: so the node of the frame at height
  \<open>k\<close> is always the one reached from the root by taking the last child \<open>k\<close> times,
  and \<open>upd_last k\<close> is the assignment through that pointer.
\<close>

section \<open>Identifiers\<close>

abbreviation quote_char :: char where "quote_char \<equiv> CHR 0x22"

definition unquoteIdent :: "string \<Rightarrow> string" where
  "unquoteIdent s =
     (if 2 \<le> length s \<and> hd s = quote_char \<and> last s = quote_char
      then ReplaceAll (take (length s - 2) (drop 1 s)) [quote_char, quote_char] [quote_char]
      else s)"

text \<open>\<open>flush\<close> of the source: a non-empty token is moved to the output.\<close>

definition flush_token :: "string list \<Rightarrow> string \<Rightarrow> string list" where
  "flush_token out token = (if token \<noteq> [] then out @ [token] else out)"

fun split_idents :: "string \<Rightarrow> string list \<Rightarrow> string \<Rightarrow> bool \<Rightarrow> string list" where
  "split_idents [] out token quote = flush_token out token"
| "split_idents (c # s) out token quote =
     (if c = quote_char then split_idents s out (token @ [c]) (\<not> quote)
      else if c = CHR '' '' \<and> \<not> quote then split_idents s (flush_token out token) [] quote
      else split_idents s out (token @ [c]) quote)"

definition splitIdents :: "string \<Rightarrow> string list" where
  "splitIdents s = split_idents s [] [] False"

fun split_qualified :: "string \<Rightarrow> string \<Rightarrow> bool \<Rightarrow> (string \<times> string) option" where
  "split_qualified pre [] quote = None"
| "split_qualified pre (c # s) quote =
     (if c = quote_char then split_qualified (pre @ [c]) s (\<not> quote)
      else if c = CHR ''.'' \<and> \<not> quote then Some (unquoteIdent pre, unquoteIdent s)
      else split_qualified (pre @ [c]) s quote)"

definition splitQualified :: "string \<Rightarrow> string \<times> string" where
  "splitQualified name =
     (case split_qualified [] name False of Some r \<Rightarrow> r | None \<Rightarrow> ([], unquoteIdent name))"

definition parseOnClause :: "string \<Rightarrow> node_fields \<Rightarrow> node_fields" where
  "parseOnClause s n =
     (case splitIdents s of
        [] \<Rightarrow> n
      | f # rest \<Rightarrow>
          (let (schema, relation) = splitQualified f;
               n = n\<lparr>node_Schema := schema, Relation := relation\<rparr>
           in case rest of
                [] \<Rightarrow> n
              | a # _ \<Rightarrow> if unquoteIdent a \<noteq> relation then n\<lparr>Alias := unquoteIdent a\<rparr> else n))"

section \<open>Labels\<close>

definition joinTypes :: "string list" where
  "joinTypes = [''Left'', ''Right Semi'', ''Right Anti'', ''Right'', ''Full'', ''Semi'', ''Anti'']"

definition setOpCommands :: "string list" where
  "setOpCommands = [''Intersect All'', ''Intersect'', ''Except All'', ''Except'']"

text \<open>The first of the words that ends the string behind a blank, with what precedes it.\<close>

fun cut_first_suffix :: "string \<Rightarrow> string list \<Rightarrow> (string \<times> string) option" where
  "cut_first_suffix s [] = None"
| "cut_first_suffix s (w # ws) =
     (case CutSuffix s ('' '' @ w) of Some h \<Rightarrow> Some (h, w) | None \<Rightarrow> cut_first_suffix s ws)"

definition trimSetOpCommand :: "string \<Rightarrow> string" where
  "trimSetOpCommand label =
     (if \<not> HasPrefix label ''SetOp'' \<and> \<not> HasPrefix label ''HashSetOp'' then label
      else (case cut_first_suffix label setOpCommands of Some (h, _) \<Rightarrow> h | None \<Rightarrow> label))"

definition joinTypeName :: "string \<Rightarrow> string" where
  "joinTypeName head =
     (if head = ''Nested Loop'' then ''Nested Loop''
      else if head = ''Merge'' then ''Merge Join''
      else if head = ''Hash'' then ''Hash Join''
      else head @ '' Join'')"

definition normalizeType :: "string \<Rightarrow> node_fields \<Rightarrow> node_fields" where
  "normalizeType label n =
     (if label = ''HashAggregate'' then n\<lparr>Type := ''Aggregate'', Strategy := ''Hashed''\<rparr>
      else if label = ''GroupAggregate'' then n\<lparr>Type := ''Aggregate'', Strategy := ''Sorted''\<rparr>
      else if label = ''MixedAggregate'' then n\<lparr>Type := ''Aggregate'', Strategy := ''Mixed''\<rparr>
      else if label = ''Aggregate'' then n\<lparr>Type := ''Aggregate'', Strategy := ''Plain''\<rparr>
      else if label = ''HashSetOp'' then n\<lparr>Type := ''SetOp'', Strategy := ''Hashed''\<rparr>
      else if label = ''SetOp'' then n\<lparr>Type := ''SetOp'', Strategy := ''Sorted''\<rparr>
      else if label \<in> {''Insert'', ''Update'', ''Delete'', ''Merge''}
        then n\<lparr>Type := ''ModifyTable'', Operation := label\<rparr>
      else if label = ''Foreign Scan'' then n\<lparr>Type := ''Foreign Scan'', Operation := ''Select''\<rparr>
      else if label \<in> {''Foreign Insert'', ''Foreign Update'', ''Foreign Delete''}
        then n\<lparr>Type := ''Foreign Scan'', Operation := TrimPrefix label ''Foreign ''\<rparr>
      else
        (case CutSuffix label '' Join'' of
           Some base \<Rightarrow>
             (case cut_first_suffix base joinTypes of
                Some (head, jt) \<Rightarrow> n\<lparr>JoinType := jt, Type := joinTypeName head\<rparr>
              | None \<Rightarrow> n\<lparr>JoinType := ''Inner'', Type := joinTypeName base\<rparr>)
         | None \<Rightarrow>
             if label = ''Nested Loop'' then n\<lparr>Type := ''Nested Loop'', JoinType := ''Inner''\<rparr>
             else n\<lparr>Type := label\<rparr>))"

definition aliasOnlyTypes :: "string \<Rightarrow> bool" where
  "aliasOnlyTypes t \<longleftrightarrow> t \<in> {''Subquery Scan'', ''Values Scan''}"

text \<open>The prefixes of a label: the label that is left and the node.\<close>

definition label_prefixes :: "string \<Rightarrow> node_fields \<Rightarrow> string \<times> node_fields" where
  "label_prefixes label n =
     (let (label, n) = (case CutPrefix label ''Parallel '' of
                          Some rest \<Rightarrow> (rest, n\<lparr>Parallel := True\<rparr>) | None \<Rightarrow> (label, n));
          label = TrimPrefix label ''Async ''
      in case CutPrefix label ''Partial '' of
           Some rest \<Rightarrow> (rest, n\<lparr>PartialMode := ''Partial''\<rparr>)
         | None \<Rightarrow>
             (case CutPrefix label ''Finalize '' of
                Some rest \<Rightarrow> (rest, n\<lparr>PartialMode := ''Finalize''\<rparr>)
              | None \<Rightarrow> (label, n)))"

text \<open>The clauses behind the node name: relation, index and direction.\<close>

definition label_clauses :: "string \<Rightarrow> node_fields \<Rightarrow> string \<times> node_fields" where
  "label_clauses label n =
     (let (label, n) = (case Cut label '' on '' of
                          Some (head, tail) \<Rightarrow> (head, parseOnClause tail n) | None \<Rightarrow> (label, n));
          (label, n) = (case Cut label '' using '' of
                          Some (head, tail) \<Rightarrow> (head, n\<lparr>IndexName := unquoteIdent tail\<rparr>) | None \<Rightarrow> (label, n))
      in case CutSuffix label '' Backward'' of
           Some rest \<Rightarrow> (rest, n\<lparr>ScanDirection := ''Backward''\<rparr>)
         | None \<Rightarrow> (label, n))"

definition parseLabel :: "string \<Rightarrow> node_fields \<Rightarrow> node_fields" where
  "parseLabel label n =
     (let (label, n) = label_prefixes (TrimSpace label) n;
          (label, n) = label_clauses label n;
          n = normalizeType (trimSetOpCommand label) n;
          n = (if aliasOnlyTypes (Type n) \<and> Relation n \<noteq> [] then n\<lparr>Alias := Relation n, Relation := []\<rparr> else n);
          n = (if Type n = ''Bitmap Index Scan'' \<and> IndexName n = [] then n\<lparr>IndexName := Relation n, Relation := []\<rparr> else n)
      in if (Type n = ''Index Scan'' \<or> Type n = ''Index Only Scan'') \<and> ScanDirection n = []
         then n\<lparr>ScanDirection := ''Forward''\<rparr> else n)"

section \<open>Node lines\<close>

definition re_num :: re where
  "re_num = Seqs [Plus True is_digit, Opt (Lit ''.''), Star True is_digit]"

definition nodeLineRe :: re where
  "nodeLineRe =
     Seqs [Cap 1 (Star True re_space), Opt (Cap 2 (Seq (Lit ''->'') (Plus True re_space))),
           Cap 3 (Seq (Chr (\<lambda>c. \<not> re_space c)) (Star False re_any)), Chr re_space, Chr re_space, Lit ''('',
           Cap 4 (Alt (Lit ''cost='') (Alt (Lit ''actual '') (Lit ''never executed'')))]"

definition costRe :: re where
  "costRe =
     Seqs [Lit ''(cost='', Cap 1 re_num, Lit ''..'', Cap 2 re_num, Lit '' rows='', Cap 3 re_num,
           Lit '' width='', Cap 4 (Plus True is_digit), Lit '')'']"

definition actualRe :: re where
  "actualRe =
     Seqs [Lit ''(actual '', Opt (Seqs [Lit ''time='', Cap 1 re_num, Lit ''..'', Cap 2 re_num, Lit '' '']),
           Lit ''rows='', Cap 3 re_num, Lit '' loops='', Cap 4 re_num, Lit '')'']"

definition parseFloat :: "string \<Rightarrow> f64" where
  "parseFloat s = (case ParseFloat s of None \<Rightarrow> Fin 0 | Some v \<Rightarrow> v)"

fun nodeIndent :: "string \<Rightarrow> nat" where
  "nodeIndent [] = 0"
| "nodeIndent (c # s) =
     (if c = CHR '' '' then 1 + nodeIndent s else if c = CHR 0x09 then 8 + nodeIndent s else 0)"

text \<open>The zero value of a measurement, for a node that was never executed.\<close>

definition zero_Actual :: Actual where
  "zero_Actual = \<lparr>StartupTime = Fin 0, TotalTime = Fin 0, act_Rows = Fin 0, Loops = Fin 0\<rparr>"

definition line_costs :: "string \<Rightarrow> node_fields \<Rightarrow> node_fields" where
  "line_costs line n =
     (case FindStringSubmatch costRe line of
        None \<Rightarrow> n
      | Some c \<Rightarrow> n\<lparr>StartupCost := parseFloat (group c 1), TotalCost := parseFloat (group c 2),
          PlanRows := parseFloat (group c 3), PlanWidth := int_of_f64 (parseFloat (group c 4))\<rparr>)"

definition line_actual :: "string \<Rightarrow> node_fields \<Rightarrow> node_fields" where
  "line_actual line n =
     (case FindStringSubmatch actualRe line of
        Some a \<Rightarrow> n\<lparr>node_Actual := Some \<lparr>StartupTime = parseFloat (group a 1), TotalTime = parseFloat (group a 2),
            act_Rows = parseFloat (group a 3), Loops = parseFloat (group a 4)\<rparr>\<rparr>
      | None \<Rightarrow> if Contains line ''(never executed)'' then n\<lparr>node_Actual := Some zero_Actual\<rparr> else n)"

definition matchNodeLine :: "string \<Rightarrow> node_fields option" where
  "matchNodeLine line =
     (case FindAnchored nodeLineRe line of
        None \<Rightarrow> None
      | Some m \<Rightarrow> Some (line_actual line (line_costs line (parseLabel (group m 3) zero_fields))))"

definition hasTiming :: "string \<Rightarrow> bool" where
  "hasTiming line \<longleftrightarrow> Contains line ''(actual time=''"

section \<open>Attribute lines\<close>

text \<open>
  \<^verbatim>\<open>splitTopLevel\<close> reads byte by byte: the output, the depth of parentheses, the
  open quote and the part since the last cut.
\<close>

type_synonym split_state = "string list \<times> int \<times> char option \<times> string"

definition split_step :: "char \<Rightarrow> split_state \<Rightarrow> split_state" where
  "split_step c = (\<lambda>(out, depth, quote, part).
     case quote of
       Some q \<Rightarrow> (out, depth, if c = q then None else quote, part @ [c])
     | None \<Rightarrow>
         if c = CHR 0x27 \<or> c = quote_char then (out, depth, Some c, part @ [c])
         else if c = CHR ''('' \<or> c = CHR ''['' then (out, depth + 1, quote, part @ [c])
         else if c = CHR '')'' \<or> c = CHR '']'' then (out, depth - 1, quote, part @ [c])
         else if c = CHR '','' \<and> depth = 0 then (out @ [TrimSpace part], depth, quote, [])
         else (out, depth, quote, part @ [c]))"

definition splitTopLevel :: "string \<Rightarrow> string list" where
  "splitTopLevel s =
     (let (out, depth, quote, part) = fold split_step s ([], 0, None, [])
      in if TrimSpace part \<noteq> [] then out @ [TrimSpace part] else out)"

definition sortSpaceRe :: re where
  "sortSpaceRe =
     Seqs [Chr re_space, Chr re_space, Cap 1 (Alt (Lit ''Memory'') (Lit ''Disk'')), Lit '': '',
           Cap 2 (Plus True is_digit), Lit ''kB'']"

definition setSortMethod :: "node_fields \<Rightarrow> string \<Rightarrow> node_fields" where
  "setSortMethod n raw =
     (case Cut raw '': '' of
        None \<Rightarrow> n
      | Some (_, v) \<Rightarrow>
          (case FindStringSubmatch sortSpaceRe v of
             Some m \<Rightarrow>
               n\<lparr>SortSpaceType := group m 1, SortSpaceKB := Some (parseFloat (group m 2)),
                 SortMethod := TrimSpace (case Cut v (group m 0) of Some (h, _) \<Rightarrow> h | None \<Rightarrow> v)\<rparr>
           | None \<Rightarrow> n\<lparr>SortMethod := TrimSpace v\<rparr>))"

definition set_heap_part :: "string \<Rightarrow> node_fields \<Rightarrow> node_fields" where
  "set_heap_part part n =
     (case Cut part ''='' of
        None \<Rightarrow> n
      | Some (kind, num) \<Rightarrow>
          if kind = ''exact'' then n\<lparr>HeapBlocksExact := Some (parseFloat num)\<rparr>
          else if kind = ''lossy'' then n\<lparr>HeapBlocksLossy := Some (parseFloat num)\<rparr>
          else n)"

definition setHeapBlocks :: "node_fields \<Rightarrow> string \<Rightarrow> node_fields" where
  "setHeapBlocks n v = fold set_heap_part (Fields v) n"

definition zero_Buffers :: Buffers where
  "zero_Buffers =
     \<lparr>SharedHit = Fin 0, SharedRead = Fin 0, SharedDirtied = Fin 0, SharedWritten = Fin 0, LocalHit = Fin 0,
      LocalRead = Fin 0, LocalDirtied = Fin 0, LocalWritten = Fin 0, TempRead = Fin 0, TempWritten = Fin 0\<rparr>"

definition set_buffer :: "string \<Rightarrow> string \<Rightarrow> Buffers \<Rightarrow> Buffers" where
  "set_buffer scope f b =
     (case Cut f ''='' of
        None \<Rightarrow> b
      | Some (kind, num) \<Rightarrow>
          (let v = parseFloat num; k = scope @ '' '' @ kind
           in if k = ''shared hit'' then b\<lparr>SharedHit := v\<rparr>
              else if k = ''shared read'' then b\<lparr>SharedRead := v\<rparr>
              else if k = ''shared dirtied'' then b\<lparr>SharedDirtied := v\<rparr>
              else if k = ''shared written'' then b\<lparr>SharedWritten := v\<rparr>
              else if k = ''local hit'' then b\<lparr>LocalHit := v\<rparr>
              else if k = ''local read'' then b\<lparr>LocalRead := v\<rparr>
              else if k = ''local dirtied'' then b\<lparr>LocalDirtied := v\<rparr>
              else if k = ''local written'' then b\<lparr>LocalWritten := v\<rparr>
              else if k = ''temp read'' then b\<lparr>TempRead := v\<rparr>
              else if k = ''temp written'' then b\<lparr>TempWritten := v\<rparr>
              else b))"

definition buffer_group :: "string \<Rightarrow> Buffers \<Rightarrow> Buffers" where
  "buffer_group g b =
     (case Fields g of
        scope # f # fs \<Rightarrow> fold (set_buffer scope) (f # fs) b
      | _ \<Rightarrow> b)"

definition parseTextBuffers :: "string \<Rightarrow> Buffers" where
  "parseTextBuffers v = fold buffer_group (Split v (CHR '','')) zero_Buffers"

definition setTextAttr :: "node_fields \<Rightarrow> string \<Rightarrow> string \<Rightarrow> string \<Rightarrow> node_fields" where
  "setTextAttr n key v raw =
     (if key = ''Filter'' \<or> key = ''One-Time Filter'' then n\<lparr>Filter := v\<rparr>
      else if key = ''Index Cond'' \<or> key = ''TID Cond'' then n\<lparr>IndexCond := v\<rparr>
      else if key = ''Recheck Cond'' then n\<lparr>RecheckCond := v\<rparr>
      else if key = ''Hash Cond'' then n\<lparr>HashCond := v\<rparr>
      else if key = ''Merge Cond'' then n\<lparr>MergeCond := v\<rparr>
      else if key = ''Join Filter'' then n\<lparr>JoinFilter := v\<rparr>
      else if key = ''Rows Removed by Filter'' then n\<lparr>RowsRemovedByFilter := Some (parseFloat v)\<rparr>
      else if key = ''Rows Removed by Join Filter'' then n\<lparr>RowsRemovedByJoinFilter := Some (parseFloat v)\<rparr>
      else if key = ''Heap Fetches'' then n\<lparr>HeapFetches := Some (parseFloat v)\<rparr>
      else if key = ''Sort Key'' then n\<lparr>SortKey := splitTopLevel v\<rparr>
      else if key = ''Sort Method'' then setSortMethod n raw
      else if key = ''Workers Planned'' then n\<lparr>WorkersPlanned := Some (int_of_f64 (parseFloat v))\<rparr>
      else if key = ''Workers Launched'' then n\<lparr>WorkersLaunched := Some (int_of_f64 (parseFloat v))\<rparr>
      else if key = ''Heap Blocks'' then setHeapBlocks n v
      else if key = ''Buffers'' then n\<lparr>node_Buffers := Some (parseTextBuffers v)\<rparr>
      else n)"

definition appendToAttr :: "node_fields \<Rightarrow> string \<Rightarrow> string \<Rightarrow> node_fields" where
  "appendToAttr n key line =
     (let more = '' '' @ TrimSpace line
      in if key = ''Filter'' \<or> key = ''One-Time Filter'' then n\<lparr>Filter := Filter n @ more\<rparr>
         else if key = ''Index Cond'' \<or> key = ''TID Cond'' then n\<lparr>IndexCond := IndexCond n @ more\<rparr>
         else if key = ''Recheck Cond'' then n\<lparr>RecheckCond := RecheckCond n @ more\<rparr>
         else if key = ''Hash Cond'' then n\<lparr>HashCond := HashCond n @ more\<rparr>
         else if key = ''Merge Cond'' then n\<lparr>MergeCond := MergeCond n @ more\<rparr>
         else if key = ''Join Filter'' then n\<lparr>JoinFilter := JoinFilter n @ more\<rparr>
         else n)"

record textFrame =
  fr_indent :: int
  attrsAt :: int
  lastAttr :: string

text \<open>The frame and the change to the fields of its node.\<close>

definition applyTextAttr :: "textFrame \<Rightarrow> string \<Rightarrow> int \<Rightarrow> textFrame \<times> (node_fields \<Rightarrow> node_fields)" where
  "applyTextAttr f line indent =
     (let f = (if attrsAt f = - 1 then f\<lparr>attrsAt := indent\<rparr> else f)
      in if attrsAt f < indent then
           (f, if \<not> Contains line '': '' \<and> lastAttr f \<noteq> [] then (\<lambda>n. appendToAttr n (lastAttr f) line) else id)
         else
           (case Cut line '': '' of
              None \<Rightarrow> (f, id)
            | Some (key, v) \<Rightarrow> (f\<lparr>lastAttr := key\<rparr>, \<lambda>n. setTextAttr n key (TrimSpace v) line)))"

section \<open>Behind the tree\<close>

definition triggerRe :: re where
  "triggerRe =
     Seqs [Lit ''Trigger '', Cap 1 (Plus False re_any),
           Opt (Seq (Lit '' on '') (Cap 2 (Plus True (\<lambda>c. \<not> re_space c)))), Lit '': time='',
           Cap 3 (Plus True (\<lambda>c. is_digit c \<or> c = CHR ''.'')), Lit '' calls='',
           Cap 4 (Plus True (\<lambda>c. is_digit c \<or> c = CHR ''.''))]"

definition jitTimeRe :: re where
  "jitTimeRe =
     Seqs [Cap 1 (Alt (Lit ''Generation'') (Alt (Lit ''Inlining'') (Alt (Lit ''Optimization'')
             (Alt (Lit ''Emission'') (Lit ''Total''))))), Lit '' '',
           Cap 2 (Plus True (\<lambda>c. is_digit c \<or> c = CHR ''.'')), Lit '' ms'']"

definition parse_setting :: "string \<Rightarrow> (string \<times> string) list \<Rightarrow> (string \<times> string) list" where
  "parse_setting part out =
     (case Cut part '' = '' of
        None \<Rightarrow> out
      | Some (key, v) \<Rightarrow>
          (let v = TrimSpace v;
               v = (if 2 \<le> length v \<and> hd v = CHR 0x27 \<and> last v = CHR 0x27
                    then ReplaceAll (take (length v - 2) (drop 1 v)) [CHR 0x27, CHR 0x27] [CHR 0x27] else v)
           in AList.update (TrimSpace key) v out))"

definition parseSettings :: "string \<Rightarrow> (string \<times> string) list" where
  "parseSettings line = fold parse_setting (splitTopLevel line) []"

definition zero_JIT :: JIT where
  "zero_JIT = \<lparr>jit_Functions = 0, Generation = None, Inlining = None, Optimization = None, Emission = None, jit_Total = None\<rparr>"

definition set_jit_time :: "captures \<Rightarrow> JIT \<Rightarrow> JIT" where
  "set_jit_time m j =
     (let v = Some (parseFloat (group m 2)); k = group m 1
      in if k = ''Generation'' then j\<lparr>Generation := v\<rparr>
         else if k = ''Inlining'' then j\<lparr>Inlining := v\<rparr>
         else if k = ''Optimization'' then j\<lparr>Optimization := v\<rparr>
         else if k = ''Emission'' then j\<lparr>Emission := v\<rparr>
         else if k = ''Total'' then j\<lparr>jit_Total := v\<rparr>
         else j)"

definition applyJITLine :: "QueryPlan \<Rightarrow> string \<Rightarrow> QueryPlan" where
  "applyJITLine p line =
     (case plan_JIT p of
        None \<Rightarrow> p
      | Some j \<Rightarrow>
          if HasPrefix line ''Functions: '' then
            p\<lparr>plan_JIT := Some (j\<lparr>jit_Functions := int_of_f64 (parseFloat (TrimPrefix line ''Functions: ''))\<rparr>)\<rparr>
          else if HasPrefix line ''Timing: '' then
            p\<lparr>plan_JIT := Some (fold set_jit_time (FindAllStringSubmatch jitTimeRe line) j)\<rparr>
          else p)"

text \<open>The plan and whether the line belongs behind the tree.\<close>

definition applyTail :: "QueryPlan \<Rightarrow> string \<Rightarrow> bool \<Rightarrow> QueryPlan \<times> bool" where
  "applyTail p line nested =
     (let ms = (\<lambda>pre. Some (parseFloat (TrimSuffix (TrimPrefix line pre) '' ms'')))
      in if nested then (applyJITLine p line, True)
         else if HasPrefix line ''Planning Time: '' then (p\<lparr>PlanningTime := ms ''Planning Time: ''\<rparr>, True)
         else if HasPrefix line ''Execution Time: '' then (p\<lparr>ExecutionTime := ms ''Execution Time: ''\<rparr>, True)
         else if HasPrefix line ''Query Identifier: '' then
           (case ParseInt (TrimPrefix line ''Query Identifier: '') of
              None \<Rightarrow> (p, True)
            | Some i \<Rightarrow> (p\<lparr>QueryID := i, HasQueryID := True\<rparr>, True))
         else if HasPrefix line ''Settings: '' then
           (p\<lparr>Settings := parseSettings (TrimPrefix line ''Settings: '')\<rparr>, True)
         else if line = ''JIT:'' then (p\<lparr>plan_JIT := Some zero_JIT\<rparr>, True)
         else if line = ''Planning:'' then (p, True)
         else
           (case FindAnchored triggerRe line of
              None \<Rightarrow> (p, False)
            | Some m \<Rightarrow>
                (p\<lparr>Triggers := Triggers p @ [\<lparr>trig_Name = group m 1, trig_Relation = group m 2,
                    trig_Time = parseFloat (group m 3), trig_Calls = parseFloat (group m 4)\<rparr>]\<rparr>, True)))"

section \<open>The tree\<close>

definition RelMember :: string where "RelMember = ''Member''"
definition RelSubquery :: string where "RelSubquery = ''Subquery''"
definition RelInitPlan :: string where "RelInitPlan = ''InitPlan''"
definition RelSubPlan :: string where "RelSubPlan = ''SubPlan''"

definition planChildren :: "Node \<Rightarrow> nat" where
  "planChildren parent = length (filter (\<lambda>c. SubplanName (own c) = []) (Children parent))"

definition childRole :: "Node \<Rightarrow> nat \<Rightarrow> string" where
  "childRole parent index =
     (if node_Type parent \<in> {''Append'', ''Merge Append'', ''BitmapAnd'', ''BitmapOr''} then RelMember
      else if node_Type parent = ''Subquery Scan'' then RelSubquery
      else if index = 0 then RelOuter
      else if index = 1 then RelInner
      else RelMember)"

definition subplanRole :: "string \<Rightarrow> string" where
  "subplanRole header = (if HasPrefix header ''SubPlan'' then RelSubPlan else RelInitPlan)"

definition subplanRe :: re where
  "subplanRe = Seq (Cap 1 (Alt (Lit ''InitPlan'') (Alt (Lit ''SubPlan'') (Lit ''CTE'')))) WordEnd"

text \<open>The assignment through the pointer of the frame at height \<open>k\<close>.\<close>

fun upd_last :: "nat \<Rightarrow> (Node \<Rightarrow> Node) \<Rightarrow> Node \<Rightarrow> Node" where
  "upd_last 0 g n = g n"
| "upd_last (Suc k) g (Node f cs) =
     (if cs = [] then Node f cs else Node f (butlast cs @ [upd_last k g (last cs)]))"

text \<open>The role and the header of a new node depend on its parent and on the pending header.\<close>

definition place_child :: "string \<Rightarrow> node_fields \<Rightarrow> Node \<Rightarrow> node_fields" where
  "place_child pending n parent =
     (if pending \<noteq> [] then n\<lparr>ParentRel := subplanRole pending, SubplanName := pending\<rparr>
      else n\<lparr>ParentRel := childRole parent (planChildren parent)\<rparr>)"

definition append_child :: "Node \<Rightarrow> Node \<Rightarrow> Node" where
  "append_child c parent = Node (own parent) (Children parent @ [c])"

definition on_fields :: "(node_fields \<Rightarrow> node_fields) \<Rightarrow> Node \<Rightarrow> Node" where
  "on_fields h n = Node (h (own n)) (Children n)"

text \<open>The stack, top first; the bottom frame is never popped.\<close>

fun pop_frames :: "int \<Rightarrow> textFrame list \<Rightarrow> textFrame list" where
  "pop_frames indent (f # g # fs) = (if indent \<le> fr_indent f then pop_frames indent (g # fs) else f # g # fs)"
| "pop_frames indent [f] = [f]"
| "pop_frames indent [] = []"

record text_state =
  ts_plan :: QueryPlan
  ts_stack :: "textFrame list"
  ts_pending :: string
  ts_inTail :: bool

definition new_frame :: "int \<Rightarrow> textFrame" where
  "new_frame indent = \<lparr>fr_indent = indent, attrsAt = - 1, lastAttr = []\<rparr>"

definition set_timing :: "bool \<Rightarrow> QueryPlan \<Rightarrow> QueryPlan" where
  "set_timing t p = (if t then p\<lparr>Caps := (Caps p)\<lparr>caps_Timing := True\<rparr>\<rparr> else p)"

definition upd_root :: "nat \<Rightarrow> (Node \<Rightarrow> Node) \<Rightarrow> QueryPlan \<Rightarrow> QueryPlan" where
  "upd_root k g p = p\<lparr>Root := upd_last k g (Root p)\<rparr>"

definition node_line :: "string \<Rightarrow> int \<Rightarrow> node_fields \<Rightarrow> text_state \<Rightarrow> text_state" where
  "node_line line indent n st =
     (let stack = pop_frames indent (ts_stack st);
          grow = (\<lambda>parent. append_child (Node (place_child (ts_pending st) n parent) []) parent)
      in st\<lparr>ts_plan := set_timing (hasTiming line) (upd_root (length stack - 1) grow (ts_plan st)),
            ts_stack := new_frame indent # stack, ts_pending := []\<rparr>)"

definition attr_line :: "string \<Rightarrow> int \<Rightarrow> text_state \<Rightarrow> text_state" where
  "attr_line trimmed indent st =
     (case pop_frames indent (ts_stack st) of
        [] \<Rightarrow> st
      | f # fs \<Rightarrow>
          (let (f', h) = applyTextAttr f trimmed indent
           in st\<lparr>ts_plan := upd_root (length fs) (on_fields h) (ts_plan st), ts_stack := f' # fs\<rparr>))"

definition text_line :: "int \<Rightarrow> string \<Rightarrow> text_state \<Rightarrow> text_state" where
  "text_line rootIndent line st =
     (let indent = int (nodeIndent line);
          trimmed = TrimLeft line {CHR '' '', CHR 0x09}
      in if TrimSpace line = [] then st
         else if ts_inTail st then st\<lparr>ts_plan := fst (applyTail (ts_plan st) trimmed (rootIndent < indent))\<rparr>
         else
           (case matchNodeLine line of
              Some n \<Rightarrow> node_line line indent n st
            | None \<Rightarrow>
                if FindAnchored subplanRe trimmed \<noteq> None \<and> \<not> Contains trimmed '': ''
                then st\<lparr>ts_pending := trimmed, ts_stack := pop_frames indent (ts_stack st)\<rparr>
                else if indent \<le> rootIndent \<and> snd (applyTail (ts_plan st) trimmed False)
                then st\<lparr>ts_plan := fst (applyTail (ts_plan st) trimmed False), ts_inTail := True\<rparr>
                else attr_line trimmed indent st))"

section \<open>The whole parser\<close>

record explain_error =
  err_Code :: string
  err_Detail :: string

definition parseErrorf :: "string \<Rightarrow> explain_error" where
  "parseErrorf detail = \<lparr>err_Code = ''parse_error'', err_Detail = detail\<rparr>"

definition splitLines :: "string \<Rightarrow> string list" where
  "splitLines body = Split (TrimRight (ReplaceAll body [CHR 0x0D, CHR 0x0A] [CHR 0x0A]) {CHR 0x0A}) (CHR 0x0A)"

text \<open>The lines before the first node line: query text and parameters, and the lines from there on.\<close>

fun text_preamble :: "string list \<Rightarrow> string list \<Rightarrow> string \<Rightarrow> string list \<times> string \<times> string list" where
  "text_preamble [] queryText params = (queryText, params, [])"
| "text_preamble (l # ls) queryText params =
     (if matchNodeLine l \<noteq> None then (queryText, params, l # ls)
      else
        (let line = TrimLeft l {CHR '' '', CHR 0x09}
         in if HasPrefix line ''Query Text: ''
            then text_preamble ls (queryText @ [TrimPrefix line ''Query Text: '']) params
            else if HasPrefix line ''Query Parameters: ''
            then text_preamble ls queryText (TrimPrefix line ''Query Parameters: '')
            else if queryText \<noteq> [] then text_preamble ls (queryText @ [l]) params
            else text_preamble ls queryText params))"

definition zero_Capabilities :: Capabilities where
  "zero_Capabilities = \<lparr>caps_Actual = False, caps_Buffers = False, caps_Timing = False, caps_Settings = False\<rparr>"

definition zero_Plan :: "Source \<Rightarrow> Format \<Rightarrow> QueryPlan" where
  "zero_Plan src format =
     \<lparr>plan_Source = src, plan_Format = format, Generic = False, QueryText = [], QueryParams = [], QueryID = 0,
      HasQueryID = False, plan_Duration = None, PlanningTime = None, ExecutionTime = None,
      Root = Node zero_fields [], Triggers = [], plan_JIT = None, Settings = [], Caps = zero_Capabilities\<rparr>"

definition fill_node :: "nat list \<times> Node \<Rightarrow> Capabilities \<Rightarrow> Capabilities" where
  "fill_node = (\<lambda>(path, n) c.
     (let c = (if node_Actual (own n) \<noteq> None then c\<lparr>caps_Actual := True\<rparr> else c)
      in if node_Buffers (own n) \<noteq> None then c\<lparr>caps_Buffers := True\<rparr> else c))"

definition fillTextCaps :: "QueryPlan \<Rightarrow> QueryPlan" where
  "fillTextCaps p =
     (let c = (Caps p)\<lparr>caps_Settings := Settings p \<noteq> []\<rparr>;
          c = (if ExecutionTime p \<noteq> None then c\<lparr>caps_Timing := True\<rparr> else c)
      in p\<lparr>Caps := fold fill_node (Walk p (\<lambda>_ _. True)) c\<rparr>)"

definition ParseText :: "string \<Rightarrow> Source \<Rightarrow> explain_error + QueryPlan" where
  "ParseText body src =
     (let (queryText, params, rest) = text_preamble (splitLines body) [] [];
          p = (zero_Plan src FormatText)\<lparr>QueryParams := params,
                QueryText := TrimRight (Join queryText [CHR 0x0A]) {CHR '' '', CHR 0x0A}\<rparr>
      in case rest of
           [] \<Rightarrow> Inl (parseErrorf ''no plan node found'')
         | l # ls \<Rightarrow>
             (let root = (case matchNodeLine l of Some n \<Rightarrow> n | None \<Rightarrow> zero_fields);
                  rootIndent = int (nodeIndent l);
                  st = \<lparr>ts_plan = set_timing (hasTiming l) (p\<lparr>Root := Node root []\<rparr>),
                        ts_stack = [new_frame rootIndent], ts_pending = [], ts_inTail = False\<rparr>
              in Inr (fillTextCaps (ts_plan (fold (text_line rootIndent) ls st)))))"

end
