(* ===== verification/Explain_Layout.thy ===== *)
theory Explain_Layout
  imports Explain_Text
begin

text \<open>
  The indented layout in which \<^verbatim>\<open>EXPLAIN\<close> prints a tree, as a function from an
  outline to lines, and the proof that the parser of \<open>Explain_Text\<close> rebuilds the tree of
  the outline from them: structure, roles, sub-plan headers and attributes.
\<close>

section \<open>Outlines and their layout\<close>

text \<open>
  A node with its sub-plan header (empty when it has none), the text of its line behind the
  arrow, its attribute lines and its children.
\<close>

datatype outline = Outline (header: string) (body: string) (attrs: "string list") (kids: "outline list")

definition blanks :: "nat \<Rightarrow> string" where "blanks n = replicate n (CHR '' '')"

text \<open>
  PostgreSQL prints a child with an arrow in the column of its parent's attributes, a sub-plan
  two columns further under its header, and the attributes of a node six columns behind its
  arrow; the root has no arrow and its attributes are in column two.
\<close>

fun sub_layout :: "nat \<Rightarrow> outline \<Rightarrow> string list"
and sub_layouts :: "nat \<Rightarrow> outline list \<Rightarrow> string list" where
  "sub_layout d (Outline h b as ks) =
     (let a = (if h = [] then d else d + 2)
      in (if h = [] then [] else [blanks d @ h]) @
         (blanks a @ ''->  '' @ b) # map (\<lambda>x. blanks (a + 6) @ x) as @ sub_layouts (a + 6) ks)"
| "sub_layouts d [] = []"
| "sub_layouts d (k # ks) = sub_layout d k @ sub_layouts d ks"

definition layout :: "outline \<Rightarrow> string list" where
  "layout t = body t # map (\<lambda>x. blanks 2 @ x) (attrs t) @ sub_layouts 2 (kids t)"

text \<open>The tree of an outline: what each line says of its node, with the roles of the children.\<close>

definition node_of :: "string \<Rightarrow> node_fields" where
  "node_of b = (case matchNodeLine b of Some n \<Rightarrow> n | None \<Rightarrow> zero_fields)"

definition set_attr :: "string \<Rightarrow> node_fields \<Rightarrow> node_fields" where
  "set_attr a n = (case Cut a '': '' of Some (k, v) \<Rightarrow> setTextAttr n k (TrimSpace v) a | None \<Rightarrow> n)"

definition member_type :: "string \<Rightarrow> bool" where
  "member_type t \<longleftrightarrow> t \<in> {''Append'', ''Merge Append'', ''BitmapAnd'', ''BitmapOr''}"

text \<open>The role of the \<open>i\<close>-th child that is no sub-plan.\<close>

definition role_at :: "string \<Rightarrow> nat \<Rightarrow> string" where
  "role_at t i =
     (if member_type t then ''Member'' else if t = ''Subquery Scan'' then ''Subquery''
      else if i = 0 then ''Outer'' else if i = 1 then ''Inner'' else ''Member'')"

definition sub_role :: "string \<Rightarrow> string" where
  "sub_role h = (if prefix ''SubPlan'' h then ''SubPlan'' else ''InitPlan'')"

fun tree_of :: "string \<Rightarrow> outline \<Rightarrow> Node"
and trees_of :: "string \<Rightarrow> nat \<Rightarrow> outline list \<Rightarrow> Node list" where
  "tree_of role (Outline h b as ks) =
     (let f = fold set_attr as ((node_of b)\<lparr>ParentRel := role, SubplanName := h\<rparr>)
      in Node f (trees_of (Type f) 0 ks))"
| "trees_of t i [] = []"
| "trees_of t i (k # ks) =
     (if header k = [] then tree_of (role_at t i) k # trees_of t (Suc i) ks
      else tree_of (sub_role (header k)) k # trees_of t i ks)"

text \<open>Lines that the printer can produce.\<close>

definition plain :: "string \<Rightarrow> bool" where
  "plain s \<longleftrightarrow> s \<noteq> [] \<and> \<not> is_blank (hd s) \<and> CHR 0x0A \<notin> set s \<and> CHR 0x0D \<notin> set s"

definition body_ok :: "string \<Rightarrow> bool" where
  "body_ok b \<longleftrightarrow> plain b \<and> \<not> prefix ''->'' b \<and> matchNodeLine b \<noteq> None"

definition attr_ok :: "string \<Rightarrow> bool" where
  "attr_ok a \<longleftrightarrow> plain a \<and> matchNodeLine a = None \<and> Contains a '': ''"

definition header_ok :: "string \<Rightarrow> bool" where
  "header_ok h \<longleftrightarrow> plain h \<and> matchNodeLine h = None \<and> FindAnchored subplanRe h \<noteq> None \<and> \<not> Contains h '': ''"

fun outline_ok :: "outline \<Rightarrow> bool" where
  "outline_ok (Outline h b as ks) \<longleftrightarrow>
     (h = [] \<or> header_ok h) \<and> body_ok b \<and> list_all attr_ok as \<and> list_all outline_ok ks"

section \<open>Indentation and arrows\<close>

lemma blank_space: "re_space c \<Longrightarrow> is_blank c"
  by (auto simp: re_space_def is_blank_def)

lemma set_blanks: "set (blanks n) \<subseteq> {CHR '' ''}"
  by (auto simp: blanks_def)

text \<open>The node pattern behind the leading white space, and behind the arrow.\<close>

definition labelRe :: re where
  "labelRe =
     Seqs [Cap 3 (Seq (Chr (\<lambda>c. \<not> re_space c)) (Star False re_any)), Chr re_space, Chr re_space, Lit ''('',
           Cap 4 (Alt (Lit ''cost='') (Alt (Lit ''actual '') (Lit ''never executed'')))]"

definition arrowRe :: re where
  "arrowRe = Seq (Opt (Cap 2 (Seq (Lit ''->'') (Plus True re_space)))) labelRe"

lemma nodeLineRe_arrow: "nodeLineRe = Seq (Cap 1 (Star True re_space)) arrowRe"
  by (simp add: nodeLineRe_def arrowRe_def labelRe_def)

lemma labelRe_blank: "re_space c \<Longrightarrow> runs labelRe (c # s) = []"
  by (simp add: labelRe_def)

lemma arrowRe_blank: "re_space c \<Longrightarrow> runs arrowRe (c # s) = []"
  by (auto simp: arrowRe_def labelRe_blank re_space_def)

lemma runs_indent:
  assumes "list_all re_space w" and "s \<noteq> []" and "\<not> re_space (hd s)"
  shows "runs nodeLineRe (w @ s) = map (\<lambda>(m, u). ((1, w) # m, u)) (runs arrowRe s)"
proof -
  obtain us where us: "ends True re_space (w @ s) = s # us" "\<forall>u\<in>set us. u \<noteq> [] \<and> re_space (hd u)"
    using ends_greedy [OF assms(1)] assms(3) by blast
  have "runs arrowRe u = []" if "u \<in> set us" for u
    using us(2) that arrowRe_blank by (cases u) auto
  then have "concat (map (\<lambda>u. map (\<lambda>(m', v). ((1, take (length (w @ s) - length u) (w @ s)) # m', v)) (runs arrowRe u)) us) = []"
    by simp
  then show ?thesis
    unfolding nodeLineRe_arrow by (simp add: us(1) o_def split_beta)
qed

lemma runs_arrow:
  assumes "s \<noteq> []" and "\<not> re_space (hd s)"
  shows "runs arrowRe (''->  '' @ s) =
     map (\<lambda>(m, u). ((2, ''->  '') # m, u)) (runs labelRe s) @ runs labelRe (''->  '' @ s)"
proof -
  obtain c t where s: "s = c # t" using assms(1) by (cases s) auto
  have sp: "re_space CHR '' ''" by (simp add: re_space_def)
  have "runs labelRe (CHR '' '' # s) = []" by (rule labelRe_blank [OF sp])
  then show ?thesis
    using assms(2) sp by (simp add: arrowRe_def s Plus_def split_beta)
qed

lemma runs_no_arrow: "\<not> prefix ''->'' s \<Longrightarrow> runs arrowRe s = runs labelRe s"
  by (simp add: arrowRe_def split_beta)

text \<open>The label group of a line does not depend on indentation and arrow.\<close>

definition label_of :: "string \<Rightarrow> string option" where
  "label_of line = map_option (\<lambda>m. group m 3) (FindAnchored nodeLineRe line)"

lemma label_of_runs:
  assumes "list_all re_space w" and "s \<noteq> []" and "\<not> re_space (hd s)"
  shows "label_of (w @ s) = (case runs arrowRe s of [] \<Rightarrow> None | (m, _) # _ \<Rightarrow> Some (group m 3))"
  using runs_indent [OF assms]
  by (auto simp: label_of_def FindAnchored_def group_def split: list.splits)

lemma label_of_indent:
  assumes "s \<noteq> []" and "\<not> re_space (hd s)"
  shows "label_of (blanks n @ s) = label_of s"
proof -
  have "list_all re_space (blanks n)" by (simp add: list_all_iff blanks_def re_space_def)
  then show ?thesis using label_of_runs [OF _ assms, of "[]"] label_of_runs [OF _ assms] by simp
qed

lemma label_of_arrow:
  assumes s: "s \<noteq> []" "\<not> re_space (hd s)" and "\<not> prefix ''->'' s" and "label_of s \<noteq> None"
  shows "label_of (''->  '' @ s) = label_of s"
proof -
  have e: "label_of s = (case runs labelRe s of [] \<Rightarrow> None | (m, _) # _ \<Rightarrow> Some (group m 3))"
    using label_of_runs [OF _ s, of "[]"] runs_no_arrow [OF assms(3)] by simp
  have "label_of (''->  '' @ s) = (case runs arrowRe (''->  '' @ s) of [] \<Rightarrow> None | (m, _) # _ \<Rightarrow> Some (group m 3))"
    using label_of_runs [of "[]" "''->  '' @ s"] by (simp add: re_space_def)
  then show ?thesis
    using e assms(4) unfolding runs_arrow [OF s]
    by (auto simp: group_def split: list.splits)
qed

section \<open>Lines\<close>

lemma Contains_skip: "c \<notin> set w \<Longrightarrow> Contains (w @ s) (c # p) = Contains s (c # p)"
  by (induction w) (auto simp: Contains_def)

lemma find_skip:
  assumes "CHR ''('' \<notin> set w"
  shows "FindStringSubmatch costRe (w @ s) = FindStringSubmatch costRe s"
    and "FindStringSubmatch actualRe (w @ s) = FindStringSubmatch actualRe s"
proof -
  have "find_from costRe (w @ s) = find_from costRe s"
    by (rule find_from_skip [OF _ assms]) (simp add: costRe_def)
  then show "FindStringSubmatch costRe (w @ s) = FindStringSubmatch costRe s"
    by (simp add: FindStringSubmatch_def)
  have "find_from actualRe (w @ s) = find_from actualRe s"
    by (rule find_from_skip [OF _ assms]) (simp add: actualRe_def)
  then show "FindStringSubmatch actualRe (w @ s) = FindStringSubmatch actualRe s"
    by (simp add: FindStringSubmatch_def)
qed

lemma matchNodeLine_label:
  "matchNodeLine line = map_option (\<lambda>l. line_actual line (line_costs line (parseLabel l zero_fields))) (label_of line)"
  by (simp add: matchNodeLine_def label_of_def option.map_comp o_def split: option.splits)

lemma matchNodeLine_skip:
  assumes "CHR ''('' \<notin> set w" and "label_of (w @ s) = label_of s"
  shows "matchNodeLine (w @ s) = matchNodeLine s" and "hasTiming (w @ s) = hasTiming s"
proof -
  note c = Contains_skip [OF assms(1)]
  have "line_actual (w @ s) = line_actual s" "line_costs (w @ s) = line_costs s"
    unfolding line_actual_def line_costs_def find_skip [OF assms(1)] c by (rule refl)+
  then show "matchNodeLine (w @ s) = matchNodeLine s"
    unfolding matchNodeLine_label assms(2) by (simp only:)
  show "hasTiming (w @ s) = hasTiming s" unfolding hasTiming_def c by (rule refl)
qed

lemma paren_blanks: "CHR ''('' \<notin> set (blanks n)" "CHR ''('' \<notin> set (blanks n @ ''->  '')"
  using set_blanks [of n] by auto

lemma plainD:
  assumes "plain s"
  shows "s \<noteq> []" "\<not> is_blank (hd s)" "\<not> re_space (hd s)" "hd s \<noteq> CHR '' ''" "hd s \<noteq> CHR 0x09"
  using assms blank_space by (auto simp: plain_def is_blank_def)

lemma match_indented: "plain s \<Longrightarrow> matchNodeLine (blanks n @ s) = matchNodeLine s"
  by (rule matchNodeLine_skip(1) [OF paren_blanks(1) label_of_indent]) (auto dest: plainD)

lemma arrow_line:
  assumes "body_ok b"
  shows "matchNodeLine (blanks n @ ''->  '' @ b) = Some (node_of b)"
    and "hasTiming (blanks n @ ''->  '' @ b) = hasTiming b"
proof -
  have b: "plain b" "\<not> prefix ''->'' b" "matchNodeLine b \<noteq> None" using assms by (auto simp: body_ok_def)
  then have "label_of b \<noteq> None" by (simp add: matchNodeLine_label)
  then have "label_of (''->  '' @ b) = label_of b"
    by (rule label_of_arrow [OF plainD(1,3) [OF b(1)] b(2)])
  moreover have "label_of (blanks n @ (''->  '' @ b)) = label_of (''->  '' @ b)"
    by (rule label_of_indent) (simp_all add: re_space_def)
  ultimately have l: "label_of ((blanks n @ ''->  '') @ b) = label_of b" by simp
  show "matchNodeLine (blanks n @ ''->  '' @ b) = Some (node_of b)"
    using matchNodeLine_skip(1) [OF paren_blanks(2) l] b(3) by (auto simp: node_of_def)
  show "hasTiming (blanks n @ ''->  '' @ b) = hasTiming b"
    using matchNodeLine_skip(2) [OF paren_blanks(2) l] by simp
qed

lemma indent_simps:
  assumes "s \<noteq> []" and "\<not> is_blank (hd s)"
  shows "nodeIndent (blanks n @ s) = n" and "TrimLeft (blanks n @ s) {CHR '' '', CHR 0x09} = s"
    and "TrimSpace (blanks n @ s) \<noteq> []"
proof -
  obtain c t where s: "s = c # t" using assms(1) by (cases s) auto
  have c: "c \<noteq> CHR '' ''" "c \<noteq> CHR 0x09" "\<not> is_blank c" using assms(2) by (auto simp: s is_blank_def)
  show "nodeIndent (blanks n @ s) = n" using c by (induction n) (auto simp: blanks_def s)
  show "TrimLeft (blanks n @ s) {CHR '' '', CHR 0x09} = s"
    using c by (induction n) (auto simp: blanks_def s TrimLeft_def)
  have "dropWhile is_blank (blanks n @ s) = s"
    using c by (induction n) (auto simp: blanks_def s is_blank_def)
  then show "TrimSpace (blanks n @ s) \<noteq> []"
    using c by (auto simp: TrimSpace_def s)
qed

section \<open>Updates of the tree\<close>

lemma upd_last_twice: "upd_last k g (upd_last k h n) = upd_last k (\<lambda>x. g (h x)) n"
  by (induction k h n rule: upd_last.induct) auto

text \<open>A change of the child just appended is a change of what is appended.\<close>

lemma upd_last_child:
  "upd_last (Suc k) g (upd_last k (\<lambda>p. append_child (c p) p) n) = upd_last k (\<lambda>p. append_child (g (c p)) p) n"
proof (induction k arbitrary: n)
  case 0
  then show ?case by (cases n) (simp add: append_child_def)
next
  case (Suc k)
  then show ?case by (cases n) simp
qed

lemma upd_root_simps:
  "upd_root k g (upd_root k h p) = upd_root k (\<lambda>x. g (h x)) p"
  "upd_root (Suc k) g (upd_root k (\<lambda>p. append_child (c p) p) p) = upd_root k (\<lambda>p. append_child (g (c p)) p) p"
  "upd_root k g (set_timing t p) = set_timing t (upd_root k g p)"
  "set_timing t (set_timing t' p) = set_timing (t \<or> t') p"
  by (simp_all add: upd_root_def set_timing_def upd_last_twice upd_last_child)

lemma pop_frames_base:
  assumes "\<forall>f\<in>set extra. d \<le> fr_indent f" and "base \<noteq> []" and "fr_indent (hd base) < d \<or> tl base = []"
  shows "pop_frames d (extra @ base) = base"
  using assms(1)
proof (induction extra)
  case Nil
  then show ?case using assms(2,3) by (cases base rule: list.exhaust; cases "tl base") auto
next
  case (Cons e es)
  then show ?case using assms(2) by (cases "es @ base") auto
qed

section \<open>The loop on the lines of an outline\<close>

definition in_tree :: "text_state \<Rightarrow> bool" where
  "in_tree st \<longleftrightarrow> \<not> ts_inTail st \<and> ts_pending st = []"

lemma header_line:
  assumes "header_ok h" and "\<not> ts_inTail st" and "pop_frames (int d) (ts_stack st) = base"
  shows "text_line r (blanks d @ h) st = st\<lparr>ts_pending := h, ts_stack := base\<rparr>"
proof -
  have h: "plain h" "matchNodeLine h = None" "FindAnchored subplanRe h \<noteq> None" "\<not> Contains h '': ''"
    using assms(1) by (auto simp: header_ok_def)
  note i = indent_simps [OF plainD(1,2) [OF h(1)]]
  show ?thesis
    unfolding text_line_def Let_def i(1,2) match_indented [OF h(1)] h(2)
    using i(3) h assms(2,3) by (simp del: One_nat_def)
qed

lemma node_line_text:
  assumes "body_ok b" and "\<not> ts_inTail st" and "pop_frames (int d) (ts_stack st) = base"
  shows "text_line r (blanks d @ ''->  '' @ b) st =
    st\<lparr>ts_plan := set_timing (hasTiming b) (upd_root (length base - 1)
         (\<lambda>p. append_child (Node (place_child (ts_pending st) (node_of b) p) []) p) (ts_plan st)),
       ts_stack := new_frame (int d) # base, ts_pending := []\<rparr>"
proof -
  have nb: "''->  '' @ b \<noteq> []" "\<not> is_blank (hd (''->  '' @ b))" by (simp_all add: is_blank_def)
  note i = indent_simps [OF nb]
  show ?thesis
    unfolding text_line_def Let_def i(1) arrow_line [OF assms(1)] node_line_def
    using i(3) assms(2,3) by simp
qed

lemma attr_text:
  assumes "attr_ok a" and "\<not> ts_inTail st" and "r < int d"
    and "pop_frames (int d) (ts_stack st) = f # base" and "attrsAt f = - 1 \<or> attrsAt f = int d"
  shows "\<exists>f'. fr_indent f' = fr_indent f \<and> attrsAt f' = int d \<and>
    text_line r (blanks d @ a) st =
      st\<lparr>ts_plan := upd_root (length base) (on_fields (set_attr a)) (ts_plan st), ts_stack := f' # base\<rparr>"
proof -
  have a: "plain a" "matchNodeLine a = None" "Contains a '': ''" using assms(1) by (auto simp: attr_ok_def)
  note i = indent_simps [OF plainD(1,2) [OF a(1)]]
  obtain k v where c: "Cut a '': '' = Some (k, v)" using a(3) by (auto simp: Contains_def)
  then have s: "set_attr a = (\<lambda>n. setTextAttr n k (TrimSpace v) a)" by (simp add: set_attr_def fun_eq_iff)
  have "text_line r (blanks d @ a) st = attr_line a (int d) st"
    unfolding text_line_def Let_def i(1,2) match_indented [OF a(1)] a(2)
    using i(3) a(3) assms(2,3) by simp
  moreover have "applyTextAttr f a (int d) = (f\<lparr>attrsAt := int d, lastAttr := k\<rparr>, set_attr a)"
    using assms(5) by (auto simp: applyTextAttr_def Let_def c s)
  ultimately show ?thesis
    by (intro exI [of _ "f\<lparr>attrsAt := int d, lastAttr := k\<rparr>"]) (simp add: attr_line_def assms(4))
qed

lemma on_fields_simps:
  "on_fields g (on_fields h n) = on_fields (\<lambda>x. g (h x)) n" "on_fields (\<lambda>n. n) = id" "on_fields g (Node f cs) = Node (g f) cs"
  by (simp_all add: on_fields_def fun_eq_iff)

lemma attr_lines:
  assumes "list_all attr_ok as" and "\<not> ts_inTail st" and "r < int d"
    and "ts_stack st = f # base" and "fr_indent f < int d" and "attrsAt f = - 1 \<or> attrsAt f = int d"
  shows "\<exists>f'. fr_indent f' = fr_indent f \<and>
    fold (text_line r) (map (\<lambda>x. blanks d @ x) as) st =
      st\<lparr>ts_plan := upd_root (length base) (on_fields (fold set_attr as)) (ts_plan st), ts_stack := f' # base\<rparr>"
  using assms
proof (induction as arbitrary: st f)
  case Nil
  have "upd_root k (on_fields id) p = p" for k p
  proof -
    have "upd_last k (on_fields id) n = n" for n
      by (induction k "on_fields id" n rule: upd_last.induct) (auto simp: on_fields_def)
    then show ?thesis by (simp add: upd_root_def)
  qed
  then show ?case using Nil.prems(4) by (intro exI [of _ f]) (simp add: id_def)
next
  case (Cons a as)
  have pop: "pop_frames (int d) (ts_stack st) = f # base"
    using pop_frames_base [of "[]" "int d" "f # base"] Cons.prems(4,5) by simp
  have ok: "attr_ok a" "list_all attr_ok as" using Cons.prems(1) by auto
  obtain f1 where f1: "fr_indent f1 = fr_indent f" "attrsAt f1 = int d"
    "text_line r (blanks d @ a) st =
       st\<lparr>ts_plan := upd_root (length base) (on_fields (set_attr a)) (ts_plan st), ts_stack := f1 # base\<rparr>"
    using attr_text [OF ok(1) Cons.prems(2,3) pop Cons.prems(6)] by blast
  let ?st = "text_line r (blanks d @ a) st"
  have "\<exists>f'. fr_indent f' = fr_indent f1 \<and>
    fold (text_line r) (map (\<lambda>x. blanks d @ x) as) ?st =
      ?st\<lparr>ts_plan := upd_root (length base) (on_fields (fold set_attr as)) (ts_plan ?st), ts_stack := f' # base\<rparr>"
    by (rule Cons.IH [OF ok(2)]) (use Cons.prems f1 in auto)
  then show ?case using f1 by (auto simp: upd_root_simps on_fields_simps)
qed

section \<open>Growing a node by its children\<close>

definition grow :: "outline \<Rightarrow> Node \<Rightarrow> Node" where
  "grow t parent =
     append_child (tree_of (if header t = [] then role_at (node_Type parent) (planChildren parent)
                            else sub_role (header t)) t) parent"

fun timed :: "outline \<Rightarrow> bool" where
  "timed (Outline h b as ks) \<longleftrightarrow> hasTiming b \<or> list_ex timed ks"

text \<open>Neither the line of a node nor its attributes set its role or its sub-plan header.\<close>

definition unplaced :: "node_fields \<Rightarrow> string \<times> string" where
  "unplaced n = (ParentRel n, SubplanName n)"

lemma unplaced_upd [simp]:
  "unplaced (n\<lparr>Type := x\<rparr>) = unplaced n" "unplaced (n\<lparr>Relation := x\<rparr>) = unplaced n"
  "unplaced (n\<lparr>node_Schema := x\<rparr>) = unplaced n" "unplaced (n\<lparr>Alias := x\<rparr>) = unplaced n"
  "unplaced (n\<lparr>IndexName := x\<rparr>) = unplaced n" "unplaced (n\<lparr>Parallel := p\<rparr>) = unplaced n"
  "unplaced (n\<lparr>PartialMode := x\<rparr>) = unplaced n" "unplaced (n\<lparr>Strategy := x\<rparr>) = unplaced n"
  "unplaced (n\<lparr>JoinType := x\<rparr>) = unplaced n" "unplaced (n\<lparr>ScanDirection := x\<rparr>) = unplaced n"
  "unplaced (n\<lparr>Operation := x\<rparr>) = unplaced n" "unplaced (n\<lparr>StartupCost := y\<rparr>) = unplaced n"
  "unplaced (n\<lparr>TotalCost := y\<rparr>) = unplaced n" "unplaced (n\<lparr>PlanRows := y\<rparr>) = unplaced n"
  "unplaced (n\<lparr>PlanWidth := i\<rparr>) = unplaced n" "unplaced (n\<lparr>node_Actual := a\<rparr>) = unplaced n"
  "unplaced (n\<lparr>HeapBlocksExact := o1\<rparr>) = unplaced n" "unplaced (n\<lparr>HeapBlocksLossy := o1\<rparr>) = unplaced n"
  "unplaced (n\<lparr>SortMethod := x\<rparr>) = unplaced n" "unplaced (n\<lparr>SortSpaceKB := o1\<rparr>) = unplaced n"
  "unplaced (n\<lparr>SortSpaceType := x\<rparr>) = unplaced n" "unplaced (n\<lparr>Filter := x\<rparr>) = unplaced n"
  "unplaced (n\<lparr>IndexCond := x\<rparr>) = unplaced n" "unplaced (n\<lparr>RecheckCond := x\<rparr>) = unplaced n"
  "unplaced (n\<lparr>HashCond := x\<rparr>) = unplaced n" "unplaced (n\<lparr>MergeCond := x\<rparr>) = unplaced n"
  "unplaced (n\<lparr>JoinFilter := x\<rparr>) = unplaced n" "unplaced (n\<lparr>SortKey := l\<rparr>) = unplaced n"
  "unplaced (n\<lparr>RowsRemovedByFilter := o1\<rparr>) = unplaced n" "unplaced (n\<lparr>RowsRemovedByJoinFilter := o1\<rparr>) = unplaced n"
  "unplaced (n\<lparr>HeapFetches := o1\<rparr>) = unplaced n" "unplaced (n\<lparr>WorkersPlanned := o2\<rparr>) = unplaced n"
  "unplaced (n\<lparr>WorkersLaunched := o2\<rparr>) = unplaced n" "unplaced (n\<lparr>node_Buffers := o3\<rparr>) = unplaced n"
  by (simp_all add: unplaced_def)

lemma parseOnClause_unplaced [simp]: "unplaced (parseOnClause s n) = unplaced n"
  by (simp add: parseOnClause_def Let_def split: list.splits prod.splits)

lemma label_unplaced:
  "unplaced (snd (label_prefixes l n)) = unplaced n" "unplaced (snd (label_clauses l n)) = unplaced n"
  by (simp_all add: label_prefixes_def label_clauses_def Let_def split: option.splits prod.splits)

lemma normalizeType_unplaced [simp]: "unplaced (normalizeType l n) = unplaced n"
  by (simp add: normalizeType_def split: option.splits prod.splits)

lemma parseLabel_unplaced [simp]: "unplaced (parseLabel l n) = unplaced n"
  using label_unplaced(1) [of "TrimSpace l" n] label_unplaced(2)
  by (auto simp: parseLabel_def Let_def split_beta)

lemma node_of_unplaced: "ParentRel (node_of b) = []" "SubplanName (node_of b) = []"
proof -
  have "unplaced (line_actual b n) = unplaced n" "unplaced (line_costs b n) = unplaced n" for n
    by (simp_all add: line_actual_def line_costs_def split: option.splits)
  then have "unplaced (node_of b) = unplaced zero_fields"
    by (simp add: node_of_def matchNodeLine_def split: option.splits)
  then show "ParentRel (node_of b) = []" "SubplanName (node_of b) = []"
    by (simp_all add: unplaced_def zero_fields_def)
qed

lemma setTextAttr_unplaced [simp]: "unplaced (setTextAttr n k v raw) = unplaced n"
proof -
  have "unplaced (fold set_heap_part ps n) = unplaced n" for ps n
    by (induction ps arbitrary: n) (simp_all add: set_heap_part_def split: option.splits prod.splits)
  then show ?thesis
    by (simp add: setTextAttr_def setSortMethod_def setHeapBlocks_def split: option.splits prod.splits)
qed

lemma set_attrs_SubplanName: "SubplanName (fold set_attr as n) = SubplanName n"
proof -
  have "unplaced (fold set_attr as n) = unplaced n"
    by (induction as arbitrary: n) (simp_all add: set_attr_def split: option.splits prod.splits)
  then show ?thesis by (simp add: unplaced_def)
qed

lemma tree_of_header: "SubplanName (own (tree_of role t)) = header t"
  by (cases t) (simp add: Let_def set_attrs_SubplanName)

lemma place_child_role:
  "place_child h (node_of b) p = (node_of b)\<lparr>ParentRel := (if h = [] then role_at (node_Type p) (planChildren p)
     else sub_role h), SubplanName := h\<rparr>"
proof -
  have "n\<lparr>ParentRel := x\<rparr> = n\<lparr>ParentRel := x, SubplanName := []\<rparr>" if "SubplanName n = []" for x and n :: node_fields
    using that by (cases n) simp
  then show ?thesis
    using node_of_unplaced(2) [of b]
    by (simp add: place_child_def childRole_def role_at_def member_type_def subplanRole_def sub_role_def HasPrefix_def
        RelMember_def RelSubquery_def RelOuter_def RelInner_def RelInitPlan_def RelSubPlan_def)
qed

lemma grow_Node:
  "grow k (Node f cs) =
     Node f (cs @ [tree_of (if header k = [] then role_at (Type f) (planChildren (Node f cs)) else sub_role (header k)) k])"
  by (simp add: grow_def append_child_def)

lemma grow_all: "foldl (\<lambda>n k. grow k n) (Node f cs) ks = Node f (cs @ trees_of (Type f) (planChildren (Node f cs)) ks)"
  by (induction ks arbitrary: cs) (simp_all add: grow_Node planChildren_def tree_of_header)

section \<open>The lines of an outline rebuild its tree\<close>

text \<open>
  The stack seen from column \<open>d\<close>: frames of this column or beyond on top of a base whose
  top frame is to the left of it. Reading a sub-layout of column \<open>d\<close> changes the plan by
  \<open>g\<close> and keeps the base.
\<close>

definition seen_from :: "nat \<Rightarrow> textFrame list \<Rightarrow> text_state \<Rightarrow> bool" where
  "seen_from d base st \<longleftrightarrow> in_tree st \<and> base \<noteq> [] \<and> fr_indent (hd base) < int d
     \<and> (\<exists>extra. ts_stack st = extra @ base \<and> (\<forall>f\<in>set extra. int d \<le> fr_indent f))"

definition stepped :: "text_state \<Rightarrow> QueryPlan \<Rightarrow> textFrame list \<Rightarrow> text_state" where
  "stepped st p stack = \<lparr>ts_plan = p, ts_stack = stack, ts_pending = [], ts_inTail = ts_inTail st\<rparr>"

lemma stepped_simps [simp]:
  "ts_plan (stepped st p s) = p" "ts_stack (stepped st p s) = s" "ts_pending (stepped st p s) = []"
  "ts_inTail (stepped st p s) = ts_inTail st" "stepped (stepped st p s) p' s' = stepped st p' s'"
  "stepped (st\<lparr>ts_pending := h, ts_stack := s\<rparr>) p' s' = stepped st p' s'"
  by (simp_all add: stepped_def)

lemma stepped_upd:
  "st\<lparr>ts_plan := p, ts_stack := s, ts_pending := []\<rparr> = stepped st p s"
  "ts_pending st = [] \<Longrightarrow> st\<lparr>ts_plan := p, ts_stack := s\<rparr> = stepped st p s"
  "ts_pending st = [] \<Longrightarrow> stepped st (ts_plan st) (ts_stack st) = st"
  by (cases st; simp add: stepped_def)+

definition reads :: "nat \<Rightarrow> string list \<Rightarrow> textFrame list \<Rightarrow> text_state \<Rightarrow> (QueryPlan \<Rightarrow> QueryPlan) \<Rightarrow> bool" where
  "reads d ls base st g \<longleftrightarrow>
     (\<exists>stack. fold (text_line 0) ls st = stepped st (g (ts_plan st)) stack
        \<and> seen_from d base (stepped st (g (ts_plan st)) stack))"

lemma seen_from_pop: "seen_from d base st \<Longrightarrow> pop_frames (int d) (ts_stack st) = base"
  unfolding seen_from_def using pop_frames_base by auto

lemma reads_append:
  assumes "reads d ls base st g" and "\<And>st. seen_from d base st \<Longrightarrow> reads d ls' base st h"
  shows "reads d (ls @ ls') base st (\<lambda>p. h (g p))"
proof -
  obtain stack where s: "fold (text_line 0) ls st = stepped st (g (ts_plan st)) stack"
    "seen_from d base (stepped st (g (ts_plan st)) stack)"
    using assms(1) by (auto simp: reads_def)
  from assms(2) [OF s(2)] show ?thesis unfolding reads_def by (auto simp: s(1))
qed

definition rebuilds :: "outline \<Rightarrow> bool" where
  "rebuilds t \<longleftrightarrow> (\<forall>d base st. seen_from d base st \<longrightarrow>
     reads d (sub_layout d t) base st (\<lambda>p. set_timing (timed t) (upd_root (length base - 1) (grow t) p)))"

lemma reads_kids:
  assumes "list_all rebuilds ks" and "seen_from d base st"
  shows "reads d (sub_layouts d ks) base st
     (\<lambda>p. set_timing (list_ex timed ks) (upd_root (length base - 1) (\<lambda>n. foldl (\<lambda>n k. grow k n) n ks) p))"
  using assms
proof (induction ks arbitrary: st)
  case Nil
  have "upd_last j (\<lambda>n. n) m = m" for j m
    by (induction j "\<lambda>n :: Node. n" m rule: upd_last.induct) auto
  then show ?case
    unfolding reads_def using Nil(2) by (intro exI [of _ "ts_stack st"])
      (simp add: set_timing_def upd_root_def stepped_upd(3) seen_from_def in_tree_def)
next
  case (Cons k ks)
  have "reads d (sub_layout d k @ sub_layouts d ks) base st
    (\<lambda>p. set_timing (list_ex timed ks) (upd_root (length base - 1) (\<lambda>n. foldl (\<lambda>n k. grow k n) n ks)
       (set_timing (timed k) (upd_root (length base - 1) (grow k) p))))"
    by (rule reads_append) (use Cons in \<open>auto simp: rebuilds_def\<close>)
  then show ?case by (simp add: upd_root_simps disj_commute)
qed

text \<open>The line of a node with its attributes and children, once its header has been read.\<close>

lemma reads_node:
  assumes IH: "list_all rebuilds ks" and ok: "body_ok b" "list_all attr_ok as"
    and st: "\<not> ts_inTail st" "ts_pending st = h" "pop_frames (int a) (ts_stack st) = base"
      "base \<noteq> []" "fr_indent (hd base) < int d" "d \<le> a"
  shows "\<exists>stack. fold (text_line 0) ((blanks a @ ''->  '' @ b) # map (\<lambda>x. blanks (a + 6) @ x) as @ sub_layouts (a + 6) ks) st =
       stepped st (set_timing (hasTiming b \<or> list_ex timed ks)
             (upd_root (length base - 1) (grow (Outline h b as ks)) (ts_plan st))) (stack @ base)
     \<and> (\<forall>f\<in>set stack. int d \<le> fr_indent f)"
proof -
  obtain j where j: "length base = Suc j" using st(4) by (cases base) auto
  define place where "place p = place_child h (node_of b) p" for p
  define st1 where "st1 = text_line 0 (blanks a @ ''->  '' @ b) st"
  have st1: "st1 = stepped st (set_timing (hasTiming b) (upd_root j (\<lambda>p. append_child (Node (place p) []) p) (ts_plan st)))
       (new_frame (int a) # base)"
    unfolding st1_def place_def using node_line_text [OF ok(1) st(1,3), of 0] by (simp add: j st(2) stepped_upd)
  define st2 where "st2 = fold (text_line 0) (map (\<lambda>x. blanks (a + 6) @ x) as) st1"
  obtain f where f: "fr_indent f = int a"
    "st2 = stepped st (upd_root (length base) (on_fields (fold set_attr as)) (ts_plan st1)) (f # base)"
    using attr_lines [OF ok(2), of st1 0 "a + 6" "new_frame (int a)" base] st(1)
    by (auto simp: st2_def st1 new_frame_def stepped_upd(2))
  have seen: "seen_from (a + 6) (f # base) st2"
    using st(1) by (auto simp: seen_from_def in_tree_def f)
  have st2: "ts_plan st2 = set_timing (hasTiming b) (upd_root j (\<lambda>p. append_child (Node (fold set_attr as (place p)) []) p) (ts_plan st))"
    by (simp add: f st1 upd_root_simps j on_fields_simps)
  obtain stack where kids: "fold (text_line 0) (sub_layouts (a + 6) ks) st2 =
      stepped st2 (set_timing (list_ex timed ks) (upd_root (length base) (\<lambda>n. foldl (\<lambda>n k. grow k n) n ks) (ts_plan st2)))
        (stack @ f # base)" and stack: "\<forall>g\<in>set stack. int (a + 6) \<le> fr_indent g"
    using reads_kids [OF IH seen] by (auto simp: reads_def seen_from_def)
  have grown: "append_child (foldl (\<lambda>n k. grow k n) (Node (fold set_attr as (place p)) []) ks) p = grow (Outline h b as ks) p" for p
    unfolding grow_all by (simp add: grow_def place_def place_child_role planChildren_def Let_def)
  have "fold (text_line 0) (sub_layouts (a + 6) ks) st2 = stepped st
      (set_timing (hasTiming b \<or> list_ex timed ks) (upd_root j (grow (Outline h b as ks)) (ts_plan st))) ((stack @ [f]) @ base)"
    unfolding kids st2 by (simp add: f(2) upd_root_simps j grown disj_commute)
  moreover have "\<forall>g\<in>set (stack @ [f]). int d \<le> fr_indent g" using f(1) stack st(6) by auto
  moreover have "fold (text_line 0) ((blanks a @ ''->  '' @ b) # map (\<lambda>x. blanks (a + 6) @ x) as @ sub_layouts (a + 6) ks) st
      = fold (text_line 0) (sub_layouts (a + 6) ks) st2"
    unfolding st2_def st1_def by (simp only: fold_append fold_simps o_apply)
  ultimately show ?thesis by (metis j diff_Suc_1)
qed

lemma outline_rebuilds: "outline_ok t \<Longrightarrow> rebuilds t"
proof (induction t)
  case (Outline h b as ks)
  have ok: "h = [] \<or> header_ok h" "body_ok b" "list_all attr_ok as" and IH: "list_all rebuilds ks"
    using Outline by (auto simp: list_all_iff)
  have "reads d (sub_layout d (Outline h b as ks)) base st
      (\<lambda>p. set_timing (timed (Outline h b as ks)) (upd_root (length base - 1) (grow (Outline h b as ks)) p))"
    if seen: "seen_from d base st" for d base st
  proof -
    have s: "\<not> ts_inTail st" "ts_pending st = []" "base \<noteq> []" "fr_indent (hd base) < int d"
      using seen by (auto simp: seen_from_def in_tree_def)
    note pop = seen_from_pop [OF seen]
    show ?thesis
    proof (cases "h = []")
      case True
      then show ?thesis
        using reads_node [OF IH ok(2,3) s(1,2) pop s(3,4) order_refl] s
        by (auto simp: reads_def Let_def seen_from_def in_tree_def)
    next
      case False
      define st1 where "st1 = st\<lparr>ts_pending := h, ts_stack := base\<rparr>"
      have l: "text_line 0 (blanks d @ h) st = st1"
        unfolding st1_def using header_line ok(1) False s(1) pop by blast
      have st1: "\<not> ts_inTail st1" "ts_pending st1 = h" "pop_frames (int (d + 2)) (ts_stack st1) = base"
        using pop_frames_base [of "[]" "int (d + 2)" base] s by (simp_all add: st1_def)
      have "d \<le> d + 2" by simp
      from reads_node [OF IH ok(2,3) st1 s(3,4) this] show ?thesis
        using s False by (auto simp: reads_def Let_def seen_from_def in_tree_def l) (auto simp: st1_def)
    qed
  qed
  then show ?case by (simp add: rebuilds_def)
qed

section \<open>Texts and lines\<close>

lemma Cut_absent: "c \<notin> set s \<Longrightarrow> Cut s (c # p) = None"
  by (induction s) auto

lemma Split_Join:
  assumes "ls \<noteq> []" and "\<forall>l\<in>set ls. sep \<notin> set l"
  shows "Split (Join ls [sep]) sep = ls"
proof -
  have one: "Split l sep = [l]" "Split (l @ sep # r) sep = l # Split r sep" if "sep \<notin> set l" for l r
    using that by (induction l) auto
  show ?thesis
    using assms by (induction ls "[sep]" rule: Join.induct) (auto simp: one)
qed

lemma set_Join: "set (Join ls sep) \<subseteq> \<Union> (set ` set ls) \<union> set sep"
  by (induction ls sep rule: Join.induct) auto

lemma last_Join: "ls \<noteq> [] \<Longrightarrow> last ls \<noteq> [] \<Longrightarrow> Join ls sep \<noteq> [] \<and> last (Join ls sep) = last (last ls)"
  by (induction ls sep rule: Join.induct) auto

definition line_ok :: "string \<Rightarrow> bool" where
  "line_ok l \<longleftrightarrow> l \<noteq> [] \<and> CHR 0x0A \<notin> set l \<and> CHR 0x0D \<notin> set l"

lemma splitLines_Join:
  assumes "ls \<noteq> []" and "list_all line_ok ls"
  shows "splitLines (Join ls [CHR 0x0A]) = ls"
proof -
  let ?s = "Join ls [CHR 0x0A]"
  have cr: "CHR 0x0D \<notin> set ?s" using set_Join [of ls "[CHR 0x0A]"] assms(2) by (auto simp: list_all_iff line_ok_def)
  have l: "line_ok (last ls)" using assms by (auto simp: list_all_iff)
  then have s: "?s \<noteq> []" "last ?s = last (last ls)" using last_Join [OF assms(1)] by (auto simp: line_ok_def)
  have "last ?s \<noteq> CHR 0x0A" unfolding s(2) using l by (metis last_in_set line_ok_def)
  then have trim: "TrimRight ?s {CHR 0x0A} = ?s"
    using s(1) by (cases ?s rule: rev_cases) (simp_all add: TrimRight_def)
  have "ReplaceAll ?s [CHR 0x0D, CHR 0x0A] [CHR 0x0A] = ?s"
    by (subst ReplaceAll.simps) (simp add: Cut_absent [OF cr])
  then show ?thesis
    unfolding splitLines_def using trim Split_Join [OF assms(1)] assms(2) by (simp add: list_all_iff line_ok_def)
qed

lemma plain_line: "plain s \<Longrightarrow> line_ok (blanks n @ s)" "plain s \<Longrightarrow> line_ok s"
    "plain s \<Longrightarrow> line_ok (blanks n @ ''->  '' @ s)"
  using set_blanks [of n] by (auto simp: plain_def line_ok_def)

lemma sub_layout_lines: "outline_ok t \<Longrightarrow> list_all line_ok (sub_layout d t)"
proof (induction t arbitrary: d)
  case (Outline h b as ks)
  have "list_all line_ok (sub_layouts e ks')" if "set ks' \<subseteq> set ks" for e ks'
    using that by (induction ks') (use Outline in \<open>auto simp: list_all_iff\<close>)
  then show ?case
    using Outline.prems plain_line
    by (auto simp: Let_def list_all_iff header_ok_def body_ok_def attr_ok_def)
qed

lemma layout_lines:
  assumes "outline_ok t"
  shows "list_all line_ok (layout t)"
proof (cases t)
  case (Outline h b as ks)
  have "list_all line_ok (sub_layouts e ks')" if "set ks' \<subseteq> set ks" for e ks'
    using that by (induction ks') (use assms Outline sub_layout_lines in \<open>auto simp: list_all_iff\<close>)
  then show ?thesis
    using assms Outline plain_line by (auto simp: layout_def list_all_iff body_ok_def attr_ok_def)
qed

lemma fill_caps_timing: "caps_Timing (fold fill_node ns c) = caps_Timing c"
  by (induction ns arbitrary: c) (auto simp: fill_node_def Let_def split_beta)

text \<open>The loop on the lines behind the root line, started as the parser starts it.\<close>

lemma loop_rebuilds:
  assumes "outline_ok (Outline [] b as ks)" and "Root p = Node (node_of b) []"
  defines "st \<equiv> \<lparr>ts_plan = set_timing (hasTiming b) p, ts_stack = [new_frame 0], ts_pending = [], ts_inTail = False\<rparr>"
  shows "ts_plan (fold (text_line 0) (map (\<lambda>x. blanks 2 @ x) as @ sub_layouts 2 ks) st) =
     set_timing (timed (Outline [] b as ks)) (p\<lparr>Root := tree_of [] (Outline [] b as ks)\<rparr>)"
proof -
  have ok: "list_all attr_ok as" "list_all rebuilds ks"
    using assms(1) outline_rebuilds by (auto simp: list_all_iff)
  define st1 where "st1 = fold (text_line 0) (map (\<lambda>x. blanks 2 @ x) as) st"
  obtain f where f: "fr_indent f = 0"
    "st1 = stepped st (upd_root 0 (on_fields (fold set_attr as)) (set_timing (hasTiming b) p)) [f]"
    using attr_lines [OF ok(1), of st 0 2 "new_frame 0" "[]"]
    by (auto simp: st1_def st_def new_frame_def stepped_upd(2))
  have seen: "seen_from 2 [f] st1" by (simp add: seen_from_def in_tree_def f st_def)
  have own: "node_of b\<lparr>ParentRel := [], SubplanName := []\<rparr> = node_of b"
    using node_of_unplaced [of b] by (cases "node_of b") simp
  have "ts_plan (fold (text_line 0) (sub_layouts 2 ks) st1) =
      set_timing (list_ex timed ks) (upd_root 0 (\<lambda>n. foldl (\<lambda>n k. grow k n) n ks) (ts_plan st1))"
    using reads_kids [OF ok(2) seen] by (auto simp: reads_def)
  also have "\<dots> = set_timing (timed (Outline [] b as ks)) (p\<lparr>Root := tree_of [] (Outline [] b as ks)\<rparr>)"
    by (simp add: f(2) upd_root_simps disj_commute)
      (simp add: upd_root_def assms(2) on_fields_simps grow_all own planChildren_def Let_def set_timing_def)
  finally show ?thesis by (simp add: st1_def)
qed

text \<open>
  C17: reading the indented layout of a plan gives back its tree. For every outline of nodes
  whose lines the printer can produce, parsing the printed text succeeds, and the root of the
  parsed plan is the tree of the outline: every node under its parent and in order, with the
  label, estimates and measurements of its own line, its own attributes, the role its position
  gives it (sub-plans take no position) and the header of a sub-plan. The plan counts as timed
  exactly when some node line carries times.
\<close>

theorem text_layout_roundtrip:
  assumes "outline_ok t" and "header t = []"
  shows "\<exists>p. ParseText (Join (layout t) [CHR 0x0A]) src = Inr p \<and> Root p = tree_of [] t
     \<and> caps_Timing (Caps p) = timed t"
proof -
  obtain b as ks where t: "t = Outline [] b as ks" using assms(2) by (cases t) auto
  have b: "plain b" "matchNodeLine b = Some (node_of b)" using assms(1) by (auto simp: t body_ok_def node_of_def)
  have ls: "splitLines (Join (layout t) [CHR 0x0A]) = b # map (\<lambda>x. blanks 2 @ x) as @ sub_layouts 2 ks"
    using splitLines_Join [OF _ layout_lines [OF assms(1)]] by (simp add: layout_def t)
  have i: "nodeIndent b = 0" using indent_simps(1) [OF plainD(1,2) [OF b(1)], of 0] by (simp add: blanks_def)
  let ?p = "(zero_Plan src FormatText)\<lparr>QueryParams := [], QueryText := TrimRight (Join [] [CHR 0x0A]) {CHR '' '', CHR 0x0A},
    Root := Node (node_of b) []\<rparr>"
  have "ParseText (Join (layout t) [CHR 0x0A]) src = Inr (fillTextCaps (set_timing (timed t) (?p\<lparr>Root := tree_of [] t\<rparr>)))"
    unfolding ParseText_def ls using loop_rebuilds [of b as ks ?p] assms(1) by (simp add: b i t)
  then show ?thesis
    by (simp add: fillTextCaps_def Let_def fill_caps_timing set_timing_def zero_Plan_def zero_Capabilities_def)
qed

definition demo_outline :: outline where
  "demo_outline =
     Outline [] ''Hash Join  (cost=1.00..2.50 rows=10 width=4)'' [''Hash Cond: (a.id = b.id)'']
       [Outline ''InitPlan 1 (returns $0)'' ''Result  (cost=0.00..0.01 rows=1 width=4)'' [] [],
        Outline [] ''Seq Scan on a  (cost=0.00..1.00 rows=10 width=4)'' [''Filter: (x = 1)''] [],
        Outline [] ''Hash  (cost=0.00..1.00 rows=10 width=4)'' []
          [Outline [] ''Seq Scan on b  (cost=0.00..1.00 rows=10 width=4)'' [] []]]"

lemma demo_outline_ok: "outline_ok demo_outline"
  by code_simp

theorem text_layout_roundtrip_witness:
  "\<exists>p. ParseText (Join (layout demo_outline) [CHR 0x0A]) SourceLog = Inr p
     \<and> map (\<lambda>c. (node_Type c, ParentRel (own c), length (Children c))) (Children (Root p))
         = [(''Result'', ''InitPlan'', 0), (''Seq Scan'', ''Outer'', 0), (''Hash'', ''Inner'', 1)]"
proof -
  obtain p where p: "ParseText (Join (layout demo_outline) [CHR 0x0A]) SourceLog = Inr p"
    and r: "Root p = tree_of [] demo_outline"
    using text_layout_roundtrip [OF demo_outline_ok, of SourceLog] by (auto simp: demo_outline_def)
  have "map (\<lambda>c. (node_Type c, ParentRel (own c), length (Children c))) (Children (tree_of [] demo_outline))
      = [(''Result'', ''InitPlan'', 0), (''Seq Scan'', ''Outer'', 0), (''Hash'', ''Inner'', 1)]"
    by code_simp
  then show ?thesis using p r by auto
qed

end
