(* ===== verification/Explain_Idents.thy ===== *)
theory Explain_Idents
  imports Explain_Text
begin

text \<open>
  Identifiers in node labels: what PostgreSQL's \<^verbatim>\<open>quote_identifier\<close> prints, the
  label parser reads back.
\<close>

section \<open>Printed identifiers\<close>

definition double_quotes :: "string \<Rightarrow> string" where
  "double_quotes s = concat (map (\<lambda>c. if c = quote_char then [c, c] else [c]) s)"

text \<open>The characters an identifier may have to be printed without quotes.\<close>

definition safe_char :: "char \<Rightarrow> bool" where
  "safe_char c \<longleftrightarrow> is_digit c \<or> c = CHR ''_'' \<or> (97 :: nat) \<le> of_char c \<and> of_char c \<le> (122 :: nat)"

definition print_ident :: "string \<Rightarrow> string" where
  "print_ident s =
     (if s \<noteq> [] \<and> list_all safe_char s then s else [quote_char] @ double_quotes s @ [quote_char])"

lemma double_quotes_simps [simp]:
  "double_quotes [] = []"
  "double_quotes (c # s) = (if c = quote_char then c # c # double_quotes s else c # double_quotes s)"
  by (simp_all add: double_quotes_def)

lemma safe_char_not: "safe_char c \<Longrightarrow> c \<noteq> quote_char \<and> c \<noteq> CHR ''.'' \<and> \<not> is_blank c"
  by (auto simp: safe_char_def is_digit_def is_blank_def)

lemma Cut_double:
  "Cut (double_quotes s) [quote_char, quote_char] =
     (if quote_char \<in> set s
      then Some (takeWhile (\<lambda>c. c \<noteq> quote_char) s, double_quotes (tl (dropWhile (\<lambda>c. c \<noteq> quote_char) s))) else None)"
  by (induction s) auto

lemma undouble: "ReplaceAll (double_quotes s) [quote_char, quote_char] [quote_char] = s"
proof (induction "length s" arbitrary: s rule: less_induct)
  case less
  show ?case
  proof (cases "quote_char \<in> set s")
    case False
    then have "double_quotes s = s" by (induction s) auto
    moreover have "Cut (double_quotes s) [quote_char, quote_char] = None" using False by (simp add: Cut_double)
    ultimately show ?thesis by (subst ReplaceAll.simps) simp
  next
    case True
    let ?d = "dropWhile (\<lambda>c. c \<noteq> quote_char) s"
    have d: "?d = quote_char # tl ?d"
      using True by (induction s) auto
    then have "s = takeWhile (\<lambda>c. c \<noteq> quote_char) s @ quote_char # tl ?d"
      by (metis takeWhile_dropWhile_id)
    moreover from this have "length (tl ?d) < length s"
      by (metis length_append length_Cons less_add_Suc2 add_Suc_right)
    then have "ReplaceAll (double_quotes (tl ?d)) [quote_char, quote_char] [quote_char] = tl ?d" by (rule less)
    ultimately show ?thesis
      using True by (subst ReplaceAll.simps) (simp add: Cut_double)
  qed
qed

lemma unquote_print [simp]: "unquoteIdent (print_ident s) = s"
proof (cases "s \<noteq> [] \<and> list_all safe_char s")
  case True
  then have "hd s \<noteq> quote_char" by (cases s) (auto dest: safe_char_not)
  then show ?thesis using True by (simp add: print_ident_def unquoteIdent_def)
next
  case False
  then show ?thesis using undouble [of s] by (auto simp: print_ident_def unquoteIdent_def)
qed

section \<open>The relation clause\<close>

text \<open>A printed identifier is one token, with the quotes closed again behind it.\<close>

lemma split_idents_print:
  "split_idents (print_ident s @ r) out token False = split_idents r out (token @ print_ident s) False"
proof (cases "s \<noteq> [] \<and> list_all safe_char s")
  case True
  have "list_all safe_char u \<Longrightarrow> split_idents (u @ r) out token False = split_idents r out (token @ u) False" for u
    by (induction u arbitrary: token) (auto dest!: safe_char_not simp: is_blank_def)
  then show ?thesis using True by (simp add: print_ident_def)
next
  case False
  have "split_idents (double_quotes u @ r') out token True = split_idents r' out (token @ double_quotes u) True" for u r' token
    by (induction u arbitrary: token) auto
  then show ?thesis using False by (auto simp: print_ident_def)
qed

lemma split_qualified_print:
  "split_qualified pre (print_ident s @ r) False = split_qualified (pre @ print_ident s) r False"
proof (cases "s \<noteq> [] \<and> list_all safe_char s")
  case True
  have "list_all safe_char u \<Longrightarrow> split_qualified pre (u @ r) False = split_qualified (pre @ u) r False" for u
    by (induction u arbitrary: pre) (auto dest!: safe_char_not)
  then show ?thesis using True by (simp add: print_ident_def)
next
  case False
  have "split_qualified pre (double_quotes u @ r') True = split_qualified (pre @ double_quotes u) r' True" for u r' pre
    by (induction u arbitrary: pre) auto
  then show ?thesis using False by (auto simp: print_ident_def)
qed

lemma print_ident_not_empty [simp]: "print_ident s \<noteq> []"
  by (simp add: print_ident_def)

definition print_relation :: "string \<Rightarrow> string \<Rightarrow> string \<Rightarrow> string" where
  "print_relation s r a = print_ident s @ ''.'' @ print_ident r @ '' '' @ print_ident a"

lemma parseOnClause_print:
  "parseOnClause (print_relation s r a) n =
     n\<lparr>node_Schema := s, Relation := r, Alias := (if a = r then Alias n else a)\<rparr>"
proof -
  have "splitIdents (print_relation s r a) = [print_ident s @ ''.'' @ print_ident r, print_ident a]"
    unfolding splitIdents_def print_relation_def
    using split_idents_print [of a "[]"] by (simp add: split_idents_print flush_token_def)
  moreover have "splitQualified (print_ident s @ ''.'' @ print_ident r) = (s, r)"
    unfolding splitQualified_def by (simp add: split_qualified_print)
  ultimately show ?thesis by (cases n) (simp add: parseOnClause_def Let_def)
qed

section \<open>Scan labels\<close>

lemma Cut_first:
  assumes "\<not> Contains (x @ butlast sep) sep" and "sep \<noteq> []"
  shows "Cut (x @ sep @ y) sep = Some (x, y)"
  using assms(1)
proof (induction x)
  case Nil
  obtain c t where "sep = c # t" using assms(2) by (cases sep) auto
  then show ?case by simp
next
  case (Cons c x)
  have "\<not> prefix sep (c # x @ butlast sep)"
    using Cons.prems by (auto simp: Contains_def)
  moreover have "prefix sep (c # x @ butlast sep)" if "prefix sep (c # x @ sep @ y)"
  proof (rule prefix_length_prefix [OF that])
    have "sep @ y = butlast sep @ last sep # y" using assms(2) by simp
    then have "c # x @ sep @ y = (c # x @ butlast sep) @ last sep # y" by simp
    then show "prefix (c # x @ butlast sep) (c # x @ sep @ y)" unfolding prefix_def by blast
    show "length sep \<le> length (c # x @ butlast sep)" by simp
  qed
  ultimately have "\<not> prefix sep (c # x @ sep @ y)" by blast
  moreover have "\<not> Contains (x @ butlast sep) sep"
    using Cons.prems by (auto simp: Contains_def split: if_splits)
  ultimately show ?case using Cons.IH by simp
qed

text \<open>The label PostgreSQL prints for an index scan.\<close>

definition index_scan_label :: "bool \<Rightarrow> string \<Rightarrow> bool \<Rightarrow> string \<Rightarrow> string \<Rightarrow> string \<Rightarrow> string \<Rightarrow> string" where
  "index_scan_label par kind backward i s r a =
     (if par then ''Parallel '' else []) @ kind @ (if backward then '' Backward'' else []) @
     '' using '' @ print_ident i @ '' on '' @ print_relation s r a"

lemma print_ident_last: "\<not> is_blank (last (print_ident s))"
proof (cases "s \<noteq> [] \<and> list_all safe_char s")
  case True
  then have "safe_char (last s)" by (auto simp: list_all_iff)
  then show ?thesis using True safe_char_not by (simp add: print_ident_def)
qed (auto simp: print_ident_def is_blank_def)

lemma TrimSpace_id: "s \<noteq> [] \<Longrightarrow> \<not> is_blank (hd s) \<Longrightarrow> \<not> is_blank (last s) \<Longrightarrow> TrimSpace s = s"
proof -
  assume "s \<noteq> []" "\<not> is_blank (hd s)" "\<not> is_blank (last s)"
  then have "dropWhile is_blank s = s" "dropWhile is_blank (rev s) = rev s"
    by (simp_all add: dropWhile_eq_self_iff hd_rev)
  then show ?thesis by (simp add: TrimSpace_def)
qed

lemma scan_types:
  "trimSetOpCommand ''Index Scan'' = ''Index Scan''" "trimSetOpCommand ''Index Only Scan'' = ''Index Only Scan''"
  "CutSuffix ''Index Scan'' '' Join'' = None" "CutSuffix ''Index Only Scan'' '' Join'' = None"
  by code_simp+

text \<open>
  The label of an index scan is read back exactly. Whatever the names of the index, the
  schema, the relation and the alias are, quoted or not, parsing the printed label gives the
  scan type, parallelism, direction and all four names, the alias only where it differs from the
  relation. The one condition is that the word \<^verbatim>\<open>on\<close> between blanks does not
  occur before the relation clause, since the parser cuts there without looking at quotes.
\<close>

theorem index_scan_label_roundtrip:
  assumes "kind = ''Index Scan'' \<or> kind = ''Index Only Scan''"
    and "\<not> Contains ('' using '' @ print_ident i @ '' on'') '' on ''"
  shows "parseLabel (index_scan_label par kind backward i s r a) zero_fields =
    zero_fields\<lparr>Type := kind, Parallel := par, ScanDirection := (if backward then ''Backward'' else ''Forward''),
      IndexName := i, node_Schema := s, Relation := r, Alias := (if a = r then [] else a)\<rparr>"
proof -
  define k where "k = kind @ (if backward then '' Backward'' else [])"
  let ?rel = "print_relation s r a"
  have t: "TrimSpace (index_scan_label par kind backward i s r a) = index_scan_label par kind backward i s r a"
    by (rule TrimSpace_id)
      (use assms(1) print_ident_last [of a] in \<open>auto simp: index_scan_label_def print_relation_def is_blank_def\<close>)
  have pre: "label_prefixes (index_scan_label par kind backward i s r a) zero_fields =
      (k @ '' using '' @ print_ident i @ '' on '' @ ?rel, zero_fields\<lparr>Parallel := par\<rparr>)"
    using assms(1) by (auto simp: k_def label_prefixes_def index_scan_label_def CutPrefix_def TrimPrefix_def HasPrefix_def zero_fields_def)
  have c: "\<not> Contains ((k @ '' using '' @ print_ident i) @ butlast '' on '') '' on ''"
    using assms by (auto simp: k_def Contains_def)
  have on: "Cut (k @ '' using '' @ print_ident i @ '' on '' @ ?rel) '' on '' = Some (k @ '' using '' @ print_ident i, ?rel)"
    using Cut_first [OF c, of ?rel] by simp
  have u: "\<not> Contains (k @ butlast '' using '') '' using ''" using assms(1) by (auto simp: k_def Contains_def)
  have us: "Cut (k @ '' using '' @ print_ident i) '' using '' = Some (k, print_ident i)"
    using Cut_first [OF u, of "print_ident i"] by simp
  have bw: "CutSuffix k '' Backward'' = (if backward then Some kind else None)"
    using assms(1) by (auto simp: k_def CutSuffix_def HasSuffix_def suffix_to_prefix)
  have cl: "label_clauses (k @ '' using '' @ print_ident i @ '' on '' @ ?rel) (zero_fields\<lparr>Parallel := par\<rparr>) =
      (kind, zero_fields\<lparr>Parallel := par, ScanDirection := (if backward then ''Backward'' else []),
        IndexName := i, node_Schema := s, Relation := r, Alias := (if a = r then [] else a)\<rparr>)"
    unfolding label_clauses_def Let_def on option.case prod.case us bw parseOnClause_print unquote_print
    by (simp add: zero_fields_def k_def)
  have nt: "normalizeType (trimSetOpCommand kind) n = n\<lparr>Type := kind\<rparr>" for n
    using assms(1) scan_types by (elim disjE) (simp_all add: normalizeType_def)
  show ?thesis
    unfolding parseLabel_def t pre Let_def prod.case cl nt
    using assms(1) by (elim disjE) (simp_all add: aliasOnlyTypes_def zero_fields_def)
qed

theorem index_scan_label_witness:
  "Relation (parseLabel (index_scan_label True ''Index Scan'' True ''Orders pk'' ''Sales'' ''a.b'' ''o'') zero_fields) = ''a.b''
   \<and> IndexName (parseLabel (index_scan_label True ''Index Scan'' True ''Orders pk'' ''Sales'' ''a.b'' ''o'') zero_fields) = ''Orders pk''"
proof -
  have "\<not> Contains ('' using '' @ print_ident ''Orders pk'' @ '' on'') '' on ''" by code_simp
  from index_scan_label_roundtrip [OF _ this] show ?thesis by simp
qed

text \<open>An index whose quoted name holds the word breaks the reading of the relation.\<close>

lemma index_named_on_misread:
  "Relation (parseLabel (index_scan_label False ''Index Scan'' False ''a on b'' ''s'' ''t'' ''t'') zero_fields) \<noteq> ''t''"
  by code_simp

end
