(* ===== verification/Explain_JSON.thy ===== *)
theory Explain_JSON
  imports Explain_Text
begin

text \<open>
  The parser of the JSON format (\<^verbatim>\<open>parse_json.go\<close>) and the detection of the
  format (\<^verbatim>\<open>detect.go\<close>). Decoding a body into the structures with the JSON tags is
  \<^verbatim>\<open>encoding/json\<close> working by reflection: it is the parameter \<open>decoder\<close>, one
  operation for the array and one for the bare object; its error is the message. The values of
  the settings map are decoded to a string, a boolean, a number or something else, given by what
  \<^verbatim>\<open>json.Marshal\<close> makes of it.
\<close>

section \<open>Decoded structures\<close>

datatype json_any = JString string | JBool bool | JFloat f64 | JOther "string option"

record jsonTrigger =
  jt_Name :: string
  jt_Relation :: string
  jt_Time :: f64
  jt_Calls :: f64

record jsonJIT =
  jj_Functions :: i64
  jj_Generation :: "f64 option"
  jj_Inlining :: "f64 option"
  jj_Optimization :: "f64 option"
  jj_Emission :: "f64 option"
  jj_Total :: "f64 option"

record json_fields =
  j_NodeType :: string
  j_Strategy :: string
  j_PartialMode :: string
  j_Operation :: string
  j_JoinType :: string
  j_ScanDirection :: string
  j_ParentRel :: string
  j_SubplanName :: string
  j_ParallelAware :: bool
  j_Relation :: string
  j_Schema :: string
  j_Alias :: string
  j_IndexName :: string
  j_CTEName :: string
  j_FuncName :: string
  j_TableFunc :: string
  j_TupleName :: string
  j_StartupCost :: f64
  j_TotalCost :: f64
  j_PlanRows :: f64
  j_PlanWidth :: i64
  j_ActualStartupTime :: "f64 option"
  j_ActualTotalTime :: "f64 option"
  j_ActualRows :: "f64 option"
  j_ActualLoops :: "f64 option"
  j_Filter :: string
  j_OneTime :: string
  j_IndexCond :: string
  j_RecheckCond :: string
  j_HashCond :: string
  j_MergeCond :: string
  j_JoinFilter :: string
  j_TIDCond :: string
  j_SortKey :: "string list"
  j_RowsRemovedByFilter :: "f64 option"
  j_RowsRemovedByJoinFilter :: "f64 option"
  j_HeapFetches :: "f64 option"
  j_SortMethod :: string
  j_SortSpaceUsed :: "f64 option"
  j_SortSpaceType :: string
  j_WorkersPlanned :: "i64 option"
  j_WorkersLaunched :: "i64 option"
  j_ExactHeapBlocks :: "f64 option"
  j_LossyHeapBlocks :: "f64 option"
  j_SharedHit :: "f64 option"
  j_SharedRead :: "f64 option"
  j_SharedDirtied :: "f64 option"
  j_SharedWritten :: "f64 option"
  j_LocalHit :: "f64 option"
  j_LocalRead :: "f64 option"
  j_LocalDirtied :: "f64 option"
  j_LocalWritten :: "f64 option"
  j_TempRead :: "f64 option"
  j_TempWritten :: "f64 option"

datatype jsonNode = JNode (j_own: json_fields) (Plans: "jsonNode list")

record jsonPlan =
  jp_QueryText :: string
  jp_QueryParams :: string
  jp_QueryID :: "i64 option"
  jp_Plan :: "jsonNode option"
  jp_PlanningTime :: "f64 option"
  jp_ExecutionTime :: "f64 option"
  jp_Triggers :: "jsonTrigger list"
  jp_Settings :: "(string \<times> json_any) list"
  jp_JIT :: "jsonJIT option"

text \<open>\<^verbatim>\<open>json.Unmarshal\<close> and \<^verbatim>\<open>strconv.FormatFloat\<close> with the shortest precision.\<close>

record decoder =
  decode_list :: "string \<Rightarrow> string + jsonPlan list"
  decode_plan :: "string \<Rightarrow> string + jsonPlan"
  format_float :: "f64 \<Rightarrow> string"

section \<open>Nodes\<close>

definition deref :: "f64 option \<Rightarrow> f64" where
  "deref v = (case v of None \<Rightarrow> Fin 0 | Some x \<Rightarrow> x)"

definition normalizePartialMode :: "string \<Rightarrow> string" where
  "normalizePartialMode mode = (if mode = ''Simple'' then [] else mode)"

definition scanDirection :: "string \<Rightarrow> string" where
  "scanDirection s = (if s = ''NoMovement'' then ''Forward'' else s)"

fun firstNonEmpty :: "string list \<Rightarrow> string" where
  "firstNonEmpty [] = []"
| "firstNonEmpty (v # vs) = (if v \<noteq> [] then v else firstNonEmpty vs)"

definition jsonBuffers :: "json_fields \<Rightarrow> Buffers option" where
  "jsonBuffers j =
     (let fields =
        [j_SharedHit j, j_SharedRead j, j_SharedDirtied j, j_SharedWritten j, j_LocalHit j, j_LocalRead j,
         j_LocalDirtied j, j_LocalWritten j, j_TempRead j, j_TempWritten j]
      in if \<not> list_ex (\<lambda>f. f \<noteq> None \<and> f \<noteq> Some (Fin 0)) fields then None
         else Some
           \<lparr>SharedHit = deref (j_SharedHit j), SharedRead = deref (j_SharedRead j),
            SharedDirtied = deref (j_SharedDirtied j), SharedWritten = deref (j_SharedWritten j),
            LocalHit = deref (j_LocalHit j), LocalRead = deref (j_LocalRead j),
            LocalDirtied = deref (j_LocalDirtied j), LocalWritten = deref (j_LocalWritten j),
            TempRead = deref (j_TempRead j), TempWritten = deref (j_TempWritten j)\<rparr>)"

definition json_node :: "json_fields \<Rightarrow> node_fields" where
  "json_node j =
     \<lparr>Type = j_NodeType j, Relation = j_Relation j, node_Schema = j_Schema j, Alias = j_Alias j,
      IndexName = j_IndexName j, ParentRel = j_ParentRel j, SubplanName = j_SubplanName j,
      Parallel = j_ParallelAware j, PartialMode = normalizePartialMode (j_PartialMode j),
      Strategy = j_Strategy j, JoinType = j_JoinType j, ScanDirection = scanDirection (j_ScanDirection j),
      Operation = j_Operation j, StartupCost = j_StartupCost j, TotalCost = j_TotalCost j,
      PlanRows = j_PlanRows j, PlanWidth = j_PlanWidth j, node_Actual = None,
      Filter = firstNonEmpty [j_Filter j, j_OneTime j], IndexCond = firstNonEmpty [j_IndexCond j, j_TIDCond j],
      RecheckCond = j_RecheckCond j, HashCond = j_HashCond j, MergeCond = j_MergeCond j,
      JoinFilter = j_JoinFilter j, SortKey = j_SortKey j, RowsRemovedByFilter = j_RowsRemovedByFilter j,
      RowsRemovedByJoinFilter = j_RowsRemovedByJoinFilter j, HeapFetches = j_HeapFetches j,
      SortMethod = j_SortMethod j, SortSpaceKB = j_SortSpaceUsed j, SortSpaceType = j_SortSpaceType j,
      WorkersPlanned = j_WorkersPlanned j, WorkersLaunched = j_WorkersLaunched j,
      HeapBlocksExact = j_ExactHeapBlocks j, HeapBlocksLossy = j_LossyHeapBlocks j, node_Buffers = None\<rparr>"

definition json_names :: "json_fields \<Rightarrow> node_fields \<Rightarrow> node_fields" where
  "json_names j n =
     (let n = (if Relation n = []
               then n\<lparr>Relation := firstNonEmpty [j_CTEName j, j_FuncName j, j_TableFunc j, j_TupleName j]\<rparr> else n)
      in if Alias n = Relation n then n\<lparr>Alias := []\<rparr> else n)"

definition json_actual :: "json_fields \<Rightarrow> node_fields \<times> Capabilities \<Rightarrow> node_fields \<times> Capabilities" where
  "json_actual j = (\<lambda>(n, caps).
     case (j_ActualRows j, j_ActualLoops j) of
       (Some rows, Some loops) \<Rightarrow>
         (n\<lparr>node_Actual := Some \<lparr>StartupTime = deref (j_ActualStartupTime j), TotalTime = deref (j_ActualTotalTime j),
              act_Rows = rows, Loops = loops\<rparr>\<rparr>,
          (if j_ActualTotalTime j \<noteq> None then caps\<lparr>caps_Actual := True, caps_Timing := True\<rparr>
           else caps\<lparr>caps_Actual := True\<rparr>))
     | _ \<Rightarrow> (n, caps))"

definition json_buffers :: "json_fields \<Rightarrow> node_fields \<times> Capabilities \<Rightarrow> node_fields \<times> Capabilities" where
  "json_buffers j = (\<lambda>(n, caps).
     (n\<lparr>node_Buffers := jsonBuffers j\<rparr>,
      if jsonBuffers j \<noteq> None then caps\<lparr>caps_Buffers := True\<rparr> else caps))"

fun convertJSONNode :: "jsonNode \<Rightarrow> Capabilities \<Rightarrow> Node \<times> Capabilities"
and convert_plans :: "jsonNode list \<Rightarrow> Capabilities \<Rightarrow> Node list \<times> Capabilities" where
  "convertJSONNode (JNode j js) caps =
     (let (n, caps) = json_buffers j (json_actual j (json_names j (json_node j), caps));
          (children, caps) = convert_plans js caps
      in (Node n children, caps))"
| "convert_plans [] caps = ([], caps)"
| "convert_plans (j # js) caps =
     (let (n, caps) = convertJSONNode j caps; (ns, caps) = convert_plans js caps in (n # ns, caps))"

section \<open>The whole parser\<close>

definition settingString :: "decoder \<Rightarrow> json_any \<Rightarrow> string" where
  "settingString dec v =
     (case v of
        JString t \<Rightarrow> t
      | JBool t \<Rightarrow> if t then ''on'' else ''off''
      | JFloat t \<Rightarrow> format_float dec t
      | JOther b \<Rightarrow> (case b of None \<Rightarrow> [] | Some s \<Rightarrow> s))"

definition empty_plan_error :: explain_error where
  "empty_plan_error = \<lparr>err_Code = ''empty_plan'', err_Detail = []\<rparr>"

definition decode_body :: "decoder \<Rightarrow> string \<Rightarrow> explain_error + jsonPlan" where
  "decode_body dec trimmed =
     (if trimmed = [] then Inl empty_plan_error
      else if hd trimmed = CHR ''['' then
        (case decode_list dec trimmed of
           Inl e \<Rightarrow> Inl (parseErrorf (''json: '' @ e))
         | Inr [] \<Rightarrow> Inl empty_plan_error
         | Inr (raw # _) \<Rightarrow> Inr raw)
      else
        (case decode_plan dec trimmed of
           Inl e \<Rightarrow> Inl (parseErrorf (''json: '' @ e))
         | Inr raw \<Rightarrow> Inr raw))"

definition json_plan :: "decoder \<Rightarrow> jsonPlan \<Rightarrow> jsonNode \<Rightarrow> Source \<Rightarrow> QueryPlan" where
  "json_plan dec raw j src =
     (let (root, caps) = convertJSONNode j zero_Capabilities;
          settings = map (\<lambda>(k, v). (k, settingString dec v)) (jp_Settings raw)
      in (zero_Plan src FormatJSON)
           \<lparr>QueryText := jp_QueryText raw, QueryParams := jp_QueryParams raw, PlanningTime := jp_PlanningTime raw,
            ExecutionTime := jp_ExecutionTime raw, Root := root,
            QueryID := (case jp_QueryID raw of None \<Rightarrow> 0 | Some i \<Rightarrow> i), HasQueryID := jp_QueryID raw \<noteq> None,
            Triggers := map (\<lambda>t. \<lparr>trig_Name = jt_Name t, trig_Relation = jt_Relation t, trig_Time = jt_Time t,
              trig_Calls = jt_Calls t\<rparr>) (jp_Triggers raw),
            Settings := settings,
            plan_JIT := map_option (\<lambda>t. \<lparr>jit_Functions = jj_Functions t, Generation = jj_Generation t,
              Inlining = jj_Inlining t, Optimization = jj_Optimization t, Emission = jj_Emission t,
              jit_Total = jj_Total t\<rparr>) (jp_JIT raw),
            Caps := caps\<lparr>caps_Settings := settings \<noteq> [],
              caps_Timing := caps_Timing caps \<or> jp_ExecutionTime raw \<noteq> None\<rparr>\<rparr>)"

definition ParseJSON :: "decoder \<Rightarrow> string \<Rightarrow> Source \<Rightarrow> explain_error + QueryPlan" where
  "ParseJSON dec body src =
     (case decode_body dec (TrimSpace body) of
        Inl e \<Rightarrow> Inl e
      | Inr raw \<Rightarrow>
          (case jp_Plan raw of
             None \<Rightarrow> Inl (parseErrorf ''no Plan element'')
           | Some j \<Rightarrow> Inr (json_plan dec raw j src)))"

section \<open>The format\<close>

definition isYAML :: "string \<Rightarrow> bool" where
  "isYAML body \<longleftrightarrow>
     HasPrefix body (''Query Text: '' @ [quote_char])
     \<or> list_ex (\<lambda>line.
          (let line = TrimRight line {CHR 0x0D, CHR 0x0A}
           in \<not> (line = [] \<or> hd line = CHR '' '' \<or> hd line = CHR 0x09)
              \<and> TrimRight line {CHR '' ''} \<in> {''Plan:'', ''- Plan:''})) (Split body (CHR 0x0A))"

definition unsupported :: "string \<Rightarrow> explain_error" where
  "unsupported detail = \<lparr>err_Code = ''unsupported_plan_format'', err_Detail = detail\<rparr>"

definition DetectFormat :: "string \<Rightarrow> explain_error + Format" where
  "DetectFormat body =
     (let trimmed = TrimLeft body {CHR '' '', CHR 0x09, CHR 0x0D, CHR 0x0A}
      in if trimmed = [] then Inl empty_plan_error
         else if hd trimmed = CHR 0x7B \<or> hd trimmed = CHR ''['' then Inr FormatJSON
         else if hd trimmed = CHR ''<'' \<and> HasPrefix trimmed ''<explain'' then Inl (unsupported ''xml'')
         else if isYAML trimmed then Inl (unsupported ''yaml'')
         else Inr FormatText)"

definition ParsePlan :: "decoder \<Rightarrow> string \<Rightarrow> Source \<Rightarrow> explain_error + QueryPlan" where
  "ParsePlan dec body src =
     (case DetectFormat body of
        Inl e \<Rightarrow> Inl e
      | Inr FormatJSON \<Rightarrow> ParseJSON dec body src
      | Inr FormatText \<Rightarrow> ParseText body src)"

section \<open>What a parsed plan can back up\<close>

text \<open>Some node of the plan satisfies \<open>P\<close>.\<close>

definition some_node :: "(node_fields \<Rightarrow> bool) \<Rightarrow> QueryPlan \<Rightarrow> bool" where
  "some_node P p \<longleftrightarrow> list_ex (\<lambda>(path, n, parent). P (own n)) (eachNode p)"

abbreviation measured :: "node_fields \<Rightarrow> bool" where "measured f \<equiv> node_Actual f \<noteq> None"
abbreviation buffered :: "node_fields \<Rightarrow> bool" where "buffered f \<equiv> node_Buffers f \<noteq> None"

text \<open>The node took measurable time.\<close>

definition clocked :: "node_fields \<Rightarrow> bool" where
  "clocked f \<longleftrightarrow> (case node_Actual f of None \<Rightarrow> False | Some a \<Rightarrow> TotalTime a \<noteq> Fin 0)"

lemma listed_iff:
  "(\<exists>d\<in>set (map (\<lambda>r. \<lparr>dorm_Code = c r, Missing = h r\<rparr>) (filter (\<lambda>r. h r \<noteq> []) rs)). q \<in> set (Missing d)) \<longleftrightarrow>
     (\<exists>r\<in>set rs. q \<in> set (h r))"
  by (induction rs) auto

lemma dormant_for_want:
  "(\<exists>d\<in>set (snd (EvaluatePlan p ctx)). ''actual'' \<in> set (Missing d)) \<longleftrightarrow> \<not> caps_Actual (Caps p)"
  "(\<exists>d\<in>set (snd (EvaluatePlan p ctx)). ''timing'' \<in> set (Missing d)) \<longleftrightarrow> \<not> caps_Timing (Caps p)"
proof -
  have e: "snd (EvaluatePlan p ctx) = map (\<lambda>r. \<lparr>dorm_Code = Code r, Missing = missingFor (Requires r) (Caps p) (plan_context p ctx)\<rparr>)
      (filter (\<lambda>r. missingFor (Requires r) (Caps p) (plan_context p ctx) \<noteq> []) explain_registry)"
    by (simp add: EvaluatePlan_def Let_def run_rules)
  have m: "''actual'' \<in> set (missingFor req (Caps p) c) \<longleftrightarrow> ReqActual \<in> set req \<and> \<not> caps_Actual (Caps p)"
    "''timing'' \<in> set (missingFor req (Caps p) c) \<longleftrightarrow> ReqTiming \<in> set req \<and> \<not> caps_Timing (Caps p)" for req c
    by (auto simp: missingFor_def)
  have r: "\<exists>r\<in>set explain_registry. ReqActual \<in> set (Requires r)" "\<exists>r\<in>set explain_registry. ReqTiming \<in> set (Requires r)"
    by (simp_all add: explain_registry_def explain_rule_def)
  have d: "(\<exists>d\<in>set (snd (EvaluatePlan p ctx)). q \<in> set (Missing d)) \<longleftrightarrow>
      (\<exists>r\<in>set explain_registry. q \<in> set (missingFor (Requires r) (Caps p) (plan_context p ctx)))" for q
    unfolding e by (rule listed_iff)
  show "(\<exists>d\<in>set (snd (EvaluatePlan p ctx)). ''actual'' \<in> set (Missing d)) \<longleftrightarrow> \<not> caps_Actual (Caps p)"
    unfolding d m using r(1) by blast
  show "(\<exists>d\<in>set (snd (EvaluatePlan p ctx)). ''timing'' \<in> set (Missing d)) \<longleftrightarrow> \<not> caps_Timing (Caps p)"
    unfolding d m using r(2) by blast
qed

text \<open>
  The contract of a parser: the source is kept; measurements, buffers and settings are claimed
  exactly where the plan has them; timing is claimed wherever the plan has an execution time or a
  node with a time, and may be claimed beyond that, for a node whose printed time is zero.
\<close>

locale plan_parser =
  fixes parse :: "string \<Rightarrow> Source \<Rightarrow> explain_error + QueryPlan"
  assumes keeps_source: "parse body src = Inr p \<Longrightarrow> plan_Source p = src"
    and backs_actual: "parse body src = Inr p \<Longrightarrow> caps_Actual (Caps p) = some_node measured p"
    and backs_buffers: "parse body src = Inr p \<Longrightarrow> caps_Buffers (Caps p) = some_node buffered p"
    and backs_settings: "parse body src = Inr p \<Longrightarrow> caps_Settings (Caps p) = (Settings p \<noteq> [])"
    and backs_timing: "parse body src = Inr p \<Longrightarrow> ExecutionTime p \<noteq> None \<or> some_node clocked p \<Longrightarrow> caps_Timing (Caps p)"
begin

text \<open>A rule is dormant for lack of measurements exactly when no node has any.\<close>

lemma dormant_actual:
  assumes "parse body src = Inr p"
  shows "(\<exists>d\<in>set (snd (EvaluatePlan p ctx)). ''actual'' \<in> set (Missing d)) \<longleftrightarrow> \<not> some_node measured p"
  using dormant_for_want(1) [of p ctx] backs_actual [OF assms] by simp

end

fun any_node :: "(node_fields \<Rightarrow> bool) \<Rightarrow> Node \<Rightarrow> bool"
and any_nodes :: "(node_fields \<Rightarrow> bool) \<Rightarrow> Node list \<Rightarrow> bool" where
  "any_node P (Node f cs) \<longleftrightarrow> P f \<or> any_nodes P cs"
| "any_nodes P [] \<longleftrightarrow> False"
| "any_nodes P (c # cs) \<longleftrightarrow> any_node P c \<or> any_nodes P cs"

lemma visit_any:
  "list_ex (\<lambda>(path, n, parent). P (own n)) (visit n par path) = any_node P n"
  "list_ex (\<lambda>(path, n, parent). P (own n)) (visit_children cs parent path i) = any_nodes P cs"
  by (induction n par path and cs parent path i rule: visit_visit_children.induct) simp_all

lemma some_node_any: "some_node P p = any_node P (Root p)"
  by (simp add: some_node_def eachNode_def visit_any)

subsection \<open>The JSON parser\<close>

lemma json_step:
  assumes "json_buffers j (json_actual j (n, caps)) = (n', caps')" and "\<not> measured n"
  shows "caps_Actual caps' = (caps_Actual caps \<or> measured n')" and "caps_Buffers caps' = (caps_Buffers caps \<or> buffered n')"
  using assms by (auto simp: json_buffers_def json_actual_def split: option.splits if_splits)

lemma json_names_measured: "\<not> measured (json_names j (json_node j))"
  by (simp add: json_names_def json_node_def Let_def)

lemma convert_caps:
  "convertJSONNode j caps = (n, caps') \<Longrightarrow>
     caps_Actual caps' = (caps_Actual caps \<or> any_node measured n)
     \<and> caps_Buffers caps' = (caps_Buffers caps \<or> any_node buffered n)"
  "convert_plans js caps = (ns, caps') \<Longrightarrow>
     caps_Actual caps' = (caps_Actual caps \<or> any_nodes measured ns)
     \<and> caps_Buffers caps' = (caps_Buffers caps \<or> any_nodes buffered ns)"
proof (induction j caps and js caps arbitrary: n caps' and ns caps' rule: convertJSONNode_convert_plans.induct)
  case (1 j js caps)
  obtain f c where f: "json_buffers j (json_actual j (json_names j (json_node j), caps)) = (f, c)" by fastforce
  obtain ns c' where ns: "convert_plans js c = (ns, c')" by fastforce
  show ?case
    using 1(2) json_step [OF f json_names_measured] 1(1) [OF f [symmetric] refl ns] by (auto simp: f ns)
next
  case (3 j js caps)
  obtain m c where m: "convertJSONNode j caps = (m, c)" by fastforce
  obtain ns' c' where ns: "convert_plans js c = (ns', c')" by fastforce
  show ?case using 3(3) 3(1) [OF m] 3(2) [OF m [symmetric] refl ns] by (auto simp: m ns)
qed simp

lemma json_step_timing:
  assumes "json_buffers j (json_actual j (n, caps)) = (n', caps')" and "\<not> measured n" and "caps_Timing caps \<or> clocked n'"
  shows "caps_Timing caps'"
proof (cases "clocked n'")
  case True
  have "node_Actual n' = node_Actual (fst (json_actual j (n, caps)))" using assms(1) by (auto simp: json_buffers_def split: prod.splits)
  with True assms(2) obtain rows loops where "j_ActualRows j = Some rows" "j_ActualLoops j = Some loops" "j_ActualTotalTime j \<noteq> None"
    unfolding clocked_def json_actual_def by (auto simp: deref_def split: option.splits)
  then have "caps_Timing (snd (json_actual j (n, caps)))" by (simp add: json_actual_def)
  then show ?thesis using assms(1) by (auto simp: json_buffers_def split: prod.splits if_splits)
next
  case False
  then have "caps_Timing (snd (json_actual j (n, caps)))" using assms(3) by (simp add: json_actual_def split: option.split)
  then show ?thesis using assms(1) by (auto simp: json_buffers_def split: prod.splits if_splits)
qed

lemma convert_times:
  "convertJSONNode j caps = (n, caps') \<Longrightarrow> caps_Timing caps \<or> any_node clocked n \<Longrightarrow> caps_Timing caps'"
  "convert_plans js caps = (ns, caps') \<Longrightarrow> caps_Timing caps \<or> any_nodes clocked ns \<Longrightarrow> caps_Timing caps'"
proof (induction j caps and js caps arbitrary: n caps' and ns caps' rule: convertJSONNode_convert_plans.induct)
  case (1 j js caps)
  obtain f c where f: "json_buffers j (json_actual j (json_names j (json_node j), caps)) = (f, c)" by fastforce
  obtain ns c' where ns: "convert_plans js c = (ns, c')" by fastforce
  have "n = Node f ns" "caps' = c'" using 1(2) f ns by simp_all
  then show ?case
    using 1(3) json_step_timing [OF f json_names_measured] 1(1) [OF f [symmetric] refl ns] by auto
next
  case (3 j js caps)
  obtain m c where m: "convertJSONNode j caps = (m, c)" by fastforce
  obtain ns' c' where ns: "convert_plans js c = (ns', c')" by fastforce
  have "ns = m # ns'" "caps' = c'" using 3(3) m ns by simp_all
  then show ?case using 3(4) 3(1) [OF m] 3(2) [OF m [symmetric] refl ns] by auto
qed simp

lemma zero_caps: "\<not> caps_Actual zero_Capabilities" "\<not> caps_Buffers zero_Capabilities"
  by (simp_all add: zero_Capabilities_def)

interpretation json_format: plan_parser "ParseJSON dec" for dec
proof unfold_locales
  fix body src p
  assume "ParseJSON dec body src = Inr p"
  then obtain raw j where p: "p = json_plan dec raw j src"
    by (auto simp: ParseJSON_def split: sum.splits option.splits)
  obtain root caps where c: "convertJSONNode j zero_Capabilities = (root, caps)" by fastforce
  show "plan_Source p = src" by (simp add: p json_plan_def c Let_def zero_Plan_def)
  show "caps_Actual (Caps p) = some_node measured p" "caps_Buffers (Caps p) = some_node buffered p"
    "caps_Settings (Caps p) = (Settings p \<noteq> [])"
    using convert_caps(1) [OF c] by (simp_all add: some_node_any p json_plan_def c Let_def zero_caps)
  show "caps_Timing (Caps p)" if "ExecutionTime p \<noteq> None \<or> some_node clocked p"
    using that convert_times(1) [OF c] by (auto simp: some_node_any p json_plan_def c Let_def)
qed

subsection \<open>The text parser\<close>

lemma fill_caps:
  "caps_Actual (fold fill_node ns c) = (caps_Actual c \<or> list_ex (\<lambda>(path, n). measured (own n)) ns)"
  "caps_Buffers (fold fill_node ns c) = (caps_Buffers c \<or> list_ex (\<lambda>(path, n). buffered (own n)) ns)"
  "caps_Settings (fold fill_node ns c) = caps_Settings c"
  "caps_Timing (fold fill_node ns c) = caps_Timing c"
proof -
  have "caps_Actual (fill_node x c) = (caps_Actual c \<or> measured (own (snd x)))"
    "caps_Buffers (fill_node x c) = (caps_Buffers c \<or> buffered (own (snd x)))"
    "caps_Settings (fill_node x c) = caps_Settings c" "caps_Timing (fill_node x c) = caps_Timing c" for x c
    by (simp_all add: fill_node_def Let_def split_beta)
  then show "caps_Actual (fold fill_node ns c) = (caps_Actual c \<or> list_ex (\<lambda>(path, n). measured (own n)) ns)"
    "caps_Buffers (fold fill_node ns c) = (caps_Buffers c \<or> list_ex (\<lambda>(path, n). buffered (own n)) ns)"
    "caps_Settings (fold fill_node ns c) = caps_Settings c" "caps_Timing (fold fill_node ns c) = caps_Timing c"
    by (induction ns arbitrary: c) (simp_all add: split_beta)
qed

text \<open>The loop claims neither measurements nor buffers, and keeps the source.\<close>

definition unclaimed :: "Source \<Rightarrow> QueryPlan \<Rightarrow> bool" where
  "unclaimed src p \<longleftrightarrow> plan_Source p = src \<and> \<not> caps_Actual (Caps p) \<and> \<not> caps_Buffers (Caps p)"

lemma unclaimed_simps [simp]:
  "unclaimed src (set_timing t p) = unclaimed src p" "unclaimed src (upd_root k g p) = unclaimed src p"
  by (simp_all add: unclaimed_def set_timing_def upd_root_def)

lemma unclaimed_tail [simp]: "unclaimed src (fst (applyTail p line nested)) = unclaimed src p"
  by (simp add: unclaimed_def applyTail_def applyJITLine_def Let_def split: option.splits)

lemma unclaimed_line: "unclaimed src (ts_plan (text_line r line st)) = unclaimed src (ts_plan st)"
  by (simp add: text_line_def node_line_def attr_line_def Let_def split: option.splits list.splits prod.splits)

lemma unclaimed_lines: "unclaimed src (ts_plan (fold (text_line r) ls st)) = unclaimed src (ts_plan st)"
  by (induction ls arbitrary: st) (simp_all add: unclaimed_line)

text \<open>
  A node that took time has its time in the line it was read from, and the loop notes that; the
  attributes of a node leave its measurements alone.
\<close>

primrec re_groups :: "re \<Rightarrow> nat set" where
  "re_groups (Chr p) = {}"
| "re_groups (Lit w) = {}"
| "re_groups (Seq a b) = re_groups a \<union> re_groups b"
| "re_groups (Alt a b) = re_groups a \<union> re_groups b"
| "re_groups (Star greedy p) = {}"
| "re_groups (Cap k a) = insert k (re_groups a)"
| "re_groups WordEnd = {}"

lemma runs_groups: "(m, t) \<in> set (runs r s) \<Longrightarrow> fst ` set m \<subseteq> re_groups r"
  by (induction r arbitrary: s m t) (fastforce split: list.splits if_splits)+

lemma runs_SeqE:
  assumes "(m, t) \<in> set (runs (Seq a b) s)"
  obtains m1 t1 m2 where "(m1, t1) \<in> set (runs a s)" "(m2, t) \<in> set (runs b t1)" "m = m1 @ m2"
  using assms by auto

lemma find_from_at: "find_from r s = Some (m, t) \<Longrightarrow> \<exists>u v. s = u @ v \<and> (m, t) \<in> set (runs (Cap 0 r) v)"
proof (induction s)
  case Nil
  then show ?case by (auto split: list.splits)
next
  case (Cons c s)
  show ?case
  proof (cases "runs (Cap 0 r) (c # s)")
    case Nil
    then show ?thesis using Cons by (auto simp del: runs.simps) (metis append_Cons)
  next
    case (Cons x xs)
    then have "(m, t) \<in> set (runs (Cap 0 r) (c # s))"
      using \<open>find_from r (c # s) = Some (m, t)\<close> by (simp del: runs.simps)
    then show ?thesis by (metis append_Nil)
  qed
qed

lemma Contains_middle: "sub \<noteq> [] \<Longrightarrow> Contains (u @ sub @ z) sub"
proof (induction u)
  case Nil
  then show ?case by (cases sub) (simp_all add: Contains_def)
qed (auto simp: Contains_def)

lemma actual_time_printed:
  assumes "FindStringSubmatch actualRe line = Some a" and "group a 2 \<noteq> []"
  shows "hasTiming line"
proof -
  obtain t where "find_from actualRe line = Some (a, t)" using assms(1) by (auto simp: FindStringSubmatch_def)
  then obtain u v where uv: "line = u @ v" "(a, t) \<in> set (runs (Cap 0 actualRe) v)" using find_from_at by blast
  then obtain m w where m: "(m, t) \<in> set (runs actualRe v)" "a = (0, w) # m" by auto
  let ?time = "Seqs [Lit ''time='', Cap 1 re_num, Lit ''..'', Cap 2 re_num, Lit '' '']"
  let ?rest = "Seqs [Lit ''rows='', Cap 3 re_num, Lit '' loops='', Cap 4 re_num, Lit '')'']"
  have "actualRe = Seq (Lit ''(actual '') (Seq (Opt ?time) ?rest)" by (simp add: actualRe_def)
  with m(1) have "(m, t) \<in> set (runs (Seq (Lit ''(actual '') (Seq (Opt ?time) ?rest)) v)" by simp
  then obtain m1 t1 m2 where 1: "(m1, t1) \<in> set (runs (Lit ''(actual '') v)" "(m2, t) \<in> set (runs (Seq (Opt ?time) ?rest) t1)" "m = m1 @ m2"
    by (rule runs_SeqE)
  from 1(2) obtain m3 t3 m4 where 2: "(m3, t3) \<in> set (runs (Opt ?time) t1)" "(m4, t) \<in> set (runs ?rest t3)" "m2 = m3 @ m4"
    by (rule runs_SeqE)
  have v: "v = ''(actual '' @ t1" "m1 = []" using 1(1) by (auto simp: prefix_def split: if_splits)
  have "2 \<notin> fst ` set m4" using runs_groups [OF 2(2)] by (auto simp: re_num_def Opt_def Eps_def Plus_def)
  moreover have "2 \<in> fst ` set a" using assms(2) by (force simp: group_def dest: map_of_SomeD split: option.splits)
  ultimately have "m3 \<noteq> []" using m(2) 1(3) 2(3) v(2) by auto
  then have "(m3, t3) \<in> set (runs ?time t1)" using 2(1) by simp
  then have "(m3, t3) \<in> set (runs (Seq (Lit ''time='') (Seqs [Cap 1 re_num, Lit ''..'', Cap 2 re_num, Lit '' ''])) t1)" by simp
  then obtain k where "k \<in> set (runs (Lit ''time='') t1)" using runs_SeqE by metis
  then obtain z where "t1 = ''time='' @ z" by (auto simp: prefix_def split: if_splits)
  then have "line = u @ ''(actual time='' @ z" using uv(1) v(1) by simp
  then show ?thesis by (simp add: hasTiming_def Contains_middle [of "''(actual time=''", simplified])
qed

lemma clocked_setters [simp]:
  "clocked (appendToAttr n key l) = clocked n"
  "clocked (setTextAttr n key v raw) = clocked n"
  "clocked (place_child pending n parent) = clocked n"
proof -
  have "node_Actual (set_heap_part part n) = node_Actual n" for part n
    by (simp add: set_heap_part_def split: option.split prod.split)
  then have h: "node_Actual (fold set_heap_part ps n) = node_Actual n" for ps n
    by (induction ps arbitrary: n) simp_all
  have m: "node_Actual (setSortMethod n raw) = node_Actual n"
    by (simp add: setSortMethod_def split: option.split prod.split)
  show "clocked (appendToAttr n key l) = clocked n"
    by (simp add: clocked_def appendToAttr_def Let_def)
  show "clocked (setTextAttr n key v raw) = clocked n"
    by (simp add: clocked_def setTextAttr_def setHeapBlocks_def h m)
  show "clocked (place_child pending n parent) = clocked n"
    by (simp add: clocked_def place_child_def)
qed

lemma clocked_attr: "clocked (snd (applyTextAttr f l indent) n) = clocked n"
  by (simp add: applyTextAttr_def Let_def split: option.split prod.split)

lemma zero_fields_unmeasured: "node_Actual zero_fields = None"
  by (simp add: zero_fields_def)

lemma parseLabel_unmeasured: "node_Actual (parseLabel lab zero_fields) = None"
proof -
  have "node_Actual (snd (label_prefixes lab n)) = node_Actual n" for lab n
    by (simp add: label_prefixes_def Let_def split: option.split prod.split)
  moreover have "node_Actual (parseOnClause t n) = node_Actual n" for t n
    by (simp add: parseOnClause_def Let_def split: list.split prod.split)
  then have "node_Actual (snd (label_clauses lab n)) = node_Actual n" for lab n
    by (simp add: label_clauses_def Let_def split: option.split prod.split)
  moreover have "node_Actual (normalizeType lab n) = node_Actual n" for lab n
    by (simp add: normalizeType_def split: option.split prod.split)
  ultimately show ?thesis
    by (simp add: parseLabel_def Let_def split: prod.split) (metis snd_conv zero_fields_unmeasured)
qed

lemma matched_clocked:
  assumes "matchNodeLine l = Some n" and "clocked n"
  shows "hasTiming l"
proof -
  obtain m where n: "n = line_actual l (line_costs l (parseLabel m zero_fields))"
    using assms(1) by (auto simp: matchNodeLine_def split: option.splits)
  have u: "node_Actual (line_costs l (parseLabel m zero_fields)) = None"
    by (simp add: line_costs_def parseLabel_unmeasured split: option.split)
  have z: "parseFloat [] = Fin 0" by code_simp
  from assms(2) u obtain a where a: "FindStringSubmatch actualRe l = Some a" "parseFloat (group a 2) \<noteq> Fin 0"
    unfolding n line_actual_def clocked_def zero_Actual_def by (auto split: option.splits if_splits)
  then show ?thesis using actual_time_printed z by metis
qed

lemma any_nodes_append [simp]: "any_nodes P (xs @ ys) = (any_nodes P xs \<or> any_nodes P ys)"
  by (induction xs) auto

lemma any_node_upd_last:
  assumes "\<And>m. any_node P (g m) \<Longrightarrow> any_node P m \<or> Q"
  shows "any_node P (upd_last k g n) \<Longrightarrow> any_node P n \<or> Q"
proof (induction k arbitrary: n)
  case (Suc k)
  obtain f cs where n: "n = Node f cs" by (cases n)
  show ?case
  proof (cases "cs = []")
    case False
    then have "any_nodes P cs = (any_nodes P (butlast cs) \<or> any_node P (last cs))"
      using any_nodes_append [of P "butlast cs" "[last cs]"] by simp
    then show ?thesis using Suc n False by auto
  qed (use Suc n in simp)
qed (use assms in simp)

definition times_claimed :: "QueryPlan \<Rightarrow> bool" where
  "times_claimed p \<longleftrightarrow> (any_node clocked (Root p) \<longrightarrow> caps_Timing (Caps p))"

lemma times_claimed_tail [simp]: "times_claimed (fst (applyTail p l nested)) = times_claimed p"
  by (simp add: times_claimed_def applyTail_def applyJITLine_def Let_def split: option.splits)

lemma times_claimed_upd:
  assumes "times_claimed p" and "\<And>m. any_node clocked (g m) \<Longrightarrow> any_node clocked m \<or> t"
  shows "times_claimed (set_timing t (upd_root k g p))"
  using any_node_upd_last [of clocked g t k "Root p"] assms by (auto simp: times_claimed_def set_timing_def upd_root_def)

lemma times_claimed_line: "times_claimed (ts_plan st) \<Longrightarrow> times_claimed (ts_plan (text_line r l st))"
proof -
  assume p: "times_claimed (ts_plan st)"
  have node: "times_claimed (ts_plan (node_line l i n st))" if "matchNodeLine l = Some n" for i n
    unfolding node_line_def Let_def using p matched_clocked [OF that]
    by (simp, intro times_claimed_upd) (auto simp: append_child_def split: Node.split, (case_tac m; auto)+)
  have attr: "times_claimed (ts_plan (attr_line t i st))" for t i
  proof (cases "pop_frames i (ts_stack st)")
    case (Cons f fs)
    obtain f' h where a: "applyTextAttr f t i = (f', h)" by fastforce
    have "times_claimed (set_timing False (upd_root (length fs) (on_fields h) (ts_plan st)))"
    proof (rule times_claimed_upd [OF p])
      fix m assume "any_node clocked (on_fields h m)"
      then show "any_node clocked m \<or> False" using clocked_attr [of f t i] a by (cases m) (simp add: on_fields_def)
    qed
    then show ?thesis by (simp add: attr_line_def Cons a set_timing_def)
  qed (use p in \<open>simp add: attr_line_def\<close>)
  show ?thesis
    using p node attr by (auto simp: text_line_def Let_def split: option.split)
qed

lemma times_claimed_lines: "times_claimed (ts_plan st) \<Longrightarrow> times_claimed (ts_plan (fold (text_line r) ls st))"
  by (induction ls arbitrary: st) (simp_all add: times_claimed_line)

lemma ParseText_filled:
  assumes "ParseText body src = Inr p"
  shows "\<exists>q. p = fillTextCaps q \<and> unclaimed src q \<and> times_claimed q"
proof -
  obtain queryText params rest where pre: "text_preamble (splitLines body) [] [] = (queryText, params, rest)"
    using prod_cases3 by blast
  then obtain l ls where rest: "rest = l # ls"
    using assms by (cases rest) (simp_all add: ParseText_def)
  have "p = fillTextCaps (ts_plan (fold (text_line (int (nodeIndent l))) ls
      \<lparr>ts_plan = set_timing (hasTiming l) ((zero_Plan src FormatText)\<lparr>QueryParams := params,
         QueryText := TrimRight (Join queryText [CHR 0x0A]) {CHR '' '', CHR 0x0A},
         Root := Node (case matchNodeLine l of Some n \<Rightarrow> n | None \<Rightarrow> zero_fields) []\<rparr>),
       ts_stack = [new_frame (int (nodeIndent l))], ts_pending = [], ts_inTail = False\<rparr>))" (is "_ = fillTextCaps ?q")
    using assms by (simp add: ParseText_def pre rest Let_def)
  moreover have "unclaimed src ?q"
    unfolding unclaimed_lines by simp (simp add: unclaimed_def zero_Plan_def zero_caps)
  moreover have "times_claimed ?q"
    using matched_clocked [of l] zero_fields_unmeasured
    by (intro times_claimed_lines) (auto simp: times_claimed_def set_timing_def clocked_def split: option.split)
  ultimately show ?thesis by blast
qed

interpretation text_format: plan_parser ParseText
proof unfold_locales
  fix body src p
  assume "ParseText body src = Inr p"
  then obtain q where q: "p = fillTextCaps q" "unclaimed src q" "times_claimed q" using ParseText_filled by blast
  have w: "list_ex (\<lambda>(path, n). P (own n)) (Walk q (\<lambda>_ _. True)) = some_node P q" for P
    unfolding Walk_def walk_all_visits(1) [where par = None] some_node_def eachNode_def
    by (simp add: list_ex_iff split_beta)
  show "plan_Source p = src" using q by (simp add: fillTextCaps_def unclaimed_def Let_def)
  show "caps_Actual (Caps p) = some_node measured p" "caps_Buffers (Caps p) = some_node buffered p"
    "caps_Settings (Caps p) = (Settings p \<noteq> [])"
    using q w [of measured] w [of buffered] by (simp_all add: fillTextCaps_def unclaimed_def Let_def fill_caps some_node_any)
  show "caps_Timing (Caps p)" if "ExecutionTime p \<noteq> None \<or> some_node clocked p"
    using that q by (auto simp: fillTextCaps_def times_claimed_def Let_def fill_caps some_node_any)
qed

subsection \<open>Detection and dispatch\<close>

interpretation any_format: plan_parser "ParsePlan dec" for dec
proof unfold_locales
  fix body src p
  assume "ParsePlan dec body src = Inr p"
  then have *: "ParseJSON dec body src = Inr p \<or> ParseText body src = Inr p"
    by (auto simp: ParsePlan_def split: sum.splits Format.splits)
  then show "plan_Source p = src"
    by (elim disjE) (erule json_format.keeps_source text_format.keeps_source)+
  show "caps_Actual (Caps p) = some_node measured p"
    using * by (elim disjE) (erule json_format.backs_actual text_format.backs_actual)+
  show "caps_Buffers (Caps p) = some_node buffered p"
    using * by (elim disjE) (erule json_format.backs_buffers text_format.backs_buffers)+
  show "caps_Settings (Caps p) = (Settings p \<noteq> [])"
    using * by (elim disjE) (erule json_format.backs_settings text_format.backs_settings)+
  show "caps_Timing (Caps p)" if "ExecutionTime p \<noteq> None \<or> some_node clocked p"
    using * that json_format.backs_timing text_format.backs_timing by blast
qed

end
