(* ===== verification/Schema_Report.thy ===== *)
theory Schema_Report
  imports Schema_Lint Go_Strings
begin

text \<open>
  The schema report of package \<^verbatim>\<open>backend/internal/schemalint\<close>: the registry of
  checks and the planning of a run (\<^verbatim>\<open>registry.go\<close>), the conversion of catalogue
  rows into findings, the roll-up of partitions, suppression and order
  (\<^verbatim>\<open>build.go\<close>), and the validation of the configuration (\<^verbatim>\<open>validate.go\<close>).

  Two functions of the standard library are parameters: \<open>glob\<close> is
  \<^verbatim>\<open>filepath.Match\<close>, without result for a malformed pattern, and \<open>srt\<close> is
  \<^verbatim>\<open>slices.SortFunc\<close>, which leaves the order of equal elements open. The map from
  partitions to roots is an association list.
\<close>

section \<open>Data\<close>

record LintParams =
  UsedPct :: "f64 option"
  lp_LastValue :: "i64 option"
  lp_MaxValue :: "i64 option"
  OwnedBy :: string
  OwnedColumnType :: string
  Owner :: string
  Column :: string
  ColumnType :: string
  Constraint :: string
  ReferencedBy :: string
  Index :: string
  OtherObject :: string
  Partitions :: nat
  UniqueNullable :: bool

record LintFinding =
  lf_Code :: string
  lf_Level :: Level
  lf_ObjectType :: string
  lf_Schema :: string
  lf_Object :: string
  lf_Params :: LintParams
  lf_RelatedRoute :: string

datatype SkipReason = SkipInsufficientPrivileges | SkipUnsupportedVersion | SkipDisabled | SkipError

definition reason_string :: "SkipReason \<Rightarrow> string" where
  "reason_string r =
     (case r of
        SkipInsufficientPrivileges \<Rightarrow> ''insufficient_privileges''
      | SkipUnsupportedVersion \<Rightarrow> ''unsupported_version''
      | SkipDisabled \<Rightarrow> ''disabled''
      | SkipError \<Rightarrow> ''error'')"

record Skip =
  sk_Code :: string
  Reason :: SkipReason
  sk_Detail :: string
  sk_Count :: nat

record LintReport =
  rep_Findings :: "LintFinding list"
  rep_Skipped :: "Skip list"
  rep_Summary :: "Level \<Rightarrow> nat"
  rep_Truncated :: bool

definition NotRun :: "LintReport \<Rightarrow> nat" where
  "NotRun r = length (filter (\<lambda>s. Reason s \<noteq> SkipDisabled) (rep_Skipped r))"

definition zero_LintParams :: LintParams where
  "zero_LintParams =
     \<lparr>UsedPct = None, lp_LastValue = None, lp_MaxValue = None, OwnedBy = [], OwnedColumnType = [], Owner = [],
      Column = [], ColumnType = [], Constraint = [], ReferencedBy = [], Index = [], OtherObject = [],
      Partitions = 0, UniqueNullable = False\<rparr>"

section \<open>The registry\<close>

definition MinSupportedVersion :: i64 where "MinSupportedVersion = 140000"

record Check =
  chk_Code :: string
  chk_ObjectType :: string
  chk_Query :: string
  MinVersion :: i64
  DefaultEnabled :: bool
  chk_RelatedRoute :: string
  CollapseParts :: bool
  chk_RequiredPrivilege :: string

definition check :: "string \<Rightarrow> string \<Rightarrow> string \<Rightarrow> bool \<Rightarrow> string \<Rightarrow> bool \<Rightarrow> Check" where
  "check code objectType query enabled route collapse =
     \<lparr>chk_Code = code, chk_ObjectType = objectType, chk_Query = query, MinVersion = MinSupportedVersion,
      DefaultEnabled = enabled, chk_RelatedRoute = route, CollapseParts = collapse, chk_RequiredPrivilege = []\<rparr>"

definition lint_registry :: "Check list" where
  "lint_registry =
     [(check ''sequence_exhaustion'' ''sequence'' ''schema_lint/sequences_usage'' True ''/schema-lint'' False)
        \<lparr>chk_RequiredPrivilege := ''SELECT or USAGE on the sequences (GRANT SELECT ON ALL SEQUENCES IN SCHEMA ... TO <role>)''\<rparr>,
      check ''no_primary_key'' ''relation'' ''schema_lint/relations_without_key'' True ''/tables'' True,
      check ''no_unique_key'' ''relation'' ''schema_lint/relations_without_key'' True ''/tables'' True,
      check ''public_create_privilege'' ''schema'' ''schema_lint/public_create_privileges'' True ''/schema-lint'' False,
      check ''unlogged_relation'' ''relation'' ''schema_lint/unlogged_objects'' True ''/tables'' True,
      check ''unlogged_sequence'' ''sequence'' ''schema_lint/unlogged_objects'' True ''/schema-lint'' False,
      check ''uuid_in_non_uuid_type'' ''attribute'' ''schema_lint/uuid_like_columns'' True ''/tables'' True,
      check ''relation_without_fk'' ''relation'' ''schema_lint/relations_without_fk'' False ''/fk-analysis'' True,
      check ''relation_without_columns'' ''relation'' ''schema_lint/relations_without_columns'' True ''/tables'' True,
      check ''reserved_word_in_name'' ''relation'' ''schema_lint/unsafe_names'' True ''/tables'' False,
      check ''unsafe_chars_in_name'' ''relation'' ''schema_lint/unsafe_names'' True ''/tables'' False,
      check ''invalid_constraint'' ''constraint'' ''constraints/invalid_constraints'' True ''/fk-analysis'' True,
      check ''fk_type_mismatch'' ''constraint'' ''fks/type_mismatch'' True ''/fk-analysis'' True,
      check ''fk_nullable'' ''constraint'' ''fks/possible_nulls'' True ''/fk-analysis'' True,
      check ''fk_similar'' ''constraint'' ''fks/possible_similar1'' False ''/fk-analysis'' True,
      check ''index_similar'' ''index'' ''indexes/similar_3'' False ''/indexes-problems'' True,
      check ''btree_on_array'' ''index'' ''indexes/btree_on_array'' True ''/indexes-problems'' True]"

fun lookup_in :: "Check list \<Rightarrow> string \<Rightarrow> Check option" where
  "lookup_in [] code = None"
| "lookup_in (c # cs) code = (if chk_Code c = code then Some c else lookup_in cs code)"

definition lookup_check :: "string \<Rightarrow> Check option" where
  "lookup_check code = lookup_in lint_registry code"

definition RequiredPrivilege :: "string \<Rightarrow> string" where
  "RequiredPrivilege code = (case lookup_check code of None \<Rightarrow> [] | Some c \<Rightarrow> chk_RequiredPrivilege c)"

definition check_enabled :: "SchemaConfig \<Rightarrow> Check \<Rightarrow> bool" where
  "check_enabled c chk =
     (if chk_Code chk \<in> set (DisabledChecks c) then False
      else if chk_Code chk \<in> set (EnabledChecks c) then True
      else DefaultEnabled chk)"

definition ignoredSchema :: "(string \<Rightarrow> string \<Rightarrow> bool option) \<Rightarrow> SchemaConfig \<Rightarrow> string \<Rightarrow> bool" where
  "ignoredSchema glob c schema = list_ex (\<lambda>mask. glob mask schema = Some True) (IgnoreSchemas c)"

section \<open>Planning a run\<close>

record LintQuery =
  lq_Query :: string
  Codes :: "string list"

text \<open>\<^verbatim>\<open>index\<close> of the source maps a query to the position of its entry.\<close>

definition add_code :: "Check \<Rightarrow> LintQuery list \<Rightarrow> LintQuery list" where
  "add_code chk plans =
     (if chk_Query chk \<in> set (map lq_Query plans)
      then map (\<lambda>p. if lq_Query p = chk_Query chk then p\<lparr>Codes := Codes p @ [chk_Code chk]\<rparr> else p) plans
      else plans @ [\<lparr>lq_Query = chk_Query chk, Codes = [chk_Code chk]\<rparr>])"

definition skip_of :: "Check \<Rightarrow> SkipReason \<Rightarrow> Skip" where
  "skip_of chk r = \<lparr>sk_Code = chk_Code chk, Reason = r, sk_Detail = [], sk_Count = 0\<rparr>"

definition plan_check :: "SchemaConfig \<Rightarrow> i64 \<Rightarrow> Check \<Rightarrow> LintQuery list \<times> Skip list \<Rightarrow> LintQuery list \<times> Skip list" where
  "plan_check cfg ver chk = (\<lambda>(plans, skips).
     if \<not> check_enabled cfg chk then (plans, skips @ [skip_of chk SkipDisabled])
     else if 0 < ver \<and> ver < MinVersion chk then (plans, skips @ [skip_of chk SkipUnsupportedVersion])
     else (add_code chk plans, skips))"

definition lint_plan :: "SchemaConfig \<Rightarrow> i64 \<Rightarrow> LintQuery list \<times> Skip list" where
  "lint_plan cfg ver = fold (plan_check cfg ver) lint_registry ([], [])"

section \<open>Rows and findings\<close>

record SequenceRow =
  sr_Schema :: string
  sr_Object :: string
  sr_LastValue :: i64
  LastValueKnown :: bool
  sr_MaxValue :: i64
  sr_MinValue :: i64
  sr_FreePct :: f64
  sr_OwnedBy :: string
  sr_OwnedColumnType :: string

record RelationKeyRow =
  rk_Schema :: string
  rk_Object :: string
  HasUnique :: bool
  rk_UniqueNullable :: bool

record SchemaPrivilegeRow =
  sp_Schema :: string
  sp_Owner :: string

record UnloggedRow =
  ul_Schema :: string
  ul_Object :: string
  ul_RelKind :: string

record ColumnRow =
  cr_Schema :: string
  cr_Object :: string
  cr_Column :: string
  cr_ColumnType :: string

record RelationRow =
  rr_Schema :: string
  rr_Object :: string

record NameRow =
  nr_Schema :: string
  nr_Object :: string
  nr_RelKind :: string
  Reserved :: bool

record ConstraintRow =
  con_Schema :: string
  con_Object :: string
  con_Constraint :: string
  ReferencedSchema :: string
  ReferencedTable :: string

record PairRow =
  pr_Schema :: string
  pr_Object :: string
  First :: string
  Second :: string

type_synonym ObjectRef = "string \<times> string"

record Inputs =
  ServerVersionNum :: i64
  Sequences :: "SequenceRow list"
  RelationKeys :: "RelationKeyRow list"
  SchemaPrivileges :: "SchemaPrivilegeRow list"
  Unlogged :: "UnloggedRow list"
  UUIDLikeColumns :: "ColumnRow list"
  WithoutFk :: "RelationRow list"
  WithoutColumns :: "RelationRow list"
  UnsafeNames :: "NameRow list"
  InvalidConstrs :: "ConstraintRow list"
  FkTypeMismatch :: "PairRow list"
  FkNullable :: "PairRow list"
  FkSimilar :: "PairRow list"
  IndexSimilar :: "PairRow list"
  BtreeOnArray :: "PairRow list"
  PartitionRoots :: "(ObjectRef \<times> ObjectRef) list"
  in_Skipped :: "Skip list"
  in_Truncated :: bool

definition enabledCheck :: "string \<Rightarrow> SchemaConfig \<Rightarrow> Check option" where
  "enabledCheck code cfg =
     (case lookup_check code of
        None \<Rightarrow> None
      | Some chk \<Rightarrow> if check_enabled cfg chk then Some chk else None)"

definition lint_finding :: "Check \<Rightarrow> Level \<Rightarrow> string \<Rightarrow> string \<Rightarrow> LintParams \<Rightarrow> LintFinding" where
  "lint_finding chk level schema obj params =
     \<lparr>lf_Code = chk_Code chk, lf_Level = level, lf_ObjectType = chk_ObjectType chk, lf_Schema = schema,
      lf_Object = obj, lf_Params = params, lf_RelatedRoute = chk_RelatedRoute chk\<rparr>"

definition int4Max :: i64 where "int4Max = 2147483647"

definition isInt4 :: "string \<Rightarrow> bool" where
  "isInt4 columnType \<longleftrightarrow> map lower (TrimSpace columnType) \<in> {''integer'', ''int4'', ''int''}"

definition effectiveHeadroom :: "SequenceRow \<Rightarrow> f64 \<times> i64" where
  "effectiveHeadroom r =
     (if \<not> isInt4 (sr_OwnedColumnType r) \<or> sr_MaxValue r \<le> int4Max then (sr_FreePct r, sr_MaxValue r)
      else
        (let span = of_i64 int4Max - of_i64 (sr_MinValue r)
         in if span \<le> Fin 0 then (sr_FreePct r, sr_MaxValue r)
            else (math_Max (lit 100 * (of_i64 int4Max - of_i64 (sr_LastValue r)) / span) (Fin 0), int4Max)))"

definition sequence_finding :: "SchemaConfig \<Rightarrow> Check \<Rightarrow> SequenceRow \<Rightarrow> LintFinding option" where
  "sequence_finding cfg chk r =
     (if \<not> LastValueKnown r then None
      else
        (let (freePct, maxValue) = effectiveHeadroom r
         in case sequenceLevel cfg freePct of
              None \<Rightarrow> None
            | Some level \<Rightarrow>
                Some (lint_finding chk (if isInt4 (sr_OwnedColumnType r) then raise_level level else level)
                  (sr_Schema r) (sr_Object r)
                  (zero_LintParams\<lparr>UsedPct := Some (lit 100 - freePct), lp_LastValue := Some (sr_LastValue r),
                     lp_MaxValue := Some maxValue, OwnedBy := sr_OwnedBy r,
                     OwnedColumnType := sr_OwnedColumnType r\<rparr>))))"

definition fromSequences :: "SequenceRow list \<Rightarrow> SchemaConfig \<Rightarrow> LintFinding list" where
  "fromSequences rows cfg =
     (case enabledCheck ''sequence_exhaustion'' cfg of
        None \<Rightarrow> []
      | Some chk \<Rightarrow> List.map_filter (sequence_finding cfg chk) rows)"

definition worst_usage :: "(string \<Rightarrow> string \<Rightarrow> bool option) \<Rightarrow> SchemaConfig \<Rightarrow> SequenceRow \<Rightarrow> f64 \<times> bool \<Rightarrow> f64 \<times> bool" where
  "worst_usage glob cfg r = (\<lambda>(worst, known).
     if \<not> LastValueKnown r \<or> ignoredSchema glob cfg (sr_Schema r) then (worst, known)
     else
       (let used = (lit 100 - fst (effectiveHeadroom r)) / lit 100
        in (if worst < used then used else worst, True)))"

definition WorstSequenceUsage :: "(string \<Rightarrow> string \<Rightarrow> bool option) \<Rightarrow> SequenceRow list \<Rightarrow> SchemaConfig \<Rightarrow> f64 \<times> bool" where
  "WorstSequenceUsage glob rows cfg = fold (worst_usage glob cfg) rows (Fin 0, False)"

definition sequencePrivilegeSkip :: "(string \<Rightarrow> string \<Rightarrow> bool option) \<Rightarrow> SequenceRow list \<Rightarrow> SchemaConfig \<Rightarrow> Skip list" where
  "sequencePrivilegeSkip glob rows cfg =
     (case enabledCheck ''sequence_exhaustion'' cfg of
        None \<Rightarrow> []
      | Some _ \<Rightarrow>
          (let hidden = length (filter (\<lambda>r. \<not> LastValueKnown r \<and> \<not> ignoredSchema glob cfg (sr_Schema r)) rows)
           in if hidden = 0 then []
              else [\<lparr>sk_Code = ''sequence_exhaustion'', Reason = SkipInsufficientPrivileges, sk_Detail = [],
                     sk_Count = hidden\<rparr>]))"

definition fromRelationKeys :: "RelationKeyRow list \<Rightarrow> SchemaConfig \<Rightarrow> LintFinding list" where
  "fromRelationKeys rows cfg = List.map_filter (\<lambda>r.
     map_option (\<lambda>chk. lint_finding chk LevelError (rk_Schema r) (rk_Object r)
         (zero_LintParams\<lparr>UniqueNullable := HasUnique r \<and> rk_UniqueNullable r\<rparr>))
       (enabledCheck (if HasUnique r then ''no_primary_key'' else ''no_unique_key'') cfg)) rows"

definition fromSchemaPrivileges :: "SchemaPrivilegeRow list \<Rightarrow> i64 \<Rightarrow> SchemaConfig \<Rightarrow> LintFinding list" where
  "fromSchemaPrivileges rows ver cfg =
     (case enabledCheck ''public_create_privilege'' cfg of
        None \<Rightarrow> []
      | Some chk \<Rightarrow>
          (let level = (if 0 < ver \<and> ver < 150000 then LevelWarning else LevelError)
           in map (\<lambda>r. lint_finding chk level (sp_Schema r) (sp_Schema r) (zero_LintParams\<lparr>Owner := sp_Owner r\<rparr>)) rows))"

definition fromUnlogged :: "UnloggedRow list \<Rightarrow> SchemaConfig \<Rightarrow> LintFinding list" where
  "fromUnlogged rows cfg = List.map_filter (\<lambda>r.
     map_option (\<lambda>chk. lint_finding chk LevelWarning (ul_Schema r) (ul_Object r) zero_LintParams)
       (enabledCheck (if ul_RelKind r = ''S'' then ''unlogged_sequence'' else ''unlogged_relation'') cfg)) rows"

definition fromUUIDLikeColumns :: "ColumnRow list \<Rightarrow> SchemaConfig \<Rightarrow> LintFinding list" where
  "fromUUIDLikeColumns rows cfg =
     (case enabledCheck ''uuid_in_non_uuid_type'' cfg of
        None \<Rightarrow> []
      | Some chk \<Rightarrow> map (\<lambda>r. lint_finding chk LevelNotice (cr_Schema r) (cr_Object r)
            (zero_LintParams\<lparr>Column := cr_Column r, ColumnType := cr_ColumnType r\<rparr>)) rows)"

definition fromRelations :: "RelationRow list \<Rightarrow> string \<Rightarrow> SchemaConfig \<Rightarrow> LintFinding list" where
  "fromRelations rows code cfg =
     (case enabledCheck code cfg of
        None \<Rightarrow> []
      | Some chk \<Rightarrow> map (\<lambda>r. lint_finding chk LevelNotice (rr_Schema r) (rr_Object r) zero_LintParams) rows)"

definition objectTypeForRelKind :: "string \<Rightarrow> string \<Rightarrow> string" where
  "objectTypeForRelKind relKind fallback =
     (if relKind = ''i'' \<or> relKind = ''I'' then ''index'' else if relKind = ''S'' then ''sequence'' else fallback)"

definition fromUnsafeNames :: "NameRow list \<Rightarrow> SchemaConfig \<Rightarrow> LintFinding list" where
  "fromUnsafeNames rows cfg = List.map_filter (\<lambda>r.
     map_option (\<lambda>chk.
         (let objectType = objectTypeForRelKind (nr_RelKind r) (chk_ObjectType chk)
          in (lint_finding chk (if Reserved r then LevelWarning else LevelNotice) (nr_Schema r) (nr_Object r) zero_LintParams)
               \<lparr>lf_ObjectType := objectType,
                lf_RelatedRoute := (if objectType \<noteq> chk_ObjectType chk then [] else chk_RelatedRoute chk)\<rparr>))
       (enabledCheck (if Reserved r then ''reserved_word_in_name'' else ''unsafe_chars_in_name'') cfg)) rows"

definition fromInvalidConstraints :: "ConstraintRow list \<Rightarrow> SchemaConfig \<Rightarrow> LintFinding list" where
  "fromInvalidConstraints rows cfg =
     (case enabledCheck ''invalid_constraint'' cfg of
        None \<Rightarrow> []
      | Some chk \<Rightarrow> map (\<lambda>r.
            (let referenced = (if ReferencedSchema r \<noteq> [] \<and> ReferencedTable r \<noteq> []
                               then ReferencedSchema r @ ''.'' @ ReferencedTable r else ReferencedTable r)
             in lint_finding chk LevelWarning (con_Schema r) (con_Object r)
                  (zero_LintParams\<lparr>Constraint := con_Constraint r, ReferencedBy := referenced\<rparr>))) rows)"

definition fromPairs :: "PairRow list \<Rightarrow> string \<Rightarrow> Level \<Rightarrow> SchemaConfig \<Rightarrow> LintFinding list" where
  "fromPairs rows code level cfg =
     (case enabledCheck code cfg of
        None \<Rightarrow> []
      | Some chk \<Rightarrow> map (\<lambda>r. lint_finding chk level (pr_Schema r) (pr_Object r)
            (if chk_ObjectType chk = ''index'' then zero_LintParams\<lparr>OtherObject := Second r, Index := First r\<rparr>
             else zero_LintParams\<lparr>OtherObject := Second r, Constraint := First r\<rparr>)) rows)"

section \<open>Partitions, suppression and order\<close>

type_synonym groupKey = "string \<times> ObjectRef \<times> string"

definition part_of :: "LintFinding \<Rightarrow> string" where
  "part_of f = Column (lf_Params f) @ [CHR 0x00] @ Constraint (lf_Params f) @ [CHR 0x00] @ Index (lf_Params f)"

definition collapses :: "LintFinding \<Rightarrow> bool" where
  "collapses f = (case lookup_check (lf_Code f) of None \<Rightarrow> False | Some chk \<Rightarrow> CollapseParts chk)"

definition used_pct :: "LintFinding \<Rightarrow> f64" where
  "used_pct f = (case UsedPct (lf_Params f) of None \<Rightarrow> Fin 0 | Some v \<Rightarrow> v)"

definition worseThan :: "LintFinding \<Rightarrow> LintFinding \<Rightarrow> bool" where
  "worseThan a b =
     (if levelRank (lf_Level a) \<noteq> levelRank (lf_Level b) then levelRank (lf_Level a) < levelRank (lf_Level b)
      else used_pct b < used_pct a)"

definition mergePartitionFinding :: "LintFinding \<Rightarrow> LintFinding \<Rightarrow> bool \<Rightarrow> LintFinding" where
  "mergePartitionFinding base child childIsPartition =
     (let partitions = (if childIsPartition then Partitions (lf_Params base) + 1 else Partitions (lf_Params base));
          uniqueNullable = (UniqueNullable (lf_Params base) \<or> UniqueNullable (lf_Params child));
          out = (if worseThan child base then child\<lparr>lf_Schema := lf_Schema base, lf_Object := lf_Object base\<rparr> else base)
      in out\<lparr>lf_Params := (lf_Params out)\<lparr>Partitions := partitions, UniqueNullable := uniqueNullable\<rparr>\<rparr>)"

type_synonym collapse_state = "LintFinding list \<times> (groupKey \<times> nat) list"

definition collapse_step :: "(ObjectRef \<times> ObjectRef) list \<Rightarrow> LintFinding \<Rightarrow> collapse_state \<Rightarrow> collapse_state" where
  "collapse_step roots f = (\<lambda>(out, groups).
     if \<not> collapses f then (out @ [f], groups)
     else
       (let self = (lf_Schema f, lf_Object f);
            isChild = map_of roots self \<noteq> None;
            root = (case map_of roots self of Some r \<Rightarrow> r | None \<Rightarrow> self);
            key = (lf_Code f, root, part_of f)
        in case map_of groups key of
             None \<Rightarrow>
               (let f = f\<lparr>lf_Schema := fst root, lf_Object := snd root\<rparr>;
                    f = (if isChild then f\<lparr>lf_Params := (lf_Params f)\<lparr>Partitions := 1\<rparr>\<rparr> else f)
                in (out @ [f], (key, length out) # groups))
           | Some idx \<Rightarrow> (out[idx := mergePartitionFinding (out ! idx) f isChild], groups)))"

definition collapsePartitions :: "LintFinding list \<Rightarrow> (ObjectRef \<times> ObjectRef) list \<Rightarrow> LintFinding list" where
  "collapsePartitions findings roots =
     (if findings = [] then findings else fst (fold (collapse_step roots) findings ([], [])))"

definition applySuppression :: "(string \<Rightarrow> string \<Rightarrow> bool option) \<Rightarrow> LintFinding list \<Rightarrow> SchemaConfig \<Rightarrow> LintFinding list" where
  "applySuppression glob findings cfg =
     (if IgnoreSchemas cfg = [] then findings else filter (\<lambda>f. \<not> ignoredSchema glob cfg (lf_Schema f)) findings)"

text \<open>The comparison of \<^verbatim>\<open>sortFindings\<close> is the lexicographic order of these keys.\<close>

definition finding_order :: "LintFinding \<Rightarrow> int \<times> string \<times> string \<times> string \<times> string \<times> string \<times> string \<times> string" where
  "finding_order f =
     (levelRank (lf_Level f), lf_Code f, lf_Schema f, lf_Object f, Column (lf_Params f), Constraint (lf_Params f),
      Index (lf_Params f), OtherObject (lf_Params f))"

definition skip_order :: "Skip \<Rightarrow> string \<times> string" where
  "skip_order s = (sk_Code s, reason_string (Reason s))"

definition summarize :: "LintFinding list \<Rightarrow> Level \<Rightarrow> nat" where
  "summarize findings = fold (\<lambda>f s. s(lf_Level f := s (lf_Level f) + 1)) findings (\<lambda>_. 0)"

section \<open>The report\<close>

record lint_env =
  glob :: "string \<Rightarrow> string \<Rightarrow> bool option"
  sortFindings :: "LintFinding list \<Rightarrow> LintFinding list"
  sortSkips :: "Skip list \<Rightarrow> Skip list"

definition raw_findings :: "Inputs \<Rightarrow> SchemaConfig \<Rightarrow> LintFinding list" where
  "raw_findings i cfg =
     fromSequences (Sequences i) cfg @ fromRelationKeys (RelationKeys i) cfg @
     fromSchemaPrivileges (SchemaPrivileges i) (ServerVersionNum i) cfg @ fromUnlogged (Unlogged i) cfg @
     fromUUIDLikeColumns (UUIDLikeColumns i) cfg @ fromRelations (WithoutFk i) ''relation_without_fk'' cfg @
     fromRelations (WithoutColumns i) ''relation_without_columns'' cfg @ fromUnsafeNames (UnsafeNames i) cfg @
     fromInvalidConstraints (InvalidConstrs i) cfg @
     fromPairs (FkTypeMismatch i) ''fk_type_mismatch'' LevelWarning cfg @
     fromPairs (FkNullable i) ''fk_nullable'' LevelNotice cfg @
     fromPairs (FkSimilar i) ''fk_similar'' LevelNotice cfg @
     fromPairs (IndexSimilar i) ''index_similar'' LevelNotice cfg @
     fromPairs (BtreeOnArray i) ''btree_on_array'' LevelNotice cfg"

definition BuildReport :: "lint_env \<Rightarrow> Inputs \<Rightarrow> SchemaConfig \<Rightarrow> LintReport" where
  "BuildReport env i cfg =
     (let findings = sortFindings env
            (applySuppression (glob env) (collapsePartitions (raw_findings i cfg) (PartitionRoots i)) cfg)
      in \<lparr>rep_Findings = findings,
          rep_Skipped = sortSkips env (in_Skipped i @ sequencePrivilegeSkip (glob env) (Sequences i) cfg),
          rep_Summary = summarize findings, rep_Truncated = in_Truncated i\<rparr>)"

section \<open>Validation of the configuration\<close>

datatype lint_error =
    UnknownCheck string string
  | BadMask string
  | UnknownLevel string
  | ThresholdRange string f64
  | ThresholdOrder f64 f64 f64

fun first_error :: "('a \<Rightarrow> 'e option) \<Rightarrow> 'a list \<Rightarrow> 'e option" where
  "first_error h [] = None"
| "first_error h (x # xs) = (case h x of Some e \<Rightarrow> Some e | None \<Rightarrow> first_error h xs)"

definition or_else :: "'e option \<Rightarrow> 'e option \<Rightarrow> 'e option" where
  "or_else a b = (case a of Some e \<Rightarrow> Some e | None \<Rightarrow> b)"

text \<open>
  \<open>names\<close> are the keys of the threshold map in the order of the iteration. Of several values
  out of range the source reports any one, the model the first.
\<close>

definition validateSequenceThresholds :: "SchemaConfig \<Rightarrow> string list \<Rightarrow> lint_error option" where
  "validateSequenceThresholds c names =
     (let errorPct = sequenceThreshold c LevelError;
          warningPct = sequenceThreshold c LevelWarning;
          noticePct = sequenceThreshold c LevelNotice
      in or_else (first_error (\<lambda>n. if n \<in> {''error'', ''warning'', ''notice''} then None else Some (UnknownLevel n)) names)
         (or_else (first_error (\<lambda>(n, v). if v \<le> Fin 0 \<or> lit 100 < v then Some (ThresholdRange n v) else None)
            [(''error'', errorPct), (''warning'', warningPct), (''notice'', noticePct)])
         (if warningPct < errorPct \<or> noticePct < warningPct then Some (ThresholdOrder errorPct warningPct noticePct)
          else None)))"

definition lint_Validate :: "(string \<Rightarrow> string \<Rightarrow> bool option) \<Rightarrow> SchemaConfig \<Rightarrow> string list \<Rightarrow> lint_error option" where
  "lint_Validate gl c names =
     (let known = map chk_Code lint_registry;
          unknown = (\<lambda>(l, codes). first_error (\<lambda>code. if code \<in> set known then None else Some (UnknownCheck l code)) codes)
      in or_else (first_error unknown [(''disabled_checks'', DisabledChecks c), (''enabled_checks'', EnabledChecks c)])
         (or_else (first_error (\<lambda>mask. if gl mask [] = None then Some (BadMask mask) else None) (IgnoreSchemas c))
            (validateSequenceThresholds c names)))"

section \<open>A plan covers the registry\<close>

definition check_runs :: "SchemaConfig \<Rightarrow> i64 \<Rightarrow> Check \<Rightarrow> bool" where
  "check_runs cfg ver c \<longleftrightarrow> check_enabled cfg c \<and> \<not> (0 < ver \<and> ver < MinVersion c)"

lemma plan_checks:
  "fold (plan_check cfg ver) cs (plans, skips) =
     (fold add_code (filter (check_runs cfg ver) cs) plans,
      skips @ map (\<lambda>c. skip_of c (if check_enabled cfg c then SkipUnsupportedVersion else SkipDisabled))
        (filter (\<lambda>c. \<not> check_runs cfg ver c) cs))"
  by (induction cs arbitrary: plans skips) (auto simp: plan_check_def check_runs_def)

lemma add_codes:
  "distinct (map lq_Query (fold add_code cs [])) \<and> set (map lq_Query (fold add_code cs [])) = chk_Query ` set cs
   \<and> (\<forall>p\<in>set (fold add_code cs []). Codes p = map chk_Code (filter (\<lambda>c. chk_Query c = lq_Query p) cs))"
proof (induction cs rule: rev_induct)
  case (snoc c cs)
  define ps where "ps = fold add_code cs []"
  have IH: "distinct (map lq_Query ps)" "set (map lq_Query ps) = chk_Query ` set cs"
    "\<forall>p\<in>set ps. Codes p = map chk_Code (filter (\<lambda>c. chk_Query c = lq_Query p) cs)"
    using snoc by (simp_all add: ps_def)
  have e: "fold add_code (cs @ [c]) [] = add_code c ps" by (simp add: ps_def)
  show ?case
  proof (cases "chk_Query c \<in> set (map lq_Query ps)")
    case True
    define add where "add p = (if lq_Query p = chk_Query c then p\<lparr>Codes := Codes p @ [chk_Code c]\<rparr> else p)" for p :: LintQuery
    have a: "add_code c ps = map add ps" using True by (simp add: add_code_def add_def)
    have q: "lq_Query (add p) = lq_Query p" for p by (simp add: add_def)
    then have m: "map lq_Query (map add ps) = map lq_Query ps" by simp
    have "Codes (add p) = map chk_Code (filter (\<lambda>d. chk_Query d = lq_Query (add p)) (cs @ [c]))" if "p \<in> set ps" for p
      using IH(3) that by (simp add: add_def)
    moreover have "chk_Query c \<in> chk_Query ` set cs" using True unfolding IH(2) .
    ultimately show ?thesis unfolding e a m using IH(1,2) by auto
  next
    case False
    let ?new = "\<lparr>lq_Query = chk_Query c, Codes = [chk_Code c]\<rparr>"
    have a: "add_code c ps = ps @ [?new]" using False by (simp add: add_code_def)
    have "filter (\<lambda>d. chk_Query d = chk_Query c) cs = []"
      using False unfolding IH(2) filter_empty_conv by (metis imageI)
    then have "Codes ?new = map chk_Code (filter (\<lambda>d. chk_Query d = lq_Query ?new) (cs @ [c]))" by simp
    moreover have "Codes p = map chk_Code (filter (\<lambda>d. chk_Query d = lq_Query p) (cs @ [c]))" if p: "p \<in> set ps" for p
    proof -
      have "chk_Query c \<noteq> lq_Query p" using False p by (metis image_eqI list.set_map)
      then show ?thesis using IH(3) p by simp
    qed
    moreover have "distinct (map lq_Query (ps @ [?new]))" using IH(1) False by simp
    moreover have "set (map lq_Query (ps @ [?new])) = chk_Query ` set (cs @ [c])" using IH(2) by simp
    ultimately show ?thesis unfolding e a by (simp del: map_append)
  qed
qed simp

text \<open>
  Planning a schema-lint run covers the registry. Every check is either skipped, with the
  reason, or served: the planned queries are distinct and are exactly the queries of the checks
  that run, and each carries the codes of all of them that read its rows, in registry order. A
  check is skipped as disabled whenever the configuration switches it off, and as unsupported only
  on an older server.
\<close>

theorem plan_covers_registry:
  "(let (plans, skips) = lint_plan cfg ver;
        running = filter (check_runs cfg ver) lint_registry;
        rest = filter (\<lambda>c. \<not> check_runs cfg ver c) lint_registry
    in distinct (map lq_Query plans)
       \<and> set (map lq_Query plans) = chk_Query ` set running
       \<and> list_all (\<lambda>p. Codes p = map chk_Code (filter (\<lambda>c. chk_Query c = lq_Query p) running)) plans
       \<and> skips = map (\<lambda>c. skip_of c (if check_enabled cfg c then SkipUnsupportedVersion else SkipDisabled)) rest)"
  using add_codes [of "filter (check_runs cfg ver) lint_registry"]
  by (simp add: lint_plan_def plan_checks list_all_iff del: filter_filter)

section \<open>The roll-up\<close>

definition root_of :: "(ObjectRef \<times> ObjectRef) list \<Rightarrow> LintFinding \<Rightarrow> ObjectRef" where
  "root_of roots f = (case map_of roots (lf_Schema f, lf_Object f) of Some r \<Rightarrow> r | None \<Rightarrow> (lf_Schema f, lf_Object f))"

definition is_part :: "(ObjectRef \<times> ObjectRef) list \<Rightarrow> LintFinding \<Rightarrow> bool" where
  "is_part roots f \<longleftrightarrow> map_of roots (lf_Schema f, lf_Object f) \<noteq> None"

text \<open>The group a raw finding belongs to, and the group a rolled-up finding stands for.\<close>

definition member_key :: "(ObjectRef \<times> ObjectRef) list \<Rightarrow> LintFinding \<Rightarrow> groupKey" where
  "member_key roots f = (lf_Code f, root_of roots f, part_of f)"

definition group_key :: "LintFinding \<Rightarrow> groupKey" where
  "group_key g = (lf_Code g, (lf_Schema g, lf_Object g), part_of g)"

definition members :: "(ObjectRef \<times> ObjectRef) list \<Rightarrow> LintFinding list \<Rightarrow> groupKey \<Rightarrow> LintFinding list" where
  "members roots fs k = filter (\<lambda>f. collapses f \<and> member_key roots f = k) fs"

text \<open>A rolled-up finding has the worst level of its group and counts its partitions.\<close>

definition rolled :: "(ObjectRef \<times> ObjectRef) list \<Rightarrow> LintFinding list \<Rightarrow> LintFinding \<Rightarrow> bool" where
  "rolled roots fs g \<longleftrightarrow>
     (let ms = members roots fs (group_key g)
      in list_ex (\<lambda>f. lf_Level f = lf_Level g) ms
         \<and> list_all (\<lambda>f. levelRank (lf_Level g) \<le> levelRank (lf_Level f)) ms
         \<and> Partitions (lf_Params g) = length (filter (is_part roots) ms)
         \<and> UniqueNullable (lf_Params g) = list_ex (\<lambda>f. UniqueNullable (lf_Params f)) ms)"

definition collapse_inv :: "(ObjectRef \<times> ObjectRef) list \<Rightarrow> LintFinding list \<Rightarrow> collapse_state \<Rightarrow> bool" where
  "collapse_inv roots fs = (\<lambda>(out, groups).
     filter (\<lambda>f. \<not> collapses f) out = filter (\<lambda>f. \<not> collapses f) fs
     \<and> (\<forall>k i. map_of groups k = Some i \<longleftrightarrow> i < length out \<and> collapses (out ! i) \<and> group_key (out ! i) = k)
     \<and> (\<forall>f\<in>set fs. collapses f \<longrightarrow> map_of groups (member_key roots f) \<noteq> None)
     \<and> (\<forall>i < length out. collapses (out ! i) \<longrightarrow> rolled roots fs (out ! i)))"

lemma levelRank_inj: "levelRank a = levelRank b \<longleftrightarrow> a = b"
  by (cases a; cases b) (simp_all add: levelRank_def)

lemma filter_update: "i < length xs \<Longrightarrow> \<not> P (xs ! i) \<Longrightarrow> \<not> P y \<Longrightarrow> filter P (xs[i := y]) = filter P xs"
  by (induction xs arbitrary: i) (auto split: nat.splits)

lemma merge_key:
  assumes "member_key roots f = group_key b"
  shows "group_key (mergePartitionFinding b f c) = group_key b" and "collapses (mergePartitionFinding b f c) = collapses b"
  using assms
  by (auto simp: mergePartitionFinding_def Let_def group_key_def member_key_def collapses_def part_of_def)

lemma merge_rolled:
  assumes "rolled roots fs b" and "member_key roots f = group_key b" and "collapses f"
  shows "rolled roots (fs @ [f]) (mergePartitionFinding b f (is_part roots f))"
proof -
  let ?g = "mergePartitionFinding b f (is_part roots f)"
  have ms: "members roots (fs @ [f]) (group_key ?g) = members roots fs (group_key b) @ [f]"
    using assms(2,3) by (simp add: merge_key(1) [OF assms(2)] members_def)
  have lv: "lf_Level ?g = (if worseThan f b then lf_Level f else lf_Level b)"
    by (simp add: mergePartitionFinding_def Let_def)
  have w: "levelRank (lf_Level ?g) \<le> levelRank (lf_Level f)" "levelRank (lf_Level ?g) \<le> levelRank (lf_Level b)"
    by (auto simp: lv worseThan_def split: if_splits)
  have p: "Partitions (lf_Params ?g) = Partitions (lf_Params b) + (if is_part roots f then 1 else 0)"
    "UniqueNullable (lf_Params ?g) = (UniqueNullable (lf_Params b) \<or> UniqueNullable (lf_Params f))"
    by (simp_all add: mergePartitionFinding_def Let_def)
  show ?thesis
    using assms(1) w p lv unfolding rolled_def Let_def ms by (auto simp: list_all_iff list_ex_iff)
qed

lemma members_snoc:
  "members roots (fs @ [f]) k = members roots fs k @ (if collapses f \<and> member_key roots f = k then [f] else [])"
  by (simp add: members_def)

lemma rolled_other: "\<not> (collapses f \<and> member_key roots f = group_key g) \<Longrightarrow> rolled roots (fs @ [f]) g = rolled roots fs g"
proof -
  assume "\<not> (collapses f \<and> member_key roots f = group_key g)"
  then have "members roots (fs @ [f]) (group_key g) = members roots fs (group_key g)" by (simp add: members_snoc)
  then show ?thesis by (simp only: rolled_def)
qed

lemma collapse_invD:
  assumes "collapse_inv roots fs (out, groups)"
  shows "filter (\<lambda>f. \<not> collapses f) out = filter (\<lambda>f. \<not> collapses f) fs"
    and "map_of groups k = Some i \<longleftrightarrow> i < length out \<and> collapses (out ! i) \<and> group_key (out ! i) = k"
    and "collapses g \<Longrightarrow> g \<in> set fs \<Longrightarrow> map_of groups (member_key roots g) \<noteq> None"
    and "i < length out \<Longrightarrow> collapses (out ! i) \<Longrightarrow> rolled roots fs (out ! i)"
  using assms unfolding collapse_inv_def prod.case by blast+

lemma collapse_invI:
  assumes "filter (\<lambda>f. \<not> collapses f) out = filter (\<lambda>f. \<not> collapses f) fs"
    and "\<And>k i. map_of groups k = Some i \<longleftrightarrow> i < length out \<and> collapses (out ! i) \<and> group_key (out ! i) = k"
    and "\<And>g. g \<in> set fs \<Longrightarrow> collapses g \<Longrightarrow> map_of groups (member_key roots g) \<noteq> None"
    and "\<And>i. i < length out \<Longrightarrow> collapses (out ! i) \<Longrightarrow> rolled roots fs (out ! i)"
  shows "collapse_inv roots fs (out, groups)"
  using assms unfolding collapse_inv_def prod.case by blast

lemma collapse_step_inv:
  assumes inv: "collapse_inv roots fs (out, groups)" and part: "Partitions (lf_Params f) = 0"
  shows "collapse_inv roots (fs @ [f]) (collapse_step roots f (out, groups))"
proof (cases "collapses f")
  case False
  then have e: "collapse_step roots f (out, groups) = (out @ [f], groups)" by (simp add: collapse_step_def)
  have "rolled roots (fs @ [f]) g = rolled roots fs g" for g using False by (simp add: rolled_other)
  then show ?thesis
    unfolding e using collapse_invD [OF inv] False
    by (intro collapse_invI) (auto simp: nth_append less_Suc_eq)
next
  case True
  let ?k = "member_key roots f"
  let ?root = "root_of roots f"
  note plain = collapse_invD(1) [OF inv] and ind = collapse_invD(2) [OF inv]
    and known = collapse_invD(3) [OF inv] and old = collapse_invD(4) [OF inv]
  show ?thesis
  proof (cases "map_of groups ?k")
    case None
    define g where "g = f\<lparr>lf_Schema := fst ?root, lf_Object := snd ?root,
      lf_Params := (lf_Params f)\<lparr>Partitions := (if is_part roots f then 1 else 0)\<rparr>\<rparr>"
    have keep: "(lf_Params f)\<lparr>Partitions := 0\<rparr> = lf_Params f" using part by (cases "lf_Params f") simp
    have e: "collapse_step roots f (out, groups) = (out @ [g], (?k, length out) # groups)"
      using True None keep
      by (cases "is_part roots f")
        (simp_all add: collapse_step_def Let_def member_key_def root_of_def is_part_def g_def split: option.splits)
    have gk: "group_key g = ?k" "collapses g"
      using True by (simp_all add: g_def group_key_def member_key_def part_of_def collapses_def)
    have "members roots fs ?k = []"
      unfolding members_def filter_empty_conv using None known by metis
    then have new: "rolled roots (fs @ [f]) g"
      using True by (simp add: rolled_def gk members_snoc) (simp add: g_def)
    have other: "?k \<noteq> group_key (out ! i)" if "i < length out" "collapses (out ! i)" for i
      using ind [of "group_key (out ! i)" i] None that by auto
    have "map_of ((?k, length out) # groups) k = Some i \<longleftrightarrow>
        i < length (out @ [g]) \<and> collapses ((out @ [g]) ! i) \<and> group_key ((out @ [g]) ! i) = k" for k i
      using ind [of k i] other [of i] None gk by (auto simp: nth_append less_Suc_eq)
    moreover have "rolled roots (fs @ [f]) ((out @ [g]) ! i)" if "i < length (out @ [g])" "collapses ((out @ [g]) ! i)" for i
      using that old [of i] new other [of i] rolled_other [of f roots "out ! i" fs] by (auto simp: nth_append less_Suc_eq)
    moreover have "map_of ((?k, length out) # groups) (member_key roots h) \<noteq> None" if "h \<in> set (fs @ [f])" "collapses h" for h
      using that known by auto
    ultimately show ?thesis
      unfolding e using plain True gk(2) by (intro collapse_invI) auto
  next
    case (Some j)
    then have j: "j < length out" "collapses (out ! j)" "group_key (out ! j) = ?k" using ind by auto
    define g where "g = mergePartitionFinding (out ! j) f (is_part roots f)"
    have e: "collapse_step roots f (out, groups) = (out[j := g], groups)"
      using True Some by (simp add: collapse_step_def Let_def member_key_def root_of_def is_part_def g_def split: option.splits)
    have gk: "group_key g = ?k" "collapses g"
      unfolding g_def using merge_key [OF j(3) [symmetric]] j by simp_all
    have new: "rolled roots (fs @ [f]) g"
      unfolding g_def by (rule merge_rolled [OF old [OF j(1,2)] j(3) [symmetric] True])
    have keys: "collapses (out[j := g] ! i) = collapses (out ! i)" "group_key (out[j := g] ! i) = group_key (out ! i)"
      if "i < length out" for i
      using that gk j by (cases "i = j"; simp)+
    have other: "?k \<noteq> group_key (out ! i)" if "i < length out" "collapses (out ! i)" "i \<noteq> j" for i
      using ind [of ?k i] Some that by auto
    have "rolled roots (fs @ [f]) (out[j := g] ! i)" if "i < length out" "collapses (out[j := g] ! i)" for i
      using that keys old [of i] new other [of i] rolled_other [of f roots "out ! i" fs] by (cases "i = j") auto
    moreover have "map_of groups k = Some i \<longleftrightarrow>
        i < length out \<and> collapses (out[j := g] ! i) \<and> group_key (out[j := g] ! i) = k" for k i
      using ind [of k i] keys [of i] by auto
    moreover have "map_of groups (member_key roots h) \<noteq> None" if "h \<in> set (fs @ [f])" "collapses h" for h
      using that known Some by auto
    moreover have "filter (\<lambda>f. \<not> collapses f) (out[j := g]) = filter (\<lambda>f. \<not> collapses f) (fs @ [f])"
      using plain True filter_update [OF j(1), of "\<lambda>f. \<not> collapses f" g] j(2) gk(2) by simp
    ultimately show ?thesis unfolding e by (intro collapse_invI) auto
  qed
qed

lemma collapse_fold_inv:
  "list_all (\<lambda>f. Partitions (lf_Params f) = 0) fs \<Longrightarrow> collapse_inv roots fs (fold (collapse_step roots) fs ([], []))"
proof (induction fs rule: rev_induct)
  case Nil
  then show ?case by (simp add: collapse_inv_def)
next
  case (snoc f fs)
  obtain out groups where s: "fold (collapse_step roots) fs ([], []) = (out, groups)" by fastforce
  show ?case using snoc collapse_step_inv [of roots fs out groups f] by (simp add: s)
qed

lemma collapse_inv_raw:
  assumes "list_all (\<lambda>f. Partitions (lf_Params f) = 0) fs"
  obtains groups where "collapse_inv roots fs (collapsePartitions fs roots, groups)"
proof (cases fs)
  case Nil
  have "collapse_inv roots fs (collapsePartitions fs roots, [])"
    by (simp add: Nil collapsePartitions_def collapse_inv_def)
  then show thesis by (rule that)
next
  case (Cons f gs)
  obtain out groups where s: "fold (collapse_step roots) fs ([], []) = (out, groups)" by fastforce
  have "collapse_inv roots fs (collapsePartitions fs roots, groups)"
    using collapse_fold_inv [OF assms, of roots] unfolding s collapsePartitions_def by (simp add: Cons)
  then show thesis by (rule that)
qed

lemma unique_index_distinct:
  assumes "\<And>k i. m k = Some i \<longleftrightarrow> i < length xs \<and> P (xs ! i) \<and> h (xs ! i) = k"
  shows "distinct (map h (filter P xs))"
proof -
  have "i = j" if "i < length xs" "j < length xs" "P (xs ! i)" "P (xs ! j)" "h (xs ! i) = h (xs ! j)" for i j
  proof -
    have "m (h (xs ! i)) = Some i" "m (h (xs ! i)) = Some j" using assms that by metis+
    then show ?thesis by simp
  qed
  then show ?thesis
  proof (induction xs rule: rev_induct)
    case (snoc x xs)
    have IH: "distinct (map h (filter P xs))"
    proof (rule snoc.IH)
      fix i j assume "i < length xs" "j < length xs" "P (xs ! i)" "P (xs ! j)" "h (xs ! i) = h (xs ! j)"
      then show "i = j" using snoc.prems [of i j] by (simp add: nth_append)
    qed
    have "h x \<noteq> h y" if y: "P x" "y \<in> set xs" "P y" for y
    proof -
      obtain i where "i < length xs" "xs ! i = y" using y by (auto simp: in_set_conv_nth)
      then show ?thesis using snoc.prems [of i "length xs"] y by (auto simp: nth_append)
    qed
    then show ?case using IH by auto
  qed simp
qed

lemma collapse_distinct:
  "collapse_inv roots fs (out, groups) \<Longrightarrow> distinct (map group_key (filter collapses out))"
  by (rule unique_index_distinct [of "map_of groups"]) (rule collapse_invD(2))


section \<open>Suppression, order and summary\<close>

lemma applySuppression_filter:
  "applySuppression gl fs cfg = filter (\<lambda>f. \<not> ignoredSchema gl cfg (lf_Schema f)) fs"
  by (simp add: applySuppression_def ignoredSchema_def)



lemma raw_unrolled: "list_all (\<lambda>f. Partitions (lf_Params f) = 0) (raw_findings i cfg)"
proof -
  have z: "Partitions zero_LintParams = 0" by (simp add: zero_LintParams_def)
  have q: "Partitions (lf_Params f) = 0" if "sequence_finding cfg chk r = Some f" for chk r f
    using that by (auto simp: sequence_finding_def lint_finding_def z Let_def split: if_splits option.splits prod.splits)
  note defs = list_all_iff lint_finding_def z List.map_filter_def
  have "list_all (\<lambda>f. Partitions (lf_Params f) = 0) (fromSequences rows cfg)" for rows
    by (auto simp: fromSequences_def defs q split: option.splits)
  moreover have "list_all (\<lambda>f. Partitions (lf_Params f) = 0) (fromRelationKeys rows cfg)" for rows
    by (auto simp: fromRelationKeys_def defs split: option.splits)
  moreover have "list_all (\<lambda>f. Partitions (lf_Params f) = 0) (fromSchemaPrivileges rows v cfg)" for rows v
    by (auto simp: fromSchemaPrivileges_def defs split: option.splits)
  moreover have "list_all (\<lambda>f. Partitions (lf_Params f) = 0) (fromUnlogged rows cfg)" for rows
    by (auto simp: fromUnlogged_def defs split: option.splits)
  moreover have "list_all (\<lambda>f. Partitions (lf_Params f) = 0) (fromUUIDLikeColumns rows cfg)" for rows
    by (auto simp: fromUUIDLikeColumns_def defs split: option.splits)
  moreover have "list_all (\<lambda>f. Partitions (lf_Params f) = 0) (fromRelations rows c cfg)" for rows c
    by (auto simp: fromRelations_def defs split: option.splits)
  moreover have "list_all (\<lambda>f. Partitions (lf_Params f) = 0) (fromUnsafeNames rows cfg)" for rows
    by (auto simp: fromUnsafeNames_def defs Let_def split: option.splits)
  moreover have "list_all (\<lambda>f. Partitions (lf_Params f) = 0) (fromInvalidConstraints rows cfg)" for rows
    by (auto simp: fromInvalidConstraints_def defs Let_def split: option.splits)
  moreover have "list_all (\<lambda>f. Partitions (lf_Params f) = 0) (fromPairs rows c l cfg)" for rows c l
    by (auto simp: fromPairs_def defs split: option.splits)
  ultimately show ?thesis by (simp add: raw_findings_def)
qed

text \<open>What the report relies on of \<^verbatim>\<open>slices.SortFunc\<close>: a sorted permutation.\<close>

locale lint_sorter =
  fixes srt :: "'a list \<Rightarrow> 'a list" and key :: "'a \<Rightarrow> 'k::linorder"
  assumes srt_mset: "mset (srt xs) = mset xs"
    and srt_sorted: "sorted (map key (srt xs))"
begin

lemma srt_set: "set (srt xs) = set xs"
  using srt_mset [of xs] by (rule mset_eq_setD)

lemma srt_count: "length (filter P (srt xs)) = length (filter P xs)"
  using srt_mset [of xs] by (metis mset_filter size_mset)

lemma srt_filter_mset: "mset (filter P (srt xs)) = mset (filter P xs)"
  by (simp add: srt_mset)

lemma srt_distinct: "distinct (map h (filter P xs)) \<Longrightarrow> distinct (map h (filter P (srt xs)))"
  using mset_eq_imp_distinct_iff [of "map h (filter P (srt xs))" "map h (filter P xs)"]
  by (simp add: srt_mset)

lemma srt_determined: "distinct (map key xs) \<Longrightarrow> srt xs = sort_key key xs"
  using sort_key_inj_key_eq [of xs "srt xs" key] by (simp add: srt_mset srt_sorted distinct_map)

end

interpretation finding_sort: lint_sorter "sort_key finding_order" finding_order
  by unfold_locales simp_all

interpretation skip_sort: lint_sorter "sort_key skip_order" skip_order
  by unfold_locales simp_all

section \<open>The report as a whole\<close>


lemma distinct_filter_split: "distinct (filter P xs) \<Longrightarrow> distinct (filter (\<lambda>x. \<not> P x) xs) \<Longrightarrow> distinct xs"
  by (induction xs) (auto split: if_splits)

lemma distinct_map_split:
  assumes "distinct (map h (filter P xs))" and "distinct (map h (filter (\<lambda>x. \<not> P x) xs))"
    and "\<And>x y. x \<in> set xs \<Longrightarrow> y \<in> set xs \<Longrightarrow> h x = h y \<Longrightarrow> P x = P y"
  shows "distinct (map h xs)"
proof -
  have "h x \<noteq> h y" if "P x" "\<not> P y" "x \<in> set xs" "y \<in> set xs" for x y
    using assms(3) that by blast
  then have "inj_on h (set xs)" using assms(1,2) by (simp add: distinct_map inj_on_def) metis
  moreover have "distinct xs"
    using assms(1,2) by (metis distinct_map distinct_filter_split)
  ultimately show ?thesis by (simp add: distinct_map)
qed

definition finding_address :: "LintFinding \<Rightarrow> string \<times> string \<times> string" where
  "finding_address f = (lf_Code f, lf_Schema f, lf_Object f)"

lemma order_key_fine:
  assumes "finding_order f = finding_order g"
  shows "group_key f = group_key g" and "finding_address f = finding_address g" and "collapses f = collapses g"
  using assms by (simp_all add: finding_order_def group_key_def part_of_def finding_address_def collapses_def)

text \<open>
  The order of the schema report does not rest on the sort. When the checks without roll-up
  report every object once, as the catalogue's keys guarantee, any two sorts give the same list of
  findings, the insertion sort by the documented key: paging through the report neither repeats
  nor drops a row.
\<close>

theorem report_order_is_determined:
  assumes "lint_sorter (sortFindings env) finding_order"
    and "distinct (map finding_address (filter (\<lambda>f. \<not> collapses f) (raw_findings i cfg)))"
  shows "rep_Findings (BuildReport env i cfg) =
     sort_key finding_order (filter (\<lambda>f. \<not> ignoredSchema (glob env) cfg (lf_Schema f))
       (collapsePartitions (raw_findings i cfg) (PartitionRoots i)))"
proof -
  let ?out = "collapsePartitions (raw_findings i cfg) (PartitionRoots i)"
  obtain groups where inv: "collapse_inv (PartitionRoots i) (raw_findings i cfg) (?out, groups)"
    by (rule collapse_inv_raw [OF raw_unrolled])
  have "distinct (map finding_order ?out)"
  proof (rule distinct_map_split)
    show "distinct (map finding_order (filter collapses ?out))"
      using collapse_distinct [OF inv] by (rule distinct_map_refine) (rule order_key_fine(1))
    show "distinct (map finding_order (filter (\<lambda>f. \<not> collapses f) ?out))"
      using assms(2) unfolding collapse_invD(1) [OF inv] by (rule distinct_map_refine) (rule order_key_fine(2))
  qed (rule order_key_fine(3))
  then have "distinct (map finding_order (filter (\<lambda>f. \<not> ignoredSchema (glob env) cfg (lf_Schema f)) ?out))"
    by (rule distinct_map_filter)
  from lint_sorter.srt_determined [OF assms(1) this] show ?thesis
    by (simp add: BuildReport_def Let_def applySuppression_filter)
qed

text \<open>A database with a partitioned table without a key, another in an ignored schema, and a sequence.\<close>

definition demo_inputs :: Inputs where
  "demo_inputs =
     \<lparr>ServerVersionNum = 160000,
      Sequences = [\<lparr>sr_Schema = ''app'', sr_Object = ''ids'', sr_LastValue = 95, LastValueKnown = True, sr_MaxValue = 100,
        sr_MinValue = 1, sr_FreePct = lit 5, sr_OwnedBy = [], sr_OwnedColumnType = []\<rparr>],
      RelationKeys =
        [\<lparr>rk_Schema = ''app'', rk_Object = ''log_1'', HasUnique = False, rk_UniqueNullable = False\<rparr>,
         \<lparr>rk_Schema = ''app'', rk_Object = ''log_2'', HasUnique = False, rk_UniqueNullable = False\<rparr>,
         \<lparr>rk_Schema = ''tmp'', rk_Object = ''t'', HasUnique = False, rk_UniqueNullable = False\<rparr>],
      SchemaPrivileges = [], Unlogged = [], UUIDLikeColumns = [], WithoutFk = [], WithoutColumns = [],
      UnsafeNames = [], InvalidConstrs = [], FkTypeMismatch = [], FkNullable = [], FkSimilar = [],
      IndexSimilar = [], BtreeOnArray = [],
      PartitionRoots = [((''app'', ''log_1''), (''app'', ''log'')), ((''app'', ''log_2''), (''app'', ''log''))],
      in_Skipped = [], in_Truncated = False\<rparr>"

definition demo_lint_env :: lint_env where
  "demo_lint_env =
     \<lparr>glob = (\<lambda>mask s. Some (mask = s)), sortFindings = sort_key finding_order, sortSkips = sort_key skip_order\<rparr>"

definition demo_lint_config :: SchemaConfig where
  "demo_lint_config = zero_SchemaConfig\<lparr>IgnoreSchemas := [''tmp'']\<rparr>"

lemma demo_address_once:
  "distinct (map finding_address (filter (\<lambda>f. \<not> collapses f) (raw_findings demo_inputs demo_lint_config)))"
  by code_simp



theorem report_order_is_determined_witness:
  "rep_Findings (BuildReport demo_lint_env demo_inputs demo_lint_config) =
     sort_key finding_order (filter (\<lambda>f. \<not> ignoredSchema (glob demo_lint_env) demo_lint_config (lf_Schema f))
       (collapsePartitions (raw_findings demo_inputs demo_lint_config) (PartitionRoots demo_inputs)))"
proof (rule report_order_is_determined [OF _ demo_address_once])
  show "lint_sorter (sortFindings demo_lint_env) finding_order"
    using finding_sort.lint_sorter_axioms by (simp add: demo_lint_env_def)
qed

section \<open>Pairs that share their first object\<close>

text \<open>
  C20: of two similar-index pairs that share the first index the report shows one. The roll-up
  identifies a finding by the first object of the pair only, also on a table without partitions,
  so the second pair disappears, while the order of the report has a key for exactly such rows.
\<close>

theorem second_pair_is_hidden:
  "(let cfg = zero_SchemaConfig\<lparr>EnabledChecks := [''index_similar'']\<rparr>;
        fs = fromPairs [r, r\<lparr>Second := other\<rparr>] ''index_similar'' LevelNotice cfg
    in map (OtherObject \<circ> lf_Params) fs = [Second r, other]
       \<and> map (OtherObject \<circ> lf_Params) (collapsePartitions fs []) = [Second r])"
proof -
  let ?c = "check ''index_similar'' ''index'' ''indexes/similar_3'' False ''/indexes-problems'' True"
  have k: "lookup_check ''index_similar'' = Some ?c" by code_simp
  have e: "enabledCheck ''index_similar'' (zero_SchemaConfig\<lparr>EnabledChecks := [''index_similar'']\<rparr>) = Some ?c"
    by (simp add: enabledCheck_def k check_enabled_def zero_SchemaConfig_def) (simp add: check_def)
  show ?thesis
    by (simp add: fromPairs_def e lint_finding_def collapsePartitions_def collapse_step_def collapses_def k part_of_def
        mergePartitionFinding_def worseThan_def used_pct_def zero_LintParams_def check_def)
qed

end
