(* ===== verification/Go_Utf8.thy ===== *)
theory Go_Utf8
  imports Go_Strings
begin

text \<open>
  UTF-8 as Go reads it: the runes that \<^verbatim>\<open>range\<close> visits in a string, and
  \<^verbatim>\<open>utf8.ValidString\<close>. A byte that starts no valid sequence is a rune of its own.
\<close>

section \<open>Decoding\<close>

definition cont_byte :: "nat \<Rightarrow> nat \<Rightarrow> char \<Rightarrow> bool" where
  "cont_byte lo hi c \<longleftrightarrow> lo \<le> of_char c \<and> of_char c \<le> hi"

definition conts :: "(nat \<times> nat) list \<Rightarrow> string \<Rightarrow> bool" where
  "conts rs s \<longleftrightarrow> length rs \<le> length s \<and> list_all2 (\<lambda>(lo, hi) c. cont_byte lo hi c) rs (take (length rs) s)"

text \<open>
  The ranges of the bytes behind a first byte of UTF-8; a first byte without them, or followed by
  others, is a rune of its own.
\<close>

definition rune_tail :: "nat \<Rightarrow> (nat \<times> nat) list" where
  "rune_tail b =
     (let any = (128, 191)
      in if 194 \<le> b \<and> b \<le> 223 then [any]
         else if b = 224 then [(160, 191), any]
         else if b = 237 then [(128, 159), any]
         else if 225 \<le> b \<and> b \<le> 239 then [any, any]
         else if b = 240 then [(144, 191), any, any]
         else if 241 \<le> b \<and> b \<le> 243 then [any, any, any]
         else if b = 244 then [(128, 143), any, any]
         else [])"

definition rune_rest :: "char \<Rightarrow> string \<Rightarrow> nat" where
  "rune_rest c s = (let rs = rune_tail (of_char c) in if conts rs s then length rs else 0)"

text \<open>The runes of a text, as \<^verbatim>\<open>range\<close> visits them.\<close>

function runes :: "string \<Rightarrow> string list" where
  "runes [] = []"
| "runes (c # s) = (c # take (rune_rest c s) s) # runes (drop (rune_rest c s) s)"
  by pat_completeness auto

termination
  by (relation "measure length") auto

text \<open>\<^verbatim>\<open>utf8.ValidString\<close>\<close>

function ValidString :: "string \<Rightarrow> bool" where
  "ValidString [] = True"
| "ValidString (c # s) =
     (if of_char c < (128 :: nat) then ValidString s
      else rune_rest c s \<noteq> 0 \<and> ValidString (drop (rune_rest c s) s))"
  by pat_completeness auto

termination
  by (relation "measure length") auto

section \<open>Runes of a prefix\<close>

lemma concat_runes: "concat (runes s) = s"
  by (induction s rule: runes.induct) simp_all

lemma runes_length: "length (runes s) \<le> length s"
proof (induction s rule: runes.induct)
  case (2 c s)
  then show ?case by (simp add: le_diff_conv) 
qed simp

lemma conts_take: "conts rs s \<Longrightarrow> conts rs (take (length rs) s @ t)"
  by (simp add: conts_def)

lemma rune_rest_le: "rune_rest c s \<le> length s"
  by (simp add: rune_rest_def Let_def conts_def)

lemma conts_mono: "conts rs (take n s) \<Longrightarrow> conts rs s"
  by (auto simp: conts_def min_def split: if_splits)

lemma rune_rest_cut:
  assumes "rune_rest c s \<le> n"
  shows "rune_rest c (take n s) = rune_rest c s"
proof -
  let ?rs = "rune_tail (of_char c)"
  show ?thesis
  proof (cases "conts ?rs s")
    case True
    then have "length ?rs \<le> n" using assms by (simp add: rune_rest_def)
    then have "conts ?rs (take n s)" using True by (simp add: conts_def min_def)
    then show ?thesis using True by (simp add: rune_rest_def)
  next
    case False
    then have "\<not> conts ?rs (take n s)" using conts_mono by blast
    then show ?thesis using False by (simp add: rune_rest_def)
  qed
qed

lemma runes_of_prefix: "runes (concat (take k (runes s))) = take k (runes s)"
proof (induction s arbitrary: k rule: runes.induct)
  case (2 c s)
  show ?case
  proof (cases k)
    case (Suc j)
    define r where "r = rune_rest c s"
    define rest where "rest = concat (take j (runes (drop r s)))"
    have split: "drop r s = rest @ concat (drop j (runes (drop r s)))"
      unfolding rest_def by (metis append_take_drop_id concat_append concat_runes)
    define n where "n = r + length rest"
    have cut: "take n s = take r s @ rest"
      unfolding n_def take_add using split by (metis append_eq_conv_conj)
    have rl: "length (take r s) = r" using rune_rest_le [of c s] by (simp add: r_def)
    have "rune_rest c (take n s) = r" unfolding r_def by (rule rune_rest_cut) (simp add: n_def r_def)
    then have "runes (c # take r s @ rest) = (c # take r s) # runes rest"
      using rl by (simp add: cut)
    then show ?thesis using "2" [of j] Suc by (simp add: r_def rest_def)
  qed simp
qed simp

end
