(* ===== verification/Activity.thy ===== *)
theory Activity
  imports Go_Utf8 "HOL-Library.Word"
begin

text \<open>
  Sessions of \<^verbatim>\<open>pg_stat_activity\<close> (\<^verbatim>\<open>backend/internal/activity/activity.go\<close>
  and \<^verbatim>\<open>config.go\<close>): what a session is doing, whether it counts as load, the key that
  groups sessions by statement, the cut of a text to a number of runes, and the settings.

  The four regular expressions that mask literals are matchers: given the byte before a position
  and the text from there they return the text behind the match of the expression at that
  position. A string is its bytes. The fingerprint of the SQL parser is a parameter.
\<close>

unbundle bit_operations_syntax

section \<open>Sessions\<close>

definition act_MinVersionNum :: i64 where "act_MinVersionNum = 140000"

definition act_Classes :: "string list" where
  "act_Classes =
     [''CPU'', ''IO'', ''Lock'', ''LWLock'', ''BufferPin'', ''IPC'', ''Client'', ''Timeout'', ''ClientIdleTx'',
      ''Extension'', ''Activity'', ''Other'']"

definition waitTypeClasses :: "(string \<times> string) list" where
  "waitTypeClasses =
     [(''Activity'', ''Activity''), (''BufferPin'', ''BufferPin''), (''Client'', ''Client''),
      (''Extension'', ''Extension''), (''IO'', ''IO''), (''IPC'', ''IPC''), (''Lock'', ''Lock''),
      (''LWLock'', ''LWLock''), (''Timeout'', ''Timeout'')]"

datatype key_kind = KeyKindQueryID | KeyKindFingerprint | KeyKindText | KeyKindNone

definition RunsStatement :: "string \<Rightarrow> bool" where
  "RunsStatement backendType \<longleftrightarrow> backendType = ''client backend'' \<or> backendType = ''parallel worker''"

record Session =
  ss_PID :: i64
  ss_BackendType :: string
  ss_Database :: string
  ss_User :: string
  ss_Application :: string
  ss_ClientAddr :: string
  ss_State :: string
  ss_WaitType :: string
  ss_WaitEvent :: string
  ss_QueryID :: i64
  ss_QueryStart :: time
  ss_XactStart :: time
  ss_HoldsXmin :: bool
  ss_Text :: string
  ss_Key :: string
  ss_KeyKind :: key_kind

record Sample =
  sm_At :: time
  sm_Sessions :: "Session list"
  sm_Truncated :: bool

record Access =
  CanReadAllStats :: bool
  acc_QueryIDAvailable :: bool
  TrackUtility :: bool

definition QueryIDAvailable :: "string \<Rightarrow> bool \<Rightarrow> bool" where
  "QueryIDAvailable computeQueryID pgssPreloaded =
     (let v = map lower computeQueryID
      in if v = ''on'' \<or> v = ''regress'' then True else if v = ''auto'' then pgssPreloaded else False)"

definition act_Class :: "Session \<Rightarrow> string" where
  "act_Class s =
     (if HasPrefix (ss_State s) ''idle in transaction'' then ''ClientIdleTx''
      else if ss_WaitType s = [] then ''CPU''
      else (case map_of waitTypeClasses (ss_WaitType s) of Some c \<Rightarrow> c | None \<Rightarrow> ''Other''))"

definition Counted :: "Session \<Rightarrow> bool \<Rightarrow> bool" where
  "Counted s includeBackground =
     (if RunsStatement (ss_BackendType s)
      then ss_State s \<in> {''active'', ''idle in transaction'', ''idle in transaction (aborted)'', ''fastpath function call''}
      else includeBackground \<and> ss_WaitType s \<noteq> ''Activity'')"

section \<open>Masking of literals\<close>

type_synonym matcher = "char option \<Rightarrow> string \<Rightarrow> string option"

definition quote :: char where "quote = CHR 0x27"

text \<open>
  The texts behind \<^verbatim>\<open>(?:[^']|'')*'\<close> in the order of preference: a doubled quote is
  taken as content first and as the closing quote only if nothing further closes the literal.
\<close>

fun lit_tails :: "string \<Rightarrow> string list" where
  "lit_tails [] = []"
| "lit_tails [c] = (if c = quote then [[]] else [])"
| "lit_tails (c # d # s) =
     (if c \<noteq> quote then lit_tails (d # s)
      else if d = quote then lit_tails s @ [d # s]
      else [d # s])"

definition stringLiteral :: matcher where
  "stringLiteral prev s =
     (case s of
        [] \<Rightarrow> None
      | c # cs \<Rightarrow> if c = quote then (case lit_tails cs of [] \<Rightarrow> None | t # _ \<Rightarrow> Some t) else None)"

definition is_word :: "char \<Rightarrow> bool" where
  "is_word c \<longleftrightarrow> is_digit c \<or> (CHR ''A'' \<le> c \<and> c \<le> CHR ''Z'') \<or> (CHR ''a'' \<le> c \<and> c \<le> CHR ''z'') \<or> c = CHR ''_''"

definition word_ends :: "string \<Rightarrow> bool" where
  "word_ends s = (case s of [] \<Rightarrow> True | c # _ \<Rightarrow> \<not> is_word c)"

text \<open>
  \<^verbatim>\<open>\b\d+(?:\.\d+)?\b\<close>: behind a shorter run of digits stands a digit, which is no word
  boundary, so only the whole runs can match.
\<close>

definition numericLiteral :: matcher where
  "numericLiteral prev s =
     (let ds = takeWhile is_digit s;
          rest = dropWhile is_digit s;
          fraction = (case rest of
                        c # cs \<Rightarrow> if c = CHR ''.'' \<and> takeWhile is_digit cs \<noteq> [] then Some (dropWhile is_digit cs) else None
                      | [] \<Rightarrow> None)
      in if ds = [] \<or> (case prev of Some p \<Rightarrow> is_word p | None \<Rightarrow> False) then None
         else (case fraction of
                 Some t \<Rightarrow> if word_ends t then Some t else if word_ends rest then Some rest else None
               | None \<Rightarrow> if word_ends rest then Some rest else None))"

definition is_rx_space :: "char \<Rightarrow> bool" where
  "is_rx_space c \<longleftrightarrow> c \<in> {CHR 0x09, CHR 0x0A, CHR 0x0C, CHR 0x0D, CHR '' ''}"

definition skip_rx :: "string \<Rightarrow> string" where "skip_rx s = dropWhile is_rx_space s"

lemma skip_rx_length: "length (skip_rx s) \<le> length s"
  by (simp add: skip_rx_def length_dropWhile_le)

text \<open>One repetition of \<^verbatim>\<open>\s*,\s*item\<close>.\<close>

definition rx_more :: "string \<Rightarrow> string \<Rightarrow> string option" where
  "rx_more item s =
     (case skip_rx s of
        [] \<Rightarrow> None
      | c # cs \<Rightarrow> if c = CHR '','' then CutPrefix (skip_rx cs) item else None)"

lemma CutPrefix_length: "CutPrefix s p = Some t \<Longrightarrow> length t + length p = length s"
  by (auto simp: CutPrefix_def HasPrefix_def dest: prefix_length_le split: if_splits)

lemma rx_more_shorter: "rx_more item s = Some t \<Longrightarrow> length t < length s"
proof -
  assume h: "rx_more item s = Some t"
  then obtain cs where s: "skip_rx s = CHR '','' # cs" "CutPrefix (skip_rx cs) item = Some t"
    by (auto simp: rx_more_def split: list.splits if_splits)
  have "length t \<le> length (skip_rx cs)" using CutPrefix_length [OF s(2)] by simp
  moreover have "length (skip_rx cs) \<le> length cs" "length (CHR '','' # cs) \<le> length s"
    using skip_rx_length [of cs] skip_rx_length [of s] s(1) by simp_all
  ultimately show "length t < length s" by simp
qed

function rx_items :: "string \<Rightarrow> string \<Rightarrow> string" where
  "rx_items item s = (case rx_more item s of None \<Rightarrow> s | Some t \<Rightarrow> rx_items item t)"
  by pat_completeness auto

termination
  by (relation "measure (\<lambda>(item, s). length s)") (auto dest: rx_more_shorter)

declare rx_items.simps [simp del]

definition literalList :: matcher where
  "literalList prev s =
     (case s of
        [] \<Rightarrow> None
      | c # cs \<Rightarrow>
          if c \<noteq> CHR ''('' then None
          else (case CutPrefix (skip_rx cs) ''?'' of
                  None \<Rightarrow> None
                | Some t \<Rightarrow> CutPrefix (skip_rx (rx_items ''?'' t)) '')''))"

definition tupleList :: matcher where
  "tupleList prev s =
     (case CutPrefix s ''(?)'' of
        None \<Rightarrow> None
      | Some t \<Rightarrow> map_option (rx_items ''(?)'') (rx_more ''(?)'' t))"

text \<open>\<^verbatim>\<open>ReplaceAllString\<close> of an expression that matches no empty text.\<close>

function rx_replace :: "matcher \<Rightarrow> string \<Rightarrow> char option \<Rightarrow> string \<Rightarrow> string" where
  "rx_replace mt repl prev [] = []"
| "rx_replace mt repl prev (c # cs) =
     (case mt prev (c # cs) of
        None \<Rightarrow> c # rx_replace mt repl (Some c) cs
      | Some t \<Rightarrow>
          if length t \<le> length cs then repl @ rx_replace mt repl (Some ((c # cs) ! (length cs - length t))) t
          else c # rx_replace mt repl (Some c) cs)"
  by pat_completeness auto

termination
  by (relation "measure (\<lambda>(mt, repl, prev, s). length s)") auto

definition ReplaceAllString :: "matcher \<Rightarrow> string \<Rightarrow> string \<Rightarrow> string" where
  "ReplaceAllString mt s repl = rx_replace mt repl None s"

definition mask_literals :: "string \<Rightarrow> string" where
  "mask_literals txt =
     (let masked = ReplaceAllString numericLiteral (ReplaceAllString stringLiteral txt ''?'') ''?''
      in ReplaceAllString tupleList (ReplaceAllString literalList masked ''(?)'') ''(?)'')"

section \<open>Statement keys\<close>

text \<open>\<^verbatim>\<open>hash/fnv\<close>, 64-bit FNV-1a.\<close>

definition fnv_offset :: "64 word" where "fnv_offset = 14695981039346656037"

definition fnv_prime :: "64 word" where "fnv_prime = 1099511628211"

definition fnv1a :: "string \<Rightarrow> 64 word" where
  "fnv1a s = foldl (\<lambda>h c. (h XOR word_of_nat (of_char c)) * fnv_prime) fnv_offset s"

definition hex_digit :: "nat \<Rightarrow> char" where
  "hex_digit n = (if n < 10 then char_of (48 + n) else char_of (87 + n))"

text \<open>\<^verbatim>\<open>%016x\<close>\<close>

definition hex16 :: "64 word \<Rightarrow> string" where
  "hex16 w = map (\<lambda>i. hex_digit (nat (uint w div 16 ^ i mod 16))) (rev [0..<16])"

definition FormatInt :: "i64 \<Rightarrow> string" where
  "FormatInt n = (if n < 0 then CHR ''-'' # Itoa (nat (- n)) else Itoa (nat n))"

definition insufficientPrivilege :: string where
  "insufficientPrivilege = ''<insufficient privilege>''"

text \<open>\<open>fp\<close> is the parser, if there is one; it has no result for a text it cannot parse.\<close>

definition QueryKey :: "Session \<Rightarrow> (string \<Rightarrow> string option) option \<Rightarrow> string \<times> key_kind" where
  "QueryKey s fp =
     (if ss_QueryID s \<noteq> 0 then (''q:'' @ FormatInt (ss_QueryID s), KeyKindQueryID)
      else
        (let txt = TrimSpace (ss_Text s)
         in if txt = [] \<or> Contains txt insufficientPrivilege then ([], KeyKindNone)
            else (let hashed = (''t:'' @ hex16 (fnv1a (mask_literals txt)), KeyKindText)
                  in case fp of
                       None \<Rightarrow> hashed
                     | Some p \<Rightarrow>
                         (case p txt of
                            None \<Rightarrow> hashed
                          | Some f \<Rightarrow> if f \<noteq> [] then (''f:'' @ f, KeyKindFingerprint) else hashed))))"

section \<open>Cutting a text\<close>

definition TruncateText :: "string \<Rightarrow> i64 \<Rightarrow> string" where
  "TruncateText s n =
     (if int (length s) \<le> n then s
      else if 0 \<le> n \<and> n < int (length (runes s)) then concat (take (nat n) (runes s))
      else s)"

section \<open>Settings\<close>

record ActivityConfig =
  WindowMinutes :: i64
  SampleTimeout :: duration
  MaxSessions :: i64

definition DefaultWindowMinutes :: i64 where "DefaultWindowMinutes = 60"
definition DefaultSampleTimeout :: duration where "DefaultSampleTimeout = second"
definition DefaultMaxSessions :: i64 where "DefaultMaxSessions = 2000"

definition act_WithDefaults :: "ActivityConfig \<Rightarrow> ActivityConfig" where
  "act_WithDefaults c =
     (let c = (if WindowMinutes c = 0 then c\<lparr>WindowMinutes := DefaultWindowMinutes\<rparr> else c);
          c = (if SampleTimeout c = 0 then c\<lparr>SampleTimeout := DefaultSampleTimeout\<rparr> else c)
      in if MaxSessions c = 0 then c\<lparr>MaxSessions := DefaultMaxSessions\<rparr> else c)"

datatype activity_error = BadWindow i64 | BadTimeout duration | BadMaxSessions i64

definition act_Validate :: "ActivityConfig \<Rightarrow> activity_error option" where
  "act_Validate c =
     (if WindowMinutes c < 5 \<or> 240 < WindowMinutes c then Some (BadWindow (WindowMinutes c))
      else if SampleTimeout c < 200 * millisecond \<or> 10 * second < SampleTimeout c then Some (BadTimeout (SampleTimeout c))
      else if MaxSessions c < 100 \<or> 20000 < MaxSessions c then Some (BadMaxSessions (MaxSessions c))
      else None)"

section \<open>Classes\<close>

lemma class_known: "act_Class s \<in> set act_Classes"
proof -
  have "list_all (\<lambda>(t, c). c \<in> set act_Classes) waitTypeClasses" by code_simp
  then have "map_of waitTypeClasses t = Some c \<Longrightarrow> c \<in> set act_Classes" for t c
    by (auto simp: list_all_iff dest: map_of_SomeD)
  then show ?thesis by (auto simp: act_Class_def split: option.splits) (simp_all add: act_Classes_def)
qed

lemma classes_distinct: "distinct act_Classes"
  by code_simp

section \<open>Keys\<close>

lemma FormatInt_inj: "FormatInt m = FormatInt n \<longleftrightarrow> m = n"
proof
  have d: "FormatInt m \<noteq> FormatInt n" if "m < 0" "0 \<le> n" for m n
  proof
    assume "FormatInt m = FormatInt n"
    then have "CHR ''-'' \<in> set (Itoa (nat n))" using that by (metis FormatInt_def leD list.set_intros(1))
    then show False using Itoa_digits [of "nat n"] by (auto simp: list_all_iff is_digit_def)
  qed
  assume e: "FormatInt m = FormatInt n"
  then have "(m < 0) = (n < 0)" using d by (metis linorder_not_less)
  then show "m = n" using e by (auto simp: FormatInt_def Itoa_inj split: if_splits)
qed simp

definition key_prefix :: "key_kind \<Rightarrow> string" where
  "key_prefix k =
     (case k of
        KeyKindQueryID \<Rightarrow> ''q:''
      | KeyKindFingerprint \<Rightarrow> ''f:''
      | KeyKindText \<Rightarrow> ''t:''
      | KeyKindNone \<Rightarrow> [])"

lemma QueryKey_prefix:
  "QueryKey s fp = (k, kind) \<Longrightarrow> take 2 k = key_prefix kind"
  by (auto simp: QueryKey_def key_prefix_def Let_def split: if_splits option.splits)

lemma key_prefix_inj: "key_prefix a = key_prefix b \<Longrightarrow> a = b"
  by (cases a; cases b) (simp_all add: key_prefix_def)

text \<open>
  Statement keys keep statements apart. Sessions with the same key have a key of the same
  kind, so a query identifier is never mixed up with a fingerprint or a hashed text; if it comes
  from a query identifier, the identifiers are equal; and the key is empty exactly for sessions
  without a usable text, which are grouped under no statement.
\<close>

theorem same_key_same_statement:
  assumes "QueryKey s fp = (k, kind)" and "QueryKey s' fp = (k, kind')"
  shows "kind' = kind \<and> (kind = KeyKindQueryID \<longrightarrow> ss_QueryID s' = ss_QueryID s)
    \<and> (k = [] \<longleftrightarrow> kind = KeyKindNone)"
proof -
  have same: "kind' = kind" using QueryKey_prefix [OF assms(1)] QueryKey_prefix [OF assms(2)] key_prefix_inj by metis
  have id: "k = ''q:'' @ FormatInt (ss_QueryID r)" if "QueryKey r fp = (k, KeyKindQueryID)" for r
    using that by (auto simp: QueryKey_def Let_def split: if_splits option.splits)
  have "ss_QueryID s' = ss_QueryID s" if "kind = KeyKindQueryID"
    using id [of s] id [of s'] assms that same by (simp add: FormatInt_inj)
  moreover have "k = [] \<longleftrightarrow> kind = KeyKindNone"
    using assms(1) by (auto simp: QueryKey_def Let_def split: if_splits option.splits)
  ultimately show ?thesis using same by blast
qed

definition demo_session :: "i64 \<Rightarrow> string \<Rightarrow> string \<Rightarrow> Session" where
  "demo_session pid wait key =
     \<lparr>ss_PID = pid, ss_BackendType = ''client backend'', ss_Database = ''db'', ss_User = ''u'', ss_Application = ''app'',
      ss_ClientAddr = [], ss_State = ''active'', ss_WaitType = wait, ss_WaitEvent = [], ss_QueryID = 0, ss_QueryStart = 0,
      ss_XactStart = 0, ss_HoldsXmin = False, ss_Text = ''select'', ss_Key = key, ss_KeyKind = KeyKindText\<rparr>"

theorem same_key_same_statement_witness:
  "(let s = (demo_session 1 [] [])\<lparr>ss_QueryID := - 7\<rparr>; s' = (demo_session 2 ''IO'' [])\<lparr>ss_QueryID := - 7\<rparr>
    in QueryKey s None = (''q:-7'', KeyKindQueryID) \<and> ss_QueryID s' = ss_QueryID s)"
proof -
  let ?s = "(demo_session 1 [] [])\<lparr>ss_QueryID := - 7\<rparr>" and ?t = "(demo_session 2 ''IO'' [])\<lparr>ss_QueryID := - 7\<rparr>"
  have "QueryKey ?s None = (''q:-7'', KeyKindQueryID)" "QueryKey ?t None = (''q:-7'', KeyKindQueryID)" by code_simp+
  from this same_key_same_statement [OF this] show ?thesis by simp
qed

section \<open>Cutting keeps runes whole\<close>

text \<open>
  Cutting a text to a number of runes keeps exactly its first runes, whole: no multi-byte
  character of the result is broken, invalid bytes count one each, and a text that has no more
  runes is returned as it is.
\<close>

theorem truncate_keeps_runes: "runes (TruncateText s (int n)) = take n (runes s)"
proof (cases "length (runes s) \<le> n")
  case True
  then show ?thesis by (simp add: TruncateText_def)
next
  case False
  then have "\<not> length s \<le> n" using runes_length [of s] by simp
  then show ?thesis using False by (simp add: TruncateText_def runes_of_prefix)
qed

end
