(* ===== verification/Activity_Profile.thy ===== *)
theory Activity_Profile
  imports Activity
begin

text \<open>
  The profile of sampled activity (\<^verbatim>\<open>backend/internal/activity/profile.go\<close>): samples are
  folded into counters per wait class, event, statement, database, user, application and backend
  type, which become average active sessions and shares.

  A map of counters is an association list with distinct keys. Go ranges over it in an open order
  and sorts the result by a key with no two equal, so that the sort decides the order alone.
  The zero \<^verbatim>\<open>time.Time\<close> is \<open>zero_time\<close>.
\<close>

definition zero_time :: time where "zero_time = - 62135596800 * second"

section \<open>Data\<close>

record act_Filter =
  fl_Database :: string
  fl_Class :: string
  IncludeBackground :: bool

definition act_match :: "act_Filter \<Rightarrow> Session \<Rightarrow> bool" where
  "act_match f s =
     (if \<not> Counted s (IncludeBackground f) then False
      else if fl_Database f \<noteq> [] \<and> ss_Database s \<noteq> fl_Database f then False
      else fl_Class f = [] \<or> act_Class s = fl_Class f)"

record Share =
  sh_Value :: string
  sh_AAS :: f64
  sh_SharePct :: f64

record EventShare =
  ev_Class :: string
  ev_WaitEvent :: string
  ev_AAS :: f64
  ev_SharePct :: f64

record QueryShare =
  qs_Key :: string
  qs_KeyKind :: key_kind
  qs_QueryID :: i64
  qs_AAS :: f64
  qs_SharePct :: f64
  qs_ByClass :: "(string \<times> f64) list"
  DistinctPIDs :: nat
  qs_Text :: string

record Profile =
  pf_From :: time
  pf_To :: time
  pf_Samples :: nat
  pf_Truncated :: nat
  pf_AAS :: f64
  ByClass :: "Share list"
  TopEvents :: "EventShare list"
  TopQueries :: "QueryShare list"
  ByDatabase :: "Share list"
  ByUser :: "Share list"
  ByApp :: "Share list"
  ByBackend :: "Share list"

type_synonym 'k counters = "('k \<times> nat) list"

record queryAcc =
  qa_kind :: key_kind
  qa_queryID :: i64
  qa_n :: nat
  qa_byClass :: "string counters"
  qa_pids :: "i64 list"
  qa_text :: string

record activity_acc =
  ac_From :: time
  ac_To :: time
  ac_Truncated :: nat
  ac_total :: nat
  ac_classes :: "string counters"
  ac_events :: "(string \<times> string) counters"
  ac_queries :: "(string \<times> queryAcc) list"
  ac_dbs :: "string counters"
  ac_users :: "string counters"
  ac_apps :: "string counters"
  ac_btypes :: "string counters"

section \<open>Counting\<close>

definition count_of :: "'k counters \<Rightarrow> 'k \<Rightarrow> nat" where
  "count_of cs k = (case map_of cs k of None \<Rightarrow> 0 | Some n \<Rightarrow> n)"

definition count_up :: "'k \<Rightarrow> 'k counters \<Rightarrow> 'k counters" where
  "count_up k cs = AList.update k (count_of cs k + 1) cs"

definition fresh_query :: "Session \<Rightarrow> queryAcc" where
  "fresh_query s =
     \<lparr>qa_kind = ss_KeyKind s, qa_queryID = ss_QueryID s, qa_n = 0, qa_byClass = [], qa_pids = [], qa_text = []\<rparr>"

definition count_query :: "Session \<Rightarrow> queryAcc \<Rightarrow> queryAcc" where
  "count_query s q =
     q\<lparr>qa_n := qa_n q + 1, qa_byClass := count_up (act_Class s) (qa_byClass q),
       qa_pids := List.insert (ss_PID s) (qa_pids q),
       qa_text := (if qa_text q = [] then ss_Text s else qa_text q)\<rparr>"

definition add_query :: "Session \<Rightarrow> (string \<times> queryAcc) list \<Rightarrow> (string \<times> queryAcc) list" where
  "add_query s qs =
     (let q = (case map_of qs (ss_Key s) of None \<Rightarrow> fresh_query s | Some q \<Rightarrow> q)
      in AList.update (ss_Key s) (count_query s q) qs)"

definition add_session :: "act_Filter \<Rightarrow> Session \<Rightarrow> activity_acc \<Rightarrow> activity_acc" where
  "add_session f s a =
     (if \<not> act_match f s then a
      else
        (let cls = act_Class s;
             a = a\<lparr>ac_total := ac_total a + 1, ac_classes := count_up cls (ac_classes a),
                   ac_events := count_up (cls, ss_WaitEvent s) (ac_events a),
                   ac_dbs := count_up (ss_Database s) (ac_dbs a), ac_users := count_up (ss_User s) (ac_users a),
                   ac_apps := count_up (ss_Application s) (ac_apps a),
                   ac_btypes := count_up (ss_BackendType s) (ac_btypes a)\<rparr>
         in if \<not> RunsStatement (ss_BackendType s) then a
            else a\<lparr>ac_queries := add_query s (ac_queries a)\<rparr>))"

definition note_sample :: "Sample \<Rightarrow> activity_acc \<Rightarrow> activity_acc" where
  "note_sample smp a =
     a\<lparr>ac_From := (if ac_From a = zero_time \<or> before (sm_At smp) (ac_From a) then sm_At smp else ac_From a),
       ac_To := (if before (ac_To a) (sm_At smp) then sm_At smp else ac_To a),
       ac_Truncated := (if sm_Truncated smp then ac_Truncated a + 1 else ac_Truncated a)\<rparr>"

definition add_sample :: "act_Filter \<Rightarrow> Sample \<Rightarrow> activity_acc \<Rightarrow> activity_acc" where
  "add_sample f smp a = fold (add_session f) (sm_Sessions smp) (note_sample smp a)"

definition empty_acc :: activity_acc where
  "empty_acc =
     \<lparr>ac_From = zero_time, ac_To = zero_time, ac_Truncated = 0, ac_total = 0, ac_classes = [], ac_events = [],
      ac_queries = [], ac_dbs = [], ac_users = [], ac_apps = [], ac_btypes = []\<rparr>"

section \<open>Shares\<close>

definition aas :: "nat \<Rightarrow> nat \<Rightarrow> f64" where
  "aas n c = of_i64 (int c) / of_i64 (int n)"

definition pct :: "nat \<Rightarrow> nat \<Rightarrow> f64" where
  "pct tot c = (if tot = 0 then Fin 0 else of_i64 (int c) * lit 100 / of_i64 (int tot))"

definition head :: "'a list \<Rightarrow> i64 \<Rightarrow> 'a list" where
  "head s n = (if 0 < n \<and> n < int (length s) then take (nat n) s else s)"

definition share :: "nat \<Rightarrow> nat \<Rightarrow> string \<times> nat \<Rightarrow> Share" where
  "share n tot = (\<lambda>(v, c). \<lparr>sh_Value = v, sh_AAS = aas n c, sh_SharePct = pct tot c\<rparr>)"

definition shares :: "string counters \<Rightarrow> nat \<Rightarrow> nat \<Rightarrow> i64 \<Rightarrow> Share list" where
  "shares counts n tot topn =
     head (sort_key (\<lambda>s. (desc (sh_AAS s), sh_Value s)) (map (share n tot) counts)) topn"

definition event_share :: "nat \<Rightarrow> nat \<Rightarrow> (string \<times> string) \<times> nat \<Rightarrow> EventShare" where
  "event_share n tot = (\<lambda>((cls, ev), c). \<lparr>ev_Class = cls, ev_WaitEvent = ev, ev_AAS = aas n c, ev_SharePct = pct tot c\<rparr>)"

definition query_share :: "nat \<Rightarrow> nat \<Rightarrow> string \<times> queryAcc \<Rightarrow> QueryShare" where
  "query_share n tot = (\<lambda>(key, q).
     \<lparr>qs_Key = key, qs_KeyKind = qa_kind q, qs_QueryID = qa_queryID q, qs_AAS = aas n (qa_n q), qs_SharePct = pct tot (qa_n q),
      qs_ByClass = map (\<lambda>(c, v). (c, of_i64 (int v) * lit 100 / of_i64 (int (qa_n q)))) (qa_byClass q),
      DistinctPIDs = length (qa_pids q), qs_Text = qa_text q\<rparr>)"

definition class_shares :: "string counters \<Rightarrow> nat \<Rightarrow> nat \<Rightarrow> Share list" where
  "class_shares counts n tot =
     sort_key (\<lambda>s. desc (sh_AAS s))
       (map (\<lambda>c. share n tot (c, count_of counts c)) (filter (\<lambda>c. 0 < count_of counts c) act_Classes))"

definition zero_Profile :: Profile where
  "zero_Profile =
     \<lparr>pf_From = zero_time, pf_To = zero_time, pf_Samples = 0, pf_Truncated = 0, pf_AAS = Fin 0, ByClass = [], TopEvents = [],
      TopQueries = [], ByDatabase = [], ByUser = [], ByApp = [], ByBackend = []\<rparr>"

definition Aggregate :: "Sample list \<Rightarrow> act_Filter \<Rightarrow> i64 \<Rightarrow> Profile" where
  "Aggregate samples f topn =
     (if samples = [] then zero_Profile
      else
        (let a = fold (add_sample f) samples empty_acc;
             n = length samples;
             tot = ac_total a
         in \<lparr>pf_From = ac_From a, pf_To = ac_To a, pf_Samples = n, pf_Truncated = ac_Truncated a, pf_AAS = aas n tot,
             ByClass = class_shares (ac_classes a) n tot,
             TopEvents = head (sort_key (\<lambda>e. (desc (ev_AAS e), ev_Class e, ev_WaitEvent e))
                           (map (event_share n tot) (ac_events a))) topn,
             TopQueries = head (sort_key (\<lambda>q. (desc (qs_AAS q), qs_Key q))
                           (map (query_share n tot) (ac_queries a))) topn,
             ByDatabase = shares (ac_dbs a) n tot topn, ByUser = shares (ac_users a) n tot topn,
             ByApp = shares (ac_apps a) n tot topn, ByBackend = shares (ac_btypes a) n tot topn\<rparr>))"

section \<open>Counters count\<close>

definition tally :: "'k list \<Rightarrow> 'k counters" where
  "tally ks = fold count_up ks []"

lemma distinct_count_up: "distinct (map fst cs) \<Longrightarrow> distinct (map fst (count_up k cs))"
  by (simp add: count_up_def distinct_update)

lemma count_of_up: "count_of (count_up k cs) j = count_of cs j + (if j = k then 1 else 0)"
  by (simp add: count_of_def count_up_def update_conv)

lemma tally_distinct: "distinct (map fst (tally ks))"
  unfolding tally_def by (rule fold_invariant_set [where P = "\<lambda>cs. distinct (map fst cs)"]) (simp_all add: distinct_count_up)

lemma tally_snoc: "tally (ks @ [k]) = count_up k (tally ks)"
  by (simp add: tally_def)

lemma tally_map_of: "map_of (tally ks) k = (if k \<in> set ks then Some (count_list ks k) else None)"
  by (induction ks rule: rev_induct)
    (auto simp: tally_snoc count_up_def update_conv count_of_def, simp add: tally_def)

lemma tally_count: "count_of (tally ks) k = count_list ks k"
  by (simp add: count_of_def tally_map_of)

lemma tally_set: "set (tally ks) = (\<lambda>k. (k, count_list ks k)) ` set ks"
proof -
  have "(k, c) \<in> set (tally ks) \<longleftrightarrow> k \<in> set ks \<and> c = count_list ks k" for k c
    using map_of_eq_Some_iff [OF tally_distinct, of ks k c] by (auto simp: tally_map_of split: if_splits)
  then show ?thesis by auto
qed

lemma tally_mset: "mset (tally ks) = mset (map (\<lambda>k. (k, count_list ks k)) (remdups ks))"
proof -
  have "distinct (tally ks)" using tally_distinct [of ks] by (simp add: distinct_map)
  moreover have "distinct (map (\<lambda>k. (k, count_list ks k)) (remdups ks))" by (simp add: distinct_map inj_on_def)
  ultimately have "mset (tally ks) = mset (map (\<lambda>k. (k, count_list ks k)) (remdups ks)) \<longleftrightarrow>
      set (tally ks) = set (map (\<lambda>k. (k, count_list ks k)) (remdups ks))"
    by (rule set_eq_iff_mset_eq_distinct [symmetric])
  then show ?thesis by (simp add: tally_set)
qed

section \<open>The accumulator\<close>

abbreviation statements :: "Session list \<Rightarrow> Session list" where
  "statements ms \<equiv> filter (\<lambda>s. RunsStatement (ss_BackendType s)) ms"

lemma add_sessions:
  fixes a :: activity_acc and f :: act_Filter and ss :: "Session list"
  defines "ms \<equiv> filter (act_match f) ss"
  shows "fold (add_session f) ss a =
     a\<lparr>ac_total := ac_total a + length ms, ac_classes := fold count_up (map act_Class ms) (ac_classes a),
       ac_events := fold count_up (map (\<lambda>s. (act_Class s, ss_WaitEvent s)) ms) (ac_events a),
       ac_dbs := fold count_up (map ss_Database ms) (ac_dbs a), ac_users := fold count_up (map ss_User ms) (ac_users a),
       ac_apps := fold count_up (map ss_Application ms) (ac_apps a),
       ac_btypes := fold count_up (map ss_BackendType ms) (ac_btypes a),
       ac_queries := fold add_query (statements ms) (ac_queries a)\<rparr>"
  unfolding ms_def by (induction ss arbitrary: a) (simp_all add: add_session_def Let_def)

definition matching :: "act_Filter \<Rightarrow> Sample list \<Rightarrow> Session list" where
  "matching f samples = filter (act_match f) (concat (map sm_Sessions samples))"

lemma matching_snoc: "matching f (samples @ [smp]) = matching f samples @ filter (act_match f) (sm_Sessions smp)"
  by (simp add: matching_def)

lemma add_samples:
  "fold (add_sample f) samples empty_acc = (fold note_sample samples empty_acc)
     \<lparr>ac_total := length (matching f samples), ac_classes := tally (map act_Class (matching f samples)),
      ac_events := tally (map (\<lambda>s. (act_Class s, ss_WaitEvent s)) (matching f samples)),
      ac_dbs := tally (map ss_Database (matching f samples)), ac_users := tally (map ss_User (matching f samples)),
      ac_apps := tally (map ss_Application (matching f samples)),
      ac_btypes := tally (map ss_BackendType (matching f samples)),
      ac_queries := fold add_query (statements (matching f samples)) []\<rparr>"
proof (induction samples rule: rev_induct)
  case Nil
  show ?case by (simp add: empty_acc_def matching_def tally_def)
next
  case (snoc smp samples)
  then show ?case by (simp add: add_sample_def add_sessions matching_snoc tally_def note_sample_def)
qed

lemma span_of_samples:
  assumes "samples \<noteq> []" and "list_all (\<lambda>s. zero_time < sm_At s) samples"
  shows "ac_From (fold note_sample samples empty_acc) = Min (sm_At ` set samples)
     \<and> ac_To (fold note_sample samples empty_acc) = Max (sm_At ` set samples)
     \<and> ac_Truncated (fold note_sample samples empty_acc) = length (filter sm_Truncated samples)"
  using assms
proof (induction samples rule: rev_induct)
  case (snoc smp samples)
  show ?case
  proof (cases "samples = []")
    case True
    then show ?thesis using snoc.prems by (simp add: note_sample_def empty_acc_def before_def)
  next
    case False
    define b where "b = fold note_sample samples empty_acc"
    have IH: "ac_From b = Min (sm_At ` set samples)" "ac_To b = Max (sm_At ` set samples)"
      "ac_Truncated b = length (filter sm_Truncated samples)"
      using snoc.IH False snoc.prems by (simp_all add: b_def)
    have "zero_time < Min (sm_At ` set samples)" using False snoc.prems by (simp add: list_all_iff)
    then have "ac_From (note_sample smp b) = min (sm_At smp) (ac_From b)" "ac_To (note_sample smp b) = max (sm_At smp) (ac_To b)"
      by (simp_all add: note_sample_def IH(1) before_def min_def max_def)
    then show ?thesis
      using False IH by (simp add: b_def [symmetric] note_sample_def [of _ b] split: if_splits)
  qed
qed simp

section \<open>Statements\<close>

definition query_acc :: "Session list \<Rightarrow> queryAcc" where
  "query_acc g = fold count_query g (fresh_query (hd g))"

abbreviation of_key :: "string \<Rightarrow> Session list \<Rightarrow> Session list" where
  "of_key k ms \<equiv> filter (\<lambda>s. ss_Key s = k) ms"

lemma add_queries_distinct: "distinct (map fst (fold add_query ms []))"
  by (rule fold_invariant_set [where P = "\<lambda>qs. distinct (map fst qs)"]) (simp_all add: add_query_def Let_def distinct_update)

lemma query_acc_snoc: "g \<noteq> [] \<Longrightarrow> query_acc (g @ [s]) = count_query s (query_acc g)"
  by (simp add: query_acc_def)

lemma add_queries_map_of:
  "map_of (fold add_query ms []) k = (if of_key k ms = [] then None else Some (query_acc (of_key k ms)))"
proof (induction ms arbitrary: k rule: rev_induct)
  case (snoc s ms)
  then show ?case
    by (auto simp: add_query_def Let_def update_conv query_acc_snoc) (simp_all add: query_acc_def)
qed simp

lemma query_acc_fields:
  assumes "g \<noteq> []"
  shows "qa_kind (query_acc g) = ss_KeyKind (hd g)" "qa_queryID (query_acc g) = ss_QueryID (hd g)"
    "qa_n (query_acc g) = length g" "qa_byClass (query_acc g) = tally (map act_Class g)"
    "length (qa_pids (query_acc g)) = card (ss_PID ` set g)"
    "qa_text (query_acc g) = (case filter (\<lambda>t. t \<noteq> []) (map ss_Text g) of [] \<Rightarrow> [] | t # _ \<Rightarrow> t)"
proof -
  have *: "qa_kind (fold count_query g q) = qa_kind q \<and> qa_queryID (fold count_query g q) = qa_queryID q
     \<and> qa_n (fold count_query g q) = qa_n q + length g
     \<and> qa_byClass (fold count_query g q) = fold count_up (map act_Class g) (qa_byClass q)
     \<and> qa_pids (fold count_query g q) = fold List.insert (map ss_PID g) (qa_pids q)" for q
    by (induction g arbitrary: q) (simp_all add: count_query_def)
  have t: "qa_text (fold count_query g q) =
      (if qa_text q = [] then (case filter (\<lambda>t. t \<noteq> []) (map ss_Text g) of [] \<Rightarrow> [] | t # _ \<Rightarrow> t) else qa_text q)" for q
    by (induction g arbitrary: q) (simp_all add: count_query_def)
  have p: "length (fold List.insert xs []) = card (set xs)" for xs :: "i64 list"
  proof -
    have "distinct (fold List.insert xs ys) \<and> set (fold List.insert xs ys) = set xs \<union> set ys" if "distinct ys" for ys
      using that by (induction xs arbitrary: ys) auto
    then show ?thesis by (metis distinct.simps(1) distinct_card list.set(1) sup_bot.right_neutral)
  qed
  show "qa_kind (query_acc g) = ss_KeyKind (hd g)" "qa_queryID (query_acc g) = ss_QueryID (hd g)"
    "qa_n (query_acc g) = length g" "qa_byClass (query_acc g) = tally (map act_Class g)"
    "qa_text (query_acc g) = (case filter (\<lambda>t. t \<noteq> []) (map ss_Text g) of [] \<Rightarrow> [] | t # _ \<Rightarrow> t)"
    using * t by (simp_all add: query_acc_def fresh_query_def tally_def)
  show "length (qa_pids (query_acc g)) = card (ss_PID ` set g)"
    using * p [of "map ss_PID g"] by (simp add: query_acc_def fresh_query_def)
qed

section \<open>The profile as a query\<close>

text \<open>What the profile means: groups of the matching sessions of all samples, with no counters kept.\<close>

definition per_value :: "(Session \<Rightarrow> 'k) \<Rightarrow> Session list \<Rightarrow> ('k \<times> nat) list" where
  "per_value g ms = map (\<lambda>v. (v, length (filter (\<lambda>s. g s = v) ms))) (remdups (map g ms))"

definition statement_share :: "nat \<Rightarrow> nat \<Rightarrow> Session list \<Rightarrow> string \<Rightarrow> QueryShare" where
  "statement_share n tot ms k =
     (let g = of_key k ms
      in \<lparr>qs_Key = k, qs_KeyKind = ss_KeyKind (hd g), qs_QueryID = ss_QueryID (hd g), qs_AAS = aas n (length g),
          qs_SharePct = pct tot (length g),
          qs_ByClass = map (\<lambda>(c, v). (c, of_i64 (int v) * lit 100 / of_i64 (int (length g)))) (tally (map act_Class g)),
          DistinctPIDs = card (ss_PID ` set g),
          qs_Text = (case filter (\<lambda>t. t \<noteq> []) (map ss_Text g) of [] \<Rightarrow> [] | t # _ \<Rightarrow> t)\<rparr>)"

definition share_table :: "(Session \<Rightarrow> string) \<Rightarrow> Session list \<Rightarrow> nat \<Rightarrow> i64 \<Rightarrow> Share list" where
  "share_table g ms n topn =
     head (sort_key (\<lambda>s. (desc (sh_AAS s), sh_Value s)) (map (share n (length ms)) (per_value g ms))) topn"

definition profile_spec :: "Sample list \<Rightarrow> act_Filter \<Rightarrow> i64 \<Rightarrow> Profile" where
  "profile_spec samples f topn =
     (let ms = matching f samples; n = length samples; tot = length ms; sts = statements ms
      in \<lparr>pf_From = Min (sm_At ` set samples), pf_To = Max (sm_At ` set samples), pf_Samples = n,
          pf_Truncated = length (filter sm_Truncated samples), pf_AAS = aas n tot,
          ByClass = sort_key (\<lambda>s. desc (sh_AAS s))
            (map (\<lambda>c. share n tot (c, length (filter (\<lambda>s. act_Class s = c) ms)))
              (filter (\<lambda>c. c \<in> act_Class ` set ms) act_Classes)),
          TopEvents = head (sort_key (\<lambda>e. (desc (ev_AAS e), ev_Class e, ev_WaitEvent e))
            (map (event_share n tot) (per_value (\<lambda>s. (act_Class s, ss_WaitEvent s)) ms))) topn,
          TopQueries = head (sort_key (\<lambda>q. (desc (qs_AAS q), qs_Key q))
            (map (statement_share n tot sts) (remdups (map ss_Key sts)))) topn,
          ByDatabase = share_table ss_Database ms n topn, ByUser = share_table ss_User ms n topn,
          ByApp = share_table ss_Application ms n topn, ByBackend = share_table ss_BackendType ms n topn\<rparr>)"

lemma count_list_map: "count_list (map g ms) v = length (filter (\<lambda>s. g s = v) ms)"
  by (induction ms) auto

lemma tally_per_value: "mset (tally (map g ms)) = mset (per_value g ms)"
  by (simp only: tally_mset per_value_def count_list_map)

lemma per_value_keys: "distinct (map fst (per_value g ms))"
  by (simp add: per_value_def comp_def)

lemma shares_table: "shares (tally (map g ms)) n (length ms) topn = share_table g ms n topn"
proof -
  let ?k = "\<lambda>s. (desc (sh_AAS s), sh_Value s)" and ?h = "share n (length ms)"
  have "distinct (map (?k \<circ> ?h) (tally (map g ms)))"
    using tally_distinct by (rule distinct_map_refine) (simp add: share_def split: prod.splits)
  then have "sort_key ?k (map ?h (tally (map g ms))) = sort_key ?k (map ?h (per_value g ms))"
    by (intro sort_key_perm) (simp_all add: tally_per_value)
  then show ?thesis by (simp add: shares_def share_table_def)
qed

lemma events_table:
  fixes ms :: "Session list"
  defines "g \<equiv> \<lambda>s. (act_Class s, ss_WaitEvent s)"
  shows "sort_key (\<lambda>e. (desc (ev_AAS e), ev_Class e, ev_WaitEvent e)) (map (event_share n tot) (tally (map g ms))) =
     sort_key (\<lambda>e. (desc (ev_AAS e), ev_Class e, ev_WaitEvent e)) (map (event_share n tot) (per_value g ms))"
proof (rule sort_key_perm)
  show "mset (map (event_share n tot) (tally (map g ms))) = mset (map (event_share n tot) (per_value g ms))"
    by (simp add: tally_per_value)
  let ?k = "\<lambda>e. (desc (ev_AAS e), ev_Class e, ev_WaitEvent e)"
  have "distinct (map (?k \<circ> event_share n tot) (tally (map g ms)))"
    using tally_distinct by (rule distinct_map_refine) (simp add: event_share_def split: prod.splits)
  then show "distinct (map ?k (map (event_share n tot) (tally (map g ms))))" by simp
qed

lemma class_table:
  "class_shares (tally (map act_Class ms)) n tot =
     sort_key (\<lambda>s. desc (sh_AAS s)) (map (\<lambda>c. share n tot (c, length (filter (\<lambda>s. act_Class s = c) ms)))
       (filter (\<lambda>c. c \<in> act_Class ` set ms) act_Classes))"
proof -
  have "0 < length (filter (\<lambda>s. act_Class s = c) ms) \<longleftrightarrow> c \<in> act_Class ` set ms" for c
    by (auto simp: filter_empty_conv image_iff)
  then show ?thesis by (simp add: class_shares_def tally_count count_list_map)
qed

lemma query_table:
  "sort_key (\<lambda>q. (desc (qs_AAS q), qs_Key q)) (map (query_share n tot) (fold add_query ms [])) =
   sort_key (\<lambda>q. (desc (qs_AAS q), qs_Key q)) (map (statement_share n tot ms) (remdups (map ss_Key ms)))"
proof (rule sort_key_perm)
  let ?qs = "fold add_query ms []"
  have e: "query_share n tot (k, q) = statement_share n tot ms k" if "(k, q) \<in> set ?qs" for k q
  proof -
    have "map_of ?qs k = Some q" using that map_of_eq_Some_iff [OF add_queries_distinct] by metis
    then have "of_key k ms \<noteq> []" "q = query_acc (of_key k ms)" by (auto simp: add_queries_map_of split: if_splits)
    then show ?thesis by (simp add: query_share_def statement_share_def Let_def query_acc_fields)
  qed
  have "set (map fst ?qs) = ss_Key ` set ms"
  proof -
    have "k \<in> fst ` set ?qs \<longleftrightarrow> of_key k ms \<noteq> []" for k
      using map_of_eq_None_iff [of ?qs k] by (auto simp: add_queries_map_of split: if_splits)
    then have "k \<in> fst ` set ?qs \<longleftrightarrow> k \<in> ss_Key ` set ms" for k by (auto simp: filter_empty_conv image_iff)
    then show ?thesis unfolding set_map by blast
  qed
  then have "mset (map fst ?qs) = mset (remdups (map ss_Key ms))"
    using set_eq_iff_mset_eq_distinct [OF add_queries_distinct distinct_remdups, of ms "map ss_Key ms"] by simp
  moreover have "map (query_share n tot) ?qs = map (statement_share n tot ms) (map fst ?qs)" using e by auto
  ultimately show "mset (map (query_share n tot) ?qs) = mset (map (statement_share n tot ms) (remdups (map ss_Key ms)))"
    by (metis mset_map)
  let ?k = "\<lambda>q. (desc (qs_AAS q), qs_Key q)"
  have "distinct (map (?k \<circ> query_share n tot) ?qs)"
    using add_queries_distinct by (rule distinct_map_refine) (simp add: query_share_def split: prod.splits)
  then show "distinct (map ?k (map (query_share n tot) ?qs))" by simp
qed

text \<open>
  C21: an activity profile is what its name says. For samples taken at real times the counters
  kept sample by sample and session by session amount to grouping the matching sessions of all
  samples: the span is the earliest to the latest sample; the average active sessions of the
  whole, of each class, event, database, user, application, backend type and statement are its
  sessions over the samples, and its share is of all matching sessions; every class that occurs is
  listed; a statement has its distinct processes and its first text; and each bounded list is the
  front of the full list by falling load.
\<close>

theorem aggregate_meets_spec:
  assumes "samples \<noteq> []" and "list_all (\<lambda>s. zero_time < sm_At s) samples"
  shows "Aggregate samples f topn = profile_spec samples f topn
    \<and> set (map sh_Value (ByClass (Aggregate samples f topn))) = act_Class ` set (matching f samples)"
proof -
  have "Aggregate samples f topn = profile_spec samples f topn"
    using assms span_of_samples [OF assms]
    by (simp add: Aggregate_def profile_spec_def Let_def add_samples shares_table events_table class_table query_table)
  moreover have "set (map sh_Value (ByClass (profile_spec samples f topn))) = act_Class ` set (matching f samples)"
    using class_known by (auto simp: profile_spec_def Let_def share_def image_image)
  ultimately show ?thesis by simp
qed

definition demo_samples :: "Sample list" where
  "demo_samples =
     [\<lparr>sm_At = 2, sm_Sessions = [demo_session 1 ''IO'' ''t:1'', demo_session 2 [] ''t:1''], sm_Truncated = True\<rparr>,
      \<lparr>sm_At = 1, sm_Sessions = [demo_session 2 [] ''t:2''], sm_Truncated = False\<rparr>]"

definition demo_act_filter :: act_Filter where
  "demo_act_filter = \<lparr>fl_Database = [], fl_Class = [], IncludeBackground = False\<rparr>"

lemma demo_matching: "map (\<lambda>s. (ss_PID s, act_Class s)) (matching demo_act_filter demo_samples) = [(1, ''IO''), (2, ''CPU''), (2, ''CPU'')]"
  by code_simp

theorem aggregate_meets_spec_witness:
  "length (matching demo_act_filter demo_samples) = 3
   \<and> Aggregate demo_samples demo_act_filter 10 = profile_spec demo_samples demo_act_filter 10
   \<and> set (map sh_Value (ByClass (Aggregate demo_samples demo_act_filter 10))) =
       act_Class ` set (matching demo_act_filter demo_samples)"
proof -
  have "demo_samples \<noteq> []" "list_all (\<lambda>s. zero_time < sm_At s) demo_samples"
    by (simp_all add: demo_samples_def zero_time_def second_def)
  note spec = aggregate_meets_spec [OF this, of demo_act_filter 10]
  have "length (matching demo_act_filter demo_samples) = 3" using arg_cong [OF demo_matching, of length] by simp
  with spec show ?thesis by blast
qed

end
