(* ===== verification/Activity_Sampler.thy ===== *)
theory Activity_Sampler
  imports Activity
begin

text \<open>
  The sampler of activity (\<^verbatim>\<open>backend/internal/activity/sampler.go\<close>): one read of a host is
  shared by all viewers for a short time, the last samples are remembered, the role check is
  refreshed rarely, and hosts without viewers are forgotten.

  The state is the map of hosts. Every access to it is a section under the mutex; these sections
  are the definitions \<open>cached\<close>, \<open>store_access\<close>, \<open>store_sample\<close> and
  \<open>Recent\<close>. \<open>sampler_Get\<close> runs them for one caller, with the readings of the
  clock and the answers of the source as arguments; an interleaving of callers is a sequence of
  sections. \<^verbatim>\<open>singleflight\<close> and the cancellation of a caller are outside the model:
  they only decide which callers wait for one fetch.
\<close>

section \<open>State\<close>

type_synonym act_hostKey = "string \<times> string"

definition sampleTTL :: duration where "sampleTTL = 900 * millisecond"
definition accessTTL :: duration where "accessTTL = 5 * minute"
definition idleTTL :: duration where "idleTTL = minute"
definition recentSamples :: nat where "recentSamples = 16"

record hostEntry =
  he_sample :: "Sample option"
  recent :: "Sample list"
  fetchedAt :: time
  he_access :: "Access option"
  accessAt :: time
  lastUsed :: time

type_synonym sampler_hosts = "act_hostKey \<rightharpoonup> hostEntry"

definition act_sweep :: "time \<Rightarrow> sampler_hosts \<Rightarrow> sampler_hosts" where
  "act_sweep now hosts = (\<lambda>k.
     case hosts k of
       None \<Rightarrow> None
     | Some e \<Rightarrow> if idleTTL < time_sub now (lastUsed e) then None else Some e)"

definition cached :: "time \<Rightarrow> act_hostKey \<Rightarrow> sampler_hosts \<Rightarrow> sampler_hosts \<times> (Sample \<times> Access) option" where
  "cached now key hosts =
     (let hosts = act_sweep now hosts
      in case hosts key of
           None \<Rightarrow> (hosts, None)
         | Some e \<Rightarrow>
             (hosts(key \<mapsto> e\<lparr>lastUsed := now\<rparr>),
              (case (he_sample e, he_access e) of
                 (Some smp, Some acc) \<Rightarrow> if time_sub now (fetchedAt e) < sampleTTL then Some (smp, acc) else None
               | _ \<Rightarrow> None)))"

definition host_entry :: "act_hostKey \<Rightarrow> time \<Rightarrow> sampler_hosts \<Rightarrow> hostEntry" where
  "host_entry key now hosts =
     (case hosts key of
        Some e \<Rightarrow> e
      | None \<Rightarrow> \<lparr>he_sample = None, recent = [], fetchedAt = 0, he_access = None, accessAt = 0, lastUsed = now\<rparr>)"

definition store_access :: "act_hostKey \<Rightarrow> time \<Rightarrow> Access \<Rightarrow> sampler_hosts \<Rightarrow> sampler_hosts" where
  "store_access key now acc hosts =
     hosts(key \<mapsto> (host_entry key now hosts)\<lparr>he_access := Some acc, accessAt := now\<rparr>)"

definition store_sample :: "act_hostKey \<Rightarrow> time \<Rightarrow> time \<Rightarrow> Sample \<Rightarrow> sampler_hosts \<Rightarrow> sampler_hosts" where
  "store_sample key started now smp hosts =
     (let e = host_entry key now hosts;
          old = (if length (recent e) = recentSamples then drop 1 (recent e) else recent e)
      in hosts(key \<mapsto> e\<lparr>he_sample := Some smp, fetchedAt := started, recent := old @ [smp]\<rparr>))"

fun find_at :: "Sample list \<Rightarrow> time \<Rightarrow> Sample option" where
  "find_at [] tm = None"
| "find_at (s # ss) tm = (if sm_At s = tm then Some s else find_at ss tm)"

definition Recent :: "sampler_hosts \<Rightarrow> act_hostKey \<Rightarrow> time \<Rightarrow> Sample option" where
  "Recent hosts key tm = (case hosts key of None \<Rightarrow> None | Some e \<Rightarrow> find_at (rev (recent e)) tm)"

section \<open>One caller\<close>

text \<open>\<open>answer\<close> is what \<^verbatim>\<open>GetActivityAccess\<close> returns if it is called.\<close>

definition accessFor :: "time \<Rightarrow> act_hostKey \<Rightarrow> 'e + Access \<Rightarrow> sampler_hosts \<Rightarrow> sampler_hosts \<times> ('e + Access)" where
  "accessFor now key answer hosts =
     (let prev = (case hosts key of None \<Rightarrow> None | Some e \<Rightarrow> he_access e);
          fresh = (case hosts key of None \<Rightarrow> False | Some e \<Rightarrow> he_access e \<noteq> None \<and> time_sub now (accessAt e) < accessTTL)
      in case (fresh, prev) of
           (True, Some acc) \<Rightarrow> (hosts, Inr acc)
         | _ \<Rightarrow>
             (case answer of
                Inl err \<Rightarrow> (case prev of Some acc \<Rightarrow> (hosts, Inr acc) | None \<Rightarrow> (hosts, Inl err))
              | Inr acc \<Rightarrow> (store_access key now acc hosts, Inr acc)))"

record clock =
  ck_get :: time
  ck_fetch :: time
  ck_access :: time
  ck_started :: time
  ck_stored :: time

record 'e source_answers =
  an_access :: "'e + Access"
  an_sample :: "'e + Sample"

definition act_fetch :: "clock \<Rightarrow> 'e source_answers \<Rightarrow> act_hostKey \<Rightarrow> sampler_hosts \<Rightarrow> sampler_hosts \<times> ('e + Sample \<times> Access)" where
  "act_fetch ck an key hosts =
     (case cached (ck_fetch ck) key hosts of
        (hosts, Some r) \<Rightarrow> (hosts, Inr r)
      | (hosts, None) \<Rightarrow>
          (case accessFor (ck_access ck) key (an_access an) hosts of
             (hosts, Inl err) \<Rightarrow> (hosts, Inl err)
           | (hosts, Inr acc) \<Rightarrow>
               (case an_sample an of
                  Inl err \<Rightarrow> (hosts, Inl err)
                | Inr smp \<Rightarrow> (store_sample key (ck_started ck) (ck_stored ck) smp hosts, Inr (smp, acc)))))"

definition sampler_Get :: "clock \<Rightarrow> 'e source_answers \<Rightarrow> act_hostKey \<Rightarrow> sampler_hosts \<Rightarrow> sampler_hosts \<times> ('e + Sample \<times> Access)" where
  "sampler_Get ck an key hosts =
     (case cached (ck_get ck) key hosts of
        (hosts, Some r) \<Rightarrow> (hosts, Inr r)
      | (hosts, None) \<Rightarrow> act_fetch ck an key hosts)"

section \<open>Interleavings\<close>

datatype sampler_section =
    Cached act_hostKey time
  | StoreAccess act_hostKey time Access
  | StoreSample act_hostKey time time Sample

fun run_section :: "sampler_section \<Rightarrow> sampler_hosts \<Rightarrow> sampler_hosts" where
  "run_section (Cached key now) hosts = fst (cached now key hosts)"
| "run_section (StoreAccess key now acc) hosts = store_access key now acc hosts"
| "run_section (StoreSample key started now smp) hosts = store_sample key started now smp hosts"

definition sampler_run :: "sampler_section list \<Rightarrow> sampler_hosts" where
  "sampler_run ss = fold run_section ss Map.empty"

text \<open>
  The reads of a host stored by a sequence of sections, oldest first, each with the time that
  counts as its beginning: what the entries are measured against.
\<close>

definition samples_of :: "act_hostKey \<Rightarrow> sampler_section list \<Rightarrow> (time \<times> Sample) list" where
  "samples_of key ss =
     concat (map (\<lambda>a. case a of StoreSample k started now smp \<Rightarrow> if k = key then [(started, smp)] else [] | _ \<Rightarrow> []) ss)"

definition accesses_of :: "act_hostKey \<Rightarrow> sampler_section list \<Rightarrow> (time \<times> Access) list" where
  "accesses_of key ss =
     concat (map (\<lambda>a. case a of StoreAccess k now acc \<Rightarrow> if k = key then [(now, acc)] else [] | _ \<Rightarrow> []) ss)"

lemma reads_of_snoc [simp]:
  "samples_of key (ss @ [StoreSample k started now smp]) = samples_of key ss @ (if k = key then [(started, smp)] else [])"
  "samples_of key (ss @ [StoreAccess k now acc]) = samples_of key ss"
  "samples_of key (ss @ [Cached k now]) = samples_of key ss"
  "accesses_of key (ss @ [StoreAccess k now acc]) = accesses_of key ss @ (if k = key then [(now, acc)] else [])"
  "accesses_of key (ss @ [StoreSample k started now smp]) = accesses_of key ss"
  "accesses_of key (ss @ [Cached k now]) = accesses_of key ss"
  by (simp_all add: samples_of_def accesses_of_def)

definition last_read :: "'r \<Rightarrow> 'r list \<Rightarrow> bool" where
  "last_read r rs \<longleftrightarrow> rs \<noteq> [] \<and> last rs = r"

text \<open>
  What every entry owes to the sections run before: its current sample and its role check are the
  last ones stored for its own host, their age counts from the start of the read, and the
  remembered samples are the most recent ones of that host, at most sixteen.
\<close>

definition entry_ok :: "sampler_section list \<Rightarrow> act_hostKey \<Rightarrow> hostEntry \<Rightarrow> bool" where
  "entry_ok ss key e \<longleftrightarrow>
     length (recent e) \<le> recentSamples
     \<and> (he_sample e = None \<longleftrightarrow> recent e = [])
     \<and> suffix (recent e) (map snd (samples_of key ss))
     \<and> (\<forall>smp. he_sample e = Some smp \<longrightarrow> last_read (fetchedAt e, smp) (samples_of key ss))
     \<and> (\<forall>acc. he_access e = Some acc \<longrightarrow> last_read (accessAt e, acc) (accesses_of key ss))"

definition hosts_ok :: "sampler_section list \<Rightarrow> sampler_hosts \<Rightarrow> bool" where
  "hosts_ok ss hosts \<longleftrightarrow> (\<forall>key e. hosts key = Some e \<longrightarrow> entry_ok ss key e)"

lemma hosts_okD: "hosts_ok ss hosts \<Longrightarrow> hosts key = Some e \<Longrightarrow> entry_ok ss key e"
  unfolding hosts_ok_def by blast

lemma hosts_okI: "(\<And>key e. hosts key = Some e \<Longrightarrow> entry_ok ss key e) \<Longrightarrow> hosts_ok ss hosts"
  unfolding hosts_ok_def by blast

lemma entry_ok_used [simp]: "entry_ok ss key (e\<lparr>lastUsed := t\<rparr>) = entry_ok ss key e"
  by (simp add: entry_ok_def)

lemma act_sweep_Some: "act_sweep now hosts k = Some e \<longleftrightarrow> hosts k = Some e \<and> \<not> idleTTL < time_sub now (lastUsed e)"
  by (auto simp: act_sweep_def split: option.splits if_splits)

lemma cached_hosts:
  "fst (cached now key hosts) k =
     (if k = key then map_option (\<lambda>e. e\<lparr>lastUsed := now\<rparr>) (act_sweep now hosts k) else act_sweep now hosts k)"
  by (auto simp: cached_def Let_def split: option.splits)

lemma host_entry_ok: "hosts_ok ss hosts \<Longrightarrow> entry_ok ss key (host_entry key now hosts)"
  by (cases "hosts key") (simp_all add: host_entry_def hosts_okD, simp add: entry_ok_def)

lemma section_keeps_ok:
  assumes "hosts_ok ss hosts"
  shows "hosts_ok (ss @ [a]) (run_section a hosts)"
proof (cases a)
  case (Cached key now)
  have "entry_ok (ss @ [a]) k e" if "hosts k = Some e" for k e
    using hosts_okD [OF assms that] Cached by (simp add: entry_ok_def)
  then show ?thesis
    using Cached by (intro hosts_okI) (auto simp: cached_hosts act_sweep_Some split: if_splits)
next
  case (StoreAccess key now acc)
  have "entry_ok (ss @ [a]) key ((host_entry key now hosts)\<lparr>he_access := Some acc, accessAt := now\<rparr>)"
    using host_entry_ok [OF assms, of key now] StoreAccess by (simp add: entry_ok_def last_read_def)
  moreover have "entry_ok (ss @ [a]) k e" if "hosts k = Some e" "k \<noteq> key" for k e
    using hosts_okD [OF assms that(1)] that(2) StoreAccess by (simp add: entry_ok_def)
  ultimately show ?thesis using StoreAccess by (intro hosts_okI) (auto simp: store_access_def split: if_splits)
next
  case (StoreSample key started now smp)
  let ?e = "host_entry key now hosts"
  let ?old = "if length (recent ?e) = recentSamples then drop 1 (recent ?e) else recent ?e"
  have e: "entry_ok ss key ?e" by (rule host_entry_ok [OF assms])
  have "suffix ?old (recent ?e)" by (simp add: suffix_drop)
  then have "suffix ?old (map snd (samples_of key ss))"
    using e unfolding entry_ok_def by (metis suffix_order.trans)
  then have "suffix (?old @ [smp]) (map snd (samples_of key (ss @ [a])))" using StoreSample by (simp add: suffix_def)
  moreover have "length ?old < recentSamples" using e by (auto simp: entry_ok_def recentSamples_def)
  ultimately have "entry_ok (ss @ [a]) key (?e\<lparr>he_sample := Some smp, fetchedAt := started, recent := ?old @ [smp]\<rparr>)"
    using e StoreSample by (auto simp: entry_ok_def last_read_def)
  moreover have "entry_ok (ss @ [a]) k e" if "hosts k = Some e" "k \<noteq> key" for k e
    using hosts_okD [OF assms that(1)] that(2) StoreSample by (simp add: entry_ok_def)
  ultimately show ?thesis using StoreSample by (intro hosts_okI) (auto simp: store_sample_def Let_def split: if_splits)
qed

lemma run_ok: "hosts_ok ss (fold run_section ss Map.empty)"
  by (induction ss rule: rev_induct) (auto intro: hosts_okI section_keeps_ok)

lemma find_at_Some: "find_at ss tm = Some s \<Longrightarrow> s \<in> set ss \<and> sm_At s = tm"
  by (induction ss) (auto split: if_splits)

lemma find_at_append: "find_at (xs @ ys) tm = (case find_at xs tm of None \<Rightarrow> find_at ys tm | Some s \<Rightarrow> Some s)"
  by (induction xs) auto

lemma find_at_suffix: "suffix xs ys \<Longrightarrow> find_at (rev xs) tm = Some s \<Longrightarrow> find_at (rev ys) tm = Some s"
  by (auto simp: suffix_def find_at_append)

lemma cached_hit:
  assumes "snd (cached now key hosts) = Some (smp, acc)"
  obtains e where "hosts key = Some e" "he_sample e = Some smp" "he_access e = Some acc" "time_sub now (fetchedAt e) < sampleTTL"
  using assms that by (auto simp: cached_def Let_def act_sweep_Some split: option.splits if_splits)

text \<open>
  C22: whatever the interleaving of callers, a sample served from memory is the last one stored for
  the very host it is served for, its read began less than the sharing time ago, and the role check
  served with it is the last one stored for that host; a sample looked up by its time is the latest
  of all samples of the host with that time; and what a host's entry remembers are its most recent
  samples in order, at most sixteen of them.
\<close>

theorem served_sample_is_own_and_fresh:
  "(snd (cached now key (sampler_run ss)) = Some (smp, acc) \<longrightarrow>
            (\<exists>started t. last_read (started, smp) (samples_of key ss) \<and> time_sub now started < sampleTTL
               \<and> last_read (t, acc) (accesses_of key ss)))
       \<and> (Recent (sampler_run ss) key tm = Some smp \<longrightarrow>
            sm_At smp = tm \<and> find_at (rev (map snd (samples_of key ss))) tm = Some smp)
       \<and> (sampler_run ss key = Some e \<longrightarrow> length (recent e) \<le> 16 \<and> suffix (recent e) (map snd (samples_of key ss)))"
proof (intro conjI impI)
  assume "snd (cached now key (sampler_run ss)) = Some (smp, acc)"
  then obtain e where e: "sampler_run ss key = Some e" "he_sample e = Some smp" "he_access e = Some acc"
    "time_sub now (fetchedAt e) < sampleTTL" by (rule cached_hit)
  then have "entry_ok ss key e" using hosts_okD [OF run_ok] by (simp add: sampler_run_def)
  with e show "\<exists>started t. last_read (started, smp) (samples_of key ss) \<and> time_sub now started < sampleTTL
      \<and> last_read (t, acc) (accesses_of key ss)"
    unfolding entry_ok_def by metis
next
  assume "Recent (sampler_run ss) key tm = Some smp"
  then obtain e where e: "sampler_run ss key = Some e" "find_at (rev (recent e)) tm = Some smp"
    by (auto simp: Recent_def split: option.splits)
  then have "suffix (recent e) (map snd (samples_of key ss))"
    using hosts_okD [OF run_ok, of ss key e] by (simp add: sampler_run_def entry_ok_def)
  then show "sm_At smp = tm" and "find_at (rev (map snd (samples_of key ss))) tm = Some smp"
    using find_at_Some [OF e(2)] find_at_suffix [OF _ e(2)] by blast+
next
  assume "sampler_run ss key = Some e"
  then have "entry_ok ss key e" using hosts_okD [OF run_ok] by (simp add: sampler_run_def)
  then show "length (recent e) \<le> 16" "suffix (recent e) (map snd (samples_of key ss))"
    by (simp_all add: entry_ok_def recentSamples_def)
qed

section \<open>Viewers share a read\<close>

lemma accessFor_Inr:
  assumes "accessFor now key an hosts = (hosts', Inr acc)"
  shows "\<exists>e. hosts' key = Some e \<and> he_access e = Some acc
    \<and> lastUsed e = (case hosts key of Some d \<Rightarrow> lastUsed d | None \<Rightarrow> now)"
proof (cases "hosts key")
  case None
  then obtain a where "an = Inr a" using assms by (cases an) (auto simp: accessFor_def)
  then show ?thesis using assms None by (auto simp: accessFor_def store_access_def host_entry_def)
next
  case (Some d)
  show ?thesis
  proof (cases "he_access d")
    case None
    then obtain a where "an = Inr a" using assms Some by (cases an) (auto simp: accessFor_def)
    then show ?thesis using assms Some None by (auto simp: accessFor_def store_access_def host_entry_def)
  next
    case (Some a)
    then show ?thesis using assms \<open>hosts key = Some d\<close>
      by (cases an; cases "time_sub now (accessAt d) < accessTTL")
        (auto simp: accessFor_def store_access_def host_entry_def)
  qed
qed

lemma find_at_last: "find_at (rev (xs @ [s])) (sm_At s) = Some s"
  by simp

lemma store_sample_hit:
  assumes "hosts key = Some e" and "he_access e = Some acc"
    and "time_sub now started < sampleTTL" and "\<not> idleTTL < time_sub now (lastUsed e)"
  shows "snd (cached now key (store_sample key started stored smp hosts)) = Some (smp, acc)"
    and "Recent (store_sample key started stored smp hosts) key (sm_At smp) = Some smp"
  using assms by (simp_all add: store_sample_def host_entry_def Let_def cached_def act_sweep_def Recent_def)

lemma cached_miss_entry:
  assumes "cached now key hosts = (hosts', r)" and "hosts' key = Some e"
  shows "lastUsed e = now"
  using assms arg_cong [OF assms(1), of fst] cached_hosts [of now key hosts key]
  by (cases "act_sweep now hosts key") auto

lemma cached_miss_stays:
  assumes "snd (cached t key hosts) = None" and "t \<le> u"
  shows "snd (cached u key (fst (cached t key hosts))) = None"
proof (rule ccontr)
  assume "snd (cached u key (fst (cached t key hosts))) \<noteq> None"
  then obtain smp acc where "snd (cached u key (fst (cached t key hosts))) = Some (smp, acc)" by auto
  then obtain e where e: "fst (cached t key hosts) key = Some e" "he_sample e = Some smp" "he_access e = Some acc"
    "time_sub u (fetchedAt e) < sampleTTL" by (rule cached_hit)
  obtain d where d: "act_sweep t hosts key = Some d" "e = d\<lparr>lastUsed := t\<rparr>"
    using e(1) by (cases "act_sweep t hosts key") (auto simp: cached_hosts)
  have "time_sub t (fetchedAt d) < sampleTTL"
    using e(4) d(2) time_sub_mono [OF assms(2) order_refl, of "fetchedAt d"] by simp
  then show False using assms(1) d e(2,3) by (simp add: cached_def Let_def)
qed

text \<open>
  Viewers share a read. When a call finds no fresh sample and reads one, every call that comes
  less than the sharing time after the start of that read is served the same sample and role
  check from memory, and the sample can be looked up by its time. The clock runs forward and the
  timeouts of the two reads keep a call below a minute.
\<close>

theorem viewers_share_a_read:
  assumes "snd (cached (ck_get ck) key hosts) = None" and "ck_get ck \<le> ck_fetch ck"
    and "sampler_Get ck an key hosts = (hosts', Inr (smp, acc))"
    and "ck_fetch ck \<le> ck_access ck" and "ck_access ck \<le> now"
    and "now - ck_fetch ck \<le> idleTTL" and "time_sub now (ck_started ck) < sampleTTL"
  shows "snd (cached now key hosts') = Some (smp, acc) \<and> Recent hosts' key (sm_At smp) = Some smp"
proof -
  define h1 where "h1 = fst (cached (ck_get ck) key hosts)"
  define h2 where "h2 = fst (cached (ck_fetch ck) key h1)"
  have c: "cached (ck_get ck) key hosts = (h1, None)" "cached (ck_fetch ck) key h1 = (h2, None)"
    using assms(1) cached_miss_stays [OF assms(1,2)] by (simp_all add: h1_def h2_def prod_eq_iff)
  have f: "act_fetch ck an key h1 = (hosts', Inr (smp, acc))" using assms(3) by (simp add: sampler_Get_def c)
  then obtain h3 where a: "accessFor (ck_access ck) key (an_access an) h2 = (h3, Inr acc)"
    and h: "hosts' = store_sample key (ck_started ck) (ck_stored ck) smp h3"
    by (auto simp: act_fetch_def c split: prod.splits sum.splits)
  obtain e where e: "h3 key = Some e" "he_access e = Some acc"
    "lastUsed e = (case h2 key of Some d \<Rightarrow> lastUsed d | None \<Rightarrow> ck_access ck)"
    using accessFor_Inr [OF a] by blast
  have "ck_fetch ck \<le> lastUsed e" "lastUsed e \<le> now"
    using e(3) cached_miss_entry [OF c(2)] assms(4,5) by (auto split: option.splits)
  then have "time_sub now (lastUsed e) \<le> idleTTL" using assms(6) by (auto simp: time_sub_def)
  then show ?thesis unfolding h using store_sample_hit [of h3 key e acc now "ck_started ck"] e(1,2) assms(7) by simp
qed

section \<open>Examples\<close>

definition demo_sample :: Sample where
  "demo_sample = \<lparr>sm_At = 5 * second, sm_Sessions = [], sm_Truncated = False\<rparr>"

definition demo_access :: Access where
  "demo_access = \<lparr>CanReadAllStats = True, acc_QueryIDAvailable = True, TrackUtility = False\<rparr>"

definition demo_clock :: clock where
  "demo_clock = \<lparr>ck_get = 5 * second, ck_fetch = 5 * second, ck_access = 5 * second, ck_started = 5 * second, ck_stored = 6 * second\<rparr>"

definition demo_answers :: "string source_answers" where
  "demo_answers = \<lparr>an_access = Inr demo_access, an_sample = Inr demo_sample\<rparr>"

text \<open>Two reads of one host, the second one served, and a read of another host in between.\<close>

definition demo_sections :: "sampler_section list" where
  "demo_sections =
     [StoreAccess (''c'', ''h'') (5 * second) demo_access, StoreSample (''c'', ''h'') (4 * second) (5 * second) demo_sample,
      StoreSample (''c'', ''other'') (5 * second) (6 * second) demo_sample,
      StoreSample (''c'', ''h'') (5 * second) (6 * second) (demo_sample\<lparr>sm_Truncated := True\<rparr>)]"

theorem served_sample_witness:
  "(\<exists>started t. last_read (started, demo_sample\<lparr>sm_Truncated := True\<rparr>) (samples_of (''c'', ''h'') demo_sections)
      \<and> time_sub (5 * second + 1) started < sampleTTL
      \<and> last_read (t, demo_access) (accesses_of (''c'', ''h'') demo_sections))
   \<and> length (samples_of (''c'', ''h'') demo_sections) = 2"
proof -
  have "snd (cached (5 * second + 1) (''c'', ''h'') (sampler_run demo_sections)) = Some (demo_sample\<lparr>sm_Truncated := True\<rparr>, demo_access)"
    by (simp add: demo_sections_def sampler_run_def cached_def act_sweep_def store_access_def store_sample_def host_entry_def Let_def
        time_sub_def sampleTTL_def idleTTL_def duration_units)
  moreover have "length (samples_of (''c'', ''h'') demo_sections) = 2"
    by (simp add: demo_sections_def samples_of_def)
  ultimately show ?thesis
    using served_sample_is_own_and_fresh [of "5 * second + 1" "(''c'', ''h'')" demo_sections "demo_sample\<lparr>sm_Truncated := True\<rparr>" demo_access]
    by blast
qed

theorem viewers_share_witness:
  "snd (cached (6 * second - 1000000000 + 1) (''c'', ''h'')
     (fst (sampler_Get demo_clock demo_answers (''c'', ''h'') Map.empty))) = Some (demo_sample, demo_access)"
proof -
  let ?now = "6 * second - 1000000000 + 1"
  have g: "sampler_Get demo_clock demo_answers (''c'', ''h'') Map.empty =
      (fst (sampler_Get demo_clock demo_answers (''c'', ''h'') Map.empty), Inr (demo_sample, demo_access))"
    by (simp add: sampler_Get_def act_fetch_def accessFor_def cached_def act_sweep_def demo_answers_def Let_def)
  have "snd (cached (ck_get demo_clock) (''c'', ''h'') Map.empty) = None" "ck_get demo_clock \<le> ck_fetch demo_clock"
    by (simp_all add: cached_def act_sweep_def demo_clock_def)
  from viewers_share_a_read [OF this g, of ?now] show ?thesis
    by (simp add: demo_clock_def idleTTL_def sampleTTL_def time_sub_def duration_units)
qed

end
