(* ===== verification/Advisor_Catalog.thy ===== *)
theory Advisor_Catalog
  imports Go_Strings
begin

text \<open>
  What the index advisor reasons about: parsed statements (the types of
  \<^verbatim>\<open>backend/internal/sqlparse/sqlparse.go\<close>), the catalogue of a database and the
  collected workload (\<^verbatim>\<open>backend/internal/indexadvisor/catalog.go\<close>), and the settings
  (\<^verbatim>\<open>config.go\<close>).

  Maps are association lists with distinct keys; a missing list is the empty one, as a nil slice
  is in Go. Parsing itself is done by a build of the PostgreSQL parser and is outside the model:
  a statement arrives parsed.
\<close>

section \<open>Parsed statements\<close>

datatype stmt_kind = KindSelect | KindInsert | KindUpdate | KindDelete | KindMerge | KindUtility | KindOther

datatype col_role = RoleEquality | RoleRange | RoleJoin | RoleOrder | RoleGroup | RoleIsNull

record Ref =
  ref_Schema :: string
  ref_Name :: string
  ref_Alias :: string

record Usage =
  us_Ref :: Ref
  us_Column :: string
  us_Role :: col_role
  us_Desc :: bool
  us_Seq :: i64

record Statement =
  st_Kind :: stmt_kind
  st_Fingerprint :: string
  st_Tables :: "Ref list"
  st_Usages :: "Usage list"
  st_Written :: "Ref list"
  st_Unsupported :: "string list"

section \<open>Catalogue\<close>

type_synonym RelKey = "string \<times> string"

record Relation =
  rel_Key :: RelKey
  rel_Kind :: string
  rel_Rows :: i64
  rel_Pages :: i64
  rel_Root :: RelKey
  rel_Parent :: RelKey

definition IsPartition :: "Relation \<Rightarrow> bool" where
  "IsPartition r \<longleftrightarrow> snd (rel_Root r) \<noteq> []"

record AdvColumn =
  col_Name :: string
  col_DataType :: string
  BtreeIndexable :: bool
  StatsKnown :: bool
  NDistinct :: f64
  NullFrac :: f64

record AdvIndex =
  ix_Name :: string
  ix_Method :: string
  ix_Unique :: bool
  ix_Primary :: bool
  ix_Valid :: bool
  ix_Partial :: bool
  ix_Expression :: bool
  ix_NullPredicate :: "string list"
  ix_Columns :: "string list"

record AdvWrites =
  wr_Inserted :: i64
  wr_Updated :: i64
  wr_Deleted :: i64
  wr_SeqScans :: i64
  wr_IdxScans :: i64

record Catalog =
  cat_Relations :: "(RelKey \<times> Relation) list"
  cat_Columns :: "(RelKey \<times> AdvColumn list) list"
  cat_Indexes :: "(RelKey \<times> AdvIndex list) list"
  cat_Writes :: "(RelKey \<times> AdvWrites) list"
  cat_ByName :: "(string \<times> RelKey list) list"
  cat_Truncated :: bool

definition list_at :: "('k \<times> 'v list) list \<Rightarrow> 'k \<Rightarrow> 'v list" where
  "list_at m k = (case map_of m k of None \<Rightarrow> [] | Some vs \<Rightarrow> vs)"

definition list_add :: "'k \<Rightarrow> 'v \<Rightarrow> ('k \<times> 'v list) list \<Rightarrow> ('k \<times> 'v list) list" where
  "list_add k v m = AList.update k (list_at m k @ [v]) m"

definition NewCatalog :: Catalog where
  "NewCatalog =
     \<lparr>cat_Relations = [], cat_Columns = [], cat_Indexes = [], cat_Writes = [], cat_ByName = [], cat_Truncated = False\<rparr>"

definition AddRelation :: "Relation \<Rightarrow> Catalog \<Rightarrow> Catalog" where
  "AddRelation r c =
     (let c = (if map_of (cat_Relations c) (rel_Key r) = None
               then c\<lparr>cat_ByName := list_add (snd (rel_Key r)) (rel_Key r) (cat_ByName c)\<rparr> else c)
      in c\<lparr>cat_Relations := AList.update (rel_Key r) r (cat_Relations c)\<rparr>)"

definition AddColumn :: "RelKey \<Rightarrow> AdvColumn \<Rightarrow> Catalog \<Rightarrow> Catalog" where
  "AddColumn key col c = c\<lparr>cat_Columns := list_add key col (cat_Columns c)\<rparr>"

definition AddIndex :: "RelKey \<Rightarrow> AdvIndex \<Rightarrow> Catalog \<Rightarrow> Catalog" where
  "AddIndex key idx c = c\<lparr>cat_Indexes := list_add key idx (cat_Indexes c)\<rparr>"

definition zero_Writes :: AdvWrites where
  "zero_Writes = \<lparr>wr_Inserted = 0, wr_Updated = 0, wr_Deleted = 0, wr_SeqScans = 0, wr_IdxScans = 0\<rparr>"

definition writes_at :: "Catalog \<Rightarrow> RelKey \<Rightarrow> AdvWrites" where
  "writes_at c key = (case map_of (cat_Writes c) key of None \<Rightarrow> zero_Writes | Some w \<Rightarrow> w)"

definition AddWrites :: "RelKey \<Rightarrow> AdvWrites \<Rightarrow> Catalog \<Rightarrow> Catalog" where
  "AddWrites key w c =
     (let cur = writes_at c key
      in c\<lparr>cat_Writes := AList.update key
             \<lparr>wr_Inserted = wrap64 (wr_Inserted cur + wr_Inserted w), wr_Updated = wrap64 (wr_Updated cur + wr_Updated w),
              wr_Deleted = wrap64 (wr_Deleted cur + wr_Deleted w), wr_SeqScans = wrap64 (wr_SeqScans cur + wr_SeqScans w),
              wr_IdxScans = wrap64 (wr_IdxScans cur + wr_IdxScans w)\<rparr> (cat_Writes c)\<rparr>)"

definition Forget :: "RelKey \<Rightarrow> Catalog \<Rightarrow> Catalog" where
  "Forget key c =
     (let kept = filter (\<lambda>k. k \<noteq> key) (list_at (cat_ByName c) (snd key))
      in c\<lparr>cat_Relations := AList.delete key (cat_Relations c), cat_Columns := AList.delete key (cat_Columns c),
           cat_Indexes := AList.delete key (cat_Indexes c), cat_Writes := AList.delete key (cat_Writes c),
           cat_ByName := (if kept = [] then AList.delete (snd key) (cat_ByName c)
                          else AList.update (snd key) kept (cat_ByName c))\<rparr>)"

section \<open>Workload\<close>

record WorkloadEntry =
  we_QueryIDs :: "i64 list"
  we_QueryIDByHost :: "(string \<times> i64) list"
  we_Fingerprint :: string
  we_Query :: string
  we_Calls :: i64
  we_TotalTimeMs :: f64
  we_Rows :: i64
  we_Stmt :: Statement
  we_Hosts :: "string list"

record Workload =
  wl_Entries :: "WorkloadEntry list"
  wl_NotParsed :: "(string \<times> i64) list"
  wl_Collected :: i64
  wl_Available :: bool
  wl_Hosts :: "string list"
  wl_NoStats :: "string list"
  wl_Unreachable :: "string list"

definition tally_add :: "string \<Rightarrow> i64 \<Rightarrow> (string \<times> i64) list \<Rightarrow> (string \<times> i64) list" where
  "tally_add code n m = AList.update code (wrap64 ((case map_of m code of None \<Rightarrow> 0 | Some k \<Rightarrow> k) + n)) m"

definition CountNotParsed :: "string \<Rightarrow> Workload \<Rightarrow> Workload" where
  "CountNotParsed reason w = w\<lparr>wl_NotParsed := tally_add reason 1 (wl_NotParsed w)\<rparr>"

definition wl_Merge :: "Workload \<Rightarrow> Workload \<Rightarrow> Workload" where
  "wl_Merge w other =
     w\<lparr>wl_Entries := wl_Entries w @ wl_Entries other, wl_Collected := wrap64 (wl_Collected w + wl_Collected other),
       wl_Available := (wl_Available w \<or> wl_Available other), wl_Hosts := wl_Hosts w @ wl_Hosts other,
       wl_NoStats := wl_NoStats w @ wl_NoStats other, wl_Unreachable := wl_Unreachable w @ wl_Unreachable other,
       wl_NotParsed := fold (\<lambda>(code, n). tally_add code n) (wl_NotParsed other) (wl_NotParsed w)\<rparr>"

section \<open>Settings\<close>

record AdvisorConfig =
  cfg_Enabled :: "bool option"
  MaxQueries :: i64
  MaxQueryBytes :: i64
  MaxCandidates :: i64
  MaxIndexColumns :: i64
  MinTableRows :: i64
  ParseCacheSize :: i64
  cfg_Timeout :: duration
  EvidenceWindow :: duration

definition adv_IsEnabled :: "AdvisorConfig \<Rightarrow> bool" where
  "adv_IsEnabled c = (case cfg_Enabled c of None \<Rightarrow> True | Some b \<Rightarrow> b)"

definition MaxIndexColumnsCeiling :: i64 where "MaxIndexColumnsCeiling = 4"

definition adv_WithDefaults :: "AdvisorConfig \<Rightarrow> AdvisorConfig" where
  "adv_WithDefaults c =
     (let c = (if MaxQueries c \<le> 0 then c\<lparr>MaxQueries := 500\<rparr> else c);
          c = (if MaxQueryBytes c \<le> 0 then c\<lparr>MaxQueryBytes := 100 * 1024\<rparr> else c);
          c = (if MaxCandidates c \<le> 0 then c\<lparr>MaxCandidates := 50\<rparr> else c);
          c = (if MaxIndexColumns c \<le> 0 then c\<lparr>MaxIndexColumns := 3\<rparr> else c);
          c = (if MaxIndexColumnsCeiling < MaxIndexColumns c then c\<lparr>MaxIndexColumns := MaxIndexColumnsCeiling\<rparr> else c);
          c = (if MinTableRows c \<le> 0 then c\<lparr>MinTableRows := 10000\<rparr> else c);
          c = (if ParseCacheSize c \<le> 0 then c\<lparr>ParseCacheSize := 1000\<rparr> else c);
          c = (if cfg_Timeout c \<le> 0 then c\<lparr>cfg_Timeout := 60 * second\<rparr> else c)
      in if EvidenceWindow c \<le> 0 then c\<lparr>EvidenceWindow := hour\<rparr> else c)"

lemma WithDefaults_bounds:
  "0 < MaxIndexColumns (adv_WithDefaults c) \<and> MaxIndexColumns (adv_WithDefaults c) \<le> 4
   \<and> 0 < MaxCandidates (adv_WithDefaults c) \<and> 0 < MinTableRows (adv_WithDefaults c)"
  by (simp add: adv_WithDefaults_def Let_def MaxIndexColumnsCeiling_def)

section \<open>Names in step\<close>

text \<open>
  The index by name lists exactly the relations of the catalogue, each once and under its own
  name: a bare name is resolved or refused by what exists.
\<close>

definition names_ok :: "Catalog \<Rightarrow> bool" where
  "names_ok c \<longleftrightarrow>
     distinct (map fst (cat_Relations c)) \<and> distinct (map fst (cat_ByName c))
     \<and> (\<forall>name. distinct (list_at (cat_ByName c) name)
          \<and> set (list_at (cat_ByName c) name) = {k. k \<in> set (map fst (cat_Relations c)) \<and> snd k = name})
     \<and> (\<forall>name. map_of (cat_ByName c) name \<noteq> Some [])"

lemma list_at_update: "list_at (AList.update k v m) j = (if j = k then v else list_at m j)"
  by (simp add: list_at_def update_conv)

lemma list_at_delete: "list_at (AList.delete k m) j = (if j = k then [] else list_at m j)"
  by (simp add: list_at_def delete_conv)

lemma keys_update: "set (map fst (AList.update k v m)) = insert k (set (map fst m))"
  by (auto simp: update_keys simp del: set_map)

lemma delete_distinct: "distinct (map fst m) \<Longrightarrow> distinct (map fst (AList.delete k m))"
  by (rule distinct_delete)

lemma keys_delete: "set (map fst (AList.delete k m)) = set (map fst m) - {k}"
  by (simp only: delete_keys set_removeAll)

lemma names_okI:
  assumes "distinct (map fst (cat_Relations c))" and "distinct (map fst (cat_ByName c))"
    and "\<And>name. distinct (list_at (cat_ByName c) name)"
    and "\<And>name. set (list_at (cat_ByName c) name) = {k. k \<in> set (map fst (cat_Relations c)) \<and> snd k = name}"
    and "\<And>name. map_of (cat_ByName c) name \<noteq> Some []"
  shows "names_ok c"
  unfolding names_ok_def using assms by blast

lemma names_okD:
  assumes "names_ok c"
  shows "distinct (map fst (cat_Relations c))" "distinct (map fst (cat_ByName c))"
    "distinct (list_at (cat_ByName c) name)"
    "set (list_at (cat_ByName c) name) = {k. k \<in> set (map fst (cat_Relations c)) \<and> snd k = name}"
    "map_of (cat_ByName c) name \<noteq> Some []"
  using assms unfolding names_ok_def by blast+

lemma AddRelation_fields:
  shows "cat_Relations (AddRelation r c) = AList.update (rel_Key r) r (cat_Relations c)"
    and "cat_ByName (AddRelation r c) =
      (if rel_Key r \<in> set (map fst (cat_Relations c)) then cat_ByName c
       else list_add (snd (rel_Key r)) (rel_Key r) (cat_ByName c))"
  using map_of_eq_None_iff [of "cat_Relations c" "rel_Key r"] by (simp_all add: AddRelation_def Let_def)

lemma AddRelation_names:
  assumes "names_ok c"
  shows "names_ok (AddRelation r c)"
proof (cases "rel_Key r \<in> set (map fst (cat_Relations c))")
  case True
  note d = names_okD [OF assms] and f = AddRelation_fields [of r c]
  have keys: "set (map fst (cat_Relations (AddRelation r c))) = set (map fst (cat_Relations c))"
    unfolding f(1) keys_update using True by (rule insert_absorb)
  have names: "cat_ByName (AddRelation r c) = cat_ByName c" unfolding f(2) using True by (rule if_P)
  show ?thesis
  proof (rule names_okI)
    show "distinct (map fst (cat_Relations (AddRelation r c)))" unfolding f(1) using d(1) by (rule distinct_update)
  qed (unfold names keys, (rule d)+)
next
  case False
  note d = names_okD [OF assms] and f = AddRelation_fields [of r c]
  define k where "k = rel_Key r"
  define keys where "keys = set (map fst (cat_Relations c))"
  have new: "k \<notin> keys" using False by (simp only: k_def keys_def not_False_eq_True)
  have names: "cat_ByName (AddRelation r c) = AList.update (snd k) (list_at (cat_ByName c) (snd k) @ [k]) (cat_ByName c)"
    unfolding f(2) list_add_def k_def using False by (rule if_not_P)
  have old: "set (list_at (cat_ByName c) name) = {j. j \<in> keys \<and> snd j = name}" for name
    unfolding keys_def by (rule d(4))
  show ?thesis
  proof (rule names_okI)
    show "distinct (map fst (cat_Relations (AddRelation r c)))" unfolding f(1) using d(1) by (rule distinct_update)
    show "distinct (map fst (cat_ByName (AddRelation r c)))" unfolding names using d(2) by (rule distinct_update)
    show "distinct (list_at (cat_ByName (AddRelation r c)) name)" for name
      unfolding names list_at_update using d(3) new old [of "snd k"] by simp
    show "set (list_at (cat_ByName (AddRelation r c)) name) =
        {j. j \<in> set (map fst (cat_Relations (AddRelation r c))) \<and> snd j = name}" for name
    proof -
      have l: "set (list_at (cat_ByName (AddRelation r c)) name) =
          (if name = snd k then insert k {j. j \<in> keys \<and> snd j = name} else {j. j \<in> keys \<and> snd j = name})"
        unfolding names list_at_update using old [of name] old [of "snd k"] by simp
      have "{j. j \<in> insert k keys \<and> snd j = name} =
          (if name = snd k then insert k {j. j \<in> keys \<and> snd j = name} else {j. j \<in> keys \<and> snd j = name})" by auto
      then show ?thesis unfolding l f(1) keys_update k_def [symmetric] keys_def [symmetric] by (rule sym)
    qed
    show "map_of (cat_ByName (AddRelation r c)) name \<noteq> Some []" for name
      unfolding names using d(5) [of name] by (simp add: update_conv)
  qed
qed

lemma Forget_names:
  assumes "names_ok c"
  shows "names_ok (Forget key c)"
proof (rule names_okI)
  note d = names_okD [OF assms]
  define kept where "kept = filter (\<lambda>k. k \<noteq> key) (list_at (cat_ByName c) (snd key))"
  have rel: "cat_Relations (Forget key c) = AList.delete key (cat_Relations c)" by (simp add: Forget_def Let_def)
  have names: "cat_ByName (Forget key c) =
      (if kept = [] then AList.delete (snd key) (cat_ByName c) else AList.update (snd key) kept (cat_ByName c))"
    by (simp add: Forget_def Let_def kept_def)
  have at: "list_at (cat_ByName (Forget key c)) name = (if name = snd key then kept else list_at (cat_ByName c) name)" for name
    unfolding names by (simp add: list_at_update list_at_delete)
  show "distinct (map fst (cat_Relations (Forget key c)))" unfolding rel using d(1) by (rule delete_distinct)
  show "distinct (map fst (cat_ByName (Forget key c)))"
    unfolding names using d(2) by (simp add: distinct_update delete_distinct)
  show "distinct (list_at (cat_ByName (Forget key c)) name)" for name
    unfolding at kept_def using d(3) by simp
  show "set (list_at (cat_ByName (Forget key c)) name) =
      {k. k \<in> set (map fst (cat_Relations (Forget key c))) \<and> snd k = name}" for name
    unfolding at rel keys_delete kept_def using d(4) [of name] by (auto simp del: set_map split_paired_All)
  show "map_of (cat_ByName (Forget key c)) name \<noteq> Some []" for name
    unfolding names using d(5) [of name] by (simp add: update_conv delete_conv)
qed

datatype catalog_event =
    EvRelation Relation
  | EvColumn RelKey AdvColumn
  | EvIndex RelKey AdvIndex
  | EvWrites RelKey AdvWrites
  | EvForget RelKey

fun catalog_step :: "catalog_event \<Rightarrow> Catalog \<Rightarrow> Catalog" where
  "catalog_step (EvRelation r) c = AddRelation r c"
| "catalog_step (EvColumn key col) c = AddColumn key col c"
| "catalog_step (EvIndex key idx) c = AddIndex key idx c"
| "catalog_step (EvWrites key w) c = AddWrites key w c"
| "catalog_step (EvForget key) c = Forget key c"

lemma catalog_step_names: "names_ok c \<Longrightarrow> names_ok (catalog_step e c)"
  by (cases e) (simp_all add: AddRelation_names Forget_names, simp_all add: names_ok_def AddColumn_def AddIndex_def AddWrites_def Let_def)

interpretation catalog: transition_system catalog_step names_ok "\<lambda>e. True"
  by unfold_locales (rule catalog_step_names)

lemma catalog_run_names: "names_ok (fold catalog_step es NewCatalog)"
  by (rule catalog.run_inv) (simp_all add: names_ok_def NewCatalog_def list_at_def list_all_iff)

end
