(* ===== verification/Advisor_Predicate.thy ===== *)
theory Advisor_Predicate
  imports Go_Strings
begin

text \<open>
  Predicates of partial indexes: how the advisor prints them (\<^verbatim>\<open>quoteIdent\<close>,
  \<^verbatim>\<open>predicateSQL\<close>, \<^verbatim>\<open>columnList\<close> of
  \<^verbatim>\<open>backend/internal/indexadvisor/ddl.go\<close>) and how it reads the ones PostgreSQL prints
  (\<^verbatim>\<open>predicate.go\<close>). The scanners compare ASCII characters only, so that on valid UTF-8
  the runes of the source and the bytes of the model agree.
\<close>

abbreviation dq :: char where "dq \<equiv> CHR 0x22"

section \<open>Printing\<close>

definition quoteIdent :: "string \<Rightarrow> string" where
  "quoteIdent s = [dq] @ ReplaceAll s [dq] [dq, dq] @ [dq]"

definition columnList :: "string list \<Rightarrow> string" where
  "columnList columns = ''('' @ Join (map quoteIdent columns) '', '' @ '')''"

definition predicateSQL :: "string list \<Rightarrow> string" where
  "predicateSQL predicate = Join (map (\<lambda>c. quoteIdent c @ '' IS NULL'') predicate) '' AND ''"

definition whereClause :: "string list \<Rightarrow> string" where
  "whereClause predicate = (if predicate = [] then [] else '' WHERE '' @ predicateSQL predicate)"

section \<open>Reading\<close>

fun paren_scan :: "nat \<Rightarrow> int \<Rightarrow> bool \<Rightarrow> string \<Rightarrow> nat option" where
  "paren_scan i depth quoted [] = None"
| "paren_scan i depth quoted (r # s) =
     (if r = dq then paren_scan (i + 1) depth (\<not> quoted) s
      else if quoted then paren_scan (i + 1) depth quoted s
      else if r = CHR ''('' then paren_scan (i + 1) (depth + 1) quoted s
      else if r = CHR '')'' then (if depth - 1 = 0 then Some i else paren_scan (i + 1) (depth - 1) quoted s)
      else paren_scan (i + 1) depth quoted s)"

definition matchingParen :: "string \<Rightarrow> nat option" where
  "matchingParen expr = paren_scan 0 0 False expr"

lemma TrimSpace_length: "length (TrimSpace s) \<le> length s"
proof -
  have "length (dropWhile is_blank (rev (dropWhile is_blank s))) \<le> length (rev (dropWhile is_blank s))"
    by (rule length_dropWhile_le)
  also have "\<dots> \<le> length s" by (simp add: length_dropWhile_le)
  finally show ?thesis by (simp add: TrimSpace_def)
qed

text \<open>The loop of \<^verbatim>\<open>trimParens\<close>, on a trimmed expression.\<close>

function trim_parens :: "string \<Rightarrow> string" where
  "trim_parens expr =
     (if HasPrefix expr ''('' \<and> matchingParen expr = Some (length expr - 1)
      then trim_parens (TrimSpace (take (length expr - 2) (drop 1 expr))) else expr)"
  by pat_completeness auto

termination
proof (relation "measure length")
  fix expr
  assume "HasPrefix expr ''('' \<and> matchingParen expr = Some (length expr - 1)"
  then have "expr \<noteq> []" by (auto simp: HasPrefix_def)
  then have "length (take (length expr - 2) (drop 1 expr)) < length expr" by (cases expr) auto
  then show "(TrimSpace (take (length expr - 2) (drop 1 expr)), expr) \<in> measure length"
    using TrimSpace_length le_less_trans by (fastforce simp del: length_take length_drop)
qed simp

declare trim_parens.simps [simp del]

definition trimParens :: "string \<Rightarrow> string" where
  "trimParens expr = trim_parens (TrimSpace expr)"

text \<open>
  The scan of \<^verbatim>\<open>splitConjuncts\<close>: \<open>cur\<close> is the text since the last separator. An
  empty last part makes the whole result nil.
\<close>

function conj_scan :: "int \<Rightarrow> bool \<Rightarrow> string \<Rightarrow> string \<Rightarrow> string list option" where
  "conj_scan depth quoted cur [] = (if cur = [] then None else Some [cur])"
| "conj_scan depth quoted cur (r # s) =
     (if r = dq then conj_scan depth (\<not> quoted) (cur @ [r]) s
      else if quoted then conj_scan depth quoted (cur @ [r]) s
      else if r = CHR ''('' then conj_scan (depth + 1) quoted (cur @ [r]) s
      else if r = CHR '')'' then conj_scan (depth - 1) quoted (cur @ [r]) s
      else if depth = 0 \<and> prefix '' AND '' (r # s) then map_option ((#) cur) (conj_scan depth quoted [] (drop 4 s))
      else conj_scan depth quoted (cur @ [r]) s)"
  by pat_completeness auto

termination
  by (relation "measure (\<lambda>(depth, quoted, cur, s). length s)") auto

definition splitConjuncts :: "string \<Rightarrow> string list" where
  "splitConjuncts expr = (case conj_scan 0 False [] expr of None \<Rightarrow> [] | Some parts \<Rightarrow> parts)"

definition ia_unquoteIdent :: "string \<Rightarrow> string option" where
  "ia_unquoteIdent s =
     (if HasPrefix s [dq] \<and> HasSuffix s [dq] \<and> 1 < length s
      then (let inner = take (length s - 2) (drop 1 s)
            in if Contains (ReplaceAll inner [dq, dq] []) [dq] then None else Some (ReplaceAll inner [dq, dq] [dq]))
      else if s = [] \<or> list_ex (\<lambda>c. c \<in> {CHR '' '', CHR ''('', CHR '')'', dq, CHR 0x27, CHR ''.'', CHR '','', CHR '':''}) s
      then None
      else Some s)"

definition isNullColumn :: "string \<Rightarrow> string option" where
  "isNullColumn expr =
     (case CutSuffix (trimParens expr) '' IS NULL'' of
        None \<Rightarrow> None
      | Some name \<Rightarrow> ia_unquoteIdent (TrimSpace name))"

definition NullPredicateColumns :: "string \<Rightarrow> string list" where
  "NullPredicateColumns expr =
     (let parts = splitConjuncts (trimParens expr);
          names = map isNullColumn parts
      in if parts = [] \<or> None \<in> set names then [] else remdups_adj (sort (map the names)))"

section \<open>Identifiers\<close>

lemma ReplaceAll_step:
  assumes "old \<noteq> []"
  shows "ReplaceAll [] old new = []"
    and "ReplaceAll (c # s) old new =
      (if prefix old (c # s) then new @ ReplaceAll (drop (length old) (c # s)) old new else c # ReplaceAll s old new)"
proof -
  show "ReplaceAll [] old new = []" using assms by (subst ReplaceAll.simps) simp
  show "ReplaceAll (c # s) old new =
      (if prefix old (c # s) then new @ ReplaceAll (drop (length old) (c # s)) old new else c # ReplaceAll s old new)"
  proof (cases "Cut s old")
    case None
    then show ?thesis using assms
      by (subst (1) ReplaceAll.simps) (simp add: ReplaceAll.simps [of s])
  next
    case (Some ab)
    then show ?thesis using assms
      by (subst (1) ReplaceAll.simps) (simp add: ReplaceAll.simps [of s] split: prod.splits)
  qed
qed

definition esc :: "string \<Rightarrow> string" where
  "esc s = concat (map (\<lambda>c. if c = dq then [dq, dq] else [c]) s)"

lemma esc_simps [simp]: "esc [] = []" "esc (c # s) = (if c = dq then [dq, dq] else [c]) @ esc s"
  by (simp_all add: esc_def)

lemma quoteIdent_esc: "quoteIdent s = [dq] @ esc s @ [dq]"
proof -
  have "ReplaceAll s [dq] [dq, dq] = esc s" by (induction s) (auto simp: ReplaceAll_step)
  then show ?thesis by (simp add: quoteIdent_def)
qed

lemma unesc: "ReplaceAll (esc s) [dq, dq] [dq] = s"
  by (induction s) (simp_all add: ReplaceAll_step)

lemma unesc_none: "\<not> Contains (ReplaceAll (esc s) [dq, dq] []) [dq]"
proof -
  have "dq \<notin> set (ReplaceAll (esc s) [dq, dq] [])" by (induction s) (auto simp: ReplaceAll_step)
  then show ?thesis by (simp add: Contains_def Cut_byte_None)
qed

lemma unquote_quote: "ia_unquoteIdent (quoteIdent s) = Some s"
proof -
  have "take (length (quoteIdent s) - 2) (drop 1 (quoteIdent s)) = esc s" by (simp add: quoteIdent_esc)
  moreover have "HasSuffix (quoteIdent s) [dq]" unfolding quoteIdent_esc HasSuffix_def by (simp add: suffix_def)
  moreover have "HasPrefix (quoteIdent s) [dq]" "1 < length (quoteIdent s)" by (simp_all add: quoteIdent_esc HasPrefix_def)
  ultimately show ?thesis by (simp add: ia_unquoteIdent_def unesc unesc_none Let_def)
qed

lemma quoteIdent_inj: "quoteIdent a = quoteIdent b \<longleftrightarrow> a = b"
  by (metis option.inject unquote_quote)

section \<open>What is printed is read back\<close>

lemma conj_scan_quoted:
  "conj_scan d True cur (esc s @ dq # t) = conj_scan d False (cur @ esc s @ [dq]) t"
  by (induction s arbitrary: cur) simp_all

lemma conj_scan_ident:
  "conj_scan d False cur (quoteIdent s @ t) = conj_scan d False (cur @ quoteIdent s) t"
  by (simp add: quoteIdent_esc conj_scan_quoted)

lemma conj_scan_test_end:
  "conj_scan 0 False [] (quoteIdent c @ '' IS NULL'') = Some [quoteIdent c @ '' IS NULL'']"
  unfolding conj_scan_ident by simp

lemma conj_scan_test:
  "conj_scan 0 False [] (quoteIdent c @ '' IS NULL'' @ '' AND '' @ t) =
     map_option ((#) (quoteIdent c @ '' IS NULL'')) (conj_scan 0 False [] t)"
  unfolding conj_scan_ident by simp

lemma split_predicate:
  "cols \<noteq> [] \<Longrightarrow> conj_scan 0 False [] (predicateSQL cols) = Some (map (\<lambda>c. quoteIdent c @ '' IS NULL'') cols)"
proof (induction cols)
  case (Cons c cols)
  show ?case
  proof (cases cols)
    case Nil
    then show ?thesis by (simp add: predicateSQL_def conj_scan_test_end del: append.simps)
  next
    case (Cons d ds)
    then have "predicateSQL (c # cols) = quoteIdent c @ '' IS NULL'' @ '' AND '' @ predicateSQL cols"
      by (simp add: predicateSQL_def)
    then show ?thesis using Cons.IH Cons by (simp only: conj_scan_test) simp
  qed
qed simp

lemma TrimSpace_plain: "s \<noteq> [] \<Longrightarrow> \<not> is_blank (hd s) \<Longrightarrow> \<not> is_blank (last s) \<Longrightarrow> TrimSpace s = s"
proof -
  assume a: "s \<noteq> []" "\<not> is_blank (hd s)" "\<not> is_blank (last s)"
  have "dropWhile is_blank s = s" using a by (cases s) auto
  moreover have "dropWhile is_blank (rev s) = rev s" using a by (cases s rule: rev_cases) auto
  ultimately show ?thesis by (simp add: TrimSpace_def)
qed

lemma quoteIdent_ends [simp]: "quoteIdent c \<noteq> []" "hd (quoteIdent c) = dq" "last (quoteIdent c) = dq"
  by (simp_all add: quoteIdent_esc)

lemma TrimSpace_ident: "TrimSpace (quoteIdent c) = quoteIdent c"
  by (rule TrimSpace_plain) (simp_all add: is_blank_def)

lemma trim_quoted:
  assumes "s \<noteq> []" "hd s = dq" "\<not> is_blank (last s)"
  shows "trimParens s = s"
proof -
  have "TrimSpace s = s" using assms by (intro TrimSpace_plain) (simp_all add: is_blank_def)
  moreover have "\<not> HasPrefix s ''(''" using assms by (cases s) (auto simp: HasPrefix_def)
  ultimately show ?thesis by (simp add: trimParens_def trim_parens.simps [of s])
qed

lemma isNull_test: "isNullColumn (quoteIdent c @ '' IS NULL'') = Some c"
proof -
  have "trimParens (quoteIdent c @ '' IS NULL'') = quoteIdent c @ '' IS NULL''"
    by (rule trim_quoted) (simp_all add: is_blank_def)
  moreover have "CutSuffix (quoteIdent c @ '' IS NULL'') '' IS NULL'' = Some (quoteIdent c)"
    by (simp add: CutSuffix_def HasSuffix_def suffix_def)
  ultimately show ?thesis by (simp add: isNullColumn_def TrimSpace_ident unquote_quote)
qed

lemma predicateSQL_ends:
  "cols \<noteq> [] \<Longrightarrow> predicateSQL cols \<noteq> [] \<and> hd (predicateSQL cols) = dq \<and> last (predicateSQL cols) = CHR ''L''"
proof (induction cols)
  case (Cons c cols)
  then show ?case by (cases cols) (simp_all add: predicateSQL_def)
qed simp

text \<open>
  C27: a predicate the advisor prints is read back as its columns, sorted and each once, whatever
  the names hold: quotes, parentheses, blanks or the very words of a condition. So an index built
  from a suggestion is recognised by the next report as the partial index the suggestion asked for.
\<close>

theorem predicate_roundtrip: "NullPredicateColumns (predicateSQL cols) = remdups_adj (sort cols)"
proof (cases "cols = []")
  case True
  have "trimParens [] = []" by (simp add: trimParens_def TrimSpace_def trim_parens.simps HasPrefix_def)
  then show ?thesis using True by (simp add: predicateSQL_def NullPredicateColumns_def splitConjuncts_def)
next
  case False
  have "trimParens (predicateSQL cols) = predicateSQL cols"
    using predicateSQL_ends [OF False] by (intro trim_quoted) (simp_all add: is_blank_def)
  then have parts: "splitConjuncts (trimParens (predicateSQL cols)) = map (\<lambda>c. quoteIdent c @ '' IS NULL'') cols"
    by (simp add: splitConjuncts_def split_predicate [OF False])
  have names: "map isNullColumn (map (\<lambda>c. quoteIdent c @ '' IS NULL'') cols) = map Some cols"
    by (simp add: isNull_test comp_def del: append.simps)
  have "map the (map Some cols) = cols" by (simp add: comp_def)
  moreover have "None \<notin> set (map Some cols)" by auto
  ultimately show ?thesis using False unfolding NullPredicateColumns_def Let_def parts names by simp
qed

lemma predicateSQL_inj: "predicateSQL a = predicateSQL b \<longleftrightarrow> a = b"
proof
  assume e: "predicateSQL a = predicateSQL b"
  show "a = b"
  proof (cases "a = [] \<or> b = []")
    case True
    moreover have "predicateSQL [] = []" by (simp add: predicateSQL_def)
    ultimately show ?thesis using e predicateSQL_ends by metis
  next
    case False
    then have "map (\<lambda>c. quoteIdent c @ '' IS NULL'') a = map (\<lambda>c. quoteIdent c @ '' IS NULL'') b"
      using split_predicate [of a] split_predicate [of b] e by simp
    moreover have "inj (\<lambda>c. quoteIdent c @ '' IS NULL'')" by (rule injI) (simp add: quoteIdent_inj)
    ultimately show ?thesis by (simp only: inj_map_eq_map)
  qed
qed simp

end
