(* ===== verification/Advisor_DDL.thy ===== *)
theory Advisor_DDL
  imports Advisor_Catalog Advisor_Predicate Go_Utf8
begin

text \<open>
  The statements the advisor suggests (\<^verbatim>\<open>backend/internal/indexadvisor/ddl.go\<close>): one
  \<^verbatim>\<open>CREATE INDEX CONCURRENTLY\<close> for an ordinary table, and for a partitioned one a script
  that builds an index level by level and attaches each to the one above.

  A script is a list of \<open>ddl_line\<close>s, printed by \<open>print_line\<close>. The search for
  a free name and the descent into the tree of partitions are loops without a bound in the source:
  the search has fuel that \<open>reserve_total\<close> proves to be enough, the descent has the number
  of relations as fuel and returns None beyond, which \<open>leaves_total\<close> excludes for a
  catalogue whose parents have no cycle. Children are sorted by name; where two schemas have a
  partition of one name the source leaves the order open and the model takes the catalogue's.
\<close>

definition partitionedKind :: string where "partitionedKind = ''p''"

definition maxIdentLen :: nat where "maxIdentLen = 63"

definition ddlMaxPartitions :: nat where "ddlMaxPartitions = 20"

section \<open>Scope\<close>

record ddlScope =
  sc_children :: "(RelKey \<times> RelKey list) list"
  sc_kinds :: "(RelKey \<times> string) list"
  sc_taken :: "RelKey list"
  sc_fuel :: nat

definition kind_at :: "ddlScope \<Rightarrow> RelKey \<Rightarrow> string" where
  "kind_at s k = (case map_of (sc_kinds s) k of None \<Rightarrow> [] | Some v \<Rightarrow> v)"

definition newDDLScope :: "Catalog \<Rightarrow> ddlScope" where
  "newDDLScope cat =
     (let rels = cat_Relations cat;
          kids = fold (\<lambda>(key, rel) m. if snd (rel_Parent rel) \<noteq> [] then list_add (rel_Parent rel) key m else m) rels []
      in \<lparr>sc_children = map (\<lambda>(p, ks). (p, sort_key snd ks)) kids,
          sc_kinds = map (\<lambda>(key, rel). (key, rel_Kind rel)) rels,
          sc_taken = map fst rels @ concat (map (\<lambda>(key, indexes). map (\<lambda>idx. (fst key, ix_Name idx)) indexes) (cat_Indexes cat)),
          sc_fuel = length rels + 1\<rparr>)"

fun sum_opt :: "('a \<Rightarrow> nat option) \<Rightarrow> 'a list \<Rightarrow> nat option" where
  "sum_opt f [] = Some 0"
| "sum_opt f (x # xs) = (case f x of None \<Rightarrow> None | Some a \<Rightarrow> map_option ((+) a) (sum_opt f xs))"

fun leaves :: "nat \<Rightarrow> ddlScope \<Rightarrow> RelKey \<Rightarrow> nat option" where
  "leaves 0 s node = None"
| "leaves (Suc n) s node =
     (if kind_at s node \<noteq> partitionedKind then Some 1 else sum_opt (leaves n s) (list_at (sc_children s) node))"

section \<open>Names\<close>

fun strip_invalid :: "nat \<Rightarrow> string \<Rightarrow> string" where
  "strip_invalid 0 base = []"
| "strip_invalid (Suc n) base = (if base \<noteq> [] \<and> \<not> ValidString base then strip_invalid n (butlast base) else base)"

text \<open>The suffix is never longer than the limit: see \<open>reserve_total\<close>.\<close>

definition truncIdent :: "string \<Rightarrow> string \<Rightarrow> string" where
  "truncIdent base suf =
     (let limit = maxIdentLen - length suf
      in if length base \<le> limit then base @ suf
         else strip_invalid (limit + 1) (take limit base) @ suf)"

definition index_base :: "RelKey \<Rightarrow> string list \<Rightarrow> string" where
  "index_base rel columns = snd rel @ ''_'' @ Join columns ''_'' @ ''_idx''"

definition index_name :: "RelKey \<Rightarrow> string list \<Rightarrow> nat \<Rightarrow> RelKey" where
  "index_name rel columns i = (fst rel, truncIdent (index_base rel columns) (if 0 < i then Itoa i else []))"

fun reserve_from :: "nat \<Rightarrow> nat \<Rightarrow> RelKey \<Rightarrow> string list \<Rightarrow> ddlScope \<Rightarrow> (RelKey \<times> ddlScope) option" where
  "reserve_from 0 i rel columns s = None"
| "reserve_from (Suc n) i rel columns s =
     (let key = index_name rel columns i
      in if key \<notin> set (sc_taken s) then Some (key, s\<lparr>sc_taken := key # sc_taken s\<rparr>)
         else reserve_from n (i + 1) rel columns s)"

definition reserve :: "RelKey \<Rightarrow> string list \<Rightarrow> ddlScope \<Rightarrow> (RelKey \<times> ddlScope) option" where
  "reserve rel columns s = reserve_from (12 * length (sc_taken s) + 10) 0 rel columns s"

section \<open>Scripts\<close>

datatype ddl_line =
    CreateOnly RelKey RelKey
  | CreateConcurrently RelKey RelKey
  | Attach RelKey RelKey
  | BlankLine
  | NotListed nat RelKey

definition quoted :: "RelKey \<Rightarrow> string" where
  "quoted k = quoteIdent (fst k) @ ''.'' @ quoteIdent (snd k)"

fun print_line :: "string \<Rightarrow> ddl_line \<Rightarrow> string" where
  "print_line cols (CreateOnly idx rel) =
     ''CREATE INDEX '' @ quoteIdent (snd idx) @ '' ON ONLY '' @ quoted rel @ '' '' @ cols @ '';''"
| "print_line cols (CreateConcurrently idx rel) =
     ''CREATE INDEX CONCURRENTLY '' @ quoteIdent (snd idx) @ '' ON '' @ quoted rel @ '' '' @ cols @ '';''"
| "print_line cols (Attach parentIdx idx) = ''ALTER INDEX '' @ quoted parentIdx @ '' ATTACH PARTITION '' @ quoted idx @ '';''"
| "print_line cols BlankLine = []"
| "print_line cols (NotListed n rootIdx) =
     ''-- '' @ Itoa n @ '' more partitions are not listed here: '' @ quoteIdent (snd rootIdx) @
     '' stays invalid until every one of them is built and attached the same way''"

record ddlWriter =
  dw_scope :: ddlScope
  dw_lines :: "ddl_line list"
  dw_budget :: nat
  dw_skipped :: nat

definition put :: "ddl_line \<Rightarrow> ddlWriter \<Rightarrow> ddlWriter" where
  "put l w = w\<lparr>dw_lines := dw_lines w @ [l]\<rparr>"

fun each_child :: "(RelKey \<Rightarrow> ddlWriter \<Rightarrow> ddlWriter option) \<Rightarrow> nat \<Rightarrow> RelKey list \<Rightarrow> ddlWriter \<Rightarrow> ddlWriter option" where
  "each_child sub n [] w = Some w"
| "each_child sub n (c # cs) w =
     (if dw_budget w = 0
      then (case leaves n (dw_scope w) c of
              None \<Rightarrow> None
            | Some k \<Rightarrow> each_child sub n cs (w\<lparr>dw_skipped := dw_skipped w + k\<rparr>))
      else (case sub c (put BlankLine (w\<lparr>dw_budget := dw_budget w - 1\<rparr>)) of
              None \<Rightarrow> None
            | Some w \<Rightarrow> each_child sub n cs w))"

fun ddl_subtree :: "nat \<Rightarrow> string list \<Rightarrow> RelKey \<Rightarrow> RelKey \<Rightarrow> ddlWriter \<Rightarrow> ddlWriter option" where
  "ddl_subtree 0 columns parentIdx node w = None"
| "ddl_subtree (Suc n) columns parentIdx node w =
     (case reserve node columns (dw_scope w) of
        None \<Rightarrow> None
      | Some (nodeIdx, s) \<Rightarrow>
          (let w = w\<lparr>dw_scope := s\<rparr>
           in map_option (put (Attach parentIdx nodeIdx))
                (if kind_at s node = partitionedKind
                 then each_child (ddl_subtree n columns nodeIdx) n (list_at (sc_children s) node)
                        (put (CreateOnly nodeIdx node) w)
                 else Some (put (CreateConcurrently nodeIdx node) w))))"

definition partition_lines :: "RelKey \<Rightarrow> string list \<Rightarrow> ddlScope \<Rightarrow> (ddl_line list \<times> ddlScope) option" where
  "partition_lines top_rel columns s =
     (case reserve top_rel columns s of
        None \<Rightarrow> None
      | Some (rootIdx, s) \<Rightarrow>
          (let n = sc_fuel s;
               w = \<lparr>dw_scope = s, dw_lines = [CreateOnly rootIdx top_rel], dw_budget = ddlMaxPartitions, dw_skipped = 0\<rparr>
           in map_option (\<lambda>w. (if 0 < dw_skipped w then dw_lines w @ [BlankLine, NotListed (dw_skipped w) rootIdx] else dw_lines w,
                               dw_scope w))
                (each_child (ddl_subtree n columns rootIdx) n (list_at (sc_children s) top_rel) w)))"

definition partitionDDL :: "RelKey \<Rightarrow> string list \<Rightarrow> string \<Rightarrow> ddlScope \<Rightarrow> (string \<times> ddlScope) option" where
  "partitionDDL top_rel columns cols s =
     map_option (\<lambda>(ls, s). (Join (map (print_line cols) ls) [CHR 0x0A], s)) (partition_lines top_rel columns s)"

definition ddlFor :: "RelKey \<Rightarrow> string list \<Rightarrow> string list \<Rightarrow> ddlScope \<Rightarrow> (string \<times> ddlScope) option" where
  "ddlFor key columns predicate s =
     (let cols = columnList columns @ whereClause predicate
      in if kind_at s key \<noteq> partitionedKind
         then Some (''CREATE INDEX CONCURRENTLY ON '' @ quoted key @ '' '' @ cols @ '';'', s)
         else if list_at (sc_children s) key = []
         then Some (''CREATE INDEX ON '' @ quoted key @ '' '' @ cols @ '';'', s)
         else partitionDDL key columns cols s)"

section \<open>A free name is found\<close>

lemma strip_invalid_prefix: "\<exists>t. base = strip_invalid n base @ t"
proof (induction n arbitrary: base)
  case (Suc n)
  show ?case
  proof (cases "base \<noteq> [] \<and> \<not> ValidString base")
    case True
    then obtain t where "butlast base = strip_invalid n (butlast base) @ t" using Suc by blast
    then have "base = strip_invalid n (butlast base) @ (t @ [last base])"
      using True by (metis append.assoc append_butlast_last_id)
    then show ?thesis using True by auto
  qed auto
qed simp

lemma strip_invalid_valid: "length base < n \<Longrightarrow> ValidString (strip_invalid n base)"
proof (induction n arbitrary: base)
  case (Suc n)
  have "base \<noteq> [] \<Longrightarrow> length (butlast base) < n" using Suc.prems by (cases base) auto
  then show ?case using Suc.IH [of "butlast base"] by auto
qed simp

definition trunc_base :: "string \<Rightarrow> nat \<Rightarrow> string" where
  "trunc_base base n =
     (let limit = maxIdentLen - n in if length base \<le> limit then base else strip_invalid (limit + 1) (take limit base))"

lemma truncIdent_base: "truncIdent base suf = trunc_base base (length suf) @ suf"
  by (simp add: truncIdent_def trunc_base_def Let_def)

lemma trunc_base_length: "length (trunc_base base n) \<le> maxIdentLen - n"
proof -
  obtain t where "take (maxIdentLen - n) base = strip_invalid (maxIdentLen - n + 1) (take (maxIdentLen - n) base) @ t"
    using strip_invalid_prefix by blast
  then have "length (strip_invalid (maxIdentLen - n + 1) (take (maxIdentLen - n) base)) \<le> length (take (maxIdentLen - n) base)"
    by (metis le_add1 length_append)
  also have "\<dots> \<le> maxIdentLen - n" by simp
  finally show ?thesis by (simp add: trunc_base_def Let_def)
qed

lemma trunc_base_valid: "ValidString base \<Longrightarrow> ValidString (trunc_base base n)"
  by (simp add: trunc_base_def Let_def strip_invalid_valid del: strip_invalid.simps)

lemma Itoa_length: "10 ^ k \<le> n \<Longrightarrow> n < 10 ^ (k + 1) \<Longrightarrow> length (Itoa n) = k + 1"
proof (induction k arbitrary: n)
  case 0
  then show ?case by (subst Itoa.simps) simp
next
  case (Suc k)
  have "10 ^ k \<le> n div 10" using Suc.prems(1) by (simp add: less_eq_div_iff_mult_less_eq mult.commute)
  moreover have "n div 10 < 10 ^ (k + 1)" using Suc.prems(2) by (simp add: div_less_iff_less_mult mult.commute)
  moreover have "\<not> n < 10" using Suc.prems(1) by (metis le_trans linorder_not_less one_le_numeral self_le_power zero_less_Suc)
  ultimately show ?case using Suc.IH [of "n div 10"] by (subst Itoa.simps) simp
qed

lemma index_name_inj:
  assumes "10 ^ k \<le> i" "i < 10 ^ (k + 1)" "10 ^ k \<le> j" "j < 10 ^ (k + 1)"
    and "index_name rel columns i = index_name rel columns j"
  shows "i = j"
proof -
  have pos: "0 < i" "0 < j" using assms(1,3) by (metis less_le_trans zero_less_numeral zero_less_power)+
  have "length (Itoa i) = length (Itoa j)" using Itoa_length assms(1-4) by metis
  then have "Itoa i = Itoa j" using assms(5) pos by (simp add: index_name_def truncIdent_base)
  then show ?thesis by (simp add: Itoa_inj)
qed

lemma enough_digits: "\<exists>k. n < 9 * 10 ^ k \<and> 10 ^ (k + 1) \<le> 12 * n + 10" for n :: nat
proof -
  have "(2 :: nat) ^ n \<le> 10 ^ n" by (rule power_mono) simp_all
  moreover have "n < 2 ^ n" by (rule less_exp)
  ultimately have "n < 9 * 10 ^ n" by linarith
  define k where "k = (LEAST k. n < 9 * 10 ^ k)"
  have k: "n < 9 * 10 ^ k" unfolding k_def by (rule LeastI) fact
  show ?thesis
  proof (cases k)
    case 0
    then show ?thesis using k by (intro exI [of _ 0]) simp
  next
    case (Suc j)
    then have "\<not> n < 9 * 10 ^ j" unfolding k_def using not_less_Least by (metis lessI)
    then have "10 ^ (k + 1) \<le> 12 * n + 10" using Suc by simp
    then show ?thesis using k by blast
  qed
qed

lemma free_index: "\<exists>i < 12 * length taken + 10. index_name rel columns i \<notin> set taken"
proof -
  obtain k where k: "length taken < 9 * 10 ^ k" "10 ^ (k + 1) \<le> 12 * length taken + 10" using enough_digits by blast
  let ?I = "{10 ^ k ..< 10 ^ (k + 1) :: nat}"
  have "inj_on (index_name rel columns) ?I"
    by (rule inj_onI) (metis atLeastLessThan_iff index_name_inj)
  then have "card (index_name rel columns ` ?I) = 9 * 10 ^ k" by (simp add: card_image)
  moreover have "card (set taken) < 9 * 10 ^ k" using k(1) card_length [of taken] by simp
  ultimately have "\<not> index_name rel columns ` ?I \<subseteq> set taken"
    by (metis card_mono finite_set linorder_not_less)
  then obtain i where "i \<in> ?I" "index_name rel columns i \<notin> set taken" by blast
  then show ?thesis using k(2) by (intro exI [of _ i]) auto
qed

lemma reserve_from_Some:
  assumes "\<exists>j. i \<le> j \<and> j < i + n \<and> index_name rel columns j \<notin> set (sc_taken s)"
  shows "\<exists>j. j < i + n \<and> reserve_from n i rel columns s = Some (index_name rel columns j, s\<lparr>sc_taken := index_name rel columns j # sc_taken s\<rparr>)
    \<and> index_name rel columns j \<notin> set (sc_taken s)"
  using assms
proof (induction n arbitrary: i)
  case (Suc n)
  show ?case
  proof (cases "index_name rel columns i \<in> set (sc_taken s)")
    case True
    then have "\<exists>j. Suc i \<le> j \<and> j < Suc i + n \<and> index_name rel columns j \<notin> set (sc_taken s)"
      using Suc.prems by (metis add_Suc_right add_Suc_shift le_antisym not_less_eq_eq)
    from Suc.IH [OF this] show ?thesis using True by (auto simp: Let_def)
  next
    case False
    then show ?thesis by (intro exI [of _ i]) (simp add: Let_def)
  qed
qed auto

lemma reserve_Some:
  obtains i where "i < 12 * length (sc_taken s) + 10" "index_name rel columns i \<notin> set (sc_taken s)"
    "reserve rel columns s = Some (index_name rel columns i, s\<lparr>sc_taken := index_name rel columns i # sc_taken s\<rparr>)"
  using free_index [of "sc_taken s" rel columns]
    reserve_from_Some [of 0 "12 * length (sc_taken s) + 10" rel columns s] that
  unfolding reserve_def by auto

lemma Itoa_length_le: "n < 10 ^ (k + 1) \<Longrightarrow> length (Itoa n) \<le> k + 1"
proof (induction k arbitrary: n)
  case 0
  then show ?case by (subst Itoa.simps) simp
next
  case (Suc k)
  have "n div 10 < 10 ^ (k + 1)" using Suc.prems by (simp add: div_less_iff_less_mult mult.commute)
  then show ?case using Suc.IH [of "n div 10"] by (subst Itoa.simps) simp
qed

lemma ValidString_ascii: "list_all (\<lambda>c. of_char c < (128 :: nat)) t \<Longrightarrow> ValidString t"
  by (induction t) auto

text \<open>
  The search for an index name ends. Whatever names the schema holds, fewer than twelve
  attempts per taken name plus ten find a free one; it is in the schema of its table, it is then
  marked as taken, so that no other candidate is handed it, and it fits PostgreSQL's limit of 63
  bytes, also with the number appended, so that the server does not cut it.
\<close>

theorem reserve_ends_with_a_free_name:
  assumes "length (sc_taken s) < 10 ^ 60"
  shows "\<exists>key. reserve rel columns s = Some (key, s\<lparr>sc_taken := key # sc_taken s\<rparr>)
    \<and> key \<notin> set (sc_taken s) \<and> fst key = fst rel \<and> length (snd key) \<le> 63"
proof -
  obtain i where i: "i < 12 * length (sc_taken s) + 10" "index_name rel columns i \<notin> set (sc_taken s)"
    "reserve rel columns s = Some (index_name rel columns i, s\<lparr>sc_taken := index_name rel columns i # sc_taken s\<rparr>)"
    by (rule reserve_Some)
  have "i < 10 ^ (61 + 1)" using i(1) assms by simp
  then have "length (if 0 < i then Itoa i else []) \<le> 63" using Itoa_length_le [of i 61] by simp
  then have "length (snd (index_name rel columns i)) \<le> 63"
    using trunc_base_length [of "index_base rel columns" "length (if 0 < i then Itoa i else [])"]
    by (simp add: index_name_def truncIdent_base maxIdentLen_def)
  then show ?thesis using i by (intro exI [of _ "index_name rel columns i"]) (simp add: index_name_def)
qed

section \<open>The descent ends\<close>

lemma sum_opt_Some: "(\<And>x. x \<in> set xs \<Longrightarrow> f x \<noteq> None) \<Longrightarrow> sum_opt f xs \<noteq> None"
  by (induction xs) (auto split: option.splits)

definition ranked :: "(RelKey \<Rightarrow> nat) \<Rightarrow> ddlScope \<Rightarrow> bool" where
  "ranked rank s \<longleftrightarrow> (\<forall>(p, ks)\<in>set (sc_children s). \<forall>k\<in>set ks. rank k < rank p)"

lemma ranked_child: "ranked rank s \<Longrightarrow> c \<in> set (list_at (sc_children s) node) \<Longrightarrow> rank c < rank node"
proof -
  assume r: "ranked rank s" and c: "c \<in> set (list_at (sc_children s) node)"
  then obtain ks where "map_of (sc_children s) node = Some ks" "c \<in> set ks"
    by (cases "map_of (sc_children s) node") (simp_all add: list_at_def)
  then show ?thesis using r map_of_SomeD unfolding ranked_def by fastforce
qed

lemma leaves_total: "ranked rank s \<Longrightarrow> rank node < n \<Longrightarrow> leaves n s node \<noteq> None"
proof (induction n arbitrary: node)
  case (Suc n)
  have "leaves n s c \<noteq> None" if "c \<in> set (list_at (sc_children s) node)" for c
    using Suc.IH Suc.prems ranked_child [OF Suc.prems(1) that] by simp
  then have "sum_opt (leaves n s) (list_at (sc_children s) node) \<noteq> None" by (rule sum_opt_Some)
  then show ?case by simp
qed simp

section \<open>Scripts attach what they create\<close>

fun creates :: "ddl_line \<Rightarrow> (RelKey \<times> RelKey) list" where
  "creates (CreateOnly idx rel) = [(idx, rel)]"
| "creates (CreateConcurrently idx rel) = [(idx, rel)]"
| "creates _ = []"

definition created :: "ddl_line list \<Rightarrow> (RelKey \<times> RelKey) list" where
  "created ls = concat (map creates ls)"

lemma created_simps [simp]: "created [] = []" "created (a @ b) = created a @ created b" "created (l # ls) = creates l @ created ls"
  by (simp_all add: created_def)

definition attached :: "ddl_line list \<Rightarrow> RelKey list" where
  "attached ls = concat (map (\<lambda>l. case l of Attach p c \<Rightarrow> [c] | _ \<Rightarrow> []) ls)"

definition builds :: "ddl_line list \<Rightarrow> nat" where
  "builds ls = length (filter (\<lambda>l. case l of CreateConcurrently idx rel \<Rightarrow> True | _ \<Rightarrow> False) ls)"

definition unlisted :: "ddl_line list \<Rightarrow> nat" where
  "unlisted ls = sum_list (map (\<lambda>l. case l of NotListed n idx \<Rightarrow> n | _ \<Rightarrow> 0) ls)"

lemma attached_simps [simp]:
  "attached [] = []" "attached (a @ b) = attached a @ attached b"
  "attached (l # ls) = (case l of Attach p c \<Rightarrow> [c] | _ \<Rightarrow> []) @ attached ls"
  by (simp_all add: attached_def)

lemma builds_simps [simp]:
  "builds [] = 0" "builds (a @ b) = builds a + builds b"
  "builds (l # ls) = (case l of CreateConcurrently idx rel \<Rightarrow> 1 | _ \<Rightarrow> 0) + builds ls"
  by (simp_all add: builds_def split: ddl_line.split)

lemma unlisted_simps [simp]:
  "unlisted [] = 0" "unlisted (a @ b) = unlisted a + unlisted b"
  "unlisted (l # ls) = (case l of NotListed n idx \<Rightarrow> n | _ \<Rightarrow> 0) + unlisted ls"
  by (simp_all add: unlisted_def)

text \<open>
  A line is sound behind the lines \<open>ls\<close> when the indexes it attaches were created there,
  the table of the lower one is a direct partition of the table of the upper one, and neither has
  been attached yet: the lower one is attached once, and the upper one still waits for its own
  ATTACH, so that a level is complete before it is attached to the one above.
\<close>

fun line_ok :: "ddlScope \<Rightarrow> ddl_line list \<Rightarrow> ddl_line \<Rightarrow> bool" where
  "line_ok s ls (Attach parentIdx idx) =
     (list_ex (\<lambda>(p, prel). p = parentIdx \<and> list_ex (\<lambda>(c, crel). c = idx \<and> crel \<in> set (list_at (sc_children s) prel)) (created ls))
        (created ls)
      \<and> idx \<notin> set (attached ls) \<and> parentIdx \<notin> set (attached ls))"
| "line_ok s ls _ = True"

fun lines_ok :: "ddlScope \<Rightarrow> ddl_line list \<Rightarrow> ddl_line list \<Rightarrow> bool" where
  "lines_ok s ls [] = True"
| "lines_ok s ls (l # rest) = (line_ok s ls l \<and> lines_ok s (ls @ [l]) rest)"

lemma lines_ok_append: "lines_ok s ls (a @ b) = (lines_ok s ls a \<and> lines_ok s (ls @ a) b)"
  by (induction a arbitrary: ls) auto

definition script_inv :: "ddlScope \<Rightarrow> ddlWriter \<Rightarrow> bool" where
  "script_inv s w \<longleftrightarrow>
     sc_children (dw_scope w) = sc_children s \<and> sc_kinds (dw_scope w) = sc_kinds s \<and> sc_fuel (dw_scope w) = sc_fuel s
     \<and> lines_ok s [] (dw_lines w)
     \<and> distinct (map fst (created (dw_lines w)))
     \<and> set (attached (dw_lines w)) \<subseteq> fst ` set (created (dw_lines w))
     \<and> unlisted (dw_lines w) = 0 \<and> (0 < dw_skipped w \<longrightarrow> dw_budget w = 0)
     \<and> set (sc_taken (dw_scope w)) = set (sc_taken s) \<union> fst ` set (created (dw_lines w))
     \<and> set (sc_taken s) \<inter> fst ` set (created (dw_lines w)) = {}"

text \<open>
  What a stretch of the walk adds to a script: every index it creates it also attaches, it spends
  the budget on them (\<open>b\<close> is what the caller has already paid) and it accounts for
  \<open>k\<close> partitions that hold data, built or skipped.
\<close>

definition grows :: "nat \<Rightarrow> nat \<Rightarrow> ddlWriter \<Rightarrow> ddlWriter \<Rightarrow> bool" where
  "grows b k w w' \<longleftrightarrow>
     (\<exists>more. dw_lines w' = dw_lines w @ more \<and> mset (attached more) = mset (map fst (created more))
        \<and> length (created more) + dw_budget w' = dw_budget w + b
        \<and> builds more + dw_skipped w' = dw_skipped w + k)"

lemma grows_refl [simp]: "grows 0 0 w w"
  by (simp add: grows_def)

lemma grows_trans: "grows b k u v \<Longrightarrow> grows c l v w \<Longrightarrow> grows (b + c) (k + l) u w"
proof -
  assume "grows b k u v" "grows c l v w"
  then obtain xs ys where
    "dw_lines v = dw_lines u @ xs" "mset (attached xs) = mset (map fst (created xs))"
    "length (created xs) + dw_budget v = dw_budget u + b" "builds xs + dw_skipped v = dw_skipped u + k"
    "dw_lines w = dw_lines v @ ys" "mset (attached ys) = mset (map fst (created ys))"
    "length (created ys) + dw_budget w = dw_budget v + c" "builds ys + dw_skipped w = dw_skipped v + l"
    unfolding grows_def by blast
  then show ?thesis unfolding grows_def by (intro exI [of _ "xs @ ys"]) simp
qed

lemma grows_created: "grows b k w w' \<Longrightarrow> x \<in> set (created (dw_lines w)) \<Longrightarrow> x \<in> set (created (dw_lines w'))"
  by (auto simp: grows_def)

text \<open>An index open before such a stretch is open after it: only the new ones are attached.\<close>

definition open_index :: "RelKey \<Rightarrow> RelKey \<Rightarrow> ddlWriter \<Rightarrow> bool" where
  "open_index p prel w \<longleftrightarrow> (p, prel) \<in> set (created (dw_lines w)) \<and> p \<notin> set (attached (dw_lines w))"

lemma grows_open:
  assumes "grows b k w w'" and "script_inv s w'" and "open_index p prel w"
  shows "open_index p prel w'"
proof -
  obtain more where m: "dw_lines w' = dw_lines w @ more" "mset (attached more) = mset (map fst (created more))"
    using assms(1) unfolding grows_def by blast
  from mset_eq_setD [OF m(2)] have "set (attached more) = fst ` set (created more)" by simp
  moreover have "p \<notin> fst ` set (created more)"
  proof -
    have "distinct (map fst (created (dw_lines w)) @ map fst (created more))" using assms(2) m(1) by (simp add: script_inv_def)
    moreover have "p \<in> set (map fst (created (dw_lines w)))" using assms(3) unfolding open_index_def by force
    ultimately show ?thesis unfolding distinct_append set_map by blast
  qed
  ultimately show ?thesis using assms(3) m(1) by (auto simp: open_index_def)
qed

lemma script_inv_create:
  assumes "script_inv s w" and "reserve rel columns (dw_scope w) = Some (idx, sc)"
    and "l = CreateOnly idx rel \<or> l = CreateConcurrently idx rel"
  shows "script_inv s (put l (w\<lparr>dw_scope := sc\<rparr>))" and "open_index idx rel (put l (w\<lparr>dw_scope := sc\<rparr>))"
    and "open_index p prel w \<Longrightarrow> open_index p prel (put l (w\<lparr>dw_scope := sc\<rparr>))"
    and "sc_children sc = sc_children s" and "sc_kinds sc = sc_kinds s" and "sc_fuel sc = sc_fuel s"
proof -
  obtain i where i: "index_name rel columns i \<notin> set (sc_taken (dw_scope w))"
    "reserve rel columns (dw_scope w) = Some (index_name rel columns i, (dw_scope w)\<lparr>sc_taken := index_name rel columns i # sc_taken (dw_scope w)\<rparr>)"
    by (rule reserve_Some)
  then have idx: "idx \<notin> set (sc_taken (dw_scope w))" and sc: "sc = (dw_scope w)\<lparr>sc_taken := idx # sc_taken (dw_scope w)\<rparr>"
    using assms(2) by auto
  have l: "line_ok s ls l" "creates l = [(idx, rel)]" "attached [l] = []" "unlisted [l] = 0" for ls using assms(3) by auto
  show "script_inv s (put l (w\<lparr>dw_scope := sc\<rparr>))"
    using assms(1) idx l unfolding script_inv_def put_def sc by (auto simp: lines_ok_append)
  show "open_index idx rel (put l (w\<lparr>dw_scope := sc\<rparr>))"
    using assms(1) idx l unfolding script_inv_def open_index_def put_def by auto
  show "open_index p prel (put l (w\<lparr>dw_scope := sc\<rparr>))" if "open_index p prel w"
    using that l unfolding open_index_def put_def by simp
  show "sc_children sc = sc_children s" "sc_kinds sc = sc_kinds s" "sc_fuel sc = sc_fuel s"
    using assms(1) by (simp_all add: script_inv_def sc)
qed

lemma script_inv_attach:
  assumes "script_inv s w" and "open_index p prel w" and "open_index c crel w"
    and "crel \<in> set (list_at (sc_children s) prel)"
  shows "script_inv s (put (Attach p c) w)"
proof -
  have "line_ok s (dw_lines w) (Attach p c)"
    using assms(2-4) unfolding line_ok.simps list_ex_iff open_index_def by blast
  moreover have "c \<in> fst ` set (created (dw_lines w))" using assms(3) by (force simp: open_index_def)
  ultimately show ?thesis using assms(1) by (simp add: script_inv_def put_def lines_ok_append)
qed

lemma leaves_scope: "script_inv s w \<Longrightarrow> leaves n (dw_scope w) k = leaves n s k"
proof (induction n arbitrary: k)
  case (Suc n)
  have "sc_children (dw_scope w) = sc_children s" "sc_kinds (dw_scope w) = sc_kinds s"
    using Suc.prems by (simp_all add: script_inv_def)
  moreover have "sum_opt (leaves n (dw_scope w)) ks = sum_opt (leaves n s) ks" for ks
    by (simp add: ext [OF Suc.IH [OF Suc.prems]])
  ultimately show ?case by (simp add: kind_at_def)
qed simp

lemma each_child_ok:
  assumes "\<And>c k w. c \<in> set cs \<Longrightarrow> leaves n s c = Some k \<Longrightarrow> script_inv s w \<Longrightarrow> dw_skipped w = 0 \<Longrightarrow> open_index p prel w \<Longrightarrow>
      \<exists>w'. sub c w = Some w' \<and> script_inv s w' \<and> grows 1 k w w'"
    and "sum_opt (leaves n s) cs = Some tot"
    and "script_inv s w" and "open_index p prel w"
  shows "\<exists>w'. each_child sub n cs w = Some w' \<and> script_inv s w' \<and> grows 0 tot w w'"
  using assms
proof (induction cs arbitrary: w tot)
  case (Cons c cs)
  from Cons.prems(2) obtain k rest where k: "leaves n s c = Some k" "sum_opt (leaves n s) cs = Some rest" "tot = k + rest"
    by (auto split: option.splits)
  show ?case
  proof (cases "dw_budget w = 0")
    case True
    let ?w = "w\<lparr>dw_skipped := dw_skipped w + k\<rparr>"
    have w: "script_inv s ?w" "open_index p prel ?w" "grows 0 k w ?w"
      using Cons.prems(3,4) True by (simp_all add: script_inv_def open_index_def grows_def)
    then have "\<exists>w'. each_child sub n cs ?w = Some w' \<and> script_inv s w' \<and> grows 0 rest ?w w'"
      using Cons.prems(1) k(2) by (intro Cons.IH) auto
    then show ?thesis
      using True k leaves_scope [OF Cons.prems(3), of n c] grows_trans [OF w(3)] by fastforce
  next
    case False
    let ?w = "put BlankLine (w\<lparr>dw_budget := dw_budget w - 1\<rparr>)"
    have w: "script_inv s ?w" "open_index p prel ?w" "dw_skipped ?w = 0"
      using Cons.prems(3,4) False by (auto simp: script_inv_def open_index_def put_def lines_ok_append)
    then obtain v where v: "sub c ?w = Some v" "script_inv s v" "grows 1 k ?w v"
      using Cons.prems(1) [of c k ?w] k(1) by auto
    have g: "grows 0 k w v"
    proof -
      from v(3) obtain more where "dw_lines v = dw_lines ?w @ more" "mset (attached more) = mset (map fst (created more))"
        "length (created more) + dw_budget v = dw_budget ?w + 1" "builds more + dw_skipped v = dw_skipped ?w + k"
        unfolding grows_def by blast
      then show ?thesis unfolding grows_def using False by (intro exI [of _ "BlankLine # more"]) (simp add: put_def)
    qed
    have "\<exists>w'. each_child sub n cs v = Some w' \<and> script_inv s w' \<and> grows 0 rest v w'"
      using Cons.prems(1) k(2) v(2) grows_open [OF g v(2) Cons.prems(4)] by (intro Cons.IH) auto
    then show ?thesis using False k v(1) grows_trans [OF g] by fastforce
  qed
qed auto

lemma subtree_ok:
  assumes "leaves n s node = Some k"
    and "script_inv s w" and "open_index p prel w" and "node \<in> set (list_at (sc_children s) prel)"
  shows "\<exists>w'. ddl_subtree n columns p node w = Some w' \<and> script_inv s w' \<and> grows 1 k w w'"
  using assms
proof (induction n arbitrary: p prel node k w)
  case (Suc n)
  obtain idx sc where r: "reserve node columns (dw_scope w) = Some (idx, sc)"
    using reserve_Some [of "dw_scope w" node columns] by metis
  define l where "l = (if kind_at sc node = partitionedKind then CreateOnly idx node else CreateConcurrently idx node)"
  define w1 where "w1 = put l (w\<lparr>dw_scope := sc\<rparr>)"
  have "l = CreateOnly idx node \<or> l = CreateConcurrently idx node" by (simp add: l_def)
  note c = script_inv_create [OF Suc.prems(2) r this, folded w1_def]
  have kind: "kind_at sc node = kind_at s node" using c(5) by (simp add: kind_at_def)
  have "\<exists>w2. (if kind_at sc node = partitionedKind
        then each_child (ddl_subtree n columns idx) n (list_at (sc_children s) node) w1 else Some w1) = Some w2
      \<and> script_inv s w2 \<and> grows 0 (if kind_at sc node = partitionedKind then k else 0) w1 w2"
  proof (cases "kind_at sc node = partitionedKind")
    case True
    have "\<exists>w'. each_child (ddl_subtree n columns idx) n (list_at (sc_children s) node) w1 = Some w'
        \<and> script_inv s w' \<and> grows 0 k w1 w'"
      using Suc.IH Suc.prems(1) True kind c(1,2) by (intro each_child_ok) auto
    then show ?thesis using True by simp
  qed (use c(1) in simp)
  then obtain w2 where w2: "(if kind_at sc node = partitionedKind
        then each_child (ddl_subtree n columns idx) n (list_at (sc_children s) node) w1 else Some w1) = Some w2"
      "script_inv s w2" "grows 0 (if kind_at sc node = partitionedKind then k else 0) w1 w2" by blast
  note o = grows_open [OF w2(3,2) c(3) [OF Suc.prems(3)]] grows_open [OF w2(3,2) c(2)]
  have eq: "ddl_subtree (Suc n) columns p node w = Some (put (Attach p idx) w2)"
    using w2(1) c(4) by (auto simp: r Let_def w1_def l_def split: if_splits)
  obtain more where m: "dw_lines w2 = dw_lines w1 @ more" "mset (attached more) = mset (map fst (created more))"
    "length (created more) + dw_budget w2 = dw_budget w1" "builds more + dw_skipped w2 = dw_skipped w1 + (if kind_at sc node = partitionedKind then k else 0)"
    using w2(3) by (auto simp: grows_def)
  have "grows 1 k w (put (Attach p idx) w2)"
    unfolding grows_def using m kind Suc.prems(1)
    by (intro exI [of _ "l # more @ [Attach p idx]"]) (auto simp: put_def w1_def l_def)
  then show ?case using eq script_inv_attach [OF w2(2) o Suc.prems(4)] by blast
qed simp

lemma partition_lines_total:
  assumes "ranked rank s" and "\<And>k. rank k < sc_fuel s"
  shows "\<exists>ls s' idx. partition_lines top_rel columns s = Some (ls, s') \<and> ls \<noteq> [] \<and> hd ls = CreateOnly idx top_rel
    \<and> lines_ok s [] ls \<and> distinct (map fst (created ls)) \<and> set (sc_taken s) \<inter> fst ` set (created ls) = {}
    \<and> mset (attached ls) = mset (map fst (tl (created ls)))
    \<and> sum_opt (leaves (sc_fuel s) s) (list_at (sc_children s) top_rel) = Some (builds ls + unlisted ls)
    \<and> length (created ls) \<le> 1 + ddlMaxPartitions \<and> (0 < unlisted ls \<longrightarrow> length (created ls) = 1 + ddlMaxPartitions)
    \<and> sc_children s' = sc_children s \<and> sc_kinds s' = sc_kinds s \<and> sc_fuel s' = sc_fuel s"
proof -
  obtain idx sc where r: "reserve top_rel columns s = Some (idx, sc)" using reserve_Some [of s top_rel columns] by metis
  define w0 where "w0 = \<lparr>dw_scope = s, dw_lines = [], dw_budget = ddlMaxPartitions, dw_skipped = 0\<rparr>"
  define w where "w = \<lparr>dw_scope = sc, dw_lines = [CreateOnly idx top_rel], dw_budget = ddlMaxPartitions, dw_skipped = 0\<rparr>"
  have w: "put (CreateOnly idx top_rel) (w0\<lparr>dw_scope := sc\<rparr>) = w" by (simp add: put_def w0_def w_def)
  have "script_inv s w0" by (simp add: script_inv_def w0_def)
  note c = script_inv_create [OF this, of top_rel columns idx sc "CreateOnly idx top_rel", unfolded w]
  have c': "script_inv s w" "open_index idx top_rel w" "sc_children sc = sc_children s" "sc_fuel sc = sc_fuel s"
    using c r by (simp_all add: w0_def)
  have "sum_opt (leaves (sc_fuel s) s) (list_at (sc_children s) top_rel) \<noteq> None"
    by (rule sum_opt_Some) (rule leaves_total [OF assms])
  then obtain tot where tot: "sum_opt (leaves (sc_fuel s) s) (list_at (sc_children s) top_rel) = Some tot" by blast
  have "\<exists>w'. each_child (ddl_subtree (sc_fuel s) columns idx) (sc_fuel s) (list_at (sc_children s) top_rel) w = Some w'
      \<and> script_inv s w' \<and> grows 0 tot w w'"
    using subtree_ok tot c'(1,2) by (intro each_child_ok) blast+
  then obtain v where v: "each_child (ddl_subtree (sc_fuel s) columns idx) (sc_fuel s) (list_at (sc_children s) top_rel) w = Some v"
    "script_inv s v" "grows 0 tot w v" by blast
  from v(3) obtain more where m: "dw_lines v = CreateOnly idx top_rel # more" "mset (attached more) = mset (map fst (created more))"
    "length (created more) + dw_budget v = ddlMaxPartitions" "builds more + dw_skipped v = tot"
    unfolding grows_def w_def by auto
  have p: "partition_lines top_rel columns s =
      Some (if 0 < dw_skipped v then dw_lines v @ [BlankLine, NotListed (dw_skipped v) idx] else dw_lines v, dw_scope v)"
    using v(1) by (simp add: partition_lines_def r Let_def c'(3,4) w_def)
  have "unlisted more = 0" using v(2) m(1) by (simp add: script_inv_def)
  then show ?thesis
    unfolding p tot using v(2) m by (auto simp: script_inv_def lines_ok_append)
qed

text \<open>
  C26: the script for a partitioned table is complete and in order. For a catalogue whose partitions
  form a tree the script is always produced. It starts with the index on the root; every index it
  creates has a name of its own that no relation or index has. Every index it creates, except the
  root's, is attached exactly once, to the index of the table that its own table is a direct partition
  of; both were created by earlier lines, and the upper one has not been attached itself yet, so a
  nested level is complete before it is attached to the one above. The partitions that hold data are
  all accounted for: those built by a line of the script and those counted by the closing remark add
  up to the leaves of the tree, and partitions are left to the remark only when the script has
  spelled out its full number of twenty.
\<close>

theorem script_attaches_what_it_creates:
  assumes "ranked rank s" and "\<And>k. rank k < sc_fuel s"
  shows "\<exists>ls s' idx. partition_lines top_rel columns s = Some (ls, s') \<and> hd ls = CreateOnly idx top_rel
    \<and> lines_ok s [] ls \<and> distinct (map fst (created ls)) \<and> set (sc_taken s) \<inter> fst ` set (created ls) = {}
    \<and> mset (attached ls) = mset (map fst (tl (created ls)))
    \<and> sum_opt (leaves (sc_fuel s) s) (list_at (sc_children s) top_rel) = Some (builds ls + unlisted ls)
    \<and> length (created ls) \<le> 1 + ddlMaxPartitions \<and> (0 < unlisted ls \<longrightarrow> length (created ls) = 1 + ddlMaxPartitions)"
  using partition_lines_total [OF assms, of top_rel columns]
  by (elim exE conjE) (intro exI conjI; assumption)

lemma ddlFor_total:
  assumes "ranked rank s" and "\<And>k. rank k < sc_fuel s"
  shows "\<exists>ddl s'. ddlFor key columns predicate s = Some (ddl, s')
    \<and> sc_children s' = sc_children s \<and> sc_kinds s' = sc_kinds s \<and> sc_fuel s' = sc_fuel s"
  using partition_lines_total [OF assms, of key columns] by (auto simp: ddlFor_def partitionDDL_def Let_def)

section \<open>An example\<close>

text \<open>A table partitioned by year, one year partitioned again.\<close>

definition demo_rel :: "string \<Rightarrow> string \<Rightarrow> string \<Rightarrow> RelKey \<times> Relation" where
  "demo_rel name kind parent =
     ((''s'', name), \<lparr>rel_Key = (''s'', name), rel_Kind = kind, rel_Rows = 100000, rel_Pages = 0,
        rel_Root = (if parent = [] then ([], []) else (''s'', ''t'')), rel_Parent = (''s'', parent)\<rparr>)"

definition demo_catalog :: Catalog where
  "demo_catalog = NewCatalog\<lparr>cat_Relations := [demo_rel ''t'' ''p'' [], demo_rel ''t1'' ''r'' ''t'', demo_rel ''t2'' ''p'' ''t'',
      demo_rel ''t2a'' ''r'' ''t2'', demo_rel ''t_a_idx'' ''r'' []]\<rparr>"

definition demo_rank :: "RelKey \<Rightarrow> nat" where
  "demo_rank k = (if k = (''s'', ''t'') then 2 else if k = (''s'', ''t2'') then 1 else 0)"

lemma demo_ranked: "ranked demo_rank (newDDLScope demo_catalog)" "demo_rank k < sc_fuel (newDDLScope demo_catalog)"
proof -
  have "list_all (\<lambda>(p, ks). list_all (\<lambda>k. demo_rank k < demo_rank p) ks) (sc_children (newDDLScope demo_catalog))" by code_simp
  then show "ranked demo_rank (newDDLScope demo_catalog)" by (auto simp: ranked_def list_all_iff)
  have "sc_fuel (newDDLScope demo_catalog) = 6" by code_simp
  then show "demo_rank k < sc_fuel (newDDLScope demo_catalog)" by (simp add: demo_rank_def)
qed

theorem reserve_witness:
  "\<exists>key. reserve (''s'', ''t'') [''a''] (newDDLScope demo_catalog) =
       Some (key, (newDDLScope demo_catalog)\<lparr>sc_taken := key # sc_taken (newDDLScope demo_catalog)\<rparr>)
     \<and> key \<notin> set (sc_taken (newDDLScope demo_catalog)) \<and> fst key = ''s'' \<and> length (snd key) \<le> 63"
proof -
  have "length (sc_taken (newDDLScope demo_catalog)) = 5" by code_simp
  then have "length (sc_taken (newDDLScope demo_catalog)) < 10 ^ 60" by simp
  from reserve_ends_with_a_free_name [OF this, of "(''s'', ''t'')" "[''a'']"] show ?thesis by simp
qed

lemma demo_script:
  "map_option fst (partition_lines (''s'', ''t'') [''a''] (newDDLScope demo_catalog)) =
     Some [CreateOnly (''s'', ''t_a_idx1'') (''s'', ''t''), BlankLine,
       CreateConcurrently (''s'', ''t1_a_idx'') (''s'', ''t1''), Attach (''s'', ''t_a_idx1'') (''s'', ''t1_a_idx''), BlankLine,
       CreateOnly (''s'', ''t2_a_idx'') (''s'', ''t2''), BlankLine,
       CreateConcurrently (''s'', ''t2a_a_idx'') (''s'', ''t2a''), Attach (''s'', ''t2_a_idx'') (''s'', ''t2a_a_idx''),
       Attach (''s'', ''t_a_idx1'') (''s'', ''t2_a_idx'')]"
  by code_simp

theorem script_witness:
  "\<exists>ls s' idx. partition_lines (''s'', ''t'') [''a''] (newDDLScope demo_catalog) = Some (ls, s')
     \<and> hd ls = CreateOnly idx (''s'', ''t'') \<and> length ls = 10 \<and> lines_ok (newDDLScope demo_catalog) [] ls
     \<and> mset (attached ls) = mset (map fst (tl (created ls)))"
  using script_attaches_what_it_creates [OF demo_ranked, of "(''s'', ''t'')" "[''a'']"] demo_script by auto

end
