(* ===== verification/Advisor_Build.thy ===== *)
theory Advisor_Build
  imports Advisor_DDL
begin

text \<open>
  The index advisor (\<^verbatim>\<open>backend/internal/indexadvisor/build.go\<close>, with the types of
  \<^verbatim>\<open>report.go\<close>): statements of one fingerprint are folded, their names are resolved
  against the catalogue, every table a statement filters gives at most one draft of an index, equal
  drafts are merged, drafts that are a prefix of a longer one are folded into it, and what is left
  is ranked by the share of the execution time it touches.

  The builder's maps are association lists; its cache of columns is left out, being the value of a
  function of the catalogue. The scope that hands out index names is threaded through the
  candidates in their order. Times are float64 without NaN, as PostgreSQL reports them. The sort
  keys of candidates are total up to equal candidates.
\<close>

section \<open>Report types\<close>

record CoveredQuery =
  cq_QueryIDs :: "i64 list"
  cq_QueryIDByHost :: "(string \<times> i64) list"
  cq_Fingerprint :: string
  cq_Query :: string
  cq_WeightPct :: f64
  cq_Calls :: i64
  cq_Hosts :: "string list"

record AdvWarning =
  wn_Code :: string
  wn_Params :: "(string \<times> f64) list"
  wn_Names :: "string list"

datatype EvidenceState = EvidenceNotSearched | EvidenceNotFound | EvidenceFound

record Evidence =
  ev_State :: EvidenceState
  ev_Plans :: i64
  ev_SeqScanNodes :: nat
  ev_ActualTimeMs :: f64
  ev_RowsRemoved :: f64
  ev_From :: time
  ev_To :: time
  ev_Partial :: bool

record Candidate =
  cand_Schema :: string
  cand_Table :: string
  cand_Columns :: "string list"
  cand_Predicate :: string
  cand_DDL :: string
  cand_WeightPct :: f64
  cand_Covered :: "CoveredQuery list"
  cand_TableRows :: i64
  cand_Writes :: AdvWrites
  cand_Warnings :: "AdvWarning list"
  cand_Evidence :: Evidence
  PlannerChecked :: bool

record AdvSummary =
  PgssAvailable :: bool
  AnalyzedQueries :: nat
  CollapsedGroups :: nat
  NotParsedCount :: i64
  CoveredTimePct :: f64
  CatalogTruncated :: bool
  sum_Hosts :: "string list"
  HostsWithoutStats :: "string list"

record AdvReport =
  ar_Candidates :: "Candidate list"
  ar_NotParsed :: "(string \<times> i64) list"
  ar_Summary :: AdvSummary
  UnreachableHosts :: "string list"
  ar_DurationMs :: i64

text \<open>\<^verbatim>\<open>notParsedList\<close>: most frequent first, then by code.\<close>

definition notParsedList :: "(string \<times> i64) list \<Rightarrow> (string \<times> i64) list" where
  "notParsedList counts = sort_key (\<lambda>(code, n). (- n, code)) counts"

section \<open>Small helpers\<close>

definition appendUnique :: "string list \<Rightarrow> string \<Rightarrow> string list" where
  "appendUnique names name = (if name \<in> set names then names else names @ [name])"

definition isPrefix :: "string list \<Rightarrow> string list \<Rightarrow> bool" where
  "isPrefix short long = (if length long < length short then False else take (length short) long = short)"

fun ia_firstNonEmpty :: "string list \<Rightarrow> string" where
  "ia_firstNonEmpty [] = []"
| "ia_firstNonEmpty (v # vs) = (if v \<noteq> [] then v else ia_firstNonEmpty vs)"

definition sortedHosts :: "string list \<Rightarrow> string list" where
  "sortedHosts hs = sort (fold (\<lambda>h out. appendUnique out h) hs [])"

definition sortedKeys :: "(RelKey \<times> 'v) list \<Rightarrow> RelKey list" where
  "sortedKeys m = sort (map fst m)"

definition containsAll :: "string list \<Rightarrow> string list \<Rightarrow> bool" where
  "containsAll haystack names = list_all (\<lambda>name. name \<in> set haystack) names"

definition sumCounts :: "(string \<times> i64) list \<Rightarrow> i64" where
  "sumCounts counts = fold (\<lambda>(_, n) tot. wrap64 (tot + n)) counts 0"

section \<open>Folding the workload\<close>

definition fold_entry :: "WorkloadEntry \<Rightarrow> WorkloadEntry \<Rightarrow> WorkloadEntry" where
  "fold_entry g e =
     g\<lparr>we_QueryIDs := fold (\<lambda>id ids. if id \<in> set ids then ids else ids @ [id]) (we_QueryIDs e) (we_QueryIDs g),
       we_Hosts := fold (\<lambda>h hs. appendUnique hs h) (we_Hosts e) (we_Hosts g),
       we_QueryIDByHost :=
         fold (\<lambda>(h, id) m. if map_of m h = None then AList.update h id m else m) (we_QueryIDByHost e) (we_QueryIDByHost g),
       we_Query := (if length (we_Query g) < length (we_Query e) then we_Query e else we_Query g),
       we_Calls := wrap64 (we_Calls g + we_Calls e),
       we_TotalTimeMs := we_TotalTimeMs g + we_TotalTimeMs e,
       we_Rows := wrap64 (we_Rows g + we_Rows e)\<rparr>"

definition collapse_entry :: "WorkloadEntry \<Rightarrow> WorkloadEntry list \<times> (string \<times> nat) list \<Rightarrow> WorkloadEntry list \<times> (string \<times> nat) list" where
  "collapse_entry e = (\<lambda>(out, index).
     case map_of index (we_Fingerprint e) of
       Some i \<Rightarrow>
         if we_Fingerprint e = [] then (out @ [e], AList.update (we_Fingerprint e) (length out) index)
         else (out[i := fold_entry (out ! i) e], index)
     | None \<Rightarrow> (out @ [e], AList.update (we_Fingerprint e) (length out) index))"

definition collapse_workload :: "WorkloadEntry list \<Rightarrow> WorkloadEntry list" where
  "collapse_workload entries = fst (fold collapse_entry entries ([], []))"

section \<open>Resolving names\<close>

definition isSystemRef :: "Ref \<Rightarrow> bool" where
  "isSystemRef r =
     (if ref_Schema r = ''information_schema'' \<or> HasPrefix (ref_Schema r) ''pg_'' then True
      else HasPrefix (ref_Name r) ''pg_'')"

definition unknownReason :: "Ref \<Rightarrow> string" where
  "unknownReason r = (if isSystemRef r then ''system_relation'' else ''unknown_relation'')"

definition resolve_key :: "Catalog \<Rightarrow> Ref \<Rightarrow> RelKey \<Rightarrow> string + RelKey" where
  "resolve_key cat r key =
     (case map_of (cat_Relations cat) key of
        None \<Rightarrow> Inl (unknownReason r)
      | Some rel \<Rightarrow>
          if IsPartition rel \<and> map_of (cat_Relations cat) (rel_Root rel) \<noteq> None then Inr (rel_Root rel) else Inr key)"

definition resolveRef :: "Catalog \<Rightarrow> Ref \<Rightarrow> string + RelKey" where
  "resolveRef cat r =
     (if ref_Schema r = []
      then (case list_at (cat_ByName cat) (ref_Name r) of
              [] \<Rightarrow> Inl (unknownReason r)
            | [key] \<Rightarrow> resolve_key cat r key
            | _ \<Rightarrow> Inl ''ambiguous_name'')
      else resolve_key cat r (ref_Schema r, ref_Name r))"

definition systemOnly :: "Catalog \<Rightarrow> Statement \<Rightarrow> bool" where
  "systemOnly cat stmt \<longleftrightarrow>
     st_Tables stmt \<noteq> [] \<and> list_all (\<lambda>r. resolveRef cat r = Inl ''system_relation'') (st_Tables stmt)"

definition workloadTime :: "Catalog \<Rightarrow> WorkloadEntry list \<Rightarrow> f64" where
  "workloadTime cat entries =
     fold (\<lambda>e sum. if systemOnly cat (we_Stmt e) then sum else sum + we_TotalTimeMs e) entries (Fin 0)"

definition add_calls :: "Catalog \<Rightarrow> i64 \<Rightarrow> Ref \<Rightarrow> (RelKey \<times> i64) list \<Rightarrow> (RelKey \<times> i64) list" where
  "add_calls cat calls r m =
     (case resolveRef cat r of
        Inl _ \<Rightarrow> m
      | Inr key \<Rightarrow> AList.update key (wrap64 ((case map_of m key of None \<Rightarrow> 0 | Some n \<Rightarrow> n) + calls)) m)"

definition collectWrites :: "Catalog \<Rightarrow> WorkloadEntry list \<Rightarrow> (RelKey \<times> i64) list" where
  "collectWrites cat entries = fold (\<lambda>e. fold (add_calls cat (we_Calls e)) (st_Written (we_Stmt e))) entries []"

definition yieldsCandidates :: "stmt_kind \<Rightarrow> bool" where
  "yieldsCandidates k = (case k of KindSelect \<Rightarrow> True | KindUpdate \<Rightarrow> True | KindDelete \<Rightarrow> True | KindMerge \<Rightarrow> True | _ \<Rightarrow> False)"

definition statementReason :: "Statement \<Rightarrow> string" where
  "statementReason stmt = (case st_Unsupported stmt of c # _ \<Rightarrow> c | [] \<Rightarrow> ''no_indexable_predicate'')"

definition resolve_table :: "Catalog \<Rightarrow> Ref \<Rightarrow> RelKey list \<times> string \<Rightarrow> RelKey list \<times> string" where
  "resolve_table cat r = (\<lambda>(out, reason).
     case resolveRef cat r of
       Inl why \<Rightarrow> (out, ia_firstNonEmpty [reason, why])
     | Inr key \<Rightarrow> (if key \<in> set out then out else out @ [key], reason))"

definition resolveTables :: "Catalog \<Rightarrow> Ref list \<Rightarrow> RelKey list \<times> string" where
  "resolveTables cat refs = fold (resolve_table cat) refs ([], [])"

definition columns_of :: "Catalog \<Rightarrow> RelKey \<Rightarrow> string \<rightharpoonup> AdvColumn" where
  "columns_of cat key = map_of (rev (map (\<lambda>c. (col_Name c, c)) (list_at (cat_Columns cat) key)))"

definition bindUsage :: "Catalog \<Rightarrow> RelKey list \<Rightarrow> Usage \<Rightarrow> string + RelKey" where
  "bindUsage cat tables u =
     (if ref_Name (us_Ref u) \<noteq> [] then resolveRef cat (us_Ref u)
      else (case filter (\<lambda>key. columns_of cat key (us_Column u) \<noteq> None) tables of
              [] \<Rightarrow> Inl ''unknown_column''
            | [key] \<Rightarrow> Inr key
            | _ \<Rightarrow> Inl ''ambiguous_column''))"

definition bind_step :: "Catalog \<Rightarrow> RelKey list \<Rightarrow> Usage \<Rightarrow> (RelKey \<times> Usage list) list \<times> string \<Rightarrow> (RelKey \<times> Usage list) list \<times> string" where
  "bind_step cat tables u = (\<lambda>(out, reason).
     case bindUsage cat tables u of
       Inl why \<Rightarrow> (out, ia_firstNonEmpty [reason, why])
     | Inr key \<Rightarrow> (list_add key u out, reason))"

definition bindUsages :: "Catalog \<Rightarrow> Usage list \<Rightarrow> RelKey list \<Rightarrow> (RelKey \<times> Usage list) list \<times> string" where
  "bindUsages cat usages tables = fold (bind_step cat tables) usages ([], [])"

section \<open>One draft\<close>

record draft =
  dr_key :: RelKey
  dr_columns :: "string list"
  dr_predicate :: "string list"
  dr_covered :: "(string \<times> CoveredQuery) list"
  dr_order :: "string list"
  dr_statsMissing :: bool
  dr_wideIndex :: bool
  dr_requested :: nat

record roles =
  ro_equality :: "string list"
  ro_ranges :: "string list"
  ro_ordering :: "string list"
  ro_nulls :: "string list"

definition columns_with :: "(col_role \<Rightarrow> bool) \<Rightarrow> Usage list \<Rightarrow> string list" where
  "columns_with p usages = fold (\<lambda>u names. if p (us_Role u) then appendUnique names (us_Column u) else names) usages []"

definition splitRoles :: "Usage list \<Rightarrow> roles" where
  "splitRoles usages =
     (let orderBy = filter (\<lambda>u. us_Role u = RoleOrder) usages;
          groupBy = filter (\<lambda>u. us_Role u = RoleGroup) usages;
          sortSpec = sort_key us_Seq (if orderBy = [] then groupBy else orderBy);
          mixedDir = (case sortSpec of [] \<Rightarrow> False | u # us \<Rightarrow> list_ex (\<lambda>v. us_Desc v \<noteq> us_Desc u) us)
      in \<lparr>ro_equality = columns_with (\<lambda>r. r = RoleEquality \<or> r = RoleJoin) usages,
          ro_ranges = columns_with (\<lambda>r. r = RoleRange) usages,
          ro_ordering = (if mixedDir then [] else fold (\<lambda>u names. appendUnique names (us_Column u)) sortSpec []),
          ro_nulls = columns_with (\<lambda>r. r = RoleIsNull) usages\<rparr>)"

definition nullPredicateMaxFrac :: f64 where "nullPredicateMaxFrac = lit (1 / 2)"

definition null_test :: "(string \<rightharpoonup> AdvColumn) \<Rightarrow> string \<Rightarrow> string list \<times> bool \<Rightarrow> string list \<times> bool" where
  "null_test cols name = (\<lambda>(predicate, statsMissing).
     case cols name of
       None \<Rightarrow> (predicate, statsMissing)
     | Some c \<Rightarrow>
         if \<not> StatsKnown c then (predicate, True)
         else if Fin 0 < NullFrac c \<and> NullFrac c \<le> nullPredicateMaxFrac then (predicate @ [name], statsMissing)
         else (predicate, statsMissing))"

definition selectivePredicate :: "string list \<Rightarrow> (string \<rightharpoonup> AdvColumn) \<Rightarrow> string list \<times> bool" where
  "selectivePredicate nulls cols = (let (predicate, statsMissing) = fold (null_test cols) nulls ([], False) in (sort predicate, statsMissing))"

definition distinctCount :: "AdvColumn \<Rightarrow> i64 \<Rightarrow> f64" where
  "distinctCount c rows = (if NDistinct c < Fin 0 then (- NDistinct c) * of_i64 rows else NDistinct c)"

definition orderEquality :: "string list \<Rightarrow> (string \<rightharpoonup> AdvColumn) \<Rightarrow> i64 \<Rightarrow> string list \<times> bool" where
  "orderEquality names cols rows =
     (if list_ex (\<lambda>name. case cols name of None \<Rightarrow> True | Some c \<Rightarrow> \<not> StatsKnown c) names then (names, True)
      else (sort_key (\<lambda>name. case cols name of None \<Rightarrow> desc (Fin 0) | Some c \<Rightarrow> desc (distinctCount c rows)) names, False))"

definition filterIndexable :: "string list \<Rightarrow> (string \<rightharpoonup> AdvColumn) \<Rightarrow> string list \<times> bool \<times> bool" where
  "filterIndexable columns cols =
     (filter (\<lambda>name. case cols name of None \<Rightarrow> False | Some c \<Rightarrow> BtreeIndexable c) columns,
      list_ex (\<lambda>name. case cols name of None \<Rightarrow> False | Some c \<Rightarrow> \<not> BtreeIndexable c) columns,
      list_ex (\<lambda>name. cols name = None) columns)"

definition holdsSameRows :: "AdvIndex \<Rightarrow> string list \<Rightarrow> bool" where
  "holdsSameRows idx predicate =
     (if \<not> ix_Partial idx then True else ix_NullPredicate idx \<noteq> [] \<and> ix_NullPredicate idx = predicate)"

definition sameColumns :: "string list \<Rightarrow> string list \<Rightarrow> bool" where
  "sameColumns a b \<longleftrightarrow> length a = length b \<and> containsAll a b"

definition coversKey :: "string list \<Rightarrow> string list \<Rightarrow> string list \<Rightarrow> bool" where
  "coversKey idxColumns columns equality =
     (if length idxColumns < length columns then False
      else
        (let n = length (takeWhile (\<lambda>c. c \<in> set equality) columns)
         in if \<not> sameColumns (take n idxColumns) (take n columns) then False
            else drop n (take (length columns) idxColumns) = drop n columns))"

definition usable_index :: "AdvIndex \<Rightarrow> bool" where
  "usable_index idx \<longleftrightarrow> \<not> (ix_Method idx \<noteq> ''btree'' \<or> \<not> ix_Valid idx \<or> ix_Expression idx)"

definition coveredByExisting :: "Catalog \<Rightarrow> RelKey \<Rightarrow> string list \<Rightarrow> string list \<Rightarrow> string list \<Rightarrow> bool" where
  "coveredByExisting cat key columns equality predicate =
     list_ex (\<lambda>idx. usable_index idx \<and> holdsSameRows idx predicate \<and> coversKey (ix_Columns idx) columns equality)
       (list_at (cat_Indexes cat) key)"

definition servedByUniqueIndex :: "Catalog \<Rightarrow> RelKey \<Rightarrow> string list \<Rightarrow> string list \<Rightarrow> bool" where
  "servedByUniqueIndex cat key equality predicate =
     list_ex (\<lambda>idx. ix_Unique idx \<and> usable_index idx \<and> holdsSameRows idx predicate
         \<and> ix_Columns idx \<noteq> [] \<and> containsAll equality (ix_Columns idx))
       (list_at (cat_Indexes cat) key)"

definition similarIndexes :: "Catalog \<Rightarrow> RelKey \<Rightarrow> string list \<Rightarrow> string list" where
  "similarIndexes cat key columns =
     sort (map ix_Name (filter (\<lambda>idx. usable_index idx \<and> containsAll (ix_Columns idx) columns) (list_at (cat_Indexes cat) key)))"

definition is_unique_column :: "string list \<Rightarrow> (string \<rightharpoonup> AdvColumn) \<Rightarrow> string \<Rightarrow> bool" where
  "is_unique_column equality cols name \<longleftrightarrow>
     name \<in> set equality \<and> (case cols name of None \<Rightarrow> False | Some c \<Rightarrow> StatsKnown c \<and> NDistinct c \<le> lit (- 1))"

fun truncateAtUnique :: "string list \<Rightarrow> string list \<Rightarrow> (string \<rightharpoonup> AdvColumn) \<Rightarrow> string list" where
  "truncateAtUnique [] equality cols = []"
| "truncateAtUnique (name # names) equality cols =
     (if is_unique_column equality cols name then [name] else name # truncateAtUnique names equality cols)"

definition key_columns :: "roles \<Rightarrow> string list \<Rightarrow> string list" where
  "key_columns r columns =
     (case ro_ranges r of
        c # _ \<Rightarrow> appendUnique columns c
      | [] \<Rightarrow> fold (\<lambda>name names. appendUnique names name) (ro_ordering r) columns)"

definition buildDraft :: "Catalog \<Rightarrow> AdvisorConfig \<Rightarrow> RelKey \<Rightarrow> Usage list \<Rightarrow> string + draft" where
  "buildDraft cat cfg key usages =
     (case map_of (cat_Relations cat) key of
        None \<Rightarrow> Inl ''unknown_relation''
      | Some rel \<Rightarrow>
          if rel_Rows rel < MinTableRows cfg then Inl ''table_too_small''
          else
            (let cols = columns_of cat key;
                 r = splitRoles usages;
                 nulls = filter (\<lambda>name. \<not> (name \<in> set (ro_equality r) \<or> name \<in> set (ro_ranges r) \<or> name \<in> set (ro_ordering r))) (ro_nulls r);
                 (predicate, predicateStats) = selectivePredicate nulls cols
             in if servedByUniqueIndex cat key (ro_equality r) predicate then Inl ''already_indexed''
                else
                  (let (columns, statsMissing) = orderEquality (ro_equality r) cols (rel_Rows rel);
                       (columns, unindexable, unknown) = filterIndexable (key_columns r columns) cols
                   in if columns = []
                      then Inl (if unindexable then ''unsupported_type'' else if unknown then ''unknown_column''
                                else ''no_indexable_predicate'')
                      else
                        (let columns = truncateAtUnique columns (ro_equality r) cols;
                             requested = length columns;
                             columns = (if MaxIndexColumns cfg < int (length columns) then take (nat (MaxIndexColumns cfg)) columns else columns)
                         in if coveredByExisting cat key columns (ro_equality r) predicate then Inl ''already_indexed''
                            else Inr \<lparr>dr_key = key, dr_columns = columns, dr_predicate = predicate, dr_covered = [], dr_order = [],
                                      dr_statsMissing = (statsMissing \<or> predicateStats), dr_wideIndex = (length columns < requested),
                                      dr_requested = requested\<rparr>))))"

section \<open>The builder\<close>

record builder =
  bl_totalTime :: f64
  bl_drafts :: "(RelKey \<times> draft list) list"
  bl_skipped :: "(string \<times> i64) list"
  bl_writeCalls :: "(RelKey \<times> i64) list"

definition adv_weight :: "f64 \<Rightarrow> WorkloadEntry \<Rightarrow> f64" where
  "adv_weight totalTime e = (if totalTime \<le> Fin 0 then Fin 0 else lit 100 * we_TotalTimeMs e / totalTime)"

definition covered_query :: "f64 \<Rightarrow> WorkloadEntry \<Rightarrow> CoveredQuery" where
  "covered_query totalTime e =
     \<lparr>cq_QueryIDs = we_QueryIDs e, cq_QueryIDByHost = we_QueryIDByHost e, cq_Fingerprint = we_Fingerprint e,
      cq_Query = we_Query e, cq_WeightPct = adv_weight totalTime e, cq_Calls = we_Calls e, cq_Hosts = sortedHosts (we_Hosts e)\<rparr>"

definition cover :: "f64 \<Rightarrow> WorkloadEntry \<Rightarrow> draft \<Rightarrow> draft" where
  "cover totalTime e d =
     (if map_of (dr_covered d) (we_Fingerprint e) \<noteq> None then d
      else d\<lparr>dr_covered := AList.update (we_Fingerprint e) (covered_query totalTime e) (dr_covered d),
             dr_order := dr_order d @ [we_Fingerprint e]\<rparr>)"

definition same_draft :: "draft \<Rightarrow> draft \<Rightarrow> bool" where
  "same_draft a b \<longleftrightarrow> dr_columns a = dr_columns b \<and> dr_predicate a = dr_predicate b"

text \<open>\<^verbatim>\<open>attach\<close> within the drafts of one relation.\<close>

fun attach_draft :: "f64 \<Rightarrow> draft \<Rightarrow> WorkloadEntry \<Rightarrow> draft list \<Rightarrow> draft list" where
  "attach_draft totalTime d e [] = [cover totalTime e d]"
| "attach_draft totalTime d e (t # ts) =
     (if same_draft t d
      then cover totalTime e (t\<lparr>dr_statsMissing := (dr_statsMissing t \<or> dr_statsMissing d),
                                 dr_wideIndex := (dr_wideIndex t \<or> dr_wideIndex d)\<rparr>) # ts
      else t # attach_draft totalTime d e ts)"

definition attach :: "draft \<Rightarrow> WorkloadEntry \<Rightarrow> builder \<Rightarrow> builder" where
  "attach d e b =
     b\<lparr>bl_drafts := AList.update (dr_key d) (attach_draft (bl_totalTime b) d e (list_at (bl_drafts b) (dr_key d))) (bl_drafts b)\<rparr>"

definition add_draft :: "Catalog \<Rightarrow> AdvisorConfig \<Rightarrow> WorkloadEntry \<Rightarrow> (RelKey \<times> Usage list) list \<Rightarrow> RelKey \<Rightarrow>
    builder \<times> bool \<times> string \<Rightarrow> builder \<times> bool \<times> string" where
  "add_draft cat cfg e byTable key = (\<lambda>(b, produced, dropReason).
     case buildDraft cat cfg key (list_at byTable key) of
       Inl reason \<Rightarrow> (b, produced, ia_firstNonEmpty [dropReason, reason])
     | Inr d \<Rightarrow> (attach d e b, True, dropReason))"

definition addStatement :: "Catalog \<Rightarrow> AdvisorConfig \<Rightarrow> WorkloadEntry \<Rightarrow> builder \<Rightarrow> builder \<times> string" where
  "addStatement cat cfg e b =
     (if \<not> yieldsCandidates (st_Kind (we_Stmt e)) then (b, [])
      else
        (let (tables, tableReason) = resolveTables cat (st_Tables (we_Stmt e))
         in if tables = [] then (b, ia_firstNonEmpty [tableReason, ''unknown_relation''])
            else
              (let (byTable, bindReason) = bindUsages cat (st_Usages (we_Stmt e)) tables;
                   (b, produced, dropReason) = fold (add_draft cat cfg e byTable) (sortedKeys byTable) (b, False, [])
               in if produced then (b, [])
                  else (b, ia_firstNonEmpty [dropReason, bindReason, tableReason, statementReason (we_Stmt e)]))))"

definition add_group :: "Catalog \<Rightarrow> AdvisorConfig \<Rightarrow> WorkloadEntry \<Rightarrow> builder \<Rightarrow> builder" where
  "add_group cat cfg g b =
     (let (b, reason) = addStatement cat cfg g b
      in if reason \<noteq> [] then b\<lparr>bl_skipped := tally_add reason 1 (bl_skipped b)\<rparr> else b)"

section \<open>Candidates\<close>

definition merge_cover :: "draft \<Rightarrow> string \<Rightarrow> draft \<Rightarrow> draft" where
  "merge_cover other fp d =
     (if map_of (dr_covered d) fp \<noteq> None then d
      else (case map_of (dr_covered other) fp of
              None \<Rightarrow> d
            | Some q \<Rightarrow> d\<lparr>dr_covered := AList.update fp q (dr_covered d), dr_order := dr_order d @ [fp]\<rparr>))"

definition mergeFrom :: "draft \<Rightarrow> draft \<Rightarrow> draft" where
  "mergeFrom d other =
     fold (merge_cover other) (dr_order other)
       (d\<lparr>dr_statsMissing := (dr_statsMissing d \<or> dr_statsMissing other), dr_wideIndex := (dr_wideIndex d \<or> dr_wideIndex other)\<rparr>)"

fun merge_into :: "draft \<Rightarrow> draft list \<Rightarrow> draft list" where
  "merge_into d [] = [d]"
| "merge_into d (k # ks) =
     (if dr_predicate d \<noteq> dr_predicate k \<or> \<not> isPrefix (dr_columns d) (dr_columns k) then k # merge_into d ks
      else mergeFrom k d # ks)"

definition mergePrefixes :: "draft list \<Rightarrow> draft list" where
  "mergePrefixes drafts = fold merge_into (sort_key (\<lambda>d. - int (length (dr_columns d))) drafts) []"

record trade =
  tr_writeCalls :: i64
  tr_readCalls :: i64

definition writeHeavy :: "trade \<Rightarrow> bool" where
  "writeHeavy t =
     (if tr_writeCalls t < 1000 then False
      else lit 10 * of_i64 (max (tr_readCalls t) 1) < of_i64 (tr_writeCalls t))"

definition plain_warning :: "string \<Rightarrow> AdvWarning" where
  "plain_warning code = \<lparr>wn_Code = code, wn_Params = [], wn_Names = []\<rparr>"

definition param_warning :: "string \<Rightarrow> (string \<times> f64) list \<Rightarrow> AdvWarning" where
  "param_warning code params = \<lparr>wn_Code = code, wn_Params = params, wn_Names = []\<rparr>"

definition warningsFor :: "Catalog \<Rightarrow> draft \<Rightarrow> string \<Rightarrow> f64 \<Rightarrow> trade \<Rightarrow> nat \<Rightarrow> AdvWarning list" where
  "warningsFor cat d kind w t partitions =
     (let similar = similarIndexes cat (dr_key d) (dr_columns d);
          n = length (list_at (cat_Indexes cat) (dr_key d))
      in (if similar \<noteq> [] then [\<lparr>wn_Code = ''similar_index'', wn_Params = [], wn_Names = similar\<rparr>] else [])
         @ (if 10 \<le> n then [param_warning ''many_indexes'' [(''indexes'', of_i64 (int n))]] else [])
         @ (if dr_statsMissing d then [plain_warning ''stats_missing''] else [])
         @ (if dr_wideIndex d
            then [param_warning ''wide_index'' [(''columns'', of_i64 (int (length (dr_columns d)))), (''requested'', of_i64 (int (dr_requested d)))]]
            else [])
         @ (if kind = partitionedKind then [param_warning ''partition_root'' [(''partitions'', of_i64 (int partitions))]] else [])
         @ (if kind = ''m'' then [plain_warning ''matview''] else [])
         @ (if writeHeavy t
            then [param_warning ''write_heavy'' [(''write_calls'', of_i64 (tr_writeCalls t)), (''read_calls'', of_i64 (tr_readCalls t))]] else [])
         @ (if w < lit 1 then [param_warning ''low_weight'' [(''weight_pct'', w)]] else []))"

definition no_evidence :: Evidence where
  "no_evidence =
     \<lparr>ev_State = EvidenceNotSearched, ev_Plans = 0, ev_SeqScanNodes = 0, ev_ActualTimeMs = Fin 0, ev_RowsRemoved = Fin 0,
      ev_From = 0, ev_To = 0, ev_Partial = False\<rparr>"

definition ordered_cover :: "draft \<Rightarrow> CoveredQuery list" where
  "ordered_cover d = List.map_filter (\<lambda>fp. map_of (dr_covered d) fp) (dr_order d)"

definition draft_candidate :: "Catalog \<Rightarrow> builder \<Rightarrow> RelKey \<Rightarrow> draft \<Rightarrow> ddlScope \<Rightarrow> (Candidate \<times> ddlScope) option" where
  "draft_candidate cat b key d s =
     (let kind = (case map_of (cat_Relations cat) key of None \<Rightarrow> [] | Some rel \<Rightarrow> rel_Kind rel);
          rows = (case map_of (cat_Relations cat) key of None \<Rightarrow> 0 | Some rel \<Rightarrow> rel_Rows rel);
          covered = ordered_cover d;
          w = fold (\<lambda>q sum. sum + cq_WeightPct q) covered (Fin 0);
          readCalls = fold (\<lambda>q sum. wrap64 (sum + cq_Calls q)) covered 0;
          writeCalls = (case map_of (bl_writeCalls b) key of None \<Rightarrow> 0 | Some n \<Rightarrow> n);
          partitions = (if kind = partitionedKind then leaves (sc_fuel s) s key else Some 0)
      in case (partitions, ddlFor key (dr_columns d) (dr_predicate d) s) of
           (Some p, Some (ddl, s)) \<Rightarrow>
             Some (\<lparr>cand_Schema = fst key, cand_Table = snd key, cand_Columns = dr_columns d,
                    cand_Predicate = predicateSQL (dr_predicate d), cand_DDL = ddl, cand_WeightPct = w,
                    cand_Covered = sort_key (\<lambda>q. desc (cq_WeightPct q)) covered, cand_TableRows = rows,
                    cand_Writes = writes_at cat key,
                    cand_Warnings = warningsFor cat d kind w \<lparr>tr_writeCalls = writeCalls, tr_readCalls = readCalls\<rparr> p,
                    cand_Evidence = no_evidence, PlannerChecked = False\<rparr>, s)
         | _ \<Rightarrow> None)"

fun each_draft :: "(RelKey \<Rightarrow> draft \<Rightarrow> ddlScope \<Rightarrow> (Candidate \<times> ddlScope) option) \<Rightarrow> (RelKey \<times> draft) list \<Rightarrow> ddlScope \<Rightarrow> Candidate list option" where
  "each_draft mk [] s = Some []"
| "each_draft mk ((key, d) # rest) s =
     (case mk key d s of None \<Rightarrow> None | Some (c, s) \<Rightarrow> map_option ((#) c) (each_draft mk rest s))"

definition kept_drafts :: "builder \<Rightarrow> (RelKey \<times> draft) list" where
  "kept_drafts b =
     concat (map (\<lambda>key. map (Pair key) (mergePrefixes (list_at (bl_drafts b) key))) (sortedKeys (bl_drafts b)))"

definition candidate_order :: "Candidate \<Rightarrow> (int \<times> rat) \<times> string \<times> string \<times> string list \<times> string" where
  "candidate_order c = (desc (cand_WeightPct c), cand_Schema c, cand_Table c, cand_Columns c, cand_Predicate c)"

definition all_candidates :: "Catalog \<Rightarrow> builder \<Rightarrow> Candidate list option" where
  "all_candidates cat b =
     map_option (sort_key candidate_order) (each_draft (draft_candidate cat b) (kept_drafts b) (newDDLScope cat))"

definition adv_candidates :: "Catalog \<Rightarrow> AdvisorConfig \<Rightarrow> builder \<Rightarrow> Candidate list option" where
  "adv_candidates cat cfg b =
     map_option (\<lambda>out. if MaxCandidates cfg < int (length out) then take (nat (MaxCandidates cfg)) out else out) (all_candidates cat b)"

definition covered_time :: "CoveredQuery \<Rightarrow> string list \<times> f64 \<Rightarrow> string list \<times> f64" where
  "covered_time q = (\<lambda>(seen, tot). if cq_Fingerprint q \<in> set seen then (seen, tot) else (cq_Fingerprint q # seen, tot + cq_WeightPct q))"

definition coveredTimePct :: "Candidate list \<Rightarrow> f64" where
  "coveredTimePct cands = snd (fold covered_time (concat (map cand_Covered cands)) ([], Fin 0))"

definition build_state :: "Workload \<Rightarrow> Catalog \<Rightarrow> AdvisorConfig \<Rightarrow> builder" where
  "build_state w cat cfg =
     (let groups = collapse_workload (wl_Entries w);
          b = \<lparr>bl_totalTime = workloadTime cat groups, bl_drafts = [],
               bl_skipped = fold (\<lambda>(code, n). tally_add code n) (wl_NotParsed w) [], bl_writeCalls = collectWrites cat groups\<rparr>
      in fold (add_group cat cfg) groups b)"

text \<open>\<open>elapsed\<close> is the duration the caller's clock measures.\<close>

definition Build :: "Workload \<Rightarrow> Catalog \<Rightarrow> AdvisorConfig \<Rightarrow> i64 \<Rightarrow> AdvReport option" where
  "Build w cat cfg elapsed =
     (let cfg = adv_WithDefaults cfg;
          b = build_state w cat cfg
      in map_option (\<lambda>cands.
           \<lparr>ar_Candidates = cands, ar_NotParsed = notParsedList (bl_skipped b),
            ar_Summary = \<lparr>PgssAvailable = wl_Available w, AnalyzedQueries = length (wl_Entries w),
              CollapsedGroups = length (collapse_workload (wl_Entries w)), NotParsedCount = sumCounts (bl_skipped b),
              CoveredTimePct = coveredTimePct cands, CatalogTruncated = cat_Truncated cat, sum_Hosts = sortedHosts (wl_Hosts w),
              HostsWithoutStats = sortedHosts (wl_NoStats w)\<rparr>,
            UnreachableHosts = sortedHosts (wl_Unreachable w), ar_DurationMs = elapsed\<rparr>)
         (adv_candidates cat cfg b))"

end
