(* ===== verification/Advisor_Sound.thy ===== *)
theory Advisor_Sound
  imports Advisor_Build
begin

text \<open>
  What the candidates of the index advisor are: new, buildable and no prefix of one another, and
  what becomes of every statement of the workload.
\<close>

section \<open>Drafts\<close>

lemma appendUnique_simps [simp]:
  "set (appendUnique names name) = insert name (set names)"
  "distinct names \<Longrightarrow> distinct (appendUnique names name)"
  by (auto simp: appendUnique_def)

lemma columns_with_distinct: "distinct (columns_with p usages)"
  unfolding columns_with_def by (rule fold_invariant_set [where P = distinct]) simp_all

lemma appendUniques_distinct: "distinct names \<Longrightarrow> distinct (fold (\<lambda>name names. appendUnique names name) xs names)"
  by (induction xs arbitrary: names) simp_all

lemma equality_distinct: "distinct (ro_equality (splitRoles usages))"
  by (simp add: splitRoles_def Let_def columns_with_distinct)

lemma orderEquality_mset: "mset (fst (orderEquality names cols rows)) = mset names"
  by (simp add: orderEquality_def)

lemma key_columns_distinct: "distinct columns \<Longrightarrow> distinct (key_columns r columns)"
  by (simp add: key_columns_def appendUniques_distinct split: list.splits)

lemma truncateAtUnique_prefix: "prefix (truncateAtUnique columns equality cols) columns"
  by (induction columns) auto

lemma truncateAtUnique_empty [simp]: "truncateAtUnique columns equality cols = [] \<longleftrightarrow> columns = []"
  by (cases columns) auto

definition btree_column :: "Catalog \<Rightarrow> RelKey \<Rightarrow> string \<Rightarrow> bool" where
  "btree_column cat key name = (case columns_of cat key name of None \<Rightarrow> False | Some c \<Rightarrow> BtreeIndexable c)"

text \<open>A draft is a new and buildable index.\<close>

definition draft_ok :: "Catalog \<Rightarrow> AdvisorConfig \<Rightarrow> RelKey \<Rightarrow> draft \<Rightarrow> bool" where
  "draft_ok cat cfg key d \<longleftrightarrow>
     dr_key d = key
     \<and> (case map_of (cat_Relations cat) key of None \<Rightarrow> False | Some rel \<Rightarrow> MinTableRows cfg \<le> rel_Rows rel)
     \<and> dr_columns d \<noteq> [] \<and> distinct (dr_columns d) \<and> int (length (dr_columns d)) \<le> MaxIndexColumns cfg
     \<and> list_all (btree_column cat key) (dr_columns d)
     \<and> list_all (\<lambda>idx. usable_index idx \<and> holdsSameRows idx (dr_predicate d) \<longrightarrow> \<not> prefix (dr_columns d) (ix_Columns idx))
         (list_at (cat_Indexes cat) key)"

lemma coversKey_prefix: "prefix columns idxColumns \<Longrightarrow> coversKey idxColumns columns equality"
proof -
  assume "prefix columns idxColumns"
  then obtain t where t: "idxColumns = columns @ t" by (auto simp: prefix_def)
  let ?n = "length (takeWhile (\<lambda>c. c \<in> set equality) columns)"
  have "?n \<le> length columns" by (simp add: length_takeWhile_le)
  then have "take ?n idxColumns = take ?n columns" by (simp add: t)
  moreover have "drop ?n (take (length columns) idxColumns) = drop ?n columns" by (simp add: t)
  moreover have "\<not> length idxColumns < length columns" by (simp add: t)
  ultimately show ?thesis unfolding coversKey_def Let_def by (simp add: sameColumns_def containsAll_def list_all_iff)
qed

lemma buildDraft_ok:
  assumes "buildDraft cat cfg key usages = Inr d" and "0 < MaxIndexColumns cfg"
  shows "draft_ok cat cfg key d \<and> dr_covered d = [] \<and> dr_order d = []"
proof -
  obtain rel where rel: "map_of (cat_Relations cat) key = Some rel" "\<not> rel_Rows rel < MinTableRows cfg"
    using assms(1) by (auto simp: buildDraft_def split: option.splits if_splits)
  define r where "r = splitRoles usages"
  define cols where "cols = columns_of cat key"
  obtain eq stats where e: "orderEquality (ro_equality r) cols (rel_Rows rel) = (eq, stats)" by fastforce
  define kept where "kept = filter (btree_column cat key) (key_columns r eq)"
  define cut where "cut = truncateAtUnique kept (ro_equality r) cols"
  define columns where "columns = (if MaxIndexColumns cfg < int (length cut) then take (nat (MaxIndexColumns cfg)) cut else cut)"
  obtain u1 u2 where f: "filterIndexable (key_columns r eq) cols = (kept, u1, u2)"
    by (simp add: filterIndexable_def kept_def btree_column_def [abs_def] cols_def)
  obtain predicate pstats where p: "selectivePredicate (filter (\<lambda>name. \<not> (name \<in> set (ro_equality r) \<or> name \<in> set (ro_ranges r) \<or> name \<in> set (ro_ordering r))) (ro_nulls r)) cols = (predicate, pstats)"
    by fastforce
  note whole = assms(1) [unfolded buildDraft_def Let_def r_def [symmetric] cols_def [symmetric] rel(1) option.case
      p prod.case e f cut_def [symmetric] columns_def [symmetric]]
  have d: "dr_key d = key" "dr_columns d = columns" "dr_predicate d = predicate" "dr_covered d = []" "dr_order d = []"
    and kept: "kept \<noteq> []" and new: "\<not> coveredByExisting cat key columns (ro_equality r) predicate"
    using whole by (auto split: if_splits)
  have "distinct (ro_equality r)" by (simp add: r_def equality_distinct)
  then have "distinct eq"
    using mset_eq_imp_distinct_iff [OF orderEquality_mset [of "ro_equality r" cols "rel_Rows rel"]]
    unfolding e by simp
  then have "distinct kept" by (simp add: kept_def key_columns_distinct)
  have pre: "prefix columns kept"
    unfolding columns_def cut_def using truncateAtUnique_prefix take_is_prefix prefix_order.trans by (metis (full_types))
  then obtain t where t: "kept = columns @ t" by (auto simp: prefix_def)
  have "list_all (btree_column cat key) kept" by (simp add: kept_def list_all_iff)
  then have "distinct columns" "list_all (btree_column cat key) columns" using \<open>distinct kept\<close> by (simp_all add: t)
  moreover have "columns \<noteq> []" using kept assms(2) by (auto simp: columns_def cut_def)
  moreover have "int (length columns) \<le> MaxIndexColumns cfg" using assms(2) by (auto simp: columns_def)
  moreover have "\<not> prefix columns (ix_Columns idx)"
    if "idx \<in> set (list_at (cat_Indexes cat) key)" "usable_index idx" "holdsSameRows idx predicate" for idx
    using new that coversKey_prefix unfolding coveredByExisting_def list_ex_iff by blast
  ultimately show ?thesis using d rel by (auto simp: draft_ok_def list_all_iff)
qed

section \<open>Covered statements of a draft\<close>

definition cover_ok :: "draft \<Rightarrow> bool" where
  "cover_ok d \<longleftrightarrow> distinct (dr_order d)
     \<and> (\<forall>fp. fp \<in> set (dr_order d) \<longleftrightarrow> (\<exists>q. map_of (dr_covered d) fp = Some q \<and> cq_Fingerprint q = fp))
     \<and> (\<forall>fp. map_of (dr_covered d) fp \<noteq> None \<longrightarrow> fp \<in> set (dr_order d))"

definition shape :: "draft \<Rightarrow> RelKey \<times> string list \<times> string list" where
  "shape d = (dr_key d, dr_columns d, dr_predicate d)"

lemma draft_ok_shape: "shape a = shape b \<Longrightarrow> draft_ok cat cfg key a = draft_ok cat cfg key b"
  by (simp add: shape_def draft_ok_def)

lemma cover_okD:
  assumes "cover_ok d"
  shows "distinct (dr_order d)"
    and "fp \<in> set (dr_order d) \<Longrightarrow> \<exists>q. map_of (dr_covered d) fp = Some q \<and> cq_Fingerprint q = fp"
    and "map_of (dr_covered d) fp = Some q \<Longrightarrow> fp \<in> set (dr_order d) \<and> cq_Fingerprint q = fp"
proof -
  note c = assms [unfolded cover_ok_def]
  show "distinct (dr_order d)" using c by blast
  show "\<exists>q. map_of (dr_covered d) fp = Some q \<and> cq_Fingerprint q = fp" if "fp \<in> set (dr_order d)" using c that by blast
  show "fp \<in> set (dr_order d) \<and> cq_Fingerprint q = fp" if q: "map_of (dr_covered d) fp = Some q"
  proof -
    have "fp \<in> set (dr_order d)" using c q by (metis option.distinct(1))
    then show ?thesis using c q by (metis option.inject)
  qed
qed

lemma cover_ok_add:
  assumes "cover_ok d" and "map_of (dr_covered d) fp = None" and "cq_Fingerprint q = fp"
  shows "cover_ok (d\<lparr>dr_covered := AList.update fp q (dr_covered d), dr_order := dr_order d @ [fp]\<rparr>)"
proof -
  have "fp \<notin> set (dr_order d)" using cover_okD(2) [OF assms(1)] assms(2) by fastforce
  then show ?thesis using assms unfolding cover_ok_def by (auto simp: update_conv)
qed

lemma cover_ok_flags [simp]:
  "cover_ok (d\<lparr>dr_statsMissing := x\<rparr>) = cover_ok d" "cover_ok (d\<lparr>dr_wideIndex := y\<rparr>) = cover_ok d"
  by (simp_all add: cover_ok_def)

lemma cover_keeps:
  assumes "cover_ok d"
  shows "cover_ok (cover t e d) \<and> shape (cover t e d) = shape d
    \<and> set (dr_order (cover t e d)) = insert (we_Fingerprint e) (set (dr_order d))"
proof (cases "map_of (dr_covered d) (we_Fingerprint e)")
  case None
  then show ?thesis
    using cover_ok_add [OF assms None, of "covered_query t e"] by (simp add: cover_def covered_query_def shape_def)
next
  case (Some q)
  then show ?thesis using assms cover_okD(3) [OF assms Some] by (auto simp: cover_def)
qed

lemma merge_covers:
  assumes "cover_ok other" and "cover_ok d" and "set fps \<subseteq> set (dr_order other)"
  shows "cover_ok (fold (merge_cover other) fps d) \<and> shape (fold (merge_cover other) fps d) = shape d
    \<and> set (dr_order (fold (merge_cover other) fps d)) = set (dr_order d) \<union> set fps"
  using assms(2,3)
proof (induction fps arbitrary: d)
  case (Cons fp fps)
  obtain q where q: "map_of (dr_covered other) fp = Some q" "cq_Fingerprint q = fp"
    using cover_okD(2) [OF assms(1)] Cons.prems(2) by fastforce
  have "cover_ok (merge_cover other fp d) \<and> shape (merge_cover other fp d) = shape d
      \<and> set (dr_order (merge_cover other fp d)) = insert fp (set (dr_order d))"
  proof (cases "map_of (dr_covered d) fp")
    case None
    then show ?thesis using cover_ok_add [OF Cons.prems(1) None q(2)] by (simp add: merge_cover_def q shape_def)
  next
    case (Some p)
    then show ?thesis using Cons.prems(1) cover_okD(3) [OF Cons.prems(1) Some] by (auto simp: merge_cover_def)
  qed
  then show ?case using Cons.IH [of "merge_cover other fp d"] Cons.prems(2) by auto
qed simp

lemma mergeFrom_keeps:
  assumes "cover_ok d" and "cover_ok other"
  shows "cover_ok (mergeFrom d other) \<and> shape (mergeFrom d other) = shape d
    \<and> set (dr_order (mergeFrom d other)) = set (dr_order d) \<union> set (dr_order other)"
  unfolding mergeFrom_def using merge_covers [OF assms(2), of _ "dr_order other"] assms(1)
  by (simp add: shape_def)

section \<open>Merging prefixes\<close>

lemma isPrefix_prefix: "isPrefix a b = prefix a b"
  by (auto simp: isPrefix_def prefix_def dest: sym) (metis append_take_drop_id)

definition fits :: "draft \<Rightarrow> draft \<Rightarrow> bool" where
  "fits d k \<longleftrightarrow> dr_predicate d = dr_predicate k \<and> prefix (dr_columns d) (dr_columns k)"

lemma fits_shape: "shape a = shape a' \<Longrightarrow> shape b = shape b' \<Longrightarrow> fits a b = fits a' b'"
  by (simp add: fits_def shape_def)

lemma merge_into_keeps:
  assumes "list_all cover_ok ks" and "cover_ok d"
  shows "list_all cover_ok (merge_into d ks)
    \<and> map shape (merge_into d ks) = (if list_ex (fits d) ks then map shape ks else map shape ks @ [shape d])
    \<and> (\<Union>k\<in>set (merge_into d ks). set (dr_order k)) = (\<Union>k\<in>set ks. set (dr_order k)) \<union> set (dr_order d)"
  using assms(1)
proof (induction ks)
  case Nil
  then show ?case using assms(2) by simp
next
  case (Cons k ks)
  show ?case
  proof (cases "fits d k")
    case True
    then show ?thesis
      using Cons.prems mergeFrom_keeps [of k d] assms(2) by (auto simp: fits_def isPrefix_prefix)
  next
    case False
    then have "merge_into d (k # ks) = k # merge_into d ks" by (auto simp: fits_def isPrefix_prefix)
    then show ?thesis using False Cons by auto
  qed
qed

definition separate :: "draft list \<Rightarrow> bool" where
  "separate ks \<longleftrightarrow> sorted_wrt (\<lambda>a b. \<not> fits a b \<and> \<not> fits b a) ks"

lemma separate_shapes: "map shape ks = map shape ls \<Longrightarrow> separate ks = separate ls"
proof -
  assume a: "map shape ks = map shape ls"
  have e: "sorted_wrt (\<lambda>a b. \<not> fits a b \<and> \<not> fits b a) xs =
      sorted_wrt (\<lambda>(_, c, p) (_, c', p'). \<not> (p = p' \<and> prefix c c') \<and> \<not> (p' = p \<and> prefix c' c)) (map shape xs)" for xs
    by (simp add: sorted_wrt_map shape_def fits_def)
  show ?thesis unfolding separate_def e a by (rule refl)
qed

lemma merge_all:
  assumes "list_all cover_ok ds" and "sorted_wrt (\<lambda>a b. length (dr_columns b) \<le> length (dr_columns a)) ds"
  defines "ks \<equiv> fold merge_into ds []"
  shows "list_all cover_ok ks \<and> set (map shape ks) \<subseteq> set (map shape ds) \<and> separate ks
    \<and> (\<Union>k\<in>set ks. set (dr_order k)) = (\<Union>d\<in>set ds. set (dr_order d))"
  using assms(1,2) unfolding ks_def
proof (induction ds rule: rev_induct)
  case Nil
  then show ?case by (simp add: separate_def)
next
  case (snoc d ds)
  define ks where "ks = fold merge_into ds []"
  have IH: "list_all cover_ok ks" "set (map shape ks) \<subseteq> set (map shape ds)" "separate ks"
    "(\<Union>k\<in>set ks. set (dr_order k)) = (\<Union>d\<in>set ds. set (dr_order d))"
    using snoc by (simp_all add: ks_def sorted_wrt_append)
  have d: "cover_ok d" using snoc.prems by simp
  note m = merge_into_keeps [OF IH(1) d]
  have long: "length (dr_columns d) \<le> length (dr_columns k)" if "k \<in> set ks" for k
  proof -
    have "shape k \<in> shape ` set ds" using IH(2) that unfolding set_map by blast
    then obtain e where "e \<in> set ds" "shape k = shape e" by blast
    then show ?thesis using snoc.prems(2) by (auto simp: sorted_wrt_append shape_def)
  qed
  have sep: "separate (merge_into d ks)"
  proof (cases "list_ex (fits d) ks")
    case True
    then have "map shape (merge_into d ks) = map shape ks" using m by simp
    from separate_shapes [OF this] IH(3) show ?thesis by simp
  next
    case False
    have "\<not> fits d k \<and> \<not> fits k d" if "k \<in> set ks" for k
    proof -
      have n: "\<not> fits d k" using False that by (auto simp: list_ex_iff)
      moreover have "\<not> fits k d"
      proof
        assume f: "fits k d"
        then have "prefix (dr_columns k) (dr_columns d)" by (simp add: fits_def)
        with long [OF that] have "dr_columns k = dr_columns d" by (auto simp: prefix_def)
        then show False using f n by (simp add: fits_def)
      qed
      ultimately show ?thesis by blast
    qed
    then have "separate (ks @ [d])" using IH(3) by (simp add: separate_def sorted_wrt_append)
    moreover have "map shape (merge_into d ks) = map shape (ks @ [d])" using False m by simp
    ultimately show ?thesis using separate_shapes by blast
  qed
  have "set (map shape (merge_into d ks)) \<subseteq> set (map shape (ds @ [d]))"
    using m IH(2) by (cases "list_ex (fits d) ks") auto
  moreover have "(\<Union>k\<in>set (merge_into d ks). set (dr_order k)) = (\<Union>k\<in>set (ds @ [d]). set (dr_order k))"
    using m IH(4) by auto
  moreover have "fold merge_into (ds @ [d]) [] = merge_into d ks" by (simp add: ks_def)
  ultimately show ?case using m sep by (simp only: simp_thms)
qed

lemma mergePrefixes_keeps:
  assumes "list_all cover_ok ds"
  shows "list_all cover_ok (mergePrefixes ds) \<and> set (map shape (mergePrefixes ds)) \<subseteq> set (map shape ds)
    \<and> separate (mergePrefixes ds)
    \<and> (\<Union>k\<in>set (mergePrefixes ds). set (dr_order k)) = (\<Union>d\<in>set ds. set (dr_order d))"
proof -
  let ?s = "sort_key (\<lambda>d. - int (length (dr_columns d))) ds"
  have "list_all cover_ok ?s" using assms by (simp add: list_all_iff)
  moreover have "sorted_wrt (\<lambda>a b. length (dr_columns b) \<le> length (dr_columns a)) ?s"
    using sorted_sort_key [of "\<lambda>d. - int (length (dr_columns d))" ds] unfolding sorted_wrt_map by simp
  ultimately have "list_all cover_ok (fold merge_into ?s []) \<and> set (map shape (fold merge_into ?s [])) \<subseteq> set (map shape ?s)
    \<and> separate (fold merge_into ?s [])
    \<and> (\<Union>k\<in>set (fold merge_into ?s []). set (dr_order k)) = (\<Union>d\<in>set ?s. set (dr_order d))"
    by (rule merge_all)
  then show ?thesis by (simp add: mergePrefixes_def)
qed

section \<open>The builder\<close>

definition drafts_at :: "builder \<Rightarrow> RelKey \<Rightarrow> draft list" where
  "drafts_at b key = list_at (bl_drafts b) key"

definition builder_ok :: "Catalog \<Rightarrow> AdvisorConfig \<Rightarrow> builder \<Rightarrow> bool" where
  "builder_ok cat cfg b \<longleftrightarrow>
     distinct (map fst (bl_drafts b)) \<and> (\<forall>key. list_all (\<lambda>d. draft_ok cat cfg key d \<and> cover_ok d) (drafts_at b key))"

definition answered :: "builder \<Rightarrow> string \<Rightarrow> bool" where
  "answered b fp \<longleftrightarrow> (\<exists>key. \<exists>d\<in>set (drafts_at b key). fp \<in> set (dr_order d))"

lemma builder_okD: "builder_ok cat cfg b \<Longrightarrow> d \<in> set (drafts_at b key) \<Longrightarrow> draft_ok cat cfg key d \<and> cover_ok d"
  unfolding builder_ok_def list_all_iff by blast

lemma attach_draft_keeps:
  assumes "list_all cover_ok ts" and "cover_ok d" and "dr_order d = []"
  shows "list_all cover_ok (attach_draft t d e ts) \<and> set (map shape (attach_draft t d e ts)) \<subseteq> insert (shape d) (set (map shape ts))
    \<and> (\<Union>k\<in>set (attach_draft t d e ts). set (dr_order k)) = insert (we_Fingerprint e) (\<Union>k\<in>set ts. set (dr_order k))"
  using assms(1)
proof (induction ts)
  case Nil
  then show ?case using cover_keeps [OF assms(2), of t e] assms(3) by simp
next
  case (Cons k ks)
  show ?case
  proof (cases "same_draft k d")
    case True
    let ?k = "k\<lparr>dr_statsMissing := (dr_statsMissing k \<or> dr_statsMissing d), dr_wideIndex := (dr_wideIndex k \<or> dr_wideIndex d)\<rparr>"
    have "cover_ok ?k" "shape ?k = shape k" "dr_order ?k = dr_order k" using Cons.prems by (simp_all add: shape_def)
    then show ?thesis using True Cons.prems cover_keeps [of ?k t e] by auto
  next
    case False
    then show ?thesis using Cons by auto
  qed
qed

lemma ex_split: "(\<exists>k. P k) \<longleftrightarrow> P j \<or> (\<exists>k. k \<noteq> j \<and> P k)"
  by metis

lemma attach_keeps:
  assumes "builder_ok cat cfg b" and "draft_ok cat cfg (dr_key d) d" and "cover_ok d" and "dr_order d = []"
  shows "builder_ok cat cfg (attach d e b)" and "answered (attach d e b) fp \<longleftrightarrow> fp = we_Fingerprint e \<or> answered b fp"
proof -
  have at: "drafts_at (attach d e b) key =
      (if key = dr_key d then attach_draft (bl_totalTime b) d e (drafts_at b key) else drafts_at b key)" for key
    by (simp add: drafts_at_def attach_def list_at_update)
  have "list_all cover_ok (drafts_at b key)" for key
    unfolding list_all_iff using builder_okD [OF assms(1)] by blast
  note k = attach_draft_keeps [OF this assms(3,4), where t = "bl_totalTime b" and e = e]
  have new: "draft_ok cat cfg (dr_key d) x" if "x \<in> set (attach_draft (bl_totalTime b) d e (drafts_at b (dr_key d)))" for x
  proof -
    have "shape x \<in> insert (shape d) (shape ` set (drafts_at b (dr_key d)))" using k [of "dr_key d"] that by auto
    then obtain y where "shape x = shape y" "draft_ok cat cfg (dr_key d) y"
      using assms(2) builder_okD [OF assms(1)] by blast
    then show ?thesis using draft_ok_shape by blast
  qed
  have "list_all (\<lambda>x. draft_ok cat cfg key x \<and> cover_ok x) (drafts_at (attach d e b) key)" for key
    unfolding at using new k [of key] builder_okD [OF assms(1)] by (auto simp: list_all_iff)
  then show "builder_ok cat cfg (attach d e b)"
    using assms(1) by (simp add: builder_ok_def attach_def distinct_update)
  have "(\<exists>x\<in>set (attach_draft (bl_totalTime b) d e (drafts_at b (dr_key d))). fp \<in> set (dr_order x)) \<longleftrightarrow>
      fp = we_Fingerprint e \<or> (\<exists>x\<in>set (drafts_at b (dr_key d)). fp \<in> set (dr_order x))"
    using k [of "dr_key d"] by (auto simp: set_eq_iff)
  moreover have "(\<exists>key. key \<noteq> dr_key d \<and> (\<exists>x\<in>set (drafts_at (attach d e b) key). fp \<in> set (dr_order x))) \<longleftrightarrow>
      (\<exists>key. key \<noteq> dr_key d \<and> (\<exists>x\<in>set (drafts_at b key). fp \<in> set (dr_order x)))"
    unfolding at by (simp cong: conj_cong)
  ultimately show "answered (attach d e b) fp \<longleftrightarrow> fp = we_Fingerprint e \<or> answered b fp"
    unfolding answered_def
    using ex_split [of "\<lambda>key. \<exists>x\<in>set (drafts_at (attach d e b) key). fp \<in> set (dr_order x)" "dr_key d"]
      ex_split [of "\<lambda>key. \<exists>x\<in>set (drafts_at b key). fp \<in> set (dr_order x)" "dr_key d"] at [of "dr_key d"] by simp
qed

section \<open>Statements\<close>

definition lefts :: "('a + 'b) list \<Rightarrow> 'a list" where
  "lefts xs = List.map_filter (\<lambda>x. case x of Inl a \<Rightarrow> Some a | Inr _ \<Rightarrow> None) xs"

definition rights :: "('a + 'b) list \<Rightarrow> 'b list" where
  "rights xs = List.map_filter (\<lambda>x. case x of Inr a \<Rightarrow> Some a | Inl _ \<Rightarrow> None) xs"

lemma lefts_rights_simps [simp]:
  "lefts [] = []" "lefts (Inl a # xs) = a # lefts xs" "lefts (Inr b # xs) = lefts xs"
  "rights [] = []" "rights (Inl a # xs) = rights xs" "rights (Inr b # xs) = b # rights xs"
  by (simp_all add: lefts_def rights_def List.map_filter_def)

lemma add_drafts:
  "fold (add_draft cat cfg e byTable) keys (b, produced, reason) =
     (let rs = map (\<lambda>key. buildDraft cat cfg key (list_at byTable key)) keys
      in (fold (\<lambda>d. attach d e) (rights rs) b, produced \<or> rights rs \<noteq> [], ia_firstNonEmpty (reason # lefts rs)))"
proof (induction keys arbitrary: b produced reason)
  case (Cons key keys)
  show ?case
  proof (cases "buildDraft cat cfg key (list_at byTable key)")
    case (Inl why)
    then show ?thesis using Cons by (simp add: add_draft_def Let_def) 
  next
    case (Inr d)
    then show ?thesis using Cons by (simp add: add_draft_def Let_def)
  qed
qed simp

text \<open>What one statement gives: the drafts of its tables, and the reason if there is none.\<close>

definition statement_drafts :: "Catalog \<Rightarrow> AdvisorConfig \<Rightarrow> WorkloadEntry \<Rightarrow> draft list" where
  "statement_drafts cat cfg e =
     (let tables = fst (resolveTables cat (st_Tables (we_Stmt e)));
          byTable = fst (bindUsages cat (st_Usages (we_Stmt e)) tables)
      in if \<not> yieldsCandidates (st_Kind (we_Stmt e)) \<or> tables = [] then []
         else rights (map (\<lambda>key. buildDraft cat cfg key (list_at byTable key)) (sortedKeys byTable)))"

definition statement_result :: "Catalog \<Rightarrow> AdvisorConfig \<Rightarrow> WorkloadEntry \<Rightarrow> string" where
  "statement_result cat cfg e = snd (addStatement cat cfg e \<lparr>bl_totalTime = Fin 0, bl_drafts = [], bl_skipped = [], bl_writeCalls = []\<rparr>)"

lemma addStatement_eq:
  "addStatement cat cfg e b = (fold (\<lambda>d. attach d e) (statement_drafts cat cfg e) b, statement_result cat cfg e)"
  by (auto simp: addStatement_def statement_drafts_def statement_result_def add_drafts Let_def split: prod.splits)

lemma firstNonEmpty_empty: "ia_firstNonEmpty xs = [] \<longleftrightarrow> (\<forall>x\<in>set xs. x = [])"
  by (induction xs) auto

text \<open>A statement an index could serve has a draft exactly when it has no reason against it.\<close>

lemma statement_result_empty:
  assumes "[] \<notin> set (st_Unsupported (we_Stmt e))" and "yieldsCandidates (st_Kind (we_Stmt e))"
  shows "statement_result cat cfg e = [] \<longleftrightarrow> statement_drafts cat cfg e \<noteq> []"
proof -
  have "statementReason (we_Stmt e) \<noteq> []" using assms(1) by (auto simp: statementReason_def split: list.splits)
  then show ?thesis
    using assms(2)
    by (auto simp: statement_result_def addStatement_def statement_drafts_def add_drafts Let_def firstNonEmpty_empty split: prod.splits)
qed

lemma rights_set: "d \<in> set (rights rs) \<longleftrightarrow> Inr d \<in> set rs"
  by (induction rs) (auto simp: rights_def List.map_filter_def split: sum.splits)

lemma statement_drafts_ok:
  assumes "d \<in> set (statement_drafts cat cfg e)" and "0 < MaxIndexColumns cfg"
  shows "draft_ok cat cfg (dr_key d) d \<and> cover_ok d \<and> dr_order d = []"
proof -
  obtain key usages where "buildDraft cat cfg key usages = Inr d"
    using assms(1) by (auto simp: statement_drafts_def Let_def rights_set split: if_splits dest: sym)
  from buildDraft_ok [OF this assms(2)] show ?thesis by (auto simp: draft_ok_def cover_ok_def)
qed

lemma attach_all:
  assumes "builder_ok cat cfg b" and "\<And>d. d \<in> set ds \<Longrightarrow> draft_ok cat cfg (dr_key d) d \<and> cover_ok d \<and> dr_order d = []"
  shows "builder_ok cat cfg (fold (\<lambda>d. attach d e) ds b)
    \<and> (answered (fold (\<lambda>d. attach d e) ds b) fp \<longleftrightarrow> answered b fp \<or> (ds \<noteq> [] \<and> fp = we_Fingerprint e))"
  using assms
proof (induction ds arbitrary: b)
  case (Cons d ds)
  have d: "draft_ok cat cfg (dr_key d) d" "cover_ok d" "dr_order d = []" using Cons.prems(2) [of d] by simp_all
  have "builder_ok cat cfg (fold (\<lambda>d. attach d e) ds (attach d e b))
      \<and> (answered (fold (\<lambda>d. attach d e) ds (attach d e b)) fp \<longleftrightarrow> answered (attach d e b) fp \<or> (ds \<noteq> [] \<and> fp = we_Fingerprint e))"
    using attach_keeps(1) [OF Cons.prems(1) d] Cons.prems(2) by (intro Cons.IH) auto
  then show ?case using attach_keeps(2) [OF Cons.prems(1) d, of e fp] by auto
qed simp

definition tally_at :: "(string \<times> i64) list \<Rightarrow> string \<Rightarrow> i64" where
  "tally_at m code = (case map_of m code of None \<Rightarrow> 0 | Some n \<Rightarrow> n)"

lemma tally_at_add: "tally_at (tally_add c n m) code = (if code = c then wrap64 (tally_at m c + n) else tally_at m code)"
  by (simp add: tally_at_def tally_add_def update_conv)

lemma attach_skipped [simp]: "bl_skipped (fold (\<lambda>d. attach d e) ds b) = bl_skipped b"
  by (induction ds arbitrary: b) (simp_all add: attach_def)

lemma builder_ok_skipped [simp]:
  "builder_ok cat cfg (b\<lparr>bl_skipped := x\<rparr>) = builder_ok cat cfg b" "answered (b\<lparr>bl_skipped := x\<rparr>) fp = answered b fp"
  by (simp_all add: builder_ok_def answered_def drafts_at_def)

lemma add_groups:
  assumes "0 < MaxIndexColumns cfg" and "builder_ok cat cfg b" and "\<And>code. in_i64 (tally_at (bl_skipped b) code)"
  shows "builder_ok cat cfg (fold (add_group cat cfg) gs b)
    \<and> (\<forall>fp. answered (fold (add_group cat cfg) gs b) fp \<longleftrightarrow>
          answered b fp \<or> list_ex (\<lambda>g. statement_drafts cat cfg g \<noteq> [] \<and> we_Fingerprint g = fp) gs)
    \<and> (\<forall>code. code \<noteq> [] \<longrightarrow> tally_at (bl_skipped (fold (add_group cat cfg) gs b)) code =
          wrap64 (tally_at (bl_skipped b) code + int (length (filter (\<lambda>g. statement_result cat cfg g = code) gs))))"
  using assms(2,3)
proof (induction gs arbitrary: b)
  case Nil
  then show ?case by (simp add: wrap64_id)
next
  case (Cons g gs)
  define c where "c = fold (\<lambda>d. attach d g) (statement_drafts cat cfg g) b"
  define r where "r = statement_result cat cfg g"
  define b' where "b' = (if r \<noteq> [] then c\<lparr>bl_skipped := tally_add r 1 (bl_skipped b)\<rparr> else c)"
  have e: "add_group cat cfg g b = b'" by (simp add: add_group_def addStatement_eq b'_def c_def r_def)
  have c: "builder_ok cat cfg c" "answered c fp \<longleftrightarrow> answered b fp \<or> (statement_drafts cat cfg g \<noteq> [] \<and> fp = we_Fingerprint g)" for fp
  proof -
    have "builder_ok cat cfg c \<and> (answered c fp \<longleftrightarrow> answered b fp \<or> (statement_drafts cat cfg g \<noteq> [] \<and> fp = we_Fingerprint g))" for fp
      unfolding c_def by (rule attach_all [OF Cons.prems(1)]) (rule statement_drafts_ok [OF _ assms(1)])
    then show "builder_ok cat cfg c" "answered c fp \<longleftrightarrow> answered b fp \<or> (statement_drafts cat cfg g \<noteq> [] \<and> fp = we_Fingerprint g)" for fp
      by blast+
  qed
  have sk: "bl_skipped c = bl_skipped b" by (simp add: c_def)
  have t: "tally_at (bl_skipped b') code = (if code = r \<and> r \<noteq> [] then wrap64 (tally_at (bl_skipped b) code + 1) else tally_at (bl_skipped b) code)" for code
    by (simp add: b'_def tally_at_add sk)
  have "builder_ok cat cfg b'" using c(1) by (simp add: b'_def)
  moreover have "in_i64 (tally_at (bl_skipped b') code)" for code using Cons.prems(2) by (simp add: t)
  ultimately have IH: "builder_ok cat cfg (fold (add_group cat cfg) gs b')"
    "answered (fold (add_group cat cfg) gs b') fp \<longleftrightarrow>
          answered b' fp \<or> list_ex (\<lambda>g. statement_drafts cat cfg g \<noteq> [] \<and> we_Fingerprint g = fp) gs"
    "code \<noteq> [] \<Longrightarrow> tally_at (bl_skipped (fold (add_group cat cfg) gs b')) code =
          wrap64 (tally_at (bl_skipped b') code + int (length (filter (\<lambda>g. statement_result cat cfg g = code) gs)))" for fp code
    using Cons.IH [of b'] by blast+
  have "answered b' fp = answered c fp" for fp by (simp add: b'_def)
  then show ?case using IH c(2) by (auto simp: e t r_def [symmetric] ac_simps)
qed

section \<open>From drafts to candidates\<close>

definition stands_for :: "RelKey \<times> draft \<Rightarrow> Candidate \<Rightarrow> bool" where
  "stands_for = (\<lambda>(key, d) c.
     (cand_Schema c, cand_Table c) = key \<and> cand_Columns c = dr_columns d \<and> cand_Predicate c = predicateSQL (dr_predicate d)
     \<and> cq_Fingerprint ` set (cand_Covered c) = set (dr_order d))"

lemma ordered_cover_fingerprints:
  assumes "cover_ok d"
  shows "cq_Fingerprint ` set (ordered_cover d) = set (dr_order d)"
proof -
  have "\<forall>fp\<in>set fps. \<exists>q. map_of (dr_covered d) fp = Some q \<and> cq_Fingerprint q = fp \<Longrightarrow>
      map cq_Fingerprint (List.map_filter (map_of (dr_covered d)) fps) = fps" for fps
    by (induction fps) (auto simp: List.map_filter_def)
  then have "map cq_Fingerprint (ordered_cover d) = dr_order d"
    unfolding ordered_cover_def using cover_okD(2) [OF assms] by blast
  then show ?thesis by (metis list.set_map)
qed

lemma draft_candidate_stands:
  assumes "draft_candidate cat b key d s = Some (c, s')" and "cover_ok d"
  shows "stands_for (key, d) c"
  using assms ordered_cover_fingerprints [OF assms(2)]
  by (auto simp: draft_candidate_def stands_for_def Let_def split: option.splits prod.splits)

lemma each_draft_stands:
  assumes "each_draft (draft_candidate cat b) kds s = Some cs" and "list_all (\<lambda>(key, d). cover_ok d) kds"
  shows "list_all2 stands_for kds cs"
  using assms
proof (induction kds arbitrary: s cs)
  case (Cons kd kds)
  obtain key d where kd: "kd = (key, d)" by fastforce
  obtain c s' cs' where c: "draft_candidate cat b key d s = Some (c, s')"
    "each_draft (draft_candidate cat b) kds s' = Some cs'" "cs = c # cs'"
    using Cons.prems(1) unfolding kd by (auto split: option.splits)
  then show ?case using Cons draft_candidate_stands [OF c(1)] by (simp add: kd)
qed simp

lemma sorted_wrt_insort:
  assumes "\<And>a b. R a b = R b a"
  shows "sorted_wrt R (insort_key f x xs) \<longleftrightarrow> sorted_wrt R xs \<and> (\<forall>y\<in>set xs. R x y)"
  by (induction xs) (auto simp: set_insort_key assms)

lemma sorted_wrt_sort:
  assumes "\<And>a b. R a b = R b a"
  shows "sorted_wrt R (sort_key f xs) = sorted_wrt R xs"
  by (induction xs) (auto simp: sorted_wrt_insort [where R = R, OF assms])

definition apart_drafts :: "RelKey \<times> draft \<Rightarrow> RelKey \<times> draft \<Rightarrow> bool" where
  "apart_drafts = (\<lambda>(k, d) (k', d'). k = k' \<longrightarrow> \<not> fits d d' \<and> \<not> fits d' d)"

lemma kept_apart:
  assumes "\<And>key. separate (h key)" and "distinct keys"
  shows "sorted_wrt apart_drafts (concat (map (\<lambda>key. map (Pair key) (h key)) keys))"
  using assms(2)
proof (induction keys)
  case (Cons key keys)
  have "sorted_wrt apart_drafts (map (Pair key) (h key))"
    using assms(1) [of key] by (simp add: sorted_wrt_map separate_def apart_drafts_def)
  then show ?case using Cons by (auto simp: sorted_wrt_append apart_drafts_def)
qed simp

lemma merged_ok:
  assumes "builder_ok cat cfg b"
  defines "ms \<equiv> \<lambda>key. mergePrefixes (drafts_at b key)"
  shows "d \<in> set (ms key) \<Longrightarrow> draft_ok cat cfg key d \<and> cover_ok d" and "separate (ms key)"
    and "(\<exists>d\<in>set (ms key). fp \<in> set (dr_order d)) \<longleftrightarrow> (\<exists>d\<in>set (drafts_at b key). fp \<in> set (dr_order d))"
proof -
  have "list_all cover_ok (drafts_at b key)" unfolding list_all_iff using builder_okD [OF assms(1)] by blast
  from mergePrefixes_keeps [OF this]
  have m: "list_all cover_ok (ms key)" "set (map shape (ms key)) \<subseteq> set (map shape (drafts_at b key))" "separate (ms key)"
    "(\<Union>k\<in>set (ms key). set (dr_order k)) = (\<Union>d\<in>set (drafts_at b key). set (dr_order d))"
    unfolding ms_def by blast+
  show "draft_ok cat cfg key d \<and> cover_ok d" if "d \<in> set (ms key)"
  proof -
    have "shape d \<in> shape ` set (drafts_at b key)" using m(2) that unfolding set_map by blast
    then obtain e where "e \<in> set (drafts_at b key)" "shape d = shape e" by blast
    moreover have "cover_ok d" using m(1) that by (simp add: list_all_iff)
    ultimately show ?thesis using draft_ok_shape builder_okD [OF assms(1)] by blast
  qed
  show "separate (ms key)" by (rule m(3))
  show "(\<exists>d\<in>set (ms key). fp \<in> set (dr_order d)) \<longleftrightarrow> (\<exists>d\<in>set (drafts_at b key). fp \<in> set (dr_order d))"
    using m(4) by blast
qed

lemma kept_drafts_set:
  "(key, d) \<in> set (kept_drafts b) \<longleftrightarrow> key \<in> set (map fst (bl_drafts b)) \<and> d \<in> set (mergePrefixes (drafts_at b key))"
  unfolding kept_drafts_def sortedKeys_def drafts_at_def by auto

lemma kept_drafts_ok:
  assumes "builder_ok cat cfg b"
  shows "(key, d) \<in> set (kept_drafts b) \<Longrightarrow> draft_ok cat cfg key d \<and> cover_ok d"
    and "sorted_wrt apart_drafts (kept_drafts b)"
    and "answered b fp \<longleftrightarrow> (\<exists>key d. (key, d) \<in> set (kept_drafts b) \<and> fp \<in> set (dr_order d))"
proof -
  note m = merged_ok [OF assms]
  show "draft_ok cat cfg key d \<and> cover_ok d" if "(key, d) \<in> set (kept_drafts b)"
    using m(1) that unfolding kept_drafts_set by blast
  have "distinct (sortedKeys (bl_drafts b))" using assms by (simp add: sortedKeys_def builder_ok_def)
  then show "sorted_wrt apart_drafts (kept_drafts b)"
    unfolding kept_drafts_def using m(2) [unfolded drafts_at_def] by (intro kept_apart)
  have keys: "key \<in> set (map fst (bl_drafts b))" if "drafts_at b key \<noteq> []" for key
    using that map_of_eq_None_iff [of "bl_drafts b" key] by (cases "map_of (bl_drafts b) key") (auto simp: drafts_at_def list_at_def)
  have "(\<exists>d\<in>set (drafts_at b key). fp \<in> set (dr_order d)) \<longleftrightarrow> (\<exists>d. (key, d) \<in> set (kept_drafts b) \<and> fp \<in> set (dr_order d))" for key
  proof (cases "drafts_at b key = []")
    case True
    then have "mergePrefixes (drafts_at b key) = []" by (simp add: mergePrefixes_def)
    then show ?thesis unfolding kept_drafts_set using True by simp
  next
    case False
    then show ?thesis unfolding kept_drafts_set m(3) [symmetric] using keys [OF False] by blast
  qed
  then show "answered b fp \<longleftrightarrow> (\<exists>key d. (key, d) \<in> set (kept_drafts b) \<and> fp \<in> set (dr_order d))"
    unfolding answered_def by (rule ex_cong1)
qed

lemma list_all2_right: "list_all2 S xs ys \<Longrightarrow> d \<in> set ys \<Longrightarrow> \<exists>b\<in>set xs. S b d"
  by (induction rule: list_all2_induct) auto

definition cand_key :: "Candidate \<Rightarrow> RelKey" where
  "cand_key c = (cand_Schema c, cand_Table c)"

definition candidate_ok :: "Catalog \<Rightarrow> AdvisorConfig \<Rightarrow> Candidate \<Rightarrow> bool" where
  "candidate_ok cat cfg c \<longleftrightarrow>
     (case map_of (cat_Relations cat) (cand_key c) of None \<Rightarrow> False | Some rel \<Rightarrow> MinTableRows cfg \<le> rel_Rows rel)
     \<and> cand_Columns c \<noteq> [] \<and> distinct (cand_Columns c) \<and> int (length (cand_Columns c)) \<le> MaxIndexColumns cfg
     \<and> list_all (btree_column cat (cand_key c)) (cand_Columns c)
     \<and> list_all (\<lambda>idx. usable_index idx \<and> (ix_Partial idx \<longrightarrow> ix_NullPredicate idx \<noteq> [] \<and> predicateSQL (ix_NullPredicate idx) = cand_Predicate c)
           \<longrightarrow> \<not> prefix (cand_Columns c) (ix_Columns idx))
         (list_at (cat_Indexes cat) (cand_key c))"

definition apart :: "Candidate \<Rightarrow> Candidate \<Rightarrow> bool" where
  "apart a b \<longleftrightarrow>
     (cand_key a = cand_key b \<and> cand_Predicate a = cand_Predicate b \<longrightarrow>
        \<not> prefix (cand_Columns a) (cand_Columns b) \<and> \<not> prefix (cand_Columns b) (cand_Columns a))"

lemma stands_ok: "stands_for (key, d) c \<Longrightarrow> draft_ok cat cfg key d \<Longrightarrow> candidate_ok cat cfg c"
  by (auto simp: stands_for_def candidate_ok_def draft_ok_def cand_key_def list_all_iff holdsSameRows_def predicateSQL_inj)

lemma stands_apart: "stands_for kd c \<Longrightarrow> stands_for kd' c' \<Longrightarrow> apart_drafts kd kd' \<Longrightarrow> apart c c'"
  by (cases kd; cases kd') (auto simp: stands_for_def apart_def apart_drafts_def fits_def cand_key_def predicateSQL_inj)

lemma sorted_wrt_list_all2:
  assumes "list_all2 S xs ys" and "sorted_wrt P xs" and "\<And>a b c d. S a c \<Longrightarrow> S b d \<Longrightarrow> P a b \<Longrightarrow> Q c d"
  shows "sorted_wrt Q ys"
  using assms(1,2)
proof (induction rule: list_all2_induct)
  case (Cons x xs y ys)
  have "Q y d" if "d \<in> set ys" for d
  proof -
    obtain b where "b \<in> set xs" "S b d" using list_all2_right [OF Cons(2) \<open>d \<in> set ys\<close>] by blast
    then show ?thesis using Cons assms(3) by auto
  qed
  then show ?case using Cons by simp
qed simp

lemma all_candidates_ok:
  assumes "builder_ok cat cfg b" and "all_candidates cat b = Some cs"
  shows "list_all (candidate_ok cat cfg) cs" and "sorted_wrt apart cs"
    and "answered b fp \<longleftrightarrow> list_ex (\<lambda>c. fp \<in> cq_Fingerprint ` set (cand_Covered c)) cs"
proof -
  obtain ds where ds: "each_draft (draft_candidate cat b) (kept_drafts b) (newDDLScope cat) = Some ds" "cs = sort_key candidate_order ds"
    using assms(2) by (auto simp: all_candidates_def)
  note k = kept_drafts_ok [OF assms(1)]
  have "list_all (\<lambda>(key, d). cover_ok d) (kept_drafts b)" unfolding list_all_iff using k(1) by blast
  with ds(1) have st: "list_all2 stands_for (kept_drafts b) ds" by (rule each_draft_stands)
  have "candidate_ok cat cfg c" if c: "c \<in> set ds" for c
  proof -
    obtain key d where "(key, d) \<in> set (kept_drafts b)" "stands_for (key, d) c"
      using list_all2_right [OF st c] by (metis surj_pair)
    then show ?thesis using k(1) stands_ok by blast
  qed
  then show "list_all (candidate_ok cat cfg) cs" by (simp add: ds(2) list_all_iff)
  have "sorted_wrt apart ds" using sorted_wrt_list_all2 [OF st k(2) stands_apart] .
  moreover have "apart a b = apart b a" for a b by (auto simp: apart_def)
  ultimately show "sorted_wrt apart cs" unfolding ds(2) by (simp add: sorted_wrt_sort)
  have "(\<exists>key d. (key, d) \<in> set kds \<and> fp \<in> set (dr_order d)) \<longleftrightarrow> (\<exists>c\<in>set cs. fp \<in> cq_Fingerprint ` set (cand_Covered c))"
    if "list_all2 stands_for kds cs" for kds cs
    using that
  proof (induction rule: list_all2_induct)
    case (Cons kd kds c cs)
    obtain key d where kd: "kd = (key, d)" by fastforce
    have "fp \<in> set (dr_order d) \<longleftrightarrow> fp \<in> cq_Fingerprint ` set (cand_Covered c)" using Cons(1) by (simp add: kd stands_for_def)
    then show ?case using Cons(3) unfolding kd by (metis Pair_inject list.set_intros(1,2) set_ConsD)
  qed simp
  from this [OF st] show "answered b fp \<longleftrightarrow> list_ex (\<lambda>c. fp \<in> cq_Fingerprint ` set (cand_Covered c)) cs"
    using k(3) by (simp add: ds(2) list_ex_iff)
qed

section \<open>The report\<close>

lemma NotParsed_in_range: "in_i64 (tally_at (fold (\<lambda>(code, n). tally_add code n) xs []) code)"
proof -
  have "\<forall>code. in_i64 (tally_at (fold (\<lambda>(code, n). tally_add code n) xs m) code)" if "\<forall>code. in_i64 (tally_at m code)" for m
    using that by (induction xs arbitrary: m) (auto simp: tally_at_add)
  then show ?thesis by (simp add: tally_at_def)
qed

lemma build_state_ok:
  assumes "0 < MaxIndexColumns cfg"
  shows "builder_ok cat cfg (build_state w cat cfg)"
    and "answered (build_state w cat cfg) fp \<longleftrightarrow>
      list_ex (\<lambda>g. statement_drafts cat cfg g \<noteq> [] \<and> we_Fingerprint g = fp) (collapse_workload (wl_Entries w))"
    and "code \<noteq> [] \<Longrightarrow> tally_at (bl_skipped (build_state w cat cfg)) code =
      wrap64 (tally_at (fold (\<lambda>(code, n). tally_add code n) (wl_NotParsed w) []) code
        + int (length (filter (\<lambda>g. statement_result cat cfg g = code) (collapse_workload (wl_Entries w)))))"
proof -
  let ?gs = "collapse_workload (wl_Entries w)"
  let ?b = "\<lparr>bl_totalTime = workloadTime cat ?gs, bl_drafts = [],
     bl_skipped = fold (\<lambda>(code, n). tally_add code n) (wl_NotParsed w) [], bl_writeCalls = collectWrites cat ?gs\<rparr>"
  have "builder_ok cat cfg ?b" by (simp add: builder_ok_def drafts_at_def list_at_def)
  moreover have "in_i64 (tally_at (bl_skipped ?b) c)" for c using NotParsed_in_range by simp
  ultimately have *: "builder_ok cat cfg (fold (add_group cat cfg) ?gs ?b)
    \<and> (\<forall>fp. answered (fold (add_group cat cfg) ?gs ?b) fp \<longleftrightarrow>
          answered ?b fp \<or> list_ex (\<lambda>g. statement_drafts cat cfg g \<noteq> [] \<and> we_Fingerprint g = fp) ?gs)
    \<and> (\<forall>code. code \<noteq> [] \<longrightarrow> tally_at (bl_skipped (fold (add_group cat cfg) ?gs ?b)) code =
          wrap64 (tally_at (bl_skipped ?b) code + int (length (filter (\<lambda>g. statement_result cat cfg g = code) ?gs))))"
    using add_groups [OF assms, of cat ?b ?gs] by blast
  have e: "build_state w cat cfg = fold (add_group cat cfg) ?gs ?b" by (simp add: build_state_def Let_def)
  have "\<not> answered ?b fp" by (simp add: answered_def drafts_at_def list_at_def)
  then show "builder_ok cat cfg (build_state w cat cfg)"
    and "answered (build_state w cat cfg) fp \<longleftrightarrow>
      list_ex (\<lambda>g. statement_drafts cat cfg g \<noteq> [] \<and> we_Fingerprint g = fp) ?gs"
    and "code \<noteq> [] \<Longrightarrow> tally_at (bl_skipped (build_state w cat cfg)) code =
      wrap64 (tally_at (fold (\<lambda>(code, n). tally_add code n) (wl_NotParsed w) []) code
        + int (length (filter (\<lambda>g. statement_result cat cfg g = code) ?gs)))"
    unfolding e using * by auto
qed

text \<open>
  C23: the advisor proposes only indexes that are new and that can be built. Every candidate of a
  report is on a known table of at least the configured size; its columns are not empty, distinct,
  at most as many as configured and never more than four, and all of types a btree can index; no
  valid btree index of the table over the same rows has them as its first columns; and no two
  candidates of one table and predicate are such that one index would serve both.
\<close>

theorem candidates_are_worth_building:
  assumes "Build w cat cfg elapsed = Some rep"
  shows "list_all (\<lambda>c. candidate_ok cat (adv_WithDefaults cfg) c \<and> length (cand_Columns c) \<le> 4) (ar_Candidates rep)
    \<and> sorted_wrt apart (ar_Candidates rep)
    \<and> sorted (map candidate_order (ar_Candidates rep))
    \<and> int (length (ar_Candidates rep)) \<le> MaxCandidates (adv_WithDefaults cfg)"
proof -
  let ?cfg = "adv_WithDefaults cfg"
  obtain cs where cs: "all_candidates cat (build_state w cat ?cfg) = Some cs"
    "ar_Candidates rep = (if MaxCandidates ?cfg < int (length cs) then take (nat (MaxCandidates ?cfg)) cs else cs)"
    using assms by (auto simp: Build_def Let_def adv_candidates_def)
  have mx: "0 < MaxIndexColumns ?cfg" "MaxIndexColumns ?cfg \<le> 4" "0 < MaxCandidates ?cfg" using WithDefaults_bounds [of cfg] by blast+
  note ok = all_candidates_ok [OF build_state_ok(1) [OF mx(1)] cs(1)]
  have l: "length (cand_Columns c) \<le> 4" if "candidate_ok cat ?cfg c" for c
  proof -
    have "int (length (cand_Columns c)) \<le> MaxIndexColumns ?cfg" using that by (simp add: candidate_ok_def)
    then show ?thesis using mx(2) by linarith
  qed
  have all: "list_all (\<lambda>c. candidate_ok cat ?cfg c \<and> length (cand_Columns c) \<le> 4) cs"
    using ok(1) l by (simp add: list_all_iff)
  have srt: "sorted (map candidate_order cs)" using cs(1) by (auto simp: all_candidates_def)
  have "prefix (ar_Candidates rep) cs" unfolding cs(2) by (simp add: take_is_prefix)
  then obtain t where t: "cs = ar_Candidates rep @ t" by (rule prefixE)
  have "int (length (ar_Candidates rep)) \<le> MaxCandidates ?cfg" using cs(2) mx(3) by simp
  then show ?thesis using all srt ok(2) unfolding t by (simp only: list_all_append sorted_wrt_append map_append sorted_append simp_thms)
qed

text \<open>
  C24: every statement of the workload is answered. Each group of statements an index could serve
  either has no reason against it and is then covered by a candidate of the full list, or has
  exactly one reason, and the tally of a reason is what the collector counted plus the number of
  groups that have it.
\<close>

theorem every_statement_is_answered:
  assumes "all_candidates cat (build_state w cat (adv_WithDefaults cfg)) = Some cs"
    and "g \<in> set (collapse_workload (wl_Entries w))" and "yieldsCandidates (st_Kind (we_Stmt g))"
    and "[] \<notin> set (st_Unsupported (we_Stmt g))"
  shows "(let reason = statement_result cat (adv_WithDefaults cfg) g
          in if reason = [] then list_ex (\<lambda>c. we_Fingerprint g \<in> cq_Fingerprint ` set (cand_Covered c)) cs
             else tally_at (bl_skipped (build_state w cat (adv_WithDefaults cfg))) reason =
               wrap64 (tally_at (fold (\<lambda>(code, n). tally_add code n) (wl_NotParsed w) []) reason
                 + int (length (filter (\<lambda>h. statement_result cat (adv_WithDefaults cfg) h = reason) (collapse_workload (wl_Entries w))))))"
proof -
  let ?cfg = "adv_WithDefaults cfg"
  have mx: "0 < MaxIndexColumns ?cfg" using WithDefaults_bounds [of cfg] by blast
  note st = build_state_ok [OF mx, where cat = cat and w = w]
  show ?thesis
  proof (cases "statement_result cat ?cfg g = []")
    case True
    then have "statement_drafts cat ?cfg g \<noteq> []" using statement_result_empty [OF assms(4,3)] by blast
    then have "answered (build_state w cat ?cfg) (we_Fingerprint g)" using assms(2) by (auto simp: st(2) list_ex_iff)
    then show ?thesis using True all_candidates_ok(3) [OF st(1) assms(1)] by simp
  next
    case False
    then show ?thesis using st(3) by simp
  qed
qed

section \<open>A report is always produced\<close>

definition same_tree :: "ddlScope \<Rightarrow> ddlScope \<Rightarrow> bool" where
  "same_tree s s' \<longleftrightarrow> sc_children s' = sc_children s \<and> sc_kinds s' = sc_kinds s \<and> sc_fuel s' = sc_fuel s"

lemma each_draft_total:
  assumes "ranked rank s" and "\<And>k. rank k < sc_fuel s" and "same_tree s s'"
  shows "each_draft (draft_candidate cat b) kds s' \<noteq> None"
  using assms(3)
proof (induction kds arbitrary: s')
  case (Cons kd kds)
  obtain key d where kd: "kd = (key, d)" by fastforce
  have r: "ranked rank s'" "rank k < sc_fuel s'" for k
    using assms(1,2) Cons.prems by (simp_all add: ranked_def same_tree_def)
  have "leaves (sc_fuel s') s' key \<noteq> None" by (rule leaves_total [OF r])
  then obtain p where p: "leaves (sc_fuel s') s' key = Some p" by blast
  obtain ddl t where t: "ddlFor key (dr_columns d) (dr_predicate d) s' = Some (ddl, t)" "same_tree s' t"
    using ddlFor_total [OF r] unfolding same_tree_def by blast
  obtain c where c: "draft_candidate cat b key d s' = Some (c, t)" 
    by (cases "(case map_of (cat_Relations cat) key of None \<Rightarrow> [] | Some rel \<Rightarrow> rel_Kind rel) = partitionedKind")
      (simp_all add: draft_candidate_def Let_def p t(1))
  have "same_tree s t" using Cons.prems t(2) by (simp add: same_tree_def)
  then have "each_draft (draft_candidate cat b) kds t \<noteq> None" by (rule Cons.IH)
  then show ?case by (auto simp: kd c)
qed simp

lemma all_candidates_total:
  assumes "ranked rank (newDDLScope cat)" and "\<And>k. rank k < length (cat_Relations cat) + 1"
  obtains cs where "all_candidates cat b = Some cs"
proof -
  have f: "rank k < sc_fuel (newDDLScope cat)" for k using assms(2) by (simp add: newDDLScope_def Let_def)
  have "same_tree (newDDLScope cat) (newDDLScope cat)" by (simp add: same_tree_def)
  from each_draft_total [OF assms(1) f this] obtain ds
    where "each_draft (draft_candidate cat b) (kept_drafts b) (newDDLScope cat) = Some ds" by blast
  then show thesis using that by (simp add: all_candidates_def)
qed

text \<open>
  C25: the advisor always returns. The loops it has without a bound, the search for a free index name
  and the descent into partitions, end for every catalogue whose partitions form a tree, so that
  every workload, catalogue and configuration has a report.
\<close>

theorem report_is_always_produced:
  assumes "ranked rank (newDDLScope cat)" and "\<And>k. rank k < length (cat_Relations cat) + 1"
  shows "\<exists>rep. Build w cat cfg elapsed = Some rep"
proof -
  obtain cs where "all_candidates cat (build_state w cat (adv_WithDefaults cfg)) = Some cs"
    by (rule all_candidates_total [OF assms])
  then show ?thesis by (simp add: Build_def Let_def adv_candidates_def)
qed

section \<open>A workload of two statements\<close>

text \<open>
  On one partitioned table, the first statement filters a column without an index, the second a
  column that has one.
\<close>

definition demo_column :: "string \<Rightarrow> AdvColumn" where
  "demo_column name = \<lparr>col_Name = name, col_DataType = ''int8'', BtreeIndexable = True, StatsKnown = True, NDistinct = Fin 50, NullFrac = Fin 0\<rparr>"

definition demo_index :: AdvIndex where
  "demo_index = \<lparr>ix_Name = ''t_b'', ix_Method = ''btree'', ix_Unique = False, ix_Primary = False, ix_Valid = True, ix_Partial = False,
     ix_Expression = False, ix_NullPredicate = [], ix_Columns = [''b'']\<rparr>"

definition demo_schema :: Catalog where
  "demo_schema = demo_catalog\<lparr>cat_ByName := [(''t'', [(''s'', ''t'')])],
     cat_Columns := [((''s'', ''t''), [demo_column ''a'', demo_column ''b''])], cat_Indexes := [((''s'', ''t''), [demo_index])]\<rparr>"

definition demo_entry :: "string \<Rightarrow> string \<Rightarrow> WorkloadEntry" where
  "demo_entry fp column =
     (let r = \<lparr>ref_Schema = [], ref_Name = ''t'', ref_Alias = []\<rparr>
      in \<lparr>we_QueryIDs = [1], we_QueryIDByHost = [], we_Fingerprint = fp, we_Query = [],
          we_Calls = 10, we_TotalTimeMs = Fin 30, we_Rows = 10, 
          we_Stmt = \<lparr>st_Kind = KindSelect, st_Fingerprint = fp, st_Tables = [r],
            st_Usages = [\<lparr>us_Ref = r, us_Column = column, us_Role = RoleEquality, us_Desc = False, us_Seq = 0\<rparr>],
            st_Written = [], st_Unsupported = []\<rparr>,
          we_Hosts = [''h'']\<rparr>)"

definition demo_workload :: Workload where
  "demo_workload = \<lparr>wl_Entries = [demo_entry ''f'' ''a'', demo_entry ''g'' ''b''], wl_NotParsed = [], wl_Collected = 2, 
     wl_Available = True, wl_Hosts = [''h''], wl_NoStats = [], wl_Unreachable = []\<rparr>"

definition demo_advisor :: AdvisorConfig where
  "demo_advisor = \<lparr>cfg_Enabled = None, MaxQueries = 0, MaxQueryBytes = 0, MaxCandidates = 0, MaxIndexColumns = 0,
     MinTableRows = 0, ParseCacheSize = 0, cfg_Timeout = 0, EvidenceWindow = 0\<rparr>"

lemma demo_schema_ranked:
  "ranked demo_rank (newDDLScope demo_schema)" "demo_rank k < length (cat_Relations demo_schema) + 1"
proof -
  have "list_all (\<lambda>(p, ks). list_all (\<lambda>k. demo_rank k < demo_rank p) ks) (sc_children (newDDLScope demo_schema))" by code_simp
  then show "ranked demo_rank (newDDLScope demo_schema)" by (auto simp: ranked_def list_all_iff)
  have "length (cat_Relations demo_schema) = 5" by code_simp
  then show "demo_rank k < length (cat_Relations demo_schema) + 1" by (simp add: demo_rank_def)
qed

abbreviation demo_state :: builder where
  "demo_state \<equiv> build_state demo_workload demo_schema (adv_WithDefaults demo_advisor)"

lemma map_option_SomeE: "map_option f x = Some y \<Longrightarrow> \<exists>z. x = Some z \<and> f z = y"
  by (cases x) simp_all

lemma demo_candidates: "\<exists>cs. all_candidates demo_schema demo_state = Some cs \<and> map cand_Columns cs = [[''a'']]"
proof (rule map_option_SomeE)
  show "map_option (map cand_Columns) (all_candidates demo_schema demo_state) = Some [[''a'']]" by code_simp
qed

theorem report_witness: "\<exists>rep. Build demo_workload demo_schema demo_advisor 7 = Some rep \<and> ar_DurationMs rep = 7"
  using report_is_always_produced [OF demo_schema_ranked, of demo_workload demo_advisor 7] by (auto simp: Build_def Let_def)

theorem candidates_witness:
  "\<exists>rep. Build demo_workload demo_schema demo_advisor 7 = Some rep \<and> map cand_Columns (ar_Candidates rep) = [[''a'']]
     \<and> list_all (\<lambda>c. candidate_ok demo_schema (adv_WithDefaults demo_advisor) c \<and> length (cand_Columns c) \<le> 4) (ar_Candidates rep)"
proof -
  obtain cs where cs: "all_candidates demo_schema demo_state = Some cs \<and> map cand_Columns cs = [[''a'']]"
    using demo_candidates ..
  have "length cs = 1" using arg_cong [OF conjunct2 [OF cs], of length] by simp
  moreover have "MaxCandidates (adv_WithDefaults demo_advisor) = 50" by code_simp
  ultimately have "adv_candidates demo_schema (adv_WithDefaults demo_advisor) demo_state = Some cs"
    by (simp add: adv_candidates_def conjunct1 [OF cs])
  then obtain rep where rep: "Build demo_workload demo_schema demo_advisor 7 = Some rep" "ar_Candidates rep = cs"
    unfolding Build_def Let_def by simp
  show ?thesis
  proof (intro exI conjI)
    show "Build demo_workload demo_schema demo_advisor 7 = Some rep" by (rule rep(1))
    show "map cand_Columns (ar_Candidates rep) = [[''a'']]" unfolding rep(2) by (rule conjunct2 [OF cs])
    show "list_all (\<lambda>c. candidate_ok demo_schema (adv_WithDefaults demo_advisor) c \<and> length (cand_Columns c) \<le> 4) (ar_Candidates rep)"
      by (rule conjunct1 [OF candidates_are_worth_building [OF rep(1)]])
  qed
qed

theorem answered_witness:
  "\<exists>cs. all_candidates demo_schema demo_state = Some cs
     \<and> list_ex (\<lambda>c. ''f'' \<in> cq_Fingerprint ` set (cand_Covered c)) cs
     \<and> tally_at (bl_skipped demo_state) ''already_indexed'' = 1"
proof -
  let ?cfg = "adv_WithDefaults demo_advisor"
  have c: "collapse_workload (wl_Entries demo_workload) = [demo_entry ''f'' ''a'', demo_entry ''g'' ''b'']"
    by (simp add: collapse_workload_def collapse_entry_def demo_workload_def demo_entry_def Let_def)
  have "map (statement_result demo_schema ?cfg) [demo_entry ''f'' ''a'', demo_entry ''g'' ''b''] = [[], ''already_indexed'']"
    by code_simp
  then have r: "statement_result demo_schema ?cfg (demo_entry ''f'' ''a'') = []"
      "statement_result demo_schema ?cfg (demo_entry ''g'' ''b'') = ''already_indexed''"
    by simp_all
  have p: "we_Fingerprint (demo_entry ''f'' ''a'') = ''f''" by (simp add: demo_entry_def Let_def)
  have e: "yieldsCandidates (st_Kind (we_Stmt (demo_entry f x)))" "[] \<notin> set (st_Unsupported (we_Stmt (demo_entry f x)))" for f x
    by (simp_all add: demo_entry_def Let_def yieldsCandidates_def)
  obtain cs where "all_candidates demo_schema demo_state = Some cs \<and> map cand_Columns cs = [[''a'']]"
    using demo_candidates ..
  then have cs: "all_candidates demo_schema demo_state = Some cs" by (rule conjunct1)
  note answer = every_statement_is_answered [OF cs _ e, unfolded c]
  have "list_ex (\<lambda>c. ''f'' \<in> cq_Fingerprint ` set (cand_Covered c)) cs"
    using answer [of "''f''" "''a''"] by (simp add: r p)
  moreover have "tally_at (bl_skipped demo_state) ''already_indexed'' = 1"
    using answer [of "''g''" "''b''"] by (simp add: r demo_workload_def tally_at_def wrap64_def)
  ultimately show ?thesis using cs by blast
qed

section \<open>What the width warning quotes\<close>

text \<open>
  A draft that an uncapped statement opened keeps its own number of requested columns when a
  capped statement with the same columns joins it: the warning then says that as many columns were
  requested as the index has.
\<close>

lemma joined_draft_understates:
  assumes "same_draft t d" and "dr_wideIndex d" and "dr_requested t = length (dr_columns t)"
  shows "param_warning ''wide_index'' [(''columns'', of_i64 (int (length (dr_columns t)))), (''requested'', of_i64 (int (length (dr_columns t))))]
     \<in> set (warningsFor cat (hd (attach_draft tt d e (t # ts))) kind w tr p)"
  using assms by (simp add: warningsFor_def cover_def Let_def)

end
