(* ===== verification/Log_Pattern.thy ===== *)
theory Log_Pattern
  imports Activity
begin

text \<open>
  Templates of log messages (\<^verbatim>\<open>backend/internal/logs/pattern/pattern.go\<close>): white space is
  collapsed and quoted literals, log positions, hexadecimal and decimal numbers are masked, so
  that messages of one shape compare equal.

  The four regular expressions are matchers as in the theory of activity. The runs of digits in
  them are followed by a character outside their class or by a word boundary, so that only whole
  runs can match.
\<close>

section \<open>Matchers\<close>

definition after_quote :: "char \<Rightarrow> string \<Rightarrow> string option" where
  "after_quote q s = (case dropWhile (\<lambda>c. c \<noteq> q) s of [] \<Rightarrow> None | _ # t \<Rightarrow> Some t)"

definition reQuoted :: matcher where
  "reQuoted prev s =
     (case s of
        [] \<Rightarrow> None
      | c # cs \<Rightarrow> if c = CHR 0x27 \<or> c = CHR 0x22 then after_quote c cs else None)"

definition is_hex :: "char \<Rightarrow> bool" where
  "is_hex c \<longleftrightarrow> is_digit c \<or> (CHR ''a'' \<le> c \<and> c \<le> CHR ''f'') \<or> (CHR ''A'' \<le> c \<and> c \<le> CHR ''F'')"

definition word_before :: "char option \<Rightarrow> bool" where
  "word_before prev = (case prev of None \<Rightarrow> False | Some p \<Rightarrow> is_word p)"

text \<open>A run of hexadecimal digits up to a word boundary.\<close>

definition hex_word :: "string \<Rightarrow> string option" where
  "hex_word s =
     (if takeWhile is_hex s \<noteq> [] \<and> word_ends (dropWhile is_hex s) then Some (dropWhile is_hex s) else None)"

definition reLSN :: matcher where
  "reLSN prev s =
     (if word_before prev \<or> takeWhile is_hex s = [] then None
      else (case dropWhile is_hex s of
              [] \<Rightarrow> None
            | c # cs \<Rightarrow> if c = CHR ''/'' then hex_word cs else None))"

definition reHex :: matcher where
  "reHex prev s =
     (if word_before prev then None
      else (case CutPrefix s ''0x'' of None \<Rightarrow> None | Some t \<Rightarrow> hex_word t))"

definition reNumber :: matcher where
  "reNumber prev s =
     (let rest = dropWhile is_digit s
      in if takeWhile is_digit s = [] then None
         else (case rest of
                 [] \<Rightarrow> Some rest
               | c # cs \<Rightarrow>
                   if c = CHR ''.'' \<and> takeWhile is_digit cs \<noteq> [] then Some (dropWhile is_digit cs) else Some rest))"

section \<open>Templates\<close>

definition Placeholder :: string where "Placeholder = ''<*>''"

definition pattern_mask :: "string \<Rightarrow> string \<Rightarrow> string" where
  "pattern_mask s ph =
     (let s = Join (Fields s) '' '';
          s = ReplaceAllString reQuoted s ph;
          s = ReplaceAllString reLSN s ph;
          s = ReplaceAllString reHex s ph
      in ReplaceAllString reNumber s ph)"

definition pattern_Key :: "string \<Rightarrow> string" where "pattern_Key s = pattern_mask s ''?''"

definition pattern_Display :: "string \<Rightarrow> string" where "pattern_Display s = pattern_mask s Placeholder"

section \<open>What is left\<close>

text \<open>Replacing numbers leaves no digit: every digit starts a match or lies in one.\<close>

lemma rx_replace_number:
  "set repl \<inter> {c. is_digit c} = {} \<Longrightarrow> set (rx_replace reNumber repl prev s) \<inter> {c. is_digit c} = {}"
proof (induction reNumber repl prev s rule: rx_replace.induct)
  case (2 repl prev c cs)
  show ?case
  proof (cases "is_digit c")
    case False
    then have "reNumber prev (c # cs) = None" by (simp add: reNumber_def)
    then show ?thesis using 2 False by simp
  next
    case True
    then obtain t where t: "reNumber prev (c # cs) = Some t" and l: "length t \<le> length cs"
    proof -
      have a: "length (dropWhile is_digit cs) \<le> length cs" by (rule length_dropWhile_le)
      have b: "length (dropWhile is_digit ds) \<le> length cs" if "dropWhile is_digit cs = d # ds" for d ds
        using length_dropWhile_le [of is_digit ds] a that by simp
      have "\<exists>t. reNumber prev (c # cs) = Some t \<and> length t \<le> length cs"
        using True a b by (auto simp: reNumber_def Let_def split: list.split)
      then show thesis using that by blast
    qed
    then show ?thesis using 2 by auto
  qed
qed simp

lemma Key_has_no_digit: "list_all (\<lambda>c. \<not> is_digit c) (pattern_Key s)"
proof -
  have "set ''?'' \<inter> {c. is_digit c} = {}" by (simp add: is_digit_def)
  from rx_replace_number [OF this] show ?thesis
    by (auto simp: pattern_Key_def pattern_mask_def ReplaceAllString_def Let_def list_all_iff)
qed

end
