(* ===== verification/Log_Source.thy ===== *)
theory Log_Source
  imports Log_Pattern Sanitize Cluster_Registry
begin

text \<open>
  The contract of log sources (\<^verbatim>\<open>backend/internal/logs/source\<close>): the field map that binds the roles
  of a record to the fields of a stream (\<^verbatim>\<open>fieldmap.go\<close>), records, filters and providers
  (\<^verbatim>\<open>source.go\<close>), and the registry that resolves a cluster to its source (\<^verbatim>\<open>registry.go\<close>). A
  provider is a record of its methods. Case folding is that of the ASCII letters.
\<close>

section \<open>Field maps\<close>

record FieldMap =
  fm_Timestamp :: string
  fm_Severity :: string
  fm_Text :: string
  fm_Host :: string
  fm_Database :: string
  fm_User :: string
  fm_PID :: string
  fm_QueryID :: string
  fm_SQLState :: string
  Mask :: "string list"
  Severities :: "string list"
  KeywordFields :: "(string \<times> string) list"
  HostMatch :: string

definition zero_FieldMap :: FieldMap where
  "zero_FieldMap =
     \<lparr>fm_Timestamp = [], fm_Severity = [], fm_Text = [], fm_Host = [], fm_Database = [], fm_User = [], fm_PID = [],
      fm_QueryID = [], fm_SQLState = [], Mask = [], Severities = [], KeywordFields = [], HostMatch = []\<rparr>"

definition HostMatchExact :: string where "HostMatchExact = ''exact''"
definition HostMatchSuffix :: string where "HostMatchSuffix = ''suffix''"

definition fm_Empty :: "FieldMap \<Rightarrow> bool" where "fm_Empty m \<longleftrightarrow> fm_Text m = []"

definition Keyword :: "FieldMap \<Rightarrow> string \<Rightarrow> string" where
  "Keyword m field = (case map_of (KeywordFields m) field of Some kw \<Rightarrow> if kw \<noteq> [] then kw else field | None \<Rightarrow> field)"

definition EqualFold :: "string \<Rightarrow> string \<Rightarrow> bool" where
  "EqualFold s t \<longleftrightarrow> map lower s = map lower t"

definition CanonicalSeverity :: "FieldMap \<Rightarrow> string \<Rightarrow> string option" where
  "CanonicalSeverity m raw = find (\<lambda>v. EqualFold v raw) (Severities m)"

definition pgSeverities :: "string list" where
  "pgSeverities = [''DEBUG'', ''LOG'', ''INFO'', ''NOTICE'', ''WARNING'', ''ERROR'', ''FATAL'', ''PANIC'']"

definition PresetCSVLog :: string where "PresetCSVLog = ''csvlog''"
definition PresetJSONLog :: string where "PresetJSONLog = ''jsonlog''"
definition PresetOdyssey :: string where "PresetOdyssey = ''odyssey''"
definition PresetPgBouncer :: string where "PresetPgBouncer = ''pgbouncer''"
definition PresetNone :: string where "PresetNone = ''none''"

definition log_presets :: "(string \<times> FieldMap) list" where
  "log_presets =
     [(PresetCSVLog, zero_FieldMap\<lparr>fm_Severity := ''error_severity'', fm_Text := ''message'', fm_Database := ''database_name'',
         fm_User := ''user_name'', fm_PID := ''process_id'', fm_QueryID := ''query_id'', fm_SQLState := ''sql_state_code'',
         Mask := [''message'', ''query'', ''internal_query'', ''detail'', ''hint'', ''context''], Severities := pgSeverities\<rparr>),
      (PresetJSONLog, zero_FieldMap\<lparr>fm_Severity := ''error_severity'', fm_Text := ''message'', fm_Database := ''dbname'',
         fm_User := ''user'', fm_PID := ''pid'', fm_QueryID := ''query_id'', fm_SQLState := ''state_code'',
         Mask := [''message'', ''statement'', ''internal_query'', ''detail'', ''hint'', ''context''], Severities := pgSeverities\<rparr>),
      (PresetOdyssey, zero_FieldMap\<lparr>fm_Severity := ''level'', fm_Text := ''text'', fm_Database := ''db'', fm_User := ''user'',
         fm_PID := ''pid'', Mask := [''text''], Severities := [''debug'', ''info'', ''warning'', ''error'', ''fatal'']\<rparr>),
      (PresetPgBouncer, zero_FieldMap\<lparr>fm_Severity := ''level'', fm_Text := ''msg'', fm_PID := ''pid'', Mask := [''msg''],
         Severities := [''NOISE'', ''DEBUG'', ''LOG'', ''WARNING'', ''ERROR'', ''FATAL'']\<rparr>)]"

definition Preset :: "string \<Rightarrow> FieldMap option" where "Preset name = map_of log_presets name"

definition Roles :: "FieldMap \<Rightarrow> (string \<times> string) list" where
  "Roles m =
     filter (\<lambda>(role, field). field \<noteq> [])
       [(''timestamp'', fm_Timestamp m), (''severity'', fm_Severity m), (''text'', fm_Text m), (''host'', fm_Host m),
        (''database'', fm_Database m), (''user'', fm_User m), (''pid'', fm_PID m), (''query_id'', fm_QueryID m),
        (''sql_state'', fm_SQLState m)]"

record LogFieldMapConfig =
  fc_Preset :: string
  fc_Timestamp :: string
  fc_Severity :: string
  fc_Text :: string
  fc_Host :: string
  fc_Database :: string
  fc_User :: string
  fc_PID :: string
  fc_QueryID :: string
  fc_SQLState :: string
  fc_Mask :: "string list"
  fc_Severities :: "string list"
  fc_KeywordFields :: "(string \<times> string) list"
  fc_HostMatch :: string

datatype field_map_error = UnknownPreset string | BadHostMatch string | MissingRoles "string list" | NoSeverities

definition set_or :: "string \<Rightarrow> string \<Rightarrow> string" where
  "set_or src dst = (if src \<noteq> [] then src else dst)"

definition override_fields :: "LogFieldMapConfig \<Rightarrow> FieldMap \<Rightarrow> FieldMap" where
  "override_fields c fm =
     \<lparr>fm_Timestamp = set_or (fc_Timestamp c) (fm_Timestamp fm), fm_Severity = set_or (fc_Severity c) (fm_Severity fm),
      fm_Text = set_or (fc_Text c) (fm_Text fm), fm_Host = set_or (fc_Host c) (fm_Host fm),
      fm_Database = set_or (fc_Database c) (fm_Database fm), fm_User = set_or (fc_User c) (fm_User fm),
      fm_PID = set_or (fc_PID c) (fm_PID fm), fm_QueryID = set_or (fc_QueryID c) (fm_QueryID fm),
      fm_SQLState = set_or (fc_SQLState c) (fm_SQLState fm),
      Mask = (if fc_Mask c \<noteq> [] then fc_Mask c else Mask fm),
      Severities = (if fc_Severities c \<noteq> [] then fc_Severities c else Severities fm),
      KeywordFields = fc_KeywordFields c,
      HostMatch = set_or (set_or (fc_HostMatch c) (HostMatch fm)) HostMatchExact\<rparr>"

definition dotted_prefix :: "string \<Rightarrow> string" where
  "dotted_prefix s = rev (dropWhile (\<lambda>c. c \<noteq> CHR ''.'') (rev s))"

definition add_mask :: "string \<Rightarrow> string list \<Rightarrow> string list" where
  "add_mask field out = (if field = [] \<or> field \<in> set out then out else out @ [field])"

definition resolveMask :: "FieldMap \<Rightarrow> string list" where
  "resolveMask fm =
     (let prefix = dotted_prefix (fm_Text fm)
      in fold (\<lambda>field out.
           let out = add_mask field out
           in if prefix \<noteq> [] \<and> CHR ''.'' \<notin> set field then add_mask (prefix @ field) out else out)
         (Mask fm) (add_mask (fm_Text fm) []))"

definition missing_roles :: "FieldMap \<Rightarrow> string list" where
  "missing_roles fm =
     sort (map fst (filter (\<lambda>(role, field). field = [])
       [(''timestamp'', fm_Timestamp fm), (''severity'', fm_Severity fm), (''text'', fm_Text fm), (''host'', fm_Host fm)]))"

definition FieldMapFromConfig :: "LogFieldMapConfig \<Rightarrow> field_map_error + FieldMap" where
  "FieldMapFromConfig c =
     (case (if fc_Preset c \<noteq> [] \<and> fc_Preset c \<noteq> PresetNone then Preset (fc_Preset c) else Some zero_FieldMap) of
        None \<Rightarrow> Inl (UnknownPreset (fc_Preset c))
      | Some preset \<Rightarrow>
          let fm = override_fields c preset
          in if HostMatch fm \<noteq> HostMatchExact \<and> HostMatch fm \<noteq> HostMatchSuffix then Inl (BadHostMatch (HostMatch fm))
             else if missing_roles fm \<noteq> [] then Inl (MissingRoles (missing_roles fm))
             else if Severities fm = [] then Inl NoSeverities
             else Inr (fm\<lparr>Mask := resolveMask fm\<rparr>))"

section \<open>Records and providers\<close>

record source_Record =
  rec_Timestamp :: time
  rec_Fields :: "(string \<times> string) list"
  rec_Token :: string

abbreviation rec_field :: "source_Record \<Rightarrow> string \<Rightarrow> string" where
  "rec_field rec f \<equiv> case map_of (rec_Fields rec) f of None \<Rightarrow> [] | Some v \<Rightarrow> v"

record source_Filter =
  sf_Severities :: "string list"
  sf_Host :: string
  sf_QueryID :: "i64 option"
  sf_Contains :: "string list"

record StreamParams =
  sp_Cluster :: Cluster
  sp_Stream :: string
  sp_From :: time
  sp_To :: time
  sp_Filter :: source_Filter
  sp_Token :: string

datatype source_error = ErrStream string | ErrUnavailable string | ErrConfig string | ErrInvalidToken string
  | ErrPartial string | SourceCanceled string | SourceFailed string

datatype ctx_state = CtxLive | DeadlineExceeded | CtxCanceled

text \<open>
  One call of a provider's \<^verbatim>\<open>Stream\<close>: the records it hands out as long as the callback asks for
  more, and, behind the last of them, the error it ends with and the state of the context then.
\<close>

type_synonym stream_end = "(source_error \<times> ctx_state) option"

fun run_stream :: "('s \<Rightarrow> source_Record \<Rightarrow> 's \<times> bool) \<Rightarrow> source_Record list \<Rightarrow> stream_end \<Rightarrow> 's \<Rightarrow> 's \<times> stream_end" where
  "run_stream fn [] fin s = (s, fin)"
| "run_stream fn (r # rs) fin s = (case fn s r of (s', going) \<Rightarrow> if going then run_stream fn rs fin s' else (s', None))"

record Provider =
  pv_Streams :: "string list"
  pv_Fields :: "string \<Rightarrow> FieldMap"
  pv_Matches :: "(Cluster \<Rightarrow> bool) option"
  pv_Stream :: "StreamParams \<Rightarrow> source_Record list \<times> stream_end"
  pv_Narrow :: "StreamParams \<Rightarrow> source_Filter"

section \<open>Registry\<close>

record source_Registry =
  sr_names :: "string list"
  sr_providers :: "(string \<times> Provider) list"
  sr_defaultName :: string

definition NewRegistry :: source_Registry where
  "NewRegistry = \<lparr>sr_names = [], sr_providers = [], sr_defaultName = []\<rparr>"

definition Register :: "string \<Rightarrow> Provider \<Rightarrow> source_Registry \<Rightarrow> source_Registry" where
  "Register name p r =
     r\<lparr>sr_names := (if map_of (sr_providers r) name = None then sr_names r @ [name] else sr_names r),
       sr_providers := AList.update name p (sr_providers r)\<rparr>"

definition SetDefault :: "string \<Rightarrow> source_Registry \<Rightarrow> source_Registry" where
  "SetDefault name r = r\<lparr>sr_defaultName := name\<rparr>"

fun claim_cluster :: "(string \<times> Provider) list \<Rightarrow> Cluster \<Rightarrow> string list \<Rightarrow> (Provider \<times> string) option" where
  "claim_cluster ps cl [] = None"
| "claim_cluster ps cl (name # names) =
     (case map_of ps name of
        Some p \<Rightarrow> (case pv_Matches p of
                     Some matches \<Rightarrow> if matches cl then Some (p, name) else claim_cluster ps cl names
                   | None \<Rightarrow> claim_cluster ps cl names)
      | None \<Rightarrow> claim_cluster ps cl names)"

definition source_For :: "source_Registry \<Rightarrow> Cluster \<Rightarrow> (Provider \<times> string) option" where
  "source_For r cl =
     (if LogSource cl \<noteq> [] then map_option (\<lambda>p. (p, LogSource cl)) (map_of (sr_providers r) (LogSource cl))
      else case claim_cluster (sr_providers r) cl (sr_names r) of
             Some found \<Rightarrow> Some found
           | None \<Rightarrow>
               if sr_defaultName r \<noteq> []
               then map_option (\<lambda>p. (p, sr_defaultName r)) (map_of (sr_providers r) (sr_defaultName r))
               else None)"

definition source_Supports :: "source_Registry \<Rightarrow> Cluster \<Rightarrow> bool" where
  "source_Supports r cl \<longleftrightarrow> source_For r cl \<noteq> None"

definition source_Severities :: "source_Registry \<Rightarrow> Cluster \<Rightarrow> (string \<times> string list) list option" where
  "source_Severities r cl =
     map_option (\<lambda>(p, _). fold (\<lambda>stream out.
         let fm = pv_Fields p stream
         in if Severities fm \<noteq> [] then AList.update stream (Severities fm) out else out)
       (pv_Streams p) []) (source_For r cl)"

definition source_Streams :: "source_Registry \<Rightarrow> Cluster \<Rightarrow> string list option" where
  "source_Streams r cl = map_option (\<lambda>(p, _). pv_Streams p) (source_For r cl)"

section \<open>Accepted field maps\<close>

lemma set_add_mask: "set (add_mask f out) = set out \<union> ({f} - {[]})"
  by (auto simp: add_mask_def)

lemma distinct_add_mask: "distinct out \<Longrightarrow> distinct (add_mask f out)"
  by (simp add: add_mask_def)

lemma resolveMask_set:
  "set (resolveMask fm) =
     (insert (fm_Text fm) (set (Mask fm)) \<union>
        (\<lambda>f. dotted_prefix (fm_Text fm) @ f) ` {f \<in> set (Mask fm). dotted_prefix (fm_Text fm) \<noteq> [] \<and> CHR ''.'' \<notin> set f}) - {[]}"
proof -
  define p where "p = dotted_prefix (fm_Text fm)"
  have "set (fold (\<lambda>f out. let out = add_mask f out
           in if p \<noteq> [] \<and> CHR ''.'' \<notin> set f then add_mask (p @ f) out else out) fs out) =
      set out \<union> ((set fs \<union> (\<lambda>f. p @ f) ` {f \<in> set fs. p \<noteq> [] \<and> CHR ''.'' \<notin> set f}) - {[]})" for fs out
    by (induction fs arbitrary: out) (auto simp: set_add_mask Let_def)
  from this [of "Mask fm" "add_mask (fm_Text fm) []"]
  have "set (resolveMask fm) = set (add_mask (fm_Text fm) []) \<union>
      ((set (Mask fm) \<union> (\<lambda>f. p @ f) ` {f \<in> set (Mask fm). p \<noteq> [] \<and> CHR ''.'' \<notin> set f}) - {[]})"
    unfolding resolveMask_def p_def by (simp only: Let_def)
  then show ?thesis unfolding p_def set_add_mask by auto
qed

lemma distinct_resolveMask: "distinct (resolveMask fm)"
  unfolding resolveMask_def Let_def by (rule fold_invariant_set [where P = distinct]) (simp_all add: distinct_add_mask)

definition usable_field_map :: "FieldMap \<Rightarrow> bool" where
  "usable_field_map fm \<longleftrightarrow>
     fm_Timestamp fm \<noteq> [] \<and> fm_Severity fm \<noteq> [] \<and> fm_Text fm \<noteq> [] \<and> fm_Host fm \<noteq> [] \<and> Severities fm \<noteq> []
     \<and> HostMatch fm \<in> {HostMatchExact, HostMatchSuffix} \<and> fm_Text fm \<in> set (Mask fm) \<and> [] \<notin> set (Mask fm) \<and> distinct (Mask fm)"

lemma missing_roles_empty:
  "missing_roles fm = [] \<longleftrightarrow> fm_Timestamp fm \<noteq> [] \<and> fm_Severity fm \<noteq> [] \<and> fm_Text fm \<noteq> [] \<and> fm_Host fm \<noteq> []"
proof -
  have "missing_roles fm = [] \<longleftrightarrow> set (missing_roles fm) = {}" by simp
  also have "\<dots> \<longleftrightarrow> fm_Timestamp fm \<noteq> [] \<and> fm_Severity fm \<noteq> [] \<and> fm_Text fm \<noteq> [] \<and> fm_Host fm \<noteq> []"
    unfolding missing_roles_def set_sort by auto
  finally show ?thesis .
qed

lemma accepted_field_map_usable:
  assumes "FieldMapFromConfig c = Inr fm"
  shows "usable_field_map fm"
proof -
  obtain preset where fm: "fm = (override_fields c preset)\<lparr>Mask := resolveMask (override_fields c preset)\<rparr>"
    and ok: "missing_roles (override_fields c preset) = []" "Severities (override_fields c preset) \<noteq> []"
      "HostMatch (override_fields c preset) \<in> {HostMatchExact, HostMatchSuffix}"
    using assms by (auto simp: FieldMapFromConfig_def Let_def split: option.splits if_splits)
  then show ?thesis unfolding usable_field_map_def fm
    by (simp add: missing_roles_empty resolveMask_set distinct_resolveMask)
qed

text \<open>C35: A field map that the configuration produces is well formed. If a configured map is accepted,
  the four roles the service needs are bound, severities are listed, the host is matched in one of
  the two known ways, and the mask lists the text field, no field twice and no empty name; the mask
  also holds the fields beside a nested text field.\<close>
theorem accepted_field_map_is_well_formed:
  assumes "FieldMapFromConfig c = Inr fm"
  shows "usable_field_map fm
    \<and> list_all (\<lambda>f. f = [] \<or> f \<in> set (Mask fm)) (fc_Mask c)
    \<and> list_all (\<lambda>f. CHR ''.'' \<in> set f \<or> dotted_prefix (fm_Text fm) @ f \<in> set (Mask fm) \<or> dotted_prefix (fm_Text fm) @ f = []
         \<or> dotted_prefix (fm_Text fm) = []) (fc_Mask c)"
proof -
  obtain preset where fm: "fm = (override_fields c preset)\<lparr>Mask := resolveMask (override_fields c preset)\<rparr>"
    using assms by (auto simp: FieldMapFromConfig_def Let_def split: option.splits if_splits)
  have "set (fc_Mask c) \<subseteq> set (Mask (override_fields c preset))" by (auto simp: override_fields_def)
  then show ?thesis using accepted_field_map_usable [OF assms]
    by (auto simp: fm resolveMask_set list_all_iff)
qed

definition nested_conf :: LogFieldMapConfig where
  "nested_conf =
     \<lparr>fc_Preset = ''jsonlog'', fc_Timestamp = ''time'', fc_Severity = [], fc_Text = ''pg.message'', fc_Host = ''host'', fc_Database = [],
      fc_User = [], fc_PID = [], fc_QueryID = [], fc_SQLState = [], fc_Mask = [''detail''], fc_Severities = [], fc_KeywordFields = [],
      fc_HostMatch = ''suffix''\<rparr>"

theorem accepted_field_map_witness:
  "\<exists>fm. FieldMapFromConfig nested_conf = Inr fm \<and> usable_field_map fm \<and> ''detail'' \<in> set (Mask fm)"
proof -
  have "case FieldMapFromConfig nested_conf of Inr _ \<Rightarrow> True | Inl _ \<Rightarrow> False" by code_simp
  then obtain fm where fm: "FieldMapFromConfig nested_conf = Inr fm" by (auto split: sum.splits)
  then show ?thesis using accepted_field_map_is_well_formed [OF fm] by (simp add: nested_conf_def)
qed

end
