(* ===== verification/Log_Classify.thy ===== *)
theory Log_Classify
  imports Go_Strings
begin

text \<open>
  Reading one log record (\<^verbatim>\<open>backend/internal/logs/insights\<close>): the records of
  \<^verbatim>\<open>auto_explain\<close> and their plan (\<^verbatim>\<open>detect.go\<close>) and the category of every record
  (\<^verbatim>\<open>classify.go\<close>), with the names of the streams (\<^verbatim>\<open>logs/stream/stream.go\<close>).
  Upper case is that of the ASCII letters, in which severities are written.
\<close>

section \<open>Plan records\<close>

record PlanRecord =
  pr_DurationMs :: f64
  pr_Body :: string
  pr_QueryID :: i64
  pr_HasQueryID :: bool

definition durationPrefix :: string where "durationPrefix = ''duration: ''"

definition maxDurationMs :: f64 where "maxDurationMs = lit (100 * 365 * 24 * 3600 * 1000)"

definition splitDuration :: "string \<Rightarrow> (f64 \<times> string) option" where
  "splitDuration txt =
     (case CutPrefix txt durationPrefix of
        None \<Rightarrow> None
      | Some s \<Rightarrow>
          (case Cut s '' ms'' of
             None \<Rightarrow> None
           | Some (num, rest) \<Rightarrow>
               (case ParseFloat num of
                  None \<Rightarrow> None
                | Some ms \<Rightarrow>
                    if IsNaN ms \<or> ms < Fin 0 \<or> maxDurationMs < ms then None else Some (ms, rest))))"

definition ParseQueryID :: "string \<Rightarrow> i64 \<times> bool" where
  "ParseQueryID raw =
     (case ParseInt (TrimSpace raw) of
        None \<Rightarrow> (0, False)
      | Some qid \<Rightarrow> if qid = 0 then (0, False) else (qid, True))"

definition Detect :: "string \<Rightarrow> string \<Rightarrow> PlanRecord option" where
  "Detect txt queryID =
     (case splitDuration txt of
        None \<Rightarrow> None
      | Some (ms, rest) \<Rightarrow>
          (case CutPrefix rest ''  plan:'' of
             None \<Rightarrow> None
           | Some b \<Rightarrow>
               (let (qid, has) = ParseQueryID queryID
                in Some \<lparr>pr_DurationMs = ms, pr_Body = TrimLeft b {CHR 0x0D, CHR 0x0A}, pr_QueryID = qid, pr_HasQueryID = has\<rparr>)))"

definition hasAnyPrefix :: "string \<Rightarrow> string list \<Rightarrow> bool" where
  "hasAnyPrefix s ps = list_ex (HasPrefix s) ps"

definition log_containsAny :: "string \<Rightarrow> string list \<Rightarrow> bool" where
  "log_containsAny s subs = list_ex (Contains s) subs"

definition isStatementDuration :: "string \<Rightarrow> bool" where
  "isStatementDuration txt =
     (case splitDuration txt of
        None \<Rightarrow> False
      | Some (_, rest) \<Rightarrow>
          if rest = [] then True
          else (case CutPrefix rest ''  '' of
                  None \<Rightarrow> False
                | Some after \<Rightarrow> hasAnyPrefix after [''statement: '', ''execute '', ''parse '', ''bind '']))"

section \<open>Categories\<close>

definition stream_PostgreSQL :: string where "stream_PostgreSQL = ''postgresql''"
definition stream_Pooler :: string where "stream_Pooler = ''pooler''"

record LogRecord =
  lr_Stream :: string
  lr_Severity :: string
  lr_SQLState :: string
  lr_Text :: string

record LogCategory =
  lc_Code :: string
  lc_Stream :: string
  lc_Match :: "LogRecord \<Rightarrow> bool"

definition stateOr :: "LogRecord \<Rightarrow> string \<Rightarrow> string \<Rightarrow> bool" where
  "stateOr r state p = (if lr_SQLState r \<noteq> [] then lr_SQLState r = state else HasPrefix (lr_Text r) p)"

definition isErrorState :: "string \<Rightarrow> bool" where
  "isErrorState state = (if length state \<noteq> 5 then False else take 2 state \<notin> {''00'', ''01'', ''02''})"

definition upper :: "char \<Rightarrow> char" where
  "upper c = (if CHR ''a'' \<le> c \<and> c \<le> CHR ''z'' then char_of (of_char c - (32 :: nat)) else c)"

definition isErrorSeverity :: "string \<Rightarrow> bool" where
  "isErrorSeverity s \<longleftrightarrow> map upper s \<in> {''ERROR'', ''FATAL'', ''PANIC''}"

definition pg_category :: "string \<Rightarrow> (LogRecord \<Rightarrow> bool) \<Rightarrow> LogCategory" where
  "pg_category code mt = \<lparr>lc_Code = code, lc_Stream = stream_PostgreSQL, lc_Match = mt\<rparr>"

definition log_registry :: "LogCategory list" where
  "log_registry =
     [pg_category ''deadlock'' (\<lambda>r. stateOr r ''40P01'' ''deadlock detected''),
      pg_category ''lock_wait'' (\<lambda>r. lr_SQLState r = ''55P03''
        \<or> hasAnyPrefix (lr_Text r) [''canceling statement due to lock timeout'', ''could not obtain lock on'']
        \<or> HasPrefix (lr_Text r) ''process ''
          \<and> log_containsAny (lr_Text r) ['' still waiting for '', '' acquired '', '' avoided deadlock '', '' detected deadlock '']),
      pg_category ''connection_limit'' (\<lambda>r. lr_SQLState r = ''53300''
        \<or> hasAnyPrefix (lr_Text r) [''sorry, too many clients already'', ''remaining connection slots are reserved'']),
      pg_category ''authentication'' (\<lambda>r. HasPrefix (lr_SQLState r) ''28''
        \<or> hasAnyPrefix (lr_Text r) [''password authentication failed'', ''no pg_hba.conf entry'']),
      pg_category ''canceled'' (\<lambda>r. stateOr r ''57014'' ''canceling statement due to''),
      pg_category ''plan'' (\<lambda>r. Detect (lr_Text r) [] \<noteq> None),
      pg_category ''slow_query'' (\<lambda>r. isStatementDuration (lr_Text r)),
      pg_category ''checkpoint'' (\<lambda>r. hasAnyPrefix (lr_Text r)
        [''checkpoint starting:'', ''checkpoint complete:'', ''restartpoint starting:'', ''restartpoint complete:'',
         ''checkpoints are occurring too frequently'', ''recovery restart point at'']),
      pg_category ''autovacuum'' (\<lambda>r. hasAnyPrefix (lr_Text r)
        [''automatic vacuum of table'', ''automatic aggressive vacuum'', ''automatic analyze of table'',
         ''skipping vacuum of'', ''skipping analyze of'']),
      pg_category ''temp_file'' (\<lambda>r. HasPrefix (lr_Text r) ''temporary file: ''),
      pg_category ''connection'' (\<lambda>r. hasAnyPrefix (lr_Text r)
        [''connection received:'', ''connection authenticated:'', ''connection authorized:'',
         ''replication connection authorized:'', ''connection ready:'', ''disconnection:'']),
      \<lparr>lc_Code = ''error'', lc_Stream = [], lc_Match = (\<lambda>r. isErrorState (lr_SQLState r) \<or> isErrorSeverity (lr_Severity r))\<rparr>]"

definition category_matches :: "LogRecord \<Rightarrow> LogCategory \<Rightarrow> bool" where
  "category_matches r c = (if lc_Stream c \<noteq> [] \<and> lc_Stream c \<noteq> lr_Stream r then False else lc_Match c r)"

fun classify_in :: "LogCategory list \<Rightarrow> LogRecord \<Rightarrow> string" where
  "classify_in [] r = ''other''"
| "classify_in (c # cs) r = (if category_matches r c then lc_Code c else classify_in cs r)"

definition Classify :: "LogRecord \<Rightarrow> string" where
  "Classify r = classify_in log_registry r"

definition log_Categories :: "LogCategory list" where
  "log_Categories = log_registry @ [\<lparr>lc_Code = ''other'', lc_Stream = [], lc_Match = (\<lambda>_. True)\<rparr>]"

section \<open>Which records are plans\<close>

lemma Detect_prefix: "Detect txt f = Some pr \<Longrightarrow> HasPrefix txt durationPrefix"
  by (auto simp: Detect_def splitDuration_def CutPrefix_def split: if_splits option.splits)

lemma Detect_field: "(Detect txt f = None) = (Detect txt f' = None)"
  by (auto simp: Detect_def Let_def split: option.splits prod.splits)

lemma Detect_duration:
  assumes "Detect txt f = Some pr"
  shows "Fin 0 \<le> pr_DurationMs pr \<and> pr_DurationMs pr \<le> maxDurationMs \<and> (pr_HasQueryID pr \<longleftrightarrow> pr_QueryID pr \<noteq> 0)"
proof -
  obtain ms rest b where s: "splitDuration txt = Some (ms, rest)" "CutPrefix rest ''  plan:'' = Some b"
    and pr: "pr = \<lparr>pr_DurationMs = ms, pr_Body = TrimLeft b {CHR 0x0D, CHR 0x0A},
        pr_QueryID = fst (ParseQueryID f), pr_HasQueryID = snd (ParseQueryID f)\<rparr>"
    using assms by (auto simp: Detect_def Let_def split: option.splits prod.splits)
  have "\<not> IsNaN ms \<and> \<not> ms < Fin 0 \<and> \<not> maxDurationMs < ms"
    using s(1) by (auto simp: splitDuration_def split: option.splits prod.splits if_splits)
  moreover have "maxDurationMs \<noteq> NaN" by (simp add: maxDurationMs_def)
  ultimately have "Fin 0 \<le> ms \<and> ms \<le> maxDurationMs" by (auto simp: IsNaN_def f64_not_less)
  then show ?thesis by (simp add: pr ParseQueryID_def split: option.split)
qed

lemma prefix_clash: "prefix p s \<Longrightarrow> prefix q s \<Longrightarrow> \<not> prefix p q \<Longrightarrow> \<not> prefix q p \<Longrightarrow> False"
  using prefix_same_cases by blast

lemma duration_is_no_other:
  assumes "HasPrefix txt durationPrefix" and "p \<noteq> []" and "hd p \<noteq> CHR ''d''"
  shows "\<not> HasPrefix txt p"
  using assms by (cases p; cases "txt") (auto simp: HasPrefix_def durationPrefix_def)

lemma classify_in_split:
  assumes "lc_Code c \<notin> lc_Code ` set (xs @ ys)" and "lc_Code c \<noteq> ''other''"
  shows "classify_in (xs @ c # ys) r = lc_Code c \<longleftrightarrow> category_matches r c \<and> \<not> list_ex (category_matches r) xs"
proof -
  have tail: "classify_in ys r \<noteq> lc_Code c" if "lc_Code c \<notin> lc_Code ` set ys" for ys
    using that assms(2) by (induction ys) auto
  show ?thesis using assms(1) tail [of ys] by (induction xs) auto
qed

text \<open>Of a message that starts with a duration only the SQLSTATE can say something else first.\<close>

lemma first_states:
  assumes "lr_Stream r = stream_PostgreSQL" and "HasPrefix (lr_Text r) durationPrefix"
  shows "list_ex (category_matches r) (take 5 log_registry) \<longleftrightarrow>
    lr_SQLState r \<in> {''40P01'', ''55P03'', ''53300'', ''57014''} \<or> HasPrefix (lr_SQLState r) ''28''"
proof -
  note no = duration_is_no_other [OF assms(2)]
  have dead: "\<not> HasPrefix (lr_Text r) ''deadlock detected''"
    using assms(2) prefix_clash [of durationPrefix "lr_Text r" "''deadlock detected''"] by (auto simp: HasPrefix_def durationPrefix_def)
  have a: "stateOr r ''40P01'' ''deadlock detected'' \<longleftrightarrow> lr_SQLState r = ''40P01''" by (auto simp: stateOr_def dead)
  have b: "stateOr r ''57014'' ''canceling statement due to'' \<longleftrightarrow> lr_SQLState r = ''57014''" by (auto simp: stateOr_def no)
  show ?thesis
    by (simp add: log_registry_def pg_category_def category_matches_def assms(1) a b hasAnyPrefix_def no) blast
qed

text \<open>
  Which records are analysed as plans. A record is classified as a plan exactly when it comes
  from the server's own stream, is an \<^verbatim>\<open>auto_explain\<close> record, and its SQLSTATE names
  none of the conditions that are looked at first; no message text can take it away.
\<close>

theorem classified_plan_iff:
  "Classify r = ''plan'' \<longleftrightarrow>
     lr_Stream r = stream_PostgreSQL \<and> Detect (lr_Text r) [] \<noteq> None
     \<and> lr_SQLState r \<notin> {''40P01'', ''55P03'', ''53300'', ''57014''} \<and> \<not> HasPrefix (lr_SQLState r) ''28''"
proof -
  let ?c = "pg_category ''plan'' (\<lambda>r. Detect (lr_Text r) [] \<noteq> None)"
  have split: "log_registry = take 5 log_registry @ ?c # drop 6 log_registry" by (simp add: log_registry_def)
  have code: "lc_Code ?c = ''plan''" by (simp add: pg_category_def)
  have codes: "''plan'' \<notin> lc_Code ` set (take 5 log_registry @ drop 6 log_registry)"
    by (simp add: log_registry_def pg_category_def)
  have "Classify r = ''plan'' \<longleftrightarrow> category_matches r ?c \<and> \<not> list_ex (category_matches r) (take 5 log_registry)"
    using classify_in_split [of ?c "take 5 log_registry" "drop 6 log_registry" r, folded split] codes
    unfolding Classify_def code by simp
  also have "\<dots> \<longleftrightarrow> lr_Stream r = stream_PostgreSQL \<and> Detect (lr_Text r) [] \<noteq> None
      \<and> \<not> list_ex (category_matches r) (take 5 log_registry)"
    by (auto simp: category_matches_def pg_category_def stream_PostgreSQL_def)
  finally show ?thesis using first_states [of r] Detect_prefix by blast
qed

end
