(* ===== verification/Log_Search.thy ===== *)
theory Log_Search
  imports Log_Source Log_Classify Activity_Profile
begin

text \<open>
  Search in the logs of a cluster (\<^verbatim>\<open>backend/internal/logs/service.go\<close>, \<^verbatim>\<open>scan.go\<close>,
  \<^verbatim>\<open>fields.go\<close>): the request is validated, the records of the source are filtered and masked,
  and come back as pages with a resume token or as groups of equal templates.

  The case mapping \<^verbatim>\<open>strings.ToLower\<close> with its Unicode tables is the parameter \<open>low\<close>. Maps are
  association lists.
\<close>

section \<open>Scanning a window\<close>

record scanLimits =
  lim_MaxRecords :: int
  lim_MaxBytes :: int
  lim_MaxRecordBytes :: int
  lim_CapRecord :: "(source_Record \<Rightarrow> bool) option"

record scanStats =
  ss_Records :: nat
  ss_Bytes :: nat
  ss_Capped :: bool
  ss_Partial :: bool

definition zero_scanStats :: scanStats where
  "zero_scanStats = \<lparr>ss_Records = 0, ss_Bytes = 0, ss_Capped = False, ss_Partial = False\<rparr>"

datatype log_error = ErrNotFound | NoLogSource | NoStream string string | FromNotBeforeTo | UnknownHost string
  | TokenWithDedup | NoQueryIDRole string | UnknownSeverity string
  | ErrTimeout | ErrCanceled | SourceUnsupported string | SourceInvalid string | ErrUpstream string | ErrDisabled
  | ErrNoStorage | NoDatabase string | BadOrder string | BadOrdinal int | ScanOfOther string string | ScanOfHost string
  | WindowWithScan | StorageFailed string

definition recordBytes :: "source_Record \<Rightarrow> nat" where
  "recordBytes rec = sum_list (map (length \<circ> snd) (rec_Fields rec))"

definition charge :: "scanLimits \<Rightarrow> source_Record \<Rightarrow> nat" where
  "charge limits rec =
     (if 0 < lim_MaxRecordBytes limits \<and> lim_MaxRecordBytes limits < int (recordBytes rec)
         \<and> (case lim_CapRecord limits of None \<Rightarrow> False | Some caps \<Rightarrow> caps rec)
      then nat (lim_MaxRecordBytes limits) else recordBytes rec)"

definition scan_visit ::
  "scanLimits \<Rightarrow> ('s \<Rightarrow> source_Record \<Rightarrow> 's \<times> bool) \<Rightarrow> 's \<times> scanStats \<Rightarrow> source_Record \<Rightarrow> ('s \<times> scanStats) \<times> bool" where
  "scan_visit limits visit = (\<lambda>(s, st) rec.
     case visit s rec of (s, ok) \<Rightarrow>
       if \<not> ok then ((s, st), False)
       else
         let st = st\<lparr>ss_Records := Suc (ss_Records st),
                      ss_Bytes := (if 0 < lim_MaxBytes limits then ss_Bytes st + charge limits rec else ss_Bytes st)\<rparr>
         in if 0 < lim_MaxRecords limits \<and> lim_MaxRecords limits \<le> int (ss_Records st)
               \<or> 0 < lim_MaxBytes limits \<and> lim_MaxBytes limits \<le> int (ss_Bytes st)
            then ((s, st\<lparr>ss_Capped := True\<rparr>), False) else ((s, st), True))"

definition classify_error :: "ctx_state \<Rightarrow> source_error \<Rightarrow> log_error" where
  "classify_error ctx err =
     (if ctx = DeadlineExceeded then ErrTimeout
      else if ctx = CtxCanceled then ErrCanceled
      else case err of
             SourceCanceled _ \<Rightarrow> ErrCanceled
           | ErrStream m \<Rightarrow> SourceUnsupported m
           | ErrUnavailable m \<Rightarrow> SourceUnsupported m
           | ErrInvalidToken m \<Rightarrow> SourceInvalid m
           | ErrConfig m \<Rightarrow> ErrUpstream (SQL m)
           | ErrPartial m \<Rightarrow> ErrUpstream (SQL m)
           | SourceFailed m \<Rightarrow> ErrUpstream (SQL m))"

definition is_partial :: "source_error \<Rightarrow> bool" where
  "is_partial err \<longleftrightarrow> (case err of ErrPartial _ \<Rightarrow> True | _ \<Rightarrow> False)"

definition scan ::
  "source_Record list \<times> stream_end \<Rightarrow> scanLimits \<Rightarrow> ('s \<Rightarrow> source_Record \<Rightarrow> 's \<times> bool) \<Rightarrow> 's \<Rightarrow> 's \<times> scanStats \<times> log_error option" where
  "scan = (\<lambda>(recs, fin) limits visit s.
     case run_stream (scan_visit limits visit) recs fin (s, zero_scanStats) of
       ((s, st), None) \<Rightarrow> (s, st, None)
     | ((s, st), Some (err, ctx)) \<Rightarrow> (s, st\<lparr>ss_Partial := is_partial err\<rparr>, Some (classify_error ctx err)))"

section \<open>Queries and entries\<close>

record LogSearchConfig =
  MaxScan :: int
  MaxPageSize :: int
  TimeoutSeconds :: int

definition search_WithDefaults :: "LogSearchConfig \<Rightarrow> LogSearchConfig" where
  "search_WithDefaults c =
     \<lparr>MaxScan = (if MaxScan c \<le> 0 then 5000 else MaxScan c),
      MaxPageSize = (if MaxPageSize c \<le> 0 then 1000 else MaxPageSize c),
      TimeoutSeconds = (if TimeoutSeconds c \<le> 0 then 30 else TimeoutSeconds c)\<rparr>"

record SearchQuery =
  sq_Cluster :: string
  sq_Stream :: string
  sq_From :: time
  sq_To :: time
  sq_Severities :: "string list"
  sq_Host :: string
  sq_QueryID :: "i64 option"
  sq_Include :: "string list"
  sq_Exclude :: "string list"
  sq_Database :: string
  sq_User :: string
  sq_Dedup :: bool
  sq_PageSize :: int
  sq_PageToken :: string

record Entry =
  en_Timestamp :: time
  en_Severity :: string
  en_Hostname :: string
  en_Text :: string
  en_Database :: string
  en_User :: string
  en_Fields :: "(string \<times> string) list"
  en_Count :: nat
  en_FirstSeen :: time
  en_LastSeen :: time

record SearchResult =
  Items :: "Entry list"
  NextPageToken :: string
  sr_Dedup :: bool
  sr_Partial :: bool
  Scanned :: nat

definition searchLimits :: "LogSearchConfig \<Rightarrow> scanLimits" where
  "searchLimits cfg = \<lparr>lim_MaxRecords = MaxScan cfg, lim_MaxBytes = 0, lim_MaxRecordBytes = 0, lim_CapRecord = None\<rparr>"

definition defaultPageSize :: int where "defaultPageSize = 100"

definition log_severityRank :: "string \<Rightarrow> nat" where
  "log_severityRank s =
     (let u = map upper s
      in if u = ''PANIC'' then 9 else if u = ''FATAL'' then 8 else if u = ''ERROR'' then 7
         else if u = ''WARNING'' then 6 else if u = ''NOTICE'' then 5 else if u = ''LOG'' then 4
         else if u = ''INFO'' then 3 else if u = ''DEBUG'' then 2 else if u = ''NOISE'' then 1 else 0)"

definition containsFold :: "(string \<Rightarrow> string) \<Rightarrow> string \<Rightarrow> string \<Rightarrow> bool" where
  "containsFold low haystack needle \<longleftrightarrow> Contains (low haystack) (low needle)"

definition mask_field :: "string \<Rightarrow> (string \<times> string) list \<Rightarrow> (string \<times> string) list" where
  "mask_field mk fs = (case map_of fs mk of None \<Rightarrow> fs | Some v \<Rightarrow> AList.update mk (SQL v) fs)"

definition maskFields :: "(string \<times> string) list \<Rightarrow> FieldMap \<Rightarrow> (string \<times> string) list" where
  "maskFields fs fm = fold mask_field (Mask fm) fs"

definition get_field :: "(string \<times> string) list \<Rightarrow> string \<Rightarrow> string" where
  "get_field fs f = (case map_of fs f of None \<Rightarrow> [] | Some v \<Rightarrow> v)"

definition excluded :: "(string \<Rightarrow> string) \<Rightarrow> string \<Rightarrow> string \<Rightarrow> bool" where
  "excluded low msg ex \<longleftrightarrow>
     ex \<noteq> [] \<and> (if Contains ex Placeholder then containsFold low (pattern_Display msg) ex else containsFold low msg ex)"

definition entry_matches :: "(string \<Rightarrow> string) \<Rightarrow> (string \<times> string) list \<Rightarrow> SearchQuery \<Rightarrow> FieldMap \<Rightarrow> bool" where
  "entry_matches low fs q fm \<longleftrightarrow>
     list_all (\<lambda>inc. inc = [] \<or> containsFold low (get_field fs (fm_Text fm)) inc) (sq_Include q)
     \<and> \<not> list_ex (excluded low (get_field fs (fm_Text fm))) (sq_Exclude q)
     \<and> (case sq_QueryID q of None \<Rightarrow> True | Some i \<Rightarrow> get_field fs (fm_QueryID fm) = FormatInt i)
     \<and> (sq_Database q = [] \<or> containsFold low (get_field fs (fm_Database fm)) (sq_Database q))
     \<and> (sq_User q = [] \<or> containsFold low (get_field fs (fm_User fm)) (sq_User q))"

definition masked_entry :: "time \<Rightarrow> (string \<times> string) list \<Rightarrow> FieldMap \<Rightarrow> Entry" where
  "masked_entry ts fs fm =
     (let masked = maskFields fs fm
      in \<lparr>en_Timestamp = ts, en_Severity = get_field masked (fm_Severity fm), en_Hostname = get_field masked (fm_Host fm),
          en_Text = get_field masked (fm_Text fm), en_Database = get_field masked (fm_Database fm),
          en_User = get_field masked (fm_User fm), en_Fields = masked, en_Count = 0,
          en_FirstSeen = zero_time, en_LastSeen = zero_time\<rparr>)"

definition toEntry :: "(string \<Rightarrow> string) \<Rightarrow> source_Record \<Rightarrow> SearchQuery \<Rightarrow> FieldMap \<Rightarrow> Entry option" where
  "toEntry low rec q fm =
     (if entry_matches low (rec_Fields rec) q fm then Some (masked_entry (rec_Timestamp rec) (rec_Fields rec) fm) else None)"

section \<open>Pages\<close>

definition page_size :: "LogSearchConfig \<Rightarrow> SearchQuery \<Rightarrow> int" where
  "page_size cfg q =
     (let n = (if sq_PageSize q \<le> 0 then defaultPageSize else sq_PageSize q)
      in if MaxPageSize cfg < n then MaxPageSize cfg else n)"

record page_state =
  ps_items :: "Entry list"
  ps_lastToken :: string
  ps_hasMore :: bool

definition page_visit ::
  "(source_Record \<Rightarrow> Entry option) \<Rightarrow> int \<Rightarrow> page_state \<Rightarrow> source_Record \<Rightarrow> page_state \<times> bool" where
  "page_visit entry pageSize s rec =
     (let e = entry rec
      in if e \<noteq> None \<and> pageSize \<le> int (length (ps_items s)) then (s\<lparr>ps_hasMore := True\<rparr>, False)
         else (s\<lparr>ps_lastToken := rec_Token rec,
                 ps_items := (case e of None \<Rightarrow> ps_items s | Some e \<Rightarrow> ps_items s @ [e])\<rparr>, True))"

definition searchPage ::
  "(string \<Rightarrow> string) \<Rightarrow> LogSearchConfig \<Rightarrow> source_Record list \<times> stream_end \<Rightarrow> SearchQuery \<Rightarrow> FieldMap \<Rightarrow> log_error + SearchResult" where
  "searchPage low cfg src q fm =
     (case scan src (searchLimits cfg) (page_visit (\<lambda>rec. toEntry low rec q fm) (page_size cfg q))
             \<lparr>ps_items = [], ps_lastToken = [], ps_hasMore = False\<rparr> of
        (s, st, Some err) \<Rightarrow>
          if err = ErrTimeout \<and> ps_items s \<noteq> []
          then Inr \<lparr>Items = ps_items s, NextPageToken = ps_lastToken s, sr_Dedup = False, sr_Partial = True, Scanned = ss_Records st\<rparr>
          else if ss_Partial st
          then Inr \<lparr>Items = ps_items s, NextPageToken = [], sr_Dedup = False, sr_Partial = True, Scanned = ss_Records st\<rparr>
          else Inl err
      | (s, st, None) \<Rightarrow>
          Inr \<lparr>Items = ps_items s,
               NextPageToken = (if ps_hasMore s \<or> ss_Capped st then ps_lastToken s else []),
               sr_Dedup = False, sr_Partial = ss_Capped st, Scanned = ss_Records st\<rparr>)"

section \<open>Groups of equal templates\<close>

definition join_group :: "Entry \<Rightarrow> Entry \<Rightarrow> Entry" where
  "join_group e g =
     (let g = g\<lparr>en_Count := Suc (en_Count g)\<rparr>;
          g = (if before (en_Timestamp e) (en_FirstSeen g) then g\<lparr>en_FirstSeen := en_Timestamp e\<rparr> else g);
          g = (if before (en_LastSeen g) (en_Timestamp e) then g\<lparr>en_LastSeen := en_Timestamp e, en_Fields := en_Fields e\<rparr> else g)
      in if log_severityRank (en_Severity g) < log_severityRank (en_Severity e) then g\<lparr>en_Severity := en_Severity e\<rparr> else g)"

definition open_group :: "Entry \<Rightarrow> Entry" where
  "open_group e =
     e\<lparr>en_Count := 1, en_FirstSeen := en_Timestamp e, en_LastSeen := en_Timestamp e, en_Text := pattern_Display (en_Text e)\<rparr>"

definition dedup_add :: "Entry \<Rightarrow> (string \<times> Entry) list \<Rightarrow> (string \<times> Entry) list" where
  "dedup_add e groups =
     (let key = pattern_Key (en_Text e)
      in case map_of groups key of
           Some g \<Rightarrow> AList.update key (join_group e g) groups
         | None \<Rightarrow> AList.update key (open_group e) groups)"

definition dedup_visit ::
  "(source_Record \<Rightarrow> Entry option) \<Rightarrow> (string \<times> Entry) list \<Rightarrow> source_Record \<Rightarrow> (string \<times> Entry) list \<times> bool" where
  "dedup_visit entry groups rec = ((case entry rec of None \<Rightarrow> groups | Some e \<Rightarrow> dedup_add e groups), True)"

definition searchDedup ::
  "(string \<Rightarrow> string) \<Rightarrow> LogSearchConfig \<Rightarrow> source_Record list \<times> stream_end \<Rightarrow> SearchQuery \<Rightarrow> FieldMap \<Rightarrow> log_error + SearchResult" where
  "searchDedup low cfg src q fm =
     (case scan src (searchLimits cfg) (dedup_visit (\<lambda>rec. toEntry low rec q fm)) [] of
        (groups, st, err) \<Rightarrow>
          if err \<noteq> None \<and> \<not> (ss_Partial st \<or> err = Some ErrTimeout \<and> groups \<noteq> []) then Inl (the err)
          else Inr \<lparr>Items = sort_key (\<lambda>g. (- int (en_Count g), - en_LastSeen g)) (map snd groups),
                    NextPageToken = [], sr_Dedup = True, sr_Partial = (ss_Capped st \<or> err \<noteq> None), Scanned = ss_Records st\<rparr>)"

section \<open>The request\<close>

definition findCluster :: "Cluster list option \<Rightarrow> string \<Rightarrow> Cluster option" where
  "findCluster clusters name = (case clusters of None \<Rightarrow> None | Some cls \<Rightarrow> find (\<lambda>c. cl_Name c = name) cls)"

definition log_resolve ::
  "Cluster list option \<Rightarrow> source_Registry \<Rightarrow> string \<Rightarrow> string \<Rightarrow> log_error + Cluster \<times> Provider \<times> string \<times> FieldMap" where
  "log_resolve clusters sources cluster stream =
     (case findCluster clusters cluster of
        None \<Rightarrow> Inl ErrNotFound
      | Some c \<Rightarrow> (case source_For sources c of
            None \<Rightarrow> Inl NoLogSource
          | Some (provider, name) \<Rightarrow>
              if fm_Empty (pv_Fields provider stream) then Inl (NoStream name stream)
              else Inr (c, provider, name, pv_Fields provider stream)))"

definition SourceName :: "Cluster list option \<Rightarrow> source_Registry \<Rightarrow> string \<Rightarrow> string" where
  "SourceName clusters sources cluster =
     (case findCluster clusters cluster of
        None \<Rightarrow> []
      | Some c \<Rightarrow> (case source_For sources c of None \<Rightarrow> [] | Some (_, name) \<Rightarrow> name))"

definition hostInCluster :: "Cluster \<Rightarrow> string \<Rightarrow> bool" where
  "hostInCluster c host \<longleftrightarrow> list_ex (\<lambda>h. h = host) (Hosts c)"

definition validateWindow :: "Cluster \<Rightarrow> time \<Rightarrow> time \<Rightarrow> string \<Rightarrow> log_error option" where
  "validateWindow c from till host =
     (if \<not> before from till then Some FromNotBeforeTo
      else if host \<noteq> [] \<and> \<not> hostInCluster c host then Some (UnknownHost host) else None)"

fun canonical_all :: "FieldMap \<Rightarrow> string list \<Rightarrow> log_error + string list" where
  "canonical_all fm [] = Inr []"
| "canonical_all fm (raw # raws) =
     (if raw = [] then canonical_all fm raws
      else case CanonicalSeverity fm raw of
             None \<Rightarrow> Inl (UnknownSeverity raw)
           | Some v \<Rightarrow> (case canonical_all fm raws of Inl e \<Rightarrow> Inl e | Inr vs \<Rightarrow> Inr (v # vs)))"

definition search_validate :: "Cluster \<Rightarrow> FieldMap \<Rightarrow> SearchQuery \<Rightarrow> log_error + string list" where
  "search_validate c fm q =
     (case validateWindow c (sq_From q) (sq_To q) (sq_Host q) of
        Some e \<Rightarrow> Inl e
      | None \<Rightarrow>
          if sq_Dedup q \<and> sq_PageToken q \<noteq> [] then Inl TokenWithDedup
          else if sq_QueryID q \<noteq> None \<and> fm_QueryID fm = [] then Inl (NoQueryIDRole (sq_Stream q))
          else canonical_all fm (sq_Severities q))"

definition search_params :: "Provider \<Rightarrow> Cluster \<Rightarrow> string list \<Rightarrow> SearchQuery \<Rightarrow> StreamParams" where
  "search_params provider c severities q =
     (let p = \<lparr>sp_Cluster = c, sp_Stream = sq_Stream q, sp_From = sq_From q, sp_To = sq_To q,
               sp_Filter = \<lparr>sf_Severities = severities, sf_Host = sq_Host q, sf_QueryID = sq_QueryID q, sf_Contains = []\<rparr>,
               sp_Token = sq_PageToken q\<rparr>
      in if sq_QueryID q \<noteq> None
         then p\<lparr>sp_Filter := (sp_Filter p)\<lparr>sf_QueryID := sf_QueryID (pv_Narrow provider p)\<rparr>\<rparr> else p)"

definition Search ::
  "(string \<Rightarrow> string) \<Rightarrow> LogSearchConfig \<Rightarrow> Cluster list option \<Rightarrow> source_Registry \<Rightarrow> SearchQuery \<Rightarrow> log_error + SearchResult" where
  "Search low cfg clusters sources q =
     (case log_resolve clusters sources (sq_Cluster q) (sq_Stream q) of
        Inl e \<Rightarrow> Inl e
      | Inr (c, provider, name, fm) \<Rightarrow> (case search_validate c fm q of
            Inl e \<Rightarrow> Inl e
          | Inr severities \<Rightarrow>
              let src = pv_Stream provider (search_params provider c severities q)
              in if sq_Dedup q then searchDedup low cfg src q fm else searchPage low cfg src q fm))"

end
