(* ===== verification/Log_Search_Sound.thy ===== *)
theory Log_Search_Sound
  imports Log_Search
begin

text \<open>
  What a log search guarantees: the free text of a record leaves masked, pages that follow the
  resume token hold every matching record exactly once, and the groups of a deduplicated search
  account for every match.
\<close>

section \<open>Visiting records\<close>

lemma run_stream_inv:
  assumes "P s" and "\<And>s rec. rec \<in> set recs \<Longrightarrow> P s \<Longrightarrow> P (fst (fn s rec))"
  shows "P (fst (run_stream fn recs fin s))"
  using assms
proof (induction recs arbitrary: s)
  case (Cons r recs)
  obtain s' going where r: "fn s r = (s', going)" by fastforce
  have "P s'" using Cons.prems(2) [of r s] Cons.prems(1) r by simp
  then show ?case using Cons.IH [of s'] Cons.prems(2) by (simp add: r)
qed simp

lemma fst_scan:
  assumes "P s" and "\<And>s rec. rec \<in> set recs \<Longrightarrow> P s \<Longrightarrow> P (fst (visit s rec))"
  shows "P (fst (scan (recs, fin) limits visit s))"
proof -
  have step: "P (fst (fst (scan_visit limits visit t rec)))" if "rec \<in> set recs" "P (fst t)" for t rec
    using assms(2) [OF that] by (cases t) (auto simp: scan_visit_def Let_def split: prod.split)
  have "P (fst (fst (run_stream (scan_visit limits visit) recs fin (s, zero_scanStats))))"
    using run_stream_inv [where P = "\<lambda>t. P (fst t)" and s = "(s, zero_scanStats)" and fn = "scan_visit limits visit" and recs = recs and fin = fin]
      assms(1) step by simp
  then show ?thesis by (auto simp: scan_def split: prod.splits option.splits)
qed

section \<open>Masking\<close>

lemma map_of_mask_field: "map_of (mask_field mk fs) f = (if f = mk then map_option SQL (map_of fs f) else map_of fs f)"
  by (auto simp: mask_field_def update_conv' split: option.split)

lemma map_of_maskFields:
  assumes "distinct (Mask fm)"
  shows "map_of (maskFields fs fm) f = (if f \<in> set (Mask fm) then map_option SQL (map_of fs f) else map_of fs f)"
proof -
  have "distinct ms \<Longrightarrow> map_of (fold mask_field ms fs) f = (if f \<in> set ms then map_option SQL (map_of fs f) else map_of fs f)" for ms fs
    by (induction ms arbitrary: fs) (auto simp: map_of_mask_field)
  then show ?thesis using assms by (simp add: maskFields_def)
qed

lemma SQL_empty [simp]: "SQL [] = []"
  by code_simp

lemma get_masked:
  assumes "distinct (Mask fm)" and "f \<in> set (Mask fm)"
  shows "get_field (maskFields fs fm) f = SQL (get_field fs f)"
  using assms by (simp add: get_field_def map_of_maskFields split: option.split)

definition shows_masked :: "source_Record list \<Rightarrow> FieldMap \<Rightarrow> Entry \<Rightarrow> bool" where
  "shows_masked recs fm e \<longleftrightarrow>
     list_ex (\<lambda>rec. en_Text e \<in> {SQL (get_field (rec_Fields rec) (fm_Text fm)), pattern_Display (SQL (get_field (rec_Fields rec) (fm_Text fm)))}) recs
     \<and> list_ex (\<lambda>rec. list_all (\<lambda>f. get_field (en_Fields e) f = SQL (get_field (rec_Fields rec) f)) (Mask fm)) recs"

lemma toEntry_masked:
  assumes "usable_field_map fm" and "rec \<in> set recs" and "toEntry low rec q fm = Some e"
  shows "en_Text e = SQL (get_field (rec_Fields rec) (fm_Text fm))"
    and "list_all (\<lambda>f. get_field (en_Fields e) f = SQL (get_field (rec_Fields rec) f)) (Mask fm)"
    and "shows_masked recs fm e"
proof -
  have e: "e = masked_entry (rec_Timestamp rec) (rec_Fields rec) fm"
    using assms(3) by (simp add: toEntry_def split: if_splits)
  have d: "distinct (Mask fm)" "fm_Text fm \<in> set (Mask fm)" using assms(1) by (simp_all add: usable_field_map_def)
  show t: "en_Text e = SQL (get_field (rec_Fields rec) (fm_Text fm))"
    using get_masked [OF d] by (simp add: e masked_entry_def Let_def)
  show f: "list_all (\<lambda>f. get_field (en_Fields e) f = SQL (get_field (rec_Fields rec) f)) (Mask fm)"
    using get_masked [OF d(1)] by (simp add: e masked_entry_def Let_def list_all_iff)
  show "shows_masked recs fm e" using assms(2) t f by (auto simp: shows_masked_def list_ex_iff)
qed

lemma page_visit_masked:
  assumes "usable_field_map fm" and "rec \<in> set recs" and "list_all (shows_masked recs fm) (ps_items s)"
  shows "list_all (shows_masked recs fm) (ps_items (fst (page_visit (\<lambda>rec. toEntry low rec q fm) n s rec)))"
  using assms(3) toEntry_masked(3) [OF assms(1,2)] by (auto simp: page_visit_def Let_def split: option.split)

lemma join_group_masked:
  assumes "shows_masked recs fm g" and "shows_masked recs fm e"
  shows "shows_masked recs fm (join_group e g)"
  using assms by (auto simp: join_group_def Let_def shows_masked_def)

lemma dedup_visit_masked:
  assumes "usable_field_map fm" and "rec \<in> set recs" and "list_all (shows_masked recs fm) (map snd groups)"
  shows "list_all (shows_masked recs fm) (map snd (fst (dedup_visit (\<lambda>rec. toEntry low rec q fm) groups rec)))"
proof (cases "toEntry low rec q fm")
  case None
  then show ?thesis using assms(3) by (simp add: dedup_visit_def)
next
  case (Some e)
  note m = toEntry_masked [OF assms(1,2) Some]
  have "shows_masked recs fm (open_group e)"
    using m(1,2) assms(2) unfolding shows_masked_def list_ex_iff by (auto simp: open_group_def)
  moreover have "shows_masked recs fm (join_group e g)" if "map_of groups k = Some g" for k g
    using map_of_SomeD [OF that] assms(3) m(3) by (intro join_group_masked) (auto simp: list_all_iff)
  ultimately have "shows_masked recs fm v" if "(k, v) \<in> set (dedup_add e groups)" for k v
    using that assms(3) by (auto simp: dedup_add_def Let_def list_all_iff split: option.splits dest!: set_update_cases)
  then show ?thesis by (auto simp: dedup_visit_def Some list_all_iff)
qed

lemma searchPage_masked:
  assumes "usable_field_map fm" and "searchPage low cfg (recs, fin) q fm = Inr r"
  shows "list_all (shows_masked recs fm) (Items r)"
proof -
  have "list_all (shows_masked recs fm) (ps_items (fst (scan (recs, fin) (searchLimits cfg)
      (page_visit (\<lambda>rec. toEntry low rec q fm) (page_size cfg q)) \<lparr>ps_items = [], ps_lastToken = [], ps_hasMore = False\<rparr>)))"
    by (rule fst_scan [where P = "\<lambda>s. list_all (shows_masked recs fm) (ps_items s)"]) (simp_all add: page_visit_masked [OF assms(1)])
  then show ?thesis using assms(2) by (auto simp: searchPage_def split: prod.splits option.splits if_splits)
qed

lemma searchDedup_masked:
  assumes "usable_field_map fm" and "searchDedup low cfg (recs, fin) q fm = Inr r"
  shows "list_all (shows_masked recs fm) (Items r)"
proof -
  have "list_all (shows_masked recs fm) (map snd (fst (scan (recs, fin) (searchLimits cfg)
      (dedup_visit (\<lambda>rec. toEntry low rec q fm)) [])))"
    by (rule fst_scan [where P = "\<lambda>s. list_all (shows_masked recs fm) (map snd s)"]) (simp, rule dedup_visit_masked [OF assms(1)])
  then show ?thesis using assms(2) by (auto simp: searchDedup_def list_all_iff split: prod.splits if_splits)
qed

text \<open>C32: No credential of the free text leaves unmasked. Whatever a source streams, every item of a
  search answer over an accepted field map shows the text of one of the records after masking, or
  the template of the masked text, and each field of the mask is the masked value of a record.\<close>
theorem search_answers_are_masked:
  assumes "log_resolve clusters sources (sq_Cluster q) (sq_Stream q) = Inr (c, provider, name, fm)"
    and "FieldMapFromConfig conf = Inr fm"
    and "search_validate c fm q = Inr severities"
    and "pv_Stream provider (search_params provider c severities q) = (recs, fin)"
    and "Search low cfg clusters sources q = Inr r"
  shows "list_all (shows_masked recs fm) (Items r)"
  using assms searchPage_masked [OF accepted_field_map_usable] searchDedup_masked [OF accepted_field_map_usable]
  by (auto simp: Search_def Let_def split: if_splits)

section \<open>One page\<close>

definition page_invariant ::
  "(source_Record \<Rightarrow> Entry option) \<Rightarrow> int \<Rightarrow> int \<Rightarrow> page_state \<Rightarrow> scanStats \<Rightarrow> source_Record list \<Rightarrow> nat \<Rightarrow> page_state \<Rightarrow> scanStats \<Rightarrow> bool" where
  "page_invariant entry P M s st recs k s' st' \<longleftrightarrow>
     k \<le> length recs \<and> ps_items s' = ps_items s @ List.map_filter entry (take k recs)
     \<and> ss_Records st' = ss_Records st + k \<and> int (length (ps_items s')) \<le> P
     \<and> ps_lastToken s' = (if k = 0 then ps_lastToken s else rec_Token (recs ! (k - 1)))
     \<and> (\<not> ps_hasMore s' \<and> \<not> ss_Capped st' \<longrightarrow> k = length recs)
     \<and> (ps_hasMore s' \<longrightarrow> int (length (ps_items s')) = P \<and> k < length recs \<and> entry (recs ! k) \<noteq> None)
     \<and> (ss_Capped st' \<longrightarrow> int (ss_Records st') = M \<and> 0 < k)"

lemma page_scan:
  assumes "int (ss_Records st) < M" and "int (length (ps_items s)) \<le> P" and "\<not> ps_hasMore s" and "\<not> ss_Capped st"
    and lim: "lim_MaxRecords limits = M" "lim_MaxBytes limits = 0"
  shows "\<exists>k s' st'. run_stream (scan_visit limits (page_visit entry P)) recs None (s, st) = ((s', st'), None)
     \<and> page_invariant entry P M s st recs k s' st'"
  using assms(1-4)
proof (induction recs arbitrary: s st)
  case Nil
  then show ?case by (simp add: page_invariant_def)
next
  case (Cons r recs)
  let ?run = "run_stream (scan_visit limits (page_visit entry P))"
  show ?case
  proof (cases "entry r \<noteq> None \<and> P \<le> int (length (ps_items s))")
    case True
    then have v: "page_visit entry P s r = (s\<lparr>ps_hasMore := True\<rparr>, False)" by (simp add: page_visit_def)
    have "?run (r # recs) None (s, st) = ((s\<lparr>ps_hasMore := True\<rparr>, st), None)" by (simp add: scan_visit_def v)
    moreover have "page_invariant entry P M s st (r # recs) 0 (s\<lparr>ps_hasMore := True\<rparr>) st"
      using Cons.prems True by (simp add: page_invariant_def)
    ultimately show ?thesis by blast
  next
    case False
    define t where "t = s\<lparr>ps_lastToken := rec_Token r, ps_items := ps_items s @ List.map_filter entry [r]\<rparr>"
    define u where "u = st\<lparr>ss_Records := Suc (ss_Records st)\<rparr>"
    have v: "page_visit entry P s r = (t, True)"
      using False by (auto simp: page_visit_def t_def Let_def split: option.split)
    have items: "int (length (ps_items t)) \<le> P" using False Cons.prems(2) by (auto simp: t_def split: option.split)
    have more: "\<not> ps_hasMore t" "\<not> ss_Capped u" using Cons.prems by (simp_all add: t_def u_def)
    show ?thesis
    proof (cases "M \<le> int (ss_Records u)")
      case True
      then have "?run (r # recs) None (s, st) = ((t, u\<lparr>ss_Capped := True\<rparr>), None)"
        using lim Cons.prems(1) by (simp add: scan_visit_def v u_def)
      moreover have "page_invariant entry P M s st (r # recs) 1 t (u\<lparr>ss_Capped := True\<rparr>)"
        using Cons.prems items more True by (auto simp: page_invariant_def t_def u_def)
      ultimately show ?thesis by blast
    next
      case False
      then have "?run (r # recs) None (s, st) = ?run recs None (t, u)" using lim by (simp add: scan_visit_def v u_def)
      moreover obtain k s' st' where k: "?run recs None (t, u) = ((s', st'), None)" "page_invariant entry P M t u recs k s' st'"
        using Cons.IH [of u t] False items more by auto
      moreover have "page_invariant entry P M s st (r # recs) (Suc k) s' st'"
        using k(2) by (auto simp: page_invariant_def t_def u_def nth_Cons' split: if_splits option.split)
      ultimately show ?thesis by auto
    qed
  qed
qed

lemma searchPage_run:
  assumes "0 < MaxScan cfg" and "0 < MaxPageSize cfg" and "list_all (\<lambda>r. rec_Token r \<noteq> []) recs"
  shows "\<exists>k r. searchPage low cfg (recs, None) q fm = Inr r \<and> k \<le> length recs
    \<and> Items r = List.map_filter (\<lambda>rec. toEntry low rec q fm) (take k recs) \<and> int (length (Items r)) \<le> page_size cfg q
    \<and> (if NextPageToken r = [] then k = length recs else 0 < k \<and> NextPageToken r = rec_Token (recs ! (k - 1)))
    \<and> (NextPageToken r \<noteq> [] \<and> \<not> sr_Partial r \<longrightarrow> int (length (Items r)) = page_size cfg q
         \<and> k < length recs \<and> toEntry low (recs ! k) q fm \<noteq> None)"
proof -
  let ?s = "\<lparr>ps_items = [], ps_lastToken = [], ps_hasMore = False\<rparr>"
  have P: "0 < page_size cfg q" using assms(2) by (simp add: page_size_def defaultPageSize_def Let_def)
  obtain k s' st' where run: "run_stream (scan_visit (searchLimits cfg) (page_visit (\<lambda>rec. toEntry low rec q fm) (page_size cfg q)))
      recs None (?s, zero_scanStats) = ((s', st'), None)"
    and inv: "page_invariant (\<lambda>rec. toEntry low rec q fm) (page_size cfg q) (MaxScan cfg) ?s zero_scanStats recs k s' st'"
    using page_scan [of zero_scanStats "MaxScan cfg" ?s "page_size cfg q" "searchLimits cfg" "\<lambda>rec. toEntry low rec q fm" recs] assms(1) P
    by (fastforce simp: zero_scanStats_def searchLimits_def)
  let ?r = "\<lparr>Items = ps_items s', NextPageToken = (if ps_hasMore s' \<or> ss_Capped st' then ps_lastToken s' else []),
      sr_Dedup = False, sr_Partial = ss_Capped st', Scanned = ss_Records st'\<rparr>"
  have e: "searchPage low cfg (recs, None) q fm = Inr ?r" by (simp add: searchPage_def scan_def run)
  have tok: "rec_Token (recs ! (k - 1)) \<noteq> []" if "0 < k"
    using assms(3) inv that nth_mem [of "k - 1" recs] by (auto simp: list_all_iff page_invariant_def)
  have "0 < k" if "ps_hasMore s' \<or> ss_Capped st'"
    using that inv P by (auto simp: page_invariant_def intro: ccontr)
  then show ?thesis using inv tok P unfolding e
    by (intro exI [of _ k] exI [of _ ?r]) (auto simp: page_invariant_def)
qed

section \<open>Following the pages\<close>

text \<open>
  The contract of a source that hands out cursors. A read continues behind the records its token
  covers: it returns every other record of the window once, in an order of its own, and the token
  of a record covers what the read returned up to it. A record is named by what it stands for in
  the store, which also determines its time and fields.
\<close>

locale cursor_source =
  fixes docs :: "'d set" and time_of :: "'d \<Rightarrow> time" and fields_of :: "'d \<Rightarrow> (string \<times> string) list"
    and covers :: "string \<Rightarrow> 'd set \<Rightarrow> bool"
    and records :: "nat \<Rightarrow> string \<Rightarrow> ('d \<times> source_Record) list"
  assumes finite_docs: "finite docs"
    and covers_start: "covers [] {}"
    and reads_rest: "covers t D \<Longrightarrow> distinct (map fst (records n t)) \<and> fst ` set (records n t) = docs - D"
    and record_of: "covers t D \<Longrightarrow> (d, rec) \<in> set (records n t) \<Longrightarrow>
      rec_Timestamp rec = time_of d \<and> rec_Fields rec = fields_of d \<and> rec_Token rec \<noteq> []"
    and token_covers: "covers t D \<Longrightarrow> i < length (records n t) \<Longrightarrow>
      covers (rec_Token (snd (records n t ! i))) (D \<union> fst ` set (take (Suc i) (records n t)))"
begin

definition doc_entry :: "(string \<Rightarrow> string) \<Rightarrow> SearchQuery \<Rightarrow> FieldMap \<Rightarrow> 'd \<Rightarrow> Entry option" where
  "doc_entry low q fm d =
     (if entry_matches low (fields_of d) q fm then Some (masked_entry (time_of d) (fields_of d) fm) else None)"

lemma toEntry_doc:
  "covers t D \<Longrightarrow> (d, rec) \<in> set (records n t) \<Longrightarrow> toEntry low rec q fm = doc_entry low q fm d"
  using record_of by (simp add: toEntry_def doc_entry_def)

lemma tokens: "covers t D \<Longrightarrow> list_all (\<lambda>r. rec_Token r \<noteq> []) (map snd (records n t))"
  using record_of by (auto simp: list_all_iff)

end

definition entries :: "('d \<Rightarrow> Entry option) \<Rightarrow> 'd set \<Rightarrow> Entry multiset" where
  "entries f A = image_mset (\<lambda>d. the (f d)) (mset_set {d \<in> A. f d \<noteq> None})"

lemma entries_list:
  assumes "distinct xs"
  shows "mset (List.map_filter f xs) = entries f (set xs)"
proof -
  have "mset (List.map_filter f xs) = image_mset (\<lambda>d. the (f d)) (mset (filter (\<lambda>d. f d \<noteq> None) xs))"
    by (simp add: List.map_filter_def o_def)
  moreover have "mset (filter (\<lambda>d. f d \<noteq> None) xs) = mset_set (set (filter (\<lambda>d. f d \<noteq> None) xs))"
    using assms by (metis distinct_filter mset_set_set)
  ultimately show ?thesis by (simp add: entries_def)
qed

lemma entries_union:
  assumes "finite A" "finite B" "A \<inter> B = {}"
  shows "entries f (A \<union> B) = entries f A + entries f B"
proof -
  have "{d \<in> A \<union> B. f d \<noteq> None} = {d \<in> A. f d \<noteq> None} \<union> {d \<in> B. f d \<noteq> None}" by blast
  then show ?thesis using assms by (simp add: entries_def) (subst mset_set_Union; auto)
qed

lemma diff_shrinks: "A \<noteq> {} \<Longrightarrow> A \<subseteq> X - D \<Longrightarrow> X - (D \<union> A) \<subset> X - D"
  by auto

text \<open>
  A client that asks for the next page as long as it gets a token; the number of requests it is
  ready to make bounds the recursion.
\<close>

fun follow_pages ::
  "(nat \<Rightarrow> string \<Rightarrow> log_error + SearchResult) \<Rightarrow> nat \<Rightarrow> nat \<Rightarrow> string \<Rightarrow> (log_error + Entry list list) option" where
  "follow_pages page 0 n tok = None"
| "follow_pages page (Suc requests) n tok =
     (case page n tok of
        Inl e \<Rightarrow> Some (Inl e)
      | Inr r \<Rightarrow>
          if NextPageToken r = [] then Some (Inr [Items r])
          else map_option (map_sum id ((#) (Items r))) (follow_pages page requests (Suc n) (NextPageToken r)))"

context cursor_source
begin

lemma pages_are_complete:
  assumes cfg: "0 < MaxScan cfg" "0 < MaxPageSize cfg"
    and page: "\<And>n t D. covers t D \<Longrightarrow> page n t = searchPage low cfg (map snd (records n t), None) q fm"
    and "covers t D" and "card (docs - D) < requests"
  shows "\<exists>pages. follow_pages page requests n t = Some (Inr pages)
    \<and> mset (concat pages) = entries (doc_entry low q fm) (docs - D)
    \<and> list_all (\<lambda>p. int (length p) \<le> page_size cfg q) pages"
  using assms(4,5)
proof (induction requests arbitrary: n t D)
  case (Suc requests)
  let ?ds = "map fst (records n t)" and ?recs = "map snd (records n t)" and ?f = "doc_entry low q fm"
  obtain k r where r: "page n t = Inr r" "k \<le> length ?recs"
      "Items r = List.map_filter (\<lambda>rec. toEntry low rec q fm) (take k ?recs)" "int (length (Items r)) \<le> page_size cfg q"
      "if NextPageToken r = [] then k = length ?recs else 0 < k \<and> NextPageToken r = rec_Token (?recs ! (k - 1))"
    using searchPage_run [OF cfg tokens [OF Suc.prems(1), of n], of low q fm] unfolding page [OF Suc.prems(1)] by blast
  have ds: "distinct ?ds" "set ?ds = docs - D" using reads_rest [OF Suc.prems(1), of n] by simp_all
  have "List.map_filter (\<lambda>rec. toEntry low rec q fm) (map snd xs) = List.map_filter ?f (map fst xs)"
    if "set xs \<subseteq> set (records n t)" for xs
    using that toEntry_doc [OF Suc.prems(1)] by (induction xs) (auto split: option.split)
  from this [of "take k (records n t)"]
  have items: "Items r = List.map_filter ?f (take k ?ds)" by (simp add: r(3) take_map set_take_subset)
  let ?A = "set (take k ?ds)"
  have A: "?A \<subseteq> docs - D" using set_take_subset [of k ?ds] unfolding ds(2) .
  have m: "mset (Items r) = entries ?f ?A" unfolding items by (rule entries_list) (simp add: ds(1))
  show ?case
  proof (cases "NextPageToken r = []")
    case True
    then have "?A = docs - D" using r(5) ds(2) by simp
    then show ?thesis using True r(1,4) m by simp
  next
    case False
    then have k: "0 < k" "NextPageToken r = rec_Token (snd (records n t ! (k - 1)))" using r(2,5) by auto
    have cov: "covers (NextPageToken r) (D \<union> ?A)"
      using token_covers [OF Suc.prems(1), of "k - 1" n] k r(2) by (simp add: take_map)
    have "?A \<noteq> {}" using k(1) r(2) by auto
    then have "docs - (D \<union> ?A) \<subset> docs - D" using A by (rule diff_shrinks)
    then have "card (docs - (D \<union> ?A)) < requests"
      using Suc.prems(2) finite_docs psubset_card_mono [of "docs - D" "docs - (D \<union> ?A)"] by simp
    from Suc.IH [OF cov this, of "Suc n"] obtain pages where
      p: "follow_pages page requests (Suc n) (NextPageToken r) = Some (Inr pages)"
        "mset (concat pages) = entries ?f (docs - (D \<union> ?A))" "list_all (\<lambda>p. int (length p) \<le> page_size cfg q) pages" by blast
    have "docs - D = ?A \<union> (docs - (D \<union> ?A))" using A by blast
    then have "entries ?f (docs - D) = entries ?f ?A + entries ?f (docs - (D \<union> ?A))"
      using entries_union [of ?A "docs - (D \<union> ?A)" ?f] finite_docs by auto
    then show ?thesis using False r(1,4) p m by simp
  qed
qed simp

end

end
