(* ===== verification/Log_OpenSearch.thy ===== *)
theory Log_OpenSearch
  imports Log_Search_Sound Autosnapshot_Config
begin

text \<open>
  The log source that reads an OpenSearch index (\<^verbatim>\<open>backend/internal/logs/source/opensearch\<close>, with
  \<^verbatim>\<open>source/time.go\<close>): the bounded query, the cursor that carries the timestamp of the last record and
  the identifiers delivered at it, and the loop that reads a range in batches.

  Outside code is a parameter. The store answers the \<open>n\<close>-th request of a read with hits or an error;
  a codec stands for JSON and base64 of the cursor, \<open>time_parse\<close> for \<^verbatim>\<open>time.Parse\<close> with a layout,
  \<open>marshal\<close> for \<^verbatim>\<open>json.Marshal\<close>, and \<open>expand\<close> for \<^verbatim>\<open>text/template\<close>. The loop has fuel; a read
  that is out of fuel has no value.
\<close>

section \<open>Timestamps\<close>

definition timeLayouts :: "string list" where
  "timeLayouts =
     [''2006-01-02T15:04:05.999999999Z07:00'', ''2006-01-02T15:04:05.999999999'',
      ''2006-01-02 15:04:05.999999999-07:00'', ''2006-01-02 15:04:05.999999999'']"

definition UnixMilli :: "i64 \<Rightarrow> time" where "UnixMilli ms = ms * millisecond"

definition floatMillis :: "f64 \<Rightarrow> time option" where
  "floatMillis ms =
     (if ms = NaN \<or> ms < lit (- (2 ^ 63)) \<or> lit (2 ^ 63) \<le> ms then None else Some (UnixMilli (int_of_f64 ms)))"

definition ParseTime :: "(string \<Rightarrow> string \<Rightarrow> time option) \<Rightarrow> json \<Rightarrow> time option" where
  "ParseTime time_parse v =
     (case v of
        JStr t \<Rightarrow>
          let trimmed = TrimSpace t
          in (case List.map_filter (\<lambda>layout. time_parse layout trimmed) timeLayouts of
                ts # _ \<Rightarrow> Some ts
              | [] \<Rightarrow> map_option UnixMilli (ParseInt trimmed))
      | JNum t \<Rightarrow> (case ParseInt t of
            Some ms \<Rightarrow> Some (UnixMilli ms)
          | None \<Rightarrow> (case ParseFloat t of None \<Rightarrow> None | Some ms \<Rightarrow> floatMillis ms))
      | _ \<Rightarrow> None)"

section \<open>Hits\<close>

record os_hit =
  hit_ID :: string
  hit_Source :: "(string \<times> json) list"

definition scalar :: "(json \<Rightarrow> string) \<Rightarrow> json \<Rightarrow> string" where
  "scalar marshal v =
     (case v of JNull \<Rightarrow> [] | JStr t \<Rightarrow> t | JBool b \<Rightarrow> if b then ''true'' else ''false'' | JNum t \<Rightarrow> t | _ \<Rightarrow> marshal v)"

fun flatten :: "(json \<Rightarrow> string) \<Rightarrow> string \<Rightarrow> (string \<times> json) list \<Rightarrow> (string \<times> string) list \<Rightarrow> (string \<times> string) list" where
  "flatten marshal p [] out = out"
| "flatten marshal p ((k, JObj nested) # src) out =
     flatten marshal p src (flatten marshal (if p \<noteq> [] then p @ ''.'' @ k else k) nested out)"
| "flatten marshal p ((k, v) # src) out =
     flatten marshal p src (AList.update (if p \<noteq> [] then p @ ''.'' @ k else k) (scalar marshal v) out)"

definition hit_fields :: "(json \<Rightarrow> string) \<Rightarrow> os_hit \<Rightarrow> (string \<times> string) list" where
  "hit_fields marshal h = flatten marshal [] (hit_Source h) []"

definition hit_time :: "(json \<Rightarrow> string) \<Rightarrow> (string \<Rightarrow> string \<Rightarrow> time option) \<Rightarrow> FieldMap \<Rightarrow> os_hit \<Rightarrow> time option" where
  "hit_time marshal time_parse fm h =
     ParseTime time_parse
       (case map_of (hit_Source h) (fm_Timestamp fm) of
          Some raw \<Rightarrow> raw
        | None \<Rightarrow> (case map_of (hit_fields marshal h) (fm_Timestamp fm) of Some v \<Rightarrow> JStr v | None \<Rightarrow> JNull))"

section \<open>The cursor\<close>

type_synonym cursor = "time \<times> string list"

record os_env =
  env_marshal :: "json \<Rightarrow> string"
  env_time_parse :: "string \<Rightarrow> string \<Rightarrow> time option"
  env_encode :: "cursor \<Rightarrow> string option"
  env_decode :: "string \<Rightarrow> cursor option"
  env_expand :: "string \<Rightarrow> string \<Rightarrow> string option"

definition decodeCursor :: "os_env \<Rightarrow> string \<Rightarrow> source_error + cursor" where
  "decodeCursor env token =
     (if token = [] then Inr (zero_time, [])
      else case env_decode env token of None \<Rightarrow> Inl (ErrInvalidToken ''malformed page token'') | Some c \<Rightarrow> Inr c)"

text \<open>The identifiers at the boundary; the set beside them in the code holds the same strings.\<close>

record boundary =
  bd_ts :: time
  bd_ids :: "string list"

definition newBoundary :: "cursor \<Rightarrow> boundary" where
  "newBoundary c = \<lparr>bd_ts = fst c, bd_ids = snd c\<rparr>"

definition seen :: "boundary \<Rightarrow> time \<Rightarrow> string \<Rightarrow> bool" where
  "seen b ts i \<longleftrightarrow> (if ts \<noteq> bd_ts b then False else i \<in> set (bd_ids b))"

definition boundary_add :: "time \<Rightarrow> string \<Rightarrow> boundary \<Rightarrow> boundary" where
  "boundary_add ts i b = \<lparr>bd_ts = ts, bd_ids = (if ts \<noteq> bd_ts b then [] else bd_ids b) @ [i]\<rparr>"

section \<open>The query\<close>

datatype os_filter = FRange string time time | FTerms string "string list" | FTerm string string | FTermInt string i64
  | FPhrase string string | FTermOrPrefix string string string

record searchRequest =
  rq_Size :: nat
  rq_Sort :: string
  rq_Filters :: "os_filter list"
  rq_TrackTotal :: bool

definition hostFilter :: "FieldMap \<Rightarrow> string \<Rightarrow> os_filter" where
  "hostFilter fm host =
     (let field = Keyword fm (fm_Host fm)
      in if HostMatch fm \<noteq> HostMatchSuffix then FTerm field host else FTermOrPrefix field host (host @ ''.''))"

definition buildSearch ::
  "FieldMap \<Rightarrow> (string \<times> string) list \<Rightarrow> source_Filter \<Rightarrow> time \<Rightarrow> time \<Rightarrow> nat \<Rightarrow> bool \<Rightarrow> searchRequest" where
  "buildSearch fm selector f from till sz trackTotal =
     \<lparr>rq_Size = sz, rq_Sort = fm_Timestamp fm,
      rq_Filters =
        [FRange (fm_Timestamp fm) from till] @
        (if sf_Severities f \<noteq> [] then [FTerms (Keyword fm (fm_Severity fm)) (sf_Severities f)] else []) @
        (if sf_Host f \<noteq> [] then [hostFilter fm (sf_Host f)] else []) @
        (case sf_QueryID f of None \<Rightarrow> [] | Some i \<Rightarrow> [FTermInt (Keyword fm (fm_QueryID fm)) i]) @
        map (FPhrase (fm_Text fm)) (sf_Contains f) @
        map (\<lambda>(k, v). FTerm (Keyword fm k) v) (sort_key fst selector),
      rq_TrackTotal = trackTotal\<rparr>"

section \<open>Batches\<close>

record emitResult =
  em_delivered :: nat
  em_skipped :: nat
  em_stop :: bool

definition hit_record :: "os_env \<Rightarrow> os_hit \<Rightarrow> time \<Rightarrow> string \<Rightarrow> source_Record" where
  "hit_record env h ts token = \<lparr>rec_Timestamp = ts, rec_Fields = hit_fields (env_marshal env) h, rec_Token = token\<rparr>"

fun emit ::
  "os_env \<Rightarrow> FieldMap \<Rightarrow> ('s \<Rightarrow> source_Record \<Rightarrow> 's \<times> bool) \<Rightarrow> os_hit list \<Rightarrow> boundary \<Rightarrow> 's \<Rightarrow> emitResult
    \<Rightarrow> boundary \<times> 's \<times> emitResult \<times> source_error option" where
  "emit env fm fn [] b s res = (b, s, res, None)"
| "emit env fm fn (h # hs) b s res =
     (case hit_time (env_marshal env) (env_time_parse env) fm h of
        None \<Rightarrow> emit env fm fn hs b s (res\<lparr>em_skipped := Suc (em_skipped res)\<rparr>)
      | Some ts \<Rightarrow>
          if seen b ts (hit_ID h) then emit env fm fn hs b s res
          else
            let b = boundary_add ts (hit_ID h) b
            in (case env_encode env (bd_ts b, bd_ids b) of
                 None \<Rightarrow> (b, s, res\<lparr>em_stop := True\<rparr>, Some (SourceFailed ''encode cursor''))
               | Some token \<Rightarrow>
                   let res = res\<lparr>em_delivered := Suc (em_delivered res)\<rparr>
                   in (case fn s (hit_record env h ts token) of (s, going) \<Rightarrow>
                         if going then emit env fm fn hs b s res else (b, s, res\<lparr>em_stop := True\<rparr>, None))))"

definition zero_emitResult :: emitResult where "zero_emitResult = \<lparr>em_delivered = 0, em_skipped = 0, em_stop = False\<rparr>"

record os_limits =
  batchSize :: nat
  maxBoundaryIDs :: nat

text \<open>The two limits of \<^verbatim>\<open>New\<close>, from the configured values.\<close>

definition provider_limits :: "int \<Rightarrow> int \<Rightarrow> os_limits" where
  "provider_limits cfgBatch cfgMax =
     (let batch = (if cfgBatch \<le> 0 then 1000 else cfgBatch);
          bound = (if cfgMax \<le> 0 then max 10000 batch else max cfgMax batch)
      in \<lparr>batchSize = nat batch, maxBoundaryIDs = nat bound\<rparr>)"

fun stream_loop ::
  "nat \<Rightarrow> os_env \<Rightarrow> os_limits \<Rightarrow> (nat \<Rightarrow> searchRequest \<Rightarrow> source_error + os_hit list) \<Rightarrow> FieldMap \<Rightarrow> (string \<times> string) list
    \<Rightarrow> StreamParams \<Rightarrow> ('s \<Rightarrow> source_Record \<Rightarrow> 's \<times> bool) \<Rightarrow> nat \<Rightarrow> time \<Rightarrow> boundary \<Rightarrow> 's \<Rightarrow> ('s \<times> source_error option) option" where
  "stream_loop 0 env lims store fm selector sp fn n from b s = None"
| "stream_loop (Suc fuel) env lims store fm selector sp fn n from b s =
     (let sz = min (length (bd_ids b) + batchSize lims) (maxBoundaryIDs lims)
      in case store n (buildSearch fm selector (sp_Filter sp) from (sp_To sp) sz False) of
           Inl err \<Rightarrow> Some (s, Some err)
         | Inr hits \<Rightarrow> (case emit env fm fn hits b s zero_emitResult of
               (b, s, res, Some err) \<Rightarrow> Some (s, Some err)
             | (b, s, res, None) \<Rightarrow>
                 if em_stop res \<or> length hits < sz then Some (s, None)
                 else if em_delivered res = 0
                 then Some (s, Some (ErrPartial (if em_skipped res = length hits then ''no usable timestamp'' else ''records share one timestamp'')))
                 else stream_loop fuel env lims store fm selector sp fn (Suc n) (bd_ts b) b s))"

record streamDef =
  sd_index :: string
  sd_selector :: "(string \<times> string) list"
  sd_fields :: FieldMap

definition validIndex :: "string \<Rightarrow> bool" where
  "validIndex s \<longleftrightarrow>
     (case s of [] \<Rightarrow> False | c # cs \<Rightarrow> is_word c \<and> list_all (\<lambda>c. is_word c \<or> c \<in> set ''.+*,-'') cs)"

definition expandIndex :: "os_env \<Rightarrow> string \<Rightarrow> string \<Rightarrow> string option" where
  "expandIndex env tmpl cluster =
     (case env_expand env tmpl cluster of None \<Rightarrow> None | Some index \<Rightarrow> if validIndex index then Some index else None)"

fun ExpandMap :: "os_env \<Rightarrow> (string \<times> string) list \<Rightarrow> string \<Rightarrow> (string \<times> string) list option" where
  "ExpandMap env [] cluster = Some []"
| "ExpandMap env ((k, v) # m) cluster =
     (case env_expand env v cluster of
        None \<Rightarrow> None
      | Some value \<Rightarrow> map_option ((#) (k, value)) (ExpandMap env m cluster))"

definition os_Stream ::
  "nat \<Rightarrow> os_env \<Rightarrow> os_limits \<Rightarrow> (string \<Rightarrow> nat \<Rightarrow> searchRequest \<Rightarrow> source_error + os_hit list) \<Rightarrow> (string \<times> streamDef) list
    \<Rightarrow> StreamParams \<Rightarrow> ('s \<Rightarrow> source_Record \<Rightarrow> 's \<times> bool) \<Rightarrow> 's \<Rightarrow> ('s \<times> source_error option) option" where
  "os_Stream fuel env lims store streams sp fn s =
     (case map_of streams (sp_Stream sp) of
        None \<Rightarrow> Some (s, Some (ErrStream (sp_Stream sp)))
      | Some def \<Rightarrow> (case expandIndex env (sd_index def) (cl_Name (sp_Cluster sp)) of
            None \<Rightarrow> Some (s, Some (ErrConfig ''index''))
          | Some index \<Rightarrow> (case ExpandMap env (sd_selector def) (cl_Name (sp_Cluster sp)) of
                None \<Rightarrow> Some (s, Some (ErrConfig ''selector''))
              | Some selector \<Rightarrow> (case decodeCursor env (sp_Token sp) of
                    Inl err \<Rightarrow> Some (s, Some err)
                  | Inr start \<Rightarrow>
                      stream_loop fuel env lims (store index) (sd_fields def) selector sp fn 0
                        (if fst start \<noteq> zero_time then fst start else sp_From sp) (newBoundary start) s))))"

text \<open>
  The source as the service calls it: the records that a callback asking for more is handed, and
  the error the read ends with.
\<close>

definition os_records ::
  "nat \<Rightarrow> os_env \<Rightarrow> os_limits \<Rightarrow> (string \<Rightarrow> nat \<Rightarrow> searchRequest \<Rightarrow> source_error + os_hit list) \<Rightarrow> (string \<times> streamDef) list
    \<Rightarrow> StreamParams \<Rightarrow> source_Record list \<times> stream_end" where
  "os_records fuel env lims store streams sp =
     (case os_Stream fuel env lims store streams sp (\<lambda>s r. (s @ [r], True)) [] of
        None \<Rightarrow> ([], None)
      | Some (recs, err) \<Rightarrow> (recs, map_option (\<lambda>e. (e, CtxLive)) err))"

end
