(* ===== verification/Log_OpenSearch_Sound.thy ===== *)
theory Log_OpenSearch_Sound
  imports Log_OpenSearch
begin

text \<open>
  Reading an index in batches delivers every document of the range exactly once, however the store
  orders documents of one timestamp in each of its answers, and each token resumes right behind its
  record: the OpenSearch source is a source with cursors, so that following the pages of a search
  over it is complete.
\<close>

section \<open>The records of a batch\<close>

fun deliver :: "os_env \<Rightarrow> FieldMap \<Rightarrow> os_hit list \<Rightarrow> boundary \<Rightarrow> (os_hit \<times> source_Record) list \<times> boundary" where
  "deliver env fm [] b = ([], b)"
| "deliver env fm (h # hs) b =
     (case hit_time (env_marshal env) (env_time_parse env) fm h of
        None \<Rightarrow> deliver env fm hs b
      | Some ts \<Rightarrow>
          if seen b ts (hit_ID h) then deliver env fm hs b
          else
            let b = boundary_add ts (hit_ID h) b
            in (case deliver env fm hs b of
                  (recs, b') \<Rightarrow> ((h, hit_record env h ts (the (env_encode env (bd_ts b, bd_ids b)))) # recs, b')))"

fun stops :: "('s \<Rightarrow> source_Record \<Rightarrow> 's \<times> bool) \<Rightarrow> source_Record list \<Rightarrow> 's \<Rightarrow> bool" where
  "stops fn [] s = False"
| "stops fn (r # rs) s = (case fn s r of (s', going) \<Rightarrow> \<not> going \<or> stops fn rs s')"

lemma run_stream_append:
  "run_stream fn (xs @ ys) fin s =
     (if stops fn xs s then (fst (run_stream fn xs None s), None) else run_stream fn ys fin (fst (run_stream fn xs None s)))"
  by (induction xs arbitrary: s) (auto split: prod.split)

lemma run_stream_end: "snd (run_stream fn xs None s) = None"
  by (induction xs arbitrary: s) (auto split: prod.split)

definition encodable :: "os_env \<Rightarrow> time set \<Rightarrow> string set \<Rightarrow> bool" where
  "encodable env T I \<longleftrightarrow>
     (\<forall>ts ids. ts \<in> T \<longrightarrow> set ids \<subseteq> I \<longrightarrow>
        (\<exists>t. env_encode env (ts, ids) = Some t \<and> t \<noteq> [] \<and> env_decode env t = Some (ts, ids)))"

lemma emit_deliver:
  assumes "encodable env T I" and "\<And>h. h \<in> set hs \<Longrightarrow> hit_ID h \<in> I"
    and "\<And>h. h \<in> set hs \<Longrightarrow> \<exists>ts\<in>T. hit_time (env_marshal env) (env_time_parse env) fm h = Some ts"
    and "set (bd_ids b) \<subseteq> I" and "deliver env fm hs b = (recs, b')" and "\<not> em_stop res"
  shows "\<exists>b'' res'. emit env fm fn hs b s res = (b'', fst (run_stream fn (map snd recs) None s), res', None)
     \<and> em_stop res' = stops fn (map snd recs) s
     \<and> (\<not> em_stop res' \<longrightarrow> b'' = b' \<and> em_delivered res' = em_delivered res + length recs)"
  using assms(2-6)
proof (induction hs arbitrary: b s res recs)
  case (Cons h hs)
  obtain ts where ts: "hit_time (env_marshal env) (env_time_parse env) fm h = Some ts" "ts \<in> T" using Cons.prems(2) [of h] by auto
  show ?case
  proof (cases "seen b ts (hit_ID h)")
    case True
    then show ?thesis using Cons.IH [of b recs res s] Cons.prems ts by simp
  next
    case False
    let ?b = "boundary_add ts (hit_ID h) b"
    have ids: "set (bd_ids ?b) \<subseteq> I" and bts: "bd_ts ?b = ts"
      using Cons.prems(1) [of h] Cons.prems(3) by (simp_all add: boundary_add_def)
    obtain tok where tok: "env_encode env (bd_ts ?b, bd_ids ?b) = Some tok"
      using assms(1) ids ts(2) unfolding encodable_def bts by blast
    obtain rs where rs: "deliver env fm hs ?b = (rs, b')" "recs = (h, hit_record env h ts tok) # rs"
      using Cons.prems(4) False ts tok by (auto split: prod.splits)
    obtain s' going where fn: "fn s (hit_record env h ts tok) = (s', going)" by fastforce
    let ?res = "res\<lparr>em_delivered := Suc (em_delivered res)\<rparr>"
    show ?thesis
    proof (cases going)
      case True
      then show ?thesis using Cons.IH [OF Cons.prems(1,2) ids rs(1), of ?res s'] Cons.prems(5) False ts tok fn rs(2) by auto
    next
      case g: False
      then show ?thesis using False ts tok fn rs(2) Cons.prems(5) by simp
    qed
  qed
qed simp

section \<open>A store of documents\<close>

locale search_store =
  fixes env :: os_env and lims :: os_limits and fm :: FieldMap and selector :: "(string \<times> string) list"
    and sp :: StreamParams and docs :: "os_hit set" and ts_of :: "os_hit \<Rightarrow> time"
    and store :: "nat \<Rightarrow> nat \<Rightarrow> searchRequest \<Rightarrow> source_error + os_hit list"
  assumes finite_docs: "finite docs"
    and distinct_ids: "inj_on hit_ID docs"
    and usable_time: "h \<in> docs \<Longrightarrow> hit_time (env_marshal env) (env_time_parse env) fm h = Some (ts_of h)"
    and in_window: "h \<in> docs \<Longrightarrow> sp_From sp \<le> ts_of h" and after_zero: "zero_time < sp_From sp"
    and cursors: "encodable env (ts_of ` docs) (hit_ID ` docs)"
    and batches: "0 < batchSize lims" and boundary_fits: "card {h \<in> docs. ts_of h = ts} < maxBoundaryIDs lims"
    and answers: "sp_From sp \<le> from \<Longrightarrow>
      \<exists>L. store k n (buildSearch fm selector (sp_Filter sp) from (sp_To sp) sz False) = Inr (take sz L)
        \<and> distinct L \<and> set L = {h \<in> docs. from \<le> ts_of h} \<and> sorted (map ts_of L)"
begin

definition at_boundary :: "boundary \<Rightarrow> os_hit set \<Rightarrow> bool" where
  "at_boundary b D \<longleftrightarrow>
     D \<subseteq> docs \<and> distinct (bd_ids b) \<and> set (bd_ids b) = hit_ID ` {h \<in> D. ts_of h = bd_ts b}
     \<and> (\<forall>h\<in>docs. ts_of h < bd_ts b \<longrightarrow> h \<in> D) \<and> (\<forall>h\<in>D. ts_of h \<le> bd_ts b)"

lemma at_boundary_start: "at_boundary (newBoundary (zero_time, [])) {}"
  using in_window after_zero by (fastforce simp: at_boundary_def newBoundary_def)

lemma seen_iff:
  assumes "at_boundary b D" and "h \<in> docs" and "bd_ts b \<le> ts_of h"
  shows "seen b (ts_of h) (hit_ID h) \<longleftrightarrow> h \<in> D"
proof
  assume "seen b (ts_of h) (hit_ID h)"
  then obtain e where "e \<in> D" "hit_ID e = hit_ID h"
    using assms(1) by (auto simp: seen_def at_boundary_def split: if_splits)
  then show "h \<in> D" using assms(1,2) distinct_ids by (auto simp: at_boundary_def dest: inj_onD)
next
  assume "h \<in> D"
  then have "ts_of h = bd_ts b" using assms(1,3) by (force simp: at_boundary_def)
  then show "seen b (ts_of h) (hit_ID h)" using \<open>h \<in> D\<close> assms(1) by (auto simp: seen_def at_boundary_def)
qed

lemma at_boundary_step:
  assumes "at_boundary b D" and "h \<in> docs" and "h \<notin> D" and "\<And>e. e \<in> docs - D \<Longrightarrow> ts_of h \<le> ts_of e"
  shows "at_boundary (boundary_add (ts_of h) (hit_ID h) b) (insert h D)"
proof -
  note b = assms(1) [unfolded at_boundary_def]
  have le: "bd_ts b \<le> ts_of h" using b assms(2,3) by (meson leI)
  have new: "hit_ID h \<notin> hit_ID ` {e \<in> D. ts_of e = t}" for t
    using b assms(2,3) distinct_ids by (auto dest: inj_onD)
  have early: "\<forall>e\<in>docs. ts_of e < ts_of h \<longrightarrow> e \<in> insert h D" using assms(4) by force
  show ?thesis
  proof (cases "ts_of h = bd_ts b")
    case True
    then have "set (bd_ids b @ [hit_ID h]) = hit_ID ` {e \<in> insert h D. ts_of e = ts_of h}" using b by auto
    then show ?thesis using True b new [of "bd_ts b"] assms(2) early by (auto simp: at_boundary_def boundary_add_def)
  next
    case False
    then have "ts_of e < ts_of h" if "e \<in> D" for e using b le that by force
    then have "{e \<in> insert h D. ts_of e = ts_of h} = {h}" "\<forall>e\<in>insert h D. ts_of e \<le> ts_of h" by force+
    then show ?thesis using False b assms(2) early unfolding at_boundary_def by (simp add: boundary_add_def)
  qed
qed

definition record_at :: "boundary \<Rightarrow> os_hit \<Rightarrow> source_Record" where
  "record_at b h = hit_record env h (ts_of h) (the (env_encode env (bd_ts b, bd_ids b)))"

definition chain :: "(os_hit \<times> source_Record) list \<Rightarrow> os_hit set \<Rightarrow> bool" where
  "chain recs D \<longleftrightarrow>
     (\<forall>i < length recs. \<exists>b. snd (recs ! i) = record_at b (fst (recs ! i)) \<and> bd_ts b = ts_of (fst (recs ! i))
        \<and> at_boundary b (D \<union> fst ` set (take (Suc i) recs)))"

lemma chain_Cons:
  assumes "bd_ts b = ts_of h" and "at_boundary b (insert h D)" and "chain recs (insert h D)"
  shows "chain ((h, record_at b h) # recs) D"
  unfolding chain_def
proof (intro allI impI)
  fix i
  assume i: "i < length ((h, record_at b h) # recs)"
  show "\<exists>b'. snd (((h, record_at b h) # recs) ! i) = record_at b' (fst (((h, record_at b h) # recs) ! i))
      \<and> bd_ts b' = ts_of (fst (((h, record_at b h) # recs) ! i))
      \<and> at_boundary b' (D \<union> fst ` set (take (Suc i) ((h, record_at b h) # recs)))"
  proof (cases i)
    case 0
    then show ?thesis using assms(1,2) by auto
  next
    case (Suc j)
    then show ?thesis using assms(3) i by (auto simp: chain_def)
  qed
qed

lemma batch_delivers:
  assumes "at_boundary b D" and "sorted (map ts_of (hs @ zs))" and "distinct hs" and "set hs \<subseteq> docs"
    and "docs - D \<subseteq> set (hs @ zs)" and "\<And>h. h \<in> set hs \<Longrightarrow> bd_ts b \<le> ts_of h"
  shows "\<exists>recs b'. deliver env fm hs b = (recs, b') \<and> map fst recs = filter (\<lambda>h. h \<notin> D) hs
    \<and> chain recs D \<and> at_boundary b' (D \<union> set hs)"
  using assms
proof (induction hs arbitrary: b D)
  case Nil
  then show ?case by (simp add: chain_def)
next
  case (Cons h hs)
  have h: "h \<in> docs" using Cons.prems(4) by simp
  note t = usable_time [OF h]
  have sn: "seen b (ts_of h) (hit_ID h) \<longleftrightarrow> h \<in> D" using Cons.prems(6) [of h] by (intro seen_iff Cons.prems(1) h) simp
  have srt: "sorted (map ts_of (hs @ zs))" "\<And>e. e \<in> set (hs @ zs) \<Longrightarrow> ts_of h \<le> ts_of e" using Cons.prems(2) by auto
  show ?case
  proof (cases "h \<in> D")
    case True
    have "docs - D \<subseteq> set (hs @ zs)" using Cons.prems(5) True by auto
    from Cons.IH [OF Cons.prems(1) srt(1) _ _ this] Cons.prems(3,4,6) obtain recs b' where
      "deliver env fm hs b = (recs, b')" "map fst recs = filter (\<lambda>h. h \<notin> D) hs" "chain recs D" "at_boundary b' (D \<union> set hs)"
      by auto
    then show ?thesis using True sn t by (simp add: insert_absorb)
  next
    case False
    let ?b = "boundary_add (ts_of h) (hit_ID h) b"
    have "ts_of h \<le> ts_of e" if "e \<in> docs - D" for e using that Cons.prems(5) srt(2) by auto
    then have step: "at_boundary ?b (insert h D)" by (intro at_boundary_step Cons.prems(1) h False)
    have "docs - insert h D \<subseteq> set (hs @ zs)" using Cons.prems(5) by auto
    moreover have bt: "bd_ts ?b = ts_of h" by (simp add: boundary_add_def)
    ultimately obtain recs b' where r: "deliver env fm hs ?b = (recs, b')" "map fst recs = filter (\<lambda>e. e \<notin> insert h D) hs"
      "chain recs (insert h D)" "at_boundary b' (insert h D \<union> set hs)"
      using Cons.IH [OF step srt(1)] Cons.prems(3,4) srt(2) by auto
    have "filter (\<lambda>e. e \<notin> insert h D) hs = filter (\<lambda>e. e \<notin> D) hs" using Cons.prems(3) by (intro filter_cong) auto
    moreover have "deliver env fm (h # hs) b = ((h, record_at ?b h) # recs, b')"
      using False sn t r(1) by (simp add: record_at_def Let_def)
    ultimately show ?thesis using False r chain_Cons [OF bt step r(3)] by auto
  qed
qed

end

section \<open>The whole read\<close>

fun read_list ::
  "nat \<Rightarrow> os_env \<Rightarrow> os_limits \<Rightarrow> (nat \<Rightarrow> searchRequest \<Rightarrow> source_error + os_hit list) \<Rightarrow> FieldMap \<Rightarrow> (string \<times> string) list
    \<Rightarrow> StreamParams \<Rightarrow> nat \<Rightarrow> time \<Rightarrow> boundary \<Rightarrow> (os_hit \<times> source_Record) list" where
  "read_list 0 env lims store fm selector sp n from b = []"
| "read_list (Suc fuel) env lims store fm selector sp n from b =
     (let sz = min (length (bd_ids b) + batchSize lims) (maxBoundaryIDs lims)
      in (case store n (buildSearch fm selector (sp_Filter sp) from (sp_To sp) sz False) of
            Inl err \<Rightarrow> []
          | Inr hits \<Rightarrow> (case deliver env fm hits b of
                (recs, b') \<Rightarrow>
                  if length hits < sz then recs
                  else recs @ read_list fuel env lims store fm selector sp (Suc n) (bd_ts b') b')))"

context search_store
begin

lemma boundary_short:
  assumes "at_boundary b D"
  shows "length (bd_ids b) < maxBoundaryIDs lims"
proof -
  have "length (bd_ids b) = card (set (bd_ids b))" using assms unfolding at_boundary_def by (metis distinct_card)
  also have "\<dots> \<le> card {h \<in> D. ts_of h = bd_ts b}"
    using assms finite_docs by (auto simp: at_boundary_def intro!: card_image_le finite_subset [of _ docs])
  also have "\<dots> \<le> card {h \<in> docs. ts_of h = bd_ts b}"
    using assms finite_docs by (intro card_mono) (auto simp: at_boundary_def)
  also have "\<dots> < maxBoundaryIDs lims" by (rule boundary_fits)
  finally show ?thesis .
qed

lemma full_batch_progress:
  assumes "at_boundary b D" and "distinct hits" and "set hits \<subseteq> docs" and "\<And>h. h \<in> set hits \<Longrightarrow> bd_ts b \<le> ts_of h"
    and "length hits = min (length (bd_ids b) + batchSize lims) (maxBoundaryIDs lims)"
  shows "\<exists>h\<in>set hits. h \<notin> D"
proof (rule ccontr)
  assume "\<not> ?thesis"
  then have all: "h \<in> D" if "h \<in> set hits" for h using that by blast
  have "ts_of h = bd_ts b" if "h \<in> set hits" for h
    using all [OF that] assms(1) assms(4) [OF that] by (force simp: at_boundary_def)
  then have "hit_ID ` set hits \<subseteq> set (bd_ids b)" using all assms(1) by (auto simp: at_boundary_def)
  then have "card (hit_ID ` set hits) \<le> length (bd_ids b)"
    by (meson List.finite_set card_length card_mono order_trans)
  moreover have "card (hit_ID ` set hits) = length hits"
    using assms(2,3) distinct_ids by (simp add: card_image inj_on_subset distinct_card)
  ultimately show False using assms(5) boundary_short [OF assms(1)] batches by linarith
qed

lemma chain_append:
  assumes "chain xs D" and "chain ys (D \<union> fst ` set xs)"
  shows "chain (xs @ ys) D"
  unfolding chain_def
proof (intro allI impI)
  fix i
  assume i: "i < length (xs @ ys)"
  show "\<exists>b. snd ((xs @ ys) ! i) = record_at b (fst ((xs @ ys) ! i)) \<and> bd_ts b = ts_of (fst ((xs @ ys) ! i))
      \<and> at_boundary b (D \<union> fst ` set (take (Suc i) (xs @ ys)))"
  proof (cases "i < length xs")
    case True
    then show ?thesis using assms(1) by (simp add: chain_def nth_append)
  next
    case False
    then have "\<exists>b. snd (ys ! (i - length xs)) = record_at b (fst (ys ! (i - length xs)))
        \<and> bd_ts b = ts_of (fst (ys ! (i - length xs)))
        \<and> at_boundary b (D \<union> fst ` set xs \<union> fst ` set (take (Suc (i - length xs)) ys))"
      using assms(2) i by (simp add: chain_def)
    moreover have "D \<union> fst ` set (take (Suc i) (xs @ ys)) = D \<union> fst ` set xs \<union> fst ` set (take (Suc (i - length xs)) ys)"
      using False by (simp add: Suc_diff_le image_Un Un_assoc)
    ultimately show ?thesis using False by (simp add: nth_append)
  qed
qed

definition reads :: "(os_hit \<times> source_Record) list \<Rightarrow> os_hit set \<Rightarrow> bool" where
  "reads recs D \<longleftrightarrow> distinct (map fst recs) \<and> fst ` set recs = docs - D \<and> sorted (map (ts_of \<circ> fst) recs) \<and> chain recs D"

definition batch_size :: "boundary \<Rightarrow> nat" where
  "batch_size b = min (length (bd_ids b) + batchSize lims) (maxBoundaryIDs lims)"

definition batch_request :: "time \<Rightarrow> boundary \<Rightarrow> searchRequest" where
  "batch_request from b = buildSearch fm selector (sp_Filter sp) from (sp_To sp) (batch_size b) False"

definition ready :: "time \<Rightarrow> boundary \<Rightarrow> os_hit set \<Rightarrow> bool" where
  "ready from b D \<longleftrightarrow> at_boundary b D \<and> bd_ts b \<le> from \<and> sp_From sp \<le> from \<and> (\<forall>h\<in>docs - D. from \<le> ts_of h)"

definition batch :: "os_hit list \<Rightarrow> (os_hit \<times> source_Record) list \<Rightarrow> boundary \<Rightarrow> boundary \<Rightarrow> os_hit set \<Rightarrow> bool" where
  "batch hits recs b b' D \<longleftrightarrow>
     set hits \<subseteq> docs \<and> deliver env fm hits b = (recs, b') \<and> distinct (map fst recs) \<and> fst ` set recs = set hits - D
     \<and> sorted (map (ts_of \<circ> fst) recs) \<and> chain recs D \<and> at_boundary b' (D \<union> set hits)
     \<and> (if length hits < batch_size b then docs - D \<subseteq> set hits else recs \<noteq> [])"

lemma next_batch:
  assumes "ready from b D"
  shows "\<exists>hits recs b'. store k n (batch_request from b) = Inr hits \<and> batch hits recs b b' D"
proof -
  note rd = assms [unfolded ready_def]
  obtain L where L: "store k n (batch_request from b) = Inr (take (batch_size b) L)" "distinct L"
      "set L = {h \<in> docs. from \<le> ts_of h}" "sorted (map ts_of L)"
    using answers [of "from"] rd unfolding batch_request_def by blast
  let ?hits = "take (batch_size b) L"
  have hits: "set ?hits \<subseteq> docs" "distinct ?hits" "\<And>h. h \<in> set ?hits \<Longrightarrow> bd_ts b \<le> ts_of h"
    using L(2,3) set_take_subset [of "batch_size b" L] rd by (auto intro: order_trans)
  have rest: "docs - D \<subseteq> set L" using L(3) rd by blast
  obtain recs b' where r: "deliver env fm ?hits b = (recs, b')" "map fst recs = filter (\<lambda>h. h \<notin> D) ?hits"
      "chain recs D" "at_boundary b' (D \<union> set ?hits)"
    using batch_delivers [of b D ?hits "drop (batch_size b) L"] rd L(4) hits rest by auto
  have "fst ` set recs = set ?hits - D" using arg_cong [OF r(2), of set] by auto
  moreover have "sorted (map (ts_of \<circ> fst) recs)"
    using L(4) r(2) by (metis map_map sorted_filter sorted_wrt_take take_map)
  moreover have "recs \<noteq> []" if "\<not> length ?hits < batch_size b"
    using full_batch_progress [of b D ?hits] rd hits that calculation(1) by (auto simp: batch_size_def)
  ultimately show ?thesis using L(1) r hits(1,2) rest by (auto simp: batch_def intro!: exI [of _ ?hits])
qed

lemma next_ready:
  assumes "ready from b D" and "batch hits recs b b' D" and "\<not> length hits < batch_size b"
  shows "ready (bd_ts b') b' (D \<union> set hits)" and "card (docs - (D \<union> set hits)) < card (docs - D)"
proof -
  note bt = assms(2) [unfolded batch_def]
  have "fst ` set recs \<noteq> {}" using bt assms(3) unfolding image_is_empty set_empty by simp
  then obtain h where h: "h \<in> set hits" "h \<notin> D" "h \<in> docs" using bt by auto
  have "ts_of h \<le> bd_ts b'" using bt h by (simp add: at_boundary_def)
  then show "ready (bd_ts b') b' (D \<union> set hits)"
    using in_window [OF h(3)] bt by (auto simp: ready_def at_boundary_def not_less [symmetric])
  have "docs - (D \<union> set hits) \<subset> docs - D" using h by auto
  then show "card (docs - (D \<union> set hits)) < card (docs - D)" using finite_docs by (simp add: psubset_card_mono)
qed

lemma reads_batch:
  assumes "batch hits recs b b' D" and "reads more_recs (D \<union> set hits)"
  shows "reads (recs @ more_recs) D"
proof -
  note bt = assms(1) [unfolded batch_def] and rm = assms(2) [unfolded reads_def]
  have D: "D \<union> fst ` set recs = D \<union> set hits" using bt by blast
  have "ts_of e \<le> ts_of g" if "e \<in> fst ` set recs" "g \<in> fst ` set more_recs" for e g
  proof -
    have "ts_of e \<le> bd_ts b'" using that(1) bt by (auto simp: at_boundary_def)
    also have "bd_ts b' \<le> ts_of g" using that(2) bt rm by (auto simp: at_boundary_def not_less [symmetric])
    finally show ?thesis .
  qed
  then have "ts_of (fst x) \<le> ts_of (fst y)" if "x \<in> set recs" "y \<in> set more_recs" for x y using that by simp
  then have "sorted (map (ts_of \<circ> fst) (recs @ more_recs))" using bt rm by (simp add: sorted_append)
  moreover have "chain (recs @ more_recs) D" using bt rm by (intro chain_append) (simp_all add: D)
  moreover have "fst ` set (recs @ more_recs) = docs - D" using bt rm by (auto simp: image_Un)
  moreover have "distinct (map fst (recs @ more_recs))"
    using bt rm by (simp only: map_append distinct_append set_map) auto
  ultimately show ?thesis unfolding reads_def by blast
qed

lemma read_list_step:
  assumes "store k n (batch_request from b) = Inr hits" and "batch hits recs b b' D"
  shows "read_list (Suc fuel) env lims (store k) fm selector sp n from b =
    (if length hits < batch_size b then recs else recs @ read_list fuel env lims (store k) fm selector sp (Suc n) (bd_ts b') b')"
  using assms by (simp add: batch_def batch_request_def Let_def flip: batch_size_def)

lemma read_list_reads:
  assumes "ready from b D" and "card (docs - D) < fuel"
  shows "reads (read_list fuel env lims (store k) fm selector sp n from b) D"
  using assms
proof (induction fuel arbitrary: n "from" b D)
  case (Suc fuel)
  obtain hits recs b' where st: "store k n (batch_request from b) = Inr hits" and bt: "batch hits recs b b' D"
    using next_batch [OF Suc.prems(1)] by blast
  show ?case
  proof (cases "length hits < batch_size b")
    case True
    then have "docs - D = set hits - D" using bt by (auto simp: batch_def)
    then have "reads recs D" using bt by (simp add: reads_def batch_def)
    then show ?thesis using True by (simp only: read_list_step [OF st bt] if_True)
  next
    case False
    have "reads (read_list fuel env lims (store k) fm selector sp (Suc n) (bd_ts b') b') (D \<union> set hits)"
      using Suc.IH [OF next_ready(1) [OF Suc.prems(1) bt False]] next_ready(2) [OF Suc.prems(1) bt False] Suc.prems(2) by simp
    then show ?thesis using reads_batch [OF bt] False by (simp only: read_list_step [OF st bt] if_False)
  qed
qed simp

lemma batch_emit:
  assumes "at_boundary b D" and "batch hits recs b b' D"
  shows "\<exists>b'' res'. emit env fm fn hits b s zero_emitResult = (b'', fst (run_stream fn (map snd recs) None s), res', None)
     \<and> em_stop res' = stops fn (map snd recs) s \<and> (\<not> em_stop res' \<longrightarrow> b'' = b' \<and> em_delivered res' = length recs)"
proof -
  note bt = assms(2) [unfolded batch_def]
  have "\<exists>b'' res'. emit env fm fn hits b s zero_emitResult = (b'', fst (run_stream fn (map snd recs) None s), res', None)
      \<and> em_stop res' = stops fn (map snd recs) s
      \<and> (\<not> em_stop res' \<longrightarrow> b'' = b' \<and> em_delivered res' = em_delivered zero_emitResult + length recs)"
    using bt usable_time assms(1) by (intro emit_deliver [OF cursors]) (auto simp: at_boundary_def zero_emitResult_def)
  then show ?thesis by (simp add: zero_emitResult_def)
qed

lemma stream_loop_runs:
  assumes "ready from b D" and "card (docs - D) < fuel"
  shows "stream_loop fuel env lims (store k) fm selector sp fn n from b s =
    Some (fst (run_stream fn (map snd (read_list fuel env lims (store k) fm selector sp n from b)) None s), None)"
  using assms
proof (induction fuel arbitrary: n "from" b D s)
  case (Suc fuel)
  obtain hits recs b' where st: "store k n (batch_request from b) = Inr hits" and bt: "batch hits recs b b' D"
    using next_batch [OF Suc.prems(1)] by blast
  have at: "at_boundary b D" using Suc.prems(1) by (simp add: ready_def)
  obtain b'' res' where em: "emit env fm fn hits b s zero_emitResult = (b'', fst (run_stream fn (map snd recs) None s), res', None)"
      "em_stop res' = stops fn (map snd recs) s" "\<not> em_stop res' \<longrightarrow> b'' = b' \<and> em_delivered res' = length recs"
    using batch_emit [OF at bt, of fn s] by (elim exE conjE)
  have loop: "stream_loop (Suc fuel) env lims (store k) fm selector sp fn n from b s =
      (if stops fn (map snd recs) s \<or> length hits < batch_size b then Some (fst (run_stream fn (map snd recs) None s), None)
       else stream_loop fuel env lims (store k) fm selector sp fn (Suc n) (bd_ts b') b' (fst (run_stream fn (map snd recs) None s)))"
    if "length hits < batch_size b \<or> recs \<noteq> []"
  proof -
    have st': "store k n (buildSearch fm selector (sp_Filter sp) from (sp_To sp)
        (min (length (bd_ids b) + batchSize lims) (maxBoundaryIDs lims)) False) = Inr hits"
      using st by (simp only: batch_request_def batch_size_def)
    show ?thesis using em(2,3) that
      by (simp only: stream_loop.simps Let_def st' sum.case em(1) prod.case option.case batch_size_def) auto
  qed
  show ?case
  proof (cases "length hits < batch_size b")
    case True
    then show ?thesis by (simp add: loop read_list_step [OF st bt] del: stream_loop.simps read_list.simps)
  next
    case False
    then have "recs \<noteq> []" using bt by (simp add: batch_def)
    moreover have "stream_loop fuel env lims (store k) fm selector sp fn (Suc n) (bd_ts b') b' t =
        Some (fst (run_stream fn (map snd (read_list fuel env lims (store k) fm selector sp (Suc n) (bd_ts b') b')) None t), None)" for t
      using Suc.IH [OF next_ready(1) [OF Suc.prems(1) bt False]] next_ready(2) [OF Suc.prems(1) bt False] Suc.prems(2) by simp
    ultimately show ?thesis using False
      by (simp add: loop read_list_step [OF st bt] run_stream_append del: stream_loop.simps read_list.simps)
  qed
qed simp

end

section \<open>The source has cursors\<close>

lemma run_stream_collect: "fst (run_stream (\<lambda>s r. (s @ [r], True)) recs None s) = s @ recs"
  by (induction recs arbitrary: s) auto

context search_store
begin

definition start_of :: "cursor \<Rightarrow> time" where
  "start_of c = (if fst c \<noteq> zero_time then fst c else sp_From sp)"

definition covers_token :: "string \<Rightarrow> os_hit set \<Rightarrow> bool" where
  "covers_token t D \<longleftrightarrow>
     (\<exists>c. decodeCursor env t = Inr c \<and> at_boundary (newBoundary c) D \<and> (c = (zero_time, []) \<or> sp_From sp \<le> fst c))"

definition page_records :: "nat \<Rightarrow> nat \<Rightarrow> string \<Rightarrow> (os_hit \<times> source_Record) list" where
  "page_records fuel k t =
     (case decodeCursor env t of
        Inl e \<Rightarrow> []
      | Inr c \<Rightarrow> read_list fuel env lims (store k) fm selector sp 0 (start_of c) (newBoundary c))"

lemma token_ready:
  assumes "at_boundary (newBoundary c) D" and "c = (zero_time, []) \<or> sp_From sp \<le> fst c"
  shows "ready (start_of c) (newBoundary c) D"
proof -
  have D: "h \<in> docs" if "h \<in> docs - D" for h using that by simp
  from assms(2) show ?thesis
  proof
    assume c: "c = (zero_time, [])"
    then show ?thesis using assms(1) after_zero in_window [OF D] by (simp add: ready_def start_of_def newBoundary_def)
  next
    assume f: "sp_From sp \<le> fst c"
    then have "start_of c = fst c" using after_zero by (auto simp: start_of_def)
    then show ?thesis using assms(1) f by (auto simp: ready_def newBoundary_def at_boundary_def not_less [symmetric])
  qed
qed

lemma card_rest: "card docs < fuel \<Longrightarrow> card (docs - D) < fuel"
  using finite_docs by (meson Diff_subset card_mono le_less_trans)

lemma page_reads:
  assumes "covers_token t D" and "card docs < fuel"
  shows "reads (page_records fuel k t) D"
  using assms(1) read_list_reads [OF token_ready card_rest [OF assms(2)]]
  unfolding covers_token_def page_records_def by auto

lemma chain_token:
  assumes "snd x = record_at b (fst x)" and "bd_ts b = ts_of (fst x)" and "at_boundary b D" and "fst x \<in> docs"
  shows "rec_Timestamp (snd x) = ts_of (fst x) \<and> rec_Fields (snd x) = hit_fields (env_marshal env) (fst x)
    \<and> rec_Token (snd x) \<noteq> [] \<and> covers_token (rec_Token (snd x)) D"
proof -
  have "set (bd_ids b) \<subseteq> hit_ID ` docs" using assms(3) by (auto simp: at_boundary_def)
  then obtain t where t: "env_encode env (bd_ts b, bd_ids b) = Some t" "t \<noteq> []" "env_decode env t = Some (bd_ts b, bd_ids b)"
    using cursors assms(2,4) unfolding encodable_def by (metis imageI)
  have "newBoundary (bd_ts b, bd_ids b) = b" by (simp add: newBoundary_def)
  then have "covers_token t D"
    using t assms(2,3) in_window [OF assms(4)] by (auto simp: covers_token_def decodeCursor_def)
  then show ?thesis using assms(1) t by (simp add: record_at_def hit_record_def)
qed

end

sublocale search_store \<subseteq> pages: cursor_source docs ts_of "hit_fields (env_marshal env)" covers_token "page_records (Suc (card docs))"
proof
  show "finite docs" by (rule finite_docs)
  show "covers_token [] {}" using at_boundary_start by (simp add: covers_token_def decodeCursor_def)
  fix t D n
  assume c: "covers_token t D"
  have r: "reads (page_records (Suc (card docs)) n t) D" using page_reads [OF c] by simp
  then show "distinct (map fst (page_records (Suc (card docs)) n t)) \<and> fst ` set (page_records (Suc (card docs)) n t) = docs - D"
    by (simp add: reads_def)
  have tok: "\<exists>b. snd x = record_at b (fst x) \<and> bd_ts b = ts_of (fst x) \<and> at_boundary b (D \<union> fst ` set (take (Suc i) (page_records (Suc (card docs)) n t))) \<and> fst x \<in> docs"
    if "i < length (page_records (Suc (card docs)) n t)" and "x = page_records (Suc (card docs)) n t ! i" for i x
  proof -
    have "fst x \<in> docs" using r that nth_mem [OF that(1)] by (auto simp: reads_def)
    then show ?thesis using r that unfolding reads_def chain_def by blast
  qed
  show "rec_Timestamp rec = ts_of d \<and> rec_Fields rec = hit_fields (env_marshal env) d \<and> rec_Token rec \<noteq> []"
    if "(d, rec) \<in> set (page_records (Suc (card docs)) n t)" for d rec
    using that tok chain_token by (metis fst_conv in_set_conv_nth snd_conv)
  show "covers_token (rec_Token (snd (page_records (Suc (card docs)) n t ! i))) (D \<union> fst ` set (take (Suc i) (page_records (Suc (card docs)) n t)))"
    if "i < length (page_records (Suc (card docs)) n t)" for i
    using tok [OF that refl] chain_token by blast
qed

context search_store
begin

lemma start_covered: "covers_token [] {}"
  by (rule pages.covers_start)

lemma index_pages_complete:
  assumes "0 < MaxScan cfg" and "0 < MaxPageSize cfg"
    and "\<And>k t D. covers_token t D \<Longrightarrow> page k t = searchPage low cfg (map snd (page_records (Suc (card docs)) k t), None) q m"
  shows "\<exists>ps. follow_pages page (Suc (card docs)) 0 [] = Some (Inr ps)
    \<and> mset (concat ps) = entries (\<lambda>h. if entry_matches low (hit_fields (env_marshal env) h) q m
        then Some (masked_entry (ts_of h) (hit_fields (env_marshal env) h) m) else None) docs
    \<and> list_all (\<lambda>p. int (length p) \<le> page_size cfg q) ps"
proof -
  have "pages.doc_entry low q m = (\<lambda>h. if entry_matches low (hit_fields (env_marshal env) h) q m
      then Some (masked_entry (ts_of h) (hit_fields (env_marshal env) h) m) else None)"
    by (simp add: fun_eq_iff pages.doc_entry_def)
  then show ?thesis using pages.pages_are_complete [OF assms start_covered, where requests = "Suc (card docs)" and n = 0] by simp
qed

end

section \<open>Reading and paging through an index\<close>

text \<open>
  What the store promises: whatever the request, the hits are the documents of the range in the
  order of their timestamps, cut at the size asked for; documents of one timestamp may come in
  another order each time.
\<close>

definition answers_by_time ::
  "(nat \<Rightarrow> nat \<Rightarrow> searchRequest \<Rightarrow> source_error + os_hit list) \<Rightarrow> FieldMap \<Rightarrow> (string \<times> string) list \<Rightarrow> StreamParams
    \<Rightarrow> os_hit set \<Rightarrow> (os_hit \<Rightarrow> time) \<Rightarrow> bool" where
  "answers_by_time store fm selector sp docs ts_of \<longleftrightarrow>
     (\<forall>k n from sz. sp_From sp \<le> from \<longrightarrow>
        (\<exists>L. store k n (buildSearch fm selector (sp_Filter sp) from (sp_To sp) sz False) = Inr (take sz L)
           \<and> distinct L \<and> set L = {h \<in> docs. from \<le> ts_of h} \<and> sorted (map ts_of L)))"

text \<open>The documents of a window: identifiers are unique and timestamps are read by the source.\<close>

definition indexed :: "os_env \<Rightarrow> FieldMap \<Rightarrow> StreamParams \<Rightarrow> os_hit set \<Rightarrow> (os_hit \<Rightarrow> time) \<Rightarrow> bool" where
  "indexed env fm sp docs ts_of \<longleftrightarrow>
     finite docs \<and> inj_on hit_ID docs \<and> zero_time < sp_From sp
     \<and> (\<forall>h\<in>docs. hit_time (env_marshal env) (env_time_parse env) fm h = Some (ts_of h) \<and> sp_From sp \<le> ts_of h)"

definition boundary_room :: "os_limits \<Rightarrow> os_hit set \<Rightarrow> (os_hit \<Rightarrow> time) \<Rightarrow> bool" where
  "boundary_room lims docs ts_of \<longleftrightarrow> 0 < batchSize lims \<and> (\<forall>ts. card {h \<in> docs. ts_of h = ts} < maxBoundaryIDs lims)"

lemma search_storeI:
  assumes "indexed env fm sp docs ts_of" and "encodable env (ts_of ` docs) (hit_ID ` docs)"
    and "boundary_room lims docs ts_of" and "answers_by_time store fm selector sp docs ts_of"
  shows "search_store env lims fm selector sp docs ts_of store"
  using assms unfolding indexed_def boundary_room_def answers_by_time_def by unfold_locales blast+

lemma stream_loop_token:
  "stream_loop fuel env lims store fm selector (sp\<lparr>sp_Token := t\<rparr>) fn n from b s = stream_loop fuel env lims store fm selector sp fn n from b s"
  by (induction fuel arbitrary: n "from" b s) (simp_all add: Let_def cong: sum.case_cong prod.case_cong option.case_cong if_cong)

lemma os_records_covered:
  assumes st: "search_store env lims (sd_fields def) selector sp docs ts_of store"
    and src: "map_of streams (sp_Stream sp) = Some def" "expandIndex env (sd_index def) (cl_Name (sp_Cluster sp)) = Some index"
      "ExpandMap env (sd_selector def) (cl_Name (sp_Cluster sp)) = Some selector"
    and cov: "search_store.covers_token env sp docs ts_of t D" and fuel: "card docs < fuel"
  shows "os_records fuel env lims (\<lambda>_. store k) streams (sp\<lparr>sp_Token := t\<rparr>) =
    (map snd (search_store.page_records env lims (sd_fields def) selector sp store fuel k t), None)"
proof -
  obtain c where c: "decodeCursor env t = Inr c" "search_store.at_boundary docs ts_of (newBoundary c) D"
      "c = (zero_time, []) \<or> sp_From sp \<le> fst c"
    using cov unfolding search_store.covers_token_def [OF st] by blast
  have loop: "stream_loop fuel env lims (store k) (sd_fields def) selector sp fn 0 (search_store.start_of sp c) (newBoundary c) s =
      Some (fst (run_stream fn (map snd (read_list fuel env lims (store k) (sd_fields def) selector sp 0 (search_store.start_of sp c) (newBoundary c))) None s), None)"
    for fn :: "source_Record list \<Rightarrow> source_Record \<Rightarrow> source_Record list \<times> bool" and s
    by (rule search_store.stream_loop_runs [OF st search_store.token_ready [OF st c(2,3)] search_store.card_rest [OF st fuel]])
  have "os_Stream fuel env lims (\<lambda>_. store k) streams (sp\<lparr>sp_Token := t\<rparr>) fn s =
      stream_loop fuel env lims (store k) (sd_fields def) selector sp fn 0 (search_store.start_of sp c) (newBoundary c) s"
    for fn :: "source_Record list \<Rightarrow> source_Record \<Rightarrow> source_Record list \<times> bool" and s
    by (simp add: os_Stream_def src c(1) stream_loop_token search_store.start_of_def [OF st])
  then show ?thesis by (simp add: os_records_def loop run_stream_collect search_store.page_records_def [OF st] c(1))
qed

text \<open>C31: The OpenSearch source delivers every document of a range exactly once. With a store that
  answers in the order of timestamps - of documents that share one, in any order and another one
  each time - and fewer documents per timestamp than the boundary holds, the batched read ends and
  hands out each document of the range once, ordered by time, with its time and fields.\<close>
theorem stream_delivers_each_document_once:
  assumes "indexed env (sd_fields def) sp docs ts_of" and "encodable env (ts_of ` docs) (hit_ID ` docs)"
    and "boundary_room lims docs ts_of" and "answers_by_time store (sd_fields def) selector sp docs ts_of"
    and "map_of streams (sp_Stream sp) = Some def" and "expandIndex env (sd_index def) (cl_Name (sp_Cluster sp)) = Some index"
    and "ExpandMap env (sd_selector def) (cl_Name (sp_Cluster sp)) = Some selector"
    and "sp_Token sp = []" and "card docs < fuel"
  shows "\<exists>recs. os_records fuel env lims (\<lambda>_. store k) streams sp = (map snd recs, None)
    \<and> distinct (map fst recs) \<and> fst ` set recs = docs \<and> sorted (map (ts_of \<circ> fst) recs)
    \<and> list_all (\<lambda>(h, r). rec_Timestamp r = ts_of h \<and> rec_Fields r = hit_fields (env_marshal env) h) recs"
proof -
  have st: "search_store env lims (sd_fields def) selector sp docs ts_of store"
    using assms(1-4) by (rule search_storeI)
  have sp: "sp\<lparr>sp_Token := []\<rparr> = sp" using assms(8) by (cases sp) simp
  let ?recs = "search_store.page_records env lims (sd_fields def) selector sp store fuel k []"
  have cov: "search_store.covers_token env sp docs ts_of [] {}" by (rule search_store.start_covered [OF st])
  have r: "search_store.reads env docs ts_of ?recs {}" by (rule search_store.page_reads [OF st cov assms(9)])
  have "os_records fuel env lims (\<lambda>_. store k) streams sp = (map snd ?recs, None)"
    using os_records_covered [OF st assms(5-7) cov assms(9), of k] sp by simp
  moreover have "rec_Timestamp (snd x) = ts_of (fst x) \<and> rec_Fields (snd x) = hit_fields (env_marshal env) (fst x)"
    if x: "x \<in> set ?recs" for x
  proof -
    obtain i where i: "i < length ?recs" "x = ?recs ! i" using x by (metis in_set_conv_nth)
    have "fst x \<in> docs" using r x unfolding search_store.reads_def [OF st] by auto
    then show ?thesis using r i search_store.chain_token [OF st, of x]
      unfolding search_store.reads_def [OF st] search_store.chain_def [OF st] by blast
  qed
  ultimately show ?thesis using r unfolding search_store.reads_def [OF st]
    by (intro exI [of _ ?recs]) (auto simp: list_all_iff)
qed

text \<open>C30: Following the pages of a search over an index finds every match exactly once. A client that
  sends each resume token back, to a store that may order documents of one timestamp differently
  on every request, gets after at most one request more than there are documents all entries of
  the matching documents, none twice and none missing, at most a page size per page.\<close>
theorem following_pages_finds_every_match_once:
  assumes "indexed env (sd_fields def) sp docs ts_of" and "encodable env (ts_of ` docs) (hit_ID ` docs)"
    and "boundary_room lims docs ts_of" and "answers_by_time store (sd_fields def) selector sp docs ts_of"
    and "map_of streams (sp_Stream sp) = Some def" and "expandIndex env (sd_index def) (cl_Name (sp_Cluster sp)) = Some index"
    and "ExpandMap env (sd_selector def) (cl_Name (sp_Cluster sp)) = Some selector"
    and "0 < MaxScan cfg" and "0 < MaxPageSize cfg"
  shows "\<exists>pages.
    follow_pages (\<lambda>k t. searchPage low cfg (os_records (Suc (card docs)) env lims (\<lambda>_. store k) streams (sp\<lparr>sp_Token := t\<rparr>)) q (sd_fields def))
      (Suc (card docs)) 0 [] = Some (Inr pages)
    \<and> mset (concat pages) = entries (\<lambda>h.
        if entry_matches low (hit_fields (env_marshal env) h) q (sd_fields def)
        then Some (masked_entry (ts_of h) (hit_fields (env_marshal env) h) (sd_fields def)) else None) docs
    \<and> list_all (\<lambda>p. int (length p) \<le> page_size cfg q) pages"
proof -
  have st: "search_store env lims (sd_fields def) selector sp docs ts_of store"
    using assms(1-4) by (rule search_storeI)
  have page: "searchPage low cfg (os_records (Suc (card docs)) env lims (\<lambda>_. store k) streams (sp\<lparr>sp_Token := t\<rparr>)) q (sd_fields def) =
      searchPage low cfg (map snd (search_store.page_records env lims (sd_fields def) selector sp store (Suc (card docs)) k t), None) q (sd_fields def)"
    if "search_store.covers_token env sp docs ts_of t D" for k t D
    by (subst os_records_covered [OF st assms(5-7) that]) simp_all
  show ?thesis by (rule search_store.index_pages_complete [OF st assms(8,9) page])
qed

end
