(* ===== verification/Log_OpenSearch_Store.thy ===== *)
theory Log_OpenSearch_Store
  imports Log_OpenSearch_Sound
begin

text \<open>
  A store that keeps its promises: documents in memory, answered in the order of their timestamps
  and, among equal ones, in an order that changes with every request. The source over it meets
  the contract of cursors, and a search over it is paged through.
\<close>

definition memory_store :: "(os_hit \<Rightarrow> time) \<Rightarrow> os_hit list \<Rightarrow> nat \<Rightarrow> nat \<Rightarrow> searchRequest \<Rightarrow> source_error + os_hit list" where
  "memory_store ts docs k n rq =
     (case rq_Filters rq of
        FRange _ from till # _ \<Rightarrow>
          Inr (take (rq_Size rq) (filter (\<lambda>h. from \<le> ts h \<and> ts h \<le> till) (sort_key ts (if even (k + n) then docs else rev docs))))
      | _ \<Rightarrow> Inr [])"

lemma memory_answers:
  assumes "distinct docs" and "\<And>h. h \<in> set docs \<Longrightarrow> ts h \<le> sp_To sp"
  shows "answers_by_time (memory_store ts docs) fm selector sp (set docs) ts"
  unfolding answers_by_time_def
proof (intro allI impI)
  fix k n :: nat and "from" sz
  let ?L = "filter (\<lambda>h. from \<le> ts h \<and> ts h \<le> sp_To sp) (sort_key ts (if even (k + n) then docs else rev docs))"
  have "memory_store ts docs k n (buildSearch fm selector (sp_Filter sp) from (sp_To sp) sz False) = Inr (take sz ?L)"
    by (simp add: memory_store_def buildSearch_def)
  moreover have "distinct ?L" using assms(1) by simp
  moreover have "set ?L = {h \<in> set docs. from \<le> ts h}" using assms(2) by auto
  moreover have "sorted (map ts ?L)" by (intro sorted_filter) simp
  ultimately show "\<exists>L. memory_store ts docs k n (buildSearch fm selector (sp_Filter sp) from (sp_To sp) sz False) = Inr (take sz L)
      \<and> distinct L \<and> set L = {h \<in> set docs. from \<le> ts h} \<and> sorted (map ts L)" by blast
qed

section \<open>Three documents, two of them at one time\<close>

definition demo_hit :: "string \<Rightarrow> string \<Rightarrow> os_hit" where
  "demo_hit i ms = \<lparr>hit_ID = i, hit_Source = [(''time'', JNum ms), (''message'', JStr ''checkpoint starting'')]\<rparr>"

definition demo_docs :: "os_hit list" where
  "demo_docs = [demo_hit ''a'' ''1000'', demo_hit ''b'' ''1000'', demo_hit ''c'' ''2000'']"

definition demo_env :: os_env where
  "demo_env =
     \<lparr>env_marshal = (\<lambda>_. []), env_time_parse = (\<lambda>_ _. None),
      env_encode = (\<lambda>(ts, ids). Some ((if ts = UnixMilli 1000 then CHR ''1'' else CHR ''2'') # concat ids)),
      env_decode = (\<lambda>t. case t of [] \<Rightarrow> None | c # s \<Rightarrow> Some (if c = CHR ''1'' then UnixMilli 1000 else UnixMilli 2000, map (\<lambda>c. [c]) s)),
      env_expand = (\<lambda>tmpl _. Some tmpl)\<rparr>"

definition demo_fields :: FieldMap where
  "demo_fields = zero_FieldMap\<lparr>fm_Timestamp := ''time'', fm_Severity := ''severity'', fm_Text := ''message'', fm_Host := ''host'',
     Mask := [''message''], Severities := pgSeverities, HostMatch := HostMatchExact\<rparr>"

definition demo_def :: streamDef where "demo_def = \<lparr>sd_index = ''logs'', sd_selector = [], sd_fields = demo_fields\<rparr>"

definition demo_sp :: StreamParams where
  "demo_sp =
     \<lparr>sp_Cluster = demo_cluster ''main'', sp_Stream = ''postgresql'', sp_From = 0, sp_To = UnixMilli 5000,
      sp_Filter = \<lparr>sf_Severities = [], sf_Host = [], sf_QueryID = None, sf_Contains = []\<rparr>, sp_Token = []\<rparr>"

definition demo_ts :: "os_hit \<Rightarrow> time" where
  "demo_ts h = (if hit_ID h = ''c'' then UnixMilli 2000 else UnixMilli 1000)"

definition demo_lims :: os_limits where "demo_lims = provider_limits 1 3"

lemma demo_lims_simps: "batchSize demo_lims = 1" "maxBoundaryIDs demo_lims = 3"
  by (simp_all add: demo_lims_def provider_limits_def Let_def)

lemma demo_indexed: "indexed demo_env demo_fields demo_sp (set demo_docs) demo_ts"
proof -
  have "hit_time (env_marshal demo_env) (env_time_parse demo_env) demo_fields h = Some (demo_ts h)" if "h \<in> set demo_docs" for h
  proof -
    have "hit_time (\<lambda>_. []) (\<lambda>_ _. None) demo_fields (demo_hit i ''1000'') = Some (UnixMilli 1000)" for i
      by (simp add: hit_time_def demo_hit_def demo_fields_def ParseTime_def) code_simp
    moreover have "hit_time (\<lambda>_. []) (\<lambda>_ _. None) demo_fields (demo_hit i ''2000'') = Some (UnixMilli 2000)" for i
      by (simp add: hit_time_def demo_hit_def demo_fields_def ParseTime_def) code_simp
    ultimately show ?thesis using that by (auto simp: demo_docs_def demo_ts_def demo_env_def demo_hit_def)
  qed
  then show ?thesis
    by (auto simp: indexed_def demo_docs_def demo_hit_def demo_sp_def demo_ts_def UnixMilli_def millisecond_def zero_time_def second_def)
qed

lemma demo_encodable: "encodable demo_env (demo_ts ` set demo_docs) (hit_ID ` set demo_docs)"
proof -
  have "map (\<lambda>c. [c]) (concat ids) = ids" if "set ids \<subseteq> {''a'', ''b'', ''c''}" for ids using that by (induction ids) auto
  then show ?thesis
    by (auto simp: encodable_def demo_docs_def demo_hit_def demo_env_def demo_ts_def UnixMilli_def millisecond_def)
qed

lemma demo_room: "boundary_room demo_lims (set demo_docs) demo_ts"
proof -
  have "card {h \<in> set demo_docs. demo_ts h = t} \<le> card (if t = UnixMilli 2000 then {demo_hit ''c'' ''2000''} else {demo_hit ''a'' ''1000'', demo_hit ''b'' ''1000''})" for t
    by (rule card_mono) (auto simp: demo_docs_def demo_hit_def demo_ts_def UnixMilli_def millisecond_def split: if_splits)
  also have "card (if t = UnixMilli 2000 then {demo_hit ''c'' ''2000''} else {demo_hit ''a'' ''1000'', demo_hit ''b'' ''1000''}) < 3" for t
    by (simp add: demo_hit_def)
  finally show ?thesis by (simp add: boundary_room_def demo_lims_simps)
qed

lemma demo_answers: "answers_by_time (memory_store demo_ts demo_docs) demo_fields [] demo_sp (set demo_docs) demo_ts"
  by (rule memory_answers) (auto simp: demo_docs_def demo_hit_def demo_sp_def demo_ts_def UnixMilli_def millisecond_def)

interpretation memory: search_store demo_env demo_lims demo_fields "[]" demo_sp "set demo_docs" demo_ts "memory_store demo_ts demo_docs"
  by (rule search_storeI [OF demo_indexed demo_encodable demo_room demo_answers])

lemma demo_card: "card (set demo_docs) = 3"
  by (simp add: demo_docs_def demo_hit_def)

lemma demo_source:
  "map_of [(''postgresql'', demo_def)] (sp_Stream demo_sp) = Some demo_def"
  "expandIndex demo_env (sd_index demo_def) (cl_Name (sp_Cluster demo_sp)) = Some ''logs''"
  "ExpandMap demo_env (sd_selector demo_def) (cl_Name (sp_Cluster demo_sp)) = Some []"
  by (simp_all add: demo_sp_def demo_def_def expandIndex_def demo_env_def validIndex_def is_word_def)

theorem stream_delivers_witness:
  "\<exists>recs. os_records 4 demo_env demo_lims (\<lambda>_. memory_store demo_ts demo_docs 0) [(''postgresql'', demo_def)] demo_sp = (map snd recs, None)
    \<and> distinct (map fst recs) \<and> fst ` set recs = set demo_docs"
proof -
  have f: "sd_fields demo_def = demo_fields" by (simp add: demo_def_def)
  show ?thesis
    using stream_delivers_each_document_once [of demo_env demo_def demo_sp "set demo_docs" demo_ts demo_lims "memory_store demo_ts demo_docs" "[]",
        unfolded f, OF demo_indexed demo_encodable demo_room demo_answers demo_source, where fuel = 4 and k = 0] demo_card
    by (auto simp: demo_sp_def)
qed

definition demo_query :: SearchQuery where
  "demo_query =
     \<lparr>sq_Cluster = ''main'', sq_Stream = ''postgresql'', sq_From = 0, sq_To = UnixMilli 5000, sq_Severities = [], sq_Host = [],
      sq_QueryID = None, sq_Include = [], sq_Exclude = [], sq_Database = [], sq_User = [], sq_Dedup = False,
      sq_PageSize = 1, sq_PageToken = []\<rparr>"

definition demo_search :: LogSearchConfig where
  "demo_search = search_WithDefaults \<lparr>MaxScan = 0, MaxPageSize = 0, TimeoutSeconds = 0\<rparr>"

theorem following_pages_witness:
  "\<exists>pages. follow_pages (\<lambda>k t. searchPage (map lower) demo_search
       (os_records (Suc (card (set demo_docs))) demo_env demo_lims (\<lambda>_. memory_store demo_ts demo_docs k) [(''postgresql'', demo_def)]
          (demo_sp\<lparr>sp_Token := t\<rparr>)) demo_query (sd_fields demo_def)) (Suc (card (set demo_docs))) 0 [] = Some (Inr pages)
    \<and> list_all (\<lambda>p. int (length p) \<le> 1) pages"
proof -
  have "page_size demo_search demo_query = 1"
    by (simp add: page_size_def demo_search_def search_WithDefaults_def demo_query_def)
  moreover have f: "sd_fields demo_def = demo_fields" by (simp add: demo_def_def)
  ultimately show ?thesis
    using following_pages_finds_every_match_once [of demo_env demo_def demo_sp "set demo_docs" demo_ts demo_lims "memory_store demo_ts demo_docs" "[]",
        unfolded f, OF demo_indexed demo_encodable demo_room demo_answers demo_source, of demo_search "map lower" demo_query]
    by (auto simp: demo_search_def search_WithDefaults_def f)
qed

end
