(* ===== verification/Log_Plans.thy ===== *)
theory Log_Plans
  imports Explain_JSON Log_Classify Log_Pattern Sanitize Activity_Profile
begin

text \<open>
  The plans of one window of a log (\<^verbatim>\<open>backend/internal/logs/insights/plans.go\<close>): records
  of \<^verbatim>\<open>auto_explain\<close> are parsed within a budget, grouped by statement and shape, and
  summed up.

  The map of groups is an association list in the order of first appearance. Go ranges over a map
  in an order of its own: the groups and the reasons are sorted afterwards, and only the rounding
  of the total time and the order of the names a dormant rule misses depend on that order. The
  decoder of JSON and the digest are parameters, as in the theories of plans. Counters are numbers
  of records.
\<close>

section \<open>Types\<close>

record PlanLimits =
  MaxPlanBytes :: i64
  MaxPlans :: i64

record DurationStats =
  dur_Min :: f64
  dur_P50 :: f64
  dur_P95 :: f64
  dur_Max :: f64
  dur_Sum :: f64

definition zero_DurationStats :: DurationStats where
  "zero_DurationStats = \<lparr>dur_Min = Fin 0, dur_P50 = Fin 0, dur_P95 = Fin 0, dur_Max = Fin 0, dur_Sum = Fin 0\<rparr>"

record PlanGroup =
  pg_Ord :: nat
  pg_QueryID :: i64
  pg_HasQueryID :: bool
  pg_Hash :: string
  pg_Count :: nat
  pg_Durations :: DurationStats
  pg_First :: time
  pg_Last :: time
  Sample_plan :: QueryPlan
  pg_Findings :: "Finding list"
  pg_Dormant :: "Dormant list"

record GroupRow =
  gr_Ord :: nat
  gr_QueryID :: i64
  gr_HasQueryID :: bool
  gr_Hash :: string
  gr_Count :: nat
  gr_Durations :: DurationStats
  gr_First :: time
  gr_Last :: time
  gr_QueryText :: string
  gr_Indexes :: "string list option"
  gr_Findings :: "Finding list"
  gr_Dormant :: "Dormant list"

definition planIndexes :: "QueryPlan \<Rightarrow> string list" where
  "planIndexes p =
     fold (\<lambda>(_, n) out. if IndexName (own n) \<noteq> [] \<and> IndexName (own n) \<notin> set out then out @ [IndexName (own n)] else out)
       (Walk p (\<lambda>_ _. True)) []"

definition group_Row :: "PlanGroup \<Rightarrow> GroupRow" where
  "group_Row g =
     \<lparr>gr_Ord = pg_Ord g, gr_QueryID = pg_QueryID g, gr_HasQueryID = pg_HasQueryID g, gr_Hash = pg_Hash g,
      gr_Count = pg_Count g, gr_Durations = pg_Durations g, gr_First = pg_First g, gr_Last = pg_Last g,
      gr_QueryText = QueryText (Sample_plan g), gr_Indexes = Some (planIndexes (Sample_plan g)),
      gr_Findings = pg_Findings g, gr_Dormant = pg_Dormant g\<rparr>"

definition WithPlan :: "GroupRow \<Rightarrow> QueryPlan \<Rightarrow> PlanGroup" where
  "WithPlan r p =
     \<lparr>pg_Ord = gr_Ord r, pg_QueryID = gr_QueryID r, pg_HasQueryID = gr_HasQueryID r, pg_Hash = gr_Hash r,
      pg_Count = gr_Count r, pg_Durations = gr_Durations r, pg_First = gr_First r, pg_Last = gr_Last r,
      Sample_plan = p, pg_Findings = gr_Findings r, pg_Dormant = gr_Dormant r\<rparr>"

record DormantRule =
  dr_Code :: string
  dr_Missing :: "string list"
  dr_Groups :: nat

record PlansSummary =
  sm_Records :: nat
  sm_Parsed :: nat
  sm_NotParsed :: "(string \<times> nat) list"
  sm_WithoutQueryID :: nat
  sm_TotalGroups :: nat
  sm_TotalDurationMs :: f64
  sm_MaxDurationMs :: f64
  sm_First :: time
  sm_Last :: time
  sm_Groups :: "PlanGroup list"
  sm_Dormant :: "DormantRule list"
  sm_BudgetExhausted :: bool

record PlanWindow =
  pw_Groups :: "PlanGroup list"
  pw_Partial :: bool
  pw_PlanRecords :: nat

type_synonym planKey = "i64 \<times> bool \<times> string \<times> string"

record planAcc =
  ga_group :: PlanGroup
  ga_durations :: "f64 list"

record Plans =
  pl_limits :: PlanLimits
  pl_records :: nat
  pl_attempted :: nat
  pl_parsed :: nat
  pl_noQueryID :: nat
  pl_notParsed :: "(string \<times> nat) list"
  pl_groups :: "(planKey \<times> planAcc) list"
  pl_exhausted :: bool

section \<open>Adding a record\<close>

definition NewPlans :: "PlanLimits \<Rightarrow> Plans" where
  "NewPlans limits =
     \<lparr>pl_limits = limits, pl_records = 0, pl_attempted = 0, pl_parsed = 0, pl_noQueryID = 0, pl_notParsed = [],
      pl_groups = [], pl_exhausted = False\<rparr>"

definition count_at :: "(string \<times> nat) list \<Rightarrow> string \<Rightarrow> nat" where
  "count_at m code = (case map_of m code of None \<Rightarrow> 0 | Some n \<Rightarrow> n)"

definition count_code :: "string \<Rightarrow> (string \<times> nat) list \<Rightarrow> (string \<times> nat) list" where
  "count_code code m = AList.update code (Suc (count_at m code)) m"

definition widen :: "time \<times> time \<Rightarrow> time \<Rightarrow> time \<times> time" where
  "widen = (\<lambda>(first, last) ts. (if ts < first then ts else first, if last < ts then ts else last))"

definition parseCode :: "explain_error \<Rightarrow> string" where "parseCode err = err_Code err"

definition logged_plan :: "PlanRecord \<Rightarrow> QueryPlan \<Rightarrow> QueryPlan" where
  "logged_plan rec p =
     p\<lparr>QueryID := pr_QueryID rec, HasQueryID := pr_HasQueryID rec, plan_Duration := Some (pr_DurationMs rec),
       QueryText := SQL (QueryText p)\<rparr>"

definition plan_key :: "(string \<Rightarrow> string) \<Rightarrow> PlanRecord \<Rightarrow> QueryPlan \<Rightarrow> planKey" where
  "plan_key sha rec p = (pr_QueryID rec, pr_HasQueryID rec, Hash sha (Root p), pattern_Key (QueryText p))"

definition fresh_acc :: "planKey \<Rightarrow> PlanRecord \<Rightarrow> time \<Rightarrow> QueryPlan \<Rightarrow> planAcc" where
  "fresh_acc key rec ts p =
     \<lparr>ga_group = \<lparr>pg_Ord = 0, pg_QueryID = pr_QueryID rec, pg_HasQueryID = pr_HasQueryID rec, pg_Hash = fst (snd (snd key)),
        pg_Count = 0, pg_Durations = zero_DurationStats, pg_First = ts, pg_Last = ts, Sample_plan = p,
        pg_Findings = [], pg_Dormant = []\<rparr>,
      ga_durations = []\<rparr>"

definition slower_than :: "f64 \<Rightarrow> QueryPlan \<Rightarrow> bool" where
  "slower_than ms p = (case plan_Duration p of None \<Rightarrow> False | Some d \<Rightarrow> d < ms)"

definition count_plan :: "PlanRecord \<Rightarrow> time \<Rightarrow> QueryPlan \<Rightarrow> planAcc \<Rightarrow> planAcc" where
  "count_plan rec ts p acc =
     (let g = ga_group acc;
          (first, last) = widen (pg_First g, pg_Last g) ts;
          g = g\<lparr>pg_Count := Suc (pg_Count g), pg_First := first, pg_Last := last\<rparr>
      in \<lparr>ga_group = (if slower_than (pr_DurationMs rec) (Sample_plan g) then g\<lparr>Sample_plan := p\<rparr> else g),
          ga_durations = ga_durations acc @ [pr_DurationMs rec]\<rparr>)"

definition add_plan :: "(string \<Rightarrow> string) \<Rightarrow> PlanRecord \<Rightarrow> time \<Rightarrow> QueryPlan \<Rightarrow> (planKey \<times> planAcc) list \<Rightarrow> (planKey \<times> planAcc) list" where
  "add_plan sha rec ts p groups =
     (let key = plan_key sha rec p;
          acc = (case map_of groups key of None \<Rightarrow> fresh_acc key rec ts p | Some acc \<Rightarrow> acc)
      in AList.update key (count_plan rec ts p acc) groups)"

definition plans_Add :: "decoder \<Rightarrow> (string \<Rightarrow> string) \<Rightarrow> PlanRecord \<Rightarrow> time \<Rightarrow> Plans \<Rightarrow> Plans" where
  "plans_Add dec sha rec ts a =
     (let a = a\<lparr>pl_records := Suc (pl_records a)\<rparr>;
          lim = pl_limits a
      in if 0 < MaxPlanBytes lim \<and> MaxPlanBytes lim < int (length (pr_Body rec))
         then a\<lparr>pl_notParsed := count_code ''plan_too_large'' (pl_notParsed a)\<rparr>
         else if 0 < MaxPlans lim \<and> MaxPlans lim \<le> int (pl_attempted a)
         then a\<lparr>pl_notParsed := count_code ''plan_budget_exhausted'' (pl_notParsed a), pl_exhausted := True\<rparr>
         else
           (let a = a\<lparr>pl_attempted := Suc (pl_attempted a)\<rparr>
            in case ParsePlan dec (pr_Body rec) SourceLog of
                 Inl err \<Rightarrow> a\<lparr>pl_notParsed := count_code (parseCode err) (pl_notParsed a)\<rparr>
               | Inr p \<Rightarrow>
                   a\<lparr>pl_parsed := Suc (pl_parsed a),
                     pl_noQueryID := (if pr_HasQueryID rec then pl_noQueryID a else Suc (pl_noQueryID a)),
                     pl_groups := add_plan sha rec ts (logged_plan rec p) (pl_groups a)\<rparr>))"

section \<open>Summing up\<close>

text \<open>\<^verbatim>\<open>cmp.Compare\<close> of floats as a key.\<close>

definition asc :: "f64 \<Rightarrow> int \<times> rat" where
  "asc x = (case x of NaN \<Rightarrow> (0, 0) | NInf \<Rightarrow> (1, 0) | Fin r \<Rightarrow> (2, r) | PInf \<Rightarrow> (3, 0))"

definition math_Ceil :: "f64 \<Rightarrow> f64" where
  "math_Ceil x = (case x of Fin q \<Rightarrow> Fin (of_int \<lceil>q\<rceil>) | _ \<Rightarrow> x)"

definition nearest_rank :: "f64 list \<Rightarrow> f64 \<Rightarrow> f64" where
  "nearest_rank ds q = (let i = int_of_f64 (math_Ceil (q * of_i64 (int (length ds)))) - 1 in ds ! nat (max i 0))"

definition durationStats :: "f64 list \<Rightarrow> DurationStats" where
  "durationStats ds =
     (if ds = [] then zero_DurationStats
      else
        (let ds = sort_key asc ds
         in \<lparr>dur_Min = hd ds, dur_P50 = nearest_rank ds (lit (1 / 2)), dur_P95 = nearest_rank ds (lit (95 / 100)),
             dur_Max = last ds, dur_Sum = foldl (+) (Fin 0) ds\<rparr>))"

primrec map_node :: "(node_fields \<Rightarrow> node_fields) \<Rightarrow> Node \<Rightarrow> Node" where
  "map_node f (Node fs cs) = Node (f fs) (map (map_node f) cs)"

definition mask_fields :: "node_fields \<Rightarrow> node_fields" where
  "mask_fields n =
     n\<lparr>Filter := SQL (Filter n), IndexCond := SQL (IndexCond n), RecheckCond := SQL (RecheckCond n),
       HashCond := SQL (HashCond n), MergeCond := SQL (MergeCond n), JoinFilter := SQL (JoinFilter n)\<rparr>"

definition maskPlan :: "QueryPlan \<Rightarrow> QueryPlan" where
  "maskPlan p =
     p\<lparr>QueryText := SQL (QueryText p), QueryParams := SQL (QueryParams p), Root := map_node mask_fields (Root p)\<rparr>"

definition sum_group :: "Context \<Rightarrow> planAcc \<Rightarrow> PlanGroup" where
  "sum_group env acc =
     (let g = (ga_group acc)\<lparr>pg_Durations := durationStats (ga_durations acc), Sample_plan := maskPlan (Sample_plan (ga_group acc))\<rparr>;
          (findings, dormant) = EvaluatePlan (Sample_plan g) env
      in g\<lparr>pg_Findings := findings, pg_Dormant := dormant\<rparr>)"

definition count_dormant :: "Dormant \<Rightarrow> DormantRule list \<Rightarrow> DormantRule list" where
  "count_dormant d rules =
     (let rule = (case find (\<lambda>r. dr_Code r = dorm_Code d) rules of
                    None \<Rightarrow> \<lparr>dr_Code = dorm_Code d, dr_Missing = [], dr_Groups = 0\<rparr> | Some r \<Rightarrow> r);
          missing = fold (\<lambda>m ms. if m \<in> set ms then ms else ms @ [m]) (Missing d) (dr_Missing rule)
      in filter (\<lambda>r. dr_Code r \<noteq> dorm_Code d) rules @ [rule\<lparr>dr_Missing := missing, dr_Groups := Suc (dr_Groups rule)\<rparr>])"

definition group_order :: "PlanGroup \<Rightarrow> (int \<times> rat) \<times> (int \<times> rat) \<times> int \<times> string \<times> i64 \<times> string" where
  "group_order g =
     (desc (dur_Sum (pg_Durations g)), desc (dur_Max (pg_Durations g)), - int (pg_Count g), pg_Hash g, pg_QueryID g,
      QueryText (Sample_plan g))"

definition go_max :: "f64 \<Rightarrow> f64 \<Rightarrow> f64" where
  "go_max a b = (if IsNaN a \<or> IsNaN b then NaN else if a < b then b else a)"

definition span_groups :: "PlanGroup list \<Rightarrow> time \<times> time" where
  "span_groups gs =
     (case gs of
        [] \<Rightarrow> (zero_time, zero_time)
      | g # gs \<Rightarrow> fold (\<lambda>g s. widen (widen s (pg_First g)) (pg_Last g)) gs (pg_First g, pg_Last g))"

definition number_groups :: "PlanGroup list \<Rightarrow> PlanGroup list" where
  "number_groups gs = map (\<lambda>(i, g). g\<lparr>pg_Ord := i\<rparr>) (enumerate 0 gs)"

definition plans_Summary :: "Plans \<Rightarrow> Context \<Rightarrow> PlansSummary" where
  "plans_Summary a env =
     (let gs = map (\<lambda>(_, acc). sum_group env acc) (pl_groups a);
          (first, last) = span_groups gs
      in \<lparr>sm_Records = pl_records a, sm_Parsed = pl_parsed a,
          sm_NotParsed = sort_key (\<lambda>(code, n). (- int n, code)) (pl_notParsed a),
          sm_WithoutQueryID = pl_noQueryID a, sm_TotalGroups = length (pl_groups a),
          sm_TotalDurationMs = fold (\<lambda>g t. t + dur_Sum (pg_Durations g)) gs (Fin 0),
          sm_MaxDurationMs = fold (\<lambda>g t. go_max t (dur_Max (pg_Durations g))) gs (Fin 0),
          sm_First = first, sm_Last = last, sm_Groups = number_groups (sort_key group_order gs),
          sm_Dormant = sort_key dr_Code (fold (\<lambda>g. fold count_dormant (pg_Dormant g)) gs []),
          sm_BudgetExhausted = pl_exhausted a\<rparr>)"

section \<open>The groups an answer carries\<close>

definition mark :: "nat \<Rightarrow> bool list \<times> nat \<Rightarrow> bool list \<times> nat" where
  "mark i = (\<lambda>(keep, kept). if keep ! i then (keep, kept) else (keep[i := True], Suc kept))"

fun take_turns :: "nat \<Rightarrow> (nat \<times> nat) list \<Rightarrow> bool list \<times> nat \<Rightarrow> bool list \<times> nat" where
  "take_turns n [] s = s"
| "take_turns n ((i, j) # turns) s =
     (if n \<le> snd s then s
      else (let s = mark i s in take_turns n turns (if snd s < n then mark j s else s)))"

definition by_max :: "PlanGroup list \<Rightarrow> nat list" where
  "by_max groups = sort_key (\<lambda>i. desc (dur_Max (pg_Durations (groups ! i)))) [0..<length groups]"

definition TopGroups :: "PlanGroup list \<Rightarrow> int \<Rightarrow> PlanGroup list" where
  "TopGroups groups n =
     (if n \<le> 0 \<or> int (length groups) \<le> n then groups
      else
        (let (keep, _) = take_turns (nat n) (enumerate 0 (by_max groups)) (replicate (length groups) False, 0)
         in map fst (filter snd (zip groups keep))))"

end
