(* ===== verification/Log_Plans_Sound.thy ===== *)
theory Log_Plans_Sound
  imports Log_Plans
begin

text \<open>
  What the summary of logged plans is worth: percentiles are the exact nearest ranks in spite of
  the floating-point product, an answer that is cut takes turns between the two rankings, and the
  groups account for every record of the window.
\<close>

section \<open>Nearest ranks\<close>

lemma rank_index:
  assumes r: "0 < r" "r \<le> p" "p - r \<le> 1 / 2 ^ 50" and p: "p \<le> 1" "20 * p * of_nat n = of_int m"
    and n: "0 < n" "n \<le> 2 ^ 40"
  shows "int_of_f64 (math_Ceil (Fin r * of_i64 (int n))) = \<lceil>p * of_nat n\<rceil>"
proof -
  define k where "k = \<lceil>p * of_nat n\<rceil>"
  have pos: "0 < r * of_nat n" using r(1) n(1) by simp
  have pn: "p * of_nat n \<le> of_nat n" using mult_right_mono [OF p(1), of "of_nat n"] by simp
  have n40: "(of_nat n :: rat) \<le> 2 ^ 40" using n(2) by (metis of_nat_le_iff of_nat_numeral of_nat_power)
  have "0 < p * of_nat n" using pos r(2) mult_right_mono [OF r(2), of "of_nat n"] by simp
  then have k1: "1 \<le> k" by (simp add: k_def)
  have "of_int k < p * of_nat n + 1" using ceiling_correct [of "p * of_nat n"] by (simp add: k_def)
  then have "(of_int k :: rat) < 2 ^ 40 + 1" using pn n40 by linarith
  then have "(of_int k :: rat) < of_int (2 ^ 40 + 1)" by simp
  then have kb: "k \<le> 2 ^ 40" unfolding of_int_less_iff by simp
  have up: "rnd (r * of_nat n) \<le> of_int k"
  proof -
    have "r * of_nat n \<le> of_int k"
      using mult_right_mono [OF r(2), of "of_nat n"] le_of_int_ceiling [of "p * of_nat n"] unfolding k_def by linarith
    from rnd_mono_pos [OF pos this] show ?thesis using rnd_int [of k] k1 kb by simp
  qed
  have lo: "of_int k - 1 + 1 / 32 \<le> rnd (r * of_nat n)"
  proof -
    have "of_int (20 * (k - 1)) < (20 * p * of_nat n :: rat)"
      using ceiling_correct [of "p * of_nat n"] by (simp add: k_def)
    then have "20 * (k - 1) < m" unfolding p(2) by (simp only: of_int_less_iff)
    then have "of_int (20 * (k - 1) + 1) \<le> (of_int m :: rat)" by (simp only: of_int_le_iff)
    then have a: "of_int k - 1 + 1 / 20 \<le> p * of_nat n" using p(2) by (simp add: algebra_simps)
    have "(p - r) * of_nat n \<le> (1 / 2 ^ 50) * 2 ^ 40" using r n40 by (intro mult_mono) auto
    then have b: "of_int k - 1 + 1 / 32 \<le> r * of_nat n" using a by (simp add: algebra_simps)
    have e: "(of_int k - 1 + 1 / 32 :: rat) = of_int (32 * (k - 1) + 1) * pow2 (- 5)" by (simp add: pow2_def algebra_simps)
    have "rnd (of_int k - 1 + 1 / 32) = of_int k - 1 + 1 / 32"
      unfolding e by (rule rnd_exact) (use k1 kb in auto)
    moreover have "0 < (of_int k - 1 + 1 / 32 :: rat)" using k1 by (simp add: add_nonneg_pos)
    ultimately show ?thesis using rnd_mono_pos [OF _ b] by simp
  qed
  have c: "\<lceil>rnd (r * of_nat n)\<rceil> = k"
  proof (rule ceiling_unique)
    show "of_int k - 1 < rnd (r * of_nat n)" using lo by linarith
  qed (rule up)
  have "r * of_nat n \<le> 2 ^ 60" using mult_right_mono [OF r(2), of "of_nat n"] pn n40 by simp
  then have f: "fin_of (r * of_nat n) = Fin (rnd (r * of_nat n))" using pos by (intro lit_Fin) simp
  have i: "of_i64 (int n) = Fin (of_nat n)" using of_i64_exact [of "int n"] n(2) by simp
  have "in_i64 k" using k1 kb by (intro in_i64_small) auto
  then show ?thesis using k1 by (simp add: i f math_Ceil_def c int_of_f64_def k_def)
qed

lemma ceil_div:
  fixes a d :: int
  assumes "0 < d"
  shows "- (- a div d) = (a + d - 1) div d"
proof -
  have m: "d * (- a div d) + (- a mod d) = - a" "0 \<le> - a mod d" "- a mod d < d" using assms by (simp_all)
  have "(a + d - 1) div d = - (- a div d)"
    by (rule int_div_pos_eq [where r = "d - 1 - (- a mod d)"]) (use m in \<open>auto simp: algebra_simps\<close>)
  then show ?thesis by simp
qed

lemma rnd_95: "rnd (95 / 100) = 4278419646001971 / 4503599627370496"
proof -
  have f: "floor_log2 (19 / 20) = - 1" by (rule floor_log2_unique) (simp_all add: pow2_def)
  have q: "quantum_exp (19 / 20) = - 53" by (simp add: quantum_exp_def f)
  have "\<lfloor>42784196460019712 / 5 :: rat\<rfloor> = 8556839292003942" by (rule floor_unique) simp_all
  then have "round_half_even (19 / 20 / pow2 (- 53)) = 8556839292003942" by (simp add: round_half_even_def pow2_def Let_def)
  then show ?thesis by (simp add: rnd_def q) (simp add: pow2_def)
qed

lemma p50_index:
  assumes "0 < n" and "n \<le> 2 ^ 40"
  shows "int_of_f64 (math_Ceil (lit (1 / 2) * of_i64 (int n))) = (int n + 1) div 2"
proof -
  have l: "lit (1 / 2) = Fin (1 / 2)" by code_simp
  have "\<lceil>(1 / 2 :: rat) * of_nat n\<rceil> = (int n + 1) div 2"
    using ceiling_divide_eq_div [of "int n" 2] ceil_div [of 2 "int n"] by (simp add: add.commute)
  then show ?thesis unfolding l using rank_index [of "1 / 2" "1 / 2" n "10 * int n"] assms by simp
qed

lemma p95_index:
  assumes "0 < n" and "n \<le> 2 ^ 40"
  shows "int_of_f64 (math_Ceil (lit (95 / 100) * of_i64 (int n))) = (19 * int n + 19) div 20"
proof -
  have l: "lit (95 / 100) = Fin (4278419646001971 / 4503599627370496)"
    using lit_Fin [of "95 / 100"] by (simp only: rnd_95) simp
  have "\<lceil>(19 / 20 :: rat) * of_nat n\<rceil> = (19 * int n + 19) div 20"
    using ceiling_divide_eq_div [of "19 * int n" 20] ceil_div [of 20 "19 * int n"] by (simp add: add.commute)
  then show ?thesis
    unfolding l using rank_index [of "4278419646001971 / 4503599627370496" "19 / 20" n "19 * int n"] assms by simp
qed

section \<open>Percentiles\<close>

lemma asc_le: "x \<noteq> NaN \<Longrightarrow> y \<noteq> NaN \<Longrightarrow> asc x \<le> asc y \<longleftrightarrow> x \<le> y"
  by (cases x; cases y) (auto simp: asc_def less_eq_prod_def less_prod_def)

lemma sort_asc:
  assumes "NaN \<notin> set ds"
  shows "sorted_wrt (\<le>) (sort_key asc ds)"
proof -
  have a: "sorted_wrt (\<lambda>x y. asc x \<le> asc y) (sort_key asc ds)"
    using sorted_sort_key [of asc ds] by (simp add: sorted_map)
  have b: "x \<le> y" if "x \<in> set ds" "y \<in> set ds" "asc x \<le> asc y" for x y
    using assms that asc_le [of x y] by metis
  from a show ?thesis by (rule sorted_wrt_mono_rel [rotated]) (simp add: b)
qed

lemma count_sorted: "length (filter P (sort_key k xs)) = length (filter P xs)"
  by (metis mset_filter mset_sort size_mset)

lemma nth_rank:
  fixes s :: "f64 list"
  assumes "sorted_wrt (\<le>) s" and "NaN \<notin> set s" and "i < length s"
  shows "Suc i \<le> length (filter (\<lambda>d. d \<le> s ! i) s)" and "length (filter (\<lambda>d. d < s ! i) s) \<le> i"
proof -
  have n: "s ! j \<noteq> NaN" if "j < length s" for j using assms(2) that by (metis nth_mem)
  have le: "s ! j \<le> s ! k" if "j \<le> k" "k < length s" for j k
    using assms(1) that n by (cases "j = k") (auto simp: sorted_wrt_iff_nth_less)
  have "filter (\<lambda>d. d \<le> s ! i) (take (Suc i) s) = take (Suc i) s"
    using le assms(3) by (auto simp: filter_id_conv in_set_conv_nth)
  then have "length (filter (\<lambda>d. d \<le> s ! i) s) = Suc i + length (filter (\<lambda>d. d \<le> s ! i) (drop (Suc i) s))"
    using assms(3) by (subst append_take_drop_id [of "Suc i" s, symmetric], subst filter_append) (simp add: min_def)
  then show "Suc i \<le> length (filter (\<lambda>d. d \<le> s ! i) s)" by simp
  have "\<not> s ! k < s ! i" if "i \<le> k" "k < length s" for k
    using le [OF that] f64_not_less [OF n n, of k i] assms(3) that(2) by blast
  then have "filter (\<lambda>d. d < s ! i) (drop i s) = []" by (auto simp: filter_empty_conv in_set_conv_nth)
  then have "length (filter (\<lambda>d. d < s ! i) s) = length (filter (\<lambda>d. d < s ! i) (take i s))"
    by (subst append_take_drop_id [of i s, symmetric], subst filter_append) simp
  also have "\<dots> \<le> i" using length_filter_le [of _ "take i s"] assms(3) by (metis length_take min.absorb4)
  finally show "length (filter (\<lambda>d. d < s ! i) s) \<le> i" .
qed

definition is_percentile :: "nat \<Rightarrow> nat \<Rightarrow> f64 list \<Rightarrow> f64 \<Rightarrow> bool" where
  "is_percentile a b ds x \<longleftrightarrow>
     x \<in> set ds \<and> a * length ds \<le> b * length (filter (\<lambda>d. d \<le> x) ds) \<and> b * length (filter (\<lambda>d. d < x) ds) < a * length ds"

lemma nearest_rank_percentile:
  assumes "ds \<noteq> []" and "NaN \<notin> set ds" and "0 < a" "a \<le> b"
    and "int_of_f64 (math_Ceil (q * of_i64 (int (length ds)))) = (int a * int (length ds) + (int b - 1)) div int b"
  shows "is_percentile a b ds (nearest_rank (sort_key asc ds) q)"
proof -
  let ?n = "length ds" and ?s = "sort_key asc ds"
  define k where "k = (a * ?n + (b - 1)) div b"
  have b: "0 < b" using assms(3,4) by simp
  have "int k = (int a * int ?n + (int b - 1)) div int b" using b by (simp add: k_def zdiv_int add_diff_eq)
  then have q: "int_of_f64 (math_Ceil (q * of_i64 (int ?n))) = int k" using assms(5) by simp
  have m: "b * k + (a * ?n + (b - 1)) mod b = a * ?n + (b - 1)" "(a * ?n + (b - 1)) mod b < b"
    using b by (simp_all add: k_def)
  have lo: "a * ?n \<le> b * k" using m by linarith
  have hi: "b * (k - 1) < a * ?n"
  proof (cases k)
    case (Suc j)
    then show ?thesis using m b by simp
  qed (use assms(1,3) in simp)
  have k0: "0 < k" using lo assms(1,3) by (cases k) auto
  have kn: "k - 1 < ?n"
  proof -
    have "b * (k - 1) < b * ?n" using hi assms(4) by (meson less_le_trans mult_le_mono1)
    then show ?thesis by simp
  qed
  have x: "nearest_rank ?s q = ?s ! (k - 1)" using k0 by (simp add: nearest_rank_def q nat_diff_distrib')
  have s: "sorted_wrt (\<le>) ?s" "NaN \<notin> set ?s" "k - 1 < length ?s" using sort_asc assms(2) kn by auto
  have "?s ! (k - 1) \<in> set ds" using s(3) nth_mem [of "k - 1" ?s] by simp
  moreover have "b * k \<le> b * length (filter (\<lambda>d. d \<le> ?s ! (k - 1)) ds)"
    using nth_rank(1) [OF s] k0 by (simp add: count_sorted)
  moreover have "b * length (filter (\<lambda>d. d < ?s ! (k - 1)) ds) \<le> b * (k - 1)"
    using nth_rank(2) [OF s] by (simp add: count_sorted)
  ultimately show ?thesis unfolding x is_percentile_def using lo hi by linarith
qed

text \<open>
  C29: the percentiles of a group are exact. The median and the 95th percentile are durations that
  were logged: at least half, or nineteen of twenty, of the durations are at most that long and
  fewer are shorter, although the rank is computed in floating point. Least and greatest are
  bounds of all.
\<close>

theorem percentiles_are_exact:
  assumes "ds \<noteq> []" and "NaN \<notin> set ds" and "length ds \<le> 2 ^ 40"
  shows "is_percentile 1 2 ds (dur_P50 (durationStats ds)) \<and> is_percentile 19 20 ds (dur_P95 (durationStats ds))
    \<and> list_all (\<lambda>d. dur_Min (durationStats ds) \<le> d \<and> d \<le> dur_Max (durationStats ds)) ds"
proof -
  let ?s = "sort_key asc ds"
  have n: "0 < length ds" using assms(1) by simp
  have "is_percentile 1 2 ds (nearest_rank ?s (lit (1 / 2)))"
    by (rule nearest_rank_percentile [OF assms(1,2)]) (simp_all add: p50_index [OF n assms(3)])
  moreover have "is_percentile 19 20 ds (nearest_rank ?s (lit (95 / 100)))"
  proof (rule nearest_rank_percentile [OF assms(1,2)])
    show "int_of_f64 (math_Ceil (lit (95 / 100) * of_i64 (int (length ds)))) =
        (int 19 * int (length ds) + (int 20 - 1)) div int 20"
      unfolding p95_index [OF n assms(3)] by simp
  qed simp_all
  moreover have "hd ?s \<le> d \<and> d \<le> last ?s" if "d \<in> set ds" for d
  proof -
    have s: "sorted_wrt (\<le>) ?s" by (rule sort_asc [OF assms(2)])
    have ne: "?s \<noteq> []" using assms(1) by (metis set_empty set_sort)
    have d: "d \<in> set ?s" "d \<noteq> NaN" using that assms(2) by auto
    obtain i where i: "i < length ?s" "?s ! i = d" using d(1) unfolding in_set_conv_nth by blast
    have le: "?s ! j \<le> ?s ! k" if "j \<le> k" "k < length ?s" for j k
    proof (cases "j = k")
      case True
      then show ?thesis using assms(2) that(2) nth_mem [of k ?s] by (auto intro: f64_le_refl)
    qed (use s that in \<open>auto simp: sorted_wrt_iff_nth_less\<close>)
    show ?thesis using le [of 0 i] le [of i "length ?s - 1"] i ne by (simp add: hd_conv_nth last_conv_nth del: length_sort)
  qed
  ultimately show ?thesis using assms(1) unfolding durationStats_def Let_def by (simp only: DurationStats.simps if_False list_all_iff) blast
qed

theorem percentiles_witness:
  "is_percentile 1 2 [Fin 3, Fin 1, Fin 2] (dur_P50 (durationStats [Fin 3, Fin 1, Fin 2]))
   \<and> dur_P50 (durationStats [Fin 3, Fin 1, Fin 2]) = Fin 2"
proof
  show "is_percentile 1 2 [Fin 3, Fin 1, Fin 2] (dur_P50 (durationStats [Fin 3, Fin 1, Fin 2]))"
    using percentiles_are_exact [of "[Fin 3, Fin 1, Fin 2]"] by simp
  show "dur_P50 (durationStats [Fin 3, Fin 1, Fin 2]) = Fin 2" by code_simp
qed

section \<open>Two rankings in turn\<close>

definition marked :: "bool list \<Rightarrow> nat" where "marked keep = length (filter (\<lambda>b. b) keep)"

lemma count_update: "i < length keep \<Longrightarrow> marked (keep[i := True]) = (if keep ! i then marked keep else Suc (marked keep))"
proof (induction keep arbitrary: i)
  case (Cons b keep)
  then show ?case by (cases i) (auto simp: marked_def)
qed simp

lemma mark_count: "i < length keep \<Longrightarrow> mark i (keep, marked keep) = (keep[i := True], marked (keep[i := True]))"
  by (auto simp: mark_def count_update) (metis (full_types) list_update_id)

lemma count_le: "i < length keep \<Longrightarrow> marked (keep[i := True]) \<le> Suc (marked keep)"
  by (simp add: count_update)

text \<open>One round of the loop, on the marks alone.\<close>

definition turn :: "nat \<Rightarrow> nat \<times> nat \<Rightarrow> bool list \<Rightarrow> bool list" where
  "turn n = (\<lambda>(i, j) keep. if marked (keep[i := True]) < n then keep[i := True, j := True] else keep[i := True])"

lemma take_turns_Cons:
  assumes "i < length keep" and "j < length keep"
  shows "take_turns n ((i, j) # turns) (keep, marked keep) =
    (if n \<le> marked keep then (keep, marked keep) else take_turns n turns (turn n (i, j) keep, marked (turn n (i, j) keep)))"
  using assms by (simp add: turn_def mark_count)

lemma turn_facts:
  assumes "i < length keep" and "j < length keep" and "\<not> n \<le> marked keep"
  shows "length (turn n (i, j) keep) = length keep" and "marked (turn n (i, j) keep) \<le> n"
    and "marked (turn n (i, j) keep) \<le> marked keep + 2" and "turn n (i, j) keep ! i"
    and "keep ! k \<Longrightarrow> turn n (i, j) keep ! k" and "marked keep + 2 \<le> n \<Longrightarrow> turn n (i, j) keep ! j"
proof -
  note c = count_le [OF assms(1)] count_le [of j "keep[i := True]"]
  show "length (turn n (i, j) keep) = length keep" "turn n (i, j) keep ! i"
    using assms by (auto simp: turn_def nth_list_update)
  show "marked (turn n (i, j) keep) \<le> n" "marked (turn n (i, j) keep) \<le> marked keep + 2"
    using c assms by (auto simp: turn_def)
  show "keep ! k \<Longrightarrow> turn n (i, j) keep ! k"
    using assms by (cases "k < length keep") (auto simp: turn_def nth_list_update)
  show "marked keep + 2 \<le> n \<Longrightarrow> turn n (i, j) keep ! j" using c assms by (auto simp: turn_def)
qed

lemma take_turns_marks:
  assumes "list_all (\<lambda>(i, j). i < length keep \<and> j < length keep) turns" and "marked keep \<le> n"
  shows "\<exists>keep'. take_turns n turns (keep, marked keep) = (keep', marked keep') \<and> length keep' = length keep \<and> marked keep' \<le> n
    \<and> (\<forall>k. keep ! k \<longrightarrow> keep' ! k)
    \<and> (marked keep' = n \<or> (\<forall>(i, j) \<in> set turns. keep' ! i))
    \<and> (\<forall>t < length turns. marked keep + 2 * t < n \<longrightarrow> keep' ! fst (turns ! t))
    \<and> (\<forall>t < length turns. marked keep + 2 * t + 1 < n \<longrightarrow> keep' ! snd (turns ! t))"
  using assms
proof (induction turns arbitrary: keep)
  case (Cons ij turns)
  obtain i j where ij: "ij = (i, j)" by fastforce
  have i: "i < length keep" and j: "j < length keep" using Cons.prems(1) by (simp_all add: ij)
  show ?case
  proof (cases "n \<le> marked keep")
    case True
    then show ?thesis using Cons.prems(2) by (auto simp: ij take_turns_Cons [OF i j])
  next
    case False
    define k1 where "k1 = turn n (i, j) keep"
    note t = turn_facts [OF i j False, folded k1_def]
    have "list_all (\<lambda>(i, j). i < length k1 \<and> j < length k1) turns" using Cons.prems(1) by (simp add: t(1))
    from Cons.IH [OF this t(2)] obtain k2 where k2: "take_turns n turns (k1, marked k1) = (k2, marked k2)"
      "length k2 = length k1" "marked k2 \<le> n" "\<forall>k. k1 ! k \<longrightarrow> k2 ! k"
      "marked k2 = n \<or> (\<forall>(i, j) \<in> set turns. k2 ! i)"
      "\<forall>t < length turns. marked k1 + 2 * t < n \<longrightarrow> k2 ! fst (turns ! t)"
      "\<forall>t < length turns. marked k1 + 2 * t + 1 < n \<longrightarrow> k2 ! snd (turns ! t)" by blast
    have e: "take_turns n (ij # turns) (keep, marked keep) = (k2, marked k2)"
      unfolding ij take_turns_Cons [OF i j] k1_def [symmetric] using False k2(1) by simp
    have f: "k2 ! fst ((ij # turns) ! t)" if "t < Suc (length turns)" "marked keep + 2 * t < n" for t
      using that k2(4,6) t(3,4) by (cases t) (auto simp: ij)
    have s: "k2 ! snd ((ij # turns) ! t)" if "t < Suc (length turns)" "marked keep + 2 * t + 1 < n" for t
      using that k2(4,7) t(3,6) by (cases t) (auto simp: ij)
    have c: "marked k2 = n \<or> (\<forall>(i, j) \<in> set (ij # turns). k2 ! i)" using k2(4,5) t(4) by (auto simp: ij)
    show ?thesis using e k2(2,3,4) t(1,5) f s c by (intro exI [of _ k2]) auto
  qed
qed simp

lemma kept_sublist: "length keep = length xs \<Longrightarrow> subseq (map fst (filter snd (zip xs keep))) xs
    \<and> length (map fst (filter snd (zip xs keep))) = marked keep"
proof (induction keep xs rule: list_induct2)
  case (Cons b keep x xs)
  then show ?case by (cases b) (auto simp: marked_def)
qed (simp add: marked_def)

lemma kept_element: "length keep = length xs \<Longrightarrow> i < length xs \<Longrightarrow> keep ! i \<Longrightarrow> xs ! i \<in> set (map fst (filter snd (zip xs keep)))"
  by (auto simp: set_zip image_iff)

lemma all_marked: "\<forall>i < length keep. keep ! i \<Longrightarrow> marked keep = length keep"
  unfolding marked_def by (subst filter_True) (auto simp: in_set_conv_nth)

text \<open>
  A cut list of plan groups serves both rankings. It has exactly as many groups as asked for,
  in the order of the full list; the better half of them are the first by total time, and the
  groups with the slowest runs have the other half: neither ranking spends the limit alone.
\<close>

theorem top_groups_take_turns:
  assumes "0 < n" and "n < length groups"
  shows "length (TopGroups groups (int n)) = n \<and> subseq (TopGroups groups (int n)) groups
    \<and> set (take ((n + 1) div 2) groups) \<subseteq> set (TopGroups groups (int n))
    \<and> (\<lambda>i. groups ! i) ` set (take (n div 2) (by_max groups)) \<subseteq> set (TopGroups groups (int n))"
proof -
  let ?N = "length groups" and ?turns = "enumerate 0 (by_max groups)"
  have b: "length (by_max groups) = ?N" "set (by_max groups) = {0..<?N}" by (simp_all add: by_max_def)
  have m0: "marked (replicate ?N False) = 0" by (simp add: marked_def)
  have "by_max groups ! t < ?N" if "t < ?N" for t using b that nth_mem [of t "by_max groups"] by auto
  then have ok: "list_all (\<lambda>(i, j). i < length (replicate ?N False) \<and> j < length (replicate ?N False)) ?turns"
    by (auto simp: list_all_iff b(1) in_set_enumerate_eq)
  obtain keep where k: "take_turns n ?turns (replicate ?N False, 0) = (keep, marked keep)" "length keep = ?N" "marked keep \<le> n"
    "marked keep = n \<or> (\<forall>(i, j) \<in> set ?turns. keep ! i)"
    "\<forall>t < ?N. 2 * t < n \<longrightarrow> keep ! fst (?turns ! t)" "\<forall>t < ?N. 2 * t + 1 < n \<longrightarrow> keep ! snd (?turns ! t)"
    using take_turns_marks [OF ok, of n] by (auto simp: m0 b(1))
  have turn: "?turns ! t = (t, by_max groups ! t)" if "t < ?N" for t using that by (simp add: nth_enumerate_eq b(1))
  have n: "marked keep = n"
  proof (rule ccontr)
    assume "marked keep \<noteq> n"
    then have "\<forall>i < length keep. keep ! i" using k(2,4) turn b(1) by (metis (no_types, lifting) case_prodD length_enumerate nth_mem)
    from all_marked [OF this] show False using k(2,3) assms(2) by simp
  qed
  have e: "TopGroups groups (int n) = map fst (filter snd (zip groups keep))"
    using assms by (simp add: TopGroups_def k(1))
  have f: "keep ! i" if "i < (n + 1) div 2" for i
  proof -
    have "2 * i < n" using that by presburger
    then show ?thesis using k(5) [rule_format, of i] turn [of i] assms(2) by simp
  qed
  have g: "keep ! (by_max groups ! t)" if "t < n div 2" for t
  proof -
    have "2 * t + 1 < n" using that by presburger
    then show ?thesis using k(6) [rule_format, of t] turn [of t] assms(2) by simp
  qed
  have "set (take ((n + 1) div 2) groups) \<subseteq> set (TopGroups groups (int n))"
    unfolding e using kept_element [OF k(2)] f by (auto simp: in_set_conv_nth)
  moreover have "(\<lambda>i. groups ! i) ` set (take (n div 2) (by_max groups)) \<subseteq> set (TopGroups groups (int n))"
    unfolding e using kept_element [OF k(2)] g \<open>\<And>t. t < ?N \<Longrightarrow> by_max groups ! t < ?N\<close> b(1) by (auto simp: in_set_conv_nth)
  ultimately show ?thesis using kept_sublist [OF k(2)] n by (simp add: e)
qed

definition sample_group :: "f64 \<Rightarrow> PlanGroup" where
  "sample_group d =
     \<lparr>pg_Ord = 0, pg_QueryID = 0, pg_HasQueryID = False, pg_Hash = ''ab'', pg_Count = 1,
      pg_Durations = zero_DurationStats\<lparr>dur_Max := d\<rparr>, pg_First = 0, pg_Last = 0, Sample_plan = nested_plan,
      pg_Findings = [], pg_Dormant = []\<rparr>"

theorem top_groups_witness:
  "(0 :: nat) < 1 \<and> 1 < length [sample_group (Fin 1), sample_group (Fin 2)]
   \<and> length (TopGroups [sample_group (Fin 1), sample_group (Fin 2)] (int 1)) = 1"
  using top_groups_take_turns [of 1 "[sample_group (Fin 1), sample_group (Fin 2)]"] by simp

end
