(* ===== verification/Log_Plans_Groups.thy ===== *)
theory Log_Plans_Groups
  imports Log_Plans_Sound
begin

text \<open>
  The accumulator of plan records against its specification: which records are parsed, and what
  every group holds of them.
\<close>

section \<open>Specification\<close>

type_synonym stamped = "PlanRecord \<times> time"

definition fits_bytes :: "PlanLimits \<Rightarrow> stamped \<Rightarrow> bool" where
  "fits_bytes limits = (\<lambda>(rec, ts). \<not> (0 < MaxPlanBytes limits \<and> MaxPlanBytes limits < int (length (pr_Body rec))))"

text \<open>The records whose plan is looked at: those of admissible size, as many as the budget allows.\<close>

definition admitted :: "PlanLimits \<Rightarrow> stamped list \<Rightarrow> stamped list" where
  "admitted limits recs =
     (let small = filter (fits_bytes limits) recs in if 0 < MaxPlans limits then take (nat (MaxPlans limits)) small else small)"

type_synonym parsed_record = "PlanRecord \<times> time \<times> QueryPlan"

definition parsed_record :: "decoder \<Rightarrow> stamped \<Rightarrow> parsed_record option" where
  "parsed_record dec = (\<lambda>(rec, ts).
     case ParsePlan dec (pr_Body rec) SourceLog of Inl _ \<Rightarrow> None | Inr p \<Rightarrow> Some (rec, ts, logged_plan rec p))"

definition parsed_plans :: "decoder \<Rightarrow> PlanLimits \<Rightarrow> stamped list \<Rightarrow> parsed_record list" where
  "parsed_plans dec limits recs = List.map_filter (parsed_record dec) (admitted limits recs)"

definition key_of :: "(string \<Rightarrow> string) \<Rightarrow> parsed_record \<Rightarrow> planKey" where
  "key_of sha = (\<lambda>(rec, ts, p). plan_key sha rec p)"

abbreviation ms_of :: "parsed_record \<Rightarrow> f64" where "ms_of q \<equiv> pr_DurationMs (fst q)"

text \<open>
  What a group says of its records: how many they are, how long each took, when the first and the
  last was logged, and the plan of one that no other exceeds.
\<close>

definition group_ok :: "planKey \<Rightarrow> planAcc \<Rightarrow> parsed_record list \<Rightarrow> bool" where
  "group_ok key acc qs \<longleftrightarrow>
     (let g = ga_group acc
      in qs \<noteq> [] \<and> pg_Count g = length qs \<and> ga_durations acc = map ms_of qs
         \<and> (pg_QueryID g, pg_HasQueryID g, pg_Hash g) = (fst key, fst (snd key), fst (snd (snd key)))
         \<and> pg_First g = Min (set (map (fst \<circ> snd) qs)) \<and> pg_Last g = Max (set (map (fst \<circ> snd) qs))
         \<and> list_ex (\<lambda>q. Sample_plan g = snd (snd q) \<and> list_all (\<lambda>r. \<not> ms_of q < ms_of r) qs) qs)"

abbreviation run_plans :: "decoder \<Rightarrow> (string \<Rightarrow> string) \<Rightarrow> PlanLimits \<Rightarrow> stamped list \<Rightarrow> Plans" where
  "run_plans dec sha limits recs \<equiv> fold (\<lambda>(rec, ts). plans_Add dec sha rec ts) recs (NewPlans limits)"

definition groups_ok :: "(string \<Rightarrow> string) \<Rightarrow> (planKey \<times> planAcc) list \<Rightarrow> parsed_record list \<Rightarrow> bool" where
  "groups_ok sha groups ps \<longleftrightarrow>
     distinct (map fst groups) \<and> fst ` set groups = key_of sha ` set ps
     \<and> list_all (\<lambda>(key, acc). group_ok key acc (filter (\<lambda>q. key_of sha q = key) ps)) groups"

section \<open>One record\<close>

lemma map_filter_snoc: "List.map_filter f (xs @ [x]) = List.map_filter f xs @ (case f x of None \<Rightarrow> [] | Some y \<Rightarrow> [y])"
  by (simp add: List.map_filter_def split: option.split)

lemma admitted_snoc:
  "admitted limits (recs @ [r]) =
     admitted limits recs @ (if fits_bytes limits r \<and> (0 < MaxPlans limits \<longrightarrow> int (length (admitted limits recs)) < MaxPlans limits) then [r] else [])"
  by (auto simp: admitted_def Let_def min_def)

lemma parsed_snoc:
  "parsed_plans dec limits (recs @ [r]) =
     parsed_plans dec limits recs
     @ (if fits_bytes limits r \<and> (0 < MaxPlans limits \<longrightarrow> int (length (admitted limits recs)) < MaxPlans limits)
        then (case parsed_record dec r of None \<Rightarrow> [] | Some q \<Rightarrow> [q]) else [])"
  by (cases "fits_bytes limits r \<and> (0 < MaxPlans limits \<longrightarrow> int (length (admitted limits recs)) < MaxPlans limits)")
    (auto simp: parsed_plans_def admitted_snoc map_filter_snoc)

lemma logged_duration: "parsed_record dec r = Some q \<Longrightarrow> plan_Duration (snd (snd q)) = Some (ms_of q)"
  by (auto simp: parsed_record_def logged_plan_def split: sum.splits prod.splits)

lemma widen_Min_Max:
  assumes "ts \<noteq> []"
  shows "widen (Min (set ts), Max (set ts)) t = (Min (set (ts @ [t])), Max (set (ts @ [t])))"
proof -
  have "Min (insert t (set ts)) = min t (Min (set ts))" "Max (insert t (set ts)) = max t (Max (set ts))"
    using assms by simp_all
  then show ?thesis by (auto simp: widen_def min_def max_def)
qed

lemma f64_less_irrefl [simp]: "\<not> x < (x :: f64)"
  by (simp add: less_f64_def)

lemma f64_less_trans: "x < y \<Longrightarrow> y < z \<Longrightarrow> x < (z :: f64)"
  by (meson f64_less_imp_le f64_le_less_trans)

lemma group_ok_fresh:
  assumes "key_of sha q = key" and "plan_Duration (snd (snd q)) = Some (ms_of q)"
  shows "group_ok key (count_plan (fst q) (fst (snd q)) (snd (snd q)) (fresh_acc key (fst q) (fst (snd q)) (snd (snd q)))) [q]"
  using assms by (cases q) (auto simp: group_ok_def count_plan_def fresh_acc_def widen_def slower_than_def key_of_def plan_key_def Let_def)

lemma group_ok_count:
  assumes "group_ok key acc qs" and "plan_Duration (snd (snd q)) = Some (ms_of q)"
    and "list_all (\<lambda>q. plan_Duration (snd (snd q)) = Some (ms_of q)) qs"
  shows "group_ok key (count_plan (fst q) (fst (snd q)) (snd (snd q)) acc) (qs @ [q])"
proof -
  let ?g = "ga_group acc"
  have ok: "qs \<noteq> []" "pg_Count ?g = length qs" "ga_durations acc = map ms_of qs"
      "(pg_QueryID ?g, pg_HasQueryID ?g, pg_Hash ?g) = (fst key, fst (snd key), fst (snd (snd key)))"
    and span: "pg_First ?g = Min (set (map (fst \<circ> snd) qs))" "pg_Last ?g = Max (set (map (fst \<circ> snd) qs))"
    using assms(1) by (simp_all add: group_ok_def Let_def)
  obtain s where s: "s \<in> set qs" "Sample_plan ?g = snd (snd s)" "\<forall>r\<in>set qs. \<not> ms_of s < ms_of r"
    using assms(1) by (auto simp: group_ok_def Let_def list_ex_iff list_all_iff)
  have d: "slower_than (ms_of q) (Sample_plan ?g) \<longleftrightarrow> ms_of s < ms_of q"
    using assms(3) s(1,2) by (auto simp: slower_than_def list_all_iff)
  have w: "widen (pg_First ?g, pg_Last ?g) (fst (snd q)) =
      (Min (set (map (fst \<circ> snd) (qs @ [q]))), Max (set (map (fst \<circ> snd) (qs @ [q]))))"
    using widen_Min_Max [of "map (fst \<circ> snd) qs" "fst (snd q)"] ok(1) by (simp add: span)
  have e: "list_ex (\<lambda>t. (if ms_of s < ms_of q then snd (snd q) else Sample_plan ?g) = snd (snd t)
      \<and> list_all (\<lambda>r. \<not> ms_of t < ms_of r) (qs @ [q])) (qs @ [q])"
  proof (cases "ms_of s < ms_of q")
    case True
    have "\<not> ms_of q < ms_of r" if "r \<in> set qs" for r using f64_less_trans [OF True, of "ms_of r"] s(3) that by blast
    then show ?thesis using True by (simp add: list_all_iff)
  next
    case False
    then show ?thesis using s by (auto simp: list_ex_iff list_all_iff)
  qed
  show ?thesis by (cases "ms_of s < ms_of q") (use ok e in \<open>simp_all add: group_ok_def count_plan_def Let_def w d\<close>)
qed

lemma groups_ok_find:
  assumes "groups_ok sha groups ps"
  shows "map_of groups key = Some acc \<Longrightarrow> group_ok key acc (filter (\<lambda>q. key_of sha q = key) ps)"
    and "map_of groups key = None \<longleftrightarrow> filter (\<lambda>q. key_of sha q = key) ps = []"
proof -
  show "map_of groups key = Some acc \<Longrightarrow> group_ok key acc (filter (\<lambda>q. key_of sha q = key) ps)"
    using assms map_of_SomeD [of groups key acc] by (auto simp: groups_ok_def list_all_iff)
  have "map_of groups key = None \<longleftrightarrow> key \<notin> key_of sha ` set ps" using assms by (simp add: groups_ok_def map_of_eq_None_iff)
  then show "map_of groups key = None \<longleftrightarrow> filter (\<lambda>q. key_of sha q = key) ps = []" by (auto simp: filter_empty_conv)
qed

lemma groups_okI:
  assumes "distinct (map fst groups)" and "fst ` set groups = key_of sha ` set ps"
    and "\<And>key acc. map_of groups key = Some acc \<Longrightarrow> group_ok key acc (filter (\<lambda>q. key_of sha q = key) ps)"
  shows "groups_ok sha groups ps"
  using assms by (auto simp: groups_ok_def list_all_iff)

lemma add_plan_groups:
  assumes "groups_ok sha groups ps" and "plan_Duration (snd (snd q)) = Some (ms_of q)"
    and "list_all (\<lambda>q. plan_Duration (snd (snd q)) = Some (ms_of q)) ps"
  shows "groups_ok sha (add_plan sha (fst q) (fst (snd q)) (snd (snd q)) groups) (ps @ [q])"
proof -
  let ?key = "key_of sha q"
  have k: "plan_key sha (fst q) (snd (snd q)) = ?key" by (cases q) (simp add: key_of_def)
  define acc where "acc = (case map_of groups ?key of None \<Rightarrow> fresh_acc ?key (fst q) (fst (snd q)) (snd (snd q)) | Some acc \<Rightarrow> acc)"
  have e: "add_plan sha (fst q) (fst (snd q)) (snd (snd q)) groups =
      AList.update ?key (count_plan (fst q) (fst (snd q)) (snd (snd q)) acc) groups"
    by (simp add: add_plan_def k acc_def Let_def)
  have old: "list_all (\<lambda>q. plan_Duration (snd (snd q)) = Some (ms_of q)) (filter (\<lambda>r. key_of sha r = ?key) ps)"
    using assms(3) by (auto simp: list_all_iff)
  have new: "group_ok ?key (count_plan (fst q) (fst (snd q)) (snd (snd q)) acc) (filter (\<lambda>r. key_of sha r = ?key) ps @ [q])"
  proof (cases "map_of groups ?key")
    case None
    then have "filter (\<lambda>r. key_of sha r = ?key) ps = []" using groups_ok_find(2) [OF assms(1)] by blast
    then show ?thesis using group_ok_fresh [OF refl assms(2), of sha] by (simp add: acc_def None)
  next
    case (Some a)
    then show ?thesis using group_ok_count [OF groups_ok_find(1) [OF assms(1) Some] assms(2) old] by (simp add: acc_def)
  qed
  show ?thesis unfolding e
  proof (rule groups_okI)
    show "distinct (map fst (AList.update ?key (count_plan (fst q) (fst (snd q)) (snd (snd q)) acc) groups))"
      using assms(1) by (simp add: groups_ok_def distinct_update)
    have "fst ` set (AList.update ?key v groups) = insert ?key (fst ` set groups)" for v :: planAcc
      using dom_update [of ?key v groups] by (simp add: dom_map_of_conv_image_fst)
    then show "fst ` set (AList.update ?key (count_plan (fst q) (fst (snd q)) (snd (snd q)) acc) groups) = key_of sha ` set (ps @ [q])"
      using assms(1) by (simp add: groups_ok_def)
  next
    fix key a
    assume a: "map_of (AList.update ?key (count_plan (fst q) (fst (snd q)) (snd (snd q)) acc) groups) key = Some a"
    show "group_ok key a (filter (\<lambda>r. key_of sha r = key) (ps @ [q]))"
      using a new groups_ok_find(1) [OF assms(1), of key a] by (cases "key = ?key") (auto simp: update_conv')
  qed
qed

section \<open>All records\<close>

lemma sum_update:
  "distinct (map fst m) \<Longrightarrow> sum_list (map snd (AList.update k v m)) + count_at m k = sum_list (map snd m) + (v :: nat)"
proof (induction m)
  case (Cons a m)
  obtain k' v' where a: "a = (k', v')" by fastforce
  show ?case using Cons by (cases "k' = k") (auto simp: a count_at_def)
qed (simp add: count_at_def)

lemma count_code_sum: "distinct (map fst m) \<Longrightarrow> sum_list (map snd (count_code code m)) = Suc (sum_list (map snd m))"
  using sum_update [of m code "Suc (count_at m code)"] by (simp add: count_code_def)

lemma count_code_distinct [simp]: "distinct (map fst m) \<Longrightarrow> distinct (map fst (count_code code m))"
  by (simp add: count_code_def distinct_update)

definition plans_inv :: "decoder \<Rightarrow> (string \<Rightarrow> string) \<Rightarrow> PlanLimits \<Rightarrow> stamped list \<Rightarrow> Plans \<Rightarrow> bool" where
  "plans_inv dec sha limits recs a \<longleftrightarrow>
     pl_limits a = limits \<and> pl_records a = length recs \<and> pl_attempted a = length (admitted limits recs)
     \<and> pl_parsed a = length (parsed_plans dec limits recs)
     \<and> pl_noQueryID a = length (filter (\<lambda>q. \<not> pr_HasQueryID (fst q)) (parsed_plans dec limits recs))
     \<and> (pl_exhausted a \<longleftrightarrow> length (admitted limits recs) < length (filter (fits_bytes limits) recs))
     \<and> distinct (map fst (pl_notParsed a)) \<and> pl_records a = pl_parsed a + sum_list (map snd (pl_notParsed a))
     \<and> groups_ok sha (pl_groups a) (parsed_plans dec limits recs)"

lemma parsed_durations: "list_all (\<lambda>q. plan_Duration (snd (snd q)) = Some (ms_of q)) (parsed_plans dec limits recs)"
  using logged_duration by (fastforce simp: parsed_plans_def List.map_filter_def list_all_iff)

lemma admitted_le: "length (admitted limits recs) \<le> length (filter (fits_bytes limits) recs)"
  by (simp add: admitted_def Let_def)

lemma plans_Add_large: "\<not> fits_bytes (pl_limits a) (rec, ts) \<Longrightarrow>
    plans_Add dec sha rec ts a =
      a\<lparr>pl_records := Suc (pl_records a), pl_notParsed := count_code ''plan_too_large'' (pl_notParsed a)\<rparr>"
  by (simp add: plans_Add_def Let_def fits_bytes_def)

lemma plans_Add_exhausted:
  "fits_bytes (pl_limits a) (rec, ts) \<Longrightarrow> 0 < MaxPlans (pl_limits a) \<Longrightarrow> MaxPlans (pl_limits a) \<le> int (pl_attempted a) \<Longrightarrow>
    plans_Add dec sha rec ts a =
      a\<lparr>pl_records := Suc (pl_records a), pl_notParsed := count_code ''plan_budget_exhausted'' (pl_notParsed a), pl_exhausted := True\<rparr>"
  by (cases "0 < MaxPlanBytes (pl_limits a)") (simp_all add: plans_Add_def Let_def fits_bytes_def)

lemma plans_Add_attempted:
  "fits_bytes (pl_limits a) (rec, ts) \<Longrightarrow> (0 < MaxPlans (pl_limits a) \<longrightarrow> int (pl_attempted a) < MaxPlans (pl_limits a)) \<Longrightarrow>
    plans_Add dec sha rec ts a =
      (let a = a\<lparr>pl_records := Suc (pl_records a), pl_attempted := Suc (pl_attempted a)\<rparr>
       in case ParsePlan dec (pr_Body rec) SourceLog of
            Inl err \<Rightarrow> a\<lparr>pl_notParsed := count_code (parseCode err) (pl_notParsed a)\<rparr>
          | Inr p \<Rightarrow>
              a\<lparr>pl_parsed := Suc (pl_parsed a), pl_noQueryID := (if pr_HasQueryID rec then pl_noQueryID a else Suc (pl_noQueryID a)),
                pl_groups := add_plan sha rec ts (logged_plan rec p) (pl_groups a)\<rparr>)"
  by (auto simp: plans_Add_def Let_def fits_bytes_def split: sum.split)

lemma plans_Add_inv:
  assumes "plans_inv dec sha limits recs a"
  shows "plans_inv dec sha limits (recs @ [(rec, ts)]) (plans_Add dec sha rec ts a)"
proof -
  have li: "pl_limits a = limits" "pl_attempted a = length (admitted limits recs)" using assms by (simp_all add: plans_inv_def)
  consider (large) "\<not> fits_bytes limits (rec, ts)"
    | (exhausted) "fits_bytes limits (rec, ts)" "0 < MaxPlans limits" "MaxPlans limits \<le> int (length (admitted limits recs))"
    | (attempted) "fits_bytes limits (rec, ts)" "0 < MaxPlans limits \<longrightarrow> int (length (admitted limits recs)) < MaxPlans limits"
    by linarith
  then show ?thesis
  proof cases
    case large
    then show ?thesis using assms plans_Add_large [of a rec ts dec sha, unfolded li]
      by (simp add: plans_inv_def admitted_snoc parsed_snoc count_code_sum)
  next
    case exhausted
    then show ?thesis using assms plans_Add_exhausted [of a rec ts dec sha, unfolded li] admitted_le [of limits recs]
      by (simp add: plans_inv_def admitted_snoc parsed_snoc count_code_sum)
  next
    case attempted
    note add = plans_Add_attempted [of a rec ts dec sha, unfolded li, OF attempted]
    show ?thesis
    proof (cases "ParsePlan dec (pr_Body rec) SourceLog")
      case (Inl err)
      then show ?thesis using assms attempted
        by (simp add: add plans_inv_def admitted_snoc parsed_snoc parsed_record_def count_code_sum Let_def)
    next
      case (Inr p)
      let ?q = "(rec, ts, logged_plan rec p)"
      have q: "parsed_record dec (rec, ts) = Some ?q" by (simp add: parsed_record_def Inr)
      have "groups_ok sha (add_plan sha rec ts (logged_plan rec p) (pl_groups a)) (parsed_plans dec limits recs @ [?q])"
        using add_plan_groups [OF _ logged_duration [OF q] parsed_durations] assms by (simp add: plans_inv_def)
      then show ?thesis using assms attempted Inr by (simp add: add plans_inv_def admitted_snoc parsed_snoc q Let_def)
    qed
  qed
qed

lemma run_plans_inv: "plans_inv dec sha limits recs (run_plans dec sha limits recs)"
proof (induction recs rule: rev_induct)
  case Nil
  show ?case by (simp add: plans_inv_def NewPlans_def admitted_def parsed_plans_def List.map_filter_def groups_ok_def)
next
  case (snoc r recs)
  obtain rec ts where r: "r = (rec, ts)" by fastforce
  have e: "run_plans dec sha limits (recs @ [r]) = plans_Add dec sha rec ts (run_plans dec sha limits recs)" by (simp add: r)
  show ?case unfolding e unfolding r by (rule plans_Add_inv [OF snoc])
qed

text \<open>
  C28: the plans of a window are grouped by statement and shape. Of the records of admissible size
  as many are parsed as the budget allows; every record is parsed or counted under its reason; and
  the groups are exactly the keys of the parsed plans, each with the number and the durations of
  its plans, the first and the last time, and as its sample a plan no other of the group exceeds.
\<close>

theorem plans_are_grouped_by_shape:
  "let a = run_plans dec sha limits recs; ps = parsed_plans dec limits recs
   in pl_records a = length recs \<and> pl_parsed a = length ps
      \<and> length recs = length ps + sum_list (map snd (pl_notParsed a))
      \<and> (pl_exhausted a \<longleftrightarrow> length (admitted limits recs) < length (filter (fits_bytes limits) recs))
      \<and> groups_ok sha (pl_groups a) ps"
  using run_plans_inv [of dec sha limits recs] by (simp add: plans_inv_def Let_def)

section \<open>The summary\<close>

lemma sum_by_key:
  assumes "distinct ks" and "f ` set qs \<subseteq> set ks"
  shows "sum_list (map (\<lambda>k. length (filter (\<lambda>q. f q = k) qs)) ks) = length qs"
  using assms(2)
proof (induction qs)
  case (Cons q qs)
  have "sum_list (map (\<lambda>k. length (filter (\<lambda>p. f p = k) (q # qs))) ks) =
      sum_list (map (\<lambda>k. (if k = f q then 1 else 0) + length (filter (\<lambda>p. f p = k) qs)) ks)"
    by (rule arg_cong [where f = sum_list], rule map_cong) auto
  also have "\<dots> = sum_list (map (\<lambda>k. if k = f q then 1 else 0) ks) + sum_list (map (\<lambda>k. length (filter (\<lambda>p. f p = k) qs)) ks)"
    by (rule sum_list_addf)
  also have "sum_list (map (\<lambda>k. if k = f q then 1 else 0) ks) = (1 :: nat)"
    using assms(1) Cons.prems by (simp add: sum_list_distinct_conv_sum_set)
  finally show ?case using Cons by simp
qed simp

lemma number_groups_simps [simp]:
  "length (number_groups gs) = length gs" "map pg_Count (number_groups gs) = map pg_Count gs"
  "map pg_Ord (number_groups gs) = [0..<length gs]" "map group_order (number_groups gs) = map group_order gs"
  by (auto intro!: nth_equalityI simp: number_groups_def nth_enumerate_eq group_order_def)


lemma sum_group_simps [simp]:
  "pg_Count (sum_group env acc) = pg_Count (ga_group acc)" "pg_HasQueryID (sum_group env acc) = pg_HasQueryID (ga_group acc)"
  by (simp_all add: sum_group_def Let_def split: prod.split)

lemma number_groups_filter: "map pg_Count (filter (\<lambda>g. P (pg_HasQueryID g)) (number_groups gs)) = map pg_Count (filter (\<lambda>g. P (pg_HasQueryID g)) gs)"
proof -
  have "map pg_Count (filter (\<lambda>g. P (pg_HasQueryID g)) (map (\<lambda>(i, g). g\<lparr>pg_Ord := i\<rparr>) (enumerate n gs))) =
      map pg_Count (filter (\<lambda>g. P (pg_HasQueryID g)) gs)" for n
    by (induction gs arbitrary: n) simp_all
  then show ?thesis by (simp add: number_groups_def)
qed

lemma sorted_sum: "sum_list (map f (sort_key k xs)) = sum_list (map (f :: _ \<Rightarrow> nat) xs)"
  by (metis mset_map mset_sort sum_mset_sum_list)

lemma key_has: "pr_HasQueryID (fst q) = fst (snd (key_of sha q))"
  by (cases q) (simp add: key_of_def plan_key_def)

text \<open>The counts of the groups whose key satisfies a test of the statement id.\<close>

lemma group_counts:
  assumes "groups_ok sha groups ps"
  shows "sum_list (map (\<lambda>(_, acc). pg_Count (ga_group acc)) (filter (\<lambda>(_, acc). P (pg_HasQueryID (ga_group acc))) groups)) =
    length (filter (\<lambda>q. P (pr_HasQueryID (fst q))) ps)"
proof -
  let ?gs = "filter (\<lambda>(_, acc). P (pg_HasQueryID (ga_group acc))) groups"
  let ?qs = "filter (\<lambda>q. P (pr_HasQueryID (fst q))) ps"
  have one: "pg_Count (ga_group acc) = length (filter (\<lambda>q. key_of sha q = key) ps) \<and> pg_HasQueryID (ga_group acc) = fst (snd key)"
    if "(key, acc) \<in> set groups" for key acc
    using assms that by (auto simp: groups_ok_def list_all_iff group_ok_def Let_def)
  have d: "distinct (map fst ?gs)" using assms by (simp add: groups_ok_def distinct_map_filter)
  have "key_of sha q \<in> set (map fst ?gs)" if "q \<in> set ?qs" for q
  proof -
    have "key_of sha q \<in> fst ` set groups" using assms that by (simp add: groups_ok_def)
    then obtain acc where acc: "(key_of sha q, acc) \<in> set groups" by fastforce
    then have "(key_of sha q, acc) \<in> set ?gs" using one [OF acc] that key_has [of q sha] by simp
    then show ?thesis by (metis fst_conv image_eqI set_map)
  qed
  then have k: "key_of sha ` set ?qs \<subseteq> set (map fst ?gs)" by blast
  have "pg_Count (ga_group acc) = length (filter (\<lambda>q. key_of sha q = key) ?qs)" if "(key, acc) \<in> set ?gs" for key acc
  proof -
    have "(key, acc) \<in> set groups" "P (pg_HasQueryID (ga_group acc))" using that by simp_all
    moreover have "filter (\<lambda>q. key_of sha q = key) ?qs = filter (\<lambda>q. key_of sha q = key) ps"
      if "P (fst (snd key))" using that by (auto simp: key_has [of _ sha] intro!: filter_cong)
    ultimately show ?thesis using one [of key acc] by simp
  qed
  then have "map (\<lambda>(_, acc). pg_Count (ga_group acc)) ?gs =
      map (\<lambda>key. length (filter (\<lambda>q. key_of sha q = key) ?qs)) (map fst ?gs)"
    unfolding map_map by (intro map_cong refl) auto
  then show ?thesis by (simp only: sum_by_key [OF d k])
qed

text \<open>
  The summary accounts for every record: each is parsed or has a reason, the groups add up to
  the parsed ones and those without a statement id to the records without one, and the groups are
  numbered in the order of the ranking.
\<close>

theorem summary_accounts_for_records:
  "let s = plans_Summary (run_plans dec sha limits recs) env
   in sm_Records s = length recs \<and> sm_Records s = sm_Parsed s + sum_list (map snd (sm_NotParsed s))
      \<and> sm_Parsed s = sum_list (map pg_Count (sm_Groups s))
      \<and> sm_WithoutQueryID s = sum_list (map pg_Count (filter (\<lambda>g. \<not> pg_HasQueryID g) (sm_Groups s)))
      \<and> sm_TotalGroups s = length (sm_Groups s) \<and> map pg_Ord (sm_Groups s) = [0..<sm_TotalGroups s]
      \<and> sorted (map group_order (sm_Groups s))"
proof -
  define a where "a = run_plans dec sha limits recs"
  define ps where "ps = parsed_plans dec limits recs"
  let ?s = "sort_key group_order (map (\<lambda>(_, acc). sum_group env acc) (pl_groups a))"
  have inv: "plans_inv dec sha limits recs a" unfolding a_def by (rule run_plans_inv)
  have g: "groups_ok sha (pl_groups a) ps" using inv by (simp add: plans_inv_def ps_def)
  have "sum_list (map pg_Count (number_groups ?s)) = length ps"
    using group_counts [OF g, of "\<lambda>_. True"] by (simp add: sorted_sum comp_def case_prod_unfold)
  moreover have "sum_list (map pg_Count (filter (\<lambda>g. \<not> pg_HasQueryID g) (number_groups ?s))) =
      length (filter (\<lambda>q. \<not> pr_HasQueryID (fst q)) ps)"
    using group_counts [OF g, of Not] number_groups_filter [of Not ?s]
    by (simp add: filter_sort sorted_sum filter_map comp_def case_prod_unfold)
  moreover have "sum_list (map snd (sort_key (\<lambda>(code, n). (- int n, code)) (pl_notParsed a))) = sum_list (map snd (pl_notParsed a))"
    by (rule sorted_sum)
  moreover have "pl_records a = length recs" "pl_parsed a = length ps"
      "pl_noQueryID a = length (filter (\<lambda>q. \<not> pr_HasQueryID (fst q)) ps)"
      "pl_records a = pl_parsed a + sum_list (map snd (pl_notParsed a))"
    using inv by (simp_all add: plans_inv_def ps_def)
  ultimately show ?thesis
    unfolding a_def [symmetric] plans_Summary_def Let_def case_prod_beta by simp
qed

end
