(* ===== verification/Log_Categories.thy ===== *)
theory Log_Categories
  imports Log_Plans_Groups Go_Utf8
begin

text \<open>
  Categories of log records over a window (\<^verbatim>\<open>backend/internal/logs/insights/categories.go\<close>):
  counts per category and, within a category, per message template. Maps are association lists in
  the order of first appearance; what is made of them is sorted by total keys.
\<close>

section \<open>Operations\<close>

definition templateInputBytes :: nat where "templateInputBytes = 1024"

record TemplateCount =
  tc_Template :: string
  tc_Count :: nat
  tc_First :: time
  tc_Last :: time

record CategorySummary =
  cs_Code :: string
  cs_Count :: nat
  cs_Share :: f64
  cs_First :: time
  cs_Last :: time
  cs_Templates :: "TemplateCount list"

record categoryAcc =
  ca_Count :: nat
  ca_First :: time
  ca_Last :: time
  ca_templates :: "(string \<times> TemplateCount) list"

record CategoryCounts =
  cc_total :: nat
  byCode :: "(string \<times> categoryAcc) list"

definition NewCategoryCounts :: CategoryCounts where
  "NewCategoryCounts = \<lparr>cc_total = 0, byCode = []\<rparr>"

definition RuneStart :: "char \<Rightarrow> bool" where
  "RuneStart c \<longleftrightarrow> \<not> cont_byte 128 191 c"

fun rune_boundary :: "string \<Rightarrow> nat \<Rightarrow> nat" where
  "rune_boundary s 0 = 0"
| "rune_boundary s (Suc n) = (if \<not> RuneStart (s ! Suc n) then rune_boundary s n else Suc n)"

definition log_truncate :: "string \<Rightarrow> nat \<Rightarrow> string" where
  "log_truncate s n = (if length s \<le> n then s else take (rune_boundary s n) s)"

definition message_template :: "string \<Rightarrow> string" where
  "message_template txt = pattern_Display (SQL (log_truncate txt templateInputBytes))"

definition count_template :: "string \<Rightarrow> time \<Rightarrow> (string \<times> TemplateCount) list \<Rightarrow> (string \<times> TemplateCount) list" where
  "count_template tmpl ts m =
     (let t = (case map_of m tmpl of
                 None \<Rightarrow> \<lparr>tc_Template = tmpl, tc_Count = 0, tc_First = ts, tc_Last = ts\<rparr> | Some t \<Rightarrow> t);
          (first, last) = widen (tc_First t, tc_Last t) ts
      in AList.update tmpl (t\<lparr>tc_Count := Suc (tc_Count t), tc_First := first, tc_Last := last\<rparr>) m)"

definition count_record :: "string \<Rightarrow> string \<Rightarrow> time \<Rightarrow> categoryAcc \<Rightarrow> categoryAcc" where
  "count_record code txt ts acc =
     (let acc = acc\<lparr>ca_Count := Suc (ca_Count acc), ca_First := fst (widen (ca_First acc, ca_Last acc) ts),
                     ca_Last := snd (widen (ca_First acc, ca_Last acc) ts)\<rparr>
      in if code = ''plan'' then acc
         else acc\<lparr>ca_templates := count_template (message_template txt) ts (ca_templates acc)\<rparr>)"

definition categories_Add :: "string \<Rightarrow> string \<Rightarrow> time \<Rightarrow> CategoryCounts \<Rightarrow> CategoryCounts" where
  "categories_Add code txt ts c =
     (let acc = (case map_of (byCode c) code of
                   None \<Rightarrow> \<lparr>ca_Count = 0, ca_First = ts, ca_Last = ts, ca_templates = []\<rparr> | Some acc \<Rightarrow> acc)
      in \<lparr>cc_total = Suc (cc_total c), byCode = AList.update code (count_record code txt ts acc) (byCode c)\<rparr>)"

definition template_order :: "TemplateCount \<Rightarrow> int \<times> int \<times> string" where
  "template_order t = (- int (tc_Count t), - tc_Last t, tc_Template t)"

definition category_summary :: "nat \<Rightarrow> int \<Rightarrow> string \<times> categoryAcc \<Rightarrow> CategorySummary" where
  "category_summary tot topTemplates = (\<lambda>(code, acc).
     (let ts = sort_key template_order (map snd (ca_templates acc))
      in \<lparr>cs_Code = code, cs_Count = ca_Count acc, cs_Share = of_i64 (int (ca_Count acc)) / of_i64 (int tot),
          cs_First = ca_First acc, cs_Last = ca_Last acc,
          cs_Templates = (if topTemplates < int (length ts) then take (nat topTemplates) ts else ts)\<rparr>))"

definition categories_Summary :: "CategoryCounts \<Rightarrow> int \<Rightarrow> CategorySummary list" where
  "categories_Summary c topTemplates =
     sort_key (\<lambda>s. (- int (cs_Count s), cs_Code s)) (map (category_summary (cc_total c) topTemplates) (byCode c))"

section \<open>Counting\<close>

definition log_entries :: "CategoryCounts \<Rightarrow> (string \<times> string \<times> time) list \<Rightarrow> CategoryCounts" where
  "log_entries c recs = fold (\<lambda>(code, txt, ts). categories_Add code txt ts) recs c"

lemma sum_counts_update:
  fixes n :: "'v \<Rightarrow> nat"
  assumes "distinct (map fst m)"
  shows "sum_list (map (n \<circ> snd) (AList.update k v m)) + (case map_of m k of None \<Rightarrow> 0 | Some w \<Rightarrow> n w) =
    sum_list (map (n \<circ> snd) m) + n v"
  using assms
proof (induction m)
  case (Cons a m)
  obtain k' w where a: "a = (k', w)" by fastforce
  show ?case using Cons by (cases "k' = k") (auto simp: a)
qed simp

definition templates_ok :: "(string \<times> TemplateCount) list \<Rightarrow> nat \<Rightarrow> bool" where
  "templates_ok m n \<longleftrightarrow>
     distinct (map fst m) \<and> list_all (\<lambda>(k, t). tc_Template t = k) m \<and> sum_list (map (tc_Count \<circ> snd) m) = n"

lemma count_template_ok:
  assumes "templates_ok m n"
  shows "templates_ok (count_template tmpl ts m) (Suc n)"
proof -
  define t where "t = (case map_of m tmpl of None \<Rightarrow> \<lparr>tc_Template = tmpl, tc_Count = 0, tc_First = ts, tc_Last = ts\<rparr> | Some t \<Rightarrow> t)"
  obtain first lst where w: "widen (tc_First t, tc_Last t) ts = (first, lst)" by fastforce
  let ?t = "t\<lparr>tc_Count := Suc (tc_Count t), tc_First := first, tc_Last := lst\<rparr>"
  have e: "count_template tmpl ts m = AList.update tmpl ?t m" by (simp add: count_template_def flip: t_def) (simp add: w)
  have name: "tc_Template t = tmpl"
    using assms map_of_SomeD [of m tmpl] by (auto simp: t_def templates_ok_def list_all_iff split: option.split)
  have c: "(case map_of m tmpl of None \<Rightarrow> 0 | Some w \<Rightarrow> tc_Count w) = tc_Count t" by (simp add: t_def split: option.split)
  have d: "distinct (map fst m)" and s: "sum_list (map (tc_Count \<circ> snd) m) = n" using assms by (simp_all add: templates_ok_def)
  have "sum_list (map (tc_Count \<circ> snd) (AList.update tmpl ?t m)) = Suc n"
    using sum_counts_update [OF d, of tc_Count tmpl ?t] by (simp add: c s)
  moreover have "list_all (\<lambda>(k, t). tc_Template t = k) (AList.update tmpl ?t m)"
    unfolding list_all_iff using assms name by (auto simp: templates_ok_def list_all_iff dest: set_update_cases)
  ultimately show ?thesis using d by (simp add: e templates_ok_def distinct_update)
qed

definition category_ok :: "string \<Rightarrow> categoryAcc \<Rightarrow> (string \<times> string \<times> time) list \<Rightarrow> bool" where
  "category_ok code acc qs \<longleftrightarrow>
     qs \<noteq> [] \<and> ca_Count acc = length qs \<and> ca_First acc = Min (set (map (snd \<circ> snd) qs)) \<and> ca_Last acc = Max (set (map (snd \<circ> snd) qs))
     \<and> templates_ok (ca_templates acc) (if code = ''plan'' then 0 else length qs)"

definition categories_ok :: "CategoryCounts \<Rightarrow> (string \<times> string \<times> time) list \<Rightarrow> bool" where
  "categories_ok c recs \<longleftrightarrow>
     cc_total c = length recs \<and> distinct (map fst (byCode c)) \<and> fst ` set (byCode c) = fst ` set recs
     \<and> list_all (\<lambda>(code, acc). category_ok code acc (filter (\<lambda>r. fst r = code) recs)) (byCode c)"

lemma widen_bounds: "fst (widen (a, b) t) = min t a" "snd (widen (a, b) t) = max t b"
  by (auto simp: widen_def)

lemma category_ok_fresh:
  "category_ok code (count_record code txt ts \<lparr>ca_Count = 0, ca_First = ts, ca_Last = ts, ca_templates = []\<rparr>) [(code, txt, ts)]"
  using count_template_ok [of "[]" 0 "message_template txt" ts]
  by (auto simp: category_ok_def count_record_def widen_def templates_ok_def Let_def)

lemma category_ok_count:
  assumes "category_ok code acc qs"
  shows "category_ok code (count_record code txt ts acc) (qs @ [(code, txt, ts)])"
  using assms count_template_ok [of "ca_templates acc" "length qs" "message_template txt" ts]
  by (cases "code = ''plan''") (simp_all add: category_ok_def count_record_def Let_def widen_bounds)

lemma list_all_map_of:
  "distinct (map fst m) \<Longrightarrow> list_all (\<lambda>(k, v). P k v) m \<longleftrightarrow> (\<forall>k v. map_of m k = Some v \<longrightarrow> P k v)"
  by (auto simp: list_all_iff)

lemma categories_ok_Add:
  assumes "categories_ok c recs"
  shows "categories_ok (categories_Add code txt ts c) (recs @ [(code, txt, ts)])"
proof -
  let ?qs = "filter (\<lambda>r. fst r = code) recs"
  define acc where "acc = (case map_of (byCode c) code of
      None \<Rightarrow> \<lparr>ca_Count = 0, ca_First = ts, ca_Last = ts, ca_templates = []\<rparr> | Some acc \<Rightarrow> acc)"
  have e: "categories_Add code txt ts c =
      \<lparr>cc_total = Suc (cc_total c), byCode = AList.update code (count_record code txt ts acc) (byCode c)\<rparr>"
    by (simp add: categories_Add_def acc_def)
  have new: "category_ok code (count_record code txt ts acc) (?qs @ [(code, txt, ts)])"
  proof (cases "map_of (byCode c) code")
    case None
    then have "code \<notin> fst ` set recs" using assms by (simp add: map_of_eq_None_iff categories_ok_def)
    then have "?qs = []" by (auto simp: filter_empty_conv)
    then show ?thesis using category_ok_fresh by (simp add: acc_def None)
  next
    case (Some a)
    then have "category_ok code a ?qs"
      using assms map_of_SomeD [OF Some] by (auto simp: categories_ok_def list_all_iff)
    then show ?thesis by (simp add: acc_def Some category_ok_count)
  qed
  have "list_all (\<lambda>(code', acc). category_ok code' acc (filter (\<lambda>r. fst r = code') (recs @ [(code, txt, ts)])))
      (AList.update code (count_record code txt ts acc) (byCode c))"
    using assms new by (auto simp: list_all_map_of distinct_update update_conv' categories_ok_def simp del: map_of_eq_Some_iff)
  then show ?thesis using assms
    by (simp add: e categories_ok_def distinct_update dom_update)
qed

lemma log_entries_ok: "categories_ok (log_entries NewCategoryCounts recs) recs"
proof (induction recs rule: rev_induct)
  case Nil
  then show ?case by (simp add: log_entries_def NewCategoryCounts_def categories_ok_def)
next
  case (snoc r recs)
  obtain code msg ts where r: "r = (code, msg, ts)" by (cases r)
  show ?case using categories_ok_Add [OF snoc.IH, of code msg ts] by (simp add: log_entries_def r)
qed

definition summary_ok :: "(string \<times> string \<times> time) list \<Rightarrow> CategorySummary \<Rightarrow> bool" where
  "summary_ok recs s \<longleftrightarrow>
     (let qs = filter (\<lambda>r. fst r = cs_Code s) recs
      in cs_Count s = length qs \<and> cs_First s = Min (set (map (snd \<circ> snd) qs)) \<and> cs_Last s = Max (set (map (snd \<circ> snd) qs))
         \<and> distinct (map tc_Template (cs_Templates s)) \<and> sorted (map template_order (cs_Templates s))
         \<and> sum_list (map tc_Count (cs_Templates s)) \<le> (if cs_Code s = ''plan'' then 0 else length qs))"

lemma templates_ok_names:
  assumes "templates_ok m n"
  shows "distinct (map tc_Template (map snd m))" and "sum_list (map tc_Count (map snd m)) = n"
proof -
  have "map tc_Template (map snd m) = map fst m" using assms by (auto simp: templates_ok_def list_all_iff)
  then show "distinct (map tc_Template (map snd m))" using assms unfolding templates_ok_def by metis
  show "sum_list (map tc_Count (map snd m)) = n" using assms by (simp add: templates_ok_def o_def)
qed

lemma sum_list_take_le:
  fixes xs :: "nat list"
  shows "sum_list (take n xs) \<le> sum_list xs"
  by (metis append_take_drop_id le_add1 sum_list_append)

lemma sum_list_sort_key: "sum_list (map g (sort_key f xs)) = (sum_list (map g xs) :: nat)"
  by (metis mset_map mset_sort sum_mset_sum_list)

lemma distinct_map_sort_key: "distinct (map g (sort_key f xs)) = distinct (map g xs)"
  by (metis mset_eq_imp_distinct_iff mset_map mset_sort)

lemma category_summary_ok:
  assumes "category_ok code acc (filter (\<lambda>r. fst r = code) recs)"
  shows "summary_ok recs (category_summary tot n (code, acc))"
proof -
  let ?ts = "sort_key template_order (map snd (ca_templates acc))"
  note ok = assms [unfolded category_ok_def]
  define k where "k = (if n < int (length ?ts) then nat n else length ?ts)"
  have e: "cs_Templates (category_summary tot n (code, acc)) = take k ?ts" by (simp add: category_summary_def k_def)
  note names = templates_ok_names [of "ca_templates acc" "if code = ''plan'' then 0 else length (filter (\<lambda>r. fst r = code) recs)"]
  have "distinct (map tc_Template (take k ?ts))"
    using names(1) ok by (metis distinct_map_sort_key distinct_take take_map)
  moreover have "sorted (map template_order (take k ?ts))"
    by (metis sorted_sort_key sorted_wrt_take take_map)
  moreover have "sum_list (map tc_Count (take k ?ts)) \<le> sum_list (map tc_Count ?ts)"
    by (metis sum_list_take_le take_map)
  moreover have code: "cs_Code (category_summary tot n (code, acc)) = code" by (simp add: category_summary_def Let_def)
  ultimately show ?thesis using ok names(2) unfolding summary_ok_def Let_def e code
    by (simp add: category_summary_def Let_def sum_list_sort_key split del: if_split)
qed

lemma sum_length_filter_keys:
  assumes "finite K" and "fst ` set recs \<subseteq> K"
  shows "(\<Sum>s\<in>K. length (filter (\<lambda>r. fst r = s) recs)) = length recs"
  using assms(2)
proof (induction recs)
  case (Cons r recs)
  have "length (filter (\<lambda>r. fst r = s) (r # recs)) = (if s = fst r then 1 else 0) + length (filter (\<lambda>r. fst r = s) recs)" for s
    by simp
  then show ?case using Cons assms(1) by (simp add: sum.distrib del: filter.simps)
qed simp

lemma categories_Summary_exact:
  assumes ok: "categories_ok c recs"
  shows "distinct (map cs_Code (categories_Summary c n)) \<and>
   set (map cs_Code (categories_Summary c n)) = fst ` set recs \<and>
   sorted (map (\<lambda>s. - int (cs_Count s)) (categories_Summary c n)) \<and>
   sum_list (map cs_Count (categories_Summary c n)) = length recs \<and>
   list_all (summary_ok recs) (categories_Summary c n)"
proof -
  let ?raw = "map (category_summary (cc_total c) n) (byCode c)"
  define out where "out = categories_Summary c n"
  have out: "out = sort_key (\<lambda>s. (- int (cs_Count s), cs_Code s)) ?raw" by (simp add: out_def categories_Summary_def)
  have codes: "map cs_Code ?raw = map fst (byCode c)" by (simp add: category_summary_def case_prod_unfold Let_def)
  have "distinct (map cs_Code out)"
    unfolding out distinct_map_sort_key codes using ok by (simp add: categories_ok_def)
  moreover have "set (map cs_Code out) = set (map cs_Code ?raw)" by (simp add: out image_image)
  then have "set (map cs_Code out) = fst ` set recs" unfolding codes using ok by (simp add: categories_ok_def)
  moreover have "sorted (map (\<lambda>s. (- int (cs_Count s), cs_Code s)) out)" by (simp add: out)
  then have "sorted (map (\<lambda>s. - int (cs_Count s)) out)"
    unfolding sorted_map by (rule sorted_wrt_mono_rel [rotated]) (auto simp: less_eq_prod_def)
  moreover have all: "list_all (summary_ok recs) out"
    using ok by (auto simp: out categories_ok_def list_all_iff intro!: category_summary_ok)
  moreover have "sum_list (map cs_Count out) = length recs"
  proof -
    have "map cs_Count out = map (\<lambda>s. length (filter (\<lambda>r. fst r = s) recs)) (map cs_Code out)"
      using all by (simp add: list_all_iff summary_ok_def Let_def)
    moreover have "sum_list (map (\<lambda>s. length (filter (\<lambda>r. fst r = s) recs)) (map cs_Code out)) =
        (\<Sum>s\<in>fst ` set recs. length (filter (\<lambda>r. fst r = s) recs))"
      using \<open>distinct (map cs_Code out)\<close> \<open>set (map cs_Code out) = fst ` set recs\<close> by (metis sum_list_distinct_conv_sum_set)
    ultimately show ?thesis by (simp add: sum_length_filter_keys del: map_map)
  qed
  ultimately show ?thesis by (simp add: out_def)
qed

text \<open>Over any records of a window the category summary is exact. Every category seen is listed
  once, most frequent first, with the number of its records and the times of its first and last one,
  and the counts add up to the number of records; its templates are distinct, in the order shown
  (most frequent, then latest, first) and count no more records than the category has, none at all
  for the plan category.\<close>
theorem category_counts_are_exact:
  "distinct (map cs_Code (categories_Summary (log_entries NewCategoryCounts recs) n)) \<and>
   set (map cs_Code (categories_Summary (log_entries NewCategoryCounts recs) n)) = fst ` set recs \<and>
   sorted (map (\<lambda>s. - int (cs_Count s)) (categories_Summary (log_entries NewCategoryCounts recs) n)) \<and>
   sum_list (map cs_Count (categories_Summary (log_entries NewCategoryCounts recs) n)) = length recs \<and>
   list_all (summary_ok recs) (categories_Summary (log_entries NewCategoryCounts recs) n)"
  by (rule categories_Summary_exact [OF log_entries_ok])

end
