(* ===== verification/Log_Search_Dedup.thy ===== *)
theory Log_Search_Dedup
  imports Log_Search_Sound Log_Categories
begin

text \<open>
  Groups of a deduplicated search: every scanned match is counted in exactly one of them.
\<close>

lemma run_stream_fold:
  "\<exists>k. k \<le> length recs \<and>
     (let ((s', st'), fin') = run_stream (scan_visit limits (\<lambda>s r. (f s r, True))) recs fin (s, st)
      in s' = fold (\<lambda>r s. f s r) (take k recs) s \<and> ss_Records st' = ss_Records st + k
         \<and> (k = length recs \<and> fin' = fin \<and> ss_Capped st' = ss_Capped st \<or> ss_Capped st' \<and> fin' = None))"
proof (induction recs arbitrary: s st)
  case (Cons r recs)
  define u where "u = st\<lparr>ss_Records := Suc (ss_Records st),
      ss_Bytes := (if 0 < lim_MaxBytes limits then ss_Bytes st + charge limits r else ss_Bytes st)\<rparr>"
  show ?case
  proof (cases "0 < lim_MaxRecords limits \<and> lim_MaxRecords limits \<le> int (ss_Records u)
      \<or> 0 < lim_MaxBytes limits \<and> lim_MaxBytes limits \<le> int (ss_Bytes u)")
    case True
    then have "scan_visit limits (\<lambda>s r. (f s r, True)) (s, st) r = ((f s r, u\<lparr>ss_Capped := True\<rparr>), False)"
      by (simp add: scan_visit_def u_def Let_def)
    then show ?thesis by (intro exI [of _ 1]) (simp add: u_def)
  next
    case False
    then have v: "scan_visit limits (\<lambda>s r. (f s r, True)) (s, st) r = ((f s r, u), True)"
      by (simp only: scan_visit_def u_def Let_def prod.case if_False not_True_eq_False)
    obtain k where k: "k \<le> length recs" "let ((s', st'), fin') = run_stream (scan_visit limits (\<lambda>s r. (f s r, True))) recs fin (f s r, u)
        in s' = fold (\<lambda>r s. f s r) (take k recs) (f s r) \<and> ss_Records st' = ss_Records u + k
         \<and> (k = length recs \<and> fin' = fin \<and> ss_Capped st' = ss_Capped u \<or> ss_Capped st' \<and> fin' = None)"
      using Cons.IH by blast
    then show ?thesis by (intro exI [of _ "Suc k"]) (auto simp: v u_def Let_def split: prod.splits)
  qed
qed simp

lemma scan_fold:
  assumes "scan (recs, fin) limits (\<lambda>s r. (f s r, True)) s = (s', st, err)"
  shows "s' = fold (\<lambda>r s. f s r) (take (ss_Records st) recs) s \<and> ss_Records st \<le> length recs
    \<and> (\<not> ss_Capped st \<longrightarrow> ss_Records st = length recs) \<and> (err \<noteq> None \<longrightarrow> \<not> ss_Capped st)"
  using run_stream_fold [of recs limits f fin s zero_scanStats] assms
  by (auto simp: scan_def zero_scanStats_def Let_def split: prod.splits option.splits)

lemma map_sort_key: "map g (sort_key (f \<circ> g) xs) = sort_key f (map g xs)"
proof (induction xs)
  case (Cons x xs)
  have "map g (insort_key (f \<circ> g) x ys) = insort_key f (g x) (map g ys)" for ys by (induction ys) auto
  then show ?case using Cons by (simp add: o_def)
qed simp

definition group_of :: "Entry list \<Rightarrow> string \<Rightarrow> Entry list" where
  "group_of ms key = filter (\<lambda>e. pattern_Key (en_Text e) = key) ms"

definition dedup_ok :: "Entry \<Rightarrow> Entry list \<Rightarrow> bool" where
  "dedup_ok g qs \<longleftrightarrow>
     qs \<noteq> [] \<and> en_Count g = length qs \<and> en_FirstSeen g = Min (en_Timestamp ` set qs) \<and> en_LastSeen g = Max (en_Timestamp ` set qs)
     \<and> log_severityRank (en_Severity g) = Max ((log_severityRank \<circ> en_Severity) ` set qs)
     \<and> en_Text g \<in> (pattern_Display \<circ> en_Text) ` set qs"

definition dedup_inv :: "(string \<times> Entry) list \<Rightarrow> Entry list \<Rightarrow> bool" where
  "dedup_inv groups ms \<longleftrightarrow>
     distinct (map fst groups) \<and> fst ` set groups = (pattern_Key \<circ> en_Text) ` set ms
     \<and> (\<forall>key g. map_of groups key = Some g \<longrightarrow> dedup_ok g (group_of ms key))"

lemma dedup_ok_open: "dedup_ok (open_group e) [e]"
  by (simp add: dedup_ok_def open_group_def)

lemma dedup_ok_join:
  assumes "dedup_ok g qs"
  shows "dedup_ok (join_group e g) (qs @ [e])"
proof -
  have "en_Count (join_group e g) = Suc (en_Count g)" "en_Text (join_group e g) = en_Text g"
    by (simp_all add: join_group_def Let_def)
  moreover have "en_FirstSeen (join_group e g) = min (en_Timestamp e) (en_FirstSeen g)"
    by (simp add: join_group_def Let_def before_def)
  moreover have "en_LastSeen (join_group e g) = max (en_Timestamp e) (en_LastSeen g)"
    by (simp add: join_group_def Let_def before_def)
  moreover have "log_severityRank (en_Severity (join_group e g)) = max (log_severityRank (en_Severity e)) (log_severityRank (en_Severity g))"
    by (simp add: join_group_def Let_def)
  ultimately show ?thesis using assms by (simp add: dedup_ok_def)
qed

lemma dedup_inv_add:
  assumes "dedup_inv groups ms"
  shows "dedup_inv (dedup_add e groups) (ms @ [e])"
proof -
  let ?key = "pattern_Key (en_Text e)"
  define g' where "g' = (case map_of groups ?key of Some g \<Rightarrow> join_group e g | None \<Rightarrow> open_group e)"
  have add: "dedup_add e groups = AList.update ?key g' groups" by (simp add: dedup_add_def g'_def Let_def split: option.split)
  have ok: "dedup_ok g' (group_of ms ?key @ [e])"
  proof (cases "map_of groups ?key")
    case None
    then have "?key \<notin> (pattern_Key \<circ> en_Text) ` set ms" using assms by (simp add: dedup_inv_def map_of_eq_None_iff)
    then have "pattern_Key (en_Text x) \<noteq> ?key" if "x \<in> set ms" for x using that by (metis comp_apply imageI)
    then have "group_of ms ?key = []" by (simp add: group_of_def filter_empty_conv)
    then show ?thesis using dedup_ok_open by (simp add: g'_def None)
  next
    case (Some g)
    then have "dedup_ok g (group_of ms ?key)" using assms unfolding dedup_inv_def by blast
    then show ?thesis using dedup_ok_join by (simp add: g'_def Some)
  qed
  have gr: "group_of (ms @ [e]) k = (if k = ?key then group_of ms ?key @ [e] else group_of ms k)" for k
    by (simp add: group_of_def)
  have "dedup_ok g (group_of (ms @ [e]) k)" if "map_of (AList.update ?key g' groups) k = Some g" for k g
    using that ok assms unfolding gr dedup_inv_def by (auto simp: update_conv' simp del: map_of_eq_Some_iff split: if_splits)
  then show ?thesis using assms by (simp add: add dedup_inv_def distinct_update dom_update del: map_of_eq_Some_iff)
qed

lemma dedup_fold_inv: "dedup_inv (fold dedup_add ms []) ms"
proof (induction ms rule: rev_induct)
  case Nil
  then show ?case by (simp add: dedup_inv_def)
next
  case (snoc e ms)
  then show ?case using dedup_inv_add by simp
qed

lemma fold_dedup_visit:
  "fold (\<lambda>r gs. case entry r of None \<Rightarrow> gs | Some e \<Rightarrow> dedup_add e gs) recs gs = fold dedup_add (List.map_filter entry recs) gs"
  by (induction recs arbitrary: gs) (auto split: option.split)

text \<open>C33: The groups of a deduplicated search account for every match. Of the records scanned, each
  that passes the filters is counted in exactly one group; a group counts the matches of its
  template, spans their times and has the gravest of their severities. An answer that is not
  partial has scanned the whole window.\<close>
theorem dedup_accounts_for_matches:
  assumes "searchDedup low cfg (recs, fin) q fm = Inr r"
  shows "sum_list (map en_Count (Items r)) = length (List.map_filter (\<lambda>rec. toEntry low rec q fm) (take (Scanned r) recs))
    \<and> (\<exists>keys. distinct keys \<and> set keys = (pattern_Key \<circ> en_Text) ` set (List.map_filter (\<lambda>rec. toEntry low rec q fm) (take (Scanned r) recs))
         \<and> list_all2 (\<lambda>key g. dedup_ok g (group_of (List.map_filter (\<lambda>rec. toEntry low rec q fm) (take (Scanned r) recs)) key)) keys (Items r))
    \<and> (sr_Partial r \<or> Scanned r = length recs)"
proof -
  let ?entry = "\<lambda>rec. toEntry low rec q fm"
  obtain groups st err where sc: "scan (recs, fin) (searchLimits cfg) (dedup_visit ?entry) [] = (groups, st, err)"
    by (metis prod_cases3)
  have v: "dedup_visit ?entry = (\<lambda>s r. (case ?entry r of None \<Rightarrow> s | Some e \<Rightarrow> dedup_add e s, True))"
    by (simp add: fun_eq_iff dedup_visit_def)
  define ms where "ms = List.map_filter ?entry (take (ss_Records st) recs)"
  note f = scan_fold [OF sc [unfolded v]]
  have groups: "groups = fold dedup_add ms []" using f by (simp add: fold_dedup_visit ms_def)
  have inv: "dedup_inv groups ms" unfolding groups by (rule dedup_fold_inv)
  let ?ord = "\<lambda>g. (- int (en_Count g), - en_LastSeen g)"
  have r: "Items r = sort_key ?ord (map snd groups)" "Scanned r = ss_Records st" "sr_Partial r = (ss_Capped st \<or> err \<noteq> None)"
    using assms by (auto simp: searchDedup_def sc split: if_splits)
  define gs where "gs = sort_key (?ord \<circ> snd) groups"
  have gs: "map snd gs = Items r" by (simp add: gs_def r(1) map_sort_key)
  have dist: "distinct (map fst gs)" using inv by (simp add: gs_def distinct_map_sort_key dedup_inv_def)
  have keys: "set (map fst gs) = (pattern_Key \<circ> en_Text) ` set ms" using inv by (simp add: gs_def dedup_inv_def)
  have ok: "dedup_ok g (group_of ms key)" if "(key, g) \<in> set gs" for key g
    using that inv unfolding dedup_inv_def gs_def by (metis map_of_is_SomeI set_sort)
  have counts: "map en_Count (Items r) = map (\<lambda>k. length (filter (\<lambda>e. fst e = k) (map (\<lambda>e. (pattern_Key (en_Text e), e)) ms))) (map fst gs)"
    unfolding gs [symmetric] map_map using ok by (intro map_cong refl) (auto simp: dedup_ok_def group_of_def filter_map o_def)
  have "sum_list (map en_Count (Items r)) = (\<Sum>k\<in>set (map fst gs). length (filter (\<lambda>e. fst e = k) (map (\<lambda>e. (pattern_Key (en_Text e), e)) ms)))"
    unfolding counts by (rule sum_list_distinct_conv_sum_set [OF dist])
  also have "\<dots> = length ms" by (subst sum_length_filter_keys) (simp_all only: keys, auto)
  finally have "sum_list (map en_Count (Items r)) = length ms" .
  moreover have "list_all2 (\<lambda>key g. dedup_ok g (group_of ms key)) (map fst gs) (Items r)"
    unfolding gs [symmetric] list_all2_map1 list_all2_map2 by (rule list.rel_refl_strong) (auto intro: ok)
  moreover have "sr_Partial r \<or> Scanned r = length recs" using f r by auto
  ultimately show ?thesis using dist keys unfolding r(2) ms_def by (intro conjI exI [of _ "map fst gs"])
qed

section \<open>A search with a password in the log\<close>

definition sample_conf :: LogFieldMapConfig where
  "sample_conf =
     \<lparr>fc_Preset = ''csvlog'', fc_Timestamp = ''time'', fc_Severity = [], fc_Text = [], fc_Host = ''host'', fc_Database = [],
      fc_User = [], fc_PID = [], fc_QueryID = [], fc_SQLState = [], fc_Mask = [], fc_Severities = [], fc_KeywordFields = [],
      fc_HostMatch = []\<rparr>"

definition sample_map :: FieldMap where
  "sample_map = (case FieldMapFromConfig sample_conf of Inr fm \<Rightarrow> fm | Inl _ \<Rightarrow> zero_FieldMap)"

definition sample_record :: source_Record where
  "sample_record =
     \<lparr>rec_Timestamp = 1000, rec_Fields = [(''message'', ''role PASSWORD '' @ [CHR 0x27] @ ''x'' @ [CHR 0x27])], rec_Token = ''t''\<rparr>"

definition sample_provider :: Provider where
  "sample_provider =
     \<lparr>pv_Streams = [''postgresql''], pv_Fields = (\<lambda>_. sample_map), pv_Matches = None,
      pv_Stream = (\<lambda>_. ([sample_record], None)), pv_Narrow = sp_Filter\<rparr>"

definition sample_query :: "bool \<Rightarrow> SearchQuery" where
  "sample_query dedup =
     \<lparr>sq_Cluster = ''main'', sq_Stream = ''postgresql'', sq_From = 0, sq_To = 5000, sq_Severities = [''error''], sq_Host = [],
      sq_QueryID = None, sq_Include = [], sq_Exclude = [], sq_Database = [], sq_User = [], sq_Dedup = dedup,
      sq_PageSize = 10, sq_PageToken = []\<rparr>"

definition sample_cfg :: LogSearchConfig where
  "sample_cfg = search_WithDefaults \<lparr>MaxScan = 0, MaxPageSize = 0, TimeoutSeconds = 0\<rparr>"

definition sample_sources :: source_Registry where "sample_sources = Register ''x'' sample_provider NewRegistry"

lemma sample_map_accepted: "FieldMapFromConfig sample_conf = Inr sample_map"
  by code_simp

lemma sample_resolve:
  "log_resolve (Some [demo_cluster ''main'']) sample_sources ''main'' ''postgresql'' =
     Inr (demo_cluster ''main'', sample_provider, ''x'', sample_map)"
proof -
  have "\<not> fm_Empty sample_map" by code_simp
  then show ?thesis
    by (simp add: log_resolve_def findCluster_def demo_cluster_def source_For_def sample_sources_def Register_def NewRegistry_def sample_provider_def)
qed

lemma sample_validate: "search_validate (demo_cluster ''main'') sample_map (sample_query False) = Inr [''ERROR'']"
  by code_simp

lemma sample_found: "entry_matches (map lower) (rec_Fields sample_record) (sample_query dedup) sample_map"
  by (simp add: entry_matches_def sample_query_def)

theorem search_answers_witness:
  "\<exists>r. Search (map lower) sample_cfg (Some [demo_cluster ''main'']) sample_sources (sample_query False) = Inr r
     \<and> Items r \<noteq> [] \<and> list_all (shows_masked [sample_record] sample_map) (Items r)"
proof -
  have q: "sq_Cluster (sample_query False) = ''main''" "sq_Stream (sample_query False) = ''postgresql''" "\<not> sq_Dedup (sample_query False)"
      "sq_PageSize (sample_query False) = 10" by (simp_all add: sample_query_def)
  have s: "pv_Stream sample_provider p = ([sample_record], None)" for p by (simp add: sample_provider_def)
  have "\<exists>r. Search (map lower) sample_cfg (Some [demo_cluster ''main'']) sample_sources (sample_query False) = Inr r \<and> Items r \<noteq> []"
    by (simp add: Search_def q sample_resolve sample_validate s searchPage_def scan_def scan_visit_def page_visit_def toEntry_def
        sample_found zero_scanStats_def searchLimits_def sample_cfg_def search_WithDefaults_def page_size_def defaultPageSize_def Let_def)
  then obtain r where r: "Search (map lower) sample_cfg (Some [demo_cluster ''main'']) sample_sources (sample_query False) = Inr r" "Items r \<noteq> []"
    by blast
  have "list_all (shows_masked [sample_record] sample_map) (Items r)"
    by (rule search_answers_are_masked [OF _ sample_map_accepted sample_validate s r(1)]) (simp add: q sample_resolve)
  then show ?thesis using r by blast
qed

theorem dedup_accounts_witness:
  "\<exists>r. searchDedup (map lower) sample_cfg ([sample_record, sample_record], None) (sample_query True) sample_map = Inr r
     \<and> sum_list (map en_Count (Items r)) = 2"
proof -
  obtain r where r: "searchDedup (map lower) sample_cfg ([sample_record, sample_record], None) (sample_query True) sample_map = Inr r"
      "Scanned r = 2"
    by (auto simp: searchDedup_def scan_def scan_visit_def dedup_visit_def zero_scanStats_def searchLimits_def
        sample_cfg_def search_WithDefaults_def Let_def)
  have "List.map_filter (\<lambda>rec. toEntry (map lower) rec (sample_query True) sample_map) (take (Scanned r) [sample_record, sample_record]) =
      replicate 2 (masked_entry 1000 (rec_Fields sample_record) sample_map)"
    by (simp add: r(2) toEntry_def sample_found numeral_2_eq_2) (simp add: sample_record_def)
  then show ?thesis using dedup_accounts_for_matches [OF r(1)] r(1) by auto
qed

end
