(* ===== verification/Log_Compare.thy ===== *)
theory Log_Compare
  imports Log_Categories
begin

text \<open>
  Comparison of the plans of two windows (\<^verbatim>\<open>backend/internal/logs/insights/compare.go\<close>): the
  groups of a window are put together per statement, and a statement that both windows hold is
  listed when it gained a shape, lost an index or slowed down. Maps are association lists in the
  order of first appearance; the result is sorted by a total key.
\<close>

section \<open>Operations\<close>

definition ReasonNewShape :: string where "ReasonNewShape = ''new_shape''"
definition ReasonLostIndex :: string where "ReasonLostIndex = ''lost_index''"
definition ReasonSlower :: string where "ReasonSlower = ''slower''"

definition slowdownFactor :: f64 where "slowdownFactor = lit 2"
definition severeFactor :: f64 where "severeFactor = lit 10"
definition minSlowerPlans :: nat where "minSlowerPlans = 20"

lemmas compare_consts = ReasonNewShape_def ReasonLostIndex_def ReasonSlower_def

record Regression =
  rg_QueryID :: i64
  rg_HasQueryID :: bool
  rg_QueryText :: string
  Reasons :: "string list"
  AddedHashes :: "string list"
  RemovedHashes :: "string list"
  AddedIndexes :: "string list"
  LostIndexes :: "string list"
  rg_Current :: DurationStats
  rg_Baseline :: DurationStats
  CurrentCount :: nat
  BaselineCount :: nat
  P50Ratio :: f64
  P95Ratio :: f64
  rg_Severity :: Severity

record log_statement =
  dominant :: GroupRow
  st_hashes :: "string list"
  st_indexes :: "string list"

definition statementKey :: "GroupRow \<Rightarrow> string option" where
  "statementKey r =
     (if gr_HasQueryID r then Some (''q:'' @ FormatInt (gr_QueryID r))
      else if pattern_Key (gr_QueryText r) \<noteq> [] then Some (''t:'' @ pattern_Key (gr_QueryText r))
      else None)"

definition appendNew :: "string list \<Rightarrow> string list \<Rightarrow> string list" where
  "appendNew values add = fold (\<lambda>v vs. if v \<noteq> [] \<and> v \<notin> set vs then vs @ [v] else vs) add values"

definition add_group_row :: "GroupRow \<Rightarrow> (string \<times> log_statement) list \<Rightarrow> (string \<times> log_statement) list" where
  "add_group_row r out =
     (case statementKey r of
        None \<Rightarrow> out
      | Some key \<Rightarrow>
          let s = (case map_of out key of None \<Rightarrow> \<lparr>dominant = r, st_hashes = [], st_indexes = []\<rparr> | Some s \<Rightarrow> s)
          in AList.update key
               \<lparr>dominant = (if dur_Sum (gr_Durations (dominant s)) < dur_Sum (gr_Durations r) then r else dominant s),
                st_hashes = appendNew (st_hashes s) [gr_Hash r],
                st_indexes = appendNew (st_indexes s) (case gr_Indexes r of None \<Rightarrow> [] | Some xs \<Rightarrow> xs)\<rparr> out)"

definition log_statements :: "GroupRow list \<Rightarrow> (string \<times> log_statement) list" where
  "log_statements rows = fold add_group_row rows []"

definition SliceMissing :: "string list \<Rightarrow> string list \<Rightarrow> string list" where
  "SliceMissing from other = filter (\<lambda>v. v \<notin> set other) from"

definition missingFrom :: "string list \<Rightarrow> string list \<Rightarrow> string list" where
  "missingFrom values other = sort (SliceMissing values other)"

definition ratio :: "f64 \<Rightarrow> f64 \<Rightarrow> f64" where
  "ratio cur base = (if base \<le> lit 0 then lit 0 else cur / base)"

definition regressionSeverity :: "Regression \<Rightarrow> Severity" where
  "regressionSeverity r =
     (let slower = ReasonSlower \<in> set (Reasons r)
      in if LostIndexes r \<noteq> [] \<or> slower \<and> severeFactor \<le> P95Ratio r then SeverityHigh
         else if slower then SeverityMedium else SeverityLow)"

definition measured_slower :: "Regression \<Rightarrow> bool" where
  "measured_slower r \<longleftrightarrow>
     (minSlowerPlans \<le> CurrentCount r \<and> minSlowerPlans \<le> BaselineCount r) \<and> slowdownFactor \<le> P95Ratio r"

definition compare_reasons :: "Regression \<Rightarrow> string list" where
  "compare_reasons r =
     (if AddedHashes r \<noteq> [] then [ReasonNewShape] else []) @
     (if LostIndexes r \<noteq> [] then [ReasonLostIndex] else []) @
     (if measured_slower r then [ReasonSlower] else [])"

definition statement_diff :: "log_statement \<Rightarrow> log_statement \<Rightarrow> bool \<Rightarrow> Regression" where
  "statement_diff cur base indexesKnown =
     \<lparr>rg_QueryID = gr_QueryID (dominant cur), rg_HasQueryID = gr_HasQueryID (dominant cur),
      rg_QueryText = gr_QueryText (dominant cur), Reasons = [],
      AddedHashes = missingFrom (st_hashes cur) (st_hashes base),
      RemovedHashes = missingFrom (st_hashes base) (st_hashes cur),
      AddedIndexes = (if indexesKnown then missingFrom (st_indexes cur) (st_indexes base) else []),
      LostIndexes = (if indexesKnown then missingFrom (st_indexes base) (st_indexes cur) else []),
      rg_Current = gr_Durations (dominant cur), rg_Baseline = gr_Durations (dominant base),
      CurrentCount = gr_Count (dominant cur), BaselineCount = gr_Count (dominant base),
      P50Ratio = ratio (dur_P50 (gr_Durations (dominant cur))) (dur_P50 (gr_Durations (dominant base))),
      P95Ratio = ratio (dur_P95 (gr_Durations (dominant cur))) (dur_P95 (gr_Durations (dominant base))),
      rg_Severity = SeverityNone\<rparr>"

definition compareStatement :: "log_statement \<Rightarrow> log_statement \<Rightarrow> bool \<Rightarrow> Regression option" where
  "compareStatement cur base indexesKnown =
     (let r = statement_diff cur base indexesKnown; r = r\<lparr>Reasons := compare_reasons r\<rparr>
      in if Reasons r = [] then None else Some (r\<lparr>rg_Severity := regressionSeverity r\<rparr>))"

definition regression_rank :: "Severity \<Rightarrow> nat" where
  "regression_rank s = (case s of SeverityHigh \<Rightarrow> 0 | SeverityMedium \<Rightarrow> 1 | _ \<Rightarrow> 2)"

definition regression_order :: "Regression \<Rightarrow> nat \<times> (int \<times> rat) \<times> (int \<times> rat) \<times> i64 \<times> string" where
  "regression_order r =
     (regression_rank (rg_Severity r), desc (P95Ratio r), desc (dur_Sum (rg_Current r)), rg_QueryID r, rg_QueryText r)"

definition compare_in :: "(string \<times> log_statement) list \<Rightarrow> bool \<Rightarrow> string \<times> log_statement \<Rightarrow> Regression option" where
  "compare_in base indexesKnown = (\<lambda>(key, c).
     (case map_of base key of None \<Rightarrow> None | Some b \<Rightarrow> compareStatement c b indexesKnown))"

definition Compare :: "GroupRow list \<Rightarrow> GroupRow list \<Rightarrow> bool \<Rightarrow> Regression list" where
  "Compare current baseline indexesKnown =
     sort_key regression_order
       (List.map_filter (compare_in (log_statements baseline) indexesKnown) (log_statements current))"

section \<open>Statements of a window\<close>

definition rows_of :: "GroupRow list \<Rightarrow> string \<Rightarrow> GroupRow list" where
  "rows_of rows key = filter (\<lambda>r. statementKey r = Some key) rows"

definition row_indexes :: "GroupRow \<Rightarrow> string set" where
  "row_indexes r = (case gr_Indexes r of None \<Rightarrow> {} | Some xs \<Rightarrow> set xs)"

definition heaviest :: "GroupRow list \<Rightarrow> GroupRow" where
  "heaviest rows =
     fold (\<lambda>r d. if dur_Sum (gr_Durations d) < dur_Sum (gr_Durations r) then r else d) (tl rows) (hd rows)"

lemma heaviest_snoc:
  "rows \<noteq> [] \<Longrightarrow> heaviest (rows @ [r]) =
     (if dur_Sum (gr_Durations (heaviest rows)) < dur_Sum (gr_Durations r) then r else heaviest rows)"
  by (simp add: heaviest_def)

lemma heaviest_is_maximal:
  "rows \<noteq> [] \<Longrightarrow> heaviest rows \<in> set rows \<and>
     list_all (\<lambda>r. \<not> dur_Sum (gr_Durations (heaviest rows)) < dur_Sum (gr_Durations r)) rows"
proof (induction rows rule: rev_induct)
  case (snoc r rows)
  show ?case
  proof (cases "rows = []")
    case True
    then show ?thesis by (simp add: heaviest_def)
  next
    case False
    then show ?thesis using snoc f64_less_trans by (auto simp: heaviest_snoc list_all_iff)
  qed
qed simp

definition statement_ok :: "log_statement \<Rightarrow> GroupRow list \<Rightarrow> bool" where
  "statement_ok s rows \<longleftrightarrow>
     rows \<noteq> [] \<and> dominant s = heaviest rows
     \<and> set (st_hashes s) = gr_Hash ` set rows - {[]} \<and> set (st_indexes s) = \<Union> (row_indexes ` set rows) - {[]}"

lemma set_appendNew [simp]: "set (appendNew vs add) = set vs \<union> (set add - {[]})"
  by (induction add arbitrary: vs) (auto simp: appendNew_def)

definition slot_ok :: "log_statement option \<Rightarrow> GroupRow list \<Rightarrow> bool" where
  "slot_ok slot rows \<longleftrightarrow> (case slot of None \<Rightarrow> rows = [] | Some s \<Rightarrow> statement_ok s rows)"

lemma slot_ok_simps [simp]: "slot_ok None rows \<longleftrightarrow> rows = []" "slot_ok (Some s) rows \<longleftrightarrow> statement_ok s rows"
  by (simp_all add: slot_ok_def)

definition statements_ok :: "(string \<times> log_statement) list \<Rightarrow> GroupRow list \<Rightarrow> bool" where
  "statements_ok out rows \<longleftrightarrow>
     distinct (map fst out) \<and>
     (\<forall>key. slot_ok (map_of out key) (rows_of rows key))"

lemma statement_ok_fresh:
  "statement_ok \<lparr>dominant = r, st_hashes = appendNew [] [gr_Hash r],
     st_indexes = appendNew [] (case gr_Indexes r of None \<Rightarrow> [] | Some xs \<Rightarrow> xs)\<rparr> [r]"
  by (auto simp: statement_ok_def heaviest_def row_indexes_def split: option.split)

lemma statement_ok_add:
  assumes "statement_ok s rows"
  shows "statement_ok
    \<lparr>dominant = (if dur_Sum (gr_Durations (dominant s)) < dur_Sum (gr_Durations r) then r else dominant s),
     st_hashes = appendNew (st_hashes s) [gr_Hash r],
     st_indexes = appendNew (st_indexes s) (case gr_Indexes r of None \<Rightarrow> [] | Some xs \<Rightarrow> xs)\<rparr> (rows @ [r])"
  using assms by (auto simp: statement_ok_def heaviest_snoc row_indexes_def split: option.splits)

lemma statements_ok_add:
  assumes "statements_ok out rows"
  shows "statements_ok (add_group_row r out) (rows @ [r])"
proof (cases "statementKey r")
  case None
  then have "rows_of (rows @ [r]) k = rows_of rows k" for k by (simp add: rows_of_def)
  then show ?thesis using assms None by (simp add: add_group_row_def statements_ok_def)
next
  case (Some key)
  have old: "slot_ok (map_of out key) (rows_of rows key)"
    using assms by (simp add: statements_ok_def)
  define s where "s = (case map_of out key of None \<Rightarrow> \<lparr>dominant = r, st_hashes = [], st_indexes = []\<rparr> | Some s \<Rightarrow> s)"
  let ?s = "\<lparr>dominant = (if dur_Sum (gr_Durations (dominant s)) < dur_Sum (gr_Durations r) then r else dominant s),
     st_hashes = appendNew (st_hashes s) [gr_Hash r],
     st_indexes = appendNew (st_indexes s) (case gr_Indexes r of None \<Rightarrow> [] | Some xs \<Rightarrow> xs)\<rparr>"
  have e: "add_group_row r out = AList.update key ?s out" by (simp only: add_group_row_def Some option.case Let_def s_def)
  have new: "statement_ok ?s (rows_of rows key @ [r])"
  proof (cases "map_of out key")
    case None
    then show ?thesis using old statement_ok_fresh [of r] by (simp add: s_def)
  next
    case (Some t)
    then have "s = t" by (simp add: s_def)
    then show ?thesis using old Some statement_ok_add [of t "rows_of rows key" r] by (simp only: slot_ok_simps)
  qed
  have "rows_of (rows @ [r]) k = (if k = key then rows_of rows key @ [r] else rows_of rows k)" for k
    using Some by (auto simp: rows_of_def)
  moreover obtain t where "t = ?s" by simp
  ultimately show ?thesis using assms new e by (simp add: statements_ok_def distinct_update update_conv' flip: \<open>t = ?s\<close>)
qed

lemma log_statements_ok: "statements_ok (log_statements rows) rows"
proof (induction rows rule: rev_induct)
  case Nil
  then show ?case by (simp add: log_statements_def statements_ok_def rows_of_def)
next
  case (snoc r rows)
  then show ?case using statements_ok_add by (simp add: log_statements_def)
qed

section \<open>Regressions\<close>

definition regression_key :: "Regression \<Rightarrow> string option" where
  "regression_key r =
     (if rg_HasQueryID r then Some (''q:'' @ FormatInt (rg_QueryID r))
      else if pattern_Key (rg_QueryText r) \<noteq> [] then Some (''t:'' @ pattern_Key (rg_QueryText r))
      else None)"

text \<open>
  What makes a statement a regression, told from the rows of the two windows: a shape or an index
  in one of them only, or the growth of the 95th percentile of the heaviest shape.
\<close>

definition slowed_down :: "GroupRow \<Rightarrow> GroupRow \<Rightarrow> bool" where
  "slowed_down c b \<longleftrightarrow>
     20 \<le> gr_Count c \<and> 20 \<le> gr_Count b
     \<and> lit 2 \<le> ratio (dur_P95 (gr_Durations c)) (dur_P95 (gr_Durations b))"

definition changed_for_worse :: "bool \<Rightarrow> GroupRow list \<Rightarrow> GroupRow list \<Rightarrow> bool" where
  "changed_for_worse indexesKnown cur base \<longleftrightarrow>
     \<not> gr_Hash ` set cur - {[]} \<subseteq> gr_Hash ` set base
     \<or> indexesKnown \<and> \<not> \<Union> (row_indexes ` set base) - {[]} \<subseteq> \<Union> (row_indexes ` set cur)
     \<or> slowed_down (heaviest cur) (heaviest base)"

lemma missingFrom_empty: "missingFrom vs other = [] \<longleftrightarrow> set vs \<subseteq> set other"
proof -
  have "missingFrom vs other = [] \<longleftrightarrow> SliceMissing vs other = []" by (metis missingFrom_def set_empty set_sort)
  then show ?thesis by (auto simp: SliceMissing_def filter_empty_conv)
qed

lemma compareStatement_None:
  assumes "statement_ok c cur" and "statement_ok b base"
  shows "compareStatement c b known = None \<longleftrightarrow> \<not> changed_for_worse known cur base"
proof -
  let ?r = "statement_diff c b known"
  have h: "AddedHashes ?r = [] \<longleftrightarrow> gr_Hash ` set cur - {[]} \<subseteq> gr_Hash ` set base"
    using assms by (auto simp: statement_diff_def missingFrom_empty statement_ok_def)
  have i: "LostIndexes ?r = [] \<longleftrightarrow> \<not> (known \<and> \<not> \<Union> (row_indexes ` set base) - {[]} \<subseteq> \<Union> (row_indexes ` set cur))"
    using assms by (auto simp: statement_diff_def missingFrom_empty statement_ok_def)
  have s: "measured_slower ?r \<longleftrightarrow> slowed_down (heaviest cur) (heaviest base)"
    using assms by (simp add: measured_slower_def statement_diff_def slowed_down_def statement_ok_def minSlowerPlans_def slowdownFactor_def)
  have "compareStatement c b known = None \<longleftrightarrow> compare_reasons ?r = []"
    by (simp add: compareStatement_def Let_def)
  also have "\<dots> \<longleftrightarrow> \<not> changed_for_worse known cur base"
    by (simp only: compare_reasons_def changed_for_worse_def s h i) simp
  finally show ?thesis .
qed

lemma compareStatement_key:
  assumes "compareStatement c b known = Some r" and "statement_ok c (rows_of rows key)"
  shows "regression_key r = Some key"
proof -
  have "dominant c \<in> set (rows_of rows key)" using heaviest_is_maximal assms(2) by (simp add: statement_ok_def)
  then have "statementKey (dominant c) = Some key" by (simp add: rows_of_def)
  then show ?thesis using assms(1)
    by (auto simp: compareStatement_def Let_def statement_diff_def regression_key_def statementKey_def split: if_splits)
qed

lemma log_statements_rows:
  "map_of (log_statements rows) key = Some s \<Longrightarrow> statement_ok s (rows_of rows key)"
  "map_of (log_statements rows) key = None \<longleftrightarrow> rows_of rows key = []"
proof -
  have ok: "slot_ok (map_of (log_statements rows) key) (rows_of rows key)"
    using log_statements_ok [of rows] by (simp add: statements_ok_def)
  show "map_of (log_statements rows) key = Some s \<Longrightarrow> statement_ok s (rows_of rows key)" using ok by simp
  show "map_of (log_statements rows) key = None \<longleftrightarrow> rows_of rows key = []"
    using ok by (cases "map_of (log_statements rows) key") (auto simp: statement_ok_def simp del: map_of_eq_Some_iff)
qed

lemma compare_in_Some:
  assumes "(key, c) \<in> set (log_statements cur)" and "compare_in (log_statements base) known (key, c) = Some r"
  shows "regression_key r = Some key" and "rows_of cur key \<noteq> []" and "rows_of base key \<noteq> []"
    and "changed_for_worse known (rows_of cur key) (rows_of base key)"
proof -
  have d: "distinct (map fst (log_statements cur))" using log_statements_ok by (simp add: statements_ok_def)
  have c: "map_of (log_statements cur) key = Some c" using assms(1) d by simp
  obtain b where b: "map_of (log_statements base) key = Some b" and r: "compareStatement c b known = Some r"
    using assms(2) by (auto simp: compare_in_def split: option.splits)
  note ok = log_statements_rows(1) [OF c] log_statements_rows(1) [OF b]
  show "regression_key r = Some key" by (rule compareStatement_key [OF r ok(1)])
  show "rows_of cur key \<noteq> []" "rows_of base key \<noteq> []" using ok by (simp_all add: statement_ok_def)
  show "changed_for_worse known (rows_of cur key) (rows_of base key)"
    using compareStatement_None [OF ok, of known] r by auto
qed

lemma compare_in_changed:
  assumes "rows_of cur key \<noteq> []" and "rows_of base key \<noteq> []"
    and "changed_for_worse known (rows_of cur key) (rows_of base key)"
  shows "\<exists>c r. (key, c) \<in> set (log_statements cur) \<and> compare_in (log_statements base) known (key, c) = Some r"
proof -
  obtain c where c: "map_of (log_statements cur) key = Some c" using assms(1) log_statements_rows(2) [of cur key] by fastforce
  obtain b where b: "map_of (log_statements base) key = Some b" using assms(2) log_statements_rows(2) [of base key] by fastforce
  have "compareStatement c b known \<noteq> None"
    using compareStatement_None [OF log_statements_rows(1) [OF c] log_statements_rows(1) [OF b]] assms(3) by simp
  then show ?thesis using map_of_SomeD [OF c] b by (auto simp: compare_in_def)
qed

lemma in_map_filter: "y \<in> set (List.map_filter f xs) \<longleftrightarrow> (\<exists>x\<in>set xs. f x = Some y)"
  by (induction xs) (auto split: option.split)

lemma distinct_map_filter_keys:
  assumes "distinct (map fst xs)" and "\<And>k v r. (k, v) \<in> set xs \<Longrightarrow> f (k, v) = Some r \<Longrightarrow> g r = Some k"
  shows "distinct (map g (List.map_filter f xs))"
  using assms
proof (induction xs)
  case (Cons x xs)
  have k: "g r = Some (fst y)" if "y \<in> set (x # xs)" "f y = Some r" for y r
    using Cons.prems(2) [of "fst y" "snd y" r] that by simp
  have IH: "distinct (map g (List.map_filter f xs))" using Cons by auto
  show ?case
  proof (cases "f x")
    case (Some r)
    have "g r \<noteq> g r'" if in_rest: "r' \<in> set (List.map_filter f xs)" for r'
    proof -
      obtain y where y: "y \<in> set xs" "f y = Some r'" using in_rest unfolding in_map_filter by blast
      then have "fst y \<noteq> fst x" using Cons.prems(1) by (metis distinct.simps(2) image_eqI list.set_map list.simps(9))
      then show ?thesis using k [of y r'] k [of x r] y Some by simp
    qed
    then show ?thesis using IH by (auto simp: Some)
  qed (simp add: IH)
qed simp

text \<open>C34: The regressions are exactly the statements that changed for the worse. A statement is
  listed if and only if both windows hold plans of it and it gained a shape the baseline does not
  know, or lost an index the baseline read, or the heaviest shape has at least twenty plans in each
  window and its 95th percentile has at least doubled; it is listed once, and the list is ordered by
  severity, slow-down and time spent.\<close>
theorem regressions_are_the_changes:
  "(list_ex (\<lambda>r. regression_key r = Some key) (Compare cur base known) \<longleftrightarrow>
      rows_of cur key \<noteq> [] \<and> rows_of base key \<noteq> [] \<and> changed_for_worse known (rows_of cur key) (rows_of base key))
   \<and> list_all (\<lambda>r. regression_key r \<noteq> None) (Compare cur base known)
   \<and> distinct (map regression_key (Compare cur base known))
   \<and> sorted (map regression_order (Compare cur base known))"
proof -
  let ?f = "compare_in (log_statements base) known" and ?xs = "log_statements cur"
  have in_out: "r \<in> set (Compare cur base known) \<longleftrightarrow> (\<exists>key c. (key, c) \<in> set ?xs \<and> ?f (key, c) = Some r)" for r
    by (simp add: Compare_def in_map_filter Bex_def)
  have key: "regression_key r = Some k" if "(k, c) \<in> set ?xs" "?f (k, c) = Some r" for k c r
    using that by (rule compare_in_Some(1))
  have "list_ex (\<lambda>r. regression_key r = Some key) (Compare cur base known) \<longleftrightarrow>
      (\<exists>c r. (key, c) \<in> set ?xs \<and> ?f (key, c) = Some r)"
    unfolding list_ex_iff Bex_def in_out using key by fastforce
  also have "\<dots> \<longleftrightarrow> rows_of cur key \<noteq> [] \<and> rows_of base key \<noteq> []
      \<and> changed_for_worse known (rows_of cur key) (rows_of base key)"
    by (intro iffI conjI; elim exE conjE; erule (1) compare_in_Some compare_in_changed)
  finally have "list_ex (\<lambda>r. regression_key r = Some key) (Compare cur base known) \<longleftrightarrow>
      rows_of cur key \<noteq> [] \<and> rows_of base key \<noteq> [] \<and> changed_for_worse known (rows_of cur key) (rows_of base key)" .
  moreover have "list_all (\<lambda>r. regression_key r \<noteq> None) (Compare cur base known)"
    unfolding list_all_iff Ball_def in_out using key by fastforce
  moreover have "distinct (map regression_key (List.map_filter ?f ?xs))"
    by (rule distinct_map_filter_keys) (use log_statements_ok key in \<open>auto simp: statements_ok_def\<close>)
  then have "distinct (map regression_key (Compare cur base known))" by (simp add: Compare_def distinct_map_sort_key)
  moreover have "sorted (map regression_order (Compare cur base known))" by (simp add: Compare_def)
  ultimately show ?thesis by blast
qed

lemma ratio_self [simp]: "\<not> Fin 2 \<le> ratio x x"
  by (cases x) (simp_all add: ratio_def)

text \<open>A window compared with itself holds no regression: the rule on shapes and indexes compares
  equal sets, and the quotient of equal percentiles rounds to one.\<close>
theorem no_regression_against_itself: "Compare rows rows known = []"
proof -
  have "\<not> changed_for_worse known (rows_of rows key) (rows_of rows key)" for key
    by (auto simp: changed_for_worse_def slowed_down_def)
  then have "r \<notin> set (Compare rows rows known)" for r
    using compare_in_Some(4) [of _ _ rows rows known r] by (auto simp: Compare_def in_map_filter)
  then show ?thesis by (metis list.set_intros(1) neq_Nil_conv)
qed

end
