(* ===== verification/Log_Insights.thy ===== *)
theory Log_Insights
  imports Log_Search_Dedup Log_Compare
begin

text \<open>
  Scans of a window for log insights (\<^verbatim>\<open>backend/internal/logs/insights.go\<close>, \<^verbatim>\<open>plans.go\<close>,
  \<^verbatim>\<open>settings.go\<close>): one read counts the categories of the records and collects the plans among
  them, within the budgets of the configuration, and the answer says what it covers and why it may
  be incomplete. The diagnosis of plan logging comes from the settings of the hosts.

  \<^verbatim>\<open>GetPlanLogSettings\<close> is a function of the instance that may fail, absent when there is no
  repository. The goroutine that reads the settings beside the scan only contributes its value.
\<close>

section \<open>Configuration\<close>

record LogInsightsConfig =
  ic_Enabled :: "bool option"
  ic_MaxRecords :: int
  ic_MaxBytes :: int
  ic_MaxPlanBytes :: int
  ic_MaxPlans :: int
  ic_IndexAdvisorEvidence :: bool

definition ic_IsEnabled :: "LogInsightsConfig \<Rightarrow> bool" where
  "ic_IsEnabled c \<longleftrightarrow> ic_Enabled c = None \<or> ic_Enabled c = Some True"

definition ic_WithDefaults :: "LogInsightsConfig \<Rightarrow> LogInsightsConfig" where
  "ic_WithDefaults c =
     c\<lparr>ic_MaxRecords := (if ic_MaxRecords c \<le> 0 then 50000 else ic_MaxRecords c),
       ic_MaxBytes := (if ic_MaxBytes c \<le> 0 then 64 * 2 ^ 20 else ic_MaxBytes c),
       ic_MaxPlanBytes := (if ic_MaxPlanBytes c \<le> 0 then 2 * 2 ^ 20 else ic_MaxPlanBytes c),
       ic_MaxPlans := (if ic_MaxPlans c \<le> 0 then 5000 else ic_MaxPlans c)\<rparr>"

text \<open>The parts of the service a scan reads. Instances answer with their settings or not at all.\<close>

record log_service =
  lsv_cfg :: LogSearchConfig
  lsv_insights :: LogInsightsConfig
  lsv_clusters :: "Cluster list option"
  lsv_sources :: source_Registry
  lsv_settings :: "(string \<Rightarrow> string \<Rightarrow> (string \<times> string) list option) option"

section \<open>Settings of plan logging\<close>

record Configuration =
  cf_Instance :: string
  cf_AutoExplain :: bool
  cf_LogMinDurationMs :: "i64 option"
  cf_LogAnalyze :: "bool option"
  cf_LogFormat :: string
  cf_LogLevel :: string
  cf_ComputeQueryID :: string
  cf_WorkMemKB :: "i64 option"

definition parseBoolSetting :: "string \<Rightarrow> bool option" where
  "parseBoolSetting v = (if v = ''on'' then Some True else if v = ''off'' then Some False else None)"

definition newConfiguration :: "(string \<times> string) list \<Rightarrow> Configuration" where
  "newConfiguration values =
     (let cfg = \<lparr>cf_Instance = [], cf_AutoExplain = list_ex (\<lambda>(name, _). HasPrefix name ''auto_explain.'') values,
                 cf_LogMinDurationMs = None, cf_LogAnalyze = None, cf_LogFormat = [], cf_LogLevel = [],
                 cf_ComputeQueryID = get_field values ''compute_query_id'',
                 cf_WorkMemKB = ParseMemKB (get_field values ''work_mem'')\<rparr>
      in if \<not> cf_AutoExplain cfg then cfg
         else cfg\<lparr>cf_LogMinDurationMs := ParseInt (get_field values ''auto_explain.log_min_duration''),
                  cf_LogAnalyze := parseBoolSetting (get_field values ''auto_explain.log_analyze''),
                  cf_LogFormat := get_field values ''auto_explain.log_format'',
                  cf_LogLevel := get_field values ''auto_explain.log_level''\<rparr>)"

definition read_host :: "(string \<Rightarrow> string \<Rightarrow> (string \<times> string) list option) \<Rightarrow> string \<Rightarrow> string \<Rightarrow> Configuration option" where
  "read_host settings cluster host =
     map_option (\<lambda>values. (newConfiguration values)\<lparr>cf_Instance := host\<rparr>) (settings cluster host)"

definition readSettings :: "log_service \<Rightarrow> Cluster \<Rightarrow> string list \<Rightarrow> Configuration list \<times> bool" where
  "readSettings svc c hosts =
     (case lsv_settings svc of
        None \<Rightarrow> ([], False)
      | Some settings \<Rightarrow>
          if hosts = [] then ([], False)
          else (let out = List.map_filter (read_host settings (cl_Name c)) hosts in (out, length out = length hosts)))"

definition scanHosts :: "Cluster \<Rightarrow> string \<Rightarrow> string list" where
  "scanHosts c host = (if host \<noteq> [] then [host] else Hosts c)"

definition sharedWorkMemKB :: "Configuration list \<Rightarrow> i64 option" where
  "sharedWorkMemKB cfgs =
     (case cf_WorkMemKB (hd cfgs) of
        None \<Rightarrow> None
      | Some kb \<Rightarrow> if list_ex (\<lambda>cfg. cf_WorkMemKB cfg \<noteq> Some kb) (tl cfgs) then None else Some kb)"

record planLogging =
  plg_Config :: "Configuration option"
  plg_Levels :: "string list"
  plg_WorkMemKB :: "i64 option"

definition add_level :: "Configuration \<Rightarrow> string list \<Rightarrow> string list" where
  "add_level cfg levels =
     (if cf_LogLevel cfg \<noteq> [] \<and> cf_LogLevel cfg \<notin> set levels then levels @ [cf_LogLevel cfg] else levels)"

definition svc_planLogging :: "log_service \<Rightarrow> Cluster \<Rightarrow> string \<Rightarrow> planLogging" where
  "svc_planLogging svc c host =
     (case readSettings svc c (scanHosts c host) of (cfgs, all_read) \<Rightarrow>
        if cfgs = [] then \<lparr>plg_Config = None, plg_Levels = [], plg_WorkMemKB = None\<rparr>
        else if \<not> all_read then \<lparr>plg_Config = Some (hd cfgs), plg_Levels = [], plg_WorkMemKB = None\<rparr>
        else \<lparr>plg_Config = Some (hd cfgs), plg_Levels = fold add_level cfgs [], plg_WorkMemKB = sharedWorkMemKB cfgs\<rparr>)"

definition planContext :: "planLogging \<Rightarrow> Context" where
  "planContext l = \<lparr>WorkMemKB = plg_WorkMemKB l, TableRows = []\<rparr>"

fun canonical_levels :: "FieldMap \<Rightarrow> string list \<Rightarrow> string list option" where
  "canonical_levels fm [] = Some []"
| "canonical_levels fm (level # levels) =
     (case CanonicalSeverity fm level of
        None \<Rightarrow> None
      | Some v \<Rightarrow> map_option ((#) v) (canonical_levels fm levels))"

definition planSeverities :: "string list \<Rightarrow> FieldMap \<Rightarrow> string list" where
  "planSeverities levels fm = (case canonical_levels fm levels of None \<Rightarrow> [] | Some out \<Rightarrow> out)"

section \<open>What a scan covers\<close>

record log_Span =
  span_From :: time
  span_To :: time

definition zero_Span :: log_Span where "zero_Span = \<lparr>span_From = zero_time, span_To = zero_time\<rparr>"

definition span_add :: "time \<Rightarrow> log_Span \<Rightarrow> log_Span" where
  "span_add ts s =
     s\<lparr>span_From := (if span_From s = zero_time \<or> before ts (span_From s) then ts else span_From s),
       span_To := (if before (span_To s) ts then ts else span_To s)\<rparr>"

type_synonym uuid = nat

definition uuid_Nil :: uuid where "uuid_Nil = 0"

record ScanResult =
  sx_ScanID :: uuid
  sx_Scanned :: nat
  sx_Partial :: bool
  sx_PartialReasons :: "string list"
  sx_Covered :: log_Span
  sx_PlansCovered :: log_Span
  sx_NarrowedBy :: "string list"
  sx_Categories :: "CategorySummary list"
  sx_Plans :: PlansSummary
  sx_PlanRecords :: nat
  sx_EmptyReason :: string
  sx_Configuration :: "Configuration option"

definition scanBudget :: "LogInsightsConfig \<Rightarrow> (source_Record \<Rightarrow> bool) \<Rightarrow> scanLimits" where
  "scanBudget c capRecord =
     \<lparr>lim_MaxRecords = ic_MaxRecords c, lim_MaxBytes = ic_MaxBytes c, lim_MaxRecordBytes = ic_MaxPlanBytes c,
      lim_CapRecord = Some capRecord\<rparr>"

definition plan_limits :: "LogInsightsConfig \<Rightarrow> PlanLimits" where
  "plan_limits c = \<lparr>MaxPlanBytes = ic_MaxPlanBytes c, MaxPlans = ic_MaxPlans c\<rparr>"

definition partialReasons :: "scanStats \<Rightarrow> log_error option \<Rightarrow> scanLimits \<Rightarrow> bool \<Rightarrow> log_error + string list" where
  "partialReasons st err limits planBudgetExhausted =
     (let budget = (if ss_Capped st
                    then (if 0 < lim_MaxRecords limits \<and> lim_MaxRecords limits \<le> int (ss_Records st) then [''records''] else []) @
                         (if 0 < lim_MaxBytes limits \<and> lim_MaxBytes limits \<le> int (ss_Bytes st) then [''bytes''] else [])
                    else []) @
                   (if planBudgetExhausted then [''plans''] else [])
      in case err of
           None \<Rightarrow> Inr budget
         | Some e \<Rightarrow>
             if ss_Partial st then Inr (''source'' # budget)
             else if e = ErrTimeout \<and> 0 < ss_Records st then Inr (''timeout'' # budget)
             else Inl e)"

definition onlyUnsupported :: "(string \<times> nat) list \<Rightarrow> bool" where
  "onlyUnsupported notParsed \<longleftrightarrow> list_all (\<lambda>(code, _). code = ''unsupported_plan_format'') notParsed \<and> notParsed \<noteq> []"

definition emptyReason :: "scanStats \<Rightarrow> bool \<Rightarrow> PlansSummary \<Rightarrow> string" where
  "emptyReason st interrupted p =
     (if 0 < sm_TotalGroups p then []
      else if ss_Records st = 0 \<and> interrupted then ''source_unavailable''
      else if ss_Records st = 0 then ''no_records''
      else if sm_Records p = 0 \<and> ss_Capped st then ''budget_exhausted''
      else if sm_Records p = 0 \<and> interrupted then ''source_unavailable''
      else if sm_Records p = 0 then ''no_plan_records''
      else if onlyUnsupported (sm_NotParsed p) then ''unsupported_plan_format''
      else if sm_BudgetExhausted p then ''budget_exhausted''
      else ''not_parsed'')"

section \<open>Insights of a window\<close>

record InsightsQuery =
  iq_Cluster :: string
  iq_Stream :: string
  iq_From :: time
  iq_To :: time
  iq_Host :: string

record insights_state =
  is_categories :: CategoryCounts
  is_plans :: Plans
  is_covered :: log_Span
  is_plansCovered :: log_Span

definition record_category :: "string \<Rightarrow> FieldMap \<Rightarrow> source_Record \<Rightarrow> string" where
  "record_category stream fm rec =
     Classify \<lparr>lr_Stream = stream, lr_Severity = get_field (rec_Fields rec) (fm_Severity fm),
               lr_SQLState = get_field (rec_Fields rec) (fm_SQLState fm), lr_Text = get_field (rec_Fields rec) (fm_Text fm)\<rparr>"

definition record_plan :: "FieldMap \<Rightarrow> source_Record \<Rightarrow> PlanRecord option" where
  "record_plan fm rec = Detect (get_field (rec_Fields rec) (fm_Text fm)) (get_field (rec_Fields rec) (fm_QueryID fm))"

definition add_record_plan :: "decoder \<Rightarrow> (string \<Rightarrow> string) \<Rightarrow> FieldMap \<Rightarrow> source_Record \<Rightarrow> Plans \<Rightarrow> Plans" where
  "add_record_plan dec sha fm rec plans =
     (case record_plan fm rec of None \<Rightarrow> plans | Some pr \<Rightarrow> plans_Add dec sha pr (rec_Timestamp rec) plans)"

definition insights_visit ::
  "decoder \<Rightarrow> (string \<Rightarrow> string) \<Rightarrow> string \<Rightarrow> FieldMap \<Rightarrow> insights_state \<Rightarrow> source_Record \<Rightarrow> insights_state" where
  "insights_visit dec sha stream fm s rec =
     (let code = record_category stream fm rec; ts = rec_Timestamp rec;
          plans = (if code = ''plan'' then add_record_plan dec sha fm rec (is_plans s) else is_plans s)
      in \<lparr>is_categories = categories_Add code (get_field (rec_Fields rec) (fm_Text fm)) ts (is_categories s),
          is_plans = plans, is_covered = span_add ts (is_covered s),
          is_plansCovered = (if pl_exhausted plans then is_plansCovered s else span_add ts (is_plansCovered s))\<rparr>)"

definition insights_start :: "LogInsightsConfig \<Rightarrow> insights_state" where
  "insights_start c =
     \<lparr>is_categories = NewCategoryCounts, is_plans = NewPlans (plan_limits c), is_covered = zero_Span, is_plansCovered = zero_Span\<rparr>"

definition insights_params :: "Cluster \<Rightarrow> InsightsQuery \<Rightarrow> StreamParams" where
  "insights_params c q =
     \<lparr>sp_Cluster = c, sp_Stream = iq_Stream q, sp_From = iq_From q, sp_To = iq_To q,
      sp_Filter = \<lparr>sf_Severities = [], sf_Host = iq_Host q, sf_QueryID = None, sf_Contains = []\<rparr>, sp_Token = []\<rparr>"

definition insightsTopGroups :: int where "insightsTopGroups = 10"
definition insightsTopTemplates :: int where "insightsTopTemplates = 5"

definition scan_insights ::
  "decoder \<Rightarrow> (string \<Rightarrow> string) \<Rightarrow> LogInsightsConfig \<Rightarrow> source_Record list \<times> stream_end \<Rightarrow> string \<Rightarrow> FieldMap \<Rightarrow> planLogging
    \<Rightarrow> log_error + ScanResult \<times> PlanGroup list" where
  "scan_insights dec sha cfg src stream fm diag =
     (let limits = scanBudget cfg (\<lambda>rec. record_category stream fm rec = ''plan'')
      in case scan src limits (\<lambda>s rec. (insights_visit dec sha stream fm s rec, True)) (insights_start cfg) of
           (s, st, scanErr) \<Rightarrow>
             (let summary = plans_Summary (is_plans s) (planContext diag)
             in case partialReasons st scanErr limits (sm_BudgetExhausted summary) of
                  Inl e \<Rightarrow> Inl e
                | Inr reasons \<Rightarrow>
                    Inr (\<lparr>sx_ScanID = uuid_Nil, sx_Scanned = ss_Records st, sx_Partial = (reasons \<noteq> []), sx_PartialReasons = reasons,
                          sx_Covered = is_covered s, sx_PlansCovered = is_plansCovered s, sx_NarrowedBy = [],
                          sx_Categories = categories_Summary (is_categories s) insightsTopTemplates,
                          sx_Plans = summary\<lparr>sm_Groups := TopGroups (sm_Groups summary) insightsTopGroups\<rparr>,
                          sx_PlanRecords = sm_Records summary,
                          sx_EmptyReason = emptyReason st (scanErr \<noteq> None) summary, sx_Configuration = plg_Config diag\<rparr>,
                         sm_Groups summary)))"

definition read_insights ::
  "decoder \<Rightarrow> (string \<Rightarrow> string) \<Rightarrow> log_service \<Rightarrow> InsightsQuery \<Rightarrow> log_error + ScanResult \<times> PlanGroup list" where
  "read_insights dec sha svc q =
     (if \<not> ic_IsEnabled (lsv_insights svc) then Inl ErrDisabled
      else case log_resolve (lsv_clusters svc) (lsv_sources svc) (iq_Cluster q) (iq_Stream q) of
        Inl e \<Rightarrow> Inl e
      | Inr (c, provider, name, fm) \<Rightarrow> (case validateWindow c (iq_From q) (iq_To q) (iq_Host q) of
            Some e \<Rightarrow> Inl e
          | None \<Rightarrow> scan_insights dec sha (lsv_insights svc) (pv_Stream provider (insights_params c q)) (iq_Stream q) fm
                     (svc_planLogging svc c (iq_Host q))))"

section \<open>Plans of a window\<close>

record PlansQuery =
  pq_Cluster :: string
  pq_Stream :: string
  pq_From :: time
  pq_To :: time
  pq_QueryID :: i64
  pq_HasQueryID :: bool
  pq_QueryIDs :: "i64 list"
  pq_Database :: string
  pq_Host :: string
  pq_Limit :: int

definition planPhrase :: string where "planPhrase = ''plan''"
definition defaultPlanGroups :: int where "defaultPlanGroups = 10"
definition maxPlanGroups :: int where "maxPlanGroups = 100"

definition planFilter :: "PlansQuery \<Rightarrow> string list \<Rightarrow> FieldMap \<Rightarrow> source_Filter" where
  "planFilter q levels fm =
     \<lparr>sf_Severities = planSeverities levels fm, sf_Host = pq_Host q,
      sf_QueryID = (if pq_HasQueryID q then Some (pq_QueryID q) else None), sf_Contains = [planPhrase]\<rparr>"

definition narrowedBy :: "source_Filter \<Rightarrow> string list" where
  "narrowedBy f =
     (if sf_Severities f \<noteq> [] then [''severity='' @ Join (sf_Severities f) '',''] else []) @
     (if sf_QueryID f \<noteq> None then [''query_id''] else []) @
     (if sf_Contains f \<noteq> [] then [''text''] else [])"

definition planGroupLimit :: "int \<Rightarrow> int" where
  "planGroupLimit n = (if n \<le> 0 then defaultPlanGroups else min n maxPlanGroups)"

definition wantedPlan :: "PlansQuery \<Rightarrow> PlanRecord \<Rightarrow> bool" where
  "wantedPlan q pr =
     (if pq_HasQueryID q then pr_HasQueryID pr \<and> pr_QueryID pr = pq_QueryID q
      else if pq_QueryIDs q \<noteq> [] then (if \<not> pr_HasQueryID pr then False else pr_QueryID pr \<in> set (pq_QueryIDs q))
      else True)"

definition validateQueryIDRole :: "FieldMap \<Rightarrow> PlansQuery \<Rightarrow> log_error option" where
  "validateQueryIDRole fm q =
     (if (pq_HasQueryID q \<or> pq_QueryIDs q \<noteq> []) \<and> fm_QueryID fm = [] then Some (NoQueryIDRole (pq_Stream q)) else None)"

definition validatePlansWindow :: "Cluster \<Rightarrow> FieldMap \<Rightarrow> PlansQuery \<Rightarrow> log_error option" where
  "validatePlansWindow c fm q =
     (case validateWindow c (pq_From q) (pq_To q) (pq_Host q) of Some e \<Rightarrow> Some e | None \<Rightarrow> validateQueryIDRole fm q)"

record plans_state =
  px_records :: nat
  px_plans :: Plans
  px_covered :: log_Span
  px_plansCovered :: log_Span

definition database_plan :: "PlansQuery \<Rightarrow> FieldMap \<Rightarrow> source_Record \<Rightarrow> PlanRecord option" where
  "database_plan q fm rec =
     (if pq_Database q = [] \<or> get_field (rec_Fields rec) (fm_Database fm) = pq_Database q then record_plan fm rec else None)"

definition plans_visit ::
  "decoder \<Rightarrow> (string \<Rightarrow> string) \<Rightarrow> PlansQuery \<Rightarrow> FieldMap \<Rightarrow> plans_state \<Rightarrow> source_Record \<Rightarrow> plans_state" where
  "plans_visit dec sha q fm s rec =
     (let ts = rec_Timestamp rec;
          (n, plans) = (case database_plan q fm rec of
                          None \<Rightarrow> (px_records s, px_plans s)
                        | Some pr \<Rightarrow> (Suc (px_records s), if wantedPlan q pr then plans_Add dec sha pr ts (px_plans s) else px_plans s))
      in \<lparr>px_records = n, px_plans = plans, px_covered = span_add ts (px_covered s),
          px_plansCovered = (if pl_exhausted plans then px_plansCovered s else span_add ts (px_plansCovered s))\<rparr>)"

definition plans_start :: "LogInsightsConfig \<Rightarrow> plans_state" where
  "plans_start c = \<lparr>px_records = 0, px_plans = NewPlans (plan_limits c), px_covered = zero_Span, px_plansCovered = zero_Span\<rparr>"

definition plans_params :: "Provider \<Rightarrow> Cluster \<Rightarrow> FieldMap \<Rightarrow> PlansQuery \<Rightarrow> planLogging \<Rightarrow> StreamParams" where
  "plans_params provider c fm q logging =
     (let p = \<lparr>sp_Cluster = c, sp_Stream = pq_Stream q, sp_From = pq_From q, sp_To = pq_To q,
               sp_Filter = planFilter q (plg_Levels logging) fm, sp_Token = []\<rparr>
      in p\<lparr>sp_Filter := pv_Narrow provider p\<rparr>)"

definition carries_plan :: "FieldMap \<Rightarrow> source_Record \<Rightarrow> bool" where
  "carries_plan fm rec \<longleftrightarrow> Detect (get_field (rec_Fields rec) (fm_Text fm)) [] \<noteq> None"

definition scan_plans ::
  "decoder \<Rightarrow> (string \<Rightarrow> string) \<Rightarrow> LogInsightsConfig \<Rightarrow> source_Record list \<times> stream_end \<Rightarrow> source_Filter \<Rightarrow> FieldMap \<Rightarrow> PlansQuery
    \<Rightarrow> planLogging \<Rightarrow> log_error + ScanResult \<times> PlanGroup list" where
  "scan_plans dec sha cfg src f fm q logging =
     (let limits = scanBudget cfg (carries_plan fm)
      in case scan src limits (\<lambda>s rec. (plans_visit dec sha q fm s rec, True)) (plans_start cfg) of
           (s, st, scanErr) \<Rightarrow>
             (let summary = plans_Summary (px_plans s) (planContext logging)
             in case partialReasons st scanErr limits (sm_BudgetExhausted summary) of
                  Inl e \<Rightarrow> Inl e
                | Inr reasons \<Rightarrow>
                    Inr (\<lparr>sx_ScanID = uuid_Nil, sx_Scanned = ss_Records st, sx_Partial = (reasons \<noteq> []), sx_PartialReasons = reasons,
                          sx_Covered = px_covered s, sx_PlansCovered = px_plansCovered s, sx_NarrowedBy = narrowedBy f,
                          sx_Categories = [],
                          sx_Plans = summary\<lparr>sm_Groups := TopGroups (sm_Groups summary) (planGroupLimit (pq_Limit q))\<rparr>,
                          sx_PlanRecords = px_records s,
                          sx_EmptyReason = emptyReason st (scanErr \<noteq> None) summary, sx_Configuration = plg_Config logging\<rparr>,
                         sm_Groups summary)))"

definition scanPlans ::
  "decoder \<Rightarrow> (string \<Rightarrow> string) \<Rightarrow> LogInsightsConfig \<Rightarrow> Cluster \<times> Provider \<times> string \<times> FieldMap \<Rightarrow> PlansQuery \<Rightarrow> planLogging
    \<Rightarrow> log_error + ScanResult \<times> PlanGroup list" where
  "scanPlans dec sha cfg = (\<lambda>(c, provider, name, fm) q logging.
     let params = plans_params provider c fm q logging
     in scan_plans dec sha cfg (pv_Stream provider params) (sp_Filter params) fm q logging)"

definition read_plans ::
  "decoder \<Rightarrow> (string \<Rightarrow> string) \<Rightarrow> log_service \<Rightarrow> PlansQuery \<Rightarrow> log_error + ScanResult \<times> PlanGroup list" where
  "read_plans dec sha svc q =
     (if \<not> ic_IsEnabled (lsv_insights svc) then Inl ErrDisabled
      else case log_resolve (lsv_clusters svc) (lsv_sources svc) (pq_Cluster q) (pq_Stream q) of
        Inl e \<Rightarrow> Inl e
      | Inr (c, provider, name, fm) \<Rightarrow> (case validatePlansWindow c fm q of
            Some e \<Rightarrow> Inl e
          | None \<Rightarrow> scanPlans dec sha (lsv_insights svc) (c, provider, name, fm) q (svc_planLogging svc c (pq_Host q))))"

definition PlansForQueryIDs ::
  "decoder \<Rightarrow> (string \<Rightarrow> string) \<Rightarrow> log_service \<Rightarrow> string \<Rightarrow> string \<Rightarrow> string \<Rightarrow> time \<Rightarrow> time \<Rightarrow> i64 list \<Rightarrow> log_error + PlanWindow" where
  "PlansForQueryIDs dec sha svc cluster stream database from till ids =
     (if \<not> ic_IsEnabled (lsv_insights svc) \<or> \<not> ic_IndexAdvisorEvidence (lsv_insights svc) then Inl ErrDisabled
      else if ids = [] then Inr \<lparr>pw_Groups = [], pw_Partial = False, pw_PlanRecords = 0\<rparr>
      else case log_resolve (lsv_clusters svc) (lsv_sources svc) cluster stream of
        Inl e \<Rightarrow> Inl e
      | Inr (c, provider, name, fm) \<Rightarrow>
          if database = [] \<or> fm_Database fm = [] then Inl (NoDatabase stream)
          else
            (let q = \<lparr>pq_Cluster = cluster, pq_Stream = stream, pq_From = from, pq_To = till, pq_QueryID = 0, pq_HasQueryID = False,
                      pq_QueryIDs = ids, pq_Database = database, pq_Host = [], pq_Limit = 0\<rparr>
             in case validatePlansWindow c fm q of
                  Some e \<Rightarrow> Inl e
                | None \<Rightarrow> (case scanPlans dec sha (lsv_insights svc) (c, provider, name, fm) q (svc_planLogging svc c []) of
                      Inl e \<Rightarrow> Inl e
                    | Inr (res, groups) \<Rightarrow>
                        Inr \<lparr>pw_Groups = groups, pw_Partial = sx_Partial res, pw_PlanRecords = sx_PlanRecords res\<rparr>)))"

end
