(* ===== verification/Log_Storage.thy ===== *)
theory Log_Storage
  imports Log_Insights
begin

text \<open>
  Stored scans of log insights (\<^verbatim>\<open>backend/internal/storage/log_insights.go\<close>): the two tables, the
  transaction that saves a scan with all its plan groups, and the queries that read it back, with
  the tables' primary keys of \<^verbatim>\<open>migrate.go\<close>. A query is the list its SQL denotes; a table is a
  list of rows. The encoding to \<^verbatim>\<open>jsonb\<close> and back is a parameter, as are the number of elements
  PostgreSQL finds under \<^verbatim>\<open>Findings\<close>. Failures of the connection are left to the callers.
\<close>

section \<open>Tables\<close>

record log_Scan =
  sc_ID :: uuid
  sc_Kind :: string
  sc_Cluster :: string
  sc_Stream :: string
  sc_Host :: string
  sc_From :: time
  sc_To :: time
  sc_CreatedAt :: time
  sc_Result :: ScanResult

record GroupsQuery =
  gq_ScanID :: uuid
  gq_QueryID :: "i64 option"
  gq_WithFindings :: bool
  gq_Order :: string
  gq_Limit :: int
  gq_Offset :: int

record GroupPage =
  gp_Total :: nat
  gp_Rows :: "GroupRow list"

record json_codec =
  js_Result :: "ScanResult \<Rightarrow> string option"
  js_toResult :: "string \<Rightarrow> ScanResult option"
  js_Row :: "GroupRow \<Rightarrow> string option"
  js_toRow :: "string \<Rightarrow> GroupRow option"
  js_Plan :: "QueryPlan \<Rightarrow> string option"
  js_toPlan :: "string \<Rightarrow> QueryPlan option"
  js_Findings :: "string \<Rightarrow> nat"

record scans_row =
  tr_scan_id :: uuid
  tr_created_at :: time
  tr_kind :: string
  tr_cluster_name :: string
  tr_stream :: string
  tr_host :: "string option"
  tr_window_from :: time
  tr_window_to :: time
  tr_summary :: string

record groups_row =
  tg_scan_id :: uuid
  tg_ord :: nat
  tg_query_id :: "i64 option"
  tg_hash :: string
  tg_count :: nat
  tg_sum_ms :: f64
  tg_max_ms :: f64
  tg_group_row :: string
  tg_plan :: string

record insights_db =
  db_scans :: "scans_row list"
  db_groups :: "groups_row list"

section \<open>Saving\<close>

definition insightsQueryID :: "PlanGroup \<Rightarrow> i64 option" where
  "insightsQueryID g = (if \<not> pg_HasQueryID g then None else Some (pg_QueryID g))"

definition nullIfEmpty :: "string \<Rightarrow> string option" where
  "nullIfEmpty s = (if s = [] then None else Some s)"

definition groups_row_of :: "json_codec \<Rightarrow> uuid \<Rightarrow> PlanGroup \<Rightarrow> groups_row option" where
  "groups_row_of js sid g =
     (case js_Row js (group_Row g) of
        None \<Rightarrow> None
      | Some row \<Rightarrow> (case js_Plan js (Sample_plan g) of
            None \<Rightarrow> None
          | Some plan \<Rightarrow>
              Some \<lparr>tg_scan_id = sid, tg_ord = pg_Ord g, tg_query_id = insightsQueryID g, tg_hash = pg_Hash g, tg_count = pg_Count g,
                    tg_sum_ms = dur_Sum (pg_Durations g), tg_max_ms = dur_Max (pg_Durations g), tg_group_row = row, tg_plan = plan\<rparr>))"

fun groups_rows :: "json_codec \<Rightarrow> uuid \<Rightarrow> PlanGroup list \<Rightarrow> groups_row list option" where
  "groups_rows js sid [] = Some []"
| "groups_rows js sid (g # gs) =
     (case groups_row_of js sid g of None \<Rightarrow> None | Some r \<Rightarrow> map_option ((#) r) (groups_rows js sid gs))"

definition scans_row_of :: "log_Scan \<Rightarrow> string \<Rightarrow> scans_row" where
  "scans_row_of sn summary =
     \<lparr>tr_scan_id = sc_ID sn, tr_created_at = sc_CreatedAt sn, tr_kind = sc_Kind sn, tr_cluster_name = sc_Cluster sn,
      tr_stream = sc_Stream sn, tr_host = nullIfEmpty (sc_Host sn), tr_window_from = sc_From sn, tr_window_to = sc_To sn,
      tr_summary = summary\<rparr>"

definition SaveInsightsScan :: "json_codec \<Rightarrow> log_Scan \<Rightarrow> PlanGroup list \<Rightarrow> insights_db \<Rightarrow> log_error + insights_db" where
  "SaveInsightsScan js sn groups db =
     (case js_Result js (sc_Result sn) of
        None \<Rightarrow> Inl (StorageFailed ''marshal insights summary'')
      | Some summary \<Rightarrow> (case groups_rows js (sc_ID sn) groups of
            None \<Rightarrow> Inl (StorageFailed ''marshal plan group'')
          | Some rows \<Rightarrow>
              if sc_ID sn \<in> tr_scan_id ` set (db_scans db) then Inl (StorageFailed ''insert insights scan'')
              else if \<not> distinct (map (\<lambda>r. (tg_scan_id r, tg_ord r)) (db_groups db @ rows)) then Inl (StorageFailed ''copy insights groups'')
              else Inr \<lparr>db_scans = db_scans db @ [scans_row_of sn summary], db_groups = db_groups db @ rows\<rparr>))"

definition TruncateInsightsScans :: "insights_db \<Rightarrow> insights_db" where
  "TruncateInsightsScans db = \<lparr>db_scans = [], db_groups = []\<rparr>"

section \<open>Reading\<close>

text \<open>Descending order of \<^verbatim>\<open>double precision\<close>: PostgreSQL sorts NaN above every number.\<close>

definition pg_desc :: "f64 \<Rightarrow> int \<times> rat" where
  "pg_desc x = (case x of NaN \<Rightarrow> (0, 0) | PInf \<Rightarrow> (1, 0) | Fin r \<Rightarrow> (2, - r) | NInf \<Rightarrow> (3, 0))"

definition of_scan :: "uuid \<Rightarrow> insights_db \<Rightarrow> groups_row list" where
  "of_scan sid db = filter (\<lambda>r. tg_scan_id r = sid) (db_groups db)"

text \<open>\<^verbatim>\<open>row_number\<close>: the place of a row, from one, in an order of the rows.\<close>

definition row_number :: "nat list \<Rightarrow> nat \<Rightarrow> nat" where
  "row_number ords i = Suc (length (takeWhile (\<lambda>j. j \<noteq> i) ords))"

definition ranked_rows :: "groups_row list \<Rightarrow> (nat \<times> nat \<times> nat) list" where
  "ranked_rows rs =
     (let bySum = map tg_ord (sort_key tg_ord rs);
          byMax = map tg_ord (sort_key (\<lambda>r. (pg_desc (tg_max_ms r), tg_ord r)) rs)
      in map (\<lambda>r. (tg_ord r, row_number bySum (tg_ord r), row_number byMax (tg_ord r))) rs)"

definition picked_rows :: "groups_row list \<Rightarrow> nat \<Rightarrow> nat list" where
  "picked_rows rs n = map fst (take n (sort_key (\<lambda>(_, a, b). (min a b, a)) (ranked_rows rs)))"

definition top_rows :: "groups_row list \<Rightarrow> nat \<Rightarrow> groups_row list" where
  "top_rows rs n = sort_key tg_ord (filter (\<lambda>r. tg_ord r \<in> set (picked_rows rs n)) rs)"

definition insightsGroup :: "json_codec \<Rightarrow> groups_row \<Rightarrow> PlanGroup option" where
  "insightsGroup js r =
     (case js_toRow js (tg_group_row r) of
        None \<Rightarrow> None
      | Some gr \<Rightarrow> map_option (WithPlan gr) (js_toPlan js (tg_plan r)))"

fun decode_all :: "('r \<Rightarrow> 'a option) \<Rightarrow> 'r list \<Rightarrow> 'a list option" where
  "decode_all f [] = Some []"
| "decode_all f (r # rs) = (case f r of None \<Rightarrow> None | Some x \<Rightarrow> map_option ((#) x) (decode_all f rs))"

definition scan_of_row :: "scans_row \<Rightarrow> ScanResult \<Rightarrow> log_Scan" where
  "scan_of_row r res =
     \<lparr>sc_ID = tr_scan_id r, sc_Kind = tr_kind r, sc_Cluster = tr_cluster_name r, sc_Stream = tr_stream r,
      sc_Host = (case tr_host r of None \<Rightarrow> [] | Some h \<Rightarrow> h), sc_From = tr_window_from r, sc_To = tr_window_to r,
      sc_CreatedAt = tr_created_at r, sc_Result = res\<rparr>"

definition with_groups :: "PlanGroup list \<Rightarrow> log_Scan \<Rightarrow> log_Scan" where
  "with_groups gs sn =
     sn\<lparr>sc_Result := (sc_Result sn)\<lparr>sx_Plans := (sx_Plans (sc_Result sn))
       \<lparr>sm_Groups := sm_Groups (sx_Plans (sc_Result sn)) @ gs\<rparr>\<rparr>\<rparr>"

definition GetInsightsScan :: "json_codec \<Rightarrow> uuid \<Rightarrow> int \<Rightarrow> insights_db \<Rightarrow> log_error + log_Scan" where
  "GetInsightsScan js sid n db =
     (case find (\<lambda>r. tr_scan_id r = sid) (db_scans db) of
        None \<Rightarrow> Inl ErrNotFound
      | Some row \<Rightarrow> (case js_toResult js (tr_summary row) of
            None \<Rightarrow> Inl (StorageFailed ''unmarshal insights summary'')
          | Some res \<Rightarrow>
              if n < 0 then Inl (StorageFailed ''get insights scan groups'')
              else (case decode_all (insightsGroup js) (top_rows (of_scan sid db) (nat n)) of
                     None \<Rightarrow> Inl (StorageFailed ''unmarshal plan group'')
                   | Some gs \<Rightarrow> Inr (with_groups gs (scan_of_row row res)))))"

definition listed_row :: "json_codec \<Rightarrow> GroupsQuery \<Rightarrow> groups_row \<Rightarrow> bool" where
  "listed_row js q r \<longleftrightarrow>
     (case gq_QueryID q of None \<Rightarrow> True | Some i \<Rightarrow> tg_query_id r = Some i)
     \<and> (\<not> gq_WithFindings q \<or> 0 < js_Findings js (tg_group_row r))"

definition insightsGroupOrder :: "string \<Rightarrow> groups_row \<Rightarrow> (int \<times> rat) \<times> int \<times> nat" where
  "insightsGroupOrder order r =
     (if order = ''max'' then (pg_desc (tg_max_ms r), 0, tg_ord r)
      else if order = ''count'' then ((0, 0), - int (tg_count r), tg_ord r)
      else ((0, 0), 0, tg_ord r))"

definition listed_rows :: "json_codec \<Rightarrow> GroupsQuery \<Rightarrow> insights_db \<Rightarrow> groups_row list" where
  "listed_rows js q db = sort_key (insightsGroupOrder (gq_Order q)) (filter (listed_row js q) (of_scan (gq_ScanID q) db))"

definition ListInsightsGroups :: "json_codec \<Rightarrow> GroupsQuery \<Rightarrow> insights_db \<Rightarrow> log_error + GroupPage" where
  "ListInsightsGroups js q db =
     (if gq_ScanID q \<notin> tr_scan_id ` set (db_scans db) then Inl ErrNotFound
      else if gq_Limit q < 0 \<or> gq_Offset q < 0 then Inl (StorageFailed ''list insights groups'')
      else case decode_all (js_toRow js \<circ> tg_group_row) (take (nat (gq_Limit q)) (drop (nat (gq_Offset q)) (listed_rows js q db))) of
             None \<Rightarrow> Inl (StorageFailed ''unmarshal plan group'')
           | Some rows \<Rightarrow> Inr \<lparr>gp_Total = length (listed_rows js q db), gp_Rows = rows\<rparr>)"

definition AllInsightsGroups :: "json_codec \<Rightarrow> uuid \<Rightarrow> insights_db \<Rightarrow> log_error + GroupRow list" where
  "AllInsightsGroups js sid db =
     (case decode_all (js_toRow js \<circ> tg_group_row) (sort_key tg_ord (of_scan sid db)) of
        None \<Rightarrow> Inl (StorageFailed ''unmarshal plan group'')
      | Some rows \<Rightarrow> Inr rows)"

definition GetInsightsGroup :: "json_codec \<Rightarrow> uuid \<Rightarrow> int \<Rightarrow> insights_db \<Rightarrow> log_error + PlanGroup" where
  "GetInsightsGroup js sid ord db =
     (case find (\<lambda>r. tg_scan_id r = sid \<and> int (tg_ord r) = ord) (db_groups db) of
        None \<Rightarrow> Inl ErrNotFound
      | Some r \<Rightarrow> (case insightsGroup js r of None \<Rightarrow> Inl (StorageFailed ''unmarshal plan group'') | Some g \<Rightarrow> Inr g))"

end
