(* ===== verification/Log_Insights_Sound.thy ===== *)
theory Log_Insights_Sound
  imports Log_Insights
begin

text \<open>
  What the scans of a window promise: an answer that is not partial has read the whole window, and
  its counts account for every record read; the groups of a plan scan belong to the statements
  asked for; and filters run by the log store lose no group.
\<close>

section \<open>Budgets\<close>

definition reached_limit :: "scanLimits \<Rightarrow> scanStats \<Rightarrow> bool" where
  "reached_limit limits st \<longleftrightarrow>
     0 < lim_MaxRecords limits \<and> lim_MaxRecords limits \<le> int (ss_Records st)
     \<or> 0 < lim_MaxBytes limits \<and> lim_MaxBytes limits \<le> int (ss_Bytes st)"

lemma run_stream_capped:
  "(ss_Capped st \<longrightarrow> reached_limit limits st) \<Longrightarrow>
    let st' = snd (fst (run_stream (scan_visit limits vis) recs fin (s, st))) in ss_Capped st' \<longrightarrow> reached_limit limits st'"
proof (induction recs arbitrary: s st)
  case (Cons r recs)
  define st1 where "st1 = st\<lparr>ss_Records := Suc (ss_Records st),
      ss_Bytes := (if 0 < lim_MaxBytes limits then ss_Bytes st + charge limits r else ss_Bytes st)\<rparr>"
  obtain s1 going where v: "vis s r = (s1, going)" by fastforce
  have e: "scan_visit limits vis (s, st) r =
      (if \<not> going then ((s1, st), False) else if reached_limit limits st1 then ((s1, st1\<lparr>ss_Capped := True\<rparr>), False) else ((s1, st1), True))"
    by (simp add: scan_visit_def v st1_def reached_limit_def Let_def)
  have "ss_Capped st1 \<longrightarrow> reached_limit limits st1" using Cons.prems by (auto simp: st1_def reached_limit_def)
  then show ?case using Cons.IH [of st1 s1] Cons.prems by (auto simp: e Let_def reached_limit_def)
qed simp

lemma scan_complete:
  assumes "scan (recs, fin) limits (\<lambda>s r. (f s r, True)) s = (s', st, err)"
  shows "(ss_Capped st \<longrightarrow> reached_limit limits st) \<and> (\<not> ss_Capped st \<and> err = None \<longrightarrow> fin = None)"
proof -
  have "ss_Capped st \<longrightarrow> reached_limit limits st"
    using run_stream_capped [of zero_scanStats limits "\<lambda>s r. (f s r, True)" recs fin s] assms
    by (auto simp: scan_def zero_scanStats_def reached_limit_def Let_def split: prod.splits option.splits)
  moreover have "fin = None" if "\<not> ss_Capped st" "err = None"
    using run_stream_fold [of recs limits f fin s zero_scanStats] assms that
    by (auto simp: scan_def zero_scanStats_def Let_def split: prod.splits option.splits)
  ultimately show ?thesis by simp
qed

lemma run_stream_no_error: "snd (run_stream v xs None a) = None"
  by (induction xs arbitrary: a) (auto split: prod.split)

lemma scan_no_error: "\<exists>s' st. scan (recs, None) limits vis s = (s', st, None)"
  using run_stream_no_error [of "scan_visit limits vis" recs "(s, zero_scanStats)"]
  by (auto simp: scan_def split: prod.splits)

lemma partialReasons_no_error: "\<exists>reasons. partialReasons st None limits ex = Inr reasons"
  by (simp add: partialReasons_def Let_def)

lemma charge_le: "charge limits r \<le> recordBytes r"
  by (auto simp: charge_def)

lemma run_stream_bytes:
  "ss_Bytes (snd (fst (run_stream (scan_visit limits vis) recs fin (s, st)))) \<le> ss_Bytes st + sum_list (map recordBytes recs)"
proof (induction recs arbitrary: s st)
  case (Cons r recs)
  define st1 where "st1 = st\<lparr>ss_Records := Suc (ss_Records st),
      ss_Bytes := (if 0 < lim_MaxBytes limits then ss_Bytes st + charge limits r else ss_Bytes st)\<rparr>"
  obtain s1 going where v: "vis s r = (s1, going)" by fastforce
  have e: "scan_visit limits vis (s, st) r =
      (if \<not> going then ((s1, st), False) else if reached_limit limits st1 then ((s1, st1\<lparr>ss_Capped := True\<rparr>), False) else ((s1, st1), True))"
    by (simp add: scan_visit_def v st1_def reached_limit_def Let_def)
  have "ss_Bytes st1 \<le> ss_Bytes st + recordBytes r" using charge_le [of limits r] by (simp add: st1_def)
  then show ?case using Cons.IH [of s1 st1] by (simp add: e)
qed simp

definition within_budget :: "LogInsightsConfig \<Rightarrow> source_Record list \<Rightarrow> bool" where
  "within_budget cfg recs \<longleftrightarrow>
     (ic_MaxRecords cfg \<le> 0 \<or> int (length recs) < ic_MaxRecords cfg)
     \<and> (ic_MaxBytes cfg \<le> 0 \<or> int (sum_list (map recordBytes recs)) < ic_MaxBytes cfg)
     \<and> (ic_MaxPlans cfg \<le> 0 \<or> int (length recs) \<le> ic_MaxPlans cfg)"

lemma scan_within_budget:
  assumes "scan (recs, None) (scanBudget cfg cap) (\<lambda>s r. (f s r, True)) s = (s', st, err)" and "within_budget cfg recs"
  shows "\<not> ss_Capped st \<and> err = None"
proof -
  have "ss_Records st \<le> length recs" using scan_fold [OF assms(1)] by blast
  moreover have "ss_Bytes st \<le> sum_list (map recordBytes recs)"
    using run_stream_bytes [of "scanBudget cfg cap" "\<lambda>s r. (f s r, True)" recs None s zero_scanStats] assms(1)
    by (auto simp: scan_def zero_scanStats_def split: prod.splits option.splits)
  ultimately have "\<not> reached_limit (scanBudget cfg cap) st"
    using assms(2) by (auto simp: reached_limit_def within_budget_def scanBudget_def)
  then have c: "\<not> ss_Capped st" using scan_complete [OF assms(1)] by blast
  have "err = None"
    using run_stream_fold [of recs "scanBudget cfg cap" f None s zero_scanStats] assms(1)
    by (auto simp: scan_def Let_def split: prod.splits option.splits)
  then show ?thesis using c by blast
qed

lemma few_plans_not_exhausted:
  assumes "MaxPlans limits \<le> 0 \<or> int (length recs) \<le> MaxPlans limits"
  shows "\<not> pl_exhausted (run_plans dec sha limits recs)"
proof -
  have "length (filter (fits_bytes limits) recs) \<le> nat (MaxPlans limits)" if "0 < MaxPlans limits"
    using that assms length_filter_le [of "fits_bytes limits" recs] by linarith
  then have "admitted limits recs = filter (fits_bytes limits) recs" by (simp add: admitted_def Let_def)
  then show ?thesis using run_plans_inv [of dec sha limits recs] by (simp add: plans_inv_def)
qed

lemma budget_not_exhausted:
  assumes "within_budget cfg recs" and "length es \<le> length recs"
  shows "\<not> pl_exhausted (run_plans dec sha (plan_limits cfg) es)"
  by (rule few_plans_not_exhausted) (use assms in \<open>auto simp: within_budget_def plan_limits_def\<close>)

lemma partialReasons_none:
  assumes "partialReasons st err limits ex = Inr []" and "ss_Capped st \<longrightarrow> reached_limit limits st"
  shows "err = None \<and> \<not> ss_Capped st \<and> \<not> ex"
  using assms by (auto simp: partialReasons_def reached_limit_def Let_def split: option.splits if_splits)

lemma scan_not_partial:
  assumes "scan (recs, fin) limits (\<lambda>s r. (f s r, True)) s = (s', st, err)" and "partialReasons st err limits ex = Inr []"
  shows "ss_Records st = length recs \<and> fin = None"
  using scan_fold [OF assms(1)] scan_complete [OF assms(1)] partialReasons_none [OF assms(2)] by blast

section \<open>What is read\<close>

lemma span_add_bounds:
  "span_From s \<noteq> zero_time \<Longrightarrow> span_From (span_add t s) = min t (span_From s)" "span_To (span_add t s) = max t (span_To s)"
  by (auto simp: span_add_def before_def)

lemma fold_span:
  assumes "ts \<noteq> []" and "list_all (\<lambda>t. zero_time < t) ts"
  shows "span_From (fold span_add ts zero_Span) = Min (set ts) \<and> span_To (fold span_add ts zero_Span) = Max (set ts)"
  using assms
proof (induction ts rule: rev_induct)
  case (snoc t ts)
  show ?case
  proof (cases "ts = []")
    case True
    then show ?thesis using snoc.prems by (simp add: span_add_def zero_Span_def before_def)
  next
    case False
    then have IH: "span_From (fold span_add ts zero_Span) = Min (set ts)" "span_To (fold span_add ts zero_Span) = Max (set ts)"
      using snoc by simp_all
    have "Min (set ts) \<in> set ts" using False by simp
    then have "Min (set ts) \<noteq> zero_time" using snoc.prems by (fastforce simp: list_all_iff)
    then show ?thesis using False by (simp add: span_add_bounds IH)
  qed
qed simp

definition covers :: "log_Span \<Rightarrow> source_Record list \<Rightarrow> bool" where
  "covers sp recs \<longleftrightarrow>
     span_From sp = Min (rec_Timestamp ` set recs) \<and> span_To sp = Max (rec_Timestamp ` set recs)"

lemma fold_span_covers:
  assumes "recs \<noteq> []" and "list_all (\<lambda>r. zero_time < rec_Timestamp r) recs"
  shows "covers (fold (\<lambda>r. span_add (rec_Timestamp r)) recs zero_Span) recs"
  using fold_span [of "map rec_Timestamp recs"] assms by (simp add: covers_def fold_map o_def list_all_length)

definition plan_entries :: "string \<Rightarrow> FieldMap \<Rightarrow> source_Record list \<Rightarrow> stamped list" where
  "plan_entries stream fm recs =
     List.map_filter (\<lambda>r. if record_category stream fm r = ''plan'' then map_option (\<lambda>pr. (pr, rec_Timestamp r)) (record_plan fm r) else None) recs"

definition category_entries :: "string \<Rightarrow> FieldMap \<Rightarrow> source_Record list \<Rightarrow> (string \<times> string \<times> time) list" where
  "category_entries stream fm recs =
     map (\<lambda>r. (record_category stream fm r, get_field (rec_Fields r) (fm_Text fm), rec_Timestamp r)) recs"

abbreviation run_insights ::
  "decoder \<Rightarrow> (string \<Rightarrow> string) \<Rightarrow> string \<Rightarrow> FieldMap \<Rightarrow> LogInsightsConfig \<Rightarrow> source_Record list \<Rightarrow> insights_state" where
  "run_insights dec sha stream fm cfg recs \<equiv> fold (\<lambda>r s. insights_visit dec sha stream fm s r) recs (insights_start cfg)"

lemma insights_fold:
  shows "is_categories (run_insights dec sha stream fm cfg recs) = log_entries NewCategoryCounts (category_entries stream fm recs)"
    and "is_plans (run_insights dec sha stream fm cfg recs) = run_plans dec sha (plan_limits cfg) (plan_entries stream fm recs)"
    and "is_covered (run_insights dec sha stream fm cfg recs) = fold (\<lambda>r. span_add (rec_Timestamp r)) recs zero_Span"
  by (induction recs rule: rev_induct)
    (auto simp: insights_start_def insights_visit_def log_entries_def category_entries_def plan_entries_def map_filter_snoc
      add_record_plan_def Let_def split: option.splits)

lemma plan_category_detected: "record_category stream fm r = ''plan'' \<Longrightarrow> record_plan fm r \<noteq> None"
  unfolding record_category_def classified_plan_iff record_plan_def
  by (simp add: Detect_field [of _ "get_field (rec_Fields r) (fm_QueryID fm)" "[]"])

lemma length_plan_entries: "length (plan_entries stream fm recs) = length (filter (\<lambda>r. record_category stream fm r = ''plan'') recs)"
proof (induction recs)
  case (Cons r recs)
  then show ?case using plan_category_detected [of stream fm r] by (auto simp: plan_entries_def)
qed (simp add: plan_entries_def)

lemma TopGroups_length: "0 < n \<Longrightarrow> int (length (TopGroups gs n)) \<le> n"
  using top_groups_take_turns [of "nat n" gs] by (cases "n < int (length gs)") (auto simp: TopGroups_def)

lemma TopGroups_subseq: "0 < n \<Longrightarrow> subseq (TopGroups gs n) gs"
  using top_groups_take_turns [of "nat n" gs] by (cases "n < int (length gs)") (auto simp: TopGroups_def)

lemma emptyReason_iff: "emptyReason st i p = [] \<longleftrightarrow> 0 < sm_TotalGroups p"
  by (simp add: emptyReason_def)

text \<open>
  C36: An insights answer accounts for the records it read. Unless it is marked partial it has read
  the whole window, to the end of the stream, and a window within the budgets that the source reads
  to its end is never marked partial; the category counts add up to the records scanned;
  the plan records are those of the plan category, each parsed or counted under a reason; the span
  covered is that of the timestamps read; at most ten groups are shown, none only with a reason.
\<close>

theorem insights_account_for_window:
  assumes "scan_insights dec sha cfg (recs, fin) stream fm diag = Inr (r, ranked)"
    and "seen = take (sx_Scanned r) recs"
  shows "(sx_Partial r \<or> seen = recs \<and> fin = None) \<and> length seen = sx_Scanned r
    \<and> (sx_Partial r \<longleftrightarrow> sx_PartialReasons r \<noteq> [])
    \<and> (fin = None \<and> within_budget cfg recs \<longrightarrow> \<not> sx_Partial r)
    \<and> sum_list (map cs_Count (sx_Categories r)) = sx_Scanned r
    \<and> list_all (summary_ok (category_entries stream fm seen)) (sx_Categories r)
    \<and> sx_PlanRecords r = length (filter (\<lambda>rec. record_category stream fm rec = ''plan'') seen)
    \<and> sx_PlanRecords r = sm_Parsed (sx_Plans r) + sum_list (map snd (sm_NotParsed (sx_Plans r)))
    \<and> (seen = [] \<or> \<not> list_all (\<lambda>r. zero_time < rec_Timestamp r) seen \<or> covers (sx_Covered r) seen)
    \<and> sm_Groups (sx_Plans r) = TopGroups ranked 10 \<and> length (sm_Groups (sx_Plans r)) \<le> 10
    \<and> (sx_EmptyReason r = [] \<longleftrightarrow> ranked \<noteq> [])"
proof -
  let ?limits = "scanBudget cfg (\<lambda>rec. record_category stream fm rec = ''plan'')"
  let ?visit = "\<lambda>s rec. insights_visit dec sha stream fm s rec"
  obtain s st err where sc: "scan (recs, fin) ?limits (\<lambda>s rec. (?visit s rec, True)) (insights_start cfg) = (s, st, err)"
    by (metis prod_cases3)
  let ?sum = "plans_Summary (is_plans s) (planContext diag)"
  obtain reasons where re: "partialReasons st err ?limits (sm_BudgetExhausted ?sum) = Inr reasons"
    using assms(1) by (auto simp: scan_insights_def sc Let_def split: sum.splits)
  have r: "sx_Scanned r = ss_Records st" "sx_Partial r = (reasons \<noteq> [])" "sx_PartialReasons r = reasons"
      "sx_Covered r = is_covered s" "sx_Categories r = categories_Summary (is_categories s) insightsTopTemplates"
      "sx_Plans r = ?sum\<lparr>sm_Groups := TopGroups ranked 10\<rparr>" "sx_PlanRecords r = sm_Records ?sum"
      "sx_EmptyReason r = emptyReason st (err \<noteq> None) ?sum" "ranked = sm_Groups ?sum"
    using assms(1) by (auto simp: scan_insights_def sc re Let_def insightsTopGroups_def)
  note f = scan_fold [OF sc]
  have s: "s = fold (\<lambda>r s. ?visit s r) seen (insights_start cfg)" using f by (simp add: assms(2) r(1))
  have len: "length seen = ss_Records st" using f by (simp add: assms(2) r(1))
  have "sx_Partial r \<or> seen = recs \<and> fin = None"
    using scan_not_partial [OF sc] re by (cases "reasons = []") (auto simp: assms(2) r(1,2))
  moreover have "categories_ok (is_categories s) (category_entries stream fm seen)"
    unfolding s insights_fold(1) by (rule log_entries_ok)
  from categories_Summary_exact [OF this]
  have "sum_list (map cs_Count (sx_Categories r)) = sx_Scanned r"
      "list_all (summary_ok (category_entries stream fm seen)) (sx_Categories r)"
    using len by (simp_all add: r(1,5) category_entries_def)
  moreover have pl: "is_plans s = run_plans dec sha (plan_limits cfg) (plan_entries stream fm seen)"
    unfolding s by (rule insights_fold(2))
  note p = summary_accounts_for_records [where dec = dec and sha = sha and limits = "plan_limits cfg"
      and recs = "plan_entries stream fm seen" and env = "planContext diag", folded pl, unfolded Let_def]
  have "sx_EmptyReason r = [] \<longleftrightarrow> ranked \<noteq> []" using p by (simp add: r(8,9) emptyReason_iff)
  moreover have "\<not> sx_Partial r" if "fin = None" "within_budget cfg recs"
  proof -
    have "\<not> pl_exhausted (run_plans dec sha (plan_limits cfg) (plan_entries stream fm seen))"
      by (rule budget_not_exhausted [OF that(2)]) (simp add: length_plan_entries assms(2) le_trans [OF length_filter_le])
    then show ?thesis using scan_within_budget [OF sc [unfolded that(1)] that(2)] re
      by (simp add: r(2) partialReasons_def plans_Summary_def Let_def case_prod_beta pl)
  qed
  moreover have "covers (sx_Covered r) seen" if "seen \<noteq> []" "list_all (\<lambda>r. zero_time < rec_Timestamp r) seen"
    using fold_span_covers [OF that] by (simp add: r(4) s insights_fold(3))
  moreover have "length (TopGroups ranked 10) \<le> 10" using TopGroups_length [of 10 ranked] by simp
  moreover have "sx_PlanRecords r = length (filter (\<lambda>rec. record_category stream fm rec = ''plan'') seen)"
      "sx_PlanRecords r = sm_Parsed (sx_Plans r) + sum_list (map snd (sm_NotParsed (sx_Plans r)))"
    using p by (simp_all add: r(6,7) length_plan_entries)
  moreover have "sm_Groups (sx_Plans r) = TopGroups ranked 10" by (simp add: r(6))
  ultimately show ?thesis using len r(1,2,3) by metis
qed

section \<open>Plans of statements\<close>

definition wanted_plan :: "PlansQuery \<Rightarrow> FieldMap \<Rightarrow> source_Record \<Rightarrow> PlanRecord option" where
  "wanted_plan q fm r = (case database_plan q fm r of None \<Rightarrow> None | Some pr \<Rightarrow> if wantedPlan q pr then Some pr else None)"

definition wanted_entries :: "PlansQuery \<Rightarrow> FieldMap \<Rightarrow> source_Record list \<Rightarrow> stamped list" where
  "wanted_entries q fm recs = List.map_filter (\<lambda>r. map_option (\<lambda>pr. (pr, rec_Timestamp r)) (wanted_plan q fm r)) recs"

abbreviation run_plan_scan ::
  "decoder \<Rightarrow> (string \<Rightarrow> string) \<Rightarrow> PlansQuery \<Rightarrow> FieldMap \<Rightarrow> LogInsightsConfig \<Rightarrow> source_Record list \<Rightarrow> plans_state" where
  "run_plan_scan dec sha q fm cfg recs \<equiv> fold (\<lambda>r s. plans_visit dec sha q fm s r) recs (plans_start cfg)"

lemma plans_fold:
  shows "px_records (run_plan_scan dec sha q fm cfg recs) = length (filter (\<lambda>r. database_plan q fm r \<noteq> None) recs)"
    and "px_plans (run_plan_scan dec sha q fm cfg recs) = run_plans dec sha (plan_limits cfg) (wanted_entries q fm recs)"
  by (induction recs rule: rev_induct)
    (auto simp: plans_start_def plans_visit_def wanted_entries_def wanted_plan_def map_filter_snoc Let_def split: option.splits)

lemma length_wanted_entries: "length (wanted_entries q fm recs) \<le> length recs"
  by (induction recs) (auto simp: wanted_entries_def split: option.split)

lemma scan_plans_answer:
  assumes "scan_plans dec sha cfg (recs, fin) f fm q logging = Inr (r, ranked)"
  defines "seen \<equiv> take (sx_Scanned r) recs"
  shows "ranked = sm_Groups (plans_Summary (run_plans dec sha (plan_limits cfg) (wanted_entries q fm seen)) (planContext logging))"
    and "sx_PlanRecords r = length (filter (\<lambda>r. database_plan q fm r \<noteq> None) seen)"
    and "sm_Records (sx_Plans r) = length (wanted_entries q fm seen)"
    and "sm_Groups (sx_Plans r) = TopGroups ranked (planGroupLimit (pq_Limit q))"
    and "sx_Partial r \<or> seen = recs \<and> fin = None" and "length seen = sx_Scanned r"
    and "sx_EmptyReason r = [] \<longleftrightarrow> ranked \<noteq> []" and "fin = None \<Longrightarrow> within_budget cfg recs \<Longrightarrow> \<not> sx_Partial r"
proof -
  let ?limits = "scanBudget cfg (carries_plan fm)"
  let ?visit = "\<lambda>s rec. plans_visit dec sha q fm s rec"
  obtain s st err where sc: "scan (recs, fin) ?limits (\<lambda>s rec. (?visit s rec, True)) (plans_start cfg) = (s, st, err)"
    by (metis prod_cases3)
  let ?sum = "plans_Summary (px_plans s) (planContext logging)"
  obtain reasons where re: "partialReasons st err ?limits (sm_BudgetExhausted ?sum) = Inr reasons"
    using assms(1) by (auto simp: scan_plans_def sc Let_def split: sum.splits)
  have r: "sx_Scanned r = ss_Records st" "sx_Partial r = (reasons \<noteq> [])" "sx_PlanRecords r = px_records s"
      "sx_Plans r = ?sum\<lparr>sm_Groups := TopGroups ranked (planGroupLimit (pq_Limit q))\<rparr>"
      "sx_EmptyReason r = emptyReason st (err \<noteq> None) ?sum" "ranked = sm_Groups ?sum"
    using assms(1) by (auto simp: scan_plans_def sc re Let_def)
  note f = scan_fold [OF sc]
  have s: "s = run_plan_scan dec sha q fm cfg seen" using f by (simp add: seen_def r(1))
  show "length seen = sx_Scanned r" using f by (simp add: seen_def r(1))
  show "sx_Partial r \<or> seen = recs \<and> fin = None"
    using scan_not_partial [OF sc] re by (cases "reasons = []") (auto simp: seen_def r(1,2))
  have p: "px_plans s = run_plans dec sha (plan_limits cfg) (wanted_entries q fm seen)" unfolding s by (rule plans_fold(2))
  show "ranked = sm_Groups (plans_Summary (run_plans dec sha (plan_limits cfg) (wanted_entries q fm seen)) (planContext logging))"
    by (simp only: r(6) p)
  show "sx_PlanRecords r = length (filter (\<lambda>r. database_plan q fm r \<noteq> None) seen)"
    unfolding r(3) s by (rule plans_fold(1))
  note acc = summary_accounts_for_records [where dec = dec and sha = sha and limits = "plan_limits cfg"
      and recs = "wanted_entries q fm seen" and env = "planContext logging", folded p, unfolded Let_def]
  show "sm_Records (sx_Plans r) = length (wanted_entries q fm seen)" using acc by (simp add: r(4))
  show "sm_Groups (sx_Plans r) = TopGroups ranked (planGroupLimit (pq_Limit q))" by (simp add: r(4))
  show "sx_EmptyReason r = [] \<longleftrightarrow> ranked \<noteq> []" using acc by (simp add: r(5,6) emptyReason_iff)
  show "\<not> sx_Partial r" if "fin = None" "within_budget cfg recs"
  proof -
    have "\<not> pl_exhausted (run_plans dec sha (plan_limits cfg) (wanted_entries q fm seen))"
      by (rule budget_not_exhausted [OF that(2)]) (simp add: seen_def le_trans [OF length_wanted_entries])
    then show ?thesis using scan_within_budget [OF sc [unfolded that(1)] that(2)] re
      by (simp add: r(2) partialReasons_def plans_Summary_def Let_def case_prod_beta p)
  qed
qed

lemma number_groups_ids:
  "g \<in> set (number_groups (sort_key k gs)) \<Longrightarrow> \<exists>h \<in> set gs. pg_QueryID g = pg_QueryID h \<and> pg_HasQueryID g = pg_HasQueryID h"
  unfolding number_groups_def set_map enumerate_eq_zip by (auto dest!: set_zip_rightD)

lemma group_of_entry:
  assumes "g \<in> set (sm_Groups (plans_Summary (run_plans dec sha limits recs) env))"
  shows "\<exists>(pr, ts) \<in> set recs. pg_QueryID g = pr_QueryID pr \<and> pg_HasQueryID g = pr_HasQueryID pr"
proof -
  let ?a = "run_plans dec sha limits recs"
  have "\<exists>h \<in> set (map (\<lambda>(_, acc). sum_group env acc) (pl_groups ?a)). pg_QueryID g = pg_QueryID h \<and> pg_HasQueryID g = pg_HasQueryID h"
    by (rule number_groups_ids [of g group_order]) (use assms in \<open>simp add: plans_Summary_def Let_def case_prod_beta\<close>)
  then obtain key acc where ka: "(key, acc) \<in> set (pl_groups ?a)"
    and ids: "pg_QueryID g = pg_QueryID (ga_group acc)" "pg_HasQueryID g = pg_HasQueryID (ga_group acc)"
    by (auto simp: sum_group_def Let_def case_prod_beta)
  have ok: "groups_ok sha (pl_groups ?a) (parsed_plans dec limits recs)" using run_plans_inv [of dec sha limits recs] by (simp add: plans_inv_def)
  then have gk: "group_ok key acc (filter (\<lambda>q. key_of sha q = key) (parsed_plans dec limits recs))"
    using ka by (auto simp: groups_ok_def list_all_iff)
  then have "key \<in> key_of sha ` set (parsed_plans dec limits recs)" using ok ka by (force simp: groups_ok_def)
  then obtain q where q: "q \<in> set (parsed_plans dec limits recs)" "key = key_of sha q" by blast
  then obtain pr ts p where e: "q = (pr, ts, p)" "(pr, ts) \<in> set (admitted limits recs)"
    by (auto simp: parsed_plans_def List.map_filter_def parsed_record_def split: sum.splits)
  then have "(pr, ts) \<in> set recs" by (auto simp: admitted_def Let_def dest: in_set_takeD split: if_splits)
  moreover have "pg_QueryID g = pr_QueryID pr" "pg_HasQueryID g = pr_HasQueryID pr"
    using gk by (simp_all add: ids group_ok_def q(2) e(1) key_of_def plan_key_def Let_def)
  ultimately show ?thesis by blast
qed

definition asked_for :: "PlansQuery \<Rightarrow> PlanGroup \<Rightarrow> bool" where
  "asked_for q g \<longleftrightarrow>
     (if pq_HasQueryID q then pg_HasQueryID g \<and> pg_QueryID g = pq_QueryID q
      else if pq_QueryIDs q \<noteq> [] then pg_HasQueryID g \<and> pg_QueryID g \<in> set (pq_QueryIDs q)
      else True)"

lemma ranked_asked_for:
  "list_all (asked_for q) (sm_Groups (plans_Summary (run_plans dec sha limits (wanted_entries q fm recs)) env))"
proof (unfold list_all_iff, rule ballI)
  fix g
  assume "g \<in> set (sm_Groups (plans_Summary (run_plans dec sha limits (wanted_entries q fm recs)) env))"
  from group_of_entry [OF this] obtain pr ts
    where pr: "(pr, ts) \<in> set (wanted_entries q fm recs)" "pg_QueryID g = pr_QueryID pr" "pg_HasQueryID g = pr_HasQueryID pr" by blast
  then have "wantedPlan q pr"
    by (auto simp: wanted_entries_def wanted_plan_def List.map_filter_def split: option.splits if_splits)
  then show "asked_for q g" by (auto simp: asked_for_def wantedPlan_def pr split: if_splits)
qed

text \<open>
  C37: The plan groups of an answer belong to the statements asked for, whatever the log store
  let through. The whole ranking and the groups shown are all of the requested identifier, or of
  one of the requested set; at most a hundred are shown, in the order of the ranking; unless marked
  partial the read is of the whole window, and a window within the budgets is not; and an answer without groups says why.
\<close>

theorem plan_answers_match_the_request:
  assumes "scan_plans dec sha cfg (recs, fin) f fm q logging = Inr (r, ranked)"
  shows "list_all (asked_for q) ranked \<and> (fin = None \<and> within_budget cfg recs \<longrightarrow> \<not> sx_Partial r) \<and> list_all (asked_for q) (sm_Groups (sx_Plans r))
    \<and> subseq (sm_Groups (sx_Plans r)) ranked \<and> length (sm_Groups (sx_Plans r)) \<le> 100
    \<and> sm_Records (sx_Plans r) \<le> sx_PlanRecords r \<and> sx_PlanRecords r \<le> sx_Scanned r
    \<and> (sx_Partial r \<or> sx_Scanned r = length recs \<and> fin = None)
    \<and> (sx_EmptyReason r = [] \<longleftrightarrow> ranked \<noteq> [])"
proof -
  note a = scan_plans_answer [OF assms]
  have asked: "list_all (asked_for q) ranked" unfolding a(1) by (rule ranked_asked_for)
  have lim: "0 < planGroupLimit (pq_Limit q)" "planGroupLimit (pq_Limit q) \<le> 100"
    by (simp_all add: planGroupLimit_def defaultPlanGroups_def maxPlanGroups_def)
  have sub: "subseq (sm_Groups (sx_Plans r)) ranked" unfolding a(4) by (rule TopGroups_subseq [OF lim(1)])
  moreover have "list_all (asked_for q) (sm_Groups (sx_Plans r))"
    unfolding list_all_iff by (rule ballI, erule list_emb_set [OF sub]) (use asked in \<open>simp add: list_all_iff\<close>)
  moreover have "length (sm_Groups (sx_Plans r)) \<le> 100" using TopGroups_length [OF lim(1), of ranked] lim(2) by (simp add: a(4))
  moreover have "length (wanted_entries q fm xs) \<le> length (filter (\<lambda>r. database_plan q fm r \<noteq> None) xs)" for xs
    by (induction xs) (auto simp: wanted_entries_def wanted_plan_def split: option.splits)
  then have "sm_Records (sx_Plans r) \<le> sx_PlanRecords r" by (simp add: a(2,3))
  moreover have "sx_PlanRecords r \<le> sx_Scanned r" using a(2,6) length_filter_le by metis
  moreover have "sx_Partial r \<or> sx_Scanned r = length recs \<and> fin = None" using a(5,6) by auto
  ultimately show ?thesis using asked a(7,8) by blast
qed

text \<open>
  C38: A filter that the log store runs itself loses no group. If the store leaves out only records
  that are not plans asked for, then the complete answer of the narrowed read has the same groups,
  each with the same counts, durations and findings, as that of the read of every record.
\<close>

theorem narrowing_loses_no_group:
  assumes "scan_plans dec sha cfg (recs, fin) f fm q logging = Inr (r, ranked)"
    and "scan_plans dec sha cfg (filter keep recs, fin') f' fm q logging = Inr (r', ranked')"
    and "list_all (\<lambda>rec. keep rec \<or> wanted_plan q fm rec = None) recs"
    and "\<not> sx_Partial r" and "\<not> sx_Partial r'"
  shows "ranked' = ranked \<and> sm_Groups (sx_Plans r') = sm_Groups (sx_Plans r) \<and> (sx_EmptyReason r' = [] \<longleftrightarrow> sx_EmptyReason r = [])"
proof -
  note a = scan_plans_answer [OF assms(1)] and b = scan_plans_answer [OF assms(2)]
  have "wanted_entries q fm (filter keep recs) = wanted_entries q fm recs"
    using assms(3) unfolding wanted_entries_def by (induction recs) (auto split: option.split)
  moreover have "take (sx_Scanned r) recs = recs" "take (sx_Scanned r') (filter keep recs) = filter keep recs"
    using a(5) b(5) assms(4,5) by auto
  ultimately have "ranked' = ranked" using a(1) b(1) by simp
  then show ?thesis using a(4,7) b(4,7) by simp
qed

section \<open>A window with one plan\<close>

lemma insights_answer:
  "\<exists>r ranked. scan_insights dec sha cfg (recs, None) stream fm diag = Inr (r, ranked)"
proof -
  let ?limits = "scanBudget cfg (\<lambda>rec. record_category stream fm rec = ''plan'')"
  obtain s st where sc: "scan (recs, None) ?limits (\<lambda>s rec. (insights_visit dec sha stream fm s rec, True)) (insights_start cfg) = (s, st, None)"
    using scan_no_error [of recs ?limits "\<lambda>s rec. (insights_visit dec sha stream fm s rec, True)" "insights_start cfg"] by blast
  obtain reasons where "partialReasons st None ?limits (sm_BudgetExhausted (plans_Summary (is_plans s) (planContext diag))) = Inr reasons"
    using partialReasons_no_error by blast
  then show ?thesis by (simp add: scan_insights_def sc Let_def)
qed

lemma plans_answer:
  "\<exists>r ranked. scan_plans dec sha cfg (recs, None) f fm q logging = Inr (r, ranked)"
proof -
  let ?limits = "scanBudget cfg (carries_plan fm)"
  obtain s st where sc: "scan (recs, None) ?limits (\<lambda>s rec. (plans_visit dec sha q fm s rec, True)) (plans_start cfg) = (s, st, None)"
    using scan_no_error [of recs ?limits "\<lambda>s rec. (plans_visit dec sha q fm s rec, True)" "plans_start cfg"] by blast
  obtain reasons where "partialReasons st None ?limits (sm_BudgetExhausted (plans_Summary (px_plans s) (planContext logging))) = Inr reasons"
    using partialReasons_no_error by blast
  then show ?thesis by (simp add: scan_plans_def sc Let_def)
qed

definition text_only :: decoder where
  "text_only = \<lparr>decode_list = (\<lambda>_. Inl ''json''), decode_plan = (\<lambda>_. Inl ''json''), format_float = (\<lambda>_. [])\<rparr>"

definition plan_message :: string where
  "plan_message =
     ''duration: 12.5 ms  plan:'' @ [CHR 0x0A] @ ''Query Text: SELECT 1'' @ [CHR 0x0A] @ ''Result  (cost=0.00..0.01 rows=1 width=4)''"

definition plan_line :: source_Record where
  "plan_line = \<lparr>rec_Timestamp = 2000, rec_Fields = [(''message'', plan_message), (''query_id'', ''42'')], rec_Token = ''u''\<rparr>"

definition default_budget :: LogInsightsConfig where
  "default_budget =
     ic_WithDefaults \<lparr>ic_Enabled = None, ic_MaxRecords = 0, ic_MaxBytes = 0, ic_MaxPlanBytes = 0, ic_MaxPlans = 0, ic_IndexAdvisorEvidence = False\<rparr>"

definition no_diagnosis :: planLogging where
  "no_diagnosis = \<lparr>plg_Config = None, plg_Levels = [], plg_WorkMemKB = None\<rparr>"

definition statement_42 :: PlansQuery where
  "statement_42 =
     \<lparr>pq_Cluster = ''main'', pq_Stream = ''postgresql'', pq_From = 0, pq_To = 5000, pq_QueryID = 42, pq_HasQueryID = True,
      pq_QueryIDs = [], pq_Database = [], pq_Host = [], pq_Limit = 0\<rparr>"


lemma sample_within: "within_budget default_budget [sample_record, plan_line]"
  by code_simp

lemma plan_line_wanted: "wanted_entries statement_42 sample_map [sample_record, plan_line] \<noteq> [] \<and> wanted_plan statement_42 sample_map sample_record = None"
  by code_simp

theorem insights_account_witness:
  "\<exists>r ranked. scan_insights text_only (\<lambda>s. s) default_budget ([sample_record, plan_line], None) ''postgresql'' sample_map no_diagnosis = Inr (r, ranked)
     \<and> \<not> sx_Partial r \<and> sum_list (map cs_Count (sx_Categories r)) = 2 \<and> sx_PlanRecords r = 1"
proof -
  obtain r ranked where r: "scan_insights text_only (\<lambda>s. s) default_budget ([sample_record, plan_line], None) ''postgresql'' sample_map no_diagnosis = Inr (r, ranked)"
    using insights_answer by blast
  have "length (filter (\<lambda>rec. record_category ''postgresql'' sample_map rec = ''plan'') [sample_record, plan_line]) = 1" by code_simp
  then show ?thesis using r insights_account_for_window [OF r refl] sample_within by (metis One_nat_def Suc_1 length_Cons list.size(3))
qed

lemma parsed_plan_is_ranked:
  assumes "parsed_plans dec limits recs \<noteq> []"
  shows "sm_Groups (plans_Summary (run_plans dec sha limits recs) env) \<noteq> []"
proof -
  have "fst ` set (pl_groups (run_plans dec sha limits recs)) = key_of sha ` set (parsed_plans dec limits recs)"
    using run_plans_inv [of dec sha limits recs] by (simp add: plans_inv_def groups_ok_def)
  then have "pl_groups (run_plans dec sha limits recs) \<noteq> []" using assms by auto
  then have "length (sm_Groups (plans_Summary (run_plans dec sha limits recs) env)) \<noteq> 0"
    by (simp add: plans_Summary_def Let_def case_prod_beta)
  then show ?thesis by auto
qed

lemma plan_line_parses: "parsed_plans text_only (plan_limits default_budget) (wanted_entries statement_42 sample_map [sample_record, plan_line]) \<noteq> []"
proof -
  let ?body = "''Query Text: SELECT 1'' @ [CHR 0x0A] @ ''Result  (cost=0.00..0.01 rows=1 width=4)''"
  have parses: "case ParsePlan text_only ?body SourceLog of Inl _ \<Rightarrow> False | Inr _ \<Rightarrow> True" by code_simp
  have "map (\<lambda>(pr, ts). pr_Body pr) (wanted_entries statement_42 sample_map [sample_record, plan_line]) = [?body]" by code_simp
  then obtain pr ts where w: "wanted_entries statement_42 sample_map [sample_record, plan_line] = [(pr, ts)]" "pr_Body pr = ?body" by auto
  have "fits_bytes (plan_limits default_budget) (pr, ts)"
    unfolding fits_bytes_def case_prod_conv w(2) by (simp add: default_budget_def plan_limits_def ic_WithDefaults_def)
  then have "admitted (plan_limits default_budget) [(pr, ts)] = [(pr, ts)]"
    by (simp add: admitted_def default_budget_def plan_limits_def ic_WithDefaults_def)
  then show ?thesis unfolding w(1) parsed_plans_def using parses w(2) by (auto simp: parsed_record_def split: sum.splits)
qed

theorem plan_answers_witness:
  "\<exists>r ranked. scan_plans text_only (\<lambda>s. s) default_budget ([sample_record, plan_line], None) (planFilter statement_42 [] sample_map)
       sample_map statement_42 no_diagnosis = Inr (r, ranked)
     \<and> \<not> sx_Partial r \<and> ranked \<noteq> [] \<and> list_all (asked_for statement_42) ranked"
proof -
  obtain r ranked where r: "scan_plans text_only (\<lambda>s. s) default_budget ([sample_record, plan_line], None)
      (planFilter statement_42 [] sample_map) sample_map statement_42 no_diagnosis = Inr (r, ranked)"
    using plans_answer by blast
  note a = plan_answers_match_the_request [OF r]
  have "take (sx_Scanned r) [sample_record, plan_line] = [sample_record, plan_line]"
    using scan_plans_answer(5,8) [OF r] sample_within by blast
  then have "ranked \<noteq> []" using scan_plans_answer(1) [OF r] parsed_plan_is_ranked [OF plan_line_parses] by simp
  then show ?thesis using r a sample_within by blast
qed

theorem narrowing_witness:
  "\<exists>r ranked r' ranked'. scan_plans text_only (\<lambda>s. s) default_budget ([sample_record, plan_line], None) (planFilter statement_42 [] sample_map)
       sample_map statement_42 no_diagnosis = Inr (r, ranked)
     \<and> scan_plans text_only (\<lambda>s. s) default_budget ([plan_line], None) (planFilter statement_42 [] sample_map)
       sample_map statement_42 no_diagnosis = Inr (r', ranked') \<and> ranked' = ranked"
proof -
  let ?keep = "\<lambda>rec. rec_Timestamp rec = 2000"
  have f: "filter ?keep [sample_record, plan_line] = [plan_line]" by (simp add: sample_record_def plan_line_def)
  obtain r ranked where r: "scan_plans text_only (\<lambda>s. s) default_budget ([sample_record, plan_line], None)
      (planFilter statement_42 [] sample_map) sample_map statement_42 no_diagnosis = Inr (r, ranked)"
    using plans_answer by blast
  obtain r' ranked' where r': "scan_plans text_only (\<lambda>s. s) default_budget (filter ?keep [sample_record, plan_line], None)
      (planFilter statement_42 [] sample_map) sample_map statement_42 no_diagnosis = Inr (r', ranked')"
    using plans_answer by blast
  have "within_budget default_budget (filter ?keep [sample_record, plan_line])" unfolding f by code_simp
  then have "\<not> sx_Partial r" "\<not> sx_Partial r'"
    using scan_plans_answer(8) [OF r refl sample_within] scan_plans_answer(8) [OF r' refl] by blast+
  moreover have "list_all (\<lambda>rec. ?keep rec \<or> wanted_plan statement_42 sample_map rec = None) [sample_record, plan_line]"
    using plan_line_wanted by (simp add: plan_line_def)
  ultimately have "ranked' = ranked" using narrowing_loses_no_group [OF r r'] by blast
  then show ?thesis using r r' unfolding f by blast
qed

end
