(* ===== verification/Log_Storage_Sound.thy ===== *)
theory Log_Storage_Sound
  imports Log_Storage Log_Insights_Sound
begin

text \<open>
  Stored scans against the answers they were made from: the query for the top groups selects the
  groups the answer carried, and pages of groups list every group once.
\<close>

section \<open>Two rankings as one order\<close>

definition marks :: "bool list \<Rightarrow> nat set" where "marks keep = {i. i < length keep \<and> keep ! i}"

lemma card_marks: "card (marks keep) = marked keep"
  unfolding marks_def marked_def by (rule length_filter_conv_card [symmetric])

lemma marks_update: "i < length keep \<Longrightarrow> marks (keep[i := True]) = insert i (marks keep)"
  by (auto simp: marks_def nth_list_update)

text \<open>
  The place of an element in a ranking, and the elements that come before a bound when the two
  rankings, of the numbers themselves and of \<open>xs\<close>, are read in turn.
\<close>

definition place :: "nat list \<Rightarrow> nat \<Rightarrow> nat" where "place xs i = length (takeWhile (\<lambda>j. j \<noteq> i) xs)"

lemma place_nth: "distinct xs \<Longrightarrow> t < length xs \<Longrightarrow> place xs (xs ! t) = t"
proof (induction xs arbitrary: t)
  case (Cons x xs)
  then show ?case by (cases t) (auto simp: place_def)
qed simp

lemma nth_place: "i \<in> set xs \<Longrightarrow> place xs i < length xs \<and> xs ! place xs i = i"
  by (induction xs) (auto simp: place_def)

definition turn_key :: "nat list \<Rightarrow> nat \<Rightarrow> nat \<times> nat" where
  "turn_key xs i = (min i (place xs i), i)"

definition earlier :: "nat list \<Rightarrow> nat \<times> nat \<Rightarrow> nat set" where
  "earlier xs a = {i. i < length xs \<and> turn_key xs i < a}"

lemma earlier_iff:
  "i \<in> earlier xs (a, b) \<longleftrightarrow> i < length xs \<and> (min i (place xs i) < a \<or> min i (place xs i) = a \<and> i < b)"
  by (auto simp: earlier_def turn_key_def less_prod_def)

lemma earlier_first: "t < length xs \<Longrightarrow> insert t (earlier xs (t, 0)) = earlier xs (t, Suc t)"
  unfolding set_eq_iff insert_iff earlier_iff by (auto simp: min_def)

lemma earlier_second:
  assumes "distinct xs" and "set xs = {0..<length xs}" and "t < length xs"
  shows "insert (xs ! t) (earlier xs (t, Suc t)) = earlier xs (Suc t, 0)"
proof (rule set_eqI)
  fix i
  have p: "place xs (xs ! t) = t" "xs ! t < length xs" using assms place_nth nth_mem [of t xs] by auto
  have "place xs i = t \<longleftrightarrow> i = xs ! t" if "i < length xs" using nth_place [of i xs] that assms(2) p by auto
  then show "i \<in> insert (xs ! t) (earlier xs (t, Suc t)) \<longleftrightarrow> i \<in> earlier xs (Suc t, 0)"
    unfolding insert_iff earlier_iff using p by (cases "i < length xs") auto
qed

lemma take_turns_earlier:
  assumes "distinct xs" and "set xs = {0..<length xs}"
  shows "turns = drop t (enumerate 0 xs) \<Longrightarrow> length keep = length xs \<Longrightarrow> marked keep \<le> n \<Longrightarrow> marks keep = earlier xs (t, 0) \<Longrightarrow>
    \<exists>keep' a. take_turns n turns (keep, marked keep) = (keep', marked keep') \<and> length keep' = length xs
      \<and> marked keep' \<le> n \<and> marks keep' = earlier xs a \<and> (marked keep' = n \<or> marks keep' = {0..<length xs})"
proof (induction turns arbitrary: t keep)
  case Nil
  then have "length xs \<le> t" by simp
  then have "earlier xs (t, 0) = {0..<length xs}" unfolding set_eq_iff earlier_iff by auto
  then show ?case using Nil by auto
next
  case (Cons ij turns)
  have t: "t < length xs" using Cons.prems(1) by (metis drop_all length_enumerate list.distinct(1) not_le)
  have ij: "ij = (t, xs ! t)" "turns = drop (Suc t) (enumerate 0 xs)"
    using Cons.prems(1) t by (simp_all add: nth_enumerate_eq flip: Cons_nth_drop_Suc)
  have i: "t < length keep" and j: "xs ! t < length keep" using t Cons.prems(2) assms(2) nth_mem [of t xs] by auto
  note first = earlier_first [OF t] and second = earlier_second [OF assms t]
  show ?case
  proof (cases "n \<le> marked keep")
    case True
    then have "take_turns n (ij # turns) (keep, marked keep) = (keep, marked keep)" by (simp add: ij(1))
    then show ?thesis using Cons.prems(2-4) True by (metis le_antisym)
  next
    case False
    let ?k1 = "keep[t := True]" and ?k2 = "keep[t := True, xs ! t := True]"
    have k1: "marks ?k1 = earlier xs (t, Suc t)" using marks_update [OF i] Cons.prems(4) first by simp
    have k2: "marks ?k2 = earlier xs (Suc t, 0)" using marks_update [of "xs ! t" ?k1] j k1 second by simp
    have m: "marked ?k1 \<le> n" using count_le [OF i] False by simp
    have step: "take_turns n (ij # turns) (keep, marked keep) = take_turns n turns (turn n (t, xs ! t) keep, marked (turn n (t, xs ! t) keep))"
      unfolding ij(1) take_turns_Cons [OF i j] using False by simp
    show ?thesis
    proof (cases "marked ?k1 < n")
      case True
      then have "marked ?k2 \<le> n" using count_le [of "xs ! t" ?k1] j by simp
      from Cons.IH [OF ij(2) _ this k2] show ?thesis using True Cons.prems(2) unfolding step by (simp add: turn_def)
    next
      case full: False
      then have n: "marked ?k1 = n" using m by simp
      have "take_turns n turns (?k1, marked ?k1) = (?k1, marked ?k1)"
      proof (cases turns)
        case (Cons kl ts)
        then show ?thesis using n by (cases kl) simp
      qed simp
      then show ?thesis unfolding step using full Cons.prems(2) k1 n by (auto simp: turn_def)
    qed
  qed
qed

lemma take_sorted_downset:
  fixes key :: "nat \<Rightarrow> nat \<times> nat"
  assumes "inj_on key (set xs)" and "distinct xs" and "D = {i \<in> set xs. key i < a}"
  shows "set (take (card D) (sort_key key xs)) = D"
proof -
  let ?s = "sort_key key xs"
  have D: "D = set (filter (\<lambda>i. key i < a) ?s)" using assms(3) by auto
  have "filter (\<lambda>i. key i < a) ys = takeWhile (\<lambda>i. key i < a) ys" if "sorted (map key ys)" for ys
    using that
  proof (induction ys)
    case (Cons y ys)
    have "filter (\<lambda>i. key i < a) ys = []" if "\<not> key y < a"
      using that Cons.prems by (fastforce simp: filter_empty_conv)
    then show ?case using Cons by (cases "key y < a") simp_all
  qed simp
  then have f: "filter (\<lambda>i. key i < a) ?s = takeWhile (\<lambda>i. key i < a) ?s" by simp
  have "card D = length (filter (\<lambda>i. key i < a) ?s)" unfolding D by (rule distinct_card) (simp add: assms(2))
  then show ?thesis unfolding D f by (metis takeWhile_eq_take)
qed

lemma kept_by_index:
  assumes "length keep = length xs"
  shows "map fst (filter snd (zip xs keep)) = map (\<lambda>i. xs ! i) (filter (\<lambda>i. keep ! i) [0..<length xs])"
proof -
  have "zip xs keep = map (\<lambda>i. (xs ! i, keep ! i)) [0..<length xs]" using assms by (intro nth_equalityI) simp_all
  then show ?thesis by (simp add: filter_map o_def)
qed

lemma turn_key_inj: "inj_on (turn_key xs) A"
  by (auto simp: inj_on_def turn_key_def)

lemma TopGroups_by_key:
  assumes "0 < n" and "n < length groups"
  defines "order \<equiv> sort_key (turn_key (by_max groups)) [0..<length groups]"
  shows "TopGroups groups (int n) = map (\<lambda>i. groups ! i) (filter (\<lambda>i. i \<in> set (take n order)) [0..<length groups])"
proof -
  let ?xs = "by_max groups" and ?N = "length groups"
  have xs: "distinct ?xs" "set ?xs = {0..<length ?xs}" "length ?xs = ?N" by (simp_all add: by_max_def)
  have start: "marks (replicate ?N False) = earlier ?xs (0, 0)" "marked (replicate ?N False) = 0"
    by (auto simp: marks_def earlier_def less_prod_def marked_def)
  obtain keep a where k: "take_turns n (enumerate 0 ?xs) (replicate ?N False, 0) = (keep, marked keep)" "length keep = ?N"
      "marked keep \<le> n" "marks keep = earlier ?xs a" "marked keep = n \<or> marks keep = {0..<?N}"
    using take_turns_earlier [OF xs(1,2), of "enumerate 0 ?xs" 0 "replicate ?N False" n] start xs(3) by auto
  have "marked keep = n" using k(3,5) assms(2) card_marks [of keep] by auto
  then have n: "card (earlier ?xs a) = n" using k(4) card_marks by metis
  have "set (take (card (earlier ?xs a)) order) = earlier ?xs a"
    unfolding order_def by (rule take_sorted_downset [OF turn_key_inj]) (auto simp: earlier_def xs(3))
  then have "i \<in> set (take n order) \<longleftrightarrow> keep ! i" if "i < ?N" for i using that k(2,4) n by (auto simp: marks_def)
  then have "filter (\<lambda>i. keep ! i) [0..<?N] = filter (\<lambda>i. i \<in> set (take n order)) [0..<?N]" by (intro filter_cong) auto
  then show ?thesis using assms by (simp add: TopGroups_def k(1) kept_by_index [OF k(2)])
qed

section \<open>The query for the top groups\<close>

lemma insort_key_order:
  "\<forall>y \<in> set ys. f x \<le> f y \<longleftrightarrow> g x \<le> g y \<Longrightarrow> insort_key f x ys = insort_key g x ys"
  by (induction ys) auto

lemma sort_key_order: "\<forall>x \<in> set xs. \<forall>y \<in> set xs. f x \<le> f y \<longleftrightarrow> g x \<le> g y \<Longrightarrow> sort_key f xs = sort_key g xs"
proof (induction xs)
  case (Cons x xs)
  then have IH: "sort_key f xs = sort_key g xs" by simp
  show ?case using insort_key_order [of "sort_key g xs" f x g] Cons.prems by (simp add: IH)
qed simp

lemma sort_key_stable_index:
  fixes xs :: "nat list"
  assumes "sorted_wrt (<) xs"
  shows "sort_key (\<lambda>i. (f i, i)) xs = sort_key f xs"
  using assms
proof (induction xs)
  case (Cons x xs)
  have "insort_key (\<lambda>i. (f i, i)) x (sort_key f xs) = insort_key f x (sort_key f xs)"
    by (rule insort_key_order) (use Cons.prems in \<open>auto simp: less_eq_prod_def\<close>)
  then show ?case using Cons by simp
qed simp

lemma pg_desc_order: "x \<noteq> NaN \<Longrightarrow> y \<noteq> NaN \<Longrightarrow> pg_desc x \<le> pg_desc y \<longleftrightarrow> desc x \<le> desc y"
  by (auto simp: pg_desc_def desc_def less_eq_prod_def split: f64.splits)

lemma row_number_place: "row_number xs i = Suc (place xs i)"
  by (simp add: row_number_def place_def)

lemma place_upt: "i < n \<Longrightarrow> place [0..<n] i = i"
  using place_nth [of "[0..<n]" i] by simp

definition numbered :: "groups_row list \<Rightarrow> bool" where "numbered rs \<longleftrightarrow> map tg_ord rs = [0..<length rs]"

lemma numbered_nth: "numbered rs \<Longrightarrow> i < length rs \<Longrightarrow> tg_ord (rs ! i) = i"
  by (metis add_0 nth_map nth_upt numbered_def)

lemma numbered_row: "numbered rs \<Longrightarrow> r \<in> set rs \<Longrightarrow> rs ! tg_ord r = r"
  by (metis in_set_conv_nth numbered_nth)

lemma picked_rows_by_key:
  assumes "numbered rs" and "map tg_max_ms rs = map (\<lambda>g. dur_Max (pg_Durations g)) groups"
    and "list_all (\<lambda>g. dur_Max (pg_Durations g) \<noteq> NaN) groups"
  shows "picked_rows rs n = take n (sort_key (turn_key (by_max groups)) [0..<length groups])"
proof -
  let ?N = "length groups" and ?xs = "by_max groups"
  have len: "length rs = ?N" using assms(2) map_eq_imp_length_eq by blast
  have ords: "map tg_ord rs = [0..<?N]" using assms(1) by (simp add: numbered_def len)
  have mx: "tg_max_ms (rs ! i) = dur_Max (pg_Durations (groups ! i))" if "i < ?N" for i
    using assms(2) that len by (metis nth_map)
  define h where "h = (\<lambda>i. (pg_desc (tg_max_ms (rs ! i)), i))"
  have "sort_key (\<lambda>r. (pg_desc (tg_max_ms r), tg_ord r)) rs = sort_key (h \<circ> tg_ord) rs"
    using numbered_row [OF assms(1)] by (intro sort_key_order) (simp add: h_def)
  then have "map tg_ord (sort_key (\<lambda>r. (pg_desc (tg_max_ms r), tg_ord r)) rs) = sort_key h [0..<?N]"
    by (simp add: map_sort_key ords)
  also have "\<dots> = sort_key (\<lambda>i. pg_desc (tg_max_ms (rs ! i))) [0..<?N]"
    unfolding h_def by (rule sort_key_stable_index) simp
  also have "\<dots> = ?xs" unfolding by_max_def
    by (rule sort_key_order) (use assms(3) in \<open>auto simp: mx pg_desc_order list_all_length\<close>)
  finally have byMax: "map tg_ord (sort_key (\<lambda>r. (pg_desc (tg_max_ms r), tg_ord r)) rs) = ?xs" .
  have "map tg_ord (sort_key tg_ord rs) = sort [0..<?N]" using map_sort_key [of tg_ord "\<lambda>x. x" rs] by (simp add: o_def ords)
  then have bySum: "map tg_ord (sort_key tg_ord rs) = [0..<?N]" by (simp add: sorted_sort_id)
  let ?F = "\<lambda>i. (i, Suc (place [0..<?N] i), Suc (place ?xs i))" and ?K = "\<lambda>(_ :: nat, a :: nat, b :: nat). (min a b, a)"
  have "ranked_rows rs = map (?F \<circ> tg_ord) rs" by (simp add: ranked_rows_def byMax bySum row_number_place)
  then have "ranked_rows rs = map ?F [0..<?N]" by (simp flip: ords)
  then have "sort_key ?K (ranked_rows rs) = map ?F (sort_key (?K \<circ> ?F) [0..<?N])" by (simp add: map_sort_key)
  also have "sort_key (?K \<circ> ?F) [0..<?N] = sort_key (turn_key ?xs) [0..<?N]"
    by (rule sort_key_order) (auto simp: turn_key_def place_upt less_eq_prod_def)
  finally show ?thesis by (simp add: picked_rows_def take_map o_def)
qed

section \<open>Saved and read back\<close>

lemma groups_rows_nth:
  "groups_rows js sid gs = Some rs \<Longrightarrow> length rs = length gs \<and> (\<forall>i < length gs. groups_row_of js sid (gs ! i) = Some (rs ! i))"
proof (induction gs arbitrary: rs)
  case (Cons g gs)
  then show ?case by (auto simp: nth_Cons split: option.splits nat.split)
qed simp

lemma groups_row_of_simps:
  "groups_row_of js sid g = Some r \<Longrightarrow> tg_scan_id r = sid \<and> tg_ord r = pg_Ord g \<and> tg_max_ms r = dur_Max (pg_Durations g)
    \<and> js_Row js (group_Row g) = Some (tg_group_row r)"
  by (auto simp: groups_row_of_def split: option.splits)

lemma groups_rows_columns:
  assumes "groups_rows js sid gs = Some rs"
  shows "map tg_ord rs = map pg_Ord gs" and "map tg_max_ms rs = map (\<lambda>g. dur_Max (pg_Durations g)) gs"
    and "list_all (\<lambda>r. tg_scan_id r = sid) rs"
  using groups_rows_nth [OF assms] groups_row_of_simps by (fastforce intro!: nth_equalityI simp: list_all_length)+

lemma decode_all_Some: "decode_all f rs = Some xs \<Longrightarrow> map Some xs = map f rs"
  by (induction rs arbitrary: xs) (auto split: option.splits)

text \<open>A group written to its row and read from it.\<close>

definition reread :: "json_codec \<Rightarrow> uuid \<Rightarrow> PlanGroup \<Rightarrow> PlanGroup option" where
  "reread js sid g = (case groups_row_of js sid g of None \<Rightarrow> None | Some r \<Rightarrow> insightsGroup js r)"

lemma top_rows_are_TopGroups:
  assumes "groups_rows js sid groups = Some rs" and "map pg_Ord groups = [0..<length groups]"
    and "list_all (\<lambda>g. dur_Max (pg_Durations g) \<noteq> NaN) groups" and "0 < n"
  shows "map (insightsGroup js) (top_rows rs n) = map (reread js sid) (TopGroups groups (int n))"
proof -
  let ?N = "length groups"
  note nth = groups_rows_nth [OF assms(1)] and col = groups_rows_columns [OF assms(1)]
  have num: "numbered rs" using col(1) assms(2) nth by (simp add: numbered_def)
  define order where "order = sort_key (turn_key (by_max groups)) [0..<?N]"
  have picked: "picked_rows rs n = take n order" unfolding order_def by (rule picked_rows_by_key [OF num col(2) assms(3)])
  have rs: "rs = map (\<lambda>i. rs ! i) [0..<?N]" using nth by (metis map_nth)
  have "filter (\<lambda>r. tg_ord r \<in> set (picked_rows rs n)) rs = map (\<lambda>i. rs ! i) (filter (\<lambda>i. tg_ord (rs ! i) \<in> set (picked_rows rs n)) [0..<?N])"
    by (subst (2) rs) (simp add: filter_map o_def)
  also have "filter (\<lambda>i. tg_ord (rs ! i) \<in> set (picked_rows rs n)) [0..<?N] = filter (\<lambda>i. i \<in> set (take n order)) [0..<?N]"
    using numbered_nth [OF num] nth by (intro filter_cong) (auto simp: picked)
  finally have sel: "filter (\<lambda>r. tg_ord r \<in> set (picked_rows rs n)) rs = map (\<lambda>i. rs ! i) (filter (\<lambda>i. i \<in> set (take n order)) [0..<?N])" .
  have "sorted (map tg_ord rs)" using num by (simp add: numbered_def)
  then have top: "top_rows rs n = map (\<lambda>i. rs ! i) (filter (\<lambda>i. i \<in> set (take n order)) [0..<?N])"
    unfolding top_rows_def sel [symmetric] by (simp add: sort_key_id_if_sorted sorted_filter)
  have "TopGroups groups (int n) = map (\<lambda>i. groups ! i) (filter (\<lambda>i. i \<in> set (take n order)) [0..<?N])"
  proof (cases "n < ?N")
    case True
    then show ?thesis unfolding order_def by (rule TopGroups_by_key [OF assms(4)])
  next
    case False
    then have "filter (\<lambda>i. i \<in> set (take n order)) [0..<?N] = [0..<?N]" by (simp add: order_def filter_id_conv)
    then show ?thesis using False by (simp add: TopGroups_def map_nth)
  qed
  then show ?thesis using nth by (auto simp: top reread_def)
qed

lemma find_append: "find P (xs @ ys) = (case find P xs of None \<Rightarrow> find P ys | Some x \<Rightarrow> Some x)"
  by (induction xs) auto

lemma saved_rows:
  assumes "SaveInsightsScan js sn groups db = Inr db'" and "of_scan (sc_ID sn) db = []"
  obtains rs summary where "groups_rows js (sc_ID sn) groups = Some rs" "of_scan (sc_ID sn) db' = rs"
    "js_Result js (sc_Result sn) = Some summary" "find (\<lambda>r. tr_scan_id r = sc_ID sn) (db_scans db') = Some (scans_row_of sn summary)"
proof -
  obtain rs summary where rs: "groups_rows js (sc_ID sn) groups = Some rs" "js_Result js (sc_Result sn) = Some summary"
    and new: "sc_ID sn \<notin> tr_scan_id ` set (db_scans db)"
    and db': "db' = \<lparr>db_scans = db_scans db @ [scans_row_of sn summary], db_groups = db_groups db @ rs\<rparr>"
    using assms(1) by (auto simp: SaveInsightsScan_def split: option.splits if_splits)
  have "filter (\<lambda>r. tg_scan_id r = sc_ID sn) rs = rs" using groups_rows_columns(3) [OF rs(1)] by (simp add: list_all_iff filter_id_conv)
  then have "of_scan (sc_ID sn) db' = rs" using assms(2) by (simp add: of_scan_def db')
  moreover have "find (\<lambda>r. tr_scan_id r = sc_ID sn) (db_scans db) = None" using new by (force simp: find_None_iff)
  then have "find (\<lambda>r. tr_scan_id r = sc_ID sn) (db_scans db') = Some (scans_row_of sn summary)"
    by (simp add: db' find_append scans_row_of_def)
  ultimately show ?thesis using that rs by blast
qed

lemma stored_scan_repeats:
  assumes "groups_rows js (sc_ID sn) groups = Some (of_scan (sc_ID sn) db)"
    and "find (\<lambda>r. tr_scan_id r = sc_ID sn) (db_scans db) = Some (scans_row_of sn summary)"
    and "map pg_Ord groups = [0..<length groups]" and "list_all (\<lambda>g. dur_Max (pg_Durations g) \<noteq> NaN) groups" and "0 < n"
    and "GetInsightsScan js (sc_ID sn) (int n) db = Inr sn'"
  shows "\<exists>res gs. js_toResult js summary = Some res \<and> sn' = with_groups gs (sn\<lparr>sc_Result := res\<rparr>)
    \<and> map Some gs = map (reread js (sc_ID sn)) (TopGroups groups (int n))"
proof -
  obtain res gs where g: "js_toResult js summary = Some res" "decode_all (insightsGroup js) (top_rows (of_scan (sc_ID sn) db) n) = Some gs"
      "sn' = with_groups gs (scan_of_row (scans_row_of sn summary) res)"
    using assms(6) by (auto simp: GetInsightsScan_def assms(2) scans_row_of_def split: option.splits)
  have "scan_of_row (scans_row_of sn summary) res = sn\<lparr>sc_Result := res\<rparr>"
    by (simp add: scan_of_row_def scans_row_of_def nullIfEmpty_def)
  then show ?thesis
    using g decode_all_Some [OF g(2)] top_rows_are_TopGroups [OF assms(1,3,4,5)] by auto
qed

section \<open>Rankings have no missing number\<close>

lemma durationStats_max: "ds \<noteq> [] \<Longrightarrow> dur_Max (durationStats ds) \<in> set ds"
proof -
  assume "ds \<noteq> []"
  then have "sort_key asc ds \<noteq> []" by (metis length_0_conv length_sort)
  then show ?thesis using last_in_set [of "sort_key asc ds"] \<open>ds \<noteq> []\<close> by (simp add: durationStats_def Let_def)
qed

lemma ranked_no_nan:
  assumes "list_all (\<lambda>(pr, ts). pr_DurationMs pr \<noteq> NaN) recs"
  shows "list_all (\<lambda>g. dur_Max (pg_Durations g) \<noteq> NaN) (sm_Groups (plans_Summary (run_plans dec sha limits recs) env))"
proof (unfold list_all_iff, rule ballI)
  fix g
  let ?a = "run_plans dec sha limits recs" and ?ps = "parsed_plans dec limits recs"
  assume "g \<in> set (sm_Groups (plans_Summary ?a env))"
  then have "g \<in> set (number_groups (sort_key group_order (map (\<lambda>(_, acc). sum_group env acc) (pl_groups ?a))))"
    by (simp add: plans_Summary_def Let_def case_prod_beta)
  then have "pg_Durations g \<in> (\<lambda>(_, acc). durationStats (ga_durations acc)) ` set (pl_groups ?a)"
    unfolding number_groups_def set_map enumerate_eq_zip
    by (force simp: sum_group_def Let_def case_prod_beta dest!: set_zip_rightD)
  then obtain key acc where ka: "(key, acc) \<in> set (pl_groups ?a)" "pg_Durations g = durationStats (ga_durations acc)" by auto
  have "groups_ok sha (pl_groups ?a) ?ps" using run_plans_inv [of dec sha limits recs] by (simp add: plans_inv_def)
  then have "group_ok key acc (filter (\<lambda>q. key_of sha q = key) ?ps)" using ka(1) by (auto simp: groups_ok_def list_all_iff)
  then have ds: "ga_durations acc \<noteq> []" "set (ga_durations acc) \<subseteq> ms_of ` set ?ps" by (auto simp: group_ok_def Let_def)
  have "ms_of q \<noteq> NaN" if "q \<in> set ?ps" for q
  proof -
    obtain pr ts p where q: "q = (pr, ts, p)" "(pr, ts) \<in> set (admitted limits recs)"
      using \<open>q \<in> set ?ps\<close> by (auto simp: parsed_plans_def List.map_filter_def parsed_record_def split: sum.splits)
    then have "(pr, ts) \<in> set recs" by (auto simp: admitted_def Let_def dest: in_set_takeD split: if_splits)
    then show ?thesis using assms by (auto simp: list_all_iff q(1))
  qed
  then show "dur_Max (pg_Durations g) \<noteq> NaN" using durationStats_max [OF ds(1)] ds(2) by (auto simp: ka(2))
qed

lemma Detect_not_nan: "Detect msg f = Some pr \<Longrightarrow> pr_DurationMs pr \<noteq> NaN"
  using Detect_duration [of msg f pr] by auto

lemma plan_entries_not_nan: "list_all (\<lambda>(pr, ts). pr_DurationMs pr \<noteq> NaN) (plan_entries stream fm recs)"
  using Detect_not_nan by (fastforce simp: plan_entries_def List.map_filter_def record_plan_def list_all_iff split: if_splits)

lemma insights_ranking:
  assumes "scan_insights dec sha cfg (recs, fin) stream fm diag = Inr (r, ranked)"
  shows "map pg_Ord ranked = [0..<length ranked] \<and> list_all (\<lambda>g. dur_Max (pg_Durations g) \<noteq> NaN) ranked
    \<and> sm_Groups (sx_Plans r) = TopGroups ranked 10"
proof -
  let ?limits = "scanBudget cfg (\<lambda>rec. record_category stream fm rec = ''plan'')"
  obtain s st err where sc: "scan (recs, fin) ?limits (\<lambda>s rec. (insights_visit dec sha stream fm s rec, True)) (insights_start cfg) = (s, st, err)"
    by (metis prod_cases3)
  have r: "ranked = sm_Groups (plans_Summary (is_plans s) (planContext diag))" "sm_Groups (sx_Plans r) = TopGroups ranked 10"
    using assms by (auto simp: scan_insights_def sc Let_def insightsTopGroups_def split: sum.splits)
  define es where "es = plan_entries stream fm (take (ss_Records st) recs)"
  have "is_plans s = run_plans dec sha (plan_limits cfg) es"
    using scan_fold [OF sc] insights_fold(2) by (simp add: es_def)
  moreover have "list_all (\<lambda>(pr, ts). pr_DurationMs pr \<noteq> NaN) es" unfolding es_def by (rule plan_entries_not_nan)
  ultimately show ?thesis
    using r summary_accounts_for_records [where dec = dec and sha = sha and limits = "plan_limits cfg" and recs = es and env = "planContext diag"]
    by (simp add: Let_def ranked_no_nan)
qed

end
