(* ===== verification/Log_Snapshots.thy ===== *)
theory Log_Snapshots
  imports Log_Storage_Sound
begin

text \<open>
  The life of a stored scan (\<^verbatim>\<open>backend/internal/logs/snapshot.go\<close>): an answer is registered,
  written in the background and released, and a read of it waits in between. The endpoints that
  take scans (\<^verbatim>\<open>insights.go\<close>, \<^verbatim>\<open>plans.go\<close>) and the one that compares two of them
  (\<^verbatim>\<open>compare.go\<close>) pass the state of the service along. A fresh identifier and the current time
  are arguments. The background writes are steps of a run, in any order, and each may fail.
\<close>

section \<open>State\<close>

type_synonym scan_job = "log_Scan \<times> PlanGroup list"

record snap_state =
  sn_store :: "insights_db option"
  sn_pending :: "(uuid \<times> scan_job) list"

text \<open>A call that reads a scan waits for its write or replies.\<close>

datatype 'a reply = Waits | Replied "log_error + 'a"

definition ScanInsights :: string where "ScanInsights = ''insights''"
definition ScanPlans :: string where "ScanPlans = ''plans''"
definition ScanCompare :: string where "ScanCompare = ''compare''"
definition maxPendingSnapshots :: nat where "maxPendingSnapshots = 8"
definition defaultGroupPageSize :: int where "defaultGroupPageSize = 50"
definition maxGroupPageSize :: int where "maxGroupPageSize = 1000"

section \<open>Writing\<close>

definition trackSnapshot :: "uuid \<Rightarrow> scan_job \<Rightarrow> snap_state \<Rightarrow> snap_state option" where
  "trackSnapshot sid job s =
     (if maxPendingSnapshots \<le> length (sn_pending s) then None
      else Some (s\<lparr>sn_pending := AList.update sid job (sn_pending s)\<rparr>))"

definition releaseSnapshot :: "uuid \<Rightarrow> snap_state \<Rightarrow> snap_state" where
  "releaseSnapshot sid s = s\<lparr>sn_pending := AList.delete sid (sn_pending s)\<rparr>"

definition stamp_scan :: "uuid \<Rightarrow> time \<Rightarrow> log_Scan \<Rightarrow> log_Scan" where
  "stamp_scan nid now sn =
     sn\<lparr>sc_ID := nid, sc_CreatedAt := now,
        sc_Result := (sc_Result sn)\<lparr>sx_ScanID := nid, sx_Plans := (sx_Plans (sc_Result sn))\<lparr>sm_Groups := []\<rparr>\<rparr>\<rparr>"

definition saveScan :: "uuid \<Rightarrow> time \<Rightarrow> log_Scan \<Rightarrow> PlanGroup list \<Rightarrow> snap_state \<Rightarrow> uuid \<times> snap_state" where
  "saveScan nid now sn groups s =
     (case sn_store s of
        None \<Rightarrow> (uuid_Nil, s)
      | Some _ \<Rightarrow> (case trackSnapshot nid (stamp_scan nid now sn, groups) s of
            None \<Rightarrow> (uuid_Nil, s)
          | Some s' \<Rightarrow> (nid, s')))"

definition writeSnapshot :: "json_codec \<Rightarrow> bool \<Rightarrow> uuid \<Rightarrow> snap_state \<Rightarrow> snap_state" where
  "writeSnapshot js fails sid s =
     (case (map_of (sn_pending s) sid, sn_store s) of
        (Some (sn, groups), Some db) \<Rightarrow>
          (case SaveInsightsScan js sn groups db of
             Inl _ \<Rightarrow> releaseSnapshot sid s
           | Inr db' \<Rightarrow> releaseSnapshot sid (if fails then s else s\<lparr>sn_store := Some db'\<rparr>))
      | _ \<Rightarrow> s)"

section \<open>Reading\<close>

definition snapshotStore :: "log_service \<Rightarrow> snap_state \<Rightarrow> log_error + insights_db" where
  "snapshotStore svc s =
     (if \<not> ic_IsEnabled (lsv_insights svc) then Inl ErrDisabled
      else case sn_store s of None \<Rightarrow> Inl ErrNoStorage | Some db \<Rightarrow> Inr db)"

definition awaitSnapshot :: "uuid \<Rightarrow> snap_state \<Rightarrow> (log_error + 'a) \<Rightarrow> 'a reply" where
  "awaitSnapshot sid s answer = (if map_of (sn_pending s) sid = None then Replied answer else Waits)"

definition pageBounds :: "int \<Rightarrow> int \<Rightarrow> int \<times> int" where
  "pageBounds n off = (min (if n \<le> 0 then defaultGroupPageSize else n) maxGroupPageSize, max off 0)"

definition svc_Snapshot :: "json_codec \<Rightarrow> log_service \<Rightarrow> uuid \<Rightarrow> snap_state \<Rightarrow> log_Scan reply" where
  "svc_Snapshot js svc sid s =
     (case snapshotStore svc s of
        Inl e \<Rightarrow> Replied (Inl e)
      | Inr db \<Rightarrow> awaitSnapshot sid s (GetInsightsScan js sid insightsTopGroups db))"

definition SnapshotGroups :: "json_codec \<Rightarrow> log_service \<Rightarrow> GroupsQuery \<Rightarrow> snap_state \<Rightarrow> GroupPage reply" where
  "SnapshotGroups js svc q s =
     (case snapshotStore svc s of
        Inl e \<Rightarrow> Replied (Inl e)
      | Inr db \<Rightarrow>
          (let order = (if gq_Order q = [] then ''sum'' else gq_Order q)
           in if order \<notin> {''sum'', ''max'', ''count''} then Replied (Inl (BadOrder order))
              else
                (let (n, off) = pageBounds (gq_Limit q) (gq_Offset q)
                 in awaitSnapshot (gq_ScanID q) s (ListInsightsGroups js (q\<lparr>gq_Order := order, gq_Limit := n, gq_Offset := off\<rparr>) db))))"

definition SnapshotGroup :: "json_codec \<Rightarrow> log_service \<Rightarrow> uuid \<Rightarrow> int \<Rightarrow> snap_state \<Rightarrow> PlanGroup reply" where
  "SnapshotGroup js svc sid ord s =
     (case snapshotStore svc s of
        Inl e \<Rightarrow> Replied (Inl e)
      | Inr db \<Rightarrow>
          if ord < 0 then Replied (Inl (BadOrdinal ord))
          else awaitSnapshot sid s (GetInsightsGroup js sid ord db))"

section \<open>Endpoints that take scans\<close>

definition new_scan :: "string \<Rightarrow> string \<Rightarrow> string \<Rightarrow> string \<Rightarrow> time \<Rightarrow> time \<Rightarrow> ScanResult \<Rightarrow> log_Scan" where
  "new_scan kind cluster stream host from till res =
     \<lparr>sc_ID = uuid_Nil, sc_Kind = kind, sc_Cluster = cluster, sc_Stream = stream, sc_Host = host, sc_From = from, sc_To = till,
      sc_CreatedAt = zero_time, sc_Result = res\<rparr>"

definition Insights ::
  "decoder \<Rightarrow> (string \<Rightarrow> string) \<Rightarrow> uuid \<Rightarrow> time \<Rightarrow> log_service \<Rightarrow> InsightsQuery \<Rightarrow> snap_state \<Rightarrow> (log_error + ScanResult) \<times> snap_state" where
  "Insights dec sha nid now svc q s =
     (case read_insights dec sha svc q of
        Inl e \<Rightarrow> (Inl e, s)
      | Inr (res, ranked) \<Rightarrow>
          (case saveScan nid now (new_scan ScanInsights (iq_Cluster q) (iq_Stream q) (iq_Host q) (iq_From q) (iq_To q) res) ranked s of
             (sid, s') \<Rightarrow> (Inr (res\<lparr>sx_ScanID := sid\<rparr>), s')))"

definition svc_Plans ::
  "decoder \<Rightarrow> (string \<Rightarrow> string) \<Rightarrow> uuid \<Rightarrow> time \<Rightarrow> log_service \<Rightarrow> PlansQuery \<Rightarrow> snap_state \<Rightarrow> (log_error + ScanResult) \<times> snap_state" where
  "svc_Plans dec sha nid now svc q s =
     (case read_plans dec sha svc q of
        Inl e \<Rightarrow> (Inl e, s)
      | Inr (res, ranked) \<Rightarrow>
          (case saveScan nid now (new_scan ScanPlans (pq_Cluster q) (pq_Stream q) (pq_Host q) (pq_From q) (pq_To q) res) ranked s of
             (sid, s') \<Rightarrow> (Inr (res\<lparr>sx_ScanID := sid\<rparr>), s')))"

section \<open>The endpoint that compares\<close>

record CompareQuery =
  cq_Plans :: PlansQuery
  cq_BaseFrom :: time
  cq_BaseTo :: time
  cq_ScanID :: uuid

record ComparedWindow =
  cw_From :: time
  cw_To :: time
  cw_Result :: ScanResult

record CompareResult =
  cr_Current :: ComparedWindow
  cr_Baseline :: "ComparedWindow option"
  cr_Partial :: bool
  cr_Regressions :: "Regression list"

record currentSide =
  cu_window :: ComparedWindow
  cu_rows :: "GroupRow list"
  cu_host :: string
  cu_logging :: planLogging
  cu_indexesKnown :: bool

definition validateCompare :: "Cluster \<Rightarrow> FieldMap \<Rightarrow> CompareQuery \<Rightarrow> log_error option" where
  "validateCompare c fm q =
     (let p = cq_Plans q
      in case validateWindow c (cq_BaseFrom q) (cq_BaseTo q) (pq_Host p) of
           Some e \<Rightarrow> Some e
         | None \<Rightarrow> (case validateQueryIDRole fm p of
               Some e \<Rightarrow> Some e
             | None \<Rightarrow>
                 if cq_ScanID q = uuid_Nil then validateWindow c (pq_From p) (pq_To p) (pq_Host p)
                 else if pq_From p \<noteq> zero_time \<or> pq_To p \<noteq> zero_time then Some WindowWithScan
                 else None))"

definition recordsIndexes :: "GroupRow list \<Rightarrow> bool" where
  "recordsIndexes rows \<longleftrightarrow> list_ex (\<lambda>r. gr_Indexes r \<noteq> None) rows"

definition scanCovers :: "CompareQuery \<Rightarrow> log_Scan \<Rightarrow> log_error option" where
  "scanCovers q sn =
     (if sc_Cluster sn \<noteq> pq_Cluster (cq_Plans q) \<or> sc_Stream sn \<noteq> pq_Stream (cq_Plans q)
      then Some (ScanOfOther (sc_Cluster sn) (sc_Stream sn))
      else if pq_Host (cq_Plans q) \<noteq> [] \<and> pq_Host (cq_Plans q) \<noteq> sc_Host sn then Some (ScanOfHost (sc_Host sn))
      else None)"

definition ofStatement :: "GroupRow list \<Rightarrow> PlansQuery \<Rightarrow> GroupRow list" where
  "ofStatement rows q =
     (if \<not> pq_HasQueryID q then rows else filter (\<lambda>r. gr_HasQueryID r \<and> gr_QueryID r = pq_QueryID q) rows)"

definition withoutGroups :: "ScanResult \<Rightarrow> ScanResult" where
  "withoutGroups res = res\<lparr>sx_Plans := (sx_Plans res)\<lparr>sm_Groups := []\<rparr>\<rparr>"

definition groupRows :: "PlanGroup list \<Rightarrow> GroupRow list" where
  "groupRows groups = map group_Row groups"

definition pageOfRegressions :: "Regression list \<Rightarrow> int \<Rightarrow> Regression list" where
  "pageOfRegressions rs n = (if n < int (length rs) then take (nat n) rs else rs)"

definition storedWindow :: "json_codec \<Rightarrow> log_service \<Rightarrow> Cluster \<Rightarrow> CompareQuery \<Rightarrow> snap_state \<Rightarrow> currentSide reply" where
  "storedWindow js svc c q s =
     (case snapshotStore svc s of
        Inl e \<Rightarrow> Replied (Inl e)
      | Inr db \<Rightarrow> awaitSnapshot (cq_ScanID q) s
          (case GetInsightsScan js (cq_ScanID q) 0 db of
             Inl e \<Rightarrow> Inl e
           | Inr sn \<Rightarrow> (case scanCovers q sn of
                 Some e \<Rightarrow> Inl e
               | None \<Rightarrow> (case AllInsightsGroups js (cq_ScanID q) db of
                     Inl e \<Rightarrow> Inl e
                   | Inr rows \<Rightarrow>
                       Inr \<lparr>cu_window = \<lparr>cw_From = sc_From sn, cw_To = sc_To sn, cw_Result = sc_Result sn\<rparr>,
                            cu_rows = ofStatement rows (cq_Plans q), cu_host = sc_Host sn,
                            cu_logging = svc_planLogging svc c (sc_Host sn), cu_indexesKnown = recordsIndexes rows\<rparr>))))"

definition save_window ::
  "uuid \<Rightarrow> time \<Rightarrow> PlansQuery \<Rightarrow> ScanResult \<Rightarrow> PlanGroup list \<Rightarrow> snap_state \<Rightarrow> ScanResult \<times> snap_state" where
  "save_window nid now q res groups s =
     (case saveScan nid now (new_scan ScanCompare (pq_Cluster q) (pq_Stream q) (pq_Host q) (pq_From q) (pq_To q) res) groups s of
        (sid, s') \<Rightarrow> (res\<lparr>sx_ScanID := sid\<rparr>, s'))"

definition currentWindow ::
  "decoder \<Rightarrow> (string \<Rightarrow> string) \<Rightarrow> json_codec \<Rightarrow> uuid \<Rightarrow> time \<Rightarrow> log_service \<Rightarrow> Cluster \<times> Provider \<times> string \<times> FieldMap \<Rightarrow> CompareQuery
    \<Rightarrow> snap_state \<Rightarrow> currentSide reply \<times> snap_state" where
  "currentWindow dec sha js nid now svc b q s =
     (if cq_ScanID q \<noteq> uuid_Nil then (storedWindow js svc (fst b) q s, s)
      else
        (let p = cq_Plans q; logging = svc_planLogging svc (fst b) (pq_Host p)
         in case scanPlans dec sha (lsv_insights svc) b p logging of
              Inl e \<Rightarrow> (Replied (Inl e), s)
            | Inr (res, groups) \<Rightarrow>
                (case save_window nid now p res groups s of (res, s') \<Rightarrow>
                   (Replied (Inr \<lparr>cu_window = \<lparr>cw_From = pq_From p, cw_To = pq_To p, cw_Result = withoutGroups res\<rparr>,
                                  cu_rows = groupRows groups, cu_host = pq_Host p, cu_logging = logging, cu_indexesKnown = True\<rparr>), s'))))"

definition compare_baseline ::
  "decoder \<Rightarrow> (string \<Rightarrow> string) \<Rightarrow> uuid \<Rightarrow> time \<Rightarrow> log_service \<Rightarrow> Cluster \<times> Provider \<times> string \<times> FieldMap \<Rightarrow> CompareQuery \<Rightarrow> currentSide
    \<Rightarrow> snap_state \<Rightarrow> CompareResult reply \<times> snap_state" where
  "compare_baseline dec sha nid now svc b q cur s =
     (let base = (cq_Plans q)\<lparr>pq_From := cq_BaseFrom q, pq_To := cq_BaseTo q, pq_Host := cu_host cur\<rparr>
      in case scanPlans dec sha (lsv_insights svc) b base (cu_logging cur) of
           Inl e \<Rightarrow> (Replied (Inl e), s)
         | Inr (res, groups) \<Rightarrow>
             (case save_window nid now base res groups s of (res, s') \<Rightarrow>
                (Replied (Inr \<lparr>cr_Current = cu_window cur,
                  cr_Baseline = Some \<lparr>cw_From = pq_From base, cw_To = pq_To base, cw_Result = withoutGroups res\<rparr>,
                  cr_Partial = (sx_Partial (cw_Result (cu_window cur)) \<or> sx_Partial res),
                  cr_Regressions = pageOfRegressions (Compare (cu_rows cur) (groupRows groups) (cu_indexesKnown cur))
                    (planGroupLimit (pq_Limit (cq_Plans q)))\<rparr>), s')))"

definition svc_Compare ::
  "decoder \<Rightarrow> (string \<Rightarrow> string) \<Rightarrow> json_codec \<Rightarrow> uuid \<times> time \<Rightarrow> uuid \<times> time \<Rightarrow> log_service \<Rightarrow> CompareQuery \<Rightarrow> snap_state
    \<Rightarrow> CompareResult reply \<times> snap_state" where
  "svc_Compare dec sha js st1 st2 svc q s =
     (if \<not> ic_IsEnabled (lsv_insights svc) then (Replied (Inl ErrDisabled), s)
      else case log_resolve (lsv_clusters svc) (lsv_sources svc) (pq_Cluster (cq_Plans q)) (pq_Stream (cq_Plans q)) of
        Inl e \<Rightarrow> (Replied (Inl e), s)
      | Inr b \<Rightarrow> (case validateCompare (fst b) (snd (snd (snd b))) q of
            Some e \<Rightarrow> (Replied (Inl e), s)
          | None \<Rightarrow> (case currentWindow dec sha js (fst st1) (snd st1) svc b q s of
                (Waits, s') \<Rightarrow> (Waits, s')
              | (Replied (Inl e), s') \<Rightarrow> (Replied (Inl e), s')
              | (Replied (Inr cur), s') \<Rightarrow>
                  if cu_rows cur = []
                  then (Replied (Inr \<lparr>cr_Current = cu_window cur, cr_Baseline = None,
                         cr_Partial = sx_Partial (cw_Result (cu_window cur)), cr_Regressions = []\<rparr>), s')
                  else compare_baseline dec sha (fst st2) (snd st2) svc b q cur s')))"

end
