(* ===== verification/Log_Snapshots_Sound.thy ===== *)
theory Log_Snapshots_Sound
  imports Log_Snapshots
begin

text \<open>
  Stored scans over every run of the service: writes in any order, failures and the daily
  truncation included. A read waits for a write under way and otherwise finds the whole scan or
  none of it, the groups it returns are those of the answer, and pages list every group once.
\<close>

section \<open>Runs\<close>

text \<open>The scans the service accepted, latest first, and the state it is in. Identifiers are fresh.\<close>

inductive snap_run :: "json_codec \<Rightarrow> (uuid \<times> scan_job) list \<Rightarrow> snap_state \<Rightarrow> bool" for js where
  start: "snap_run js [] \<lparr>sn_store = Some \<lparr>db_scans = [], db_groups = []\<rparr>, sn_pending = []\<rparr>"
| skipped: "snap_run js hist s \<Longrightarrow> saveScan nid now sn groups s = (uuid_Nil, s') \<Longrightarrow> nid \<noteq> uuid_Nil \<Longrightarrow> snap_run js hist s'"
| saved: "snap_run js hist s \<Longrightarrow> saveScan nid now sn groups s = (nid, s') \<Longrightarrow> nid \<noteq> uuid_Nil \<Longrightarrow> nid \<notin> fst ` set hist \<Longrightarrow>
    snap_run js ((nid, stamp_scan nid now sn, groups) # hist) s'"
| written: "snap_run js hist s \<Longrightarrow> snap_run js hist (writeSnapshot js fails sid s)"
| truncated: "snap_run js hist s \<Longrightarrow> snap_run js hist (s\<lparr>sn_store := map_option TruncateInsightsScans (sn_store s)\<rparr>)"

definition stored_whole :: "json_codec \<Rightarrow> uuid \<Rightarrow> scan_job \<Rightarrow> insights_db \<Rightarrow> bool" where
  "stored_whole js sid = (\<lambda>(sn, groups) db.
     groups_rows js sid groups = Some (of_scan sid db)
     \<and> (case js_Result js (sc_Result sn) of None \<Rightarrow> False
        | Some summary \<Rightarrow> find (\<lambda>r. tr_scan_id r = sid) (db_scans db) = Some (scans_row_of sn summary)))"

definition stored_none :: "uuid \<Rightarrow> insights_db \<Rightarrow> bool" where
  "stored_none sid db \<longleftrightarrow> of_scan sid db = [] \<and> find (\<lambda>r. tr_scan_id r = sid) (db_scans db) = None"

definition snap_inv :: "json_codec \<Rightarrow> (uuid \<times> scan_job) list \<Rightarrow> snap_state \<Rightarrow> bool" where
  "snap_inv js hist s \<longleftrightarrow>
     length (sn_pending s) \<le> maxPendingSnapshots \<and> distinct (map fst (sn_pending s))
     \<and> distinct (map fst hist) \<and> (\<forall>sid job. (sid, job) \<in> set hist \<longrightarrow> sc_ID (fst job) = sid)
     \<and> set (sn_pending s) \<subseteq> set hist
     \<and> (\<exists>db. sn_store s = Some db
          \<and> (\<forall>sid. sid \<notin> fst ` set hist \<or> sid \<in> fst ` set (sn_pending s) \<longrightarrow> stored_none sid db)
          \<and> (\<forall>sid job. (sid, job) \<in> set hist \<longrightarrow> stored_whole js sid job db \<or> stored_none sid db))"

lemma save_keeps_others:
  assumes "SaveInsightsScan js sn groups db = Inr db'" and "sid \<noteq> sc_ID sn"
  shows "of_scan sid db' = of_scan sid db"
    and "find (\<lambda>r. tr_scan_id r = sid) (db_scans db') = find (\<lambda>r. tr_scan_id r = sid) (db_scans db)"
proof -
  obtain rs summary where rs: "groups_rows js (sc_ID sn) groups = Some rs"
    and db': "db' = \<lparr>db_scans = db_scans db @ [scans_row_of sn summary], db_groups = db_groups db @ rs\<rparr>"
    using assms(1) by (auto simp: SaveInsightsScan_def split: option.splits if_splits)
  have "filter (\<lambda>r. tg_scan_id r = sid) rs = []"
    using groups_rows_columns(3) [OF rs] assms(2) by (auto simp: list_all_iff filter_empty_conv)
  then show "of_scan sid db' = of_scan sid db" by (simp add: of_scan_def db')
  show "find (\<lambda>r. tr_scan_id r = sid) (db_scans db') = find (\<lambda>r. tr_scan_id r = sid) (db_scans db)"
    using assms(2) by (simp add: db' find_append scans_row_of_def split: option.split)
qed

lemma save_stores_whole:
  assumes "SaveInsightsScan js sn groups db = Inr db'" and "stored_none (sc_ID sn) db"
  shows "stored_whole js (sc_ID sn) (sn, groups) db'"
proof -
  have "of_scan (sc_ID sn) db = []" using assms(2) by (simp add: stored_none_def)
  then show ?thesis by (rule saved_rows [OF assms(1)]) (simp add: stored_whole_def)
qed

lemma released_jobs:
  "length (sn_pending (releaseSnapshot sid t)) \<le> length (sn_pending t)"
  "distinct (map fst (sn_pending t)) \<Longrightarrow> distinct (map fst (sn_pending (releaseSnapshot sid t)))"
  "set (sn_pending (releaseSnapshot sid t)) \<subseteq> set (sn_pending t)"
  "fst ` set (sn_pending (releaseSnapshot sid t)) = fst ` set (sn_pending t) - {sid}"
  "sn_store (releaseSnapshot sid t) = sn_store t"
  by (auto simp: releaseSnapshot_def length_delete_le distinct_delete) (force simp: AList.delete_eq)+

lemma snap_inv_written:
  assumes "snap_inv js hist s"
  shows "snap_inv js hist (writeSnapshot js fails sid s)"
proof -
  obtain db where db: "sn_store s = Some db"
      "\<And>i. i \<notin> fst ` set hist \<or> i \<in> fst ` set (sn_pending s) \<Longrightarrow> stored_none i db"
      "\<And>i job. (i, job) \<in> set hist \<Longrightarrow> stored_whole js i job db \<or> stored_none i db"
    using assms unfolding snap_inv_def by blast
  show ?thesis
  proof (cases "map_of (sn_pending s) sid")
    case None
    then show ?thesis using assms by (simp add: writeSnapshot_def)
  next
    case (Some job)
    obtain sn groups where job: "job = (sn, groups)" by fastforce
    have pend: "(sid, sn, groups) \<in> set (sn_pending s)" using Some job by (auto dest: map_of_SomeD)
    then have hist: "(sid, sn, groups) \<in> set hist" and sid: "sc_ID sn = sid" using assms unfolding snap_inv_def by fastforce+
    have none: "stored_none sid db" using db(2) pend by force
    note rel = released_jobs [where sid = sid]
    have released: "snap_inv js hist (releaseSnapshot sid s)"
    proof -
      have "length (sn_pending (releaseSnapshot sid s)) \<le> maxPendingSnapshots" "set (sn_pending (releaseSnapshot sid s)) \<subseteq> set hist"
        using assms rel(1,3) [where t = s] unfolding snap_inv_def by (meson le_trans, blast)
      then show ?thesis using assms rel(2,4,5) [where t = s] db unfolding snap_inv_def by simp
    qed
    show ?thesis
    proof (cases "SaveInsightsScan js sn groups db")
      case (Inl e)
      then show ?thesis using released by (simp add: writeSnapshot_def Some job db(1))
    next
      case (Inr db')
      have others: "of_scan i db' = of_scan i db" "find (\<lambda>r. tr_scan_id r = i) (db_scans db') = find (\<lambda>r. tr_scan_id r = i) (db_scans db)"
        if "i \<noteq> sid" for i using save_keeps_others [OF Inr, of i] that sid by simp_all
      have whole: "stored_whole js sid (sn, groups) db'" using save_stores_whole [OF Inr] none sid by simp
      have same: "stored_none i db' = stored_none i db" "stored_whole js i j db' = stored_whole js i j db" if "i \<noteq> sid" for i j
        by (simp_all add: stored_none_def stored_whole_def others [OF that] split: prod.split option.split)
      have uniq: "j = (sn, groups)" if "(sid, j) \<in> set hist" for j
        using that hist assms eq_key_imp_eq_value [of hist sid j] unfolding snap_inv_def by metis
      have "snap_inv js hist (releaseSnapshot sid (s\<lparr>sn_store := Some db'\<rparr>))"
      proof -
        have "stored_none i db'" if "i \<notin> fst ` set hist \<or> i \<in> fst ` set (sn_pending s) - {sid}" for i
          using that hist db(2) [of i] same(1) [of i] by (cases "i = sid") force+
        moreover have "stored_whole js i j db' \<or> stored_none i db'" if "(i, j) \<in> set hist" for i j
          using that whole uniq db(3) [of i j] same(1) [of i] same(2) [of i j] by (cases "i = sid") auto
        ultimately show ?thesis using released rel unfolding snap_inv_def by (simp add: releaseSnapshot_def)
      qed
      then show ?thesis using released by (simp add: writeSnapshot_def Some job db(1) Inr)
    qed
  qed
qed

lemma update_append_fresh: "k \<notin> fst ` set al \<Longrightarrow> AList.update k v al = al @ [(k, v)]"
  by (induction al) auto

lemma sc_ID_stamp [simp]: "sc_ID (stamp_scan nid now sn) = nid"
  by (simp add: stamp_scan_def)

lemma snap_inv_saved:
  assumes "snap_inv js hist s" and "saveScan nid now sn groups s = (nid, s')" and "nid \<noteq> uuid_Nil" and "nid \<notin> fst ` set hist"
  shows "snap_inv js ((nid, stamp_scan nid now sn, groups) # hist) s'"
proof -
  let ?job = "(stamp_scan nid now sn, groups)"
  have s': "s' = s\<lparr>sn_pending := AList.update nid ?job (sn_pending s)\<rparr>" "length (sn_pending s) < maxPendingSnapshots"
    using assms(2,3) by (auto simp: saveScan_def trackSnapshot_def not_le split: option.splits if_splits)
  have "nid \<notin> fst ` set (sn_pending s)" using assms(1,4) unfolding snap_inv_def by auto
  then have p: "AList.update nid ?job (sn_pending s) = sn_pending s @ [(nid, ?job)]" by (rule update_append_fresh)
  show ?thesis using assms s'(2) \<open>nid \<notin> fst ` set (sn_pending s)\<close> unfolding snap_inv_def s'(1)
    by (auto simp: p)
qed

lemma snap_run_inv: "snap_run js hist s \<Longrightarrow> snap_inv js hist s"
proof (induction rule: snap_run.induct)
  case start
  then show ?case by (simp add: snap_inv_def stored_none_def of_scan_def)
next
  case (skipped hist s nid now sn groups s')
  then have "s' = s" by (auto simp: saveScan_def split: option.splits)
  then show ?case using skipped by simp
next
  case (saved hist s nid now sn groups s')
  then show ?case using snap_inv_saved by blast
next
  case (written hist s fails sid)
  then show ?case using snap_inv_written by blast
next
  case (truncated hist s)
  then show ?case by (auto simp: snap_inv_def TruncateInsightsScans_def stored_none_def of_scan_def)
qed

section \<open>Reads\<close>

text \<open>What a reply to a read of an accepted scan may be.\<close>

definition whole_or_none :: "json_codec \<Rightarrow> uuid \<Rightarrow> scan_job \<Rightarrow> log_error + GroupRow list \<Rightarrow> bool" where
  "whole_or_none js sid = (\<lambda>(sn, groups) reply.
     reply = Inl (StorageFailed ''unmarshal plan group'') \<or> reply = Inr [] \<or>
     (case reply of Inl _ \<Rightarrow> False | Inr rows \<Rightarrow> map Some rows = map (\<lambda>g. js_toRow js (the (js_Row js (group_Row g)))) groups))"

lemma groups_rows_read:
  assumes "groups_rows js sid groups = Some rs"
  shows "map (js_toRow js \<circ> tg_group_row) rs = map (\<lambda>g. js_toRow js (the (js_Row js (group_Row g)))) groups"
proof (rule nth_equalityI)
  note nth = groups_rows_nth [OF assms]
  show "length (map (js_toRow js \<circ> tg_group_row) rs) = length (map (\<lambda>g. js_toRow js (the (js_Row js (group_Row g)))) groups)"
    using nth by simp
  fix i
  assume "i < length (map (js_toRow js \<circ> tg_group_row) rs)"
  then have i: "i < length groups" "i < length rs" using nth by simp_all
  then have "groups_row_of js sid (groups ! i) = Some (rs ! i)" using nth by blast
  then have "js_Row js (group_Row (groups ! i)) = Some (tg_group_row (rs ! i))" by (simp add: groups_row_of_simps)
  then show "map (js_toRow js \<circ> tg_group_row) rs ! i = map (\<lambda>g. js_toRow js (the (js_Row js (group_Row g)))) groups ! i"
    using i by simp
qed

lemma stored_whole_read:
  assumes "stored_whole js sid job db" and "map pg_Ord (snd job) = [0..<length (snd job)]"
  shows "whole_or_none js sid job (AllInsightsGroups js sid db)"
proof -
  obtain sn groups where job: "job = (sn, groups)" by fastforce
  have rs: "groups_rows js sid groups = Some (of_scan sid db)" using assms(1) by (simp add: stored_whole_def job)
  have "sorted (map tg_ord (of_scan sid db))" using groups_rows_columns(1) [OF rs] assms(2) by (simp add: job)
  then have "sort_key tg_ord (of_scan sid db) = of_scan sid db" by (rule sort_key_id_if_sorted)
  then show ?thesis using groups_rows_read [OF rs] decode_all_Some
    by (fastforce simp: AllInsightsGroups_def whole_or_none_def job split: option.splits)
qed

text \<open>
  C39: A read of a stored scan never sees part of it. In every run, with writes under way in any
  order, failing writes and truncations, no more than eight writes are pending; a read of an
  accepted scan waits exactly while its write is pending; after that it is not found, or all its
  groups are in the store: a read of the groups gives none of them or every one, in the order of
  the ranking.
\<close>

theorem stored_scans_are_whole:
  assumes "snap_run js hist s" and "(sid, job) \<in> set hist" and "ic_IsEnabled (lsv_insights svc)"
    and "map pg_Ord (snd job) = [0..<length (snd job)]"
  shows "length (sn_pending s) \<le> 8 \<and> (svc_Snapshot js svc sid s = Waits \<longleftrightarrow> sid \<in> fst ` set (sn_pending s))
    \<and> (\<exists>db. sn_store s = Some db \<and> whole_or_none js sid job (AllInsightsGroups js sid db)
         \<and> (stored_whole js sid job db \<or> GetInsightsScan js sid 10 db = Inl ErrNotFound))"
proof -
  have inv: "snap_inv js hist s" by (rule snap_run_inv [OF assms(1)])
  then obtain db where db: "sn_store s = Some db" "stored_whole js sid job db \<or> stored_none sid db"
    using assms(2) unfolding snap_inv_def by blast
  have "length (sn_pending s) \<le> 8" using inv by (simp add: snap_inv_def maxPendingSnapshots_def)
  moreover have "svc_Snapshot js svc sid s = Waits \<longleftrightarrow> sid \<in> fst ` set (sn_pending s)"
    using assms(3) by (auto simp: svc_Snapshot_def snapshotStore_def db(1) awaitSnapshot_def map_of_eq_None_iff)
  moreover have "whole_or_none js sid job (AllInsightsGroups js sid db)"
    using db(2) stored_whole_read [OF _ assms(4)]
    by (auto simp: stored_none_def AllInsightsGroups_def whole_or_none_def split: prod.split)
  moreover have "stored_none sid db \<Longrightarrow> GetInsightsScan js sid 10 db = Inl ErrNotFound"
    by (simp add: stored_none_def GetInsightsScan_def)
  ultimately show ?thesis using db by blast
qed

text \<open>
  C40: A stored scan of insights repeats the answer it was taken from. In every run, a reply to a
  read of the scan has the identifier, window, cluster, stream and host it was saved with, and its
  groups are those the answer carried, in the same order, each as it is written to its row and read
  from it: the window functions of the query select what the two rankings in turn had selected.
\<close>

theorem snapshot_repeats_the_answer:
  assumes "snap_run js hist s" and "(sid, sn, ranked) \<in> set hist"
    and "scan_insights dec sha cfg (recs, fin) stream fm diag = Inr (r, ranked)"
    and "svc_Snapshot js svc sid s = Replied (Inr sn')"
  shows "\<exists>res gs. Option.bind (js_Result js (sc_Result sn)) (js_toResult js) = Some res \<and> sn' = with_groups gs (sn\<lparr>sc_Result := res\<rparr>)
    \<and> map Some gs = map (reread js sid) (sm_Groups (sx_Plans r))"
proof -
  have inv: "snap_inv js hist s" by (rule snap_run_inv [OF assms(1)])
  then obtain db where db: "sn_store s = Some db" "stored_whole js sid (sn, ranked) db \<or> stored_none sid db" and sid: "sc_ID sn = sid"
    using assms(2) unfolding snap_inv_def by fastforce
  have get: "GetInsightsScan js sid 10 db = Inr sn'"
    using assms(4) by (auto simp: svc_Snapshot_def snapshotStore_def db(1) awaitSnapshot_def insightsTopGroups_def split: if_splits)
  then have "\<not> stored_none sid db" by (auto simp: GetInsightsScan_def stored_none_def split: option.splits)
  then obtain summary where w: "groups_rows js (sc_ID sn) ranked = Some (of_scan (sc_ID sn) db)" "js_Result js (sc_Result sn) = Some summary"
      "find (\<lambda>r. tr_scan_id r = sc_ID sn) (db_scans db) = Some (scans_row_of sn summary)"
    using db(2) by (auto simp: stored_whole_def sid split: option.splits)
  note rk = insights_ranking [OF assms(3)]
  have "\<exists>res gs. js_toResult js summary = Some res \<and> sn' = with_groups gs (sn\<lparr>sc_Result := res\<rparr>)
      \<and> map Some gs = map (reread js (sc_ID sn)) (TopGroups ranked (int 10))"
    by (rule stored_scan_repeats [OF w(1,3)]) (use rk get sid in simp_all)
  then show ?thesis using rk by (simp add: w(2) sid)
qed

section \<open>Pages\<close>

lemma concat_pages: "concat (map (\<lambda>k. take l (drop (k * l) xs)) [0..<m]) = take (m * l) xs"
proof (induction m)
  case (Suc m)
  then show ?case by (simp add: take_add add.commute [of l])
qed simp

definition listing :: "GroupsQuery \<Rightarrow> GroupsQuery" where
  "listing q = q\<lparr>gq_Order := (if gq_Order q = [] then ''sum'' else gq_Order q)\<rparr>"

lemma listed_rows_bounds [simp]: "listed_rows js (q\<lparr>gq_Limit := n, gq_Offset := off\<rparr>) db = listed_rows js q db"
proof -
  have "listed_row js (q\<lparr>gq_Limit := n, gq_Offset := off\<rparr>) = listed_row js q" by (simp add: fun_eq_iff listed_row_def)
  then show ?thesis by (simp add: listed_rows_def)
qed

lemma SnapshotGroups_page:
  assumes "SnapshotGroups js svc (q\<lparr>gq_Limit := int l, gq_Offset := int off\<rparr>) s = Replied (Inr page)" and "0 < l" and "l \<le> 1000"
    and "sn_store s = Some db"
  shows "gp_Total page = length (listed_rows js (listing q) db)
    \<and> map Some (gp_Rows page) = map (js_toRow js \<circ> tg_group_row) (take l (drop off (listed_rows js (listing q) db)))"
proof -
  have b: "pageBounds (int l) (int off) = (int l, int off)" using assms(2,3) by (simp add: pageBounds_def maxGroupPageSize_def)
  have e: "(q\<lparr>gq_Limit := int l, gq_Offset := int off\<rparr>)\<lparr>gq_Order := od, gq_Limit := int l, gq_Offset := int off\<rparr> =
      q\<lparr>gq_Order := od\<rparr>\<lparr>gq_Limit := int l, gq_Offset := int off\<rparr>" for od by simp
  have "ListInsightsGroups js ((listing q)\<lparr>gq_Limit := int l, gq_Offset := int off\<rparr>) db = Inr page"
    using assms(1) by (auto simp: SnapshotGroups_def snapshotStore_def assms(4) awaitSnapshot_def b listing_def Let_def
        split: if_splits)
  then show ?thesis using decode_all_Some by (fastforce simp: ListInsightsGroups_def split: if_splits option.splits)
qed

text \<open>
  Pages of a stored scan list every group once. A client that asks for pages of one size until
  they cover the total gets, put together, exactly the groups of the scan that the filters keep, in
  the order asked for, none twice; and every page tells their number.
\<close>

theorem pages_list_every_group_once:
  assumes "sn_store s = Some db" and "0 < l" and "l \<le> 1000" and "0 < m"
    and "\<And>k. k < m \<Longrightarrow> SnapshotGroups js svc (q\<lparr>gq_Limit := int l, gq_Offset := int (k * l)\<rparr>) s = Replied (Inr (page k))"
    and "gp_Total (page 0) \<le> m * l"
  shows "map Some (concat (map (\<lambda>k. gp_Rows (page k)) [0..<m])) = map (js_toRow js \<circ> tg_group_row) (listed_rows js (listing q) db)
    \<and> mset (listed_rows js (listing q) db) = mset (filter (listed_row js q) (of_scan (gq_ScanID q) db))
    \<and> list_all (\<lambda>k. gp_Total (page k) = length (listed_rows js (listing q) db)) [0..<m]"
proof -
  let ?xs = "listed_rows js (listing q) db"
  note p = SnapshotGroups_page [OF assms(5) assms(2,3,1)]
  have "length ?xs \<le> m * l" using p [of 0] assms(4,6) by simp
  have "map Some (concat (map (\<lambda>k. gp_Rows (page k)) [0..<m])) = concat (map (\<lambda>k. map Some (gp_Rows (page k))) [0..<m])"
    by (simp add: map_concat o_def)
  also have "\<dots> = concat (map (\<lambda>k. map (js_toRow js \<circ> tg_group_row) (take l (drop (k * l) ?xs))) [0..<m])"
    by (intro arg_cong [where f = concat] map_cong refl) (use p in auto)
  also have "\<dots> = map (js_toRow js \<circ> tg_group_row) (concat (map (\<lambda>k. take l (drop (k * l) ?xs)) [0..<m]))"
    by (simp only: map_concat map_map o_def)
  also have "\<dots> = map (js_toRow js \<circ> tg_group_row) ?xs" using \<open>length ?xs \<le> m * l\<close> by (simp add: concat_pages)
  finally have "map Some (concat (map (\<lambda>k. gp_Rows (page k)) [0..<m])) = map (js_toRow js \<circ> tg_group_row) ?xs" .
  moreover have "listed_row js (listing q) = listed_row js q" by (simp add: fun_eq_iff listed_row_def listing_def)
  then have "mset ?xs = mset (filter (listed_row js q) (of_scan (gq_ScanID q) db))" by (simp add: listed_rows_def listing_def)
  moreover have "list_all (\<lambda>k. gp_Total (page k) = length ?xs) [0..<m]" using p by (simp add: list_all_iff)
  ultimately show ?thesis by blast
qed

end
