(* ===== verification/Log_Snapshots_Demo.thy ===== *)
theory Log_Snapshots_Demo
  imports Log_Snapshots_Sound
begin

text \<open>
  A run of the service that stores the scan of one window, with a codec that keeps the rank of a
  group: the theorems on stored scans at work.
\<close>

definition blank_result :: ScanResult where
  "blank_result =
     \<lparr>sx_ScanID = uuid_Nil, sx_Scanned = 0, sx_Partial = False, sx_PartialReasons = [], sx_Covered = zero_Span,
      sx_PlansCovered = zero_Span, sx_NarrowedBy = [], sx_Categories = [],
      sx_Plans = plans_Summary (NewPlans (plan_limits default_budget)) (planContext no_diagnosis), sx_PlanRecords = 0,
      sx_EmptyReason = [], sx_Configuration = None\<rparr>"

definition rank_codec :: json_codec where
  "rank_codec =
     \<lparr>js_Result = (\<lambda>_. Some []), js_toResult = (\<lambda>_. Some blank_result),
      js_Row = (\<lambda>r. Some (replicate (gr_Ord r) (CHR ''x''))),
      js_toRow = (\<lambda>t. Some ((group_Row (sample_group (Fin 1)))\<lparr>gr_Ord := length t\<rparr>)),
      js_Plan = (\<lambda>_. Some []), js_toPlan = (\<lambda>_. Some nested_plan), js_Findings = (\<lambda>_. 0)\<rparr>"

definition demo_service :: log_service where
  "demo_service =
     \<lparr>lsv_cfg = sample_cfg, lsv_insights = default_budget, lsv_clusters = Some [demo_cluster ''main''], lsv_sources = sample_sources,
      lsv_settings = None\<rparr>"

definition empty_db :: insights_db where "empty_db = \<lparr>db_scans = [], db_groups = []\<rparr>"

definition demo_scan :: log_Scan where
  "demo_scan = stamp_scan 7 1000 (new_scan ScanInsights ''main'' ''postgresql'' [] 0 5000 blank_result)"

definition demo_pending :: "PlanGroup list \<Rightarrow> snap_state" where
  "demo_pending groups = \<lparr>sn_store = Some empty_db, sn_pending = [(7, demo_scan, groups)]\<rparr>"

lemma demo_enabled: "ic_IsEnabled (lsv_insights demo_service)"
  by (simp add: demo_service_def default_budget_def ic_WithDefaults_def ic_IsEnabled_def)

lemma demo_run_pending: "snap_run rank_codec [(7, demo_scan, groups)] (demo_pending groups)"
proof -
  have "saveScan 7 1000 (new_scan ScanInsights ''main'' ''postgresql'' [] 0 5000 blank_result) groups
      \<lparr>sn_store = Some \<lparr>db_scans = [], db_groups = []\<rparr>, sn_pending = []\<rparr> = (7, demo_pending groups)"
    by (simp add: saveScan_def trackSnapshot_def maxPendingSnapshots_def demo_pending_def demo_scan_def empty_db_def)
  from snap_run.saved [OF snap_run.start this] show ?thesis by (simp add: demo_scan_def uuid_Nil_def)
qed

lemma rank_codec_rows: "\<exists>rs. groups_rows rank_codec sid groups = Some rs"
  by (induction groups) (auto simp: groups_row_of_def rank_codec_def)

lemma demo_save:
  assumes "map pg_Ord groups = [0..<length groups]"
  obtains db where "SaveInsightsScan rank_codec demo_scan groups empty_db = Inr db"
proof -
  obtain rs where rs: "groups_rows rank_codec (sc_ID demo_scan) groups = Some rs" using rank_codec_rows by blast
  have "distinct (map tg_ord rs)" unfolding groups_rows_columns(1) [OF rs] assms by simp
  then have "distinct (map (\<lambda>r. (tg_scan_id r, tg_ord r)) rs)" by (auto simp: distinct_map inj_on_def)
  then show ?thesis using that rs by (simp add: SaveInsightsScan_def empty_db_def rank_codec_def)
qed

lemma demo_written:
  assumes "map pg_Ord groups = [0..<length groups]"
  obtains db where "snap_run rank_codec [(7, demo_scan, groups)] \<lparr>sn_store = Some db, sn_pending = []\<rparr>"
    and "SaveInsightsScan rank_codec demo_scan groups empty_db = Inr db"
proof -
  obtain db where db: "SaveInsightsScan rank_codec demo_scan groups empty_db = Inr db" by (rule demo_save [OF assms])
  have "writeSnapshot rank_codec False 7 (demo_pending groups) = \<lparr>sn_store = Some db, sn_pending = []\<rparr>"
    by (simp add: writeSnapshot_def demo_pending_def db releaseSnapshot_def)
  then show ?thesis using that db snap_run.written [OF demo_run_pending, of groups False 7] by simp
qed

definition demo_groups :: "PlanGroup list" where
  "demo_groups = [sample_group (Fin 1), (sample_group (Fin 2))\<lparr>pg_Ord := 1\<rparr>]"

lemma demo_groups_numbered: "map pg_Ord demo_groups = [0..<length demo_groups]"
  by (simp add: demo_groups_def sample_group_def)

theorem stored_scans_witness:
  "snap_run rank_codec [(7, demo_scan, demo_groups)] (demo_pending demo_groups)
   \<and> svc_Snapshot rank_codec demo_service 7 (demo_pending demo_groups) = Waits"
  using stored_scans_are_whole [OF demo_run_pending, of 7 "(demo_scan, demo_groups)" demo_groups demo_service]
    demo_run_pending demo_enabled demo_groups_numbered by (simp add: demo_pending_def)

lemma decode_all_total: "(\<And>r. f r \<noteq> None) \<Longrightarrow> decode_all f rs \<noteq> None"
  by (induction rs) (auto split: option.split)

theorem snapshot_repeats_witness:
  "\<exists>r ranked s sn'. scan_insights text_only (\<lambda>s. s) default_budget ([sample_record, plan_line], None) ''postgresql'' sample_map no_diagnosis = Inr (r, ranked)
     \<and> snap_run rank_codec [(7, demo_scan, ranked)] s \<and> svc_Snapshot rank_codec demo_service 7 s = Replied (Inr sn')
     \<and> length (sm_Groups (sx_Plans (sc_Result sn'))) = length (sm_Groups (sx_Plans r))"
proof -
  obtain r ranked where r: "scan_insights text_only (\<lambda>s. s) default_budget ([sample_record, plan_line], None) ''postgresql'' sample_map no_diagnosis = Inr (r, ranked)"
    using insights_answer by blast
  obtain db where db: "snap_run rank_codec [(7, demo_scan, ranked)] \<lparr>sn_store = Some db, sn_pending = []\<rparr>"
      "SaveInsightsScan rank_codec demo_scan ranked empty_db = Inr db"
    using demo_written insights_ranking [OF r] by blast
  let ?s = "\<lparr>sn_store = Some db, sn_pending = []\<rparr>"
  have id: "sc_ID demo_scan = 7" by (simp add: demo_scan_def)
  obtain summary where f: "find (\<lambda>r. tr_scan_id r = 7) (db_scans db) = Some (scans_row_of demo_scan summary)"
    by (rule saved_rows [OF db(2)]) (auto simp: of_scan_def empty_db_def id)
  have "decode_all (insightsGroup rank_codec) rs \<noteq> None" for rs
    by (rule decode_all_total) (simp add: insightsGroup_def rank_codec_def)
  then obtain gs0 where "decode_all (insightsGroup rank_codec) (top_rows (of_scan 7 db) 10) = Some gs0" by blast
  moreover have "js_toResult rank_codec t = Some blank_result" for t by (simp add: rank_codec_def)
  ultimately obtain sn' where sn': "GetInsightsScan rank_codec 7 10 db = Inr sn'" by (simp add: GetInsightsScan_def f)
  have reply: "svc_Snapshot rank_codec demo_service 7 ?s = Replied (Inr sn')"
    using demo_enabled sn' by (simp add: svc_Snapshot_def snapshotStore_def awaitSnapshot_def insightsTopGroups_def)
  obtain res gs where g: "Option.bind (js_Result rank_codec (sc_Result demo_scan)) (js_toResult rank_codec) = Some res"
      "sn' = with_groups gs (demo_scan\<lparr>sc_Result := res\<rparr>)" "map Some gs = map (reread rank_codec 7) (sm_Groups (sx_Plans r))"
    using snapshot_repeats_the_answer [OF db(1) _ r reply] by auto
  have "res = blank_result" using g(1) by (simp add: rank_codec_def)
  then have "sm_Groups (sx_Plans (sc_Result sn')) = gs"
    by (simp add: g(2) with_groups_def blank_result_def plans_Summary_def NewPlans_def number_groups_def Let_def case_prod_beta)
  then show ?thesis using r db(1) reply map_eq_imp_length_eq [OF g(3)] by auto
qed

definition demo_page :: "nat \<Rightarrow> GroupsQuery" where
  "demo_page k = \<lparr>gq_ScanID = 7, gq_QueryID = None, gq_WithFindings = False, gq_Order = ''max'', gq_Limit = 1, gq_Offset = int k\<rparr>"

theorem pages_witness:
  "\<exists>s db pages. sn_store s = Some db
     \<and> (\<forall>k < 2. SnapshotGroups rank_codec demo_service (demo_page k) s = Replied (Inr (pages k)))
     \<and> map Some (concat (map (\<lambda>k. gp_Rows (pages k)) [0..<2])) = map (js_toRow rank_codec \<circ> tg_group_row) (listed_rows rank_codec (demo_page 0) db)
     \<and> length (listed_rows rank_codec (demo_page 0) db) = 2"
proof -
  obtain db where db: "SaveInsightsScan rank_codec demo_scan demo_groups empty_db = Inr db"
    by (rule demo_save [OF demo_groups_numbered])
  let ?s = "\<lparr>sn_store = Some db, sn_pending = []\<rparr>"
  have id: "sc_ID demo_scan = 7" by (simp add: demo_scan_def)
  obtain rs summary where rs: "groups_rows rank_codec 7 demo_groups = Some rs" "of_scan 7 db = rs"
      "find (\<lambda>r. tr_scan_id r = 7) (db_scans db) = Some (scans_row_of demo_scan summary)"
    by (rule saved_rows [OF db]) (auto simp: of_scan_def empty_db_def id)
  have listed: "listed_row rank_codec (demo_page k) r" for k r by (simp add: listed_row_def demo_page_def)
  have two: "length (listed_rows rank_codec (demo_page 0) db) = 2"
  proof -
    have "gq_ScanID (demo_page 0) = 7" by (simp add: demo_page_def)
    then show ?thesis using groups_rows_nth [OF rs(1)] by (simp add: listed_rows_def listed rs(2) demo_groups_def)
  qed
  have ex: "7 \<in> tr_scan_id ` set (db_scans db)" using find_Some_iff [THEN iffD1, OF rs(3)] by (metis imageI nth_mem)
  have "decode_all (js_toRow rank_codec \<circ> tg_group_row) xs \<noteq> None" for xs :: "groups_row list"
    by (rule decode_all_total) (simp add: rank_codec_def)
  then have "\<exists>page. ListInsightsGroups rank_codec (demo_page k) db = Inr page" for k
    unfolding ListInsightsGroups_def using ex by (auto simp: demo_page_def split: option.split)
  then obtain pages where pages: "\<And>k. ListInsightsGroups rank_codec (demo_page k) db = Inr (pages k)" by metis
  have dp: "(demo_page 0)\<lparr>gq_Limit := 1, gq_Offset := int k\<rparr> = demo_page k" "listing (demo_page k) = demo_page k" for k
    by (simp_all add: demo_page_def listing_def)
  have reply: "SnapshotGroups rank_codec demo_service (demo_page k) ?s = Replied (Inr (pages k))" for k
  proof -
    have "(demo_page k)\<lparr>gq_Order := ''max'', gq_Limit := 1, gq_Offset := int k\<rparr> = demo_page k" by (simp add: demo_page_def)
    then show ?thesis using pages [of k] demo_enabled
      by (simp add: SnapshotGroups_def snapshotStore_def awaitSnapshot_def pageBounds_def maxGroupPageSize_def demo_page_def Let_def)
  qed
  have "gp_Total p = length (listed_rows rank_codec (demo_page 0) db)" if "ListInsightsGroups rank_codec (demo_page 0) db = Inr p" for p
    using that by (auto simp: ListInsightsGroups_def split: if_splits option.splits)
  then have tot: "gp_Total (pages 0) \<le> 2 * 1" using pages [of 0] two by simp
  have "map Some (concat (map (\<lambda>k. gp_Rows (pages k)) [0..<2])) = map (js_toRow rank_codec \<circ> tg_group_row) (listed_rows rank_codec (demo_page 0) db)"
    using pages_list_every_group_once [of ?s db 1 2 rank_codec demo_service "demo_page 0" pages] reply tot by (simp add: dp)
  then show ?thesis using reply two by (intro exI [of _ ?s] exI [of _ db] exI [of _ pages]) simp
qed

end
