(* ===== verification/Spec2Isabelle.thy ===== *)
theory Spec2Isabelle
  imports Health_Rules Health_PerDB Health_Standby Autosnapshot_Jobs Stat_IO Hot_Capture
    Explain_Layout Explain_Idents Explain_JSON Schema_Report
    Activity_Profile Activity_Sampler Advisor_Sound
    Log_OpenSearch_Store Log_Snapshots_Demo
begin

text \<open>
  A verification library for the backend of dasha, a monitoring service for PostgreSQL
  clusters. Paths below are relative to \<^verbatim>\<open>src/backend/internal\<close>.

  \<^bold>\<open>The program.\<close> The backend polls the instances of the configured and discovered
  clusters, rates their health, records snapshots when activity or roles change, keeps
  histories of I/O statistics and of the hottest tables and indexes in its own storage, samples
  the sessions of an instance, analyses query plans, searches and summarises server logs, checks
  schemas and advises on indexes. The parts modelled here are the ones that decide something.
  They meet as follows: the daemon sweeps the clusters of the registry, samples their hosts, masks
  and scores lock captures, and hands captures to the histories; the health rules use the
  schema-lint levels and the cold tables of the hot-objects history; the plan rules use the
  severities of the health rules; log search reads the clusters of the registry and masks what it
  shows; the plans found in logs go through the plan parsers, the rules and the fingerprint.

  \<^bold>\<open>Foundations.\<close> \<open>Prelude\<close> has 64-bit integers as \<open>int\<close> with the
  wrap-around written out (\<open>wrap64\<close>, \<open>in_i64\<close>), times and durations in nanoseconds
  with the saturating subtraction of package \<^verbatim>\<open>time\<close>, and generic list lemmas.
  \<open>Go_Float\<close> models \<^verbatim>\<open>float64\<close> as IEEE binary64 over exact rationals: every
  operation rounds to nearest even, overflows to infinity and knows NaN; negative zero is not
  distinguished and no fused operation is assumed. \<open>Go_Strings\<close> and \<open>Go_Regexp\<close>
  model the functions of \<^verbatim>\<open>strings\<close>, \<^verbatim>\<open>strconv\<close> and
  \<^verbatim>\<open>regexp\<close> in use: a string is its list of bytes, white space is that of ASCII, a
  pattern denotes its matches in the order a backtracking search finds them. \<open>Go_Utf8\<close>
  has the runes of a string as Go reads them.

  \<^bold>\<open>Health score\<close> (\<^verbatim>\<open>health/\<close>, \<^verbatim>\<open>schemalint/config.go\<close>).
  \<open>Schema_Lint\<close>: headroom levels of sequences. \<open>Health_Metrics\<close>: the raw metrics of
  a snapshot as a record, field by field. \<open>Health_Weights\<close>, \<open>Health_Score\<close>: weights
  with validation and normalisation, the eight penalties, instance adjustments, redistribution
  of dropped weights, the critical ceiling and the aggregate, one definition per function of
  \<^verbatim>\<open>score.go\<close>. \<open>Health_Aggregate\<close> and \<open>Health_Standby\<close> show that every
  score is a number from 0 to 100, that a critical condition caps it at 30, that a
  standby's score ignores maintenance metrics, and that accepted weights can overflow to a score of
  100. \<open>Health_Rules\<close>: the 39 rules and the report; it is exactly the triggered applicable
  rules, strictly ordered, correctly attributed, and explains every capped score.
  \<open>Health_PerDB\<close>: the per-database drilldown.

  \<^bold>\<open>Auto-snapshot daemon\<close> (\<^verbatim>\<open>autosnapshot/\<close>).
  \<open>Autosnapshot_Config\<close>: configuration, overrides, validation; accepted overrides stay
  valid, nulls are rejected at every depth, and the doubled duration of the window rule wraps.
  \<open>Autosnapshot_Spike\<close>: the state machine of one host. \<open>Autosnapshot_Daemon\<close>: the
  sweep over clusters and hosts with an explicit daemon state, the two triggers, the snapshot with
  its events, and delayed snapshots; storage and sampling are an environment whose answers, errors
  included, are arbitrary. \<open>Autosnapshot_Incidents\<close>: over every run the drops answer the
  spikes, no sweep dereferences a missing start, a spike is recorded exactly under the documented
  conditions, a recovery takes one drop, thresholds stay frozen, role changes and events are
  exact. \<open>Autosnapshot_Jobs\<close>: cron due times, captures and retention. \<open>Sanitize\<close>
  and \<open>Lock_Capture\<close>: masking of credentials and the choice of the harshest lock probe.

  \<^bold>\<open>Cluster registry\<close> (\<^verbatim>\<open>config/config.go\<close>). \<open>Cluster_Registry\<close>:
  updates by sources; published names stay distinct and an update touches its own source only.

  \<^bold>\<open>Histories.\<close> \<open>Stat_IO\<close> (\<^verbatim>\<open>statio/statio.go\<close>): deltas, grouping
  and reduction of pg_stat_io captures, and the plan that loads few captures; the series assembled
  from it refines the sums of all adjacent deltas. \<open>Hot_Objects\<close>
  (\<^verbatim>\<open>hotobjects/\<close>): ranking of objects, histograms, cold tables; the top is the hottest
  part and its deltas are the sums over hosts. \<open>Hot_Capture\<close>
  (\<^verbatim>\<open>autosnapshot/hot.go\<close>, \<^verbatim>\<open>storage/hotobjects.go\<close>): captures with
  the storage transaction, failures included; complete windows of a host abut.

  \<^bold>\<open>Plan analysis\<close> (\<^verbatim>\<open>explain/\<close>). \<open>Explain_Plan\<close>: the plan tree,
  the shape fingerprint (SHA-256 is a parameter) and the fifteen rules, each an interpretation of
  the contract \<open>plan_rule\<close>; the report accounts for the whole catalogue and pins each finding
  to its node, and the fingerprint's byte stream determines the shape. \<open>Explain_Text\<close>: the
  parser of the indented format. \<open>Explain_Layout\<close>: the layout as \<^verbatim>\<open>EXPLAIN\<close>
  prints it, and that parsing it gives the tree back. \<open>Explain_Idents\<close>: quoted names in labels.
  \<open>Explain_JSON\<close>: the JSON parser over decoded structures and the detection of the format;
  the three parsers are interpretations of the contract \<open>plan_parser\<close>. The theorem below
  joins parsers and rules.

  \<^bold>\<open>Schema report\<close> (\<^verbatim>\<open>schemalint/\<close>). \<open>Schema_Report\<close>: the registry of
  checks, the plan of queries that serves it, the roll-up of partitions and the report; it is
  sorted, complete for its roots and independent of the sort in use.

  \<^bold>\<open>Activity\<close> (\<^verbatim>\<open>activity/\<close>). \<open>Activity\<close>: wait classes, the key of a
  statement and the settings. \<open>Activity_Profile\<close>: the single pass over samples refines a
  specification by counting. \<open>Activity_Sampler\<close>: the sampler's critical sections as steps;
  in every interleaving an answer is the last sample stored for the asked host, and fresh.

  \<^bold>\<open>Index advisor\<close> (\<^verbatim>\<open>indexadvisor/\<close>). \<open>Advisor_Catalog\<close>: relations,
  columns and existing indexes. \<open>Advisor_Predicate\<close>: predicates of partial indexes, printed
  and read back. \<open>Advisor_DDL\<close>: free names and the script of an index, partitions included.
  \<open>Advisor_Build\<close>: candidates from the statements. \<open>Advisor_Sound\<close>: candidates are
  worth building, every statement is answered, and a report is always produced.

  \<^bold>\<open>Log insights\<close> (\<^verbatim>\<open>logs/insights/\<close>, \<^verbatim>\<open>logs/pattern/\<close>).
  \<open>Log_Pattern\<close>: message templates. \<open>Log_Classify\<close>: auto_explain records and the
  categories. \<open>Log_Plans\<close>, \<open>Log_Plans_Sound\<close>, \<open>Log_Plans_Groups\<close>: the
  plans of a window, grouped by statement and shape; percentiles are the exact nearest ranks, the
  summary accounts for every record, and a cut list serves both rankings. \<open>Log_Categories\<close>:
  exact counts per category and template. \<open>Log_Compare\<close>: two windows compared; the
  regressions are exactly the statements that changed for the worse. \<open>Log_Insights\<close>
  (\<^verbatim>\<open>logs/insights.go\<close>, \<^verbatim>\<open>plans.go\<close>, \<^verbatim>\<open>settings.go\<close>, \<^verbatim>\<open>evidence.go\<close>): the reads
  of a window within their budgets and the settings of the hosts. \<open>Log_Insights_Sound\<close>: a
  complete answer accounts for the whole window, groups belong to the statements asked for, and
  filters run by the store lose none. \<open>Log_Storage\<close>, \<open>Log_Storage_Sound\<close>
  (\<^verbatim>\<open>storage/log_insights.go\<close>): the tables of stored scans and their queries; the query for the top
  groups agrees with the cut of the answer. \<open>Log_Snapshots\<close> (\<^verbatim>\<open>logs/snapshot.go\<close>,
  \<^verbatim>\<open>compare.go\<close>): stored scans as a state machine with background writes, and the endpoints
  that take and compare scans. \<open>Log_Snapshots_Sound\<close>: over every run a read finds a scan whole
  or not at all and repeats its answer, and pages list every group once. \<open>Log_Snapshots_Demo\<close>:
  such a run.

  \<^bold>\<open>Log search\<close> (\<^verbatim>\<open>logs/service.go\<close>, \<^verbatim>\<open>logs/scan.go\<close>,
  \<^verbatim>\<open>logs/source/\<close>). \<open>Log_Source\<close>: field maps, the interface of a source and the
  registry of sources. \<open>Log_Search\<close>: validation, scanning, filtering, masking, pages and
  groups. \<open>Log_Search_Sound\<close>: answers are masked, and over any source that meets the contract
  \<open>cursor_source\<close> the pages a client follows hold every match once. \<open>Log_Search_Dedup\<close>:
  groups account for the matches. \<open>Log_OpenSearch\<close>: the batched read of an index with its
  resume cursor. \<open>Log_OpenSearch_Sound\<close>: over a store that answers by timestamp, contract
  \<open>search_store\<close>, the read delivers each document once and meets \<open>cursor_source\<close>, so
  that service and source together are complete. \<open>Log_OpenSearch_Store\<close>: such a store.

  \<^bold>\<open>Termination and bounds.\<close> All definitions are total functions: loops over lists are
  structural and most others have a decreasing length. Three loops of the source have no bound of
  their own and get fuel, with theorems that it is enough: the search for a free index name (one
  attempt more than ten and twelve per taken name), the descent into partitions (one step more
  than there are relations), and the batches of an index read (one more than there are
  documents); a client that follows pages is ready for as many requests. Numeric hypotheses are
  those of the machine types (\<open>in_i64\<close>) or stated in the theorem.

  \<^bold>\<open>Simplifications.\<close> Subtracting days from a time has no overflow. The two statements of
  \<open>GetInsightsScan\<close> are one read, although no transaction joins them, so a truncation of the
  tables between them is not seen; the commit of a background write and the release of its waiters
  are one step. The environment of the daemon answers the same for a host throughout one tick. The
  conversion of a string to runes and back is the identity, which holds for valid UTF-8.

  \<^bold>\<open>Parameters.\<close> Third-party code is an argument of the definitions that use it: the cron
  parser, the identifier quoting of pgx, the sort of equal keys, SHA-256, the JSON decoder, the
  SQL parser that fingerprints statements, the database drivers behind the daemon's environment,
  the log store with the encoding of its cursor, the encoding of stored scans to JSON, and the
  tables of Unicode case.

  \<^bold>\<open>Not modelled.\<close> The web frontend and the generated API code; the HTTP handlers,
  sessions, authentication and rate limits; the SQL of the repository and storage packages beyond
  the hot-objects transaction and the stored log scans; discovery of clusters; the evidence and
  the service around the index advisor, and the walk over parsed SQL that feeds it; the
  VictoriaLogs and Yandex sources and the HTTP transport of log stores; the MCP server; the
  schema-lint checks that run in the database; configuration loading and process start-up; the
  leader election and the ticker loop around a sweep. They are input and output around the modelled
  parts, or translate between formats.
\<close>

section \<open>Parsers and rules together\<close>

text \<open>
  C18: a parsed plan claims what it can back up. For every body the parser accepts, in either
  format, the capabilities say measurements, buffers and settings exactly when some node has
  measurements, some node has buffers, or settings were printed; so in the report on the plan some
  rule is dormant for lack of measurements exactly when no node of the plan was measured. Timing is
  claimed whenever an execution time was printed or some node took time (and possibly beyond that:
  a printed time of zero also claims it), and some rule is dormant for lack of timing exactly when it
  is not claimed.
\<close>

theorem parsed_plan_is_honest:
  assumes "ParsePlan dec input src = Inr p"
  shows "caps_Actual (Caps p) = some_node measured p
    \<and> caps_Buffers (Caps p) = some_node buffered p
    \<and> caps_Settings (Caps p) = (Settings p \<noteq> [])
    \<and> (ExecutionTime p \<noteq> None \<or> some_node clocked p \<longrightarrow> caps_Timing (Caps p))
    \<and> (\<exists>d\<in>set (snd (EvaluatePlan p ctx)). ''actual'' \<in> set (Missing d)) = (\<not> some_node measured p)
    \<and> (\<exists>d\<in>set (snd (EvaluatePlan p ctx)). ''timing'' \<in> set (Missing d)) = (\<not> caps_Timing (Caps p))"
  using any_format.backs_actual [OF assms] any_format.backs_buffers [OF assms] any_format.backs_settings [OF assms]
    any_format.backs_timing [OF assms] any_format.dormant_actual [OF assms, of ctx] dormant_for_want(2) [of p ctx]
  by blast

definition no_decoder :: decoder where
  "no_decoder = \<lparr>decode_list = \<lambda>_. Inl ''none'', decode_plan = \<lambda>_. Inl ''none'', format_float = \<lambda>_. []\<rparr>"

theorem parsed_plan_is_honest_witness:
  "\<exists>p. ParsePlan no_decoder ''Result  (cost=0.00..0.01 rows=1 width=4)'' SourceLog = Inr p \<and> \<not> caps_Actual (Caps p)
     \<and> (\<exists>d\<in>set (snd (EvaluatePlan p \<lparr>WorkMemKB = None, TableRows = []\<rparr>)). ''actual'' \<in> set (Missing d))"
proof -
  let ?parsed = "ParsePlan no_decoder ''Result  (cost=0.00..0.01 rows=1 width=4)'' SourceLog"
  have e: "case ?parsed of Inl _ \<Rightarrow> False | Inr p \<Rightarrow> \<not> some_node measured p" by code_simp
  then obtain p where p: "?parsed = Inr p" by (cases ?parsed) auto
  then have "\<not> some_node measured p" using e by simp
  then show ?thesis
    using p parsed_plan_is_honest [OF p, of "\<lparr>WorkMemKB = None, TableRows = []\<rparr>"] by blast
qed

end
